(* ===== verification/Onix_Prelude.thy ===== *)
theory Onix_Prelude
  imports Main "HOL-Library.Word" "HOL-Library.Monad_Syntax" "HOL-Library.Signed_Division"
begin

section \<open>Shared vocabulary of the Onix development\<close>

text \<open>
  The C types of \<^verbatim>\<open>src/include/onix/types.h\<close>, the way a halt of the kernel is written, and
  the generic facts on options, words, lists and byte sequences that the component theories share.

  Every operation that can fail an \<^verbatim>\<open>assert\<close>, call \<^verbatim>\<open>panic\<close>, dereference NULL or
  leave the buffer it works on returns an \<open>option\<close>: \<open>None\<close> is the machine stopped at that
  point (\<^verbatim>\<open>assertion_failure\<close> and \<^verbatim>\<open>panic\<close> never return), \<open>Some r\<close> is a normal
  return. The error codes of the code (\<^verbatim>\<open>-EINVAL\<close> and so on) are ordinary return values.
\<close>

unbundle bit_operations_syntax

type_synonym u8 = "8 word"
type_synonym u16 = "16 word"
type_synonym u32 = "32 word"
type_synonym u64 = "64 word"

named_theorems halt_simps \<open>facts that reduce "this operation returned" to its guards\<close>
named_theorems frame_simps \<open>facts on the fields and cells an operation leaves alone\<close>

subsection \<open>Assertions\<close>

definition kassert :: "bool \<Rightarrow> unit option" where
  "kassert b = (if b then Some () else None)"

lemma kassert_simps [simp, code]: "kassert True = Some ()" "kassert False = None"
  by (simp_all add: kassert_def)

lemma kassert_Some [simp, halt_simps]: "kassert b = Some u \<longleftrightarrow> b"
  by (simp add: kassert_def)

lemma kassert_None [simp, halt_simps]: "kassert b = None \<longleftrightarrow> \<not> b"
  by (simp add: kassert_def)

lemma kassert_bind [simp]: "b \<Longrightarrow> Option.bind (kassert b) f = f ()"
  by (simp add: kassert_def)

lemma kassert_bind_False [simp]: "\<not> b \<Longrightarrow> Option.bind (kassert b) f = None"
  by (simp add: kassert_def)

lemma kassert_bind_Some [halt_simps]:
  "Option.bind (kassert b) f = Some y \<longleftrightarrow> b \<and> f () = Some y"
  by (simp add: kassert_def)

lemma bind_Some_iff [halt_simps]:
  "Option.bind m f = Some y \<longleftrightarrow> (\<exists>x. m = Some x \<and> f x = Some y)"
  by (cases m) auto

subsection \<open>Sequences of operations\<close>

text \<open>One operation per element of a list, stopping at the first halt; and \<open>k\<close> removals in a row.\<close>

fun each :: "('s \<Rightarrow> 'a \<Rightarrow> 's option) \<Rightarrow> 's \<Rightarrow> 'a list \<Rightarrow> 's option" where
  "each f s [] = Some s"
| "each f s (x # xs) = do { s \<leftarrow> f s x; each f s xs }"

fun drain :: "nat \<Rightarrow> ('s \<Rightarrow> ('a \<times> 's) option) \<Rightarrow> 's \<Rightarrow> ('a list \<times> 's) option" where
  "drain 0 f s = Some ([], s)"
| "drain (Suc k) f s = do { (x, s) \<leftarrow> f s; (xs, s) \<leftarrow> drain k f s; Some (x # xs, s) }"

subsection \<open>Words\<close>

lemma unat_plus_small: "unat a + unat b < 2 ^ LENGTH('a) \<Longrightarrow> unat (a + b) = unat a + unat b"
  for a b :: "'a::len word"
  by (simp add: unat_word_ariths)

lemma unat_mult_small: "unat a * unat b < 2 ^ LENGTH('a) \<Longrightarrow> unat (a * b) = unat a * unat b"
  for a b :: "'a::len word"
  by (simp add: unat_word_ariths)

lemma unat_minus_le: "b \<le> a \<Longrightarrow> unat (a - b) = unat a - unat b"
  for a b :: "'a::len word"
  by (rule unat_sub)

lemma unat_of_nat_small: "n < 2 ^ LENGTH('a) \<Longrightarrow> unat (of_nat n :: 'a::len word) = n"
  by (simp add: unat_of_nat take_bit_nat_eq_self)

lemma sint_inject [simp]: "sint a = sint b \<longleftrightarrow> a = b" for a b :: "'a::len word"
  by (auto intro: signed_word_eqI)

lemma sint_small:
  fixes w :: u32
  assumes "unat w < 2147483648"
  shows "sint w = int (unat w)"
proof -
  have u: "int (unat w) = uint w" by simp
  then have "uint w < 2147483648" using assms by linarith
  moreover have "0 \<le> uint w" by simp
  ultimately have "signed_take_bit 31 (uint w) = uint w" by (intro signed_take_bit_int_eq_self) (rule order_trans [of _ 0], simp_all)
  then show ?thesis by (simp add: sint_uint)
qed

lemma unat_u32_bound: "unat (a :: u32) < 4294967296"
  using unsigned_less [where w = a and 'a = nat] by simp

lemma unat_u16_bound: "unat (a :: u16) < 65536"
  using unsigned_less [where w = a and 'a = nat] by simp

lemma unat_u8_bound: "unat (a :: u8) < 256"
  using unsigned_less [where w = a and 'a = nat] by simp

lemma unat_push_bit_small:
  "unat w * 2 ^ k < 2 ^ LENGTH('a) \<Longrightarrow> unat (push_bit k w) = unat w * 2 ^ k"
  for w :: "'a::len word"
  by (simp only: unsigned_push_bit_eq push_bit_eq_mult [where ?'a = nat] take_bit_nat_eq_self)

lemma sint_of_nat: "i < 2147483648 \<Longrightarrow> sint (of_nat i :: u32) = int i"
  by (subst sint_small) (simp_all add: unat_of_nat_small)

lemma of_nat_u32_eq: "i < 4294967296 \<Longrightarrow> j < 4294967296 \<Longrightarrow> of_nat i = (of_nat j :: u32) \<longleftrightarrow> i = j"
proof
  assume a: "i < 4294967296" "j < 4294967296" and eq: "of_nat i = (of_nat j :: u32)"
  have "i = unat (of_nat i :: u32)" using a(1) by (intro unat_of_nat_small [symmetric]) simp
  also have "\<dots> = unat (of_nat j :: u32)" by (simp only: eq)
  also have "\<dots> = j" using a(2) by (intro unat_of_nat_small) simp
  finally show "i = j" .
qed simp

lemma unat_ucast_u32:
  "unat (ucast (w :: u16) :: u32) = unat w" "unat (ucast (b :: u8) :: u32) = unat b"
  using unat_u16_bound [of w] unat_u8_bound [of b] by (simp_all add: unsigned_ucast_eq take_bit_nat_eq_self)

text \<open>Division and remainder of two ints, which truncate.\<close>

definition idiv :: "u32 \<Rightarrow> u32 \<Rightarrow> u32" where "idiv a b = word_of_int (sint a sdiv sint b)"
definition imod :: "u32 \<Rightarrow> u32 \<Rightarrow> u32" where "imod a b = word_of_int (sint a smod sint b)"

lemma idiv_of_nat:
  assumes "n < 2147483648" "k < 2147483648"
  shows "idiv (of_nat n) (of_nat k) = of_nat (n div k)" "imod (of_nat n) (of_nat k) = of_nat (n mod k)"
proof -
  note s = sint_of_nat
  show "idiv (of_nat n) (of_nat k) = of_nat (n div k)"
    unfolding idiv_def s [OF assms(1)] s [OF assms(2)] by (simp add: signed_divide_int_def sgn_if zdiv_int [symmetric])
  show "imod (of_nat n) (of_nat k) = of_nat (n mod k)"
    unfolding imod_def s [OF assms(1)] s [OF assms(2)] by (simp add: signed_modulo_int_def sgn_if zmod_int [symmetric])
qed

subsection \<open>Little-endian reads\<close>

text \<open>The multi-byte loads of the processor, lowest byte first.\<close>

definition read16 :: "(u32 \<Rightarrow> u8) \<Rightarrow> u32 \<Rightarrow> u16" where
  "read16 m a = ucast (m a) OR push_bit 8 (ucast (m (a + 1)))"

definition read32 :: "(u32 \<Rightarrow> u8) \<Rightarrow> u32 \<Rightarrow> u32" where
  "read32 m a = ucast (read16 m a) OR push_bit 16 (ucast (read16 m (a + 2)))"

definition read64 :: "(u32 \<Rightarrow> u8) \<Rightarrow> u32 \<Rightarrow> u64" where
  "read64 m a = ucast (read32 m a) OR push_bit 32 (ucast (read32 m (a + 4)))"

text \<open>The stores.\<close>

definition store16 :: "(u32 \<Rightarrow> u8) \<Rightarrow> u32 \<Rightarrow> u16 \<Rightarrow> (u32 \<Rightarrow> u8)" where
  "store16 m a w = m(a := ucast w, a + 1 := ucast (drop_bit 8 w))"

definition store32 :: "(u32 \<Rightarrow> u8) \<Rightarrow> u32 \<Rightarrow> u32 \<Rightarrow> (u32 \<Rightarrow> u8)" where
  "store32 m a w = m(a := ucast w, a + 1 := ucast (drop_bit 8 w), a + 2 := ucast (drop_bit 16 w), a + 3 := ucast (drop_bit 24 w))"

lemma read16_store16 [simp]: "read16 (store16 m a w) a = w"
proof -
  have "bit (read16 (store16 m a w) a) n = bit w n" if "n < 16" for n
    using that by (auto simp: read16_def store16_def bit_or_iff bit_push_bit_iff bit_ucast_iff bit_drop_bit_eq)
  then show ?thesis by (intro bit_word_eqI) simp
qed

lemma read16_store16_other: "b \<notin> {a, a + 1} \<Longrightarrow> b + 1 \<notin> {a, a + 1} \<Longrightarrow> read16 (store16 m a w) b = read16 m b"
  by (simp add: read16_def store16_def)

lemma read32_store32 [simp]: "read32 (store32 m a w) a = w"
proof (rule bit_word_eqI)
  fix n
  assume n: "n < LENGTH(32)"
  then consider "n < 8" | "8 \<le> n" "n < 16" | "16 \<le> n" "n < 24" | "24 \<le> n" by linarith
  then show "bit (read32 (store32 m a w) a) n = bit w n"
    using n by cases (auto simp: read32_def read16_def store32_def bit_or_iff bit_push_bit_iff bit_ucast_iff bit_drop_bit_eq add.assoc)
qed

end
