(* ===== verification/Onix_List.thy ===== *)
theory Onix_List
  imports Onix_Prelude "HOL-Library.Multiset"
begin

section \<open>The intrusive doubly linked list (src/lib/list.c)\<close>

text \<open>
  \<^verbatim>\<open>list_t\<close> is two sentinel nodes next to each other, \<^verbatim>\<open>head\<close> at the list's address and
  \<^verbatim>\<open>tail\<close> eight bytes further; members are \<^verbatim>\<open>list_node_t\<close> cells inside other objects. The
  state is the heap of nodes: the two fields of every address. Reading or writing through NULL
  is a fault (page 0 is never mapped). Loops over a corrupted list need not end, so they are
  partial functions into \<open>option\<close>.

  The relation \<open>list_rep h l xs\<close> says that list \<open>l\<close> holds exactly the nodes \<open>xs\<close> in
  order; every operation is shown to return and to have its effect on \<open>xs\<close>, and to leave the
  nodes of every other list alone.
\<close>

record list_heap =
  node_prev :: "u32 \<Rightarrow> u32"
  node_next :: "u32 \<Rightarrow> u32"

abbreviation NULL :: u32 where "NULL \<equiv> 0"

definition list_head :: "u32 \<Rightarrow> u32" where
  "list_head l = l"

definition list_tail :: "u32 \<Rightarrow> u32" where
  "list_tail l = l + 8"

subsection \<open>Field access\<close>

definition get_prev :: "list_heap \<Rightarrow> u32 \<Rightarrow> u32 option" where
  "get_prev h p = (if p = NULL then None else Some (node_prev h p))"

definition get_next :: "list_heap \<Rightarrow> u32 \<Rightarrow> u32 option" where
  "get_next h p = (if p = NULL then None else Some (node_next h p))"

definition set_prev :: "list_heap \<Rightarrow> u32 \<Rightarrow> u32 \<Rightarrow> list_heap option" where
  "set_prev h p v = (if p = NULL then None else Some (h\<lparr>node_prev := (node_prev h)(p := v)\<rparr>))"

definition set_next :: "list_heap \<Rightarrow> u32 \<Rightarrow> u32 \<Rightarrow> list_heap option" where
  "set_next h p v = (if p = NULL then None else Some (h\<lparr>node_next := (node_next h)(p := v)\<rparr>))"

lemmas field_defs = get_prev_def get_next_def set_prev_def set_next_def

subsection \<open>The operations\<close>

definition list_init :: "list_heap \<Rightarrow> u32 \<Rightarrow> list_heap option" where
  "list_init h l = do {
     h \<leftarrow> set_prev h (list_head l) NULL;
     h \<leftarrow> set_next h (list_tail l) NULL;
     h \<leftarrow> set_next h (list_head l) (list_tail l);
     set_prev h (list_tail l) (list_head l)
   }"

definition list_insert_before :: "list_heap \<Rightarrow> u32 \<Rightarrow> u32 \<Rightarrow> list_heap option" where
  "list_insert_before h anchor node = do {
     p \<leftarrow> get_prev h anchor;
     h \<leftarrow> set_prev h node p;
     h \<leftarrow> set_next h node anchor;
     p \<leftarrow> get_prev h anchor;
     h \<leftarrow> set_next h p node;
     set_prev h anchor node
   }"

definition list_insert_after :: "list_heap \<Rightarrow> u32 \<Rightarrow> u32 \<Rightarrow> list_heap option" where
  "list_insert_after h anchor node = do {
     h \<leftarrow> set_prev h node anchor;
     n \<leftarrow> get_next h anchor;
     h \<leftarrow> set_next h node n;
     n \<leftarrow> get_next h anchor;
     h \<leftarrow> set_prev h n node;
     set_next h anchor node
   }"

partial_function (option) list_search_from :: "list_heap \<Rightarrow> u32 \<Rightarrow> u32 \<Rightarrow> u32 \<Rightarrow> bool option" where
  "list_search_from h tail node next =
     (if next = tail then Some False
      else if next = node then Some True
      else do { n \<leftarrow> get_next h next; list_search_from h tail node n })"

declare list_search_from.simps [code]

definition list_search :: "list_heap \<Rightarrow> u32 \<Rightarrow> u32 \<Rightarrow> bool option" where
  "list_search h l node = do {
     next \<leftarrow> get_next h (list_head l);
     list_search_from h (list_tail l) node next
   }"

definition list_push :: "list_heap \<Rightarrow> u32 \<Rightarrow> u32 \<Rightarrow> list_heap option" where
  "list_push h l node = do {
     found \<leftarrow> list_search h l node;
     kassert (\<not> found);
     list_insert_after h (list_head l) node
   }"

definition list_remove :: "list_heap \<Rightarrow> u32 \<Rightarrow> list_heap option" where
  "list_remove h node = do {
     p \<leftarrow> get_prev h node;
     kassert (p \<noteq> NULL);
     n \<leftarrow> get_next h node;
     kassert (n \<noteq> NULL);
     h \<leftarrow> set_next h p n;
     n \<leftarrow> get_next h node;
     p \<leftarrow> get_prev h node;
     h \<leftarrow> set_prev h n p;
     h \<leftarrow> set_next h node NULL;
     set_prev h node NULL
   }"

definition list_empty :: "list_heap \<Rightarrow> u32 \<Rightarrow> bool option" where
  "list_empty h l = do {
     next \<leftarrow> get_next h (list_head l);
     Some (next = list_tail l)
   }"

definition list_pop :: "list_heap \<Rightarrow> u32 \<Rightarrow> (u32 \<times> list_heap) option" where
  "list_pop h l = do {
     e \<leftarrow> list_empty h l;
     kassert (\<not> e);
     node \<leftarrow> get_next h (list_head l);
     h \<leftarrow> list_remove h node;
     Some (node, h)
   }"

definition list_pushback :: "list_heap \<Rightarrow> u32 \<Rightarrow> u32 \<Rightarrow> list_heap option" where
  "list_pushback h l node = do {
     found \<leftarrow> list_search h l node;
     kassert (\<not> found);
     list_insert_before h (list_tail l) node
   }"

definition list_popback :: "list_heap \<Rightarrow> u32 \<Rightarrow> (u32 \<times> list_heap) option" where
  "list_popback h l = do {
     e \<leftarrow> list_empty h l;
     kassert (\<not> e);
     node \<leftarrow> get_prev h (list_tail l);
     h \<leftarrow> list_remove h node;
     Some (node, h)
   }"

partial_function (option) list_size_from :: "list_heap \<Rightarrow> u32 \<Rightarrow> u32 \<Rightarrow> u32 \<Rightarrow> u32 option" where
  "list_size_from h tail next sz =
     (if next = tail then Some sz
      else do { n \<leftarrow> get_next h next; list_size_from h tail n (sz + 1) })"

declare list_size_from.simps [code]

definition list_size :: "list_heap \<Rightarrow> u32 \<Rightarrow> u32 option" where
  "list_size h l = do {
     next \<leftarrow> get_next h (list_head l);
     list_size_from h (list_tail l) next 0
   }"

text \<open>
  \<^verbatim>\<open>element_node_key(node, offset)\<close> reads the \<^verbatim>\<open>int\<close> that lies \<open>offset\<close> bytes
  after the node; \<open>key\<close> is that read, so the comparison is signed.
\<close>

partial_function (option) list_sort_anchor ::
  "list_heap \<Rightarrow> u32 \<Rightarrow> (u32 \<Rightarrow> u32) \<Rightarrow> int \<Rightarrow> u32 \<Rightarrow> u32 option" where
  "list_sort_anchor h tail key k ptr =
     (if ptr = tail then Some tail
      else if sint (key ptr) > k then Some ptr
      else do { n \<leftarrow> get_next h ptr; list_sort_anchor h tail key k n })"

declare list_sort_anchor.simps [code]

definition list_insert_sort :: "list_heap \<Rightarrow> u32 \<Rightarrow> u32 \<Rightarrow> (u32 \<Rightarrow> u32) \<Rightarrow> list_heap option" where
  "list_insert_sort h l node key = do {
     ptr \<leftarrow> get_next h (list_head l);
     anchor \<leftarrow> list_sort_anchor h (list_tail l) key (sint (key node)) ptr;
     n \<leftarrow> get_next h node;
     kassert (n = NULL);
     p \<leftarrow> get_prev h node;
     kassert (p = NULL);
     list_insert_before h anchor node
   }"

subsection \<open>What a list holds\<close>

text \<open>\<open>dseg h p xs q\<close>: from node \<open>p\<close>, both directions of links run through \<open>xs\<close> to \<open>q\<close>.\<close>

fun dseg :: "list_heap \<Rightarrow> u32 \<Rightarrow> u32 list \<Rightarrow> u32 \<Rightarrow> bool" where
  "dseg h p [] q \<longleftrightarrow> node_next h p = q \<and> node_prev h q = p"
| "dseg h p (x # xs) q \<longleftrightarrow> node_next h p = x \<and> node_prev h x = p \<and> dseg h x xs q"

definition list_nodes :: "u32 \<Rightarrow> u32 list \<Rightarrow> u32 set" where
  "list_nodes l xs = insert l (insert (l + 8) (set xs))"

definition list_rep :: "list_heap \<Rightarrow> u32 \<Rightarrow> u32 list \<Rightarrow> bool" where
  "list_rep h l xs \<longleftrightarrow>
     dseg h l xs (l + 8) \<and> distinct (l # xs @ [l + 8]) \<and> NULL \<notin> list_nodes l xs \<and>
     node_prev h l = NULL \<and> node_next h (l + 8) = NULL"

text \<open>A node that is in no list, as \<^verbatim>\<open>list_remove\<close> leaves it.\<close>

definition unlinked :: "list_heap \<Rightarrow> u32 \<Rightarrow> bool" where
  "unlinked h n \<longleftrightarrow> node_prev h n = NULL \<and> node_next h n = NULL"

text \<open>Two heaps that agree outside a set of nodes.\<close>

definition same_outside :: "u32 set \<Rightarrow> list_heap \<Rightarrow> list_heap \<Rightarrow> bool" where
  "same_outside A h h' \<longleftrightarrow>
     (\<forall>a. a \<notin> A \<longrightarrow> node_prev h' a = node_prev h a \<and> node_next h' a = node_next h a)"

subsection \<open>Segments\<close>

lemma dseg_next: "dseg h p xs q \<Longrightarrow> node_next h p = hd (xs @ [q])"
  by (cases xs) auto

lemma dseg_prev: "dseg h p xs q \<Longrightarrow> node_prev h q = last (p # xs)"
  by (induction xs arbitrary: p) auto

lemma dseg_append: "dseg h p (xs @ x # ys) q \<longleftrightarrow> dseg h p xs x \<and> dseg h x ys q"
  by (induction xs arbitrary: p) auto

lemma dseg_split:
  "dseg h p (xs @ ys) q \<longleftrightarrow> dseg h p xs (hd (ys @ [q])) \<and> dseg h (last (p # xs)) ys q"
proof (induction xs arbitrary: p)
  case Nil
  then show ?case by (cases ys) auto
next
  case (Cons x xs)
  then show ?case by simp
qed

lemma dseg_cong:
  assumes "dseg h p xs q"
    and "\<And>a. a \<in> insert p (set xs) \<Longrightarrow> node_next h' a = node_next h a"
    and "\<And>a. a \<in> insert q (set xs) \<Longrightarrow> node_prev h' a = node_prev h a"
  shows "dseg h' p xs q"
  using assms
proof (induction xs arbitrary: p)
  case Nil
  then show ?case by simp
next
  case (Cons x xs)
  from Cons.prems have "dseg h' x xs q"
    by (intro Cons.IH) auto
  with Cons.prems show ?case by simp
qed

text \<open>A segment whose last link is turned to another node, and one whose first link is.\<close>

lemma dseg_to:
  assumes "dseg h p xs q" and "distinct (p # xs)" and "e = last (p # xs)"
    and "node_next h' e = n" and "node_prev h' n = e"
    and "\<And>a. a \<in> set (p # xs) \<Longrightarrow> a \<noteq> e \<Longrightarrow> node_next h' a = node_next h a"
    and "\<And>a. a \<in> set xs \<Longrightarrow> node_prev h' a = node_prev h a"
  shows "dseg h' p xs n"
  using assms
proof (induction xs arbitrary: p)
  case Nil
  then show ?case by simp
next
  case (Cons x xs)
  from Cons.prems have "dseg h' x xs n"
    by (intro Cons.IH) auto
  moreover have "e \<noteq> p"
    using Cons.prems(2,3) last_in_set [of "x # xs"] by auto
  then have "node_next h' p = node_next h p"
    using Cons.prems(6) [of p] by auto
  ultimately show ?case using Cons.prems by simp
qed

lemma dseg_from:
  assumes "dseg h p ys q" and "distinct (ys @ [q])" and "b = hd (ys @ [q])"
    and "node_next h' n = b" and "node_prev h' b = n"
    and "\<And>a. a \<in> set ys \<Longrightarrow> node_next h' a = node_next h a"
    and "\<And>a. a \<in> set (ys @ [q]) \<Longrightarrow> a \<noteq> b \<Longrightarrow> node_prev h' a = node_prev h a"
  shows "dseg h' n ys q"
proof (cases ys)
  case Nil
  with assms show ?thesis by simp
next
  case (Cons y zs)
  have "dseg h' y zs q"
    by (rule dseg_cong [of h]) (use assms Cons in auto)
  with assms Cons show ?thesis by simp
qed

subsection \<open>Linking and unlinking one node\<close>

definition link_between :: "list_heap \<Rightarrow> u32 \<Rightarrow> u32 \<Rightarrow> u32 \<Rightarrow> list_heap" where
  "link_between h p n a =
     h\<lparr>node_prev := (node_prev h)(n := p, a := n), node_next := (node_next h)(n := a, p := n)\<rparr>"

definition unlink_between :: "list_heap \<Rightarrow> u32 \<Rightarrow> u32 \<Rightarrow> u32 \<Rightarrow> list_heap" where
  "unlink_between h p n a =
     h\<lparr>node_prev := (node_prev h)(a := p, n := NULL), node_next := (node_next h)(p := a, n := NULL)\<rparr>"

lemma rep_links:
  assumes "list_rep h l (xs @ ys)"
  shows "node_next h (last (l # xs)) = hd (ys @ [l + 8])"
    and "node_prev h (hd (ys @ [l + 8])) = last (l # xs)"
    and "last (l # xs) \<noteq> NULL" and "hd (ys @ [l + 8]) \<noteq> NULL"
    and "last (l # xs) \<in> set (l # xs)" and "hd (ys @ [l + 8]) \<in> set (ys @ [l + 8])"
proof -
  from assms have d: "dseg h l xs (hd (ys @ [l + 8]))" "dseg h (last (l # xs)) ys (l + 8)"
    by (auto simp: list_rep_def dseg_split)
  show "node_next h (last (l # xs)) = hd (ys @ [l + 8])"
    using d(2) by (rule dseg_next)
  show "node_prev h (hd (ys @ [l + 8])) = last (l # xs)"
    using d(1) by (rule dseg_prev)
  show m: "last (l # xs) \<in> set (l # xs)" by (rule last_in_set) simp
  show k: "hd (ys @ [l + 8]) \<in> set (ys @ [l + 8])" by (rule hd_in_set) simp
  show "last (l # xs) \<noteq> NULL"
    using assms m by (auto simp: list_rep_def list_nodes_def)
  show "hd (ys @ [l + 8]) \<noteq> NULL"
    using assms k by (cases ys) (auto simp: list_rep_def list_nodes_def)
qed

lemma rep_link_between:
  assumes rep: "list_rep h l (xs @ ys)" and n: "n \<notin> list_nodes l (xs @ ys)" "n \<noteq> NULL"
  shows "list_rep (link_between h (last (l # xs)) n (hd (ys @ [l + 8]))) l (xs @ n # ys)"
proof -
  define p a where pa: "p = last (l # xs)" "a = hd (ys @ [l + 8])"
  let ?h' = "link_between h p n a"
  note links = rep_links [OF rep, folded pa]
  have dist: "distinct (l # xs)" "distinct (ys @ [l + 8])" "set (l # xs) \<inter> set (ys @ [l + 8]) = {}"
    using rep by (auto simp: list_rep_def list_nodes_def)
  have fresh: "n \<notin> set (l # xs)" "n \<notin> set (ys @ [l + 8])"
    using n by (auto simp: list_nodes_def)
  have d: "dseg h l xs a" "dseg h p ys (l + 8)"
    using rep by (auto simp: list_rep_def dseg_split pa)
  have ne: "a \<notin> set (l # xs)" "p \<notin> set (ys @ [l + 8])" "n \<noteq> a" "n \<noteq> p"
    using dist(3) fresh links(5,6) by blast+
  have "dseg ?h' l xs n"
    by (rule dseg_to [OF d(1) dist(1) pa(1)]) (use fresh ne in \<open>auto simp: link_between_def\<close>)
  moreover have "dseg ?h' n ys (l + 8)"
    by (rule dseg_from [OF d(2) dist(2) pa(2)])
      (use fresh ne links in \<open>auto simp: link_between_def\<close>)
  moreover have "node_prev ?h' l = node_prev h l" "node_next ?h' (l + 8) = node_next h (l + 8)"
    using fresh ne by (auto simp: link_between_def)
  ultimately show ?thesis
    using rep n unfolding pa [symmetric]
    by (auto simp: list_rep_def dseg_append list_nodes_def)
qed

lemma rep_unlink_between:
  assumes rep: "list_rep h l (xs @ n # ys)"
  shows "list_rep (unlink_between h (last (l # xs)) n (hd (ys @ [l + 8]))) l (xs @ ys)"
proof -
  define p a where pa: "p = last (l # xs)" "a = hd (ys @ [l + 8])"
  let ?h' = "unlink_between h p n a"
  have dist: "distinct (l # xs)" "distinct (ys @ [l + 8])" "set (l # xs) \<inter> set (ys @ [l + 8]) = {}"
      "n \<notin> set (l # xs)" "n \<notin> set (ys @ [l + 8])"
    using rep by (auto simp: list_rep_def list_nodes_def)
  have d: "dseg h l xs n" "dseg h n ys (l + 8)"
    using rep by (auto simp: list_rep_def dseg_append)
  have m: "p \<in> set (l # xs)" "a \<in> set (ys @ [l + 8])"
    unfolding pa by (rule last_in_set, simp) (rule hd_in_set, simp)
  have ne: "a \<notin> set (l # xs)" "p \<notin> set (ys @ [l + 8])" "p \<noteq> n" "a \<noteq> n"
    using dist m by blast+
  have "dseg ?h' l xs a"
    by (rule dseg_to [OF d(1) dist(1) pa(1)]) (use dist(4) ne in \<open>auto simp: unlink_between_def\<close>)
  moreover have "dseg ?h' p ys (l + 8)"
    by (rule dseg_from [OF d(2) dist(2) pa(2)])
      (use dist(5) ne in \<open>auto simp: unlink_between_def\<close>)
  moreover have "node_prev ?h' l = node_prev h l" "node_next ?h' (l + 8) = node_next h (l + 8)"
    using dist ne by (auto simp: unlink_between_def)
  ultimately show ?thesis
    using rep unfolding pa
    by (auto simp: list_rep_def dseg_split list_nodes_def)
qed

subsection \<open>Frames\<close>

lemma same_outside_refl [simp]: "same_outside A h h"
  by (simp add: same_outside_def)

lemma same_outside_mono: "same_outside A h h' \<Longrightarrow> A \<subseteq> B \<Longrightarrow> same_outside B h h'"
  by (auto simp: same_outside_def)

lemma same_outside_trans:
  "same_outside A h h' \<Longrightarrow> same_outside A h' h'' \<Longrightarrow> same_outside A h h''"
  by (auto simp: same_outside_def)

lemma list_rep_frame:
  assumes "list_rep h l xs" and "same_outside A h h'" and "A \<inter> list_nodes l xs = {}"
  shows "list_rep h' l xs"
proof -
  have "dseg h' l xs (l + 8)"
    by (rule dseg_cong [of h]) (use assms in \<open>auto simp: list_rep_def same_outside_def list_nodes_def\<close>)
  with assms show ?thesis
    by (auto simp: list_rep_def same_outside_def list_nodes_def)
qed

lemma unlinked_frame: "unlinked h n \<Longrightarrow> same_outside A h h' \<Longrightarrow> n \<notin> A \<Longrightarrow> unlinked h' n"
  by (simp add: unlinked_def same_outside_def)

lemma link_between_outside: "same_outside {p, n, a} h (link_between h p n a)"
  by (auto simp: same_outside_def link_between_def)

lemma unlink_between_outside: "same_outside {p, n, a} h (unlink_between h p n a)"
  by (auto simp: same_outside_def unlink_between_def)

lemma unlink_between_unlinked: "unlinked (unlink_between h p n a) n"
  by (simp add: unlinked_def unlink_between_def)

subsection \<open>What the loops compute\<close>

lemma list_rep_linked:
  assumes "list_rep h l xs" and "n \<in> set xs"
  shows "node_prev h n \<noteq> NULL" and "node_next h n \<noteq> NULL"
proof -
  from assms(2) obtain as bs where xs: "xs = as @ n # bs"
    by (meson split_list)
  from assms(1) xs have "list_rep h l (as @ (n # bs))" "list_rep h l ((as @ [n]) @ bs)"
    by auto
  from rep_links(2,3) [OF this(1)] rep_links(1,4) [OF this(2)]
  show "node_prev h n \<noteq> NULL" "node_next h n \<noteq> NULL" by auto
qed

lemma list_search_from_seg:
  assumes "dseg h p xs q" and "q \<notin> set xs" and "NULL \<notin> set xs"
  shows "list_search_from h q node (node_next h p) = Some (node \<in> set xs)"
  using assms
proof (induction xs arbitrary: p)
  case Nil
  then show ?case by (simp add: list_search_from.simps)
next
  case (Cons x xs)
  then have "list_search_from h q node (node_next h x) = Some (node \<in> set xs)" by simp
  with Cons.prems show ?case
    by (subst list_search_from.simps) (auto simp: get_next_def)
qed

lemma list_search_rep:
  assumes "list_rep h l xs"
  shows "list_search h l node = Some (node \<in> set xs)"
  using assms list_search_from_seg [of h l xs "l + 8" node]
  by (auto simp: list_search_def list_rep_def list_nodes_def list_head_def list_tail_def get_next_def)

lemma list_size_from_seg:
  assumes "dseg h p xs q" and "q \<notin> set xs" and "NULL \<notin> set xs"
  shows "list_size_from h q (node_next h p) k = Some (k + of_nat (length xs))"
  using assms
proof (induction xs arbitrary: p k)
  case Nil
  then show ?case by (simp add: list_size_from.simps)
next
  case (Cons x xs)
  then have "list_size_from h q (node_next h x) (k + 1) = Some (k + 1 + of_nat (length xs))" by simp
  with Cons.prems show ?case
    by (subst list_size_from.simps) (auto simp: get_next_def algebra_simps)
qed

lemma list_size_rep:
  assumes "list_rep h l xs"
  shows "list_size h l = Some (of_nat (length xs))"
  using assms list_size_from_seg [of h l xs "l + 8" 0]
  by (auto simp: list_size_def list_rep_def list_nodes_def list_head_def list_tail_def get_next_def)

lemma list_empty_rep:
  assumes "list_rep h l xs"
  shows "list_empty h l = Some (xs = [])"
  using assms
  by (cases xs) (auto simp: list_empty_def list_rep_def list_nodes_def list_head_def list_tail_def get_next_def)

text \<open>The position \<^verbatim>\<open>list_insert_sort\<close> looks for: after the last node whose key is not larger.\<close>

definition insert_sorted :: "(u32 \<Rightarrow> u32) \<Rightarrow> u32 \<Rightarrow> u32 list \<Rightarrow> u32 list" where
  "insert_sorted key n xs =
     takeWhile (\<lambda>x. sint (key x) \<le> sint (key n)) xs @ n #
     dropWhile (\<lambda>x. sint (key x) \<le> sint (key n)) xs"

lemma list_sort_anchor_seg:
  assumes "dseg h p xs q" and "q \<notin> set xs" and "NULL \<notin> set xs"
  shows "list_sort_anchor h q key k (node_next h p) =
     Some (hd (dropWhile (\<lambda>x. sint (key x) \<le> k) xs @ [q]))"
  using assms
proof (induction xs arbitrary: p)
  case Nil
  then show ?case by (simp add: list_sort_anchor.simps)
next
  case (Cons x xs)
  then have "list_sort_anchor h q key k (node_next h x) =
     Some (hd (dropWhile (\<lambda>x. sint (key x) \<le> k) xs @ [q]))" by simp
  with Cons.prems show ?case
    by (subst list_sort_anchor.simps) (auto simp: get_next_def)
qed

subsection \<open>What each operation does to the list\<close>

lemma list_insert_before_eq:
  assumes "anchor \<noteq> NULL" "node \<noteq> NULL" "node_prev h anchor \<noteq> NULL" "node \<noteq> anchor"
  shows "list_insert_before h anchor node = Some (link_between h (node_prev h anchor) node anchor)"
  using assms by (simp add: list_insert_before_def field_defs link_between_def)

lemma list_insert_after_eq:
  assumes "anchor \<noteq> NULL" "node \<noteq> NULL" "node_next h anchor \<noteq> NULL" "node \<noteq> anchor"
  shows "list_insert_after h anchor node = Some (link_between h anchor node (node_next h anchor))"
  using assms by (simp add: list_insert_after_def field_defs link_between_def)

lemma list_remove_eq:
  assumes "node \<noteq> NULL" "node_prev h node \<noteq> NULL" "node_next h node \<noteq> NULL" "node_prev h node \<noteq> node"
  shows "list_remove h node = Some (unlink_between h (node_prev h node) node (node_next h node))"
  using assms by (simp add: list_remove_def field_defs unlink_between_def)

lemma list_insert_before_rep:
  assumes rep: "list_rep h l (xs @ ys)" and n: "n \<notin> list_nodes l (xs @ ys)" "n \<noteq> NULL"
  shows "\<exists>h'. list_insert_before h (hd (ys @ [l + 8])) n = Some h' \<and> list_rep h' l (xs @ n # ys) \<and>
    same_outside (insert n (list_nodes l (xs @ ys))) h h'"
proof -
  note links = rep_links [OF rep]
  have ne: "n \<noteq> hd (ys @ [l + 8])"
    using n links(6) by (auto simp: list_nodes_def)
  have "same_outside (insert n (list_nodes l (xs @ ys))) h
      (link_between h (last (l # xs)) n (hd (ys @ [l + 8])))"
    by (rule same_outside_mono [OF link_between_outside])
      (use links(5,6) in \<open>auto simp: list_nodes_def\<close>)
  then show ?thesis
    using list_insert_before_eq [of "hd (ys @ [l + 8])" n h] links n ne rep_link_between [OF rep n]
    by auto
qed

lemma list_insert_after_rep:
  assumes rep: "list_rep h l (xs @ ys)" and n: "n \<notin> list_nodes l (xs @ ys)" "n \<noteq> NULL"
  shows "\<exists>h'. list_insert_after h (last (l # xs)) n = Some h' \<and> list_rep h' l (xs @ n # ys) \<and>
    same_outside (insert n (list_nodes l (xs @ ys))) h h'"
proof -
  note links = rep_links [OF rep]
  have ne: "n \<noteq> last (l # xs)"
    using n links(5) by (auto simp: list_nodes_def)
  have "same_outside (insert n (list_nodes l (xs @ ys))) h
      (link_between h (last (l # xs)) n (hd (ys @ [l + 8])))"
    by (rule same_outside_mono [OF link_between_outside])
      (use links(5,6) in \<open>auto simp: list_nodes_def\<close>)
  then show ?thesis
    using list_insert_after_eq [of "last (l # xs)" n h] links n ne rep_link_between [OF rep n]
    by auto
qed

lemma list_remove_rep:
  assumes rep: "list_rep h l (xs @ n # ys)"
  shows "\<exists>h'. list_remove h n = Some h' \<and> list_rep h' l (xs @ ys) \<and> unlinked h' n \<and>
    same_outside (list_nodes l (xs @ n # ys)) h h'"
proof -
  have rep': "list_rep h l ((xs @ [n]) @ ys)" using rep by simp
  have np: "node_prev h n = last (l # xs)" "last (l # xs) \<noteq> NULL" "n \<noteq> NULL"
    using rep_links(2-4) [OF rep] by simp_all
  have nn: "node_next h n = hd (ys @ [l + 8])" "hd (ys @ [l + 8]) \<noteq> NULL"
    using rep_links(1,4) [OF rep'] by simp_all
  have mem: "last (l # xs) \<in> set (l # xs)" "hd (ys @ [l + 8]) \<in> set (ys @ [l + 8])"
    using rep_links(5) [OF rep] rep_links(6) [OF rep'] by blast+
  moreover have "n \<notin> set (l # xs)"
    using rep by (auto simp: list_rep_def)
  ultimately have ne: "last (l # xs) \<noteq> n"
    by metis
  have "same_outside (list_nodes l (xs @ n # ys)) h
      (unlink_between h (last (l # xs)) n (hd (ys @ [l + 8])))"
    by (rule same_outside_mono [OF unlink_between_outside])
      (use mem in \<open>auto simp: list_nodes_def\<close>)
  moreover have "list_remove h n = Some (unlink_between h (last (l # xs)) n (hd (ys @ [l + 8])))"
    using list_remove_eq [of n h, unfolded np nn, OF np(3,2) nn(2) ne] .
  ultimately show ?thesis
    using rep_unlink_between [OF rep] unlink_between_unlinked by blast
qed

lemma list_init_rep:
  assumes "l \<noteq> NULL" and "l + 8 \<noteq> NULL"
  shows "\<exists>h'. list_init h l = Some h' \<and> list_rep h' l [] \<and> same_outside {l, l + 8} h h'"
  using assms
  by (simp add: list_init_def field_defs list_head_def list_tail_def list_rep_def list_nodes_def
      same_outside_def)

lemma list_push_rep:
  assumes "list_rep h l xs" and "n \<notin> list_nodes l xs" and "n \<noteq> NULL"
  shows "\<exists>h'. list_push h l n = Some h' \<and> list_rep h' l (n # xs) \<and>
    same_outside (insert n (list_nodes l xs)) h h'"
  using assms list_insert_after_rep [of h l "[]" xs n]
  by (auto simp: list_push_def list_search_rep list_head_def list_nodes_def)

lemma list_pushback_rep:
  assumes "list_rep h l xs" and "n \<notin> list_nodes l xs" and "n \<noteq> NULL"
  shows "\<exists>h'. list_pushback h l n = Some h' \<and> list_rep h' l (xs @ [n]) \<and>
    same_outside (insert n (list_nodes l xs)) h h'"
  using assms list_insert_before_rep [of h l xs "[]" n]
  by (auto simp: list_pushback_def list_search_rep list_tail_def list_nodes_def)

lemma list_pop_rep:
  assumes "list_rep h l (x # xs)"
  shows "\<exists>h'. list_pop h l = Some (x, h') \<and> list_rep h' l xs \<and> unlinked h' x \<and>
    same_outside (list_nodes l (x # xs)) h h'"
proof -
  have "get_next h (list_head l) = Some x"
    using assms by (auto simp: list_rep_def list_nodes_def get_next_def list_head_def)
  moreover obtain h' where "list_remove h x = Some h'" "list_rep h' l xs" "unlinked h' x"
      "same_outside (list_nodes l (x # xs)) h h'"
    using list_remove_rep [of h l "[]" x xs] assms by auto
  ultimately show ?thesis
    using list_empty_rep [OF assms] by (simp add: list_pop_def)
qed

lemma list_popback_rep:
  assumes "list_rep h l (xs @ [x])"
  shows "\<exists>h'. list_popback h l = Some (x, h') \<and> list_rep h' l xs \<and> unlinked h' x \<and>
    same_outside (list_nodes l (xs @ [x])) h h'"
proof -
  have "get_prev h (list_tail l) = Some x"
    using rep_links(2) [of h l "xs @ [x]" "[]"] rep_links(4) [of h l "xs @ [x]" "[]"] assms
    by (simp add: get_prev_def list_tail_def)
  moreover obtain h' where "list_remove h x = Some h'" "list_rep h' l xs" "unlinked h' x"
      "same_outside (list_nodes l (xs @ [x])) h h'"
    using list_remove_rep [of h l xs x "[]"] assms by auto
  ultimately show ?thesis
    using list_empty_rep [OF assms] by (simp add: list_popback_def)
qed

lemma list_remove_member:
  assumes "list_rep h l xs" and "n \<in> set xs"
  shows "\<exists>h'. list_remove h n = Some h' \<and> list_rep h' l (remove1 n xs) \<and> unlinked h' n \<and>
    same_outside (list_nodes l xs) h h'"
proof -
  from assms(2) obtain as bs where xs: "xs = as @ n # bs" and "n \<notin> set as"
    by (meson split_list_first)
  then have "remove1 n xs = as @ bs" by (simp add: remove1_append)
  with list_remove_rep [of h l as n bs] assms(1) xs show ?thesis by simp
qed

lemma list_insert_sort_rep:
  assumes rep: "list_rep h l xs" and n: "n \<notin> list_nodes l xs" "n \<noteq> NULL" and "unlinked h n"
  shows "\<exists>h'. list_insert_sort h l n key = Some h' \<and> list_rep h' l (insert_sorted key n xs) \<and>
    same_outside (insert n (list_nodes l xs)) h h'"
proof -
  let ?P = "\<lambda>x. sint (key x) \<le> sint (key n)"
  have "list_sort_anchor h (l + 8) key (sint (key n)) (node_next h l) =
      Some (hd (dropWhile ?P xs @ [l + 8]))"
    by (rule list_sort_anchor_seg) (use rep in \<open>auto simp: list_rep_def list_nodes_def\<close>)
  moreover have "l \<noteq> NULL"
    using rep by (auto simp: list_rep_def list_nodes_def)
  ultimately show ?thesis
    using list_insert_before_rep [of h l "takeWhile ?P xs" "dropWhile ?P xs" n] assms
    by (simp add: list_insert_sort_def get_next_def get_prev_def list_head_def list_tail_def
        unlinked_def insert_sorted_def)
qed

lemma insert_sorted_mset: "mset (insert_sorted key n xs) = add_mset n (mset xs)"
  by (induction xs) (auto simp: insert_sorted_def)

lemma insert_sorted_set: "set (insert_sorted key n xs) = insert n (set xs)"
  using arg_cong [OF insert_sorted_mset [of key n xs], of set_mset] by simp

lemma insert_sorted_sorted:
  assumes "sorted (map (\<lambda>x. sint (key x)) xs)"
  shows "sorted (map (\<lambda>x. sint (key x)) (insert_sorted key n xs))"
  using assms
proof (induction xs)
  case Nil
  then show ?case by (simp add: insert_sorted_def)
next
  case (Cons x xs)
  then have IH: "sorted (map (\<lambda>x. sint (key x)) (insert_sorted key n xs))" by simp
  show ?case
  proof (cases "sint (key x) \<le> sint (key n)")
    case True
    then have "insert_sorted key n (x # xs) = x # insert_sorted key n xs"
      by (simp add: insert_sorted_def)
    with IH True Cons.prems show ?thesis by (auto simp: insert_sorted_set)
  next
    case False
    then have "insert_sorted key n (x # xs) = n # x # xs"
      by (simp add: insert_sorted_def)
    with False Cons.prems show ?thesis by auto
  qed
qed

subsection \<open>A waiting queue\<close>

text \<open>
  The interface the kernel uses for waiting tasks: enter at one end, leave at the other.
  \<open>room\<close> says that an element may enter; \<open>rep\<close> is the content, latest arrival first.
\<close>

locale wait_queue =
  fixes rep :: "'h \<Rightarrow> 'a list \<Rightarrow> bool"
    and room :: "'a list \<Rightarrow> 'a \<Rightarrow> bool"
    and enter :: "'h \<Rightarrow> 'a \<Rightarrow> 'h option"
    and leave :: "'h \<Rightarrow> ('a \<times> 'h) option"
  assumes enter_rep: "rep h xs \<Longrightarrow> room xs n \<Longrightarrow> \<exists>h'. enter h n = Some h' \<and> rep h' (n # xs)"
    and leave_rep: "rep h (xs @ [x]) \<Longrightarrow> \<exists>h'. leave h = Some (x, h') \<and> rep h' xs"
    and room_after: "room xs m \<Longrightarrow> m \<noteq> n \<Longrightarrow> room (n # xs) m"
begin

lemma enter_all:
  assumes "rep h xs" and "distinct ns" and "\<And>n. n \<in> set ns \<Longrightarrow> room xs n"
  shows "\<exists>h'. each enter h ns = Some h' \<and> rep h' (rev ns @ xs)"
  using assms
proof (induction ns arbitrary: h xs)
  case Nil
  then show ?case by simp
next
  case (Cons n ns)
  from Cons.prems obtain h1 where h1: "enter h n = Some h1" "rep h1 (n # xs)"
    using enter_rep by fastforce
  moreover have "\<exists>h'. each enter h1 ns = Some h' \<and> rep h' (rev ns @ n # xs)"
  proof (rule Cons.IH [OF h1(2)])
    show "distinct ns" using Cons.prems by simp
    show "room (n # xs) m" if "m \<in> set ns" for m
      using room_after [of xs m n] Cons.prems that by auto
  qed
  ultimately show ?case by simp
qed

lemma leave_all:
  assumes "rep h xs"
  shows "\<exists>h'. drain (length xs) leave h = Some (rev xs, h') \<and> rep h' []"
  using assms
proof (induction xs arbitrary: h rule: rev_induct)
  case Nil
  then show ?case by simp
next
  case (snoc x xs)
  from leave_rep [OF snoc.prems] obtain h1 where "leave h = Some (x, h1)" "rep h1 xs" by blast
  with snoc.IH [of h1] show ?case by auto
qed

lemma served_in_order:
  assumes "rep h []" and "distinct ns" and "\<And>n. n \<in> set ns \<Longrightarrow> room [] n"
  shows "\<exists>h1 h2. each enter h ns = Some h1 \<and> drain (length ns) leave h1 = Some (ns, h2) \<and> rep h2 []"
proof -
  obtain h1 where h1: "each enter h ns = Some h1" "rep h1 (rev ns)"
    using enter_all [OF assms] by auto
  then show ?thesis
    using leave_all [OF h1(2)] by auto
qed

end

interpretation list_queue: wait_queue "\<lambda>h. list_rep h l"
    "\<lambda>xs n. n \<notin> list_nodes l xs \<and> n \<noteq> NULL" "\<lambda>h. list_push h l" "\<lambda>h. list_popback h l" for l
proof unfold_locales
  show "\<exists>h'. list_push h l n = Some h' \<and> list_rep h' l (n # xs)"
    if "list_rep h l xs" "n \<notin> list_nodes l xs \<and> n \<noteq> NULL" for h xs n
    using list_push_rep that by blast
  show "\<exists>h'. list_popback h l = Some (x, h') \<and> list_rep h' l xs"
    if "list_rep h l (xs @ [x])" for h xs x
    using list_popback_rep that by blast
  show "m \<notin> list_nodes l (n # xs) \<and> m \<noteq> NULL"
    if "m \<notin> list_nodes l xs \<and> m \<noteq> NULL" "m \<noteq> n" for xs m n
    using that by (auto simp: list_nodes_def)
qed

subsection \<open>Properties\<close>

text \<open>
  Sorted insertion. On a well-formed list sorted by the (signed) key, \<^verbatim>\<open>list_insert_sort\<close>
  of an unlinked node returns; the list then holds the same nodes and the new one, is still
  sorted, and every list that shares no node with it is as it was.
\<close>

theorem list_insert_sort_correct:
  assumes "list_rep h l xs" and "sorted (map (\<lambda>x. sint (key x)) xs)"
    and "n \<notin> list_nodes l xs" and "n \<noteq> NULL" and "unlinked h n"
  shows "\<exists>h' ys. list_insert_sort h l n key = Some h' \<and> list_rep h' l ys \<and>
    mset ys = add_mset n (mset xs) \<and> sorted (map (\<lambda>x. sint (key x)) ys) \<and>
    (\<forall>m zs. list_rep h m zs \<and> n \<notin> list_nodes m zs \<and> list_nodes m zs \<inter> list_nodes l xs = {} \<longrightarrow>
       list_rep h' m zs)"
proof -
  obtain h' where h': "list_insert_sort h l n key = Some h'" "list_rep h' l (insert_sorted key n xs)"
      "same_outside (insert n (list_nodes l xs)) h h'"
    using list_insert_sort_rep [of h l xs n key] assms by blast
  have "list_rep h' m zs"
    if "list_rep h m zs" "n \<notin> list_nodes m zs" "list_nodes m zs \<inter> list_nodes l xs = {}" for m zs
    by (rule list_rep_frame [OF that(1) h'(3)]) (use that in auto)
  then show ?thesis
    using h'(1,2) insert_sorted_mset insert_sorted_sorted [OF assms(2)] by blast
qed

text \<open>
  Waiting queues are fair. Tasks that enter an empty waiting list with \<^verbatim>\<open>list_push\<close> leave it
  through \<^verbatim>\<open>list_popback\<close> in the order they came, and no operation halts on the way.
\<close>

theorem list_queue_fifo:
  assumes "list_rep h l []" and "distinct ns" and "\<And>n. n \<in> set ns \<Longrightarrow> n \<notin> {l, l + 8, NULL}"
  shows "\<exists>h1 h2. each (\<lambda>h. list_push h l) h ns = Some h1 \<and>
    drain (length ns) (\<lambda>h. list_popback h l) h1 = Some (ns, h2) \<and> list_rep h2 l []"
  by (rule list_queue.served_in_order) (use assms in \<open>auto simp: list_nodes_def\<close>)

text \<open>A concrete heap for the witnesses: an empty list at \<open>0x100\<close> with every other node unlinked.\<close>

definition sample_heap :: list_heap where
  "sample_heap = \<lparr>node_prev = (\<lambda>_. NULL)(0x108 := 0x100), node_next = (\<lambda>_. NULL)(0x100 := 0x108)\<rparr>"

lemma sample_heap_rep: "list_rep sample_heap 0x100 []"
  by (simp add: list_rep_def sample_heap_def list_nodes_def)

theorem list_insert_sort_correct_witness:
  "\<exists>h' ys. list_insert_sort sample_heap 0x100 0x200 (\<lambda>a. a) = Some h' \<and> list_rep h' 0x100 ys \<and>
     mset ys = {#0x200#} \<and> sorted (map sint ys)"
  using list_insert_sort_correct [OF sample_heap_rep, where n = "0x200" and key = "\<lambda>a. a"]
  by (auto simp: list_nodes_def unlinked_def sample_heap_def)

theorem list_queue_fifo_witness:
  "\<exists>h1 h2. each (\<lambda>h. list_push h 0x100) sample_heap [0x200, 0x300, 0x400] = Some h1 \<and>
    drain (length [0x200, 0x300, 0x400 :: u32]) (\<lambda>h. list_popback h 0x100) h1 =
      Some ([0x200, 0x300, 0x400], h2) \<and> list_rep h2 0x100 []"
  by (rule list_queue_fifo [OF sample_heap_rep]) auto

end
