(* ===== verification/Onix_Bitmap.thy ===== *)
theory Onix_Bitmap
  imports Onix_Prelude
begin

section \<open>The bitmap (src/lib/bitmap.c)\<close>

text \<open>
  \<^verbatim>\<open>bitmap_t\<close> is a pointer to bytes, their number and the index of the first bit. The model
  holds the bytes of the buffer the pointer names; reading or writing outside them halts. The
  kernel's virtual page map, the per-process mmap area, the port maps and the Minix inode and zone
  maps are all such bitmaps.

  \<open>bm_bit m i\<close> is bit \<open>i\<close> of the buffer; \<open>bm_ok\<close> is what the code needs of a map. The main
  result is \<open>bitmap_scan_cases\<close>: the scan is first-fit and changes exactly the bits it returns.
\<close>

record bitmap_t =
  bits :: "u8 list"
  bm_length :: u32
  bm_offset :: u32

text \<open>\<^verbatim>\<open>EOF\<close> is \<^verbatim>\<open>-EEOF\<close>, that is \<open>-100\<close>, as the bit pattern of an \<^verbatim>\<open>int\<close>.\<close>

definition EEOF :: nat where
  "EEOF = 100"

definition EOF :: u32 where
  "EOF = - of_nat EEOF"

definition bitmap_make :: "u8 list \<Rightarrow> u32 \<Rightarrow> u32 \<Rightarrow> bitmap_t" where
  "bitmap_make buf len off = \<lparr>bits = buf, bm_length = len, bm_offset = off\<rparr>"

definition bitmap_init :: "u8 list \<Rightarrow> u32 \<Rightarrow> u32 \<Rightarrow> bitmap_t option" where
  "bitmap_init buf len start = do {
     kassert (unat len \<le> length buf);
     Some (bitmap_make (replicate (unat len) 0 @ drop (unat len) buf) len start)
   }"

definition bitmap_test :: "bitmap_t \<Rightarrow> u32 \<Rightarrow> bool option" where
  "bitmap_test m index = do {
     kassert (index \<ge> bm_offset m);
     let idx = index - bm_offset m;
     let bytes = idx div 8;
     let bts = idx mod 8;
     kassert (bytes < bm_length m);
     kassert (unat bytes < length (bits m));
     Some ((bits m ! unat bytes) AND push_bit (unat bts) 1 \<noteq> 0)
   }"

definition bitmap_set :: "bitmap_t \<Rightarrow> u32 \<Rightarrow> bool \<Rightarrow> bitmap_t option" where
  "bitmap_set m index value = do {
     kassert (index \<ge> bm_offset m);
     let idx = index - bm_offset m;
     let bytes = idx div 8;
     let bts = idx mod 8;
     kassert (unat bytes < length (bits m));
     let b = bits m ! unat bytes;
     Some (m\<lparr>bits := (bits m)[unat bytes :=
       (if value then b OR push_bit (unat bts) 1 else b AND NOT (push_bit (unat bts) 1))]\<rparr>)
   }"

text \<open>
  The search loop of \<^verbatim>\<open>bitmap_scan\<close>: \<open>left\<close> is \<^verbatim>\<open>bits_left\<close>; the result is \<^verbatim>\<open>start\<close>, which
  stays \<open>EOF\<close> when the loop runs out.
\<close>

fun bitmap_scan_find :: "bitmap_t \<Rightarrow> u32 \<Rightarrow> nat \<Rightarrow> u32 \<Rightarrow> u32 \<Rightarrow> u32 option" where
  "bitmap_scan_find m count 0 next_bit counter = Some EOF"
| "bitmap_scan_find m count (Suc left) next_bit counter = do {
     t \<leftarrow> bitmap_test m (bm_offset m + next_bit);
     let counter = (if \<not> t then counter + 1 else 0);
     let next_bit = next_bit + 1;
     if counter = count then Some (next_bit - count)
     else bitmap_scan_find m count left next_bit counter
   }"

fun bitmap_set_run :: "bitmap_t \<Rightarrow> u32 \<Rightarrow> nat \<Rightarrow> bitmap_t option" where
  "bitmap_set_run m next_bit 0 = Some m"
| "bitmap_set_run m next_bit (Suc left) = do {
     m \<leftarrow> bitmap_set m (bm_offset m + next_bit) True;
     bitmap_set_run m (next_bit + 1) left
   }"

definition bitmap_scan :: "bitmap_t \<Rightarrow> u32 \<Rightarrow> (u32 \<times> bitmap_t) option" where
  "bitmap_scan m count = do {
     start \<leftarrow> bitmap_scan_find m count (unat (bm_length m * 8)) 0 0;
     if start = EOF then Some (EOF, m)
     else do {
       m' \<leftarrow> bitmap_set_run m start (unat count);
       Some (start + bm_offset m', m')
     }
   }"

subsection \<open>Bits of a map\<close>

definition bm_bit :: "bitmap_t \<Rightarrow> nat \<Rightarrow> bool" where
  "bm_bit m i = bit (bits m ! (i div 8)) (i mod 8)"

definition bm_size :: "bitmap_t \<Rightarrow> nat" where
  "bm_size m = 8 * unat (bm_length m)"

text \<open>The buffer is as long as the map says, and the indices fit an \<^verbatim>\<open>int\<close>.\<close>

definition bm_ok :: "bitmap_t \<Rightarrow> bool" where
  "bm_ok m \<longleftrightarrow> unat (bm_length m) \<le> length (bits m) \<and> unat (bm_offset m) + bm_size m < 2 ^ 31"

definition bm_index :: "bitmap_t \<Rightarrow> nat \<Rightarrow> u32" where
  "bm_index m i = bm_offset m + of_nat i"

lemma bm_index_props:
  assumes "bm_ok m" and "i < bm_size m"
  shows "bm_index m i \<ge> bm_offset m" and "bm_index m i - bm_offset m = of_nat i"
    and "unat ((of_nat i :: u32) div 8) = i div 8" and "unat ((of_nat i :: u32) mod 8) = i mod 8"
    and "(of_nat i :: u32) div 8 < bm_length m" and "i div 8 < length (bits m)"
    and "unat (bm_index m i) = unat (bm_offset m) + i"
proof -
  have i: "i < 2 ^ 31" and o: "unat (bm_offset m) + i < 2 ^ 31"
    using assms by (auto simp: bm_ok_def)
  then have ui: "unat (of_nat i :: u32) = i"
    by (simp add: unat_of_nat_small)
  show u: "unat (bm_index m i) = unat (bm_offset m) + i"
    using o by (simp add: bm_index_def unat_word_ariths ui)
  then show "bm_index m i \<ge> bm_offset m"
    by (simp add: word_le_nat_alt)
  show "bm_index m i - bm_offset m = of_nat i"
    by (simp add: bm_index_def)
  show d: "unat ((of_nat i :: u32) div 8) = i div 8" "unat ((of_nat i :: u32) mod 8) = i mod 8"
    by (simp_all add: unat_div unat_mod ui)
  show "(of_nat i :: u32) div 8 < bm_length m"
    using assms(2) by (simp add: word_less_nat_alt d bm_size_def less_mult_imp_div_less mult.commute)
  then show "i div 8 < length (bits m)"
    using assms(1) by (simp add: bm_ok_def word_less_nat_alt d)
qed

lemma and_push_bit_one: "(b AND push_bit k 1 \<noteq> 0) \<longleftrightarrow> bit b k"
  for b :: "'a::len word"
  by (simp only: bit_iff_and_push_bit_not_eq_0)

lemma bitmap_test_bit:
  assumes "bm_ok m" and "i < bm_size m"
  shows "bitmap_test m (bm_index m i) = Some (bm_bit m i)"
  using bm_index_props [OF assms] and_push_bit_one [of "bits m ! (i div 8)" "i mod 8"]
  by (simp add: bitmap_test_def bm_bit_def)

lemma bitmap_set_bit:
  assumes "bm_ok m" and "i < bm_size m"
  shows "\<exists>m'. bitmap_set m (bm_index m i) v = Some m' \<and> bm_ok m' \<and>
    bm_length m' = bm_length m \<and> bm_offset m' = bm_offset m \<and> length (bits m') = length (bits m) \<and>
    (\<forall>j. bm_bit m' j = (if j = i then v else bm_bit m j))"
proof -
  let ?b = "bits m ! (i div 8)"
  let ?b' = "if v then ?b OR push_bit (i mod 8) 1 else ?b AND NOT (push_bit (i mod 8) 1)"
  let ?m' = "m\<lparr>bits := (bits m)[i div 8 := ?b']\<rparr>"
  note ix = bm_index_props [OF assms]
  have "bitmap_set m (bm_index m i) v = Some ?m'"
    using ix by (simp add: bitmap_set_def)
  moreover have "bm_ok ?m'"
    using assms(1) by (simp add: bm_ok_def bm_size_def)
  moreover have "bm_bit ?m' j = (if j = i then v else bm_bit m j)" for j
  proof (cases "j div 8 = i div 8")
    case True
    have "bit ?b' (j mod 8) = (if j mod 8 = i mod 8 then v else bit ?b (j mod 8))"
      by (auto simp: bit_or_iff bit_and_iff bit_not_iff bit_exp_iff)
    moreover have "j mod 8 = i mod 8 \<longleftrightarrow> j = i"
      using True by (metis div_mult_mod_eq)
    ultimately show ?thesis
      using True ix(6) by (simp add: bm_bit_def)
  next
    case False
    then show ?thesis by (auto simp: bm_bit_def)
  qed
  ultimately show ?thesis by auto
qed

lemma bitmap_set_run_bits:
  assumes "bm_ok m" and "s + k \<le> bm_size m"
  shows "\<exists>m'. bitmap_set_run m (of_nat s) k = Some m' \<and> bm_ok m' \<and>
    bm_length m' = bm_length m \<and> bm_offset m' = bm_offset m \<and> length (bits m') = length (bits m) \<and>
    (\<forall>j. bm_bit m' j = (s \<le> j \<and> j < s + k \<or> bm_bit m j))"
  using assms
proof (induction k arbitrary: m s)
  case 0
  then show ?case by auto
next
  case (Suc k)
  then obtain m1 where m1: "bitmap_set m (bm_offset m + of_nat s) True = Some m1" "bm_ok m1"
      "bm_length m1 = bm_length m" "bm_offset m1 = bm_offset m" "length (bits m1) = length (bits m)"
      "\<forall>j. bm_bit m1 j = (if j = s then True else bm_bit m j)"
    using bitmap_set_bit [of m s True] by (auto simp: bm_index_def)
  moreover obtain m' where "bitmap_set_run m1 (of_nat (Suc s)) k = Some m'" "bm_ok m'"
      "bm_length m' = bm_length m1" "bm_offset m' = bm_offset m1" "length (bits m') = length (bits m1)"
      "\<forall>j. bm_bit m' j = (Suc s \<le> j \<and> j < Suc s + k \<or> bm_bit m1 j)"
    using Suc.IH [of m1 "Suc s"] Suc.prems m1(2,3) by (auto simp: bm_size_def)
  ultimately show ?case
    by (auto simp: add.commute)
qed

subsection \<open>The scan is first-fit\<close>

definition free_run :: "bitmap_t \<Rightarrow> nat \<Rightarrow> nat \<Rightarrow> bool" where
  "free_run m s k \<longleftrightarrow> s + k \<le> bm_size m \<and> (\<forall>i. s \<le> i \<and> i < s + k \<longrightarrow> \<not> bm_bit m i)"

lemma bitmap_scan_find_correct:
  assumes ok: "bm_ok m" and cnt: "0 < unat count"
    and "nb + left = bm_size m" and "c \<le> nb" and "c < unat count"
    and "\<forall>i. nb - c \<le> i \<and> i < nb \<longrightarrow> \<not> bm_bit m i" and "c < nb \<longrightarrow> bm_bit m (nb - c - 1)"
    and "\<forall>s. s + unat count \<le> nb \<longrightarrow> \<not> free_run m s (unat count)"
  shows "(\<exists>s. bitmap_scan_find m count left (of_nat nb) (of_nat c) = Some (of_nat s) \<and>
       free_run m s (unat count) \<and> (\<forall>s' < s. \<not> free_run m s' (unat count))) \<or>
     bitmap_scan_find m count left (of_nat nb) (of_nat c) = Some EOF \<and>
       (\<forall>s. \<not> free_run m s (unat count))"
  using assms(3-)
proof (induction left arbitrary: nb c)
  case 0
  then show ?case
    by (auto simp: free_run_def)
next
  case (Suc left)
  have small: "nb < 2 ^ 31" "c < 2 ^ 31"
    using ok Suc.prems by (auto simp: bm_ok_def)
  define c' where "c' = (if bm_bit m nb then 0 else Suc c)"
  have t: "bitmap_test m (bm_offset m + of_nat nb) = Some (bm_bit m nb)"
    using bitmap_test_bit [OF ok, of nb] Suc.prems(1) by (simp add: bm_index_def)
  have eq: "(of_nat c' :: u32) = count \<longleftrightarrow> c' = unat count"
    using small by (auto simp: c'_def unat_of_nat_small word_unat_eq_iff)
  have unfold: "bitmap_scan_find m count (Suc left) (of_nat nb) (of_nat c) =
     (if c' = unat count then Some (of_nat (Suc nb) - count)
      else bitmap_scan_find m count left (of_nat (Suc nb)) (of_nat c'))"
    by (cases "bm_bit m nb") (use eq in \<open>auto simp: t c'_def add.commute [of "of_nat nb :: u32" 1]
        add.commute [of "of_nat c :: u32" 1]\<close>)
  show ?case
  proof (cases "c' = unat count")
    case True
    then have c: "\<not> bm_bit m nb" "Suc c = unat count"
      using cnt by (auto simp: c'_def split: if_splits)
    have "count = of_nat (Suc c)"
      using True eq c(1) by (simp add: c'_def)
    then have "of_nat (Suc nb) - count = (of_nat (nb - c) :: u32)"
      using Suc.prems(2) by simp
    moreover have "free_run m (nb - c) (unat count)"
      unfolding free_run_def c(2) [symmetric]
    proof (intro conjI allI impI)
      show "nb - c + Suc c \<le> bm_size m" using Suc.prems(1,2) by simp
      show "\<not> bm_bit m i" if "nb - c \<le> i \<and> i < nb - c + Suc c" for i
        using Suc.prems(2,4) c(1) that by (cases "i = nb") auto
    qed
    moreover have "\<not> free_run m s' (unat count)" if "s' < nb - c" for s'
      using Suc.prems(6) that c(2) by auto
    ultimately show ?thesis
      using True unfold by metis
  next
    case False
    have none: "\<not> free_run m s (unat count)" if "s + unat count \<le> Suc nb" for s
    proof (cases "s + unat count \<le> nb")
      case True
      then show ?thesis using Suc.prems(6) by blast
    next
      case False2: False
      then have s: "s + unat count = Suc nb" using that by simp
      show ?thesis
      proof (cases "bm_bit m nb")
        case True
        moreover from s cnt have "s \<le> nb" "nb < s + unat count" by simp_all
        ultimately show ?thesis unfolding free_run_def by blast
      next
        case nofree: False
        then have "Suc c < unat count"
          using False Suc.prems(3) by (auto simp: c'_def)
        with s Suc.prems(2,5) have "bm_bit m (nb - c - 1)" "s \<le> nb - c - 1" "nb - c - 1 < s + unat count"
          by auto
        then show ?thesis unfolding free_run_def by blast
      qed
    qed
    have "(\<exists>s. bitmap_scan_find m count left (of_nat (Suc nb)) (of_nat c') = Some (of_nat s) \<and>
       free_run m s (unat count) \<and> (\<forall>s' < s. \<not> free_run m s' (unat count))) \<or>
       bitmap_scan_find m count left (of_nat (Suc nb)) (of_nat c') = Some EOF \<and>
       (\<forall>s. \<not> free_run m s (unat count))"
    proof (rule Suc.IH)
      show "\<forall>i. Suc nb - c' \<le> i \<and> i < Suc nb \<longrightarrow> \<not> bm_bit m i"
        using Suc.prems(4) by (auto simp: c'_def less_Suc_eq)
    qed (use Suc.prems False none in \<open>auto simp: c'_def split: if_splits\<close>)
    then show ?thesis using False unfold by simp
  qed
qed

text \<open>Either there is no free run and nothing changes, or the first one is taken.\<close>

lemma bitmap_scan_cases:
  assumes ok: "bm_ok m" and cnt: "0 < unat count"
  shows "(\<exists>s m'. bitmap_scan m count = Some (bm_index m s, m') \<and> free_run m s (unat count) \<and>
       (\<forall>s' < s. \<not> free_run m s' (unat count)) \<and> bm_ok m' \<and>
       bm_length m' = bm_length m \<and> bm_offset m' = bm_offset m \<and> length (bits m') = length (bits m) \<and>
       (\<forall>j. bm_bit m' j = (s \<le> j \<and> j < s + unat count \<or> bm_bit m j))) \<or>
     bitmap_scan m count = Some (EOF, m) \<and> (\<forall>s. \<not> free_run m s (unat count))"
proof -
  have size: "unat (bm_length m * 8) = bm_size m"
    using ok by (subst unat_mult_small) (auto simp: bm_ok_def bm_size_def)
  consider s where "bitmap_scan_find m count (bm_size m) 0 0 = Some (of_nat s)"
      "free_run m s (unat count)" "\<forall>s' < s. \<not> free_run m s' (unat count)"
    | "bitmap_scan_find m count (bm_size m) 0 0 = Some EOF" "\<forall>s. \<not> free_run m s (unat count)"
    using bitmap_scan_find_correct [OF ok cnt, of 0 "bm_size m" 0] cnt
    by (auto simp: free_run_def)
  then show ?thesis
  proof cases
    case (1 s)
    from 1(2) ok have s: "s < 2 ^ 31" "s + unat count \<le> bm_size m"
      by (auto simp: free_run_def bm_ok_def)
    then have "unat (of_nat s :: u32) \<noteq> unat EOF"
      by (simp add: unat_of_nat_small EOF_def EEOF_def)
    then have ne: "(of_nat s :: u32) \<noteq> EOF" by metis
    obtain m' where m': "bitmap_set_run m (of_nat s) (unat count) = Some m'" "bm_ok m'"
        "bm_length m' = bm_length m" "bm_offset m' = bm_offset m" "length (bits m') = length (bits m)"
        "\<forall>j. bm_bit m' j = (s \<le> j \<and> j < s + unat count \<or> bm_bit m j)"
      using bitmap_set_run_bits [OF ok s(2)] by blast
    have "bitmap_scan m count = Some (bm_index m s, m')"
      by (simp add: bitmap_scan_def size 1(1) ne m'(1,4) bm_index_def add.commute)
    with 1 m' show ?thesis by blast
  next
    case 2
    then show ?thesis by (simp add: bitmap_scan_def size)
  qed
qed

subsection \<open>Properties\<close>

text \<open>
  \<^verbatim>\<open>bitmap_scan\<close> is a first-fit allocator. On a well-formed map and a positive count it always
  returns: either it reports \<open>EOF\<close>, leaves the map alone and no run of \<open>count\<close> clear bits
  exists, or it returns the index of the first such run, has set exactly the bits of that run, and
  the map is still well formed.
\<close>

theorem bitmap_scan_first_fit:
  assumes "bm_ok m" and "0 < unat count"
  shows "\<exists>r m'. bitmap_scan m count = Some (r, m') \<and> bm_ok m' \<and>
    (if \<exists>s. free_run m s (unat count)
     then \<exists>s. r = bm_index m s \<and> free_run m s (unat count) \<and> (\<forall>t. free_run m t (unat count) \<longrightarrow> s \<le> t) \<and>
       (\<forall>j. bm_bit m' j = (s \<le> j \<and> j < s + unat count \<or> bm_bit m j))
     else r = EOF \<and> m' = m)"
proof (cases "\<exists>s. free_run m s (unat count)")
  case True
  then obtain s m' where s: "bitmap_scan m count = Some (bm_index m s, m')" "bm_ok m'"
      "free_run m s (unat count)" "\<forall>s' < s. \<not> free_run m s' (unat count)"
      "\<forall>j. bm_bit m' j = (s \<le> j \<and> j < s + unat count \<or> bm_bit m j)"
    using bitmap_scan_cases [OF assms] by blast
  then have "\<forall>t. free_run m t (unat count) \<longrightarrow> s \<le> t"
    by (meson not_less)
  with s True show ?thesis by auto
next
  case False
  then show ?thesis
    using bitmap_scan_cases [OF assms] assms(1) by auto
qed

text \<open>
  Setting and testing. After \<^verbatim>\<open>bitmap_set\<close> of an index inside a well-formed map,
  \<^verbatim>\<open>bitmap_test\<close> of every index inside it returns the value written for that index and the old
  bit for any other.
\<close>

theorem bitmap_test_set:
  assumes "bm_ok m" and "i < bm_size m" and "j < bm_size m"
  shows "\<exists>m'. bitmap_set m (bm_index m i) v = Some m' \<and>
    bitmap_test m' (bm_index m j) = Some (if j = i then v else bm_bit m j)"
proof -
  obtain m' where m': "bitmap_set m (bm_index m i) v = Some m'" "bm_ok m'"
      "bm_length m' = bm_length m" "bm_offset m' = bm_offset m"
      "\<forall>j. bm_bit m' j = (if j = i then v else bm_bit m j)"
    using bitmap_set_bit [OF assms(1,2)] by blast
  have "bitmap_test m' (bm_index m' j) = Some (bm_bit m' j)"
    by (rule bitmap_test_bit) (use assms m' in \<open>auto simp: bm_size_def\<close>)
  with m' show ?thesis by (auto simp: bm_index_def)
qed

text \<open>A two-byte map with its first three bits and bit 5 in use.\<close>

definition sample_map :: bitmap_t where
  "sample_map = bitmap_make [0x27, 0] 2 256"

lemma sample_map_ok: "bm_ok sample_map"
  by (simp add: bm_ok_def sample_map_def bitmap_make_def bm_size_def)

theorem bitmap_scan_first_fit_witness:
  "bm_ok sample_map \<and> bitmap_scan sample_map 3 = Some (262, bitmap_make [0xE7, 1] 2 256) \<and>
   (\<exists>r m'. bitmap_scan sample_map 3 = Some (r, m') \<and> bm_ok m')"
proof (intro conjI)
  show "bm_ok sample_map" by (rule sample_map_ok)
  show "bitmap_scan sample_map 3 = Some (262, bitmap_make [0xE7, 1] 2 256)" by code_simp
  show "\<exists>r m'. bitmap_scan sample_map 3 = Some (r, m') \<and> bm_ok m'"
    using bitmap_scan_first_fit [OF sample_map_ok, of 3] by auto
qed

theorem bitmap_test_set_witness:
  "\<exists>m'. bitmap_set sample_map (bm_index sample_map 4) True = Some m' \<and>
    bitmap_test m' (bm_index sample_map 4) = Some True"
  using bitmap_test_set [OF sample_map_ok, of 4 4 True]
  by (simp add: bm_size_def sample_map_def bitmap_make_def)

end
