(* ===== verification/Onix_Fifo.thy ===== *)
theory Onix_Fifo
  imports Onix_Prelude
begin

section \<open>The byte ring (src/lib/fifo.c)\<close>

text \<open>
  A ring of \<^verbatim>\<open>length\<close> bytes with one slot always free; pipes, the keyboard, serial ports and
  sockets buffer their input in one. \<^verbatim>\<open>fifo_put\<close> on a full ring drops the oldest byte.
  \<open>fifo_list\<close> is the content, oldest first; each operation is shown to act on it as the
  bounded queue does.
\<close>

record fifo_t =
  fifo_buf :: "u8 list"
  fifo_length :: u32
  fifo_head :: u32
  fifo_tail :: u32

text \<open>\<^verbatim>\<open>% fifo->length\<close> traps on a ring of length 0.\<close>

definition fifo_next :: "fifo_t \<Rightarrow> u32 \<Rightarrow> u32 option" where
  "fifo_next f pos = do {
     kassert (fifo_length f \<noteq> 0);
     Some ((pos + 1) mod fifo_length f)
   }"

definition fifo_init :: "u8 list \<Rightarrow> u32 \<Rightarrow> fifo_t" where
  "fifo_init buf len = \<lparr>fifo_buf = buf, fifo_length = len, fifo_head = 0, fifo_tail = 0\<rparr>"

definition fifo_full :: "fifo_t \<Rightarrow> bool option" where
  "fifo_full f = do {
     n \<leftarrow> fifo_next f (fifo_head f);
     Some (n = fifo_tail f)
   }"

definition fifo_empty :: "fifo_t \<Rightarrow> bool" where
  "fifo_empty f \<longleftrightarrow> fifo_head f = fifo_tail f"

definition fifo_get :: "fifo_t \<Rightarrow> (u8 \<times> fifo_t) option" where
  "fifo_get f = do {
     kassert (\<not> fifo_empty f);
     kassert (unat (fifo_tail f) < length (fifo_buf f));
     let byte = fifo_buf f ! unat (fifo_tail f);
     t \<leftarrow> fifo_next f (fifo_tail f);
     Some (byte, f\<lparr>fifo_tail := t\<rparr>)
   }"

text \<open>The loop of \<^verbatim>\<open>fifo_put\<close> that makes room.\<close>

partial_function (option) fifo_make_room :: "fifo_t \<Rightarrow> fifo_t option" where
  "fifo_make_room f = do {
     full \<leftarrow> fifo_full f;
     if full then do { (b, f) \<leftarrow> fifo_get f; fifo_make_room f } else Some f
   }"

declare fifo_make_room.simps [code]

definition fifo_put :: "fifo_t \<Rightarrow> u8 \<Rightarrow> fifo_t option" where
  "fifo_put f byte = do {
     f \<leftarrow> fifo_make_room f;
     kassert (unat (fifo_head f) < length (fifo_buf f));
     let f = f\<lparr>fifo_buf := (fifo_buf f)[unat (fifo_head f) := byte]\<rparr>;
     h \<leftarrow> fifo_next f (fifo_head f);
     Some (f\<lparr>fifo_head := h\<rparr>)
   }"

subsection \<open>The content of a ring\<close>

definition fifo_ok :: "fifo_t \<Rightarrow> bool" where
  "fifo_ok f \<longleftrightarrow> 2 \<le> unat (fifo_length f) \<and> unat (fifo_length f) \<le> length (fifo_buf f) \<and>
     fifo_head f < fifo_length f \<and> fifo_tail f < fifo_length f"

definition fifo_cap :: "fifo_t \<Rightarrow> nat" where
  "fifo_cap f = unat (fifo_length f) - 1"

definition fifo_count :: "fifo_t \<Rightarrow> nat" where
  "fifo_count f =
     (let h = unat (fifo_head f); t = unat (fifo_tail f); n = unat (fifo_length f)
      in if t \<le> h then h - t else h + n - t)"

definition fifo_list :: "fifo_t \<Rightarrow> u8 list" where
  "fifo_list f =
     map (\<lambda>i. fifo_buf f ! ((unat (fifo_tail f) + i) mod unat (fifo_length f))) [0..<fifo_count f]"

lemma ring_next:
  assumes "fifo_length f \<noteq> 0" and "pos < fifo_length f"
  shows "fifo_next f pos = Some (if unat pos + 1 = unat (fifo_length f) then 0 else pos + 1)"
    and "unat (if unat pos + 1 = unat (fifo_length f) then 0 else pos + 1) =
      (unat pos + 1) mod unat (fifo_length f)"
proof -
  have p: "unat pos < unat (fifo_length f)"
    using assms(2) by (simp add: word_less_nat_alt)
  have s: "unat (pos + 1) = unat pos + 1"
    by (subst unat_plus_small) (use p unat_u32_bound [of "fifo_length f"] in auto)
  have "(pos + 1) mod fifo_length f = (if unat pos + 1 = unat (fifo_length f) then 0 else pos + 1)"
    by (rule word_unat_eq_iff [THEN iffD2]) (use p s in \<open>simp add: unat_mod\<close>)
  then show "fifo_next f pos = Some (if unat pos + 1 = unat (fifo_length f) then 0 else pos + 1)"
    using assms(1) by (simp add: fifo_next_def)
  show "unat (if unat pos + 1 = unat (fifo_length f) then 0 else pos + 1) =
      (unat pos + 1) mod unat (fifo_length f)"
    using p s by simp
qed

lemma fifo_list_length [simp]: "length (fifo_list f) = fifo_count f"
  by (simp add: fifo_list_def)

lemma fifo_count_bound: "fifo_ok f \<Longrightarrow> fifo_count f \<le> fifo_cap f"
  by (auto simp: fifo_ok_def fifo_count_def fifo_cap_def Let_def word_less_nat_alt)

text \<open>The head is where the next byte goes, and none of the bytes held is there.\<close>

lemma ring_positions:
  fixes t h n i :: nat
  assumes "t < n" and "h < n" and "c = (if t \<le> h then h - t else h + n - t)"
  shows "(t + c) mod n = h" and "i < c \<Longrightarrow> (t + i) mod n \<noteq> h"
proof -
  show "(t + c) mod n = h" using assms by auto
  show "(t + i) mod n \<noteq> h" if "i < c"
  proof (cases "t + i < n")
    case True
    with that assms show ?thesis by (auto split: if_splits)
  next
    case False
    then have "(t + i) mod n = (t + i - n) mod n" by (simp add: le_mod_geq)
    also have "\<dots> = t + i - n" using that assms False by (auto split: if_splits)
    finally show ?thesis using that assms False by (auto split: if_splits)
  qed
qed

lemma ring_head:
  assumes "fifo_ok f"
  shows "(unat (fifo_tail f) + fifo_count f) mod unat (fifo_length f) = unat (fifo_head f)"
    and "i < fifo_count f \<Longrightarrow> (unat (fifo_tail f) + i) mod unat (fifo_length f) \<noteq> unat (fifo_head f)"
  by (rule ring_positions; use assms in \<open>simp add: fifo_ok_def fifo_count_def Let_def word_less_nat_alt\<close>)+

lemma fifo_empty_count: "fifo_ok f \<Longrightarrow> fifo_empty f \<longleftrightarrow> fifo_count f = 0"
  by (auto simp: fifo_ok_def fifo_empty_def fifo_count_def Let_def word_less_nat_alt word_unat_eq_iff
      split: if_splits)

lemma fifo_full_count:
  assumes "fifo_ok f"
  shows "fifo_full f = Some (fifo_count f = fifo_cap f)"
proof -
  have n0: "fifo_length f \<noteq> 0" and h: "fifo_head f < fifo_length f"
    using assms by (auto simp: fifo_ok_def)
  note nx = ring_next [OF n0 h]
  have "(unat (fifo_head f) + 1) mod unat (fifo_length f) = unat (fifo_tail f) \<longleftrightarrow> fifo_count f = fifo_cap f"
    using assms
    by (auto simp: fifo_ok_def fifo_count_def fifo_cap_def Let_def word_less_nat_alt mod_if split: if_splits)
  then show ?thesis
    using nx by (simp only: fifo_full_def bind.bind_lunit word_unat_eq_iff [of _ "fifo_tail f"])
qed

lemma fifo_get_list:
  assumes ok: "fifo_ok f" and ne: "fifo_list f \<noteq> []"
  shows "\<exists>f'. fifo_get f = Some (hd (fifo_list f), f') \<and> fifo_ok f' \<and> fifo_list f' = tl (fifo_list f) \<and>
    fifo_cap f' = fifo_cap f"
proof -
  let ?n = "unat (fifo_length f)" and ?t = "unat (fifo_tail f)"
  have n0: "fifo_length f \<noteq> 0" and t: "fifo_tail f < fifo_length f" "?t < ?n" "?n \<le> length (fifo_buf f)"
    using ok by (auto simp: fifo_ok_def word_less_nat_alt)
  note nx = ring_next [OF n0 t(1)]
  obtain t' where t': "fifo_next f (fifo_tail f) = Some t'" "unat t' = (?t + 1) mod ?n"
    using nx by metis
  define f' where "f' = f\<lparr>fifo_tail := t'\<rparr>"
  have c: "0 < fifo_count f" using ne by (simp flip: length_greater_0_conv)
  then have "fifo_count f' = fifo_count f - 1"
    using ok t'(2) t(2)
    by (auto simp: f'_def fifo_ok_def fifo_count_def Let_def word_less_nat_alt mod_if split: if_splits)
  then have "fifo_list f' = tl (fifo_list f)"
    by (intro nth_equalityI)
      (auto simp: nth_tl fifo_list_def f'_def t'(2) mod_add_left_eq [of "Suc ?t"] simp del: mod_mod_trivial)
  moreover have "hd (fifo_list f) = fifo_buf f ! ?t"
    using c t(2) by (simp add: fifo_list_def hd_map hd_upt)
  moreover have "fifo_ok f'"
    using ok t'(2) t(2) by (auto simp: fifo_ok_def f'_def word_less_nat_alt)
  ultimately show ?thesis
    using c t t'(1) ok
    by (simp add: fifo_get_def f'_def fifo_empty_count fifo_cap_def)
qed

lemma fifo_make_room_list:
  assumes ok: "fifo_ok f"
  shows "\<exists>f'. fifo_make_room f = Some f' \<and> fifo_ok f' \<and> fifo_cap f' = fifo_cap f \<and>
    fifo_count f' < fifo_cap f' \<and>
    fifo_list f' = (if fifo_count f = fifo_cap f then tl (fifo_list f) else fifo_list f)"
proof (cases "fifo_count f = fifo_cap f")
  case True
  have pos: "0 < fifo_cap f" using ok by (simp add: fifo_ok_def fifo_cap_def)
  then have "fifo_list f \<noteq> []"
    using True by (simp flip: length_greater_0_conv)
  from fifo_get_list [OF ok this] obtain f' where f': "fifo_get f = Some (hd (fifo_list f), f')" "fifo_ok f'"
      "fifo_list f' = tl (fifo_list f)" "fifo_cap f' = fifo_cap f" by blast
  have "fifo_count f' = fifo_count f - 1"
    using f'(3) by (metis fifo_list_length length_tl)
  then have less: "fifo_count f' < fifo_cap f'" using True pos f'(4) by simp
  then have "fifo_make_room f' = Some f'"
    by (subst fifo_make_room.simps) (simp add: fifo_full_count [OF f'(2)])
  then have "fifo_make_room f = Some f'"
    by (subst fifo_make_room.simps) (simp add: fifo_full_count [OF ok] True f'(1))
  with f' less True show ?thesis by simp
next
  case False
  then have "fifo_make_room f = Some f"
    by (subst fifo_make_room.simps) (simp add: fifo_full_count [OF ok])
  with ok False fifo_count_bound [OF ok] show ?thesis by simp
qed

lemma fifo_put_list:
  assumes ok: "fifo_ok f"
  shows "\<exists>f'. fifo_put f b = Some f' \<and> fifo_ok f' \<and> fifo_cap f' = fifo_cap f \<and>
    fifo_list f' = (if fifo_count f = fifo_cap f then tl (fifo_list f) else fifo_list f) @ [b]"
proof -
  obtain g where g: "fifo_make_room f = Some g" "fifo_ok g" "fifo_cap g = fifo_cap f"
      "fifo_count g < fifo_cap g"
      "fifo_list g = (if fifo_count f = fifo_cap f then tl (fifo_list f) else fifo_list f)"
    using fifo_make_room_list [OF ok] by blast
  let ?n = "unat (fifo_length g)" and ?h = "unat (fifo_head g)" and ?t = "unat (fifo_tail g)"
  have n0: "fifo_length g \<noteq> 0" and h: "fifo_head g < fifo_length g" "?h < ?n" "?n \<le> length (fifo_buf g)"
    using g(2) by (auto simp: fifo_ok_def word_less_nat_alt)
  define g1 where "g1 = g\<lparr>fifo_buf := (fifo_buf g)[?h := b]\<rparr>"
  obtain h' where h': "fifo_next g1 (fifo_head g) = Some h'" "unat h' = (?h + 1) mod ?n"
    using ring_next [of g1 "fifo_head g"] n0 h(1) by (force simp: g1_def)
  define f' where "f' = g1\<lparr>fifo_head := h'\<rparr>"
  have cnt: "fifo_count f' = Suc (fifo_count g)"
    using g(2,4) h'(2) h(2)
    by (auto simp: f'_def g1_def fifo_ok_def fifo_count_def fifo_cap_def Let_def word_less_nat_alt mod_if
        split: if_splits)
  have "fifo_list f' = fifo_list g @ [b]"
  proof (rule nth_equalityI)
    fix i assume "i < length (fifo_list f')"
    then have i: "i < fifo_count f'" "i < fifo_count g \<or> i = fifo_count g" using cnt by auto
    then have "fifo_list f' ! i = (fifo_buf g)[?h := b] ! ((?t + i) mod ?n)"
      by (simp add: fifo_list_def) (simp add: f'_def g1_def)
    also have "\<dots> = (fifo_list g @ [b]) ! i"
    proof (cases "i = fifo_count g")
      case True
      then show ?thesis using ring_head(1) [OF g(2)] h by (simp add: nth_append)
    next
      case False
      then have "i < fifo_count g" using i by simp
      then show ?thesis using ring_head(2) [OF g(2), of i] by (simp add: nth_append fifo_list_def)
    qed
    finally show "fifo_list f' ! i = (fifo_list g @ [b]) ! i" .
  qed (simp add: cnt)
  moreover have "fifo_ok f'"
    using g(2) h'(2) h(2) by (auto simp: fifo_ok_def f'_def g1_def word_less_nat_alt)
  ultimately show ?thesis
    using g h h'(1) by (simp add: fifo_put_def f'_def g1_def fifo_cap_def)
qed

subsection \<open>A bounded queue that drops the oldest\<close>

text \<open>
  What the users of a ring rely on: \<open>put\<close> appends and, when there is no room, drops the first
  element; \<open>get\<close> takes the first element.
\<close>

locale bounded_queue =
  fixes ok :: "'q \<Rightarrow> bool"
    and content :: "'q \<Rightarrow> 'a list"
    and cap :: "'q \<Rightarrow> nat"
    and put :: "'q \<Rightarrow> 'a \<Rightarrow> 'q option"
    and get :: "'q \<Rightarrow> ('a \<times> 'q) option"
  assumes content_bound: "ok q \<Longrightarrow> length (content q) \<le> cap q"
    and put_law: "ok q \<Longrightarrow> \<exists>q'. put q b = Some q' \<and> ok q' \<and> cap q' = cap q \<and>
      content q' = (if length (content q) = cap q then tl (content q) else content q) @ [b]"
    and get_law: "ok q \<Longrightarrow> content q \<noteq> [] \<Longrightarrow> \<exists>q'. get q = Some (hd (content q), q') \<and> ok q' \<and>
      content q' = tl (content q)"
begin

lemma put_all:
  assumes "ok q" and "0 < cap q"
  shows "\<exists>q'. each put q bs = Some q' \<and> ok q' \<and> cap q' = cap q \<and>
    content q' = drop (length (content q) + length bs - cap q) (content q @ bs)"
  using assms
proof (induction bs arbitrary: q)
  case Nil
  then show ?case using content_bound by simp
next
  case (Cons b bs)
  from put_law [OF Cons.prems(1)] obtain q1 where q1: "put q b = Some q1" "ok q1" "cap q1 = cap q"
    "content q1 = (if length (content q) = cap q then tl (content q) else content q) @ [b]" by blast
  have "\<exists>q'. each put q1 bs = Some q' \<and> ok q' \<and> cap q' = cap q1 \<and>
    content q' = drop (length (content q1) + length bs - cap q1) (content q1 @ bs)"
    using Cons.IH [OF q1(2)] q1(3) Cons.prems(2) by simp
  moreover have "drop (length (content q1) + length bs - cap q1) (content q1 @ bs) =
    drop (length (content q) + length (b # bs) - cap q) (content q @ b # bs)"
  proof (cases "length (content q) = cap q")
    case True
    with q1(3,4) Cons.prems(2) show ?thesis by (cases "content q") auto
  next
    case False
    with q1(3,4) show ?thesis by (simp del: drop_append)
  qed
  ultimately show ?case using q1(1,3) by simp
qed

lemma get_all:
  assumes "ok q"
  shows "\<exists>q'. drain (length (content q)) get q = Some (content q, q') \<and> ok q' \<and> content q' = []"
proof -
  have "\<exists>q'. drain (length xs) get q = Some (xs, q') \<and> ok q' \<and> content q' = []"
    if "ok q" "content q = xs" for q xs
    using that
  proof (induction xs arbitrary: q)
    case Nil
    then show ?case by simp
  next
    case (Cons x xs)
    then obtain q1 where "get q = Some (x, q1)" "ok q1" "content q1 = xs"
      using get_law [of q] by auto
    with Cons.IH [of q1] show ?case by auto
  qed
  with assms show ?thesis by blast
qed

lemma put_then_get:
  assumes "ok q" and "0 < cap q" and "content q = []"
  shows "\<exists>q1 q2. each put q bs = Some q1 \<and>
    drain (min (cap q) (length bs)) get q1 = Some (drop (length bs - cap q) bs, q2) \<and> content q2 = []"
proof -
  obtain q1 where q1: "each put q bs = Some q1" "ok q1" "content q1 = drop (length bs - cap q) bs"
    using put_all [OF assms(1,2), of bs] assms(3) by auto
  then have "length (content q1) = min (cap q) (length bs)" by simp
  with get_all [OF q1(2)] q1 show ?thesis by auto
qed

end

interpretation ring: bounded_queue fifo_ok fifo_list fifo_cap fifo_put fifo_get
proof unfold_locales
  show "length (fifo_list f) \<le> fifo_cap f" if "fifo_ok f" for f
    using fifo_count_bound [OF that] by simp
  show "\<exists>f'. fifo_put f b = Some f' \<and> fifo_ok f' \<and> fifo_cap f' = fifo_cap f \<and>
      fifo_list f' = (if length (fifo_list f) = fifo_cap f then tl (fifo_list f) else fifo_list f) @ [b]"
    if "fifo_ok f" for f b
    using fifo_put_list [OF that] by simp
  show "\<exists>f'. fifo_get f = Some (hd (fifo_list f), f') \<and> fifo_ok f' \<and> fifo_list f' = tl (fifo_list f)"
    if "fifo_ok f" "fifo_list f \<noteq> []" for f
    using fifo_get_list [OF that] by blast
qed

lemma fifo_init_ok:
  assumes "2 \<le> unat len" and "unat len \<le> length buf"
  shows "fifo_ok (fifo_init buf len)" and "fifo_list (fifo_init buf len) = []"
    and "fifo_cap (fifo_init buf len) = unat len - 1"
  using assms
  by (auto simp: fifo_ok_def fifo_init_def fifo_list_def fifo_count_def fifo_cap_def word_less_nat_alt)

subsection \<open>Properties\<close>

text \<open>
  Round trip through a ring. After \<^verbatim>\<open>fifo_init\<close> on a buffer of at least two bytes, putting any
  bytes and then getting all that is there returns the last \<open>length - 1\<close> of them (all of them
  when they fit), in order; no assertion fails and the ring is empty again.
\<close>

theorem fifo_roundtrip:
  assumes "2 \<le> unat len" and "unat len \<le> length buf"
  shows "\<exists>f1 f2. each fifo_put (fifo_init buf len) bs = Some f1 \<and>
    drain (min (unat len - 1) (length bs)) fifo_get f1 = Some (drop (length bs - (unat len - 1)) bs, f2) \<and>
    fifo_empty f2"
proof -
  have pos: "0 < fifo_cap (fifo_init buf len)"
    using assms by (simp add: fifo_init_ok)
  obtain f1 where f1: "each fifo_put (fifo_init buf len) bs = Some f1" "fifo_ok f1"
      "fifo_list f1 = drop (length bs - (unat len - 1)) bs"
    using ring.put_all [OF fifo_init_ok(1) [OF assms] pos, of bs] by (auto simp: fifo_init_ok [OF assms])
  obtain f2 where f2: "drain (length (fifo_list f1)) fifo_get f1 = Some (fifo_list f1, f2)" "fifo_ok f2"
      "fifo_list f2 = []"
    using ring.get_all [OF f1(2)] by blast
  have "fifo_empty f2"
    using fifo_empty_count [OF f2(2)] f2(3) by (metis fifo_list_length list.size(3))
  moreover have "length (fifo_list f1) = min (unat len - 1) (length bs)"
    by (simp add: f1(3))
  ultimately show ?thesis
    using f1 f2 by metis
qed

theorem fifo_roundtrip_witness:
  "\<exists>f1 f2. each fifo_put (fifo_init [0, 0, 0, 0] 4) [1, 2, 3, 4, 5] = Some f1 \<and>
    drain 3 fifo_get f1 = Some ([3, 4, 5], f2) \<and> fifo_empty f2"
  using fifo_roundtrip [of 4 "[0, 0, 0, 0]" "[1, 2, 3, 4, 5]"]
  by (simp add: min_def del: each.simps drain.simps)

end
