(* ===== verification/Onix_String.thy ===== *)
theory Onix_String
  imports Onix_Prelude
begin

section \<open>C strings and memory blocks (src/lib/string.c)\<close>

text \<open>
  Memory is a flat map from addresses to bytes; pointers are addresses and wrap as they do on the
  machine. \<^verbatim>\<open>char\<close> is signed on this target, so comparisons go through \<open>sint\<close>. A loop that
  looks for a terminator may never find one, so it is a partial function; a loop that counts is a
  recursion on the count. \<open>cstr mem p s\<close> says that the string \<open>s\<close> lies at \<open>p\<close>; \<open>region p n\<close>
  is the \<open>n\<close> addresses from \<open>p\<close>.
\<close>

type_synonym mem = "u32 \<Rightarrow> u8"

partial_function (option) strcpy_loop :: "mem \<Rightarrow> u32 \<Rightarrow> u32 \<Rightarrow> mem option" where
  "strcpy_loop m ptr src =
     (let m = m(ptr := m src)
      in if m src = 0 then Some m else strcpy_loop m (ptr + 1) (src + 1))"

definition strcpy :: "mem \<Rightarrow> u32 \<Rightarrow> u32 \<Rightarrow> (u32 \<times> mem) option" where
  "strcpy m dest src = do { m \<leftarrow> strcpy_loop m dest src; Some (dest, m) }"

text \<open>
  \<^verbatim>\<open>strncpy\<close>: the flag says whether the terminator was copied. Otherwise the last byte of
  the destination is overwritten; for \<open>count = 0\<close> that is the byte before it.
\<close>

fun strncpy_loop :: "mem \<Rightarrow> u32 \<Rightarrow> u32 \<Rightarrow> nat \<Rightarrow> bool \<times> mem" where
  "strncpy_loop m ptr src 0 = (False, m)"
| "strncpy_loop m ptr src (Suc left) =
     (let m = m(ptr := m src)
      in if m src = 0 then (True, m) else strncpy_loop m (ptr + 1) (src + 1) left)"

definition strncpy :: "mem \<Rightarrow> u32 \<Rightarrow> u32 \<Rightarrow> u32 \<Rightarrow> u32 \<times> mem" where
  "strncpy m dest src count =
     (let (ended, m) = strncpy_loop m dest src (unat count)
      in if ended then (dest, m) else (dest, m(dest + (count - 1) := 0)))"

partial_function (option) str_end :: "mem \<Rightarrow> u32 \<Rightarrow> u32 option" where
  "str_end m ptr = (if m ptr \<noteq> 0 then str_end m (ptr + 1) else Some ptr)"

definition strcat :: "mem \<Rightarrow> u32 \<Rightarrow> u32 \<Rightarrow> (u32 \<times> mem) option" where
  "strcat m dest src = do {
     ptr \<leftarrow> str_end m dest;
     m \<leftarrow> strcpy_loop m ptr src;
     Some (dest, m)
   }"

fun strnlen_loop :: "mem \<Rightarrow> u32 \<Rightarrow> nat \<Rightarrow> u32" where
  "strnlen_loop m ptr left =
     (if m ptr \<noteq> 0 then (case left of 0 \<Rightarrow> ptr | Suc k \<Rightarrow> strnlen_loop m (ptr + 1) k) else ptr)"

declare strnlen_loop.simps [simp del]

definition strnlen :: "mem \<Rightarrow> u32 \<Rightarrow> u32 \<Rightarrow> u32" where
  "strnlen m str maxlen = strnlen_loop m str (unat maxlen) - str"

definition strlen :: "mem \<Rightarrow> u32 \<Rightarrow> u32 option" where
  "strlen m str = do { ptr \<leftarrow> str_end m str; Some (ptr - str) }"

definition char_cmp :: "u8 \<Rightarrow> u8 \<Rightarrow> int" where
  "char_cmp a b = (if sint a < sint b then -1 else if sint a > sint b then 1 else 0)"

lemma char_cmp_0 [simp]: "char_cmp a b = 0 \<longleftrightarrow> a = b"
  by (metis char_cmp_def linorder_neqE_linordered_idom one_neq_zero order_less_irrefl sint_inject
      zero_neq_neg_one)

partial_function (option) strcmp :: "mem \<Rightarrow> u32 \<Rightarrow> u32 \<Rightarrow> int option" where
  "strcmp m lhs rhs =
     (if m lhs = m rhs \<and> m lhs \<noteq> 0 \<and> m rhs \<noteq> 0 then strcmp m (lhs + 1) (rhs + 1)
      else Some (char_cmp (m lhs) (m rhs)))"

text \<open>Searches return the pointer found, or NULL (0). The character is an \<^verbatim>\<open>int\<close>.\<close>

partial_function (option) strchr :: "mem \<Rightarrow> u32 \<Rightarrow> int \<Rightarrow> u32 option" where
  "strchr m ptr ch =
     (if sint (m ptr) = ch then Some ptr
      else if m ptr = 0 then Some 0
      else strchr m (ptr + 1) ch)"

partial_function (option) strrchr_loop :: "mem \<Rightarrow> u32 \<Rightarrow> int \<Rightarrow> u32 \<Rightarrow> u32 option" where
  "strrchr_loop m ptr ch lst =
     (let lst = (if sint (m ptr) = ch then ptr else lst)
      in if m ptr = 0 then Some lst else strrchr_loop m (ptr + 1) ch lst)"

definition strrchr :: "mem \<Rightarrow> u32 \<Rightarrow> int \<Rightarrow> u32 option" where
  "strrchr m str ch = strrchr_loop m str ch 0"

fun memcmp_loop :: "mem \<Rightarrow> u32 \<Rightarrow> u32 \<Rightarrow> nat \<Rightarrow> int" where
  "memcmp_loop m lptr rptr 0 = 0"
| "memcmp_loop m lptr rptr (Suc count) =
     (if m lptr = m rptr then memcmp_loop m (lptr + 1) (rptr + 1) count
      else char_cmp (m lptr) (m rptr))"

definition memcmp :: "mem \<Rightarrow> u32 \<Rightarrow> u32 \<Rightarrow> u32 \<Rightarrow> int" where
  "memcmp m lhs rhs count = memcmp_loop m lhs rhs (unat count)"

fun memset_loop :: "mem \<Rightarrow> u32 \<Rightarrow> u8 \<Rightarrow> nat \<Rightarrow> mem" where
  "memset_loop m ptr ch 0 = m"
| "memset_loop m ptr ch (Suc count) = memset_loop (m(ptr := ch)) (ptr + 1) ch count"

definition memset :: "mem \<Rightarrow> u32 \<Rightarrow> u32 \<Rightarrow> u32 \<Rightarrow> mem" where
  "memset m dest ch count = memset_loop m dest (ucast ch) (unat count)"

fun memcpy_loop :: "mem \<Rightarrow> u32 \<Rightarrow> u32 \<Rightarrow> nat \<Rightarrow> mem" where
  "memcpy_loop m ptr src 0 = m"
| "memcpy_loop m ptr src (Suc count) = memcpy_loop (m(ptr := m src)) (ptr + 1) (src + 1) count"

definition memcpy :: "mem \<Rightarrow> u32 \<Rightarrow> u32 \<Rightarrow> u32 \<Rightarrow> mem" where
  "memcpy m dest src count = memcpy_loop m dest src (unat count)"

text \<open>
  \<^verbatim>\<open>memchr\<close> has no \<^verbatim>\<open>return\<close> after its loop: when the byte is not there the value the caller
  reads is undefined, which is \<open>None\<close> here.
\<close>

fun memchr_loop :: "mem \<Rightarrow> u32 \<Rightarrow> int \<Rightarrow> nat \<Rightarrow> u32 option" where
  "memchr_loop m ptr ch 0 = None"
| "memchr_loop m ptr ch (Suc count) =
     (if sint (m ptr) = ch then Some ptr else memchr_loop m (ptr + 1) ch count)"

definition memchr :: "mem \<Rightarrow> u32 \<Rightarrow> int \<Rightarrow> u32 \<Rightarrow> u32 option" where
  "memchr m str ch count = memchr_loop m str ch (unat count)"

text \<open>Path separators: a slash or a backslash.\<close>

definition IS_SEPARATOR :: "u8 \<Rightarrow> bool" where
  "IS_SEPARATOR c \<longleftrightarrow> c = 47 \<or> c = 92"

partial_function (option) strsep :: "mem \<Rightarrow> u32 \<Rightarrow> u32 option" where
  "strsep m ptr =
     (if IS_SEPARATOR (m ptr) then Some ptr
      else if m ptr = 0 then Some 0
      else strsep m (ptr + 1))"

partial_function (option) strrsep_loop :: "mem \<Rightarrow> u32 \<Rightarrow> u32 \<Rightarrow> u32 option" where
  "strrsep_loop m ptr lst =
     (let lst = (if IS_SEPARATOR (m ptr) then ptr else lst)
      in if m ptr = 0 then Some lst else strrsep_loop m (ptr + 1) lst)"

definition strrsep :: "mem \<Rightarrow> u32 \<Rightarrow> u32 option" where
  "strrsep m str = strrsep_loop m str 0"

declare strcpy_loop.simps [code] str_end.simps [code] strcmp.simps [code] strchr.simps [code]
  strrchr_loop.simps [code] strsep.simps [code] strrsep_loop.simps [code]

subsection \<open>Strings in memory\<close>

fun cstr :: "mem \<Rightarrow> u32 \<Rightarrow> u8 list \<Rightarrow> bool" where
  "cstr m p [] \<longleftrightarrow> m p = 0"
| "cstr m p (c # cs) \<longleftrightarrow> m p = c \<and> c \<noteq> 0 \<and> cstr m (p + 1) cs"

fun block :: "mem \<Rightarrow> u32 \<Rightarrow> u8 list \<Rightarrow> bool" where
  "block m p [] \<longleftrightarrow> True"
| "block m p (c # cs) \<longleftrightarrow> m p = c \<and> block m (p + 1) cs"

definition region :: "u32 \<Rightarrow> nat \<Rightarrow> u32 set" where
  "region p n = (\<lambda>i. p + of_nat i) ` {..<n}"

lemma region_0 [simp]: "region p 0 = {}"
  by (simp add: region_def)

lemma region_Suc: "region p (Suc n) = insert p (region (p + 1) n)"
  by (simp add: region_def lessThan_Suc_eq_insert_0 image_image add.assoc)

lemma region_self: "n < 2 ^ 32 \<Longrightarrow> p \<notin> region (p + 1) n"
proof
  assume n: "n < 2 ^ 32" and "p \<in> region (p + 1) n"
  then obtain i where i: "i < n" "(of_nat (Suc i) :: u32) = 0"
    by (auto simp: region_def add.assoc)
  have "unat (of_nat (Suc i) :: u32) = Suc i"
    by (rule unat_of_nat_small) (use i n in simp)
  with i show False by simp
qed

lemma cstr_cong: "cstr m p s \<Longrightarrow> (\<And>a. a \<in> region p (Suc (length s)) \<Longrightarrow> m' a = m a) \<Longrightarrow> cstr m' p s"
proof (induction s arbitrary: p)
  case Nil
  then show ?case by (simp add: region_Suc)
next
  case (Cons c s)
  have "cstr m' (p + 1) s"
    by (rule Cons.IH) (use Cons.prems in \<open>auto simp: region_Suc [of p]\<close>)
  with Cons.prems show ?case by (simp add: region_Suc [of p])
qed

lemma block_cong: "block m p s \<Longrightarrow> (\<And>a. a \<in> region p (length s) \<Longrightarrow> m' a = m a) \<Longrightarrow> block m' p s"
  by (induction s arbitrary: p) (auto simp: region_Suc)

lemma cstr_unique: "cstr m p s \<Longrightarrow> cstr m p t \<Longrightarrow> s = t"
  by (induction s arbitrary: p t; case_tac t; auto)

subsection \<open>What the functions compute\<close>

lemma str_end_cstr: "cstr m p s \<Longrightarrow> str_end m p = Some (p + of_nat (length s))"
proof (induction s arbitrary: p)
  case Nil
  then show ?case by (simp add: str_end.simps)
next
  case (Cons c s)
  then show ?case by (subst str_end.simps) (simp add: add.assoc)
qed

lemma strlen_cstr: "cstr m p s \<Longrightarrow> strlen m p = Some (of_nat (length s))"
  by (simp add: strlen_def str_end_cstr)

lemma strcpy_loop_cstr:
  assumes "cstr m src s" and "region p (Suc (length s)) \<inter> region src (Suc (length s)) = {}"
    and "length s < 2 ^ 32"
  shows "\<exists>m'. strcpy_loop m p src = Some m' \<and> cstr m' p s \<and>
    (\<forall>a. a \<notin> region p (Suc (length s)) \<longrightarrow> m' a = m a)"
  using assms
proof (induction s arbitrary: m p src)
  case Nil
  then show ?case by (subst strcpy_loop.simps) (auto simp: region_Suc)
next
  case (Cons c s)
  let ?m1 = "m(p := c)"
  have c: "m src = c" "c \<noteq> 0" "p \<noteq> src"
    using Cons.prems(1,2) by (auto simp: region_Suc)
  have "cstr ?m1 (src + 1) s"
    by (rule cstr_cong [of m]) (use Cons.prems in \<open>auto simp: region_Suc\<close>)
  moreover have "region (p + 1) (Suc (length s)) \<inter> region (src + 1) (Suc (length s)) = {}"
    using Cons.prems(2) by (auto simp: region_Suc)
  ultimately obtain m' where m': "strcpy_loop ?m1 (p + 1) (src + 1) = Some m'" "cstr m' (p + 1) s"
      "\<forall>a. a \<notin> region (p + 1) (Suc (length s)) \<longrightarrow> m' a = ?m1 a"
    using Cons.IH [of ?m1 "src + 1" "p + 1"] Cons.prems(3) by (metis Suc_lessD length_Cons)
  have "m' p = c"
    using m'(3) region_self [of "Suc (length s)" p] Cons.prems(3) by simp
  moreover have "m' a = m a" if "a \<notin> region p (Suc (length (c # s)))" for a
    using m'(3) that by (simp add: region_Suc [of p])
  moreover have "strcpy_loop m p src = Some m'"
    using m'(1) c by (subst strcpy_loop.simps) simp
  ultimately show ?case using m'(2) c(2) by auto
qed

lemma strcmp_cstr:
  assumes "cstr m p s" and "cstr m q t"
  shows "\<exists>r. strcmp m p q = Some r \<and> (r = 0 \<longleftrightarrow> s = t)"
  using assms
proof (induction s arbitrary: p q t)
  case Nil
  then show ?case
    by (cases t; subst strcmp.simps) auto
next
  case (Cons c s)
  show ?case
  proof (cases t)
    case Nil
    with Cons.prems show ?thesis
      by (subst strcmp.simps) auto
  next
    case t: (Cons d u)
    show ?thesis
    proof (cases "c = d")
      case True
      then show ?thesis
        using Cons.prems t Cons.IH [of "p + 1" "q + 1" u] by (subst strcmp.simps) auto
    next
      case False
      then show ?thesis
        using Cons.prems t by (subst strcmp.simps) auto
    qed
  qed
qed

lemma cstr_append:
  "cstr m p (s @ t) \<longleftrightarrow> block m p s \<and> 0 \<notin> set s \<and> cstr m (p + of_nat (length s)) t"
  by (induction s arbitrary: p) (auto simp: add.assoc)

lemma cstr_block: "cstr m p s \<Longrightarrow> block m p s \<and> 0 \<notin> set s"
  using cstr_append [of m p s "[]"] by simp

text \<open>Copying a bounded prefix: with the terminator when it comes early enough, else cut.\<close>

lemma strncpy_loop_short:
  assumes "cstr m src s" and "length s < n" and "n \<le> 2 ^ 32"
    and "region p n \<inter> region src (Suc (length s)) = {}"
  shows "\<exists>m'. strncpy_loop m p src n = (True, m') \<and> cstr m' p s \<and>
    (\<forall>a. a \<notin> region p n \<longrightarrow> m' a = m a)"
  using assms
proof (induction n arbitrary: m p src s)
  case 0
  then show ?case by simp
next
  case (Suc n)
  show ?case
  proof (cases s)
    case Nil
    with Suc.prems show ?thesis by (auto simp: region_Suc)
  next
    case s: (Cons c t)
    let ?m1 = "m(p := c)"
    have c: "m src = c" "c \<noteq> 0" "p \<noteq> src"
      using Suc.prems(1,4) s by (auto simp: region_Suc)
    have "cstr ?m1 (src + 1) t"
      by (rule cstr_cong [of m]) (use Suc.prems s in \<open>auto simp: region_Suc [of p] region_Suc [of src]\<close>)
    moreover have "region (p + 1) n \<inter> region (src + 1) (Suc (length t)) = {}"
      using Suc.prems(4) s by (auto simp: region_Suc [of p] region_Suc [of src])
    ultimately obtain m' where m': "strncpy_loop ?m1 (p + 1) (src + 1) n = (True, m')" "cstr m' (p + 1) t"
        "\<forall>a. a \<notin> region (p + 1) n \<longrightarrow> m' a = ?m1 a"
      using Suc.IH [of ?m1 "src + 1" t "p + 1"] Suc.prems(2,3) s by (metis Suc_leD Suc_less_eq length_Cons)
    have "m' p = c"
      using m'(3) region_self [of n p] Suc.prems(3) by simp
    then show ?thesis
      using m' c s by (auto simp: region_Suc)
  qed
qed

lemma strncpy_loop_long:
  assumes "block m src s" and "0 \<notin> set s" and "length s = n" and "n \<le> 2 ^ 32"
    and "region p n \<inter> region src n = {}"
  shows "\<exists>m'. strncpy_loop m p src n = (False, m') \<and> block m' p s \<and>
    (\<forall>a. a \<notin> region p n \<longrightarrow> m' a = m a)"
  using assms
proof (induction n arbitrary: m p src s)
  case 0
  then show ?case by simp
next
  case (Suc n)
  then obtain c t where s: "s = c # t" by (cases s) auto
  let ?m1 = "m(p := c)"
  have c: "m src = c" "c \<noteq> 0" "p \<noteq> src"
    using Suc.prems s by (auto simp: region_Suc)
  have "block ?m1 (src + 1) t"
    by (rule block_cong [of m]) (use Suc.prems s in \<open>auto simp: region_Suc\<close>)
  moreover have "region (p + 1) n \<inter> region (src + 1) n = {}"
    using Suc.prems(5) by (auto simp: region_Suc)
  ultimately obtain m' where m': "strncpy_loop ?m1 (p + 1) (src + 1) n = (False, m')" "block m' (p + 1) t"
      "\<forall>a. a \<notin> region (p + 1) n \<longrightarrow> m' a = ?m1 a"
    using Suc.IH [of ?m1 "src + 1" t "p + 1"] Suc.prems(2-4) s
    by (metis Suc_inject Suc_leD length_Cons list.set_intros(2))
  have "m' p = c"
    using m'(3) region_self [of n p] Suc.prems(4) by simp
  then show ?case
    using m' c s by (auto simp: region_Suc)
qed

lemma memcpy_loop_block:
  assumes "block m src bs" and "length bs = n" and "n \<le> 2 ^ 32" and "region p n \<inter> region src n = {}"
  shows "block (memcpy_loop m p src n) p bs \<and>
    (\<forall>a. a \<notin> region p n \<longrightarrow> memcpy_loop m p src n a = m a)"
  using assms
proof (induction n arbitrary: m p src bs)
  case 0
  then show ?case by simp
next
  case (Suc n)
  then obtain c t where s: "bs = c # t" by (cases bs) auto
  let ?m1 = "m(p := c)"
  have c: "m src = c" "p \<noteq> src"
    using Suc.prems s by (auto simp: region_Suc)
  have "block ?m1 (src + 1) t"
    by (rule block_cong [of m]) (use Suc.prems s in \<open>auto simp: region_Suc\<close>)
  moreover have "region (p + 1) n \<inter> region (src + 1) n = {}"
    using Suc.prems(4) by (auto simp: region_Suc)
  ultimately have IH: "block (memcpy_loop ?m1 (p + 1) (src + 1) n) (p + 1) t \<and>
      (\<forall>a. a \<notin> region (p + 1) n \<longrightarrow> memcpy_loop ?m1 (p + 1) (src + 1) n a = ?m1 a)"
    using Suc.IH [of ?m1 "src + 1" t "p + 1"] Suc.prems(2,3) s
    by (metis Suc_inject Suc_leD length_Cons)
  moreover have "p \<notin> region (p + 1) n"
    using region_self [of n p] Suc.prems(3) by simp
  ultimately show ?case
    using c s by (auto simp: region_Suc)
qed

lemma memset_loop_block:
  assumes "n \<le> 2 ^ 32"
  shows "block (memset_loop m p c n) p (replicate n c) \<and>
    (\<forall>a. a \<notin> region p n \<longrightarrow> memset_loop m p c n a = m a)"
  using assms
proof (induction n arbitrary: m p)
  case 0
  then show ?case by simp
next
  case (Suc n)
  moreover have "p \<notin> region (p + 1) n"
    using region_self [of n p] Suc.prems by simp
  ultimately show ?case by (auto simp: region_Suc)
qed

lemma strchr_cstr:
  assumes "cstr m p s" and "c \<noteq> 0"
  shows "strchr m p (sint c) =
    Some (if c \<in> set s then p + of_nat (length (takeWhile (\<lambda>x. x \<noteq> c) s)) else 0)"
  using assms
proof (induction s arbitrary: p)
  case Nil
  then show ?case by (subst strchr.simps) (auto simp: signed_eq_0_iff)
next
  case (Cons d s)
  then show ?case by (subst strchr.simps) (auto simp: add.assoc)
qed

lemma takeWhile_shorter: "x \<in> set xs \<Longrightarrow> \<not> P x \<Longrightarrow> length (takeWhile P xs) < length xs"
  by (induction xs) auto

lemma strrchr_loop_cstr:
  assumes "cstr m p s" and "c \<noteq> 0"
  shows "strrchr_loop m p (sint c) l =
    Some (if c \<in> set s then p + of_nat (length s - Suc (length (takeWhile (\<lambda>x. x \<noteq> c) (rev s)))) else l)"
  using assms
proof (induction s arbitrary: p l)
  case Nil
  then show ?case by (subst strrchr_loop.simps) (auto simp: Let_def signed_eq_0_iff)
next
  case (Cons d s)
  have "length (takeWhile (\<lambda>x. x \<noteq> c) (rev s)) < length s" if "c \<in> set s"
    using that takeWhile_shorter [of c "rev s" "\<lambda>x. x \<noteq> c"] by auto
  moreover have "takeWhile (\<lambda>x. x \<noteq> c) (rev s) = rev s" if "c \<notin> set s"
    using that by (auto simp: takeWhile_eq_all_conv)
  ultimately show ?case
    using Cons by (subst strrchr_loop.simps) (auto simp: Let_def takeWhile_append add.assoc of_nat_diff)
qed

subsection \<open>Properties\<close>

text \<open>
  Copying a string. When the destination does not overlap the source, \<^verbatim>\<open>strcpy\<close> returns the
  destination; the copy has the length of the original and compares equal to it, and no byte
  outside the destination has changed.
\<close>

theorem strcpy_correct:
  assumes "cstr m src s" and "length s < 2 ^ 32"
    and "region dest (Suc (length s)) \<inter> region src (Suc (length s)) = {}"
  shows "\<exists>m'. strcpy m dest src = Some (dest, m') \<and> strlen m' dest = Some (of_nat (length s)) \<and>
    strcmp m' dest src = Some 0 \<and> (\<forall>a. a \<notin> region dest (Suc (length s)) \<longrightarrow> m' a = m a)"
proof -
  obtain m' where m': "strcpy_loop m dest src = Some m'" "cstr m' dest s"
      "\<forall>a. a \<notin> region dest (Suc (length s)) \<longrightarrow> m' a = m a"
    using strcpy_loop_cstr [OF assms(1,3,2)] by blast
  have "cstr m' src s"
    by (rule cstr_cong [OF assms(1)]) (use m'(3) assms(3) in blast)
  with m' strcmp_cstr [of m' dest s src s] show ?thesis
    by (auto simp: strcpy_def strlen_cstr)
qed

text \<open>
  Bounded copy. For a positive count and no overlap, \<^verbatim>\<open>strncpy\<close> always leaves a terminated
  string in the destination (the source, or its first \<open>count - 1\<close> characters) and writes
  nothing outside the \<open>count\<close> bytes of the destination.
\<close>

theorem strncpy_terminated:
  assumes "cstr m src s" and "0 < unat count"
    and "region dest (unat count) \<inter> region src (Suc (length s)) = {}"
  shows "\<exists>m'. strncpy m dest src count = (dest, m') \<and> cstr m' dest (take (unat count - 1) s) \<and>
    (\<forall>a. a \<notin> region dest (unat count) \<longrightarrow> m' a = m a)"
proof (cases "length s < unat count")
  case True
  then show ?thesis
    using strncpy_loop_short [OF assms(1) True _ assms(3)] unat_u32_bound [of count]
    by (force simp: strncpy_def)
next
  case False
  define n where "n = unat count - 1"
  have n: "unat count = Suc n" "n < length s" and cw: "count - 1 = of_nat n"
    using assms(2) False by (auto simp: n_def of_nat_diff unat_eq_zero)
  define t where "t = take n s"
  have t: "take (Suc n) s = t @ [s ! n]" "length t = n"
    using n by (simp_all add: t_def take_Suc_conv_app_nth)
  have cs: "block m src (t @ [s ! n])" "0 \<notin> set (t @ [s ! n])"
    using assms(1) cstr_append [of m src "take (Suc n) s" "drop (Suc n) s", unfolded t(1)]
      append_take_drop_id [of "Suc n" s, unfolded t(1)] by metis+
  have "region src (Suc n) \<subseteq> region src (Suc (length s))"
    using n by (auto simp: region_def)
  then have "region dest (Suc n) \<inter> region src (Suc n) = {}"
    using assms(3) n by auto
  then obtain m' where m': "strncpy_loop m dest src (Suc n) = (False, m')" "block m' dest (t @ [s ! n])"
      "\<forall>a. a \<notin> region dest (Suc n) \<longrightarrow> m' a = m a"
    using strncpy_loop_long [OF cs, of "Suc n" dest] t n unat_u32_bound [of count] by auto
  let ?e = "dest + of_nat n"
  have last: "?e \<in> region dest (Suc n)" by (auto simp: region_def)
  have fresh: "?e \<notin> region dest n"
  proof -
    have "(of_nat n :: u32) \<noteq> of_nat i" if "i < n" for i
      using that n unat_u32_bound [of count] unat_of_nat_small [of n, where 'a = 32]
        unat_of_nat_small [of i, where 'a = 32] by auto
    then show ?thesis by (auto simp: region_def)
  qed
  have "block m' dest t"
    using m'(2) by (induction t arbitrary: dest) auto
  then have "block (m'(?e := 0)) dest t"
    by (rule block_cong) (use fresh t in auto)
  then have "cstr (m'(?e := 0)) dest (t @ [])"
    unfolding cstr_append using cs(2) t(2) by simp
  then show ?thesis
    using m' n cw last by (auto simp: strncpy_def t_def)
qed

text \<open>
  Copying and filling blocks. \<^verbatim>\<open>memcpy\<close> to a block that does not overlap its source, and
  \<^verbatim>\<open>memset\<close>, put exactly the bytes asked for in the destination and nothing anywhere else.
\<close>

theorem memory_blocks:
  assumes "block m src bs" and "length bs = unat count"
    and "region dest (unat count) \<inter> region src (unat count) = {}"
  shows "block (memcpy m dest src count) dest bs \<and>
    (\<forall>a. a \<notin> region dest (unat count) \<longrightarrow> memcpy m dest src count a = m a) \<and>
    block (memset m dest ch count) dest (replicate (unat count) (ucast ch)) \<and>
    (\<forall>a. a \<notin> region dest (unat count) \<longrightarrow> memset m dest ch count a = m a)"
  using memcpy_loop_block [OF assms(1,2) _ assms(3)]
    memset_loop_block [of "unat count" m dest "ucast ch"] unat_u32_bound [of count]
  by (auto simp: memcpy_def memset_def)

definition sample_mem :: mem where
  "sample_mem = (\<lambda>_. 0)(100 := 79, 101 := 110, 102 := 105, 103 := 120)"

lemma sample_mem_str: "cstr sample_mem 100 [79, 110, 105, 120]"
  by (simp add: sample_mem_def)

lemma region_3: "region p 3 = {p, p + 1, p + 1 + 1}"
  by (simp add: numeral_3_eq_3 region_Suc)

theorem strcpy_correct_witness:
  "\<exists>m'. strcpy sample_mem 200 100 = Some (200, m') \<and> strlen m' 200 = Some 4 \<and> strcmp m' 200 100 = Some 0"
  using strcpy_correct [OF sample_mem_str, where dest = 200] by (auto simp: region_Suc)

theorem strncpy_terminated_witness:
  "\<exists>m'. strncpy sample_mem 200 100 3 = (200, m') \<and> cstr m' 200 [79, 110]"
  using strncpy_terminated [OF sample_mem_str, where dest = 200 and count = 3]
  by (auto simp: region_Suc region_3)

theorem memory_blocks_witness:
  "block (memcpy sample_mem 200 100 3) 200 [79, 110, 105] \<and>
   block (memset sample_mem 200 0x41 3) 200 (replicate 3 0x41)"
proof -
  have "block sample_mem 100 [79, 110, 105]" by (simp add: sample_mem_def)
  from memory_blocks [OF this, where count = 3 and dest = 200 and ch = "0x41"] show ?thesis
    by (auto simp: region_3)
qed

end
