(* ===== verification/Onix_Stdlib.thy ===== *)
theory Onix_Stdlib
  imports Onix_Prelude
begin

section \<open>Small conversions (src/lib/stdlib.c)\<close>

text \<open>
  Case conversion, packed decimal, rounding up, and decimal parsing. Integer arithmetic is on the
  machine width: a result stored in a \<^verbatim>\<open>u8\<close> or \<^verbatim>\<open>int\<close> wraps. A C string is the list of its
  characters before the terminator; the NULL pointer is \<open>None\<close>.
\<close>

definition toupper :: "u8 \<Rightarrow> u8" where
  "toupper ch = (if sint ch \<ge> 97 \<and> sint ch \<le> 122 then ch - 0x20 else ch)"

definition tolower :: "u8 \<Rightarrow> u8" where
  "tolower ch = (if sint ch \<ge> 65 \<and> sint ch \<le> 90 then ch + 0x20 else ch)"

definition bcd_to_bin :: "u8 \<Rightarrow> u8" where
  "bcd_to_bin v = (v AND 0xf) + drop_bit 4 v * 10"

definition bin_to_bcd :: "u8 \<Rightarrow> u8" where
  "bin_to_bcd v = (v div 10) * 0x10 + v mod 10"

text \<open>Division by zero traps.\<close>

definition div_round_up :: "u32 \<Rightarrow> u32 \<Rightarrow> u32 option" where
  "div_round_up num sz = do {
     kassert (sz \<noteq> 0);
     Some ((num + sz - 1) div sz)
   }"

definition isdigit :: "int \<Rightarrow> bool" where
  "isdigit c \<longleftrightarrow> c \<ge> 48 \<and> c \<le> 57"

fun atoi_loop :: "u8 list \<Rightarrow> u32 \<Rightarrow> u32" where
  "atoi_loop [] result = result"
| "atoi_loop (c # cs) result = atoi_loop cs (result * 10 + (scast c - 48))"

definition atoi :: "u8 list option \<Rightarrow> u32" where
  "atoi str = (case str of
     None \<Rightarrow> 0
   | Some s \<Rightarrow>
       (case s of
          c # cs \<Rightarrow> if c = 45 then atoi_loop cs 0 * (-1) else atoi_loop s 0 * 1
        | [] \<Rightarrow> atoi_loop s 0 * 1))"

subsection \<open>Facts used elsewhere\<close>

text \<open>\<open>div_round_up\<close> is the ceiling of the quotient when the sum does not wrap.\<close>

lemma div_round_up_ceiling:
  assumes "sz \<noteq> 0" and "unat num + unat sz \<le> 2 ^ 32"
  shows "\<exists>r. div_round_up num sz = Some r \<and> unat r = (unat num + unat sz - 1) div unat sz"
proof -
  have sz: "1 \<le> unat sz" using assms(1) by (simp add: Suc_le_eq unat_gt_0)
  have "unat (num + sz - 1) = unat num + unat sz - 1"
  proof (cases "unat num + unat sz = 2 ^ 32")
    case True
    then have "unat (num + sz) = 0"
      by (simp add: unat_word_ariths)
    then have "num + sz = 0" by (simp only: unat_eq_zero)
    then show ?thesis using True by (simp add: unsigned_minus_1_eq_mask mask_eq_exp_minus_1)
  next
    case False
    then have "unat (num + sz) = unat num + unat sz"
      using assms(2) by (simp add: unat_plus_small)
    moreover from this have "1 \<le> num + sz" using sz by (simp add: word_le_nat_alt)
    ultimately show ?thesis by (simp add: unat_minus_le)
  qed
  then show ?thesis
    using assms(1) by (simp add: div_round_up_def unat_div)
qed

lemma atoi_loop_append: "atoi_loop (xs @ ys) r = atoi_loop ys (atoi_loop xs r)"
  by (induction xs arbitrary: r) auto

subsection \<open>Properties\<close>

text \<open>
  Packed decimal. For every byte below 100, converting to packed decimal and back is the
  identity, and the packed form has its decimal digits in the two nibbles.
\<close>

theorem bcd_roundtrip:
  assumes "v < 100"
  shows "bcd_to_bin (bin_to_bcd v) = v \<and> drop_bit 4 (bin_to_bcd v) = v div 10
    \<and> bin_to_bcd v AND 0xf = v mod 10"
proof -
  have v: "unat v < 100" using assms by (simp add: word_less_nat_alt)
  have b: "unat (bin_to_bcd v) = unat v div 10 * 16 + unat v mod 10"
    using v by (simp add: bin_to_bcd_def unat_word_ariths unat_div unat_mod)
  have hi: "unat (drop_bit 4 (bin_to_bcd v)) = unat v div 10"
    by (simp add: drop_bit_eq_div unat_div b)
  have "bin_to_bcd v AND 0xf = take_bit 4 (bin_to_bcd v)"
    by (simp add: take_bit_eq_mask mask_eq_exp_minus_1)
  then have lo: "unat (bin_to_bcd v AND 0xf) = unat v mod 10"
    by (simp add: take_bit_eq_mod unat_mod b)
  have digits: "drop_bit 4 (bin_to_bcd v) = v div 10" "bin_to_bcd v AND 0xf = v mod 10"
    using hi lo by (simp_all add: word_unat_eq_iff unat_div unat_mod)
  then have "bcd_to_bin (bin_to_bcd v) = v"
    by (simp add: bcd_to_bin_def add.commute [of "v mod 10"] div_mult_mod_eq)
  with digits show ?thesis by simp
qed

theorem bcd_roundtrip_witness:
  "(59 :: u8) < 100 \<and> bin_to_bcd 59 = 0x59 \<and> bcd_to_bin (bin_to_bcd 59) = 59"
  using bcd_roundtrip [of 59] by (simp add: bin_to_bcd_def)

end
