(* ===== verification/Onix_Pages.thy ===== *)
theory Onix_Pages
  imports Onix_Bitmap Onix_Stdlib
begin

section \<open>Physical pages and kernel pages (src/kernel/memory.c, first half)\<close>

text \<open>
  The allocator of physical pages is an array of reference counts, \<^verbatim>\<open>memory_map\<close>, one byte per
  page of the machine; the allocator of kernel addresses is the bitmap \<^verbatim>\<open>kernel_map\<close>. The
  static variables of \<^verbatim>\<open>memory.c\<close> are the record \<open>page_pool\<close>. The page array lies in memory
  at \<^verbatim>\<open>memory_base\<close>; the model keeps it as a list whose length is the zeroed area, and an index
  outside it halts.

  \<open>pool_ok\<close> is the invariant: \<^verbatim>\<open>free_pages\<close> is the number of pages with count 0 between
  \<^verbatim>\<open>start_page\<close> and \<^verbatim>\<open>total_pages\<close>. The bring-up establishes it and every operation keeps it.
\<close>

definition PAGE_SIZE :: u32 where "PAGE_SIZE = 0x1000"
definition MEMORY_BASE :: u32 where "MEMORY_BASE = 0x100000"
definition KERNEL_MEMORY_SIZE :: u32 where "KERNEL_MEMORY_SIZE = 0x1000000"
definition KERNEL_RAMDISK_MEM :: u32 where "KERNEL_RAMDISK_MEM = 0xC00000"
definition ONIX_MAGIC :: u32 where "ONIX_MAGIC = 0x20220205"
definition MULTIBOOT2_MAGIC :: u32 where "MULTIBOOT2_MAGIC = 0x36d76289"
definition ZONE_VALID :: u32 where "ZONE_VALID = 1"
definition MULTIBOOT_TAG_TYPE_END :: u32 where "MULTIBOOT_TAG_TYPE_END = 0"
definition MULTIBOOT_TAG_TYPE_MMAP :: u32 where "MULTIBOOT_TAG_TYPE_MMAP = 6"

lemmas pages_consts = PAGE_SIZE_def MEMORY_BASE_def KERNEL_MEMORY_SIZE_def KERNEL_RAMDISK_MEM_def

definition IDX :: "u32 \<Rightarrow> u32" where "IDX addr = drop_bit 12 addr"
definition PAGE :: "u32 \<Rightarrow> u32" where "PAGE idx = push_bit 12 idx"
definition ASSERT_PAGE :: "u32 \<Rightarrow> unit option" where "ASSERT_PAGE addr = kassert (addr AND 0xfff = 0)"

record page_pool =
  memory_base :: u32
  memory_size :: u32
  total_pages :: u32
  free_pages :: u32
  start_page :: u32
  memory_map_pages :: u32
  memory_map :: "u8 list"
  kernel_map :: bitmap_t

subsection \<open>Finding the memory of the machine\<close>

text \<open>
  Each zone the loader or the boot manager announces replaces the best one so far when it is usable
  and longer. The comparison is between the 64-bit length and the 32-bit size kept.
\<close>

definition zone_step :: "u64 \<Rightarrow> u64 \<Rightarrow> u32 \<Rightarrow> page_pool \<Rightarrow> page_pool" where
  "zone_step base len type p =
     (if type = ZONE_VALID \<and> len > ucast (memory_size p)
      then p\<lparr>memory_base := ucast base, memory_size := ucast len\<rparr> else p)"

text \<open>The packed \<^verbatim>\<open>ards_t\<close> records of the loader, 20 bytes each.\<close>

fun ards_loop :: "(u32 \<Rightarrow> u8) \<Rightarrow> nat \<Rightarrow> u32 \<Rightarrow> page_pool \<Rightarrow> page_pool" where
  "ards_loop m 0 ptr p = p"
| "ards_loop m (Suc n) ptr p =
     ards_loop m n (ptr + 20)
       (zone_step (read64 m ptr) (read64 m (ptr + 8)) (read32 m (ptr + 16)) p)"

text \<open>The tags of multiboot2, each aligned to eight bytes, and the entries of its memory map.\<close>

partial_function (option) mmap_tag :: "(u32 \<Rightarrow> u8) \<Rightarrow> u32 \<Rightarrow> u32 option" where
  "mmap_tag m tag =
     (if read32 m tag = MULTIBOOT_TAG_TYPE_END then Some tag
      else if read32 m tag = MULTIBOOT_TAG_TYPE_MMAP then Some tag
      else mmap_tag m (tag + ((read32 m (tag + 4) + 7) AND NOT 7)))"

declare mmap_tag.simps [code]

partial_function (option) mmap_entries ::
  "(u32 \<Rightarrow> u8) \<Rightarrow> u32 \<Rightarrow> u32 \<Rightarrow> page_pool \<Rightarrow> page_pool option" where
  "mmap_entries m tag entry p =
     (if entry < tag + read32 m (tag + 4)
      then mmap_entries m tag (entry + read32 m (tag + 8))
             (zone_step (read64 m entry) (read64 m (entry + 8)) (read32 m (entry + 16)) p)
      else Some p)"

declare mmap_entries.simps [code]

definition memory_zones :: "(u32 \<Rightarrow> u8) \<Rightarrow> u32 \<Rightarrow> u32 \<Rightarrow> page_pool \<Rightarrow> page_pool option" where
  "memory_zones m magic addr p =
     (if magic = ONIX_MAGIC then Some (ards_loop m (unat (read32 m addr)) (addr + 4) p)
      else if magic = MULTIBOOT2_MAGIC then do {
        tag \<leftarrow> mmap_tag m (addr + 8);
        mmap_entries m tag (tag + 16) p
      }
      else None)"

definition memory_init :: "(u32 \<Rightarrow> u8) \<Rightarrow> u32 \<Rightarrow> u32 \<Rightarrow> page_pool \<Rightarrow> page_pool option" where
  "memory_init m magic addr p = do {
     p \<leftarrow> memory_zones m magic addr p;
     kassert (memory_base p = MEMORY_BASE);
     kassert (memory_size p AND 0xfff = 0);
     let p = p\<lparr>total_pages := IDX (memory_size p) + IDX MEMORY_BASE,
               free_pages := IDX (memory_size p)\<rparr>;
     kassert (\<not> memory_size p < KERNEL_MEMORY_SIZE);
     Some p
   }"

text \<open>
  \<open>kbits\<close> is what the memory at \<^verbatim>\<open>KERNEL_MAP_BITS\<close> held before; \<^verbatim>\<open>bitmap_init\<close> clears it.
\<close>

fun mark_pages :: "nat \<Rightarrow> nat \<Rightarrow> u8 list \<Rightarrow> u8 list option" where
  "mark_pages 0 i mp = Some mp"
| "mark_pages (Suc n) i mp = do {
     kassert (i < length mp);
     mark_pages n (Suc i) (mp[i := 1])
   }"

definition memory_map_init :: "u8 list \<Rightarrow> page_pool \<Rightarrow> page_pool option" where
  "memory_map_init kbits p = do {
     n \<leftarrow> div_round_up (total_pages p) PAGE_SIZE;
     let p = p\<lparr>memory_map_pages := n, free_pages := free_pages p - n,
               memory_map := replicate (unat (n * PAGE_SIZE)) 0,
               start_page := IDX MEMORY_BASE + n\<rparr>;
     mp \<leftarrow> mark_pages (unat (start_page p)) 0 (memory_map p);
     let len = (IDX KERNEL_RAMDISK_MEM - IDX MEMORY_BASE) div 8;
     km \<leftarrow> bitmap_init kbits len (IDX MEMORY_BASE);
     (r, km) \<leftarrow> bitmap_scan km n;
     Some (p\<lparr>memory_map := mp, kernel_map := km\<rparr>)
   }"

subsection \<open>Taking and returning physical pages\<close>

fun get_page_loop :: "page_pool \<Rightarrow> nat \<Rightarrow> nat \<Rightarrow> (u32 \<times> page_pool) option" where
  "get_page_loop p i 0 = None"
| "get_page_loop p i (Suc left) = do {
     kassert (i < length (memory_map p));
     if memory_map p ! i = 0 then do {
       let p = p\<lparr>memory_map := (memory_map p)[i := 1]\<rparr>;
       kassert (free_pages p > 0);
       Some (PAGE (of_nat i), p\<lparr>free_pages := free_pages p - 1\<rparr>)
     }
     else get_page_loop p (Suc i) left
   }"

definition get_page :: "page_pool \<Rightarrow> (u32 \<times> page_pool) option" where
  "get_page p = get_page_loop p (unat (start_page p)) (unat (total_pages p) - unat (start_page p))"

definition put_page :: "page_pool \<Rightarrow> u32 \<Rightarrow> page_pool option" where
  "put_page p addr = do {
     ASSERT_PAGE addr;
     let idx = IDX addr;
     kassert (idx \<ge> start_page p \<and> idx < total_pages p);
     kassert (unat idx < length (memory_map p));
     kassert (memory_map p ! unat idx \<ge> 1);
     let p = p\<lparr>memory_map := (memory_map p)[unat idx := memory_map p ! unat idx - 1]\<rparr>;
     let p = (if memory_map p ! unat idx = 0 then p\<lparr>free_pages := free_pages p + 1\<rparr> else p);
     kassert (free_pages p > 0 \<and> free_pages p < total_pages p);
     Some p
   }"

subsection \<open>Kernel pages\<close>

definition scan_page :: "bitmap_t \<Rightarrow> u32 \<Rightarrow> (u32 \<times> bitmap_t) option" where
  "scan_page m count = do {
     kassert (count > 0);
     (index, m) \<leftarrow> bitmap_scan m count;
     kassert (index \<noteq> EOF);
     Some (PAGE index, m)
   }"

fun reset_page_loop :: "bitmap_t \<Rightarrow> u32 \<Rightarrow> nat \<Rightarrow> bitmap_t option" where
  "reset_page_loop m index 0 = Some m"
| "reset_page_loop m index (Suc n) = do {
     t \<leftarrow> bitmap_test m index;
     kassert t;
     m \<leftarrow> bitmap_set m index False;
     reset_page_loop m (index + 1) n
   }"

definition reset_page :: "bitmap_t \<Rightarrow> u32 \<Rightarrow> u32 \<Rightarrow> bitmap_t option" where
  "reset_page m addr count = do {
     ASSERT_PAGE addr;
     kassert (count > 0);
     reset_page_loop m (IDX addr) (unat count)
   }"

definition alloc_kpage :: "page_pool \<Rightarrow> u32 \<Rightarrow> (u32 \<times> page_pool) option" where
  "alloc_kpage p count = do {
     kassert (count > 0);
     (vaddr, km) \<leftarrow> scan_page (kernel_map p) count;
     Some (vaddr, p\<lparr>kernel_map := km\<rparr>)
   }"

definition free_kpage :: "page_pool \<Rightarrow> u32 \<Rightarrow> u32 \<Rightarrow> page_pool option" where
  "free_kpage p vaddr count = do {
     ASSERT_PAGE vaddr;
     kassert (count > 0);
     km \<leftarrow> reset_page (kernel_map p) vaddr count;
     Some (p\<lparr>kernel_map := km\<rparr>)
   }"

subsection \<open>The pool invariant\<close>

definition pool_free :: "page_pool \<Rightarrow> nat set" where
  "pool_free p = {i. unat (start_page p) \<le> i \<and> i < unat (total_pages p) \<and> memory_map p ! i = 0}"

definition refs :: "page_pool \<Rightarrow> nat \<Rightarrow> nat" where
  "refs p i = unat (memory_map p ! i)"

definition pool_ok :: "page_pool \<Rightarrow> bool" where
  "pool_ok p \<longleftrightarrow>
     0 < unat (start_page p) \<and> unat (total_pages p) \<le> 2 ^ 20 \<and>
     unat (total_pages p) \<le> length (memory_map p) \<and> unat (free_pages p) = card (pool_free p)"

text \<open>Page numbers and page addresses.\<close>

lemma PAGE_of_nat_align [simp]: "PAGE w AND 0xfff = 0"
proof -
  have "take_bit 12 (push_bit 12 w) = (0 :: u32)"
    by (rule bit_word_eqI) (auto simp: bit_take_bit_iff bit_push_bit_iff)
  then show ?thesis
    by (simp add: PAGE_def take_bit_eq_mask mask_eq_exp_minus_1)
qed

lemma ASSERT_PAGE_PAGE [simp]: "ASSERT_PAGE (PAGE w) = Some ()"
  by (simp add: ASSERT_PAGE_def)

lemma unat_PAGE: "unat w < 2 ^ 20 \<Longrightarrow> unat (PAGE w) = unat w * 4096"
  using unat_push_bit_small [of w 12] by (simp add: PAGE_def)

lemma IDX_PAGE: "unat w < 2 ^ 20 \<Longrightarrow> IDX (PAGE w) = w"
  by (simp add: IDX_def word_unat_eq_iff drop_bit_eq_div unat_div unat_PAGE)

lemma IDX_PAGE_of_nat: "i < 2 ^ 20 \<Longrightarrow> IDX (PAGE (of_nat i)) = of_nat i"
  by (rule IDX_PAGE) (simp add: unat_of_nat_small)

lemma PAGE_of_nat_inject:
  assumes "i < 2 ^ 20" and "j < 2 ^ 20"
  shows "PAGE (of_nat i) = PAGE (of_nat j) \<longleftrightarrow> i = j"
proof
  assume "PAGE (of_nat i) = PAGE (of_nat j)"
  then have "unat (PAGE (of_nat i)) = unat (PAGE (of_nat j))" by simp
  then show "i = j" using assms by (simp add: unat_PAGE unat_of_nat_small)
qed simp

lemma pool_free_finite [simp]: "finite (pool_free p)"
  by (rule finite_subset [of _ "{..<unat (total_pages p)}"]) (auto simp: pool_free_def)

lemma get_page_loop_found:
  assumes "unat (total_pages p) \<le> length (memory_map p)" and "0 < free_pages p"
    and "i + left = unat (total_pages p)" and "i \<le> j" and "j < unat (total_pages p)"
    and "memory_map p ! j = 0" and "\<forall>k. i \<le> k \<and> k < j \<longrightarrow> memory_map p ! k \<noteq> 0"
  shows "get_page_loop p i left =
    Some (PAGE (of_nat j), p\<lparr>memory_map := (memory_map p)[j := 1], free_pages := free_pages p - 1\<rparr>)"
  using assms
proof (induction left arbitrary: i)
  case 0
  then show ?case by simp
next
  case (Suc left)
  show ?case
  proof (cases "i = j")
    case True
    with Suc.prems show ?thesis by simp
  next
    case False
    moreover have "get_page_loop p (Suc i) left =
        Some (PAGE (of_nat j), p\<lparr>memory_map := (memory_map p)[j := 1], free_pages := free_pages p - 1\<rparr>)"
      by (rule Suc.IH) (use Suc.prems False in auto)
    ultimately show ?thesis
      using Suc.prems by simp
  qed
qed

lemma get_page_loop_full:
  assumes "\<forall>k. i \<le> k \<and> k < i + left \<longrightarrow> memory_map p ! k \<noteq> 0"
  shows "get_page_loop p i left = None"
  using assms by (induction left arbitrary: i) (auto simp: kassert_def)

lemma get_page_cases:
  assumes "pool_ok p"
  shows "if pool_free p = {} then get_page p = None
    else let i = Min (pool_free p) in
      get_page p = Some (PAGE (of_nat i),
        p\<lparr>memory_map := (memory_map p)[i := 1], free_pages := free_pages p - 1\<rparr>)"
proof (cases "pool_free p = {}")
  case True
  then have "get_page p = None"
    unfolding get_page_def by (intro get_page_loop_full) (auto simp: pool_free_def)
  with True show ?thesis by simp
next
  case False
  define i where "i = Min (pool_free p)"
  have i: "i \<in> pool_free p"
    using False by (simp add: i_def)
  have least: "memory_map p ! k \<noteq> 0" if "unat (start_page p) \<le> k" "k < i" for k
  proof
    assume "memory_map p ! k = 0"
    then have "k \<in> pool_free p" using that i by (simp add: pool_free_def)
    then have "i \<le> k" by (simp add: i_def)
    with that(2) show False by simp
  qed
  have "0 < free_pages p"
    using assms False card_gt_0_iff [of "pool_free p"] by (simp add: pool_ok_def word_less_nat_alt)
  then have "get_page p = Some (PAGE (of_nat i),
      p\<lparr>memory_map := (memory_map p)[i := 1], free_pages := free_pages p - 1\<rparr>)"
    unfolding get_page_def
    by (intro get_page_loop_found) (use assms i least in \<open>auto simp: pool_ok_def pool_free_def\<close>)
  with False show ?thesis by (simp add: i_def Let_def)
qed

text \<open>One reference count written, and \<^verbatim>\<open>free_pages\<close> with it.\<close>

lemma pool_free_update:
  assumes "unat (total_pages p) \<le> length (memory_map p)"
    and "unat (start_page p) \<le> i" and "i < unat (total_pages p)"
  shows "pool_free (p\<lparr>memory_map := (memory_map p)[i := v], free_pages := f\<rparr>) =
    (if v = 0 then insert i (pool_free p) else pool_free p - {i})"
  using assms by (auto simp: pool_free_def nth_list_update)

lemma pool_ok_take:
  assumes "pool_ok p" and "i \<in> pool_free p" and "v \<noteq> 0"
  shows "pool_ok (p\<lparr>memory_map := (memory_map p)[i := v], free_pages := free_pages p - 1\<rparr>)"
proof -
  have i: "unat (start_page p) \<le> i" "i < unat (total_pages p)"
    using assms(2) by (auto simp: pool_free_def)
  have "1 \<le> free_pages p"
    using assms(1,2) card_gt_0_iff [of "pool_free p"] by (auto simp: pool_ok_def word_le_nat_alt)
  then have "unat (free_pages p - 1) = card (pool_free p) - 1"
    using assms(1) by (simp add: unat_minus_le pool_ok_def)
  then show ?thesis
    using assms i by (simp add: pool_ok_def pool_free_update card_Diff_singleton)
qed

lemma get_page_ok:
  assumes "pool_ok p" and "get_page p = Some (a, p')"
  obtains i where "i \<in> pool_free p" and "a = PAGE (of_nat i)" and "pool_ok p'"
    and "p' = p\<lparr>memory_map := (memory_map p)[i := 1], free_pages := free_pages p - 1\<rparr>"
    and "pool_free p' = pool_free p - {i}"
proof -
  have ne: "pool_free p \<noteq> {}"
    using get_page_cases [OF assms(1)] assms(2) by auto
  define i where "i = Min (pool_free p)"
  have i: "i \<in> pool_free p" using ne by (simp add: i_def)
  moreover have eq: "a = PAGE (of_nat i)"
    "p' = p\<lparr>memory_map := (memory_map p)[i := 1], free_pages := free_pages p - 1\<rparr>"
    using get_page_cases [OF assms(1)] assms(2) ne by (auto simp: i_def Let_def)
  moreover have "pool_ok p'"
    unfolding eq by (rule pool_ok_take) (use assms i in auto)
  moreover have "pool_free p' = pool_free p - {i}"
    using assms(1) i unfolding eq by (subst pool_free_update) (auto simp: pool_ok_def pool_free_def)
  ultimately show thesis by (intro that)
qed

text \<open>
  Returning a page. The result depends on the last assertion of \<^verbatim>\<open>put_page\<close>, which also looks at
  the pool when the page stays in use.
\<close>

lemma put_page_cases:
  assumes "pool_ok p" and "unat (start_page p) \<le> i" and "i < unat (total_pages p)"
    and "0 < refs p i"
  shows "put_page p (PAGE (of_nat i)) =
    (if refs p i = 1 then
       Some (p\<lparr>memory_map := (memory_map p)[i := 0], free_pages := free_pages p + 1\<rparr>)
     else if free_pages p = 0 then None
     else Some (p\<lparr>memory_map := (memory_map p)[i := memory_map p ! i - 1]\<rparr>))"
proof -
  have i: "i < 2 ^ 20" "i < length (memory_map p)" using assms by (auto simp: pool_ok_def)
  then have idx: "IDX (PAGE (of_nat i)) = of_nat i" "unat (of_nat i :: u32) = i"
    by (simp_all add: IDX_PAGE_of_nat unat_of_nat_small)
  have rng: "start_page p \<le> of_nat i" "of_nat i < total_pages p"
    using assms(2,3) idx(2) by (simp_all add: word_le_nat_alt word_less_nat_alt)
  have ge: "1 \<le> memory_map p ! i"
    using assms(4) by (simp add: refs_def word_le_nat_alt)
  have fin: "card (pool_free p) < unat (total_pages p)"
  proof -
    have "pool_free p \<subseteq> {unat (start_page p)..<unat (total_pages p)}"
      by (auto simp: pool_free_def)
    then have "card (pool_free p) \<le> unat (total_pages p) - unat (start_page p)"
      using card_mono [of "{unat (start_page p)..<unat (total_pages p)}"] by force
    then show ?thesis using assms(1-3) by (auto simp: pool_ok_def)
  qed
  have lt: "free_pages p < total_pages p"
    using fin assms(1) by (simp add: pool_ok_def word_less_nat_alt)
  show ?thesis
  proof (cases "refs p i = 1")
    case True
    then have one: "memory_map p ! i = 1" by (simp add: refs_def word_unat_eq_iff)
    have notin: "i \<notin> pool_free p" using one by (simp add: pool_free_def)
    have "insert i (pool_free p) \<subseteq> {unat (start_page p)..<unat (total_pages p)}"
      using assms(2,3) by (auto simp: pool_free_def)
    then have "Suc (card (pool_free p)) \<le> unat (total_pages p) - unat (start_page p)"
      using card_mono [of "{unat (start_page p)..<unat (total_pages p)}" "insert i (pool_free p)"] notin
      by simp
    then have suc: "Suc (unat (free_pages p)) < unat (total_pages p)"
      using assms(1-3) by (auto simp: pool_ok_def)
    then have "unat (free_pages p + 1) = Suc (unat (free_pages p))"
      using unat_u32_bound [of "total_pages p"] by (simp add: unat_plus_small)
    then have "0 < free_pages p + 1" "free_pages p + 1 < total_pages p"
      using suc by (simp_all add: word_less_nat_alt)
    then show ?thesis
      using True one idx rng i(2) by (simp add: put_page_def)
  next
    case False
    then have "memory_map p ! i - 1 \<noteq> 0"
      by (auto simp: refs_def)
    then show ?thesis
      using False idx rng i(2) ge lt by (auto simp: put_page_def word_neq_0_conv [symmetric])
  qed
qed

subsection \<open>The interface of a page allocator\<close>

text \<open>
  What a client of an allocator of single pages relies on: a page taken was free and now belongs
  to the taker; a page its owner returns is free again; nothing else changes hands.
\<close>

locale page_source =
  fixes ok :: "'s \<Rightarrow> bool" and free :: "'s \<Rightarrow> 'p set" and owned :: "'s \<Rightarrow> 'p \<Rightarrow> bool"
    and take_one :: "'s \<Rightarrow> ('p \<times> 's) option" and give :: "'s \<Rightarrow> 'p \<Rightarrow> 's option"
  assumes free_finite: "finite (free s)"
    and take_halts: "ok s \<Longrightarrow> take_one s = None \<longleftrightarrow> free s = {}"
    and take_ok: "ok s \<Longrightarrow> take_one s = Some (a, s') \<Longrightarrow>
      ok s' \<and> a \<in> free s \<and> free s' = free s - {a} \<and> owned s' a \<and> (\<forall>b. owned s b \<longrightarrow> owned s' b)"
    and give_ok: "ok s \<Longrightarrow> owned s a \<Longrightarrow>
      \<exists>s'. give s a = Some s' \<and> ok s' \<and> free s' = insert a (free s) \<and>
        (\<forall>b. b \<noteq> a \<longrightarrow> owned s b \<longrightarrow> owned s' b)"
begin

lemma take_many:
  assumes "ok s" and "k \<le> card (free s)"
  shows "\<exists>as s'. drain k take_one s = Some (as, s') \<and> ok s' \<and> length as = k \<and> distinct as \<and>
    set as \<subseteq> free s \<and> free s' = free s - set as \<and>
    (\<forall>b. b \<in> set as \<or> owned s b \<longrightarrow> owned s' b)"
  using assms
proof (induction k arbitrary: s)
  case 0
  then show ?case by simp
next
  case (Suc k)
  then have "free s \<noteq> {}" by auto
  with Suc.prems(1) take_halts [of s] obtain a t where t: "take_one s = Some (a, t)"
    by (cases "take_one s") auto
  note a = take_ok [OF Suc.prems(1) t]
  have "k \<le> card (free t)"
    using Suc.prems(2) a free_finite [of s] by simp
  then obtain as s' where "drain k take_one t = Some (as, s')" "ok s'" "length as = k" "distinct as"
      "set as \<subseteq> free t" "free s' = free t - set as" "\<forall>b. b \<in> set as \<or> owned t b \<longrightarrow> owned s' b"
    using Suc.IH [of t] a by blast
  with t a show ?case by auto
qed

lemma give_many:
  assumes "ok s" and "distinct as" and "\<forall>a \<in> set as. owned s a"
  shows "\<exists>s'. each give s as = Some s' \<and> ok s' \<and> free s' = free s \<union> set as"
  using assms
proof (induction as arbitrary: s)
  case Nil
  then show ?case by simp
next
  case (Cons a as)
  then obtain t where t: "give s a = Some t" "ok t" "free t = insert a (free s)"
      "\<forall>b. b \<noteq> a \<longrightarrow> owned s b \<longrightarrow> owned t b"
    using give_ok [of s a] by auto
  moreover have "\<forall>b \<in> set as. owned t b"
    using Cons.prems t(4) by (metis distinct.simps(2) list.set_intros(2))
  ultimately obtain s' where "each give t as = Some s'" "ok s'" "free s' = free t \<union> set as"
    using Cons.IH [of t] Cons.prems by auto
  with t show ?case by auto
qed

lemma take_give:
  assumes "ok s" and "k \<le> card (free s)"
  shows "\<exists>as s'. drain k take_one s = Some (as, s') \<and> length as = k \<and> distinct as \<and>
    set as \<subseteq> free s \<and> (\<forall>bs. distinct bs \<and> set bs = set as \<longrightarrow>
      (\<exists>t. each give s' bs = Some t \<and> ok t \<and> free t = free s))"
proof -
  obtain as s' where s': "drain k take_one s = Some (as, s')" "ok s'" "length as = k" "distinct as"
      "set as \<subseteq> free s" "free s' = free s - set as" "\<forall>b. b \<in> set as \<or> owned s b \<longrightarrow> owned s' b"
    using take_many [OF assms] by blast
  have "\<exists>t. each give s' bs = Some t \<and> ok t \<and> free t = free s"
    if "distinct bs" "set bs = set as" for bs
    using give_many [OF s'(2) that(1)] s' that(2) by auto
  with s' show ?thesis by blast
qed

end

text \<open>Physical pages by address: free, and held by exactly one owner.\<close>

definition page_addrs :: "page_pool \<Rightarrow> u32 set" where
  "page_addrs p = (\<lambda>i. PAGE (of_nat i)) ` pool_free p"

definition page_owned :: "page_pool \<Rightarrow> u32 \<Rightarrow> bool" where
  "page_owned p a \<longleftrightarrow> (\<exists>i. a = PAGE (of_nat i) \<and> unat (start_page p) \<le> i \<and>
     i < unat (total_pages p) \<and> refs p i = 1)"

lemma pool_small:
  assumes "pool_ok p" and "i < unat (total_pages p)"
  shows "i < 2 ^ 20" and "i < length (memory_map p)"
  using assms by (auto simp: pool_ok_def)

lemma page_addrs_card: "pool_ok p \<Longrightarrow> card (page_addrs p) = unat (free_pages p)"
  unfolding page_addrs_def
  by (subst card_image)
    (auto simp: pool_ok_def pool_free_def inj_on_def PAGE_of_nat_inject)

lemma page_addrs_remove:
  assumes "pool_ok p" and "i \<in> pool_free p" and "pool_free p' = pool_free p - {i}"
  shows "page_addrs p' = page_addrs p - {PAGE (of_nat i)}"
proof -
  have "PAGE (of_nat j) \<noteq> PAGE (of_nat i)" if "j \<in> pool_free p" "j \<noteq> i" for j
    using that assms pool_small(1) [OF assms(1)] PAGE_of_nat_inject [of j i]
    by (auto simp: pool_free_def)
  then show ?thesis
    using assms(3) by (auto simp: page_addrs_def)
qed

interpretation pool: page_source pool_ok page_addrs page_owned get_page put_page
proof (unfold_locales, goal_cases)
  case (1 s)
  show ?case by (simp add: page_addrs_def)
next
  case (2 s)
  then show ?case
    using get_page_cases [OF 2] by (auto simp: page_addrs_def Let_def split: if_splits)
next
  case (3 s a s')
  then obtain i where i: "i \<in> pool_free s" "a = PAGE (of_nat i)" "pool_ok s'"
      "s' = s\<lparr>memory_map := (memory_map s)[i := 1], free_pages := free_pages s - 1\<rparr>"
      "pool_free s' = pool_free s - {i}"
    by (rule get_page_ok)
  have rng: "unat (start_page s) \<le> i" "i < unat (total_pages s)" "i < length (memory_map s)"
    using i(1) 3(1) by (auto simp: pool_free_def pool_ok_def)
  have own: "page_owned s' b" if own_b: "page_owned s b" for b
  proof -
    obtain j where j: "b = PAGE (of_nat j)" "unat (start_page s) \<le> j" "j < unat (total_pages s)"
        "refs s j = 1"
      using own_b by (auto simp: page_owned_def)
    then have "j \<noteq> i" using i(1) by (auto simp: refs_def pool_free_def)
    with j i(4) show ?thesis by (auto simp: page_owned_def refs_def)
  qed
  have "page_owned s' a"
    using i(2,4) rng unfolding page_owned_def by (auto simp: refs_def intro!: exI [of _ i])
  with i page_addrs_remove [OF 3(1) i(1) i(5)] own show ?case
    by (auto simp: page_addrs_def)
next
  case (4 s a)
  then obtain i where i: "a = PAGE (of_nat i)" "unat (start_page s) \<le> i" "i < unat (total_pages s)"
      "refs s i = 1"
    by (auto simp: page_owned_def)
  let ?s = "s\<lparr>memory_map := (memory_map s)[i := 0], free_pages := free_pages s + 1\<rparr>"
  have len: "unat (total_pages s) \<le> length (memory_map s)" and li: "i < length (memory_map s)"
    using 4(1) i(3) by (auto simp: pool_ok_def)
  have put: "put_page s a = Some ?s"
    using put_page_cases [OF 4(1) i(2,3)] i by simp
  have fr: "pool_free ?s = insert i (pool_free s)"
    by (subst pool_free_update) (use len i in auto)
  have notin: "i \<notin> pool_free s" using i(4) by (auto simp: pool_free_def refs_def)
  have "card (pool_free s) \<le> unat (total_pages s)"
    using card_mono [of "{..<unat (total_pages s)}" "pool_free s"] by (auto simp: pool_free_def)
  then have "unat (free_pages s + 1) = Suc (unat (free_pages s))"
    using 4(1) by (subst unat_plus_small) (auto simp: pool_ok_def)
  then have ok: "pool_ok ?s"
    using 4(1) fr notin by (simp add: pool_ok_def)
  have "page_owned ?s b" if neq: "b \<noteq> a" and own_b: "page_owned s b" for b
  proof -
    obtain j where j: "b = PAGE (of_nat j)" "unat (start_page s) \<le> j" "j < unat (total_pages s)"
        "refs s j = 1"
      using own_b by (auto simp: page_owned_def)
    then have "j \<noteq> i" using neq i(1) by auto
    with j show ?thesis by (auto simp: page_owned_def refs_def)
  qed
  with put ok fr i(1) show ?case by (auto simp: page_addrs_def)
qed

subsection \<open>Runs of kernel pages\<close>

lemma reset_page_loop_bits:
  assumes "bm_ok m" and "s + k \<le> bm_size m" and "\<forall>i. s \<le> i \<and> i < s + k \<longrightarrow> bm_bit m i"
  shows "\<exists>m'. reset_page_loop m (bm_index m s) k = Some m' \<and> bm_ok m' \<and>
    bm_length m' = bm_length m \<and> bm_offset m' = bm_offset m \<and> length (bits m') = length (bits m) \<and>
    (\<forall>j. bm_bit m' j = (bm_bit m j \<and> \<not> (s \<le> j \<and> j < s + k)))"
  using assms
proof (induction k arbitrary: m s)
  case 0
  then show ?case by auto
next
  case (Suc k)
  have t: "bitmap_test m (bm_index m s) = Some True"
    using bitmap_test_bit [of m s] Suc.prems by auto
  obtain m1 where m1: "bitmap_set m (bm_index m s) False = Some m1" "bm_ok m1"
      "bm_length m1 = bm_length m" "bm_offset m1 = bm_offset m" "length (bits m1) = length (bits m)"
      "\<forall>j. bm_bit m1 j = (if j = s then False else bm_bit m j)"
    using bitmap_set_bit [of m s False] Suc.prems by auto
  have nxt: "bm_index m s + 1 = bm_index m1 (Suc s)"
    using m1(4) by (simp add: bm_index_def)
  obtain m' where m': "reset_page_loop m1 (bm_index m1 (Suc s)) k = Some m'" "bm_ok m'"
      "bm_length m' = bm_length m1" "bm_offset m' = bm_offset m1" "length (bits m') = length (bits m1)"
      "\<forall>j. bm_bit m' j = (bm_bit m1 j \<and> \<not> (Suc s \<le> j \<and> j < Suc s + k))"
    using Suc.IH [of m1 "Suc s"] Suc.prems m1 by (auto simp: bm_size_def)
  have "bm_bit m' j = (bm_bit m j \<and> \<not> (s \<le> j \<and> j < s + Suc k))" for j
    using m'(6) m1(6) by auto
  with t m1 m' nxt show ?case by simp
qed

lemma bm_bits_eq:
  assumes "bm_ok m" and "\<forall>j. bm_bit m' j = bm_bit m j" and "length (bits m') = length (bits m)"
    and "bm_length m' = bm_length m" and "bm_offset m' = bm_offset m"
  shows "m' = m"
proof -
  have "bits m' ! i = bits m ! i" if "i < length (bits m)" for i
  proof (rule bit_word_eqI)
    fix n assume "n < LENGTH(8)"
    then have "bm_bit m' (8 * i + n) = bm_bit m (8 * i + n) \<and> (8 * i + n) div 8 = i \<and> (8 * i + n) mod 8 = n"
      using assms(2) by simp
    then show "bit (bits m' ! i) n = bit (bits m ! i) n"
      by (auto simp: bm_bit_def)
  qed
  then have "bits m' = bits m"
    using assms(3) by (intro nth_equalityI) auto
  then show ?thesis using assms(4,5) by simp
qed

text \<open>The kernel map covers pages below 16M, so that its indices are page numbers.\<close>

definition kmap_ok :: "bitmap_t \<Rightarrow> bool" where
  "kmap_ok m \<longleftrightarrow> bm_ok m \<and> unat (bm_offset m) + bm_size m \<le> 2 ^ 20"

lemma kmap_index:
  assumes "kmap_ok m" and "i < bm_size m"
  shows "IDX (PAGE (bm_index m i)) = bm_index m i" and "bm_index m i \<noteq> EOF"
proof -
  have u: "unat (bm_index m i) = unat (bm_offset m) + i"
    using assms by (intro bm_index_props) (auto simp: kmap_ok_def)
  then have lt: "unat (bm_index m i) < 2 ^ 20" using assms by (auto simp: kmap_ok_def)
  then show "IDX (PAGE (bm_index m i)) = bm_index m i" by (rule IDX_PAGE)
  have "unat EOF = 4294967196" by (simp add: EOF_def EEOF_def)
  with lt show "bm_index m i \<noteq> EOF" by auto
qed

lemma scan_page_cases:
  assumes "kmap_ok m" and "0 < unat n"
  shows "(\<exists>s m'. scan_page m n = Some (PAGE (bm_index m s), m') \<and> free_run m s (unat n) \<and> kmap_ok m' \<and>
       bm_length m' = bm_length m \<and> bm_offset m' = bm_offset m \<and> length (bits m') = length (bits m) \<and>
       (\<forall>j. bm_bit m' j = (s \<le> j \<and> j < s + unat n \<or> bm_bit m j))) \<or>
     scan_page m n = None \<and> (\<forall>s. \<not> free_run m s (unat n))"
proof -
  have ok: "bm_ok m" and n: "0 < n"
    using assms by (auto simp: kmap_ok_def word_less_nat_alt)
  from bitmap_scan_cases [OF ok assms(2)] show ?thesis
  proof (elim disjE exE conjE)
    fix s m'
    assume *: "bitmap_scan m n = Some (bm_index m s, m')" "free_run m s (unat n)" "bm_ok m'"
      "bm_length m' = bm_length m" "bm_offset m' = bm_offset m" "length (bits m') = length (bits m)"
      "\<forall>j. bm_bit m' j = (s \<le> j \<and> j < s + unat n \<or> bm_bit m j)"
    have "s < bm_size m" using *(2) assms(2) by (auto simp: free_run_def)
    then have "bm_index m s \<noteq> EOF" by (rule kmap_index [OF assms(1)])
    moreover have "kmap_ok m'" using assms(1) *(3-5) by (simp add: kmap_ok_def bm_size_def)
    ultimately show ?thesis using * n by (auto simp: scan_page_def)
  qed (use n in \<open>auto simp: scan_page_def\<close>)
qed

lemma alloc_free_kpage:
  assumes "kmap_ok (kernel_map p)" and "alloc_kpage p n = Some (v, p')"
  shows "free_kpage p' v n = Some p" and "kmap_ok (kernel_map p')"
proof -
  let ?m = "kernel_map p"
  have n: "0 < n" "0 < unat n"
    using assms(2) by (auto simp: alloc_kpage_def halt_simps word_less_nat_alt)
  obtain m' where s: "scan_page ?m n = Some (v, m')" "p' = p\<lparr>kernel_map := m'\<rparr>"
    using assms(2) by (auto simp: alloc_kpage_def halt_simps split: prod.splits)
  with scan_page_cases [OF assms(1) n(2)] obtain i where
    i: "v = PAGE (bm_index ?m i)" "free_run ?m i (unat n)" "kmap_ok m'" "bm_length m' = bm_length ?m"
      "bm_offset m' = bm_offset ?m" "length (bits m') = length (bits ?m)"
      "\<forall>j. bm_bit m' j = (i \<le> j \<and> j < i + unat n \<or> bm_bit ?m j)"
    by auto
  show "kmap_ok (kernel_map p')" using s i by simp
  have sz: "i + unat n \<le> bm_size m'" "i < bm_size ?m"
    using i(2,4) n(2) by (auto simp: free_run_def bm_size_def)
  have "\<exists>m''. reset_page_loop m' (bm_index m' i) (unat n) = Some m'' \<and> bm_ok m'' \<and>
      bm_length m'' = bm_length m' \<and> bm_offset m'' = bm_offset m' \<and> length (bits m'') = length (bits m') \<and>
      (\<forall>j. bm_bit m'' j = (bm_bit m' j \<and> \<not> (i \<le> j \<and> j < i + unat n)))"
    by (rule reset_page_loop_bits) (use i sz in \<open>auto simp: kmap_ok_def\<close>)
  then obtain m'' where m'': "reset_page_loop m' (bm_index m' i) (unat n) = Some m''" "bm_ok m''"
      "bm_length m'' = bm_length m'" "bm_offset m'' = bm_offset m'" "length (bits m'') = length (bits m')"
      "\<forall>j. bm_bit m'' j = (bm_bit m' j \<and> \<not> (i \<le> j \<and> j < i + unat n))"
    by blast
  have "bm_bit m'' j = bm_bit ?m j" for j
    using m''(6) i(7,2) by (auto simp: free_run_def)
  then have "m'' = ?m"
    using assms(1) m'' i by (intro bm_bits_eq) (auto simp: kmap_ok_def)
  moreover have "bm_index m' i = bm_index ?m i" using i(5) by (simp add: bm_index_def)
  ultimately show "free_kpage p' v n = Some p"
    using m''(1) n kmap_index(1) [OF assms(1) sz(2)] s(2) i(1) by (simp add: free_kpage_def reset_page_def)
qed

subsection \<open>Bring-up\<close>

lemma mark_pages_spec:
  "i + n \<le> length mp \<Longrightarrow> mark_pages n i mp = Some (take i mp @ replicate n 1 @ drop (i + n) mp)"
proof (induction n arbitrary: i mp)
  case 0
  then show ?case by simp
next
  case (Suc n)
  then have "mark_pages n (Suc i) (mp[i := 1]) =
      Some (take (Suc i) (mp[i := 1]) @ replicate n 1 @ drop (Suc i + n) (mp[i := 1]))"
    by (intro Suc.IH) simp
  moreover have "take (Suc i) (mp[i := 1]) = take i mp @ [1]"
    using Suc.prems by (simp add: take_Suc_conv_app_nth)
  ultimately show ?case using Suc.prems by simp
qed

text \<open>What \<^verbatim>\<open>memory_init\<close> leaves behind when it returns.\<close>

definition zones_ok :: "page_pool \<Rightarrow> bool" where
  "zones_ok p \<longleftrightarrow> memory_base p = MEMORY_BASE \<and> memory_size p \<ge> KERNEL_MEMORY_SIZE \<and>
     total_pages p = IDX (memory_size p) + IDX MEMORY_BASE \<and> free_pages p = IDX (memory_size p)"

lemma memory_init_ok: "memory_init m magic addr p = Some p' \<Longrightarrow> zones_ok p'"
  by (auto simp: memory_init_def halt_simps zones_ok_def Let_def)

lemma fresh_kmap_scan:
  assumes "0 < unat n" and "unat n \<le> 2816" and "length kbits = 352"
  shows "\<exists>m r m'. bitmap_init kbits 352 256 = Some m \<and> bitmap_scan m n = Some (r, m') \<and>
    kmap_ok m' \<and> (\<forall>j. bm_bit m' j \<longleftrightarrow> j < unat n \<or> 2816 \<le> j \<and> bm_bit m j)"
proof -
  define m where "m = bitmap_make (replicate 352 0) 352 256"
  have m: "bitmap_init kbits 352 256 = Some m"
    using assms(3) by (simp add: bitmap_init_def m_def)
  have ok: "bm_ok m" and sz: "bm_size m = 2816" and bits: "\<not> bm_bit m i" if "i < 2816" for i
    using that by (simp_all add: bm_ok_def bm_size_def m_def bitmap_make_def bm_bit_def less_mult_imp_div_less)
  then have ok: "bm_ok m" and sz: "bm_size m = 2816" by (auto simp: m_def bitmap_make_def bm_ok_def bm_size_def)
  have run: "free_run m 0 (unat n)" using bits assms(2) sz by (auto simp: free_run_def)
  then obtain s m' where s: "bitmap_scan m n = Some (bm_index m s, m')" "free_run m s (unat n)"
      "\<forall>s' < s. \<not> free_run m s' (unat n)" "bm_ok m'" "bm_length m' = bm_length m" "bm_offset m' = bm_offset m"
      "\<forall>j. bm_bit m' j = (s \<le> j \<and> j < s + unat n \<or> bm_bit m j)"
    using bitmap_scan_cases [OF ok assms(1)] by blast
  have "s = 0" using s(3) run by auto
  moreover have "kmap_ok m'" using s(4-6) sz by (simp add: kmap_ok_def bm_size_def m_def bitmap_make_def)
  moreover have "bm_bit m' j \<longleftrightarrow> j < unat n \<or> 2816 \<le> j \<and> bm_bit m j" for j
    using s(7) \<open>s = 0\<close> bits [of j] by (cases "j < 2816") auto
  ultimately show ?thesis using m s(1) by blast
qed

lemma memory_map_init_ok:
  assumes "zones_ok p" and "unat (memory_size p) \<le> 2 ^ 32 - 2 ^ 20" and "length kbits = 352"
  shows "\<exists>p'. memory_map_init kbits p = Some p' \<and> pool_ok p' \<and> kmap_ok (kernel_map p') \<and>
    unat (total_pages p') = unat (memory_size p) div 4096 + 256 \<and>
    unat (start_page p') = 256 + (unat (total_pages p') + 4095) div 4096 \<and>
    pool_free p' = {unat (start_page p')..<unat (total_pages p')} \<and>
    (\<forall>j < 2816. bm_bit (kernel_map p') j \<longleftrightarrow> j < unat (start_page p') - 256)"
proof -
  let ?k = "unat (memory_size p) div 4096"
  have k: "4096 \<le> ?k" "?k + 256 \<le> 2 ^ 20"
    using assms(1,2) div_le_mono [of 16777216 "unat (memory_size p)" 4096]
    by (auto simp: zones_ok_def KERNEL_MEMORY_SIZE_def word_le_nat_alt)
  have idx: "unat (IDX (memory_size p)) = ?k" "IDX MEMORY_BASE = 256" "IDX KERNEL_RAMDISK_MEM = 3072"
    by (simp_all add: IDX_def drop_bit_eq_div unat_div MEMORY_BASE_def KERNEL_RAMDISK_MEM_def word_unat_eq_iff)
  have t: "unat (total_pages p) = ?k + 256"
    using assms(1) k idx by (simp add: zones_ok_def unat_plus_small)
  obtain n where n: "div_round_up (total_pages p) PAGE_SIZE = Some n"
      "unat n = (?k + 256 + 4095) div 4096"
    using div_round_up_ceiling [of PAGE_SIZE "total_pages p"] t k by (auto simp: PAGE_SIZE_def)
  have nb: "2 \<le> unat n" "unat n \<le> 256" "?k + 256 \<le> unat n * 4096"
    using k n(2) by auto
  have len: "unat (n * PAGE_SIZE) = unat n * 4096"
    using nb by (subst unat_mult_small) (auto simp: PAGE_SIZE_def)
  have st: "unat (256 + n) = 256 + unat n" using nb by (subst unat_plus_small) auto
  let ?mp = "replicate (256 + unat n) 1 @ replicate (unat n * 4096 - (256 + unat n)) (0 :: u8)"
  have mark: "mark_pages (256 + unat n) 0 (replicate (unat n * 4096) 0) = Some ?mp"
    using nb by (subst mark_pages_spec) auto
  obtain m r m' where km: "bitmap_init kbits 352 256 = Some m" "bitmap_scan m n = Some (r, m')"
      "kmap_ok m'" "\<forall>j. bm_bit m' j \<longleftrightarrow> j < unat n \<or> 2816 \<le> j \<and> bm_bit m j"
    using fresh_kmap_scan [of n kbits] nb assms(3) by auto
  let ?p = "p\<lparr>memory_map_pages := n, free_pages := free_pages p - n, memory_map := ?mp,
      start_page := 256 + n, kernel_map := m'\<rparr>"
  have init: "memory_map_init kbits p = Some ?p"
    using n(1) km mark by (simp add: memory_map_init_def idx len st)
  have free: "pool_free ?p = {256 + unat n..<?k + 256}"
    using nb st t by (auto simp: pool_free_def nth_append)
  have "unat (free_pages p - n) = ?k - unat n"
    using assms(1) idx nb k by (subst unat_minus_le) (auto simp: zones_ok_def word_le_nat_alt)
  then have "pool_ok ?p"
    using free st t k nb by (simp add: pool_ok_def)
  with init free km(3,4) st t n(2) show ?thesis by auto
qed

lemma and_0xfff: "unat (w AND 0xfff :: u32) = unat w mod 4096"
proof -
  have "w AND 0xfff = take_bit 12 w"
    by (simp add: take_bit_eq_mask mask_eq_exp_minus_1)
  then show ?thesis by (simp add: take_bit_eq_mod unat_mod)
qed

text \<open>
  The zones the loader announces, as a list: for the loader of the system a counted array of
  records, for multiboot2 the entries up to the end of the memory-map tag.
\<close>

definition zone_at :: "(u32 \<Rightarrow> u8) \<Rightarrow> u32 \<Rightarrow> u64 \<times> u64 \<times> u32" where
  "zone_at m ptr = (read64 m ptr, read64 m (ptr + 8), read32 m (ptr + 16))"

fun boot_zones :: "(u32 \<Rightarrow> u8) \<Rightarrow> nat \<Rightarrow> u32 \<Rightarrow> (u64 \<times> u64 \<times> u32) list" where
  "boot_zones m 0 ptr = []"
| "boot_zones m (Suc n) ptr = zone_at m ptr # boot_zones m n (ptr + 20)"

fun mmap_lists :: "(u32 \<Rightarrow> u8) \<Rightarrow> u32 \<Rightarrow> u32 \<Rightarrow> (u64 \<times> u64 \<times> u32) list \<Rightarrow> bool" where
  "mmap_lists m tag entry [] \<longleftrightarrow> \<not> entry < tag + read32 m (tag + 4)"
| "mmap_lists m tag entry (z # zs) \<longleftrightarrow> entry < tag + read32 m (tag + 4) \<and> z = zone_at m entry \<and>
     mmap_lists m tag (entry + read32 m (tag + 8)) zs"

definition announced :: "(u32 \<Rightarrow> u8) \<Rightarrow> u32 \<Rightarrow> u32 \<Rightarrow> (u64 \<times> u64 \<times> u32) list \<Rightarrow> bool" where
  "announced m magic addr zs \<longleftrightarrow>
     magic = ONIX_MAGIC \<and> zs = boot_zones m (unat (read32 m addr)) (addr + 4) \<or>
     magic = MULTIBOOT2_MAGIC \<and> (\<exists>tag. mmap_tag m (addr + 8) = Some tag \<and> mmap_lists m tag (tag + 16) zs)"

abbreviation pick_zone :: "page_pool \<Rightarrow> u64 \<times> u64 \<times> u32 \<Rightarrow> page_pool" where
  "pick_zone p z \<equiv> (case z of (b, l, t) \<Rightarrow> zone_step b l t p)"

lemma ards_loop_fold: "ards_loop m n ptr p = foldl pick_zone p (boot_zones m n ptr)"
  by (induction n arbitrary: ptr p) (simp_all add: zone_at_def)

lemma mmap_entries_fold:
  "mmap_lists m tag entry zs \<Longrightarrow> mmap_entries m tag entry p = Some (foldl pick_zone p zs)"
proof (induction zs arbitrary: entry p)
  case Nil
  then show ?case by (subst mmap_entries.simps) simp
next
  case (Cons z zs)
  then show ?case by (subst mmap_entries.simps) (simp add: zone_at_def)
qed

lemma memory_zones_announced:
  assumes "announced m magic addr zs"
  shows "memory_zones m magic addr p = Some (foldl pick_zone p zs)"
  using assms by (auto simp: announced_def memory_zones_def ards_loop_fold mmap_entries_fold
      ONIX_MAGIC_def MULTIBOOT2_MAGIC_def)

lemma pick_longest:
  assumes "\<And>b l. (b, l, ZONE_VALID) \<in> set zs \<Longrightarrow> l < len \<or> b = ucast MEMORY_BASE \<and> l = len"
    and "unat len < 2 ^ 32"
    and "unat (memory_size p) < unat len \<and> (ucast MEMORY_BASE, len, ZONE_VALID) \<in> set zs \<or>
      memory_base p = MEMORY_BASE \<and> memory_size p = ucast len"
  shows "memory_base (foldl pick_zone p zs) = MEMORY_BASE \<and> memory_size (foldl pick_zone p zs) = ucast len"
  using assms
proof (induction zs arbitrary: p)
  case Nil
  then show ?case by simp
next
  case (Cons z zs)
  obtain b l t where z: "z = (b, l, t)" by (cases z)
  have ulen: "unat (ucast len :: u32) = unat len" using Cons.prems(2) by (simp add: unsigned_ucast_eq take_bit_eq_mod)
  have small: "unat (ucast l :: u32) = unat l" if "l < len"
    using that Cons.prems(2) by (simp add: unsigned_ucast_eq take_bit_eq_mod word_less_nat_alt)
  have up: "(l > (ucast (memory_size p) :: u64)) = (unat (memory_size p) < unat l)"
    using unat_u32_bound [of "memory_size p"]
    by (simp add: word_less_nat_alt unsigned_ucast_eq take_bit_eq_mod)
  have "unat (memory_size (zone_step b l t p)) < unat len \<and> (ucast MEMORY_BASE, len, ZONE_VALID) \<in> set zs \<or>
      memory_base (zone_step b l t p) = MEMORY_BASE \<and> memory_size (zone_step b l t p) = ucast len"
    using Cons.prems(1) [of b l] Cons.prems(3) ulen small up
    by (auto simp: z zone_step_def word_less_nat_alt MEMORY_BASE_def)
  then show ?case using Cons.IH [OF Cons.prems(1,2)] by (simp add: z)
qed

subsection \<open>Properties\<close>

text \<open>
  C5. Bring-up of the page allocator, by either loader. If among the announced zones the longest
  usable one starts at 1M, its length is a multiple of the page size between 16M and 4095M, and
  every other usable zone is shorter, then \<^verbatim>\<open>memory_init\<close> (started with \<^verbatim>\<open>memory_size\<close> zero,
  as it is at boot) and \<^verbatim>\<open>memory_map_init\<close> both return. That zone is the one chosen; afterwards
  the free pages are exactly those from \<^verbatim>\<open>start_page\<close> (the first megabyte and the page array) to
  the end of the zone, \<^verbatim>\<open>free_pages\<close> counts them, and the kernel map has reserved just the
  addresses of the page array.
\<close>

theorem page_pool_bringup:
  assumes "announced m magic addr zs" and "memory_size p0 = 0"
    and "(ucast MEMORY_BASE, len, ZONE_VALID) \<in> set zs"
    and "\<And>b l. (b, l, ZONE_VALID) \<in> set zs \<Longrightarrow> l < len \<or> b = ucast MEMORY_BASE \<and> l = len"
    and "4096 dvd unat len" and "2 ^ 24 \<le> unat len" and "unat len \<le> 2 ^ 32 - 2 ^ 20"
    and "length kbits = 352"
  shows "\<exists>p p'. memory_init m magic addr p0 = Some p \<and> memory_size p = ucast len \<and>
    memory_map_init kbits p = Some p' \<and> pool_ok p' \<and> kmap_ok (kernel_map p') \<and>
    unat (total_pages p') = unat len div 4096 + 256 \<and>
    unat (start_page p') = 256 + (unat (total_pages p') + 4095) div 4096 \<and>
    pool_free p' = {unat (start_page p')..<unat (total_pages p')} \<and>
    (\<forall>j < 2816. bm_bit (kernel_map p') j \<longleftrightarrow> j < unat (start_page p') - 256)"
proof -
  let ?z = "foldl pick_zone p0 zs"
  let ?p = "?z\<lparr>total_pages := IDX (memory_size ?z) + IDX MEMORY_BASE, free_pages := IDX (memory_size ?z)\<rparr>"
  have z: "memory_base ?z = MEMORY_BASE \<and> memory_size ?z = ucast len"
    by (rule pick_longest) (use assms(2-4,6,7) in auto)
  have u: "unat (ucast len :: u32) = unat len" using assms(7) by (simp add: unsigned_ucast_eq take_bit_eq_mod)
  have "(ucast len :: u32) AND 0xfff = 0"
    using assms(5) u by (simp add: word_unat_eq_iff and_0xfff)
  then have init: "memory_init m magic addr p0 = Some ?p"
    using z u assms(6) memory_zones_announced [OF assms(1), of p0]
    by (simp add: memory_init_def KERNEL_MEMORY_SIZE_def word_less_nat_alt)
  show ?thesis
    using memory_map_init_ok [OF memory_init_ok [OF init], of kbits] z u assms(7,8) init by auto
qed

text \<open>
  C3. Physical pages are handed out once. From a well-formed pool with at least \<open>k\<close> free pages,
  \<open>k\<close> calls of \<^verbatim>\<open>get_page\<close> return \<open>k\<close> distinct pages that were all free, and returning them
  with \<^verbatim>\<open>put_page\<close>, in any order, gives back a well-formed pool with the same free pages.
\<close>

theorem pages_distinct_and_returned:
  assumes "pool_ok p" and "k \<le> unat (free_pages p)"
  shows "\<exists>as p'. drain k get_page p = Some (as, p') \<and> length as = k \<and> distinct as \<and>
    set as \<subseteq> page_addrs p \<and> (\<forall>bs. distinct bs \<and> set bs = set as \<longrightarrow>
      (\<exists>t. each put_page p' bs = Some t \<and> pool_ok t \<and> page_addrs t = page_addrs p))"
  by (rule pool.take_give) (use assms in \<open>simp_all add: page_addrs_card\<close>)

text \<open>
  Every outcome of \<^verbatim>\<open>put_page\<close> on a page in use. The last reference frees the page and counts
  it free. An earlier reference only lowers the count, unless no page of the machine is free: then
  the closing assertion \<^verbatim>\<open>free_pages > 0\<close> stops the kernel although nothing is wrong.
\<close>

theorem put_page_outcomes:
  assumes "pool_ok p" and "unat (start_page p) \<le> i" and "i < unat (total_pages p)"
    and "0 < refs p i"
  shows "put_page p (PAGE (of_nat i)) =
    (if refs p i = 1 then
       Some (p\<lparr>memory_map := (memory_map p)[i := 0], free_pages := free_pages p + 1\<rparr>)
     else if pool_free p = {} then None
     else Some (p\<lparr>memory_map := (memory_map p)[i := memory_map p ! i - 1]\<rparr>))"
proof -
  have "free_pages p = 0 \<longleftrightarrow> pool_free p = {}"
    using assms(1) by (auto simp: pool_ok_def word_unat_eq_iff)
  then show ?thesis using put_page_cases [OF assms] by simp
qed

text \<open>
  Kernel pages. When \<^verbatim>\<open>alloc_kpage\<close> returns a run of pages, \<^verbatim>\<open>free_kpage\<close> of that run
  succeeds and restores exactly the state before the allocation.
\<close>

theorem kpage_roundtrip:
  assumes "kmap_ok (kernel_map p)" and "alloc_kpage p n = Some (v, p')"
  shows "free_kpage p' v n = Some p \<and> kmap_ok (kernel_map p')"
  using alloc_free_kpage [OF assms] by blast

text \<open>A pool of eight pages of which four are free, and a boot record with one zone of 31M.\<close>

definition sample_pool :: page_pool where
  "sample_pool = \<lparr>memory_base = MEMORY_BASE, memory_size = 0, total_pages = 8, free_pages = 4,
     start_page = 2, memory_map_pages = 1, memory_map = [1, 1, 0, 2, 0, 1, 0, 0],
     kernel_map = sample_map\<rparr>"

definition boot_record :: "u32 \<Rightarrow> u8" where
  "boot_record a = (if a = 0 \<or> a = 20 then 1 else if a = 6 then 0x10 else if a = 14 then 0xF0
     else if a = 15 then 1 else 0)"

lemma sample_pool_free: "pool_free sample_pool = {2, 4, 6, 7}"
proof -
  have "pool_free sample_pool = set (filter (\<lambda>i. memory_map sample_pool ! i = 0) [2..<8])"
    by (simp only: pool_free_def set_filter) (auto simp: sample_pool_def)
  also have "\<dots> = {2, 4, 6, 7}" by (simp add: sample_pool_def upt_rec)
  finally show ?thesis .
qed

lemma sample_pool_ok: "pool_ok sample_pool" "kmap_ok (kernel_map sample_pool)"
  using sample_map_ok
  by (simp_all add: pool_ok_def sample_pool_free kmap_ok_def)
    (simp_all add: sample_pool_def sample_map_def bitmap_make_def bm_size_def)

theorem page_pool_bringup_witness:
  "\<exists>p p'. memory_init boot_record ONIX_MAGIC 0 sample_pool = Some p \<and>
    memory_map_init (replicate 352 0xFF) p = Some p' \<and> pool_ok p' \<and>
    pool_free p' = {258..<8192}"
proof -
  have "boot_zones boot_record 1 4 = [(0x100000, 0x1F00000, 1)]" "unat (read32 boot_record 0) = 1"
    by code_simp+
  then have a: "announced boot_record ONIX_MAGIC 0 [(0x100000, 0x1F00000, 1)]"
    by (simp add: announced_def)
  have "\<exists>p p'. memory_init boot_record ONIX_MAGIC 0 sample_pool = Some p \<and>
      memory_size p = ucast (0x1F00000 :: u64) \<and>
      memory_map_init (replicate 352 0xFF) p = Some p' \<and> pool_ok p' \<and> kmap_ok (kernel_map p') \<and>
      unat (total_pages p') = unat (0x1F00000 :: u64) div 4096 + 256 \<and>
      unat (start_page p') = 256 + (unat (total_pages p') + 4095) div 4096 \<and>
      pool_free p' = {unat (start_page p')..<unat (total_pages p')} \<and>
      (\<forall>j < 2816. bm_bit (kernel_map p') j \<longleftrightarrow> j < unat (start_page p') - 256)"
    by (rule page_pool_bringup [OF a]) (simp_all add: sample_pool_def MEMORY_BASE_def ZONE_VALID_def)
  then show ?thesis by auto
qed

theorem pages_distinct_and_returned_witness:
  "drain 3 get_page sample_pool = Some ([0x2000, 0x4000, 0x6000],
     sample_pool\<lparr>memory_map := [1, 1, 1, 2, 1, 1, 1, 0], free_pages := 1\<rparr>) \<and>
   (\<exists>t. each put_page (sample_pool\<lparr>memory_map := [1, 1, 1, 2, 1, 1, 1, 0], free_pages := 1\<rparr>)
      [0x6000, 0x2000, 0x4000] = Some t \<and> page_addrs t = page_addrs sample_pool)"
proof -
  have d: "drain 3 get_page sample_pool = Some ([0x2000, 0x4000, 0x6000],
     sample_pool\<lparr>memory_map := [1, 1, 1, 2, 1, 1, 1, 0], free_pages := 1\<rparr>)" by code_simp
  have "\<exists>as p'. drain 3 get_page sample_pool = Some (as, p') \<and> length as = 3 \<and> distinct as \<and>
    set as \<subseteq> page_addrs sample_pool \<and> (\<forall>bs. distinct bs \<and> set bs = set as \<longrightarrow>
      (\<exists>t. each put_page p' bs = Some t \<and> pool_ok t \<and> page_addrs t = page_addrs sample_pool))"
    by (rule pages_distinct_and_returned) (simp_all add: sample_pool_ok, simp add: sample_pool_def)
  then have "\<forall>bs. distinct bs \<and> set bs = {0x2000, 0x4000, 0x6000} \<longrightarrow>
      (\<exists>t. each put_page (sample_pool\<lparr>memory_map := [1, 1, 1, 2, 1, 1, 1, 0], free_pages := 1\<rparr>) bs = Some t \<and>
        pool_ok t \<and> page_addrs t = page_addrs sample_pool)"
    using d by simp
  from this [rule_format, of "[0x6000, 0x2000, 0x4000]"] show ?thesis
    using d by (auto simp del: each.simps)
qed

theorem put_page_outcomes_witness:
  "put_page sample_pool (PAGE (of_nat 5)) =
     Some (sample_pool\<lparr>memory_map := (memory_map sample_pool)[5 := 0], free_pages := free_pages sample_pool + 1\<rparr>)"
  by (subst put_page_outcomes [OF sample_pool_ok(1)]) (simp_all add: sample_pool_def refs_def)

theorem kpage_roundtrip_witness:
  "\<exists>p'. alloc_kpage sample_pool 3 = Some (0x106000, p') \<and> free_kpage p' 0x106000 3 = Some sample_pool"
proof -
  let ?p = "sample_pool\<lparr>kernel_map := bitmap_make [0xE7, 1] 2 256\<rparr>"
  have "alloc_kpage sample_pool 3 = Some (0x106000, ?p)" by code_simp
  then show ?thesis using kpage_roundtrip [OF sample_pool_ok(2)] by blast
qed

end
