(* ===== verification/Onix_Task_Data.thy ===== *)
theory Onix_Task_Data
  imports Onix_Prelude
begin

section \<open>Tasks and error codes (src/include/onix/task.h, signal.h, errno.h)\<close>

text \<open>
  The task structure and the enumerations the kernel components share. Pointers are addresses
  (0 is NULL). \<^verbatim>\<open>node\<close> is not a field: it is the list node at offset 4 of the task
  (\<open>task_node\<close>), whose links live in the heap of \<open>Onix_List\<close>. \<open>t_vmap\<close> is \<open>None\<close> for
  \<^verbatim>\<open>&kernel_map\<close> and \<open>Some a\<close> for the bitmap a user task has at address \<open>a\<close>.
\<close>

datatype task_state_t =
  TASK_INIT | TASK_RUNNING | TASK_READY | TASK_BLOCKED | TASK_SLEEPING | TASK_WAITING | TASK_DIED

record sigaction_t =
  sa_handler :: u32
  sa_mask :: u32
  sa_flags :: u32
  sa_restorer :: u32

record task_t =
  t_stack :: u32
  t_state :: task_state_t
  t_priority :: u32
  t_ticks :: u32
  t_jiffies :: u32
  t_name :: "u8 list"
  t_uid :: u32
  t_gid :: u32
  t_pid :: u32
  t_ppid :: u32
  t_pgid :: u32
  t_sid :: u32
  t_tty :: u32
  t_pde :: u32
  t_vmap :: "u32 option"
  t_text :: u32
  t_data :: u32
  t_end :: u32
  t_brk :: u32
  t_status :: u32
  t_waitpid :: u32
  t_pwd :: u32
  t_ipwd :: u32
  t_iroot :: u32
  t_iexec :: u32
  t_umask :: u16
  t_files :: "u32 list"
  t_signal :: u32
  t_blocked :: u32
  t_alarm :: u32
  t_timer :: u32
  t_actions :: "sigaction_t list"
  t_fpu :: u32
  t_flags :: u32
  t_magic :: u32

definition task_node :: "u32 \<Rightarrow> u32" where
  "task_node task = task + 4"

definition KERNEL_USER :: u32 where "KERNEL_USER = 0"
definition NORMAL_USER :: u32 where "NORMAL_USER = 1000"
definition TASK_NR :: nat where "TASK_NR = 64"
definition TASK_FILE_NR :: nat where "TASK_FILE_NR = 16"
definition MAXSIG :: nat where "MAXSIG = 31"

text \<open>Error codes, as returned: the negated number as the bit pattern of an \<^verbatim>\<open>int\<close>.\<close>

definition EOK :: u32 where "EOK = 0"
definition EPERM :: u32 where "EPERM = 1"
definition EACCES :: u32 where "EACCES = 13"
definition ENOENT :: u32 where "ENOENT = 2"
definition EINTR :: u32 where "EINTR = 4"
definition EIO :: u32 where "EIO = 5"
definition ENXIO :: u32 where "ENXIO = 6"
definition EBADF :: u32 where "EBADF = 9"
definition EAGAIN :: u32 where "EAGAIN = 11"
definition ENOMEM :: u32 where "ENOMEM = 12"
definition EEXIST :: u32 where "EEXIST = 17"
definition ENODEV :: u32 where "ENODEV = 19"
definition ENOTDIR :: u32 where "ENOTDIR = 20"
definition EINVAL :: u32 where "EINVAL = 22"
definition ENFILE :: u32 where "ENFILE = 23"
definition EMFILE :: u32 where "EMFILE = 24"
definition ENOSYS :: u32 where "ENOSYS = 38"
definition ETIME :: u32 where "ETIME = 62"
definition TIMELESS :: u32 where "TIMELESS = -1"

end
