(* ===== verification/Onix_Paging.thy ===== *)
theory Onix_Paging
  imports Onix_Pages Onix_Task_Data
begin

section \<open>Page tables (src/kernel/memory.c, second half)\<close>

text \<open>
  Physical memory is \<open>frame\<close>: for each page number, the 1024 aligned words of the page. The
  processor's translation is \<open>walk\<close>: with paging on, word \<^verbatim>\<open>DIDX\<close> of the page directory at
  \<^verbatim>\<open>cr3\<close> names a page table and word \<^verbatim>\<open>TIDX\<close> of it names the frame. Every access of the code
  to an entry goes through \<open>walk\<close>, also the accesses to the directory and the tables themselves,
  which the code reaches at 0xFFC00000 because the last directory entry points back to the
  directory. The kernel runs with write protection off (\<^verbatim>\<open>enable_page\<close> sets only \<^verbatim>\<open>PG\<close>), so a
  kernel access needs only the present bits. An access to an absent page halts.

  The translation look-aside buffer is taken to be coherent: \<^verbatim>\<open>flush_tlb\<close> has no effect here.
  \<^verbatim>\<open>memset\<close> and \<^verbatim>\<open>memcpy\<close> of one aligned page translate its address once.
\<close>

definition DIDX :: "u32 \<Rightarrow> u32" where "DIDX addr = drop_bit 22 addr AND 0x3ff"
definition TIDX :: "u32 \<Rightarrow> u32" where "TIDX addr = drop_bit 12 addr AND 0x3ff"
definition PDE_MASK :: u32 where "PDE_MASK = 0xFFC00000"
definition KERNEL_PAGE_DIR :: u32 where "KERNEL_PAGE_DIR = 0x1000"
definition KERNEL_PAGE_TABLE :: "u32 list" where "KERNEL_PAGE_TABLE = [0x2000, 0x3000, 0x4000, 0x5000]"
definition USER_MEMORY :: bool where "USER_MEMORY = True"
definition USER_EXEC_ADDR :: u32 where "USER_EXEC_ADDR = KERNEL_MEMORY_SIZE"
definition USER_MMAP_ADDR :: u32 where "USER_MMAP_ADDR = 0x8000000"
definition USER_STACK_TOP :: u32 where "USER_STACK_TOP = 0x10000000"
definition USER_STACK_BOTTOM :: u32 where "USER_STACK_BOTTOM = 0x10000000 - 0x200000"

record vm =
  pool :: page_pool
  frame :: "u32 \<Rightarrow> u32 \<Rightarrow> u32"
  cr3 :: u32
  paging :: bool
  vmaps :: "u32 \<Rightarrow> bitmap_t"

subsection \<open>Entries\<close>

text \<open>The bit fields of \<^verbatim>\<open>page_entry_t\<close>, from the lowest bit.\<close>

definition e_present :: "u32 \<Rightarrow> bool" where "e_present e = bit e 0"
definition e_write :: "u32 \<Rightarrow> bool" where "e_write e = bit e 1"
definition e_user :: "u32 \<Rightarrow> bool" where "e_user e = bit e 2"
definition e_shared :: "u32 \<Rightarrow> bool" where "e_shared e = bit e 9"
definition e_readonly :: "u32 \<Rightarrow> bool" where "e_readonly e = bit e 11"
definition e_index :: "u32 \<Rightarrow> u32" where "e_index e = drop_bit 12 e"

definition set_flag :: "nat \<Rightarrow> bool \<Rightarrow> u32 \<Rightarrow> u32" where
  "set_flag k v e = (if v then e OR push_bit k 1 else e AND NOT (push_bit k 1))"

definition set_index :: "u32 \<Rightarrow> u32 \<Rightarrow> u32" where
  "set_index i e = (e AND 0xfff) OR push_bit 12 i"

definition entry_word :: "u32 \<Rightarrow> u32" where
  "entry_word index = set_index index (set_flag 2 True (set_flag 1 True (set_flag 0 True 0)))"

subsection \<open>Memory accesses\<close>

definition SLOT :: "u32 \<Rightarrow> u32" where "SLOT va = drop_bit 2 va AND 0x3ff"

definition walk :: "vm \<Rightarrow> u32 \<Rightarrow> u32 option" where
  "walk s va =
     (if \<not> paging s then Some (IDX va)
      else let d = frame s (IDX (cr3 s)) (DIDX va) in
        if \<not> e_present d then None
        else let t = frame s (e_index d) (TIDX va) in
          if e_present t then Some (e_index t) else None)"

definition load :: "vm \<Rightarrow> u32 \<Rightarrow> u32 option" where
  "load s va = do { f \<leftarrow> walk s va; Some (frame s f (SLOT va)) }"

definition store :: "vm \<Rightarrow> u32 \<Rightarrow> u32 \<Rightarrow> vm option" where
  "store s va w = do {
     f \<leftarrow> walk s va;
     Some (s\<lparr>frame := (frame s)(f := (frame s f)(SLOT va := w))\<rparr>)
   }"

definition clear_page :: "vm \<Rightarrow> u32 \<Rightarrow> vm option" where
  "clear_page s va = do {
     f \<leftarrow> walk s va;
     Some (s\<lparr>frame := (frame s)(f := (\<lambda>_. 0))\<rparr>)
   }"

definition move_page :: "vm \<Rightarrow> u32 \<Rightarrow> u32 \<Rightarrow> vm option" where
  "move_page s dst src = do {
     f \<leftarrow> walk s dst;
     g \<leftarrow> walk s src;
     Some (s\<lparr>frame := (frame s)(f := frame s g)\<rparr>)
   }"

definition entry_init :: "vm \<Rightarrow> u32 \<Rightarrow> u32 \<Rightarrow> vm option" where
  "entry_init s entry index = store s entry (entry_word index)"

definition entry_set :: "vm \<Rightarrow> u32 \<Rightarrow> nat \<Rightarrow> bool \<Rightarrow> vm option" where
  "entry_set s entry k v = do { e \<leftarrow> load s entry; store s entry (set_flag k v e) }"

text \<open>The reference count of a page, read and written.\<close>

definition map_ref :: "vm \<Rightarrow> u32 \<Rightarrow> u8 option" where
  "map_ref s i = do {
     kassert (unat i < length (memory_map (pool s)));
     Some (memory_map (pool s) ! unat i)
   }"

definition map_set :: "vm \<Rightarrow> u32 \<Rightarrow> u8 \<Rightarrow> vm option" where
  "map_set s i v = do {
     kassert (unat i < length (memory_map (pool s)));
     Some (s\<lparr>pool := (pool s)\<lparr>memory_map := (memory_map (pool s))[unat i := v]\<rparr>\<rparr>)
   }"

definition vm_get_page :: "vm \<Rightarrow> (u32 \<times> vm) option" where
  "vm_get_page s = do { (a, p) \<leftarrow> get_page (pool s); Some (a, s\<lparr>pool := p\<rparr>) }"

definition vm_put_page :: "vm \<Rightarrow> u32 \<Rightarrow> vm option" where
  "vm_put_page s a = do { p \<leftarrow> put_page (pool s) a; Some (s\<lparr>pool := p\<rparr>) }"

definition set_cr3 :: "vm \<Rightarrow> u32 \<Rightarrow> vm option" where
  "set_cr3 s pde = do { ASSERT_PAGE pde; Some (s\<lparr>cr3 := pde\<rparr>) }"

subsection \<open>The kernel's own tables\<close>

fun map_kernel_pages :: "nat \<Rightarrow> vm \<Rightarrow> u32 \<Rightarrow> u32 \<Rightarrow> u32 \<Rightarrow> (u32 \<times> vm) option" where
  "map_kernel_pages 0 s pte tidx index = Some (index, s)"
| "map_kernel_pages (Suc n) s pte tidx index =
     (if index = 0 then map_kernel_pages n s pte (tidx + 1) (index + 1)
      else do {
        let tentry = pte + 4 * tidx;
        s \<leftarrow> entry_init s tentry index;
        s \<leftarrow> entry_set s tentry 2 USER_MEMORY;
        r \<leftarrow> map_ref s index;
        let s = (if r = 0 then s\<lparr>pool := (pool s)\<lparr>free_pages := free_pages (pool s) - 1\<rparr>\<rparr> else s);
        s \<leftarrow> map_set s index 1;
        map_kernel_pages n s pte (tidx + 1) (index + 1)
      })"

fun map_kernel_tables :: "vm \<Rightarrow> u32 list \<Rightarrow> u32 \<Rightarrow> u32 \<Rightarrow> u32 \<Rightarrow> vm option" where
  "map_kernel_tables s [] pde didx index = Some s"
| "map_kernel_tables s (pte # tables) pde didx index = do {
     s \<leftarrow> clear_page s pte;
     let dentry = pde + 4 * didx;
     s \<leftarrow> entry_init s dentry (IDX pte);
     s \<leftarrow> entry_set s dentry 2 USER_MEMORY;
     (index, s) \<leftarrow> map_kernel_pages 1024 s pte 0 index;
     map_kernel_tables s tables pde (didx + 1) index
   }"

definition mapping_init :: "vm \<Rightarrow> vm option" where
  "mapping_init s = do {
     let pde = KERNEL_PAGE_DIR;
     s \<leftarrow> clear_page s pde;
     s \<leftarrow> map_kernel_tables s KERNEL_PAGE_TABLE pde 0 0;
     s \<leftarrow> entry_init s (pde + 4 * 1023) (IDX KERNEL_PAGE_DIR);
     s \<leftarrow> set_cr3 s pde;
     Some (s\<lparr>paging := True\<rparr>)
   }"

subsection \<open>Finding the entry of an address\<close>

definition get_pde :: u32 where "get_pde = 0xfffff000"

definition table_of :: "u32 \<Rightarrow> u32" where "table_of idx = PDE_MASK OR push_bit 12 idx"

definition get_pte :: "vm \<Rightarrow> u32 \<Rightarrow> bool \<Rightarrow> (u32 \<times> vm) option" where
  "get_pte s vaddr create = do {
     let idx = DIDX vaddr;
     let entry = get_pde + 4 * idx;
     e \<leftarrow> load s entry;
     kassert (create \<or> \<not> create \<and> e_present e);
     let table = table_of idx;
     if \<not> e_present e then do {
       (page, s) \<leftarrow> vm_get_page s;
       s \<leftarrow> entry_init s entry (IDX page);
       s \<leftarrow> clear_page s table;
       Some (table, s)
     }
     else Some (table, s)
   }"

definition get_entry :: "vm \<Rightarrow> u32 \<Rightarrow> bool \<Rightarrow> (u32 \<times> vm) option" where
  "get_entry s vaddr create = do {
     (pte, s) \<leftarrow> get_pte s vaddr create;
     Some (pte + 4 * TIDX vaddr, s)
   }"

definition get_paddr :: "vm \<Rightarrow> u32 \<Rightarrow> u32 option" where
  "get_paddr s vaddr = do {
     e \<leftarrow> load s (get_pde + 4 * DIDX vaddr);
     if \<not> e_present e then Some 0
     else do {
       (entry, s) \<leftarrow> get_entry s vaddr False;
       e \<leftarrow> load s entry;
       if \<not> e_present e then Some 0
       else Some (PAGE (e_index e) OR (vaddr AND 0xfff))
     }
   }"

subsection \<open>Copy on write\<close>

definition copy_page :: "vm \<Rightarrow> u32 \<Rightarrow> (u32 \<times> vm) option" where
  "copy_page s page = do {
     (paddr, s) \<leftarrow> vm_get_page s;
     let vaddr = 0;
     (entry, s) \<leftarrow> get_pte s vaddr False;
     s \<leftarrow> entry_init s entry (IDX paddr);
     s \<leftarrow> move_page s vaddr page;
     s \<leftarrow> entry_set s entry 0 False;
     Some (paddr, s)
   }"

text \<open>
  One level of the copy: when the entry is read-only, make it writable if its page has one
  reference and point it to a fresh copy of the page otherwise.
\<close>

definition cow_entry :: "vm \<Rightarrow> u32 \<Rightarrow> u32 \<Rightarrow> vm option" where
  "cow_entry s entry vaddr = do {
     e \<leftarrow> load s entry;
     if e_write e then Some s
     else do {
       r \<leftarrow> map_ref s (e_index e);
       kassert (r > 0);
       s \<leftarrow> (if r = 1 then entry_set s entry 1 True
            else do {
              (paddr, s) \<leftarrow> copy_page s (PAGE (IDX vaddr));
              e \<leftarrow> load s entry;
              r \<leftarrow> map_ref s (e_index e);
              s \<leftarrow> map_set s (e_index e) (r - 1);
              s \<leftarrow> store s entry (set_index (IDX paddr) e);
              entry_set s entry 1 True
            });
       e \<leftarrow> load s entry;
       r \<leftarrow> map_ref s (e_index e);
       kassert (r > 0);
       Some s
     }
   }"

fun copy_on_write :: "vm \<Rightarrow> u32 \<Rightarrow> nat \<Rightarrow> vm option" where
  "copy_on_write s vaddr 0 = Some s"
| "copy_on_write s vaddr (Suc level) = do {
     (entry, s) \<leftarrow> get_entry s vaddr False;
     s \<leftarrow> copy_on_write s entry level;
     cow_entry s entry vaddr
   }"

subsection \<open>Mapping and unmapping pages\<close>

definition link_page :: "vm \<Rightarrow> u32 \<Rightarrow> vm option" where
  "link_page s vaddr = do {
     ASSERT_PAGE vaddr;
     (entry, s) \<leftarrow> get_entry s vaddr True;
     e \<leftarrow> load s entry;
     if e_present e then Some s
     else do {
       s \<leftarrow> copy_on_write s entry 2;
       (paddr, s) \<leftarrow> vm_get_page s;
       entry_init s entry (IDX paddr)
     }
   }"

definition unlink_page :: "vm \<Rightarrow> u32 \<Rightarrow> vm option" where
  "unlink_page s vaddr = do {
     ASSERT_PAGE vaddr;
     e \<leftarrow> load s (get_pde + 4 * DIDX vaddr);
     if \<not> e_present e then Some s
     else do {
       (entry, s) \<leftarrow> get_entry s vaddr False;
       e \<leftarrow> load s entry;
       if \<not> e_present e then Some s
       else do {
         s \<leftarrow> copy_on_write s entry 2;
         s \<leftarrow> entry_set s entry 0 False;
         e \<leftarrow> load s entry;
         vm_put_page s (PAGE (e_index e))
       }
     }
   }"

definition map_page :: "vm \<Rightarrow> u32 \<Rightarrow> u32 \<Rightarrow> vm option" where
  "map_page s vaddr paddr = do {
     ASSERT_PAGE vaddr;
     ASSERT_PAGE paddr;
     (entry, s) \<leftarrow> get_entry s vaddr True;
     e \<leftarrow> load s entry;
     if e_present e then Some s
     else do {
       (paddr, s) \<leftarrow> (if paddr = 0 then vm_get_page s else Some (paddr, s));
       entry_init s entry (IDX paddr)
     }
   }"

fun map_area_loop :: "nat \<Rightarrow> vm \<Rightarrow> u32 \<Rightarrow> vm option" where
  "map_area_loop 0 s a = Some s"
| "map_area_loop (Suc n) s a = do {
     s \<leftarrow> map_page s a a;
     map_area_loop n s (a + PAGE_SIZE)
   }"

definition map_area :: "vm \<Rightarrow> u32 \<Rightarrow> u32 \<Rightarrow> vm option" where
  "map_area s paddr sz = do {
     ASSERT_PAGE paddr;
     n \<leftarrow> div_round_up sz PAGE_SIZE;
     map_area_loop (unat n) s paddr
   }"

subsection \<open>Directories of processes\<close>

text \<open>Directory entries 4 to 63 are the user part: from 16M to \<^verbatim>\<open>USER_STACK_TOP\<close>.\<close>

definition share_entry :: "vm \<Rightarrow> u32 \<Rightarrow> vm option" where
  "share_entry s entry = do {
     e \<leftarrow> load s entry;
     if \<not> e_present e then Some s
     else do {
       r \<leftarrow> map_ref s (e_index e);
       kassert (r > 0);
       s \<leftarrow> (if \<not> e_shared e then entry_set s entry 1 False else Some s);
       s \<leftarrow> map_set s (e_index e) (r + 1);
       r \<leftarrow> map_ref s (e_index e);
       kassert (r < 255);
       Some s
     }
   }"

fun share_table :: "nat \<Rightarrow> vm \<Rightarrow> u32 \<Rightarrow> u32 \<Rightarrow> vm option" where
  "share_table 0 s pte tidx = Some s"
| "share_table (Suc n) s pte tidx = do {
     s \<leftarrow> share_entry s (pte + 4 * tidx);
     share_table n s pte (tidx + 1)
   }"

fun share_tables :: "nat \<Rightarrow> vm \<Rightarrow> u32 \<Rightarrow> u32 \<Rightarrow> vm option" where
  "share_tables 0 s pde didx = Some s"
| "share_tables (Suc n) s pde didx = do {
     let dentry = pde + 4 * didx;
     e \<leftarrow> load s dentry;
     s \<leftarrow> (if \<not> e_present e then Some s
          else do {
            r \<leftarrow> map_ref s (e_index e);
            kassert (r > 0);
            s \<leftarrow> entry_set s dentry 1 False;
            s \<leftarrow> map_set s (e_index e) (r + 1);
            r \<leftarrow> map_ref s (e_index e);
            kassert (r < 255);
            share_table 1024 s (table_of didx) 0
          });
     share_tables n s pde (didx + 1)
   }"

definition copy_pde :: "vm \<Rightarrow> task_t \<Rightarrow> (u32 \<times> vm) option" where
  "copy_pde s task = do {
     s \<leftarrow> share_tables 60 s (t_pde task) 4;
     (pde, p) \<leftarrow> alloc_kpage (pool s) 1;
     let s = s\<lparr>pool := p\<rparr>;
     s \<leftarrow> move_page s pde (t_pde task);
     s \<leftarrow> entry_init s (pde + 4 * 1023) (IDX pde);
     s \<leftarrow> set_cr3 s (t_pde task);
     Some (pde, s)
   }"

fun drop_table :: "nat \<Rightarrow> vm \<Rightarrow> u32 \<Rightarrow> u32 \<Rightarrow> vm option" where
  "drop_table 0 s pte tidx = Some s"
| "drop_table (Suc n) s pte tidx = do {
     e \<leftarrow> load s (pte + 4 * tidx);
     s \<leftarrow> (if \<not> e_present e then Some s
          else do {
            r \<leftarrow> map_ref s (e_index e);
            kassert (r > 0);
            vm_put_page s (PAGE (e_index e))
          });
     drop_table n s pte (tidx + 1)
   }"

fun drop_tables :: "nat \<Rightarrow> vm \<Rightarrow> u32 \<Rightarrow> vm option" where
  "drop_tables 0 s didx = Some s"
| "drop_tables (Suc n) s didx = do {
     e \<leftarrow> load s (get_pde + 4 * didx);
     s \<leftarrow> (if \<not> e_present e then Some s
          else do {
            s \<leftarrow> drop_table 1024 s (table_of didx) 0;
            e \<leftarrow> load s (get_pde + 4 * didx);
            vm_put_page s (PAGE (e_index e))
          });
     drop_tables n s (didx + 1)
   }"

definition free_pde :: "vm \<Rightarrow> task_t \<Rightarrow> vm option" where
  "free_pde s task = do {
     kassert (t_uid task \<noteq> KERNEL_USER);
     s \<leftarrow> drop_tables 60 s 4;
     p \<leftarrow> free_kpage (pool s) (t_pde task) 1;
     Some (s\<lparr>pool := p\<rparr>)
   }"

subsection \<open>Memory system calls\<close>

partial_function (option) unlink_range :: "vm \<Rightarrow> u32 \<Rightarrow> u32 \<Rightarrow> vm option" where
  "unlink_range s page old_brk =
     (if page < old_brk then do {
        s \<leftarrow> unlink_page s page;
        unlink_range s (page + PAGE_SIZE) old_brk
      }
      else Some s)"

declare unlink_range.simps [code]

definition sys_brk :: "vm \<Rightarrow> task_t \<Rightarrow> u32 \<Rightarrow> (u32 \<times> vm \<times> task_t) option" where
  "sys_brk s task brk = do {
     ASSERT_PAGE brk;
     kassert (t_uid task \<noteq> KERNEL_USER);
     kassert (t_end task \<le> brk \<and> brk \<le> USER_MMAP_ADDR);
     let old_brk = t_brk task;
     if old_brk > brk then do {
       s \<leftarrow> unlink_range s brk old_brk;
       Some (0, s, task\<lparr>t_brk := brk\<rparr>)
     }
     else if IDX (brk - old_brk) > free_pages (pool s) then Some (-1, s, task)
     else Some (0, s, task\<lparr>t_brk := brk\<rparr>)
   }"

text \<open>\<^verbatim>\<open>task->vmap\<close> read and written: the kernel's map or the task's own.\<close>

definition get_vmap :: "vm \<Rightarrow> u32 option \<Rightarrow> bitmap_t" where
  "get_vmap s v = (case v of None \<Rightarrow> kernel_map (pool s) | Some a \<Rightarrow> vmaps s a)"

definition put_vmap :: "vm \<Rightarrow> u32 option \<Rightarrow> bitmap_t \<Rightarrow> vm" where
  "put_vmap s v m = (case v of None \<Rightarrow> s\<lparr>pool := (pool s)\<lparr>kernel_map := m\<rparr>\<rparr>
     | Some a \<Rightarrow> s\<lparr>vmaps := (vmaps s)(a := m)\<rparr>)"

definition PROT_WRITE :: u32 where "PROT_WRITE = 2"
definition MAP_SHARED :: u32 where "MAP_SHARED = 1"
definition MAP_PRIVATE :: u32 where "MAP_PRIVATE = 2"

fun mmap_loop :: "nat \<Rightarrow> vm \<Rightarrow> u32 option \<Rightarrow> u32 \<Rightarrow> u32 \<Rightarrow> u32 \<Rightarrow> vm option" where
  "mmap_loop 0 s vmap page prot flags = Some s"
| "mmap_loop (Suc n) s vmap page prot flags = do {
     s \<leftarrow> link_page s page;
     m \<leftarrow> bitmap_set (get_vmap s vmap) (IDX page) True;
     let s = put_vmap s vmap m;
     (entry, s) \<leftarrow> get_entry s page False;
     s \<leftarrow> entry_set s entry 2 True;
     s \<leftarrow> entry_set s entry 1 False;
     s \<leftarrow> entry_set s entry 11 True;
     s \<leftarrow> (if prot AND PROT_WRITE \<noteq> 0 then do {
            s \<leftarrow> entry_set s entry 11 False;
            entry_set s entry 1 True
          } else Some s);
     s \<leftarrow> (if flags AND MAP_SHARED \<noteq> 0 then entry_set s entry 9 True else Some s);
     s \<leftarrow> (if flags AND MAP_PRIVATE \<noteq> 0 then entry_set s entry 10 True else Some s);
     mmap_loop n s vmap (page + PAGE_SIZE) prot flags
   }"

text \<open>
  \<open>file_read fd offset vaddr len\<close> is the pair of calls \<^verbatim>\<open>lseek\<close> and \<^verbatim>\<open>read\<close>, whose results
  \<^verbatim>\<open>sys_mmap\<close> ignores; it may change what the mapped pages hold.
\<close>

definition sys_mmap ::
  "(u32 \<Rightarrow> u32 \<Rightarrow> u32 \<Rightarrow> u32 \<Rightarrow> vm \<Rightarrow> vm option) \<Rightarrow> vm \<Rightarrow> task_t \<Rightarrow> u32 \<Rightarrow> u32 \<Rightarrow> u32 \<Rightarrow> u32 \<Rightarrow> u32 \<Rightarrow> u32 \<Rightarrow>
   (u32 \<times> vm) option" where
  "sys_mmap file_read s task addr len prot flags fd offset = do {
     ASSERT_PAGE addr;
     n \<leftarrow> div_round_up len PAGE_SIZE;
     (vaddr, s) \<leftarrow> (if addr = 0 then do {
         (v, m) \<leftarrow> scan_page (get_vmap s (t_vmap task)) n;
         Some (v, put_vmap s (t_vmap task) m)
       } else Some (addr, s));
     kassert (vaddr \<ge> USER_MMAP_ADDR \<and> vaddr < USER_STACK_BOTTOM);
     s \<leftarrow> mmap_loop (unat n) s (t_vmap task) vaddr prot flags;
     s \<leftarrow> (if fd \<noteq> EOF then file_read fd offset vaddr len s else Some s);
     Some (vaddr, s)
   }"

fun munmap_loop :: "nat \<Rightarrow> vm \<Rightarrow> u32 option \<Rightarrow> u32 \<Rightarrow> vm option" where
  "munmap_loop 0 s vmap page = Some s"
| "munmap_loop (Suc n) s vmap page = do {
     s \<leftarrow> unlink_page s page;
     t \<leftarrow> bitmap_test (get_vmap s vmap) (IDX page);
     kassert t;
     m \<leftarrow> bitmap_set (get_vmap s vmap) (IDX page) False;
     munmap_loop n (put_vmap s vmap m) vmap (page + PAGE_SIZE)
   }"

definition sys_munmap :: "vm \<Rightarrow> task_t \<Rightarrow> u32 \<Rightarrow> u32 \<Rightarrow> (u32 \<times> vm) option" where
  "sys_munmap s task vaddr len = do {
     kassert (vaddr \<ge> USER_MMAP_ADDR \<and> vaddr < USER_STACK_BOTTOM);
     ASSERT_PAGE vaddr;
     n \<leftarrow> div_round_up len PAGE_SIZE;
     s \<leftarrow> munmap_loop (unat n) s (t_vmap task) vaddr;
     Some (0, s)
   }"

subsection \<open>Page faults\<close>

text \<open>The handler returns to the task, or ends it with \<^verbatim>\<open>task_exit(-1)\<close>.\<close>

datatype fault_result = Fault_return vm | Fault_exit vm

definition page_fault :: "vm \<Rightarrow> task_t \<Rightarrow> u32 \<Rightarrow> u32 \<Rightarrow> u32 \<Rightarrow> fault_result option" where
  "page_fault s task vector vaddr error = do {
     kassert (vector = 0xe);
     if vaddr < USER_EXEC_ADDR \<or> vaddr \<ge> USER_STACK_TOP then do {
       kassert (t_uid task \<noteq> 0);
       Some (Fault_exit s)
     }
     else if bit error 0 then do {
       kassert (bit error 1);
       (entry, s) \<leftarrow> get_entry s vaddr False;
       e \<leftarrow> load s entry;
       kassert (e_present e);
       kassert (\<not> e_shared e);
       kassert (\<not> e_readonly e);
       s \<leftarrow> copy_on_write s vaddr 3;
       Some (Fault_return s)
     }
     else if vaddr < t_brk task \<or> vaddr \<ge> USER_STACK_BOTTOM then do {
       s \<leftarrow> link_page s (PAGE (IDX vaddr));
       Some (Fault_return s)
     }
     else None
   }"

subsection \<open>Checking user memory\<close>

partial_function (option) memory_access_loop :: "vm \<Rightarrow> u32 \<Rightarrow> u32 \<Rightarrow> bool \<Rightarrow> bool \<Rightarrow> bool option" where
  "memory_access_loop s page lst wr user =
     (if page < lst then do {
        e \<leftarrow> load s (get_pde + 4 * DIDX page);
        if \<not> e_present e then Some False
        else do {
          e \<leftarrow> load s (table_of (DIDX page) + 4 * TIDX page);
          if \<not> e_present e then Some False
          else if wr \<and> e_readonly e then Some False
          else if user \<and> \<not> e_user e then Some False
          else memory_access_loop s (page + PAGE_SIZE) lst wr user
        }
      }
      else Some True)"

declare memory_access_loop.simps [code]

definition memory_access :: "vm \<Rightarrow> u32 \<Rightarrow> u32 \<Rightarrow> bool \<Rightarrow> bool \<Rightarrow> bool option" where
  "memory_access s vaddr sz wr user =
     memory_access_loop s (PAGE (IDX vaddr)) (vaddr + sz) wr user"

subsection \<open>Addresses of entries\<close>

lemma and_0x3ff: "unat (w AND 0x3ff :: u32) = unat w mod 1024"
proof -
  have "w AND 0x3ff = take_bit 10 w"
    by (simp add: take_bit_eq_mask mask_eq_exp_minus_1)
  then show ?thesis by (simp add: take_bit_eq_mod unat_mod)
qed

lemma unat_DIDX: "unat (DIDX a) = unat a div 4194304 mod 1024"
  by (simp add: DIDX_def and_0x3ff drop_bit_eq_div unat_div)

lemma unat_TIDX: "unat (TIDX a) = unat a div 4096 mod 1024"
  by (simp add: TIDX_def and_0x3ff drop_bit_eq_div unat_div)

lemma unat_SLOT: "unat (SLOT a) = unat a div 4 mod 1024"
  by (simp add: SLOT_def and_0x3ff drop_bit_eq_div unat_div)

lemma unat_IDX: "unat (IDX a) = unat a div 4096"
  by (simp add: IDX_def drop_bit_eq_div unat_div)

lemma unat_DIDX_lt: "unat (DIDX a) < 1024" and unat_TIDX_lt: "unat (TIDX a) < 1024"
  by (simp_all add: unat_DIDX unat_TIDX)

lemma unat_table_of:
  assumes "unat d < 1024"
  shows "unat (table_of d) = 4290772992 + 4096 * unat d"
proof -
  have u: "unat (push_bit 12 d) = unat d * 4096"
    using assms unat_push_bit_small [of d 12] by simp
  have "PDE_MASK AND push_bit 12 d = 0"
  proof (rule bit_word_eqI)
    fix n assume n: "n < LENGTH(32)"
    have "\<not> bit (PDE_MASK :: u32) n" if "n < 22"
    proof -
      have "PDE_MASK = push_bit 22 1023" by (simp add: PDE_MASK_def push_bit_eq_mult)
      then show ?thesis using that by (metis bit_push_bit_iff not_le)
    qed
    moreover have "\<not> bit (push_bit 12 d) n" if "22 \<le> n"
    proof -
      have "push_bit 12 d = take_bit 22 (push_bit 12 d)"
        using assms u by (simp add: word_unat_eq_iff unsigned_take_bit_eq take_bit_nat_eq_self)
      then show ?thesis using that by (metis bit_take_bit_iff not_le)
    qed
    ultimately show "bit (PDE_MASK AND push_bit 12 d) n = bit 0 n"
      by (cases "n < 22") (auto simp: bit_and_iff)
  qed
  then have "table_of d = PDE_MASK + push_bit 12 d"
    by (simp add: table_of_def disjunctive_add_eq_or)
  then show ?thesis
    using assms u by (simp add: unat_plus_small PDE_MASK_def)
qed

text \<open>Entry \<open>t\<close> of table \<open>d\<close>, and entry \<open>d\<close> of the directory, seen through the last table.\<close>

lemma table_entry_addr:
  assumes "unat d < 1024" and "unat t < 1024"
  shows "DIDX (table_of d + 4 * t) = 1023" and "TIDX (table_of d + 4 * t) = d"
    and "SLOT (table_of d + 4 * t) = t"
proof -
  have "unat (4 * t) = 4 * unat t" using assms(2) by (simp add: unat_mult_small)
  then have u: "unat (table_of d + 4 * t) = 4290772992 + 4096 * unat d + 4 * unat t"
    using assms by (simp add: unat_plus_small unat_table_of)
  have q: "(4290772992 + 4096 * unat d + 4 * unat t) div 4096 = 1047552 + unat d"
    using assms by simp
  have r: "(4290772992 + 4096 * unat d + 4 * unat t) div 4 = (1047552 + unat d) * 1024 + unat t"
    by simp
  show "DIDX (table_of d + 4 * t) = 1023"
    using assms by (simp add: word_unat_eq_iff unat_DIDX u)
  show "TIDX (table_of d + 4 * t) = d"
    using assms mod_mult_self4 [of 1024 1023 "unat d"] by (simp add: word_unat_eq_iff unat_TIDX u q)
  show "SLOT (table_of d + 4 * t) = t"
    using assms r mod_mult_self3 [of "1047552 + unat d" 1024 "unat t"]
    by (simp only: word_unat_eq_iff unat_SLOT u r mod_less)
qed

lemma get_pde_table: "get_pde = table_of 1023"
  by (simp add: get_pde_def word_unat_eq_iff unat_table_of)

lemma page_of_entry:
  assumes "unat d < 1024" and "unat t < 1024"
  shows "PAGE (IDX (table_of d + 4 * t)) = table_of d"
proof -
  have "unat (4 * t) = 4 * unat t" using assms(2) by (simp add: unat_mult_small)
  then have "unat (IDX (table_of d + 4 * t)) = 1047552 + unat d"
    using assms by (simp add: unat_plus_small unat_table_of unat_IDX)
  then show ?thesis
    using assms by (simp add: word_unat_eq_iff unat_PAGE unat_table_of)
qed

lemma page_of_idx:
  shows "DIDX (PAGE (IDX a)) = DIDX a" and "TIDX (PAGE (IDX a)) = TIDX a"
proof -
  have u: "unat (PAGE (IDX a)) = unat a div 4096 * 4096"
    using unat_u32_bound [of a] by (subst unat_PAGE) (auto simp: unat_IDX)
  show "TIDX (PAGE (IDX a)) = TIDX a"
    by (simp add: word_unat_eq_iff unat_TIDX u)
  have "unat a div 4096 * 4096 div 4194304 = unat a div 4194304"
    using div_mult2_eq [of "unat a div 4096 * 4096" 4096 1024] div_mult2_eq [of "unat a" 4096 1024] by simp
  then show "DIDX (PAGE (IDX a)) = DIDX a"
    by (simp add: word_unat_eq_iff unat_DIDX u)
qed

lemma walk_page [simp]: "walk s (PAGE (IDX a)) = walk s a"
proof -
  have "IDX (PAGE (IDX a)) = IDX a"
    using unat_u32_bound [of a] by (intro IDX_PAGE) (simp add: unat_IDX)
  then show ?thesis by (simp add: walk_def page_of_idx Let_def)
qed

subsection \<open>Fields of entries\<close>

lemma e_index_lt: "unat (e_index e) < 2 ^ 20"
  using unat_u32_bound [of e] by (simp add: e_index_def drop_bit_eq_div unat_div)

lemma set_index_alt: "set_index i e = take_bit 12 e OR push_bit 12 i"
  by (simp add: set_index_def take_bit_eq_mask mask_eq_exp_minus_1 del: take_bit_word_eq_self)

lemma bit_set_flag: "bit (set_flag k v e) n \<longleftrightarrow> (if n = k \<and> k < 32 then v else bit e n)"
  by (auto simp: set_flag_def bit_or_iff bit_and_iff bit_not_iff bit_exp_iff
      dest: bit_imp_le_length)

lemma bit_set_index: "bit (set_index i e) n \<longleftrightarrow> (if n < 12 then bit e n else n < 32 \<and> bit i (n - 12))"
  by (auto simp: set_index_alt bit_or_iff bit_take_bit_iff bit_push_bit_iff)

lemma e_index_set_flag [simp]: "k < 12 \<Longrightarrow> e_index (set_flag k v e) = e_index e"
  by (rule bit_word_eqI) (auto simp: e_index_def bit_drop_bit_eq bit_set_flag)

lemma e_index_set_index [simp]:
  assumes "unat i < 2 ^ 20"
  shows "e_index (set_index i e) = i"
proof -
  have i: "i = take_bit 20 i"
    using assms by (simp add: word_unat_eq_iff unsigned_take_bit_eq take_bit_nat_eq_self del: take_bit_word_eq_self)
  then have "bit i n \<Longrightarrow> n < 20" for n by (metis bit_take_bit_iff)
  then show ?thesis
    by (intro bit_word_eqI) (auto simp: e_index_def bit_drop_bit_eq bit_set_index)
qed

lemma e_flags_set [simp]:
  "e_present (set_flag k v e) = (if k = 0 then v else e_present e)"
  "e_write (set_flag k v e) = (if k = 1 then v else e_write e)"
  "e_present (set_index i e) = e_present e"
  by (auto simp: e_present_def e_write_def bit_set_flag bit_set_index)

lemma entry_word_fields [simp]:
  "e_present (entry_word i)" "e_write (entry_word i)"
  "unat i < 2 ^ 20 \<Longrightarrow> e_index (entry_word i) = i"
  by (simp_all add: entry_word_def) (simp add: e_write_def bit_set_index bit_set_flag)

subsection \<open>The directory seen through itself\<close>

definition dir :: "vm \<Rightarrow> u32" where "dir s = IDX (cr3 s)"
definition pde :: "vm \<Rightarrow> u32 \<Rightarrow> u32" where "pde s d = frame s (dir s) d"
definition pte :: "vm \<Rightarrow> u32 \<Rightarrow> u32 \<Rightarrow> u32" where "pte s d t = frame s (e_index (pde s d)) t"

definition self_mapped :: "vm \<Rightarrow> bool" where
  "self_mapped s \<longleftrightarrow> paging s \<and> e_present (pde s 1023) \<and> e_write (pde s 1023) \<and>
     e_index (pde s 1023) = dir s"

lemma walk_user: "paging s \<Longrightarrow> walk s v =
   (if e_present (pde s (DIDX v)) \<and> e_present (pte s (DIDX v) (TIDX v))
    then Some (e_index (pte s (DIDX v) (TIDX v))) else None)"
  by (simp add: walk_def Let_def pde_def pte_def dir_def)

lemma walk_entry:
  assumes "self_mapped s" and "unat d < 1024" and "unat t < 1024" and "e_present (pde s d)"
  shows "walk s (table_of d + 4 * t) = Some (e_index (pde s d))"
  using assms table_entry_addr [OF assms(2,3)]
  by (simp add: walk_user self_mapped_def pte_def) (simp add: pde_def)

lemma load_entry:
  assumes "self_mapped s" and "unat d < 1024" and "unat t < 1024" and "e_present (pde s d)"
  shows "load s (table_of d + 4 * t) = Some (pte s d t)"
  using assms table_entry_addr [OF assms(2,3)] by (simp add: load_def walk_entry pte_def)

definition put_word :: "vm \<Rightarrow> u32 \<Rightarrow> u32 \<Rightarrow> u32 \<Rightarrow> vm" where
  "put_word s f t w = s\<lparr>frame := (frame s)(f := (frame s f)(t := w))\<rparr>"

lemma put_word_simps [simp]:
  "pool (put_word s f t w) = pool s" "cr3 (put_word s f t w) = cr3 s"
  "paging (put_word s f t w) = paging s" "vmaps (put_word s f t w) = vmaps s"
  "dir (put_word s f t w) = dir s"
  "frame (put_word s f t w) g u = (if g = f \<and> u = t then w else frame s g u)"
  by (simp_all add: put_word_def dir_def)

lemma store_entry:
  assumes "self_mapped s" and "unat d < 1024" and "unat t < 1024" and "e_present (pde s d)"
  shows "store s (table_of d + 4 * t) w = Some (put_word s (e_index (pde s d)) t w)"
  using assms table_entry_addr [OF assms(2,3)] by (simp add: store_def walk_entry put_word_def)

lemma load_pde:
  assumes "self_mapped s" and "unat d < 1024"
  shows "load s (get_pde + 4 * d) = Some (pde s d)"
proof -
  have "load s (table_of 1023 + 4 * d) = Some (pte s 1023 d)"
    using assms by (intro load_entry) (auto simp: self_mapped_def)
  then show ?thesis using assms by (simp add: get_pde_table pte_def pde_def self_mapped_def)
qed

lemma get_pte_present:
  assumes "self_mapped s" and "e_present (pde s (DIDX va))"
  shows "get_pte s va create = Some (table_of (DIDX va), s)"
  using assms load_pde [OF assms(1) unat_DIDX_lt] by (simp add: get_pte_def)

lemma get_entry_present:
  assumes "self_mapped s" and "e_present (pde s (DIDX va))"
  shows "get_entry s va create = Some (table_of (DIDX va) + 4 * TIDX va, s)"
  using assms by (simp add: get_entry_def get_pte_present)

lemma walk_cong:
  assumes "paging s' = paging s" and "cr3 s' = cr3 s" and "pde s' (DIDX v) = pde s (DIDX v)"
    and "paging s \<Longrightarrow> e_present (pde s (DIDX v)) \<Longrightarrow> pte s' (DIDX v) (TIDX v) = pte s (DIDX v) (TIDX v)"
  shows "walk s' v = walk s v"
proof (cases "paging s")
  case True
  with assms show ?thesis by (auto simp: walk_user)
next
  case False
  with assms(1) show ?thesis by (simp add: walk_def)
qed

subsection \<open>Pages in use\<close>

definition used :: "vm \<Rightarrow> u32 \<Rightarrow> bool" where
  "used s f \<longleftrightarrow> unat f < length (memory_map (pool s)) \<and> memory_map (pool s) ! unat f \<noteq> 0"

lemma used_put_word [simp]: "used (put_word s f t w) g = used s g"
  by (simp add: used_def)

lemma map_ref_used: "used s f \<Longrightarrow> map_ref s f = Some (memory_map (pool s) ! unat f)"
  by (simp add: map_ref_def used_def)

lemma vm_get_page_free:
  assumes "pool_ok (pool s)" and "pool_free (pool s) \<noteq> {}"
  obtains n where "vm_get_page s = Some (PAGE n,
      s\<lparr>pool := (pool s)\<lparr>memory_map := (memory_map (pool s))[unat n := 1], free_pages := free_pages (pool s) - 1\<rparr>\<rparr>)"
    and "unat n \<in> pool_free (pool s)" and "unat n < 2 ^ 20" and "\<not> used s n"
    and "pool_ok ((pool s)\<lparr>memory_map := (memory_map (pool s))[unat n := 1], free_pages := free_pages (pool s) - 1\<rparr>)"
    and "IDX (PAGE n) = n"
proof -
  obtain a p' where get: "get_page (pool s) = Some (a, p')"
    using get_page_cases [OF assms(1)] assms(2) by (auto simp: Let_def)
  obtain i where i: "i \<in> pool_free (pool s)" "a = PAGE (of_nat i)" "pool_ok p'"
      "p' = (pool s)\<lparr>memory_map := (memory_map (pool s))[i := 1], free_pages := free_pages (pool s) - 1\<rparr>"
    by (rule get_page_ok [OF assms(1) get])
  have "i < 2 ^ 20" using i(1) assms(1) by (auto simp: pool_free_def pool_ok_def)
  then have u: "unat (of_nat i :: u32) = i" "unat (of_nat i :: u32) < 2 ^ 20"
    by (simp_all add: unat_of_nat_small)
  have "memory_map (pool s) ! i = 0" using i(1) by (simp add: pool_free_def)
  then show thesis
    using get i u by (intro that [of "of_nat i"]) (auto simp: vm_get_page_def used_def IDX_PAGE)
qed

subsection \<open>Copying one page\<close>

text \<open>
  The window of \<^verbatim>\<open>copy_page\<close> is page 0: its entry is word 0 of the first kernel table. \<open>copied\<close>
  is the state after frame \<open>g\<close> was copied to the fresh frame \<open>n\<close>; it leaves some absent entry in
  the window.
\<close>

definition window :: "vm \<Rightarrow> u32" where "window s = e_index (pde s 0)"

definition copied :: "vm \<Rightarrow> u32 \<Rightarrow> u32 \<Rightarrow> vm" where
  "copied s g n = s\<lparr>
     pool := (pool s)\<lparr>memory_map := (memory_map (pool s))[unat n := 1], free_pages := free_pages (pool s) - 1\<rparr>,
     frame := (frame s)(n := frame s g,
       window s := (frame s (window s))(0 := set_flag 0 False (entry_word n)))\<rparr>"

lemma copy_page_spec:
  assumes sm: "self_mapped s" and p0: "e_present (pde s 0)"
    and free: "pool_ok (pool s)" "pool_free (pool s) \<noteq> {}"
    and use: "used s (dir s)" "used s (window s)" and ne: "window s \<noteq> dir s"
    and src: "walk s page = Some g" "g \<noteq> window s" and page: "\<not> (DIDX page = 0 \<and> TIDX page = 0)"
    and tab: "\<And>d. unat d < 1024 \<Longrightarrow> e_present (pde s d) \<Longrightarrow> used s (e_index (pde s d)) \<and>
      (e_index (pde s d) = window s \<longrightarrow> d = 0)"
  obtains n where "copy_page s page = Some (PAGE n, copied s g n)" and "unat n \<in> pool_free (pool s)"
    and "\<not> used s n" and "unat n < 2 ^ 20" and "IDX (PAGE n) = n" and "pool_ok (pool (copied s g n))"
proof -
  let ?K = "window s"
  obtain n where n: "vm_get_page s = Some (PAGE n,
      s\<lparr>pool := (pool s)\<lparr>memory_map := (memory_map (pool s))[unat n := 1], free_pages := free_pages (pool s) - 1\<rparr>\<rparr>)"
      "unat n \<in> pool_free (pool s)" "unat n < 2 ^ 20" "\<not> used s n" "IDX (PAGE n) = n"
      "pool_ok ((pool s)\<lparr>memory_map := (memory_map (pool s))[unat n := 1], free_pages := free_pages (pool s) - 1\<rparr>)"
    by (rule vm_get_page_free [OF free])
  define s1 where "s1 = s\<lparr>pool := (pool s)\<lparr>memory_map := (memory_map (pool s))[unat n := 1],
      free_pages := free_pages (pool s) - 1\<rparr>\<rparr>"
  have s1: "frame s1 = frame s" "dir s1 = dir s" "pde s1 = pde s" "self_mapped s1" "window s1 = ?K"
    "e_present (pde s1 0)" "paging s1" "cr3 s1 = cr3 s" "paging s"
    using sm p0 by (simp_all add: s1_def dir_def pde_def self_mapped_def window_def fun_eq_iff)
  have d0: "DIDX 0 = 0" "TIDX 0 = 0" by (simp_all add: DIDX_def TIDX_def)
  have pte: "get_pte s1 0 False = Some (table_of 0, s1)"
    using get_pte_present [of s1 0 False] s1 d0 by simp
  define s2 where "s2 = put_word s1 ?K 0 (entry_word n)"
  have init: "entry_init s1 (table_of 0) n = Some s2"
    using store_entry [of s1 0 0 "entry_word n"] s1 by (simp add: entry_init_def s2_def window_def)
  have f2: "frame s2 f t = (if f = ?K \<and> t = 0 then entry_word n else frame s f t)" for f t
    by (simp add: s2_def s1)
  have s2: "dir s2 = dir s" "pde s2 = pde s" "cr3 s2 = cr3 s" "paging s2"
    using s1 ne by (auto simp: s2_def pde_def dir_def fun_eq_iff)
  have sm2: "self_mapped s2" using sm s2 by (simp add: self_mapped_def)
  have w0: "walk s2 0 = Some n"
    using s2 p0 n(3) d0 f2 by (simp add: walk_user pte_def window_def)
  have "pte s2 (DIDX page) (TIDX page) = pte s (DIDX page) (TIDX page)"
    if "e_present (pde s (DIDX page))"
    using tab [OF unat_DIDX_lt that] page s2(2) f2 by (auto simp: pte_def)
  then have wp: "walk s2 page = Some g"
    using src(1) s2 s1 walk_cong [of s2 s page] by simp
  have nK: "n \<noteq> ?K" using n(4) use(2) by auto
  have nd: "n \<noteq> dir s" using n(4) use(1) by auto
  define s3 where "s3 = s2\<lparr>frame := (frame s2)(n := frame s2 g)\<rparr>"
  have mv: "move_page s2 0 page = Some s3"
    using w0 wp by (simp add: move_page_def s3_def)
  have s3: "dir s3 = dir s" "pde s3 = pde s" "self_mapped s3"
    using s2 sm2 nd by (auto simp: s3_def pde_def dir_def fun_eq_iff self_mapped_def)
  have ld: "load s3 (table_of 0) = Some (entry_word n)"
    using load_entry [of s3 0 0] s3 p0 f2 nK by (simp add: pte_def window_def s3_def)
  have "entry_set s3 (table_of 0) 0 False = Some (put_word s3 ?K 0 (set_flag 0 False (entry_word n)))"
    using store_entry [of s3 0 0] s3 p0 ld by (simp add: entry_set_def window_def)
  moreover have "put_word s3 ?K 0 (set_flag 0 False (entry_word n)) = copied s g n"
    using nK src(2)
    by (auto simp: copied_def put_word_def s3_def s2_def s1_def fun_eq_iff)
  ultimately have "copy_page s page = Some (PAGE n, copied s g n)"
    using n(1,5) pte init mv by (simp add: copy_page_def s1_def [symmetric])
  then show thesis
    by (rule that) (use n in \<open>auto simp: copied_def\<close>)
qed

subsection \<open>One level of copy on write\<close>

lemma put_word_entry:
  assumes "self_mapped s" and "f = e_index (pde s d)" and "\<not> (f = dir s \<and> (t = 1023 \<or> t = d))"
  shows "self_mapped (put_word s f t w)" and "pde (put_word s f t w) d = pde s d"
    and "pte (put_word s f t w) d t = w"
  using assms by (auto simp: self_mapped_def pde_def pte_def)

lemma load_put_entry:
  assumes "self_mapped s" and "unat d < 1024" and "unat t < 1024" and "e_present (pde s d)"
    and "\<not> (e_index (pde s d) = dir s \<and> (t = 1023 \<or> t = d))"
  shows "load (put_word s (e_index (pde s d)) t w) (table_of d + 4 * t) = Some w"
  using assms put_word_entry [OF assms(1) refl assms(5), of w] by (simp add: load_entry)

lemma pool_free_set:
  assumes "v \<noteq> 0" and "memory_map p ! i \<noteq> 0"
  shows "pool_free (p\<lparr>memory_map := (memory_map p)[i := v]\<rparr>) = pool_free p"
proof -
  have "((memory_map p)[i := v] ! j = 0) = (memory_map p ! j = 0)" for j
    using assms by (cases "i < length (memory_map p)") (auto simp: nth_list_update list_update_beyond)
  then show ?thesis by (simp add: pool_free_def)
qed

lemma pool_ok_set:
  assumes "pool_ok p" and "v \<noteq> 0" and "memory_map p ! i \<noteq> 0"
  shows "pool_ok (p\<lparr>memory_map := (memory_map p)[i := v]\<rparr>)"
  using assms(1) pool_free_set [OF assms(2,3)] by (simp add: pool_ok_def)

text \<open>
  What a level does to word \<open>t\<close> of frame \<open>f\<close>: the word ends up writable and names frame \<open>n\<close>,
  which holds what the old frame \<open>g\<close> holds; either \<open>n\<close> is \<open>g\<close>, or \<open>g\<close> had further references
  and lost one and \<open>n\<close> is fresh.
\<close>

definition unshared :: "vm \<Rightarrow> u32 \<Rightarrow> u32 \<Rightarrow> u32 \<Rightarrow> vm \<Rightarrow> bool" where
  "unshared s f t n s' \<longleftrightarrow> (\<exists>x e' p. let g = e_index (frame s f t) in
     s' = s\<lparr>pool := p, frame := (frame s)(n := frame s g,
        window s := (frame s (window s))(0 := x), f := (frame s f)(t := e'))\<rparr> \<and>
     e_present e' = e_present (frame s f t) \<and> e_write e' \<and> e_index e' = n \<and>
     (x = frame s (window s) 0 \<or> \<not> e_present x) \<and> pool_ok p \<and>
     (n = g \<and> p = pool s \<and> (e_write (frame s f t) \<or> refs (pool s) (unat g) \<le> 1) \<or>
      \<not> used s n \<and> unat n \<in> pool_free (pool s) \<and> 1 < refs (pool s) (unat g) \<and>
      pool_free p = pool_free (pool s) - {unat n} \<and>
      memory_map p = (memory_map (pool s))[unat n := 1, unat g := memory_map (pool s) ! unat g - 1]))"

lemma cow_entry_spec:
  assumes sm: "self_mapped s" and p0: "e_present (pde s 0)"
    and free: "pool_ok (pool s)" "pool_free (pool s) \<noteq> {}"
    and tab: "\<And>d. unat d < 1024 \<Longrightarrow> e_present (pde s d) \<Longrightarrow> used s (e_index (pde s d)) \<and>
      (e_index (pde s d) = window s \<longrightarrow> d = 0)"
    and ent: "unat d < 1024" "d \<noteq> 0" "unat t < 1024" "e_present (pde s d)"
    and leaf: "used s (e_index (pte s d t))" "e_index (pte s d t) \<noteq> window s"
      "e_index (pte s d t) \<noteq> e_index (pde s d)"
    and src: "walk s va = Some (e_index (pte s d t))" "\<not> (DIDX va = 0 \<and> TIDX va = 0)"
  shows "\<exists>n s'. cow_entry s (table_of d + 4 * t) va = Some s' \<and> unshared s (e_index (pde s d)) t n s'"
proof -
  let ?f = "e_index (pde s d)" and ?e = "pte s d t"
  let ?g = "e_index ?e" and ?mm = "memory_map (pool s)" and ?K = "window s"
  have ld: "load s (table_of d + 4 * t) = Some ?e" using ent sm by (simp add: load_entry)
  have e: "frame s ?f t = ?e" by (simp add: pte_def)
  have ref: "map_ref s ?g = Some (?mm ! unat ?g)" by (rule map_ref_used [OF leaf(1)])
  have nz: "0 < ?mm ! unat ?g" using leaf(1) by (simp add: used_def word_neq_0_conv)
  have fK: "?f \<noteq> ?K" using tab [OF ent(1,4)] ent(2) by auto
  have dirK: "used s (dir s)" "?K \<noteq> dir s"
    using tab [of 1023] sm by (auto simp: self_mapped_def)
  have usedK: "used s ?K" using tab [of 0] p0 by (simp add: window_def)
  have edge: "\<not> (?f = dir s \<and> (t = 1023 \<or> t = d))"
    using leaf(3) sm by (auto simp: pte_def self_mapped_def pde_def)
  consider "e_write ?e" | "\<not> e_write ?e" "?mm ! unat ?g = 1" | "\<not> e_write ?e" "?mm ! unat ?g \<noteq> 1"
    by blast
  then show ?thesis
  proof cases
    case 1
    then have "cow_entry s (table_of d + 4 * t) va = Some s" using ld by (simp add: cow_entry_def)
    moreover have "unshared s ?f t ?g s"
      unfolding unshared_def Let_def e
      by (rule exI [of _ "frame s ?K 0"], rule exI [of _ ?e], rule exI [of _ "pool s"])
        (use 1 free fK e in \<open>auto simp: fun_eq_iff\<close>)
    ultimately show ?thesis by blast
  next
    case 2
    let ?e' = "set_flag 1 True ?e" and ?s' = "put_word s ?f t (set_flag 1 True ?e)"
    have set: "entry_set s (table_of d + 4 * t) 1 True = Some ?s'"
      using ent sm ld by (simp add: entry_set_def store_entry)
    have "load ?s' (table_of d + 4 * t) = Some ?e'"
      by (rule load_put_entry) (use sm ent edge in auto)
    moreover have "map_ref ?s' ?g = Some 1" using ref 2 by (simp add: map_ref_def)
    ultimately have "cow_entry s (table_of d + 4 * t) va = Some ?s'"
      using ld 2 ref set by (simp add: cow_entry_def)
    moreover have "unshared s ?f t ?g ?s'"
      unfolding unshared_def Let_def e
      by (rule exI [of _ "frame s ?K 0"], rule exI [of _ ?e'], rule exI [of _ "pool s"])
        (use 2 free fK e in \<open>auto simp: fun_eq_iff put_word_def refs_def\<close>)
    ultimately show ?thesis by blast
  next
    case 3
    obtain n where n: "copy_page s (PAGE (IDX va)) = Some (PAGE n, copied s ?g n)"
        "unat n \<in> pool_free (pool s)" "\<not> used s n" "unat n < 2 ^ 20" "IDX (PAGE n) = n"
        "pool_ok (pool (copied s ?g n))"
      by (rule copy_page_spec [OF sm p0 free dirK(1) usedK dirK(2), of "PAGE (IDX va)" ?g])
        (use src leaf tab in \<open>auto simp: page_of_idx\<close>)
    define s1 where "s1 = copied s ?g n"
    have nf: "n \<noteq> ?f" "n \<noteq> dir s" "n \<noteq> ?g" "unat n \<noteq> unat ?g"
      using n(3) tab [OF ent(1,4)] dirK(1) leaf(1) by (auto simp: word_unat_eq_iff [symmetric])
    have p1: "pde s1 = pde s" "dir s1 = dir s" "self_mapped s1" "pte s1 d t = ?e"
      using nf dirK(2) sm fK
      by (auto simp: s1_def copied_def pde_def pte_def dir_def fun_eq_iff self_mapped_def)
    have mm1: "memory_map (pool s1) = ?mm[unat n := 1]" by (simp add: s1_def copied_def)
    have len: "unat ?g < length ?mm" using leaf(1) by (simp add: used_def)
    define s2 where "s2 = s1\<lparr>pool := (pool s1)\<lparr>memory_map := ?mm[unat n := 1, unat ?g := ?mm ! unat ?g - 1]\<rparr>\<rparr>"
    have ref1: "map_ref s1 ?g = Some (?mm ! unat ?g)" "map_set s1 ?g (?mm ! unat ?g - 1) = Some s2"
      using nf len mm1 by (auto simp: map_ref_def map_set_def s2_def)
    have p2: "pde s2 = pde s" "dir s2 = dir s" "self_mapped s2"
      using p1 by (simp_all add: s2_def pde_def dir_def self_mapped_def fun_eq_iff)
    let ?e1 = "set_index n ?e" and ?e' = "set_flag 1 True (set_index n ?e)"
    define s3 where "s3 = put_word s2 ?f t ?e1"
    define s4 where "s4 = put_word s3 ?f t ?e'"
    have st: "store s2 (table_of d + 4 * t) ?e1 = Some s3"
      using p2 ent by (simp add: store_entry s3_def)
    have p3: "self_mapped s3" "pde s3 d = pde s d" "pte s3 d t = ?e1"
      using put_word_entry [OF p2(3), of ?f d t ?e1] p2 edge by (simp_all add: s3_def)
    have st3: "entry_set s3 (table_of d + 4 * t) 1 True = Some s4"
      using p3 ent by (simp add: entry_set_def load_entry store_entry s4_def)
    have p4: "self_mapped s4" "pde s4 d = pde s d" "pte s4 d t = ?e'"
      using put_word_entry [OF p3(1), of ?f d t ?e'] p3 p2 edge by (simp_all add: s4_def s3_def)
    have mm4: "memory_map (pool s4) = ?mm[unat n := 1, unat ?g := ?mm ! unat ?g - 1]"
      by (simp add: s4_def s3_def s2_def)
    have ix: "e_index ?e' = n" using n(4) by simp
    have ln: "unat n < length ?mm" using n(2) free(1) by (auto simp: pool_free_def pool_ok_def)
    have "map_ref s4 n = Some 1" using nf ln mm4 by (simp add: map_ref_def)
    then have cow: "cow_entry s (table_of d + 4 * t) va = Some s4"
      using ld 3 ref nz n(1,5) ref1 p1 ent st st3 p4 ix
      by (simp add: cow_entry_def s1_def [symmetric] load_entry)
    have big: "1 < refs (pool s) (unat ?g)"
    proof -
      have "unat (?mm ! unat ?g) \<noteq> 0" "unat (?mm ! unat ?g) \<noteq> 1"
        using 3(2) nz by (auto simp: word_unat_eq_iff word_less_nat_alt)
      then show ?thesis by (simp add: refs_def)
    qed
    have m1: "memory_map (pool s1) ! unat ?g = ?mm ! unat ?g" "?mm ! unat ?g - 1 \<noteq> 0"
      using mm1 nf 3(2) by auto
    have pe: "pool s4 = (pool s1)\<lparr>memory_map := (memory_map (pool s1))[unat ?g := ?mm ! unat ?g - 1]\<rparr>"
      by (simp add: s4_def s3_def s2_def mm1)
    have "pool_ok (pool s4)"
      unfolding pe by (rule pool_ok_set) (use n(6) m1 nz in \<open>auto simp: s1_def [symmetric]\<close>)
    moreover have "pool_free (pool s4) = pool_free (pool s1)"
      unfolding pe by (rule pool_free_set) (use m1 nz in auto)
    moreover have "pool_free (pool s1) = pool_free (pool s) - {unat n}"
      unfolding s1_def copied_def using n(2) free(1)
      by (simp, subst pool_free_update) (auto simp: pool_ok_def pool_free_def)
    moreover have "frame s4 g u = ((frame s)(n := frame s ?g,
        ?K := (frame s ?K)(0 := set_flag 0 False (entry_word n)), ?f := (frame s ?f)(t := ?e'))) g u" for g u
      using nf(1) fK by (simp add: s4_def s3_def) (simp add: s2_def s1_def copied_def)
    then have "frame s4 = (frame s)(n := frame s ?g,
        ?K := (frame s ?K)(0 := set_flag 0 False (entry_word n)), ?f := (frame s ?f)(t := ?e'))"
      by (intro ext)
    then have "s4 = s\<lparr>pool := pool s4, frame := (frame s)(n := frame s ?g,
        ?K := (frame s ?K)(0 := set_flag 0 False (entry_word n)), ?f := (frame s ?f)(t := ?e'))\<rparr>"
      by (intro vm.equality) (simp_all add: s4_def s3_def s2_def s1_def copied_def)
    ultimately have "unshared s ?f t n s4"
      unfolding unshared_def Let_def e
      by (intro exI [of _ "set_flag 0 False (entry_word n)"] exI [of _ ?e'] exI [of _ "pool s4"])
        (use n(2-4) big mm4 ix in simp)
    with cow show ?thesis by blast
  qed
qed

subsection \<open>Well-formed address spaces\<close>

text \<open>
  \<open>pt_ok\<close>: the directory maps itself, its tables are different pages in use, and the window of
  \<^verbatim>\<open>copy_page\<close> is closed. \<open>leaf_ok\<close>: what the user part (directory entries 4 to 63) maps are
  pages in use that are no tables.
\<close>

definition pt_ok :: "vm \<Rightarrow> bool" where
  "pt_ok s \<longleftrightarrow> self_mapped s \<and> pool_ok (pool s) \<and> e_present (pde s 0) \<and> \<not> e_present (pte s 0 0) \<and>
     (\<forall>d. unat d < 1024 \<longrightarrow> e_present (pde s d) \<longrightarrow> used s (e_index (pde s d))) \<and>
     (\<forall>d d'. unat d < 1024 \<longrightarrow> unat d' < 1024 \<longrightarrow> e_present (pde s d) \<longrightarrow> e_present (pde s d') \<longrightarrow>
        e_index (pde s d) = e_index (pde s d') \<longrightarrow> d = d')"

definition is_table :: "vm \<Rightarrow> u32 \<Rightarrow> bool" where
  "is_table s f \<longleftrightarrow> (\<exists>d. unat d < 1024 \<and> e_present (pde s d) \<and> e_index (pde s d) = f)"

definition user_dir :: "u32 \<Rightarrow> bool" where
  "user_dir d \<longleftrightarrow> 4 \<le> unat d \<and> unat d < 64"

definition leaf_ok :: "vm \<Rightarrow> bool" where
  "leaf_ok s \<longleftrightarrow> (\<forall>d t. user_dir d \<longrightarrow> unat t < 1024 \<longrightarrow> e_present (pde s d) \<longrightarrow> e_present (pte s d t) \<longrightarrow>
     used s (e_index (pte s d t)) \<and> \<not> is_table s (e_index (pte s d t)))"

lemma pt_okD:
  assumes "pt_ok s"
  shows "self_mapped s" and "pool_ok (pool s)" and "e_present (pde s 0)" and "\<not> e_present (pte s 0 0)"
    and "paging s"
    and "\<And>d. unat d < 1024 \<Longrightarrow> e_present (pde s d) \<Longrightarrow> used s (e_index (pde s d)) \<and>
      (e_index (pde s d) = window s \<longrightarrow> d = 0)"
    and "\<And>d. unat d < 1024 \<Longrightarrow> e_present (pde s d) \<Longrightarrow> e_index (pde s d) = dir s \<Longrightarrow> d = 1023"
    and "\<And>d d'. unat d < 1024 \<Longrightarrow> unat d' < 1024 \<Longrightarrow> e_present (pde s d) \<Longrightarrow> e_present (pde s d') \<Longrightarrow>
      e_index (pde s d) = e_index (pde s d') \<Longrightarrow> d = d'"
    and "used s (dir s)" and "window s \<noteq> dir s" and "used s (window s)"
proof -
  have z: "unat (0 :: u32) < 1024" "unat (1023 :: u32) < 1024" by simp_all
  show sm: "self_mapped s" and "pool_ok (pool s)" and p0: "e_present (pde s 0)"
    and "\<not> e_present (pte s 0 0)" and "paging s"
    using assms by (auto simp: pt_ok_def self_mapped_def)
  show inj: "\<And>d d'. unat d < 1024 \<Longrightarrow> unat d' < 1024 \<Longrightarrow> e_present (pde s d) \<Longrightarrow> e_present (pde s d') \<Longrightarrow>
      e_index (pde s d) = e_index (pde s d') \<Longrightarrow> d = d'"
    using assms by (auto simp: pt_ok_def)
  show "\<And>d. unat d < 1024 \<Longrightarrow> e_present (pde s d) \<Longrightarrow> e_index (pde s d) = dir s \<Longrightarrow> d = 1023"
    using inj [OF _ z(2)] sm by (auto simp: self_mapped_def)
  show u: "\<And>d. unat d < 1024 \<Longrightarrow> e_present (pde s d) \<Longrightarrow> used s (e_index (pde s d)) \<and>
      (e_index (pde s d) = window s \<longrightarrow> d = 0)"
    using assms inj [OF _ z(1)] p0 by (auto simp: pt_ok_def window_def)
  show "used s (dir s)" "window s \<noteq> dir s"
    using u [OF z(2)] sm by (auto simp: self_mapped_def)
  show "used s (window s)" using u [OF z(1)] p0 by (simp add: window_def)
qed

lemma tables_of_space:
  assumes "pt_ok s"
  shows "is_table s (window s)" and "is_table s (dir s)"
    and "\<And>d. unat d < 1024 \<Longrightarrow> e_present (pde s d) \<Longrightarrow> is_table s (e_index (pde s d))"
proof -
  show t: "\<And>d. unat d < 1024 \<Longrightarrow> e_present (pde s d) \<Longrightarrow> is_table s (e_index (pde s d))"
    by (auto simp: is_table_def)
  show "is_table s (window s)"
    using t [of 0] pt_okD(3) [OF assms] by (simp add: window_def)
  show "is_table s (dir s)"
    using t [of 1023] pt_okD(1) [OF assms] by (simp add: self_mapped_def)
qed

lemma user_dir_lt: "user_dir d \<Longrightarrow> unat d < 1024 \<and> d \<noteq> 0 \<and> d \<noteq> 1023"
  by (auto simp: user_dir_def)

text \<open>Used pages stay used, and a fresh page is a new one.\<close>

lemma unsharedE:
  assumes "unshared s f t n s'"
  obtains x e' p where "s' = s\<lparr>pool := p, frame := (frame s)(n := frame s (e_index (frame s f t)),
        window s := (frame s (window s))(0 := x), f := (frame s f)(t := e'))\<rparr>"
    and "e_present e' = e_present (frame s f t)" and "e_write e'" and "e_index e' = n"
    and "x = frame s (window s) 0 \<or> \<not> e_present x" and "pool_ok p"
    and "n = e_index (frame s f t) \<and> p = pool s \<and>
        (e_write (frame s f t) \<or> refs (pool s) (unat (e_index (frame s f t))) \<le> 1) \<or>
      \<not> used s n \<and> unat n \<in> pool_free (pool s) \<and> 1 < refs (pool s) (unat (e_index (frame s f t))) \<and>
      pool_free p = pool_free (pool s) - {unat n} \<and>
      memory_map p = (memory_map (pool s))[unat n := 1,
        unat (e_index (frame s f t)) := memory_map (pool s) ! unat (e_index (frame s f t)) - 1]"
  using assms unfolding unshared_def Let_def by blast

lemma unshared_used:
  assumes "unshared s f t n s'" and "used s h"
  shows "used s' h"
proof -
  let ?g = "e_index (frame s f t)" and ?mm = "memory_map (pool s)"
  from assms(1) consider "memory_map (pool s') = ?mm"
    | "1 < refs (pool s) (unat ?g)" "memory_map (pool s') = ?mm[unat n := 1, unat ?g := ?mm ! unat ?g - 1]"
    by (rule unsharedE) auto
  then show ?thesis
  proof cases
    case 1
    then show ?thesis using assms(2) by (simp add: used_def)
  next
    case 2
    then have "?mm ! unat ?g - 1 \<noteq> 0" by (auto simp: refs_def)
    then show ?thesis
      using assms(2) 2(2) unfolding used_def
      by (cases "unat ?g = unat h"; cases "unat n = unat h") simp_all
  qed
qed

lemma unshared_target_used:
  assumes "unshared s f t n s'" and "used s (e_index (frame s f t))" and "pool_ok (pool s)"
  shows "used s' n"
proof -
  let ?g = "e_index (frame s f t)" and ?mm = "memory_map (pool s)"
  from assms(1) consider "n = ?g" | "\<not> used s n" "unat n \<in> pool_free (pool s)"
      "memory_map (pool s') = ?mm[unat n := 1, unat ?g := ?mm ! unat ?g - 1]"
    by (rule unsharedE) auto
  then show ?thesis
  proof cases
    case 1
    then show ?thesis using unshared_used [OF assms(1)] assms(2) by simp
  next
    case 2
    have "unat n \<noteq> unat ?g" using 2(1) assms(2) by (auto simp: word_unat_eq_iff [symmetric])
    moreover have "unat n < length ?mm" using 2(2) assms(3) by (auto simp: pool_free_def pool_ok_def)
    ultimately show ?thesis using 2(3) by (simp add: used_def)
  qed
qed

text \<open>The page table level: a table is unshared, its entries stay.\<close>

lemma cow_table:
  assumes ok: "pt_ok s" and free: "pool_free (pool s) \<noteq> {}"
    and d: "unat d < 1024" "d \<noteq> 0" "d \<noteq> 1023" "e_present (pde s d)" and t: "unat t < 1024"
  shows "\<exists>n s'. copy_on_write s (table_of d + 4 * t) 2 = Some s' \<and> unshared s (dir s) d n s'"
proof -
  note f = pt_okD [OF ok]
  let ?va = "table_of d + 4 * t" and ?en = "table_of 1023 + 4 * d"
  have z: "unat (1023 :: u32) < 1024" by simp
  have pm: "e_present (pde s 1023)" "e_index (pde s 1023) = dir s" "e_write (pde s 1023)"
    using f(1) by (auto simp: self_mapped_def)
  have ptm: "pte s 1023 d = pde s d" for d using pm by (simp add: pte_def pde_def)
  note a1 = table_entry_addr [OF d(1) t] and a2 = table_entry_addr [OF z d(1)]
  have g1: "get_entry s ?va False = Some (?en, s)"
    using get_entry_present [OF f(1), of ?va False] pm a1 by simp
  have g2: "get_entry s ?en False = Some (table_of 1023 + 4 * 1023, s)"
    using get_entry_present [OF f(1), of ?en False] pm a2 by simp
  have "cow_entry s (table_of 1023 + 4 * 1023) ?en = Some s"
    using load_entry [OF f(1) z z pm(1)] ptm pm by (simp add: cow_entry_def)
  then have one: "copy_on_write s ?en (Suc 0) = Some s" using g2 by simp
  have "\<exists>n s'. cow_entry s ?en ?va = Some s' \<and> unshared s (e_index (pde s 1023)) d n s'"
  proof (rule cow_entry_spec [OF f(1,3,2) free f(6) z _ d(1) pm(1)])
    show "used s (e_index (pte s 1023 d))" "e_index (pte s 1023 d) \<noteq> window s"
      "e_index (pte s 1023 d) \<noteq> e_index (pde s 1023)"
      using f(6) [OF d(1,4)] f(7) [OF d(1,4)] d pm ptm by auto
    show "walk s ?va = Some (e_index (pte s 1023 d))"
      using walk_entry [OF f(1) d(1) t d(4)] ptm by simp
  qed (use a1 in auto)
  moreover have "copy_on_write s ?va 2 = cow_entry s ?en ?va"
    using g1 one by (simp only: numeral_2_eq_2 copy_on_write.simps(2) [of s ?va] bind.bind_lunit prod.case)
  ultimately show ?thesis using pm by simp
qed

lemma unshared_frames:
  assumes "unshared s f t n s'" and "used s h" and "h \<noteq> f" and "h \<noteq> window s"
  shows "frame s' h = frame s h"
proof -
  obtain x e' p where "s' = s\<lparr>pool := p, frame := (frame s)(n := frame s (e_index (frame s f t)),
        window s := (frame s (window s))(0 := x), f := (frame s f)(t := e'))\<rparr>"
      "n = e_index (frame s f t) \<or> \<not> used s n"
    by (rule unsharedE [OF assms(1)]) auto
  then show ?thesis using assms(2-4) by auto
qed

lemma unshared_table:
  assumes ok: "pt_ok s" and d: "unat d < 1024" "d \<noteq> 0" "d \<noteq> 1023" "e_present (pde s d)"
    and un: "unshared s (dir s) d n s'"
  shows "cr3 s' = cr3 s" and "paging s'" and "window s' = window s" and "pool_ok (pool s')"
    and "e_present (pde s' d)" and "e_write (pde s' d)" and "e_index (pde s' d) = n"
    and "\<And>d'. d' \<noteq> d \<Longrightarrow> pde s' d' = pde s d'"
    and "\<And>d' u. unat d' < 1024 \<Longrightarrow> d' \<noteq> 1023 \<Longrightarrow> e_present (pde s d') \<Longrightarrow> d' \<noteq> 0 \<or> u \<noteq> 0 \<Longrightarrow>
      pte s' d' u = pte s d' u"
    and "\<not> e_present (pte s' 0 0)" and "n = e_index (pde s d) \<or> \<not> used s n"
    and "pool_free (pool s') = pool_free (pool s) - {unat n}"
proof -
  note f = pt_okD [OF ok]
  let ?g = "e_index (pde s d)" and ?K = "window s"
  obtain x e' p where u: "s' = s\<lparr>pool := p, frame := (frame s)(n := frame s ?g,
        ?K := (frame s ?K)(0 := x), dir s := (frame s (dir s))(d := e'))\<rparr>"
      "e_present e'" "e_write e'" "e_index e' = n" "x = frame s ?K 0 \<or> \<not> e_present x" "pool_ok p"
      "n = ?g \<and> p = pool s \<or> \<not> used s n \<and> pool_free p = pool_free (pool s) - {unat n}"
    by (rule unsharedE [OF un]) (use d(4) in \<open>auto simp: pde_def\<close>)
  have ud: "used s ?g" using f(6) [OF d(1,4)] by simp
  have ne: "n \<noteq> dir s" "n \<noteq> ?K" "?g \<noteq> ?K" "?g \<noteq> dir s"
    using u(7) f(6) [OF d(1,4)] f(7) [OF d(1,4)] d f(9,11) by auto
  have fr: "frame s' h = (if h = dir s then (frame s h)(d := e') else
      if h = ?K then (frame s h)(0 := x) else if h = n then frame s ?g else frame s h)" for h
    using u(1) by simp
  show c: "cr3 s' = cr3 s" "paging s'" using u(1) f(5) by simp_all
  then have dir: "dir s' = dir s" by (simp add: dir_def)
  have pd: "pde s' d' = (if d' = d then e' else pde s d')" for d'
    by (simp add: pde_def dir fr)
  show "pool_ok (pool s')" using u(1,6) by simp
  show "window s' = window s" using pd d(2) by (simp add: window_def)
  show "e_present (pde s' d)" "e_write (pde s' d)" "e_index (pde s' d) = n" using pd u by simp_all
  show "\<And>d'. d' \<noteq> d \<Longrightarrow> pde s' d' = pde s d'" using pd by simp
  show nn: "n = ?g \<or> \<not> used s n" using u(7) by blast
  show "pte s' d' v = pte s d' v"
    if q: "unat d' < 1024" "d' \<noteq> 1023" "e_present (pde s d')" "d' \<noteq> 0 \<or> v \<noteq> 0" for d' v
  proof (cases "d' = d")
    case True
    then show ?thesis using pd u(4) fr ne by (simp add: pte_def)
  next
    case False
    let ?h = "e_index (pde s d')"
    have "?h \<noteq> dir s" using f(7) [OF q(1,3)] q(2) by auto
    moreover have "?h \<noteq> n"
      using nn f(6) [OF q(1,3)] f(8) [OF q(1) d(1) q(3) d(4)] False by auto
    moreover have "?h = ?K \<Longrightarrow> d' = 0" using f(6) [OF q(1,3)] by auto
    ultimately show ?thesis using False pd fr q(4) by (auto simp: pte_def)
  qed
  have "?K \<noteq> dir s" by (rule f(10))
  then have "frame s' ?K 0 = x" using fr by simp
  then show "\<not> e_present (pte s' 0 0)"
    using u(5) f(4) pd d(2) by (auto simp: pte_def window_def)
  show "pool_free (pool s') = pool_free (pool s) - {unat n}"
  proof -
    have "unat ?g \<notin> pool_free (pool s)" using ud by (auto simp: used_def pool_free_def)
    then show ?thesis using u(1,7) by auto
  qed
qed

lemma unshared_table_ok:
  assumes ok: "pt_ok s" "leaf_ok s" and d: "unat d < 1024" "d \<noteq> 0" "d \<noteq> 1023" "e_present (pde s d)"
    and un: "unshared s (dir s) d n s'"
  shows "pt_ok s'" and "leaf_ok s'"
proof -
  note f = pt_okD [OF ok(1)] and w = unshared_table [OF ok(1) d un]
  have dir: "dir s' = dir s" using w(1) by (simp add: dir_def)
  have us: "used s' h" if "used s h" for h using unshared_used [OF un that] .
  have un_n: "used s' n"
    by (rule unshared_target_used [OF un]) (use f(2,6) d in \<open>auto simp: pde_def\<close>)
  have pr: "e_present (pde s' d') = e_present (pde s d')" for d'
    using w(5,8) d(4) by (cases "d' = d") auto
  have ix: "e_index (pde s' d') = (if d' = d then n else e_index (pde s d'))" for d'
    using w(7,8) by auto
  have sm: "self_mapped s'" using f(1) w(2,8) d(3) dir by (auto simp: self_mapped_def)
  have inj: "d1 = d2" if q: "unat d1 < 1024" "unat d2 < 1024" "e_present (pde s d1)" "e_present (pde s d2)"
      "e_index (pde s' d1) = e_index (pde s' d2)" for d1 d2
  proof -
    have no: "e_index (pde s d') \<noteq> n" if "unat d' < 1024" "e_present (pde s d')" "d' \<noteq> d" for d'
      using w(11) f(6) [OF that(1,2)] f(8) [OF that(1) d(1) that(2) d(4)] that(3) by auto
    show ?thesis
      using q ix no [OF q(1,3)] no [OF q(2,4)] f(8) [OF q(1,2) q(3,4)] by (auto split: if_splits)
  qed
  have tu: "used s' (e_index (pde s' d'))" if "unat d' < 1024" "e_present (pde s' d')" for d'
    using that pr ix un_n us f(6) by (cases "d' = d") simp_all
  have "\<forall>d1 d2. unat d1 < 1024 \<longrightarrow> unat d2 < 1024 \<longrightarrow> e_present (pde s' d1) \<longrightarrow> e_present (pde s' d2) \<longrightarrow>
      e_index (pde s' d1) = e_index (pde s' d2) \<longrightarrow> d1 = d2"
    unfolding pr using inj by blast
  then show "pt_ok s'"
    unfolding pt_ok_def using sm w(4,10) f(3) pr tu by simp
  show "leaf_ok s'"
    unfolding leaf_ok_def
  proof (intro allI impI)
    fix d' v
    assume q: "user_dir d'" "unat v < 1024" "e_present (pde s' d')" "e_present (pte s' d' v)"
    note ud = user_dir_lt [OF q(1)]
    have e: "pte s' d' v = pte s d' v" using w(9) [of d' v] ud q(3) pr by auto
    then have old: "used s (e_index (pte s d' v))" "\<not> is_table s (e_index (pte s d' v))"
      using ok(2) q pr by (auto simp: leaf_ok_def)
    have "e_index (pte s d' v) \<noteq> n"
      using w(11) old d by (auto simp: is_table_def)
    then have "\<not> is_table s' (e_index (pte s d' v))"
      using old(2) pr ix by (auto simp: is_table_def)
    then show "used s' (e_index (pte s' d' v)) \<and> \<not> is_table s' (e_index (pte s' d' v))"
      using e us old(1) by simp
  qed
qed

text \<open>The page level: one entry of a user table is unshared.\<close>

lemma unshared_leaf:
  assumes ok: "pt_ok s" "leaf_ok s" and d: "user_dir d" "e_present (pde s d)"
    and t: "unat t < 1024" "e_present (pte s d t)"
    and un: "unshared s (e_index (pde s d)) t n s'"
  shows "cr3 s' = cr3 s" and "pde s' = pde s" and "pt_ok s'" and "leaf_ok s'"
    and "e_present (pte s' d t)" and "e_write (pte s' d t)" and "e_index (pte s' d t) = n"
    and "\<And>d' u. unat d' < 1024 \<Longrightarrow> d' \<noteq> 1023 \<Longrightarrow> e_present (pde s d') \<Longrightarrow> d' \<noteq> 0 \<or> u \<noteq> 0 \<Longrightarrow>
      d' \<noteq> d \<or> u \<noteq> t \<Longrightarrow> pte s' d' u = pte s d' u"
    and "frame s' n = frame s (e_index (pte s d t))" and "n = e_index (pte s d t) \<or> \<not> used s n"
proof -
  note f = pt_okD [OF ok(1)] and ud = user_dir_lt [OF d(1)]
  let ?T = "e_index (pde s d)" and ?g = "e_index (pte s d t)" and ?K = "window s"
  have lf: "used s ?g" "\<not> is_table s ?g" using ok(2) d t by (auto simp: leaf_ok_def)
  obtain x e' p where u: "s' = s\<lparr>pool := p, frame := (frame s)(n := frame s ?g,
        ?K := (frame s ?K)(0 := x), ?T := (frame s ?T)(t := e'))\<rparr>"
      "e_present e'" "e_write e'" "e_index e' = n" "x = frame s ?K 0 \<or> \<not> e_present x" "pool_ok p"
      "n = ?g \<and> p = pool s \<or> \<not> used s n"
    by (rule unsharedE [OF un]) (use t(2) in \<open>auto simp: pte_def\<close>)
  show nn: "n = ?g \<or> \<not> used s n" using u(7) by blast
  have nt: "n \<noteq> e_index (pde s d')" if "unat d' < 1024" "e_present (pde s d')" for d'
    using nn lf(2) f(6) [OF that] that by (auto simp: is_table_def)
  have dirt: "dir s = e_index (pde s 1023)" "e_present (pde s 1023)"
    using f(1) by (auto simp: self_mapped_def)
  have ne: "n \<noteq> dir s" "n \<noteq> ?K" "n \<noteq> ?T" "?T \<noteq> ?K" "?T \<noteq> dir s"
  proof -
    show "n \<noteq> dir s" unfolding dirt(1) by (rule nt) (use dirt in simp_all)
    show "n \<noteq> ?K" unfolding window_def by (rule nt) (use f(3) in simp_all)
    show "n \<noteq> ?T" by (rule nt) (use ud d in simp_all)
    show "?T \<noteq> ?K" using f(6) [of d] ud d(2) by simp
    show "?T \<noteq> dir s" using f(7) [of d] ud d(2) by auto
  qed
  have fr: "frame s' h = (if h = ?T then (frame s h)(t := e') else
      if h = ?K then (frame s h)(0 := x) else if h = n then frame s ?g else frame s h)" for h
    using u(1) by simp
  show c: "cr3 s' = cr3 s" using u(1) by simp
  have pg: "paging s'" using u(1) f(5) by simp
  from c have dir: "dir s' = dir s" by (simp add: dir_def)
  show pd: "pde s' = pde s"
    using ne f(10) fr [of "dir s"] by (simp add: pde_def dir fun_eq_iff)
  have new: "pte s' d t = e'" using pd fr by (simp add: pte_def)
  then show "e_present (pte s' d t)" "e_write (pte s' d t)" "e_index (pte s' d t) = n"
    using u by simp_all
  show old: "pte s' d' v = pte s d' v"
    if q: "unat d' < 1024" "d' \<noteq> 1023" "e_present (pde s d')" "d' \<noteq> 0 \<or> v \<noteq> 0" "d' \<noteq> d \<or> v \<noteq> t" for d' v
  proof -
    have "e_index (pde s d') = ?T \<Longrightarrow> d' = d"
      using f(8) [OF q(1) _ q(3) d(2)] ud by simp
    moreover have "e_index (pde s d') = ?K \<Longrightarrow> d' = 0" using f(6) [OF q(1,3)] by simp
    ultimately show ?thesis
      using pd fr nt [OF q(1,3)] q(4,5) by (auto simp: pte_def)
  qed
  show "frame s' n = frame s ?g" using fr ne by simp
  have us: "used s' h" if "used s h" for h using unshared_used [OF un that] .
  have un_n: "used s' n"
    by (rule unshared_target_used [OF un]) (use f(2) lf(1) in \<open>auto simp: pte_def\<close>)
  have x0: "pte s' 0 0 = x" using fr pd ne by (simp add: pte_def window_def)
  have x1: "\<not> e_present x" using u(5) f(4) by (auto simp: pte_def window_def)
  show "pt_ok s'"
    unfolding pt_ok_def self_mapped_def pd dir x0
    using f(1) pg x1 u(1,6) f(3) us f(6) f(8) by (auto simp: self_mapped_def)
  show "leaf_ok s'"
    unfolding leaf_ok_def
  proof (intro allI impI)
    fix d' v
    assume q: "user_dir d'" "unat v < 1024" "e_present (pde s' d')" "e_present (pte s' d' v)"
    have tb: "is_table s' h = is_table s h" for h using pd by (simp add: is_table_def)
    show "used s' (e_index (pte s' d' v)) \<and> \<not> is_table s' (e_index (pte s' d' v))"
    proof (cases "d' = d \<and> v = t")
      case True
      have "\<not> is_table s n" using nt by (auto simp: is_table_def)
      then show ?thesis using True new u(4) un_n tb by simp
    next
      case False
      then have "pte s' d' v = pte s d' v"
        using old [of d' v] user_dir_lt [OF q(1)] q(3) pd by auto
      then show ?thesis using ok(2) q pd us tb by (simp add: leaf_ok_def)
    qed
  qed
qed

text \<open>A page that stays shared: read-only with further references.\<close>

lemma unshared_moves:
  assumes "unshared s f t n s'" and "\<not> e_write (frame s f t)"
    and "1 < refs (pool s) (unat (e_index (frame s f t)))"
  shows "\<not> used s n"
  using assms(1) by (rule unsharedE) (use assms(2,3) in auto)

lemma unshared_refs:
  assumes "unshared s f t n s'" and "used s h" and "h \<noteq> e_index (frame s f t)"
  shows "refs (pool s') (unat h) = refs (pool s) (unat h)"
proof -
  let ?g = "e_index (frame s f t)" and ?mm = "memory_map (pool s)"
  have "memory_map (pool s') = ?mm \<or> \<not> used s n \<and> memory_map (pool s') = ?mm[unat n := 1, unat ?g := ?mm ! unat ?g - 1]"
    by (rule unsharedE [OF assms(1)]) auto
  moreover have "unat ?g \<noteq> unat h" "\<not> used s n \<Longrightarrow> unat n \<noteq> unat h"
    using assms(2,3) by (auto simp: word_unat_eq_iff [symmetric])
  ultimately show ?thesis by (auto simp: refs_def)
qed

lemma cow_Suc:
  "get_entry s v False = Some (en, s) \<Longrightarrow>
   copy_on_write s v (Suc l) = Option.bind (copy_on_write s en l) (\<lambda>s. cow_entry s en v)"
  by simp

lemma cow_level3:
  assumes ok: "pt_ok s" "leaf_ok s" and free: "pool_free (pool s) \<noteq> {}"
    and d: "user_dir (DIDX v)" "e_present (pde s (DIDX v))" "e_present (pte s (DIDX v) (TIDX v))"
    and en: "copy_on_write s0 (table_of (DIDX v) + 4 * TIDX v) 2 = Some s"
      "get_entry s0 v False = Some (table_of (DIDX v) + 4 * TIDX v, s0)"
  shows "\<exists>n s'. copy_on_write s0 v 3 = Some s' \<and> unshared s (e_index (pde s (DIDX v))) (TIDX v) n s'"
proof -
  note f = pt_okD [OF ok(1)]
  let ?d = "DIDX v" and ?t = "TIDX v"
  have lf: "used s (e_index (pte s ?d ?t))" "\<not> is_table s (e_index (pte s ?d ?t))"
    using ok(2) d unat_TIDX_lt [of v] by (auto simp: leaf_ok_def)
  have "\<exists>n s'. cow_entry s (table_of ?d + 4 * ?t) v = Some s' \<and> unshared s (e_index (pde s ?d)) ?t n s'"
  proof (rule cow_entry_spec [OF f(1,3,2) free f(6) unat_DIDX_lt _ unat_TIDX_lt d(2) lf(1)])
    show "e_index (pte s ?d ?t) \<noteq> window s"
      using lf(2) f(3) by (force simp: is_table_def window_def)
    show "e_index (pte s ?d ?t) \<noteq> e_index (pde s ?d)"
      using lf(2) d(2) unat_DIDX_lt [of v] by (force simp: is_table_def)
    show "walk s v = Some (e_index (pte s ?d ?t))" using d f(5) by (simp add: walk_user)
  qed (use user_dir_lt [OF d(1)] in auto)
  moreover have "copy_on_write s0 v 3 = cow_entry s (table_of ?d + 4 * ?t) v"
    using cow_Suc [OF en(2), of 2] en(1) by (simp del: copy_on_write.simps)
  ultimately show ?thesis by simp
qed

definition same_page :: "u32 \<Rightarrow> u32 \<Rightarrow> bool" where
  "same_page v v' \<longleftrightarrow> DIDX v = DIDX v' \<and> TIDX v = TIDX v'"

text \<open>
  The frames a change at directory entry \<open>d\<close> leaves alone: every page in use that is no table,
  and the table of \<open>d\<close> itself while it is shared.
\<close>

definition keeps_frames :: "vm \<Rightarrow> vm \<Rightarrow> u32 \<Rightarrow> bool" where
  "keeps_frames s s' d \<longleftrightarrow> (\<forall>h. used s h \<and> h \<noteq> dir s \<and> h \<noteq> window s \<and>
     (is_table s h \<longrightarrow> e_present (pde s d) \<and> h = e_index (pde s d) \<and> \<not> e_write (pde s d) \<and>
        1 < refs (pool s) (unat h))
     \<longrightarrow> frame s' h = frame s h)"

lemma cow_fault:
  assumes ok: "pt_ok s" "leaf_ok s" and free: "2 \<le> card (pool_free (pool s))"
    and v: "user_dir (DIDX v)" "walk s v = Some g"
  shows "\<exists>s' n. copy_on_write s v 3 = Some s' \<and> pt_ok s' \<and> leaf_ok s' \<and> cr3 s' = cr3 s \<and>
    walk s' v = Some n \<and> e_write (pde s' (DIDX v)) \<and> e_write (pte s' (DIDX v) (TIDX v)) \<and>
    frame s' n = frame s g \<and>
    (if \<not> e_write (pte s (DIDX v) (TIDX v)) \<and> 1 < refs (pool s) (unat g) then \<not> used s n else n = g \<or> \<not> used s n) \<and>
    (\<forall>v'. DIDX v' \<noteq> 1023 \<longrightarrow> \<not> same_page v v' \<longrightarrow> walk s' v' = walk s v') \<and>
    keeps_frames s s' (DIDX v)"
proof -
  let ?d = "DIDX v" and ?t = "TIDX v"
  note f = pt_okD [OF ok(1)] and ud = user_dir_lt [OF v(1)]
  have pr: "e_present (pde s ?d)" "e_present (pte s ?d ?t)" and g: "g = e_index (pte s ?d ?t)"
    using v(2) f(5) by (auto simp: walk_user split: if_splits)
  have lg: "used s g" "\<not> is_table s g"
    using ok(2) v(1) pr unat_TIDX_lt [of v] by (auto simp: g leaf_ok_def)
  have tb: "is_table s (window s)" "is_table s (dir s)" "is_table s (e_index (pde s ?d))"
    using tables_of_space [OF ok(1)] pr(1) ud by auto
  have fin: "pool_free (pool s) \<noteq> {}" using free by auto
  obtain n1 s1 where s1: "copy_on_write s (table_of ?d + 4 * ?t) 2 = Some s1"
      and un1: "unshared s (dir s) ?d n1 s1"
    using cow_table [OF ok(1) fin _ _ _ pr(1) unat_TIDX_lt] ud by blast
  have d0: "unat ?d < 1024" "?d \<noteq> 0" "?d \<noteq> 1023" using ud by auto
  note w1 = unshared_table [OF ok(1) d0 pr(1) un1]
  note ok1 = unshared_table_ok [OF ok d0 pr(1) un1]
  have same1: "pte s1 ?d ?t = pte s ?d ?t" using w1(9) [of ?d ?t] ud pr by simp
  have "card (pool_free (pool s) - {unat n1}) \<noteq> 0"
    using free by (simp add: card_Diff_singleton_if)
  then have free1: "pool_free (pool s1) \<noteq> {}" using w1(12) ud by (metis card.empty)
  obtain n s' where s': "copy_on_write s v 3 = Some s'"
      and un2: "unshared s1 (e_index (pde s1 ?d)) ?t n s'"
    using cow_level3 [OF ok1 free1 v(1) _ _ s1 get_entry_present [OF f(1) pr(1)]] w1(5) same1 pr ud
    by auto
  have pr1: "e_present (pde s1 ?d)" "e_present (pte s1 ?d ?t)" using w1(5) same1 pr ud by auto
  note w2 = unshared_leaf [OF ok1 v(1) pr1(1) unat_TIDX_lt pr1(2) un2]
  have n1: "n1 = e_index (pde s ?d) \<or> \<not> used s n1" using w1(11) ud by blast
  have walk': "walk s' v = Some n"
    using pt_okD(5) [OF w2(3)] w2(2,5,7) pr1 ud by (simp add: walk_user)
  have wr: "e_write (pde s' ?d)" using w2(2) w1(6) ud by simp
  have "g \<noteq> dir s" "g \<noteq> window s" using lg(2) tb(1,2) by auto
  then have fr: "frame s' n = frame s g"
    using w2(9) same1 g unshared_frames [OF un1 lg(1)] by simp
  have old: "used s1 h" if "used s h" for h by (rule unshared_used [OF un1 that])
  have fresh: "if \<not> e_write (pte s ?d ?t) \<and> 1 < refs (pool s) (unat g) then \<not> used s n else n = g \<or> \<not> used s n"
  proof -
    have "g \<noteq> e_index (frame s (dir s) ?d)" using lg(2) tb(3) by (auto simp: pde_def)
    then have "refs (pool s1) (unat g) = refs (pool s) (unat g)" by (rule unshared_refs [OF un1 lg(1)])
    moreover have "frame s1 (e_index (pde s1 ?d)) ?t = pte s ?d ?t" using same1 by (simp add: pte_def)
    ultimately show ?thesis
      using unshared_moves [OF un2] w2(10) same1 g old by (auto simp del: word_neq_0_conv)
  qed
  have pres: "e_present (pde s' d') = e_present (pde s d')" for d'
    using w2(2) w1(5,8) pr(1) ud by (cases "d' = ?d") auto
  have walks: "walk s' v' = walk s v'" if q: "DIDX v' \<noteq> 1023" "\<not> same_page v v'" for v'
  proof (cases "e_present (pde s (DIDX v')) \<and> (DIDX v' \<noteq> 0 \<or> TIDX v' \<noteq> 0)")
    case True
    then have "pte s1 (DIDX v') (TIDX v') = pte s (DIDX v') (TIDX v')"
      using w1(9) [of "DIDX v'" "TIDX v'"] q unat_DIDX_lt ud by auto
    moreover have "pte s' (DIDX v') (TIDX v') = pte s1 (DIDX v') (TIDX v')"
      using True w2(8) [of "DIDX v'" "TIDX v'"] q unat_DIDX_lt pres w2(2)
      by (auto simp: same_page_def)
    ultimately show ?thesis using pres f(5) pt_okD(5) [OF w2(3)] by (simp add: walk_user)
  next
    case False
    then show ?thesis
      using pres f(4,5) pt_okD(4,5) [OF w2(3)] by (auto simp: walk_user)
  qed
  have frames: "frame s' h = frame s h" if h: "used s h" "h \<noteq> dir s" "h \<noteq> window s"
      "is_table s h \<longrightarrow> h = e_index (pde s ?d) \<and> \<not> e_write (pde s ?d) \<and> 1 < refs (pool s) (unat h)" for h
  proof -
    have "h \<noteq> n1"
    proof (cases "is_table s h")
      case True
      then have "\<not> used s n1" using unshared_moves [OF un1] h(4) by (auto simp: pde_def)
      then show ?thesis using h(1) by auto
    next
      case False
      then show ?thesis using n1 tb(3) h(1) by auto
    qed
    then show ?thesis
      using unshared_frames [OF un2 old [OF h(1)]] unshared_frames [OF un1 h(1,2,3)] w1(3,7) ud h(3) by simp
  qed
  have c: "cr3 s' = cr3 s" using w2(1) w1(1) by simp
  show ?thesis
    by (rule exI [of _ s'], rule exI [of _ n], intro conjI allI impI)
      (fact s' w2(3,4,6) c walk' wr fr fresh | use walks frames in \<open>auto simp: keeps_frames_def\<close>)+
qed

subsection \<open>Mapping a page\<close>

text \<open>The state after \<^verbatim>\<open>get_page\<close> handed out frame \<open>n\<close>.\<close>

definition taken :: "vm \<Rightarrow> u32 \<Rightarrow> vm" where
  "taken s n = s\<lparr>pool := (pool s)\<lparr>memory_map := (memory_map (pool s))[unat n := 1],
     free_pages := free_pages (pool s) - 1\<rparr>\<rparr>"

lemma taken_simps [simp]:
  "frame (taken s n) = frame s" "cr3 (taken s n) = cr3 s" "paging (taken s n) = paging s"
  "dir (taken s n) = dir s" "pde (taken s n) = pde s" "pte (taken s n) = pte s"
  "self_mapped (taken s n) = self_mapped s" "window (taken s n) = window s"
  "is_table (taken s n) h = is_table s h"
  by (simp_all add: taken_def dir_def pde_def pte_def self_mapped_def window_def is_table_def fun_eq_iff)

lemma get_page_taken:
  assumes "pool_ok (pool s)" and "pool_free (pool s) \<noteq> {}"
  obtains n where "vm_get_page s = Some (PAGE n, taken s n)" and "\<not> used s n" and "unat n < 2 ^ 20"
    and "IDX (PAGE n) = n" and "pool_ok (pool (taken s n))" and "used (taken s n) n"
    and "\<forall>h. used s h \<longrightarrow> used (taken s n) h"
    and "pool_free (pool (taken s n)) = pool_free (pool s) - {unat n}"
proof -
  obtain n where n: "vm_get_page s = Some (PAGE n,
      s\<lparr>pool := (pool s)\<lparr>memory_map := (memory_map (pool s))[unat n := 1], free_pages := free_pages (pool s) - 1\<rparr>\<rparr>)"
      "unat n \<in> pool_free (pool s)" "unat n < 2 ^ 20" "\<not> used s n" "IDX (PAGE n) = n"
      "pool_ok ((pool s)\<lparr>memory_map := (memory_map (pool s))[unat n := 1], free_pages := free_pages (pool s) - 1\<rparr>)"
    by (rule vm_get_page_free [OF assms])
  have l: "unat n < length (memory_map (pool s))"
    using n(2) assms(1) by (auto simp: pool_free_def pool_ok_def)
  have "used (taken s n) h" if "used s h" for h
    using that n(4) unfolding used_def taken_def
    by (cases "unat h = unat n") (auto simp: word_unat_eq_iff [symmetric])
  moreover have "pool_free (pool (taken s n)) = pool_free (pool s) - {unat n}"
    using n(2) assms(1) unfolding taken_def
    by (simp, subst pool_free_update) (auto simp: pool_ok_def pool_free_def)
  ultimately show thesis
    using n l by (intro that [of n]) (auto simp: taken_def used_def)
qed

text \<open>A new entry in a user table.\<close>

lemma map_leaf:
  assumes ok: "pt_ok s" "leaf_ok s" and free: "pool_free (pool s) \<noteq> {}"
    and d: "user_dir d" "e_present (pde s d)" and t: "unat t < 1024"
  obtains n s' where "vm_get_page s = Some (PAGE n, taken s n)"
    and "entry_init (taken s n) (table_of d + 4 * t) (IDX (PAGE n)) = Some s'"
    and "s' = put_word (taken s n) (e_index (pde s d)) t (entry_word n)"
    and "\<not> used s n" and "pt_ok s'" and "leaf_ok s'" and "pde s' = pde s" and "cr3 s' = cr3 s"
    and "pte s' d t = entry_word n" and "unat n < 2 ^ 20"
    and "\<And>d' u. unat d' < 1024 \<Longrightarrow> e_present (pde s d') \<Longrightarrow> d' \<noteq> 1023 \<Longrightarrow> d' \<noteq> d \<or> u \<noteq> t \<Longrightarrow> pte s' d' u = pte s d' u"
    and "\<And>h. used s h \<Longrightarrow> h \<noteq> e_index (pde s d) \<Longrightarrow> frame s' h = frame s h"
proof -
  note f = pt_okD [OF ok(1)] and ud = user_dir_lt [OF d(1)]
  let ?T = "e_index (pde s d)"
  obtain n where n: "vm_get_page s = Some (PAGE n, taken s n)" "\<not> used s n" "unat n < 2 ^ 20"
      "IDX (PAGE n) = n" "pool_ok (pool (taken s n))" "used (taken s n) n"
      "\<forall>h. used s h \<longrightarrow> used (taken s n) h" "pool_free (pool (taken s n)) = pool_free (pool s) - {unat n}"
    by (rule get_page_taken [OF f(2) free])
  define s' where "s' = put_word (taken s n) ?T t (entry_word n)"
  have Tdir: "?T \<noteq> dir s" using f(7) [of d] ud d(2) by auto
  have st: "entry_init (taken s n) (table_of d + 4 * t) (IDX (PAGE n)) = Some s'"
    using store_entry [of "taken s n" d t "entry_word n"] f(1) ud d(2) t n(4)
    by (simp add: entry_init_def s'_def)
  have pd: "pde s' = pde s" using Tdir by (auto simp: s'_def pde_def fun_eq_iff)
  have c: "cr3 s' = cr3 s" "dir s' = dir s" "paging s'" using f(5) by (simp_all add: s'_def)
  have new: "pte s' d t = entry_word n" using pd by (simp add: pte_def) (simp add: s'_def)
  have old: "pte s' d' u = pte s d' u"
    if "unat d' < 1024" "e_present (pde s d')" "d' \<noteq> d \<or> u \<noteq> t" for d' u
    using that f(8) [of d' d] ud d(2) pd by (auto simp: pte_def) (auto simp: s'_def)
  have us: "used s' h = used (taken s n) h" for h by (simp add: s'_def)
  have po: "pool_ok (pool s')" using n(5) by (simp add: s'_def)
  have "\<not> e_present (pte s' 0 0)" using old [of 0 0] f(3,4) ud by auto
  then have pt': "pt_ok s'"
    unfolding pt_ok_def self_mapped_def pd c(2)
    using f(1) c(3) po f(3) us n(7) f(6) f(8) by (auto simp: self_mapped_def)
  have tb: "is_table s' h = is_table s h" for h using pd by (simp add: is_table_def)
  have ntb: "\<not> is_table s n" using n(2) f(6) by (auto simp: is_table_def)
  have lf': "leaf_ok s'"
    unfolding leaf_ok_def
  proof (intro allI impI)
    fix d' v
    assume q: "user_dir d'" "unat v < 1024" "e_present (pde s' d')" "e_present (pte s' d' v)"
    show "used s' (e_index (pte s' d' v)) \<and> \<not> is_table s' (e_index (pte s' d' v))"
    proof (cases "d' = d \<and> v = t")
      case True
      then show ?thesis using new us n(3,6) tb ntb by simp
    next
      case False
      then have "pte s' d' v = pte s d' v"
        using old [of d' v] user_dir_lt [OF q(1)] q(3) pd by auto
      then show ?thesis using ok(2) q pd us n(7) tb by (simp add: leaf_ok_def)
    qed
  qed
  show thesis
    by (rule that [OF n(1) st s'_def n(2) pt' lf' pd c(1) new n(3)])
      (use old in \<open>auto simp: s'_def fun_eq_iff\<close>)
qed

text \<open>A new, empty table in the directory.\<close>

lemma new_table:
  assumes ok: "pt_ok s" "leaf_ok s" and free: "pool_free (pool s) \<noteq> {}"
    and d: "user_dir (DIDX v)" "\<not> e_present (pde s (DIDX v))"
  obtains n s' where "get_pte s v True = Some (table_of (DIDX v), s')" and "\<not> used s n"
    and "pt_ok s'" and "leaf_ok s'" and "cr3 s' = cr3 s" and "window s' = window s"
    and "pde s' = (pde s)(DIDX v := entry_word n)" and "pte s' (DIDX v) = (\<lambda>_. 0)"
    and "\<And>d' u. unat d' < 1024 \<Longrightarrow> e_present (pde s d') \<Longrightarrow> d' \<noteq> 1023 \<Longrightarrow> pte s' d' u = pte s d' u"
    and "\<And>h. used s h \<Longrightarrow> h \<noteq> dir s \<Longrightarrow> frame s' h = frame s h"
    and "\<And>h. used s h \<Longrightarrow> used s' h"
    and "pool_free (pool s') = pool_free (pool s) - {unat n}" and "unat n < 2 ^ 20"
proof -
  let ?d = "DIDX v"
  note f = pt_okD [OF ok(1)] and ud = user_dir_lt [OF d(1)]
  have pm: "e_present (pde s 1023)" "e_index (pde s 1023) = dir s" using f(1) by (auto simp: self_mapped_def)
  obtain n where n: "vm_get_page s = Some (PAGE n, taken s n)" "\<not> used s n" "unat n < 2 ^ 20"
      "IDX (PAGE n) = n" "pool_ok (pool (taken s n))" "used (taken s n) n"
      "\<forall>h. used s h \<longrightarrow> used (taken s n) h" "pool_free (pool (taken s n)) = pool_free (pool s) - {unat n}"
    by (rule get_page_taken [OF f(2) free])
  define s1 where "s1 = put_word (taken s n) (dir s) ?d (entry_word n)"
  have st: "entry_init (taken s n) (get_pde + 4 * ?d) n = Some s1"
    using store_entry [of "taken s n" 1023 ?d "entry_word n"] f(1) ud pm
    by (simp add: entry_init_def s1_def get_pde_table)
  have nd: "n \<noteq> dir s" using n(2) f(9) by auto
  have pd1: "pde s1 = (pde s)(?d := entry_word n)" by (auto simp: s1_def pde_def fun_eq_iff)
  have sm1: "self_mapped s1" using f(1) pd1 ud by (auto simp: self_mapped_def s1_def)
  have w: "walk s1 (table_of ?d) = Some n"
    using walk_entry [OF sm1, of ?d 0] ud pd1 n(3) by simp
  define s2 where "s2 = s1\<lparr>frame := (frame s1)(n := (\<lambda>_. 0))\<rparr>"
  have cl: "clear_page s1 (table_of ?d) = Some s2" using w by (simp add: clear_page_def s2_def)
  have get: "get_pte s v True = Some (table_of ?d, s2)"
    using load_pde [OF f(1) unat_DIDX_lt] d(2) n(1,4) st cl by (simp add: get_pte_def)
  have c: "cr3 s2 = cr3 s" "dir s2 = dir s" "paging s2" "pool s2 = pool (taken s n)"
    using f(5) by (simp_all add: s2_def s1_def dir_def)
  have fr: "frame s2 h = (if h = n then (\<lambda>_. 0) else if h = dir s then (frame s h)(?d := entry_word n) else frame s h)" for h
    using nd by (auto simp: s2_def s1_def fun_eq_iff)
  have pd: "pde s2 = (pde s)(?d := entry_word n)"
    using nd fr by (auto simp: pde_def c fun_eq_iff)
  have us: "used s2 h = used (taken s n) h" for h using c(4) by (simp add: used_def)
  have new: "pte s2 ?d = (\<lambda>_. 0)" using pd n(3) fr by (simp add: pte_def fun_eq_iff)
  have other: "pte s2 d' u = pte s d' u" if q: "unat d' < 1024" "e_present (pde s d')" "d' \<noteq> 1023" for d' u
  proof -
    have "d' \<noteq> ?d" using q(2) d(2) by auto
    moreover have "e_index (pde s d') \<noteq> n" "e_index (pde s d') \<noteq> dir s"
      using n(2) f(6) [OF q(1,2)] f(7) [OF q(1,2)] q(3) by auto
    ultimately show ?thesis using pd fr by (simp add: pte_def)
  qed
  have no: "e_index (pde s d') \<noteq> n" if "unat d' < 1024" "e_present (pde s d')" for d'
    using n(2) f(6) [OF that] by auto
  have inj: "d1 = d2" if q: "unat d1 < 1024" "unat d2 < 1024" "e_present (pde s2 d1)" "e_present (pde s2 d2)"
      "e_index (pde s2 d1) = e_index (pde s2 d2)" for d1 d2
    using q pd n(3) no [of d1] no [of d2] f(8) [of d1 d2] by (auto split: if_splits)
  have tu: "used s2 (e_index (pde s2 d'))" if "unat d' < 1024" "e_present (pde s2 d')" for d'
    using that pd us n(3,6,7) f(6) [of d'] by (cases "d' = ?d") simp_all
  have "self_mapped s2" using f(1) pd ud c by (auto simp: self_mapped_def)
  moreover have "e_present (pde s2 0)" using f(3) pd ud by simp
  moreover have "\<not> e_present (pte s2 0 0)" using other [of 0 0] f(3,4) by simp
  ultimately have pt: "pt_ok s2" unfolding pt_ok_def using n(5) c(4) tu inj by auto
  have lf: "leaf_ok s2"
    unfolding leaf_ok_def
  proof (intro allI impI)
    fix d' u
    assume q: "user_dir d'" "unat u < 1024" "e_present (pde s2 d')" "e_present (pte s2 d' u)"
    have "d' \<noteq> ?d" using q(4) new by (auto simp: e_present_def)
    then have pr: "e_present (pde s d')" using q(3) pd by simp
    then have e: "pte s2 d' u = pte s d' u" using other [of d' u] user_dir_lt [OF q(1)] by simp
    then have l: "used s (e_index (pte s d' u))" "\<not> is_table s (e_index (pte s d' u))"
      using ok(2) q pr by (auto simp: leaf_ok_def)
    then have "\<not> is_table s2 (e_index (pte s d' u))"
      using n(2,3) pd by (auto simp: is_table_def split: if_splits)
    then show "used s2 (e_index (pte s2 d' u)) \<and> \<not> is_table s2 (e_index (pte s2 d' u))"
      using e l(1) us n(7) by simp
  qed
  have win: "window s2 = window s" using pd ud by (simp add: window_def)
  show thesis
    by (rule that [OF get n(2) pt lf c(1) win pd new other])
      (use fr us n c(4) in auto)
qed

text \<open>Unsharing the table and then entering a fresh page in it.\<close>

definition keeps_space :: "vm \<Rightarrow> vm \<Rightarrow> u32 \<Rightarrow> u32 \<Rightarrow> bool" where
  "keeps_space s s' d t \<longleftrightarrow>
     (\<forall>d'. unat d' < 1024 \<longrightarrow> e_present (pde s d') \<longrightarrow> e_present (pde s' d')) \<and>
     (\<forall>d'. d' \<noteq> d \<longrightarrow> pde s' d' = pde s d') \<and>
     (\<forall>d' u. unat d' < 1024 \<longrightarrow> d' \<noteq> 1023 \<longrightarrow> e_present (pde s d') \<longrightarrow> d' \<noteq> 0 \<or> u \<noteq> 0 \<longrightarrow>
        d' \<noteq> d \<or> u \<noteq> t \<longrightarrow> pte s' d' u = pte s d' u)"

lemma link_stage:
  assumes ok: "pt_ok s" "leaf_ok s" and free: "2 \<le> card (pool_free (pool s))"
    and d: "user_dir d" "e_present (pde s d)" and t: "unat t < 1024"
  shows "\<exists>s1 n s'. copy_on_write s (table_of d + 4 * t) 2 = Some s1 \<and>
    vm_get_page s1 = Some (PAGE n, taken s1 n) \<and>
    entry_init (taken s1 n) (table_of d + 4 * t) (IDX (PAGE n)) = Some s' \<and>
    pt_ok s' \<and> leaf_ok s' \<and> cr3 s' = cr3 s \<and> \<not> used s n \<and> pte s' d t = entry_word n \<and>
    unat n < 2 ^ 20 \<and> e_present (pde s' d) \<and> e_write (pde s' d) \<and>
    keeps_space s s' d t \<and> keeps_frames s s' d"
proof -
  note f = pt_okD [OF ok(1)]
  have d0: "unat d < 1024" "d \<noteq> 0" "d \<noteq> 1023" using user_dir_lt [OF d(1)] by auto
  have fin: "pool_free (pool s) \<noteq> {}" using free by auto
  obtain n1 s1 where s1: "copy_on_write s (table_of d + 4 * t) 2 = Some s1"
      and un: "unshared s (dir s) d n1 s1"
    using cow_table [OF ok(1) fin d0 d(2) t] by blast
  note w = unshared_table [OF ok(1) d0 d(2) un] and ok1 = unshared_table_ok [OF ok d0 d(2) un]
  have "card (pool_free (pool s) - {unat n1}) \<noteq> 0"
    using free by (simp add: card_Diff_singleton_if)
  then have free1: "pool_free (pool s1) \<noteq> {}" using w(12) by (metis card.empty)
  obtain n s' where m: "vm_get_page s1 = Some (PAGE n, taken s1 n)"
      "entry_init (taken s1 n) (table_of d + 4 * t) (IDX (PAGE n)) = Some s'"
      "\<not> used s1 n" "pt_ok s'" "leaf_ok s'" "pde s' = pde s1" "cr3 s' = cr3 s1"
      "pte s' d t = entry_word n" "unat n < 2 ^ 20"
      and pt: "\<And>d' u. unat d' < 1024 \<Longrightarrow> e_present (pde s1 d') \<Longrightarrow> d' \<noteq> 1023 \<Longrightarrow> d' \<noteq> d \<or> u \<noteq> t \<Longrightarrow> pte s' d' u = pte s1 d' u"
      and fr: "\<And>h. used s1 h \<Longrightarrow> h \<noteq> e_index (pde s1 d) \<Longrightarrow> frame s' h = frame s1 h"
    by (rule map_leaf [OF ok1 free1 d(1) w(5) t]) blast
  have nu: "\<not> used s n" using m(3) unshared_used [OF un] by blast
  have pr: "e_present (pde s1 d')" if "e_present (pde s d')" for d'
    using that w(5,8) by (cases "d' = d") auto
  have sp: "keeps_space s s' d t"
    unfolding keeps_space_def m(6)
  proof (intro conjI allI impI)
    fix d' u
    assume q: "unat d' < 1024" "d' \<noteq> 1023" "e_present (pde s d')" "d' \<noteq> 0 \<or> u \<noteq> 0" "d' \<noteq> d \<or> u \<noteq> t"
    show "pte s' d' u = pte s d' u"
      using pt [OF q(1) pr [OF q(3)] q(2,5)] w(9) [OF q(1-4)] by simp
  qed (use pr w(8) in auto)
  have "frame s' h = frame s h" if h: "used s h" "h \<noteq> dir s" "h \<noteq> window s"
      "is_table s h \<longrightarrow> h = e_index (pde s d) \<and> \<not> e_write (pde s d) \<and> 1 < refs (pool s) (unat h)" for h
  proof -
    have "h \<noteq> n1"
    proof (cases "is_table s h")
      case True
      then have "\<not> used s n1" using unshared_moves [OF un] h(4) by (auto simp: pde_def)
      then show ?thesis using h(1) by auto
    next
      case False
      then show ?thesis using w(11) tables_of_space(3) [OF ok(1) d0(1) d(2)] h(1) by auto
    qed
    then show ?thesis
      using fr [OF unshared_used [OF un h(1)]] unshared_frames [OF un h(1-3)] w(7) by simp
  qed
  then have kf: "keeps_frames s s' d" unfolding keeps_frames_def by blast
  show ?thesis
    using s1 m w(1,5,6) nu sp kf by auto
qed

lemma walk_kept:
  assumes ok: "pt_ok s" "pt_ok s'" and c: "cr3 s' = cr3 s" and k: "keeps_space s s' (DIDX v) (TIDX v)"
    and q: "DIDX v' \<noteq> 1023" "\<not> same_page v v'"
    and new: "\<not> e_present (pde s (DIDX v)) \<Longrightarrow> e_present (pde s' (DIDX v)) \<Longrightarrow> DIDX v' = DIDX v \<Longrightarrow>
      \<not> e_present (pte s' (DIDX v') (TIDX v'))"
  shows "walk s' v' = walk s v'"
proof -
  note f = pt_okD [OF ok(1)] and f' = pt_okD [OF ok(2)]
  show ?thesis
  proof (cases "e_present (pde s (DIDX v'))")
    case True
    then have p': "e_present (pde s' (DIDX v'))" using k unat_DIDX_lt by (auto simp: keeps_space_def)
    show ?thesis
    proof (cases "DIDX v' = 0 \<and> TIDX v' = 0")
      case True
      then show ?thesis using f(4,5) f'(4,5) by (simp add: walk_user)
    next
      case False
      then have "pte s' (DIDX v') (TIDX v') = pte s (DIDX v') (TIDX v')"
        using k q \<open>e_present (pde s (DIDX v'))\<close> unat_DIDX_lt [of v']
        by (auto simp: keeps_space_def same_page_def)
      then show ?thesis using True p' f(5) f'(5) by (simp add: walk_user)
    qed
  next
    case False
    then have "\<not> (e_present (pde s' (DIDX v')) \<and> e_present (pte s' (DIDX v') (TIDX v')))"
      using k new by (cases "DIDX v' = DIDX v") (auto simp: keeps_space_def)
    then show ?thesis using False f(5) f'(5) by (auto simp: walk_user)
  qed
qed

lemma link_page_present: "pt_ok s \<Longrightarrow> v AND 0xfff = 0 \<Longrightarrow> walk s v = Some g \<Longrightarrow> link_page s v = Some s"
  using pt_okD(1,5) [of s] get_entry_present [of s v True]
    load_entry [of s "DIDX v" "TIDX v", OF _ unat_DIDX_lt unat_TIDX_lt]
  by (auto simp: link_page_def ASSERT_PAGE_def walk_user split: if_splits)

lemma link_page_absent:
  assumes ok: "pt_ok s" "leaf_ok s" and free: "3 \<le> card (pool_free (pool s))"
    and v: "user_dir (DIDX v)" "v AND 0xfff = 0" "walk s v = None"
  shows "\<exists>s' n. link_page s v = Some s' \<and> pt_ok s' \<and> leaf_ok s' \<and> cr3 s' = cr3 s \<and>
    walk s' v = Some n \<and> \<not> used s n \<and> e_write (pde s' (DIDX v)) \<and> e_write (pte s' (DIDX v) (TIDX v)) \<and>
    (\<forall>v'. DIDX v' \<noteq> 1023 \<longrightarrow> \<not> same_page v v' \<longrightarrow> walk s' v' = walk s v') \<and>
    keeps_frames s s' (DIDX v)"
proof -
  let ?d = "DIDX v" and ?t = "TIDX v"
  let ?en = "table_of ?d + 4 * ?t"
  note f = pt_okD [OF ok(1)] and ud = user_dir_lt [OF v(1)]
  show ?thesis
  proof (cases "e_present (pde s ?d)")
    case True
    have ab: "\<not> e_present (pte s ?d ?t)" using v(3) True f(5) by (simp add: walk_user split: if_splits)
    have "2 \<le> card (pool_free (pool s))" using free by simp
    then obtain s1 n s' where l: "copy_on_write s ?en 2 = Some s1"
        "vm_get_page s1 = Some (PAGE n, taken s1 n)" "entry_init (taken s1 n) ?en (IDX (PAGE n)) = Some s'"
        "pt_ok s'" "leaf_ok s'" "cr3 s' = cr3 s" "\<not> used s n" "pte s' ?d ?t = entry_word n"
        "unat n < 2 ^ 20" "e_present (pde s' ?d)" "e_write (pde s' ?d)" "keeps_space s s' ?d ?t"
        "keeps_frames s s' ?d"
      using link_stage [OF ok _ v(1) True unat_TIDX_lt] by blast
    have "link_page s v = Some s'"
      using v(2) get_entry_present [OF f(1) True] load_entry [OF f(1) unat_DIDX_lt unat_TIDX_lt True] ab l(1-3)
      by (simp add: link_page_def ASSERT_PAGE_def del: copy_on_write.simps)
    moreover have "walk s' v = Some n"
      using pt_okD(5) [OF l(4)] l(8-10) by (simp add: walk_user)
    moreover have "walk s' v' = walk s v'" if "DIDX v' \<noteq> 1023" "\<not> same_page v v'" for v'
      by (rule walk_kept [OF ok(1) l(4,6,12) that]) (use True in simp)
    ultimately show ?thesis using l by auto
  next
    case False
    have fin: "pool_free (pool s) \<noteq> {}" using free by auto
    obtain n0 s0 where t0: "get_pte s v True = Some (table_of ?d, s0)" "\<not> used s n0" "pt_ok s0" "leaf_ok s0"
        "cr3 s0 = cr3 s" "window s0 = window s" "pde s0 = (pde s)(?d := entry_word n0)" "pte s0 ?d = (\<lambda>_. 0)"
        and pt0: "\<And>d' u. unat d' < 1024 \<Longrightarrow> e_present (pde s d') \<Longrightarrow> d' \<noteq> 1023 \<Longrightarrow> pte s0 d' u = pte s d' u"
        and fr0: "\<And>h. used s h \<Longrightarrow> h \<noteq> dir s \<Longrightarrow> frame s0 h = frame s h"
        and us0: "\<And>h. used s h \<Longrightarrow> used s0 h"
        and fr: "pool_free (pool s0) = pool_free (pool s) - {unat n0}" and n0: "unat n0 < 2 ^ 20"
      by (rule new_table [OF ok fin v(1) False]) blast
    note f0 = pt_okD [OF t0(3)]
    have pr: "e_present (pde s0 ?d)" using t0(7) by simp
    have "card (pool_free (pool s)) - 1 \<le> card (pool_free (pool s0))"
      unfolding fr by (simp add: card_Diff_singleton_if)
    then have "2 \<le> card (pool_free (pool s0))" using free by linarith
    then obtain s1 n s' where l: "copy_on_write s0 ?en 2 = Some s1"
        "vm_get_page s1 = Some (PAGE n, taken s1 n)" "entry_init (taken s1 n) ?en (IDX (PAGE n)) = Some s'"
        "pt_ok s'" "leaf_ok s'" "cr3 s' = cr3 s0" "\<not> used s0 n" "pte s' ?d ?t = entry_word n"
        "unat n < 2 ^ 20" "e_present (pde s' ?d)" "e_write (pde s' ?d)" "keeps_space s0 s' ?d ?t"
        "keeps_frames s0 s' ?d"
      using link_stage [OF t0(3,4) _ v(1) pr unat_TIDX_lt] by blast
    have ld: "load s0 ?en = Some 0"
      using load_entry [OF f0(1) unat_DIDX_lt unat_TIDX_lt pr] t0(8) by simp
    have z: "\<not> e_present 0" by (simp add: e_present_def)
    have "link_page s v = Some s'"
      using v(2) t0(1) ld z l(1-3)
      by (simp add: link_page_def ASSERT_PAGE_def get_entry_def del: copy_on_write.simps)
    moreover have "walk s' v = Some n"
      using pt_okD(5) [OF l(4)] l(8-10) by (simp add: walk_user)
    moreover have "walk s' v' = walk s v'" if q: "DIDX v' \<noteq> 1023" "\<not> same_page v v'" for v'
    proof -
      have "walk s' v' = walk s0 v'"
        by (rule walk_kept [OF t0(3) l(4,6,12) q]) (use pr in simp)
      also have "walk s0 v' = walk s v'"
        using f(5) f0(5) t0(7,8) False z pt0 [OF unat_DIDX_lt _ q(1)]
        by (cases "DIDX v' = ?d") (auto simp: walk_user)
      finally show ?thesis .
    qed
    moreover have "keeps_frames s s' ?d"
      unfolding keeps_frames_def
    proof (intro allI impI)
      fix h
      assume h: "used s h \<and> h \<noteq> dir s \<and> h \<noteq> window s \<and> (is_table s h \<longrightarrow> e_present (pde s ?d) \<and>
        h = e_index (pde s ?d) \<and> \<not> e_write (pde s ?d) \<and> 1 < refs (pool s) (unat h))"
      then have nt: "\<not> is_table s h" using False by auto
      have "\<not> is_table s0 h"
        using nt h t0(2,7) n0 by (auto simp: is_table_def split: if_splits)
      moreover have "dir s0 = dir s" using t0(5) by (simp add: dir_def)
      ultimately have "frame s' h = frame s0 h" using l(13) h us0 t0(6) by (auto simp: keeps_frames_def)
      then show "frame s' h = frame s h" using fr0 h by simp
    qed
    ultimately show ?thesis using l t0(5) us0 by auto
  qed
qed

subsection \<open>Access checks\<close>

definition allows :: "vm \<Rightarrow> bool \<Rightarrow> bool \<Rightarrow> u32 \<Rightarrow> bool" where
  "allows s wr user a \<longleftrightarrow> e_present (pde s (DIDX a)) \<and> e_present (pte s (DIDX a) (TIDX a)) \<and>
     (wr \<longrightarrow> \<not> e_readonly (pte s (DIDX a) (TIDX a))) \<and> (user \<longrightarrow> e_user (pte s (DIDX a) (TIDX a)))"

lemma allows_page: "allows s wr user (PAGE (IDX a)) = allows s wr user a"
  by (simp add: allows_def page_of_idx)

lemma memory_access_loop_spec:
  assumes sm: "self_mapped s" and k: "4096 * k < 2 ^ 32" and l: "unat lst \<le> 2 ^ 32 - 4096"
  shows "memory_access_loop s (PAGE (of_nat k)) lst wr user =
    Some (\<forall>j. k \<le> j \<and> 4096 * j < unat lst \<longrightarrow> allows s wr user (PAGE (of_nat j)))"
  using k
proof (induction "unat lst - 4096 * k" arbitrary: k rule: less_induct)
  case less
  let ?p = "PAGE (of_nat k)"
  have k20: "k < 2 ^ 20" using less.prems by simp
  then have u: "unat ?p = 4096 * k" by (simp add: unat_PAGE unat_of_nat_small)
  show ?case
  proof (cases "4096 * k < unat lst")
    case False
    then have nl: "\<not> ?p < lst" by (simp add: word_less_nat_alt u)
    have "\<forall>j. k \<le> j \<and> 4096 * j < unat lst \<longrightarrow> allows s wr user (PAGE (of_nat j))" using False by auto
    then show ?thesis using nl by (subst memory_access_loop.simps) simp
  next
    case True
    then have lt: "?p < lst" by (simp add: word_less_nat_alt u)
    have ks: "4096 * Suc k < 2 ^ 32" using True l by simp
    have "unat (?p + PAGE_SIZE) = 4096 * Suc k"
      using ks by (subst unat_plus_small) (auto simp: PAGE_SIZE_def u)
    moreover have "unat (PAGE (of_nat (Suc k))) = 4096 * Suc k"
      using ks by (subst unat_PAGE) (auto simp: unat_of_nat_small simp del: of_nat_Suc)
    ultimately have nxt: "?p + PAGE_SIZE = PAGE (of_nat (Suc k))"
      by (simp only: word_unat_eq_iff)
    have ih: "memory_access_loop s (PAGE (of_nat (Suc k))) lst wr user =
        Some (\<forall>j. Suc k \<le> j \<and> 4096 * j < unat lst \<longrightarrow> allows s wr user (PAGE (of_nat j)))"
      by (rule less.hyps) (use True ks in auto)
    have split: "(\<forall>j. k \<le> j \<and> 4096 * j < unat lst \<longrightarrow> allows s wr user (PAGE (of_nat j))) \<longleftrightarrow>
        allows s wr user ?p \<and> (\<forall>j. Suc k \<le> j \<and> 4096 * j < unat lst \<longrightarrow> allows s wr user (PAGE (of_nat j)))"
      using True by (metis Suc_leD le_antisym not_less_eq_eq order_refl)
    have ld: "load s (get_pde + 4 * DIDX ?p) = Some (pde s (DIDX ?p))"
      by (rule load_pde [OF sm unat_DIDX_lt])
    have lt2: "load s (table_of (DIDX ?p) + 4 * TIDX ?p) = Some (pte s (DIDX ?p) (TIDX ?p))"
      if "e_present (pde s (DIDX ?p))"
      by (rule load_entry [OF sm unat_DIDX_lt unat_TIDX_lt that])
    show ?thesis
      unfolding split using lt ld lt2 ih nxt
      by (subst memory_access_loop.simps) (auto simp: allows_def simp del: of_nat_Suc)
  qed
qed

lemma memory_access_spec:
  assumes sm: "self_mapped s" and sz: "0 < sz" and l: "unat v + unat sz \<le> 2 ^ 32 - 4096"
  shows "memory_access s v sz wr user = Some (\<forall>a. v \<le> a \<and> a < v + sz \<longrightarrow> allows s wr user a)"
proof -
  define k where "k = unat v div 4096"
  have u: "unat (v + sz) = unat v + unat sz" using l by (intro unat_plus_small) simp
  have szp: "0 < unat sz" using sz by (simp add: word_less_nat_alt)
  have ik: "IDX v = of_nat k" by (simp add: word_unat_eq_iff unat_IDX k_def unat_of_nat_small less_imp_diff_less
        le_less_trans [OF div_le_dividend unat_u32_bound])
  have kk: "4096 * k \<le> unat v" "unat v < 4096 * Suc k" by (auto simp: k_def)
  have acc: "memory_access s v sz wr user =
      Some (\<forall>j. k \<le> j \<and> 4096 * j < unat (v + sz) \<longrightarrow> allows s wr user (PAGE (of_nat j)))"
    unfolding memory_access_def ik
    by (rule memory_access_loop_spec [OF sm]) (use kk unat_u32_bound [of v] u l in auto)
  have "(\<forall>j. k \<le> j \<and> 4096 * j < unat (v + sz) \<longrightarrow> allows s wr user (PAGE (of_nat j))) \<longleftrightarrow>
      (\<forall>a. v \<le> a \<and> a < v + sz \<longrightarrow> allows s wr user a)" (is "?L = ?R")
  proof
    assume L: ?L
    show ?R
    proof (intro allI impI)
      fix a assume a: "v \<le> a \<and> a < v + sz"
      then have na: "unat v \<le> unat a" "unat a < unat v + unat sz"
        by (auto simp: word_le_nat_alt word_less_nat_alt u)
      define j where "j = unat a div 4096"
      have "k \<le> j" using na(1) by (simp add: k_def j_def div_le_mono)
      moreover have "4096 * j < unat (v + sz)" using na(2) u by (auto simp: j_def)
      moreover have "IDX a = of_nat j"
        by (simp add: word_unat_eq_iff unat_IDX j_def unat_of_nat_small
            le_less_trans [OF div_le_dividend unat_u32_bound])
      ultimately show "allows s wr user a" using L allows_page [of s wr user a] by simp
    qed
  next
    assume R: ?R
    show ?L
    proof (intro allI impI)
      fix j assume j: "k \<le> j \<and> 4096 * j < unat (v + sz)"
      define a where "a = (if j = k then v else PAGE (of_nat j))"
      have j20: "j < 2 ^ 20" using j unat_u32_bound [of "v + sz"] by simp
      then have uj: "unat (PAGE (of_nat j)) = 4096 * j" by (simp add: unat_PAGE unat_of_nat_small)
      have "v \<le> a \<and> a < v + sz"
        using j kk szp u by (auto simp: a_def word_le_nat_alt word_less_nat_alt uj)
      then have "allows s wr user a" using R by blast
      then show "allows s wr user (PAGE (of_nat j))"
        using allows_page [of s wr user v] ik by (auto simp: a_def split: if_splits)
    qed
  qed
  then show ?thesis using acc by simp
qed

subsection \<open>Properties\<close>

lemma user_range:
  assumes "\<not> (v < USER_EXEC_ADDR \<or> v \<ge> USER_STACK_TOP)"
  shows "user_dir (DIDX v)"
proof -
  have "16777216 \<le> unat v" "unat v < 268435456"
    using assms by (auto simp: USER_EXEC_ADDR_def KERNEL_MEMORY_SIZE_def USER_STACK_TOP_def
        word_less_nat_alt word_le_nat_alt)
  then have "4 \<le> unat v div 4194304" "unat v div 4194304 < 64"
    using div_le_mono [of 16777216 "unat v" 4194304] by (simp_all add: less_mult_imp_div_less)
  then show ?thesis by (simp add: user_dir_def unat_DIDX)
qed

text \<open>
  C1. Copy on write, for a fault on a present user page. From a well-formed address space with two
  free frames (one for the table, one for the page), a write fault on a page that is neither shared
  memory nor read-only is resolved. Afterwards the address space is well formed, the page is
  writable at both levels and holds what it held before; if it was write-protected with further
  references it now is a fresh page; every other page of the space translates as before; and no
  page that others may see is changed: no data page in use and no table that was shared. In all
  other cases, a read fault on a present page or a page marked shared or read-only, the assertions
  of \<^verbatim>\<open>page_fault\<close> halt the kernel.
\<close>

theorem page_fault_copies:
  assumes "pt_ok s" and "leaf_ok s" and "2 \<le> card (pool_free (pool s))"
    and "\<not> (v < USER_EXEC_ADDR \<or> v \<ge> USER_STACK_TOP)" and "walk s v = Some g"
    and "bit error 0"
  shows "if \<not> bit error 1 \<or> e_shared (pte s (DIDX v) (TIDX v)) \<or> e_readonly (pte s (DIDX v) (TIDX v))
    then page_fault s task 0xe v error = None
    else \<exists>s' n. page_fault s task 0xe v error = Some (Fault_return s') \<and> pt_ok s' \<and> leaf_ok s' \<and>
    cr3 s' = cr3 s \<and> walk s' v = Some n \<and> e_write (pde s' (DIDX v)) \<and>
    e_write (pte s' (DIDX v) (TIDX v)) \<and> frame s' n = frame s g \<and>
    (if \<not> e_write (pte s (DIDX v) (TIDX v)) \<and> 1 < refs (pool s) (unat g) then \<not> used s n
     else n = g \<or> \<not> used s n) \<and>
    (\<forall>v'. DIDX v' \<noteq> 1023 \<longrightarrow> \<not> same_page v v' \<longrightarrow> walk s' v' = walk s v') \<and>
    keeps_frames s s' (DIDX v)"
proof -
  note f = pt_okD [OF assms(1)]
  have pr: "e_present (pde s (DIDX v))" "e_present (pte s (DIDX v) (TIDX v))"
    using assms(5) f(5) by (auto simp: walk_user split: if_splits)
  note entry = get_entry_present [OF f(1) pr(1)] load_entry [OF f(1) unat_DIDX_lt unat_TIDX_lt pr(1)]
  obtain s' n where r: "copy_on_write s v 3 = Some s'" "pt_ok s'" "leaf_ok s'" "cr3 s' = cr3 s"
      "walk s' v = Some n" "e_write (pde s' (DIDX v))" "e_write (pte s' (DIDX v) (TIDX v))"
      "frame s' n = frame s g"
      "if \<not> e_write (pte s (DIDX v) (TIDX v)) \<and> 1 < refs (pool s) (unat g) then \<not> used s n
       else n = g \<or> \<not> used s n"
      "\<forall>v'. DIDX v' \<noteq> 1023 \<longrightarrow> \<not> same_page v v' \<longrightarrow> walk s' v' = walk s v'" "keeps_frames s s' (DIDX v)"
    using cow_fault [OF assms(1-3) user_range [OF assms(4)] assms(5)] by blast
  show ?thesis
  proof (cases "\<not> bit error 1 \<or> e_shared (pte s (DIDX v) (TIDX v)) \<or> e_readonly (pte s (DIDX v) (TIDX v))")
    case True
    then have "page_fault s task 0xe v error = None"
      using assms(4,6) entry pr(2) by (auto simp: page_fault_def simp del: copy_on_write.simps)
    with True show ?thesis by simp
  next
    case False
    then have "page_fault s task 0xe v error = Some (Fault_return s')"
      using assms(4,6) entry pr(2) r(1) by (auto simp: page_fault_def simp del: copy_on_write.simps)
    with False r(2-) show ?thesis by auto
  qed
qed

text \<open>
  C2. Demand paging. A fault on an absent page below the break or in the stack area is resolved
  whenever three pages are free: the address then translates to a page that was not in use,
  writable at both levels, the space stays well formed, every other page translates as before and
  no page of anyone else is changed.
\<close>

theorem page_fault_links:
  assumes "pt_ok s" and "leaf_ok s" and "3 \<le> card (pool_free (pool s))"
    and "\<not> (v < USER_EXEC_ADDR \<or> v \<ge> USER_STACK_TOP)" and "walk s v = None"
    and "\<not> bit error 0" and "v < t_brk task \<or> v \<ge> USER_STACK_BOTTOM"
  shows "\<exists>s' n. page_fault s task 0xe v error = Some (Fault_return s') \<and> pt_ok s' \<and> leaf_ok s' \<and>
    cr3 s' = cr3 s \<and> walk s' v = Some n \<and> \<not> used s n \<and> e_write (pde s' (DIDX v)) \<and>
    e_write (pte s' (DIDX v) (TIDX v)) \<and>
    (\<forall>v'. DIDX v' \<noteq> 1023 \<longrightarrow> \<not> same_page v v' \<longrightarrow> walk s' v' = walk s v') \<and>
    keeps_frames s s' (DIDX v)"
proof -
  have ud: "user_dir (DIDX (PAGE (IDX v)))"
    using user_range [OF assms(4)] by (simp add: page_of_idx)
  have sp: "same_page (PAGE (IDX v)) v' = same_page v v'" for v'
    by (simp add: same_page_def page_of_idx)
  obtain s' n where r: "link_page s (PAGE (IDX v)) = Some s'" "pt_ok s'" "leaf_ok s'" "cr3 s' = cr3 s"
      "walk s' v = Some n" "\<not> used s n" "e_write (pde s' (DIDX v))" "e_write (pte s' (DIDX v) (TIDX v))"
      "\<forall>v'. DIDX v' \<noteq> 1023 \<longrightarrow> \<not> same_page v v' \<longrightarrow> walk s' v' = walk s v'" "keeps_frames s s' (DIDX v)"
    using link_page_absent [OF assms(1-3) ud] assms(5) by (simp add: page_of_idx sp) blast
  have "page_fault s task 0xe v error = Some (Fault_return s')"
    using assms(4,6,7) r(1) by (auto simp: page_fault_def)
  with r(2-) show ?thesis by blast
qed

text \<open>
  The end of the range is computed in 32 bits: a range that ends at the top of memory wraps to an
  empty loop and is accepted whatever is mapped there.
\<close>

lemma memory_access_wraps: "memory_access s 0xFFFFF000 0x1000 wr user = Some True"
proof -
  have "(0xFFFFF000 :: u32) + 0x1000 = 0" by (simp add: word_unat_eq_iff)
  then show ?thesis by (simp only: memory_access_def) (simp add: memory_access_loop.simps)
qed

text \<open>
  C6. The check of user buffers. For a non-empty range that does not reach the last page,
  \<^verbatim>\<open>memory_access\<close> returns true exactly when every address of the range is mapped and allows
  the access asked for. The bound on the range is needed: the last page, whatever is mapped
  there, is always accepted.
\<close>

theorem memory_access_exact:
  assumes "self_mapped s" and "0 < sz" and "unat v + unat sz \<le> 2 ^ 32 - 4096"
  shows "memory_access s v sz wr user = Some (\<forall>a. v \<le> a \<and> a < v + sz \<longrightarrow> allows s wr user a) \<and>
    memory_access s 0xFFFFF000 0x1000 wr user = Some True"
  using memory_access_spec [OF assms] memory_access_wraps by blast

text \<open>
  An address space with one user table, number 8, which another process shares; page 0 of it maps
  frame 9, shared as well. Frames 10 to 15 are free.
\<close>

definition sample_vm :: vm where
  "sample_vm = \<lparr>pool = \<lparr>memory_base = MEMORY_BASE, memory_size = 0, total_pages = 16, free_pages = 6,
       start_page = 8, memory_map_pages = 1, memory_map = [1, 1, 1, 1, 1, 1, 1, 1, 2, 2, 0, 0, 0, 0, 0, 0],
       kernel_map = sample_map\<rparr>,
     frame = (\<lambda>f t. if f = 1 then (if t = 0 then 0x2007 else if t = 4 then 0x8005 else if t = 1023 then 0x1007 else 0)
       else if f = 8 then (if t = 0 then 0x9005 else 0) else if f = 9 then t + 5 else 0),
     cr3 = 0x1000, paging = True, vmaps = (\<lambda>_. sample_map)\<rparr>"

lemma sample_pde:
  "pde sample_vm d = (if d = 0 then 0x2007 else if d = 4 then 0x8005 else if d = 1023 then 0x1007 else 0)"
  by (simp add: pde_def dir_def sample_vm_def IDX_def)

lemma sample_vm_free: "pool_free (pool sample_vm) = {10, 11, 12, 13, 14, 15}"
proof -
  have "pool_free (pool sample_vm) = set (filter (\<lambda>i. memory_map (pool sample_vm) ! i = 0) [8..<16])"
    by (simp only: pool_free_def set_filter) (auto simp: sample_vm_def)
  also have "\<dots> = {10, 11, 12, 13, 14, 15}" by (simp add: sample_vm_def upt_rec)
  finally show ?thesis .
qed

lemma sample_pte: "pte sample_vm 4 t = (if t = 0 then 0x9005 else 0)" "pte sample_vm 0 t = 0"
  by (simp_all add: pte_def sample_pde) (simp_all add: sample_vm_def e_index_def)

lemma sample_ok: "pt_ok sample_vm" "leaf_ok sample_vm"
proof -
  have p0: "\<not> e_present 0" by (simp add: e_present_def)
  have pool: "pool_ok (pool sample_vm)"
    by (simp add: pool_ok_def sample_vm_free) (simp add: sample_vm_def)
  have dirs: "d = 0 \<or> d = 4 \<or> d = 1023" if "e_present (pde sample_vm d)" for d
    using that p0 by (auto simp: sample_pde split: if_splits)
  have ix: "e_index (pde sample_vm 0) = 2" "e_index (pde sample_vm 4) = 8" "e_index (pde sample_vm 1023) = 1"
    by (simp_all add: sample_pde e_index_def)
  have us: "used sample_vm 1" "used sample_vm 2" "used sample_vm 8" "used sample_vm 9"
    by (simp_all add: used_def sample_vm_def)
  have sm: "self_mapped sample_vm"
  proof -
    have "dir sample_vm = 1" "paging sample_vm" by (simp_all add: dir_def sample_vm_def IDX_def)
    moreover have "e_present (pde sample_vm 1023)" "e_write (pde sample_vm 1023)"
      by (simp_all add: sample_pde e_present_def e_write_def bit_iff_odd)
    ultimately show ?thesis using ix by (simp add: self_mapped_def)
  qed
  have pr: "e_present (pde sample_vm 0)" by (simp add: sample_pde e_present_def)
  show "pt_ok sample_vm"
    unfolding pt_ok_def
    using pool sm pr p0 us by (auto simp: sample_pte dest!: dirs simp: ix)
  show "leaf_ok sample_vm"
    unfolding leaf_ok_def
  proof (intro allI impI)
    fix d t
    assume q: "user_dir d" "unat t < 1024" "e_present (pde sample_vm d)" "e_present (pte sample_vm d t)"
    then have "d = 4" using dirs [OF q(3)] by (auto simp: user_dir_def)
    then have "e_index (pte sample_vm d t) = 9" using q(4) p0 by (auto simp: sample_pte e_index_def split: if_splits)
    moreover have "\<not> is_table sample_vm 9" by (auto simp: is_table_def ix dest!: dirs)
    ultimately show "used sample_vm (e_index (pte sample_vm d t)) \<and> \<not> is_table sample_vm (e_index (pte sample_vm d t))"
      using us by simp
  qed
qed

definition sample_task :: task_t where
  "sample_task = \<lparr>t_stack = 0, t_state = TASK_RUNNING, t_priority = 5, t_ticks = 5, t_jiffies = 0,
     t_name = [], t_uid = 1000, t_gid = 0, t_pid = 1, t_ppid = 0, t_pgid = 0, t_sid = 0, t_tty = 0,
     t_pde = 0x1000, t_vmap = Some 0x9000, t_text = USER_EXEC_ADDR, t_data = USER_EXEC_ADDR,
     t_end = USER_EXEC_ADDR, t_brk = 0x1010000, t_status = 0, t_waitpid = 0, t_pwd = 0, t_ipwd = 0,
     t_iroot = 0, t_iexec = 0, t_umask = 18, t_files = replicate 16 0, t_signal = 0, t_blocked = 0,
     t_alarm = 0, t_timer = 0,
     t_actions = replicate 31 \<lparr>sa_handler = 0, sa_mask = 0, sa_flags = 0, sa_restorer = 0\<rparr>,
     t_fpu = 0, t_flags = 0, t_magic = ONIX_MAGIC\<rparr>"

lemma sample_idx: "DIDX 0x1000000 = 4" "TIDX 0x1000000 = 0" "DIDX 0x1001000 = 4" "TIDX 0x1001000 = 1"
  by (simp_all add: word_unat_eq_iff unat_DIDX unat_TIDX)

lemma sample_entry: "e_present 0x9005" "\<not> e_write 0x9005" "\<not> e_shared 0x9005" "\<not> e_readonly 0x9005"
  "e_index 0x9005 = 9" "e_present 0x8005" "\<not> e_present 0" "e_user 0x9005"
  by (simp_all add: e_present_def e_write_def e_shared_def e_readonly_def e_index_def e_user_def bit_iff_odd)

lemma sample_walk: "walk sample_vm 0x1000000 = Some 9" "walk sample_vm 0x1001000 = None"
proof -
  have "paging sample_vm" by (simp add: sample_vm_def)
  then show "walk sample_vm 0x1000000 = Some 9" "walk sample_vm 0x1001000 = None"
    by (simp_all add: walk_user sample_idx sample_pde sample_pte sample_entry)
qed

theorem page_fault_copies_witness:
  "\<exists>s' n. page_fault sample_vm sample_task 0xe 0x1000000 3 = Some (Fault_return s') \<and>
    walk s' 0x1000000 = Some n \<and> \<not> used sample_vm n \<and> frame s' n = (\<lambda>t. t + 5) \<and>
    frame s' 9 = frame sample_vm 9 \<and> frame s' 8 = frame sample_vm 8"
proof -
  have refs: "refs (pool sample_vm) 9 = 2" "refs (pool sample_vm) 8 = 2"
    by (simp_all add: refs_def sample_vm_def)
  have "if \<not> bit (3 :: u32) 1 \<or> e_shared (pte sample_vm (DIDX 0x1000000) (TIDX 0x1000000)) \<or>
      e_readonly (pte sample_vm (DIDX 0x1000000) (TIDX 0x1000000))
    then page_fault sample_vm sample_task 0xe 0x1000000 3 = None
    else \<exists>s' n. page_fault sample_vm sample_task 0xe 0x1000000 3 = Some (Fault_return s') \<and> pt_ok s' \<and> leaf_ok s' \<and>
    cr3 s' = cr3 sample_vm \<and> walk s' 0x1000000 = Some n \<and> e_write (pde s' (DIDX 0x1000000)) \<and>
    e_write (pte s' (DIDX 0x1000000) (TIDX 0x1000000)) \<and> frame s' n = frame sample_vm 9 \<and>
    (if \<not> e_write (pte sample_vm (DIDX 0x1000000) (TIDX 0x1000000)) \<and> 1 < refs (pool sample_vm) (unat (9 :: u32)) then \<not> used sample_vm n
     else n = 9 \<or> \<not> used sample_vm n) \<and>
    (\<forall>v'. DIDX v' \<noteq> 1023 \<longrightarrow> \<not> same_page 0x1000000 v' \<longrightarrow> walk s' v' = walk sample_vm v') \<and>
    keeps_frames sample_vm s' (DIDX 0x1000000)"
    by (rule page_fault_copies [OF sample_ok])
      (simp_all add: sample_vm_free sample_walk sample_idx sample_pte sample_entry
        USER_EXEC_ADDR_def KERNEL_MEMORY_SIZE_def USER_STACK_TOP_def)
  moreover have "bit (3 :: u32) 1" by (simp add: bit_iff_odd)
  ultimately obtain s' n where r: "page_fault sample_vm sample_task 0xe 0x1000000 3 = Some (Fault_return s')"
      "walk s' 0x1000000 = Some n" "frame s' n = frame sample_vm 9" "\<not> used sample_vm n"
      "keeps_frames sample_vm s' 4"
    using refs by (auto simp: sample_idx sample_pte sample_entry)
  have fr: "frame sample_vm 9 = (\<lambda>t. t + 5)" by (simp add: sample_vm_def fun_eq_iff)
  have k: "dir sample_vm = 1" "window sample_vm = 2" "used sample_vm 9" "used sample_vm 8"
    by (simp_all add: dir_def sample_vm_def IDX_def used_def)
      (simp add: window_def sample_pde [unfolded sample_vm_def] e_index_def)
  have "\<not> is_table sample_vm 9"
    using sample_ok(2) [unfolded leaf_ok_def, rule_format, of 4 0] sample_entry
    by (simp add: user_dir_def sample_pde sample_pte)
  then have "frame s' 9 = frame sample_vm 9" "frame s' 8 = frame sample_vm 8"
    using r(5) k refs unfolding keeps_frames_def
    by (auto simp: sample_pde sample_entry e_index_def e_write_def bit_iff_odd)
  then show ?thesis using r fr by auto
qed

theorem page_fault_links_witness:
  "\<exists>s' n. page_fault sample_vm sample_task 0xe 0x1001234 2 = Some (Fault_return s') \<and>
    walk s' 0x1001234 = Some n \<and> \<not> used sample_vm n \<and> walk s' 0x1000000 = Some 9"
proof -
  have ix: "DIDX 0x1001234 = 4" "TIDX 0x1001234 = 1"
    by (simp_all add: word_unat_eq_iff unat_DIDX unat_TIDX)
  have "paging sample_vm" by (simp add: sample_vm_def)
  then have w: "walk sample_vm 0x1001234 = None"
    by (simp add: walk_user ix sample_pde sample_pte sample_entry)
  have "\<exists>s' n. page_fault sample_vm sample_task 0xe 0x1001234 2 = Some (Fault_return s') \<and> pt_ok s' \<and> leaf_ok s' \<and>
    cr3 s' = cr3 sample_vm \<and> walk s' 0x1001234 = Some n \<and> \<not> used sample_vm n \<and> e_write (pde s' (DIDX 0x1001234)) \<and>
    e_write (pte s' (DIDX 0x1001234) (TIDX 0x1001234)) \<and>
    (\<forall>v'. DIDX v' \<noteq> 1023 \<longrightarrow> \<not> same_page 0x1001234 v' \<longrightarrow> walk s' v' = walk sample_vm v') \<and>
    keeps_frames sample_vm s' (DIDX 0x1001234)"
    by (rule page_fault_links [OF sample_ok])
      (simp_all add: sample_vm_free w USER_EXEC_ADDR_def KERNEL_MEMORY_SIZE_def USER_STACK_TOP_def sample_task_def)
  moreover have "\<not> same_page 0x1001234 0x1000000" by (simp add: same_page_def ix sample_idx)
  moreover have "DIDX 0x1000000 \<noteq> 1023" by (simp add: sample_idx)
  ultimately show ?thesis using sample_walk(1) by metis
qed

theorem memory_access_exact_witness:
  "memory_access sample_vm 0x1000010 0x20 False True = Some True \<and>
   memory_access sample_vm 0x1000ff0 0x20 False True = Some False"
proof -
  have sm: "self_mapped sample_vm" by (rule pt_okD(1) [OF sample_ok(1)])
  have a: "allows sample_vm False True a" if "0x1000010 \<le> a" "a < 0x1000030" for a
  proof -
    have "16777232 \<le> unat a" "unat a < 16777264"
      using that by (simp_all add: word_le_nat_alt word_less_nat_alt)
    then have q: "unat a div 4194304 = 4" "unat a div 4096 = 4096"
      by (auto intro!: div_nat_eqI)
    have "DIDX a = 4" "TIDX a = 0" by (simp_all add: word_unat_eq_iff unat_DIDX unat_TIDX q)
    then show ?thesis by (simp add: allows_def sample_pde sample_pte sample_entry)
  qed
  have b: "\<not> allows sample_vm False True 0x1001000"
    by (simp add: allows_def sample_pte sample_entry sample_idx)
  have "memory_access sample_vm 0x1000010 0x20 False True = Some True"
    using memory_access_exact [OF sm, of "0x20" "0x1000010" False True] a by simp
  moreover have "memory_access sample_vm 0x1000ff0 0x20 False True = Some False"
  proof -
    have "\<not> (\<forall>a :: u32. 0x1000ff0 \<le> a \<and> a < 0x1001010 \<longrightarrow> allows sample_vm False True a)"
      using b by (auto intro!: exI [of _ "0x1001000"])
    then show ?thesis using memory_access_exact [OF sm, of "0x20" "0x1000ff0" False True] by simp
  qed
  ultimately show ?thesis by simp
qed

end
