(* ===== verification/Onix_Arena.thy ===== *)
theory Onix_Arena
  imports Onix_List Onix_Pages
begin

section \<open>The kernel heap (src/kernel/arena.c)\<close>

text \<open>
  \<^verbatim>\<open>kmalloc\<close> serves requests up to 1024 bytes from seven size classes; a class is a list of free
  blocks, all cut from pages that start with an \<^verbatim>\<open>arena_t\<close> header. A free block is its own list
  node. Larger requests get whole pages. The state holds the heap of list nodes, the page
  allocator, the descriptors, the addresses of their free lists and the headers by page address.
  \<^verbatim>\<open>memset\<close> of a page clears the nodes and headers in it.

  \<open>class_ok\<close> says what a size class looks like; \<open>kmalloc_small\<close> shows that a request served
  from it returns a block that was free, unlinked and inside its page.
\<close>

record arena_descriptor_t =
  total_block :: u32
  block_size :: u32
  page_count :: u32

record arena_t =
  ar_desc :: "nat option"
  ar_count :: u32
  ar_large :: u32
  ar_magic :: u32

record kmem =
  km_heap :: list_heap
  km_pool :: page_pool
  km_descs :: "arena_descriptor_t list"
  km_free :: "nat \<Rightarrow> u32"
  km_arenas :: "u32 \<Rightarrow> arena_t"

definition DESC_COUNT :: nat where "DESC_COUNT = 7"
definition BUF_COUNT :: int where "BUF_COUNT = 4"

text \<open>\<^verbatim>\<open>sizeof(arena_t)\<close>: a pointer and three words.\<close>

definition ARENA_SIZE :: u32 where "ARENA_SIZE = 16"

definition no_arena :: arena_t where
  "no_arena = \<lparr>ar_desc = None, ar_count = 0, ar_large = 0, ar_magic = 0\<rparr>"

text \<open>\<^verbatim>\<open>memset(a, 0, n)\<close> as far as list nodes and headers go.\<close>

definition inside :: "u32 \<Rightarrow> u32 \<Rightarrow> u32 \<Rightarrow> bool" where
  "inside a n x \<longleftrightarrow> x - a < n"

definition clear_nodes :: "list_heap \<Rightarrow> u32 \<Rightarrow> u32 \<Rightarrow> list_heap" where
  "clear_nodes h a n = h\<lparr>node_prev := (\<lambda>x. if inside a n x then NULL else node_prev h x),
     node_next := (\<lambda>x. if inside a n x then NULL else node_next h x)\<rparr>"

definition clear_mem :: "kmem \<Rightarrow> u32 \<Rightarrow> u32 \<Rightarrow> kmem" where
  "clear_mem m a n = m\<lparr>km_heap := clear_nodes (km_heap m) a n,
     km_arenas := (\<lambda>x. if inside a n x then no_arena else km_arenas m x)\<rparr>"

fun arena_init_loop :: "nat \<Rightarrow> nat \<Rightarrow> u32 \<Rightarrow> kmem \<Rightarrow> kmem option" where
  "arena_init_loop 0 i bs m = Some m"
| "arena_init_loop (Suc n) i bs m = do {
     let desc = \<lparr>total_block = (PAGE_SIZE - ARENA_SIZE) div bs, block_size = bs, page_count = 0\<rparr>;
     kassert (i < length (km_descs m));
     h \<leftarrow> list_init (km_heap m) (km_free m i);
     arena_init_loop n (Suc i) (push_bit 1 bs) (m\<lparr>km_descs := (km_descs m)[i := desc], km_heap := h\<rparr>)
   }"

definition arena_init :: "kmem \<Rightarrow> kmem option" where
  "arena_init m = arena_init_loop DESC_COUNT 0 16 m"

definition get_arena_block :: "kmem \<Rightarrow> u32 \<Rightarrow> u32 \<Rightarrow> u32 option" where
  "get_arena_block m arena idx = do {
     i \<leftarrow> ar_desc (km_arenas m arena);
     kassert (i < length (km_descs m));
     let desc = km_descs m ! i;
     kassert (total_block desc > idx);
     Some (arena + ARENA_SIZE + idx * block_size desc)
   }"

definition get_block_arena :: "u32 \<Rightarrow> u32" where
  "get_block_arena block = block AND 0xfffff000"

text \<open>The class of a request: the first descriptor whose blocks are large enough.\<close>

fun find_desc :: "nat \<Rightarrow> nat \<Rightarrow> kmem \<Rightarrow> u32 \<Rightarrow> nat" where
  "find_desc 0 i m sz = i - 1"
| "find_desc (Suc n) i m sz = (if block_size (km_descs m ! i) \<ge> sz then i else find_desc n (Suc i) m sz)"

text \<open>Cutting a page into blocks, with the two assertions around each push.\<close>

fun fill_arena :: "nat \<Rightarrow> u32 \<Rightarrow> kmem \<Rightarrow> u32 \<Rightarrow> nat \<Rightarrow> kmem option" where
  "fill_arena 0 k m arena i = Some m"
| "fill_arena (Suc n) k m arena i = do {
     block \<leftarrow> get_arena_block m arena k;
     found \<leftarrow> list_search (km_heap m) (km_free m i) block;
     kassert (\<not> found);
     h \<leftarrow> list_push (km_heap m) (km_free m i) block;
     found \<leftarrow> list_search h (km_free m i) block;
     kassert found;
     fill_arena n (k + 1) (m\<lparr>km_heap := h\<rparr>) arena i
   }"

definition refill :: "kmem \<Rightarrow> nat \<Rightarrow> kmem option" where
  "refill m i = do {
     (arena, p) \<leftarrow> alloc_kpage (km_pool m) 1;
     let m = clear_mem (m\<lparr>km_pool := p\<rparr>) arena PAGE_SIZE;
     let desc = km_descs m ! i;
     let m = m\<lparr>km_descs := (km_descs m)[i := desc\<lparr>page_count := page_count desc + 1\<rparr>],
               km_arenas := (km_arenas m)(arena :=
                 \<lparr>ar_desc = Some i, ar_count = total_block desc, ar_large = 0, ar_magic = ONIX_MAGIC\<rparr>)\<rparr>;
     fill_arena (unat (total_block desc)) 0 m arena i
   }"

definition take_block :: "kmem \<Rightarrow> nat \<Rightarrow> (u32 \<times> kmem) option" where
  "take_block m i = do {
     (block, h) \<leftarrow> list_pop (km_heap m) (km_free m i);
     let arena = get_block_arena block;
     let a = km_arenas m arena;
     kassert (ar_magic a = ONIX_MAGIC \<and> ar_large a = 0);
     Some (block, m\<lparr>km_heap := h, km_arenas := (km_arenas m)(arena := a\<lparr>ar_count := ar_count a - 1\<rparr>)\<rparr>)
   }"

definition kmalloc_large :: "kmem \<Rightarrow> u32 \<Rightarrow> (u32 \<times> kmem) option" where
  "kmalloc_large m sz = do {
     let asize = sz + ARENA_SIZE;
     n \<leftarrow> div_round_up asize PAGE_SIZE;
     (arena, p) \<leftarrow> alloc_kpage (km_pool m) n;
     let m = clear_mem (m\<lparr>km_pool := p\<rparr>) arena (n * PAGE_SIZE);
     let m = m\<lparr>km_arenas := (km_arenas m)(arena :=
               \<lparr>ar_desc = None, ar_count = n, ar_large = 1, ar_magic = ONIX_MAGIC\<rparr>)\<rparr>;
     Some (arena + ARENA_SIZE, m)
   }"

definition kmalloc :: "kmem \<Rightarrow> u32 \<Rightarrow> (u32 \<times> kmem) option" where
  "kmalloc m sz =
     (if sz > 1024 then kmalloc_large m sz
      else do {
        let i = find_desc DESC_COUNT 0 m sz;
        empty \<leftarrow> list_empty (km_heap m) (km_free m i);
        m \<leftarrow> (if empty then refill m i else Some m);
        take_block m i
      })"

fun drop_arena :: "nat \<Rightarrow> u32 \<Rightarrow> kmem \<Rightarrow> u32 \<Rightarrow> nat \<Rightarrow> kmem option" where
  "drop_arena 0 k m arena i = Some m"
| "drop_arena (Suc n) k m arena i = do {
     block \<leftarrow> get_arena_block m arena k;
     found \<leftarrow> list_search (km_heap m) (km_free m i) block;
     kassert found;
     h \<leftarrow> list_remove (km_heap m) block;
     found \<leftarrow> list_search h (km_free m i) block;
     kassert (\<not> found);
     drop_arena n (k + 1) (m\<lparr>km_heap := h\<rparr>) arena i
   }"

definition kfree :: "kmem \<Rightarrow> u32 \<Rightarrow> kmem option" where
  "kfree m ptr = do {
     kassert (ptr \<noteq> NULL);
     let arena = get_block_arena ptr;
     let a = km_arenas m arena;
     kassert (ar_large a = 1 \<or> ar_large a = 0);
     kassert (ar_magic a = ONIX_MAGIC);
     if ar_large a \<noteq> 0 then do {
       p \<leftarrow> free_kpage (km_pool m) arena (ar_count a);
       Some (m\<lparr>km_pool := p\<rparr>)
     }
     else do {
       i \<leftarrow> ar_desc a;
       kassert (i < length (km_descs m));
       h \<leftarrow> list_push (km_heap m) (km_free m i) ptr;
       let m = m\<lparr>km_heap := h, km_arenas := (km_arenas m)(arena := a\<lparr>ar_count := ar_count a + 1\<rparr>)\<rparr>;
       let desc = km_descs m ! i;
       if ar_count a + 1 = total_block desc \<and> sint (page_count desc) > BUF_COUNT then do {
         m \<leftarrow> drop_arena (unat (total_block desc)) 0 m arena i;
         let desc = km_descs m ! i;
         let m = m\<lparr>km_descs := (km_descs m)[i := desc\<lparr>page_count := page_count desc - 1\<rparr>]\<rparr>;
         kassert (sint (page_count (km_descs m ! i)) \<ge> BUF_COUNT);
         p \<leftarrow> free_kpage (km_pool m) arena 1;
         Some (m\<lparr>km_pool := p\<rparr>)
       }
       else Some m
     }
   }"

subsection \<open>Blocks of a page\<close>

definition blk :: "kmem \<Rightarrow> nat \<Rightarrow> u32 \<Rightarrow> nat \<Rightarrow> u32" where
  "blk m i a k = a + ARENA_SIZE + of_nat k * block_size (km_descs m ! i)"

definition blocks :: "kmem \<Rightarrow> nat \<Rightarrow> nat" where
  "blocks m i = unat (total_block (km_descs m ! i))"

text \<open>The descriptors as \<^verbatim>\<open>arena_init\<close> leaves them, apart from the page counts.\<close>

definition descs_ok :: "kmem \<Rightarrow> bool" where
  "descs_ok m \<longleftrightarrow> length (km_descs m) = DESC_COUNT \<and>
     (\<forall>i < DESC_COUNT. unat (block_size (km_descs m ! i)) = 16 * 2 ^ i \<and> blocks m i = 4080 div (16 * 2 ^ i))"

lemma less_DESC: "i < DESC_COUNT \<longleftrightarrow> i \<in> {0, 1, 2, 3, 4, 5, 6}"
  by (auto simp: DESC_COUNT_def)

lemma blocks_bound:
  assumes "descs_ok m" and "i < DESC_COUNT"
  shows "blocks m i * unat (block_size (km_descs m ! i)) \<le> 4080" and "0 < blocks m i"
    and "0 < unat (block_size (km_descs m ! i))" and "unat (block_size (km_descs m ! i)) \<le> 1024"
    and "blocks m i < 256"
  using assms unfolding less_DESC by (auto simp: descs_ok_def DESC_COUNT_def)

definition page_addr :: "u32 \<Rightarrow> bool" where
  "page_addr a \<longleftrightarrow> a AND 0xfff = 0 \<and> 0 < a \<and> unat a < 2 ^ 31"

lemma page_addrD: "page_addr a \<Longrightarrow> unat a mod 4096 = 0"
proof -
  assume "page_addr a"
  then have "take_bit 12 a = 0"
    by (simp add: page_addr_def take_bit_eq_mask mask_eq_exp_minus_1)
  then show ?thesis by (simp add: take_bit_eq_mod word_unat_eq_iff unat_mod)
qed

lemma unat_blk:
  assumes "descs_ok m" and "i < DESC_COUNT" and "k < blocks m i" and "unat a < 2 ^ 31"
  shows "unat (blk m i a k) = unat a + 16 + k * unat (block_size (km_descs m ! i))"
    and "16 + k * unat (block_size (km_descs m ! i)) + unat (block_size (km_descs m ! i)) \<le> 4096"
proof -
  let ?b = "unat (block_size (km_descs m ! i))"
  note b = blocks_bound [OF assms(1,2)]
  have "Suc k * ?b \<le> 4080" using b(1) assms(3) mult_le_mono1 [of "Suc k" "blocks m i" ?b] by simp
  then show lim: "16 + k * ?b + ?b \<le> 4096" by simp
  have k: "unat (of_nat k :: u32) = k" using assms(3) b(5) by (intro unat_of_nat_small) simp
  have m: "unat (of_nat k * block_size (km_descs m ! i)) = k * ?b"
    using lim k by (subst unat_mult_small) auto
  have a: "unat (a + ARENA_SIZE) = unat a + 16"
    using assms(4) by (subst unat_plus_small) (auto simp: ARENA_SIZE_def)
  show "unat (blk m i a k) = unat a + 16 + k * ?b"
    unfolding blk_def using assms(4) lim a m by (subst unat_plus_small) auto
qed

lemma get_block_arena_IDX: "get_block_arena x = PAGE (IDX x)"
proof (rule bit_word_eqI)
  fix n assume n: "n < LENGTH(32)"
  have m: "(0xfffff000 :: u32) = push_bit 12 (mask 20)"
    by (simp add: mask_eq_exp_minus_1 push_bit_eq_mult)
  show "bit (get_block_arena x) n = bit (PAGE (IDX x)) n"
    unfolding get_block_arena_def PAGE_def IDX_def m
    using n by (auto simp: bit_and_iff bit_push_bit_iff bit_drop_bit_eq bit_mask_iff
        simp del: push_bit_mask_eq)
qed

lemma get_block_arena_page:
  assumes "page_addr a" and "unat a \<le> unat x" and "unat x < unat a + 4096"
  shows "get_block_arena x = a"
proof -
  obtain q where q: "unat a = 4096 * q" using page_addrD [OF assms(1)] by (auto simp: mod_eq_0_iff_dvd)
  have "unat x div 4096 = q" by (rule div_nat_eqI) (use assms q in auto)
  moreover have "unat (IDX x) = unat x div 4096" by (simp add: IDX_def drop_bit_eq_div unat_div)
  ultimately have "unat (PAGE (IDX x)) = unat a"
    using unat_u32_bound [of x] q by (subst unat_PAGE) auto
  then show ?thesis by (simp add: get_block_arena_IDX word_unat_eq_iff)
qed

lemma blk_props:
  assumes "descs_ok m" and "i < DESC_COUNT" and "k < blocks m i" and "page_addr a"
  shows "get_block_arena (blk m i a k) = a" and "blk m i a k \<noteq> NULL"
    and "inside a PAGE_SIZE (blk m i a k)" and "blk m i a k \<noteq> a"
proof -
  have a: "unat a < 2 ^ 31" using assms(4) by (simp add: page_addr_def)
  note u = unat_blk [OF assms(1-3) a]
  show "get_block_arena (blk m i a k) = a"
    by (rule get_block_arena_page [OF assms(4)]) (use u blocks_bound(3) [OF assms(1,2)] in auto)
  show "blk m i a k \<noteq> NULL" "blk m i a k \<noteq> a" using u(1) by (auto simp: word_unat_eq_iff)
  have "unat (blk m i a k - a) = unat (blk m i a k) - unat a"
    using u by (intro unat_minus_le) (simp add: word_le_nat_alt)
  then show "inside a PAGE_SIZE (blk m i a k)"
    using u blocks_bound(3) [OF assms(1,2)] by (simp add: inside_def word_less_nat_alt PAGE_SIZE_def)
qed

lemma blk_inject:
  assumes "descs_ok m" and "i < DESC_COUNT" and "k < blocks m i" "k' < blocks m i" and "page_addr a"
    and "blk m i a k = blk m i a k'"
  shows "k = k'"
proof -
  have a: "unat a < 2 ^ 31" using assms(5) by (simp add: page_addr_def)
  have "unat (blk m i a k) = unat (blk m i a k')" using assms(6) by simp
  then show ?thesis
    using unat_blk(1) [OF assms(1,2,3) a] unat_blk(1) [OF assms(1,2,4) a] blocks_bound(3) [OF assms(1,2)] by simp
qed

lemma fill_arena_spec:
  assumes ok: "descs_ok m" "i < DESC_COUNT" "page_addr a" and ar: "ar_desc (km_arenas m a) = Some i"
    and n: "k + n \<le> blocks m i" and rep: "list_rep (km_heap m) (km_free m i) xs"
    and new: "\<forall>j. k \<le> j \<and> j < blocks m i \<longrightarrow> blk m i a j \<notin> list_nodes (km_free m i) xs"
  shows "\<exists>h. fill_arena n (of_nat k) m a i = Some (m\<lparr>km_heap := h\<rparr>) \<and>
    list_rep h (km_free m i) (rev (map (blk m i a) [k..<k + n]) @ xs) \<and>
    same_outside (blk m i a ` {k..<k + n} \<union> list_nodes (km_free m i) xs) (km_heap m) h"
  using ok ar n rep new
proof (induction n arbitrary: k m xs)
  case 0
  then show ?case by (auto intro!: exI [of _ "km_heap m"])
next
  case (Suc n)
  let ?l = "km_free m i" and ?b = "blk m i a k"
  have kb: "k < blocks m i" using Suc.prems(5) by simp
  have k32: "unat (of_nat k :: u32) = k"
    using kb blocks_bound(5) [OF Suc.prems(1,2)] by (intro unat_of_nat_small) simp
  have len: "length (km_descs m) = DESC_COUNT" using Suc.prems(1) by (simp add: descs_ok_def)
  have get: "get_arena_block m a (of_nat k) = Some ?b"
    using Suc.prems(2,4) kb k32 len
    by (simp add: get_arena_block_def blk_def blocks_def word_less_nat_alt)
  have nb: "?b \<notin> list_nodes ?l xs" using Suc.prems(7) kb by simp
  have nz: "?b \<noteq> NULL" using blk_props(2) [OF Suc.prems(1,2) kb Suc.prems(3)] .
  obtain h1 where h1: "list_push (km_heap m) ?l ?b = Some h1" "list_rep h1 ?l (?b # xs)"
      "same_outside (insert ?b (list_nodes ?l xs)) (km_heap m) h1"
    using list_push_rep [OF Suc.prems(6) nb nz] by blast
  let ?m = "m\<lparr>km_heap := h1\<rparr>"
  have same: "blk ?m i a = blk m i a" "blocks ?m i = blocks m i" "descs_ok ?m = descs_ok m" "km_free ?m i = ?l"
    by (simp_all add: blk_def blocks_def descs_ok_def fun_eq_iff)
  have "\<exists>h. fill_arena n (of_nat (Suc k)) ?m a i = Some (?m\<lparr>km_heap := h\<rparr>) \<and>
      list_rep h (km_free ?m i) (rev (map (blk ?m i a) [Suc k..<Suc k + n]) @ ?b # xs) \<and>
      same_outside (blk ?m i a ` {Suc k..<Suc k + n} \<union> list_nodes (km_free ?m i) (?b # xs)) (km_heap ?m) h"
  proof (rule Suc.IH)
    show "\<forall>j. Suc k \<le> j \<and> j < blocks ?m i \<longrightarrow> blk ?m i a j \<notin> list_nodes (km_free ?m i) (?b # xs)"
    proof (intro allI impI)
      fix j assume j: "Suc k \<le> j \<and> j < blocks ?m i"
      then have "blk m i a j \<noteq> ?b"
        using blk_inject [OF Suc.prems(1,2) _ kb Suc.prems(3), of j] same by auto
      then show "blk ?m i a j \<notin> list_nodes (km_free ?m i) (?b # xs)"
        using Suc.prems(7) j same by (auto simp: list_nodes_def)
    qed
  qed (use Suc.prems h1 same in auto)
  then obtain h where h: "fill_arena n (of_nat (Suc k)) ?m a i = Some (?m\<lparr>km_heap := h\<rparr>)"
      "list_rep h ?l (rev (map (blk m i a) [Suc k..<Suc k + n]) @ ?b # xs)"
      "same_outside (blk m i a ` {Suc k..<Suc k + n} \<union> list_nodes ?l (?b # xs)) h1 h"
    using same by auto
  have "fill_arena (Suc n) (of_nat k) m a i = Some (m\<lparr>km_heap := h\<rparr>)"
    using get list_search_rep [OF Suc.prems(6)] list_search_rep [OF h1(2)] nb h1(1) h(1)
    by (simp add: list_nodes_def add.commute)
  moreover have "rev (map (blk m i a) [k..<k + Suc n]) @ xs = rev (map (blk m i a) [Suc k..<Suc k + n]) @ ?b # xs"
    by (simp add: upt_conv_Cons del: upt_Suc)
  moreover have "same_outside (blk m i a ` {k..<k + Suc n} \<union> list_nodes ?l xs) (km_heap m) h"
  proof (rule same_outside_trans)
    show "same_outside (blk m i a ` {k..<k + Suc n} \<union> list_nodes ?l xs) (km_heap m) h1"
      using h1(3) by (rule same_outside_mono) auto
    show "same_outside (blk m i a ` {k..<k + Suc n} \<union> list_nodes ?l xs) h1 h"
      using h(3) by (rule same_outside_mono) (auto simp: list_nodes_def)
  qed
  ultimately show ?case using h(2) by (auto simp del: upt_Suc)
qed

subsection \<open>The heap invariant\<close>

abbreviation kmap :: "kmem \<Rightarrow> bitmap_t" where
  "kmap m \<equiv> kernel_map (km_pool m)"

definition kpage :: "kmem \<Rightarrow> nat \<Rightarrow> u32" where
  "kpage m j = PAGE (bm_index (kmap m) j)"

definition arena_of :: "kmem \<Rightarrow> nat \<Rightarrow> u32 \<Rightarrow> bool" where
  "arena_of m i a \<longleftrightarrow> ar_desc (km_arenas m a) = Some i \<and> ar_large (km_arenas m a) = 0 \<and>
     ar_magic (km_arenas m a) = ONIX_MAGIC"

text \<open>Block \<open>x\<close> of class \<open>i\<close> lies in an allocated page that has the header of that class.\<close>

definition block_of :: "kmem \<Rightarrow> nat \<Rightarrow> u32 \<Rightarrow> bool" where
  "block_of m i x \<longleftrightarrow> (\<exists>j k. j < bm_size (kmap m) \<and> bm_bit (kmap m) j \<and> k < blocks m i \<and>
     x = blk m i (kpage m j) k \<and> arena_of m i (kpage m j))"

definition kmap_low :: "bitmap_t \<Rightarrow> bool" where
  "kmap_low km \<longleftrightarrow> kmap_ok km \<and> bm_offset km = 256 \<and> bm_size km \<le> 2816"

definition heads_ok :: "kmem \<Rightarrow> bool" where
  "heads_ok m \<longleftrightarrow> (\<forall>i < DESC_COUNT. unat (km_free m i) + 8 < 0x100000) \<and>
     (\<forall>i < DESC_COUNT. \<forall>j < DESC_COUNT. i \<noteq> j \<longrightarrow>
        {km_free m i, km_free m i + 8} \<inter> {km_free m j, km_free m j + 8} = {})"

definition arena_ok :: "kmem \<Rightarrow> (nat \<Rightarrow> u32 list) \<Rightarrow> bool" where
  "arena_ok m fl \<longleftrightarrow> descs_ok m \<and> kmap_low (kmap m) \<and> heads_ok m \<and>
     (\<forall>i < DESC_COUNT. list_rep (km_heap m) (km_free m i) (fl i) \<and> (\<forall>x \<in> set (fl i). block_of m i x))"

lemma inside_page:
  assumes "page_addr a"
  shows "inside a PAGE_SIZE x \<longleftrightarrow> get_block_arena x = a"
proof -
  have a: "unat a < 2 ^ 31" using assms by (simp add: page_addr_def)
  obtain q where q: "unat a = 4096 * q" using page_addrD [OF assms] by (auto simp: mod_eq_0_iff_dvd)
  have "unat (PAGE (IDX x)) = unat x div 4096 * 4096"
    using unat_u32_bound [of x] by (subst unat_PAGE) (auto simp: IDX_def drop_bit_eq_div unat_div)
  then have eq: "get_block_arena x = a \<longleftrightarrow> unat x div 4096 = q"
    using q by (auto simp: get_block_arena_IDX word_unat_eq_iff)
  show ?thesis
  proof
    assume ins: "inside a PAGE_SIZE x"
    have "x = a + (x - a)" by simp
    then have "unat x = unat a + unat (x - a)"
      using ins a unat_plus_small [of a "x - a"] by (simp add: inside_def word_less_nat_alt PAGE_SIZE_def)
    moreover have "unat (x - a) < 4096" using ins by (simp add: inside_def word_less_nat_alt PAGE_SIZE_def)
    ultimately have "unat x div 4096 = q" using q by (intro div_nat_eqI) auto
    then show "get_block_arena x = a" using eq by simp
  next
    assume "get_block_arena x = a"
    then have d: "unat x div 4096 = q" using eq by simp
    then have "4096 * q \<le> unat x" "unat x < 4096 * q + 4096" by auto
    moreover from this have "unat (x - a) = unat x - unat a"
      using q by (intro unat_minus_le) (simp add: word_le_nat_alt)
    ultimately show "inside a PAGE_SIZE x" using q by (simp add: inside_def word_less_nat_alt PAGE_SIZE_def)
  qed
qed

lemma kpage_props:
  assumes "kmap_low (kmap m)" and "j < bm_size (kmap m)"
  shows "unat (kpage m j) = 4096 * (256 + j)" and "page_addr (kpage m j)"
proof -
  have ok: "bm_ok (kmap m)" using assms(1) by (simp add: kmap_low_def kmap_ok_def)
  have j: "j < 2816" using assms by (simp add: kmap_low_def)
  have u: "unat (bm_index (kmap m) j) = 256 + j"
    using bm_index_props(7) [OF ok assms(2)] assms(1) by (simp add: kmap_low_def)
  then show v: "unat (kpage m j) = 4096 * (256 + j)"
    unfolding kpage_def using j by (subst unat_PAGE) auto
  show "page_addr (kpage m j)"
    using v j by (simp add: page_addr_def word_less_nat_alt) (simp add: kpage_def)
qed

lemma kpage_inject:
  assumes "kmap_low (kmap m)" and "j < bm_size (kmap m)" and "j' < bm_size (kmap m)"
    and "kpage m j = kpage m j'"
  shows "j = j'"
proof -
  have "4096 * (256 + j) = 4096 * (256 + j')"
    by (metis assms kpage_props(1))
  then have "256 + j = 256 + j'" by (simp only: nat_mult_eq_cancel1 zero_less_numeral)
  then show ?thesis by simp
qed

text \<open>The nodes of a class: its head, below 1M, and blocks of allocated pages.\<close>

lemma low_page:
  assumes "kmap_low (kmap m)" and "j < bm_size (kmap m)" and "unat y < 0x100000"
  shows "get_block_arena y \<noteq> kpage m j"
proof
  assume g: "get_block_arena y = kpage m j"
  have "unat (PAGE (IDX y)) \<le> unat y"
    using unat_u32_bound [of y] by (subst unat_PAGE) (auto simp: IDX_def drop_bit_eq_div unat_div)
  then show False using assms(3) kpage_props(1) [OF assms(1,2)] g by (simp add: get_block_arena_IDX)
qed

lemma head_page:
  assumes "heads_ok m" and "i < DESC_COUNT" and "kmap_low (kmap m)" and "j < bm_size (kmap m)"
    and "y = km_free m i \<or> y = km_free m i + 8"
  shows "get_block_arena y \<noteq> kpage m j"
proof (rule low_page [OF assms(3,4)])
  have lt: "unat (km_free m i) + 8 < 0x100000" using assms(1,2) by (simp add: heads_ok_def)
  then have "unat (km_free m i + 8) = unat (km_free m i) + 8" by (subst unat_plus_small) auto
  with lt assms(5) show "unat y < 0x100000" by auto
qed

lemma block_of_page:
  assumes "descs_ok m" and "kmap_low (kmap m)" and "i < DESC_COUNT" and "block_of m i x"
  obtains j k where "j < bm_size (kmap m)" and "bm_bit (kmap m) j" and "get_block_arena x = kpage m j"
    and "arena_of m i (kpage m j)" and "x \<noteq> NULL" and "x \<noteq> kpage m j"
    and "k < blocks m i" and "x = blk m i (kpage m j) k"
  using assms(4) kpage_props(2) [OF assms(2)] blk_props [OF assms(1,3)]
  unfolding block_of_def by metis

lemma arena_nodes_disjoint:
  assumes ok: "arena_ok m fl" and i: "i < DESC_COUNT" "i' < DESC_COUNT" "i \<noteq> i'"
  shows "list_nodes (km_free m i) (fl i) \<inter> list_nodes (km_free m i') (fl i') = {}"
proof -
  have a: "descs_ok m" "kmap_low (kmap m)" "heads_ok m" using ok by (auto simp: arena_ok_def)
  have page: "\<exists>j < bm_size (kmap m). get_block_arena x = kpage m j \<and> arena_of m c (kpage m j)"
    if "c < DESC_COUNT" "x \<in> set (fl c)" for c x
  proof -
    have b: "block_of m c x" using ok that by (simp add: arena_ok_def)
    show ?thesis by (rule block_of_page [OF a(1,2) that(1) b]) blast
  qed
  have "x \<notin> set (fl i')" if "x \<in> set (fl i)" for x
    using page [OF i(1) that] page [OF i(2), of x] i(3) by (auto simp: arena_of_def)
  moreover have "x \<noteq> km_free m c \<and> x \<noteq> km_free m c + 8" if "x \<in> set (fl c')" "c < DESC_COUNT" "c' < DESC_COUNT" for x c c'
    using page [OF that(3,1)] head_page [OF a(3) that(2) a(2), of _ x] by auto
  moreover have "{km_free m i, km_free m i + 8} \<inter> {km_free m i', km_free m i' + 8} = {}"
    using a(3) i by (simp add: heads_ok_def)
  ultimately show ?thesis using i unfolding list_nodes_def by blast
qed

subsection \<open>Requests\<close>

lemma find_desc_spec:
  assumes "descs_ok m" and "sz \<le> 1024"
  shows "find_desc DESC_COUNT 0 m sz < DESC_COUNT" and "sz \<le> block_size (km_descs m ! find_desc DESC_COUNT 0 m sz)"
proof -
  have gen: "find_desc n i m sz < DESC_COUNT \<and> sz \<le> block_size (km_descs m ! find_desc n i m sz)"
    if "i + n = DESC_COUNT" "0 < n" for n i
    using that
  proof (induction n arbitrary: i)
    case (Suc n)
    show ?case
    proof (cases "block_size (km_descs m ! i) \<ge> sz")
      case True
      with Suc.prems show ?thesis by simp
    next
      case False
      have "n \<noteq> 0"
      proof
        assume "n = 0"
        then have "i = 6" using Suc.prems by (simp add: DESC_COUNT_def)
        then have "unat (block_size (km_descs m ! i)) = 1024"
          using assms(1) by (simp add: descs_ok_def DESC_COUNT_def)
        then show False using False assms(2) by (simp add: word_le_nat_alt)
      qed
      then show ?thesis using Suc.IH [of "Suc i"] Suc.prems False by simp
    qed
  qed simp
  show "find_desc DESC_COUNT 0 m sz < DESC_COUNT"
    "sz \<le> block_size (km_descs m ! find_desc DESC_COUNT 0 m sz)"
    using gen [of 0 DESC_COUNT] by (auto simp: DESC_COUNT_def)
qed

text \<open>What was a block of a class stays one.\<close>

definition page_count_grows :: "kmem \<Rightarrow> kmem \<Rightarrow> bool" where
  "page_count_grows m m' \<longleftrightarrow> (\<forall>c < DESC_COUNT. page_count (km_descs m' ! c) = page_count (km_descs m ! c) \<or>
     page_count (km_descs m' ! c) = page_count (km_descs m ! c) + 1)"

definition keeps_blocks :: "kmem \<Rightarrow> kmem \<Rightarrow> bool" where
  "keeps_blocks m m' \<longleftrightarrow> (\<forall>c < DESC_COUNT. \<forall>y. block_of m c y \<longrightarrow> block_of m' c y)"

lemma keeps_blocks_refl [simp]: "keeps_blocks m m"
  by (simp add: keeps_blocks_def)

lemma keeps_blocks_trans: "keeps_blocks m m' \<Longrightarrow> keeps_blocks m' m'' \<Longrightarrow> keeps_blocks m m''"
  by (simp add: keeps_blocks_def)

lemma take_block_spec:
  assumes ok: "arena_ok m fl" and i: "i < DESC_COUNT" and fl: "fl i = x # xs"
  shows "\<exists>m'. take_block m i = Some (x, m') \<and> arena_ok m' (fl(i := xs)) \<and> block_of m' i x \<and>
    unlinked (km_heap m') x \<and> same_outside (list_nodes (km_free m i) (fl i)) (km_heap m) (km_heap m') \<and>
    km_pool m' = km_pool m \<and> km_descs m' = km_descs m \<and> km_free m' = km_free m \<and> keeps_blocks m m'"
proof -
  have a: "descs_ok m" "kmap_low (kmap m)" "heads_ok m" using ok by (auto simp: arena_ok_def)
  have rep: "list_rep (km_heap m) (km_free m i) (x # xs)" and bx: "block_of m i x"
    using ok i fl by (auto simp: arena_ok_def)
  obtain h where h: "list_pop (km_heap m) (km_free m i) = Some (x, h)" "list_rep h (km_free m i) xs"
      "unlinked h x" "same_outside (list_nodes (km_free m i) (x # xs)) (km_heap m) h"
    using list_pop_rep [OF rep] by blast
  obtain j where j: "get_block_arena x = kpage m j" "arena_of m i (kpage m j)"
    by (rule block_of_page [OF a(1,2) i bx])
  let ?a = "kpage m j"
  let ?m = "m\<lparr>km_heap := h, km_arenas := (km_arenas m)(?a := (km_arenas m ?a)\<lparr>ar_count := ar_count (km_arenas m ?a) - 1\<rparr>)\<rparr>"
  have take: "take_block m i = Some (x, ?m)"
    using h(1) j by (simp add: take_block_def arena_of_def Let_def)
  have same: "descs_ok ?m = descs_ok m" "heads_ok ?m = heads_ok m" "blk ?m = blk m" "blocks ?m = blocks m"
    "kpage ?m = kpage m"
    by (simp_all add: descs_ok_def heads_ok_def blk_def blocks_def kpage_def fun_eq_iff)
  have ar: "arena_of ?m c b = arena_of m c b" for c b by (simp add: arena_of_def)
  have blo: "block_of ?m c y = block_of m c y" for c y
    unfolding block_of_def same ar by simp
  have "list_rep h (km_free m c) (fl c)" if "c < DESC_COUNT" "c \<noteq> i" for c
    by (rule list_rep_frame [OF _ h(4)])
      (use ok that arena_nodes_disjoint [OF ok i that(1)] fl in \<open>auto simp: arena_ok_def\<close>)
  then have "arena_ok ?m (fl(i := xs))"
    using ok a h(2) fl unfolding arena_ok_def same blo by auto
  moreover have "keeps_blocks m ?m" unfolding keeps_blocks_def blo by simp
  ultimately show ?thesis using take h bx fl blo by auto
qed

lemma refill_spec:
  assumes ok: "arena_ok m fl" and i: "i < DESC_COUNT" and fl: "fl i = []"
    and free: "\<exists>s. free_run (kmap m) s 1"
  shows "\<exists>m' j. refill m i = Some m' \<and> j < bm_size (kmap m) \<and> \<not> bm_bit (kmap m) j \<and>
    arena_ok m' (fl(i := rev (map (blk m i (kpage m j)) [0..<blocks m i]))) \<and>
    same_outside (Collect (inside (kpage m j) PAGE_SIZE) \<union> {km_free m i, km_free m i + 8}) (km_heap m) (km_heap m') \<and>
    km_free m' = km_free m \<and> block_size (km_descs m' ! i) = block_size (km_descs m ! i) \<and>
    page_count (km_descs m' ! i) = page_count (km_descs m ! i) + 1 \<and>
    kpage m' = kpage m \<and> bm_size (kmap m') = bm_size (kmap m) \<and>
    (\<forall>k. bm_bit (kmap m') k \<longleftrightarrow> k = j \<or> bm_bit (kmap m) k) \<and> keeps_blocks m m' \<and> page_count_grows m m'"
proof -
  have a: "descs_ok m" "kmap_low (kmap m)" "heads_ok m" and km: "kmap_ok (kmap m)"
    using ok by (auto simp: arena_ok_def kmap_low_def)
  have one: "0 < unat (1 :: u32)" by simp
  obtain j km' where s: "scan_page (kmap m) 1 = Some (kpage m j, km')" "free_run (kmap m) j (unat (1 :: u32))"
      "kmap_ok km'" "bm_length km' = bm_length (kmap m)" "bm_offset km' = bm_offset (kmap m)"
      "\<forall>k. bm_bit km' k = (j \<le> k \<and> k < j + unat (1 :: u32) \<or> bm_bit (kmap m) k)"
    using scan_page_cases [OF km one] free by (fastforce simp: kpage_def)
  have j: "j < bm_size (kmap m)" "\<not> bm_bit (kmap m) j" using s(2) by (auto simp: free_run_def)
  define a0 where "a0 = kpage m j"
  note pa = kpage_props(2) [OF a(2) j(1), folded a0_def]
  have al: "alloc_kpage (km_pool m) 1 = Some (a0, (km_pool m)\<lparr>kernel_map := km'\<rparr>)"
    using s(1) by (simp add: alloc_kpage_def a0_def)
  define m1 where "m1 = clear_mem (m\<lparr>km_pool := (km_pool m)\<lparr>kernel_map := km'\<rparr>\<rparr>) a0 PAGE_SIZE"
  define d where "d = km_descs m ! i"
  define m2 where "m2 = m1\<lparr>km_descs := (km_descs m1)[i := d\<lparr>page_count := page_count d + 1\<rparr>],
      km_arenas := (km_arenas m1)(a0 := \<lparr>ar_desc = Some i, ar_count = total_block d, ar_large = 0, ar_magic = ONIX_MAGIC\<rparr>)\<rparr>"
  have len: "length (km_descs m) = DESC_COUNT" using a(1) by (simp add: descs_ok_def)
  have dsc: "block_size (km_descs m2 ! c) = block_size (km_descs m ! c)"
    "total_block (km_descs m2 ! c) = total_block (km_descs m ! c)" if "c < DESC_COUNT" for c
    using len that i by (auto simp: m2_def m1_def clear_mem_def d_def nth_list_update)
  have fr2: "km_free m2 = km_free m" "kmap m2 = km'" "km_heap m2 = clear_nodes (km_heap m) a0 PAGE_SIZE"
    by (simp_all add: m2_def m1_def clear_mem_def)
  have bl: "blk m2 c = blk m c" "blocks m2 c = blocks m c" if "c < DESC_COUNT" for c
    using dsc [OF that] by (simp_all add: blk_def blocks_def fun_eq_iff)
  have kp: "kpage m2 = kpage m" using s(5) fr2(2) by (simp add: kpage_def bm_index_def fun_eq_iff)
  have sz: "bm_size km' = bm_size (kmap m)" using s(4) by (simp add: bm_size_def)
  have ok2: "descs_ok m2" "kmap_low (kmap m2)" "heads_ok m2"
  proof -
    have "length (km_descs m2) = DESC_COUNT" using len by (simp add: m2_def m1_def clear_mem_def)
    then show "descs_ok m2" using a(1) dsc bl by (simp add: descs_ok_def)
    show "kmap_low (kmap m2)" using a(2) s(3,5) sz fr2 by (simp add: kmap_low_def)
    show "heads_ok m2" using a(3) fr2 by (simp add: heads_ok_def)
  qed
  have ar2: "arena_of m2 i a0" by (simp add: arena_of_def m2_def)
  have keep: "arena_of m2 c (kpage m k) = arena_of m c (kpage m k)" if "k < bm_size (kmap m)" "k \<noteq> j" for c k
  proof -
    have ne: "kpage m k \<noteq> a0" using kpage_inject [OF a(2) that(1) j(1)] that(2) by (auto simp: a0_def)
    note pk = kpage_props(2) [OF a(2) that(1)]
    have "get_block_arena (kpage m k) = kpage m k" by (rule get_block_arena_page [OF pk]) simp_all
    then have "\<not> inside a0 PAGE_SIZE (kpage m k)" using ne inside_page [OF pa] by simp
    then show ?thesis using ne by (simp add: arena_of_def m2_def m1_def clear_mem_def)
  qed
  have old: "block_of m2 c x" if "c < DESC_COUNT" "block_of m c x" for c x
    using that(2) j(2) keep s(6) sz unfolding block_of_def kp fr2(2) bl [OF that(1)]
    by (metis (no_types, lifting))
  have out: "get_block_arena x \<noteq> a0" if "c < DESC_COUNT" "x \<in> list_nodes (km_free m c) (fl c)" for c x
  proof (cases "x \<in> set (fl c)")
    case True
    then have b: "block_of m c x" using ok that(1) by (simp add: arena_ok_def)
    show ?thesis
      by (rule block_of_page [OF a(1,2) that(1) b]) (use j kpage_inject [OF a(2) _ j(1)] in \<open>auto simp: a0_def\<close>)
  next
    case False
    then show ?thesis
      using that(2) head_page [OF a(3) that(1) a(2) j(1)] by (auto simp: list_nodes_def a0_def)
  qed
  have clr: "same_outside (Collect (inside a0 PAGE_SIZE)) (km_heap m) (km_heap m2)"
    unfolding fr2 by (simp add: same_outside_def clear_nodes_def)
  have rep2: "list_rep (km_heap m2) (km_free m c) (fl c)" if "c < DESC_COUNT" for c
    by (rule list_rep_frame [OF _ clr]) (use ok that out [OF that] inside_page [OF pa] in \<open>auto simp: arena_ok_def\<close>)
  have "\<exists>h. fill_arena (blocks m2 i) (of_nat 0) m2 a0 i = Some (m2\<lparr>km_heap := h\<rparr>) \<and>
    list_rep h (km_free m2 i) (rev (map (blk m2 i a0) [0..<0 + blocks m2 i]) @ []) \<and>
    same_outside (blk m2 i a0 ` {0..<0 + blocks m2 i} \<union> list_nodes (km_free m2 i) []) (km_heap m2) h"
  proof (rule fill_arena_spec [OF ok2(1) i pa])
    show "\<forall>k. 0 \<le> k \<and> k < blocks m2 i \<longrightarrow> blk m2 i a0 k \<notin> list_nodes (km_free m2 i) []"
      using out [OF i] blk_props(1) [OF ok2(1) i _ pa] fl fr2(1) by auto
  qed (use ar2 rep2 [OF i] fl fr2 in \<open>auto simp: arena_of_def\<close>)
  then obtain h where h: "fill_arena (blocks m i) 0 m2 a0 i = Some (m2\<lparr>km_heap := h\<rparr>)"
      "list_rep h (km_free m i) (rev (map (blk m i a0) [0..<blocks m i]))"
      "same_outside (blk m i a0 ` {0..<blocks m i} \<union> {km_free m i, km_free m i + 8}) (km_heap m2) h"
    using bl [OF i] fr2 by (auto simp: list_nodes_def)
  have rf: "refill m i = Some (m2\<lparr>km_heap := h\<rparr>)"
    using al h(1) by (simp add: refill_def m2_def m1_def d_def blocks_def clear_mem_def Let_def)
  let ?m = "m2\<lparr>km_heap := h\<rparr>" and ?fl = "fl(i := rev (map (blk m i a0) [0..<blocks m i]))"
  have blo: "block_of ?m c x = block_of m2 c x" for c x
    by (simp add: block_of_def blk_def blocks_def kpage_def arena_of_def)
  have inb: "blk m i a0 ` {0..<blocks m i} \<subseteq> Collect (inside a0 PAGE_SIZE)"
    using blk_props(3) [OF a(1) i _ pa] by auto
  have repc: "list_rep h (km_free m c) (fl c)" if "c < DESC_COUNT" "c \<noteq> i" for c
  proof (rule list_rep_frame [OF rep2 [OF that(1)] h(3)])
    show "(blk m i a0 ` {0..<blocks m i} \<union> {km_free m i, km_free m i + 8}) \<inter> list_nodes (km_free m c) (fl c) = {}"
      using inb out [OF that(1)] inside_page [OF pa] arena_nodes_disjoint [OF ok i that(1)] that(2)
      by (auto simp: list_nodes_def)
  qed
  have new: "block_of m2 i x" if xin: "x \<in> set (rev (map (blk m i a0) [0..<blocks m i]))" for x
  proof -
    obtain k where "k < blocks m i" "x = blk m i a0 k" using xin by auto
    then show ?thesis
      unfolding block_of_def kp fr2(2) bl [OF i]
      by (intro exI [of _ j] exI [of _ k]) (use j(1) s(6) sz ar2 in \<open>simp add: a0_def\<close>)
  qed
  have "arena_ok ?m ?fl"
    unfolding arena_ok_def
  proof (intro conjI allI impI)
    fix c assume c: "c < DESC_COUNT"
    show "list_rep (km_heap ?m) (km_free ?m c) (?fl c)" using repc [OF c] h(2) fr2 by simp
    show "\<forall>x \<in> set (?fl c). block_of ?m c x"
      unfolding blo using new old [OF c] ok c by (auto simp: arena_ok_def)
  qed (use ok2 in \<open>auto simp: descs_ok_def heads_ok_def blocks_def\<close>)
  moreover have "same_outside (Collect (inside a0 PAGE_SIZE) \<union> {km_free m i, km_free m i + 8}) (km_heap m) h"
    by (rule same_outside_trans [OF same_outside_mono [OF clr] same_outside_mono [OF h(3)]]) (use inb in auto)
  moreover have "page_count (km_descs m2 ! i) = page_count (km_descs m ! i) + 1"
    using len i by (simp add: m2_def m1_def clear_mem_def d_def)
  moreover have "kpage ?m = kpage m" using kp by (simp add: kpage_def fun_eq_iff)
  moreover have "keeps_blocks m ?m" unfolding keeps_blocks_def blo using old by blast
  moreover have "page_count_grows m ?m"
    using len i by (auto simp: page_count_grows_def m2_def m1_def clear_mem_def d_def nth_list_update)
  ultimately show ?thesis
    using rf j fr2 dsc [OF i] sz s(6) by (auto simp: a0_def)
qed

text \<open>
  The nodes that are not the allocator's: on no free list, no head of one, and in no free page.
  Blocks in use and the static lists of the kernel are such nodes; \<^verbatim>\<open>kmalloc\<close> leaves them alone.
\<close>

definition outside :: "kmem \<Rightarrow> (nat \<Rightarrow> u32 list) \<Rightarrow> u32 \<Rightarrow> bool" where
  "outside m fl y \<longleftrightarrow> (\<forall>c < DESC_COUNT. y \<notin> list_nodes (km_free m c) (fl c)) \<and>
     (\<forall>j < bm_size (kmap m). \<not> bm_bit (kmap m) j \<longrightarrow> get_block_arena y \<noteq> kpage m j)"

definition same_node :: "list_heap \<Rightarrow> list_heap \<Rightarrow> u32 \<Rightarrow> bool" where
  "same_node h h' y \<longleftrightarrow> node_prev h' y = node_prev h y \<and> node_next h' y = node_next h y"

lemma same_outside_node: "same_outside A h h' \<Longrightarrow> y \<notin> A \<Longrightarrow> same_node h h' y"
  by (simp add: same_outside_def same_node_def)

lemma refill_outside:
  assumes ok: "arena_ok m fl" and i: "i < DESC_COUNT" and fl: "fl i = []"
    and free: "\<exists>s. free_run (kmap m) s 1"
  shows "\<exists>m' fl' x xs. refill m i = Some m' \<and> arena_ok m' fl' \<and> fl' i = x # xs \<and> km_free m' = km_free m \<and>
    block_size (km_descs m' ! i) = block_size (km_descs m ! i) \<and>
    (\<exists>j < bm_size (kmap m). \<not> bm_bit (kmap m) j \<and> get_block_arena x = kpage m j) \<and>
    (\<forall>y. outside m fl y \<longrightarrow> outside m' fl' y \<and> same_node (km_heap m) (km_heap m') y) \<and>
    keeps_blocks m m' \<and> page_count_grows m m'"
proof -
  have a: "descs_ok m" "kmap_low (kmap m)" using ok by (auto simp: arena_ok_def)
  obtain m' j where r: "refill m i = Some m'" "j < bm_size (kmap m)" "\<not> bm_bit (kmap m) j"
      "arena_ok m' (fl(i := rev (map (blk m i (kpage m j)) [0..<blocks m i])))"
      "same_outside (Collect (inside (kpage m j) PAGE_SIZE) \<union> {km_free m i, km_free m i + 8}) (km_heap m) (km_heap m')"
      "km_free m' = km_free m" "block_size (km_descs m' ! i) = block_size (km_descs m ! i)"
      "kpage m' = kpage m" "bm_size (kmap m') = bm_size (kmap m)"
      "\<forall>k. bm_bit (kmap m') k \<longleftrightarrow> k = j \<or> bm_bit (kmap m) k" "keeps_blocks m m'" "page_count_grows m m'"
    using refill_spec [OF ok i fl free] by blast
  let ?bs = "rev (map (blk m i (kpage m j)) [0..<blocks m i])"
  note pg = kpage_props(2) [OF a(2) r(2)]
  have bp: "get_block_arena x = kpage m j" if "x \<in> set ?bs" for x
    using that blk_props(1) [OF a(1) i _ pg] by auto
  obtain x xs where xs: "?bs = x # xs"
    using blocks_bound(2) [OF a(1) i] by (cases ?bs) auto
  have out: "outside m' (fl(i := ?bs)) y \<and> same_node (km_heap m) (km_heap m') y" if o: "outside m fl y" for y
  proof
    have nj: "get_block_arena y \<noteq> kpage m j" using o r(2,3) by (simp add: outside_def)
    show "same_node (km_heap m) (km_heap m') y"
      by (rule same_outside_node [OF r(5)])
        (use nj inside_page [OF pg] o i in \<open>auto simp: outside_def list_nodes_def\<close>)
    have "y \<notin> list_nodes (km_free m c) ((fl(i := ?bs)) c)" if "c < DESC_COUNT" for c
      using o that bp nj fl by (cases "c = i") (auto simp: outside_def list_nodes_def simp del: set_rev)
    then show "outside m' (fl(i := ?bs)) y"
      using o r(6,8-10) by (simp add: outside_def)
  qed
  have "x \<in> set ?bs" using xs by simp
  then have bx: "get_block_arena x = kpage m j" by (rule bp)
  show ?thesis
    by (rule exI [of _ m'], rule exI [of _ "fl(i := ?bs)"], rule exI [of _ x], rule exI [of _ xs])
      (use r xs out bx in auto)
qed

lemma take_block_outside:
  assumes ok: "arena_ok m fl" and i: "i < DESC_COUNT" and fl: "fl i = x # xs"
  shows "\<exists>m'. take_block m i = Some (x, m') \<and> arena_ok m' (fl(i := xs)) \<and> block_of m' i x \<and>
    unlinked (km_heap m') x \<and> km_descs m' = km_descs m \<and> km_free m' = km_free m \<and> \<not> outside m fl x \<and>
    outside m' (fl(i := xs)) x \<and>
    (\<forall>y. outside m fl y \<longrightarrow> outside m' (fl(i := xs)) y \<and> same_node (km_heap m) (km_heap m') y) \<and>
    keeps_blocks m m'"
proof -
  have a: "descs_ok m" "kmap_low (kmap m)" "heads_ok m" using ok by (auto simp: arena_ok_def)
  have rep: "list_rep (km_heap m) (km_free m i) (x # xs)" and bx: "block_of m i x"
    using ok i fl by (auto simp: arena_ok_def)
  obtain m' where m': "take_block m i = Some (x, m')" "arena_ok m' (fl(i := xs))" "block_of m' i x"
      "unlinked (km_heap m') x" "same_outside (list_nodes (km_free m i) (fl i)) (km_heap m) (km_heap m')"
      "km_pool m' = km_pool m" "km_descs m' = km_descs m" "km_free m' = km_free m" "keeps_blocks m m'"
    using take_block_spec [OF ok i fl] by blast
  have kp: "kpage m' = kpage m" using m'(6) by (simp add: kpage_def fun_eq_iff)
  have sub: "list_nodes (km_free m c) ((fl(i := xs)) c) \<subseteq> list_nodes (km_free m c) (fl c)" for c
    using fl by (auto simp: list_nodes_def)
  have out: "outside m' (fl(i := xs)) y \<and> same_node (km_heap m) (km_heap m') y" if o: "outside m fl y" for y
  proof
    show "same_node (km_heap m) (km_heap m') y"
      by (rule same_outside_node [OF m'(5)]) (use o i in \<open>simp add: outside_def\<close>)
    have "y \<notin> list_nodes (km_free m c) ((fl(i := xs)) c)" if "c < DESC_COUNT" for c
      using o sub [of c] that by (auto simp: outside_def simp del: fun_upd_apply)
    then show "outside m' (fl(i := xs)) y" using o m'(6,8) kp by (simp add: outside_def del: fun_upd_apply)
  qed
  obtain j where j: "j < bm_size (kmap m)" "bm_bit (kmap m) j" "get_block_arena x = kpage m j"
    by (rule block_of_page [OF a(1,2) i bx])
  have "x \<notin> list_nodes (km_free m c) ((fl(i := xs)) c)" if c: "c < DESC_COUNT" for c
  proof (cases "c = i")
    case True
    then show ?thesis
      using rep head_page [OF a(3) i a(2) j(1)] j(3) by (auto simp: list_rep_def list_nodes_def)
  next
    case False
    then show ?thesis using arena_nodes_disjoint [OF ok i c] fl by (auto simp: list_nodes_def)
  qed
  moreover have "get_block_arena x \<noteq> kpage m k" if "k < bm_size (kmap m)" "\<not> bm_bit (kmap m) k" for k
    using that j kpage_inject [OF a(2) j(1) that(1)] by auto
  ultimately have "outside m' (fl(i := xs)) x" using m'(6,8) kp by (simp add: outside_def)
  moreover have "\<not> outside m fl x" using i fl by (auto simp: outside_def list_nodes_def)
  ultimately show ?thesis using m' out by blast
qed

lemma kmalloc_small:
  assumes ok: "arena_ok m fl" and sz: "sz \<le> 1024" and free: "\<exists>s. free_run (kmap m) s 1"
  shows "\<exists>x m' fl' i. kmalloc m sz = Some (x, m') \<and> arena_ok m' fl' \<and> i < DESC_COUNT \<and>
    sz \<le> block_size (km_descs m' ! i) \<and> block_of m' i x \<and> unlinked (km_heap m') x \<and>
    \<not> outside m fl x \<and> outside m' fl' x \<and> km_free m' = km_free m \<and>
    (\<forall>y. outside m fl y \<longrightarrow> outside m' fl' y \<and> same_node (km_heap m) (km_heap m') y) \<and>
    keeps_blocks m m' \<and> page_count_grows m m'"
proof -
  have a: "descs_ok m" "kmap_low (kmap m)" using ok by (auto simp: arena_ok_def)
  define i where "i = find_desc DESC_COUNT 0 m sz"
  have i: "i < DESC_COUNT" "sz \<le> block_size (km_descs m ! i)"
    unfolding i_def by (rule find_desc_spec [OF a(1) sz])+
  have emp: "list_empty (km_heap m) (km_free m i) = Some (fl i = [])"
    using ok i(1) by (intro list_empty_rep) (simp add: arena_ok_def)
  have km: "kmalloc m sz = Option.bind (if fl i = [] then refill m i else Some m) (\<lambda>m. take_block m i)"
    using sz emp by (simp add: kmalloc_def i_def [symmetric] Let_def not_less [symmetric])
  obtain m1 x xs fl1 where m1: "(if fl i = [] then refill m i else Some m) = Some m1" "arena_ok m1 fl1"
      "fl1 i = x # xs" "block_size (km_descs m1 ! i) = block_size (km_descs m ! i)" "km_free m1 = km_free m"
      "\<not> outside m fl x"
      "\<forall>y. outside m fl y \<longrightarrow> outside m1 fl1 y \<and> same_node (km_heap m) (km_heap m1) y" "keeps_blocks m m1"
      "page_count_grows m m1"
  proof (cases "fl i")
    case (Cons x xs)
    then have "\<not> outside m fl x" using i(1) by (auto simp: outside_def list_nodes_def)
    then show ?thesis using that [of m fl x xs] ok Cons by (simp add: same_node_def page_count_grows_def)
  next
    case Nil
    obtain m' fl' x xs where r: "refill m i = Some m'" "arena_ok m' fl'" "fl' i = x # xs" "km_free m' = km_free m"
        "block_size (km_descs m' ! i) = block_size (km_descs m ! i)"
        "\<exists>j < bm_size (kmap m). \<not> bm_bit (kmap m) j \<and> get_block_arena x = kpage m j"
        "\<forall>y. outside m fl y \<longrightarrow> outside m' fl' y \<and> same_node (km_heap m) (km_heap m') y" "keeps_blocks m m'"
        "page_count_grows m m'"
      using refill_outside [OF ok i(1) Nil free] by blast
    have "\<not> outside m fl x" using r(6) by (auto simp: outside_def)
    then show ?thesis using that [of m' fl' x xs] r Nil by simp
  qed
  obtain m' where m': "take_block m1 i = Some (x, m')" "arena_ok m' (fl1(i := xs))" "block_of m' i x"
      "unlinked (km_heap m') x" "km_descs m' = km_descs m1" "km_free m' = km_free m1"
      "outside m' (fl1(i := xs)) x"
      "\<forall>y. outside m1 fl1 y \<longrightarrow> outside m' (fl1(i := xs)) y \<and> same_node (km_heap m1) (km_heap m') y"
      "keeps_blocks m1 m'"
    using take_block_outside [OF m1(2) i(1) m1(3)] by blast
  have "kmalloc m sz = Some (x, m')" using km m1(1) m'(1) by simp
  moreover have "outside m' (fl1(i := xs)) y \<and> same_node (km_heap m) (km_heap m') y" if "outside m fl y" for y
    using that m1(7) m'(8) by (auto simp: same_node_def)
  moreover have "keeps_blocks m m'" by (rule keeps_blocks_trans [OF m1(8) m'(9)])
  moreover have "page_count_grows m m'" using m1(9) m'(5) by (simp add: page_count_grows_def)
  ultimately show ?thesis
    using m1(4-6) m'(2-7) i
    by (intro exI [of _ x] exI [of _ m'] exI [of _ "fl1(i := xs)"] exI [of _ i]) simp
qed

text \<open>
  A block comes back: as long as its class has at most four pages, \<^verbatim>\<open>kfree\<close> only puts it in front
  of the free list.
\<close>

lemma kfree_small:
  assumes ok: "arena_ok m fl" and i: "i < DESC_COUNT" and x: "block_of m i x" "x \<notin> set (fl i)"
    and few: "sint (page_count (km_descs m ! i)) \<le> BUF_COUNT"
  shows "\<exists>m'. kfree m x = Some m' \<and> arena_ok m' (fl(i := x # fl i)) \<and> km_pool m' = km_pool m \<and>
    same_outside (insert x (list_nodes (km_free m i) (fl i))) (km_heap m) (km_heap m') \<and>
    km_free m' = km_free m \<and> km_descs m' = km_descs m \<and> keeps_blocks m m'"
proof -
  have a: "descs_ok m" "kmap_low (kmap m)" "heads_ok m" using ok by (auto simp: arena_ok_def)
  have rep: "list_rep (km_heap m) (km_free m i) (fl i)" using ok i by (simp add: arena_ok_def)
  obtain j where j: "j < bm_size (kmap m)" "get_block_arena x = kpage m j" "arena_of m i (kpage m j)" "x \<noteq> NULL"
    by (rule block_of_page [OF a(1,2) i x(1)])
  have nd: "x \<notin> list_nodes (km_free m i) (fl i)"
    using x(2) head_page [OF a(3) i a(2) j(1)] j(2) by (auto simp: list_nodes_def)
  obtain h where h: "list_push (km_heap m) (km_free m i) x = Some h" "list_rep h (km_free m i) (x # fl i)"
      "same_outside (insert x (list_nodes (km_free m i) (fl i))) (km_heap m) h"
    using list_push_rep [OF rep nd j(4)] by blast
  let ?a = "kpage m j"
  let ?m = "m\<lparr>km_heap := h, km_arenas := (km_arenas m)(?a := (km_arenas m ?a)\<lparr>ar_count := ar_count (km_arenas m ?a) + 1\<rparr>)\<rparr>"
  have len: "i < length (km_descs m)" using a(1) i by (simp add: descs_ok_def)
  have fr: "kfree m x = Some ?m"
    using j h(1) few len by (simp add: kfree_def arena_of_def Let_def)
  have same: "descs_ok ?m = descs_ok m" "heads_ok ?m = heads_ok m" "blk ?m = blk m" "blocks ?m = blocks m"
    "kpage ?m = kpage m"
    by (simp_all add: descs_ok_def heads_ok_def blk_def blocks_def kpage_def fun_eq_iff)
  have ar: "arena_of ?m c b = arena_of m c b" for c b by (simp add: arena_of_def)
  have blo: "block_of ?m c y = block_of m c y" for c y
    unfolding block_of_def same ar by simp
  have "list_rep h (km_free m c) (fl c)" if c: "c < DESC_COUNT" "c \<noteq> i" for c
  proof (rule list_rep_frame [OF _ h(3)])
    show "list_rep (km_heap m) (km_free m c) (fl c)" using ok c by (simp add: arena_ok_def)
    have "x \<notin> list_nodes (km_free m c) (fl c)"
    proof
      assume "x \<in> list_nodes (km_free m c) (fl c)"
      then have "x \<in> set (fl c)"
        using head_page [OF a(3) c(1) a(2) j(1)] j(2) by (auto simp: list_nodes_def)
      then have b: "block_of m c x" using ok c by (simp add: arena_ok_def)
      show False
        by (rule block_of_page [OF a(1,2) c(1) b]) (use j(2,3) c(2) in \<open>auto simp: arena_of_def\<close>)
    qed
    then show "insert x (list_nodes (km_free m i) (fl i)) \<inter> list_nodes (km_free m c) (fl c) = {}"
      using arena_nodes_disjoint [OF ok i c(1)] c(2) by auto
  qed
  then have "arena_ok ?m (fl(i := x # fl i))"
    using ok a h(2) x(1) unfolding arena_ok_def same blo by auto
  moreover have "keeps_blocks m ?m" unfolding keeps_blocks_def blo by simp
  ultimately show ?thesis using fr h(3) by auto
qed

lemma kfree_outside:
  assumes ok: "arena_ok m fl" and i: "i < DESC_COUNT" and x: "block_of m i x" "outside m fl x"
    and few: "sint (page_count (km_descs m ! i)) \<le> BUF_COUNT"
  shows "\<exists>m'. kfree m x = Some m' \<and> arena_ok m' (fl(i := x # fl i)) \<and> km_free m' = km_free m \<and>
    km_descs m' = km_descs m \<and> keeps_blocks m m' \<and>
    (\<forall>y. outside m fl y \<and> y \<noteq> x \<longrightarrow> outside m' (fl(i := x # fl i)) y \<and> same_node (km_heap m) (km_heap m') y)"
proof -
  have nx: "x \<notin> set (fl i)" using x(2) i by (auto simp: outside_def list_nodes_def)
  obtain m' where m': "kfree m x = Some m'" "arena_ok m' (fl(i := x # fl i))" "km_pool m' = km_pool m"
      "same_outside (insert x (list_nodes (km_free m i) (fl i))) (km_heap m) (km_heap m')"
      "km_free m' = km_free m" "km_descs m' = km_descs m" "keeps_blocks m m'"
    using kfree_small [OF ok i x(1) nx few] by blast
  have "outside m' (fl(i := x # fl i)) y \<and> same_node (km_heap m) (km_heap m') y"
    if o: "outside m fl y" and ne: "y \<noteq> x" for y
  proof
    show "same_node (km_heap m) (km_heap m') y"
      by (rule same_outside_node [OF m'(4)]) (use o i ne in \<open>simp add: outside_def\<close>)
    show "outside m' (fl(i := x # fl i)) y"
      using o ne m'(3,5) by (auto simp: outside_def list_nodes_def kpage_def)
  qed
  then show ?thesis using m' by blast
qed

subsection \<open>Start\<close>

lemma arena_init_loop_spec:
  assumes "i + n = DESC_COUNT" and "unat bs = 16 * 2 ^ i" and "heads_ok m"
    and "length (km_descs m) = DESC_COUNT" and "\<forall>c < DESC_COUNT. km_free m c \<noteq> NULL"
    and "\<forall>c < i. list_rep (km_heap m) (km_free m c) [] \<and>
      unat (block_size (km_descs m ! c)) = 16 * 2 ^ c \<and> blocks m c = 4080 div (16 * 2 ^ c) \<and>
      page_count (km_descs m ! c) = 0"
  shows "\<exists>m'. arena_init_loop n i bs m = Some m' \<and> km_free m' = km_free m \<and> km_pool m' = km_pool m \<and>
    descs_ok m' \<and> (\<forall>c < DESC_COUNT. list_rep (km_heap m') (km_free m c) [] \<and> page_count (km_descs m' ! c) = 0)"
  using assms
proof (induction n arbitrary: i bs m)
  case 0
  then show ?case by (simp add: descs_ok_def)
next
  case (Suc n)
  have i: "i < DESC_COUNT" using Suc.prems(1) by simp
  let ?l = "km_free m i"
  have lt: "unat ?l + 8 < 0x100000" using Suc.prems(3) i by (simp add: heads_ok_def)
  then have "unat (?l + 8) = unat ?l + 8" by (subst unat_plus_small) auto
  then have "?l + 8 \<noteq> NULL" by (auto simp: word_unat_eq_iff)
  then obtain h where h: "list_init (km_heap m) ?l = Some h" "list_rep h ?l []"
      "same_outside {?l, ?l + 8} (km_heap m) h"
    using list_init_rep [of ?l "km_heap m"] Suc.prems(5) i by blast
  let ?d = "\<lparr>total_block = (PAGE_SIZE - ARENA_SIZE) div bs, block_size = bs, page_count = 0\<rparr>"
  let ?m = "m\<lparr>km_descs := (km_descs m)[i := ?d], km_heap := h\<rparr>"
  have i6: "i \<le> 6" using i by (simp add: DESC_COUNT_def)
  then have le: "2 ^ i \<le> (64 :: nat)" using power_increasing [of i 6 "2 :: nat"] by simp
  have tb: "unat ((PAGE_SIZE - ARENA_SIZE) div bs) = 4080 div (16 * 2 ^ i)"
    using Suc.prems(2) by (simp add: unat_div PAGE_SIZE_def ARENA_SIZE_def)
  have bs: "unat (push_bit 1 bs) = 16 * 2 ^ Suc i"
    using Suc.prems(2) le by (subst unat_push_bit_small) auto
  have "\<exists>m'. arena_init_loop n (Suc i) (push_bit 1 bs) ?m = Some m' \<and> km_free m' = km_free ?m \<and>
      km_pool m' = km_pool ?m \<and> descs_ok m' \<and>
      (\<forall>c < DESC_COUNT. list_rep (km_heap m') (km_free ?m c) [] \<and> page_count (km_descs m' ! c) = 0)"
  proof (rule Suc.IH)
    show "\<forall>c < Suc i. list_rep (km_heap ?m) (km_free ?m c) [] \<and>
        unat (block_size (km_descs ?m ! c)) = 16 * 2 ^ c \<and> blocks ?m c = 4080 div (16 * 2 ^ c) \<and>
        page_count (km_descs ?m ! c) = 0"
    proof (intro allI impI)
      fix c assume c: "c < Suc i"
      show "list_rep (km_heap ?m) (km_free ?m c) [] \<and>
        unat (block_size (km_descs ?m ! c)) = 16 * 2 ^ c \<and> blocks ?m c = 4080 div (16 * 2 ^ c) \<and>
        page_count (km_descs ?m ! c) = 0"
      proof (cases "c = i")
        case True
        then show ?thesis using h(2) Suc.prems(2,4) i tb by (simp add: blocks_def)
      next
        case False
        then have ci: "c < i" using c by simp
        have "list_rep h (km_free m c) []"
          by (rule list_rep_frame [OF _ h(3)])
            (use Suc.prems(3,6) ci i in \<open>auto simp: heads_ok_def list_nodes_def\<close>)
        then show ?thesis using Suc.prems(6) ci by (simp add: blocks_def)
      qed
    qed
  qed (use Suc.prems bs in \<open>auto simp: heads_ok_def\<close>)
  then show ?case using h(1) Suc.prems(4) i by simp
qed

lemma arena_init_ok:
  assumes "heads_ok m" and "length (km_descs m) = DESC_COUNT" and "\<forall>c < DESC_COUNT. km_free m c \<noteq> NULL"
    and "kmap_low (kmap m)"
  shows "\<exists>m'. arena_init m = Some m' \<and> arena_ok m' (\<lambda>_. []) \<and> km_pool m' = km_pool m \<and> km_free m' = km_free m \<and>
    (\<forall>c < DESC_COUNT. page_count (km_descs m' ! c) = 0)"
  using arena_init_loop_spec [of 0 DESC_COUNT 16 m] assms
  by (auto simp: arena_init_def arena_ok_def heads_ok_def)

subsection \<open>Properties\<close>

text \<open>
  C4. Heap allocation. On a well-formed heap with a free kernel page left, \<^verbatim>\<open>kmalloc\<close> of at most
  1024 bytes returns: the block belongs to a class whose blocks are large enough, lies in an
  allocated page of that class, was free before and is the allocator's no more, is an unlinked
  list node; the heap stays well formed, and every node that was not the allocator's keeps its
  links and stays out of it. Blocks in use stay blocks of their class, and at most one page is
  added to a class.
\<close>

theorem kmalloc_returns_free_block:
  assumes "arena_ok m fl" and "sz \<le> 1024" and "\<exists>s. free_run (kmap m) s 1"
  shows "\<exists>x m' fl' i. kmalloc m sz = Some (x, m') \<and> arena_ok m' fl' \<and> i < DESC_COUNT \<and>
    sz \<le> block_size (km_descs m' ! i) \<and> block_of m' i x \<and> unlinked (km_heap m') x \<and>
    \<not> outside m fl x \<and> outside m' fl' x \<and> km_free m' = km_free m \<and>
    (\<forall>y. outside m fl y \<longrightarrow> outside m' fl' y \<and> same_node (km_heap m) (km_heap m') y) \<and>
    keeps_blocks m m' \<and> page_count_grows m m'"
  by (rule kmalloc_small [OF assms])

lemma take_block_kfree:
  assumes ok: "arena_ok m fl" and i: "i < DESC_COUNT" and fl: "fl i \<noteq> []"
    and few: "sint (page_count (km_descs m ! i)) \<le> BUF_COUNT"
  shows "\<exists>x m' m''. take_block m i = Some (x, m') \<and> kfree m' x = Some m'' \<and> arena_ok m'' fl \<and> km_pool m'' = km_pool m"
proof -
  obtain x xs where xs: "fl i = x # xs" using fl by (meson neq_Nil_conv)
  have rep: "list_rep (km_heap m) (km_free m i) (x # xs)" using ok i xs by (auto simp: arena_ok_def)
  obtain m' where m': "take_block m i = Some (x, m')" "arena_ok m' (fl(i := xs))" "block_of m' i x"
      "km_pool m' = km_pool m" "km_descs m' = km_descs m"
    using take_block_spec [OF ok i xs] by blast
  have "x \<notin> set ((fl(i := xs)) i)" using rep by (simp add: list_rep_def)
  then obtain m'' where "kfree m' x = Some m''" "arena_ok m'' ((fl(i := xs))(i := x # (fl(i := xs)) i))"
      "km_pool m'' = km_pool m'"
    using kfree_small [OF m'(2) i m'(3)] few m'(5) by auto
  moreover have "(fl(i := xs))(i := x # (fl(i := xs)) i) = fl" using xs by auto
  ultimately show ?thesis using m'(1,4) by auto
qed

text \<open>
  C36. Allocation and release. On a well-formed heap, for a request of at most 1024 bytes whose class
  then has at most four pages (with more, \<^verbatim>\<open>kfree\<close> may give a page back), \<^verbatim>\<open>kmalloc\<close> followed by
  \<^verbatim>\<open>kfree\<close> of its result succeeds. When the class had a free block, every free list and the page pool
  are as before. When it had none (and a kernel page is free), the free list of the class afterwards
  holds exactly the blocks of one fresh page, which stays with the class; the other free lists and all
  other kernel pages are as before.
\<close>

theorem kmalloc_kfree_roundtrip:
  assumes "arena_ok m fl" and "sz \<le> 1024" and "i = find_desc DESC_COUNT 0 m sz"
    and "sint (page_count (km_descs m ! i) + (if fl i = [] then 1 else 0)) \<le> BUF_COUNT"
    and "fl i = [] \<longrightarrow> (\<exists>s. free_run (kmap m) s 1)"
  shows "\<exists>x m' m'' fl''. kmalloc m sz = Some (x, m') \<and> kfree m' x = Some m'' \<and> arena_ok m'' fl'' \<and>
    (\<forall>c. c \<noteq> i \<longrightarrow> fl'' c = fl c) \<and>
    (if fl i \<noteq> [] then fl'' i = fl i \<and> km_pool m'' = km_pool m
     else \<exists>j < bm_size (kmap m). \<not> bm_bit (kmap m) j \<and>
       fl'' i = rev (map (blk m i (kpage m j)) [0..<blocks m i]) \<and>
       (\<forall>k. bm_bit (kmap m'') k \<longleftrightarrow> k = j \<or> bm_bit (kmap m) k))"
proof -
  have ds: "descs_ok m" using assms(1) by (simp add: arena_ok_def)
  have i: "i < DESC_COUNT" unfolding assms(3) by (rule find_desc_spec [OF ds assms(2)])
  have emp: "list_empty (km_heap m) (km_free m i) = Some (fl i = [])"
    using assms(1) i by (intro list_empty_rep) (simp add: arena_ok_def)
  have km: "kmalloc m sz = Option.bind (if fl i = [] then refill m i else Some m) (\<lambda>m. take_block m i)"
    using assms(2) emp by (simp add: kmalloc_def assms(3) [symmetric] Let_def not_less [symmetric])
  show ?thesis
  proof (cases "fl i = []")
    case False
    then show ?thesis
      using take_block_kfree [OF assms(1) i False] assms(4) unfolding km by auto
  next
    case True
    obtain m1 j where r: "refill m i = Some m1" "j < bm_size (kmap m)" "\<not> bm_bit (kmap m) j"
        "arena_ok m1 (fl(i := rev (map (blk m i (kpage m j)) [0..<blocks m i])))"
        "page_count (km_descs m1 ! i) = page_count (km_descs m ! i) + 1"
        "\<forall>k. bm_bit (kmap m1) k \<longleftrightarrow> k = j \<or> bm_bit (kmap m) k"
      using refill_spec [OF assms(1) i True] assms(5) True by blast
    let ?fl = "fl(i := rev (map (blk m i (kpage m j)) [0..<blocks m i]))"
    have "?fl i \<noteq> []" using blocks_bound(2) [OF ds i] by simp
    then obtain x m' m'' where "take_block m1 i = Some (x, m')" "kfree m' x = Some m''" "arena_ok m'' ?fl" "km_pool m'' = km_pool m1"
      using take_block_kfree [OF r(4) i] assms(4) True r(5) by auto
    then show ?thesis using True r
      by (intro exI [of _ x] exI [of _ m'] exI [of _ m''] exI [of _ ?fl]) (auto simp: km)
  qed
qed

text \<open>A heap before \<^verbatim>\<open>arena_init\<close>, with an empty kernel map.\<close>

definition sample_kmem :: kmem where
  "sample_kmem = \<lparr>km_heap = sample_heap,
     km_pool = sample_pool\<lparr>kernel_map := bitmap_make (replicate 352 0) 352 256\<rparr>,
     km_descs = replicate 7 \<lparr>total_block = 0, block_size = 0, page_count = 0\<rparr>,
     km_free = (\<lambda>i. 0x10000 + of_nat i * 32), km_arenas = (\<lambda>_. no_arena)\<rparr>"

lemma sample_kmem_init:
  obtains m where "arena_init sample_kmem = Some m" and "arena_ok m (\<lambda>_. [])" and "free_run (kmap m) 0 1"
    and "\<forall>c < DESC_COUNT. page_count (km_descs m ! c) = 0" and "km_free m = (\<lambda>i. 0x10000 + of_nat i * 32)"
proof -
  let ?km = "bitmap_make (replicate 352 0) 352 256"
  have km: "kmap sample_kmem = ?km" by (simp add: sample_kmem_def)
  have low: "kmap_low ?km"
    by (simp add: kmap_low_def kmap_ok_def bm_ok_def bm_size_def bitmap_make_def)
  have run: "free_run ?km 0 1"
    by (simp add: free_run_def bm_size_def bm_bit_def bitmap_make_def)
  have fr: "km_free sample_kmem c = 0x10000 + of_nat c * 32" for c by (simp add: sample_kmem_def)
  have hd: "unat (km_free sample_kmem c) = 65536 + c * 32" if "c < DESC_COUNT" for c
    using that unfolding less_DESC fr by auto
  have hd8: "unat (km_free sample_kmem c + 8) = 65544 + c * 32" if "c < DESC_COUNT" for c
    using that unfolding less_DESC fr by auto
  have "heads_ok sample_kmem"
    unfolding heads_ok_def
  proof (intro conjI allI impI)
    fix c assume c: "c < DESC_COUNT"
    show "unat (km_free sample_kmem c) + 8 < 0x100000" using hd [OF c] c by (simp add: DESC_COUNT_def)
    fix d assume d: "d < DESC_COUNT" "c \<noteq> d"
    show "{km_free sample_kmem c, km_free sample_kmem c + 8} \<inter> {km_free sample_kmem d, km_free sample_kmem d + 8} = {}"
      using hd [OF c] hd8 [OF c] hd [OF d(1)] hd8 [OF d(1)] d(2) by (auto simp: word_unat_eq_iff)
  qed
  moreover have "length (km_descs sample_kmem) = DESC_COUNT" by (simp add: sample_kmem_def DESC_COUNT_def)
  moreover have "\<forall>c < DESC_COUNT. km_free sample_kmem c \<noteq> NULL"
  proof (intro allI impI notI)
    fix c assume "c < DESC_COUNT" and z: "km_free sample_kmem c = NULL"
    from hd [OF this(1)] show False unfolding z by simp
  qed
  ultimately show thesis
    using arena_init_ok [of sample_kmem] km low run that fr by (auto simp: fun_eq_iff)
qed

theorem kmalloc_returns_free_block_witness:
  "\<exists>m x m'. arena_init sample_kmem = Some m \<and> kmalloc m 100 = Some (x, m') \<and> unlinked (km_heap m') x"
proof -
  obtain m where m: "arena_init sample_kmem = Some m" "arena_ok m (\<lambda>_. [])" "free_run (kmap m) 0 1"
    by (rule sample_kmem_init)
  then show ?thesis
    using kmalloc_returns_free_block [OF m(2), of 100] by auto
qed

theorem kmalloc_kfree_roundtrip_witness:
  "\<exists>m x m' m'' fl''. arena_init sample_kmem = Some m \<and> kmalloc m 16 = Some (x, m') \<and> kfree m' x = Some m'' \<and>
    arena_ok m'' fl'' \<and> length (fl'' 0) = blocks m 0"
proof -
  have z: "0 < DESC_COUNT" by (simp add: DESC_COUNT_def)
  obtain m where m: "arena_init sample_kmem = Some m" "arena_ok m (\<lambda>_. [])" "free_run (kmap m) 0 1"
      "page_count (km_descs m ! 0) = 0"
    using sample_kmem_init z by metis
  have ds: "descs_ok m" using m(2) by (simp add: arena_ok_def)
  have "unat (block_size (km_descs m ! 0)) = 16" using ds by (simp add: descs_ok_def DESC_COUNT_def)
  then have bs: "block_size (km_descs m ! 0) = 16" by (simp add: word_unat_eq_iff)
  have fd: "0 = find_desc DESC_COUNT 0 m 16" using bs by (simp add: DESC_COUNT_def numeral_eq_Suc)
  have few: "sint (page_count (km_descs m ! 0) + (if (\<lambda>_ :: nat. [] :: u32 list) 0 = [] then 1 else 0)) \<le> BUF_COUNT"
    using m(4) by (simp add: BUF_COUNT_def)
  obtain x m' m'' fl'' j where "kmalloc m 16 = Some (x, m')" "kfree m' x = Some m''" "arena_ok m'' fl''"
      "fl'' 0 = rev (map (blk m 0 (kpage m j)) [0..<blocks m 0])"
    using kmalloc_kfree_roundtrip [OF m(2) _ fd few] m(3) by fastforce
  with m(1) show ?thesis by (intro exI [of _ m] exI [of _ x] exI [of _ m'] exI [of _ m''] exI [of _ fl'']) simp
qed

end
