(* ===== verification/Onix_Task.thy ===== *)
theory Onix_Task
  imports Onix_Arena Onix_Paging
begin

section \<open>Scheduling, blocking and timers (src/kernel/task.c, timer.c, clock.c)\<close>

text \<open>
  The kernel state: the heap and list nodes (\<open>k_mem\<close>), the task structures by address, the table
  of 64 task pointers, the running task (\<^verbatim>\<open>running_task\<close> masks the stack pointer, so it is the
  address of the current task's page), the addresses of the three lists of tasks and timers, the
  timer structures, the tick counter, the interrupt flag and the processor registers a switch sets.

  \<^verbatim>\<open>task_switch\<close> saves the stack of the running task and continues on the stack of the next one:
  in the model the next task becomes \<open>k_current\<close>. A call that comes after \<^verbatim>\<open>schedule()\<close> in the
  code runs when its task is chosen again; the operations here end at the switch, and
  \<open>Onix_Mutex\<close> resumes them as steps of a transition system.
\<close>

record timer_t =
  tm_task :: u32
  tm_expires :: u32
  tm_handler :: u32
  tm_arg :: u32
  tm_active :: bool

record kernel =
  k_mem :: kmem
  k_tasks :: "u32 \<Rightarrow> task_t"
  task_table :: "u32 list"
  k_current :: u32
  idle_task :: u32
  block_list :: u32
  sleep_list :: u32
  timer_list :: u32
  k_timers :: "u32 \<Rightarrow> timer_t"
  jiffies :: u32
  jiffy :: u32
  k_intr :: bool
  k_cr3 :: u32
  k_esp0 :: u32
  k_fpu_off :: bool

abbreviation k_heap :: "kernel \<Rightarrow> list_heap" where
  "k_heap k \<equiv> km_heap (k_mem k)"

definition with_heap :: "kernel \<Rightarrow> list_heap \<Rightarrow> kernel" where
  "with_heap k h = k\<lparr>k_mem := (k_mem k)\<lparr>km_heap := h\<rparr>\<rparr>"

definition upd_task :: "kernel \<Rightarrow> u32 \<Rightarrow> (task_t \<Rightarrow> task_t) \<Rightarrow> kernel" where
  "upd_task k t f = k\<lparr>k_tasks := (k_tasks k)(t := f (k_tasks k t))\<rparr>"

definition upd_timer :: "kernel \<Rightarrow> u32 \<Rightarrow> (timer_t \<Rightarrow> timer_t) \<Rightarrow> kernel" where
  "upd_timer k t f = k\<lparr>k_timers := (k_timers k)(t := f (k_timers k t))\<rparr>"

subsection \<open>Looking up tasks\<close>

definition running_task :: "kernel \<Rightarrow> u32" where
  "running_task k = k_current k"

fun get_task_loop :: "kernel \<Rightarrow> u32 list \<Rightarrow> u32 \<Rightarrow> u32" where
  "get_task_loop k [] pid = NULL"
| "get_task_loop k (p # ps) pid =
     (if p = NULL then get_task_loop k ps pid
      else if t_pid (k_tasks k p) = pid then p
      else get_task_loop k ps pid)"

definition get_task :: "kernel \<Rightarrow> u32 \<Rightarrow> u32" where
  "get_task k pid = get_task_loop k (task_table k) pid"

definition sys_getpid :: "kernel \<Rightarrow> u32" where
  "sys_getpid k = t_pid (k_tasks k (running_task k))"

definition sys_getppid :: "kernel \<Rightarrow> u32" where
  "sys_getppid k = t_ppid (k_tasks k (running_task k))"

definition search_step :: "kernel \<Rightarrow> task_state_t \<Rightarrow> u32 \<Rightarrow> u32 \<Rightarrow> u32" where
  "search_step k state task ptr =
     (if ptr = NULL then task
      else if t_state (k_tasks k ptr) \<noteq> state then task
      else if running_task k = ptr then task
      else if task = NULL \<or> sint (t_ticks (k_tasks k task)) < sint (t_ticks (k_tasks k ptr)) \<or>
              t_jiffies (k_tasks k ptr) < t_jiffies (k_tasks k task)
      then ptr else task)"

definition task_search :: "kernel \<Rightarrow> task_state_t \<Rightarrow> u32 option" where
  "task_search k state = do {
     kassert (\<not> k_intr k);
     let task = foldl (search_step k state) NULL (task_table k);
     Some (if task = NULL \<and> state = TASK_READY then idle_task k else task)
   }"

subsection \<open>Switching\<close>

definition task_activate :: "kernel \<Rightarrow> u32 \<Rightarrow> kernel option" where
  "task_activate k task = do {
     let t = k_tasks k task;
     kassert (t_magic t = ONIX_MAGIC);
     k \<leftarrow> (if t_pde t \<noteq> k_cr3 k then do {
            ASSERT_PAGE (t_pde t);
            Some (k\<lparr>k_cr3 := t_pde t\<rparr>)
          } else Some k);
     Some (if t_uid t \<noteq> KERNEL_USER then k\<lparr>k_esp0 := task + PAGE_SIZE\<rparr> else k)
   }"

definition schedule :: "kernel \<Rightarrow> kernel option" where
  "schedule k = do {
     kassert (\<not> k_intr k);
     let current = running_task k;
     next \<leftarrow> task_search k TASK_READY;
     kassert (next \<noteq> NULL);
     kassert (t_magic (k_tasks k next) = ONIX_MAGIC);
     let k = (if t_state (k_tasks k current) = TASK_RUNNING
              then upd_task k current (t_state_update (\<lambda>_. TASK_READY)) else k);
     let k = (if t_ticks (k_tasks k current) = 0
              then upd_task k current (\<lambda>t. t\<lparr>t_ticks := t_priority t\<rparr>) else k);
     let k = upd_task k next (t_state_update (\<lambda>_. TASK_RUNNING));
     if next = current then Some k
     else do {
       let k = k\<lparr>k_fpu_off := True\<rparr>;
       k \<leftarrow> task_activate k next;
       Some (k\<lparr>k_current := next\<rparr>)
     }
   }"

definition task_yield :: "kernel \<Rightarrow> kernel option" where
  "task_yield k = schedule k"

definition task_leader :: "kernel \<Rightarrow> u32 \<Rightarrow> bool" where
  "task_leader k task \<longleftrightarrow> t_sid (k_tasks k task) = t_pid (k_tasks k task)"

subsection \<open>Timers\<close>

text \<open>\<^verbatim>\<open>sizeof(timer_t)\<close>: the node, four words and a flag, padded.\<close>

definition TIMER_SIZE :: u32 where "TIMER_SIZE = 28"

definition timer_get :: "kernel \<Rightarrow> (u32 \<times> kernel) option" where
  "timer_get k = do { (a, m) \<leftarrow> kmalloc (k_mem k) TIMER_SIZE; Some (a, k\<lparr>k_mem := m\<rparr>) }"

definition timer_put :: "kernel \<Rightarrow> u32 \<Rightarrow> kernel option" where
  "timer_put k timer = do {
     h \<leftarrow> list_remove (k_heap k) timer;
     m \<leftarrow> kfree ((k_mem k)\<lparr>km_heap := h\<rparr>) timer;
     Some (k\<lparr>k_mem := m\<rparr>)
   }"

definition timer_expire_jiffies :: "kernel \<Rightarrow> u32 \<Rightarrow> u32 option" where
  "timer_expire_jiffies k expire_ms = do {
     kassert (jiffy k \<noteq> 0);
     Some (jiffies k + expire_ms div jiffy k)
   }"

definition timer_is_expires :: "kernel \<Rightarrow> u32 \<Rightarrow> bool" where
  "timer_is_expires k expires \<longleftrightarrow> jiffies k > expires"

text \<open>The key of \<^verbatim>\<open>list_insert_sort\<close>: the word at \<^verbatim>\<open>expires\<close> of the timer of a node.\<close>

definition expires_key :: "kernel \<Rightarrow> u32 \<Rightarrow> u32" where
  "expires_key k timer = tm_expires (k_timers k timer)"

definition timer_add :: "kernel \<Rightarrow> u32 \<Rightarrow> u32 \<Rightarrow> u32 \<Rightarrow> (u32 \<times> kernel) option" where
  "timer_add k expire_ms handler arg = do {
     (timer, k) \<leftarrow> timer_get k;
     e \<leftarrow> timer_expire_jiffies k expire_ms;
     let k = upd_timer k timer (\<lambda>_. \<lparr>tm_task = running_task k, tm_expires = e, tm_handler = handler,
               tm_arg = arg, tm_active = False\<rparr>);
     h \<leftarrow> list_insert_sort (k_heap k) (timer_list k) timer (expires_key k);
     Some (timer, with_heap k h)
   }"

definition timer_update :: "kernel \<Rightarrow> u32 \<Rightarrow> u32 \<Rightarrow> kernel option" where
  "timer_update k timer expire_ms = do {
     h \<leftarrow> list_remove (k_heap k) timer;
     e \<leftarrow> timer_expire_jiffies k expire_ms;
     let k = upd_timer (with_heap k h) timer (\<lambda>t. t\<lparr>tm_expires := e\<rparr>);
     h \<leftarrow> list_insert_sort (k_heap k) (timer_list k) timer (expires_key k);
     Some (with_heap k h)
   }"

definition timer_expires :: "kernel \<Rightarrow> u32 option" where
  "timer_expires k = do {
     e \<leftarrow> list_empty (k_heap k) (timer_list k);
     if e then Some EOF
     else do {
       timer \<leftarrow> get_next (k_heap k) (list_head (timer_list k));
       Some (tm_expires (k_timers k timer))
     }
   }"

definition timer_init :: "kernel \<Rightarrow> kernel option" where
  "timer_init k = do { h \<leftarrow> list_init (k_heap k) (timer_list k); Some (with_heap k h) }"

partial_function (option) timer_remove_loop :: "kernel \<Rightarrow> u32 \<Rightarrow> u32 \<Rightarrow> kernel option" where
  "timer_remove_loop k task ptr =
     (if ptr = list_tail (timer_list k) then Some k
      else do {
        let timer = ptr;
        ptr \<leftarrow> get_next (k_heap k) ptr;
        k \<leftarrow> (if tm_task (k_timers k timer) \<noteq> task then Some k else timer_put k timer);
        timer_remove_loop k task ptr
      })"

declare timer_remove_loop.simps [code]

definition timer_remove :: "kernel \<Rightarrow> u32 \<Rightarrow> kernel option" where
  "timer_remove k task = do {
     ptr \<leftarrow> get_next (k_heap k) (list_head (timer_list k));
     timer_remove_loop k task ptr
   }"

subsection \<open>Blocking and unblocking\<close>

definition task_block :: "kernel \<Rightarrow> u32 \<Rightarrow> u32 \<Rightarrow> task_state_t \<Rightarrow> u32 \<Rightarrow> kernel option" where
  "task_block k task blist state timeout_ms = do {
     kassert (\<not> k_intr k);
     kassert (node_next (k_heap k) (task_node task) = NULL);
     kassert (node_prev (k_heap k) (task_node task) = NULL);
     let blist = (if blist = NULL then block_list k else blist);
     kassert (state \<noteq> TASK_READY \<and> state \<noteq> TASK_RUNNING);
     h \<leftarrow> list_push (k_heap k) blist (task_node task);
     let k = with_heap k h;
     k \<leftarrow> (if sint timeout_ms > 0 then do {
            kassert (t_timer (k_tasks k task) = NULL);
            (timer, k) \<leftarrow> timer_add k timeout_ms NULL NULL;
            Some (upd_task k task (\<lambda>t. t\<lparr>t_timer := timer\<rparr>))
          } else Some k);
     let k = upd_task k task (t_state_update (\<lambda>_. state));
     if running_task k = task then schedule k else Some k
   }"

definition task_unblock :: "kernel \<Rightarrow> u32 \<Rightarrow> u32 \<Rightarrow> kernel option" where
  "task_unblock k task reason = do {
     kassert (\<not> k_intr k);
     k \<leftarrow> (if node_next (k_heap k) (task_node task) \<noteq> NULL
          then do { h \<leftarrow> list_remove (k_heap k) (task_node task); Some (with_heap k h) }
          else Some k);
     let timer = t_timer (k_tasks k task);
     k \<leftarrow> (if timer \<noteq> NULL then do {
            k \<leftarrow> (if \<not> tm_active (k_timers k timer) then timer_put k timer else Some k);
            Some (upd_task k task (\<lambda>t. t\<lparr>t_timer := NULL\<rparr>))
          } else Some k);
     kassert (node_next (k_heap k) (task_node task) = NULL);
     kassert (node_prev (k_heap k) (task_node task) = NULL);
     kassert (t_state (k_tasks k task) \<noteq> TASK_RUNNING);
     Some (upd_task k task (\<lambda>t. t\<lparr>t_status := reason, t_state := TASK_READY\<rparr>))
   }"

definition task_sleep :: "kernel \<Rightarrow> u32 \<Rightarrow> kernel option" where
  "task_sleep k ms = do {
     kassert (\<not> k_intr k);
     task_block k (running_task k) (sleep_list k) TASK_SLEEPING ms
   }"

subsection \<open>The clock\<close>

definition default_timeout :: "kernel \<Rightarrow> u32 \<Rightarrow> kernel option" where
  "default_timeout k timer = task_unblock k (tm_task (k_timers k timer)) (- ETIME)"

text \<open>
  \<open>handler a k timer\<close> is the call of the timer's own function at address \<open>a\<close> (\<^verbatim>\<open>task_alarm\<close>, or
  the timeout of the floppy motor).
\<close>

partial_function (option) timer_wakeup ::
  "(u32 \<Rightarrow> kernel \<Rightarrow> u32 \<Rightarrow> kernel option) \<Rightarrow> kernel \<Rightarrow> kernel option" where
  "timer_wakeup handler k = do {
     e \<leftarrow> timer_expires k;
     if e \<le> jiffies k then do {
       timer \<leftarrow> get_next (k_heap k) (list_head (timer_list k));
       let k = upd_timer k timer (\<lambda>t. t\<lparr>tm_active := True\<rparr>);
       kassert (tm_expires (k_timers k timer) \<le> jiffies k);
       k \<leftarrow> (if tm_handler (k_timers k timer) \<noteq> NULL then handler (tm_handler (k_timers k timer)) k timer
            else default_timeout k timer);
       k \<leftarrow> timer_put k timer;
       timer_wakeup handler k
     }
     else Some k
   }"

declare timer_wakeup.simps [code]

definition clock_handler :: "(u32 \<Rightarrow> kernel \<Rightarrow> u32 \<Rightarrow> kernel option) \<Rightarrow> kernel \<Rightarrow> u32 \<Rightarrow> kernel option" where
  "clock_handler handler k vector = do {
     kassert (vector = 0x20);
     let k = k\<lparr>jiffies := jiffies k + 1\<rparr>;
     k \<leftarrow> timer_wakeup handler k;
     let task = running_task k;
     kassert (t_magic (k_tasks k task) = ONIX_MAGIC);
     let k = upd_task k task (\<lambda>t. t\<lparr>t_jiffies := jiffies k, t_ticks := t_ticks t - 1\<rparr>);
     if t_ticks (k_tasks k task) = 0 then schedule k else Some k
   }"

definition JIFFY :: u32 where "JIFFY = 10"

definition sys_time :: "kernel \<Rightarrow> u32 \<Rightarrow> u32" where
  "sys_time k startup_time = startup_time + (jiffies k * JIFFY) div 1000"

subsection \<open>What the search finds\<close>

text \<open>A task the running one can yield to.\<close>

definition runnable :: "kernel \<Rightarrow> u32 \<Rightarrow> bool" where
  "runnable k p \<longleftrightarrow> p \<in> set (task_table k) \<and> p \<noteq> NULL \<and> t_state (k_tasks k p) = TASK_READY \<and> p \<noteq> running_task k"

text \<open>The comparison of the search: a later candidate replaces an earlier one.\<close>

definition beats :: "kernel \<Rightarrow> u32 \<Rightarrow> u32 \<Rightarrow> bool" where
  "beats k p q \<longleftrightarrow> sint (t_ticks (k_tasks k q)) < sint (t_ticks (k_tasks k p)) \<or>
     t_jiffies (k_tasks k p) < t_jiffies (k_tasks k q)"

definition candidate :: "kernel \<Rightarrow> task_state_t \<Rightarrow> u32 \<Rightarrow> bool" where
  "candidate k s p \<longleftrightarrow> p \<noteq> NULL \<and> t_state (k_tasks k p) = s \<and> p \<noteq> running_task k"

lemma search_step_cases:
  "search_step k s t p = (if candidate k s p \<and> (t = NULL \<or> beats k p t) then p else t)"
  by (auto simp: search_step_def candidate_def beats_def)

lemma search_found:
  assumes "t = foldl (search_step k s) t0 ps"
  shows "t = t0 \<or> t \<in> set ps \<and> candidate k s t"
    and "t = NULL \<Longrightarrow> t0 = NULL \<and> (\<forall>p \<in> set ps. \<not> candidate k s p)"
proof -
  have "(t = t0 \<or> t \<in> set ps \<and> candidate k s t) \<and>
    (t = NULL \<longrightarrow> t0 = NULL \<and> (\<forall>p \<in> set ps. \<not> candidate k s p))"
    using assms
  proof (induction ps arbitrary: t0)
    case (Cons p ps)
    let ?t1 = "search_step k s t0 p"
    have "(t = ?t1 \<or> t \<in> set ps \<and> candidate k s t) \<and>
      (t = NULL \<longrightarrow> ?t1 = NULL \<and> (\<forall>p \<in> set ps. \<not> candidate k s p))"
      by (rule Cons.IH) (use Cons.prems in simp)
    moreover have "?t1 = p \<and> candidate k s p \<or> ?t1 = t0 \<and> (t0 = NULL \<longrightarrow> \<not> candidate k s p)"
      by (auto simp: search_step_cases [of k s t0 p])
    moreover have "candidate k s p \<Longrightarrow> p \<noteq> NULL" by (simp add: candidate_def)
    ultimately show ?case by auto
  qed simp
  then show "t = t0 \<or> t \<in> set ps \<and> candidate k s t"
    and "t = NULL \<Longrightarrow> t0 = NULL \<and> (\<forall>p \<in> set ps. \<not> candidate k s p)" by auto
qed

lemma search_last_wins:
  assumes "foldl (search_step k s) t0 ps = t" and "t \<noteq> NULL" and "t \<noteq> t0"
  shows "\<exists>xs ys. ps = xs @ t # ys \<and> candidate k s t \<and> (\<forall>p \<in> set ys. candidate k s p \<longrightarrow> \<not> beats k p t)"
  using assms
proof (induction ps rule: rev_induct)
  case (snoc p ps)
  let ?u = "foldl (search_step k s) t0 ps"
  have t: "t = (if candidate k s p \<and> (?u = NULL \<or> beats k p ?u) then p else ?u)"
    using snoc.prems(1) by (simp add: search_step_cases [of k s ?u p])
  show ?case
  proof (cases "candidate k s p \<and> (?u = NULL \<or> beats k p ?u)")
    case True
    then show ?thesis using t by (intro exI [of _ ps] exI [of _ "[]"]) auto
  next
    case False
    then have "t = ?u" using t by argo
    moreover obtain xs ys where "ps = xs @ t # ys" "candidate k s t"
        "\<forall>p \<in> set ys. candidate k s p \<longrightarrow> \<not> beats k p t"
      using snoc.IH calculation snoc.prems by blast
    ultimately show ?thesis
      using False snoc.prems(2) by (intro exI [of _ xs] exI [of _ "ys @ [p]"]) auto
  qed
qed simp

lemma runnable_candidate: "runnable k p \<longleftrightarrow> p \<in> set (task_table k) \<and> candidate k TASK_READY p"
  by (auto simp: runnable_def candidate_def)

lemma task_search_ready:
  assumes "\<not> k_intr k"
  obtains n where "task_search k TASK_READY = Some n"
    and "if \<exists>p. runnable k p then runnable k n else n = idle_task k"
proof -
  let ?t = "foldl (search_step k TASK_READY) NULL (task_table k)"
  have "if \<exists>p. runnable k p then runnable k ?t else ?t = NULL"
    using search_found [of ?t k TASK_READY NULL "task_table k"] by (auto simp: runnable_candidate candidate_def)
  moreover have "task_search k TASK_READY = Some (if ?t = NULL then idle_task k else ?t)"
    using assms by (simp add: task_search_def Let_def)
  moreover have "runnable k ?t \<Longrightarrow> ?t \<noteq> NULL" by (simp add: runnable_def)
  ultimately show thesis using that by (cases "\<exists>p. runnable k p") auto
qed

subsection \<open>Switching keeps one task running\<close>

text \<open>
  The task table between two switches: every task has its magic and a page-aligned directory, the
  idle task is one of them, and no task but the current one is in state \<open>TASK_RUNNING\<close>.
\<close>

definition sched_ok :: "kernel \<Rightarrow> bool" where
  "sched_ok k \<longleftrightarrow> idle_task k \<in> set (task_table k) \<and> idle_task k \<noteq> NULL \<and>
     (\<forall>p \<in> set (task_table k). p \<noteq> NULL \<longrightarrow> t_magic (k_tasks k p) = ONIX_MAGIC \<and>
        ASSERT_PAGE (t_pde (k_tasks k p)) = Some () \<and>
        (t_state (k_tasks k p) = TASK_RUNNING \<longrightarrow> p = running_task k))"

definition preempted :: "task_t \<Rightarrow> task_t" where
  "preempted t = t\<lparr>t_state := (if t_state t = TASK_RUNNING then TASK_READY else t_state t),
     t_ticks := (if t_ticks t = 0 then t_priority t else t_ticks t)\<rparr>"

definition switch_to :: "kernel \<Rightarrow> u32 \<Rightarrow> kernel" where
  "switch_to k next = (let cur = running_task k; k = upd_task k cur preempted;
     k = upd_task k next (t_state_update (\<lambda>_. TASK_RUNNING)) in
     if next = cur then k
     else k\<lparr>k_current := next, k_fpu_off := True, k_cr3 := t_pde (k_tasks k next),
            k_esp0 := (if t_uid (k_tasks k next) \<noteq> KERNEL_USER then next + PAGE_SIZE else k_esp0 k)\<rparr>)"

lemma upd_task_proj [simp]:
  "k_tasks (upd_task k t f) = (k_tasks k)(t := f (k_tasks k t))" "running_task (upd_task k t f) = running_task k"
  "k_intr (upd_task k t f) = k_intr k" "k_current (upd_task k t f) = k_current k" "k_cr3 (upd_task k t f) = k_cr3 k"
  "k_mem (upd_task k t f) = k_mem k" "task_table (upd_task k t f) = task_table k"
  "idle_task (upd_task k t f) = idle_task k" "k_esp0 (upd_task k t f) = k_esp0 k"
  "k_timers (upd_task k t f) = k_timers k" "timer_list (upd_task k t f) = timer_list k"
  "block_list (upd_task k t f) = block_list k" "sleep_list (upd_task k t f) = sleep_list k"
  "jiffies (upd_task k t f) = jiffies k" "jiffy (upd_task k t f) = jiffy k"
  by (simp_all add: upd_task_def running_task_def)

lemma upd_task_upd_task: "upd_task (upd_task k t f) t g = upd_task k t (\<lambda>x. g (f x))"
  by (simp add: upd_task_def)

lemma upd_task_id: "f (k_tasks k t) = k_tasks k t \<Longrightarrow> upd_task k t f = k"
  by (simp add: upd_task_def)

lemma task_activate_eq:
  assumes "t_magic (k_tasks k n) = ONIX_MAGIC" and "ASSERT_PAGE (t_pde (k_tasks k n)) = Some ()"
  shows "task_activate k n = Some (k\<lparr>k_cr3 := t_pde (k_tasks k n),
    k_esp0 := (if t_uid (k_tasks k n) \<noteq> KERNEL_USER then n + PAGE_SIZE else k_esp0 k)\<rparr>)"
  using assms by (simp add: task_activate_def Let_def)

lemma preempt_eq:
  fixes k cur
  defines "k1 \<equiv> if t_state (k_tasks k cur) = TASK_RUNNING then upd_task k cur (t_state_update (\<lambda>_. TASK_READY)) else k"
  shows "(if t_ticks (k_tasks k1 cur) = 0 then upd_task k1 cur (\<lambda>t. t\<lparr>t_ticks := t_priority t\<rparr>) else k1) =
    upd_task k cur preempted"
  unfolding k1_def by (simp add: preempted_def upd_task_def)

lemma schedule_eq:
  assumes "\<not> k_intr k" and "task_search k TASK_READY = Some n" and "n \<noteq> NULL"
    and "t_magic (k_tasks k n) = ONIX_MAGIC" and "ASSERT_PAGE (t_pde (k_tasks k n)) = Some ()"
  shows "schedule k = Some (switch_to k n)"
proof -
  let ?k = "upd_task (upd_task k (running_task k) preempted) n (t_state_update (\<lambda>_. TASK_RUNNING))"
  have pre: "t_magic (preempted t) = t_magic t" "t_pde (preempted t) = t_pde t" "t_uid (preempted t) = t_uid t" for t
    by (simp_all add: preempted_def)
  have tn: "t_magic (k_tasks ?k n) = t_magic (k_tasks k n)" "t_pde (k_tasks ?k n) = t_pde (k_tasks k n)"
    "t_uid (k_tasks ?k n) = t_uid (k_tasks k n)" by (simp_all add: pre)
  have "schedule k = (if n = running_task k then Some ?k
      else Option.bind (task_activate (?k\<lparr>k_fpu_off := True\<rparr>) n) (\<lambda>k. Some (k\<lparr>k_current := n\<rparr>)))"
    using assms(1-4) preempt_eq [of k "running_task k"] by (simp add: schedule_def Let_def)
  also have "task_activate (?k\<lparr>k_fpu_off := True\<rparr>) n = Some (?k\<lparr>k_fpu_off := True, k_cr3 := t_pde (k_tasks k n),
      k_esp0 := (if t_uid (k_tasks k n) \<noteq> KERNEL_USER then n + PAGE_SIZE else k_esp0 k)\<rparr>)"
    using assms(4,5) tn by (simp add: task_activate_eq del: upd_task_proj(1))
  finally show ?thesis by (simp add: switch_to_def Let_def pre)
qed

lemma switch_to_states:
  assumes ok: "sched_ok k" and n: "n \<in> set (task_table k)" "n \<noteq> NULL"
  shows "sched_ok (switch_to k n)" and "running_task (switch_to k n) = n"
    and "t_state (k_tasks (switch_to k n) n) = TASK_RUNNING"
    and "p \<noteq> n \<Longrightarrow> p \<noteq> running_task k \<Longrightarrow> k_tasks (switch_to k n) p = k_tasks k p"
    and "n \<noteq> running_task k \<Longrightarrow> k_tasks (switch_to k n) (running_task k) = preempted (k_tasks k (running_task k))"
    and "k_mem (switch_to k n) = k_mem k" and "task_table (switch_to k n) = task_table k"
proof -
  let ?k = "switch_to k n"
  have same: "task_table ?k = task_table k" "idle_task ?k = idle_task k" "k_mem ?k = k_mem k"
    by (simp_all add: switch_to_def Let_def)
  have run: "running_task ?k = n" by (simp add: switch_to_def Let_def running_task_def)
  have tasks: "k_tasks ?k = (k_tasks k)(running_task k := preempted (k_tasks k (running_task k)),
      n := t_state_update (\<lambda>_. TASK_RUNNING) (((k_tasks k)(running_task k := preempted (k_tasks k (running_task k)))) n))"
    by (simp add: switch_to_def Let_def)
  have pre: "t_magic (preempted t) = t_magic t" "t_pde (preempted t) = t_pde t"
    "t_state (preempted t) \<noteq> TASK_RUNNING" for t
    by (simp_all add: preempted_def)
  have "t_magic (k_tasks ?k p) = t_magic (k_tasks k p) \<and> t_pde (k_tasks ?k p) = t_pde (k_tasks k p)" for p
    unfolding tasks by (simp add: pre)
  moreover have "p = n" if st: "t_state (k_tasks ?k p) = TASK_RUNNING" and p: "p \<in> set (task_table k)" "p \<noteq> NULL" for p
  proof (rule ccontr)
    assume ne: "p \<noteq> n"
    then have "p \<noteq> running_task k" using st unfolding tasks by (auto simp: pre)
    then have "t_state (k_tasks k p) = TASK_RUNNING" using st ne unfolding tasks by simp
    then show False using ok p \<open>p \<noteq> running_task k\<close> by (simp add: sched_ok_def)
  qed
  ultimately show "sched_ok ?k" using ok n run same by (simp add: sched_ok_def)
  show "running_task ?k = n" "k_mem ?k = k_mem k" "task_table ?k = task_table k" by fact+
  show "t_state (k_tasks ?k n) = TASK_RUNNING" unfolding tasks by simp
  show "p \<noteq> n \<Longrightarrow> p \<noteq> running_task k \<Longrightarrow> k_tasks ?k p = k_tasks k p" unfolding tasks by simp
  show "n \<noteq> running_task k \<Longrightarrow> k_tasks ?k (running_task k) = preempted (k_tasks k (running_task k))"
    unfolding tasks by simp
qed

lemma schedule_returns:
  assumes "sched_ok k" and "\<not> k_intr k"
  obtains n where "schedule k = Some (switch_to k n)" and "n \<in> set (task_table k)" and "n \<noteq> NULL"
    and "if \<exists>p. runnable k p then runnable k n else n = idle_task k"
proof -
  obtain n where n: "task_search k TASK_READY = Some n"
      "if \<exists>p. runnable k p then runnable k n else n = idle_task k"
    by (rule task_search_ready [OF assms(2)])
  have nt: "n \<in> set (task_table k)" "n \<noteq> NULL"
    using n(2) assms(1) by (auto simp: runnable_def sched_ok_def split: if_splits)
  then have "t_magic (k_tasks k n) = ONIX_MAGIC" "ASSERT_PAGE (t_pde (k_tasks k n)) = Some ()"
    using assms(1) by (auto simp: sched_ok_def)
  then show thesis using that schedule_eq [OF assms(2) n(1) nt(2)] nt n(2) by blast
qed

text \<open>
  C7. The scheduler. With interrupts off and a well-formed task table, \<^verbatim>\<open>schedule\<close> returns with a
  task running that was ready and not the current one, or the idle task when there is none. That
  task is then the only one in state \<open>TASK_RUNNING\<close>; the task it replaces is ready again if it was
  running, with a new time slice if its own was used up; the other tasks, the table and the heap
  are unchanged. After a switch the page directory is the new task's, its kernel stack is the one
  interrupts of a user task use, and the FPU is off.
\<close>

theorem schedule_switches:
  assumes "sched_ok k" and "\<not> k_intr k"
  shows "\<exists>k' n. schedule k = Some k' \<and> running_task k' = n \<and>
    (if \<exists>p. runnable k p then runnable k n else n = idle_task k) \<and>
    sched_ok k' \<and> t_state (k_tasks k' n) = TASK_RUNNING \<and>
    (\<forall>p. p \<noteq> n \<and> p \<noteq> running_task k \<longrightarrow> k_tasks k' p = k_tasks k p) \<and>
    (n \<noteq> running_task k \<longrightarrow> k_tasks k' (running_task k) = preempted (k_tasks k (running_task k)) \<and>
       k_cr3 k' = t_pde (k_tasks k n) \<and> k_fpu_off k' \<and>
       (t_uid (k_tasks k n) \<noteq> KERNEL_USER \<longrightarrow> k_esp0 k' = n + PAGE_SIZE)) \<and>
    task_table k' = task_table k \<and> k_mem k' = k_mem k"
proof -
  obtain n where s: "schedule k = Some (switch_to k n)" and nt: "n \<in> set (task_table k)" "n \<noteq> NULL"
      and n: "if \<exists>p. runnable k p then runnable k n else n = idle_task k"
    by (rule schedule_returns [OF assms])
  note st = switch_to_states [OF assms(1) nt]
  have "k_cr3 (switch_to k n) = t_pde (k_tasks k n) \<and> k_fpu_off (switch_to k n) \<and>
      (t_uid (k_tasks k n) \<noteq> KERNEL_USER \<longrightarrow> k_esp0 (switch_to k n) = n + PAGE_SIZE)" if "n \<noteq> running_task k"
    using that by (simp add: switch_to_def Let_def)
  then show ?thesis using s n st by (intro exI [of _ "switch_to k n"] exI [of _ n]) simp
qed

text \<open>
  What the search promises of its choice: no ready task that stands after it in the table has
  more ticks left or an earlier last run.
\<close>

theorem task_search_beats_later:
  assumes "task_search k TASK_READY = Some n" and "runnable k p"
  shows "\<exists>xs ys. task_table k = xs @ n # ys \<and> (\<forall>q \<in> set ys. runnable k q \<longrightarrow>
    sint (t_ticks (k_tasks k q)) \<le> sint (t_ticks (k_tasks k n)) \<and> t_jiffies (k_tasks k n) \<le> t_jiffies (k_tasks k q))"
proof -
  let ?t = "foldl (search_step k TASK_READY) NULL (task_table k)"
  have "\<not> k_intr k" using assms(1) by (auto simp: task_search_def halt_simps)
  then have t: "n = (if ?t = NULL then idle_task k else ?t)"
    using assms(1) by (simp add: task_search_def Let_def)
  have "?t \<noteq> NULL"
    using search_found(2) [of ?t k TASK_READY NULL "task_table k"] assms(2) by (auto simp: runnable_candidate)
  then obtain xs ys where "task_table k = xs @ n # ys" "\<forall>q \<in> set ys. candidate k TASK_READY q \<longrightarrow> \<not> beats k q n"
    using search_last_wins [of k TASK_READY NULL "task_table k" ?t] t by auto
  then show ?thesis
    by (intro exI [of _ xs] exI [of _ ys]) (auto simp: runnable_candidate beats_def)
qed

subsection \<open>A small task table\<close>

text \<open>Four tasks: the idle task, the running one, and two or three ready ones.\<close>

definition ready_task :: "u32 \<Rightarrow> u32 \<Rightarrow> u32 \<Rightarrow> task_t" where
  "ready_task pid ticks last_run = sample_task\<lparr>t_pid := pid, t_state := TASK_READY, t_priority := 5,
     t_ticks := ticks, t_jiffies := last_run, t_magic := ONIX_MAGIC, t_timer := NULL, t_status := 0\<rparr>"

definition sample_kernel :: "kmem \<Rightarrow> kernel" where
  "sample_kernel m = \<lparr>k_mem = m,
     k_tasks = (\<lambda>p. if p = 0x1000 then ready_task 0 1 0
                    else if p = 0x2000 then (ready_task 1 0 9)\<lparr>t_state := TASK_RUNNING\<rparr>
                    else if p = 0x3000 then ready_task 2 5 2
                    else if p = 0x4000 then ready_task 3 6 4
                    else ready_task 4 1 3),
     task_table = [0x1000, 0x2000, 0x3000, 0x4000, 0x5000, 0],
     k_current = 0x2000, idle_task = 0x1000, block_list = 0x20000, sleep_list = 0x20020, timer_list = 0x20040,
     k_timers = (\<lambda>_. \<lparr>tm_task = 0, tm_expires = 0, tm_handler = 0, tm_arg = 0, tm_active = False\<rparr>),
     jiffies = 10, jiffy = 10, k_intr = False, k_cr3 = 0x1000, k_esp0 = 0, k_fpu_off = False\<rparr>"

lemma sample_sched_ok: "sched_ok (sample_kernel m)" "\<not> k_intr (sample_kernel m)"
  by (simp_all add: sched_ok_def sample_kernel_def ready_task_def sample_task_def ASSERT_PAGE_def running_task_def)

theorem schedule_switches_witness:
  "\<exists>k'. schedule (sample_kernel sample_kmem) = Some k' \<and> runnable (sample_kernel sample_kmem) (running_task k')"
proof -
  have "runnable (sample_kernel sample_kmem) 0x3000"
    by (simp add: runnable_def sample_kernel_def ready_task_def running_task_def)
  then have "\<exists>p. runnable (sample_kernel sample_kmem) p" by blast
  then show ?thesis
    using schedule_switches [OF sample_sched_ok, of sample_kmem] by (simp only: if_True) blast
qed

lemma sample_search: "task_search (sample_kernel m) TASK_READY = Some 0x5000"
  by (simp add: task_search_def sample_kernel_def search_step_def ready_task_def running_task_def)

theorem task_search_beats_later_witness:
  "\<exists>xs ys. task_table (sample_kernel sample_kmem) = xs @ 0x5000 # ys"
proof -
  have "runnable (sample_kernel sample_kmem) 0x3000"
    by (simp add: runnable_def sample_kernel_def ready_task_def running_task_def)
  then show ?thesis using task_search_beats_later [OF sample_search] by blast
qed

text \<open>
  The choice is not a best one. There is a table in which the search takes a ready task although
  another ready task has more ticks left and has not run for longer: the comparison is not an
  order, so a task in between can pass the choice on to a worse one.
\<close>

theorem task_search_not_best:
  "\<exists>k n p. task_search k TASK_READY = Some n \<and> runnable k n \<and> runnable k p \<and>
     sint (t_ticks (k_tasks k n)) < sint (t_ticks (k_tasks k p)) \<and> t_jiffies (k_tasks k p) < t_jiffies (k_tasks k n)"
proof (intro exI conjI)
  let ?k = "sample_kernel sample_kmem"
  show "task_search ?k TASK_READY = Some 0x5000" by (rule sample_search)
  show "runnable ?k 0x5000" "runnable ?k 0x3000"
    "sint (t_ticks (k_tasks ?k 0x5000)) < sint (t_ticks (k_tasks ?k 0x3000))"
    "t_jiffies (k_tasks ?k 0x3000) < t_jiffies (k_tasks ?k 0x5000)"
    by (simp_all add: runnable_def sample_kernel_def ready_task_def running_task_def)
qed

subsection \<open>The timer list\<close>

lemma with_heap_proj [simp]:
  "k_mem (with_heap k h) = (k_mem k)\<lparr>km_heap := h\<rparr>" "k_tasks (with_heap k h) = k_tasks k"
  "k_timers (with_heap k h) = k_timers k" "timer_list (with_heap k h) = timer_list k"
  "block_list (with_heap k h) = block_list k" "running_task (with_heap k h) = running_task k"
  "jiffies (with_heap k h) = jiffies k" "jiffy (with_heap k h) = jiffy k" "k_intr (with_heap k h) = k_intr k"
  "task_table (with_heap k h) = task_table k" "idle_task (with_heap k h) = idle_task k"
  by (simp_all add: with_heap_def running_task_def)

text \<open>Work on lists of the allocator's outsiders leaves the allocator alone.\<close>

lemma outside_heap [simp]: "outside (m\<lparr>km_heap := h\<rparr>) fl y = outside m fl y"
  by (simp add: outside_def kpage_def)

lemma block_of_heap [simp]: "block_of (m\<lparr>km_heap := h\<rparr>) i y = block_of m i y"
  by (simp add: block_of_def blk_def blocks_def kpage_def arena_of_def)

lemma keeps_blocks_some:
  "keeps_blocks m m' \<Longrightarrow> \<exists>i < DESC_COUNT. block_of m i y \<Longrightarrow> \<exists>i < DESC_COUNT. block_of m' i y"
  by (auto simp: keeps_blocks_def)

lemma arena_ok_heap:
  assumes ok: "arena_ok m fl" and h: "same_outside A (km_heap m) h" and A: "\<And>y. y \<in> A \<Longrightarrow> outside m fl y"
  shows "arena_ok (m\<lparr>km_heap := h\<rparr>) fl"
proof -
  have "list_rep h (km_free m i) (fl i)" if i: "i < DESC_COUNT" for i
  proof (rule list_rep_frame [OF _ h])
    show "list_rep (km_heap m) (km_free m i) (fl i)" using ok i by (simp add: arena_ok_def)
    show "A \<inter> list_nodes (km_free m i) (fl i) = {}" using A i by (auto simp: outside_def)
  qed
  moreover have "descs_ok (m\<lparr>km_heap := h\<rparr>) = descs_ok m" "heads_ok (m\<lparr>km_heap := h\<rparr>) = heads_ok m"
    by (simp_all add: descs_ok_def heads_ok_def blocks_def)
  ultimately show ?thesis using ok by (simp add: arena_ok_def)
qed

text \<open>
  The timers \<open>ts\<close> in the list, the earliest first as signed numbers, each one a block of the heap
  that is in use.
\<close>

definition timers_ok :: "kernel \<Rightarrow> (nat \<Rightarrow> u32 list) \<Rightarrow> u32 list \<Rightarrow> bool" where
  "timers_ok k fl ts \<longleftrightarrow> arena_ok (k_mem k) fl \<and> list_rep (k_heap k) (timer_list k) ts \<and>
     sorted (map (\<lambda>t. sint (expires_key k t)) ts) \<and>
     (\<forall>y \<in> list_nodes (timer_list k) ts. outside (k_mem k) fl y) \<and>
     (\<forall>t \<in> set ts. \<exists>i < DESC_COUNT. block_of (k_mem k) i t)"

definition heap_room :: "kernel \<Rightarrow> bool" where
  "heap_room k \<longleftrightarrow> (\<exists>s. free_run (kmap (k_mem k)) s 1) \<and>
     (\<forall>c < DESC_COUNT. unat (page_count (km_descs (k_mem k) ! c)) < 4)"

text \<open>What an operation on timers leaves alone: the nodes that are neither its own nor the allocator's.\<close>

definition others_kept :: "kernel \<Rightarrow> (nat \<Rightarrow> u32 list) \<Rightarrow> kernel \<Rightarrow> (nat \<Rightarrow> u32 list) \<Rightarrow> u32 set \<Rightarrow> bool" where
  "others_kept k fl k' fl' A \<longleftrightarrow> (\<forall>y. outside (k_mem k) fl y \<and> y \<notin> A \<longrightarrow>
     outside (k_mem k') fl' y \<and> same_node (k_heap k) (k_heap k') y)"

lemma same_node_rep:
  assumes "list_rep h l xs" and "\<And>y. y \<in> list_nodes l xs \<Longrightarrow> same_node h h' y"
  shows "list_rep h' l xs"
  by (rule list_rep_frame [OF assms(1), of "{y. \<not> same_node h h' y}"])
    (use assms(2) in \<open>auto simp: same_outside_def same_node_def\<close>)

definition new_timer :: "kernel \<Rightarrow> u32 \<Rightarrow> u32 \<Rightarrow> u32 \<Rightarrow> timer_t" where
  "new_timer k ms handler arg = \<lparr>tm_task = running_task k, tm_expires = jiffies k + ms div jiffy k,
     tm_handler = handler, tm_arg = arg, tm_active = False\<rparr>"

lemma timer_add_spec:
  assumes ok: "timers_ok k fl ts" and room: "\<exists>s. free_run (kmap (k_mem k)) s 1" and j: "jiffy k \<noteq> 0"
  shows "\<exists>t k' fl'. timer_add k ms handler arg = Some (t, k') \<and>
    timers_ok k' fl' (insert_sorted (expires_key k') t ts) \<and> \<not> outside (k_mem k) fl t \<and> t \<noteq> NULL \<and>
    k' = k\<lparr>k_mem := k_mem k', k_timers := (k_timers k)(t := new_timer k ms handler arg)\<rparr> \<and>
    others_kept k fl k' fl' (list_nodes (timer_list k) ts) \<and> page_count_grows (k_mem k) (k_mem k')"
proof -
  have o: "arena_ok (k_mem k) fl" "list_rep (k_heap k) (timer_list k) ts"
    "sorted (map (\<lambda>t. sint (expires_key k t)) ts)" "\<And>y. y \<in> list_nodes (timer_list k) ts \<Longrightarrow> outside (k_mem k) fl y"
    using ok by (auto simp: timers_ok_def)
  have sz: "TIMER_SIZE \<le> 1024" by (simp add: TIMER_SIZE_def)
  obtain t m fl' i where m: "kmalloc (k_mem k) TIMER_SIZE = Some (t, m)" "arena_ok m fl'" "i < DESC_COUNT"
      "block_of m i t" "unlinked (km_heap m) t" "\<not> outside (k_mem k) fl t" "outside m fl' t"
      "\<forall>y. outside (k_mem k) fl y \<longrightarrow> outside m fl' y \<and> same_node (k_heap k) (km_heap m) y"
      "keeps_blocks (k_mem k) m" "page_count_grows (k_mem k) m"
    using kmalloc_small [OF o(1) sz room] by blast
  have am: "descs_ok m" "kmap_low (kmap m)" using m(2) by (simp_all add: arena_ok_def)
  have t0: "t \<noteq> NULL" by (rule block_of_page [OF am m(3,4)])
  have tn: "t \<notin> list_nodes (timer_list k) ts" using o(4) m(6) by blast
  let ?tm = "new_timer k ms handler arg"
  let ?k1 = "k\<lparr>k_mem := m, k_timers := (k_timers k)(t := ?tm)\<rparr>"
  have rep: "list_rep (km_heap m) (timer_list k) ts"
    by (rule same_node_rep [OF o(2)]) (use o(4) m(8) in blast)
  obtain h where h: "list_insert_sort (km_heap m) (timer_list k) t (expires_key ?k1) = Some h"
      "list_rep h (timer_list k) (insert_sorted (expires_key ?k1) t ts)"
      "same_outside (insert t (list_nodes (timer_list k) ts)) (km_heap m) h"
    using list_insert_sort_rep [OF rep tn t0 m(5)] by blast
  let ?k' = "with_heap ?k1 h"
  have key: "expires_key ?k' = expires_key ?k1" by (simp add: expires_key_def fun_eq_iff)
  have add: "timer_add k ms handler arg = Some (t, ?k')"
    using m(1) j h(1) by (simp add: timer_add_def timer_get_def timer_expire_jiffies_def upd_timer_def new_timer_def
        running_task_def Let_def)
  have out: "outside m fl' y" if "y \<in> insert t (list_nodes (timer_list k) ts)" for y
    using that m(7,8) o(4) by auto
  have "timers_ok ?k' fl' (insert_sorted (expires_key ?k') t ts)"
    unfolding timers_ok_def key
  proof (intro conjI ballI)
    show "arena_ok (k_mem ?k') fl'" using arena_ok_heap [OF m(2) h(3) out] by simp
    show "list_rep (k_heap ?k') (timer_list ?k') (insert_sorted (expires_key ?k1) t ts)" using h(2) by simp
    have "map (\<lambda>t. sint (expires_key ?k1 t)) ts = map (\<lambda>t. sint (expires_key k t)) ts"
      using tn by (auto simp: expires_key_def list_nodes_def)
    then have "sorted (map (\<lambda>t. sint (expires_key ?k1 t)) ts)" using o(3) by argo
    then show "sorted (map (\<lambda>t. sint (expires_key ?k1 t)) (insert_sorted (expires_key ?k1) t ts))"
      by (rule insert_sorted_sorted)
    show "outside (k_mem ?k') fl' y" if "y \<in> list_nodes (timer_list ?k') (insert_sorted (expires_key ?k1) t ts)" for y
      using out [of y] that by (auto simp: list_nodes_def insert_sorted_set)
    show "\<exists>i < DESC_COUNT. block_of (k_mem ?k') i y" if "y \<in> set (insert_sorted (expires_key ?k1) t ts)" for y
    proof (cases "y = t")
      case True
      then show ?thesis using m(3,4) by auto
    next
      case False
      then have "\<exists>i < DESC_COUNT. block_of (k_mem k) i y" using that ok by (simp add: insert_sorted_set timers_ok_def)
      then show ?thesis using keeps_blocks_some [OF m(9)] by simp
    qed
  qed
  moreover have "others_kept k fl ?k' fl' (list_nodes (timer_list k) ts)"
    unfolding others_kept_def
  proof (intro allI impI conjI; elim conjE)
    fix y assume y: "outside (k_mem k) fl y" "y \<notin> list_nodes (timer_list k) ts"
    show "outside (k_mem ?k') fl' y" using y m(8) by simp
    have "y \<noteq> t" using y(1) m(6) by auto
    then show "same_node (k_heap k) (k_heap ?k') y"
      using y m(8) h(3) by (simp add: same_node_def same_outside_def)
  qed
  moreover have "page_count_grows (k_mem k) (k_mem ?k')" using m(10) by (simp add: page_count_grows_def)
  moreover have "?k' = k\<lparr>k_mem := k_mem ?k', k_timers := (k_timers k)(t := ?tm)\<rparr>" by (simp add: with_heap_def)
  ultimately show ?thesis using add m(6) t0 by blast
qed

lemma few_pages: "unat (w :: u32) \<le> 4 \<Longrightarrow> sint w \<le> BUF_COUNT"
proof -
  assume le: "unat w \<le> 4"
  obtain n where n: "w = word_of_nat n" "n \<le> 4" using le that [of "unat w"] by simp
  then have "n = 0 \<or> n = 1 \<or> n = 2 \<or> n = 3 \<or> n = 4" by arith
  then show ?thesis using n(1) by (elim disjE) (simp_all add: BUF_COUNT_def)
qed

lemma timer_put_spec:
  assumes ok: "timers_ok k fl ts" and t: "t \<in> set ts"
    and few: "\<forall>c < DESC_COUNT. unat (page_count (km_descs (k_mem k) ! c)) \<le> 4"
  shows "\<exists>k' fl'. timer_put k t = Some k' \<and> timers_ok k' fl' (remove1 t ts) \<and> k' = k\<lparr>k_mem := k_mem k'\<rparr> \<and>
    others_kept k fl k' fl' (list_nodes (timer_list k) ts) \<and> km_descs (k_mem k') = km_descs (k_mem k)"
proof -
  have o: "arena_ok (k_mem k) fl" "list_rep (k_heap k) (timer_list k) ts"
    "sorted (map (\<lambda>t. sint (expires_key k t)) ts)" "\<And>y. y \<in> list_nodes (timer_list k) ts \<Longrightarrow> outside (k_mem k) fl y"
    using ok by (auto simp: timers_ok_def)
  obtain h where h: "list_remove (k_heap k) t = Some h" "list_rep h (timer_list k) (remove1 t ts)"
      "same_outside (list_nodes (timer_list k) ts) (k_heap k) h"
    using list_remove_member [OF o(2) t] by blast
  let ?m = "(k_mem k)\<lparr>km_heap := h\<rparr>"
  have m: "arena_ok ?m fl" by (rule arena_ok_heap [OF o(1) h(3) o(4)])
  obtain i where i: "i < DESC_COUNT" "block_of (k_mem k) i t" using ok t by (auto simp: timers_ok_def)
  have tm: "t \<in> list_nodes (timer_list k) ts" using t by (simp add: list_nodes_def)
  obtain m' where m': "kfree ?m t = Some m'" "arena_ok m' (fl(i := t # fl i))" "km_descs m' = km_descs ?m"
      "keeps_blocks ?m m'"
      "\<forall>y. outside ?m fl y \<and> y \<noteq> t \<longrightarrow> outside m' (fl(i := t # fl i)) y \<and> same_node (km_heap ?m) (km_heap m') y"
    using kfree_outside [OF m i(1), of t] i(2) few_pages [OF few [rule_format, OF i(1)]] o(4) [OF tm] by auto
  let ?k = "k\<lparr>k_mem := m'\<rparr>" and ?fl = "fl(i := t # fl i)"
  have nt: "t \<notin> list_nodes (timer_list k) (remove1 t ts)"
    using o(2) t by (auto simp: list_rep_def list_nodes_def set_remove1_eq)
  have sub: "y \<in> list_nodes (timer_list k) (remove1 t ts) \<Longrightarrow> y \<in> list_nodes (timer_list k) ts" for y
    using set_remove1_subset [of t ts] by (auto simp: list_nodes_def)
  have put: "timer_put k t = Some ?k" using h(1) m'(1) by (simp add: timer_put_def)
  have kept: "outside m' ?fl y \<and> same_node h (km_heap m') y" if "y \<in> list_nodes (timer_list k) (remove1 t ts)" for y
    using m'(5) o(4) [OF sub [OF that]] nt that by auto
  have "timers_ok ?k ?fl (remove1 t ts)"
    unfolding timers_ok_def
  proof (intro conjI ballI)
    show "arena_ok (k_mem ?k) ?fl" using m'(2) by simp
    show "list_rep (k_heap ?k) (timer_list ?k) (remove1 t ts)"
      using same_node_rep [OF h(2), of "km_heap m'"] kept by simp
    have "expires_key ?k = expires_key k" by (simp add: expires_key_def fun_eq_iff)
    then show "sorted (map (\<lambda>t. sint (expires_key ?k t)) (remove1 t ts))"
      using o(3) by (simp add: sorted_map_remove1)
    show "outside (k_mem ?k) ?fl y" if "y \<in> list_nodes (timer_list ?k) (remove1 t ts)" for y
      using kept that by simp
    show "\<exists>i < DESC_COUNT. block_of (k_mem ?k) i y" if "y \<in> set (remove1 t ts)" for y
    proof -
      have "y \<in> set ts" using that set_remove1_subset [of t ts] by auto
      then have "\<exists>i < DESC_COUNT. block_of ?m i y" using ok by (simp add: timers_ok_def)
      then show ?thesis using keeps_blocks_some [OF m'(4)] by simp
    qed
  qed
  moreover have "others_kept k fl ?k ?fl (list_nodes (timer_list k) ts)"
    unfolding others_kept_def
  proof (intro allI impI; elim conjE)
    fix y assume y: "outside (k_mem k) fl y" "y \<notin> list_nodes (timer_list k) ts"
    then have "y \<noteq> t" using tm by auto
    then show "outside (k_mem ?k) ?fl y \<and> same_node (k_heap k) (k_heap ?k) y"
      using y m'(5) h(3) by (simp add: same_node_def same_outside_def)
  qed
  ultimately show ?thesis using put m'(3) by (intro exI [of _ ?k] exI [of _ ?fl]) simp
qed

subsection \<open>Blocking and unblocking\<close>

lemma insert_sorted_remove1: "n \<notin> set xs \<Longrightarrow> remove1 n (insert_sorted key n xs) = xs"
proof -
  assume "n \<notin> set xs"
  then have "n \<notin> set (takeWhile (\<lambda>x. sint (key x) \<le> sint (key n)) xs)" by (auto dest: set_takeWhileD)
  then show ?thesis by (simp add: insert_sorted_def remove1_append)
qed

text \<open>A queue of waiting tasks: apart from the timers and from the allocator.\<close>

definition queue_ok :: "kernel \<Rightarrow> (nat \<Rightarrow> u32 list) \<Rightarrow> u32 list \<Rightarrow> u32 \<Rightarrow> u32 list \<Rightarrow> bool" where
  "queue_ok k fl ts bl xs \<longleftrightarrow> list_rep (k_heap k) bl xs \<and>
     (\<forall>y \<in> list_nodes bl xs. outside (k_mem k) fl y \<and> y \<notin> list_nodes (timer_list k) ts)"

definition free_node :: "kernel \<Rightarrow> (nat \<Rightarrow> u32 list) \<Rightarrow> u32 list \<Rightarrow> u32 \<Rightarrow> bool" where
  "free_node k fl ts y \<longleftrightarrow> y \<noteq> NULL \<and> unlinked (k_heap k) y \<and> outside (k_mem k) fl y \<and>
     y \<notin> list_nodes (timer_list k) ts"

lemma timers_ok_heap:
  assumes ok: "timers_ok k fl ts" and h: "same_outside A (k_heap k) h"
    and A: "\<And>y. y \<in> A \<Longrightarrow> outside (k_mem k) fl y \<and> y \<notin> list_nodes (timer_list k) ts"
  shows "timers_ok (with_heap k h) fl ts"
proof -
  have "arena_ok ((k_mem k)\<lparr>km_heap := h\<rparr>) fl"
    by (rule arena_ok_heap [OF _ h]) (use ok A in \<open>auto simp: timers_ok_def\<close>)
  moreover have "list_rep h (timer_list k) ts"
    by (rule list_rep_frame [OF _ h]) (use ok A in \<open>auto simp: timers_ok_def\<close>)
  moreover have "expires_key (with_heap k h) = expires_key k" by (simp add: expires_key_def fun_eq_iff)
  ultimately show ?thesis using ok by (simp add: timers_ok_def)
qed

lemma timers_ok_upd_task [simp]: "timers_ok (upd_task k t f) fl ts = timers_ok k fl ts"
proof -
  have "expires_key (upd_task k t f) = expires_key k" by (simp add: expires_key_def fun_eq_iff)
  then show ?thesis by (simp add: timers_ok_def)
qed

lemma queue_ok_upd_task [simp]: "queue_ok (upd_task k t f) fl ts bl xs = queue_ok k fl ts bl xs"
  by (simp add: queue_ok_def)

definition chosen_list :: "kernel \<Rightarrow> u32 \<Rightarrow> u32" where
  "chosen_list k bl = (if bl = NULL then block_list k else bl)"

text \<open>What \<^verbatim>\<open>task_block\<close> has done when it comes to the switch.\<close>

lemma task_block_enqueue:
  fixes k task bl state ms
  defines "n \<equiv> task_node task" and "l \<equiv> chosen_list k bl"
  assumes ok: "timers_ok k fl ts" and q: "queue_ok k fl ts l xs" and n: "free_node k fl ts n" "n \<notin> list_nodes l xs"
    and st: "\<not> k_intr k" "state \<noteq> TASK_READY" "state \<noteq> TASK_RUNNING"
    and room: "heap_room k" and j: "jiffy k \<noteq> 0" and tm0: "t_timer (k_tasks k task) = NULL"
  shows "\<exists>kp fl' ts' tm. task_block k task bl state ms = (if running_task k = task then schedule kp else Some kp) \<and>
    timers_ok kp fl' ts' \<and> queue_ok kp fl' ts' l (n # xs) \<and>
    running_task kp = running_task k \<and> task_table kp = task_table k \<and> idle_task kp = idle_task k \<and> \<not> k_intr kp \<and>
    timer_list kp = timer_list k \<and>
    k_tasks kp = (k_tasks k)(task := (k_tasks k task)\<lparr>t_timer := tm, t_state := state\<rparr>) \<and>
    (if sint ms > 0 then tm \<noteq> NULL \<and> tm \<notin> set ts \<and> ts' = insert_sorted (expires_key kp) tm ts \<and>
        k_timers kp tm = new_timer k ms NULL NULL else tm = NULL \<and> ts' = ts) \<and>
    (\<forall>c < DESC_COUNT. unat (page_count (km_descs (k_mem kp) ! c)) \<le> 4)"
proof -
  obtain h where h: "list_push (k_heap k) l n = Some h" "list_rep h l (n # xs)"
      "same_outside (insert n (list_nodes l xs)) (k_heap k) h"
    using list_push_rep [of "k_heap k" l xs n] q n by (auto simp: queue_ok_def free_node_def)
  let ?k1 = "with_heap k h"
  have A: "outside (k_mem k) fl y \<and> y \<notin> list_nodes (timer_list k) ts" if "y \<in> insert n (list_nodes l xs)" for y
    using that q n by (auto simp: queue_ok_def free_node_def)
  have ok1: "timers_ok ?k1 fl ts" by (rule timers_ok_heap [OF ok h(3) A])
  have nl: "list_nodes l (n # xs) = insert n (list_nodes l xs)" by (auto simp: list_nodes_def)
  have q1: "queue_ok ?k1 fl ts l (n # xs)" using h(2) A by (simp add: queue_ok_def nl)
  let ?fin = "\<lambda>k tm. upd_task k task (\<lambda>t. t\<lparr>t_timer := tm, t_state := state\<rparr>)"
  have un: "node_next (k_heap k) n = NULL" "node_prev (k_heap k) n = NULL" using n by (auto simp: free_node_def unlinked_def)
  have few: "\<forall>c < DESC_COUNT. unat (page_count (km_descs (k_mem k) ! c)) < 4" using room by (simp add: heap_room_def)
  show ?thesis
  proof (cases "sint ms > 0")
    case False
    have "(k_tasks k task)\<lparr>t_timer := NULL\<rparr> = k_tasks k task" using tm0 by (cases "k_tasks k task") simp
    then have "upd_task ?k1 task (t_state_update (\<lambda>_. state)) = ?fin ?k1 NULL"
      by (simp add: upd_task_def)
    then have "task_block k task bl state ms = (if running_task k = task then schedule (?fin ?k1 NULL) else Some (?fin ?k1 NULL))"
      using st un h(1) False by (simp add: task_block_def n_def l_def chosen_list_def Let_def)
    moreover have "\<forall>c < DESC_COUNT. unat (page_count (km_descs (k_mem k) ! c)) \<le> 4"
      using few by (meson less_imp_le)
    ultimately show ?thesis
      using ok1 q1 False st(1)
      by (intro exI [of _ "?fin ?k1 NULL"] exI [of _ fl] exI [of _ ts] exI [of _ NULL]) simp
  next
    case True
    have room1: "\<exists>s. free_run (kmap (k_mem ?k1)) s 1" "jiffy ?k1 \<noteq> 0" using room j by (simp_all add: heap_room_def)
    obtain tm k2 fl' where t: "timer_add ?k1 ms NULL NULL = Some (tm, k2)"
        "timers_ok k2 fl' (insert_sorted (expires_key k2) tm ts)" "\<not> outside (k_mem ?k1) fl tm" "tm \<noteq> NULL"
        "k2 = ?k1\<lparr>k_mem := k_mem k2, k_timers := (k_timers ?k1)(tm := new_timer ?k1 ms NULL NULL)\<rparr>"
        "others_kept ?k1 fl k2 fl' (list_nodes (timer_list ?k1) ts)" "page_count_grows (k_mem ?k1) (k_mem k2)"
      using timer_add_spec [OF ok1 room1, where ms = ms and handler = NULL and arg = NULL]
      by (elim exE conjE) (rule that)
    define m2 where "m2 = k_mem k2"
    have k2: "k2 = ?k1\<lparr>k_mem := m2, k_timers := (k_timers k)(tm := new_timer k ms NULL NULL)\<rparr>"
      using t(5) by (simp add: m2_def new_timer_def)
    have same: "k_tasks k2 = k_tasks k" "running_task k2 = running_task k" "task_table k2 = task_table k"
      "idle_task k2 = idle_task k" "\<not> k_intr k2" "k_timers k2 tm = new_timer k ms NULL NULL" "timer_list k2 = timer_list k"
      using st(1) by (simp_all add: k2 running_task_def with_heap_def)
    have "upd_task (upd_task k2 task (\<lambda>t. t\<lparr>t_timer := tm\<rparr>)) task (t_state_update (\<lambda>_. state)) = ?fin k2 tm"
      by (simp add: upd_task_def)
    then have blk: "task_block k task bl state ms = (if running_task k = task then schedule (?fin k2 tm) else Some (?fin k2 tm))"
      using st un h(1) True t(1) tm0 same(2)
      by (simp add: task_block_def n_def l_def chosen_list_def Let_def)
    have kept: "outside (k_mem k2) fl' y \<and> same_node h (k_heap k2) y" if "y \<in> list_nodes l (n # xs)" for y
      using t(6) A that by (simp add: others_kept_def nl)
    have "queue_ok k2 fl' (insert_sorted (expires_key k2) tm ts) l (n # xs)"
      unfolding queue_ok_def
    proof (intro conjI ballI)
      show "list_rep (k_heap k2) l (n # xs)" by (rule same_node_rep [OF h(2)]) (use kept in blast)
      fix y assume y: "y \<in> list_nodes l (n # xs)"
      show "outside (k_mem k2) fl' y" using kept [OF y] by simp
      have "y \<noteq> tm" using y A t(3) by (auto simp: nl)
      moreover have "y \<notin> list_nodes (timer_list k) ts" using A [of y] y unfolding nl by simp
      ultimately show "y \<notin> list_nodes (timer_list k2) (insert_sorted (expires_key k2) tm ts)"
        by (simp add: list_nodes_def insert_sorted_set same)
    qed
    moreover have "tm \<notin> set ts" using t(3) ok1 by (auto simp: timers_ok_def list_nodes_def)
    moreover have "unat (page_count (km_descs (k_mem k2) ! c)) \<le> 4" if c: "c < DESC_COUNT" for c
    proof -
      have "page_count (km_descs (k_mem k2) ! c) = page_count (km_descs (k_mem k) ! c) \<or>
          page_count (km_descs (k_mem k2) ! c) = page_count (km_descs (k_mem k) ! c) + 1"
        using t(7) c by (simp add: page_count_grows_def)
      moreover have "unat (page_count (km_descs (k_mem k) ! c) + 1) = unat (page_count (km_descs (k_mem k) ! c)) + 1"
        using few c by (subst unat_plus_small) auto
      ultimately show ?thesis using few c by auto
    qed
    moreover have "expires_key (?fin k2 tm) = expires_key k2" by (simp add: expires_key_def fun_eq_iff)
    ultimately show ?thesis
      using blk t(2,4) True same
      by (intro exI [of _ "?fin k2 tm"] exI [of _ fl'] exI [of _ "insert_sorted (expires_key k2) tm ts"] exI [of _ tm]) simp
  qed
qed

lemma task_unblock_spec:
  fixes k task reason
  defines "n \<equiv> task_node task" and "tm \<equiv> t_timer (k_tasks k task)"
  assumes ok: "timers_ok k fl ts" and q: "queue_ok k fl ts l xs" and n: "n \<in> set xs"
    and tm: "tm \<noteq> NULL \<longrightarrow> tm_active (k_timers k tm) \<or> tm \<in> set ts"
    and st: "\<not> k_intr k" "t_state (k_tasks k task) \<noteq> TASK_RUNNING"
    and few: "\<forall>c < DESC_COUNT. unat (page_count (km_descs (k_mem k) ! c)) \<le> 4"
  defines "ts' \<equiv> if tm = NULL \<or> tm_active (k_timers k tm) then ts else remove1 tm ts"
  shows "\<exists>k' fl'. task_unblock k task reason = Some k' \<and> timers_ok k' fl' ts' \<and>
    queue_ok k' fl' ts' l (remove1 n xs) \<and> unlinked (k_heap k') n \<and>
    k_tasks k' = (k_tasks k)(task := (k_tasks k task)\<lparr>t_timer := NULL, t_status := reason, t_state := TASK_READY\<rparr>) \<and>
    running_task k' = running_task k \<and> task_table k' = task_table k \<and> idle_task k' = idle_task k \<and> \<not> k_intr k'"
proof -
  have rep: "list_rep (k_heap k) l xs" using q by (simp add: queue_ok_def)
  obtain h where h: "list_remove (k_heap k) n = Some h" "list_rep h l (remove1 n xs)" "unlinked h n"
      "same_outside (list_nodes l xs) (k_heap k) h"
    using list_remove_member [OF rep n] by blast
  have nx: "node_next (k_heap k) n \<noteq> NULL" by (rule list_rep_linked(2) [OF rep n])
  let ?k1 = "with_heap k h"
  have A: "outside (k_mem k) fl y \<and> y \<notin> list_nodes (timer_list k) ts" if "y \<in> list_nodes l xs" for y
    using that q by (simp add: queue_ok_def)
  have ok1: "timers_ok ?k1 fl ts" by (rule timers_ok_heap [OF ok h(4) A])
  have sub: "y \<in> list_nodes l xs" if "y = n \<or> y \<in> list_nodes l (remove1 n xs)" for y
    using that n set_remove1_subset [of n xs] by (auto simp: list_nodes_def)
  have q1: "queue_ok ?k1 fl ts l (remove1 n xs)" using h(2) A sub by (simp add: queue_ok_def)
  let ?fin = "\<lambda>k. upd_task k task (\<lambda>t. t\<lparr>t_timer := NULL, t_status := reason, t_state := TASK_READY\<rparr>)"
  show ?thesis
  proof (cases "tm = NULL \<or> tm_active (k_timers k tm)")
    case True
    have "task_unblock k task reason = Some (if tm = NULL
        then upd_task ?k1 task (\<lambda>t. t\<lparr>t_status := reason, t_state := TASK_READY\<rparr>)
        else upd_task (upd_task ?k1 task (\<lambda>t. t\<lparr>t_timer := NULL\<rparr>)) task (\<lambda>t. t\<lparr>t_status := reason, t_state := TASK_READY\<rparr>))"
      using True st nx h(1,3) by (auto simp: task_unblock_def n_def tm_def unlinked_def Let_def)
    moreover have "tm = NULL \<Longrightarrow> (k_tasks k task)\<lparr>t_timer := NULL\<rparr> = k_tasks k task"
      unfolding tm_def by (cases "k_tasks k task") simp
    ultimately have "task_unblock k task reason = Some (?fin ?k1)" by (auto simp: upd_task_def)
    then show ?thesis
      using ok1 q1 True h(3) st(1) unfolding ts'_def
      by (intro exI [of _ "?fin ?k1"] exI [of _ fl]) simp
  next
    case False
    then have tin: "tm \<in> set ts" using tm by blast
    obtain k2 fl' where p: "timer_put ?k1 tm = Some k2" "timers_ok k2 fl' (remove1 tm ts)"
        "k2 = ?k1\<lparr>k_mem := k_mem k2\<rparr>" "others_kept ?k1 fl k2 fl' (list_nodes (timer_list ?k1) ts)"
    proof -
      have "\<forall>c < DESC_COUNT. unat (page_count (km_descs (k_mem ?k1) ! c)) \<le> 4" using few by simp
      from timer_put_spec [OF ok1 tin this] show ?thesis by (elim exE conjE) (rule that)
    qed
    define m2 where "m2 = k_mem k2"
    have k2: "k2 = ?k1\<lparr>k_mem := m2\<rparr>" using p(3) by (simp add: m2_def)
    have same: "k_tasks k2 = k_tasks k" "running_task k2 = running_task k" "task_table k2 = task_table k"
      "idle_task k2 = idle_task k" "\<not> k_intr k2" "timer_list k2 = timer_list k"
      using st(1) by (simp_all add: k2 running_task_def with_heap_def)
    have kept: "outside (k_mem k2) fl' y \<and> same_node h (k_heap k2) y" if "y = n \<or> y \<in> list_nodes l (remove1 n xs)" for y
      using p(4) A [OF sub [OF that]] by (simp add: others_kept_def)
    have un: "unlinked (k_heap k2) n" using h(3) kept by (simp add: unlinked_def same_node_def)
    have "task_unblock k task reason = Some (?fin k2)"
      using False st nx h(1) p(1) same un
      by (simp add: task_unblock_def n_def tm_def unlinked_def Let_def upd_task_upd_task)
    moreover have "queue_ok k2 fl' (remove1 tm ts) l (remove1 n xs)"
      unfolding queue_ok_def
    proof (intro conjI ballI)
      show "list_rep (k_heap k2) l (remove1 n xs)" by (rule same_node_rep [OF h(2)]) (use kept in blast)
      fix y assume y: "y \<in> list_nodes l (remove1 n xs)"
      show "outside (k_mem k2) fl' y" using kept y by simp
      show "y \<notin> list_nodes (timer_list k2) (remove1 tm ts)"
        using A sub y set_remove1_subset [of tm ts] same by (auto simp: list_nodes_def)
    qed
    ultimately show ?thesis
      using p(2) False same un unfolding ts'_def
      by (intro exI [of _ "?fin k2"] exI [of _ fl']) simp
  qed
qed

subsection \<open>Properties of waiting\<close>

text \<open>
  C9. Adding a timer. As long as the heap has a free page and the list of timers is well formed,
  \<^verbatim>\<open>timer_add\<close> returns a new block, fills it in for the running task with the due time \<open>jiffies\<close>
  plus the whole ticks of the timeout, and puts it into the list, which stays sorted by due time;
  nothing but the heap and that timer changes, and no list of anyone else.
\<close>

theorem timer_add_keeps_sorted:
  assumes "timers_ok k fl ts" and "\<exists>s. free_run (kmap (k_mem k)) s 1" and "jiffy k \<noteq> 0"
  shows "\<exists>t k' fl'. timer_add k ms handler arg = Some (t, k') \<and>
    timers_ok k' fl' (insert_sorted (expires_key k') t ts) \<and> \<not> outside (k_mem k) fl t \<and> t \<noteq> NULL \<and>
    k' = k\<lparr>k_mem := k_mem k', k_timers := (k_timers k)(t := new_timer k ms handler arg)\<rparr> \<and>
    others_kept k fl k' fl' (list_nodes (timer_list k) ts) \<and> page_count_grows (k_mem k) (k_mem k')"
  by (rule timer_add_spec [OF assms])

lemma timers_ok_switch [simp]: "timers_ok (switch_to k n) fl ts = timers_ok k fl ts"
proof -
  have "expires_key (switch_to k n) = expires_key k" by (simp add: expires_key_def fun_eq_iff switch_to_def Let_def)
  moreover have "k_mem (switch_to k n) = k_mem k" "timer_list (switch_to k n) = timer_list k"
    by (simp_all add: switch_to_def Let_def)
  ultimately show ?thesis by (simp add: timers_ok_def)
qed

lemma queue_ok_switch [simp]: "queue_ok (switch_to k n) fl ts bl xs = queue_ok k fl ts bl xs"
  by (simp add: queue_ok_def switch_to_def Let_def)

text \<open>
  C8. Waiting. The running task blocks itself on a list, with or without a timeout: another task
  runs, the task is at the head of the list in the state given, and a timeout has put one timer of
  the task among the timers. When that task is then unblocked, it is ready again with the reason as
  its status and no timer, its node is free, and the list of waiting tasks and the timers are what
  they were.
\<close>

theorem block_unblock_roundtrip:
  fixes k bl ms state reason
  defines "task \<equiv> running_task k" and "l \<equiv> chosen_list k bl"
  assumes "sched_ok k" and "\<not> k_intr k" and "task \<in> set (task_table k)" and "task \<noteq> NULL" and "task \<noteq> idle_task k"
    and "timers_ok k fl ts" and "queue_ok k fl ts l xs" and "free_node k fl ts (task_node task)"
    and "task_node task \<notin> list_nodes l xs" and "state \<noteq> TASK_READY" and "state \<noteq> TASK_RUNNING"
    and "heap_room k" and "jiffy k \<noteq> 0" and "t_timer (k_tasks k task) = NULL"
  shows "\<exists>k1 fl1 ts1 tm k2 fl2. task_block k task bl state ms = Some k1 \<and> running_task k1 \<noteq> task \<and>
    timers_ok k1 fl1 ts1 \<and> queue_ok k1 fl1 ts1 l (task_node task # xs) \<and>
    t_state (k_tasks k1 task) = state \<and> t_timer (k_tasks k1 task) = tm \<and>
    (if sint ms > 0 then ts1 = insert_sorted (expires_key k1) tm ts \<and> k_timers k1 tm = new_timer k ms NULL NULL
     else ts1 = ts \<and> tm = NULL) \<and>
    task_unblock k1 task reason = Some k2 \<and> timers_ok k2 fl2 ts \<and> queue_ok k2 fl2 ts l xs \<and>
    unlinked (k_heap k2) (task_node task) \<and> runnable k2 task \<and>
    t_status (k_tasks k2 task) = reason \<and> t_timer (k_tasks k2 task) = NULL"
proof -
  obtain kp fl1 ts1 tm where b: "task_block k task bl state ms = (if running_task k = task then schedule kp else Some kp)"
      "timers_ok kp fl1 ts1" "queue_ok kp fl1 ts1 l (task_node task # xs)" "running_task kp = running_task k"
      "task_table kp = task_table k" "idle_task kp = idle_task k" "\<not> k_intr kp" "timer_list kp = timer_list k"
      "k_tasks kp = (k_tasks k)(task := (k_tasks k task)\<lparr>t_timer := tm, t_state := state\<rparr>)"
      "if sint ms > 0 then tm \<noteq> NULL \<and> tm \<notin> set ts \<and> ts1 = insert_sorted (expires_key kp) tm ts \<and>
        k_timers kp tm = new_timer k ms NULL NULL else tm = NULL \<and> ts1 = ts"
      "\<forall>c < DESC_COUNT. unat (page_count (km_descs (k_mem kp) ! c)) \<le> 4"
    using task_block_enqueue [OF assms(8) assms(9) [unfolded l_def] assms(10) assms(11) [unfolded l_def]
        assms(4,12-16), where ms = ms, folded l_def] by (elim exE conjE) (rule that)
  have so: "sched_ok kp" using assms(3) b(4-6,9) assms(13) by (simp add: sched_ok_def)
  obtain n where n: "schedule kp = Some (switch_to kp n)" "n \<in> set (task_table kp)" "n \<noteq> NULL"
      "if \<exists>p. runnable kp p then runnable kp n else n = idle_task kp"
    by (rule schedule_returns [OF so b(7)])
  let ?k1 = "switch_to kp n"
  have ne: "n \<noteq> running_task kp" using n(4) b(4,6) assms(7) by (auto simp: runnable_def task_def split: if_splits)
  note sw = switch_to_states [OF so n(2,3)]
  have tk: "k_tasks ?k1 task = preempted ((k_tasks k task)\<lparr>t_timer := tm, t_state := state\<rparr>)"
    using sw(5) [OF ne] b(4,9) by (simp add: task_def)
  have tk1: "t_state (k_tasks ?k1 task) = state" "t_timer (k_tasks ?k1 task) = tm"
    using assms(13) unfolding tk by (simp_all add: preempted_def)
  have same: "k_timers ?k1 = k_timers kp" "\<not> k_intr ?k1" "expires_key ?k1 = expires_key kp"
    using b(7) by (simp_all add: switch_to_def Let_def expires_key_def fun_eq_iff)
  have tin: "tm \<noteq> NULL \<longrightarrow> tm_active (k_timers ?k1 tm) \<or> tm \<in> set ts1"
    using b(10) by (auto simp: insert_sorted_set split: if_splits)
  have nin: "task_node task \<in> set (task_node task # xs)" by simp
  have few: "\<forall>c < DESC_COUNT. unat (page_count (km_descs (k_mem ?k1) ! c)) \<le> 4" using b(11) sw(6) by simp
  have ok1: "timers_ok ?k1 fl1 ts1" "queue_ok ?k1 fl1 ts1 l (task_node task # xs)" using b(2,3) by simp_all
  have st1: "t_state (k_tasks ?k1 task) \<noteq> TASK_RUNNING" using tk1(1) assms(13) by simp
  obtain k2 fl2 where u: "task_unblock ?k1 task reason = Some k2"
      "timers_ok k2 fl2 (if tm = NULL \<or> tm_active (k_timers ?k1 tm) then ts1 else remove1 tm ts1)"
      "queue_ok k2 fl2 (if tm = NULL \<or> tm_active (k_timers ?k1 tm) then ts1 else remove1 tm ts1) l
        (remove1 (task_node task) (task_node task # xs))"
      "unlinked (k_heap k2) (task_node task)"
      "k_tasks k2 = (k_tasks ?k1)(task := (k_tasks ?k1 task)\<lparr>t_timer := NULL, t_status := reason, t_state := TASK_READY\<rparr>)"
      "running_task k2 = running_task ?k1" "task_table k2 = task_table ?k1"
    using task_unblock_spec [OF ok1 nin, of reason, unfolded tk1(2), OF tin same(2) st1 few]
    by (elim exE conjE) (rule that)
  have ts: "(if tm = NULL \<or> tm_active (k_timers ?k1 tm) then ts1 else remove1 tm ts1) = ts"
    using b(10) same(1) by (auto simp: insert_sorted_remove1 new_timer_def split: if_splits)
  have "runnable k2 task"
    using u(5-7) sw(2,7) b(4,5) ne assms(5,6) by (simp add: runnable_def task_def)
  then show ?thesis
    using u ok1 tk1 n(1) b(1,4,10) sw(2) ne same(1,3)
    unfolding ts
    by (intro exI [of _ ?k1] exI [of _ fl1] exI [of _ ts1] exI [of _ tm] exI [of _ k2] exI [of _ fl2])
      (auto simp: task_def split: if_splits)
qed

subsection \<open>The sample table with its lists\<close>

definition sample_lists :: "list_heap \<Rightarrow> list_heap" where
  "sample_lists h = \<lparr>node_prev = (node_prev h)(0x20000 := NULL, 0x20008 := 0x20000, 0x20040 := NULL, 0x20048 := 0x20040, 0x2004 := NULL),
     node_next = (node_next h)(0x20000 := 0x20008, 0x20008 := NULL, 0x20040 := 0x20048, 0x20048 := NULL, 0x2004 := NULL)\<rparr>"

lemma sample_outside:
  assumes "arena_ok m (\<lambda>_. [])" and "km_free m = (\<lambda>i. 0x10000 + of_nat i * 32)"
    and "y \<in> {0x20000, 0x20008, 0x20040, 0x20048, 0x2004}"
  shows "outside m (\<lambda>_. []) y"
proof -
  have low: "kmap_low (kmap m)" using assms(1) by (simp add: arena_ok_def)
  have y: "unat y < 0x100000" using assms(3) by auto
  have "y \<notin> {0x10000 + of_nat c * 32, 0x10000 + of_nat c * 32 + 8}" if "c < DESC_COUNT" for c
    using that assms(3) unfolding less_DESC by (elim insertE emptyE) simp_all
  then show ?thesis
    using low_page [OF low _ y] assms(2) by (auto simp: outside_def list_nodes_def)
qed

lemma sample_ready:
  assumes "arena_ok m (\<lambda>_. [])" and "km_free m = (\<lambda>i. 0x10000 + of_nat i * 32)"
    and "free_run (kmap m) 0 1" and "\<forall>c < DESC_COUNT. page_count (km_descs m ! c) = 0"
  defines "k \<equiv> with_heap (sample_kernel m) (sample_lists (km_heap m))"
  shows "timers_ok k (\<lambda>_. []) []" and "queue_ok k (\<lambda>_. []) [] 0x20000 []" and "free_node k (\<lambda>_. []) [] 0x2004"
    and "heap_room k" and "sched_ok k"
proof -
  let ?A = "{0x20000, 0x20008, 0x20040, 0x20048, 0x2004} :: u32 set"
  have out: "outside m (\<lambda>_. []) y" if "y \<in> ?A" for y by (rule sample_outside [OF assms(1,2) that])
  have so: "same_outside ?A (km_heap m) (sample_lists (km_heap m))"
    by (simp add: same_outside_def sample_lists_def)
  have "arena_ok (m\<lparr>km_heap := sample_lists (km_heap m)\<rparr>) (\<lambda>_. [])" by (rule arena_ok_heap [OF assms(1) so out])
  then show "timers_ok k (\<lambda>_. []) []"
    using out by (simp add: timers_ok_def k_def sample_kernel_def list_rep_def list_nodes_def sample_lists_def)
  show "queue_ok k (\<lambda>_. []) [] 0x20000 []"
    using out by (simp add: queue_ok_def k_def sample_kernel_def list_rep_def list_nodes_def sample_lists_def)
  show "free_node k (\<lambda>_. []) [] 0x2004"
    using out by (simp add: free_node_def k_def sample_kernel_def unlinked_def list_nodes_def sample_lists_def)
  show "heap_room k" using assms(3,4) by (auto simp: heap_room_def k_def sample_kernel_def)
  have "k_tasks k = k_tasks (sample_kernel m)" "running_task k = running_task (sample_kernel m)"
    "task_table k = task_table (sample_kernel m)" "idle_task k = idle_task (sample_kernel m)" by (simp_all add: k_def)
  then show "sched_ok k" using sample_sched_ok(1) [of m] by (simp add: sched_ok_def)
qed

theorem timer_add_keeps_sorted_witness:
  "\<exists>k t k' fl'. timer_add k 1000 0 0 = Some (t, k') \<and> timers_ok k' fl' [t] \<and> tm_expires (k_timers k' t) = 110"
proof -
  obtain m where m: "arena_init sample_kmem = Some m" "arena_ok m (\<lambda>_. [])" "free_run (kmap m) 0 1"
      "\<forall>c < DESC_COUNT. page_count (km_descs m ! c) = 0" "km_free m = (\<lambda>i. 0x10000 + of_nat i * 32)"
    by (rule sample_kmem_init)
  note r = sample_ready [OF m(2,5,3,4)]
  let ?k = "with_heap (sample_kernel m) (sample_lists (km_heap m))"
  have j: "jiffy ?k \<noteq> 0" "jiffies ?k = 10" "jiffy ?k = 10" by (simp_all add: sample_kernel_def)
  have f: "\<exists>s. free_run (kmap (k_mem ?k)) s 1" using r(4) by (simp add: heap_room_def)
  obtain t k' fl' where "timer_add ?k 1000 0 0 = Some (t, k')" "timers_ok k' fl' (insert_sorted (expires_key k') t [])"
      "k' = ?k\<lparr>k_mem := k_mem k', k_timers := (k_timers ?k)(t := new_timer ?k 1000 0 0)\<rparr>"
    using timer_add_keeps_sorted [OF r(1) f j(1), where ms = 1000 and handler = 0 and arg = 0]
    by (elim exE conjE) (rule that)
  moreover have "k_timers k' t = new_timer ?k 1000 0 0" using arg_cong [OF calculation(3), of k_timers] by simp
  ultimately show ?thesis using j(2,3)
    by (intro exI [of _ ?k] exI [of _ t] exI [of _ k'] exI [of _ fl']) (simp add: insert_sorted_def new_timer_def)
qed

theorem block_unblock_roundtrip_witness:
  "\<exists>k k1 k2. task_block k (running_task k) NULL TASK_WAITING 500 = Some k1 \<and>
     task_unblock k1 (running_task k) EOK = Some k2 \<and> runnable k2 (running_task k)"
proof -
  obtain m where m: "arena_init sample_kmem = Some m" "arena_ok m (\<lambda>_. [])" "free_run (kmap m) 0 1"
      "\<forall>c < DESC_COUNT. page_count (km_descs m ! c) = 0" "km_free m = (\<lambda>i. 0x10000 + of_nat i * 32)"
    by (rule sample_kmem_init)
  let ?k = "with_heap (sample_kernel m) (sample_lists (km_heap m))"
  note r = sample_ready [OF m(2,5,3,4)]
  have c: "chosen_list ?k NULL = 0x20000" by (simp add: chosen_list_def sample_kernel_def)
  have "running_task (sample_kernel m) = 0x2000" by (simp add: running_task_def sample_kernel_def)
  then have run: "running_task ?k = 0x2000" by simp
  have t: "\<not> k_intr ?k" "running_task ?k \<in> set (task_table ?k)" "running_task ?k \<noteq> NULL" "running_task ?k \<noteq> idle_task ?k"
    "jiffy ?k \<noteq> 0" "t_timer (k_tasks ?k (running_task ?k)) = NULL"
    unfolding run by (simp_all add: sample_kernel_def ready_task_def)
  have n: "free_node ?k (\<lambda>_. []) [] (task_node (running_task ?k))" "task_node (running_task ?k) \<notin> list_nodes 0x20000 []"
    using r(3) unfolding run by (simp_all add: task_node_def list_nodes_def)
  show ?thesis
    using block_unblock_roundtrip [OF r(5) t(1-4) r(1), of NULL "[]" TASK_WAITING 500 EOK, unfolded c, OF r(2) n _ _ r(4) t(5,6)]
    by (simp only: task_state_t.simps simp_thms True_implies_equals) blast
qed

text \<open>
  Wall-clock time. \<^verbatim>\<open>sys_time\<close> is right as long as the milliseconds since the start fit in 32
  bits: one tick later, after 49.7 days, it falls back to the start-up time.
\<close>

theorem sys_time_wraps:
  "(unat (jiffies k) * 10 < 2 ^ 32 \<longrightarrow> sys_time k start = start + word_of_nat (unat (jiffies k) * 10 div 1000)) \<and>
    sys_time (k\<lparr>jiffies := 429496729\<rparr>) start = start + 4294967 \<and> sys_time (k\<lparr>jiffies := 429496730\<rparr>) start = start"
proof -
  have "sys_time k start = start + word_of_nat (unat (jiffies k) * 10 div 1000)"
    if lt: "unat (jiffies k) * 10 < 2 ^ 32"
  proof -
    have "unat (jiffies k * 10) = unat (jiffies k) * 10" using lt by (subst unat_mult_small) auto
    then have "unat (jiffies k * 10 div 1000) = unat (jiffies k) * 10 div 1000" by (simp add: unat_div)
    then have "word_of_nat (unat (jiffies k * 10 div 1000)) = (word_of_nat (unat (jiffies k) * 10 div 1000) :: u32)"
      by (simp only:)
    then have "jiffies k * 10 div 1000 = word_of_nat (unat (jiffies k) * 10 div 1000)" by simp
    then show ?thesis by (simp add: sys_time_def JIFFY_def)
  qed
  then show ?thesis by (simp add: sys_time_def JIFFY_def)
qed

theorem sys_time_wraps_witness: "sys_time (sample_kernel sample_kmem) 1000 = 1000"
  using sys_time_wraps [of "sample_kernel sample_kmem" 1000] by (simp add: sample_kernel_def)

subsection \<open>Waking up\<close>

lemma upd_timer_proj [simp]:
  "k_timers (upd_timer k t f) = (k_timers k)(t := f (k_timers k t))" "jiffies (upd_timer k t f) = jiffies k"
  by (simp_all add: upd_timer_def)

lemma timer_expires_rep:
  assumes "list_rep (k_heap k) (timer_list k) ts"
  shows "timer_expires k = Some (if ts = [] then EOF else tm_expires (k_timers k (hd ts)))"
proof (cases ts)
  case Nil
  then show ?thesis using list_empty_rep [OF assms] by (simp add: timer_expires_def)
next
  case (Cons t us)
  then have "get_next (k_heap k) (list_head (timer_list k)) = Some t"
    using assms by (auto simp: get_next_def list_head_def list_rep_def list_nodes_def)
  then show ?thesis using list_empty_rep [OF assms] Cons by (simp add: timer_expires_def)
qed

lemma timer_wakeup_idle:
  assumes "list_rep (k_heap k) (timer_list k) ts"
    and "jiffies k < (if ts = [] then EOF else tm_expires (k_timers k (hd ts)))"
  shows "timer_wakeup handler k = Some k"
proof -
  let ?e = "if ts = [] then EOF else tm_expires (k_timers k (hd ts))"
  have "\<not> ?e \<le> jiffies k" using assms(2) by (simp only: not_le)
  moreover have "timer_expires k = Some ?e" by (rule timer_expires_rep [OF assms(1)])
  ultimately show ?thesis by (subst timer_wakeup.simps) (simp only: bind.bind_lunit if_False option.simps)
qed

text \<open>
  Waking up nobody. \<^verbatim>\<open>timer_wakeup\<close> returns at once, with nothing changed, when the first timer
  of the list is not due yet; with no timer at all, as long as \<open>jiffies\<close> is below the number that
  \<^verbatim>\<open>timer_expires\<close> returns for an empty list.
\<close>

theorem timer_wakeup_quiet:
  assumes "list_rep (k_heap k) (timer_list k) ts"
    and "ts = [] \<Longrightarrow> jiffies k < EOF" and "ts \<noteq> [] \<Longrightarrow> jiffies k < tm_expires (k_timers k (hd ts))"
  shows "timer_wakeup handler k = Some k"
  by (rule timer_wakeup_idle [OF assms(1)]) (simp add: assms(2,3))

definition two_timers :: kernel where
  "two_timers = (sample_kernel sample_kmem)\<lparr>timer_list := 0x100, jiffies := 0x7fffffff,
     k_mem := sample_kmem\<lparr>km_heap := \<lparr>node_prev = (\<lambda>_. NULL)(0x200 := 0x100, 0x300 := 0x200, 0x108 := 0x300),
       node_next = (\<lambda>_. NULL)(0x100 := 0x200, 0x200 := 0x300, 0x300 := 0x108)\<rparr>\<rparr>,
     k_timers := (\<lambda>t. \<lparr>tm_task = 0x3000, tm_expires = (if t = 0x200 then 0x80000005 else 0x7ffffff0),
       tm_handler = 0, tm_arg = 0, tm_active = False\<rparr>)\<rparr>"

lemma two_timers_rep: "list_rep (k_heap two_timers) (timer_list two_timers) [0x200, 0x300]"
  by (simp add: two_timers_def list_rep_def list_nodes_def)

theorem timer_wakeup_quiet_witness: "timer_wakeup (\<lambda>_ _ _. None) two_timers = Some two_timers"
  by (rule timer_wakeup_quiet [OF two_timers_rep]) (simp_all add: two_timers_def word_less_nat_alt)

text \<open>
  Two ways in which a timer can go wrong at the ends of the number range. The list is sorted by
  the due time as a signed number, so a due timer can stand behind one of the next 2 ^ 31 ticks and
  is then not fired; and when \<open>jiffies\<close> has reached the number that stands for no timer, the tail of
  an empty list is taken for a timer and the kernel stops.
\<close>

theorem timer_wakeup_misfires:
  "(\<exists>k t. list_rep (k_heap k) (timer_list k) [t, 0x300] \<and> sorted (map (\<lambda>t. sint (expires_key k t)) [t, 0x300]) \<and>
      tm_expires (k_timers k 0x300) \<le> jiffies k \<and> timer_wakeup (\<lambda>_ _ _. None) k = Some k) \<and>
   (\<exists>k. list_rep (k_heap k) (timer_list k) [] \<and> timer_wakeup (\<lambda>_ k _. Some k) k = None)"
proof (intro conjI)
  have "timer_wakeup (\<lambda>_ _ _. None) two_timers = Some two_timers"
    by (rule timer_wakeup_idle [OF two_timers_rep]) (simp add: two_timers_def word_less_nat_alt)
  moreover have "sorted (map (\<lambda>t. sint (expires_key two_timers t)) [0x200, 0x300])"
    "tm_expires (k_timers two_timers 0x300) \<le> jiffies two_timers"
    by (simp_all add: two_timers_def expires_key_def word_le_nat_alt)
  ultimately show "\<exists>k t. list_rep (k_heap k) (timer_list k) [t, 0x300] \<and>
      sorted (map (\<lambda>t. sint (expires_key k t)) [t, 0x300]) \<and>
      tm_expires (k_timers k 0x300) \<le> jiffies k \<and> timer_wakeup (\<lambda>_ _ _. None) k = Some k"
    using two_timers_rep by (intro exI [of _ two_timers] exI [of _ "0x200"]) simp
  let ?k = "two_timers\<lparr>jiffies := EOF, k_mem := sample_kmem\<lparr>km_heap := sample_heap\<rparr>,
      k_timers := (\<lambda>t. \<lparr>tm_task = 0x3000, tm_expires = 0, tm_handler = 7, tm_arg = 0, tm_active = False\<rparr>)\<rparr>"
  have rep: "list_rep (k_heap ?k) (timer_list ?k) []" using sample_heap_rep by (simp add: two_timers_def)
  have e: "timer_expires ?k = Some EOF" using timer_expires_rep [OF rep] by simp
  have n: "get_next sample_heap (list_head (timer_list two_timers)) = Some 0x108"
    by (simp add: two_timers_def sample_heap_def get_next_def list_head_def)
  have "timer_put (upd_timer ?k 0x108 (\<lambda>t. t\<lparr>tm_active := True\<rparr>)) 0x108 = None"
    by (simp add: timer_put_def upd_timer_def list_remove_def field_defs sample_heap_def)
  then have "timer_wakeup (\<lambda>_ k _. Some k) ?k = None"
    by (subst timer_wakeup.simps) (simp add: e n Let_def)
  then show "\<exists>k. list_rep (k_heap k) (timer_list k) [] \<and> timer_wakeup (\<lambda>_ k _. Some k) k = None" using rep by blast
qed

end
