(* ===== verification/Onix_Mutex.thy ===== *)
theory Onix_Mutex
  imports Onix_Task
begin

section \<open>Mutexes and locks (src/kernel/mutex.c)\<close>

text \<open>
  The kernel runs on one processor, so between two switches the code of a task is one step. A task
  stands at a program point (\<open>pc\<close>): in its own code, in the loop of \<^verbatim>\<open>mutex_lock\<close>, between
  \<^verbatim>\<open>mutex_lock\<close> and the assignment of the holder, between the release of the holder and
  \<^verbatim>\<open>mutex_unlock\<close>, in \<^verbatim>\<open>mutex_unlock\<close> after its yield, or preempted by the clock at one of these.
  The step relation runs the code of the current task from one point to the next; interrupts can
  come wherever the code has them enabled. Mutexes are used through locks only, so the steps are
  those of \<^verbatim>\<open>lock_acquire\<close> and \<^verbatim>\<open>lock_release\<close>.
\<close>

datatype pc =
    Own
  | Locking u32 bool
  | Locked u32
  | Unlocking u32
  | Yielded bool
  | Irq pc

record lsys =
  ls_k :: kernel
  mx_value :: "u32 \<Rightarrow> bool"
  lk_holder :: "u32 \<Rightarrow> u32"
  lk_repeat :: "u32 \<Rightarrow> u32"
  ls_pc :: "u32 \<Rightarrow> pc"

text \<open>\<^verbatim>\<open>&mutex->waiters\<close> and \<^verbatim>\<open>&lock->mutex\<close>.\<close>

definition mutex_waiters :: "u32 \<Rightarrow> u32" where
  "mutex_waiters mutex = mutex + 4"

definition lock_mutex :: "u32 \<Rightarrow> u32" where
  "lock_mutex lock = lock + 4"

abbreviation cur :: "lsys \<Rightarrow> u32" where
  "cur s \<equiv> running_task (ls_k s)"

definition set_interrupt_state :: "lsys \<Rightarrow> bool \<Rightarrow> lsys" where
  "set_interrupt_state s i = s\<lparr>ls_k := (ls_k s)\<lparr>k_intr := i\<rparr>\<rparr>"

definition interrupt_disable :: "lsys \<Rightarrow> bool \<times> lsys" where
  "interrupt_disable s = (k_intr (ls_k s), set_interrupt_state s False)"

definition at_pc :: "lsys \<Rightarrow> pc \<Rightarrow> lsys" where
  "at_pc s p = s\<lparr>ls_pc := (ls_pc s)(cur s := p)\<rparr>"

subsection \<open>Mutexes\<close>

definition mutex_init :: "lsys \<Rightarrow> u32 \<Rightarrow> lsys option" where
  "mutex_init s mutex = do {
     h \<leftarrow> list_init (k_heap (ls_k s)) (mutex_waiters mutex);
     Some (s\<lparr>mx_value := (mx_value s)(mutex := False), ls_k := with_heap (ls_k s) h\<rparr>)
   }"

text \<open>
  The loop of \<^verbatim>\<open>mutex_lock\<close> up to the next switch, for the lock whose mutex it is: block while
  the value is set, otherwise take it and restore the interrupt flag.
\<close>

definition mutex_lock_loop :: "lsys \<Rightarrow> u32 \<Rightarrow> bool \<Rightarrow> lsys option" where
  "mutex_lock_loop s lock intr = do {
     let mutex = lock_mutex lock;
     let current = cur s;
     if mx_value s mutex then do {
       k \<leftarrow> task_block (ls_k s) current (mutex_waiters mutex) TASK_BLOCKED TIMELESS;
       Some (s\<lparr>ls_k := k\<rparr>)
     }
     else Some (set_interrupt_state (at_pc (s\<lparr>mx_value := (mx_value s)(mutex := True)\<rparr>) (Locked lock)) intr)
   }"

definition mutex_lock :: "lsys \<Rightarrow> u32 \<Rightarrow> lsys option" where
  "mutex_lock s lock = do {
     let (intr, s) = interrupt_disable s;
     mutex_lock_loop (at_pc s (Locking lock intr)) lock intr
   }"

definition mutex_unlock :: "lsys \<Rightarrow> u32 \<Rightarrow> lsys option" where
  "mutex_unlock s mutex = do {
     let (intr, s) = interrupt_disable s;
     kassert (mx_value s mutex);
     let s = s\<lparr>mx_value := (mx_value s)(mutex := False)\<rparr>;
     empty \<leftarrow> list_empty (k_heap (ls_k s)) (mutex_waiters mutex);
     if \<not> empty then do {
       node \<leftarrow> get_prev (k_heap (ls_k s)) (list_tail (mutex_waiters mutex));
       let task = node - 4;
       kassert (t_magic (k_tasks (ls_k s) task) = ONIX_MAGIC);
       k \<leftarrow> task_unblock (ls_k s) task EOK;
       let s = at_pc (s\<lparr>ls_k := k\<rparr>) (Yielded intr);
       k \<leftarrow> task_yield k;
       Some (s\<lparr>ls_k := k\<rparr>)
     }
     else Some (set_interrupt_state (at_pc s Own) intr)
   }"

subsection \<open>Locks\<close>

definition lock_init :: "lsys \<Rightarrow> u32 \<Rightarrow> lsys option" where
  "lock_init s lock =
     mutex_init (s\<lparr>lk_holder := (lk_holder s)(lock := NULL), lk_repeat := (lk_repeat s)(lock := 0)\<rparr>) (lock_mutex lock)"

definition lock_acquire :: "lsys \<Rightarrow> u32 \<Rightarrow> lsys option" where
  "lock_acquire s lock =
     (if lk_holder s lock \<noteq> cur s then mutex_lock s lock
      else Some (s\<lparr>lk_repeat := (lk_repeat s)(lock := lk_repeat s lock + 1)\<rparr>))"

definition lock_acquired :: "lsys \<Rightarrow> u32 \<Rightarrow> lsys option" where
  "lock_acquired s lock = do {
     let s = s\<lparr>lk_holder := (lk_holder s)(lock := cur s)\<rparr>;
     kassert (lk_repeat s lock = 0);
     Some (at_pc (s\<lparr>lk_repeat := (lk_repeat s)(lock := 1)\<rparr>) Own)
   }"

definition lock_release :: "lsys \<Rightarrow> u32 \<Rightarrow> lsys option" where
  "lock_release s lock = do {
     kassert (lk_holder s lock = cur s);
     if lk_repeat s lock > 1 then Some (s\<lparr>lk_repeat := (lk_repeat s)(lock := lk_repeat s lock - 1)\<rparr>)
     else do {
       kassert (lk_repeat s lock = 1);
       Some (at_pc (s\<lparr>lk_holder := (lk_holder s)(lock := NULL), lk_repeat := (lk_repeat s)(lock := 0)\<rparr>) (Unlocking lock))
     }
   }"

subsection \<open>Steps\<close>

text \<open>What the current task does next when it is not in its own code.\<close>

definition resume :: "lsys \<Rightarrow> lsys option" where
  "resume s = (case ls_pc s (cur s) of
     Own \<Rightarrow> Some s
   | Locking lock intr \<Rightarrow> mutex_lock_loop s lock intr
   | Locked lock \<Rightarrow> lock_acquired s lock
   | Unlocking lock \<Rightarrow> mutex_unlock s (lock_mutex lock)
   | Yielded intr \<Rightarrow> Some (set_interrupt_state (at_pc s Own) intr)
   | Irq p \<Rightarrow> Some (set_interrupt_state (at_pc s p) True))"

text \<open>The clock interrupt, with its call of \<^verbatim>\<open>schedule\<close>.\<close>

definition preempt :: "lsys \<Rightarrow> lsys option" where
  "preempt s = do {
     let s = set_interrupt_state (at_pc s (Irq (ls_pc s (cur s)))) False;
     k \<leftarrow> schedule (ls_k s);
     Some (s\<lparr>ls_k := k\<rparr>)
   }"

text \<open>
  The steps of a system with the locks \<open>L\<close>. A task releases what it holds, the idle task takes no
  lock, and no lock is taken \<open>2 ^ 32 - 1\<close> times in a row by its holder.
\<close>

inductive lock_step :: "u32 set \<Rightarrow> lsys \<Rightarrow> lsys \<Rightarrow> bool" for L where
  step_acquire: "lock_step L s s'"
    if "ls_pc s (cur s) = Own" and "cur s \<noteq> idle_task (ls_k s)" and "lock \<in> L" and "lk_repeat s lock \<noteq> - 1"
      and "lock_acquire s lock = Some s'"
| step_release: "lock_step L s s'"
    if "ls_pc s (cur s) = Own" and "lock \<in> L" and "lk_holder s lock = cur s" and "lock_release s lock = Some s'"
| step_resume: "lock_step L s s'"
    if "ls_pc s (cur s) \<noteq> Own" and "resume s = Some s'"
| step_preempt: "lock_step L s s'"
    if "k_intr (ls_k s)" and "preempt s = Some s'"

subsection \<open>Blocking without a timeout\<close>

lemma task_block_plain:
  assumes rep: "list_rep (k_heap k) l xs" and n: "task_node task \<notin> list_nodes l xs" "task_node task \<noteq> NULL"
      "unlinked (k_heap k) (task_node task)"
    and st: "\<not> k_intr k" "state \<noteq> TASK_READY" "state \<noteq> TASK_RUNNING"
  obtains h where "list_rep h l (task_node task # xs)"
    and "same_outside (insert (task_node task) (list_nodes l xs)) (k_heap k) h"
    and "task_block k task l state TIMELESS =
      (let kp = upd_task (with_heap k h) task (t_state_update (\<lambda>_. state)) in
       if running_task k = task then schedule kp else Some kp)"
proof -
  obtain h where h: "list_push (k_heap k) l (task_node task) = Some h" "list_rep h l (task_node task # xs)"
      "same_outside (insert (task_node task) (list_nodes l xs)) (k_heap k) h"
    using list_push_rep [OF rep n(1,2)] by blast
  have "l \<noteq> NULL" using rep by (auto simp: list_rep_def list_nodes_def)
  then have "task_block k task l state TIMELESS =
      (let kp = upd_task (with_heap k h) task (t_state_update (\<lambda>_. state)) in
       if running_task k = task then schedule kp else Some kp)"
    using h(1) n(3) st by (simp add: task_block_def unlinked_def TIMELESS_def Let_def)
  then show thesis using that h by blast
qed

lemma task_unblock_plain:
  assumes rep: "list_rep (k_heap k) l xs" and n: "task_node task \<in> set xs"
    and st: "\<not> k_intr k" "t_state (k_tasks k task) \<noteq> TASK_RUNNING" "t_timer (k_tasks k task) = NULL"
  obtains h where "list_rep h l (remove1 (task_node task) xs)" and "unlinked h (task_node task)"
    and "same_outside (list_nodes l xs) (k_heap k) h"
    and "task_unblock k task reason =
      Some (upd_task (with_heap k h) task (\<lambda>t. t\<lparr>t_status := reason, t_state := TASK_READY\<rparr>))"
proof -
  obtain h where h: "list_remove (k_heap k) (task_node task) = Some h" "list_rep h l (remove1 (task_node task) xs)"
      "unlinked h (task_node task)" "same_outside (list_nodes l xs) (k_heap k) h"
    using list_remove_member [OF rep n] by blast
  have "node_next (k_heap k) (task_node task) \<noteq> NULL" by (rule list_rep_linked(2) [OF rep n])
  then have "task_unblock k task reason =
      Some (upd_task (with_heap k h) task (\<lambda>t. t\<lparr>t_status := reason, t_state := TASK_READY\<rparr>))"
    using h(1,3) st by (simp add: task_unblock_def unlinked_def Let_def)
  then show thesis using that h by blast
qed

subsection \<open>The waiting tasks\<close>

definition live :: "kernel \<Rightarrow> u32 set" where
  "live k = set (task_table k) - {NULL}"

definition wlist :: "u32 \<Rightarrow> u32" where
  "wlist lock = mutex_waiters (lock_mutex lock)"

text \<open>The places of the locks and of the tasks in memory do not overlap.\<close>

definition apart :: "u32 set \<Rightarrow> u32 set \<Rightarrow> bool" where
  "apart L T \<longleftrightarrow> (\<forall>l \<in> L. \<forall>l' \<in> L. l \<noteq> l' \<longrightarrow> {wlist l, wlist l + 8} \<inter> {wlist l', wlist l' + 8} = {}) \<and>
     (\<forall>t \<in> T. task_node t \<noteq> NULL \<and> (\<forall>l \<in> L. task_node t \<notin> {wlist l, wlist l + 8}))"

text \<open>
  \<open>ws l\<close> are the tasks that wait for lock \<open>l\<close>, the latest first: the list of the mutex holds exactly
  their nodes; they are blocked, and every other task is ready or running with a free node.
\<close>

definition may_run :: "task_t \<Rightarrow> bool" where
  "may_run t \<longleftrightarrow> t_state t = TASK_READY \<or> t_state t = TASK_RUNNING"

definition waiters :: "u32 set \<Rightarrow> (u32 \<Rightarrow> u32 list) \<Rightarrow> u32 set" where
  "waiters L ws = (\<Union>l \<in> L. set (ws l))"

definition waiting_ok :: "u32 set \<Rightarrow> kernel \<Rightarrow> (u32 \<Rightarrow> u32 list) \<Rightarrow> bool" where
  "waiting_ok L k ws \<longleftrightarrow> apart L (live k) \<and> waiters L ws \<subseteq> live k \<and>
     (\<forall>l \<in> L. list_rep (k_heap k) (wlist l) (map task_node (ws l))) \<and>
     (\<forall>l \<in> L. \<forall>l' \<in> L. l \<noteq> l' \<longrightarrow> set (ws l) \<inter> set (ws l') = {}) \<and>
     (\<forall>t \<in> live k. t_timer (k_tasks k t) = NULL) \<and> (\<forall>t \<in> waiters L ws. t_state (k_tasks k t) = TASK_BLOCKED) \<and>
     (\<forall>t \<in> live k - waiters L ws. unlinked (k_heap k) (task_node t) \<and> may_run (k_tasks k t))"

lemma waiting_okD:
  assumes "waiting_ok L k ws"
  shows "apart L (live k)" and "waiters L ws \<subseteq> live k"
    and "\<And>l. l \<in> L \<Longrightarrow> list_rep (k_heap k) (wlist l) (map task_node (ws l))"
    and "\<And>l l'. l \<in> L \<Longrightarrow> l' \<in> L \<Longrightarrow> l \<noteq> l' \<Longrightarrow> set (ws l) \<inter> set (ws l') = {}"
    and "\<And>t. t \<in> live k \<Longrightarrow> t_timer (k_tasks k t) = NULL"
    and "\<And>t. t \<in> waiters L ws \<Longrightarrow> t_state (k_tasks k t) = TASK_BLOCKED"
    and "\<And>t. t \<in> live k \<Longrightarrow> t \<notin> waiters L ws \<Longrightarrow> unlinked (k_heap k) (task_node t)"
    and "\<And>t. t \<in> live k \<Longrightarrow> t \<notin> waiters L ws \<Longrightarrow> may_run (k_tasks k t)"
  using assms unfolding waiting_ok_def by blast+

lemma task_node_inject [simp]: "task_node t = task_node t' \<longleftrightarrow> t = t'"
  by (simp add: task_node_def)

lemma wlist_nodes:
  assumes "apart L T" and "l \<in> L" and "t \<in> T"
  shows "task_node t \<in> list_nodes (wlist l) (map task_node xs) \<longleftrightarrow> t \<in> set xs"
proof -
  have "task_node t \<noteq> wlist l" "task_node t \<noteq> wlist l + 8" using assms by (auto simp: apart_def)
  then show ?thesis by (auto simp: list_nodes_def)
qed

lemma wlist_disjoint:
  assumes "apart L T" and "l \<in> L" and "l' \<in> L" and "l \<noteq> l'"
    and "set xs \<subseteq> T" and "set ys \<subseteq> T" and "set xs \<inter> set ys = {}"
  shows "list_nodes (wlist l) (map task_node xs) \<inter> list_nodes (wlist l') (map task_node ys) = {}"
proof -
  have heads: "{wlist l, wlist l + 8} \<inter> {wlist l', wlist l' + 8} = {}" using assms by (simp add: apart_def)
  have "task_node t \<notin> {wlist l, wlist l + 8, wlist l', wlist l' + 8}" if "t \<in> T" for t
    using assms(1-3) that unfolding apart_def by blast
  then have "task_node ` set xs \<inter> {wlist l', wlist l' + 8} = {}" "task_node ` set ys \<inter> {wlist l, wlist l + 8} = {}"
    using assms(5,6) by blast+
  moreover have "task_node ` set xs \<inter> task_node ` set ys = {}" using assms(7) by auto
  ultimately show ?thesis using heads unfolding list_nodes_def set_map by blast
qed

text \<open>A switch keeps the waiting tasks waiting.\<close>

lemma waiting_ok_switch:
  assumes w: "waiting_ok L k ws" and so: "sched_ok k" and n: "n \<in> set (task_table k)" "n \<noteq> NULL"
    and nw: "n \<notin> waiters L ws"
  shows "waiting_ok L (switch_to k n) ws"
proof -
  note sw = switch_to_states [OF so n] and d = waiting_okD [OF w]
  have live: "live (switch_to k n) = live k" using sw(7) by (simp add: live_def)
  have pr: "t_state (preempted t) = (if t_state t = TASK_RUNNING then TASK_READY else t_state t)" for t
    by (simp add: preempted_def)
  have st: "t_state (k_tasks (switch_to k n) t) =
      (if t = n then TASK_RUNNING else if t = running_task k \<and> t_state (k_tasks k t) = TASK_RUNNING then TASK_READY
       else t_state (k_tasks k t))" for t
  proof (cases "t = n")
    case True
    then show ?thesis using sw(3) by simp
  next
    case False
    then show ?thesis using sw(4) [of t] sw(5) pr by (cases "t = running_task k") auto
  qed
  have tm: "t_timer (k_tasks (switch_to k n) t) = t_timer (k_tasks k t)" for t
    by (simp add: switch_to_def Let_def preempted_def)
  have "t_state (k_tasks (switch_to k n) t) = TASK_BLOCKED" if "t \<in> waiters L ws" for t
    using d(6) [OF that] that nw by (auto simp: st)
  moreover have "may_run (k_tasks (switch_to k n) t)" if "t \<in> live k" "t \<notin> waiters L ws" for t
    using d(8) [OF that] by (simp add: may_run_def st)
  ultimately show ?thesis using d(1-5,7) unfolding waiting_ok_def live sw(6) tm by blast
qed

lemma live_upd [simp]: "live (upd_task k t f) = live k" "live (with_heap k h) = live k"
  by (simp_all add: live_def)

text \<open>Changing the list of one lock leaves the others' lists and the free nodes alone.\<close>

lemma waiting_frame:
  assumes w: "waiting_ok L k ws" and l: "l \<in> L" and t: "t \<in> live k"
    and h: "same_outside (insert (task_node t) (list_nodes (wlist l) (map task_node (ws l)))) (k_heap k) h"
    and other: "\<forall>l' \<in> L. l' \<noteq> l \<longrightarrow> t \<notin> set (ws l')"
  shows "\<And>l'. l' \<in> L \<Longrightarrow> l' \<noteq> l \<Longrightarrow> list_rep h (wlist l') (map task_node (ws l'))"
    and "\<And>u. u \<in> live k \<Longrightarrow> u \<notin> waiters L ws \<Longrightarrow> u \<noteq> t \<Longrightarrow> unlinked h (task_node u)"
proof -
  note d = waiting_okD [OF w]
  have sub: "set (ws c) \<subseteq> live k" if "c \<in> L" for c using d(2) that by (auto simp: waiters_def)
  show "list_rep h (wlist l') (map task_node (ws l'))" if l': "l' \<in> L" "l' \<noteq> l" for l'
  proof (rule list_rep_frame [OF d(3) [OF l'(1)] h])
    have "task_node t \<notin> list_nodes (wlist l') (map task_node (ws l'))"
      using wlist_nodes [OF d(1) l'(1) t] other l' by simp
    moreover have "list_nodes (wlist l) (map task_node (ws l)) \<inter> list_nodes (wlist l') (map task_node (ws l')) = {}"
      by (rule wlist_disjoint [OF d(1) l l'(1)]) (use l' l sub d(4) in auto)
    ultimately show "insert (task_node t) (list_nodes (wlist l) (map task_node (ws l))) \<inter>
        list_nodes (wlist l') (map task_node (ws l')) = {}" by blast
  qed
  show "unlinked h (task_node u)" if u: "u \<in> live k" "u \<notin> waiters L ws" "u \<noteq> t" for u
  proof (rule unlinked_frame [OF d(7) [OF u(1,2)] h])
    have "u \<notin> set (ws l)" using u(2) l by (auto simp: waiters_def)
    then show "task_node u \<notin> insert (task_node t) (list_nodes (wlist l) (map task_node (ws l)))"
      using wlist_nodes [OF d(1) l u(1)] u(3) by simp
  qed
qed

lemma waiting_ok_push:
  assumes w: "waiting_ok L k ws" and l: "l \<in> L" and t: "t \<in> live k" "t \<notin> waiters L ws"
    and h: "list_rep h (wlist l) (task_node t # map task_node (ws l))"
      "same_outside (insert (task_node t) (list_nodes (wlist l) (map task_node (ws l)))) (k_heap k) h"
  shows "waiting_ok L (upd_task (with_heap k h) t (t_state_update (\<lambda>_. TASK_BLOCKED))) (ws(l := t # ws l))"
proof -
  note d = waiting_okD [OF w]
  have nt: "t \<notin> set (ws l')" if "l' \<in> L" for l' using t(2) that by (auto simp: waiters_def)
  then have nt': "\<forall>l' \<in> L. l' \<noteq> l \<longrightarrow> t \<notin> set (ws l')" by blast
  note f = waiting_frame [OF w l t(1) h(2) nt']
  have W: "waiters L (ws(l := t # ws l)) = insert t (waiters L ws)"
    using l by (auto simp: waiters_def split: if_splits)
  have "list_rep h (wlist l') (map task_node ((ws(l := t # ws l)) l'))" if "l' \<in> L" for l'
    using f(1) [OF that] h(1) by (cases "l' = l") simp_all
  moreover have "set ((ws(l := t # ws l)) l1) \<inter> set ((ws(l := t # ws l)) l2) = {}" if "l1 \<in> L" "l2 \<in> L" "l1 \<noteq> l2" for l1 l2
    using d(4) [OF that] nt that by (cases "l1 = l"; cases "l2 = l") auto
  ultimately show ?thesis using d(1,2,5,6,8) f(2) t(1) unfolding waiting_ok_def W by simp
qed

lemma waiting_ok_wake:
  assumes w: "waiting_ok L k ws" and l: "l \<in> L" and t: "t \<in> set (ws l)"
    and h: "list_rep h (wlist l) (remove1 (task_node t) (map task_node (ws l)))" "unlinked h (task_node t)"
      "same_outside (list_nodes (wlist l) (map task_node (ws l))) (k_heap k) h"
  shows "waiting_ok L (upd_task (with_heap k h) t (\<lambda>u. u\<lparr>t_status := r, t_state := TASK_READY\<rparr>)) (ws(l := remove1 t (ws l)))"
    and "waiters L (ws(l := remove1 t (ws l))) = waiters L ws - {t}"
proof -
  note d = waiting_okD [OF w]
  have tl: "t \<in> live k" using d(2) l t by (auto simp: waiters_def)
  have nt: "\<forall>l' \<in> L. l' \<noteq> l \<longrightarrow> t \<notin> set (ws l')" using d(4) l t by blast
  have h': "same_outside (insert (task_node t) (list_nodes (wlist l) (map task_node (ws l)))) (k_heap k) h"
    by (rule same_outside_mono [OF h(3)]) blast
  note f = waiting_frame [OF w l tl h' nt]
  have "distinct (map task_node (ws l))" using d(3) [OF l] by (simp add: list_rep_def)
  then have dist: "distinct (ws l)" by (simp add: distinct_map)
  have rm: "remove1 (task_node t) (map task_node xs) = map task_node (remove1 t xs)" for xs
    by (induction xs) auto
  have sr: "set (remove1 t (ws l)) = set (ws l) - {t}" using dist by (rule set_remove1_eq)
  show W: "waiters L (ws(l := remove1 t (ws l))) = waiters L ws - {t}"
    using nt l by (auto simp: waiters_def sr split: if_splits)
  have "list_rep h (wlist l') (map task_node ((ws(l := remove1 t (ws l))) l'))" if "l' \<in> L" for l'
    using f(1) [OF that] h(1) by (cases "l' = l") (simp_all add: rm)
  moreover have "set ((ws(l := remove1 t (ws l))) l1) \<inter> set ((ws(l := remove1 t (ws l))) l2) = {}"
    if "l1 \<in> L" "l2 \<in> L" "l1 \<noteq> l2" for l1 l2
    using d(4) [OF that] by (cases "l1 = l"; cases "l2 = l") (auto simp: sr)
  moreover have "unlinked h (task_node u)" "may_run (((k_tasks k)(t := (k_tasks k t)\<lparr>t_status := r, t_state := TASK_READY\<rparr>)) u)"
    if "u \<in> live k" "u \<notin> waiters L ws - {t}" for u
    using f(2) [OF that(1)] d(8) [OF that(1)] h(2) that by (cases "u = t"; auto simp: may_run_def)+
  ultimately show "waiting_ok L (upd_task (with_heap k h) t (\<lambda>u. u\<lparr>t_status := r, t_state := TASK_READY\<rparr>)) (ws(l := remove1 t (ws l)))"
    using d(1,2,5,6) unfolding waiting_ok_def W by auto
qed

subsection \<open>Who is inside a lock\<close>

fun core :: "pc \<Rightarrow> pc" where
  "core (Irq p) = core p"
| "core p = p"

definition inside_lock :: "lsys \<Rightarrow> u32 \<Rightarrow> u32 \<Rightarrow> bool" where
  "inside_lock s t l \<longleftrightarrow> lk_holder s l = t \<or> core (ls_pc s t) = Locked l \<or> core (ls_pc s t) = Unlocking l"

text \<open>
  One lock: its mutex is taken exactly when a task is inside, there is at most one such task, the
  count is 0 exactly without a holder, and if the mutex is free while tasks wait then one of them
  has been woken and is on its way.
\<close>

definition lock_ok :: "u32 set \<Rightarrow> u32 set \<Rightarrow> u32 list \<Rightarrow> lsys \<Rightarrow> u32 \<Rightarrow> bool" where
  "lock_ok T W q s l \<longleftrightarrow> (mx_value s (lock_mutex l) \<longleftrightarrow> (\<exists>t \<in> T. inside_lock s t l)) \<and>
     (\<forall>t \<in> T. \<forall>t' \<in> T. inside_lock s t l \<longrightarrow> inside_lock s t' l \<longrightarrow> t = t') \<and>
     (lk_repeat s l = 0 \<longleftrightarrow> lk_holder s l = NULL) \<and>
     (lk_holder s l \<noteq> NULL \<longrightarrow> lk_holder s l \<in> T \<and> core (ls_pc s (lk_holder s l)) \<noteq> Locked l \<and>
        core (ls_pc s (lk_holder s l)) \<noteq> Unlocking l) \<and>
     (\<not> mx_value s (lock_mutex l) \<and> q \<noteq> [] \<longrightarrow> (\<exists>t \<in> T - W. \<exists>i. ls_pc s t = Locking l i))"

lemma lock_okI:
  assumes "mx_value s (lock_mutex l) \<longleftrightarrow> (\<exists>t \<in> T. inside_lock s t l)"
    and "\<And>t t'. t \<in> T \<Longrightarrow> t' \<in> T \<Longrightarrow> inside_lock s t l \<Longrightarrow> inside_lock s t' l \<Longrightarrow> t = t'"
    and "lk_repeat s l = 0 \<longleftrightarrow> lk_holder s l = NULL"
    and "lk_holder s l \<noteq> NULL \<Longrightarrow> lk_holder s l \<in> T \<and> core (ls_pc s (lk_holder s l)) \<noteq> Locked l \<and>
        core (ls_pc s (lk_holder s l)) \<noteq> Unlocking l"
    and "\<not> mx_value s (lock_mutex l) \<Longrightarrow> q \<noteq> [] \<Longrightarrow> \<exists>t \<in> T - W. \<exists>i. ls_pc s t = Locking l i"
  shows "lock_ok T W q s l"
  using assms unfolding lock_ok_def by blast

lemma lock_okD:
  assumes "lock_ok T W q s l"
  shows "mx_value s (lock_mutex l) \<longleftrightarrow> (\<exists>t \<in> T. inside_lock s t l)"
    and "\<And>t t'. t \<in> T \<Longrightarrow> t' \<in> T \<Longrightarrow> inside_lock s t l \<Longrightarrow> inside_lock s t' l \<Longrightarrow> t = t'"
    and "lk_repeat s l = 0 \<longleftrightarrow> lk_holder s l = NULL"
    and "lk_holder s l \<noteq> NULL \<Longrightarrow> lk_holder s l \<in> T \<and> core (ls_pc s (lk_holder s l)) \<noteq> Locked l \<and>
        core (ls_pc s (lk_holder s l)) \<noteq> Unlocking l"
    and "\<not> mx_value s (lock_mutex l) \<Longrightarrow> q \<noteq> [] \<Longrightarrow> \<exists>t \<in> T - W. \<exists>i. ls_pc s t = Locking l i"
  using assms unfolding lock_ok_def by blast+

text \<open>A step that is not about this lock.\<close>

lemma lock_ok_frame:
  assumes ok: "lock_ok T W q s l"
    and same: "mx_value s' (lock_mutex l) = mx_value s (lock_mutex l)" "lk_holder s' l = lk_holder s l"
      "lk_repeat s' l = lk_repeat s l"
    and pcs: "\<And>t. (core (ls_pc s' t) = Locked l) = (core (ls_pc s t) = Locked l)"
      "\<And>t. (core (ls_pc s' t) = Unlocking l) = (core (ls_pc s t) = Unlocking l)"
    and w: "\<And>t i. \<not> mx_value s (lock_mutex l) \<Longrightarrow> t \<in> T \<Longrightarrow> t \<notin> W \<Longrightarrow> ls_pc s t = Locking l i \<Longrightarrow>
      t \<notin> W' \<and> (\<exists>i. ls_pc s' t = Locking l i)"
    and q: "\<not> mx_value s (lock_mutex l) \<Longrightarrow> q = [] \<Longrightarrow> q' = []"
  shows "lock_ok T W' q' s' l"
proof -
  note d = lock_okD [OF ok]
  have ins: "inside_lock s' t l = inside_lock s t l" for t by (simp only: inside_lock_def same pcs)
  show ?thesis
  proof (rule lock_okI)
    show "\<exists>t \<in> T - W'. \<exists>i. ls_pc s' t = Locking l i" if v': "\<not> mx_value s' (lock_mutex l)" and q': "q' \<noteq> []"
    proof -
      have v: "\<not> mx_value s (lock_mutex l)" using v' same(1) by simp
      then obtain t i where t: "t \<in> T" "t \<notin> W" "ls_pc s t = Locking l i" using d(5) q q' by blast
      then show ?thesis using w [OF v t] by blast
    qed
  qed (unfold ins same pcs; use d(1-4) in blast)+
qed

fun pc_in :: "u32 set \<Rightarrow> pc \<Rightarrow> bool" where
  "pc_in L Own = True"
| "pc_in L (Locking l i) = (l \<in> L)"
| "pc_in L (Locked l) = (l \<in> L)"
| "pc_in L (Unlocking l) = (l \<in> L)"
| "pc_in L (Yielded i) = True"
| "pc_in L (Irq p) = (pc_in L p \<and> core p = p \<and> (\<forall>l i. p \<noteq> Locking l i) \<and> (\<forall>i. p \<noteq> Yielded i))"

text \<open>The points at which the code has interrupts off.\<close>

fun intr_off :: "pc \<Rightarrow> bool" where
  "intr_off (Locking l i) = True"
| "intr_off (Yielded i) = True"
| "intr_off (Irq p) = True"
| "intr_off p = False"

definition base_ok :: "u32 set \<Rightarrow> lsys \<Rightarrow> (u32 \<Rightarrow> u32 list) \<Rightarrow> bool" where
  "base_ok L s ws \<longleftrightarrow> sched_ok (ls_k s) \<and> waiting_ok L (ls_k s) ws \<and> cur s \<in> live (ls_k s) \<and>
     (\<forall>l \<in> L. \<forall>t \<in> set (ws l). \<exists>i. ls_pc s t = Locking l i) \<and>
     (\<forall>l i. ls_pc s (idle_task (ls_k s)) \<noteq> Locking l i) \<and>
     (\<forall>t \<in> live (ls_k s). pc_in L (ls_pc s t)) \<and>
     (\<forall>l \<in> L. lock_ok (live (ls_k s)) (waiters L ws) (ws l) s l)"

definition sys_ok :: "u32 set \<Rightarrow> lsys \<Rightarrow> (u32 \<Rightarrow> u32 list) \<Rightarrow> bool" where
  "sys_ok L s ws \<longleftrightarrow> base_ok L s ws \<and> cur s \<notin> waiters L ws \<and>
     t_state (k_tasks (ls_k s) (cur s)) = TASK_RUNNING \<and> (intr_off (ls_pc s (cur s)) \<longrightarrow> \<not> k_intr (ls_k s))"

lemma base_okD:
  assumes "base_ok L s ws"
  shows "sched_ok (ls_k s)" and "waiting_ok L (ls_k s) ws" and "cur s \<in> live (ls_k s)"
    and "\<And>l t. l \<in> L \<Longrightarrow> t \<in> set (ws l) \<Longrightarrow> \<exists>i. ls_pc s t = Locking l i"
    and "\<And>l i. ls_pc s (idle_task (ls_k s)) \<noteq> Locking l i"
    and "\<And>t. t \<in> live (ls_k s) \<Longrightarrow> pc_in L (ls_pc s t)"
    and "\<And>l. l \<in> L \<Longrightarrow> lock_ok (live (ls_k s)) (waiters L ws) (ws l) s l"
  using assms unfolding base_ok_def by blast+

lemma lock_mutex_inject [simp]: "lock_mutex l = lock_mutex l' \<longleftrightarrow> l = l'"
  by (simp add: lock_mutex_def)

lemma at_pc_proj [simp]:
  "ls_k (at_pc s p) = ls_k s" "mx_value (at_pc s p) = mx_value s" "lk_holder (at_pc s p) = lk_holder s"
  "lk_repeat (at_pc s p) = lk_repeat s" "ls_pc (at_pc s p) = (ls_pc s)(cur s := p)"
  by (simp_all add: at_pc_def)

lemma set_intr_proj [simp]:
  "ls_k (set_interrupt_state s i) = (ls_k s)\<lparr>k_intr := i\<rparr>" "mx_value (set_interrupt_state s i) = mx_value s"
  "lk_holder (set_interrupt_state s i) = lk_holder s" "lk_repeat (set_interrupt_state s i) = lk_repeat s"
  "ls_pc (set_interrupt_state s i) = ls_pc s"
  by (simp_all add: set_interrupt_state_def)

lemma kernel_intr [simp]:
  "running_task (k\<lparr>k_intr := i\<rparr>) = running_task k" "sched_ok (k\<lparr>k_intr := i\<rparr>) = sched_ok k"
  "live (k\<lparr>k_intr := i\<rparr>) = live k" "waiting_ok L (k\<lparr>k_intr := i\<rparr>) ws = waiting_ok L k ws"
proof -
  show r: "running_task (k\<lparr>k_intr := i\<rparr>) = running_task k" by (simp add: running_task_def)
  show "live (k\<lparr>k_intr := i\<rparr>) = live k" by (simp add: live_def)
  then show "waiting_ok L (k\<lparr>k_intr := i\<rparr>) ws = waiting_ok L k ws" by (simp add: waiting_ok_def)
  show "sched_ok (k\<lparr>k_intr := i\<rparr>) = sched_ok k" by (simp add: sched_ok_def r)
qed

lemma sched_ok_with_heap [simp]: "sched_ok (with_heap k h) = sched_ok k"
  by (simp add: sched_ok_def)

lemma sched_ok_upd:
  assumes "sched_ok k" and "\<And>x. t_magic (f x) = t_magic x" and "\<And>x. t_pde (f x) = t_pde x"
    and "\<And>x. t_state (f x) \<noteq> TASK_RUNNING"
  shows "sched_ok (upd_task k t f)"
proof -
  have "t_magic (k_tasks (upd_task k t f) p) = t_magic (k_tasks k p)" "t_pde (k_tasks (upd_task k t f) p) = t_pde (k_tasks k p)"
    "t_state (k_tasks (upd_task k t f) p) = TASK_RUNNING \<Longrightarrow> t_state (k_tasks k p) = TASK_RUNNING" for p
    using assms(2-4) by (cases "p = t"; simp)+
  then show ?thesis
    using assms(1) unfolding sched_ok_def upd_task_proj(2,7,8) by metis
qed

text \<open>A switch from a state that is well formed up to the current task.\<close>

lemma base_ok_schedule:
  assumes b: "base_ok L s ws" and i: "\<not> k_intr (ls_k s)"
  obtains n where "schedule (ls_k s) = Some (switch_to (ls_k s) n)"
    and "sys_ok L (s\<lparr>ls_k := switch_to (ls_k s) n\<rparr>) ws"
proof -
  note d = base_okD [OF b]
  let ?k = "ls_k s"
  obtain n where n: "schedule ?k = Some (switch_to ?k n)" "n \<in> set (task_table ?k)" "n \<noteq> NULL"
      "if \<exists>p. runnable ?k p then runnable ?k n else n = idle_task ?k"
    by (rule schedule_returns [OF d(1) i])
  have nw: "n \<notin> waiters L ws"
  proof
    assume w: "n \<in> waiters L ws"
    then have "t_state (k_tasks ?k n) = TASK_BLOCKED" using waiting_okD(6) [OF d(2)] by blast
    then have "\<not> runnable ?k n" by (simp add: runnable_def)
    then have "n = idle_task ?k" using n(4) by (auto split: if_splits)
    then show False using w d(4,5) by (fastforce simp: waiters_def)
  qed
  let ?s = "s\<lparr>ls_k := switch_to ?k n\<rparr>"
  note sw = switch_to_states [OF d(1) n(2,3)]
  have lv: "live (switch_to ?k n) = live ?k" using sw(7) by (simp add: live_def)
  have id: "idle_task (switch_to ?k n) = idle_task ?k" "\<not> k_intr (switch_to ?k n)"
    using i by (simp_all add: switch_to_def Let_def)
  have "lock_ok (live ?k) (waiters L ws) (ws l) ?s l" if "l \<in> L" for l
    by (rule lock_ok_frame [OF d(7) [OF that]]) auto
  then have "base_ok L ?s ws"
    using d waiting_ok_switch [OF d(2,1) n(2,3) nw] sw(1,2) n(2,3) id(1) lv
    unfolding base_ok_def by (simp add: live_def)
  then have "sys_ok L ?s ws" using nw sw(2,3) id(2) by (simp add: sys_ok_def)
  then show thesis using that n(1) by blast
qed

subsection \<open>Every step goes through and keeps the system well formed\<close>

lemma wlist_eq: "mutex_waiters (lock_mutex l) = wlist l"
  by (simp add: wlist_def)

lemma lock_loop_blocks:
  assumes ok: "sys_ok L s ws" and pc: "ls_pc s (cur s) = Locking l i" and l: "l \<in> L"
    and v: "mx_value s (lock_mutex l)"
  shows "\<exists>s' ws'. mutex_lock_loop s l i = Some s' \<and> sys_ok L s' ws'"
proof -
  have b: "base_ok L s ws" and nw: "cur s \<notin> waiters L ws" and i0: "\<not> k_intr (ls_k s)"
    using ok pc by (simp_all add: sys_ok_def)
  note d = base_okD [OF b] and w = waiting_okD [OF base_okD(2) [OF b]]
  let ?k = "ls_k s" and ?c = "cur s"
  have nc: "?c \<notin> set (ws l)" using nw l by (auto simp: waiters_def)
  have nn: "task_node ?c \<noteq> NULL" using w(1) d(3) by (simp add: apart_def)
  have nl: "task_node ?c \<notin> list_nodes (wlist l) (map task_node (ws l))" using wlist_nodes [OF w(1) l d(3)] nc by simp
  obtain h where h: "list_rep h (wlist l) (task_node ?c # map task_node (ws l))"
      "same_outside (insert (task_node ?c) (list_nodes (wlist l) (map task_node (ws l)))) (k_heap ?k) h"
      "task_block ?k ?c (wlist l) TASK_BLOCKED TIMELESS =
        (let kp = upd_task (with_heap ?k h) ?c (t_state_update (\<lambda>_. TASK_BLOCKED)) in
         if cur s = ?c then schedule kp else Some kp)"
    by (rule task_block_plain [OF w(3) [OF l] nl nn w(7) [OF d(3) nw] i0, where state = TASK_BLOCKED]) simp_all
  let ?kp = "upd_task (with_heap ?k h) ?c (t_state_update (\<lambda>_. TASK_BLOCKED))"
  let ?s = "s\<lparr>ls_k := ?kp\<rparr>" and ?ws = "ws(l := ?c # ws l)"
  have W: "waiters L ?ws = insert ?c (waiters L ws)" using l by (auto simp: waiters_def split: if_splits)
  have same: "idle_task ?kp = idle_task ?k" "running_task ?kp = ?c" "live ?kp = live ?k" "\<not> k_intr ?kp"
    using i0 by simp_all
  have "sched_ok (with_heap ?k h)" using d(1) by simp
  then have so: "sched_ok ?kp" by (rule sched_ok_upd) simp_all
  have lk: "lock_ok (live ?k) (waiters L ?ws) (?ws l') ?s l'" if l': "l' \<in> L" for l'
  proof (cases "l' = l")
    case True
    show ?thesis unfolding True by (rule lock_ok_frame [OF d(7) [OF l]]) (use v in simp_all)
  next
    case False
    show ?thesis
      by (rule lock_ok_frame [OF d(7) [OF l']]) (use pc False in \<open>auto simp: W\<close>)
  qed
  have wa: "waiting_ok L ?kp ?ws" by (rule waiting_ok_push [OF d(2) l d(3) nw h(1,2)])
  have pcs: "\<exists>i. ls_pc s t = Locking l' i" if "l' \<in> L" "t \<in> set (?ws l')" for l' t
    using that d(4) [OF that(1)] pc by (cases "l' = l") auto
  have "base_ok L ?s ?ws"
    unfolding base_ok_def using so wa d(3,5,6) same lk pcs by simp
  then obtain n where n: "schedule ?kp = Some (switch_to ?kp n)" "sys_ok L (?s\<lparr>ls_k := switch_to ?kp n\<rparr>) ?ws"
    using base_ok_schedule [of L ?s ?ws] same(4) by auto
  have "mutex_lock_loop s l i = Some (?s\<lparr>ls_k := switch_to ?kp n\<rparr>)"
    using v h(3) n(1) by (simp add: mutex_lock_loop_def wlist_eq Let_def)
  then show ?thesis using n(2) by blast
qed

lemma lock_loop_takes:
  assumes ok: "sys_ok L s ws" and pc: "ls_pc s (cur s) = Locking l i" and l: "l \<in> L"
    and v: "\<not> mx_value s (lock_mutex l)"
  shows "\<exists>s'. mutex_lock_loop s l i = Some s' \<and> sys_ok L s' ws"
proof -
  have b: "base_ok L s ws" and nw: "cur s \<notin> waiters L ws" using ok by (simp_all add: sys_ok_def)
  note d = base_okD [OF b]
  let ?c = "cur s"
  let ?s = "set_interrupt_state (at_pc (s\<lparr>mx_value := (mx_value s)(lock_mutex l := True)\<rparr>) (Locked l)) i"
  have free: "\<not> inside_lock s t l" if "t \<in> live (ls_k s)" for t
    using lock_okD(1) [OF d(7) [OF l]] v that by blast
  have ins: "inside_lock ?s t l' \<longleftrightarrow> inside_lock s t l' \<or> (l' = l \<and> t = ?c)" for t l'
    using pc by (auto simp: inside_lock_def)
  have lk: "lock_ok (live (ls_k s)) (waiters L ws) (ws l') ?s l'" if l': "l' \<in> L" for l'
  proof (cases "l' = l")
    case True
    have "inside_lock s (lk_holder s l) l" by (simp add: inside_lock_def)
    then have h0: "lk_holder s l = NULL" "lk_repeat s l = 0"
      using free [of "lk_holder s l"] lock_okD(3,4) [OF d(7) [OF l]] by blast+
    show ?thesis
      unfolding True
    proof (rule lock_okI)
      show "mx_value ?s (lock_mutex l) \<longleftrightarrow> (\<exists>t \<in> live (ls_k s). inside_lock ?s t l)" using d(3) ins by auto
    qed (use h0 free ins in auto)
  next
    case False
    show ?thesis by (rule lock_ok_frame [OF d(7) [OF l']]) (use pc False in auto)
  qed
  have "base_ok L ?s ws"
    unfolding base_ok_def
  proof (intro conjI ballI allI)
    show "\<exists>i. ls_pc ?s t = Locking l' i" if "l' \<in> L" "t \<in> set (ws l')" for l' t
      using d(4) [OF that] nw that by (auto simp: waiters_def)
    show "ls_pc ?s (idle_task (ls_k ?s)) \<noteq> Locking l' i'" for l' i' using d(5) by simp
    show "pc_in L (ls_pc ?s t)" if "t \<in> live (ls_k ?s)" for t using d(6) that l by simp
  qed (use d(1-3) lk in simp_all)
  moreover have "mutex_lock_loop s l i = Some ?s" using v by (simp add: mutex_lock_loop_def Let_def)
  ultimately show ?thesis using ok nw by (auto simp: sys_ok_def)
qed

lemma lock_loop_ok:
  assumes "sys_ok L s ws" and "ls_pc s (cur s) = Locking l i" and "l \<in> L"
  shows "\<exists>s' ws'. mutex_lock_loop s l i = Some s' \<and> sys_ok L s' ws'"
  using lock_loop_blocks [OF assms] lock_loop_takes [OF assms] by blast

text \<open>Moving the program point of the current task, the locks unchanged.\<close>

lemma base_ok_pc:
  assumes b: "base_ok L s ws" and nw: "cur s \<notin> waiters L ws" and p: "pc_in L p"
      "\<And>l. core p = Locked l \<longleftrightarrow> core (ls_pc s (cur s)) = Locked l"
      "\<And>l. core p = Unlocking l \<longleftrightarrow> core (ls_pc s (cur s)) = Unlocking l"
    and nl: "\<And>l i. ls_pc s (cur s) = Locking l i \<Longrightarrow> mx_value s (lock_mutex l)"
    and id: "\<And>l i. p = Locking l i \<Longrightarrow> cur s \<noteq> idle_task (ls_k s)"
  shows "base_ok L (at_pc s p) ws"
proof -
  note d = base_okD [OF b]
  have lk: "lock_ok (live (ls_k s)) (waiters L ws) (ws l) (at_pc s p) l" if "l \<in> L" for l
    by (rule lock_ok_frame [OF d(7) [OF that]]) (use p nl in auto)
  have "\<exists>i. ls_pc (at_pc s p) t = Locking l i" if "l \<in> L" "t \<in> set (ws l)" for l t
    using d(4) [OF that] nw that by (auto simp: waiters_def)
  moreover have "ls_pc (at_pc s p) (idle_task (ls_k s)) \<noteq> Locking l i" for l i
    using d(5) id by auto
  moreover have "pc_in L (ls_pc (at_pc s p) t)" if "t \<in> live (ls_k s)" for t using d(6) [OF that] p(1) by simp
  ultimately show ?thesis using d(1-3) lk unfolding base_ok_def by simp
qed

lemma base_ok_intr [simp]: "base_ok L (set_interrupt_state s i) ws = base_ok L s ws"
proof -
  have "lock_ok T W q (set_interrupt_state s i) l = lock_ok T W q s l" for T W q l
    unfolding lock_ok_def inside_lock_def set_intr_proj ..
  then show ?thesis unfolding base_ok_def by simp
qed

lemma acquire_ok:
  assumes ok: "sys_ok L s ws" and pc: "ls_pc s (cur s) = Own" and l: "l \<in> L"
    and idle: "cur s \<noteq> idle_task (ls_k s)" and deep: "lk_repeat s l \<noteq> - 1"
  shows "\<exists>s' ws'. lock_acquire s l = Some s' \<and> sys_ok L s' ws'"
proof (cases "lk_holder s l = cur s")
  case False
  have b: "base_ok L s ws" and nw: "cur s \<notin> waiters L ws" using ok by (simp_all add: sys_ok_def)
  let ?i = "k_intr (ls_k s)"
  let ?s = "at_pc (set_interrupt_state s False) (Locking l ?i)"
  have "base_ok L ?s ws" by (rule base_ok_pc) (use b nw pc l idle in auto)
  then have "sys_ok L ?s ws" using ok nw by (simp add: sys_ok_def)
  then have "\<exists>s' ws'. mutex_lock_loop ?s l ?i = Some s' \<and> sys_ok L s' ws'"
    by (rule lock_loop_ok) (use l in simp_all)
  then show ?thesis using False by (simp add: lock_acquire_def mutex_lock_def interrupt_disable_def)
next
  case True
  have b: "base_ok L s ws" using ok by (simp add: sys_ok_def)
  note d = base_okD [OF b]
  let ?s = "s\<lparr>lk_repeat := (lk_repeat s)(l := lk_repeat s l + 1)\<rparr>"
  have ins: "inside_lock ?s = inside_lock s" by (simp add: inside_lock_def fun_eq_iff)
  have nz: "lk_repeat s l + 1 \<noteq> 0" using deep by (metis add_eq_0_iff2)
  have "cur s \<noteq> NULL" using d(3) by (simp add: live_def)
  then have lk: "lock_ok (live (ls_k s)) (waiters L ws) (ws l') ?s l'" if "l' \<in> L" for l'
    using lock_okD [OF d(7) [OF that]] nz True
    by (intro lock_okI; cases "l' = l") (simp_all add: ins)
  have "base_ok L ?s ws" using d(1-6) lk unfolding base_ok_def by simp
  then have "sys_ok L ?s ws" using ok by (simp add: sys_ok_def)
  then show ?thesis using True by (auto simp: lock_acquire_def)
qed

lemma acquired_ok:
  assumes ok: "sys_ok L s ws" and pc: "ls_pc s (cur s) = Locked l"
  shows "\<exists>s'. lock_acquired s l = Some s' \<and> sys_ok L s' ws"
proof -
  have b: "base_ok L s ws" and nw: "cur s \<notin> waiters L ws" using ok by (simp_all add: sys_ok_def)
  note d = base_okD [OF b]
  let ?c = "cur s"
  have l: "l \<in> L" using d(6) [OF d(3)] pc by simp
  note o = lock_okD [OF d(7) [OF l]]
  have inc: "inside_lock s ?c l" using pc by (simp add: inside_lock_def)
  have h0: "lk_holder s l = NULL"
  proof (rule ccontr)
    assume ne: "lk_holder s l \<noteq> NULL"
    have "inside_lock s (lk_holder s l) l" by (simp add: inside_lock_def)
    then have "lk_holder s l = ?c" using o(2) o(4) [OF ne] d(3) inc by blast
    then show False using o(4) [OF ne] pc by simp
  qed
  have c0: "?c \<noteq> NULL" using d(3) by (simp add: live_def)
  let ?s = "at_pc (s\<lparr>lk_holder := (lk_holder s)(l := ?c), lk_repeat := (lk_repeat s)(l := 1)\<rparr>) Own"
  have ins: "t \<noteq> NULL \<Longrightarrow> inside_lock ?s t l' = inside_lock s t l'" for t l'
    using pc h0 by (auto simp: inside_lock_def)
  have lk: "lock_ok (live (ls_k s)) (waiters L ws) (ws l') ?s l'" if l': "l' \<in> L" for l'
  proof (cases "l' = l")
    case True
    have lv: "t \<in> live (ls_k s) \<Longrightarrow> t \<noteq> NULL" for t by (simp add: live_def)
    show ?thesis
      unfolding True
    proof (rule lock_okI)
      have v: "mx_value s (lock_mutex l)" using o(1) inc d(3) by blast
      then show "mx_value ?s (lock_mutex l) \<longleftrightarrow> (\<exists>t \<in> live (ls_k s). inside_lock ?s t l)"
        using inc d(3) ins [OF c0] by auto
      show "t = t'" if "t \<in> live (ls_k s)" "t' \<in> live (ls_k s)" "inside_lock ?s t l" "inside_lock ?s t' l" for t t'
        using o(2) [OF that(1,2)] that(3,4) ins lv [OF that(1)] lv [OF that(2)] by blast
      show "\<exists>t \<in> live (ls_k s) - waiters L ws. \<exists>i. ls_pc ?s t = Locking l i" if "\<not> mx_value ?s (lock_mutex l)"
        using that v by simp
    qed (use c0 d(3) in simp_all)
  next
    case False
    show ?thesis by (rule lock_ok_frame [OF d(7) [OF l']]) (use pc False in auto)
  qed
  have "\<exists>i. ls_pc ?s t = Locking l' i" if "l' \<in> L" "t \<in> set (ws l')" for l' t
    using d(4) [OF that] nw that by (auto simp: waiters_def)
  then have "base_ok L ?s ws" using d(1-3,5,6) lk unfolding base_ok_def by simp
  moreover have "lock_acquired s l = Some ?s" using o(3) h0 by (simp add: lock_acquired_def at_pc_def Let_def)
  ultimately show ?thesis using ok nw by (simp add: sys_ok_def)
qed

lemma release_ok:
  assumes ok: "sys_ok L s ws" and pc: "ls_pc s (cur s) = Own" and l: "l \<in> L" and h: "lk_holder s l = cur s"
  shows "\<exists>s'. lock_release s l = Some s' \<and> sys_ok L s' ws"
proof -
  have b: "base_ok L s ws" and nw: "cur s \<notin> waiters L ws" using ok by (simp_all add: sys_ok_def)
  note d = base_okD [OF b]
  note o = lock_okD [OF d(7) [OF l]]
  let ?c = "cur s"
  have c0: "?c \<noteq> NULL" using d(3) by (simp add: live_def)
  have r0: "lk_repeat s l \<noteq> 0" using o(3) h c0 by simp
  show ?thesis
  proof (cases "lk_repeat s l > 1")
    case True
    let ?s = "s\<lparr>lk_repeat := (lk_repeat s)(l := lk_repeat s l - 1)\<rparr>"
    have ins: "inside_lock ?s = inside_lock s" by (simp add: inside_lock_def fun_eq_iff)
    have nz: "lk_repeat s l - 1 \<noteq> 0" using True by auto
    have lk: "lock_ok (live (ls_k s)) (waiters L ws) (ws l') ?s l'" if "l' \<in> L" for l'
      using lock_okD [OF d(7) [OF that]] nz h c0
      by (intro lock_okI; cases "l' = l") (simp_all add: ins)
    have "base_ok L ?s ws" using d(1-6) lk unfolding base_ok_def by simp
    then show ?thesis using ok True h by (simp add: lock_release_def sys_ok_def)
  next
    case False
    then have r1: "lk_repeat s l = 1" using r0 by (metis word_le_less_eq word_less_1 not_less)
    let ?s = "at_pc (s\<lparr>lk_holder := (lk_holder s)(l := NULL), lk_repeat := (lk_repeat s)(l := 0)\<rparr>) (Unlocking l)"
    have ins: "t \<noteq> NULL \<Longrightarrow> inside_lock ?s t l' = inside_lock s t l'" for t l'
      using pc h o(4) c0 by (cases "t = ?c"; cases "l' = l") (auto simp: inside_lock_def)
    have lk: "lock_ok (live (ls_k s)) (waiters L ws) (ws l') ?s l'" if l': "l' \<in> L" for l'
    proof (cases "l' = l")
      case True
      have inc: "inside_lock s ?c l" using h by (simp add: inside_lock_def)
      have lv: "t \<in> live (ls_k s) \<Longrightarrow> t \<noteq> NULL" for t by (simp add: live_def)
      show ?thesis
        unfolding True
      proof (rule lock_okI)
        have v: "mx_value s (lock_mutex l)" using o(1) inc d(3) by blast
        then show "mx_value ?s (lock_mutex l) \<longleftrightarrow> (\<exists>t \<in> live (ls_k s). inside_lock ?s t l)"
          using inc d(3) ins [OF c0] by auto
        show "t = t'" if "t \<in> live (ls_k s)" "t' \<in> live (ls_k s)" "inside_lock ?s t l" "inside_lock ?s t' l" for t t'
          using o(2) [OF that(1,2)] that(3,4) ins lv [OF that(1)] lv [OF that(2)] by blast
        show "\<exists>t \<in> live (ls_k s) - waiters L ws. \<exists>i. ls_pc ?s t = Locking l i" if "\<not> mx_value ?s (lock_mutex l)"
          using that v by simp
      qed simp_all
    next
      case False
      show ?thesis by (rule lock_ok_frame [OF d(7) [OF l']]) (use pc False in auto)
    qed
    have "\<exists>i. ls_pc ?s t = Locking l' i" if "l' \<in> L" "t \<in> set (ws l')" for l' t
      using d(4) [OF that] nw that by (auto simp: waiters_def)
    then have "base_ok L ?s ws" using d(1-3,5,6) lk l unfolding base_ok_def by simp
    moreover have "lock_release s l = Some ?s" using h r1 by (simp add: lock_release_def)
    ultimately show ?thesis using ok nw by (simp add: sys_ok_def)
  qed
qed

lemma unlock_ok:
  assumes ok: "sys_ok L s ws" and pc: "ls_pc s (cur s) = Unlocking l"
  shows "\<exists>s' ws'. mutex_unlock s (lock_mutex l) = Some s' \<and> sys_ok L s' ws'"
proof -
  have b: "base_ok L s ws" and nw: "cur s \<notin> waiters L ws" using ok by (simp_all add: sys_ok_def)
  note d = base_okD [OF b] and w = waiting_okD [OF base_okD(2) [OF b]]
  let ?c = "cur s" and ?k = "ls_k s" and ?i = "k_intr (ls_k s)"
  have l: "l \<in> L" using d(6) [OF d(3)] pc by simp
  note o = lock_okD [OF d(7) [OF l]]
  have inc: "inside_lock s ?c l" using pc by (simp add: inside_lock_def)
  have v: "mx_value s (lock_mutex l)" using o(1) inc d(3) by blast
  have h0: "lk_holder s l = NULL"
  proof (rule ccontr)
    assume ne: "lk_holder s l \<noteq> NULL"
    have "inside_lock s (lk_holder s l) l" by (simp add: inside_lock_def)
    then have "lk_holder s l = ?c" using o(2) o(4) [OF ne] d(3) inc by blast
    then show False using o(4) [OF ne] pc by simp
  qed
  let ?sf = "(set_interrupt_state s False)\<lparr>mx_value := (mx_value s)(lock_mutex l := False)\<rparr>"
  have rep: "list_rep (k_heap ?k) (wlist l) (map task_node (ws l))" by (rule w(3) [OF l])
  have emp: "list_empty (k_heap ?k) (wlist l) = Some (ws l = [])" using list_empty_rep [OF rep] by simp
  \<comment> \<open>what the release does to the locks, whatever the new program point and the waiting tasks\<close>
  have out: "\<not> inside_lock s' t l"
    if "lk_holder s' l = NULL" "ls_pc s' = (ls_pc s)(?c := p)" "core p \<noteq> Locked l" "core p \<noteq> Unlocking l"
      "t \<in> live ?k" for s' t p
    using that o(2) [OF that(5) d(3)] inc h0 by (cases "t = ?c") (auto simp: inside_lock_def live_def)
  show ?thesis
  proof (cases "ws l = []")
    case True
    let ?s = "set_interrupt_state (at_pc ?sf Own) ?i"
    have lk: "lock_ok (live ?k) (waiters L ws) (ws l') ?s l'" if l': "l' \<in> L" for l'
    proof (cases "l' = l")
      case l'l: True
      show ?thesis
        unfolding l'l
        by (rule lock_okI) (use out [of ?s Own] h0 o(3) True in auto)
    next
      case False
      show ?thesis by (rule lock_ok_frame [OF d(7) [OF l']]) (use pc False in auto)
    qed
    have "\<exists>i. ls_pc ?s t = Locking l' i" if "l' \<in> L" "t \<in> set (ws l')" for l' t
      using d(4) [OF that] nw that by (auto simp: waiters_def)
    then have "base_ok L ?s ws" using d(1-3,5,6) lk unfolding base_ok_def by simp
    moreover have "mutex_unlock s (lock_mutex l) = Some ?s"
      using v emp True by (simp add: mutex_unlock_def interrupt_disable_def wlist_eq Let_def)
    ultimately have "sys_ok L ?s ws" using ok nw by (simp add: sys_ok_def)
    then show ?thesis using \<open>mutex_unlock s (lock_mutex l) = Some ?s\<close> by blast
  next
    case False
    define t where "t = last (ws l)"
    have tw: "t \<in> set (ws l)" using False by (simp add: t_def)
    have tW: "t \<in> waiters L ws" using tw l by (auto simp: waiters_def)
    have tl: "t \<in> live ?k" using tW w(2) by blast
    have tc: "t \<noteq> ?c" using tW nw by blast
    obtain xs where xs: "map task_node (ws l) = xs @ [task_node t]"
      using False by (metis append_butlast_last_id list.map_disc_iff last_map t_def)
    have rep': "list_rep (k_heap ?k) (wlist l) ((xs @ [task_node t]) @ [])" using rep by (simp add: xs)
    have prev: "get_prev (k_heap ?k) (list_tail (wlist l)) = Some (task_node t)"
      using rep_links(2,4) [OF rep'] by (simp add: get_prev_def list_tail_def)
    have mg: "t_magic (k_tasks ?k t) = ONIX_MAGIC" using d(1) tl by (auto simp: sched_ok_def live_def)
    let ?kd = "?k\<lparr>k_intr := False\<rparr>"
    have r0: "list_rep (k_heap ?kd) (wlist l) (map task_node (ws l))" "task_node t \<in> set (map task_node (ws l))"
      "\<not> k_intr ?kd" "t_state (k_tasks ?kd t) \<noteq> TASK_RUNNING" "t_timer (k_tasks ?kd t) = NULL"
      using rep tw w(5) [OF tl] w(6) [OF tW] by simp_all
    obtain h where h: "list_rep h (wlist l) (remove1 (task_node t) (map task_node (ws l)))" "unlinked h (task_node t)"
        "same_outside (list_nodes (wlist l) (map task_node (ws l))) (k_heap ?kd) h"
        "task_unblock ?kd t EOK = Some (upd_task (with_heap ?kd h) t (\<lambda>u. u\<lparr>t_status := EOK, t_state := TASK_READY\<rparr>))"
      by (rule task_unblock_plain [OF r0])
    let ?ku = "upd_task (with_heap ?kd h) t (\<lambda>u. u\<lparr>t_status := EOK, t_state := TASK_READY\<rparr>)"
    let ?ws = "ws(l := remove1 t (ws l))"
    have w0: "waiting_ok L ?kd ws" using d(2) by simp
    note wk = waiting_ok_wake(1) [OF w0 l tw h(1-3), where r = EOK] waiting_ok_wake(2) [OF w0 l tw h(1-3)]
    let ?s = "at_pc (?sf\<lparr>ls_k := ?ku\<rparr>) (Yielded ?i)"
    have pcs: "ls_pc ?s = (ls_pc s)(?c := Yielded ?i)" by simp
    obtain j where j: "ls_pc s t = Locking l j" using d(4) [OF l tw] by blast
    have lk: "lock_ok (live ?k) (waiters L ?ws) (?ws l') ?s l'" if l': "l' \<in> L" for l'
    proof (cases "l' = l")
      case l'l: True
      have wit: "\<exists>t \<in> live ?k - waiters L ?ws. \<exists>i. ls_pc ?s t = Locking l i"
        using tl tc j wk(2) by (intro bexI [of _ t] exI [of _ j]) simp_all
      show ?thesis
        unfolding l'l
        by (rule lock_okI) (use out [OF _ pcs] wit h0 o(3) in auto)
    next
      case l'l: False
      show ?thesis
      proof (rule lock_ok_frame [OF d(7) [OF l']])
        fix u i assume u: "u \<notin> waiters L ws" "ls_pc s u = Locking l' i"
        have "u \<notin> waiters L ?ws" using u(1) unfolding wk(2) by blast
        then show "u \<notin> waiters L ?ws \<and> (\<exists>i. ls_pc ?s u = Locking l' i)" using u(2) pc by (cases "u = ?c") simp_all
      qed (use pc l'l in simp_all)
    qed
    have so: "sched_ok ?ku" by (rule sched_ok_upd) (use d(1) in simp_all)
    have lw: "\<exists>i. ls_pc ?s t' = Locking l' i" if "l' \<in> L" "t' \<in> set (?ws l')" for l' t'
    proof -
      have t': "t' \<in> set (ws l')" using that(2) set_remove1_subset [of t "ws l"] by (cases "l' = l") auto
      then have "t' \<noteq> ?c" using nw that(1) by (auto simp: waiters_def)
      then show ?thesis using d(4) [OF that(1) t'] by simp
    qed
    have "base_ok L ?s ?ws"
      unfolding base_ok_def using so wk(1) d(3,5,6) lk lw by simp
    moreover have "ls_k ?s = ?ku" "\<not> k_intr ?ku" by simp_all
    ultimately obtain n where n: "schedule ?ku = Some (switch_to ?ku n)" "sys_ok L (?s\<lparr>ls_k := switch_to ?ku n\<rparr>) ?ws"
      using base_ok_schedule [of L ?s ?ws] by metis
    have nt: "task_node t - 4 = t" by (simp add: task_node_def)
    have "mutex_unlock s (lock_mutex l) = Some (?s\<lparr>ls_k := switch_to ?ku n\<rparr>)"
      using v emp False prev mg h(4) n(1)
      by (simp add: mutex_unlock_def interrupt_disable_def wlist_eq task_yield_def nt Let_def)
    then show ?thesis using n(2) by blast
  qed
qed

lemma resume_ok:
  assumes ok: "sys_ok L s ws" and pc: "ls_pc s (cur s) \<noteq> Own"
  shows "\<exists>s' ws'. resume s = Some s' \<and> sys_ok L s' ws'"
proof -
  have b: "base_ok L s ws" and nw: "cur s \<notin> waiters L ws" using ok by (simp_all add: sys_ok_def)
  have pin: "pc_in L (ls_pc s (cur s))" using base_okD(3,6) [OF b] by blast
  show ?thesis
  proof (cases "ls_pc s (cur s)")
    case (Locking l i)
    then show ?thesis using lock_loop_ok [OF ok Locking] pin by (simp add: resume_def)
  next
    case (Locked l)
    then show ?thesis using acquired_ok [OF ok Locked] by (auto simp: resume_def)
  next
    case (Unlocking l)
    then show ?thesis using unlock_ok [OF ok Unlocking] by (simp add: resume_def)
  next
    case (Yielded i)
    have "base_ok L (at_pc s Own) ws" by (rule base_ok_pc) (use b nw Yielded in auto)
    then have "sys_ok L (set_interrupt_state (at_pc s Own) i) ws" using ok by (simp add: sys_ok_def)
    then show ?thesis using Yielded by (auto simp: resume_def)
  next
    case (Irq p)
    have p: "pc_in L p" "core p = p" "\<And>l i. p \<noteq> Locking l i" "\<And>i. p \<noteq> Yielded i" using pin Irq by simp_all
    have "base_ok L (at_pc s p) ws" by (rule base_ok_pc) (use b nw p Irq in auto)
    moreover have "\<not> intr_off p" using p by (cases p) (auto dest: arg_cong [of _ _ size])
    ultimately have "sys_ok L (set_interrupt_state (at_pc s p) True) ws" using ok by (simp add: sys_ok_def)
    then show ?thesis using Irq by (auto simp: resume_def)
  qed (use pc in simp)
qed

lemma preempt_ok:
  assumes ok: "sys_ok L s ws" and i: "k_intr (ls_k s)"
  shows "\<exists>s'. preempt s = Some s' \<and> sys_ok L s' ws"
proof -
  have b: "base_ok L s ws" and nw: "cur s \<notin> waiters L ws" using ok by (simp_all add: sys_ok_def)
  let ?p = "ls_pc s (cur s)"
  have p: "\<not> intr_off ?p" using ok i by (auto simp: sys_ok_def)
  have pin: "pc_in L ?p" using base_okD(3,6) [OF b] by blast
  have "pc_in L (Irq ?p)" "\<And>l i. ?p \<noteq> Locking l i" using p pin by (cases ?p; simp)+
  then have "base_ok L (at_pc s (Irq ?p)) ws" by (intro base_ok_pc) (use b nw in auto)
  then have "base_ok L (set_interrupt_state (at_pc s (Irq ?p)) False) ws" by simp
  then obtain n where "schedule (ls_k (set_interrupt_state (at_pc s (Irq ?p)) False)) =
        Some (switch_to (ls_k (set_interrupt_state (at_pc s (Irq ?p)) False)) n)"
      "sys_ok L ((set_interrupt_state (at_pc s (Irq ?p)) False)\<lparr>ls_k :=
        switch_to (ls_k (set_interrupt_state (at_pc s (Irq ?p)) False)) n\<rparr>) ws"
    by (rule base_ok_schedule) simp
  then show ?thesis by (simp add: preempt_def Let_def)
qed

inductive_cases lock_stepE: "lock_step L s s'"

lemma lock_step_ok:
  assumes "lock_step L s s'" and "sys_ok L s ws"
  shows "\<exists>ws'. sys_ok L s' ws'"
  using assms(1)
proof (cases rule: lock_step.cases)
  case (step_acquire lock)
  then show ?thesis using acquire_ok [OF assms(2) step_acquire(1,3,2,4)] by auto
next
  case (step_release lock)
  then show ?thesis using release_ok [OF assms(2) step_release(1-3)] by auto
next
  case step_resume
  then show ?thesis using resume_ok [OF assms(2) step_resume(1)] by auto
next
  case step_preempt
  then show ?thesis using preempt_ok [OF assms(2) step_preempt(1)] by auto
qed

lemma lock_steps_ok:
  assumes "(lock_step L)\<^sup>*\<^sup>* s s'" and "sys_ok L s ws"
  shows "\<exists>ws'. sys_ok L s' ws'"
  using assms
proof (induction arbitrary: ws rule: rtranclp_induct)
  case base
  then show ?case by blast
next
  case (step y z)
  then show ?case using lock_step_ok by blast
qed

subsection \<open>Properties\<close>

text \<open>
  C14. Mutual exclusion. In every state that tasks can reach by taking and releasing locks, with the
  clock interrupting them wherever interrupts are on, at most one task is inside a lock, from the
  point at which it got the mutex to the point at which it gives it back, and exactly the nodes of
  tasks that are blocked in \<^verbatim>\<open>mutex_lock\<close> of that lock are in its list of waiters. If tasks wait and
  the mutex is free, one of those that asked for it has been woken and will test it again.
\<close>

theorem locks_exclude:
  assumes "(lock_step L)\<^sup>*\<^sup>* s s'" and "sys_ok L s ws" and "l \<in> L"
  shows "(\<forall>t \<in> live (ls_k s'). \<forall>t' \<in> live (ls_k s'). inside_lock s' t l \<and> inside_lock s' t' l \<longrightarrow> t = t') \<and>
    (\<exists>q W. list_rep (k_heap (ls_k s')) (wlist l) (map task_node q) \<and> set q \<subseteq> W \<and>
       (\<forall>t \<in> set q. t_state (k_tasks (ls_k s') t) = TASK_BLOCKED \<and> (\<exists>i. ls_pc s' t = Locking l i)) \<and>
       (\<forall>t \<in> live (ls_k s') - W. may_run (k_tasks (ls_k s') t)) \<and>
       (q \<noteq> [] \<and> \<not> mx_value s' (lock_mutex l) \<longrightarrow> (\<exists>t \<in> live (ls_k s') - W. \<exists>i. ls_pc s' t = Locking l i)))"
proof -
  obtain ws' where ok: "sys_ok L s' ws'" using lock_steps_ok [OF assms(1,2)] by blast
  then have b: "base_ok L s' ws'" by (simp add: sys_ok_def)
  note d = base_okD [OF b] and w = waiting_okD [OF base_okD(2) [OF b]]
  note o = lock_okD [OF d(7) [OF assms(3)]]
  have sub: "set (ws' l) \<subseteq> waiters L ws'" using assms(3) by (auto simp: waiters_def)
  have "\<forall>t \<in> set (ws' l). t_state (k_tasks (ls_k s') t) = TASK_BLOCKED \<and> (\<exists>i. ls_pc s' t = Locking l i)"
    using w(6) sub d(4) [OF assms(3)] by blast
  moreover have "\<forall>t \<in> live (ls_k s') - waiters L ws'. may_run (k_tasks (ls_k s') t)" using w(8) by blast
  ultimately show ?thesis
    using o(2,5) w(3) [OF assms(3)] sub
    by (intro conjI exI [of _ "ws' l"] exI [of _ "waiters L ws'"]) blast+
qed

text \<open>
  C15. Progress. From such a state the code of the current task always gets to its next point: no
  assertion of \<^verbatim>\<open>task_block\<close>, \<^verbatim>\<open>task_unblock\<close>, \<^verbatim>\<open>schedule\<close> or of the mutex and lock functions fails when a
  task takes a lock (again), releases one it holds, goes on where it was switched away, or is
  preempted.
\<close>

theorem locks_never_halt:
  assumes "(lock_step L)\<^sup>*\<^sup>* s0 s" and "sys_ok L s0 ws" and "l \<in> L"
  shows "(ls_pc s (cur s) = Own \<and> cur s \<noteq> idle_task (ls_k s) \<and> lk_repeat s l \<noteq> - 1 \<longrightarrow> lock_acquire s l \<noteq> None) \<and>
    (ls_pc s (cur s) = Own \<and> lk_holder s l = cur s \<longrightarrow> lock_release s l \<noteq> None) \<and>
    (ls_pc s (cur s) \<noteq> Own \<longrightarrow> resume s \<noteq> None) \<and> (k_intr (ls_k s) \<longrightarrow> preempt s \<noteq> None)"
proof -
  obtain ws' where ok: "sys_ok L s ws'" using lock_steps_ok [OF assms(1,2)] by blast
  show ?thesis
    using acquire_ok [OF ok _ assms(3)] release_ok [OF ok _ assms(3)] resume_ok [OF ok] preempt_ok [OF ok]
    unfolding not_None_eq by blast
qed

text \<open>The sample tasks and one free lock.\<close>

definition sample_lsys :: lsys where
  "sample_lsys = \<lparr>ls_k = (sample_kernel sample_kmem)\<lparr>k_mem := sample_kmem\<lparr>km_heap :=
       \<lparr>node_prev = (\<lambda>_. NULL)(0x30010 := 0x30008), node_next = (\<lambda>_. NULL)(0x30008 := 0x30010)\<rparr>\<rparr>\<rparr>,
     mx_value = (\<lambda>_. False), lk_holder = (\<lambda>_. NULL), lk_repeat = (\<lambda>_. 0), ls_pc = (\<lambda>_. Own)\<rparr>"

lemma sample_lsys_ok: "sys_ok {0x30000} sample_lsys (\<lambda>_. [])"
proof -
  let ?k = "ls_k sample_lsys"
  have tasks: "k_tasks ?k = k_tasks (sample_kernel sample_kmem)" "task_table ?k = task_table (sample_kernel sample_kmem)"
    "idle_task ?k = idle_task (sample_kernel sample_kmem)" "running_task ?k = 0x2000" "\<not> k_intr ?k"
    by (simp_all add: sample_lsys_def running_task_def sample_kernel_def)
  have lv: "live ?k = {0x1000, 0x2000, 0x3000, 0x4000, 0x5000}"
    unfolding live_def tasks by (auto simp: sample_kernel_def)
  have wl: "wlist 0x30000 = 0x30008" by (simp add: wlist_def mutex_waiters_def lock_mutex_def)
  have W: "waiters {0x30000} (\<lambda>_. []) = {}" by (simp add: waiters_def)
  have so: "sched_ok ?k"
    using sample_sched_ok(1) [of sample_kmem] unfolding sched_ok_def tasks
    by (simp add: sample_kernel_def running_task_def)
  have "apart {0x30000} (live ?k)" unfolding apart_def lv by (simp add: task_node_def wl)
  moreover have "list_rep (k_heap ?k) 0x30008 []" by (simp add: sample_lsys_def list_rep_def list_nodes_def)
  moreover have "\<forall>t \<in> live ?k. t_timer (k_tasks ?k t) = NULL \<and> unlinked (k_heap ?k) (task_node t) \<and> may_run (k_tasks ?k t)"
    unfolding lv tasks by (simp add: sample_kernel_def sample_lsys_def ready_task_def unlinked_def task_node_def may_run_def)
  ultimately have "waiting_ok {0x30000} ?k (\<lambda>_. [])" by (simp add: waiting_ok_def W wl)
  moreover have "lock_ok T W [] sample_lsys l" if "NULL \<notin> T" for T W l
    by (rule lock_okI) (use that in \<open>auto simp: sample_lsys_def inside_lock_def\<close>)
  moreover have "NULL \<notin> live ?k" by (simp add: live_def)
  moreover have "ls_pc sample_lsys = (\<lambda>_. Own)" by (simp add: sample_lsys_def)
  ultimately have "base_ok {0x30000} sample_lsys (\<lambda>_. [])"
    using so unfolding base_ok_def by (simp add: tasks(4) lv)
  moreover have "t_state (k_tasks ?k 0x2000) = TASK_RUNNING" unfolding tasks by (simp add: sample_kernel_def)
  ultimately show ?thesis by (simp add: sys_ok_def W tasks(4,5))
qed

lemma sample_acquire: "\<exists>s'. lock_step {0x30000} sample_lsys s' \<and> ls_pc s' 0x2000 = Locked 0x30000"
proof -
  have "lock_acquire sample_lsys 0x30000 =
      Some (set_interrupt_state (at_pc ((at_pc (set_interrupt_state sample_lsys False) (Locking 0x30000 False))
        \<lparr>mx_value := (\<lambda>_. False)(lock_mutex 0x30000 := True)\<rparr>) (Locked 0x30000)) False)"
    by (simp add: lock_acquire_def mutex_lock_def mutex_lock_loop_def interrupt_disable_def sample_lsys_def
        running_task_def sample_kernel_def)
  moreover have "ls_pc sample_lsys (cur sample_lsys) = Own" "cur sample_lsys = 0x2000"
    "cur sample_lsys \<noteq> idle_task (ls_k sample_lsys)" "lk_repeat sample_lsys 0x30000 \<noteq> - 1"
    by (simp_all add: sample_lsys_def running_task_def sample_kernel_def)
  ultimately show ?thesis using step_acquire [of sample_lsys "0x30000" "{0x30000}"] by fastforce
qed

theorem locks_exclude_witness:
  "\<exists>s'. (lock_step {0x30000})\<^sup>*\<^sup>* sample_lsys s' \<and> inside_lock s' 0x2000 0x30000 \<and>
    (\<forall>t \<in> live (ls_k s'). \<forall>t' \<in> live (ls_k s'). inside_lock s' t 0x30000 \<and> inside_lock s' t' 0x30000 \<longrightarrow> t = t')"
proof -
  obtain s' where s: "lock_step {0x30000} sample_lsys s'" "ls_pc s' 0x2000 = Locked 0x30000" using sample_acquire by blast
  then have r: "(lock_step {0x30000})\<^sup>*\<^sup>* sample_lsys s'" by blast
  have "inside_lock s' 0x2000 0x30000" using s(2) by (simp add: inside_lock_def)
  then show ?thesis using r locks_exclude [OF r sample_lsys_ok, of "0x30000"] by blast
qed

theorem locks_never_halt_witness:
  "\<exists>s'. (lock_step {0x30000})\<^sup>*\<^sup>* sample_lsys s' \<and> (ls_pc s' (cur s') \<noteq> Own \<longrightarrow> resume s' \<noteq> None) \<and>
    (k_intr (ls_k s') \<longrightarrow> preempt s' \<noteq> None)"
proof -
  obtain s' where "lock_step {0x30000} sample_lsys s'" using sample_acquire by blast
  then have r: "(lock_step {0x30000})\<^sup>*\<^sup>* sample_lsys s'" by blast
  then show ?thesis using locks_never_halt [OF r sample_lsys_ok, of "0x30000"] by blast
qed

end
