(* ===== verification/Onix_Signal.thy ===== *)
theory Onix_Signal
  imports Onix_Task
begin

section \<open>Signals and alarms (src/kernel/signal.c, alarm.c, src/lib/restorer.asm)\<close>

text \<open>
  Pending and blocked signals are bit maps of the task (bit \<open>sig - 1\<close>). \<^verbatim>\<open>task_signal\<close> runs on the way
  back to user mode: the interrupt frame at the top of the kernel stack is its argument and its
  result, and the frame it writes below the user stack pointer is returned with its address.
\<close>

definition SIGKILL :: u32 where "SIGKILL = 9"
definition SIGALRM :: u32 where "SIGALRM = 14"
definition SIGCHLD :: u32 where "SIGCHLD = 17"
definition SIGHUP :: u32 where "SIGHUP = 1"
definition MINSIG :: u32 where "MINSIG = 1"
definition SIG_NOMASK :: u32 where "SIG_NOMASK = 0x40000000"
definition SIG_ONESHOT :: u32 where "SIG_ONESHOT = 0x80000000"
definition SIG_DFL :: u32 where "SIG_DFL = 0"
definition SIG_IGN :: u32 where "SIG_IGN = 1"

definition SIGMASK :: "u32 \<Rightarrow> u32" where
  "SIGMASK sig = push_bit (unat (sig - 1)) 1"

record signal_frame_t =
  sf_restorer :: u32
  sf_sig :: u32
  sf_blocked :: u32
  sf_eax :: u32
  sf_ecx :: u32
  sf_edx :: u32
  sf_eflags :: u32
  sf_eip :: u32

definition SIGNAL_FRAME_SIZE :: u32 where "SIGNAL_FRAME_SIZE = 32"

record intr_frame_t =
  if_vector :: u32
  if_edi :: u32
  if_esi :: u32
  if_ebp :: u32
  if_esp_dummy :: u32
  if_ebx :: u32
  if_edx :: u32
  if_ecx :: u32
  if_eax :: u32
  if_gs :: u32
  if_fs :: u32
  if_es :: u32
  if_ds :: u32
  if_vector0 :: u32
  if_error :: u32
  if_eip :: u32
  if_cs :: u32
  if_eflags :: u32
  if_esp :: u32
  if_ss :: u32

definition this_task :: "kernel \<Rightarrow> task_t" where
  "this_task k = k_tasks k (running_task k)"

definition upd_this :: "kernel \<Rightarrow> (task_t \<Rightarrow> task_t) \<Rightarrow> kernel" where
  "upd_this k f = upd_task k (running_task k) f"

subsection \<open>System calls\<close>

definition sys_sgetmask :: "kernel \<Rightarrow> u32" where
  "sys_sgetmask k = t_blocked (this_task k)"

definition sys_ssetmask :: "kernel \<Rightarrow> u32 \<Rightarrow> u32 \<times> kernel" where
  "sys_ssetmask k newmask =
     (if newmask = EOF then (- EPERM, k)
      else let old = t_blocked (this_task k) in
        (old, upd_this k (\<lambda>t. t\<lparr>t_blocked := newmask AND NOT (SIGMASK SIGKILL)\<rparr>)))"

definition bad_action :: "u32 \<Rightarrow> bool" where
  "bad_action sig \<longleftrightarrow> sint sig < sint MINSIG \<or> sint sig > int MAXSIG \<or> sig = SIGKILL"

definition set_action :: "u32 \<Rightarrow> (sigaction_t \<Rightarrow> sigaction_t) \<Rightarrow> task_t \<Rightarrow> task_t" where
  "set_action sig f t = t\<lparr>t_actions := (t_actions t)[unat (sig - 1) := f (t_actions t ! unat (sig - 1))]\<rparr>"

definition sys_signal :: "kernel \<Rightarrow> u32 \<Rightarrow> u32 \<Rightarrow> u32 \<Rightarrow> u32 \<times> kernel" where
  "sys_signal k sig handler restorer =
     (if bad_action sig then (EOF, k)
      else (handler, upd_this k (set_action sig (\<lambda>_. \<lparr>sa_handler = handler, sa_mask = 0,
              sa_flags = SIG_ONESHOT OR SIG_NOMASK, sa_restorer = restorer\<rparr>))))"

text \<open>The result is the return value, what \<^verbatim>\<open>*oldaction\<close> receives when it is not NULL, and the state.\<close>

definition sys_sigaction :: "kernel \<Rightarrow> u32 \<Rightarrow> sigaction_t \<Rightarrow> bool \<Rightarrow> u32 \<times> sigaction_t option \<times> kernel" where
  "sys_sigaction k sig action oldaction =
     (if bad_action sig then (EOF, None, k)
      else let ptr = t_actions (this_task k) ! unat (sig - 1);
               old = (if oldaction then Some ptr else None);
               new = action\<lparr>sa_mask := (if sa_flags action AND SIG_NOMASK \<noteq> 0 then 0 else sa_mask action OR SIGMASK sig)\<rparr>
           in (0, old, upd_this k (set_action sig (\<lambda>_. new))))"

definition sys_kill :: "kernel \<Rightarrow> u32 \<Rightarrow> u32 \<Rightarrow> (u32 \<times> kernel) option" where
  "sys_kill k pid sig =
     (if sint sig < sint MINSIG \<or> sint sig > int MAXSIG then Some (EOF, k)
      else let task = get_task k pid in
        if task = NULL then Some (EOF, k)
        else if t_uid (k_tasks k task) = KERNEL_USER then Some (EOF, k)
        else if t_pid (k_tasks k task) = 1 then Some (EOF, k)
        else do {
          let k = upd_task k task (\<lambda>t. t\<lparr>t_signal := t_signal t OR SIGMASK sig\<rparr>);
          k \<leftarrow> (if t_state (k_tasks k task) = TASK_WAITING \<or> t_state (k_tasks k task) = TASK_SLEEPING
               then task_unblock k task (- EINTR) else Some k);
          Some (0, k)
        })"

subsection \<open>Delivery\<close>

fun find_sig :: "nat \<Rightarrow> u32 \<Rightarrow> u32 \<Rightarrow> u32" where
  "find_sig 0 m sig = sig"
| "find_sig (Suc n) m sig = (if m AND SIGMASK sig \<noteq> 0 then sig else find_sig n m (sig + 1))"

text \<open>\<^verbatim>\<open>task_exit\<close> does not return; \<open>Sig_exit\<close> carries its argument.\<close>

datatype sig_result =
    Sig_return kernel
  | Sig_exit kernel u32
  | Sig_handler kernel intr_frame_t u32 signal_frame_t

definition task_signal :: "kernel \<Rightarrow> intr_frame_t \<Rightarrow> sig_result option" where
  "task_signal k iframe = do {
     let task = this_task k;
     let m = t_signal task AND NOT (t_blocked task);
     if m = 0 then Some (Sig_return k)
     else do {
       kassert (t_uid task \<noteq> 0);
       let sig = find_sig MAXSIG m 1;
       let k = (if m AND SIGMASK sig \<noteq> 0 then upd_this k (\<lambda>t. t\<lparr>t_signal := t_signal t AND NOT (SIGMASK sig)\<rparr>) else k);
       kassert (unat (sig - 1) < length (t_actions task));
       let action = t_actions task ! unat (sig - 1);
       if sa_handler action = SIG_IGN then Some (Sig_return k)
       else if sa_handler action = SIG_DFL \<and> sig = SIGCHLD then Some (Sig_return k)
       else if sa_handler action = SIG_DFL then Some (Sig_exit k (SIGMASK sig))
       else do {
         let fr = \<lparr>sf_restorer = sa_restorer action, sf_sig = sig,
                      sf_blocked = (if sa_flags action AND SIG_NOMASK \<noteq> 0 then t_blocked task else EOF),
                      sf_eax = if_eax iframe, sf_ecx = if_ecx iframe, sf_edx = if_edx iframe,
                      sf_eflags = if_eflags iframe, sf_eip = if_eip iframe\<rparr>;
         let addr = if_esp iframe - SIGNAL_FRAME_SIZE;
         let iframe = iframe\<lparr>if_esp := addr, if_eip := sa_handler action\<rparr>;
         let k = (if sa_flags action AND SIG_ONESHOT \<noteq> 0
                  then upd_this k (set_action sig (\<lambda>a. a\<lparr>sa_handler := SIG_DFL\<rparr>)) else k);
         let k = upd_this k (\<lambda>t. t\<lparr>t_blocked := t_blocked t OR sa_mask action\<rparr>);
         Some (Sig_handler k iframe addr fr)
       }
     }
   }"

text \<open>
  \<^verbatim>\<open>restorer\<close> in user mode, entered by the return of the handler with the stack pointer 4 above the
  frame: it drops the signal number, sets the mask from the frame, drops it, and pops the registers
  and the flags; the last \<^verbatim>\<open>ret\<close> takes the instruction pointer.
\<close>

definition restorer :: "kernel \<Rightarrow> intr_frame_t \<Rightarrow> u32 \<Rightarrow> signal_frame_t \<Rightarrow> kernel \<times> intr_frame_t" where
  "restorer k regs addr fr =
     (let (_, k) = sys_ssetmask k (sf_blocked fr) in
      (k, regs\<lparr>if_eax := sf_eax fr, if_ecx := sf_ecx fr, if_edx := sf_edx fr,
               if_eflags := sf_eflags fr, if_eip := sf_eip fr, if_esp := addr + SIGNAL_FRAME_SIZE\<rparr>))"

subsection \<open>Alarms\<close>

definition task_alarm :: "kernel \<Rightarrow> u32 \<Rightarrow> kernel option" where
  "task_alarm k timer = do {
     let task = tm_task (k_timers k timer);
     let k = upd_task k task (\<lambda>t. t\<lparr>t_alarm := NULL\<rparr>);
     (r, k) \<leftarrow> sys_kill k (t_pid (k_tasks k task)) SIGALRM;
     Some k
   }"

text \<open>\<open>alarm_fn\<close> is the address of \<^verbatim>\<open>task_alarm\<close>; the value the function returns is not defined.\<close>

definition sys_alarm :: "u32 \<Rightarrow> kernel \<Rightarrow> u32 \<Rightarrow> kernel option" where
  "sys_alarm alarm_fn k sec = do {
     let task = running_task k;
     k \<leftarrow> (if t_alarm (k_tasks k task) \<noteq> NULL then timer_put k (t_alarm (k_tasks k task)) else Some k);
     (timer, k) \<leftarrow> timer_add k (sec * 1000) alarm_fn 0;
     Some (upd_task k task (\<lambda>t. t\<lparr>t_alarm := timer\<rparr>))
   }"

subsection \<open>The lowest pending signal\<close>

lemma SIGMASK_bit: "b < 31 \<Longrightarrow> SIGMASK (word_of_nat (Suc b)) = push_bit b 1"
proof -
  assume "b < 31"
  then have "unat (word_of_nat b :: u32) = b" by (intro unat_of_nat_small) simp
  then show ?thesis by (simp add: SIGMASK_def)
qed

lemma and_SIGMASK: "b < 31 \<Longrightarrow> m AND SIGMASK (word_of_nat (Suc b)) \<noteq> 0 \<longleftrightarrow> bit m b"
  by (simp only: SIGMASK_bit bit_iff_and_push_bit_not_eq_0)

lemma find_sig_from:
  assumes "i + n = 31" and "\<exists>b. i \<le> b \<and> b < 31 \<and> bit m b"
  shows "\<exists>b. i \<le> b \<and> b < 31 \<and> bit m b \<and> (\<forall>c. i \<le> c \<and> c < b \<longrightarrow> \<not> bit m c) \<and>
    find_sig n m (word_of_nat (Suc i)) = word_of_nat (Suc b)"
  using assms
proof (induction n arbitrary: i)
  case 0
  then show ?case by auto
next
  case (Suc n)
  have i: "i < 31" using Suc.prems(1) by simp
  show ?case
  proof (cases "bit m i")
    case True
    then have "find_sig (Suc n) m (word_of_nat (Suc i)) = word_of_nat (Suc i)"
      using and_SIGMASK [OF i, of m] by simp
    then show ?thesis using True i by (intro exI [of _ i]) auto
  next
    case False
    have "word_of_nat (Suc i) + 1 = (word_of_nat (Suc (Suc i)) :: u32)" by simp
    then have step: "find_sig (Suc n) m (word_of_nat (Suc i)) = find_sig n m (word_of_nat (Suc (Suc i)))"
      using and_SIGMASK [OF i, of m] False by simp
    have "\<exists>b. Suc i \<le> b \<and> b < 31 \<and> bit m b" using Suc.prems(2) False by (metis le_eq_less_or_eq Suc_le_eq)
    then obtain b where b: "Suc i \<le> b" "b < 31" "bit m b" "\<forall>c. Suc i \<le> c \<and> c < b \<longrightarrow> \<not> bit m c"
        "find_sig n m (word_of_nat (Suc (Suc i))) = word_of_nat (Suc b)"
      using Suc.IH [of "Suc i"] Suc.prems(1) by auto
    have "\<not> bit m c" if "i \<le> c" "c < b" for c using b(4) False that by (cases "c = i") auto
    then show ?thesis using b step by (intro exI [of _ b]) auto
  qed
qed

lemma find_sig_lowest:
  assumes "bit m b'" and "b' < 31"
  obtains b where "b < 31" and "bit m b" and "\<forall>c < b. \<not> bit m c" and "find_sig MAXSIG m 1 = word_of_nat (Suc b)"
  using find_sig_from [of 0 31 m] assms that by (auto simp: MAXSIG_def)

subsection \<open>Properties\<close>

text \<open>Signals a task of user mode can have: numbers 1 to 31.\<close>

definition signals_ok :: "task_t \<Rightarrow> bool" where
  "signals_ok t \<longleftrightarrow> t_uid t \<noteq> 0 \<and> length (t_actions t) = MAXSIG \<and> \<not> bit (t_signal t) 31"

definition deliverable :: "task_t \<Rightarrow> nat \<Rightarrow> bool" where
  "deliverable t b \<longleftrightarrow> bit (t_signal t) b \<and> \<not> bit (t_blocked t) b"

fun sig_kernel :: "sig_result \<Rightarrow> kernel" where
  "sig_kernel (Sig_return k) = k"
| "sig_kernel (Sig_exit k status) = k"
| "sig_kernel (Sig_handler k f a fr) = k"

lemma this_upd_this [simp]: "this_task (upd_this k f) = f (this_task k)"
  by (simp add: this_task_def upd_this_def)

lemma deliverable_bit: "deliverable t b \<longleftrightarrow> bit (t_signal t AND NOT (t_blocked t)) b"
  by (auto simp: deliverable_def bit_and_iff bit_not_iff dest: bit_imp_le_length)

lemma no_deliverable: "(\<forall>b. \<not> deliverable t b) \<longleftrightarrow> t_signal t AND NOT (t_blocked t) = 0"
  unfolding deliverable_bit by (auto intro: bit_eqI)

text \<open>What becomes of signal \<open>b + 1\<close> when it is delivered.\<close>

definition deliver :: "kernel \<Rightarrow> intr_frame_t \<Rightarrow> nat \<Rightarrow> sig_result" where
  "deliver k iframe b = (let t = this_task k; a = t_actions t ! b;
      k = upd_this k (\<lambda>t. t\<lparr>t_signal := t_signal t AND NOT (push_bit b 1)\<rparr>) in
    if sa_handler a = SIG_IGN \<or> sa_handler a = SIG_DFL \<and> word_of_nat (Suc b) = SIGCHLD then Sig_return k
    else if sa_handler a = SIG_DFL then Sig_exit k (push_bit b 1)
    else Sig_handler
      (upd_this (if sa_flags a AND SIG_ONESHOT \<noteq> 0
          then upd_this k (\<lambda>t. t\<lparr>t_actions := (t_actions t)[b := (t_actions t ! b)\<lparr>sa_handler := SIG_DFL\<rparr>]\<rparr>) else k)
        (\<lambda>t. t\<lparr>t_blocked := t_blocked t OR sa_mask a\<rparr>))
      (iframe\<lparr>if_esp := if_esp iframe - SIGNAL_FRAME_SIZE, if_eip := sa_handler a\<rparr>)
      (if_esp iframe - SIGNAL_FRAME_SIZE)
      \<lparr>sf_restorer = sa_restorer a, sf_sig = word_of_nat (Suc b),
       sf_blocked = (if sa_flags a AND SIG_NOMASK \<noteq> 0 then t_blocked t else EOF),
       sf_eax = if_eax iframe, sf_ecx = if_ecx iframe, sf_edx = if_edx iframe,
       sf_eflags = if_eflags iframe, sf_eip = if_eip iframe\<rparr>)"

lemma task_signal_lowest:
  assumes ok: "signals_ok (this_task k)" and "deliverable (this_task k) b'"
  obtains b where "b < 31" and "deliverable (this_task k) b" and "\<forall>c < b. \<not> deliverable (this_task k) c"
    and "\<forall>iframe. task_signal k iframe = Some (deliver k iframe b)"
proof -
  define t where "t = this_task k"
  let ?m = "t_signal t AND NOT (t_blocked t)"
  have bb: "bit (t_signal t) b'" using assms(2) by (simp add: deliverable_def t_def)
  then have "b' < 32" by (auto dest: bit_imp_le_length)
  moreover have "b' \<noteq> 31" using bb ok by (auto simp: signals_ok_def t_def)
  ultimately have b': "bit ?m b'" "b' < 31" using assms(2) by (auto simp: deliverable_bit t_def)
  obtain b where b: "b < 31" "bit ?m b" "\<forall>c < b. \<not> bit ?m c" "find_sig MAXSIG ?m 1 = word_of_nat (Suc b)"
    by (rule find_sig_lowest [OF b']) 
  have m0: "?m \<noteq> 0" using b(2) by auto
  have ub: "unat (word_of_nat (Suc b) - 1 :: u32) = b" using b(1) unat_of_nat_small [of b, where 'a = 32] by simp
  have sm: "SIGMASK (word_of_nat (Suc b)) = push_bit b 1" by (rule SIGMASK_bit [OF b(1)])
  have mb: "?m AND push_bit b 1 \<noteq> 0" using b(2) bit_iff_and_push_bit_not_eq_0 by blast
  have u: "t_uid t \<noteq> 0" "b < length (t_actions t)" using ok b(1) by (simp_all add: signals_ok_def MAXSIG_def t_def)
  have "task_signal k iframe = Some (deliver k iframe b)" for iframe
    unfolding task_signal_def deliver_def t_def [symmetric] Let_def b(4) sm ub set_action_def
    using m0 mb u by (simp split del: if_split) simp
  then show thesis using that [OF b(1)] b(2,3) by (simp add: deliverable_bit t_def)
qed

text \<open>
  C32. Delivery. When a user task with a well-formed signal state has a pending signal that it does
  not block, \<^verbatim>\<open>task_signal\<close> takes the one with the lowest number, clears exactly its bit, and acts on
  the handler of that signal: ignored, the default of \<open>SIGCHLD\<close>, exit with the signal's bit as
  status, or the call of the handler, whose frame lies below the user stack and saves the registers.
  Without such a signal nothing changes.
\<close>

theorem task_signal_takes_lowest:
  assumes "signals_ok (this_task k)"
  shows "if \<exists>b. deliverable (this_task k) b
    then \<exists>b < 31. deliverable (this_task k) b \<and> (\<forall>c < b. \<not> deliverable (this_task k) c) \<and>
      task_signal k iframe = Some (deliver k iframe b) \<and>
      (\<forall>c. bit (t_signal (this_task (sig_kernel (deliver k iframe b)))) c \<longleftrightarrow> c \<noteq> b \<and> bit (t_signal (this_task k)) c)
    else task_signal k iframe = Some (Sig_return k)"
proof (cases "\<exists>b. deliverable (this_task k) b")
  case True
  then obtain b where b: "b < 31" "deliverable (this_task k) b" "\<forall>c < b. \<not> deliverable (this_task k) c"
      "\<forall>iframe. task_signal k iframe = Some (deliver k iframe b)"
    using task_signal_lowest [OF assms] by blast
  have "t_signal (this_task (sig_kernel (deliver k iframe b))) = t_signal (this_task k) AND NOT (push_bit b 1)"
    by (simp add: deliver_def Let_def)
  then have "\<forall>c. bit (t_signal (this_task (sig_kernel (deliver k iframe b)))) c \<longleftrightarrow> c \<noteq> b \<and> bit (t_signal (this_task k)) c"
    by (auto simp: bit_and_iff bit_not_iff bit_exp_iff dest: bit_imp_le_length)
  then show ?thesis using b True by (simp only: if_True) blast
next
  case False
  then have "t_signal (this_task k) AND NOT (t_blocked (this_task k)) = 0" using no_deliverable by blast
  then show ?thesis using False by (simp add: task_signal_def Let_def)
qed

lemma handler_frame:
  assumes "signals_ok (this_task k)" and "task_signal k iframe = Some (Sig_handler k' f a fr)"
  obtains b where "b < 31" and "deliverable (this_task k) b" and "sf_sig fr = word_of_nat (Suc b)"
    and "a = if_esp iframe - SIGNAL_FRAME_SIZE"
    and "t_blocked (this_task k') = t_blocked (this_task k) OR sa_mask (t_actions (this_task k) ! b)"
    and "sf_blocked fr = (if sa_flags (t_actions (this_task k) ! b) AND SIG_NOMASK \<noteq> 0 then t_blocked (this_task k) else EOF)"
    and "sf_eax fr = if_eax iframe" and "sf_ecx fr = if_ecx iframe" and "sf_edx fr = if_edx iframe"
    and "sf_eflags fr = if_eflags iframe" and "sf_eip fr = if_eip iframe"
proof -
  have "\<exists>b. deliverable (this_task k) b"
  proof (rule ccontr)
    assume "\<not> (\<exists>b. deliverable (this_task k) b)"
    then have "t_signal (this_task k) AND NOT (t_blocked (this_task k)) = 0" using no_deliverable by blast
    then show False using assms(2) by (simp add: task_signal_def Let_def)
  qed
  then obtain b where b: "b < 31" "deliverable (this_task k) b"
      "\<forall>iframe. task_signal k iframe = Some (deliver k iframe b)"
    using task_signal_lowest [OF assms(1)] by blast
  define t where "t = this_task k"
  have e: "deliver k iframe b = Sig_handler k' f a fr" using b(3) assms(2) by simp
  have "t_blocked (this_task k') = t_blocked t OR sa_mask (t_actions t ! b)"
    "a = if_esp iframe - SIGNAL_FRAME_SIZE" "fr = \<lparr>sf_restorer = sa_restorer (t_actions t ! b), sf_sig = word_of_nat (Suc b),
       sf_blocked = (if sa_flags (t_actions t ! b) AND SIG_NOMASK \<noteq> 0 then t_blocked t else EOF),
       sf_eax = if_eax iframe, sf_ecx = if_ecx iframe, sf_edx = if_edx iframe,
       sf_eflags = if_eflags iframe, sf_eip = if_eip iframe\<rparr>"
    using e unfolding deliver_def Let_def t_def [symmetric] by (auto split: if_split_asm simp: t_def)
  then show thesis using that [OF b(1,2)] by (simp add: t_def)
qed

text \<open>
  C33. Return from a handler. When the handler of a delivered signal returns to \<^verbatim>\<open>restorer\<close>, the
  six registers the frame saves (\<open>eax\<close>, \<open>ecx\<close>, \<open>edx\<close>, the flags, the instruction pointer and the
  stack pointer) are those of the interrupted code; every other register is what the handler left
  in it, which by the calling convention is the value it was entered with. The mask: when the
  action has \<open>SIG_NOMASK\<close> and the mask was not all ones, the task blocks what it blocked before
  the signal except \<open>SIGKILL\<close>; otherwise it goes on blocking the mask of the action as well.
\<close>

theorem signal_return_roundtrip:
  assumes "signals_ok (this_task k)" and "task_signal k iframe = Some (Sig_handler k1 f a fr)"
    and "restorer k1 regs a fr = (k2, regs2)"
  shows "\<exists>b < 31. sf_sig fr = word_of_nat (Suc b) \<and> deliverable (this_task k) b \<and>
    regs2 = regs\<lparr>if_eax := if_eax iframe, if_ecx := if_ecx iframe, if_edx := if_edx iframe,
      if_eflags := if_eflags iframe, if_eip := if_eip iframe, if_esp := if_esp iframe\<rparr> \<and>
    t_blocked (this_task k2) =
      (if sa_flags (t_actions (this_task k) ! b) AND SIG_NOMASK \<noteq> 0 \<and> t_blocked (this_task k) \<noteq> EOF
       then t_blocked (this_task k) AND NOT (SIGMASK SIGKILL)
       else t_blocked (this_task k) OR sa_mask (t_actions (this_task k) ! b))"
proof -
  obtain b where b: "b < 31" "deliverable (this_task k) b" "sf_sig fr = word_of_nat (Suc b)"
      "a = if_esp iframe - SIGNAL_FRAME_SIZE"
      "t_blocked (this_task k1) = t_blocked (this_task k) OR sa_mask (t_actions (this_task k) ! b)"
      "sf_blocked fr = (if sa_flags (t_actions (this_task k) ! b) AND SIG_NOMASK \<noteq> 0 then t_blocked (this_task k) else EOF)"
      "sf_eax fr = if_eax iframe" "sf_ecx fr = if_ecx iframe" "sf_edx fr = if_edx iframe"
      "sf_eflags fr = if_eflags iframe" "sf_eip fr = if_eip iframe"
    by (rule handler_frame [OF assms(1,2)])
  have regs: "regs2 = regs\<lparr>if_eax := sf_eax fr, if_ecx := sf_ecx fr, if_edx := sf_edx fr,
               if_eflags := sf_eflags fr, if_eip := sf_eip fr, if_esp := a + SIGNAL_FRAME_SIZE\<rparr>"
    and k2: "k2 = snd (sys_ssetmask k1 (sf_blocked fr))"
    using assms(3) by (auto simp: restorer_def split: prod.splits)
  have "t_blocked (this_task k2) = (if sf_blocked fr = EOF then t_blocked (this_task k1)
      else sf_blocked fr AND NOT (SIGMASK SIGKILL))"
    by (simp add: k2 sys_ssetmask_def)
  then show ?thesis using b unfolding regs by (intro exI [of _ b]) auto
qed

text \<open>
  The mask that stays. For a handler without \<open>SIG_NOMASK\<close> the frame asks for the mask \<open>EOF\<close>, which
  \<^verbatim>\<open>sys_ssetmask\<close> rejects: after the return the task still blocks everything in the mask of the
  action, and with \<^verbatim>\<open>sys_sigaction\<close> that includes the signal itself.
\<close>

theorem signal_mask_stays:
  assumes "signals_ok (this_task k)" and "task_signal k iframe = Some (Sig_handler k1 f a fr)"
    and "restorer k1 regs a fr = (k2, regs2)" and "sf_blocked fr = EOF"
  shows "\<exists>b < 31. sf_sig fr = word_of_nat (Suc b) \<and>
    t_blocked (this_task k2) = t_blocked (this_task k) OR sa_mask (t_actions (this_task k) ! b)"
proof -
  obtain b where "b < 31" "sf_sig fr = word_of_nat (Suc b)"
      "t_blocked (this_task k1) = t_blocked (this_task k) OR sa_mask (t_actions (this_task k) ! b)"
    by (rule handler_frame [OF assms(1,2)])
  moreover have "k2 = k1" using assms(3,4) by (simp add: restorer_def sys_ssetmask_def)
  ultimately show ?thesis by blast
qed

text \<open>
  \<open>SIGKILL\<close> can be blocked. \<^verbatim>\<open>sys_ssetmask\<close> takes care that the bit of \<open>SIGKILL\<close> is never blocked, but the
  mask of an action is added as it is: a task whose action for some signal has that bit blocks
  \<open>SIGKILL\<close> once that signal is delivered, so a kill has no effect on it.
\<close>

theorem sigkill_can_be_blocked:
  assumes "signals_ok (this_task k)" and "task_signal k iframe = Some (Sig_handler k1 f a fr)"
    and "\<forall>b < 31. bit (sa_mask (t_actions (this_task k) ! b)) 8"
  shows "\<not> deliverable (this_task (upd_this k1 (\<lambda>t. t\<lparr>t_signal := t_signal t OR SIGMASK SIGKILL\<rparr>))) 8"
proof -
  obtain b where "b < 31" "t_blocked (this_task k1) = t_blocked (this_task k) OR sa_mask (t_actions (this_task k) ! b)"
    by (rule handler_frame [OF assms(1,2)])
  then show ?thesis using assms(3) by (simp add: deliverable_def bit_or_iff)
qed

lemma timer_put_tasks: "timer_put k t = Some k' \<Longrightarrow> k_tasks k' = k_tasks k"
  by (auto simp: timer_put_def halt_simps)

lemma task_unblock_fields:
  assumes "task_unblock k t r = Some k'"
  shows "t_signal (k_tasks k' t) = t_signal (k_tasks k t)" and "t_state (k_tasks k' t) = TASK_READY"
    and "t_status (k_tasks k' t) = r"
  using assms by (auto simp: task_unblock_def halt_simps Let_def split: if_split_asm dest!: timer_put_tasks)

text \<open>
  Sending a signal. \<^verbatim>\<open>sys_kill\<close> returns \<open>EOF\<close> and changes nothing for a number outside 1 to 31, a
  process that does not exist, a kernel task and the init process; otherwise it returns 0, the
  signal is pending, and a task that slept or waited is ready with the status \<open>- EINTR\<close>.
\<close>

theorem kill_effect:
  assumes "sys_kill k pid sig = Some (r, k')"
  shows "r = EOF \<and> k' = k \<and> (sint sig < 1 \<or> sint sig > 31 \<or> get_task k pid = NULL \<or>
      t_uid (k_tasks k (get_task k pid)) = KERNEL_USER \<or> t_pid (k_tasks k (get_task k pid)) = 1) \<or>
    r = 0 \<and> 1 \<le> sint sig \<and> sint sig \<le> 31 \<and> get_task k pid \<noteq> NULL \<and>
    t_signal (k_tasks k' (get_task k pid)) = t_signal (k_tasks k (get_task k pid)) OR SIGMASK sig \<and>
    (if t_state (k_tasks k (get_task k pid)) \<in> {TASK_WAITING, TASK_SLEEPING}
     then t_state (k_tasks k' (get_task k pid)) = TASK_READY \<and> t_status (k_tasks k' (get_task k pid)) = - EINTR
     else t_state (k_tasks k' (get_task k pid)) = t_state (k_tasks k (get_task k pid)))"
proof (cases "sint sig < 1 \<or> sint sig > 31 \<or> get_task k pid = NULL \<or>
      t_uid (k_tasks k (get_task k pid)) = KERNEL_USER \<or> t_pid (k_tasks k (get_task k pid)) = 1")
  case True
  then have "sys_kill k pid sig = Some (EOF, k)"
    by (auto simp: sys_kill_def Let_def MINSIG_def MAXSIG_def)
  then show ?thesis using True assms by simp
next
  case False
  let ?t = "get_task k pid"
  let ?k = "upd_task k ?t (\<lambda>t. t\<lparr>t_signal := t_signal t OR SIGMASK sig\<rparr>)"
  have e: "sys_kill k pid sig = (do {
      k \<leftarrow> (if t_state (k_tasks k ?t) = TASK_WAITING \<or> t_state (k_tasks k ?t) = TASK_SLEEPING
           then task_unblock ?k ?t (- EINTR) else Some ?k);
      Some (0, k) })"
    using False by (simp add: sys_kill_def Let_def MINSIG_def MAXSIG_def)
  show ?thesis
  proof (cases "t_state (k_tasks k ?t) = TASK_WAITING \<or> t_state (k_tasks k ?t) = TASK_SLEEPING")
    case True
    then have "Option.bind (task_unblock ?k ?t (- EINTR)) (\<lambda>k. Some (0, k)) = Some (r, k')" using e assms by simp
    then have u: "task_unblock ?k ?t (- EINTR) = Some k'" "r = 0" by (auto simp: halt_simps)
    note task_unblock_fields [OF u(1)]
    then show ?thesis using False True u(2) by auto
  next
    case f2: False
    then have "k' = ?k" "r = 0" using e assms by auto
    then show ?thesis using False f2 by auto
  qed
qed

subsection \<open>A task with a handler\<close>

text \<open>
  The running task of the sample table has a handler for signal 10 with the flags given and the
  mask of \<open>SIGKILL\<close>, and signals 10 and 17 are pending.
\<close>

definition sample_action :: "u32 \<Rightarrow> sigaction_t" where
  "sample_action flags = \<lparr>sa_handler = 0x1000100, sa_mask = 0x100, sa_flags = flags, sa_restorer = 0x1000200\<rparr>"

definition sample_sig :: "u32 \<Rightarrow> kernel" where
  "sample_sig flags = upd_this (sample_kernel sample_kmem) (\<lambda>t. t\<lparr>t_signal := 0x10200, t_blocked := 0,
     t_actions := replicate 31 (sample_action flags)\<rparr>)"

definition sample_iframe :: intr_frame_t where
  "sample_iframe = \<lparr>if_vector = 0x20, if_edi = 1, if_esi = 2, if_ebp = 3, if_esp_dummy = 4, if_ebx = 5, if_edx = 6,
     if_ecx = 7, if_eax = 8, if_gs = 0, if_fs = 0, if_es = 0, if_ds = 0, if_vector0 = 0, if_error = 0,
     if_eip = 0x1000000, if_cs = 0, if_eflags = 0x202, if_esp = 0xfff000, if_ss = 0\<rparr>"

lemma sample_sig_task: "this_task (sample_sig flags) = (ready_task 1 0 9)\<lparr>t_state := TASK_RUNNING, t_signal := 0x10200,
    t_blocked := 0, t_actions := replicate 31 (sample_action flags)\<rparr>"
  unfolding sample_sig_def this_upd_this by (simp add: this_task_def sample_kernel_def running_task_def)

lemma sample_sig_ok: "signals_ok (this_task (sample_sig flags))"
  unfolding sample_sig_task
  by (simp add: signals_ok_def ready_task_def sample_task_def MAXSIG_def bit_iff_odd)

lemma sample_deliverable: "deliverable (this_task (sample_sig flags)) b \<longleftrightarrow> b = 9 \<or> b = 16"
proof -
  have one: "bit (push_bit n (1 :: u32)) b \<longleftrightarrow> b = n \<and> n < 32" for n by (auto simp: bit_exp_iff)
  have "(0x10200 :: u32) = push_bit 9 1 OR push_bit 16 1" by simp
  then have "bit (0x10200 :: u32) b \<longleftrightarrow> bit (push_bit 9 1 :: u32) b \<or> bit (push_bit 16 1 :: u32) b" by (simp only: bit_or_iff)
  then have "bit (0x10200 :: u32) b \<longleftrightarrow> b = 9 \<or> b = 16" unfolding one by simp
  then show ?thesis unfolding sample_sig_task by (simp add: deliverable_def)
qed

theorem task_signal_takes_lowest_witness:
  "task_signal (sample_sig 0) sample_iframe = Some (deliver (sample_sig 0) sample_iframe 9)"
proof -
  have "\<exists>b. deliverable (this_task (sample_sig 0)) b" using sample_deliverable by blast
  then obtain b where "deliverable (this_task (sample_sig 0)) b" "\<forall>c < b. \<not> deliverable (this_task (sample_sig 0)) c"
      "task_signal (sample_sig 0) sample_iframe = Some (deliver (sample_sig 0) sample_iframe b)"
    using task_signal_takes_lowest [OF sample_sig_ok, of 0 sample_iframe] by auto
  moreover have "b = 9"
    using calculation(1) calculation(2) [rule_format, of 9] unfolding sample_deliverable by (elim disjE) simp_all
  ultimately show ?thesis by simp
qed

lemma sample_handled:
  obtains k1 f a fr where "task_signal (sample_sig flags) sample_iframe = Some (Sig_handler k1 f a fr)"
    and "sf_blocked fr = (if flags AND SIG_NOMASK \<noteq> 0 then 0 else EOF)"
proof -
  obtain b where b: "b < 31" "\<forall>iframe. task_signal (sample_sig flags) iframe = Some (deliver (sample_sig flags) iframe b)"
    by (rule task_signal_lowest [OF sample_sig_ok, of flags 9]) (simp_all add: sample_deliverable)
  have "t_actions (this_task (sample_sig flags)) ! b = sample_action flags" using b(1) unfolding sample_sig_task by simp
  moreover have "t_blocked (this_task (sample_sig flags)) = 0" unfolding sample_sig_task by simp
  ultimately show thesis
    using b(2) that by (simp add: deliver_def sample_action_def SIG_DFL_def SIG_IGN_def Let_def)
qed

theorem signal_return_roundtrip_witness:
  "\<exists>k1 f a fr k2. task_signal (sample_sig SIG_NOMASK) sample_iframe = Some (Sig_handler k1 f a fr) \<and>
    restorer k1 (sample_iframe\<lparr>if_eax := 7, if_eip := 0, if_esp := a + 4\<rparr>) a fr = (k2, sample_iframe) \<and>
    t_blocked (this_task k2) = 0"
proof -
  obtain k1 f a fr where h: "task_signal (sample_sig SIG_NOMASK) sample_iframe = Some (Sig_handler k1 f a fr)"
    by (rule sample_handled)
  obtain k2 regs2 where r:
      "restorer k1 (sample_iframe\<lparr>if_eax := 7, if_eip := 0, if_esp := a + 4\<rparr>) a fr = (k2, regs2)"
    by fastforce
  obtain b where b: "b < 31"
      "regs2 = sample_iframe\<lparr>if_eax := if_eax sample_iframe, if_ecx := if_ecx sample_iframe,
         if_edx := if_edx sample_iframe, if_eflags := if_eflags sample_iframe,
         if_eip := if_eip sample_iframe, if_esp := if_esp sample_iframe\<rparr>"
      "t_blocked (this_task k2) =
        (if sa_flags (t_actions (this_task (sample_sig SIG_NOMASK)) ! b) AND SIG_NOMASK \<noteq> 0 \<and>
           t_blocked (this_task (sample_sig SIG_NOMASK)) \<noteq> EOF
         then t_blocked (this_task (sample_sig SIG_NOMASK)) AND NOT (SIGMASK SIGKILL)
         else t_blocked (this_task (sample_sig SIG_NOMASK)) OR
           sa_mask (t_actions (this_task (sample_sig SIG_NOMASK)) ! b))"
    using signal_return_roundtrip [OF sample_sig_ok h r] by auto
  have "t_blocked (this_task k2) = 0"
    unfolding b(3) sample_sig_task using b(1) by (simp add: sample_action_def SIG_NOMASK_def EOF_def EEOF_def)
  then show ?thesis using h r b(2) by auto
qed

theorem signal_mask_stays_witness:
  "\<exists>k1 f a fr k2 regs2. task_signal (sample_sig 0) sample_iframe = Some (Sig_handler k1 f a fr) \<and>
    restorer k1 f a fr = (k2, regs2) \<and> t_blocked (this_task k2) = 0x100"
proof -
  obtain k1 f a fr where h: "task_signal (sample_sig 0) sample_iframe = Some (Sig_handler k1 f a fr)"
      "sf_blocked fr = (if 0 AND SIG_NOMASK \<noteq> 0 then 0 else EOF)"
    by (rule sample_handled)
  obtain k2 regs2 where r: "restorer k1 f a fr = (k2, regs2)" by fastforce
  have e: "sf_blocked fr = EOF" using h(2) by simp
  obtain b where b: "b < 31" "t_blocked (this_task k2) =
      t_blocked (this_task (sample_sig 0)) OR sa_mask (t_actions (this_task (sample_sig 0)) ! b)"
    using signal_mask_stays [OF sample_sig_ok h(1) r e] by blast
  have "t_blocked (this_task k2) = 0x100" unfolding b(2) sample_sig_task using b(1) by (simp add: sample_action_def)
  then show ?thesis using h(1) r by blast
qed

theorem sigkill_can_be_blocked_witness:
  "\<exists>k1 f a fr. task_signal (sample_sig 0) sample_iframe = Some (Sig_handler k1 f a fr) \<and>
    \<not> deliverable (this_task (upd_this k1 (\<lambda>t. t\<lparr>t_signal := t_signal t OR SIGMASK SIGKILL\<rparr>))) 8"
proof -
  obtain k1 f a fr where h: "task_signal (sample_sig 0) sample_iframe = Some (Sig_handler k1 f a fr)"
    using sample_handled [of 0] by metis
  have "\<forall>b < 31. bit (sa_mask (t_actions (this_task (sample_sig 0)) ! b)) 8"
    unfolding sample_sig_task by (simp add: sample_action_def bit_iff_odd)
  then show ?thesis using sigkill_can_be_blocked [OF sample_sig_ok h] h by blast
qed

theorem kill_effect_witness:
  "\<exists>k'. sys_kill (sample_kernel sample_kmem) 3 15 = Some (0, k') \<and> t_signal (k_tasks k' 0x4000) = 0x4000"
proof -
  let ?k = "sample_kernel sample_kmem"
  have g: "get_task ?k 3 = 0x4000"
    by (simp add: get_task_def sample_kernel_def ready_task_def)
  have "t_uid (k_tasks ?k 0x4000) \<noteq> KERNEL_USER" "t_pid (k_tasks ?k 0x4000) \<noteq> 1" "t_signal (k_tasks ?k 0x4000) = 0"
    "t_state (k_tasks ?k 0x4000) = TASK_READY"
    by (simp_all add: sample_kernel_def ready_task_def sample_task_def KERNEL_USER_def)
  then obtain k' where k': "sys_kill ?k 3 15 = Some (0, k')"
    by (simp add: sys_kill_def g Let_def MINSIG_def MAXSIG_def)
  have "EOF \<noteq> 0" by (simp add: EOF_def EEOF_def)
  then have "t_signal (k_tasks k' 0x4000) = t_signal (k_tasks ?k 0x4000) OR SIGMASK 15"
    using kill_effect [OF k'] g by auto
  then show ?thesis using k' \<open>t_signal (k_tasks ?k 0x4000) = 0\<close> by (simp add: SIGMASK_def)
qed

end
