(* ===== verification/Onix_Fpu.thy ===== *)
theory Onix_Fpu
  imports Onix_Task
begin

section \<open>The floating point unit (src/kernel/fpu.c)\<close>

text \<open>
  The unit is switched lazily: after a task switch it is disabled, and the first floating point
  instruction of a task traps to \<^verbatim>\<open>fpu_handler\<close>, which saves the registers of the task that used it
  last and loads those of the running one. \<open>fpu_regs\<close> is the register file, an image of 108 bytes as
  \<^verbatim>\<open>fnsave\<close> writes it, and \<open>fpu_mem\<close> the images in memory by address. \<^verbatim>\<open>fnsave\<close> and \<^verbatim>\<open>fninit\<close> leave the
  unit in its initial state, which is the parameter \<open>init\<close>.
\<close>

type_synonym fpu_image = "u8 list"

record fsys =
  f_k :: kernel
  last_fpu_task :: u32
  f_cr0 :: u32
  fpu_regs :: fpu_image
  fpu_mem :: "u32 \<Rightarrow> fpu_image"

definition CR0_EM :: u32 where "CR0_EM = 4"
definition CR0_TS :: u32 where "CR0_TS = 8"
definition CR0_NE :: u32 where "CR0_NE = 32"
definition TASK_FPU_USED :: u32 where "TASK_FPU_USED = 1"
definition TASK_FPU_ENABLED :: u32 where "TASK_FPU_ENABLED = 2"
definition INTR_NM :: u32 where "INTR_NM = 7"
definition FPU_SIZE :: u32 where "FPU_SIZE = 108"

definition f_task :: "fsys \<Rightarrow> u32 \<Rightarrow> task_t" where
  "f_task s t = k_tasks (f_k s) t"

definition f_upd :: "fsys \<Rightarrow> u32 \<Rightarrow> (task_t \<Rightarrow> task_t) \<Rightarrow> fsys" where
  "f_upd s t f = s\<lparr>f_k := upd_task (f_k s) t f\<rparr>"

definition fpu_enable :: "fpu_image \<Rightarrow> fsys \<Rightarrow> u32 \<Rightarrow> fsys option" where
  "fpu_enable init s task = do {
     let s = s\<lparr>f_cr0 := f_cr0 s AND NOT (CR0_EM OR CR0_TS)\<rparr>;
     let last = last_fpu_task s;
     if last = task then Some s
     else do {
       s \<leftarrow> (if last \<noteq> NULL \<and> t_flags (f_task s last) AND TASK_FPU_ENABLED \<noteq> 0 then do {
              kassert (t_fpu (f_task s last) \<noteq> NULL);
              let s = s\<lparr>fpu_mem := (fpu_mem s)(t_fpu (f_task s last) := fpu_regs s), fpu_regs := init\<rparr>;
              Some (f_upd s last (\<lambda>t. t\<lparr>t_flags := t_flags t AND NOT TASK_FPU_ENABLED\<rparr>))
            } else Some s);
       let s = s\<lparr>last_fpu_task := task\<rparr>;
       if t_fpu (f_task s task) \<noteq> NULL then Some (s\<lparr>fpu_regs := fpu_mem s (t_fpu (f_task s task))\<rparr>)
       else do {
         let s = s\<lparr>fpu_regs := init\<rparr>;
         (a, m) \<leftarrow> kmalloc (k_mem (f_k s)) FPU_SIZE;
         let s = s\<lparr>f_k := (f_k s)\<lparr>k_mem := m\<rparr>\<rparr>;
         Some (f_upd s task (\<lambda>t. t\<lparr>t_fpu := a, t_flags := t_flags t OR (TASK_FPU_ENABLED OR TASK_FPU_USED)\<rparr>))
       }
     }
   }"

definition fpu_disable :: "fsys \<Rightarrow> fsys" where
  "fpu_disable s = s\<lparr>f_cr0 := f_cr0 s OR (CR0_EM OR CR0_TS)\<rparr>"

definition fpu_handler :: "fpu_image \<Rightarrow> fsys \<Rightarrow> u32 \<Rightarrow> fsys option" where
  "fpu_handler init s vector = do {
     kassert (vector = INTR_NM);
     let task = running_task (f_k s);
     kassert (t_uid (f_task s task) \<noteq> 0);
     fpu_enable init s task
   }"

text \<open>\<open>exist\<close> is what \<^verbatim>\<open>fpu_check\<close> finds out from the processor.\<close>

definition fpu_init :: "bool \<Rightarrow> fsys \<Rightarrow> fsys option" where
  "fpu_init exist s = do {
     let s = s\<lparr>last_fpu_task := NULL\<rparr>;
     kassert exist;
     Some (s\<lparr>f_cr0 := f_cr0 s OR CR0_EM OR CR0_TS OR CR0_NE\<rparr>)
   }"

subsection \<open>Properties\<close>

lemma f_upd_proj [simp]:
  "fpu_mem (f_upd s t f) = fpu_mem s" "fpu_regs (f_upd s t f) = fpu_regs s" "last_fpu_task (f_upd s t f) = last_fpu_task s"
  "f_cr0 (f_upd s t f) = f_cr0 s" "f_task (f_upd s t f) u = (if u = t then f (f_task s t) else f_task s u)"
  by (simp_all add: f_upd_def f_task_def)

lemma f_task_simps [simp]:
  "f_task (s\<lparr>f_cr0 := c\<rparr>) = f_task s" "f_task (s\<lparr>last_fpu_task := l\<rparr>) = f_task s" "f_task (s\<lparr>fpu_regs := r\<rparr>) = f_task s"
  "f_task (s\<lparr>fpu_mem := m\<rparr>) = f_task s" "f_task (s\<lparr>f_k := (f_k s')\<lparr>k_mem := km\<rparr>\<rparr>) = f_task s'"
  by (simp_all add: f_task_def fun_eq_iff)

lemma flag_cleared: "(w AND NOT TASK_FPU_ENABLED) AND TASK_FPU_ENABLED = 0"
  by (simp add: bit_eq_iff bit_and_iff bit_not_iff)

text \<open>
  The first switch. When the unit was last used by a task that started to use it (its image is
  new), \<^verbatim>\<open>fpu_enable\<close> for another task saves the registers in the image of the first one; the other
  task gets its own image, or the initial state if it has none.
\<close>

theorem fpu_enable_saves:
  assumes "last_fpu_task s = t" and "t \<noteq> NULL" and "t \<noteq> u" and "t_flags (f_task s t) AND TASK_FPU_ENABLED \<noteq> 0"
    and "fpu_enable init s u = Some s'"
  shows "fpu_mem s' (t_fpu (f_task s t)) = fpu_regs s \<and> last_fpu_task s' = u \<and>
    fpu_regs s' = (if t_fpu (f_task s u) = NULL then init
      else if t_fpu (f_task s u) = t_fpu (f_task s t) then fpu_regs s else fpu_mem s (t_fpu (f_task s u)))"
  using assms by (auto simp: fpu_enable_def Let_def halt_simps split: if_split_asm)

text \<open>
  The second switch. A task whose image is loaded with \<^verbatim>\<open>frstor\<close> does not get the flag
  \<open>TASK_FPU_ENABLED\<close> back: whatever it computes then (the registers \<open>x\<close>), the next switch does not save,
  and its image stays what it was when it was loaded.
\<close>

theorem fpu_state_lost:
  assumes "last_fpu_task s \<noteq> t" and "t_fpu (f_task s t) \<noteq> NULL" and "t_flags (f_task s t) AND TASK_FPU_ENABLED = 0"
    and "t_fpu (f_task s (last_fpu_task s)) \<noteq> t_fpu (f_task s t)"
    and "fpu_enable init s t = Some s1" and "u \<noteq> t" and "fpu_enable init (s1\<lparr>fpu_regs := x\<rparr>) u = Some s2"
  shows "fpu_regs s1 = fpu_mem s (t_fpu (f_task s t)) \<and> fpu_mem s2 (t_fpu (f_task s2 t)) = fpu_mem s (t_fpu (f_task s t)) \<and>
    t_fpu (f_task s2 t) = t_fpu (f_task s t)"
proof -
  have s1: "last_fpu_task s1 = t" "f_task s1 t = f_task s t" "fpu_mem s1 (t_fpu (f_task s t)) = fpu_mem s (t_fpu (f_task s t))"
    "fpu_regs s1 = fpu_mem s (t_fpu (f_task s t))"
    using assms(1,2,4,5) by (auto simp: fpu_enable_def Let_def halt_simps split: if_split_asm)
  have "fpu_mem s2 = fpu_mem s1" "f_task s2 t = f_task s1 t"
    using assms(3,6,7) s1(1,2) by (auto simp: fpu_enable_def Let_def halt_simps split: if_split_asm)
  then show ?thesis using s1 by simp
qed

text \<open>Two tasks with images at 0x9000 and 0x9100.\<close>

definition sample_fpu :: "u32 \<Rightarrow> fsys" where
  "sample_fpu flags = \<lparr>f_k = upd_task (upd_task (sample_kernel sample_kmem) 0x3000 (\<lambda>t. t\<lparr>t_fpu := 0x9000, t_flags := 3\<rparr>))
       0x4000 (\<lambda>t. t\<lparr>t_fpu := 0x9100, t_flags := flags\<rparr>),
     last_fpu_task = 0x3000, f_cr0 = 8, fpu_regs = [1, 2, 3], fpu_mem = (\<lambda>a. if a = 0x9100 then [4, 5] else [])\<rparr>"

lemma sample_fpu_tasks:
  "t_fpu (f_task (sample_fpu flags) 0x3000) = 0x9000" "t_fpu (f_task (sample_fpu flags) 0x4000) = 0x9100"
  "t_flags (f_task (sample_fpu flags) 0x3000) = 3" "t_flags (f_task (sample_fpu flags) 0x4000) = flags"
  by (simp_all add: sample_fpu_def f_task_def)

lemma sample_fpu_simps:
  "last_fpu_task (sample_fpu flags) = 0x3000" "fpu_regs (sample_fpu flags) = [1, 2, 3]"
  "fpu_mem (sample_fpu flags) 0x9100 = [4, 5]"
  by (simp_all add: sample_fpu_def)

theorem fpu_enable_saves_witness:
  "\<exists>s'. fpu_enable [] (sample_fpu 1) 0x4000 = Some s' \<and> fpu_mem s' 0x9000 = [1, 2, 3] \<and> fpu_regs s' = [4, 5]"
proof -
  have "fpu_enable [] (sample_fpu 1) 0x4000 \<noteq> None"
    by (simp add: fpu_enable_def Let_def sample_fpu_tasks sample_fpu_simps TASK_FPU_ENABLED_def)
  then obtain s' where s': "fpu_enable [] (sample_fpu 1) 0x4000 = Some s'" by blast
  have "fpu_mem s' (t_fpu (f_task (sample_fpu 1) 0x3000)) = fpu_regs (sample_fpu 1) \<and> last_fpu_task s' = 0x4000 \<and>
    fpu_regs s' = (if t_fpu (f_task (sample_fpu 1) 0x4000) = NULL then []
      else if t_fpu (f_task (sample_fpu 1) 0x4000) = t_fpu (f_task (sample_fpu 1) 0x3000) then fpu_regs (sample_fpu 1)
      else fpu_mem (sample_fpu 1) (t_fpu (f_task (sample_fpu 1) 0x4000)))"
    by (rule fpu_enable_saves [OF sample_fpu_simps(1) _ _ _ s']) (simp_all add: sample_fpu_tasks TASK_FPU_ENABLED_def)
  then show ?thesis using s' by (simp add: sample_fpu_tasks sample_fpu_simps)
qed

theorem fpu_state_lost_witness:
  "\<exists>s1 s2. fpu_enable [] (sample_fpu 1) 0x4000 = Some s1 \<and> fpu_enable [] (s1\<lparr>fpu_regs := [7]\<rparr>) 0x3000 = Some s2 \<and>
    fpu_mem s2 (t_fpu (f_task s2 0x4000)) = [4, 5]"
proof -
  have "fpu_enable [] (sample_fpu 1) 0x4000 \<noteq> None"
    by (simp add: fpu_enable_def Let_def sample_fpu_tasks sample_fpu_simps TASK_FPU_ENABLED_def)
  then obtain s1 where s1: "fpu_enable [] (sample_fpu 1) 0x4000 = Some s1" by blast
  then have t: "last_fpu_task s1 = 0x4000" "t_fpu (f_task s1 0x3000) = 0x9000" "t_flags (f_task s1 0x4000) = 1"
    by (auto simp: fpu_enable_def Let_def sample_fpu_tasks sample_fpu_simps TASK_FPU_ENABLED_def)
  then have "fpu_enable [] (s1\<lparr>fpu_regs := [7]\<rparr>) 0x3000 \<noteq> None"
    by (simp add: fpu_enable_def Let_def TASK_FPU_ENABLED_def)
  then obtain s2 where s2: "fpu_enable [] (s1\<lparr>fpu_regs := [7]\<rparr>) 0x3000 = Some s2" by blast
  have "fpu_regs s1 = fpu_mem (sample_fpu 1) (t_fpu (f_task (sample_fpu 1) 0x4000)) \<and>
    fpu_mem s2 (t_fpu (f_task s2 0x4000)) = fpu_mem (sample_fpu 1) (t_fpu (f_task (sample_fpu 1) 0x4000)) \<and>
    t_fpu (f_task s2 0x4000) = t_fpu (f_task (sample_fpu 1) 0x4000)"
    by (rule fpu_state_lost [OF _ _ _ _ s1 _ s2]) (simp_all add: sample_fpu_tasks sample_fpu_simps TASK_FPU_ENABLED_def)
  then have image: "fpu_mem s2 (t_fpu (f_task s2 0x4000)) = fpu_mem (sample_fpu 1) (t_fpu (f_task (sample_fpu 1) 0x4000))"
    by blast
  have "fpu_mem s2 (t_fpu (f_task s2 0x4000)) = [4, 5]"
    unfolding image by (simp add: sample_fpu_tasks sample_fpu_simps)
  then show ?thesis using s1 s2 by blast
qed

end
