(* ===== verification/Onix_Device.thy ===== *)
theory Onix_Device
  imports Onix_Mutex Onix_String
begin

section \<open>Devices and block requests (src/kernel/device.c)\<close>

text \<open>
  The table of 64 devices and the queue of requests each block device has. A device is named by its
  index in the table; the array starts at \<open>d_base\<close>, an entry has 68 bytes, the name is at offset 0
  (in the byte memory \<open>d_mem\<close>) and the request list at offset 36. A request is a structure of 36
  bytes from the kernel heap whose list node is at offset 28.

  The functions of a driver are called through pointers that the drivers install at run time; they
  are the components \<open>dn_ioctl\<close>, \<open>dn_read\<close> and \<open>dn_write\<close> of an environment, by the address of the
  function. When the running task waits, the code after the wait continues in the state in which the
  task runs again: \<open>dn_others\<close> is what the rest of the system does in between.
\<close>

record device_t =
  dv_type :: u32
  dv_subtype :: u32
  dv_dev :: u32
  dv_parent :: u32
  dv_ptr :: u32
  dv_direct :: bool
  dv_ioctl :: u32
  dv_read :: u32
  dv_write :: u32

record request_t =
  rq_dev :: u32
  rq_type :: u32
  rq_idx :: u32
  rq_count :: u32
  rq_flags :: u32
  rq_buf :: u32
  rq_task :: u32

record dsys =
  d_ls :: lsys
  devices :: "device_t list"
  d_base :: u32
  requests :: "u32 \<Rightarrow> request_t"
  d_mem :: mem

record 'x denv =
  dn_ioctl :: "u32 \<Rightarrow> 'x dsys_scheme \<Rightarrow> u32 \<Rightarrow> u32 \<Rightarrow> u32 \<Rightarrow> u32 \<Rightarrow> (u32 \<times> 'x dsys_scheme) option"
  dn_read :: "u32 \<Rightarrow> 'x dsys_scheme \<Rightarrow> u32 \<Rightarrow> u32 \<Rightarrow> u32 \<Rightarrow> u32 \<Rightarrow> u32 \<Rightarrow> (u32 \<times> 'x dsys_scheme) option"
  dn_write :: "u32 \<Rightarrow> 'x dsys_scheme \<Rightarrow> u32 \<Rightarrow> u32 \<Rightarrow> u32 \<Rightarrow> u32 \<Rightarrow> u32 \<Rightarrow> (u32 \<times> 'x dsys_scheme) option"
  dn_others :: "'x dsys_scheme \<Rightarrow> 'x dsys_scheme option"

abbreviation d_k :: "'x dsys_scheme \<Rightarrow> kernel" where
  "d_k s \<equiv> ls_k (d_ls s)"

definition with_k :: "'x dsys_scheme \<Rightarrow> kernel \<Rightarrow> 'x dsys_scheme" where
  "with_k s k = s\<lparr>d_ls := (d_ls s)\<lparr>ls_k := k\<rparr>\<rparr>"

definition upd_device :: "'x dsys_scheme \<Rightarrow> nat \<Rightarrow> (device_t \<Rightarrow> device_t) \<Rightarrow> 'x dsys_scheme" where
  "upd_device s i f = s\<lparr>devices := (devices s)[i := f (devices s ! i)]\<rparr>"

definition DEVICE_NR :: nat where "DEVICE_NR = 64"
definition DEVICE_SIZE :: u32 where "DEVICE_SIZE = 68"
definition REQUEST_SIZE :: u32 where "REQUEST_SIZE = 36"
definition NAMELEN :: u32 where "NAMELEN = 16"
definition DEV_NULL :: u32 where "DEV_NULL = 0"
definition DEV_BLOCK :: u32 where "DEV_BLOCK = 2"
definition DEV_IDE_PART :: u32 where "DEV_IDE_PART = 7"
definition DEV_IDE_CD :: u32 where "DEV_IDE_CD = 8"
definition DEV_CMD_SECTOR_START :: u32 where "DEV_CMD_SECTOR_START = 1"
definition DEV_CMD_SECTOR_SIZE :: u32 where "DEV_CMD_SECTOR_SIZE = 3"
definition REQ_READ :: u32 where "REQ_READ = 0"
definition REQ_WRITE :: u32 where "REQ_WRITE = 1"
definition DIRECT_UP :: bool where "DIRECT_UP = False"
definition DIRECT_DOWN :: bool where "DIRECT_DOWN = True"

text \<open>The addresses of a device's name, of its request list, and of the node of a request.\<close>

definition dev_addr :: "'x dsys_scheme \<Rightarrow> nat \<Rightarrow> u32" where
  "dev_addr s i = d_base s + DEVICE_SIZE * of_nat i"

definition request_list :: "'x dsys_scheme \<Rightarrow> nat \<Rightarrow> u32" where
  "request_list s i = dev_addr s i + 36"

definition req_node :: "u32 \<Rightarrow> u32" where
  "req_node req = req + 28"

definition req_of :: "u32 \<Rightarrow> u32" where
  "req_of node = node - 28"

subsection \<open>The device table\<close>

text \<open>A \<^verbatim>\<open>dev_t\<close> is signed: only the upper end is tested, a negative one would leave the array.\<close>

definition device_get :: "'x dsys_scheme \<Rightarrow> u32 \<Rightarrow> nat option" where
  "device_get s dev = do {
     kassert (sint dev < int DEVICE_NR);
     kassert (0 \<le> sint dev \<and> unat dev < length (devices s));
     kassert (dv_type (devices s ! unat dev) \<noteq> DEV_NULL);
     Some (unat dev)
   }"

fun null_device_loop :: "device_t list \<Rightarrow> nat \<Rightarrow> nat option" where
  "null_device_loop [] i = None"
| "null_device_loop (d # ds) i = (if dv_type d = DEV_NULL then Some i else null_device_loop ds (Suc i))"

definition get_null_device :: "'x dsys_scheme \<Rightarrow> nat option" where
  "get_null_device s = null_device_loop (drop 1 (devices s)) 1"

definition device_ioctl :: "'x denv \<Rightarrow> 'x dsys_scheme \<Rightarrow> u32 \<Rightarrow> u32 \<Rightarrow> u32 \<Rightarrow> u32 \<Rightarrow> (u32 \<times> 'x dsys_scheme) option" where
  "device_ioctl e s dev cmd args flags = do {
     i \<leftarrow> device_get s dev;
     let d = devices s ! i;
     if dv_ioctl d \<noteq> NULL then dn_ioctl e (dv_ioctl d) s (dv_ptr d) cmd args flags
     else Some (- ENOSYS, s)
   }"

definition device_read :: "'x denv \<Rightarrow> 'x dsys_scheme \<Rightarrow> u32 \<Rightarrow> u32 \<Rightarrow> u32 \<Rightarrow> u32 \<Rightarrow> u32 \<Rightarrow> (u32 \<times> 'x dsys_scheme) option" where
  "device_read e s dev buf cnt idx flags = do {
     i \<leftarrow> device_get s dev;
     let d = devices s ! i;
     if dv_read d \<noteq> NULL then dn_read e (dv_read d) s (dv_ptr d) buf cnt idx flags
     else Some (- ENOSYS, s)
   }"

definition device_write :: "'x denv \<Rightarrow> 'x dsys_scheme \<Rightarrow> u32 \<Rightarrow> u32 \<Rightarrow> u32 \<Rightarrow> u32 \<Rightarrow> u32 \<Rightarrow> (u32 \<times> 'x dsys_scheme) option" where
  "device_write e s dev buf cnt idx flags = do {
     i \<leftarrow> device_get s dev;
     let d = devices s ! i;
     if dv_write d \<noteq> NULL then dn_write e (dv_write d) s (dv_ptr d) buf cnt idx flags
     else Some (- ENOSYS, s)
   }"

definition device_install ::
  "'x dsys_scheme \<Rightarrow> u32 \<Rightarrow> u32 \<Rightarrow> u32 \<Rightarrow> u32 \<Rightarrow> u32 \<Rightarrow> u32 \<Rightarrow> u32 \<Rightarrow> u32 \<Rightarrow> (u32 \<times> 'x dsys_scheme) option" where
  "device_install s type subtype ptr name parent ioctl rd wr = do {
     i \<leftarrow> get_null_device s;
     let s = upd_device s i (\<lambda>d. d\<lparr>dv_ptr := ptr, dv_parent := parent, dv_type := type, dv_subtype := subtype\<rparr>);
     let s = s\<lparr>d_mem := snd (strncpy (d_mem s) (dev_addr s i) name NAMELEN)\<rparr>;
     let s = upd_device s i (\<lambda>d. d\<lparr>dv_ioctl := ioctl, dv_read := rd, dv_write := wr\<rparr>);
     Some (dv_dev (devices s ! i), s)
   }"

text \<open>The bytes of a string literal, stored by \<^verbatim>\<open>strcpy\<close>.\<close>

fun put_bytes :: "mem \<Rightarrow> u32 \<Rightarrow> u8 list \<Rightarrow> mem" where
  "put_bytes m a [] = m"
| "put_bytes m a (b # bs) = put_bytes (m(a := b)) (a + 1) bs"

definition NULL_NAME :: "u8 list" where "NULL_NAME = [110, 117, 108, 108, 0]"

fun device_init_loop :: "nat \<Rightarrow> nat \<Rightarrow> 'x dsys_scheme \<Rightarrow> 'x dsys_scheme option" where
  "device_init_loop 0 i s = Some s"
| "device_init_loop (Suc n) i s = do {
     kassert (i < length (devices s));
     let s = s\<lparr>d_mem := put_bytes (d_mem s) (dev_addr s i) NULL_NAME\<rparr>;
     let s = upd_device s i (\<lambda>d. d\<lparr>dv_type := DEV_NULL, dv_subtype := DEV_NULL, dv_dev := of_nat i, dv_parent := 0,
               dv_ioctl := NULL, dv_read := NULL, dv_write := NULL\<rparr>);
     h \<leftarrow> list_init (k_heap (d_k s)) (request_list s i);
     let s = with_k s (with_heap (d_k s) h);
     let s = upd_device s i (\<lambda>d. d\<lparr>dv_direct := DIRECT_UP\<rparr>);
     device_init_loop n (Suc i) s
   }"

definition device_init :: "'x dsys_scheme \<Rightarrow> 'x dsys_scheme option" where
  "device_init s = device_init_loop DEVICE_NR 0 s"

text \<open>\<^verbatim>\<open>device_find\<close> does not halt; \<open>None\<close> is its NULL.\<close>

fun device_find_loop :: "device_t list \<Rightarrow> nat \<Rightarrow> u32 \<Rightarrow> u32 \<Rightarrow> u32 \<Rightarrow> nat option" where
  "device_find_loop [] i subtype idx nr = None"
| "device_find_loop (d # ds) i subtype idx nr =
     (if dv_subtype d \<noteq> subtype then device_find_loop ds (Suc i) subtype idx nr
      else if nr = idx then Some i
      else device_find_loop ds (Suc i) subtype idx (nr + 1))"

definition device_find :: "'x dsys_scheme \<Rightarrow> u32 \<Rightarrow> u32 \<Rightarrow> nat option" where
  "device_find s subtype idx = device_find_loop (devices s) 0 subtype idx 0"

subsection \<open>Block requests\<close>

definition do_request :: "'x denv \<Rightarrow> 'x dsys_scheme \<Rightarrow> u32 \<Rightarrow> (u32 \<times> 'x dsys_scheme) option" where
  "do_request e s req = do {
     let r = requests s req;
     if rq_type r = REQ_READ then device_read e s (rq_dev r) (rq_buf r) (rq_count r) (rq_idx r) (rq_flags r)
     else if rq_type r = REQ_WRITE then device_write e s (rq_dev r) (rq_buf r) (rq_count r) (rq_idx r) (rq_flags r)
     else None
   }"

definition request_nextreq :: "'x dsys_scheme \<Rightarrow> nat \<Rightarrow> u32 \<Rightarrow> (u32 \<times> 'x dsys_scheme) option" where
  "request_nextreq s i req = do {
     let l = request_list s i;
     nx \<leftarrow> get_next (k_heap (d_k s)) (req_node req);
     pv \<leftarrow> get_prev (k_heap (d_k s)) (req_node req);
     let dir = dv_direct (devices s ! i);
     let dir = (if dir = DIRECT_UP \<and> nx = list_tail l then DIRECT_DOWN
                else if dir = DIRECT_DOWN \<and> pv = list_head l then DIRECT_UP else dir);
     let s = upd_device s i (\<lambda>d. d\<lparr>dv_direct := dir\<rparr>);
     let n = (if dir = DIRECT_UP then nx else pv);
     if n = list_head l \<or> n = list_tail l then Some (NULL, s) else Some (req_of n, s)
   }"

text \<open>The key of the queue: the word at \<^verbatim>\<open>idx\<close> of the request of a node.\<close>

definition idx_key :: "'x dsys_scheme \<Rightarrow> u32 \<Rightarrow> u32" where
  "idx_key s node = rq_idx (requests s (req_of node))"

definition request_wait :: "'x denv \<Rightarrow> 'x dsys_scheme \<Rightarrow> u32 \<Rightarrow> 'x dsys_scheme option" where
  "request_wait e s req = do {
     let task = running_task (d_k s);
     let s = s\<lparr>requests := (requests s)(req := (requests s req)\<lparr>rq_task := task\<rparr>)\<rparr>;
     k \<leftarrow> task_block (d_k s) task NULL TASK_BLOCKED TIMELESS;
     s \<leftarrow> dn_others e (with_k s k);
     kassert (t_status (k_tasks (d_k s) task) = EOK);
     Some s
   }"

definition device_request ::
  "'x denv \<Rightarrow> 'x dsys_scheme \<Rightarrow> u32 \<Rightarrow> u32 \<Rightarrow> u8 \<Rightarrow> u32 \<Rightarrow> u32 \<Rightarrow> u32 \<Rightarrow> (u32 \<times> 'x dsys_scheme) option" where
  "device_request e s dev buf cnt idx flags type = do {
     i \<leftarrow> device_get s dev;
     let s = upd_device s i (\<lambda>d. d\<lparr>dv_type := DEV_BLOCK\<rparr>);
     (start, s) \<leftarrow> device_ioctl e s (dv_dev (devices s ! i)) DEV_CMD_SECTOR_START 0 0;
     let offset = idx + start;
     i \<leftarrow> (if dv_parent (devices s ! i) \<noteq> 0 then device_get s (dv_parent (devices s ! i)) else Some i);
     (req, m) \<leftarrow> kmalloc (k_mem (d_k s)) REQUEST_SIZE;
     let s = with_k s ((d_k s)\<lparr>k_mem := clear_mem m req REQUEST_SIZE\<rparr>);
     let s = s\<lparr>requests := (requests s)(req := \<lparr>rq_dev = dv_dev (devices s ! i), rq_type = type, rq_idx = offset,
               rq_count = ucast cnt, rq_flags = flags, rq_buf = buf, rq_task = NULL\<rparr>)\<rparr>;
     empty \<leftarrow> list_empty (k_heap (d_k s)) (request_list s i);
     h \<leftarrow> list_insert_sort (k_heap (d_k s)) (request_list s i) (req_node req) (idx_key s);
     let s = with_k s (with_heap (d_k s) h);
     s \<leftarrow> (if \<not> empty then request_wait e s req else Some s);
     (ret, s) \<leftarrow> do_request e s req;
     (nextreq, s) \<leftarrow> request_nextreq s i req;
     h \<leftarrow> list_remove (k_heap (d_k s)) (req_node req);
     m \<leftarrow> kfree (k_mem (with_heap (d_k s) h)) req;
     let s = with_k s ((d_k s)\<lparr>k_mem := m\<rparr>);
     if nextreq \<noteq> NULL then do {
       let t = rq_task (requests s nextreq);
       kassert (t_magic (k_tasks (d_k s) t) = ONIX_MAGIC);
       k \<leftarrow> task_unblock (d_k s) t EOK;
       Some (ret, with_k s k)
     }
     else Some (ret, s)
   }"

subsection \<open>The elevator\<close>

text \<open>
  The choice of the next request, for the requests before and after the one just done: go on in the
  direction of travel, turn round at the end, stop only when no other request is left.
\<close>

definition elevator :: "bool \<Rightarrow> u32 list \<Rightarrow> u32 list \<Rightarrow> u32 \<times> bool" where
  "elevator way before after =
     (if way = DIRECT_UP then
        if after \<noteq> [] then (hd after, DIRECT_UP)
        else (if before = [] then NULL else List.last before, DIRECT_DOWN)
      else if before \<noteq> [] then (List.last before, DIRECT_DOWN)
      else (if after = [] then NULL else hd after, DIRECT_UP))"

lemma with_k_proj [simp]:
  "d_k (with_k s k) = k" "devices (with_k s k) = devices s" "request_list (with_k s k) i = request_list s i"
  "requests (with_k s k) = requests s" "d_mem (with_k s k) = d_mem s" "dev_addr (with_k s k) i = dev_addr s i"
  by (simp_all add: with_k_def request_list_def dev_addr_def)

lemma upd_device_proj [simp]:
  "d_ls (upd_device s i f) = d_ls s" "requests (upd_device s i f) = requests s" "d_mem (upd_device s i f) = d_mem s"
  "request_list (upd_device s i f) j = request_list s j" "length (devices (upd_device s i f)) = length (devices s)"
  "i < length (devices s) \<Longrightarrow> devices (upd_device s i f) ! i = f (devices s ! i)"
  by (simp_all add: upd_device_def request_list_def dev_addr_def)

lemma req_of_node [simp]: "req_of (req_node r) = r"
  by (simp add: req_of_def req_node_def)

lemma list_rep_around:
  assumes "list_rep h l (xs @ x # ys)"
  shows "get_next h x = Some (hd (ys @ [l + 8]))" and "get_prev h x = Some (List.last (l # xs))"
    and "hd (ys @ [l + 8]) = l + 8 \<longleftrightarrow> ys = []" and "List.last (l # xs) = l \<longleftrightarrow> xs = []"
    and "hd (ys @ [l + 8]) \<noteq> l" and "List.last (l # xs) \<noteq> l + 8"
proof -
  have d: "dseg h l xs x" "dseg h x ys (l + 8)" "x \<noteq> NULL" "distinct (l # (xs @ x # ys) @ [l + 8])"
    using assms by (auto simp: list_rep_def list_nodes_def dseg_append)
  show "get_next h x = Some (hd (ys @ [l + 8]))" "get_prev h x = Some (List.last (l # xs))"
    using d(3) dseg_next [OF d(2)] dseg_prev [OF d(1)] by (simp_all add: get_next_def get_prev_def)
  show "hd (ys @ [l + 8]) = l + 8 \<longleftrightarrow> ys = []" "hd (ys @ [l + 8]) \<noteq> l" using d(4) by (cases ys; auto)+
  show "List.last (l # xs) = l \<longleftrightarrow> xs = []" "List.last (l # xs) \<noteq> l + 8"
    using d(4) by (cases xs rule: rev_cases; auto)+
qed

text \<open>
  C13. When a request is done, the elevator picks the next waiting request in the direction of travel
  and turns round at the end of the queue: none is picked only when the queue holds no other request,
  so no request is left waiting with nobody to wake its task.
\<close>

theorem request_nextreq_elevator:
  assumes "list_rep (k_heap (d_k s)) (request_list s i) (map req_node (before @ req # after))"
    and "i < length (devices s)" and "NULL \<notin> set (before @ after)"
  shows "\<exists>next way. elevator (dv_direct (devices s ! i)) before after = (next, way) \<and>
    request_nextreq s i req = Some (next, upd_device s i (\<lambda>d. d\<lparr>dv_direct := way\<rparr>)) \<and>
    (next = NULL \<longleftrightarrow> before @ after = []) \<and> (next \<noteq> NULL \<longrightarrow> next \<in> set (before @ after))"
proof -
  have rep: "list_rep (k_heap (d_k s)) (request_list s i) (map req_node before @ req_node req # map req_node after)"
    using assms(1) by simp
  note a = list_rep_around [OF rep]
  show ?thesis
    using a assms(2,3)
    by (cases after; cases before rule: rev_cases; cases "dv_direct (devices s ! i)")
      (auto simp: request_nextreq_def elevator_def Let_def list_head_def list_tail_def DIRECT_UP_def DIRECT_DOWN_def)
qed

text \<open>Device 1 with three requests, the running one in the middle.\<close>

definition sample_device :: device_t where
  "sample_device = \<lparr>dv_type = DEV_BLOCK, dv_subtype = DEV_IDE_PART, dv_dev = 1, dv_parent = 0, dv_ptr = 0,
     dv_direct = DIRECT_UP, dv_ioctl = 0, dv_read = 0, dv_write = 0\<rparr>"

definition sample_queue :: list_heap where
  "sample_queue = \<lparr>node_prev = (\<lambda>_. 0)(0x11c := 0x7068, 0x21c := 0x11c, 0x31c := 0x21c, 0x7070 := 0x31c),
     node_next = (\<lambda>_. 0)(0x7068 := 0x11c, 0x11c := 0x21c, 0x21c := 0x31c, 0x31c := 0x7070)\<rparr>"

definition sample_dsys :: dsys where
  "sample_dsys = \<lparr>d_ls = \<lparr>ls_k = with_heap (sample_kernel sample_kmem) sample_queue, mx_value = (\<lambda>_. False),
       lk_holder = (\<lambda>_. 0), lk_repeat = (\<lambda>_. 0), ls_pc = (\<lambda>_. Own)\<rparr>,
     devices = replicate 64 sample_device, d_base = 0x7000,
     requests = (\<lambda>a. \<lparr>rq_dev = 1, rq_type = 0, rq_idx = a, rq_count = 2, rq_flags = 0, rq_buf = 0, rq_task = 0x3000\<rparr>),
     d_mem = (\<lambda>_. 0)\<rparr>"

lemma sample_queue_rep:
  "list_rep (k_heap (d_k sample_dsys)) (request_list sample_dsys 1) (map req_node ([0x100] @ 0x200 # [0x300]))"
  by (simp add: sample_dsys_def with_heap_def sample_queue_def request_list_def dev_addr_def DEVICE_SIZE_def
      req_node_def list_rep_def list_nodes_def)

theorem request_nextreq_elevator_witness:
  "\<exists>s'. request_nextreq sample_dsys 1 0x200 = Some (0x300, s')"
proof -
  have "elevator (dv_direct (devices sample_dsys ! 1)) [0x100] [0x300] = (0x300, DIRECT_UP)"
    by (simp add: sample_dsys_def sample_device_def elevator_def DIRECT_UP_def)
  moreover have "1 < length (devices sample_dsys)" "NULL \<notin> set ([0x100] @ [0x300 :: u32])"
    by (simp_all add: sample_dsys_def)
  ultimately show ?thesis
    using request_nextreq_elevator [OF sample_queue_rep] by auto
qed

end
