(* ===== verification/Onix_Buffer.thy ===== *)
theory Onix_Buffer
  imports Onix_Device
begin

section \<open>The buffer cache (src/kernel/buffer.c)\<close>

text \<open>
  Three descriptors, for blocks of 1024, 2048 and 4096 bytes, each with a list of buffers never used,
  a list of buffers released (the least recently used at the back), a list of waiting tasks and 31
  hash chains. A descriptor has 552 bytes, a \<^verbatim>\<open>buffer_t\<close> 68 with its hash node at offset 20, its list
  node at 28 and its lock at 36. The data of a buffer is in the byte memory at \<open>bf_data\<close>.
\<close>

record bdesc_t =
  bd_count :: u32
  bd_size :: u32

record buffer_t =
  bf_data :: u32
  bf_desc :: nat
  bf_dev :: u32
  bf_block :: u32
  bf_count :: u32
  bf_dirty :: bool
  bf_valid :: bool

record bsys = dsys +
  bdescs :: "bdesc_t list"
  b_base :: u32
  buffers :: "u32 \<Rightarrow> buffer_t"

definition BUFFER_DESC_NR :: nat where "BUFFER_DESC_NR = 3"
definition HASH_COUNT :: nat where "HASH_COUNT = 31"
definition MAX_BUF_COUNT :: u32 where "MAX_BUF_COUNT = 4096"
definition BUFFER_SIZE :: u32 where "BUFFER_SIZE = 68"

definition bd_addr :: "'x bsys_scheme \<Rightarrow> nat \<Rightarrow> u32" where "bd_addr s i = b_base s + 552 * of_nat i"
definition free_list :: "'x bsys_scheme \<Rightarrow> nat \<Rightarrow> u32" where "free_list s i = bd_addr s i + 8"
definition idle_list :: "'x bsys_scheme \<Rightarrow> nat \<Rightarrow> u32" where "idle_list s i = bd_addr s i + 24"
definition wait_list :: "'x bsys_scheme \<Rightarrow> nat \<Rightarrow> u32" where "wait_list s i = bd_addr s i + 40"
definition hash_table :: "'x bsys_scheme \<Rightarrow> nat \<Rightarrow> u32 \<Rightarrow> u32" where "hash_table s i j = bd_addr s i + 56 + 16 * j"

definition hnode :: "u32 \<Rightarrow> u32" where "hnode buf = buf + 20"
definition rnode :: "u32 \<Rightarrow> u32" where "rnode buf = buf + 28"
definition buf_lock :: "u32 \<Rightarrow> u32" where "buf_lock buf = buf + 36"

definition upd_buffer :: "'x bsys_scheme \<Rightarrow> u32 \<Rightarrow> (buffer_t \<Rightarrow> buffer_t) \<Rightarrow> 'x bsys_scheme" where
  "upd_buffer s b f = s\<lparr>buffers := (buffers s)(b := f (buffers s b))\<rparr>"

text \<open>A list operation on the kernel's list heap.\<close>

definition on_heap :: "'x dsys_scheme \<Rightarrow> (list_heap \<Rightarrow> list_heap option) \<Rightarrow> 'x dsys_scheme option" where
  "on_heap s f = do { h \<leftarrow> f (k_heap (d_k s)); Some (with_k s (with_heap (d_k s) h)) }"

subsection \<open>Locks, waiting for other tasks\<close>

text \<open>
  \<open>Onix_Mutex\<close> runs the code of a lock from one switch to the next; here the switches are filled in
  with what the rest of the system does, so that the operation is run to its end.
\<close>

partial_function (option) run_lock :: "'x denv \<Rightarrow> 'x dsys_scheme \<Rightarrow> u32 \<Rightarrow> 'x dsys_scheme option" where
  "run_lock e s task =
     (if ls_pc (d_ls s) task = Own then Some s
      else do {
        s \<leftarrow> (if running_task (d_k s) = task then Some s else dn_others e s);
        ls \<leftarrow> resume (d_ls s);
        run_lock e (s\<lparr>d_ls := ls\<rparr>) task
      })"

definition acquire :: "'x denv \<Rightarrow> 'x dsys_scheme \<Rightarrow> u32 \<Rightarrow> 'x dsys_scheme option" where
  "acquire e s lock = do {
     ls \<leftarrow> lock_acquire (d_ls s) lock;
     run_lock e (s\<lparr>d_ls := ls\<rparr>) (running_task (d_k s))
   }"

definition release :: "'x denv \<Rightarrow> 'x dsys_scheme \<Rightarrow> u32 \<Rightarrow> 'x dsys_scheme option" where
  "release e s lock = do {
     ls \<leftarrow> lock_release (d_ls s) lock;
     run_lock e (s\<lparr>d_ls := ls\<rparr>) (running_task (d_k s))
   }"

subsection \<open>The hash table\<close>

definition hash :: "u32 \<Rightarrow> u32 \<Rightarrow> u32" where
  "hash dev bno = (dev XOR bno) mod of_nat HASH_COUNT"

fun desc_get_loop :: "bdesc_t list \<Rightarrow> nat \<Rightarrow> u32 \<Rightarrow> nat option" where
  "desc_get_loop [] i sz = None"
| "desc_get_loop (d # ds) i sz = (if bd_size d = sz then Some i else desc_get_loop ds (Suc i) sz)"

definition desc_get :: "'x bsys_scheme \<Rightarrow> u32 \<Rightarrow> nat option" where
  "desc_get s sz = desc_get_loop (bdescs s) 0 sz"

partial_function (option) hash_find ::
  "list_heap \<Rightarrow> (u32 \<Rightarrow> buffer_t) \<Rightarrow> u32 \<Rightarrow> u32 \<Rightarrow> u32 \<Rightarrow> u32 \<Rightarrow> u32 option" where
  "hash_find h bufs tail dev bno node =
     (if node = tail then Some NULL
      else if bf_dev (bufs (node - 20)) = dev \<and> bf_block (bufs (node - 20)) = bno then Some (node - 20)
      else do { n \<leftarrow> get_next h node; hash_find h bufs tail dev bno n })"

declare hash_find.simps [code]

definition get_from_hash_table :: "'x bsys_scheme \<Rightarrow> nat \<Rightarrow> u32 \<Rightarrow> u32 \<Rightarrow> (u32 \<times> 'x bsys_scheme) option" where
  "get_from_hash_table s i dev bno = do {
     let l = hash_table s i (hash dev bno);
     node \<leftarrow> get_next (k_heap (d_k s)) (list_head l);
     buf \<leftarrow> hash_find (k_heap (d_k s)) (buffers s) (list_tail l) dev bno node;
     if buf = NULL then Some (NULL, s)
     else do {
       idle \<leftarrow> list_search (k_heap (d_k s)) (idle_list s i) (rnode buf);
       s \<leftarrow> (if idle then on_heap s (\<lambda>h. list_remove h (rnode buf)) else Some s);
       Some (buf, s)
     }
   }"

definition hash_locate :: "'x bsys_scheme \<Rightarrow> nat \<Rightarrow> u32 \<Rightarrow> 'x bsys_scheme option" where
  "hash_locate s i buf = do {
     let l = hash_table s i (hash (bf_dev (buffers s buf)) (bf_block (buffers s buf)));
     found \<leftarrow> list_search (k_heap (d_k s)) l (hnode buf);
     kassert (\<not> found);
     on_heap s (\<lambda>h. list_push h l (hnode buf))
   }"

definition hash_remove :: "'x bsys_scheme \<Rightarrow> nat \<Rightarrow> u32 \<Rightarrow> 'x bsys_scheme option" where
  "hash_remove s i buf =
     (if node_next (k_heap (d_k s)) (hnode buf) \<noteq> NULL then on_heap s (\<lambda>h. list_remove h (hnode buf)) else Some s)"

subsection \<open>Getting a buffer\<close>

text \<open>\<open>left\<close> counts the bytes of the new page that are not yet part of a buffer.\<close>

partial_function (option) buffer_alloc_loop ::
  "'x bsys_scheme \<Rightarrow> nat \<Rightarrow> u32 \<Rightarrow> u32 \<Rightarrow> 'x bsys_scheme option" where
  "buffer_alloc_loop s i addr left =
     (if left = 0 then Some s
      else do {
        (buf, m) \<leftarrow> kmalloc (k_mem (d_k s)) BUFFER_SIZE;
        let s = with_k s ((d_k s)\<lparr>k_mem := m\<rparr>);
        let s = upd_buffer s buf (\<lambda>_. \<lparr>bf_data = addr, bf_desc = i, bf_dev = EOF, bf_block = 0, bf_count = 0,
                  bf_dirty = False, bf_valid = False\<rparr>);
        ls \<leftarrow> lock_init (d_ls s) (buf_lock buf);
        let s = s\<lparr>d_ls := ls\<rparr>;
        s \<leftarrow> on_heap s (\<lambda>h. list_push h (free_list s i) (rnode buf));
        let sz = bd_size (bdescs s ! i);
        let s = s\<lparr>bdescs := (bdescs s)[i := (bdescs s ! i)\<lparr>bd_count := bd_count (bdescs s ! i) + 1\<rparr>]\<rparr>;
        buffer_alloc_loop s i (addr + sz) (left - sz)
      })"

definition buffer_alloc :: "'x bsys_scheme \<Rightarrow> nat \<Rightarrow> 'x bsys_scheme option" where
  "buffer_alloc s i = do {
     (addr, p) \<leftarrow> alloc_kpage (km_pool (k_mem (d_k s))) 1;
     let s = with_k s ((d_k s)\<lparr>k_mem := (k_mem (d_k s))\<lparr>km_pool := p\<rparr>\<rparr>);
     buffer_alloc_loop s i addr PAGE_SIZE
   }"

text \<open>The buffer at the back of a list, taken out of it and of its hash chain.\<close>

definition recycle :: "'x bsys_scheme \<Rightarrow> nat \<Rightarrow> u32 \<Rightarrow> (u32 \<times> 'x bsys_scheme) option" where
  "recycle s i l = do {
     (node, h) \<leftarrow> list_popback (k_heap (d_k s)) l;
     let s = with_k s (with_heap (d_k s) h);
     let buf = node - 28;
     s \<leftarrow> hash_remove s i buf;
     Some (buf, upd_buffer s buf (\<lambda>b. b\<lparr>bf_valid := False\<rparr>))
   }"

partial_function (option) wait_idle :: "('x bsys_ext) denv \<Rightarrow> 'x bsys_scheme \<Rightarrow> nat \<Rightarrow> 'x bsys_scheme option" where
  "wait_idle e s i = do {
     empty \<leftarrow> list_empty (k_heap (d_k s)) (idle_list s i);
     if empty then do {
       k \<leftarrow> task_block (d_k s) (running_task (d_k s)) (wait_list s i) TASK_BLOCKED TIMELESS;
       s \<leftarrow> dn_others e (with_k s k);
       wait_idle e s i
     }
     else Some s
   }"

definition get_free_buffer :: "('x bsys_ext) denv \<Rightarrow> 'x bsys_scheme \<Rightarrow> nat \<Rightarrow> (u32 \<times> 'x bsys_scheme) option" where
  "get_free_buffer e s i = do {
     empty \<leftarrow> list_empty (k_heap (d_k s)) (free_list s i);
     s \<leftarrow> (if bd_count (bdescs s ! i) < MAX_BUF_COUNT \<and> empty then buffer_alloc s i else Some s);
     empty \<leftarrow> list_empty (k_heap (d_k s)) (free_list s i);
     if \<not> empty then recycle s i (free_list s i)
     else do {
       s \<leftarrow> wait_idle e s i;
       recycle s i (idle_list s i)
     }
   }"

definition getblk :: "('x bsys_ext) denv \<Rightarrow> 'x bsys_scheme \<Rightarrow> nat \<Rightarrow> u32 \<Rightarrow> u32 \<Rightarrow> (u32 \<times> 'x bsys_scheme) option" where
  "getblk e s i dev bno = do {
     (buf, s) \<leftarrow> get_from_hash_table s i dev bno;
     if buf \<noteq> NULL then Some (buf, upd_buffer s buf (\<lambda>b. b\<lparr>bf_count := bf_count b + 1\<rparr>))
     else do {
       (buf, s) \<leftarrow> get_free_buffer e s i;
       kassert (bf_count (buffers s buf) = 0);
       kassert (\<not> bf_dirty (buffers s buf));
       let s = upd_buffer s buf (\<lambda>b. b\<lparr>bf_count := 1, bf_dev := dev, bf_block := bno\<rparr>);
       s \<leftarrow> hash_locate s i buf;
       Some (buf, s)
     }
   }"

subsection \<open>Reading, writing and releasing\<close>

definition bdirty :: "'x bsys_scheme \<Rightarrow> u32 \<Rightarrow> bool \<Rightarrow> 'x bsys_scheme" where
  "bdirty s buf dirty = upd_buffer s buf (\<lambda>b. b\<lparr>bf_dirty := dirty\<rparr>)"

definition bwrite :: "('x bsys_ext) denv \<Rightarrow> 'x bsys_scheme \<Rightarrow> u32 \<Rightarrow> (u32 \<times> 'x bsys_scheme) option" where
  "bwrite e s buf = do {
     kassert (buf \<noteq> NULL);
     let b = buffers s buf;
     if \<not> bf_dirty b then Some (EOK, s)
     else do {
       let sz = bd_size (bdescs s ! bf_desc b);
       (sector, s) \<leftarrow> device_ioctl e s (bf_dev b) DEV_CMD_SECTOR_SIZE 0 0;
       kassert (sector \<noteq> 0);
       let bs = sz div sector;
       (ret, s) \<leftarrow> device_request e s (bf_dev b) (bf_data b) (ucast bs) (bf_block b * bs) 0 REQ_WRITE;
       if sint ret < 0 then Some (ret, s)
       else Some (ret, upd_buffer (bdirty s buf False) buf (\<lambda>b. b\<lparr>bf_valid := True\<rparr>))
     }
   }"

definition brelse :: "('x bsys_ext) denv \<Rightarrow> 'x bsys_scheme \<Rightarrow> u32 \<Rightarrow> (u32 \<times> 'x bsys_scheme) option" where
  "brelse e s buf =
     (if buf = NULL then Some (EOK, s)
      else do {
        (ret, s) \<leftarrow> bwrite e s buf;
        let s = upd_buffer s buf (\<lambda>b. b\<lparr>bf_count := bf_count b - 1\<rparr>);
        kassert (0 \<le> sint (bf_count (buffers s buf)));
        if bf_count (buffers s buf) \<noteq> 0 then Some (ret, s)
        else do {
          kassert (node_next (k_heap (d_k s)) (rnode buf) = NULL);
          kassert (node_prev (k_heap (d_k s)) (rnode buf) = NULL);
          let i = bf_desc (buffers s buf);
          s \<leftarrow> on_heap s (\<lambda>h. list_push h (idle_list s i) (rnode buf));
          empty \<leftarrow> list_empty (k_heap (d_k s)) (wait_list s i);
          if \<not> empty then do {
            (node, h) \<leftarrow> list_popback (k_heap (d_k s)) (wait_list s i);
            k \<leftarrow> task_unblock (with_heap (d_k s) h) (node - 4) EOK;
            Some (EOK, with_k s k)
          }
          else Some (EOK, s)
        }
      })"

text \<open>The part of \<^verbatim>\<open>bread\<close> under the lock; the first result is false for its \<^verbatim>\<open>goto rollback\<close>.\<close>

definition fill_buffer :: "('x bsys_ext) denv \<Rightarrow> 'x bsys_scheme \<Rightarrow> nat \<Rightarrow> u32 \<Rightarrow> u32 \<Rightarrow> (bool \<times> 'x bsys_scheme) option" where
  "fill_buffer e s i dev buf =
     (if bf_valid (buffers s buf) then Some (True, s)
      else do {
        let sz = bd_size (bdescs s ! i);
        (sector, s) \<leftarrow> device_ioctl e s dev DEV_CMD_SECTOR_SIZE 0 0;
        if sector > sz then Some (False, s)
        else do {
          kassert (sector \<noteq> 0);
          let bs = sz div sector;
          let b = buffers s buf;
          (ret, s) \<leftarrow> device_request e s (bf_dev b) (bf_data b) (ucast bs) (bf_block b * bs) 0 REQ_READ;
          if sint ret < sint EOK then Some (False, s)
          else Some (True, upd_buffer (bdirty s buf False) buf (\<lambda>b. b\<lparr>bf_valid := True\<rparr>))
        }
      })"

definition bread :: "('x bsys_ext) denv \<Rightarrow> 'x bsys_scheme \<Rightarrow> u32 \<Rightarrow> u32 \<Rightarrow> u32 \<Rightarrow> (u32 \<times> 'x bsys_scheme) option" where
  "bread e s dev bno sz = do {
     i \<leftarrow> desc_get s sz;
     (buf, s) \<leftarrow> getblk e s i dev bno;
     kassert (buf \<noteq> NULL);
     if bf_valid (buffers s buf) then Some (buf, s)
     else do {
       s \<leftarrow> acquire e s (buf_lock buf);
       (ok, s) \<leftarrow> fill_buffer e s i dev buf;
       s \<leftarrow> release e s (buf_lock buf);
       if ok then Some (buf, s)
       else do {
         (_, s) \<leftarrow> brelse e s buf;
         Some (NULL, s)
       }
     }
   }"

subsection \<open>Bringing the cache up\<close>

fun init_chains :: "nat \<Rightarrow> 'x bsys_scheme \<Rightarrow> nat \<Rightarrow> nat \<Rightarrow> 'x bsys_scheme option" where
  "init_chains 0 s i j = Some s"
| "init_chains (Suc n) s i j = do {
     s \<leftarrow> on_heap s (\<lambda>h. list_init h (hash_table s i (of_nat j)));
     init_chains n s i (Suc j)
   }"

fun buffer_init_loop :: "nat \<Rightarrow> 'x bsys_scheme \<Rightarrow> nat \<Rightarrow> u32 \<Rightarrow> 'x bsys_scheme option" where
  "buffer_init_loop 0 s i sz = Some s"
| "buffer_init_loop (Suc n) s i sz = do {
     kassert (i < length (bdescs s));
     let s = s\<lparr>bdescs := (bdescs s)[i := \<lparr>bd_count = 0, bd_size = sz\<rparr>]\<rparr>;
     s \<leftarrow> on_heap s (\<lambda>h. list_init h (free_list s i));
     s \<leftarrow> on_heap s (\<lambda>h. list_init h (idle_list s i));
     s \<leftarrow> on_heap s (\<lambda>h. list_init h (wait_list s i));
     s \<leftarrow> init_chains HASH_COUNT s i 0;
     buffer_init_loop n s (Suc i) (push_bit 1 sz)
   }"

definition buffer_init :: "'x bsys_scheme \<Rightarrow> 'x bsys_scheme option" where
  "buffer_init s = buffer_init_loop BUFFER_DESC_NR s 0 1024"

subsection \<open>Projections\<close>

lemma with_k_buffers [simp]:
  "buffers (with_k s k) = buffers s" "bdescs (with_k s k) = bdescs s" "b_base (with_k s k) = b_base s"
  "free_list (with_k s k) i = free_list s i" "idle_list (with_k s k) i = idle_list s i"
  "wait_list (with_k s k) i = wait_list s i" "hash_table (with_k s k) i j = hash_table s i j"
  by (simp_all add: with_k_def free_list_def idle_list_def wait_list_def hash_table_def bd_addr_def)

lemma upd_buffer_proj [simp]:
  "d_ls (upd_buffer s b f) = d_ls s" "bdescs (upd_buffer s b f) = bdescs s" "b_base (upd_buffer s b f) = b_base s"
  "buffers (upd_buffer s b f) = (buffers s)(b := f (buffers s b))"
  "idle_list (upd_buffer s b f) i = idle_list s i" "wait_list (upd_buffer s b f) i = wait_list s i"
  "free_list (upd_buffer s b f) i = free_list s i" "hash_table (upd_buffer s b f) i j = hash_table s i j"
  by (simp_all add: upd_buffer_def free_list_def idle_list_def wait_list_def hash_table_def bd_addr_def)

lemma on_heapI: "f (k_heap (d_k s)) = Some h \<Longrightarrow> on_heap s f = Some (with_k s (with_heap (d_k s) h))"
  by (simp add: on_heap_def)

lemma node_buf [simp]: "hnode b - 20 = b" "rnode b - 28 = b" "hnode a = hnode b \<longleftrightarrow> a = b" "rnode a = rnode b \<longleftrightarrow> a = b"
  by (simp_all add: hnode_def rnode_def)

lemma rnode_mem [simp]: "rnode b \<in> rnode ` A \<longleftrightarrow> b \<in> A" "hnode b \<in> hnode ` A \<longleftrightarrow> b \<in> A"
  by (auto simp: image_iff)

lemma list_rep_mem: "list_rep h l xs \<Longrightarrow> x \<in> set xs \<Longrightarrow> x \<noteq> l \<and> x \<noteq> l + 8 \<and> x \<noteq> NULL"
  by (auto simp: list_rep_def list_nodes_def)

lemma map_remove1_rnode: "map rnode (remove1 b xs) = remove1 (rnode b) (map rnode xs)"
  by (induction xs) auto

subsection \<open>Finding a block\<close>

definition holds :: "(u32 \<Rightarrow> buffer_t) \<Rightarrow> u32 \<Rightarrow> u32 \<Rightarrow> u32 \<Rightarrow> bool" where
  "holds bufs dev bno b \<longleftrightarrow> bf_dev (bufs b) = dev \<and> bf_block (bufs b) = bno"

lemma hash_find_seg:
  assumes "dseg h p (map hnode bs) q" and "q \<notin> hnode ` set bs" and "NULL \<notin> hnode ` set bs"
  shows "hash_find h bufs q dev bno (node_next h p) =
    Some (case List.find (holds bufs dev bno) bs of None \<Rightarrow> NULL | Some b \<Rightarrow> b)"
  using assms
proof (induction bs arbitrary: p)
  case Nil
  then show ?case by (simp add: hash_find.simps)
next
  case (Cons b bs)
  then have "hash_find h bufs q dev bno (node_next h (hnode b)) =
      Some (case List.find (holds bufs dev bno) bs of None \<Rightarrow> NULL | Some b \<Rightarrow> b)" by simp
  with Cons.prems show ?case
    by (subst hash_find.simps) (auto simp: get_next_def holds_def)
qed

lemma hash_find_rep:
  assumes "list_rep h l (map hnode bs)"
  shows "\<exists>node. get_next h (list_head l) = Some node \<and> hash_find h bufs (list_tail l) dev bno node =
    Some (case List.find (holds bufs dev bno) bs of None \<Rightarrow> NULL | Some b \<Rightarrow> b)"
  using assms hash_find_seg [of h l bs "l + 8" bufs dev bno]
  by (auto simp: list_rep_def list_nodes_def list_head_def list_tail_def get_next_def)

subsection \<open>A cached block\<close>

lemma hit_idle:
  assumes chain: "list_rep (k_heap (d_k s)) (hash_table s i (hash dev bno)) (map hnode bs)"
    and found: "List.find (holds (buffers s) dev bno) bs = Some b" and b: "b \<noteq> NULL"
    and idle: "list_rep (k_heap (d_k s)) (idle_list s i) (map rnode idle)" "b \<in> set idle"
  obtains h where "get_from_hash_table s i dev bno = Some (b, with_k s (with_heap (d_k s) h))"
    and "list_rep h (idle_list s i) (map rnode (remove1 b idle))" and "unlinked h (rnode b)"
    and "same_outside (list_nodes (idle_list s i) (map rnode idle)) (k_heap (d_k s)) h"
proof -
  have "rnode b \<in> set (map rnode idle)" using idle(2) by simp
  then obtain h where h: "list_remove (k_heap (d_k s)) (rnode b) = Some h"
      "list_rep h (idle_list s i) (remove1 (rnode b) (map rnode idle))" "unlinked h (rnode b)"
      "same_outside (list_nodes (idle_list s i) (map rnode idle)) (k_heap (d_k s)) h"
    using list_remove_member [OF idle(1)] by blast
  obtain node where n: "get_next (k_heap (d_k s)) (list_head (hash_table s i (hash dev bno))) = Some node"
      "hash_find (k_heap (d_k s)) (buffers s) (list_tail (hash_table s i (hash dev bno))) dev bno node = Some b"
    using hash_find_rep [OF chain, of "buffers s" dev bno] found by auto
  have "get_from_hash_table s i dev bno = Some (b, with_k s (with_heap (d_k s) h))"
    using n h(1) b idle(2) list_search_rep [OF idle(1), of "rnode b"]
    by (simp add: get_from_hash_table_def Let_def on_heapI)
  then show thesis using that h by (simp add: map_remove1_rnode)
qed

text \<open>
  C12. Reading a block that is cached and idle takes no driver call: \<^verbatim>\<open>bread\<close> returns the buffer that
  holds the block, with one reference and out of the idle list, and \<^verbatim>\<open>brelse\<close> puts it to the front
  of the idle list, where it is the last to be recycled; all buffers are then as before.
\<close>

theorem bread_brelse_cached:
  assumes "desc_get s sz = Some i"
    and "list_rep (k_heap (d_k s)) (hash_table s i (hash dev bno)) (map hnode bs)"
    and "List.find (holds (buffers s) dev bno) bs = Some b" and "b \<noteq> NULL"
    and "list_rep (k_heap (d_k s)) (idle_list s i) (map rnode idle)" and "b \<in> set idle"
    and "list_rep (k_heap (d_k s)) (wait_list s i) []"
    and "{wait_list s i, wait_list s i + 8} \<inter> list_nodes (idle_list s i) (map rnode idle) = {}"
    and "bf_valid (buffers s b)" and "\<not> bf_dirty (buffers s b)" and "bf_count (buffers s b) = 0" and "bf_desc (buffers s b) = i"
  shows "\<exists>s1 s2. bread e s dev bno sz = Some (b, s1) \<and> holds (buffers s1) dev bno b \<and> bf_count (buffers s1 b) = 1 \<and>
      list_rep (k_heap (d_k s1)) (idle_list s1 i) (map rnode (remove1 b idle)) \<and>
    brelse e s1 b = Some (EOK, s2) \<and> buffers s2 = buffers s \<and>
      list_rep (k_heap (d_k s2)) (idle_list s2 i) (map rnode (b # remove1 b idle))"
proof -
  obtain h where h: "get_from_hash_table s i dev bno = Some (b, with_k s (with_heap (d_k s) h))"
      "list_rep h (idle_list s i) (map rnode (remove1 b idle))" "unlinked h (rnode b)"
      "same_outside (list_nodes (idle_list s i) (map rnode idle)) (k_heap (d_k s)) h"
    using hit_idle [OF assms(2-6)] by blast
  let ?s1 = "upd_buffer (with_k s (with_heap (d_k s) h)) b (\<lambda>b. b\<lparr>bf_count := bf_count b + 1\<rparr>)"
  have read: "bread e s dev bno sz = Some (b, ?s1)"
    using h(1) assms(1,4,9) by (simp add: bread_def getblk_def Let_def)
  have "distinct idle" using assms(5) by (auto simp: list_rep_def distinct_map)
  have "rnode b \<in> set (map rnode idle)" using assms(6) by simp
  note node = list_rep_mem [OF assms(5) this]
  have idle_nn: "rnode b \<notin> list_nodes (idle_list s i) (map rnode (remove1 b idle))" "rnode b \<noteq> NULL"
    using node \<open>distinct idle\<close> by (simp_all add: list_nodes_def)
  obtain h2 where h2: "list_push h (idle_list s i) (rnode b) = Some h2"
      "list_rep h2 (idle_list s i) (rnode b # map rnode (remove1 b idle))"
      "same_outside (insert (rnode b) (list_nodes (idle_list s i) (map rnode (remove1 b idle)))) h h2"
    using list_push_rep [OF h(2) idle_nn] by blast
  have "insert (rnode b) (list_nodes (idle_list s i) (map rnode (remove1 b idle))) \<subseteq> list_nodes (idle_list s i) (map rnode idle)"
    using assms(6) \<open>distinct idle\<close> by (auto simp: list_nodes_def)
  then have out: "same_outside (list_nodes (idle_list s i) (map rnode idle)) (k_heap (d_k s)) h2"
    using same_outside_trans [OF h(4) same_outside_mono [OF h2(3)]] by simp
  have wait: "list_rep h2 (wait_list s i) []"
    by (rule list_rep_frame [OF assms(7) out]) (use assms(8) in \<open>auto simp: list_nodes_def\<close>)
  let ?s2 = "with_k (upd_buffer ?s1 b (\<lambda>b. b\<lparr>bf_count := bf_count b - 1\<rparr>)) (with_heap (with_heap (d_k s) h) h2)"
  have "brelse e ?s1 b = Some (EOK, ?s2)"
    using assms(4,10-12) h(3) h2(1) list_empty_rep [OF wait]
    by (simp add: brelse_def bwrite_def Let_def on_heap_def unlinked_def)
  moreover have "buffers ?s2 = buffers s" by (simp add: fun_eq_iff)
  moreover have "holds (buffers ?s1) dev bno b"
    using assms(3) by (auto simp: holds_def find_Some_iff)
  ultimately show ?thesis
    using read h(2) h2(2) assms(11) by (intro exI [of _ ?s1] exI [of _ ?s2]) simp
qed

text \<open>One cached block: block 2 of device 1, in the chain with number 3.\<close>

definition sample_cache :: list_heap where
  "sample_cache = \<lparr>node_prev = (\<lambda>_. 0)(0x414 := 0x8068, 0x8070 := 0x414, 0x41c := 0x8018, 0x8020 := 0x41c, 0x8030 := 0x8028),
     node_next = (\<lambda>_. 0)(0x8068 := 0x414, 0x414 := 0x8070, 0x8018 := 0x41c, 0x41c := 0x8020, 0x8028 := 0x8030)\<rparr>"

definition sample_bsys :: bsys where
  "sample_bsys = \<lparr>d_ls = \<lparr>ls_k = with_heap (sample_kernel sample_kmem) sample_cache, mx_value = (\<lambda>_. False),
       lk_holder = (\<lambda>_. 0), lk_repeat = (\<lambda>_. 0), ls_pc = (\<lambda>_. Own)\<rparr>,
     devices = replicate 64 sample_device, d_base = 0x7000, requests = requests sample_dsys, d_mem = (\<lambda>_. 0),
     bdescs = [\<lparr>bd_count = 1, bd_size = 1024\<rparr>], b_base = 0x8000,
     buffers = (\<lambda>_. \<lparr>bf_data = 0x9000, bf_desc = 0, bf_dev = 1, bf_block = 2, bf_count = 0, bf_dirty = False, bf_valid = True\<rparr>)\<rparr>"

lemma sample_lists:
  "list_rep (k_heap (d_k sample_bsys)) (hash_table sample_bsys 0 (hash 1 2)) (map hnode [0x400])"
  "list_rep (k_heap (d_k sample_bsys)) (idle_list sample_bsys 0) (map rnode [0x400])"
  "list_rep (k_heap (d_k sample_bsys)) (wait_list sample_bsys 0) []"
  "{wait_list sample_bsys 0, wait_list sample_bsys 0 + 8} \<inter> list_nodes (idle_list sample_bsys 0) (map rnode [0x400]) = {}"
  by (simp_all add: sample_bsys_def with_heap_def sample_cache_def hash_table_def idle_list_def wait_list_def bd_addr_def
      hash_def HASH_COUNT_def hnode_def rnode_def list_rep_def list_nodes_def)

theorem bread_brelse_cached_witness:
  "\<forall>e. \<exists>s1. bread e sample_bsys 1 2 1024 = Some (0x400, s1) \<and> bf_count (buffers s1 0x400) = 1"
proof
  fix e
  have "desc_get sample_bsys 1024 = Some 0" "List.find (holds (buffers sample_bsys) 1 2) [0x400] = Some 0x400"
    "bf_valid (buffers sample_bsys 0x400)" "\<not> bf_dirty (buffers sample_bsys 0x400)" "bf_count (buffers sample_bsys 0x400) = 0"
    "bf_desc (buffers sample_bsys 0x400) = 0"
    by (simp_all add: sample_bsys_def desc_get_def holds_def)
  from bread_brelse_cached [OF this(1) sample_lists(1) this(2) _ sample_lists(2) _ sample_lists(3,4) this(3-6), of e]
  show "\<exists>s1. bread e sample_bsys 1 2 1024 = Some (0x400, s1) \<and> bf_count (buffers s1 0x400) = 1" by auto
qed

end
