(* ===== verification/Onix_Vfs.thy ===== *)
theory Onix_Vfs
  imports Onix_Buffer
begin

section \<open>Files, inodes and super blocks in memory (src/fs/file.c, inode.c, super.c)\<close>

text \<open>
  The three tables of the file system layer: 128 open files of 16 bytes, 64 inodes of 84 bytes and
  16 super blocks of 56 bytes with the list of their inodes at offset 28. Pointers are addresses, and
  the structures are maps from addresses.

  A file system is a table of functions, \<^verbatim>\<open>fs_op_t\<close>, that it registers at run time; a file system
  operation is reached through \<^verbatim>\<open>inode->op\<close>. \<open>fs_op e p\<close> is the table at the address \<open>p\<close>, and
  \<open>fs_dev e\<close> the environment of the block devices. \<open>fs_startup e\<close> is the time at which the system was
  started, and \<open>fs_local e\<close> the place of a local structure on the kernel stack.
\<close>

record inode_t =
  i_desc :: u32
  i_buf :: u32
  i_dev :: u32
  i_rdev :: u32
  i_nr :: u32
  i_count :: u32
  i_atime :: u32
  i_mtime :: u32
  i_ctime :: u32
  i_mount :: u32
  i_mode :: u16
  i_size :: u32
  i_type :: u32
  i_uid :: u32
  i_gid :: u32
  i_super :: u32
  i_op :: u32
  i_rxwaiter :: u32
  i_txwaiter :: u32

record super_t =
  s_desc :: u32
  s_buf :: u32
  s_dev :: u32
  s_count :: u32
  s_type :: u32
  s_sector_size :: u32
  s_block_size :: u32
  s_iroot :: u32
  s_imount :: u32

record file_t =
  fl_inode :: u32
  fl_count :: u32
  fl_offset :: u32
  fl_flags :: u32

record vfs = bsys +
  v_vm :: vm
  inode_table :: u32
  inodes :: "u32 \<Rightarrow> inode_t"
  super_table :: u32
  supers :: "u32 \<Rightarrow> super_t"
  root :: u32
  file_table :: u32
  files :: "u32 \<Rightarrow> file_t"
  fs_ops :: "u32 list"

text \<open>
  The functions of a file system. A result of type \<^verbatim>\<open>int\<close> comes first; \<^verbatim>\<open>open\<close> also stores an inode,
  \<^verbatim>\<open>namei\<close> the rest of the path and an inode. What such an output parameter holds before the call is
  an argument.
\<close>

record 'x fs_op_t =
  op_mkfs :: "'x vfs_scheme \<Rightarrow> u32 \<Rightarrow> u32 \<Rightarrow> (u32 \<times> 'x vfs_scheme) option"
  op_super :: "'x vfs_scheme \<Rightarrow> u32 \<Rightarrow> u32 \<Rightarrow> (u32 \<times> 'x vfs_scheme) option"
  op_open :: "'x vfs_scheme \<Rightarrow> u32 \<Rightarrow> u32 \<Rightarrow> u32 \<Rightarrow> u32 \<Rightarrow> u32 \<Rightarrow> (u32 \<times> u32 \<times> 'x vfs_scheme) option"
  op_close :: "'x vfs_scheme \<Rightarrow> u32 \<Rightarrow> 'x vfs_scheme option"
  op_ioctl :: "'x vfs_scheme \<Rightarrow> u32 \<Rightarrow> u32 \<Rightarrow> u32 \<Rightarrow> (u32 \<times> 'x vfs_scheme) option"
  op_read :: "'x vfs_scheme \<Rightarrow> u32 \<Rightarrow> u32 \<Rightarrow> u32 \<Rightarrow> u32 \<Rightarrow> (u32 \<times> 'x vfs_scheme) option"
  op_write :: "'x vfs_scheme \<Rightarrow> u32 \<Rightarrow> u32 \<Rightarrow> u32 \<Rightarrow> u32 \<Rightarrow> (u32 \<times> 'x vfs_scheme) option"
  op_truncate :: "'x vfs_scheme \<Rightarrow> u32 \<Rightarrow> (u32 \<times> 'x vfs_scheme) option"
  op_stat :: "'x vfs_scheme \<Rightarrow> u32 \<Rightarrow> u32 \<Rightarrow> (u32 \<times> 'x vfs_scheme) option"
  op_permission :: "'x vfs_scheme \<Rightarrow> u32 \<Rightarrow> u32 \<Rightarrow> (bool \<times> 'x vfs_scheme) option"
  op_namei :: "'x vfs_scheme \<Rightarrow> u32 \<Rightarrow> u32 \<Rightarrow> u32 \<Rightarrow> u32 \<Rightarrow> (u32 \<times> u32 \<times> u32 \<times> 'x vfs_scheme) option"
  op_mkdir :: "'x vfs_scheme \<Rightarrow> u32 \<Rightarrow> u32 \<Rightarrow> u32 \<Rightarrow> (u32 \<times> 'x vfs_scheme) option"
  op_rmdir :: "'x vfs_scheme \<Rightarrow> u32 \<Rightarrow> u32 \<Rightarrow> (u32 \<times> 'x vfs_scheme) option"
  op_link :: "'x vfs_scheme \<Rightarrow> u32 \<Rightarrow> u32 \<Rightarrow> u32 \<Rightarrow> u32 \<Rightarrow> (u32 \<times> 'x vfs_scheme) option"
  op_unlink :: "'x vfs_scheme \<Rightarrow> u32 \<Rightarrow> u32 \<Rightarrow> (u32 \<times> 'x vfs_scheme) option"
  op_mknod :: "'x vfs_scheme \<Rightarrow> u32 \<Rightarrow> u32 \<Rightarrow> u32 \<Rightarrow> u32 \<Rightarrow> (u32 \<times> 'x vfs_scheme) option"
  op_readdir :: "'x vfs_scheme \<Rightarrow> u32 \<Rightarrow> u32 \<Rightarrow> u32 \<Rightarrow> u32 \<Rightarrow> (u32 \<times> 'x vfs_scheme) option"

record 'x fsenv =
  fs_op :: "u32 \<Rightarrow> 'x fs_op_t"
  fs_dev :: "('x vfs_ext bsys_ext) denv"
  fs_startup :: u32
  fs_local :: u32

definition FILE_NR :: nat where "FILE_NR = 128"
definition INODE_NR :: nat where "INODE_NR = 64"
definition SUPER_NR :: nat where "SUPER_NR = 16"
definition FS_TYPE_NONE :: u32 where "FS_TYPE_NONE = 0"
definition FS_TYPE_NUM :: u32 where "FS_TYPE_NUM = 5"

definition inode_at :: "'x vfs_scheme \<Rightarrow> nat \<Rightarrow> u32" where "inode_at s i = inode_table s + 84 * of_nat i"
definition super_at :: "'x vfs_scheme \<Rightarrow> nat \<Rightarrow> u32" where "super_at s i = super_table s + 56 * of_nat i"
definition file_at :: "'x vfs_scheme \<Rightarrow> nat \<Rightarrow> u32" where "file_at s i = file_table s + 16 * of_nat i"
definition inode_list :: "u32 \<Rightarrow> u32" where "inode_list super = super + 28"

definition upd_inode :: "'x vfs_scheme \<Rightarrow> u32 \<Rightarrow> (inode_t \<Rightarrow> inode_t) \<Rightarrow> 'x vfs_scheme" where
  "upd_inode s p f = s\<lparr>inodes := (inodes s)(p := f (inodes s p))\<rparr>"

definition upd_super :: "'x vfs_scheme \<Rightarrow> u32 \<Rightarrow> (super_t \<Rightarrow> super_t) \<Rightarrow> 'x vfs_scheme" where
  "upd_super s p f = s\<lparr>supers := (supers s)(p := f (supers s p))\<rparr>"

definition upd_file :: "'x vfs_scheme \<Rightarrow> u32 \<Rightarrow> (file_t \<Rightarrow> file_t) \<Rightarrow> 'x vfs_scheme" where
  "upd_file s p f = s\<lparr>files := (files s)(p := f (files s p))\<rparr>"

text \<open>The running task, read and written.\<close>

definition me :: "'x dsys_scheme \<Rightarrow> task_t" where
  "me s = k_tasks (d_k s) (running_task (d_k s))"

definition upd_me :: "'x dsys_scheme \<Rightarrow> (task_t \<Rightarrow> task_t) \<Rightarrow> 'x dsys_scheme" where
  "upd_me s f = with_k s (upd_task (d_k s) (running_task (d_k s)) f)"

text \<open>
  The page tables as the memory code sees them now: the pool of pages is the one the kernel heap
  draws from, and the directory the one of the last switch.
\<close>

definition vm_now :: "'x vfs_scheme \<Rightarrow> vm" where
  "vm_now s = (v_vm s)\<lparr>pool := km_pool (k_mem (d_k s)), cr3 := k_cr3 (d_k s)\<rparr>"

text \<open>\<^verbatim>\<open>inode->op\<close>, which must not be NULL to be called through.\<close>

definition op_of :: "'x fsenv \<Rightarrow> 'x vfs_scheme \<Rightarrow> u32 \<Rightarrow> 'x fs_op_t option" where
  "op_of e s inode = do { kassert (inode \<noteq> NULL); kassert (i_op (inodes s inode) \<noteq> NULL); Some (fs_op e (i_op (inodes s inode))) }"

subsection \<open>Inodes\<close>

definition inode_clear :: "inode_t \<Rightarrow> bool" where
  "inode_clear i \<longleftrightarrow> i_buf i = NULL \<and> i_desc i = NULL \<and> i_super i = NULL \<and> i_op i = NULL \<and> i_rxwaiter i = NULL \<and> i_txwaiter i = NULL"

fun free_inode_loop :: "'x vfs_scheme \<Rightarrow> nat \<Rightarrow> nat \<Rightarrow> u32 option" where
  "free_inode_loop s 0 i = None"
| "free_inode_loop s (Suc n) i =
     (if i_type (inodes s (inode_at s i)) = FS_TYPE_NONE
      then do { kassert (inode_clear (inodes s (inode_at s i))); Some (inode_at s i) }
      else free_inode_loop s n (Suc i))"

definition get_free_inode :: "'x vfs_scheme \<Rightarrow> u32 option" where
  "get_free_inode s = free_inode_loop s INODE_NR 0"

definition put_free_inode :: "'x vfs_scheme \<Rightarrow> u32 \<Rightarrow> 'x vfs_scheme option" where
  "put_free_inode s inode = do {
     kassert (inode \<noteq> inode_table s);
     kassert (i_count (inodes s inode) = 0);
     let s = upd_inode s inode (\<lambda>i. i\<lparr>i_type := FS_TYPE_NONE\<rparr>);
     kassert (inode_clear (inodes s inode));
     Some s
   }"

definition get_root_inode :: "'x vfs_scheme \<Rightarrow> u32" where
  "get_root_inode s = inode_table s"

definition iput :: "'x fsenv \<Rightarrow> 'x vfs_scheme \<Rightarrow> u32 \<Rightarrow> 'x vfs_scheme option" where
  "iput e s inode =
     (if inode = NULL then Some s
      else do { ops \<leftarrow> op_of e s inode; op_close ops s inode })"

fun super_loop :: "'x vfs_scheme \<Rightarrow> u32 \<Rightarrow> nat \<Rightarrow> nat \<Rightarrow> u32" where
  "super_loop s dev 0 i = NULL"
| "super_loop s dev (Suc n) i =
     (if s_type (supers s (super_at s i)) = FS_TYPE_NONE then super_loop s dev n (Suc i)
      else if s_dev (supers s (super_at s i)) = dev then super_at s i
      else super_loop s dev n (Suc i))"

definition get_super :: "'x vfs_scheme \<Rightarrow> u32 \<Rightarrow> u32" where
  "get_super s dev = super_loop s dev SUPER_NR 0"

partial_function (option) find_inode_loop :: "list_heap \<Rightarrow> (u32 \<Rightarrow> inode_t) \<Rightarrow> u32 \<Rightarrow> u32 \<Rightarrow> u32 \<Rightarrow> u32 option" where
  "find_inode_loop h is tail nr node =
     (if node = tail then Some NULL
      else if i_nr (is node) = nr then Some node
      else do { n \<leftarrow> get_next h node; find_inode_loop h is tail nr n })"

declare find_inode_loop.simps [code]

definition find_inode :: "'x vfs_scheme \<Rightarrow> u32 \<Rightarrow> u32 \<Rightarrow> u32 option" where
  "find_inode s dev nr = do {
     let super = get_super s dev;
     kassert (super \<noteq> NULL);
     let l = inode_list super;
     node \<leftarrow> get_next (k_heap (d_k s)) (list_head l);
     find_inode_loop (k_heap (d_k s)) (inodes s) (list_tail l) nr node
   }"

definition fit_inode :: "'x fsenv \<Rightarrow> 'x vfs_scheme \<Rightarrow> u32 \<Rightarrow> (u32 \<times> 'x vfs_scheme) option" where
  "fit_inode e s inode =
     (if i_mount (inodes s inode) = 0 then Some (inode, s)
      else do {
        let super = get_super s (i_mount (inodes s inode));
        kassert (super \<noteq> NULL);
        s \<leftarrow> iput e s inode;
        let inode = s_iroot (supers s super);
        kassert (inode \<noteq> NULL);
        Some (inode, upd_inode s inode (\<lambda>i. i\<lparr>i_count := i_count i + 1\<rparr>))
      })"

definition zero_inode :: inode_t where
  "zero_inode = \<lparr>i_desc = 0, i_buf = 0, i_dev = 0, i_rdev = 0, i_nr = 0, i_count = 0, i_atime = 0, i_mtime = 0,
     i_ctime = 0, i_mount = 0, i_mode = 0, i_size = 0, i_type = 0, i_uid = 0, i_gid = 0, i_super = 0, i_op = 0,
     i_rxwaiter = 0, i_txwaiter = 0\<rparr>"

fun inode_init_loop :: "nat \<Rightarrow> nat \<Rightarrow> 'x vfs_scheme \<Rightarrow> 'x vfs_scheme" where
  "inode_init_loop 0 i s = s"
| "inode_init_loop (Suc n) i s =
     inode_init_loop n (Suc i) (upd_inode s (inode_at s i) (\<lambda>_. zero_inode\<lparr>i_dev := EOF, i_type := FS_TYPE_NONE\<rparr>))"

text \<open>The list nodes of the table are cleared by the \<^verbatim>\<open>memset\<close>.\<close>

definition inode_init :: "'x vfs_scheme \<Rightarrow> 'x vfs_scheme" where
  "inode_init s =
     inode_init_loop INODE_NR 0
       (with_k s (with_heap (d_k s) (clear_nodes (k_heap (d_k s)) (inode_table s) (84 * of_nat INODE_NR))))"

subsection \<open>Super blocks\<close>

fun free_super_loop :: "'x vfs_scheme \<Rightarrow> nat \<Rightarrow> nat \<Rightarrow> u32 option" where
  "free_super_loop s 0 i = None"
| "free_super_loop s (Suc n) i =
     (if s_type (supers s (super_at s i)) = FS_TYPE_NONE
      then do { kassert (s_count (supers s (super_at s i)) = 0); Some (super_at s i) }
      else free_super_loop s n (Suc i))"

definition get_free_super :: "'x vfs_scheme \<Rightarrow> u32 option" where
  "get_free_super s = free_super_loop s SUPER_NR 0"

definition put_super :: "'x fsenv \<Rightarrow> 'x vfs_scheme \<Rightarrow> u32 \<Rightarrow> 'x vfs_scheme option" where
  "put_super e s super =
     (if super = NULL then Some s
      else do {
        kassert (s_count (supers s super) > 0);
        let s = upd_super s super (\<lambda>p. p\<lparr>s_count := s_count p - 1\<rparr>);
        if s_count (supers s super) \<noteq> 0 then Some s
        else do {
          let s = upd_super s super (\<lambda>p. p\<lparr>s_type := FS_TYPE_NONE\<rparr>);
          s \<leftarrow> iput e s (s_imount (supers s super));
          s \<leftarrow> iput e s (s_iroot (supers s super));
          (_, s) \<leftarrow> brelse (fs_dev e) s (s_buf (supers s super));
          Some s
        }
      })"

text \<open>The table of file systems; an index outside it stops the kernel.\<close>

definition fs_get_op :: "'x vfs_scheme \<Rightarrow> u32 \<Rightarrow> u32 option" where
  "fs_get_op s type = do {
     kassert (0 < sint type \<and> sint type < sint FS_TYPE_NUM);
     kassert (unat type < length (fs_ops s));
     Some (fs_ops s ! unat type)
   }"

definition fs_register_op :: "'x vfs_scheme \<Rightarrow> u32 \<Rightarrow> u32 \<Rightarrow> 'x vfs_scheme option" where
  "fs_register_op s type ops = do {
     kassert (0 < sint type \<and> sint type < sint FS_TYPE_NUM);
     kassert (unat type < length (fs_ops s));
     Some (s\<lparr>fs_ops := (fs_ops s)[unat type := ops]\<rparr>)
   }"

definition fs_default_nosys :: u32 where "fs_default_nosys = - ENOSYS"
definition fs_default_null :: u32 where "fs_default_null = NULL"

fun read_super_loop :: "nat \<Rightarrow> u32 \<Rightarrow> 'x fsenv \<Rightarrow> 'x vfs_scheme \<Rightarrow> u32 \<Rightarrow> u32 \<Rightarrow> (bool \<times> 'x vfs_scheme) option" where
  "read_super_loop 0 i e s dev super = Some (False, s)"
| "read_super_loop (Suc n) i e s dev super = do {
     ops \<leftarrow> fs_get_op s i;
     if ops = NULL then read_super_loop n (i + 1) e s dev super
     else do {
       (ret, s) \<leftarrow> op_super (fs_op e ops) s dev super;
       if ret = EOK then Some (True, s) else read_super_loop n (i + 1) e s dev super
     }
   }"

definition read_super :: "'x fsenv \<Rightarrow> 'x vfs_scheme \<Rightarrow> u32 \<Rightarrow> (u32 \<times> 'x vfs_scheme) option" where
  "read_super e s dev = do {
     let super = get_super s dev;
     if super \<noteq> NULL then Some (super, upd_super s super (\<lambda>p. p\<lparr>s_count := s_count p + 1\<rparr>))
     else do {
       super \<leftarrow> get_free_super s;
       let s = upd_super s super (\<lambda>p. p\<lparr>s_count := s_count p + 1\<rparr>);
       (found, s) \<leftarrow> read_super_loop (unat FS_TYPE_NUM - 1) 1 e s dev super;
       if found then Some (super, s)
       else do { s \<leftarrow> put_super e s super; Some (NULL, s) }
     }
   }"

definition mount_root :: "'x fsenv \<Rightarrow> 'x vfs_scheme \<Rightarrow> 'x vfs_scheme option" where
  "mount_root e s = do {
     device \<leftarrow> (case device_find s DEV_IDE_PART 0 of Some d \<Rightarrow> Some d | None \<Rightarrow> device_find s DEV_IDE_CD 0);
     let dev = dv_dev (devices s ! device);
     (super, s) \<leftarrow> read_super e s dev;
     let s = s\<lparr>root := super\<rparr>;
     kassert (super \<noteq> NULL);
     let s = upd_super s super (\<lambda>p. p\<lparr>s_imount := s_iroot p\<rparr>);
     kassert (s_imount (supers s super) \<noteq> NULL);
     let s = upd_inode s (s_imount (supers s super)) (\<lambda>i. i\<lparr>i_count := i_count i + 1\<rparr>);
     Some (upd_inode s (s_iroot (supers s super)) (\<lambda>i. i\<lparr>i_mount := dev\<rparr>))
   }"

fun super_init_loop :: "nat \<Rightarrow> nat \<Rightarrow> 'x vfs_scheme \<Rightarrow> 'x vfs_scheme option" where
  "super_init_loop 0 i s = Some s"
| "super_init_loop (Suc n) i s = do {
     let p = super_at s i;
     let s = upd_super s p (\<lambda>p. p\<lparr>s_dev := EOF, s_type := FS_TYPE_NONE, s_desc := NULL, s_buf := NULL,
               s_iroot := NULL, s_imount := NULL, s_block_size := 0, s_sector_size := 0\<rparr>);
     s \<leftarrow> on_heap s (\<lambda>h. list_init h (inode_list p));
     super_init_loop n (Suc i) s
   }"

definition super_init :: "'x fsenv \<Rightarrow> 'x vfs_scheme \<Rightarrow> 'x vfs_scheme option" where
  "super_init e s = do { s \<leftarrow> super_init_loop SUPER_NR 0 s; mount_root e s }"

subsection \<open>Open files\<close>

fun get_file_loop :: "'x vfs_scheme \<Rightarrow> nat \<Rightarrow> nat \<Rightarrow> (u32 \<times> 'x vfs_scheme) option" where
  "get_file_loop s 0 i = None"
| "get_file_loop s (Suc n) i =
     (if fl_count (files s (file_at s i)) = 0
      then Some (file_at s i, upd_file s (file_at s i) (\<lambda>f. f\<lparr>fl_count := fl_count f + 1\<rparr>))
      else get_file_loop s n (Suc i))"

definition get_file :: "'x vfs_scheme \<Rightarrow> (u32 \<times> 'x vfs_scheme) option" where
  "get_file s = get_file_loop s (FILE_NR - 3) 3"

definition put_file :: "'x fsenv \<Rightarrow> 'x vfs_scheme \<Rightarrow> u32 \<Rightarrow> 'x vfs_scheme option" where
  "put_file e s file = do {
     kassert (fl_count (files s file) > 0);
     let s = upd_file s file (\<lambda>f. f\<lparr>fl_count := fl_count f - 1\<rparr>);
     if fl_count (files s file) = 0 then iput e s (fl_inode (files s file)) else Some s
   }"

text \<open>
  \<^verbatim>\<open>fd_t\<close> is signed: \<^verbatim>\<open>fd_check\<close> tests the upper end only, and a negative descriptor reads a word in
  front of \<^verbatim>\<open>task->files\<close>, which the model does not give a value.
\<close>

definition fd_check :: "'x vfs_scheme \<Rightarrow> u32 \<Rightarrow> (u32 \<times> u32) option" where
  "fd_check s fd =
     (if sint fd \<ge> int TASK_FILE_NR then Some (- EINVAL, NULL)
      else do {
        kassert (0 \<le> sint fd \<and> unat fd < length (t_files (me s)));
        let file = t_files (me s) ! unat fd;
        if file = NULL then Some (- EINVAL, NULL) else Some (EOK, file)
      })"

fun fd_get_loop :: "u32 list \<Rightarrow> nat \<Rightarrow> nat" where
  "fd_get_loop [] fd = fd"
| "fd_get_loop (f # fs) fd = (if f = NULL then fd else fd_get_loop fs (Suc fd))"

definition fd_get :: "'x vfs_scheme \<Rightarrow> (u32 \<times> u32 \<times> 'x vfs_scheme) option" where
  "fd_get s = do {
     let fd = fd_get_loop (drop 3 (t_files (me s))) 3;
     if fd = TASK_FILE_NR then Some (- EMFILE, NULL, s)
     else do {
       (f, s) \<leftarrow> get_file s;
       kassert (t_files (me s) ! fd = NULL);
       let s = upd_me s (\<lambda>t. t\<lparr>t_files := (t_files t)[fd := f]\<rparr>);
       Some (of_nat fd, f, s)
     }
   }"

definition fd_put :: "'x fsenv \<Rightarrow> 'x vfs_scheme \<Rightarrow> u32 \<Rightarrow> (u32 \<times> 'x vfs_scheme) option" where
  "fd_put e s fd = do {
     (ret, file) \<leftarrow> fd_check s fd;
     if sint ret < sint EOK then Some (ret, s)
     else do {
       kassert (fl_inode (files s file) \<noteq> NULL);
       let s = upd_me s (\<lambda>t. t\<lparr>t_files := (t_files t)[unat fd := NULL]\<rparr>);
       s \<leftarrow> put_file e s file;
       Some (EOK, s)
     }
   }"

fun file_init_loop :: "nat \<Rightarrow> nat \<Rightarrow> 'x vfs_scheme \<Rightarrow> 'x vfs_scheme" where
  "file_init_loop 0 i s = s"
| "file_init_loop (Suc n) i s =
     file_init_loop n (Suc i) (upd_file s (file_at s i) (\<lambda>f. f\<lparr>fl_count := 0, fl_flags := 0, fl_offset := 0, fl_inode := NULL\<rparr>))"

definition file_init :: "'x vfs_scheme \<Rightarrow> 'x vfs_scheme" where
  "file_init s = file_init_loop (FILE_NR - 3) 3 s"

subsection \<open>Projections\<close>

lemma upd_file_proj [simp]:
  "d_ls (upd_file s p f) = d_ls s" "me (upd_file s p f) = me s" "inodes (upd_file s p f) = inodes s"
  "supers (upd_file s p f) = supers s" "files (upd_file s p f) = (files s)(p := f (files s p))"
  "file_at (upd_file s p f) i = file_at s i" "file_table (upd_file s p f) = file_table s"
  by (simp_all add: upd_file_def me_def file_at_def)

lemma upd_me_proj [simp]:
  "me (upd_me s f) = f (me s)" "running_task (d_k (upd_me s f)) = running_task (d_k s)"
  "inodes (upd_me v f) = inodes v" "supers (upd_me v f) = supers v" "files (upd_me v f) = files v" "v_vm (upd_me v f) = v_vm v"
  "inode_table (upd_me v f) = inode_table v" "d_mem (upd_me s f) = d_mem s" "fs_ops (upd_me v f) = fs_ops v"
  by (simp_all add: me_def upd_me_def with_k_def)

lemma upd_me_upd_me: "upd_me (upd_me s f) g = upd_me s (\<lambda>t. g (f t))"
  by (simp add: upd_me_def upd_task_upd_task with_k_def)

lemma upd_me_same: "f (me s) = me s \<Longrightarrow> upd_me s f = s"
  by (simp add: upd_me_def me_def upd_task_id with_k_def)

lemma upd_file_upd_file: "upd_file (upd_file s p f) p g = upd_file s p (\<lambda>x. g (f x))"
  by (simp add: upd_file_def)

lemma upd_file_upd_me: "upd_file (upd_me s f) p g = upd_me (upd_file s p g) f"
  by (simp add: upd_file_def upd_me_def with_k_def)

subsection \<open>Descriptors\<close>

lemma fd_get_loop_spec:
  "fd \<le> fd_get_loop fs fd \<and> fd_get_loop fs fd \<le> fd + length fs \<and>
   (fd_get_loop fs fd < fd + length fs \<longrightarrow> fs ! (fd_get_loop fs fd - fd) = NULL) \<and>
   (\<forall>j < fd_get_loop fs fd - fd. fs ! j \<noteq> NULL)"
proof (induction fs arbitrary: fd)
  case (Cons f fs)
  note IH = Cons.IH [of "Suc fd"]
  let ?r = "fd_get_loop fs (Suc fd)"
  show ?case
  proof (cases "f = NULL")
    case False
    then have r: "fd_get_loop (f # fs) fd = ?r" "?r - fd = Suc (?r - Suc fd)" using IH by auto
    have "(f # fs) ! j \<noteq> NULL" if "j < ?r - fd" for j
      using that IH False r(2) by (cases j) auto
    then show ?thesis using IH r by (simp add: nth_Cons')
  qed simp
qed simp

lemma get_file_loop_spec:
  "get_file_loop s n i = Some (f, s1) \<Longrightarrow> fl_count (files s f) = 0 \<and> s1 = upd_file s f (\<lambda>x. x\<lparr>fl_count := 1\<rparr>)"
  by (induction n arbitrary: i) (auto simp: upd_file_def split: if_splits)

text \<open>
  \<^verbatim>\<open>fd_get\<close> hands out the lowest free descriptor from 3 and a file of the table that was not in
  use. When the file then gets an inode, closing the descriptor with \<^verbatim>\<open>fd_put\<close> frees both again and
  releases the inode, and changes nothing else.
\<close>

theorem fd_get_put:
  assumes "length (t_files (me s)) = TASK_FILE_NR" and "fd_get s = Some (fd, f, s1)" and "f \<noteq> NULL" and "ino \<noteq> NULL"
  shows "3 \<le> unat fd \<and> unat fd < TASK_FILE_NR \<and> t_files (me s) ! unat fd = NULL \<and>
    (\<forall>j. 3 \<le> j \<and> j < unat fd \<longrightarrow> t_files (me s) ! j \<noteq> NULL) \<and> fl_count (files s f) = 0 \<and>
    t_files (me s1) = (t_files (me s))[unat fd := f] \<and>
    fd_put e (upd_file s1 f (\<lambda>x. x\<lparr>fl_inode := ino, fl_count := 1\<rparr>)) fd =
      do { s2 \<leftarrow> iput e (upd_file s f (\<lambda>x. x\<lparr>fl_inode := ino, fl_count := 0\<rparr>)) ino; Some (EOK, s2) }"
proof -
  let ?fs = "drop 3 (t_files (me s))"
  define n where "n = fd_get_loop ?fs 3"
  have "length ?fs = TASK_FILE_NR - 3" "3 < TASK_FILE_NR" using assms(1) by (simp_all add: TASK_FILE_NR_def)
  then have spec: "3 \<le> n" "n \<le> TASK_FILE_NR" "n < TASK_FILE_NR \<Longrightarrow> ?fs ! (n - 3) = NULL" "\<forall>j < n - 3. ?fs ! j \<noteq> NULL"
    using fd_get_loop_spec [of 3 ?fs, folded n_def] by (auto simp del: nth_drop)
  have n: "n \<noteq> TASK_FILE_NR" using assms(2,3) by (auto simp: fd_get_def Let_def n_def)
  then obtain s0 where g: "get_file s = Some (f, s0)" and fd: "fd = of_nat n"
      and s1: "s1 = upd_me s0 (\<lambda>t. t\<lparr>t_files := (t_files t)[n := f]\<rparr>)"
    using assms(2) by (auto simp: fd_get_def Let_def n_def halt_simps)
  have s0: "s0 = upd_file s f (\<lambda>x. x\<lparr>fl_count := 1\<rparr>)" "fl_count (files s f) = 0"
    using get_file_loop_spec [of s "FILE_NR - 3" 3] g by (auto simp: get_file_def)
  have u: "unat fd = n" using fd n spec(2) by (simp add: unat_of_nat_small TASK_FILE_NR_def)
  have lt: "n < TASK_FILE_NR" using n spec(2) by simp
  have null: "t_files (me s) ! n = NULL" using spec(1,3) lt assms(1) by (simp add: add.commute)
  have before: "t_files (me s) ! j \<noteq> NULL" if "3 \<le> j" "j < n" for j
    using spec(4) [rule_format, of "j - 3"] that assms(1) lt by simp
  have sfd: "sint fd = int n" using sint_small [of fd] u lt by (simp add: TASK_FILE_NR_def)
  let ?s = "upd_file s1 f (\<lambda>x. x\<lparr>fl_inode := ino, fl_count := 1\<rparr>)"
  have files: "t_files (me s1) = (t_files (me s))[n := f]" using s1 s0 by simp
  have chk: "fd_check ?s fd = Some (EOK, f)"
    using sfd u lt assms(1,3) files by (simp add: fd_check_def Let_def)
  have keep: "(t_files (me s))[n := NULL] = t_files (me s)" using null list_update_id [of "t_files (me s)" n] by simp
  have undo: "upd_me s1 (\<lambda>t. t\<lparr>t_files := (t_files t)[n := NULL]\<rparr>) = s0"
    unfolding s1 upd_me_upd_me by (rule upd_me_same) (use keep s0 in simp)
  have "upd_me ?s (\<lambda>t. t\<lparr>t_files := (t_files t)[unat fd := NULL]\<rparr>) = upd_file s0 f (\<lambda>x. x\<lparr>fl_inode := ino, fl_count := 1\<rparr>)"
    using undo by (simp add: u upd_file_upd_me [symmetric])
  then have "fd_put e ?s fd = do { s2 \<leftarrow> iput e (upd_file s f (\<lambda>x. x\<lparr>fl_inode := ino, fl_count := 0\<rparr>)) ino; Some (EOK, s2) }"
    using assms(4) by (simp add: fd_put_def chk Let_def put_file_def s0 upd_file_upd_file EOK_def)
  then show ?thesis using spec(1) lt null before s0 files u by auto
qed

end
