(* ===== verification/Onix_Namei.thy ===== *)
theory Onix_Namei
  imports Onix_Vfs
begin

section \<open>Path names (src/fs/namei.c, and abspath of src/fs/fsyscall.c)\<close>

text \<open>
  Path names are zero-terminated strings in the byte memory and are walked by pointers. The second
  string of a comparison is given by its bytes from the start, so that it can be a literal.
\<close>

definition IFMT :: u16 where "IFMT = 0xf000"
definition IFBLK :: u16 where "IFBLK = 0x6000"
definition IFDIR :: u16 where "IFDIR = 0x4000"
definition ISDIR :: "u16 \<Rightarrow> bool" where "ISDIR m \<longleftrightarrow> m AND IFMT = IFDIR"
definition ISBLK :: "u16 \<Rightarrow> bool" where "ISBLK m \<longleftrightarrow> m AND IFMT = IFBLK"
definition P_EXEC :: u32 where "P_EXEC = 1"
definition P_WRITE :: u32 where "P_WRITE = 2"

fun literal :: "u8 list \<Rightarrow> nat \<Rightarrow> u8" where
  "literal [] i = 0"
| "literal (b # bs) i = (case i of 0 \<Rightarrow> b | Suc j \<Rightarrow> literal bs j)"

definition dotdot :: "nat \<Rightarrow> u8" where "dotdot = literal [46, 46]"

text \<open>The loop: where it stops in the name and in the entry, and the cnt, which is decremented last.\<close>

fun match_loop :: "mem \<Rightarrow> u32 \<Rightarrow> (nat \<Rightarrow> u8) \<Rightarrow> nat \<Rightarrow> nat \<Rightarrow> u32 \<times> nat \<times> int" where
  "match_loop m lhs entry rhs cnt =
     (if m lhs = entry rhs \<and> m lhs \<noteq> 0 \<and> entry rhs \<noteq> 0
      then (case cnt of 0 \<Rightarrow> (lhs, rhs, - 1) | Suc c \<Rightarrow> match_loop m (lhs + 1) entry (Suc rhs) c)
      else (lhs, rhs, int cnt))"

declare match_loop.simps [simp del]

text \<open>\<open>None\<close> is false; \<open>Some next\<close> is true with the value stored in \<^verbatim>\<open>*next\<close>.\<close>

definition match_name :: "mem \<Rightarrow> u32 \<Rightarrow> (nat \<Rightarrow> u8) \<Rightarrow> nat \<Rightarrow> u32 option" where
  "match_name m name entry cnt =
     (case match_loop m name entry 0 cnt of (lhs, rhs, c) \<Rightarrow>
        if entry rhs \<noteq> 0 \<and> c \<noteq> 0 then None
        else if m lhs \<noteq> 0 \<and> \<not> IS_SEPARATOR (m lhs) then None
        else Some (if IS_SEPARATOR (m lhs) then lhs + 1 else lhs))"

definition upd_count :: "'x vfs_scheme \<Rightarrow> u32 \<Rightarrow> 'x vfs_scheme" where
  "upd_count s inode = upd_inode s inode (\<lambda>i. i\<lparr>i_count := i_count i + 1\<rparr>)"

text \<open>
  Going up from the root of a mounted file system: the directory becomes the one it is mounted on.
  The second result is what \<open>inode\<close> holds afterwards.
\<close>

definition leave_mount :: "'x fsenv \<Rightarrow> 'x vfs_scheme \<Rightarrow> u32 \<Rightarrow> bool \<Rightarrow> u32 \<Rightarrow> (u32 \<times> u32 \<times> 'x vfs_scheme) option" where
  "leave_mount e s dir_ino up inode =
     (if up \<and> dir_ino = s_iroot (supers s (i_super (inodes s dir_ino))) then do {
        let inode = s_imount (supers s (i_super (inodes s dir_ino)));
        kassert (inode \<noteq> NULL);
        let s = upd_count s inode;
        s \<leftarrow> iput e s dir_ino;
        Some (inode, inode, s)
      }
      else Some (dir_ino, inode, s))"

partial_function (option) named_loop ::
  "'x fsenv \<Rightarrow> 'x vfs_scheme \<Rightarrow> u32 \<Rightarrow> u32 \<Rightarrow> u32 \<Rightarrow> u32 \<Rightarrow> u32 \<Rightarrow> (u32 \<times> u32 \<times> 'x vfs_scheme) option" where
  "named_loop e s dir_ino name nxt right inode = do {
     let up = match_name (d_mem s) name dotdot 3;
     let nxt = (case up of None \<Rightarrow> nxt | Some n \<Rightarrow> n);
     (dir_ino, inode, s) \<leftarrow> leave_mount e s dir_ino (up \<noteq> None) inode;
     ops \<leftarrow> op_of e s dir_ino;
     (ret, nxt, inode, s) \<leftarrow> op_namei ops s dir_ino name nxt inode;
     if sint ret < sint EOK then do { s \<leftarrow> iput e s dir_ino; Some (NULL, nxt, s) }
     else do {
       s \<leftarrow> iput e s dir_ino;
       let dir_ino = inode;
       kassert (dir_ino \<noteq> NULL);
       (ok, s) \<leftarrow> (if \<not> ISDIR (i_mode (inodes s dir_ino)) then Some (False, s)
                   else do { ops \<leftarrow> op_of e s dir_ino; op_permission ops s dir_ino P_EXEC });
       if \<not> ok then do { s \<leftarrow> iput e s dir_ino; Some (NULL, nxt, s) }
       else if right = nxt then Some (dir_ino, nxt, s)
       else named_loop e s dir_ino nxt nxt right inode
     }
   }"

definition named :: "'x fsenv \<Rightarrow> 'x vfs_scheme \<Rightarrow> u32 \<Rightarrow> u32 \<Rightarrow> (u32 \<times> u32 \<times> 'x vfs_scheme) option" where
  "named e s pathname nxt =
     (let m = d_mem s; task = me s in
      if \<not> IS_SEPARATOR (m pathname) \<and> m pathname = 0 then Some (NULL, nxt, s)
      else do {
        let (dir_ino, name) = (if IS_SEPARATOR (m pathname) then (t_iroot task, pathname + 1) else (t_ipwd task, pathname));
        kassert (dir_ino \<noteq> NULL);
        kassert (sint (i_dev (inodes s dir_ino)) > 0);
        let s = upd_count s dir_ino;
        if m name = 0 then Some (dir_ino, name, s)
        else do {
          right \<leftarrow> strrsep m name;
          if right = NULL \<or> right < name then Some (dir_ino, name, s)
          else named_loop e s dir_ino name name (right + 1) NULL
        }
      })"

definition namei :: "'x fsenv \<Rightarrow> 'x vfs_scheme \<Rightarrow> u32 \<Rightarrow> (u32 \<times> 'x vfs_scheme) option" where
  "namei e s pathname = do {
     (dir_ino, nxt, s) \<leftarrow> named e s pathname NULL;
     if dir_ino = NULL then Some (NULL, s)
     else if d_mem s nxt = 0 then Some (dir_ino, s)
     else do {
       let name = nxt;
       let up = match_name (d_mem s) name dotdot 3;
       let nxt = (case up of None \<Rightarrow> nxt | Some n \<Rightarrow> n);
       (dir_ino, inode, s) \<leftarrow> leave_mount e s dir_ino (up \<noteq> None) NULL;
       ops \<leftarrow> op_of e s dir_ino;
       (ret, nxt, inode, s) \<leftarrow> op_namei ops s dir_ino name nxt inode;
       s \<leftarrow> iput e s dir_ino;
       Some (inode, s)
     }
   }"

subsection \<open>The working directory\<close>

definition bytes_at :: "mem \<Rightarrow> u32 \<Rightarrow> nat \<Rightarrow> u8 list" where
  "bytes_at m p n = map (\<lambda>i. m (p + of_nat i)) [0..<n]"

text \<open>One component back: the last separator is cut off and the end is set behind the one before.\<close>

definition cut_last :: "mem \<Rightarrow> u32 \<Rightarrow> u32 \<Rightarrow> (mem \<times> u32) option" where
  "cut_last m pwd cp =
     (if cp - 1 \<noteq> pwd then do {
        let m = m(cp - 1 := 0);
        r \<leftarrow> strrsep m pwd;
        let cp = r + 1;
        Some (m(cp := 0), cp)
      }
      else Some (m, cp))"

partial_function (option) abspath_loop :: "mem \<Rightarrow> u32 \<Rightarrow> u32 \<Rightarrow> u32 \<Rightarrow> (mem \<times> u32 \<times> u32) option" where
  "abspath_loop m pwd cp pathname =
     (if m pathname = 0 then Some (m, cp, pathname)
      else do {
        ptr \<leftarrow> strsep m pathname;
        if ptr = NULL then Some (m, cp, pathname)
        else do {
          let len = ptr - pathname + 1;
          let m = m(ptr := 47);
          (m, cp) \<leftarrow> (if bytes_at m pathname 2 = [46, 47] then Some (m, cp)
            else if bytes_at m pathname 3 = [46, 46, 47] then cut_last m pwd cp
            else Some (snd (strncpy m cp pathname (len + 1)), cp + len));
          abspath_loop m pwd cp (pathname + len)
        }
      })"

declare abspath_loop.simps [code]

definition abspath :: "mem \<Rightarrow> u32 \<Rightarrow> u32 \<Rightarrow> mem option" where
  "abspath m pwd pathname = do {
     (m, cp, pathname) \<leftarrow> (if IS_SEPARATOR (m pathname) then Some (m(pwd + 1 := 0), pwd + 1, pathname + 1)
       else do { r \<leftarrow> strrsep m pwd; Some (m(r + 1 := 0), r + 1, pathname) });
     (m, cp, pathname) \<leftarrow> abspath_loop m pwd cp pathname;
     if m pathname = 0 then Some m
     else if bytes_at m pathname 2 = [46, 0] then Some m
     else if bytes_at m pathname 3 \<noteq> [46, 46, 0] then do {
       (_, m) \<leftarrow> strcpy m cp pathname;
       len \<leftarrow> strlen m pathname;
       let cp = cp + len;
       Some (m(cp := 47, cp + 1 := 0))
     }
     else do { (m, cp) \<leftarrow> cut_last m pwd cp; Some m }
   }"

subsection \<open>Comparing a component with a name\<close>

text \<open>The name an entry field of \<open>n\<close> bytes holds: up to its first NUL, or all of it.\<close>

definition field_name :: "(nat \<Rightarrow> u8) \<Rightarrow> nat \<Rightarrow> nat \<Rightarrow> u8 list" where
  "field_name entry i n = takeWhile (\<lambda>b. b \<noteq> 0) (map entry [i..<i + n])"

lemma field_name_simps [simp]:
  "field_name entry i 0 = []"
  "field_name entry i (Suc n) = (if entry i = 0 then [] else entry i # field_name entry (Suc i) n)"
proof -
  have "[i..<i + Suc n] = i # [Suc i..<Suc i + n]" by (simp add: upt_conv_Cons del: upt_Suc)
  then show "field_name entry i (Suc n) = (if entry i = 0 then [] else entry i # field_name entry (Suc i) n)"
    by (simp add: field_name_def del: upt_Suc)
qed (simp add: field_name_def)

definition name_bytes :: "u8 list \<Rightarrow> bool" where
  "name_bytes bs \<longleftrightarrow> (\<forall>b \<in> set bs. b \<noteq> 0 \<and> \<not> IS_SEPARATOR b)"

definition match_end :: "mem \<Rightarrow> (nat \<Rightarrow> u8) \<Rightarrow> u32 \<times> nat \<times> int \<Rightarrow> u32 option" where
  "match_end m entry r = (case r of (lhs, rhs, c) \<Rightarrow>
     if entry rhs \<noteq> 0 \<and> c \<noteq> 0 then None
     else if m lhs \<noteq> 0 \<and> \<not> IS_SEPARATOR (m lhs) then None
     else Some (if IS_SEPARATOR (m lhs) then lhs + 1 else lhs))"

lemma match_step:
  "m lhs = entry rhs \<Longrightarrow> m lhs \<noteq> 0 \<Longrightarrow> match_loop m lhs entry rhs (Suc c) = match_loop m (lhs + 1) entry (Suc rhs) c"
  by (subst match_loop.simps) simp

lemma match_stop:
  "m lhs \<noteq> entry rhs \<or> m lhs = 0 \<Longrightarrow> match_loop m lhs entry rhs c = (lhs, rhs, int c)"
  by (subst match_loop.simps) auto

text \<open>
  Where the comparison ends. When the \<open>n\<close> bytes of the field have all matched, the count decides: if the
  path goes on with the byte that lies behind the field, one more pass is counted and the result is false.
\<close>

lemma match_loop_end:
  assumes "block m name (part @ [c])" and "name_bytes part" and "c = 0 \<or> IS_SEPARATOR c"
    and "\<forall>b \<in> set (field_name entry rhs n). \<not> IS_SEPARATOR b"
  shows "match_end m entry (match_loop m name entry rhs n) =
    (if part = field_name entry rhs n \<and> (length part = n \<longrightarrow> c = 0 \<or> entry (rhs + n) \<noteq> c)
     then Some (name + of_nat (length part) + (if c = 0 then 0 else 1)) else None)"
  using assms
proof (induction part arbitrary: name rhs n)
  case Nil
  have sep0: "\<not> IS_SEPARATOR 0" by (simp add: IS_SEPARATOR_def)
  have c: "m name = c" using Nil.prems(1) by simp
  show ?case
  proof (cases "c \<noteq> 0 \<and> entry rhs = c")
    case same: True
    then have "n = 0" using Nil.prems(3,4) by (cases n) auto
    then have "match_loop m name entry rhs n = (name, rhs, - 1)" using same c by (subst match_loop.simps) simp
    then show ?thesis using same \<open>n = 0\<close> by (simp add: match_end_def)
  next
    case False
    then have "match_loop m name entry rhs n = (name, rhs, int n)" using c by (intro match_stop) auto
    moreover have "[] = field_name entry rhs n \<longleftrightarrow> entry rhs = 0 \<or> n = 0" by (cases n) auto
    ultimately show ?thesis using False Nil.prems(3) c sep0 by (auto simp: match_end_def)
  qed
next
  case (Cons y ys)
  have y: "m name = y" "y \<noteq> 0" "\<not> IS_SEPARATOR y" "block m (name + 1) (ys @ [c])" "name_bytes ys"
    using Cons.prems(1,2) by (simp_all add: name_bytes_def)
  show ?case
  proof (cases "entry rhs = y")
    case differ: False
    then have "match_end m entry (match_loop m name entry rhs n) = None" using y by (simp add: match_stop match_end_def)
    moreover have "y # ys \<noteq> field_name entry rhs n" using differ by (cases n) auto
    ultimately show ?thesis by simp
  next
    case same: True
    show ?thesis
    proof (cases n)
      case 0
      have "match_loop m name entry rhs 0 = (name, rhs, - 1)" using same y by (subst match_loop.simps) simp
      then show ?thesis using 0 same y by (simp add: match_end_def)
    next
      case n: (Suc k)
      have "match_end m entry (match_loop m (name + 1) entry (Suc rhs) k) =
          (if ys = field_name entry (Suc rhs) k \<and> (length ys = k \<longrightarrow> c = 0 \<or> entry (Suc rhs + k) \<noteq> c)
           then Some (name + 1 + of_nat (length ys) + (if c = 0 then 0 else 1)) else None)"
        by (rule Cons.IH [OF y(4,5) Cons.prems(3)]) (use Cons.prems(4) n same y in auto)
      then show ?thesis using n same y by (simp add: match_step add.assoc)
    qed
  qed
qed

text \<open>
  C35. \<^verbatim>\<open>match_name\<close> on a path whose first component is \<open>part\<close>, ended by \<open>c\<close>, a separator or the end of
  the path, against an entry field of \<open>n\<close> bytes that holds a name without separators (ended by NUL, or as
  long as the field). It succeeds exactly when the component is that name, and then leaves \<^verbatim>\<open>*next\<close> behind
  the component and one separator, with one exception: a name as long as the field is missed when the
  path goes on with a separator and the byte that lies behind the field is the same separator.
\<close>

theorem match_name_correct:
  assumes "block m name (part @ [c])" and "name_bytes part" and "c = 0 \<or> IS_SEPARATOR c"
    and "\<forall>b \<in> set (field_name entry 0 n). \<not> IS_SEPARATOR b"
  shows "match_name m name entry n =
    (if part = field_name entry 0 n \<and> (length part = n \<longrightarrow> c = 0 \<or> entry n \<noteq> c)
     then Some (name + of_nat (length part) + (if c = 0 then 0 else 1)) else None)"
  using match_loop_end [OF assms] by (simp add: match_name_def match_end_def)

text \<open>A field of three bytes, all used, in front of a zero byte.\<close>

theorem match_name_correct_witness:
  "match_name (put_bytes (\<lambda>_. 0) 0x100 [97, 98, 99, 47, 100]) 0x100 (literal [97, 98, 99]) 3 = Some 0x104"
proof -
  let ?m = "put_bytes (\<lambda>_. 0) 0x100 [97, 98, 99, 47, 100 :: u8]" and ?e = "literal [97, 98, 99]"
  have f: "field_name ?e 0 3 = [97, 98, 99]" by (simp add: numeral_3_eq_3)
  have "block ?m 0x100 ([97, 98, 99] @ [47])" by simp
  moreover have "name_bytes [97, 98, 99]" "(47 :: u8) = 0 \<or> IS_SEPARATOR 47"
    "\<forall>b \<in> set (field_name ?e 0 3). \<not> IS_SEPARATOR b"
    by (simp_all add: f name_bytes_def IS_SEPARATOR_def)
  ultimately have "match_name ?m 0x100 ?e 3 =
      (if [97, 98, 99] = field_name ?e 0 3 \<and> (length [97, 98, 99 :: u8] = 3 \<longrightarrow> (47 :: u8) = 0 \<or> ?e 3 \<noteq> 47)
       then Some (0x100 + of_nat (length [97, 98, 99 :: u8]) + (if (47 :: u8) = 0 then 0 else 1)) else None)"
    by (rule match_name_correct)
  moreover have "?e 3 = 0" by (simp add: numeral_3_eq_3)
  ultimately show ?thesis by (simp only: f) simp
qed

subsection \<open>References\<close>

definition counts :: "'x vfs_scheme \<Rightarrow> u32 \<Rightarrow> u32" where "counts s p = i_count (inodes s p)"
definition inc :: "u32 \<Rightarrow> (u32 \<Rightarrow> u32) \<Rightarrow> u32 \<Rightarrow> u32" where "inc p c = c(p := c p + 1)"
definition decr :: "u32 \<Rightarrow> (u32 \<Rightarrow> u32) \<Rightarrow> u32 \<Rightarrow> u32" where "decr p c = c(p := c p - 1)"

lemma decr_inc [simp]: "decr p (inc p c) = c" "inc p (decr p c) = c"
  by (simp_all add: inc_def decr_def)

lemma decr_inc_swap: "decr p (inc q c) = inc q (decr p c)" "inc p (inc q c) = inc q (inc p c)"
  by (auto simp: inc_def decr_def fun_eq_iff)

lemma counts_upd_count [simp]: "counts (upd_count s p) = inc p (counts s)"
  by (auto simp: counts_def upd_count_def upd_inode_def inc_def fun_eq_iff)

text \<open>
  What a file system promises about the reference counts: \<^verbatim>\<open>close\<close> drops one, a successful \<^verbatim>\<open>namei\<close>
  adds one to the inode it returns, and nothing else changes.
\<close>

definition counts_kept :: "'x fsenv \<Rightarrow> bool" where
  "counts_kept e \<longleftrightarrow>
     (\<forall>p s i s'. op_close (fs_op e p) s i = Some s' \<longrightarrow> counts s' = decr i (counts s)) \<and>
     (\<forall>p s d name nxt i ret nxt' i' s'. op_namei (fs_op e p) s d name nxt i = Some (ret, nxt', i', s') \<longrightarrow>
        counts s' = (if sint ret < 0 then counts s else inc i' (counts s))) \<and>
     (\<forall>p s d mask ok s'. op_permission (fs_op e p) s d mask = Some (ok, s') \<longrightarrow> counts s' = counts s)"

lemma iput_counts:
  assumes "counts_kept e" and "iput e s i = Some s'" and "i \<noteq> NULL"
  shows "counts s' = decr i (counts s)"
  using assms by (auto simp: iput_def op_of_def counts_kept_def halt_simps)

lemma leave_mount_counts:
  assumes "counts_kept e" and "leave_mount e s d up i = Some (d', i', s')" and "d \<noteq> NULL"
  shows "counts s' = inc d' (decr d (counts s)) \<and> d' \<noteq> NULL"
  using assms iput_counts [OF assms(1) _ assms(3)]
  by (auto simp: leave_mount_def halt_simps Let_def decr_inc_swap split: if_splits)

lemma named_loop_counts:
  assumes "named_loop e s d name nxt right i = Some r" and "counts_kept e" and "d \<noteq> NULL"
  shows "counts (snd (snd r)) = (if fst r = NULL then decr d (counts s) else inc (fst r) (decr d (counts s)))"
  using assms
proof (induction e s d name nxt right i r rule: named_loop.raw_induct [rotated, consumes 1])
  case (1 loop e s d name nxt right i r)
  note kept = \<open>counts_kept e\<close>
  let ?up = "match_name (d_mem s) name dotdot 3"
  let ?nxt = "case ?up of None \<Rightarrow> nxt | Some n \<Rightarrow> n"
  obtain d1 i1 s1 ops ret nxt2 i2 s2 where
    l: "leave_mount e s d (?up \<noteq> None) i = Some (d1, i1, s1)" and o: "op_of e s1 d1 = Some ops"
    and n: "op_namei ops s1 d1 name ?nxt i1 = Some (ret, nxt2, i2, s2)"
    and rest: "(if sint ret < sint EOK then do { s \<leftarrow> iput e s2 d1; Some (NULL, nxt2, s) }
      else do {
        s \<leftarrow> iput e s2 d1;
        kassert (i2 \<noteq> NULL);
        (ok, s) \<leftarrow> (if \<not> ISDIR (i_mode (inodes s i2)) then Some (False, s)
                    else do { ops \<leftarrow> op_of e s i2; op_permission ops s i2 P_EXEC });
        if \<not> ok then do { s \<leftarrow> iput e s i2; Some (NULL, nxt2, s) }
        else if right = nxt2 then Some (i2, nxt2, s)
        else loop e s i2 nxt2 nxt2 right i2
      }) = Some r"
    using "1"(2) unfolding Let_def by (auto simp: halt_simps)
  have c1: "counts s1 = inc d1 (decr d (counts s))" and d1: "d1 \<noteq> NULL"
    using leave_mount_counts [OF kept l \<open>d \<noteq> NULL\<close>] by simp_all
  have c2: "counts s2 = (if sint ret < 0 then counts s1 else inc i2 (counts s1))"
    using kept n o by (auto simp: counts_kept_def op_of_def halt_simps)
  show ?case
  proof (cases "sint ret < 0")
    case True
    then show ?thesis
      using rest c1 c2 iput_counts [OF kept _ d1] by (auto simp: halt_simps EOK_def)
  next
    case False
    obtain s3 ok s4 where p: "iput e s2 d1 = Some s3" and i2: "i2 \<noteq> NULL"
      and perm: "(if \<not> ISDIR (i_mode (inodes s3 i2)) then Some (False, s3)
                  else do { ops \<leftarrow> op_of e s3 i2; op_permission ops s3 i2 P_EXEC }) = Some (ok, s4)"
      and rest': "(if \<not> ok then do { s \<leftarrow> iput e s4 i2; Some (NULL, nxt2, s) }
        else if right = nxt2 then Some (i2, nxt2, s4) else loop e s4 i2 nxt2 nxt2 right i2) = Some r"
      using rest False by (auto simp: halt_simps EOK_def)
    have c4: "counts s4 = inc i2 (decr d (counts s))"
      using perm kept iput_counts [OF kept p d1] c1 c2 False
      by (auto simp: counts_kept_def op_of_def halt_simps decr_inc_swap split: if_splits)
    show ?thesis
    proof (cases ok)
      case False
      then show ?thesis using rest' c4 iput_counts [OF kept _ i2] by (auto simp: halt_simps)
    next
      case True
      then show ?thesis using rest' c4 i2 "1"(1) [OF _ kept i2] by (auto split: if_splits)
    qed
  qed
qed

lemma named_balances_counts:
  assumes "counts_kept e" and "named e s pathname nxt = Some (d, nxt', s')"
  shows "counts s' = (if d = NULL then counts s else inc d (counts s))"
proof (cases "\<not> IS_SEPARATOR (d_mem s pathname) \<and> d_mem s pathname = 0")
  case True
  then show ?thesis using assms(2) by (auto simp: named_def Let_def IS_SEPARATOR_def)
next
  case False
  define d0 where "d0 = (if IS_SEPARATOR (d_mem s pathname) then t_iroot (me s) else t_ipwd (me s))"
  define name where "name = (if IS_SEPARATOR (d_mem s pathname) then pathname + 1 else pathname)"
  let ?s = "upd_count s d0"
  have d0: "d0 \<noteq> NULL" and rest: "(if d_mem s name = 0 then Some (d0, name, ?s)
      else do {
        right \<leftarrow> strrsep (d_mem s) name;
        if right = NULL \<or> right < name then Some (d0, name, ?s) else named_loop e ?s d0 name name (right + 1) NULL
      }) = Some (d, nxt', s')"
    using assms(2) False by (auto simp: named_def Let_def halt_simps d0_def name_def split: if_splits)
  then consider "d = d0" "s' = ?s" | right where "named_loop e ?s d0 name name right NULL = Some (d, nxt', s')"
    by (auto simp: halt_simps split: if_splits)
  then show ?thesis
  proof cases
    case 1
    then show ?thesis using d0 by simp
  next
    case 2
    then show ?thesis using named_loop_counts [OF 2 assms(1) d0] by simp
  qed
qed

text \<open>
  C10. Whatever path \<^verbatim>\<open>named\<close> walks, it leaves no reference behind: when it returns a directory, that
  directory has one more reference than before, and when it returns NULL all counts are as before.
  File systems are taken to keep their promise on the counts.
\<close>

theorem named_balances_references:
  assumes "counts_kept e" and "named e s pathname nxt = Some (d, nxt', s')"
  shows "counts s' = (if d = NULL then counts s else inc d (counts s))"
  by (rule named_balances_counts [OF assms])

text \<open>
  A file system of one directory: its \<^verbatim>\<open>namei\<close> skips a component of one byte and returns the
  directory itself.
\<close>

definition sample_ops :: "unit fs_op_t" where
  "sample_ops = \<lparr>op_mkfs = (\<lambda>_ _ _. None), op_super = (\<lambda>_ _ _. None), op_open = (\<lambda>_ _ _ _ _ _. None),
     op_close = (\<lambda>s i. Some (upd_inode s i (\<lambda>x. x\<lparr>i_count := i_count x - 1\<rparr>))),
     op_ioctl = (\<lambda>_ _ _ _. None), op_read = (\<lambda>s i data len off. Some (len, s)), op_write = (\<lambda>s i data len off. Some (len, s)),
     op_truncate = (\<lambda>_ _. None), op_stat = (\<lambda>_ _ _. None), op_permission = (\<lambda>s d mask. Some (True, s)),
     op_namei = (\<lambda>s d name nxt i. Some (EOK, name + 2, d, upd_count s d)),
     op_mkdir = (\<lambda>s d n mode. Some (EOK, s)), op_rmdir = (\<lambda>s d n. Some (EOK, s)), op_link = (\<lambda>_ _ _ _ _. None),
     op_unlink = (\<lambda>s d n. Some (EOK, s)), op_mknod = (\<lambda>s d n mode dev. Some (EOK, s)), op_readdir = (\<lambda>_ _ _ _ _. None)\<rparr>"

definition sample_env :: "unit fsenv" where
  "sample_env = \<lparr>fs_op = (\<lambda>_. sample_ops),
     fs_dev = \<lparr>dn_ioctl = (\<lambda>_ _ _ _ _ _. None), dn_read = (\<lambda>_ _ _ _ _ _ _. None), dn_write = (\<lambda>_ _ _ _ _ _ _. None), dn_others = (\<lambda>_. None)\<rparr>,
     fs_startup = 0, fs_local = 0x6000\<rparr>"

text \<open>The path in memory is \<^verbatim>\<open>/d/x\<close>.\<close>

definition sample_vfs :: vfs where
  "sample_vfs = \<lparr>d_ls = (d_ls sample_bsys)\<lparr>ls_k := upd_task (d_k sample_bsys) 0x2000
       (\<lambda>t. t\<lparr>t_iroot := 0x5000, t_ipwd := 0x5000, t_files := [1, 1, 1] @ replicate 13 0\<rparr>)\<rparr>,
     devices = devices sample_bsys, d_base = 0x7000, requests = requests sample_bsys,
     d_mem = put_bytes (\<lambda>_. 0) 0x100 [47, 100, 47, 120, 0],
     bdescs = bdescs sample_bsys, b_base = 0x8000, buffers = buffers sample_bsys, v_vm = sample_vm,
     inode_table = 0x5000, inodes = (\<lambda>_. zero_inode)(0x5000 := zero_inode\<lparr>i_dev := 1, i_count := 1, i_mode := IFDIR, i_type := 3, i_super := 0x6000, i_op := 0x77\<rparr>),
     super_table = 0x6000, supers = (\<lambda>_. \<lparr>s_desc = 0, s_buf = 0, s_dev = 1, s_count = 1, s_type = 3, s_sector_size = 512,
       s_block_size = 1024, s_iroot = 0x5000, s_imount = 0x5000\<rparr>), root = 0x6000,
     file_table = 0xa000, files = (\<lambda>_. \<lparr>fl_inode = 0, fl_count = 0, fl_offset = 0, fl_flags = 0\<rparr>), fs_ops = [0, 0, 0, 0x77, 0]\<rparr>"

lemma sample_counts_kept: "counts_kept sample_env"
proof -
  have "counts (upd_inode s i (\<lambda>x. x\<lparr>i_count := i_count x - 1\<rparr>)) = decr i (counts s)" for s :: vfs and i
    by (simp add: counts_def upd_inode_def decr_def fun_eq_iff)
  then show ?thesis by (auto simp: counts_kept_def sample_env_def sample_ops_def EOK_def)
qed

lemma sample_me: "t_iroot (me sample_vfs) = 0x5000" "t_ipwd (me sample_vfs) = 0x5000" "t_files (me sample_vfs) = [1, 1, 1] @ replicate 13 0"
  by (simp_all add: me_def sample_vfs_def sample_bsys_def with_heap_def running_task_def sample_kernel_def)

lemma sample_path: "d_mem sample_vfs = (\<lambda>_. 0)(0x100 := 47, 0x101 := 100, 0x102 := 47, 0x103 := 120, 0x104 := 0)"
  by (simp add: sample_vfs_def)

lemma sample_root:
  "inodes sample_vfs 0x5000 = zero_inode\<lparr>i_dev := 1, i_count := 1, i_mode := IFDIR, i_type := 3, i_super := 0x6000, i_op := 0x77\<rparr>"
  by (simp add: sample_vfs_def)

lemma upd_count_proj [simp]:
  "d_mem (upd_count s p) = d_mem s" "d_mem (upd_inode s p f) = d_mem s" "me (upd_count s p) = me s" "me (upd_inode s p f) = me s"
  "inodes (upd_count s p) = (inodes s)(p := (inodes s p)\<lparr>i_count := i_count (inodes s p) + 1\<rparr>)"
  "inodes (upd_inode s p f) = (inodes s)(p := f (inodes s p))"
  by (simp_all add: upd_count_def upd_inode_def me_def)

lemma sample_ops_simps [simp]:
  "i_op (inodes s d) \<noteq> NULL \<Longrightarrow> d \<noteq> NULL \<Longrightarrow> op_of sample_env s d = Some sample_ops"
  "op_namei sample_ops s d name nxt i = Some (EOK, name + 2, d, upd_count s d)"
  "op_permission sample_ops s d msk = Some (True, s)"
  "op_close sample_ops s d = Some (upd_inode s d (\<lambda>x. x\<lparr>i_count := i_count x - 1\<rparr>))"
  by (simp_all add: op_of_def sample_env_def sample_ops_def)

lemma sample_named:
  "named sample_env sample_vfs 0x100 NULL =
    Some (0x5000, 0x103, upd_inode (upd_count (upd_count sample_vfs 0x5000) 0x5000) 0x5000 (\<lambda>x. x\<lparr>i_count := i_count x - 1\<rparr>))"
proof -
  have right: "strrsep (d_mem sample_vfs) 0x101 = Some 0x102"
    unfolding sample_path by (simp add: strrsep_def strrsep_loop.simps IS_SEPARATOR_def Let_def)
  have up: "match_name (d_mem sample_vfs) 0x101 dotdot 3 = None"
    unfolding sample_path by (simp add: match_name_def match_loop.simps dotdot_def)
  have m: "d_mem sample_vfs 0x100 = 47" "d_mem sample_vfs 0x101 = 100" by (simp_all add: sample_path)
  have r: "i_dev (inodes sample_vfs 0x5000) = 1" "i_op (inodes sample_vfs 0x5000) = 0x77" "ISDIR (i_mode (inodes sample_vfs 0x5000))"
    by (simp_all add: sample_root ISDIR_def IFDIR_def IFMT_def)
  have "named_loop sample_env (upd_count sample_vfs 0x5000) 0x5000 0x101 0x101 0x103 NULL =
      Some (0x5000, 0x103, upd_inode (upd_count (upd_count sample_vfs 0x5000) 0x5000) 0x5000 (\<lambda>x. x\<lparr>i_count := i_count x - 1\<rparr>))"
    by (subst named_loop.simps) (simp add: up r leave_mount_def EOK_def iput_def)
  then show ?thesis
    by (simp add: named_def Let_def sample_me m r right IS_SEPARATOR_def)
qed

theorem named_balances_references_witness:
  "\<exists>s'. named sample_env sample_vfs 0x100 NULL = Some (0x5000, 0x103, s') \<and> i_count (inodes s' 0x5000) = 2"
proof -
  have "named sample_env sample_vfs 0x100 NULL =
      Some (0x5000, 0x103, upd_inode (upd_count (upd_count sample_vfs 0x5000) 0x5000) 0x5000 (\<lambda>x. x\<lparr>i_count := i_count x - 1\<rparr>))"
    by (rule sample_named)
  then obtain s' where s': "named sample_env sample_vfs 0x100 NULL = Some (0x5000, 0x103, s')" by blast
  then have "counts s' = (if (0x5000 :: u32) = NULL then counts sample_vfs else inc 0x5000 (counts sample_vfs))"
    by (rule named_balances_references [OF sample_counts_kept])
  then have "counts s' 0x5000 = 2" by (simp add: inc_def counts_def sample_root)
  then show ?thesis using s' by (simp add: counts_def)
qed

theorem fd_get_put_witness:
  "\<exists>s1. fd_get sample_vfs = Some (3, 0xa030, s1) \<and>
    fd_put sample_env (upd_file s1 0xa030 (\<lambda>x. x\<lparr>fl_inode := 0x5000, fl_count := 1\<rparr>)) 3 \<noteq> None"
proof -
  have l: "length (t_files (me sample_vfs)) = TASK_FILE_NR" by (simp add: sample_me TASK_FILE_NR_def)
  have "fd_get_loop (drop 3 (t_files (me sample_vfs))) 3 = 3" by (simp add: sample_me numeral_eq_Suc)
  moreover have "get_file sample_vfs = Some (0xa030, upd_file sample_vfs 0xa030 (\<lambda>f. f\<lparr>fl_count := fl_count f + 1\<rparr>))"
    by (simp add: get_file_def FILE_NR_def sample_vfs_def file_at_def eval_nat_numeral)
  ultimately obtain s1 where s1: "fd_get sample_vfs = Some (3, 0xa030, s1)"
    by (simp add: fd_get_def Let_def TASK_FILE_NR_def sample_me)
  have "(0xa030 :: u32) \<noteq> NULL" "(0x5000 :: u32) \<noteq> NULL" by simp_all
  note put = fd_get_put [OF l s1 this, of sample_env]
  have "iput sample_env (upd_file sample_vfs 0xa030 (\<lambda>x. x\<lparr>fl_inode := 0x5000, fl_count := 0\<rparr>)) 0x5000 \<noteq> None"
    by (simp add: iput_def sample_root)
  then show ?thesis using s1 put by auto
qed

end
