(* ===== verification/Onix_Fsyscall.thy ===== *)
theory Onix_Fsyscall
  imports Onix_Namei
begin

section \<open>File system calls (src/fs/fsyscall.c)\<close>

text \<open>
  The system calls on descriptors and paths, over the tables of \<open>Onix_Vfs\<close>, the path walk of
  \<open>Onix_Namei\<close> and the operations of the file systems. Results are the numbers the call returns;
  negative ones are error codes. Reading a variable the code has not initialised is a halt.
\<close>

definition O_WRONLY :: u32 where "O_WRONLY = 1"
definition O_RDONLY :: u32 where "O_RDONLY = 0"
definition O_ACCMODE :: u32 where "O_ACCMODE = 3"
definition O_CREAT :: u32 where "O_CREAT = 0x40"
definition O_TRUNC :: u32 where "O_TRUNC = 0x200"
definition O_APPEND :: u32 where "O_APPEND = 0x400"
definition SEEK_SET :: u32 where "SEEK_SET = 1"
definition SEEK_CUR :: u32 where "SEEK_CUR = 2"
definition SEEK_END :: u32 where "SEEK_END = 3"
definition DIRENT_SIZE :: u32 where "DIRENT_SIZE = 76"
definition ENOTBLK :: u32 where "ENOTBLK = 15"
definition EBUSY :: u32 where "EBUSY = 16"
definition EFSUNK :: u32 where "EFSUNK = 63"

subsection \<open>Opening and closing\<close>

text \<open>From the label \<^verbatim>\<open>makeup\<close>: a descriptor for the inode, then the release of the directory.\<close>

definition open_fd :: "'x fsenv \<Rightarrow> 'x vfs_scheme \<Rightarrow> u32 \<Rightarrow> u32 \<Rightarrow> u32 \<Rightarrow> (u32 \<times> 'x vfs_scheme) option" where
  "open_fd e s dir_ino inode flags = do {
     (fd, file, s) \<leftarrow> fd_get s;
     if sint fd < sint EOK then Some (fd, s)
     else do {
       let s = upd_file s file (\<lambda>f. f\<lparr>fl_inode := inode, fl_flags := flags, fl_count := 1, fl_offset := 0\<rparr>);
       s \<leftarrow> (if flags AND O_APPEND \<noteq> 0 then do {
              kassert (inode \<noteq> NULL);
              Some (upd_file s file (\<lambda>f. f\<lparr>fl_offset := i_size (inodes s inode)\<rparr>))
            } else Some s);
       s \<leftarrow> iput e s dir_ino;
       Some (fd, s)
     }
   }"

definition sys_open :: "'x fsenv \<Rightarrow> 'x vfs_scheme \<Rightarrow> u32 \<Rightarrow> u32 \<Rightarrow> u32 \<Rightarrow> (u32 \<times> 'x vfs_scheme) option" where
  "sys_open e s filename flags mode = do {
     (dir_ino, nxt, s) \<leftarrow> named e s filename NULL;
     if dir_ino = NULL then Some (- ENOENT, s)
     else if d_mem s nxt = 0 then open_fd e (upd_count s dir_ino) dir_ino dir_ino flags
     else do {
       ops \<leftarrow> op_of e s dir_ino;
       (ret, inode, s) \<leftarrow> op_open ops s dir_ino nxt flags mode NULL;
       if sint ret < 0 then do { s \<leftarrow> iput e s dir_ino; Some (ret, s) }
       else open_fd e s dir_ino inode flags
     }
   }"

definition sys_creat :: "'x fsenv \<Rightarrow> 'x vfs_scheme \<Rightarrow> u32 \<Rightarrow> u32 \<Rightarrow> (u32 \<times> 'x vfs_scheme) option" where
  "sys_creat e s filename mode = sys_open e s filename (O_CREAT OR O_TRUNC) mode"

definition sys_close :: "'x fsenv \<Rightarrow> 'x vfs_scheme \<Rightarrow> u32 \<Rightarrow> 'x vfs_scheme option" where
  "sys_close e s fd = do { (_, s) \<leftarrow> fd_put e s fd; Some s }"

subsection \<open>Reading and writing\<close>

definition is_user :: "'x dsys_scheme \<Rightarrow> bool" where
  "is_user s \<longleftrightarrow> t_uid (me s) \<noteq> KERNEL_USER"

text \<open>The position of the file moves by what was transferred.\<close>

definition advance :: "'x vfs_scheme \<Rightarrow> u32 \<Rightarrow> u32 \<Rightarrow> 'x vfs_scheme" where
  "advance s file len = (if sint len > 0 then upd_file s file (\<lambda>f. f\<lparr>fl_offset := fl_offset f + len\<rparr>) else s)"

definition sys_read :: "'x fsenv \<Rightarrow> 'x vfs_scheme \<Rightarrow> u32 \<Rightarrow> u32 \<Rightarrow> u32 \<Rightarrow> (u32 \<times> 'x vfs_scheme) option" where
  "sys_read e s fd buf cnt =
     (if sint cnt < 0 then Some (- EINVAL, s)
      else do {
        ok \<leftarrow> memory_access (vm_now s) buf cnt False (is_user s);
        if \<not> ok then Some (- EINVAL, s)
        else do {
          (ret, file) \<leftarrow> fd_check s fd;
          if sint ret < sint EOK then Some (ret, s)
          else if fl_flags (files s file) AND O_ACCMODE = O_WRONLY then Some (EOF, s)
          else do {
            ops \<leftarrow> op_of e s (fl_inode (files s file));
            (len, s) \<leftarrow> op_read ops s (fl_inode (files s file)) buf cnt (fl_offset (files s file));
            Some (len, advance s file len)
          }
        }
      })"

definition sys_readdir :: "'x fsenv \<Rightarrow> 'x vfs_scheme \<Rightarrow> u32 \<Rightarrow> u32 \<Rightarrow> u32 \<Rightarrow> (u32 \<times> 'x vfs_scheme) option" where
  "sys_readdir e s fd dirent cnt = do {
     ok \<leftarrow> memory_access (vm_now s) dirent DIRENT_SIZE False (is_user s);
     if \<not> ok then Some (- EINVAL, s)
     else do {
       (ret, file) \<leftarrow> fd_check s fd;
       if sint ret < sint EOK then Some (ret, s)
       else if fl_flags (files s file) AND O_ACCMODE = O_WRONLY then Some (EOF, s)
       else do {
         ops \<leftarrow> op_of e s (fl_inode (files s file));
         (len, s) \<leftarrow> op_readdir ops s (fl_inode (files s file)) dirent cnt (fl_offset (files s file));
         Some (len, advance s file len)
       }
     }
   }"

definition sys_write :: "'x fsenv \<Rightarrow> 'x vfs_scheme \<Rightarrow> u32 \<Rightarrow> u32 \<Rightarrow> u32 \<Rightarrow> (u32 \<times> 'x vfs_scheme) option" where
  "sys_write e s fd buf cnt =
     (if sint cnt < 0 then Some (- EINVAL, s)
      else do {
        ok \<leftarrow> memory_access (vm_now s) buf cnt True (is_user s);
        if \<not> ok then Some (- EINVAL, s)
        else do {
          (ret, file) \<leftarrow> fd_check s fd;
          if sint ret < sint EOK then Some (ret, s)
          else if fl_flags (files s file) AND O_ACCMODE = O_RDONLY then Some (- EPERM, s)
          else do {
            ops \<leftarrow> op_of e s (fl_inode (files s file));
            (len, s) \<leftarrow> op_write ops s (fl_inode (files s file)) buf cnt (fl_offset (files s file));
            Some (len, advance s file len)
          }
        }
      })"

text \<open>
  In the last case of \<^verbatim>\<open>sys_lseek\<close> the size is unsigned, so the sum is, and the assertion says nothing.
\<close>

definition sys_lseek :: "'x vfs_scheme \<Rightarrow> u32 \<Rightarrow> u32 \<Rightarrow> u32 \<Rightarrow> (u32 \<times> 'x vfs_scheme) option" where
  "sys_lseek s fd offset whence = do {
     (ret, file) \<leftarrow> fd_check s fd;
     if sint ret < sint EOK then Some (ret, s)
     else do {
       let f = files s file;
       kassert (fl_inode f \<noteq> NULL);
       pos \<leftarrow> (if whence = SEEK_SET then do { kassert (sint offset \<ge> 0); Some offset }
               else if whence = SEEK_CUR then do { kassert (sint (fl_offset f + offset) \<ge> 0); Some (fl_offset f + offset) }
               else if whence = SEEK_END then Some (i_size (inodes s (fl_inode f)) + offset)
               else None);
       Some (pos, upd_file s file (\<lambda>f. f\<lparr>fl_offset := pos\<rparr>))
     }
   }"

subsection \<open>Descriptors\<close>

definition dupfd :: "'x vfs_scheme \<Rightarrow> u32 \<Rightarrow> u32 \<Rightarrow> (u32 \<times> 'x vfs_scheme) option" where
  "dupfd s fd arg = do {
     (ret, file) \<leftarrow> fd_check s fd;
     if sint ret < sint EOK then Some (ret, s)
     else if sint arg \<ge> int TASK_FILE_NR then Some (- EINVAL, s)
     else do {
       kassert (sint arg \<ge> 0);
       let arg = fd_get_loop (drop (unat arg) (t_files (me s))) (unat arg);
       if arg \<ge> TASK_FILE_NR then Some (- EINVAL, s)
       else do {
         let s = upd_me s (\<lambda>t. t\<lparr>t_files := (t_files t)[arg := file]\<rparr>);
         Some (of_nat arg, upd_file s file (\<lambda>f. f\<lparr>fl_count := fl_count f + 1\<rparr>))
       }
     }
   }"

definition sys_dup :: "'x vfs_scheme \<Rightarrow> u32 \<Rightarrow> (u32 \<times> 'x vfs_scheme) option" where
  "sys_dup s oldfd = dupfd s oldfd 0"

definition sys_dup2 :: "'x fsenv \<Rightarrow> 'x vfs_scheme \<Rightarrow> u32 \<Rightarrow> u32 \<Rightarrow> (u32 \<times> 'x vfs_scheme) option" where
  "sys_dup2 e s oldfd newfd = do { s \<leftarrow> sys_close e s newfd; dupfd s oldfd newfd }"

definition sys_stat :: "'x fsenv \<Rightarrow> 'x vfs_scheme \<Rightarrow> u32 \<Rightarrow> u32 \<Rightarrow> (u32 \<times> 'x vfs_scheme) option" where
  "sys_stat e s filename statbuf = do {
     (inode, s) \<leftarrow> namei e s filename;
     if inode = NULL then Some (- ENOENT, s)
     else do {
       ops \<leftarrow> op_of e s inode;
       (ret, s) \<leftarrow> op_stat ops s inode statbuf;
       s \<leftarrow> iput e s inode;
       Some (ret, s)
     }
   }"

definition sys_fstat :: "'x fsenv \<Rightarrow> 'x vfs_scheme \<Rightarrow> u32 \<Rightarrow> u32 \<Rightarrow> (u32 \<times> 'x vfs_scheme) option" where
  "sys_fstat e s fd statbuf = do {
     (ret, file) \<leftarrow> fd_check s fd;
     if sint ret < sint EOK then Some (ret, s)
     else do {
       ops \<leftarrow> op_of e s (fl_inode (files s file));
       op_stat ops s (fl_inode (files s file)) statbuf
     }
   }"

definition sys_ioctl :: "'x fsenv \<Rightarrow> 'x vfs_scheme \<Rightarrow> u32 \<Rightarrow> u32 \<Rightarrow> u32 \<Rightarrow> (u32 \<times> 'x vfs_scheme) option" where
  "sys_ioctl e s fd cmd args =
     (if sint fd \<ge> int TASK_FILE_NR then Some (- EBADF, s)
      else do {
        kassert (0 \<le> sint fd \<and> unat fd < length (t_files (me s)));
        let file = t_files (me s) ! unat fd;
        if file = NULL then Some (- EBADF, s)
        else do {
          ops \<leftarrow> op_of e s (fl_inode (files s file));
          op_ioctl ops s (fl_inode (files s file)) cmd args
        }
      })"

subsection \<open>Directories\<close>

definition sys_getcwd :: "'x dsys_scheme \<Rightarrow> u32 \<Rightarrow> u32 \<Rightarrow> u32 \<times> 'x dsys_scheme" where
  "sys_getcwd s buf sz = (buf, s\<lparr>d_mem := snd (strncpy (d_mem s) buf (t_pwd (me s)) sz)\<rparr>)"

definition sys_chdir :: "'x fsenv \<Rightarrow> 'x vfs_scheme \<Rightarrow> u32 \<Rightarrow> (u32 \<times> 'x vfs_scheme) option" where
  "sys_chdir e s pathname = do {
     (inode, s) \<leftarrow> namei e s pathname;
     if inode = NULL then Some (- ENOENT, s)
     else do {
       kassert (sint (i_dev (inodes s inode)) > 0);
       if inode = t_ipwd (me s) then do { s \<leftarrow> iput e s inode; Some (EOK, s) }
       else if \<not> ISDIR (i_mode (inodes s inode)) then do { s \<leftarrow> iput e s inode; Some (- EPERM, s) }
       else do {
         m \<leftarrow> abspath (d_mem s) (t_pwd (me s)) pathname;
         s \<leftarrow> iput e (s\<lparr>d_mem := m\<rparr>) (t_ipwd (me s));
         Some (EOK, upd_me s (\<lambda>t. t\<lparr>t_ipwd := inode\<rparr>))
       }
     }
   }"

definition sys_chroot :: "'x fsenv \<Rightarrow> 'x vfs_scheme \<Rightarrow> u32 \<Rightarrow> (u32 \<times> 'x vfs_scheme) option" where
  "sys_chroot e s pathname = do {
     (inode, s) \<leftarrow> namei e s pathname;
     if inode = NULL then Some (- ENOENT, s)
     else if \<not> ISDIR (i_mode (inodes s inode)) \<or> inode = t_iroot (me s)
     then do { s \<leftarrow> iput e s inode; Some (- EPERM, s) }
     else do {
       s \<leftarrow> iput e s (t_iroot (me s));
       Some (EOK, upd_me s (\<lambda>t. t\<lparr>t_iroot := inode\<rparr>))
     }
   }"

text \<open>
  What \<^verbatim>\<open>sys_mkdir\<close>, \<^verbatim>\<open>sys_rmdir\<close>, \<^verbatim>\<open>sys_unlink\<close> and \<^verbatim>\<open>sys_mknod\<close> do alike: the operation is called on
  the parent directory and the last component, when there is one and the parent may be written.
\<close>

definition in_parent ::
  "'x fsenv \<Rightarrow> 'x vfs_scheme \<Rightarrow> u32 \<Rightarrow> ('x fs_op_t \<Rightarrow> 'x vfs_scheme \<Rightarrow> u32 \<Rightarrow> u32 \<Rightarrow> (u32 \<times> 'x vfs_scheme) option) \<Rightarrow>
   (u32 \<times> 'x vfs_scheme) option" where
  "in_parent e s pathname act = do {
     (dir_ino, nxt, s) \<leftarrow> named e s pathname NULL;
     if dir_ino = NULL then Some (- ENOENT, s)
     else if d_mem s nxt = 0 then do { s \<leftarrow> iput e s dir_ino; Some (- ENOENT, s) }
     else do {
       ops \<leftarrow> op_of e s dir_ino;
       (ok, s) \<leftarrow> op_permission ops s dir_ino P_WRITE;
       (ret, s) \<leftarrow> (if ok then do { ops \<leftarrow> op_of e s dir_ino; act ops s dir_ino nxt } else Some (- EPERM, s));
       s \<leftarrow> iput e s dir_ino;
       Some (ret, s)
     }
   }"

definition sys_mkdir :: "'x fsenv \<Rightarrow> 'x vfs_scheme \<Rightarrow> u32 \<Rightarrow> u32 \<Rightarrow> (u32 \<times> 'x vfs_scheme) option" where
  "sys_mkdir e s pathname mode = in_parent e s pathname (\<lambda>ops s d n. op_mkdir ops s d n mode)"

definition sys_rmdir :: "'x fsenv \<Rightarrow> 'x vfs_scheme \<Rightarrow> u32 \<Rightarrow> (u32 \<times> 'x vfs_scheme) option" where
  "sys_rmdir e s pathname = in_parent e s pathname op_rmdir"

definition sys_unlink :: "'x fsenv \<Rightarrow> 'x vfs_scheme \<Rightarrow> u32 \<Rightarrow> (u32 \<times> 'x vfs_scheme) option" where
  "sys_unlink e s filename = in_parent e s filename op_unlink"

definition sys_mknod :: "'x fsenv \<Rightarrow> 'x vfs_scheme \<Rightarrow> u32 \<Rightarrow> u32 \<Rightarrow> u32 \<Rightarrow> (u32 \<times> 'x vfs_scheme) option" where
  "sys_mknod e s filename mode dev = in_parent e s filename (\<lambda>ops s d n. op_mknod ops s d n mode dev)"

text \<open>
  When the first path has no directory, \<^verbatim>\<open>sys_link\<close> jumps over the declaration of \<^verbatim>\<open>ndir\<close> and then
  releases it.
\<close>

definition sys_link :: "'x fsenv \<Rightarrow> 'x vfs_scheme \<Rightarrow> u32 \<Rightarrow> u32 \<Rightarrow> (u32 \<times> 'x vfs_scheme) option" where
  "sys_link e s oldname newname = do {
     (odir, oname, s) \<leftarrow> named e s oldname NULL;
     if odir = NULL then None
     else do {
       (ndir, nname, s) \<leftarrow> named e s newname NULL;
       (ret, s) \<leftarrow> (if ndir = NULL then Some (- ENOENT, s)
                    else do { ops \<leftarrow> op_of e s ndir; op_link ops s odir oname ndir nname });
       s \<leftarrow> iput e s odir;
       s \<leftarrow> iput e s ndir;
       Some (ret, s)
     }
   }"

subsection \<open>Mounting\<close>

text \<open>The end of \<^verbatim>\<open>sys_mount\<close> on an error.\<close>

definition mount_fails ::
  "'x fsenv \<Rightarrow> 'x vfs_scheme \<Rightarrow> u32 \<Rightarrow> u32 \<Rightarrow> u32 \<Rightarrow> u32 \<Rightarrow> (u32 \<times> 'x vfs_scheme) option" where
  "mount_fails e s super devinode dirinode ret = do {
     s \<leftarrow> put_super e s super;
     s \<leftarrow> iput e s devinode;
     s \<leftarrow> iput e s dirinode;
     Some (ret, s)
   }"

definition sys_mount :: "'x fsenv \<Rightarrow> 'x vfs_scheme \<Rightarrow> u32 \<Rightarrow> u32 \<Rightarrow> u32 \<Rightarrow> (u32 \<times> 'x vfs_scheme) option" where
  "sys_mount e s devname dirname flags = do {
     (devinode, s) \<leftarrow> namei e s devname;
     if devinode = NULL then mount_fails e s NULL NULL NULL (- ENOENT)
     else if \<not> ISBLK (i_mode (inodes s devinode)) then mount_fails e s NULL devinode NULL (- EPERM)
     else if i_rdev (inodes s devinode) = 0 then mount_fails e s NULL devinode NULL (- ENOSYS)
     else do {
       (dirinode, s) \<leftarrow> namei e s dirname;
       if dirinode = NULL then mount_fails e s NULL devinode NULL (- ENOENT)
       else if \<not> ISDIR (i_mode (inodes s dirinode)) then mount_fails e s NULL devinode dirinode (- EPERM)
       else if i_count (inodes s dirinode) \<noteq> 1 \<or> i_mount (inodes s dirinode) \<noteq> 0
       then mount_fails e s NULL devinode dirinode (- EBUSY)
       else do {
         (super, s) \<leftarrow> read_super e s (i_rdev (inodes s devinode));
         if super = NULL then mount_fails e s NULL devinode dirinode (- EFSUNK)
         else if s_imount (supers s super) \<noteq> NULL then mount_fails e s super devinode dirinode (- EBUSY)
         else do {
           let s = upd_super s super (\<lambda>p. p\<lparr>s_imount := dirinode\<rparr>);
           let s = upd_inode s dirinode (\<lambda>i. i\<lparr>i_mount := i_rdev (inodes s devinode)\<rparr>);
           s \<leftarrow> iput e s devinode;
           Some (EOK, s)
         }
       }
     }
   }"

definition umount_fails :: "'x fsenv \<Rightarrow> 'x vfs_scheme \<Rightarrow> u32 \<Rightarrow> u32 \<Rightarrow> u32 \<Rightarrow> (u32 \<times> 'x vfs_scheme) option" where
  "umount_fails e s inode super ret = do { s \<leftarrow> iput e s inode; s \<leftarrow> put_super e s super; Some (ret, s) }"

definition sys_umount :: "'x fsenv \<Rightarrow> 'x vfs_scheme \<Rightarrow> u32 \<Rightarrow> (u32 \<times> 'x vfs_scheme) option" where
  "sys_umount e s target = do {
     (inode, s) \<leftarrow> namei e s target;
     if inode = NULL then umount_fails e s NULL NULL (- ENOENT)
     else do {
       let i = inodes s inode;
       if \<not> ISBLK (i_mode i) \<and> s_iroot (supers s (i_super i)) \<noteq> inode then umount_fails e s inode NULL (- ENOTBLK)
       else if inode = get_root_inode s then umount_fails e s inode NULL (- EBUSY)
       else do {
         (super, s) \<leftarrow> read_super e s (if ISBLK (i_mode i) then i_rdev i else i_dev i);
         kassert (super \<noteq> NULL);
         let sb = supers s super;
         if s_imount sb = NULL then umount_fails e s inode super (- ENOENT)
         else if i_count (inodes s (s_iroot sb)) > 2 then umount_fails e s inode super (- EBUSY)
         else if i_count (inodes s (s_iroot sb)) = 2 \<and> s_iroot (supers s (i_super (inodes s inode))) \<noteq> inode
         then umount_fails e s inode super (- EBUSY)
         else do {
           n \<leftarrow> list_size (k_heap (d_k s)) (inode_list super);
           if n > 1 then umount_fails e s inode super (- EBUSY)
           else do {
             s \<leftarrow> iput e s (s_iroot sb);
             let s = upd_super s super (\<lambda>p. p\<lparr>s_iroot := NULL\<rparr>);
             let s = upd_inode s (s_imount (supers s super)) (\<lambda>i. i\<lparr>i_mount := 0\<rparr>);
             s \<leftarrow> iput e s (s_imount (supers s super));
             let s = upd_super s super (\<lambda>p. p\<lparr>s_imount := NULL\<rparr>);
             let s = upd_super s super (\<lambda>p. p\<lparr>s_count := s_count p - 1\<rparr>);
             kassert (s_count (supers s super) = 1);
             umount_fails e s inode super EOK
           }
         }
       }
     }
   }"

definition sys_mkfs :: "'x fsenv \<Rightarrow> 'x vfs_scheme \<Rightarrow> u32 \<Rightarrow> u32 \<Rightarrow> (u32 \<times> 'x vfs_scheme) option" where
  "sys_mkfs e s devname args = do {
     (inode, s) \<leftarrow> namei e s devname;
     if inode = NULL then Some (- ENOENT, s)
     else do {
       (ret, s) \<leftarrow> (if \<not> ISBLK (i_mode (inodes s inode)) then Some (- ENOTDIR, s)
                    else do {
                      kassert (i_rdev (inodes s inode) \<noteq> 0);
                      ops \<leftarrow> op_of e s inode;
                      op_mkfs ops s (i_rdev (inodes s inode)) args
                    });
       s \<leftarrow> iput e s inode;
       Some (ret, s)
     }
   }"

subsection \<open>References and descriptors\<close>

lemma in_parent_counts:
  assumes kept: "counts_kept e" and run: "in_parent e s path act = Some (ret, s')"
  shows "\<exists>d nxt s1. named e s path NULL = Some (d, nxt, s1) \<and>
    (if d = NULL \<or> d_mem s1 nxt = 0 then ret = - ENOENT \<and> counts s' = counts s
     else \<exists>ok s2. op_permission (fs_op e (i_op (inodes s1 d))) s1 d P_WRITE = Some (ok, s2) \<and>
       (if ok then \<exists>s3. counts s2 = inc d (counts s) \<and> act (fs_op e (i_op (inodes s2 d))) s2 d nxt = Some (ret, s3) \<and>
            counts s' = decr d (counts s3)
        else ret = - EPERM \<and> counts s' = counts s))"
proof -
  obtain d nxt s1 where n: "named e s path NULL = Some (d, nxt, s1)"
    using run by (auto simp: in_parent_def halt_simps)
  note c1 = named_balances_counts [OF kept n]
  consider "d = NULL" | "d \<noteq> NULL" "d_mem s1 nxt = 0" | "d \<noteq> NULL" "d_mem s1 nxt \<noteq> 0" by blast
  then show ?thesis
  proof cases
    case 1
    then show ?thesis using run n c1 by (simp add: in_parent_def)
  next
    case 2
    then obtain s2 where "iput e s1 d = Some s2" "ret = - ENOENT" "s' = s2"
      using run n by (auto simp: in_parent_def halt_simps)
    then show ?thesis using c1 2 iput_counts [OF kept _ 2(1)] by (simp add: n)
  next
    case 3
    obtain ok s2 s3 where p: "op_permission (fs_op e (i_op (inodes s1 d))) s1 d P_WRITE = Some (ok, s2)"
        and a: "(if ok then do { ops \<leftarrow> op_of e s2 d; act ops s2 d nxt } else Some (- EPERM, s2)) = Some (ret, s3)"
        and i: "iput e s3 d = Some s'"
      using run n 3 unfolding in_parent_def op_of_def by (auto simp: halt_simps)
    have c2: "counts s2 = inc d (counts s)" using p kept c1 3(1) by (simp add: counts_kept_def)
    have c3: "counts s' = decr d (counts s3)" by (rule iput_counts [OF kept i 3(1)])
    show ?thesis
    proof (cases ok)
      case True
      then have "act (fs_op e (i_op (inodes s2 d))) s2 d nxt = Some (ret, s3)" using a by (auto simp: op_of_def halt_simps)
      then show ?thesis using p 3 True c2 c3 by (auto simp: n)
    next
      case False
      then have "ret = - EPERM" "s3 = s2" using a by auto
      then show ?thesis using p 3 False c1 c2 c3 by (auto simp: n)
    qed
  qed
qed

text \<open>
  C11. The system calls that change a directory. Each of \<^verbatim>\<open>mkdir\<close>, \<^verbatim>\<open>rmdir\<close>, \<^verbatim>\<open>unlink\<close> and \<^verbatim>\<open>mknod\<close>, when it
  returns, has taken one of three ways: without a parent directory or a last component it returns
  \<^verbatim>\<open>-ENOENT\<close>, without the right to write the parent \<^verbatim>\<open>-EPERM\<close>, both with all reference counts as before;
  otherwise it returns what the operation of the file system returns, called once, on the parent with one
  more reference, and gives that reference back: of the counts, only what the operation itself changed is
  changed. The file systems keep the promise on \<^verbatim>\<open>namei\<close>, \<^verbatim>\<open>close\<close> and \<^verbatim>\<open>permission\<close> of \<open>counts_kept\<close>;
  nothing is assumed of the four operations.
\<close>

theorem path_calls_balance:
  assumes "counts_kept e"
    and "(call, act) \<in> {(sys_mkdir e s path mode, \<lambda>ops s d n. op_mkdir ops s d n mode), (sys_rmdir e s path, op_rmdir),
      (sys_unlink e s path, op_unlink), (sys_mknod e s path mode dev, \<lambda>ops s d n. op_mknod ops s d n mode dev)}"
    and "call = Some (ret, s')"
  shows "\<exists>d nxt s1. named e s path NULL = Some (d, nxt, s1) \<and>
    (if d = NULL \<or> d_mem s1 nxt = 0 then ret = - ENOENT \<and> counts s' = counts s
     else \<exists>ok s2. op_permission (fs_op e (i_op (inodes s1 d))) s1 d P_WRITE = Some (ok, s2) \<and>
       (if ok then \<exists>s3. counts s2 = inc d (counts s) \<and> act (fs_op e (i_op (inodes s2 d))) s2 d nxt = Some (ret, s3) \<and>
            counts s' = decr d (counts s3)
        else ret = - EPERM \<and> counts s' = counts s))"
proof -
  have "in_parent e s path act = Some (ret, s')"
    using assms(2,3) by (auto simp: sys_mkdir_def sys_rmdir_def sys_unlink_def sys_mknod_def)
  then show ?thesis by (rule in_parent_counts [OF assms(1)])
qed

theorem path_calls_balance_witness:
  "\<exists>s' d nxt s1 s2 s3. sys_mkdir sample_env sample_vfs 0x100 0 = Some (EOK, s') \<and>
    named sample_env sample_vfs 0x100 NULL = Some (d, nxt, s1) \<and>
    op_mkdir sample_ops s2 d nxt 0 = Some (EOK, s3) \<and> counts s2 = inc d (counts sample_vfs) \<and> counts s' = decr d (counts s3)"
proof -
  have m: "op_mkdir sample_ops s d n mode = Some (EOK, s)" for s d n mode by (simp add: sample_ops_def)
  have p: "d_mem sample_vfs 0x103 \<noteq> 0" "i_op (inodes sample_vfs 0x5000) \<noteq> 0" by (simp_all add: sample_path sample_root)
  have env: "fs_op sample_env x = sample_ops" for x by (simp add: sample_env_def)
  obtain s' where s': "sys_mkdir sample_env sample_vfs 0x100 0 = Some (EOK, s')"
    by (simp add: sys_mkdir_def in_parent_def sample_named m p iput_def)
  have call: "(sys_mkdir sample_env sample_vfs 0x100 0, \<lambda>ops s d n. op_mkdir ops s d n 0) \<in>
      {(sys_mkdir sample_env sample_vfs 0x100 0, \<lambda>ops s d n. op_mkdir ops s d n 0), (sys_rmdir sample_env sample_vfs 0x100, op_rmdir),
       (sys_unlink sample_env sample_vfs 0x100, op_unlink), (sys_mknod sample_env sample_vfs 0x100 0 0, \<lambda>ops s d n. op_mknod ops s d n 0 0)}"
    by simp
  have "EOK \<noteq> - ENOENT" "EOK \<noteq> - EPERM" by (simp_all add: EOK_def ENOENT_def EPERM_def)
  then show ?thesis using path_calls_balance [OF sample_counts_kept call s'] s' unfolding env
    by (auto split: if_splits)
qed

text \<open>
  When a task has all descriptors in use, opening a directory fails with \<^verbatim>\<open>-EMFILE\<close> and keeps
  both references it took: the directory can never be released again.
\<close>

theorem sys_open_leaks:
  assumes "counts_kept e" and "named e s filename NULL = Some (d, nxt, s1)" and "d \<noteq> NULL" and "d_mem s1 nxt = 0"
    and "length (t_files (me s1)) = TASK_FILE_NR" and "NULL \<notin> set (drop 3 (t_files (me s1)))"
  shows "\<exists>s2. sys_open e s filename flags mode = Some (- EMFILE, s2) \<and> counts s2 = inc d (inc d (counts s))"
proof -
  let ?fs = "drop 3 (t_files (me s1))"
  have "fd_get_loop ?fs 3 = 3 + length ?fs"
  proof (rule ccontr)
    assume ne: "fd_get_loop ?fs 3 \<noteq> 3 + length ?fs"
    note spec = fd_get_loop_spec [of 3 ?fs]
    have lt: "fd_get_loop ?fs 3 - 3 < length ?fs" using spec ne by linarith
    have "?fs ! (fd_get_loop ?fs 3 - 3) = NULL" using spec ne by (metis le_neq_implies_less)
    then show False using nth_mem [OF lt] assms(6) by metis
  qed
  then have "fd_get (upd_count s1 d) = Some (- EMFILE, NULL, upd_count s1 d)"
    using assms(5) by (simp add: fd_get_def Let_def TASK_FILE_NR_def)
  then have "sys_open e s filename flags mode = Some (- EMFILE, upd_count s1 d)"
    using assms(2-4) by (simp add: sys_open_def open_fd_def EMFILE_def EOK_def)
  moreover have "counts (upd_count s1 d) = inc d (inc d (counts s))"
    using named_balances_counts [OF assms(1,2)] assms(3) by simp
  ultimately show ?thesis by blast
qed

text \<open>
  Seeking relative to the end tests an unsigned sum: the position becomes negative when the
  offset goes back behind the start, while a negative absolute position stops the kernel.
\<close>

theorem sys_lseek_ends:
  assumes "fd_check s fd = Some (EOK, file)" and "fl_inode (files s file) \<noteq> NULL"
  shows "sys_lseek s fd offset SEEK_END =
      (let pos = i_size (inodes s (fl_inode (files s file))) + offset in Some (pos, upd_file s file (\<lambda>f. f\<lparr>fl_offset := pos\<rparr>))) \<and>
    sys_lseek s fd offset SEEK_SET =
      (if sint offset < 0 then None else Some (offset, upd_file s file (\<lambda>f. f\<lparr>fl_offset := offset\<rparr>)))"
  using assms by (simp add: sys_lseek_def Let_def SEEK_SET_def SEEK_CUR_def SEEK_END_def EOK_def)

text \<open>All descriptors in use, and the path of the root directory in memory.\<close>

definition sample_full :: vfs where
  "sample_full = upd_me (sample_vfs\<lparr>d_mem := put_bytes (\<lambda>_. 0) 0x100 [47, 0]\<rparr>) (\<lambda>t. t\<lparr>t_files := replicate 16 0xa030\<rparr>)"

lemma sample_full_simps:
  "d_mem sample_full = (\<lambda>_. 0)(0x100 := 47, 0x101 := 0)" "t_files (me sample_full) = replicate 16 0xa030"
  "t_iroot (me sample_full) = 0x5000" "inodes sample_full = inodes sample_vfs" "files sample_full = files sample_vfs"
proof -
  have [simp]: "me (s\<lparr>d_mem := m\<rparr>) = me s" for s :: vfs and m by (simp add: me_def)
  show "d_mem sample_full = (\<lambda>_. 0)(0x100 := 47, 0x101 := 0)" "t_files (me sample_full) = replicate 16 0xa030"
    "t_iroot (me sample_full) = 0x5000" "inodes sample_full = inodes sample_vfs" "files sample_full = files sample_vfs"
    by (simp_all add: sample_full_def sample_me)
qed

theorem sys_open_leaks_witness:
  "\<exists>s2. sys_open sample_env sample_full 0x100 0 0 = Some (- EMFILE, s2) \<and> counts s2 0x5000 = 3"
proof -
  have n: "named sample_env sample_full 0x100 NULL = Some (0x5000, 0x101, upd_count sample_full 0x5000)"
    by (simp add: named_def Let_def sample_full_simps IS_SEPARATOR_def sample_root)
  have "\<exists>s2. sys_open sample_env sample_full 0x100 0 0 = Some (- EMFILE, s2) \<and> counts s2 = inc 0x5000 (inc 0x5000 (counts sample_full))"
    by (rule sys_open_leaks [OF sample_counts_kept n]) (simp_all add: sample_full_simps TASK_FILE_NR_def)
  moreover have "inc 0x5000 (inc 0x5000 (counts sample_full)) 0x5000 = 3"
    by (simp add: inc_def counts_def sample_full_simps sample_root)
  ultimately show ?thesis by metis
qed

theorem sys_lseek_ends_witness:
  "\<exists>s'. sys_lseek (upd_file sample_full 0xa030 (\<lambda>f. f\<lparr>fl_inode := 0x5000\<rparr>)) 3 (- 1) SEEK_END = Some (- 1, s')"
proof -
  let ?s = "upd_file sample_full 0xa030 (\<lambda>f. f\<lparr>fl_inode := 0x5000\<rparr>)"
  have "fd_check ?s 3 = Some (EOK, 0xa030)" by (simp add: fd_check_def sample_full_simps TASK_FILE_NR_def)
  moreover have f: "fl_inode (files ?s 0xa030) = 0x5000" by simp
  ultimately have "sys_lseek ?s 3 (- 1) SEEK_END =
      (let pos = i_size (inodes ?s 0x5000) + (- 1) in Some (pos, upd_file ?s 0xa030 (\<lambda>f. f\<lparr>fl_offset := pos\<rparr>)))"
    using sys_lseek_ends [of ?s 3 "0xa030" "- 1"] by (simp only: f) simp
  then show ?thesis by (simp add: Let_def sample_full_simps sample_root zero_inode_def)
qed

end
