(* ===== verification/Onix_Process.thy ===== *)
theory Onix_Process
  imports Onix_Fsyscall Onix_Signal
begin

section \<open>Processes (src/kernel/task.c, src/kernel/system.c)\<close>

text \<open>
  Creation, fork, exit and wait, over the whole kernel state: tasks, kernel heap and pages, page
  tables, files and inodes. New here are the two frames at the top of a task's kernel stack, the
  floating point images, the page that holds the bits of a task's memory bitmap, and the process
  group of a terminal.

  \<^verbatim>\<open>task_exit\<close> does not return: the model ends at its last switch. \<^verbatim>\<open>task_waitpid\<close> that finds only
  living children waits, and continues in the state in which it runs again (\<open>dn_others\<close>).
\<close>

record task_frame_t =
  tf_edi :: u32
  tf_esi :: u32
  tf_ebx :: u32
  tf_ebp :: u32
  tf_eip :: u32

record psys = vfs +
  ps_iframe :: "u32 \<Rightarrow> intr_frame_t"
  ps_tframe :: "u32 \<Rightarrow> task_frame_t"
  ps_fpu :: "u32 \<Rightarrow> u8 list"
  vmap_bits :: "u32 \<Rightarrow> u32"
  tty_pgid :: "u32 \<Rightarrow> u32"

type_synonym 'x penv = "('x psys_ext) fsenv"

definition BITMAP_SIZE :: u32 where "BITMAP_SIZE = 12"
definition FPU_T_SIZE :: u32 where "FPU_T_SIZE = 108"
definition TASK_FRAME_SIZE :: u32 where "TASK_FRAME_SIZE = 20"
definition INTR_FRAME_SIZE :: u32 where "INTR_FRAME_SIZE = 80"
definition USER_MMAP_SIZE :: u32 where "USER_MMAP_SIZE = 0x8000000"
definition USER_CODE_SELECTOR :: u32 where "USER_CODE_SELECTOR = 0x23"
definition USER_DATA_SELECTOR :: u32 where "USER_DATA_SELECTOR = 0x2b"
definition TASK_NAME_LEN :: nat where "TASK_NAME_LEN = 16"
definition ESRCH :: u32 where "ESRCH = 3"

subsection \<open>Calls into the memory code\<close>

definition on_k :: "'x dsys_scheme \<Rightarrow> (kernel \<Rightarrow> kernel option) \<Rightarrow> 'x dsys_scheme option" where
  "on_k s f = do { k \<leftarrow> f (d_k s); Some (with_k s k) }"

definition p_kmalloc :: "'x dsys_scheme \<Rightarrow> u32 \<Rightarrow> (u32 \<times> 'x dsys_scheme) option" where
  "p_kmalloc s n = do { (a, m) \<leftarrow> kmalloc (k_mem (d_k s)) n; Some (a, with_k s ((d_k s)\<lparr>k_mem := m\<rparr>)) }"

definition p_kfree :: "'x dsys_scheme \<Rightarrow> u32 \<Rightarrow> 'x dsys_scheme option" where
  "p_kfree s a = do { m \<leftarrow> kfree (k_mem (d_k s)) a; Some (with_k s ((d_k s)\<lparr>k_mem := m\<rparr>)) }"

definition with_pool :: "'x dsys_scheme \<Rightarrow> page_pool \<Rightarrow> 'x dsys_scheme" where
  "with_pool s p = with_k s ((d_k s)\<lparr>k_mem := (k_mem (d_k s))\<lparr>km_pool := p\<rparr>\<rparr>)"

definition p_alloc_page :: "'x dsys_scheme \<Rightarrow> (u32 \<times> 'x dsys_scheme) option" where
  "p_alloc_page s = do { (a, p) \<leftarrow> alloc_kpage (km_pool (k_mem (d_k s))) 1; Some (a, with_pool s p) }"

definition p_free_page :: "'x dsys_scheme \<Rightarrow> u32 \<Rightarrow> 'x dsys_scheme option" where
  "p_free_page s a = do { p \<leftarrow> free_kpage (km_pool (k_mem (d_k s))) a 1; Some (with_pool s p) }"

text \<open>The result of an operation on the page tables, put back into the kernel state.\<close>

definition put_vm :: "'x vfs_scheme \<Rightarrow> vm \<Rightarrow> 'x vfs_scheme" where
  "put_vm s v = (let s = with_pool s (pool v) in with_k s ((d_k s)\<lparr>k_cr3 := cr3 v\<rparr>)\<lparr>v_vm := v\<rparr>)"

definition on_vmap :: "'x vfs_scheme \<Rightarrow> u32 \<Rightarrow> bitmap_t \<Rightarrow> 'x vfs_scheme" where
  "on_vmap s a m = s\<lparr>v_vm := (v_vm s)\<lparr>vmaps := (vmaps (v_vm s))(a := m)\<rparr>\<rparr>"

subsection \<open>Creating tasks\<close>

definition zero_action :: sigaction_t where
  "zero_action = \<lparr>sa_handler = 0, sa_mask = 0, sa_flags = 0, sa_restorer = 0\<rparr>"

definition zero_task :: task_t where
  "zero_task = \<lparr>t_stack = 0, t_state = TASK_INIT, t_priority = 0, t_ticks = 0, t_jiffies = 0,
     t_name = replicate TASK_NAME_LEN 0, t_uid = 0, t_gid = 0, t_pid = 0, t_ppid = 0, t_pgid = 0, t_sid = 0, t_tty = 0,
     t_pde = 0, t_vmap = None, t_text = 0, t_data = 0, t_end = 0, t_brk = 0, t_status = 0, t_waitpid = 0, t_pwd = 0,
     t_ipwd = 0, t_iroot = 0, t_iexec = 0, t_umask = 0, t_files = replicate TASK_FILE_NR 0, t_signal = 0, t_blocked = 0,
     t_alarm = 0, t_timer = 0, t_actions = replicate MAXSIG zero_action, t_fpu = 0, t_flags = 0, t_magic = 0\<rparr>"

fun free_slot :: "u32 list \<Rightarrow> nat \<Rightarrow> nat option" where
  "free_slot [] i = None"
| "free_slot (p # ps) i = (if p = NULL then Some i else free_slot ps (Suc i))"

definition get_free_task :: "'x dsys_scheme \<Rightarrow> (u32 \<times> 'x dsys_scheme) option" where
  "get_free_task s = do {
     i \<leftarrow> free_slot (task_table (d_k s)) 0;
     (task, s) \<leftarrow> p_alloc_page s;
     let k = (d_k s)\<lparr>k_mem := clear_mem (k_mem (d_k s)) task PAGE_SIZE\<rparr>;
     let k = upd_task k task (\<lambda>_. zero_task\<lparr>t_pid := of_nat i\<rparr>);
     Some (task, with_k s (k\<lparr>task_table := (task_table k)[i := task]\<rparr>))
   }"

definition upd_t :: "'x dsys_scheme \<Rightarrow> u32 \<Rightarrow> (task_t \<Rightarrow> task_t) \<Rightarrow> 'x dsys_scheme" where
  "upd_t s t f = with_k s (upd_task (d_k s) t f)"

definition inc_file :: "'x vfs_scheme \<Rightarrow> u32 \<Rightarrow> 'x vfs_scheme" where
  "inc_file s p = upd_file s p (\<lambda>f. f\<lparr>fl_count := fl_count f + 1\<rparr>)"

text \<open>\<open>name\<close> is the string without its end; it must fit in the 16 bytes of the task.\<close>

definition task_create :: "'x psys_scheme \<Rightarrow> u32 \<Rightarrow> u8 list \<Rightarrow> u32 \<Rightarrow> u32 \<Rightarrow> (u32 \<times> 'x psys_scheme) option" where
  "task_create s target name priority uid = do {
     (task, s) \<leftarrow> get_free_task s;
     let stack = task + PAGE_SIZE - TASK_FRAME_SIZE;
     let s = s\<lparr>ps_tframe := (ps_tframe s)(task := \<lparr>tf_edi = 0x33333333, tf_esi = 0x22222222, tf_ebx = 0x11111111,
               tf_ebp = 0x44444444, tf_eip = target\<rparr>)\<rparr>;
     kassert (length name < TASK_NAME_LEN);
     let s = upd_t s task (\<lambda>t. t\<lparr>t_name := name @ 0 # drop (Suc (length name)) (t_name t), t_stack := stack,
               t_priority := priority, t_ticks := priority, t_jiffies := 0, t_state := TASK_READY, t_uid := uid,
               t_gid := 0, t_pgid := 0, t_sid := 0, t_vmap := None, t_pde := KERNEL_PAGE_DIR, t_brk := USER_EXEC_ADDR,
               t_text := USER_EXEC_ADDR, t_data := USER_EXEC_ADDR, t_end := USER_EXEC_ADDR, t_iexec := NULL\<rparr>);
     let root = get_root_inode s;
     let s = upd_t s task (\<lambda>t. t\<lparr>t_ipwd := root, t_iroot := root\<rparr>);
     let s = upd_inode s root (\<lambda>i. i\<lparr>i_count := i_count i + 2\<rparr>);
     (pwd, s) \<leftarrow> p_alloc_page s;
     let s = s\<lparr>d_mem := put_bytes (d_mem s) pwd [47, 0]\<rparr>;
     let s = upd_t s task (\<lambda>t. t\<lparr>t_pwd := pwd, t_umask := 18\<rparr>);
     let s = upd_t s task (\<lambda>t. t\<lparr>t_files := [file_at s 0, file_at s 1, file_at s 2] @ drop 3 (t_files t)\<rparr>);
     let s = inc_file (inc_file (inc_file s (file_at s 0)) (file_at s 1)) (file_at s 2);
     let s = upd_t s task (\<lambda>t. t\<lparr>t_signal := 0, t_blocked := 0, t_actions := replicate MAXSIG zero_action,
               t_timer := NULL, t_alarm := NULL, t_magic := ONIX_MAGIC\<rparr>);
     Some (task, s)
   }"

text \<open>
  \<^verbatim>\<open>task_to_user_mode\<close> up to the interrupt return; \<open>entry\<close> is the address of \<^verbatim>\<open>init_user_thread\<close>.
\<close>

definition task_to_user_mode :: "'x psys_scheme \<Rightarrow> u32 \<Rightarrow> 'x psys_scheme option" where
  "task_to_user_mode s entry = do {
     let task = running_task (d_k s);
     (vmap, s) \<leftarrow> p_kmalloc s BITMAP_SIZE;
     let s = upd_t s task (\<lambda>t. t\<lparr>t_vmap := Some vmap\<rparr>);
     (buf, s) \<leftarrow> p_alloc_page s;
     m \<leftarrow> bitmap_init (replicate (unat PAGE_SIZE) 0) (USER_MMAP_SIZE div PAGE_SIZE div 8) (USER_MMAP_ADDR div PAGE_SIZE);
     let s = (on_vmap s vmap m)\<lparr>vmap_bits := (vmap_bits s)(vmap := buf)\<rparr>;
     (pde, v) \<leftarrow> copy_pde (vm_now s) (me s);
     let s = upd_t (put_vm s v) task (\<lambda>t. t\<lparr>t_pde := pde\<rparr>);
     v \<leftarrow> set_cr3 (vm_now s) pde;
     let s = put_vm s v;
     Some (s\<lparr>ps_iframe := (ps_iframe s)(task := (ps_iframe s task)\<lparr>if_vector := 0x20, if_edi := 1, if_esi := 2, if_ebp := 3,
       if_esp_dummy := 4, if_ebx := 5, if_edx := 6, if_ecx := 7, if_eax := 8, if_gs := 0, if_ds := USER_DATA_SELECTOR,
       if_es := USER_DATA_SELECTOR, if_fs := USER_DATA_SELECTOR, if_ss := USER_DATA_SELECTOR, if_cs := USER_CODE_SELECTOR,
       if_error := ONIX_MAGIC, if_eip := entry, if_eflags := 0x202, if_esp := USER_STACK_TOP\<rparr>)\<rparr>)
   }"

subsection \<open>Fork\<close>

text \<open>\<open>interrupt_exit\<close> is the address of the code that returns from an interrupt.\<close>

definition task_build_stack :: "u32 \<Rightarrow> 'x psys_scheme \<Rightarrow> u32 \<Rightarrow> 'x psys_scheme" where
  "task_build_stack interrupt_exit s task =
     upd_t (s\<lparr>ps_iframe := (ps_iframe s)(task := (ps_iframe s task)\<lparr>if_eax := 0\<rparr>),
              ps_tframe := (ps_tframe s)(task := \<lparr>tf_edi = 0xaa55aa55, tf_esi = 0xaa55aa55, tf_ebx = 0xaa55aa55,
                tf_ebp = 0xaa55aa55, tf_eip = interrupt_exit\<rparr>)\<rparr>)
       task (\<lambda>t. t\<lparr>t_stack := task + PAGE_SIZE - INTR_FRAME_SIZE - TASK_FRAME_SIZE\<rparr>)"

fun inc_files :: "'x vfs_scheme \<Rightarrow> u32 list \<Rightarrow> 'x vfs_scheme" where
  "inc_files s [] = s"
| "inc_files s (f # fs) = inc_files (if f \<noteq> NULL then inc_file s f else s) fs"

definition fork_fpu :: "'x psys_scheme \<Rightarrow> u32 \<Rightarrow> u32 \<Rightarrow> 'x psys_scheme option" where
  "fork_fpu s child fpu =
     (if fpu \<noteq> NULL then do {
        (a, s) \<leftarrow> p_kmalloc s FPU_T_SIZE;
        let s = upd_t s child (\<lambda>t. t\<lparr>t_fpu := a\<rparr>);
        Some (s\<lparr>ps_fpu := (ps_fpu s)(a := ps_fpu s fpu)\<rparr>)
      } else Some s)"

definition task_fork :: "u32 \<Rightarrow> 'x psys_scheme \<Rightarrow> (u32 \<times> 'x psys_scheme) option" where
  "task_fork interrupt_exit s = do {
     let task = running_task (d_k s);
     kassert (node_next (k_heap (d_k s)) (task_node task) = NULL \<and> node_prev (k_heap (d_k s)) (task_node task) = NULL \<and>
       t_state (me s) = TASK_RUNNING);
     (child, s) \<leftarrow> get_free_task s;
     let pid = t_pid (k_tasks (d_k s) child);
     let s = (upd_t s child (\<lambda>_. me s))\<lparr>ps_iframe := (ps_iframe s)(child := ps_iframe s task)\<rparr>;
     let s = upd_t s child (\<lambda>t. t\<lparr>t_pid := pid, t_ppid := t_pid (me s), t_ticks := t_priority t, t_state := TASK_READY\<rparr>);
     (vmap, s) \<leftarrow> p_kmalloc s BITMAP_SIZE;
     let s = upd_t s child (\<lambda>t. t\<lparr>t_vmap := Some vmap\<rparr>);
     let s = on_vmap s vmap (get_vmap (vm_now s) (t_vmap (me s)));
     (buf, s) \<leftarrow> p_alloc_page s;
     let s = s\<lparr>vmap_bits := (vmap_bits s)(vmap := buf)\<rparr>;
     s \<leftarrow> fork_fpu s child (t_fpu (me s));
     (pde, v) \<leftarrow> copy_pde (vm_now s) (me s);
     let s = upd_t (put_vm s v) child (\<lambda>t. t\<lparr>t_pde := pde\<rparr>);
     (pwd, s) \<leftarrow> p_alloc_page s;
     let s = upd_t s child (\<lambda>t. t\<lparr>t_pwd := pwd\<rparr>);
     let s = s\<lparr>d_mem := snd (strncpy (d_mem s) pwd (t_pwd (me s)) PAGE_SIZE)\<rparr>;
     kassert (t_ipwd (me s) \<noteq> NULL \<and> t_iroot (me s) \<noteq> NULL);
     let s = upd_count (upd_count s (t_ipwd (me s))) (t_iroot (me s));
     let s = (if t_iexec (me s) \<noteq> NULL then upd_count s (t_iexec (me s)) else s);
     let s = inc_files s (t_files (k_tasks (d_k s) child));
     Some (pid, task_build_stack interrupt_exit s child)
   }"

subsection \<open>Exit\<close>

text \<open>Every task of the table that satisfies a condition is changed.\<close>

fun each_task :: "kernel \<Rightarrow> u32 list \<Rightarrow> (kernel \<Rightarrow> u32 \<Rightarrow> bool) \<Rightarrow> (task_t \<Rightarrow> task_t) \<Rightarrow> kernel" where
  "each_task k [] P f = k"
| "each_task k (p # ps) P f = each_task (if p \<noteq> NULL \<and> P k p then upd_task k p f else k) ps P f"

definition task_kill_session :: "kernel \<Rightarrow> u32 \<Rightarrow> kernel" where
  "task_kill_session k task =
     (if \<not> task_leader k task then k
      else each_task k (task_table k) (\<lambda>k p. task \<noteq> p \<and> t_sid (k_tasks k task) = t_sid (k_tasks k p))
        (\<lambda>t. t\<lparr>t_signal := t_signal t OR SIGMASK SIGHUP\<rparr>))"

definition task_free_tty :: "'x psys_scheme \<Rightarrow> u32 \<Rightarrow> 'x psys_scheme option" where
  "task_free_tty s task =
     (if task_leader (d_k s) task \<and> sint (t_tty (k_tasks (d_k s) task)) > 0 then do {
        d \<leftarrow> device_get s (t_tty (k_tasks (d_k s) task));
        Some (s\<lparr>tty_pgid := (tty_pgid s)(dv_ptr (devices s ! d) := 0)\<rparr>)
      } else Some s)"

fun tell_father_loop :: "kernel \<Rightarrow> u32 list \<Rightarrow> u32 \<Rightarrow> kernel option" where
  "tell_father_loop k [] ppid = None"
| "tell_father_loop k (p # ps) ppid =
     (if p = NULL \<or> t_pid (k_tasks k p) \<noteq> ppid then tell_father_loop k ps ppid
      else Some (upd_task k p (\<lambda>t. t\<lparr>t_signal := t_signal t OR SIGMASK SIGCHLD\<rparr>)))"

definition task_tell_father :: "kernel \<Rightarrow> u32 \<Rightarrow> kernel option" where
  "task_tell_father k task =
     (if t_ppid (k_tasks k task) = 0 then Some k
      else tell_father_loop k (task_table k) (t_ppid (k_tasks k task)))"

fun close_files :: "nat \<Rightarrow> nat \<Rightarrow> 'x penv \<Rightarrow> 'x psys_scheme \<Rightarrow> u32 \<Rightarrow> 'x psys_scheme option" where
  "close_files 0 i e s task = Some s"
| "close_files (Suc n) i e s task = do {
     s \<leftarrow> (if t_files (k_tasks (d_k s) task) ! i \<noteq> NULL then sys_close e s (of_nat i) else Some s);
     close_files n (Suc i) e s task
   }"

definition exit_fpu :: "'x psys_scheme \<Rightarrow> u32 \<Rightarrow> 'x psys_scheme option" where
  "exit_fpu s task =
     (if t_fpu (k_tasks (d_k s) task) \<noteq> NULL then do {
        s \<leftarrow> p_kfree s (t_fpu (k_tasks (d_k s) task));
        Some (upd_t s task (\<lambda>t. t\<lparr>t_fpu := NULL, t_flags := 0\<rparr>))
      } else Some s)"

text \<open>What a task holds, given back: timers, page tables, bitmap, FPU image, working directory, inodes, files.\<close>

definition exit_memory :: "'x psys_scheme \<Rightarrow> u32 \<Rightarrow> 'x psys_scheme option" where
  "exit_memory s task = do {
     s \<leftarrow> on_k s (\<lambda>k. timer_remove k task);
     v \<leftarrow> free_pde (vm_now s) (me s);
     let s = put_vm s v;
     vmap \<leftarrow> t_vmap (k_tasks (d_k s) task);
     s \<leftarrow> p_free_page s (vmap_bits s vmap);
     s \<leftarrow> p_kfree s vmap;
     s \<leftarrow> exit_fpu s task;
     p_free_page s (t_pwd (k_tasks (d_k s) task))
   }"

definition exit_files :: "'x penv \<Rightarrow> 'x psys_scheme \<Rightarrow> u32 \<Rightarrow> 'x psys_scheme option" where
  "exit_files e s task = do {
     s \<leftarrow> iput e s (t_ipwd (k_tasks (d_k s) task));
     s \<leftarrow> iput e s (t_iroot (k_tasks (d_k s) task));
     s \<leftarrow> iput e s (t_iexec (k_tasks (d_k s) task));
     close_files TASK_FILE_NR 0 e s task
   }"

text \<open>The end: the children get the father's number, a father that waits for this task is woken.\<close>

definition exit_leave :: "kernel \<Rightarrow> u32 \<Rightarrow> kernel option" where
  "exit_leave k task = do {
     let k = each_task k (drop 2 (task_table k)) (\<lambda>k p. t_ppid (k_tasks k p) = t_pid (k_tasks k task))
               (\<lambda>t. t\<lparr>t_ppid := t_ppid (k_tasks k task)\<rparr>);
     let ppid = t_ppid (k_tasks k task);
     kassert (unat ppid < length (task_table k));
     let parent = task_table k ! unat ppid;
     kassert (parent \<noteq> NULL);
     let p = k_tasks k parent;
     k \<leftarrow> (if t_state p = TASK_WAITING \<and> (t_waitpid p = - 1 \<or> t_waitpid p = t_pid (k_tasks k task))
           then task_unblock k parent EOK else Some k);
     schedule k
   }"

definition task_exit :: "'x penv \<Rightarrow> 'x psys_scheme \<Rightarrow> u32 \<Rightarrow> 'x psys_scheme option" where
  "task_exit e s status = do {
     let task = running_task (d_k s);
     kassert (node_next (k_heap (d_k s)) (task_node task) = NULL \<and> node_prev (k_heap (d_k s)) (task_node task) = NULL \<and>
       t_state (me s) = TASK_RUNNING);
     let s = upd_t s task (\<lambda>t. t\<lparr>t_state := TASK_DIED, t_status := status\<rparr>);
     let s = with_k s (task_kill_session (d_k s) task);
     s \<leftarrow> on_k s (\<lambda>k. task_tell_father k task);
     s \<leftarrow> task_free_tty s task;
     s \<leftarrow> exit_memory s task;
     s \<leftarrow> exit_files e s task;
     on_k s (\<lambda>k. exit_leave k task)
   }"

subsection \<open>Waiting for a child\<close>

text \<open>The search: the index of a dead child that matches, or whether there is a living one.\<close>

datatype wait_scan = Dead nat | Alive | Childless

fun wait_loop :: "kernel \<Rightarrow> u32 list \<Rightarrow> nat \<Rightarrow> u32 \<Rightarrow> u32 \<Rightarrow> bool \<Rightarrow> wait_scan" where
  "wait_loop k [] i me_pid pid has_child = (if has_child then Alive else Childless)"
| "wait_loop k (p # ps) i me_pid pid has_child =
     (if p = NULL \<or> t_ppid (k_tasks k p) \<noteq> me_pid \<or> (pid \<noteq> t_pid (k_tasks k p) \<and> pid \<noteq> - 1)
      then wait_loop k ps (Suc i) me_pid pid has_child
      else if t_state (k_tasks k p) = TASK_DIED then Dead i
      else wait_loop k ps (Suc i) me_pid pid True)"

text \<open>The results are the value returned and, when a child was found, what is stored in \<^verbatim>\<open>*status\<close>.\<close>

partial_function (option) task_waitpid ::
  "'x denv \<Rightarrow> 'x dsys_scheme \<Rightarrow> u32 \<Rightarrow> (u32 \<times> u32 option \<times> 'x dsys_scheme) option" where
  "task_waitpid e s pid =
     (let k = d_k s; task = running_task k; r = wait_loop k (drop 2 (task_table k)) 2 (t_pid (k_tasks k task)) pid False in
      if r = Childless then Some (- 1, None, s)
      else if r = Alive then do {
        let s = upd_t s task (\<lambda>t. t\<lparr>t_waitpid := pid\<rparr>);
        s \<leftarrow> on_k s (\<lambda>k. task_block k task NULL TASK_WAITING TIMELESS);
        s \<leftarrow> dn_others e s;
        task_waitpid e s pid
      }
      else do {
        let i = (case r of Dead i \<Rightarrow> i | _ \<Rightarrow> 0);
        let child = task_table k ! i;
        let s = with_k s (k\<lparr>task_table := (task_table k)[i := NULL]\<rparr>);
        let c = k_tasks k child;
        s \<leftarrow> p_free_page s child;
        Some (t_pid c, Some (t_status c), s)
      })"

subsection \<open>Bringing the tasks up\<close>

definition task_setup :: "'x dsys_scheme \<Rightarrow> 'x dsys_scheme" where
  "task_setup s = (let s = upd_me s (\<lambda>t. t\<lparr>t_magic := ONIX_MAGIC, t_ticks := 1\<rparr>) in
     with_k s ((d_k s)\<lparr>task_table := replicate TASK_NR NULL\<rparr>))"

definition task_init :: "'x psys_scheme \<Rightarrow> u32 \<Rightarrow> u32 \<Rightarrow> 'x psys_scheme option" where
  "task_init s idle_thread init_thread = do {
     s \<leftarrow> on_heap s (\<lambda>h. list_init h (block_list (d_k s)));
     s \<leftarrow> on_heap s (\<lambda>h. list_init h (sleep_list (d_k s)));
     let s = task_setup s;
     (idle, s) \<leftarrow> task_create s idle_thread [105, 100, 108, 101] 1 KERNEL_USER;
     let s = with_k s ((d_k s)\<lparr>idle_task := idle\<rparr>);
     (_, s) \<leftarrow> task_create s init_thread [105, 110, 105, 116] 5 NORMAL_USER;
     Some s
   }"

subsection \<open>Process groups and sessions\<close>

definition sys_umask :: "'x dsys_scheme \<Rightarrow> u16 \<Rightarrow> u16 \<times> 'x dsys_scheme" where
  "sys_umask s m = (t_umask (me s), upd_me s (\<lambda>t. t\<lparr>t_umask := m AND 0x1ff\<rparr>))"

fun setpgid_loop :: "kernel \<Rightarrow> u32 list \<Rightarrow> u32 \<Rightarrow> u32 \<Rightarrow> u32 \<times> kernel" where
  "setpgid_loop k [] pid pgid = (- ESRCH, k)"
| "setpgid_loop k (p # ps) pid pgid =
     (if p = NULL \<or> t_pid (k_tasks k p) \<noteq> pid then setpgid_loop k ps pid pgid
      else if task_leader k p then (- EPERM, k)
      else if t_sid (k_tasks k p) \<noteq> t_sid (k_tasks k (running_task k)) then (- EPERM, k)
      else (EOK, upd_task k p (\<lambda>t. t\<lparr>t_pgid := pgid\<rparr>)))"

definition sys_setpgid :: "kernel \<Rightarrow> u32 \<Rightarrow> u32 \<Rightarrow> u32 \<times> kernel" where
  "sys_setpgid k pid pgid =
     (let own = t_pid (k_tasks k (running_task k));
          pid = (if pid = 0 then own else pid); pgid = (if pgid = 0 then own else pgid) in
      setpgid_loop k (task_table k) pid pgid)"

definition sys_getpgrp :: "kernel \<Rightarrow> u32" where
  "sys_getpgrp k = t_pgid (k_tasks k (running_task k))"

definition sys_setsid :: "kernel \<Rightarrow> u32 \<times> kernel" where
  "sys_setsid k =
     (let task = running_task k in
      if task_leader k task then (- EPERM, k)
      else let k = upd_task k task (\<lambda>t. t\<lparr>t_sid := t_pid t, t_pgid := t_pid t\<rparr>) in (t_sid (k_tasks k task), k))"

subsection \<open>Waiting\<close>

definition child_of :: "kernel \<Rightarrow> u32 \<Rightarrow> u32 \<Rightarrow> u32 \<Rightarrow> bool" where
  "child_of k me_pid pid p \<longleftrightarrow> p \<noteq> NULL \<and> t_ppid (k_tasks k p) = me_pid \<and> (pid = - 1 \<or> t_pid (k_tasks k p) = pid)"

lemma wait_loop_cases:
  "wait_loop k ps i me_pid pid has = r \<Longrightarrow>
    (case r of
       Dead j \<Rightarrow> i \<le> j \<and> j < i + length ps \<and> child_of k me_pid pid (ps ! (j - i)) \<and> t_state (k_tasks k (ps ! (j - i))) = TASK_DIED \<and>
         (\<forall>m < j - i. child_of k me_pid pid (ps ! m) \<longrightarrow> t_state (k_tasks k (ps ! m)) \<noteq> TASK_DIED)
     | Alive \<Rightarrow> (has \<or> (\<exists>p \<in> set ps. child_of k me_pid pid p)) \<and>
         (\<forall>p \<in> set ps. child_of k me_pid pid p \<longrightarrow> t_state (k_tasks k p) \<noteq> TASK_DIED)
     | Childless \<Rightarrow> \<not> has \<and> (\<forall>p \<in> set ps. \<not> child_of k me_pid pid p))"
proof (induction ps arbitrary: i has)
  case Nil
  then show ?case by auto
next
  case (Cons p ps)
  show ?case
  proof (cases "child_of k me_pid pid p")
    case False
    then have "wait_loop k ps (Suc i) me_pid pid has = r" using Cons.prems by (auto simp: child_of_def)
    from Cons.IH [OF this] False show ?thesis
      by (cases r) (auto simp: nth_Cons' Suc_diff_le less_Suc_eq_0_disj)
  next
    case c: True
    show ?thesis
    proof (cases "t_state (k_tasks k p) = TASK_DIED")
      case True
      then show ?thesis using c Cons.prems by (auto simp: child_of_def)
    next
      case False
      then have "wait_loop k ps (Suc i) me_pid pid True = r" using c Cons.prems by (auto simp: child_of_def)
      from Cons.IH [OF this] False c show ?thesis
        by (cases r) (auto simp: nth_Cons' Suc_diff_le less_Suc_eq_0_disj)
    qed
  qed
qed

text \<open>
  \<^verbatim>\<open>task_waitpid\<close>. A child that matches and is dead is collected: the one with the lowest number
  in the table is taken, its slot cleared, its page given back, its number and status are the result.
  Without any matching child the call fails at once, and with living ones only it waits and looks again.
\<close>

theorem waitpid_outcomes:
  fixes s :: "'x dsys_scheme" and e :: "'x denv" and pid :: u32
  defines "k \<equiv> d_k s" and "kids \<equiv> drop 2 (task_table (d_k s))"
  defines "mine \<equiv> child_of (d_k s) (t_pid (me s)) pid"
  shows "(\<exists>j < length kids. mine (kids ! j) \<and> t_state (k_tasks k (kids ! j)) = TASK_DIED \<and>
      (\<forall>m < j. mine (kids ! m) \<longrightarrow> t_state (k_tasks k (kids ! m)) \<noteq> TASK_DIED) \<and>
      task_waitpid e s pid = do {
        s \<leftarrow> p_free_page (with_k s (k\<lparr>task_table := (task_table k)[2 + j := NULL]\<rparr>)) (kids ! j);
        Some (t_pid (k_tasks k (kids ! j)), Some (t_status (k_tasks k (kids ! j))), s)
      }) \<or>
    (\<forall>p \<in> set kids. \<not> mine p) \<and> task_waitpid e s pid = Some (- 1, None, s) \<or>
    (\<exists>p \<in> set kids. mine p) \<and> (\<forall>p \<in> set kids. mine p \<longrightarrow> t_state (k_tasks k p) \<noteq> TASK_DIED) \<and>
      task_waitpid e s pid = do {
        s \<leftarrow> on_k (upd_me s (\<lambda>t. t\<lparr>t_waitpid := pid\<rparr>)) (\<lambda>k. task_block k (running_task (d_k s)) NULL TASK_WAITING TIMELESS);
        s \<leftarrow> dn_others e s;
        task_waitpid e s pid
      }"
proof -
  define r where "r = wait_loop k kids 2 (t_pid (me s)) pid False"
  note spec = wait_loop_cases [OF r_def [symmetric]]
  have w: "wait_loop (d_k s) (drop 2 (task_table (d_k s))) 2 (t_pid (k_tasks (d_k s) (running_task (d_k s)))) pid False = r"
    by (simp add: r_def k_def kids_def me_def)
  show ?thesis
  proof (cases r)
    case (Dead i)
    then have i: "2 \<le> i" "i < 2 + length kids" "mine (kids ! (i - 2))" "t_state (k_tasks k (kids ! (i - 2))) = TASK_DIED"
        "\<forall>m < i - 2. mine (kids ! m) \<longrightarrow> t_state (k_tasks k (kids ! m)) \<noteq> TASK_DIED"
      using spec by (simp_all add: mine_def k_def)
    obtain m where m: "i = 2 + m" using le_Suc_ex [OF i(1)] by blast
    then have "task_table k ! i = kids ! (i - 2)" using i(2) by (simp add: kids_def k_def)
    then have "task_waitpid e s pid = do {
        s \<leftarrow> p_free_page (with_k s (k\<lparr>task_table := (task_table k)[i := NULL]\<rparr>)) (kids ! (i - 2));
        Some (t_pid (k_tasks k (kids ! (i - 2))), Some (t_status (k_tasks k (kids ! (i - 2)))), s) }"
      using w Dead by (subst task_waitpid.simps) (simp add: Let_def k_def [symmetric])
    then show ?thesis using i m by (intro disjI1 exI [of _ m]) auto
  next
    case Alive
    then have "(\<exists>p \<in> set kids. mine p) \<and> (\<forall>p \<in> set kids. mine p \<longrightarrow> t_state (k_tasks k p) \<noteq> TASK_DIED)"
      using spec by (simp add: mine_def k_def)
    moreover have "task_waitpid e s pid = do {
        s \<leftarrow> on_k (upd_me s (\<lambda>t. t\<lparr>t_waitpid := pid\<rparr>)) (\<lambda>k. task_block k (running_task (d_k s)) NULL TASK_WAITING TIMELESS);
        s \<leftarrow> dn_others e s;
        task_waitpid e s pid }"
      using w Alive by (subst task_waitpid.simps) (simp add: Let_def upd_t_def upd_me_def)
    ultimately show ?thesis by blast
  next
    case Childless
    then have "\<forall>p \<in> set kids. \<not> mine p" using spec by (simp add: mine_def k_def)
    moreover have "task_waitpid e s pid = Some (- 1, None, s)"
      using w Childless by (subst task_waitpid.simps) (simp add: Let_def)
    ultimately show ?thesis by blast
  qed
qed

text \<open>Two children of the running task with number 1, the first alive, the second dead with status 7.\<close>

definition sample_family :: "'x dsys_scheme \<Rightarrow> 'x dsys_scheme" where
  "sample_family s = upd_t (upd_t s 0x3000 (\<lambda>t. t\<lparr>t_ppid := 1\<rparr>)) 0x4000
     (\<lambda>t. t\<lparr>t_ppid := 1, t_state := TASK_DIED, t_status := 7\<rparr>)"

theorem waitpid_outcomes_witness:
  "\<forall>e. task_waitpid e (sample_family sample_dsys) (- 1) = do {
     s \<leftarrow> p_free_page (with_k (sample_family sample_dsys) ((d_k (sample_family sample_dsys))\<lparr>task_table := [0x1000, 0x2000, 0x3000, 0, 0x5000, 0]\<rparr>)) 0x4000;
     Some (3, Some 7, s)
   }"
proof
  fix e :: "unit denv"
  let ?s = "sample_family sample_dsys"
  have k: "task_table (d_k ?s) = [0x1000, 0x2000, 0x3000, 0x4000, 0x5000, 0]" "t_pid (me ?s) = 1"
    "t_ppid (k_tasks (d_k ?s) 0x4000) = 1" "t_state (k_tasks (d_k ?s) 0x4000) = TASK_DIED" "t_status (k_tasks (d_k ?s) 0x4000) = 7"
    "t_pid (k_tasks (d_k ?s) 0x4000) = 3" "t_ppid (k_tasks (d_k ?s) 0x3000) = 1" "t_state (k_tasks (d_k ?s) 0x3000) = TASK_READY"
    "t_ppid (k_tasks (d_k ?s) 0x5000) = 0"
    by (simp_all add: sample_family_def upd_t_def sample_dsys_def with_heap_def me_def running_task_def sample_kernel_def
        ready_task_def sample_task_def)
  have drop: "drop 2 (task_table (d_k ?s)) = [0x3000, 0x4000, 0x5000, 0]" by (simp add: k numeral_2_eq_2)
  have mine: "child_of (d_k ?s) (t_pid (me ?s)) (- 1) 0x4000" by (simp add: child_of_def k)
  have not: "\<not> child_of (d_k ?s) (t_pid (me ?s)) (- 1) 0x5000" "\<not> child_of (d_k ?s) (t_pid (me ?s)) (- 1) 0"
    by (simp_all add: child_of_def k)
  from waitpid_outcomes [of ?s "- 1" e] show "task_waitpid e ?s (- 1) = do {
     s \<leftarrow> p_free_page (with_k ?s ((d_k ?s)\<lparr>task_table := [0x1000, 0x2000, 0x3000, 0, 0x5000, 0]\<rparr>)) 0x4000;
     Some (3, Some 7, s) }"
    unfolding drop
  proof (elim disjE exE conjE)
    fix j
    assume j: "j < length [0x3000, 0x4000, 0x5000, 0 :: u32]" "t_state (k_tasks (d_k ?s) ([0x3000, 0x4000, 0x5000, 0] ! j)) = TASK_DIED"
        "child_of (d_k ?s) (t_pid (me ?s)) (- 1) ([0x3000, 0x4000, 0x5000, 0] ! j)"
      and w: "task_waitpid e ?s (- 1) = do {
        s \<leftarrow> p_free_page (with_k ?s ((d_k ?s)\<lparr>task_table := (task_table (d_k ?s))[2 + j := NULL]\<rparr>)) ([0x3000, 0x4000, 0x5000, 0] ! j);
        Some (t_pid (k_tasks (d_k ?s) ([0x3000, 0x4000, 0x5000, 0] ! j)), Some (t_status (k_tasks (d_k ?s) ([0x3000, 0x4000, 0x5000, 0] ! j))), s) }"
    have "j = 0 \<or> j = 1 \<or> j = 2 \<or> j = 3" using j(1) by auto
    then have "j = 1" using j(2,3) not by (auto simp: k)
    then show ?thesis using w by (simp add: k numeral_eq_Suc)
  qed (use mine k in auto)
qed

subsection \<open>The last step of an exit\<close>

lemma timer_put_mem: "timer_put k t = Some k' \<Longrightarrow> \<exists>m. k' = k\<lparr>k_mem := m\<rparr>"
  by (auto simp: timer_put_def halt_simps)

lemma task_unblock_tasks:
  assumes "task_unblock k p r = Some k'"
  shows "k_tasks k' = (k_tasks k)(p := (k_tasks k p)\<lparr>t_timer := NULL, t_status := r, t_state := TASK_READY\<rparr>)"
    and "task_table k' = task_table k" and "running_task k' = running_task k" and "idle_task k' = idle_task k"
proof -
  let ?tm = "t_timer (k_tasks k p)"
  obtain k1 k2 where
    k1: "(if node_next (k_heap k) (task_node p) \<noteq> NULL
          then do { h \<leftarrow> list_remove (k_heap k) (task_node p); Some (with_heap k h) } else Some k) = Some k1"
    and k2: "(if t_timer (k_tasks k1 p) \<noteq> NULL then do {
            k \<leftarrow> (if \<not> tm_active (k_timers k1 (t_timer (k_tasks k1 p))) then timer_put k1 (t_timer (k_tasks k1 p)) else Some k1);
            Some (upd_task k p (\<lambda>t. t\<lparr>t_timer := NULL\<rparr>))
          } else Some k1) = Some k2"
    and k': "k' = upd_task k2 p (\<lambda>t. t\<lparr>t_status := r, t_state := TASK_READY\<rparr>)"
    using assms unfolding task_unblock_def Let_def by (auto simp only: bind_Some_iff kassert_Some option.inject)
  obtain m1 where m1: "k1 = k\<lparr>k_mem := m1\<rparr>"
    using k1 by (auto simp: with_heap_def halt_simps split: if_split_asm intro: that [of "k_mem k"])
  obtain m2 where m2: "k2 = upd_task (k\<lparr>k_mem := m2\<rparr>) p (\<lambda>t. t\<lparr>t_timer := NULL\<rparr>)"
  proof (cases "?tm = NULL")
    case True
    then have "k2 = k1" using k2 m1 by simp
    moreover have "upd_task k1 p (\<lambda>t. t\<lparr>t_timer := NULL\<rparr>) = k1" by (rule upd_task_id) (use True m1 in simp)
    ultimately show thesis using that m1 by metis
  next
    case False
    then obtain k3 where k3: "k2 = upd_task k3 p (\<lambda>t. t\<lparr>t_timer := NULL\<rparr>)" "k3 = k1 \<or> timer_put k1 ?tm = Some k3"
      using k2 m1 by (auto simp: halt_simps split: if_split_asm)
    then obtain m where "k3 = k1\<lparr>k_mem := m\<rparr>" using timer_put_mem by (metis kernel.surjective kernel.update_convs(1))
    then show thesis using that k3(1) m1 by simp
  qed
  show "k_tasks k' = (k_tasks k)(p := (k_tasks k p)\<lparr>t_timer := NULL, t_status := r, t_state := TASK_READY\<rparr>)"
    "task_table k' = task_table k" "running_task k' = running_task k" "idle_task k' = idle_task k"
    unfolding k' m2 by (simp_all add: running_task_def)
qed

lemma task_search_from:
  assumes "task_search k TASK_READY = Some n"
  shows "t_state (k_tasks k n) = TASK_READY \<or> n = idle_task k"
proof -
  have "\<not> k_intr k" using assms by (simp add: task_search_def halt_simps)
  then obtain m where "task_search k TASK_READY = Some m" "if \<exists>p. runnable k p then runnable k m else m = idle_task k"
    by (rule task_search_ready)
  then show ?thesis using assms by (auto simp: runnable_def split: if_splits)
qed

lemma schedule_tasks:
  assumes "schedule k = Some k'"
  shows "k_tasks k' = k_tasks (switch_to k (running_task k'))" and "task_table k' = task_table k"
    and "t_state (k_tasks k (running_task k')) = TASK_READY \<or> running_task k' = idle_task k"
proof -
  obtain n where n: "task_search k TASK_READY = Some n" "n \<noteq> NULL" "t_magic (k_tasks k n) = ONIX_MAGIC"
    using assms unfolding schedule_def Let_def by (auto simp only: bind_Some_iff kassert_Some)
  let ?k = "upd_task (upd_task k (running_task k) preempted) n (t_state_update (\<lambda>_. TASK_RUNNING))"
  have s: "schedule k = (if n = running_task k then Some ?k
      else Option.bind (task_activate (?k\<lparr>k_fpu_off := True\<rparr>) n) (\<lambda>k. Some (k\<lparr>k_current := n\<rparr>)))"
    using n assms preempt_eq [of k "running_task k"] by (auto simp: schedule_def Let_def halt_simps)
  have t: "k_tasks (switch_to k n) = k_tasks ?k" by (simp add: switch_to_def Let_def)
  have "k_tasks k' = k_tasks ?k \<and> task_table k' = task_table ?k \<and> running_task k' = n"
    using assms unfolding s
    by (auto simp: task_activate_def Let_def halt_simps running_task_def split: if_split_asm)
  then show "k_tasks k' = k_tasks (switch_to k (running_task k'))" "task_table k' = task_table k"
    "t_state (k_tasks k (running_task k')) = TASK_READY \<or> running_task k' = idle_task k"
    using t task_search_from [OF n(1)] by simp_all
qed

text \<open>The children of a task that exits are given to its father.\<close>

lemma reparent_spec:
  fixes k task pp ps
  defines "k' \<equiv> each_task k ps (\<lambda>k p. t_ppid (k_tasks k p) = t_pid (k_tasks k task)) (\<lambda>t. t\<lparr>t_ppid := pp\<rparr>)"
  assumes "t_pid (k_tasks k task) = own"
  shows "k_tasks k' = (\<lambda>q. if q \<in> set ps \<and> q \<noteq> NULL \<and> t_ppid (k_tasks k q) = own
      then (k_tasks k q)\<lparr>t_ppid := pp\<rparr> else k_tasks k q) \<and> task_table k' = task_table k \<and> running_task k' = running_task k \<and>
      idle_task k' = idle_task k"
  using assms(2) unfolding k'_def
proof (induction ps arbitrary: k)
  case (Cons p ps)
  let ?k = "if p \<noteq> NULL \<and> t_ppid (k_tasks k p) = own then upd_task k p (\<lambda>t. t\<lparr>t_ppid := pp\<rparr>) else k"
  have f: "k_tasks ?k = (k_tasks k)(p := if p \<noteq> NULL \<and> t_ppid (k_tasks k p) = own
      then (k_tasks k p)\<lparr>t_ppid := pp\<rparr> else k_tasks k p)" "task_table ?k = task_table k" "running_task ?k = running_task k"
      "idle_task ?k = idle_task k" "t_pid (k_tasks ?k task) = own" using Cons.prems by auto
  have "(\<lambda>q. if q \<in> set ps \<and> q \<noteq> NULL \<and> t_ppid (k_tasks ?k q) = own then (k_tasks ?k q)\<lparr>t_ppid := pp\<rparr> else k_tasks ?k q) =
      (\<lambda>q. if q \<in> set (p # ps) \<and> q \<noteq> NULL \<and> t_ppid (k_tasks k q) = own then (k_tasks k q)\<lparr>t_ppid := pp\<rparr> else k_tasks k q)"
    unfolding f(1) by (rule ext) simp
  with Cons.IH [OF f(5)] f(2-4) show ?case using Cons.prems by simp
qed simp

text \<open>
  C34. The last step of \<^verbatim>\<open>task_exit\<close>, taken by the running task that exits (not the idle task, and
  marked dead or, see below, running). When it returns, another task runs; every child of the exiting
  task (the first two entries of the table, idle and init, apart) now has the exiting task's father
  as its father and every other task the father it had; a father that waited for the exiting task
  or for any child is ready again with the reason \<open>EOK\<close>; and no other field of any further task
  has changed. A task still marked dead stays dead, so it is never chosen again; but if one of the
  calls before has waited for a device, which leaves the task marked as running, it becomes ready
  again and goes on running after its memory was given back.
\<close>

theorem exit_leave_effect:
  fixes k task
  defines "own \<equiv> t_pid (k_tasks k task)" and "pp \<equiv> t_ppid (k_tasks k task)"
  assumes "exit_leave k task = Some k'" and "running_task k = task" and "idle_task k \<noteq> task"
    and "t_state (k_tasks k task) \<in> {TASK_DIED, TASK_RUNNING}"
  shows "running_task k' \<noteq> task \<and>
    (\<forall>q. t_ppid (k_tasks k' q) =
       (if q \<in> set (drop 2 (task_table k)) \<and> q \<noteq> NULL \<and> t_ppid (k_tasks k q) = own then pp
        else t_ppid (k_tasks k q))) \<and>
    t_state (k_tasks k' task) = (if t_state (k_tasks k task) = TASK_RUNNING then TASK_READY else TASK_DIED) \<and>
    (if t_state (k_tasks k (task_table k ! unat pp)) = TASK_WAITING \<and>
        t_waitpid (k_tasks k (task_table k ! unat pp)) \<in> {- 1, own}
     then t_status (k_tasks k' (task_table k ! unat pp)) = EOK \<and>
       t_state (k_tasks k' (task_table k ! unat pp)) \<in> {TASK_READY, TASK_RUNNING}
     else t_status (k_tasks k' (task_table k ! unat pp)) = t_status (k_tasks k (task_table k ! unat pp))) \<and>
    (\<forall>q. q \<noteq> task \<longrightarrow> q \<noteq> task_table k ! unat pp \<longrightarrow> q \<noteq> running_task k' \<longrightarrow>
       k_tasks k' q = (k_tasks k q)\<lparr>t_ppid := t_ppid (k_tasks k' q)\<rparr>)"
proof -
  let ?parent = "task_table k ! unat pp"
  define k1 where "k1 = each_task k (drop 2 (task_table k)) (\<lambda>k p. t_ppid (k_tasks k p) = t_pid (k_tasks k task)) (\<lambda>t. t\<lparr>t_ppid := pp\<rparr>)"
  have k1: "k_tasks k1 = (\<lambda>q. if q \<in> set (drop 2 (task_table k)) \<and> q \<noteq> NULL \<and> t_ppid (k_tasks k q) = own
      then (k_tasks k q)\<lparr>t_ppid := pp\<rparr> else k_tasks k q)" "task_table k1 = task_table k" "running_task k1 = task"
      "idle_task k1 = idle_task k"
    using reparent_spec [of k task own "drop 2 (task_table k)" pp] assms(4) by (simp_all add: k1_def own_def)
  have t1: "k_tasks k1 task = k_tasks k task" by (simp add: k1(1) pp_def)
  let ?wake = "t_state (k_tasks k1 ?parent) = TASK_WAITING \<and> (t_waitpid (k_tasks k1 ?parent) = - 1 \<or> t_waitpid (k_tasks k1 ?parent) = own)"
  have wake: "?wake \<longleftrightarrow> t_state (k_tasks k ?parent) = TASK_WAITING \<and> t_waitpid (k_tasks k ?parent) \<in> {- 1, own}"
    by (simp add: k1(1))
  obtain k2 where k2: "(if ?wake then task_unblock k1 ?parent EOK else Some k1) = Some k2" and s: "schedule k2 = Some k'"
    using assms(3) unfolding exit_leave_def Let_def bind_Some_iff kassert_Some pp_def [symmetric] k1_def [symmetric]
    unfolding t1 k1(2) unfolding pp_def [symmetric] own_def [symmetric] by blast
  have tasks2: "k_tasks k2 = (if ?wake then (k_tasks k1)(?parent := (k_tasks k1 ?parent)\<lparr>t_timer := NULL, t_status := EOK, t_state := TASK_READY\<rparr>) else k_tasks k1)"
    "running_task k2 = task" "idle_task k2 = idle_task k"
    using k2 task_unblock_tasks [of k1 ?parent EOK k2] k1(3,4) by (auto split: if_split_asm)
  have pne: "?wake \<Longrightarrow> ?parent \<noteq> task" using assms(6) t1 by auto
  then have t2: "k_tasks k2 task = k_tasks k task" using tasks2(1) t1 by auto
  let ?n = "running_task k'"
  have n: "?n \<noteq> task" using schedule_tasks(3) [OF s] assms(5,6) t2 tasks2(3) by auto
  have tasks': "k_tasks k' = (k_tasks k2)(task := preempted (k_tasks k task), ?n := (k_tasks k2 ?n)\<lparr>t_state := TASK_RUNNING\<rparr>)"
    using schedule_tasks(1) [OF s] tasks2(2) t2 n by (simp add: switch_to_def Let_def)
  have ppid: "t_ppid (k_tasks k' q) = t_ppid (k_tasks k1 q)" for q
    using t1 by (auto simp: tasks' tasks2(1) preempted_def)
  have status: "t_status (k_tasks k' q) = t_status (k_tasks k2 q)" for q
    using t2 by (auto simp: tasks' preempted_def)
  have "t_state (k_tasks k' task) = (if t_state (k_tasks k task) = TASK_RUNNING then TASK_READY else TASK_DIED)"
    using n assms(6) by (auto simp: tasks' preempted_def)
  moreover have "if ?wake then t_status (k_tasks k' ?parent) = EOK \<and> t_state (k_tasks k' ?parent) \<in> {TASK_READY, TASK_RUNNING}
     else t_status (k_tasks k' ?parent) = t_status (k_tasks k ?parent)"
  proof (cases ?wake)
    case True
    then have "k_tasks k2 ?parent = (k_tasks k1 ?parent)\<lparr>t_timer := NULL, t_status := EOK, t_state := TASK_READY\<rparr>"
      by (simp add: tasks2(1))
    with True pne [OF True] show ?thesis by (auto simp: tasks')
  next
    case False
    then have "k_tasks k2 = k_tasks k1" by (simp only: tasks2(1) if_False)
    moreover have "t_status (k_tasks k1 ?parent) = t_status (k_tasks k ?parent)" by (simp add: k1(1))
    ultimately show ?thesis using False by (simp only: status if_False)
  qed
  moreover have "k_tasks k' q = (k_tasks k q)\<lparr>t_ppid := t_ppid (k_tasks k' q)\<rparr>" if "q \<noteq> task" "q \<noteq> ?parent" "q \<noteq> ?n" for q
    using that by (auto simp: tasks' tasks2(1) k1(1))
  ultimately show ?thesis using n unfolding wake by (auto simp: ppid k1(1))
qed

theorem exit_leave_effect_witness:
  "\<exists>k'. exit_leave (sample_kernel sample_kmem) 0x2000 = Some k' \<and> running_task k' \<noteq> 0x2000 \<and>
    t_state (k_tasks k' 0x2000) = TASK_READY"
proof -
  let ?k = "sample_kernel sample_kmem"
  have f: "running_task ?k = 0x2000" "t_pid (k_tasks ?k 0x2000) = 1" "t_ppid (k_tasks ?k p) = 0" "t_state (k_tasks ?k 0x2000) = TASK_RUNNING"
    "t_state (k_tasks ?k 0x1000) = TASK_READY" "task_table ?k = [0x1000, 0x2000, 0x3000, 0x4000, 0x5000, 0]" "idle_task ?k = 0x1000" for p
    by (simp_all add: running_task_def sample_kernel_def ready_task_def sample_task_def)
  have others: "drop 2 (task_table ?k) = [0x3000, 0x4000, 0x5000, 0]" unfolding f(6) by code_simp
  have first: "task_table ?k ! 0 = 0x1000" by (simp add: f(6))
  have nonempty: "task_table ?k \<noteq> []" by (simp add: f(6))
  have "exit_leave ?k 0x2000 = schedule ?k"
    by (simp add: exit_leave_def Let_def f(1-5,7) others first nonempty)
  moreover obtain n where n: "schedule ?k = Some (switch_to ?k n)" "if \<exists>p. runnable ?k p then runnable ?k n else n = idle_task ?k"
    and nt: "n \<in> set (task_table ?k)" "n \<noteq> NULL"
    by (rule schedule_returns [OF sample_sched_ok, of sample_kmem])
  moreover have "n \<noteq> 0x2000" using n(2) f by (auto simp: runnable_def split: if_splits)
  moreover have "running_task (switch_to ?k n) = n" by (rule switch_to_states(2) [OF sample_sched_ok(1) nt])
  ultimately have e: "exit_leave ?k 0x2000 = Some (switch_to ?k n)" "running_task (switch_to ?k n) \<noteq> 0x2000" by simp_all
  have "t_state (k_tasks (switch_to ?k n) 0x2000) =
      (if t_state (k_tasks ?k 0x2000) = TASK_RUNNING then TASK_READY else TASK_DIED)"
    using exit_leave_effect [OF e(1) f(1)] by (simp add: f)
  then show ?thesis using e by (simp add: f)
qed

end
