(* ===== verification/Onix_Time.thy ===== *)
theory Onix_Time
  imports Onix_Stdlib
begin

section \<open>Calendar time (src/kernel/time.c, src/lib/time.c, src/kernel/rtc.c)\<close>

text \<open>
  Conversion between the seconds since 1970 and the fields of a \<^verbatim>\<open>tm\<close>, reading the CMOS clock and
  setting its alarm. An \<^verbatim>\<open>int\<close> and a \<^verbatim>\<open>time_t\<close> are 32-bit words; a division of ints truncates
  (\<open>idiv\<close>, \<open>imod\<close>), one with an unsigned operand is the division of words. An index outside the
  table of months is a halt.
\<close>

record tm =
  tm_sec :: u32
  tm_min :: u32
  tm_hour :: u32
  tm_mday :: u32
  tm_mon :: u32
  tm_year :: u32
  tm_wday :: u32
  tm_yday :: u32
  tm_isdst :: u32

definition MINUTE :: u32 where "MINUTE = 60"
definition HOUR :: u32 where "HOUR = 60 * MINUTE"
definition DAY :: u32 where "DAY = 24 * HOUR"
definition YEAR :: u32 where "YEAR = 365 * DAY"

definition month :: "u32 list" where
  "month = [0, 0, 31, 31 + 29, 31 + 29 + 31, 31 + 29 + 31 + 30, 31 + 29 + 31 + 30 + 31, 31 + 29 + 31 + 30 + 31 + 30,
     31 + 29 + 31 + 30 + 31 + 30 + 31, 31 + 29 + 31 + 30 + 31 + 30 + 31 + 31, 31 + 29 + 31 + 30 + 31 + 30 + 31 + 31 + 30,
     31 + 29 + 31 + 30 + 31 + 30 + 31 + 31 + 30 + 31, 31 + 29 + 31 + 30 + 31 + 30 + 31 + 31 + 30 + 31 + 30]"

definition month_at :: "u32 \<Rightarrow> u32 option" where
  "month_at m = (if unat m < length month then Some (month ! unat m) else None)"

subsection \<open>Seconds to fields\<close>

definition elapsed_leap_years :: "u32 \<Rightarrow> u32" where
  "elapsed_leap_years year =
     idiv (year - 1) 4 - idiv (year - 1) 100 + idiv (year + 299) 400 - idiv (1970 - 1900) 4"

definition is_leap_year :: "u32 \<Rightarrow> bool" where
  "is_leap_year year \<longleftrightarrow> imod year 4 = 0 \<and> imod year 100 \<noteq> 0 \<or> imod (year + 1900) 400 = 0"

text \<open>The loop from a month on: the first whose start, less the offset, is behind the day; 13 if none is.\<close>

fun month_loop :: "u32 list \<Rightarrow> u32 \<Rightarrow> u32 \<Rightarrow> u32 \<Rightarrow> u32" where
  "month_loop [] mon offset yday = mon"
| "month_loop (m # ms) mon offset yday =
     (if sint (m - offset) > sint yday then mon else month_loop ms (mon + 1) offset yday)"

definition localtime :: "u32 \<Rightarrow> tm \<Rightarrow> tm option" where
  "localtime stamp time = do {
     let time = time\<lparr>tm_sec := stamp mod 60\<rparr>;
     let remain = stamp div 60;
     let time = time\<lparr>tm_min := remain mod 60\<rparr>;
     let remain = remain div 60;
     let time = time\<lparr>tm_hour := remain mod 24\<rparr>;
     let days = remain div 24;
     let time = time\<lparr>tm_wday := (days + 4) mod 7\<rparr>;
     let years = days div 365 + 70;
     let time = time\<lparr>tm_year := years\<rparr>;
     let offset = (if is_leap_year years then 0 else 1);
     let days = days - elapsed_leap_years years;
     let time = time\<lparr>tm_yday := days mod (366 - offset)\<rparr>;
     let mon = month_loop (drop 1 month) 1 offset (tm_yday time);
     let time = time\<lparr>tm_mon := mon - 1\<rparr>;
     start \<leftarrow> month_at (tm_mon time);
     Some (time\<lparr>tm_mday := tm_yday time - start + offset + 1\<rparr>)
   }"

subsection \<open>Fields to seconds\<close>

definition years_of :: "tm \<Rightarrow> u32" where
  "years_of time = (if sint (tm_year time) \<ge> 70 then tm_year time - 70 else tm_year time - 70 + 100)"

definition mktime :: "tm \<Rightarrow> u32 option" where
  "mktime time = do {
     let year = years_of time;
     let res = YEAR * year;
     let res = res + DAY * idiv (year + 1) 4;
     start \<leftarrow> month_at (tm_mon time);
     let res = res + start * DAY;
     let res = (if sint (tm_mon time) > 2 \<and> imod (year + 2) 4 \<noteq> 0 then res - DAY else res);
     let res = res + DAY * (tm_mday time - 1);
     let res = res + HOUR * tm_hour time;
     let res = res + MINUTE * tm_min time;
     Some (res + tm_sec time)
   }"

definition get_yday :: "tm \<Rightarrow> u32 option" where
  "get_yday time = do {
     start \<leftarrow> month_at (tm_mon time);
     let res = start + tm_mday time;
     let year = years_of time;
     Some (if imod (year + 2) 4 \<noteq> 0 \<and> sint (tm_mon time) > 2 then res - 1 else res)
   }"

subsection \<open>The CMOS clock\<close>

text \<open>
  The ports: \<open>cmos n a\<close> is what the n-th read of the run finds in register \<open>a\<close>; what is written is
  recorded in order.
\<close>

record cmos_t =
  cm_reads :: nat
  cm_written :: "(u8 \<times> u8) list"

type_synonym cmos_dev = "nat \<Rightarrow> u8 \<Rightarrow> u8"

definition CMOS_NMI :: u8 where "CMOS_NMI = 0x80"

definition cmos_read :: "cmos_dev \<Rightarrow> cmos_t \<Rightarrow> u8 \<Rightarrow> u8 \<times> cmos_t" where
  "cmos_read cmos c addr = (cmos (cm_reads c) (CMOS_NMI OR addr), c\<lparr>cm_reads := Suc (cm_reads c)\<rparr>)"

definition cmos_write :: "cmos_t \<Rightarrow> u8 \<Rightarrow> u8 \<Rightarrow> cmos_t" where
  "cmos_write c addr value = c\<lparr>cm_written := cm_written c @ [(CMOS_NMI OR addr, value)]\<rparr>"

definition int_of_u8 :: "u8 \<Rightarrow> u32" where "int_of_u8 b = ucast b"

text \<open>The fields are read again as long as the seconds have changed meanwhile; the century goes to a global.\<close>

partial_function (option) time_read_bcd :: "cmos_dev \<Rightarrow> cmos_t \<Rightarrow> tm \<Rightarrow> (tm \<times> u32 \<times> cmos_t) option" where
  "time_read_bcd cmos c time =
     (let (sec, c) = cmos_read cmos c 0x00; (min, c) = cmos_read cmos c 0x02; (hour, c) = cmos_read cmos c 0x04;
          (wday, c) = cmos_read cmos c 0x06; (mday, c) = cmos_read cmos c 0x07; (mon, c) = cmos_read cmos c 0x08;
          (year, c) = cmos_read cmos c 0x09; (cent, c) = cmos_read cmos c 0x32;
          time = time\<lparr>tm_sec := int_of_u8 sec, tm_min := int_of_u8 min, tm_hour := int_of_u8 hour, tm_wday := int_of_u8 wday,
            tm_mday := int_of_u8 mday, tm_mon := int_of_u8 mon, tm_year := int_of_u8 year\<rparr>;
          (again, c) = cmos_read cmos c 0x00 in
      if tm_sec time \<noteq> int_of_u8 again then time_read_bcd cmos c time
      else Some (time, int_of_u8 cent, c))"

definition from_bcd :: "u32 \<Rightarrow> u32" where "from_bcd x = ucast (bcd_to_bin (ucast x))"

definition time_read :: "cmos_dev \<Rightarrow> cmos_t \<Rightarrow> tm \<Rightarrow> (tm \<times> u32 \<times> cmos_t) option" where
  "time_read cmos c time = do {
     (time, cent, c) \<leftarrow> time_read_bcd cmos c time;
     let time = time\<lparr>tm_sec := from_bcd (tm_sec time), tm_min := from_bcd (tm_min time), tm_hour := from_bcd (tm_hour time),
       tm_wday := from_bcd (tm_wday time), tm_mday := from_bcd (tm_mday time), tm_mon := from_bcd (tm_mon time),
       tm_year := from_bcd (tm_year time)\<rparr>;
     yday \<leftarrow> get_yday time;
     Some (time\<lparr>tm_yday := yday, tm_isdst := - 1\<rparr>, from_bcd cent, c)
   }"

definition time_init :: "cmos_dev \<Rightarrow> cmos_t \<Rightarrow> tm \<Rightarrow> (u32 \<times> u32 \<times> cmos_t) option" where
  "time_init cmos c garbage = do {
     (time, century, c) \<leftarrow> time_read cmos c garbage;
     startup_time \<leftarrow> mktime time;
     Some (startup_time, century, c)
   }"

text \<open>The time of day at which the alarm is to ring.\<close>

definition alarm_fields :: "tm \<Rightarrow> u32 \<Rightarrow> tm" where
  "alarm_fields time secs =
     (let sec = secs mod 60; secs = secs div 60; min = secs mod 60; hour = secs div 60;
          time = time\<lparr>tm_sec := tm_sec time + sec\<rparr>;
          time = (if sint (tm_sec time) \<ge> 60 then time\<lparr>tm_sec := imod (tm_sec time) 60, tm_min := tm_min time + 1\<rparr> else time);
          time = time\<lparr>tm_min := tm_min time + min\<rparr>;
          time = (if sint (tm_min time) \<ge> 60 then time\<lparr>tm_min := imod (tm_min time) 60, tm_hour := tm_hour time + 1\<rparr> else time);
          time = time\<lparr>tm_hour := tm_hour time + hour\<rparr>
      in if sint (tm_hour time) \<ge> 24 then time\<lparr>tm_hour := imod (tm_hour time) 24\<rparr> else time)"

definition set_alarm :: "cmos_dev \<Rightarrow> cmos_t \<Rightarrow> tm \<Rightarrow> u32 \<Rightarrow> cmos_t option" where
  "set_alarm cmos c garbage secs = do {
     (time, _, c) \<leftarrow> time_read cmos c garbage;
     let time = alarm_fields time secs;
     let c = cmos_write c 0x05 (bin_to_bcd (ucast (tm_hour time)));
     let c = cmos_write c 0x03 (bin_to_bcd (ucast (tm_min time)));
     let c = cmos_write c 0x01 (bin_to_bcd (ucast (tm_sec time)));
     let c = cmos_write c 0x0b 0x22;
     let (_, c) = cmos_read cmos c 0x0c;
     Some c
   }"

subsection \<open>The calendar\<close>

definition leap_year :: "nat \<Rightarrow> bool" where
  "leap_year y \<longleftrightarrow> 4 dvd y \<and> (\<not> 100 dvd y \<or> 400 dvd y)"

definition year_days :: "nat \<Rightarrow> nat" where
  "year_days y = (if leap_year y then 366 else 365)"

definition month_days :: "nat \<Rightarrow> nat \<Rightarrow> nat" where
  "month_days y m = (if m = 2 then if leap_year y then 29 else 28 else if m \<in> {4, 6, 9, 11} then 30 else 31)"

definition day_of_year :: "nat \<Rightarrow> nat \<Rightarrow> nat \<Rightarrow> nat" where
  "day_of_year y m d = (\<Sum>k\<leftarrow>[1..<m]. month_days y k) + (d - 1)"

definition day_number :: "nat \<Rightarrow> nat \<Rightarrow> nat \<Rightarrow> nat" where
  "day_number y m d = (\<Sum>k\<leftarrow>[1970..<y]. year_days k) + day_of_year y m d"

text \<open>The leap days from 1970 up to a year.\<close>

definition leap_days :: "nat \<Rightarrow> nat" where
  "leap_days y = length (filter leap_year [1970..<y])"

definition year_of :: "tm \<Rightarrow> nat" where "year_of t = 1900 + unat (tm_year t)"

definition valid_date :: "tm \<Rightarrow> bool" where
  "valid_date t \<longleftrightarrow> 1970 \<le> year_of t \<and> year_of t < 2100 \<and> 1 \<le> unat (tm_mon t) \<and> unat (tm_mon t) \<le> 12 \<and>
     1 \<le> unat (tm_mday t) \<and> unat (tm_mday t) \<le> month_days (year_of t) (unat (tm_mon t)) \<and>
     unat (tm_hour t) < 24 \<and> unat (tm_min t) < 60 \<and> unat (tm_sec t) < 60"

definition tm_day :: "tm \<Rightarrow> nat" where
  "tm_day t = day_of_year (year_of t) (unat (tm_mon t)) (unat (tm_mday t))"

lemma leap_year_4: "1970 \<le> y \<Longrightarrow> y < 2100 \<Longrightarrow> leap_year y \<longleftrightarrow> y mod 4 = 0"
proof -
  assume y: "1970 \<le> y" "y < 2100"
  have "400 dvd y" if "100 dvd y"
  proof -
    from that obtain q where q: "y = 100 * q" by (elim dvdE)
    with y have "19 < q" "q < 21" by linarith+
    then have "q = 20" by linarith
    with q show ?thesis by simp
  qed
  then have "leap_year y \<longleftrightarrow> 4 dvd y" unfolding leap_year_def by blast
  then show ?thesis by (simp only: dvd_eq_mod_eq_0)
qed

lemma leap_days_4: "1970 \<le> y \<Longrightarrow> y \<le> 2100 \<Longrightarrow> leap_days y = (y - 1969) div 4"
proof (induction y rule: dec_induct)
  case (step n)
  define k where "k = n - 1970"
  have k: "n = 1970 + k" using step.hyps by (simp add: k_def)
  have "leap_days (Suc n) = leap_days n + (if leap_year n then 1 else 0)"
    using step.hyps by (simp add: leap_days_def)
  also have "leap_days n = (k + 1) div 4" using step by (simp add: k)
  also have "leap_year n \<longleftrightarrow> (k + 2) mod 4 = 0" using step by (simp add: leap_year_4 k) presburger
  finally have "leap_days (Suc n) = (k + 1) div 4 + (if (k + 2) mod 4 = 0 then 1 else 0)" .
  also have "\<dots> = (k + 2) div 4" by presburger
  finally show ?case by (simp add: k)
qed (simp add: leap_days_def)

lemma month_cases: "1 \<le> m \<Longrightarrow> m \<le> 12 \<Longrightarrow> m \<in> {1, 2, 3, 4, 5, 6, 7, 8, 9, 10, 11, 12}" for m :: nat
  unfolding insert_iff empty_iff by presburger

lemma sum_year_days: "1970 \<le> y \<Longrightarrow> (\<Sum>k\<leftarrow>[1970..<y]. year_days k) = 365 * (y - 1970) + leap_days y"
proof (induction y rule: dec_induct)
  case (step n)
  have "365 * (Suc n - 1970) = 365 * (n - 1970) + 365" using step.hyps by (simp add: Suc_diff_le)
  with step show ?case by (simp add: leap_days_def year_days_def)
qed (simp add: leap_days_def)

lemma day_of_year_month:
  assumes "1 \<le> m" "m \<le> 12"
  shows "day_of_year y m d + (if 2 < m \<and> \<not> leap_year y then 1 else 0) =
    [0, 0, 31, 60, 91, 121, 152, 182, 213, 244, 274, 305, 335] ! m + (d - 1)"
proof -
  show ?thesis using month_cases [OF assms]
    by (elim insertE emptyE) (simp_all add: day_of_year_def month_days_def upt_rec)
qed

lemma day_of_year_bound: "1 \<le> m \<Longrightarrow> m \<le> 12 \<Longrightarrow> 1 \<le> d \<Longrightarrow> d \<le> month_days y m \<Longrightarrow> day_of_year y m d < year_days y"
proof -
  assume a: "1 \<le> m" "m \<le> 12" "1 \<le> d" "d \<le> month_days y m"
  with month_cases [OF a(1,2)] show ?thesis
    by (elim insertE emptyE) (auto simp: day_of_year_def month_days_def year_days_def upt_rec split: if_splits)
qed

lemma month_at_of_nat: "m \<le> 12 \<Longrightarrow> month_at (of_nat m) = Some (of_nat ([0, 0, 31, 60, 91, 121, 152, 182, 213, 244, 274, 305, 335] ! m))"
proof -
  assume a: "m \<le> 12"
  have "m = 0 \<or> m \<in> {1, 2, 3, 4, 5, 6, 7, 8, 9, 10, 11, 12}" using month_cases [of m] a by (cases m) auto
  then show ?thesis by (elim insertE emptyE disjE) (simp_all add: month_at_def month_def)
qed

lemma valid_dateE:
  assumes "valid_date t"
  obtains y m d where "tm_year t = of_nat (70 + y)" "tm_mon t = of_nat m" "tm_mday t = of_nat d" "y < 130" "m \<le> 12" "1 \<le> m"
    "1 \<le> d" "d \<le> 31" "year_of t = 1970 + y" "unat (tm_mon t) = m" "unat (tm_mday t) = d"
    "leap_days (year_of t) = (y + 1) div 4" "leap_year (year_of t) \<longleftrightarrow> (y + 2) mod 4 = 0"
proof -
  define y where "y = unat (tm_year t) - 70"
  have y: "unat (tm_year t) = 70 + y" "y < 130" using assms by (auto simp: valid_date_def year_of_def y_def)
  have "tm_year t = of_nat (70 + y)" unfolding y(1) [symmetric] by simp
  moreover have "month_days (year_of t) m \<le> 31" for m by (simp add: month_days_def)
  then have "unat (tm_mday t) \<le> 31" using assms unfolding valid_date_def by (meson le_trans)
  moreover have "year_of t = 1970 + y" by (simp add: year_of_def y)
  moreover have "leap_days (1970 + y) = (y + 1) div 4" using y(2) by (simp add: leap_days_4)
  moreover have "leap_year (1970 + y) \<longleftrightarrow> (y + 2) mod 4 = 0" using y(2) by (simp add: leap_year_4) presburger
  ultimately show thesis using that [of y "unat (tm_mon t)" "unat (tm_mday t)"] assms y(2) by (simp add: valid_date_def)
qed

lemma stamp_bound:
  "n \<le> 49000 \<Longrightarrow> h < 24 \<Longrightarrow> m < 60 \<Longrightarrow> s < 60 \<Longrightarrow> 86400 * n + 3600 * h + 60 * m + s < (4294967296 :: nat)"
  by simp

lemma mktime_value:
  assumes "valid_date t"
  shows "\<exists>stamp. mktime t = Some stamp \<and>
    unat stamp = 86400 * day_number (year_of t) (unat (tm_mon t)) (unat (tm_mday t)) +
      3600 * unat (tm_hour t) + 60 * unat (tm_min t) + unat (tm_sec t)"
proof -
  obtain y m d where v: "tm_year t = of_nat (70 + y)" "tm_mon t = of_nat m" "tm_mday t = of_nat d" "y < 130" "m \<le> 12" "1 \<le> m"
    "1 \<le> d" "d \<le> 31" "year_of t = 1970 + y" "unat (tm_mon t) = m" "unat (tm_mday t) = d"
    "leap_days (year_of t) = (y + 1) div 4" "leap_year (year_of t) \<longleftrightarrow> (y + 2) mod 4 = 0"
    by (rule valid_dateE [OF assms])
  define early where "early = (if 2 < m \<and> \<not> leap_year (year_of t) then 1 else (0 :: nat))"
  define st where "st = ([0, 0, 31, 60, 91, 121, 152, 182, 213, 244, 274, 305, 335] :: nat list) ! m"
  have doy: "day_of_year (year_of t) m d + early = st + (d - 1)"
    using day_of_year_month [OF v(6,5)] by (simp add: early_def st_def)
  have years: "years_of t = of_nat y"
  proof -
    have "sint (of_nat (70 + y) :: u32) = int (70 + y)" using v(4) by (intro sint_of_nat) simp
    then show ?thesis unfolding years_of_def v(1) by simp
  qed
  have dv: "idiv (of_nat y + 1) 4 = of_nat ((y + 1) div 4)" "imod (of_nat y + 2) 4 = of_nat ((y + 2) mod 4)"
    using idiv_of_nat [of "y + 1" 4] idiv_of_nat [of "y + 2" 4] v(4) by (simp_all add: add.commute)
  have nleap: "imod (of_nat y + 2) 4 = 0 \<longleftrightarrow> (y + 2) mod 4 = 0"
    using of_nat_u32_eq [of "(y + 2) mod 4" 0] by (simp add: dv(2))
  have late: "sint (tm_mon t) > 2 \<longleftrightarrow> 2 < m" using v(5,10) by (simp add: sint_small)
  have e: "(if sint (tm_mon t) > 2 \<and> imod (years_of t + 2) 4 \<noteq> 0 then r - DAY else r) = r - DAY * of_nat early" for r
    using v(13) unfolding late years nleap early_def by simp
  let ?d = "day_of_year (year_of t) m d"
  have start: "of_nat st - of_nat early + (of_nat d - 1) = (of_nat ?d :: u32)"
  proof -
    have "of_nat ?d + of_nat early = (of_nat st + of_nat (d - 1) :: u32)" using doy by (metis of_nat_add)
    then show ?thesis using v(7) by (simp add: algebra_simps)
  qed
  let ?n = "86400 * (365 * y + (y + 1) div 4 + ?d) + 3600 * unat (tm_hour t) + 60 * unat (tm_min t) + unat (tm_sec t)"
  have "mktime t = Some (YEAR * of_nat y + DAY * of_nat ((y + 1) div 4) + of_nat st * DAY - DAY * of_nat early
      + DAY * (of_nat d - 1) + HOUR * tm_hour t + MINUTE * tm_min t + tm_sec t)"
    unfolding mktime_def Let_def e unfolding years dv v(2,3) month_at_of_nat [OF v(5)] st_def [symmetric]
    by simp
  also have "YEAR * of_nat y + DAY * of_nat ((y + 1) div 4) + of_nat st * DAY - DAY * of_nat early
      + DAY * (of_nat d - 1) + HOUR * tm_hour t + MINUTE * tm_min t + tm_sec t =
    YEAR * of_nat y + DAY * of_nat ((y + 1) div 4) + DAY * (of_nat st - of_nat early + (of_nat d - 1))
      + HOUR * tm_hour t + MINUTE * tm_min t + tm_sec t" by (simp add: algebra_simps)
  also have "\<dots> = of_nat ?n"
    unfolding start by (simp add: YEAR_def DAY_def HOUR_def MINUTE_def algebra_simps)
  finally have mk: "mktime t = Some (of_nat ?n)" .
  have "?d < 366" using day_of_year_bound [of m d "year_of t"] assms v(5,6,7,10,11)
    by (auto simp: valid_date_def year_days_def split: if_split_asm)
  moreover have "(y + 1) div 4 \<le> 32" "365 * y \<le> 47085" using v(4) by simp_all
  moreover have "unat (tm_hour t) < 24" "unat (tm_min t) < 60" "unat (tm_sec t) < 60"
    using assms by (simp_all add: valid_date_def)
  ultimately have "?n < 4294967296" by (intro stamp_bound) linarith+
  then have "unat (of_nat ?n :: u32) = ?n" by (intro unat_of_nat_small) simp
  moreover have "day_number (year_of t) m d = 365 * y + (y + 1) div 4 + ?d"
    using sum_year_days [of "year_of t"] v(9,12) by (simp add: day_number_def)
  ultimately show ?thesis using mk v(10,11) by simp
qed

subsection \<open>From seconds back to a date\<close>

lemma of_nat_mod_u32: "i < 4294967296 \<Longrightarrow> 0 < k \<Longrightarrow> k < 4294967296 \<Longrightarrow>
    (of_nat i :: u32) mod of_nat k = of_nat (i mod k) \<and> (of_nat i :: u32) div of_nat k = of_nat (i div k)"
  by (simp add: word_unat_eq_iff unat_mod unat_div unat_of_nat_small less_le_trans [OF mod_less_divisor]
      le_less_trans [OF div_le_dividend] del: of_nat_less_iff)

lemma is_leap_year_of_nat: "y < 100000 \<Longrightarrow> is_leap_year (of_nat y) \<longleftrightarrow> leap_year (1900 + y)"
proof -
  assume y: "y < 100000"
  have z: "of_nat (y mod 4) = (0 :: u32) \<longleftrightarrow> 4 dvd y" "of_nat (y mod 100) = (0 :: u32) \<longleftrightarrow> 100 dvd y"
    "of_nat ((y + 1900) mod 400) = (0 :: u32) \<longleftrightarrow> 400 dvd y + 1900"
    using of_nat_u32_eq [of "y mod 4" 0] of_nat_u32_eq [of "y mod 100" 0] of_nat_u32_eq [of "(y + 1900) mod 400" 0]
    by (auto simp: dvd_eq_mod_eq_0)
  have d: "4 dvd 1900 + y \<longleftrightarrow> 4 dvd y" "100 dvd 1900 + y \<longleftrightarrow> 100 dvd y"
    by (subst dvd_add_right_iff; simp)+
  have "(4 :: nat) dvd 400" by simp
  then have q: "400 dvd y + 1900 \<Longrightarrow> 4 dvd y" using d(1) dvd_trans by (metis add.commute)
  have i: "imod (of_nat y) 4 = of_nat (y mod 4)" "imod (of_nat y) 100 = of_nat (y mod 100)"
    "imod (of_nat y + 1900) 400 = of_nat ((y + 1900) mod 400)"
    using idiv_of_nat(2) [of y 4] idiv_of_nat(2) [of y 100] idiv_of_nat(2) [of "y + 1900" 400] y by simp_all
  show ?thesis unfolding is_leap_year_def leap_year_def i z d using q by (auto simp: add.commute)
qed

lemma elapsed_of_nat:
  assumes "70 \<le> y" "y \<le> 200"
  shows "elapsed_leap_years (of_nat y) = of_nat (leap_days (1900 + y))"
proof -
  define k where "k = y - 70"
  have k: "y = 70 + k" "k \<le> 130" using assms by (simp_all add: k_def)
  have y: "of_nat y - 1 = (of_nat (k + 69) :: u32)" "of_nat y + 299 = (of_nat (k + 369) :: u32)" by (simp_all add: k(1))
  have i: "idiv (of_nat y - 1) 4 = of_nat ((k + 69) div 4)" "idiv (of_nat y - 1) 100 = of_nat ((k + 69) div 100)"
    "idiv (of_nat y + 299) 400 = of_nat ((k + 369) div 400)" "idiv (1970 - 1900) 4 = of_nat 17"
    unfolding y using idiv_of_nat(1) [of "k + 69" 4] idiv_of_nat(1) [of "k + 69" 100] idiv_of_nat(1) [of "k + 369" 400] idiv_of_nat(1) [of 70 4] k(2)
    by simp_all
  have "(k + 69) div 100 = (if k < 31 then 0 else 1)" "(k + 369) div 400 = (if k < 31 then 0 else 1)"
    using k(2) by (auto intro!: div_nat_eqI)
  then have "(k + 69) div 100 = (k + 369) div 400" by simp
  moreover have "(k + 69) div 4 = (k + 1) div 4 + 17" by presburger
  moreover have "leap_days (1900 + y) = (k + 1) div 4" using k(2) by (subst leap_days_4) (simp_all add: k(1))
  ultimately show ?thesis unfolding elapsed_leap_years_def i by simp
qed

text \<open>The month that the search of \<^verbatim>\<open>localtime\<close> finds for a day of the year, before it subtracts one.\<close>

definition found_month :: "nat \<Rightarrow> nat \<Rightarrow> nat" where
  "found_month off yd = 1 + length (takeWhile (\<lambda>m. m \<le> yd + off) [31, 60, 91, 121, 152, 182, 213, 244, 274, 305, 335])"

lemma month_loop_found:
  assumes "yd < 366" "off \<le> 1"
  shows "month_loop (drop 1 month) 1 (of_nat off) (of_nat yd) - 1 = of_nat (found_month off yd)"
proof -
  have s: "sint (of_nat yd :: u32) = int yd" using assms(1) by (intro sint_of_nat) simp
  have "off = 0 \<or> off = 1" using assms(2) by linarith
  then show ?thesis
    by (elim disjE) (simp_all add: month_def found_month_def s)
qed

lemma found_month_bounds:
  "1 \<le> found_month off yd" "found_month off yd \<le> 12"
  using length_takeWhile_le [of "\<lambda>m. m \<le> yd + off" "[31, 60, 91, 121, 152, 182, 213, 244, 274, 305, 335]"]
  by (simp_all add: found_month_def)

definition starts :: "nat list" where
  "starts = [0, 0, 31, 60, 91, 121, 152, 182, 213, 244, 274, 305, 335]"

text \<open>What \<^verbatim>\<open>localtime\<close> computes, as numbers, for the \<open>n\<close>-th day and second \<open>r\<close> of it.\<close>

lemma localtime_fields:
  fixes n r :: nat
  assumes stamp: "unat stamp = 86400 * n + r" "r < 86400" and n: "n < 47500"
  defines "y \<equiv> n div 365 + 70"
  defines "off \<equiv> if leap_year (1900 + y) then 0 else 1 :: nat"
  defines "yd \<equiv> (n - leap_days (1900 + y)) mod (366 - off)"
  shows "localtime stamp g = Some (g\<lparr>tm_sec := of_nat (r mod 60), tm_min := of_nat (r div 60 mod 60), tm_hour := of_nat (r div 3600),
    tm_mday := of_nat yd - of_nat (starts ! found_month off yd) + of_nat off + 1, tm_mon := of_nat (found_month off yd),
    tm_year := of_nat y, tm_wday := of_nat ((n + 4) mod 7), tm_yday := of_nat yd\<rparr>)"
proof -
  have st: "stamp = of_nat (86400 * n + r)" unfolding stamp(1) [symmetric] by simp
  have lim: "86400 * n + r < 4294967296" using stamp(1) unat_u32_bound [of stamp] by simp
  have d60: "(86400 * n + r) div 60 = 1440 * n + r div 60" "(1440 * n + r div 60) div 60 = 24 * n + r div 3600"
    "(24 * n + r div 3600) div 24 = n" "(24 * n + r div 3600) mod 24 = r div 3600"
    using stamp(2) by (simp_all add: div_mult2_eq [symmetric])
  have m60: "(86400 * n + r) mod 60 = r mod 60" "(1440 * n + r div 60) mod 60 = r div 60 mod 60"
    using mod_mult_self3 [of "1440 * n" 60 r] mod_mult_self3 [of "24 * n" 60 "r div 60"] by (simp_all add: ac_simps)
  have w60: "stamp mod 60 = of_nat (r mod 60)" "stamp div 60 = of_nat (1440 * n + r div 60)"
    using of_nat_mod_u32 [OF lim, of 60] by (simp_all only: st d60 m60) simp_all
  have "1440 * n + r div 60 < 4294967296" "24 * n + r div 3600 < 4294967296" using n stamp(2) by simp_all
  from of_nat_mod_u32 [OF this(1), of 60] of_nat_mod_u32 [OF this(2), of 24]
  have w24: "(of_nat (1440 * n + r div 60) :: u32) mod 60 = of_nat (r div 60 mod 60)"
    "(of_nat (1440 * n + r div 60) :: u32) div 60 = of_nat (24 * n + r div 3600)"
    "(of_nat (24 * n + r div 3600) :: u32) mod 24 = of_nat (r div 3600)"
    "(of_nat (24 * n + r div 3600) :: u32) div 24 = of_nat n"
    unfolding d60 m60 by simp_all
  have w7: "(of_nat n + 4 :: u32) mod 7 = of_nat ((n + 4) mod 7)"
    using of_nat_mod_u32 [of "n + 4" 7] n by simp
  have wy: "(of_nat n :: u32) div 365 + 70 = of_nat y"
    using of_nat_mod_u32 [of n 365] n by (simp add: y_def)
  have y: "70 \<le> y" "y \<le> 200" using n by (simp_all add: y_def)
  have off: "(if is_leap_year (of_nat y) then 0 else 1) = (of_nat off :: u32)" "off \<le> 1"
    using is_leap_year_of_nat [of y] y(2) by (simp_all add: off_def)
  have "leap_days (1900 + y) = (n div 365 + 1) div 4" using y(2) by (subst leap_days_4) (simp_all add: y_def)
  also have "\<dots> \<le> n" by simp
  finally have we: "of_nat n - elapsed_leap_years (of_nat y) = of_nat (n - leap_days (1900 + y))"
    by (simp add: elapsed_of_nat [OF y])
  have "366 - of_nat off = (of_nat (366 - off) :: u32)" using off(2) by (simp add: of_nat_diff)
  then have wyd: "(of_nat (n - leap_days (1900 + y)) :: u32) mod (366 - of_nat off) = of_nat yd"
    using of_nat_mod_u32 [of "n - leap_days (1900 + y)" "366 - off"] n off(2) by (simp add: yd_def)
  have "yd < 366" using off(2) unfolding yd_def by (intro less_le_trans [OF mod_less_divisor]) simp_all
  from month_loop_found [OF this off(2)]
  have mon: "month_loop (drop 1 month) 1 (of_nat off) (of_nat yd) - 1 = of_nat (found_month off yd)" .
  show ?thesis
    unfolding localtime_def Let_def w60 w24 w7 wy off we wyd
    by (simp add: mon [simplified] month_at_of_nat [OF found_month_bounds(2)] starts_def)
qed

lemma found_month_day:
  assumes "3 \<le> m" "m \<le> 12" "1 \<le> d" "d \<le> month_days y m" "\<not> leap_year y"
  shows "found_month 1 (day_of_year y m d) = m" "day_of_year y m d + 2 = d + starts ! m"
proof -
  have m: "m \<in> {3, 4, 5, 6, 7, 8, 9, 10, 11, 12}" using assms(1,2) unfolding insert_iff empty_iff by presburger
  show e: "day_of_year y m d + 2 = d + starts ! m"
    using day_of_year_month [of m y d] assms by (simp add: starts_def)
  have "found_month 1 x = m" if "x + 2 = d + starts ! m" for x
    using m that assms(3-5) by (elim insertE emptyE) (simp_all add: found_month_def starts_def month_days_def)
  from this [OF e] show "found_month 1 (day_of_year y m d) = m" .
qed

lemma hms:
  fixes h m s :: nat
  assumes "m < 60" "s < 60"
  shows "(3600 * h + 60 * m + s) div 3600 = h" "(3600 * h + 60 * m + s) div 60 mod 60 = m" "(3600 * h + 60 * m + s) mod 60 = s"
proof -
  show "(3600 * h + 60 * m + s) div 3600 = h" using assms by (intro div_nat_eqI) simp_all
  have "3600 * h + 60 * m + s = s + 60 * (60 * h + m)" by simp
  then have "(3600 * h + 60 * m + s) div 60 = 60 * h + m" "(3600 * h + 60 * m + s) mod 60 = s" using assms(2)
    by (simp_all only: div_mult_self2 mod_mult_self2) simp_all
  then show "(3600 * h + 60 * m + s) div 60 mod 60 = m" "(3600 * h + 60 * m + s) mod 60 = s" using assms(1) by simp_all
qed

lemma date_back:
  fixes y m d :: nat
  assumes m: "y < 130" "1 \<le> m" "m \<le> 12" "1 \<le> d" "d \<le> month_days (1970 + y) m"
  defines "D \<equiv> day_of_year (1970 + y) m d" and "L \<equiv> leap_days (1970 + y)"
  defines "y' \<equiv> (365 * y + L + D) div 365 + 70"
  defines "off \<equiv> if leap_year (1900 + y') then 0 else 1 :: nat"
  defines "yd \<equiv> (365 * y + L + D - leap_days (1900 + y')) mod (366 - off)"
  shows "y' = 70 + y \<and> found_month off yd = m \<and> yd + off + 1 = d + starts ! m \<longleftrightarrow>
    \<not> leap_year (1970 + y) \<and> 3 \<le> m \<and> L + D < 365"
proof (cases "L + D < 365")
  case False
  then have "y < (365 * y + L + D) div 365" by simp
  with False show ?thesis by (simp add: y'_def)
next
  case True
  then have y': "y' = 70 + y" by (simp add: y'_def)
  have off: "off = (if leap_year (1970 + y) then 0 else 1)" and yd: "yd = (365 * y + D) mod (366 - off)"
    unfolding off_def yd_def y' by (simp_all add: L_def)
  have doy: "D + (if 2 < m \<and> \<not> leap_year (1970 + y) then 1 else 0) = starts ! m + (d - 1)"
    using day_of_year_month [OF m(2,3)] by (simp add: D_def starts_def)
  show ?thesis
  proof (cases "leap_year (1970 + y)")
    case True
    then have y0: "0 < y" using leap_year_4 [of "1970 + y"] m(1) by (cases y) simp_all
    have "yd \<noteq> D"
    proof
      assume "yd = D"
      then have "(365 * y + D) mod 366 = D mod 366" using yd off True by (metis diff_zero mod_mod_trivial)
      then have "(365 * y + D + y) mod 366 = (D + y) mod 366" by (metis mod_add_left_eq)
      then have "(366 * y + D) mod 366 = (D + y) mod 366" by (simp add: algebra_simps)
      then have "(D + y) mod 366 = D mod 366" by simp
      then have "366 dvd y" by (subst (asm) mod_eq_dvd_iff_nat) simp_all
      with y0 m(1) show False by (auto dest: dvd_imp_le)
    qed
    then show ?thesis using True off doy m(4) by auto
  next
    case nleap: False
    then have "D < 365" using \<open>L + D < 365\<close> by simp
    then have "yd = D" "off = 1" using yd off nleap by simp_all
    moreover have "3 \<le> m" if "D + 2 = d + starts ! m"
      using that doy nleap m(4) by (cases "2 < m") simp_all
    ultimately show ?thesis
      using nleap \<open>L + D < 365\<close> found_month_day [of m d "1970 + y"] doy m(3-5) by (auto simp: y' D_def)
  qed
qed

text \<open>
  C37. \<^verbatim>\<open>mktime\<close> is exact: for every valid date from 1970 to 2099 it returns the number of seconds that
  the calendar gives, the days of all years and months before it counted one by one.
\<close>

theorem mktime_exact:
  assumes "valid_date t"
  shows "\<exists>stamp. mktime t = Some stamp \<and>
    unat stamp = 86400 * day_number (year_of t) (unat (tm_mon t)) (unat (tm_mday t)) +
      3600 * unat (tm_hour t) + 60 * unat (tm_min t) + unat (tm_sec t)"
  using assms by (rule mktime_value)

text \<open>
  \<^verbatim>\<open>localtime\<close> against \<^verbatim>\<open>mktime\<close>. The time of the day and the day of the week always come back.
  The date comes back in exactly one case: the year is not a leap year, the month is March or later, and
  the leap days since 1970 do not push the day into the next year of 365 days. Every date of a leap year,
  of January and of February, and the last days of December are shown wrongly.
\<close>

theorem localtime_mktime:
  assumes "valid_date t" "mktime t = Some stamp"
  shows "\<exists>u. localtime stamp g = Some u \<and>
    tm_hour u = tm_hour t \<and> tm_min u = tm_min t \<and> tm_sec u = tm_sec t \<and>
    unat (tm_wday u) = (day_number (year_of t) (unat (tm_mon t)) (unat (tm_mday t)) + 4) mod 7 \<and>
    (tm_year u = tm_year t \<and> tm_mon u = tm_mon t \<and> tm_mday u = tm_mday t \<longleftrightarrow>
      \<not> leap_year (year_of t) \<and> 3 \<le> unat (tm_mon t) \<and> leap_days (year_of t) + tm_day t < 365)"
proof -
  obtain y m d where v: "tm_year t = of_nat (70 + y)" "tm_mon t = of_nat m" "tm_mday t = of_nat d" "y < 130" "m \<le> 12" "1 \<le> m"
    "1 \<le> d" "d \<le> 31" "year_of t = 1970 + y" "unat (tm_mon t) = m" "unat (tm_mday t) = d"
    "leap_days (year_of t) = (y + 1) div 4" "leap_year (year_of t) \<longleftrightarrow> (y + 2) mod 4 = 0"
    by (rule valid_dateE [OF assms(1)])
  define D where "D = tm_day t"
  define L where "L = (y + 1) div 4"
  let ?n = "365 * y + L + D"
  define y' where "y' = ?n div 365 + 70"
  define off where "off = (if leap_year (1900 + y') then 0 else 1 :: nat)"
  define yd where "yd = (?n - leap_days (1900 + y')) mod (366 - off)"
  let ?r = "3600 * unat (tm_hour t) + 60 * unat (tm_min t) + unat (tm_sec t)"
  have tod: "unat (tm_hour t) < 24" "unat (tm_min t) < 60" "unat (tm_sec t) < 60" using assms(1) by (simp_all add: valid_date_def)
  have n: "day_number (year_of t) m d = ?n"
    using sum_year_days [of "year_of t"] v by (simp add: day_number_def L_def D_def tm_day_def)
  then have "unat stamp = 86400 * ?n + ?r" using mktime_value [OF assms(1)] assms(2) v(10,11) by simp
  moreover have r: "?r < 86400" using tod by linarith
  moreover have D: "D < year_days (year_of t)" using day_of_year_bound [of m d "year_of t"] assms(1) v(5,6,7,10,11)
    by (simp add: D_def tm_day_def valid_date_def)
  moreover have n': "?n < 47500" using D v(4) by (simp add: L_def year_days_def split: if_split_asm)
  ultimately obtain u where u: "localtime stamp g = Some u" and
    uf: "u = g\<lparr>tm_sec := of_nat (?r mod 60), tm_min := of_nat (?r div 60 mod 60), tm_hour := of_nat (?r div 3600),
      tm_mday := of_nat yd - of_nat (starts ! found_month off yd) + of_nat off + 1, tm_mon := of_nat (found_month off yd),
      tm_year := of_nat y', tm_wday := of_nat ((?n + 4) mod 7), tm_yday := of_nat yd\<rparr>"
    using localtime_fields [of stamp ?n ?r g] unfolding y'_def off_def yd_def by blast
  have "yd < 366" unfolding yd_def off_def by (intro less_le_trans [OF mod_less_divisor]) simp_all
  moreover have "starts ! i \<le> 335" if "i \<le> 12" for i
    using that month_cases [of i] by (cases "i = 0") (auto simp: starts_def)
  then have "starts ! found_month off yd \<le> 335" "starts ! m \<le> 335" using found_month_bounds v(5) by simp_all
  moreover have w: "of_nat yd - of_nat i + of_nat off + 1 = (of_nat d :: u32) \<longleftrightarrow> yd + off + 1 = d + i" if "i \<le> 335" for i
  proof -
    have "of_nat yd - of_nat i + of_nat off + 1 = (of_nat d :: u32) \<longleftrightarrow> of_nat (yd + off + 1) = (of_nat (d + i) :: u32)"
      by (simp add: algebra_simps eq_diff_eq diff_eq_eq)
    then show ?thesis using of_nat_u32_eq [of "yd + off + 1" "d + i"] that v(8) \<open>yd < 366\<close> by (simp add: off_def)
  qed
  moreover have "y' < 300" using n' by (simp add: y'_def)
  then have "of_nat y' = (of_nat (70 + y) :: u32) \<longleftrightarrow> y' = 70 + y" using v(4) by (intro of_nat_u32_eq) simp_all
  moreover have "of_nat (found_month off yd) = (of_nat m :: u32) \<longleftrightarrow> found_month off yd = m"
    using found_month_bounds(2) [of off yd] v(5) by (intro of_nat_u32_eq) simp_all
  ultimately have "tm_year u = tm_year t \<and> tm_mon u = tm_mon t \<and> tm_mday u = tm_mday t \<longleftrightarrow>
      y' = 70 + y \<and> found_month off yd = m \<and> yd + off + 1 = d + starts ! m"
    unfolding v(1-3) uf by (auto simp del: of_nat_add)
  moreover have "y' = 70 + y \<and> found_month off yd = m \<and> yd + off + 1 = d + starts ! m \<longleftrightarrow>
      \<not> leap_year (year_of t) \<and> 3 \<le> m \<and> leap_days (year_of t) + tm_day t < 365"
  proof -
    have "d \<le> month_days (1970 + y) m" using assms(1) v(9-11) by (simp add: valid_date_def)
    moreover have "D = day_of_year (1970 + y) m d" "leap_days (1970 + y) = L" using v(9-12) by (simp_all add: D_def L_def tm_day_def)
    ultimately show ?thesis
      using date_back [OF v(4,6,5,7)] v(9) unfolding y'_def off_def yd_def by (simp add: D_def)
  qed
  moreover have "?r div 3600 = unat (tm_hour t)" "?r div 60 mod 60 = unat (tm_min t)" "?r mod 60 = unat (tm_sec t)"
    using hms [OF tod(2,3)] by blast+
  then have "tm_hour u = tm_hour t" "tm_min u = tm_min t" "tm_sec u = tm_sec t" unfolding uf by simp_all
  moreover have "unat (tm_wday u) = (day_number (year_of t) m d + 4) mod 7"
    unfolding uf n by (simp add: unat_of_nat_small less_le_trans [OF mod_less_divisor])
  ultimately show ?thesis using u unfolding v(10,11) by blast
qed

definition sample_tm :: tm where
  "sample_tm = \<lparr>tm_sec = 59, tm_min = 59, tm_hour = 23, tm_mday = 29, tm_mon = 2, tm_year = 100, tm_wday = 0, tm_yday = 0, tm_isdst = 0\<rparr>"

definition sample_march :: tm where
  "sample_march = \<lparr>tm_sec = 30, tm_min = 20, tm_hour = 10, tm_mday = 15, tm_mon = 3, tm_year = 123, tm_wday = 0, tm_yday = 0, tm_isdst = 0\<rparr>"

theorem mktime_exact_witness: "mktime sample_tm = Some 951868799"
proof -
  have v: "valid_date sample_tm" by (simp add: valid_date_def year_of_def sample_tm_def month_days_def leap_year_4)
  have n: "86400 * day_number (year_of sample_tm) (unat (tm_mon sample_tm)) (unat (tm_mday sample_tm)) +
      3600 * unat (tm_hour sample_tm) + 60 * unat (tm_min sample_tm) + unat (tm_sec sample_tm) = 951868799"
    by (simp add: day_number_def year_days_def leap_year_4 day_of_year_def month_days_def upt_rec year_of_def sample_tm_def)
  obtain stamp where s: "mktime sample_tm = Some stamp" "unat stamp = 951868799"
    using mktime_exact [OF v] unfolding n by blast
  have "stamp = of_nat (unat stamp)" by simp
  then show ?thesis using s by simp
qed

theorem localtime_mktime_witness:
  "\<exists>stamp u. mktime sample_march = Some stamp \<and> localtime stamp sample_tm = Some u \<and> tm_year u = 123 \<and> tm_mon u = 3 \<and> tm_mday u = 15"
proof -
  have v: "valid_date sample_march" by (simp add: valid_date_def year_of_def sample_march_def month_days_def leap_year_4)
  have c: "\<not> leap_year (year_of sample_march) \<and> 3 \<le> unat (tm_mon sample_march) \<and> leap_days (year_of sample_march) + tm_day sample_march < 365"
    by (simp add: year_of_def sample_march_def leap_year_4 leap_days_4 tm_day_def day_of_year_def month_days_def upt_rec)
  obtain stamp where m: "mktime sample_march = Some stamp"
    by (simp add: mktime_def Let_def sample_march_def month_at_def month_def)
  have "tm_year sample_march = 123" "tm_mon sample_march = 3" "tm_mday sample_march = 15" by (simp_all add: sample_march_def)
  then show ?thesis using localtime_mktime [OF v m, of sample_tm] c m by auto
qed

end
