(* ===== verification/Onix_Printf.thy ===== *)
theory Onix_Printf
  imports Onix_String Onix_Stdlib
begin

section \<open>Formatted output (src/lib/vsprintf.c)\<close>

text \<open>
  \<^verbatim>\<open>vsprintf\<close> over a format (the list of its bytes before the terminator), the 32-bit words of the
  argument list, and the memory that \<^verbatim>\<open>%s\<close>, \<^verbatim>\<open>%m\<close>, \<^verbatim>\<open>%r\<close> and \<^verbatim>\<open>%n\<close> point into. The output is the list of
  the bytes written to \<^verbatim>\<open>buf\<close>, which nothing else points into. An argument that is not there is a halt.
  The arithmetic of the processor on a \<^verbatim>\<open>double\<close> is a parameter: \<open>fp\<close> gives the sign, the integer part
  and the millionths of the absolute value of the 64 bits of an argument.
\<close>

type_synonym fp_split = "u64 \<Rightarrow> bool \<times> u32 \<times> u32"

definition ZEROPAD :: u32 where "ZEROPAD = 0x01"
definition SIGN :: u32 where "SIGN = 0x02"
definition PLUS :: u32 where "PLUS = 0x04"
definition SPACE :: u32 where "SPACE = 0x08"
definition LEFT :: u32 where "LEFT = 0x10"
definition SPECIAL :: u32 where "SPECIAL = 0x20"
definition SMALL :: u32 where "SMALL = 0x40"
definition DOUBLE :: u32 where "DOUBLE = 0x80"

definition is_digit :: "u8 \<Rightarrow> bool" where
  "is_digit c \<longleftrightarrow> sint c \<ge> 48 \<and> sint c \<le> 57"

fun skip_atoi :: "u8 list \<Rightarrow> u32 \<Rightarrow> u32 \<times> u8 list" where
  "skip_atoi [] i = (i, [])"
| "skip_atoi (c # cs) i = (if is_digit c then skip_atoi cs (i * 10 + scast c - 48) else (i, c # cs))"

subsection \<open>Numbers\<close>

text \<open>A loop \<^verbatim>\<open>while (bound < n--) *str++ = c\<close> on ints: what it writes and the last value of the counter.\<close>

function count_down :: "u8 \<Rightarrow> u32 \<Rightarrow> u32 \<Rightarrow> u8 list \<times> u32" where
  "count_down c bound n =
     (if sint bound < sint n then let (cs, n) = count_down c bound (n - 1) in (c # cs, n) else ([], n - 1))"
  by auto

lemma sint_minus_1: "sint b < sint n \<Longrightarrow> sint (n - 1) = sint n - 1" for b n :: u32
proof -
  assume a: "sint b < sint n"
  have "- 2147483648 \<le> sint b" using sint_greater_eq [of b] by simp
  with a have r: "- 2147483648 \<le> sint n - 1" by simp
  have "sint n < 2147483648" using sint_less [of n] by simp
  with r have "signed_take_bit 31 (sint n - 1) = sint n - 1" by (intro signed_take_bit_int_eq_self) simp_all
  then show ?thesis by (simp add: sint_word_diff)
qed

termination count_down
  by (relation "measure (\<lambda>(c, bound, n). nat (sint n - sint bound))") (simp_all add: sint_minus_1)

declare count_down.simps [simp del]

text \<open>The digits of a number in a base, lowest first.\<close>

definition DIGITS :: "bool \<Rightarrow> nat \<Rightarrow> u8" where
  "DIGITS small i = (if i < 10 then 48 + of_nat i else (if small then 97 else 65) + of_nat (i - 10))"

function digits_loop :: "bool \<Rightarrow> u32 \<Rightarrow> u32 \<Rightarrow> u8 list" where
  "digits_loop small num base =
     (if num \<noteq> 0 \<and> 2 \<le> base then DIGITS small (unat (num mod base)) # digits_loop small (num div base) base else [])"
  by auto

lemma unat_div_less: "num \<noteq> 0 \<Longrightarrow> 2 \<le> base \<Longrightarrow> unat (num div base) < unat (num :: u32)"
  by (simp add: unat_div word_le_nat_alt unat_gt_0)

termination digits_loop
  by (relation "measure (\<lambda>(small, num, base). unat num)") (simp_all add: unat_div_less)

declare digits_loop.simps [simp del]

text \<open>Exactly \<open>k\<close> digits.\<close>

fun digits_fixed :: "nat \<Rightarrow> bool \<Rightarrow> u32 \<Rightarrow> u32 \<Rightarrow> u8 list" where
  "digits_fixed 0 small num base = []"
| "digits_fixed (Suc k) small num base = DIGITS small (unat (num mod base)) # digits_fixed k small (num div base) base"

definition tmp_digits :: "fp_split \<Rightarrow> u64 \<Rightarrow> u32 \<Rightarrow> bool \<Rightarrow> u32 \<Rightarrow> u8 list" where
  "tmp_digits fp dnum num small base =
     (case fp dnum of (_, ival, fval) \<Rightarrow> digits_fixed 6 small fval base @ [46] @
        DIGITS small (unat (ival mod base)) # digits_loop small (ival div base) base)"

text \<open>
  \<^verbatim>\<open>number\<close>, called with bases from 2 to 36 only. With the flag \<open>DOUBLE\<close> the argument is the 64 bits in
  \<open>dnum\<close>, otherwise the 32 bits in \<open>num\<close>.
\<close>

definition number :: "fp_split \<Rightarrow> u64 \<Rightarrow> u32 \<Rightarrow> u32 \<Rightarrow> u32 \<Rightarrow> u32 \<Rightarrow> u32 \<Rightarrow> u8 list" where
  "number fp dnum num base width precision flags =
     (let small = (flags AND SMALL \<noteq> 0);
          flags = (if flags AND LEFT \<noteq> 0 then flags AND NOT ZEROPAD else flags);
          pad = (if flags AND ZEROPAD \<noteq> 0 then 48 else 32);
          double = (flags AND DOUBLE \<noteq> 0);
          negative = (if double then fst (fp dnum) else flags AND SIGN \<noteq> 0 \<and> sint num < 0);
          num = (if negative \<and> \<not> double then - num else num);
          sign = (if negative then [45] else if flags AND PLUS \<noteq> 0 then [43] else if flags AND SPACE \<noteq> 0 then [32] else []);
          width = (if sign \<noteq> [] then width - 1 else width);
          width = (if flags AND SPECIAL \<noteq> 0 then if base = 16 then width - 2 else if base = 8 then width - 1 else width else width);
          tmp = (if double then tmp_digits fp dnum num small base
                 else if num = 0 then [48] else digits_loop small num base);
          i = of_nat (length tmp);
          precision = (if sint i > sint precision then i else precision);
          width = width - precision;
          (blanks, width) = (if flags AND (ZEROPAD + LEFT) = 0 then count_down 32 0 width else ([], width));
          prefix = (if flags AND SPECIAL \<noteq> 0 then if base = 8 then [48] else if base = 16 then [48, DIGITS small 33] else [] else []);
          (pads, width) = (if flags AND LEFT = 0 then count_down pad 0 width else ([], width));
          (zeros, _) = count_down 48 i precision;
          (trail, _) = count_down 32 0 width
      in blanks @ sign @ prefix @ pads @ zeros @ rev tmp @ trail)"

subsection \<open>The format\<close>

record fspec =
  fs_flags :: u32
  fs_width :: u32
  fs_prec :: u32

fun parse_flags :: "u8 list \<Rightarrow> u32 \<Rightarrow> u32 \<times> u8 list" where
  "parse_flags [] flags = (flags, [])"
| "parse_flags (c # cs) flags =
     (if c = 45 then parse_flags cs (flags OR LEFT)
      else if c = 43 then parse_flags cs (flags OR PLUS)
      else if c = 32 then parse_flags cs (flags OR SPACE)
      else if c = 35 then parse_flags cs (flags OR SPECIAL)
      else if c = 48 then parse_flags cs (flags OR ZEROPAD)
      else (flags, c # cs))"

definition at_fmt :: "u8 list \<Rightarrow> u8" where "at_fmt fmt = (case fmt of [] \<Rightarrow> 0 | c # _ \<Rightarrow> c)"

definition va_arg :: "u32 list \<Rightarrow> (u32 \<times> u32 list) option" where
  "va_arg args = (case args of [] \<Rightarrow> None | a # rest \<Rightarrow> Some (a, rest))"

text \<open>The width: digits, or an argument; a negative one sets \<open>LEFT\<close>.\<close>

definition parse_width :: "u8 list \<Rightarrow> u32 \<Rightarrow> u32 list \<Rightarrow> (u32 \<times> u32 \<times> u8 list \<times> u32 list) option" where
  "parse_width fmt flags args =
     (if is_digit (at_fmt fmt) then let (w, fmt) = skip_atoi fmt 0 in Some (w, flags, fmt, args)
      else if at_fmt fmt = 42 then do {
        let fmt = tl fmt;
        (w, args) \<leftarrow> va_arg args;
        if sint w < 0 then Some (- w, flags OR LEFT, fmt, args) else Some (w, flags, fmt, args)
      }
      else Some (- 1, flags, fmt, args))"

text \<open>The precision; after the argument for a star the format is not moved on.\<close>

definition parse_precision :: "u8 list \<Rightarrow> u32 list \<Rightarrow> (u32 \<times> u8 list \<times> u32 list) option" where
  "parse_precision fmt args =
     (if at_fmt fmt = 46 then do {
        let fmt = tl fmt;
        (p, fmt, args) \<leftarrow> (if is_digit (at_fmt fmt) then let (p, fmt) = skip_atoi fmt 0 in Some (p, fmt, args)
                           else if at_fmt fmt = 42 then do { (p, args) \<leftarrow> va_arg args; Some (p, fmt, args) }
                           else Some (- 1, fmt, args));
        Some (if sint p < 0 then 0 else p, fmt, args)
      }
      else Some (- 1, fmt, args))"

definition parse_spec :: "u8 list \<Rightarrow> u32 list \<Rightarrow> (fspec \<times> u8 list \<times> u32 list) option" where
  "parse_spec fmt args = do {
     let (flags, fmt) = parse_flags fmt 0;
     (width, flags, fmt, args) \<leftarrow> parse_width fmt flags args;
     (precision, fmt, args) \<leftarrow> parse_precision fmt args;
     let fmt = (if at_fmt fmt \<in> {104, 108, 76} then tl fmt else fmt);
     Some (\<lparr>fs_flags = flags, fs_width = width, fs_prec = precision\<rparr>, fmt, args)
   }"

subsection \<open>Conversions\<close>

text \<open>A loop \<^verbatim>\<open>while (--n > 0) *str++ = c\<close>.\<close>

function count_pre :: "u8 \<Rightarrow> u32 \<Rightarrow> u8 list \<times> u32" where
  "count_pre c n = (if sint (n - 1) > 0 then let (cs, n) = count_pre c (n - 1) in (c # cs, n) else ([], n - 1))"
  by auto

termination count_pre
proof (relation "measure (\<lambda>(c, n). nat (sint (n - 1)))")
  fix c :: u8 and n :: u32
  assume "0 < sint (n - 1)"
  then show "((c, n - 1), c, n) \<in> measure (\<lambda>(c, n). nat (sint (n - 1)))"
    using sint_minus_1 [of 0 "n - 1"] by simp
qed simp

declare count_pre.simps [simp del]

definition conv_char :: "fspec \<Rightarrow> u32 \<Rightarrow> u8 list" where
  "conv_char sp a =
     (let (blanks, w) = (if fs_flags sp AND LEFT = 0 then count_pre 32 (fs_width sp) else ([], fs_width sp));
          (trail, _) = count_pre 32 w
      in blanks @ [ucast a] @ trail)"

definition conv_string :: "mem \<Rightarrow> fspec \<Rightarrow> u32 \<Rightarrow> u8 list option" where
  "conv_string m sp s = do {
     len \<leftarrow> strlen m s;
     let len = (if sint (fs_prec sp) < 0 then len else if sint len > sint (fs_prec sp) then fs_prec sp else len);
     let (blanks, w) = (if fs_flags sp AND LEFT = 0 then count_down 32 len (fs_width sp) else ([], fs_width sp));
     let (trail, _) = count_down 32 len w;
     Some (blanks @ map (\<lambda>i. m (s + of_nat i)) [0..<nat (sint len)] @ trail)
   }"

text \<open>The bytes of an address, each followed by a separator, the last separator taken back.\<close>

definition conv_bytes :: "(u8 \<Rightarrow> u8 list) \<Rightarrow> u8 \<Rightarrow> mem \<Rightarrow> u32 \<Rightarrow> nat \<Rightarrow> u8 list" where
  "conv_bytes f sep m a k = butlast (concat (map (\<lambda>t. f (m (a + of_nat t)) @ [sep]) [0..<k]))"

definition conv_int :: "fp_split \<Rightarrow> fspec \<Rightarrow> u32 \<Rightarrow> u32 \<Rightarrow> u8 list" where
  "conv_int fp sp base a = number fp 0 a base (fs_width sp) (fs_prec sp) (fs_flags sp)"

text \<open>One conversion character: the output so far, with what it adds, the memory and the arguments left.\<close>

definition convert :: "fp_split \<Rightarrow> mem \<Rightarrow> fspec \<Rightarrow> u8 \<Rightarrow> u32 list \<Rightarrow> u8 list \<Rightarrow> (u8 list \<times> mem \<times> u32 list) option" where
  "convert fp m sp c args out =
     (if c = 99 then do { (a, args) \<leftarrow> va_arg args; Some (out @ conv_char sp a, m, args) }
      else if c = 115 then do { (a, args) \<leftarrow> va_arg args; text \<leftarrow> conv_string m sp a; Some (out @ text, m, args) }
      else if c = 111 then do { (a, args) \<leftarrow> va_arg args; Some (out @ conv_int fp sp 8 a, m, args) }
      else if c = 112 then do {
        let sp = (if fs_width sp = - 1 then sp\<lparr>fs_width := 8, fs_flags := fs_flags sp OR ZEROPAD\<rparr> else sp);
        (a, args) \<leftarrow> va_arg args;
        Some (out @ conv_int fp sp 16 a, m, args)
      }
      else if c = 120 then do {
        (a, args) \<leftarrow> va_arg args;
        Some (out @ conv_int fp (sp\<lparr>fs_flags := fs_flags sp OR SMALL\<rparr>) 16 a, m, args)
      }
      else if c = 88 then do { (a, args) \<leftarrow> va_arg args; Some (out @ conv_int fp sp 16 a, m, args) }
      else if c = 100 \<or> c = 105 then do {
        (a, args) \<leftarrow> va_arg args;
        Some (out @ conv_int fp (sp\<lparr>fs_flags := fs_flags sp OR SIGN\<rparr>) 10 a, m, args)
      }
      else if c = 117 then do { (a, args) \<leftarrow> va_arg args; Some (out @ conv_int fp sp 10 a, m, args) }
      else if c = 110 then do { (a, args) \<leftarrow> va_arg args; Some (out, store32 m a (of_nat (length out)), args) }
      else if c = 102 then do {
        (lo, args) \<leftarrow> va_arg args;
        (hi, args) \<leftarrow> va_arg args;
        Some (out @ number fp (ucast lo OR push_bit 32 (ucast hi)) 0 10 (fs_width sp) (fs_prec sp) (fs_flags sp OR SIGN OR DOUBLE), m, args)
      }
      else if c = 98 then do { (a, args) \<leftarrow> va_arg args; Some (out @ conv_int fp sp 2 a, m, args) }
      else if c = 109 then do {
        (a, args) \<leftarrow> va_arg args;
        let flags = fs_flags sp OR (SMALL OR ZEROPAD);
        Some (out @ conv_bytes (\<lambda>b. number fp 0 (ucast b) 16 2 (fs_prec sp) flags) 58 m a 6, m, args)
      }
      else if c = 114 then do {
        (a, args) \<leftarrow> va_arg args;
        Some (out @ conv_bytes (\<lambda>b. conv_int fp (sp\<lparr>fs_flags := fs_flags sp OR SMALL\<rparr>) 10 (ucast b)) 46 m a 4, m, args)
      }
      else Some (out @ (if c \<noteq> 37 then [37, c] else [c]), m, args))"

lemma parse_flags_length: "parse_flags fmt flags = (f, rest) \<Longrightarrow> length rest \<le> length fmt"
  by (induction fmt flags rule: parse_flags.induct) (auto split: if_split_asm)

lemma skip_atoi_length: "skip_atoi fmt i = (n, rest) \<Longrightarrow> length rest \<le> length fmt"
  by (induction fmt i rule: skip_atoi.induct) (auto split: if_split_asm)

lemma parse_width_length: "parse_width fmt flags args = Some (w, f, rest, args') \<Longrightarrow> length rest \<le> length fmt"
  unfolding parse_width_def Let_def
  by (auto simp: bind_Some_iff split: prod.splits if_split_asm dest!: skip_atoi_length)

lemma parse_precision_length: "parse_precision fmt args = Some (p, rest, args') \<Longrightarrow> length rest \<le> length fmt"
  unfolding parse_precision_def Let_def
  by (auto simp: bind_Some_iff split: prod.splits if_split_asm dest!: skip_atoi_length)

lemma parse_spec_length: "parse_spec fmt args = Some (sp, rest, args') \<Longrightarrow> length rest \<le> length fmt"
  unfolding parse_spec_def Let_def
  by (fastforce simp: bind_Some_iff split: prod.splits if_split_asm
      dest!: parse_flags_length parse_width_length parse_precision_length)

text \<open>The whole format. At its end after a percent sign the default case writes that sign.\<close>

function vs_loop :: "fp_split \<Rightarrow> mem \<Rightarrow> u8 list \<Rightarrow> u32 list \<Rightarrow> u8 list \<Rightarrow> (u8 list \<times> mem) option" where
  "vs_loop fp m fmt args out =
     (case fmt of
        [] \<Rightarrow> Some (out, m)
      | c # fmt \<Rightarrow>
          if c \<noteq> 37 then vs_loop fp m fmt args (out @ [c])
          else (case parse_spec fmt args of
              None \<Rightarrow> None
            | Some (sp, rest, args) \<Rightarrow>
                (case rest of
                   [] \<Rightarrow> Some (out @ [37], m)
                 | k # rest \<Rightarrow>
                     (case convert fp m sp k args out of
                        None \<Rightarrow> None
                      | Some (out, m, args) \<Rightarrow> vs_loop fp m rest args out))))"
  by auto

termination vs_loop
  by (relation "measure (\<lambda>(fp, m, fmt, args, out). length fmt)") (auto dest: parse_spec_length)

declare vs_loop.simps [simp del]

definition vsprintf :: "fp_split \<Rightarrow> mem \<Rightarrow> u8 list \<Rightarrow> u32 list \<Rightarrow> (u32 \<times> u8 list \<times> mem) option" where
  "vsprintf fp m fmt args = do {
     (out, m) \<leftarrow> vs_loop fp m fmt args [];
     let i = of_nat (length out);
     kassert (sint i < 1024);
     Some (i, out @ [0], m)
   }"

definition sprintf :: "fp_split \<Rightarrow> mem \<Rightarrow> u8 list \<Rightarrow> u32 list \<Rightarrow> (u32 \<times> u8 list \<times> mem) option" where
  "sprintf fp m fmt args = vsprintf fp m fmt args"

subsection \<open>What a number looks like\<close>

text \<open>
  The reference: the digits of a natural number, and the layout of a field. A sign and a prefix stay in
  front of the zeros that fill a field, blanks come before them.
\<close>

function num_text :: "bool \<Rightarrow> nat \<Rightarrow> nat \<Rightarrow> u8 list" where
  "num_text small b n = (if n < b \<or> b < 2 then [DIGITS small n] else num_text small b (n div b) @ [DIGITS small (n mod b)])"
  by auto

termination num_text
  by (relation "measure (\<lambda>(small, b, n). n)") auto

declare num_text.simps [simp del]

definition field :: "bool \<Rightarrow> bool \<Rightarrow> int \<Rightarrow> u8 list \<Rightarrow> u8 list \<Rightarrow> u8 list" where
  "field left zero width front body =
     (let k = nat (width - int (length front + length body)) in
      if left then front @ body @ replicate k 32
      else if zero then front @ replicate k 48 @ body
      else replicate k 32 @ front @ body)"

definition sign_text :: "u32 \<Rightarrow> u32 \<Rightarrow> u8 list" where
  "sign_text flags num = (if flags AND SIGN \<noteq> 0 \<and> sint num < 0 then [45]
     else if flags AND PLUS \<noteq> 0 then [43] else if flags AND SPACE \<noteq> 0 then [32] else [])"

definition prefix_text :: "u32 \<Rightarrow> u32 \<Rightarrow> u8 list" where
  "prefix_text flags base = (if flags AND SPECIAL = 0 then []
     else if base = 8 then [48] else if base = 16 then [48, if flags AND SMALL \<noteq> 0 then 120 else 88] else [])"

definition magnitude :: "u32 \<Rightarrow> u32 \<Rightarrow> nat" where
  "magnitude flags num = (if flags AND SIGN \<noteq> 0 then nat \<bar>sint num\<bar> else unat num)"

definition zero_fill :: "int \<Rightarrow> u8 list \<Rightarrow> u8 list" where
  "zero_fill p ds = replicate (nat p - length ds) 48 @ ds"

lemma count_down_eq:
  "count_down c bound n = (replicate (nat (sint n - sint bound)) c, if sint bound < sint n then bound - 1 else n - 1)"
proof (induction c bound n rule: count_down.induct)
  case (1 c bound n)
  show ?case
  proof (cases "sint bound < sint n")
    case True
    then have s: "sint (n - 1) = sint n - 1" by (rule sint_minus_1)
    have "nat (sint n - sint bound) = Suc (nat (sint (n - 1) - sint bound))" using True s by simp
    moreover have "bound = n - 1" if "\<not> sint bound < sint (n - 1)"
      using that True s by (metis add_le_cancel_right diff_add_cancel linorder_cases linorder_not_le sint_inject zless_imp_add1_zle)
    ultimately show ?thesis
      using "1.IH" [OF True] True by (subst count_down.simps) auto
  qed (subst count_down.simps, simp)
qed

lemma digits_loop_text:
  assumes "2 \<le> base" "n \<noteq> 0"
  shows "rev (digits_loop small n base) = num_text small (unat base) (unat n)"
  using assms
proof (induction small n base rule: digits_loop.induct)
  case (1 small n base)
  have b: "2 \<le> unat base" using "1.prems"(1) by (simp add: word_le_nat_alt)
  show ?case
  proof (cases "n div base = 0")
    case True
    then have "unat n < unat base" using b by (metis div_eq_0_iff not_numeral_le_zero unat_0 unat_div)
    then show ?thesis using True "1.prems" b
      by (subst digits_loop.simps, subst num_text.simps, subst digits_loop.simps) (simp add: unat_mod)
  next
    case False
    then have "\<not> unat n < unat base" by (metis div_less unat_div unat_eq_zero)
    then show ?thesis using False "1.IH" "1.prems" b
      by (subst digits_loop.simps, subst num_text.simps) (simp add: unat_mod unat_div)
  qed
qed

lemma digits_loop_length: "2 \<le> base \<Longrightarrow> unat n < 2 ^ k \<Longrightarrow> length (digits_loop small n base) \<le> k"
proof (induction small n base arbitrary: k rule: digits_loop.induct)
  case (1 small n base)
  show ?case
  proof (cases "n = 0")
    case False
    then obtain k' where k: "k = Suc k'" using "1.prems" by (cases k) (auto simp: unat_eq_zero)
    have "2 \<le> unat base" using "1.prems"(1) by (simp add: word_le_nat_alt)
    then have "unat n div unat base \<le> unat n div 2" by (intro div_le_mono2) simp_all
    then have "unat (n div base) < 2 ^ k'" using "1.prems"(2) by (simp add: unat_div k)
    then show ?thesis using "1.IH" False "1.prems"(1) k by (subst digits_loop.simps) simp
  qed (subst digits_loop.simps, simp)
qed

lemma sint_word_of_int_small: "- 2147483648 \<le> x \<Longrightarrow> x < 2147483648 \<Longrightarrow> sint (word_of_int x :: u32) = x"
  by (simp add: sint_sbintrunc' signed_take_bit_int_eq_self)

lemma count_down_0:
  assumes "- 2147483640 \<le> x" "x < 2147483648"
  shows "count_down c 0 (word_of_int x) = (replicate (nat x) c, word_of_int (min x 0 - 1))"
  using assms by (simp add: count_down_eq sint_word_of_int_small min_def)

lemma flag_masks:
  "(flags AND NOT ZEROPAD) AND SIGN = flags AND SIGN" "(flags AND NOT ZEROPAD) AND PLUS = flags AND PLUS"
  "(flags AND NOT ZEROPAD) AND SPACE = flags AND SPACE" "(flags AND NOT ZEROPAD) AND LEFT = flags AND LEFT"
  "(flags AND NOT ZEROPAD) AND SPECIAL = flags AND SPECIAL" "(flags AND NOT ZEROPAD) AND DOUBLE = flags AND DOUBLE"
  "(flags AND NOT ZEROPAD) AND ZEROPAD = 0"
  "flags AND (ZEROPAD + LEFT) = 0 \<longleftrightarrow> flags AND ZEROPAD = 0 \<and> flags AND LEFT = 0"
proof -
  show "(flags AND NOT ZEROPAD) AND SIGN = flags AND SIGN" "(flags AND NOT ZEROPAD) AND PLUS = flags AND PLUS"
  "(flags AND NOT ZEROPAD) AND SPACE = flags AND SPACE" "(flags AND NOT ZEROPAD) AND LEFT = flags AND LEFT"
  "(flags AND NOT ZEROPAD) AND SPECIAL = flags AND SPECIAL" "(flags AND NOT ZEROPAD) AND DOUBLE = flags AND DOUBLE"
  "(flags AND NOT ZEROPAD) AND ZEROPAD = 0"
    by (simp_all add: and.assoc ZEROPAD_def SIGN_def PLUS_def SPACE_def LEFT_def SPECIAL_def DOUBLE_def)
  have "ZEROPAD + LEFT = ZEROPAD OR LEFT" by (simp add: ZEROPAD_def LEFT_def)
  then show "flags AND (ZEROPAD + LEFT) = 0 \<longleftrightarrow> flags AND ZEROPAD = 0 \<and> flags AND LEFT = 0"
    by (simp add: bit.conj_disj_distrib or_eq_0_iff)
qed

lemma number_digits:
  fixes n base :: u32 and small :: bool
  assumes "2 \<le> base"
  defines "tmp \<equiv> if n = 0 then [48] else digits_loop small n base"
  shows "rev tmp = num_text small (unat base) (unat n)" "length tmp \<le> 32" "1 \<le> length tmp"
proof -
  have b: "2 \<le> unat base" using assms(1) by (simp add: word_le_nat_alt)
  show r: "rev tmp = num_text small (unat base) (unat n)"
  proof (cases "n = 0")
    case True
    then show ?thesis using b by (subst num_text.simps) (simp add: tmp_def DIGITS_def)
  qed (simp add: tmp_def digits_loop_text [OF assms(1)])
  show "length tmp \<le> 32" using digits_loop_length [OF assms(1), of n 32 small] unat_u32_bound [of n] by (simp add: tmp_def)
  have "num_text small (unat base) (unat n) \<noteq> []" by (subst num_text.simps) simp
  with r show "1 \<le> length tmp" by (cases tmp) auto
qed

lemma uint_from_sint: "uint w = take_bit 32 (sint w)" "uint (- w) = take_bit 32 (- sint w)" for w :: u32
proof -
  have "uint w = uint (word_of_int (sint w) :: u32)" by simp
  also have "\<dots> = take_bit LENGTH(32) (sint w)" by (rule uint_word_of_int_eq)
  finally show "uint w = take_bit 32 (sint w)" by simp
  have "uint (- w) = uint (word_of_int (- sint w) :: u32)" by simp
  also have "\<dots> = take_bit LENGTH(32) (- sint w)" by (rule uint_word_of_int_eq)
  finally show "uint (- w) = take_bit 32 (- sint w)" by simp
qed

lemma magnitude_sint:
  fixes num :: u32
  shows "sint num < 0 \<Longrightarrow> unat (- num) = nat \<bar>sint num\<bar>" "0 \<le> sint num \<Longrightarrow> unat num = nat \<bar>sint num\<bar>"
  using uint_from_sint [of num] sint_greater_eq [of num] sint_less [of num] by (simp_all add: unat_eq_nat_uint take_bit_int_eq_self)

text \<open>
  With \<open>DOUBLE\<close>: the digits of the whole part, a point and the last six digits of the fraction, whatever the
  base; the sign is that of the floating-point number.
\<close>

definition number_sign :: "fp_split \<Rightarrow> u64 \<Rightarrow> u32 \<Rightarrow> u32 \<Rightarrow> u8 list" where
  "number_sign fp d flags num = (if flags AND DOUBLE = 0 then sign_text flags num
     else if fst (fp d) then [45] else if flags AND PLUS \<noteq> 0 then [43] else if flags AND SPACE \<noteq> 0 then [32] else [])"

definition number_text :: "fp_split \<Rightarrow> u64 \<Rightarrow> u32 \<Rightarrow> u32 \<Rightarrow> u32 \<Rightarrow> u8 list" where
  "number_text fp d flags base num = (let small = flags AND SMALL \<noteq> 0; b = unat base in
     if flags AND DOUBLE = 0 then num_text small b (magnitude flags num)
     else case fp d of (_, ival, fval) \<Rightarrow> num_text small b (unat ival) @ [46] @
       map (\<lambda>j. DIGITS small (unat fval div b ^ j mod b)) (rev [0..<6]))"

lemma digits_fixed_map:
  "digits_fixed k small n base = map (\<lambda>j. DIGITS small (unat n div unat base ^ j mod unat base)) [0..<k]"
proof (induction k arbitrary: n)
  case (Suc k)
  have "[0..<Suc k] = 0 # map Suc [0..<k]" by (simp add: upt_conv_Cons map_Suc_upt del: upt_Suc)
  then show ?case
    using Suc.IH [of "n div base"] by (simp add: unat_mod unat_div div_mult2_eq o_def del: upt_Suc)
qed simp

lemma tmp_digits_text:
  assumes "2 \<le> base"
  shows "rev (tmp_digits fp d num (flags AND SMALL \<noteq> 0) base) =
      (case fp d of (_, ival, fval) \<Rightarrow> num_text (flags AND SMALL \<noteq> 0) (unat base) (unat ival) @ [46] @
        map (\<lambda>j. DIGITS (flags AND SMALL \<noteq> 0) (unat fval div unat base ^ j mod unat base)) (rev [0..<6]))"
    and "length (tmp_digits fp d num small base) \<le> 40" and "1 \<le> length (tmp_digits fp d num small base)"
proof -
  obtain sg ival fval where fp: "fp d = (sg, ival, fval)" by (cases "fp d") auto
  have "rev (DIGITS s (unat (ival mod base)) # digits_loop s (ival div base) base) = num_text s (unat base) (unat ival)" for s
    using digits_loop_text [OF assms, of ival s] number_digits(1) [OF assms, of 0 s, symmetric]
    by (cases "ival = 0") (use assms in \<open>auto simp: digits_loop.simps [of s ival base] digits_loop.simps [of s 0 base] DIGITS_def\<close>)
  then show "rev (tmp_digits fp d num (flags AND SMALL \<noteq> 0) base) =
      (case fp d of (_, ival, fval) \<Rightarrow> num_text (flags AND SMALL \<noteq> 0) (unat base) (unat ival) @ [46] @
        map (\<lambda>j. DIGITS (flags AND SMALL \<noteq> 0) (unat fval div unat base ^ j mod unat base)) (rev [0..<6]))"
    by (simp add: tmp_digits_def fp digits_fixed_map rev_map del: upt_Suc)
  have "length (digits_fixed 6 small fval base) = 6" by (simp add: digits_fixed_map)
  moreover have "length (digits_loop small (ival div base) base) \<le> 32"
    using digits_loop_length [OF assms, of "ival div base" 32 small] unat_u32_bound [of "ival div base"] by simp
  ultimately show "length (tmp_digits fp d num small base) \<le> 40" "1 \<le> length (tmp_digits fp d num small base)"
    by (simp_all add: tmp_digits_def fp)
qed

lemma number_layout:
  assumes base: "2 \<le> base" "base \<le> 36"
    and width: "- 1 \<le> sint width" "sint width < 1073741824" and prec: "- 1 \<le> sint prec" "sint prec < 1073741824"
  shows "number fp d num base width prec flags =
    field (flags AND LEFT \<noteq> 0) (flags AND ZEROPAD \<noteq> 0) (sint width) (number_sign fp d flags num @ prefix_text flags base)
      (zero_fill (sint prec) (number_text fp d flags base num))"
proof -
  define double where "double \<longleftrightarrow> flags AND DOUBLE \<noteq> 0"
  define negative where "negative \<longleftrightarrow> (if double then fst (fp d) else flags AND SIGN \<noteq> 0 \<and> sint num < 0)"
  define n where "n = (if negative \<and> \<not> double then - num else num)"
  define tmp where "tmp = (if double then tmp_digits fp d n (flags AND SMALL \<noteq> 0) base
    else if n = 0 then [48] else digits_loop (flags AND SMALL \<noteq> 0) n base)"
  have digits: "rev tmp = number_text fp d flags base num" and len: "length tmp \<le> 40" "1 \<le> length tmp"
  proof -
    have "rev tmp = number_text fp d flags base num \<and> length tmp \<le> 40 \<and> 1 \<le> length tmp"
    proof (cases double)
      case True
      then show ?thesis using tmp_digits_text [OF base(1)]
        by (simp add: tmp_def double_def number_text_def Let_def del: upt_Suc)
    next
      case False
      then have "unat n = magnitude flags num"
        using magnitude_sint [of num] by (auto simp: n_def negative_def magnitude_def not_less)
      then show ?thesis using False number_digits [OF base(1), of n "flags AND SMALL \<noteq> 0"]
        by (simp add: tmp_def double_def number_text_def Let_def)
    qed
    then show "rev tmp = number_text fp d flags base num" "length tmp \<le> 40" "1 \<le> length tmp" by auto
  qed
  define sign where "sign = number_sign fp d flags num"
  define prefix where "prefix = prefix_text flags base"
  define P where "P = max (sint prec) (int (length tmp))"
  define S where "S = sint width - int (length sign + length prefix) - P"
  have sl: "length sign \<le> 1" "length prefix \<le> 2" by (simp_all add: sign_def number_sign_def sign_text_def prefix_def prefix_text_def)
  then have S: "- 2147483600 \<le> S" "S < 2147483600" using width prec len by (simp_all add: S_def P_def)
  have i: "sint (of_nat (length tmp) :: u32) = int (length tmp)" using len by (simp add: sint_small unat_of_nat_small)
  define F where "F = (if flags AND LEFT \<noteq> 0 then flags AND NOT ZEROPAD else flags)"
  have F: "F AND SIGN = flags AND SIGN" "F AND PLUS = flags AND PLUS" "F AND SPACE = flags AND SPACE"
    "F AND LEFT = flags AND LEFT" "F AND SPECIAL = flags AND SPECIAL" "F AND DOUBLE = flags AND DOUBLE"
    "F AND ZEROPAD = (if flags AND LEFT = 0 then flags AND ZEROPAD else 0)"
    "F AND (ZEROPAD + LEFT) = 0 \<longleftrightarrow> flags AND LEFT = 0 \<and> flags AND ZEROPAD = 0"
    by (auto simp: F_def flag_masks)
  have sgn: "(if negative then [45] else if flags AND PLUS \<noteq> 0 then [43] else if flags AND SPACE \<noteq> 0 then [32] else []) = sign"
    by (auto simp: sign_def number_sign_def sign_text_def negative_def double_def)
  have pre: "(if flags AND SPECIAL \<noteq> 0 then if base = 8 then [48] else if base = 16 then [48, DIGITS (flags AND SMALL \<noteq> 0) 33] else [] else []) = prefix"
    by (simp add: prefix_def prefix_text_def DIGITS_def)
  define prec' where "prec' = (if int (length tmp) > sint prec then of_nat (length tmp) else prec)"
  have prec': "sint prec' = P" using i by (simp add: prec'_def P_def)
  define w1 where "w1 = (if sign \<noteq> [] then width - 1 else width)"
  define w2 where "w2 = (if flags AND SPECIAL \<noteq> 0 then if base = 16 then w1 - 2 else if base = 8 then w1 - 1 else w1 else w1)"
  have w1: "w1 = word_of_int (sint width - int (length sign))" using sl(1) by (cases sign) (simp_all add: w1_def)
  have "w2 = word_of_int (sint width - int (length sign + length prefix))"
  proof -
    have "(16 :: u32) \<noteq> 8" by simp
    then show ?thesis using w1
      by (cases "flags AND SPECIAL = 0"; cases "base = 8"; cases "base = 16")
        (simp_all add: w2_def prefix_def prefix_text_def diff_diff_eq del: word_eq_numeral_iff_iszero)
  qed
  then have w3: "w2 - prec' = word_of_int S" by (simp add: S_def prec' [symmetric])
  obtain S1 S2 S3 where cd: "count_down c 0 (word_of_int S) = (replicate (nat S) c, word_of_int S1)"
    "count_down c 0 (word_of_int S1) = ([], word_of_int S2)" "count_down c 0 (word_of_int S2) = ([], word_of_int S3)" for c
    using that [of "min S 0 - 1" "min S 0 - 2" "min S 0 - 3"] count_down_0 [of S] count_down_0 [of "min S 0 - 1"]
      count_down_0 [of "min S 0 - 2"] S by (simp add: min_def)
  have zs: "fst (count_down 48 (of_nat (length tmp)) prec') = replicate (nat (sint prec) - length tmp) 48"
    by (simp add: count_down_eq i prec') (auto simp: P_def max_def)
  then obtain left where zp: "count_down 48 (of_nat (length tmp)) prec' = (replicate (nat (sint prec) - length tmp) 48, left)"
    by (metis prod.collapse)
  have k: "sint width - int (length (sign @ prefix) + length (zero_fill (sint prec) (rev tmp))) = S"
    by (auto simp: S_def P_def zero_fill_def max_def)
  have "number fp d num base width prec flags =
     (case if flags AND LEFT = 0 \<and> flags AND ZEROPAD = 0 then count_down 32 0 (word_of_int S) else ([], word_of_int S) of
      (blanks, w) \<Rightarrow>
        (case if flags AND LEFT = 0 then count_down (if (if flags AND LEFT = 0 then flags AND ZEROPAD else 0) \<noteq> 0 then 48 else 32) 0 w else ([], w) of
        (pads, w) \<Rightarrow>
          (case count_down 48 (of_nat (length tmp)) prec' of (zeros, _) \<Rightarrow>
            (case count_down 32 0 w of (trail, _) \<Rightarrow> blanks @ sign @ prefix @ pads @ zeros @ rev tmp @ trail))))"
    unfolding number_def Let_def F_def [symmetric] F
    by (simp only: simp_thms if_False double_def [symmetric] negative_def [symmetric] n_def [symmetric] tmp_def [symmetric] sgn i pre w1_def [symmetric]
        w2_def [symmetric] prec'_def [symmetric] w3)
  also have "\<dots> = field (flags AND LEFT \<noteq> 0) (flags AND ZEROPAD \<noteq> 0) (sint width) (sign @ prefix) (zero_fill (sint prec) (rev tmp))"
    unfolding field_def Let_def k zp
    by (cases "flags AND LEFT = 0"; cases "flags AND ZEROPAD = 0") (simp_all add: cd zero_fill_def)
  finally show ?thesis unfolding digits sign_def prefix_def .
qed

lemma digit_char:
  assumes "i < 10"
  shows "scast (DIGITS small i) - 48 = (of_nat i :: u32)" "is_digit (DIGITS small i)"
    "DIGITS small i \<noteq> 45" "DIGITS small i \<noteq> 46" "DIGITS small i \<noteq> 0"
proof -
  have "i \<in> {0, 1, 2, 3, 4, 5, 6, 7, 8, 9}" using assms unfolding insert_iff empty_iff by presburger
  then have "scast (DIGITS small i) - 48 = (of_nat i :: u32) \<and> is_digit (DIGITS small i) \<and>
      DIGITS small i \<noteq> 45 \<and> DIGITS small i \<noteq> 46 \<and> DIGITS small i \<noteq> 0"
    by (elim insertE emptyE) (simp_all add: DIGITS_def is_digit_def)
  then show "scast (DIGITS small i) - 48 = (of_nat i :: u32)" "is_digit (DIGITS small i)"
    "DIGITS small i \<noteq> 45" "DIGITS small i \<noteq> 46" "DIGITS small i \<noteq> 0" by blast+
qed

lemma atoi_loop_num_text: "atoi_loop (num_text small 10 k) 0 = of_nat k"
proof (induction small "10 :: nat" k rule: num_text.induct)
  case (1 small n)
  show ?case
  proof (cases "n < 10")
    case False
    have "of_nat n = (of_nat (n div 10 * 10 + n mod 10) :: u32)" by simp
    also have "\<dots> = of_nat (n div 10) * 10 + of_nat (n mod 10)" by (simp only: of_nat_add of_nat_mult of_nat_numeral)
    finally show ?thesis using 1 False
      by (subst num_text.simps) (simp add: atoi_loop_append digit_char(1))
  qed (subst num_text.simps, simp add: digit_char(1))
qed

lemma num_text_digit: "2 \<le> b \<Longrightarrow> b \<le> 10 \<Longrightarrow> c \<in> set (num_text small b n) \<Longrightarrow> \<exists>i < 10. c = DIGITS small i"
proof (induction small b n rule: num_text.induct)
  case (1 small b n)
  have "n mod b < b" using "1.prems" by simp
  then have "n mod b < 10" using "1.prems" by linarith
  moreover have "num_text small b n = (if n < b \<or> b < 2 then [DIGITS small n] else num_text small b (n div b) @ [DIGITS small (n mod b)])"
    by (rule num_text.simps)
  moreover have "n < b \<Longrightarrow> n < 10" using "1.prems" by linarith
  ultimately have "c = DIGITS small n \<and> n < 10 \<or> c = DIGITS small (n mod b) \<or>
      \<not> (n < b \<or> b < 2) \<and> c \<in> set (num_text small b (n div b))"
    using "1.prems" by (auto split: if_split_asm)
  then show ?case using "1.IH" "1.prems"(1,2) \<open>n mod b < 10\<close> by blast
qed

lemma num_text_length:
  assumes "2 \<le> base" "k < 4294967296"
  shows "length (num_text small (unat (base :: u32)) k) \<le> 32"
proof -
  have "unat (of_nat k :: u32) = k" using assms(2) by (intro unat_of_nat_small) simp
  then show ?thesis using number_digits(1,2) [OF assms(1), of "of_nat k" small] by (metis length_rev)
qed

lemma conv_int_plain:
  "conv_int fp \<lparr>fs_flags = flags, fs_width = - 1, fs_prec = - 1\<rparr> base a =
     sign_text flags a @ prefix_text flags base @ num_text (flags AND SMALL \<noteq> 0) (unat base) (magnitude flags a)"
  if "2 \<le> base" "base \<le> 36" "flags AND DOUBLE = 0"
proof -
  have "sint (- 1 :: u32) = - 1" by simp
  then have w: "- 1 \<le> sint (- 1 :: u32)" "sint (- 1 :: u32) < 1073741824" by simp_all
  show ?thesis unfolding conv_int_def fspec.select_convs number_layout [OF that(1,2) w w]
    using that(3) by (simp add: field_def zero_fill_def number_sign_def number_text_def Let_def)
qed

subsection \<open>Properties\<close>

text \<open>
  C38. \<^verbatim>\<open>number\<close> is the reference layout, for every base, every combination of flags and every width and
  precision below \<open>2 ^ 30\<close> (-1 for none; beyond, the code's \<^verbatim>\<open>int\<close> arithmetic may overflow). It writes the
  digits of the absolute value, or with \<open>DOUBLE\<close> those of the whole part, a point and six digits of the
  fraction (the split of the 64 bits into sign, whole part and millionths is the parameter \<open>fp\<close>), filled
  with zeros up to the precision, behind its sign and prefix, in a field of the width: to the left, to the
  right, or filled with zeros behind sign and prefix. Base 2 together with \<open>DOUBLE\<close> is left out: its digits
  may not fit the 36 characters of the code's buffer.
\<close>

theorem number_field:
  assumes "2 \<le> base" and "base \<le> 36" and "flags AND DOUBLE \<noteq> 0 \<longrightarrow> base \<noteq> 2"
    and "- 1 \<le> sint width" and "sint width < 1073741824" and "- 1 \<le> sint prec" and "sint prec < 1073741824"
  shows "number fp d num base width prec flags =
    field (flags AND LEFT \<noteq> 0) (flags AND ZEROPAD \<noteq> 0) (sint width) (number_sign fp d flags num @ prefix_text flags base)
      (zero_fill (sint prec) (number_text fp d flags base num))"
  using assms by (intro number_layout)

text \<open>
  Printing and reading. What \<^verbatim>\<open>vsprintf\<close> writes for \<^verbatim>\<open>%d\<close> is read back by \<^verbatim>\<open>atoi\<close> as the number
  itself, for every \<^verbatim>\<open>int\<close>, the smallest one included.
\<close>

theorem printf_atoi:
  "\<exists>out. vsprintf fp m [37, 100] [n] = Some (of_nat (length out), out @ [0], m) \<and> atoi (Some out) = n"
proof -
  define ds where "ds = num_text False 10 (nat \<bar>sint n\<bar>)"
  define out where "out = (if sint n < 0 then 45 # ds else ds)"
  have "conv_int fp \<lparr>fs_flags = SIGN, fs_width = - 1, fs_prec = - 1\<rparr> 10 n = out"
    by (subst conv_int_plain) (simp_all add: SIGN_def DOUBLE_def SMALL_def PLUS_def SPACE_def SPECIAL_def sign_text_def
        prefix_text_def magnitude_def out_def ds_def)
  then have loop: "vs_loop fp m [37, 100] [n] [] = Some (out, m)"
    by (simp add: vs_loop.simps parse_spec_def parse_width_def parse_precision_def at_fmt_def is_digit_def convert_def va_arg_def)
  have "length ds \<le> 32"
  proof -
    have "nat \<bar>sint n\<bar> < 4294967296" using sint_greater_eq [of n] sint_less [of n] by simp
    then show ?thesis using num_text_length [of 10 _ False] by (simp add: ds_def)
  qed
  then have len: "length out \<le> 33" by (simp add: out_def)
  then have "sint (of_nat (length out) :: u32) < 1024" by (simp add: sint_small unat_of_nat_small)
  then have v: "vsprintf fp m [37, 100] [n] = Some (of_nat (length out), out @ [0], m)" by (simp add: vsprintf_def Let_def loop)
  have a: "atoi_loop ds 0 = of_nat (nat \<bar>sint n\<bar>)" by (simp add: ds_def atoi_loop_num_text)
  have "atoi (Some out) = n"
  proof (cases "sint n < 0")
    case True
    then have "out = 45 # ds" by (simp add: out_def)
    then have "atoi (Some out) = - of_nat (nat \<bar>sint n\<bar>)" by (simp add: atoi_def a)
    also have "\<dots> = word_of_int (sint n)" using True by simp
    finally show ?thesis by simp
  next
    case False
    have "ds \<noteq> []" unfolding ds_def by (subst num_text.simps) simp
    then obtain c cs where ds: "ds = c # cs" by (cases ds) auto
    then obtain i where "i < 10" "c = DIGITS False i" using num_text_digit [of 10 c False "nat \<bar>sint n\<bar>"] unfolding ds_def by auto
    then have "c \<noteq> 45" by (simp only: digit_char(3) not_False_eq_True)
    then have "atoi (Some out) = of_nat (nat \<bar>sint n\<bar>)" using False a by (simp add: atoi_def out_def ds)
    also have "\<dots> = word_of_int (sint n)" using False by simp
    finally show ?thesis by simp
  qed
  with v show ?thesis by blast
qed

text \<open>
  A star as precision takes its argument but is not skipped: \<^verbatim>\<open>%.*d\<close> prints the three characters
  \<^verbatim>\<open>%*d\<close>, whatever the arguments are, and the number is never printed.
\<close>

theorem printf_star_precision:
  "vsprintf fp m [37, 46, 42, 100] (p # args) = Some (3, [37, 42, 100, 0], m)"
  by (simp add: vsprintf_def vs_loop.simps parse_spec_def parse_width_def parse_precision_def at_fmt_def is_digit_def
      convert_def va_arg_def Let_def)

text \<open>\<^verbatim>\<open>%#08x\<close> of 0xbeef and \<^verbatim>\<open>%-6.3d\<close> of -7.\<close>

theorem number_field_witness:
  "\<forall>fp d. number fp d 0xbeef 16 8 (- 1) (SPECIAL OR ZEROPAD OR SMALL) = [48, 120, 48, 48, 98, 101, 101, 102] \<and>
    number fp d (- 7) 10 6 3 (SIGN OR LEFT) = [45, 48, 48, 55, 32, 32]"
proof (intro allI conjI)
  fix fp d
  have f: "(SPECIAL OR ZEROPAD OR SMALL) AND X = 0x61 AND X" "(SIGN OR LEFT) AND X = 0x12 AND X" for X
    by (simp_all add: SPECIAL_def ZEROPAD_def SMALL_def SIGN_def LEFT_def)
  have hex: "num_text True 16 48879 = [98, 101, 101, 102]" "num_text False 10 7 = [55]"
    by (simp_all add: num_text.simps DIGITS_def)
  have r: "replicate 2 c = [c, c]" for c :: u8 by (simp add: numeral_2_eq_2)
  note defs = f r field_def number_sign_def number_text_def sign_text_def prefix_text_def zero_fill_def magnitude_def SPECIAL_def ZEROPAD_def SMALL_def SIGN_def LEFT_def
    PLUS_def SPACE_def
  show "number fp d 0xbeef 16 8 (- 1) (SPECIAL OR ZEROPAD OR SMALL) = [48, 120, 48, 48, 98, 101, 101, 102]"
    by (subst number_field) (simp_all add: DOUBLE_def defs hex)
  show "number fp d (- 7) 10 6 3 (SIGN OR LEFT) = [45, 48, 48, 55, 32, 32]"
    by (subst number_field) (simp_all add: DOUBLE_def defs hex)
qed

end
