(* ===== verification/Onix_Net.thy ===== *)
theory Onix_Net
  imports Onix_Bitmap Onix_Printf Onix_Paging Onix_List Onix_Task_Data
begin

section \<open>Network basics (src/net: chksum.c, addr.c, port.c, pbuf.c, iovec.c)\<close>

text \<open>
  Checksums and addresses on the byte memory of \<^verbatim>\<open>Onix_String\<close>, port numbers in a bitmap, packet
  buffers on a list, and scatter/gather copies. An IP address of four bytes is passed as the 32-bit word
  that the processor loads from it, lowest byte first.
\<close>

definition EADDR :: u32 where "EADDR = 101"
definition EOCCUPIED :: u32 where "EOCCUPIED = 106"

subsection \<open>Byte order\<close>

definition htonl :: "u32 \<Rightarrow> u32" where
  "htonl l = push_bit 24 (l AND 0xff) OR push_bit 8 (l AND 0xff00) OR drop_bit 8 (l AND 0xff0000) OR drop_bit 24 (l AND 0xff000000)"

definition htons :: "u16 \<Rightarrow> u16" where
  "htons s = push_bit 8 (s AND 0xff) OR drop_bit 8 (s AND 0xff00)"

subsection \<open>Checksums\<close>

fun fcs_bits :: "nat \<Rightarrow> u32 \<Rightarrow> u32" where
  "fcs_bits 0 crc = crc"
| "fcs_bits (Suc j) crc = fcs_bits j (if crc AND 1 \<noteq> 0 then drop_bit 1 crc XOR 0xEDB88320 else drop_bit 1 crc)"

fun fcs_loop :: "mem \<Rightarrow> u32 \<Rightarrow> nat \<Rightarrow> u32 \<Rightarrow> u32" where
  "fcs_loop m ptr 0 crc = crc"
| "fcs_loop m ptr (Suc left) crc = fcs_loop m (ptr + 1) left (fcs_bits 8 (crc XOR ucast (m ptr)))"

definition eth_fcs :: "mem \<Rightarrow> u32 \<Rightarrow> u32 \<Rightarrow> u32" where
  "eth_fcs m data len = NOT (fcs_loop m data (nat (sint len)) (- 1))"

text \<open>The carries of a sum of halves, added back; once in the loop, then until there are none.\<close>

definition fold_once :: "u32 \<Rightarrow> u32" where
  "fold_once s = (s AND 0xffff) + drop_bit 16 s"

function fold_carries :: "u32 \<Rightarrow> u32" where
  "fold_carries s = (if drop_bit 16 s \<noteq> 0 then fold_carries (fold_once s) else s)"
  by auto

lemma unat_fold_once: "unat (fold_once s) = unat s mod 65536 + unat s div 65536"
proof -
  have "s AND 0xffff = take_bit 16 s" by (simp add: take_bit_eq_mask mask_eq_exp_minus_1)
  then have a: "unat (s AND 0xffff) = unat s mod 65536" by (simp add: take_bit_eq_mod unat_mod)
  have b: "unat (drop_bit 16 s) = unat s div 65536" by (simp add: drop_bit_eq_div unat_div)
  have "unat s mod 65536 < 65536" "unat s div 65536 < 65536" using unat_u32_bound [of s] by simp_all
  then show ?thesis unfolding fold_once_def using a b by (subst unat_plus_small) simp_all
qed

termination fold_carries
proof (relation "measure unat")
  fix s :: u32
  assume "drop_bit 16 s \<noteq> 0"
  then have "unat s div 65536 \<noteq> 0" by (simp add: drop_bit_eq_div unat_div word_unat_eq_iff)
  moreover have "unat s mod 65536 + unat s div 65536 * 65536 = unat s" by simp
  ultimately have "unat s mod 65536 + unat s div 65536 < unat s" by linarith
  then show "(fold_once s, s) \<in> measure unat" by (simp add: unat_fold_once)
qed simp

declare fold_carries.simps [simp del]

fun chk_loop :: "mem \<Rightarrow> u32 \<Rightarrow> nat \<Rightarrow> u32 \<Rightarrow> u32" where
  "chk_loop m ptr 0 s = s"
| "chk_loop m ptr (Suc left) s =
     (let s = (if s AND 0x80000000 \<noteq> 0 then fold_once s else s)
      in chk_loop m (ptr + 2) left (s + ucast (read16 m ptr)))"

text \<open>\<open>len\<close> is an int: one round for every two bytes, then the odd byte.\<close>

definition chksum :: "mem \<Rightarrow> u32 \<Rightarrow> u32 \<Rightarrow> u32 \<Rightarrow> u16" where
  "chksum m data len s =
     (let rounds = nat (sint len) div 2;
          s = chk_loop m data rounds s;
          s = (if sint len > 0 \<and> odd (sint len) then s + ucast (m (data + 2 * of_nat rounds)) else s)
      in ucast (fold_carries s))"

definition ip_chksum :: "mem \<Rightarrow> u32 \<Rightarrow> u32 \<Rightarrow> u16" where
  "ip_chksum m data len = NOT (chksum m data len 0)"

definition inet_chksum :: "mem \<Rightarrow> u32 \<Rightarrow> u16 \<Rightarrow> u32 \<Rightarrow> u32 \<Rightarrow> u16 \<Rightarrow> u16" where
  "inet_chksum m data len dst src proto =
     (let s = ucast (read16 m dst) + ucast (read16 m (dst + 2)) + ucast (read16 m src) + ucast (read16 m (src + 2));
          s = s + ucast (htons proto) + ucast (htons len)
      in NOT (chksum m data (ucast len) s))"

subsection \<open>Addresses\<close>

definition eth_addr_copy :: "mem \<Rightarrow> u32 \<Rightarrow> u32 \<Rightarrow> mem" where
  "eth_addr_copy m dst src = memcpy m dst src 6"

fun eth_any_loop :: "mem \<Rightarrow> u32 \<Rightarrow> nat \<Rightarrow> bool" where
  "eth_any_loop m a 0 \<longleftrightarrow> True"
| "eth_any_loop m a (Suc k) \<longleftrightarrow> (if m a \<noteq> 0 then False else eth_any_loop m (a + 1) k)"

definition eth_addr_isany :: "mem \<Rightarrow> u32 \<Rightarrow> bool" where
  "eth_addr_isany m a \<longleftrightarrow> a = 0 \<or> eth_any_loop m a 6"

fun eth_cmp_loop :: "mem \<Rightarrow> u32 \<Rightarrow> u32 \<Rightarrow> nat \<Rightarrow> bool" where
  "eth_cmp_loop m a b 0 \<longleftrightarrow> True"
| "eth_cmp_loop m a b (Suc k) \<longleftrightarrow> (if m a \<noteq> m b then False else eth_cmp_loop m (a + 1) (b + 1) k)"

definition eth_addr_cmp :: "mem \<Rightarrow> u32 \<Rightarrow> u32 \<Rightarrow> bool" where
  "eth_addr_cmp m a b \<longleftrightarrow> eth_cmp_loop m a b 6"

definition ip_addr_copy :: "mem \<Rightarrow> u32 \<Rightarrow> u32 \<Rightarrow> mem" where
  "ip_addr_copy m dst src = store32 m dst (read32 m src)"

text \<open>One number of a dotted address, up to a dot or the end; the value is an int.\<close>

partial_function (option) aton_part :: "mem \<Rightarrow> u32 \<Rightarrow> u32 \<Rightarrow> u32 \<Rightarrow> (u32 \<times> u32 \<times> u32) option" where
  "aton_part m ptr value k =
     (if m ptr = 46 \<or> m ptr = 0 then Some (EOK, ptr, if k = 0 \<or> sint value < 0 \<or> sint value > 255 then - 1 else value)
      else if \<not> isdigit (sint (m ptr)) then Some (- EADDR, ptr, 0)
      else aton_part m (ptr + 1) (value * 10 + (scast (m ptr) - 48)) (k + 1))"

text \<open>
  The four parts. The pointer moves on behind the character that ended a part, behind the terminator too.
  \<open>parts\<close> starts as whatever is on the stack.
\<close>

fun aton_loop :: "nat \<Rightarrow> mem \<Rightarrow> u32 \<Rightarrow> nat \<Rightarrow> u8 list \<Rightarrow> (u32 \<times> u8 list) option" where
  "aton_loop 0 m ptr i parts = Some (EOK, parts)"
| "aton_loop (Suc left) m ptr i parts =
     (if m ptr = 0 then Some (EOK, parts)
      else do {
        (ret, ptr, value) \<leftarrow> aton_part m ptr 0 0;
        if ret \<noteq> EOK \<or> value = - 1 then Some (- EADDR, parts)
        else aton_loop left m (ptr + 1) (Suc i) (parts[i := ucast value])
      })"

definition inet_aton :: "mem \<Rightarrow> u8 list \<Rightarrow> u32 \<Rightarrow> u32 \<Rightarrow> (u32 \<times> mem) option" where
  "inet_aton m stack str addr = do {
     (ret, parts) \<leftarrow> aton_loop 4 m str 0 stack;
     if ret \<noteq> EOK then Some (ret, m)
     else Some (EOK, m(addr := parts ! 0, addr + 1 := parts ! 1, addr + 2 := parts ! 2, addr + 3 := parts ! 3))
   }"

definition ip_addr_cmp :: "u32 \<Rightarrow> u32 \<Rightarrow> bool" where "ip_addr_cmp a1 a2 \<longleftrightarrow> a1 = a2"

definition ip_addr_maskcmp :: "u32 \<Rightarrow> u32 \<Rightarrow> u32 \<Rightarrow> bool" where
  "ip_addr_maskcmp a1 a2 m \<longleftrightarrow> a1 AND m = a2 AND m"

definition ip_addr_isbroadcast :: "u32 \<Rightarrow> u32 \<Rightarrow> bool" where
  "ip_addr_isbroadcast a m \<longleftrightarrow> a AND NOT m = - 1 AND NOT m \<or> a = - 1 \<or> a = 0"

definition ip_addr_isany :: "u32 option \<Rightarrow> bool" where
  "ip_addr_isany a \<longleftrightarrow> (case a of None \<Rightarrow> True | Some a \<Rightarrow> a = 0)"

definition ip_addr_ismulticast :: "u32 \<Rightarrow> bool" where
  "ip_addr_ismulticast a \<longleftrightarrow> a AND htonl 0xF0000000 = htonl 0xE0000000"

subsection \<open>Ports\<close>

record port_map_t =
  pm_map :: bitmap_t
  pm_buf :: u32

partial_function (option) port_scan :: "bitmap_t \<Rightarrow> u16 \<Rightarrow> u16 option" where
  "port_scan m port = do {
     used \<leftarrow> bitmap_test m (ucast port);
     let port = port + 1;
     if used then port_scan m port else Some port
   }"

definition port_get :: "port_map_t \<Rightarrow> u16 \<Rightarrow> (u32 \<times> port_map_t) option" where
  "port_get pmap port =
     (if port = 0 then do {
        port \<leftarrow> port_scan (pm_map pmap) 4096;
        m \<leftarrow> bitmap_set (pm_map pmap) (ucast port) True;
        Some (ucast port, pmap\<lparr>pm_map := m\<rparr>)
      }
      else do {
        used \<leftarrow> bitmap_test (pm_map pmap) (ucast port);
        if used then Some (- EOCCUPIED, pmap)
        else do {
          m \<leftarrow> bitmap_set (pm_map pmap) (ucast port) True;
          Some (ucast port, pmap\<lparr>pm_map := m\<rparr>)
        }
      })"

definition port_put :: "port_map_t \<Rightarrow> u16 \<Rightarrow> port_map_t option" where
  "port_put pmap port = do {
     kassert (port > 0);
     used \<leftarrow> bitmap_test (pm_map pmap) (ucast port);
     kassert used;
     m \<leftarrow> bitmap_set (pm_map pmap) (ucast port) False;
     Some (pmap\<lparr>pm_map := m\<rparr>)
   }"

text \<open>The two pages are at the address \<open>pm_buf\<close>; \<open>garbage\<close> is what they hold before.\<close>

definition port_init :: "page_pool \<Rightarrow> u8 list \<Rightarrow> (port_map_t \<times> page_pool) option" where
  "port_init p garbage = do {
     (buf, p) \<leftarrow> alloc_kpage p 2;
     m \<leftarrow> bitmap_init garbage (PAGE_SIZE * 2) 0;
     Some (\<lparr>pm_map = m, pm_buf = buf\<rparr>, p)
   }"

subsection \<open>The checksum\<close>

text \<open>
  The reference: the sum of the 16-bit words (and of the odd byte at the end) as a number in ones'
  complement, where 65535 stands for a positive multiple of 65535.
\<close>

definition words16 :: "mem \<Rightarrow> u32 \<Rightarrow> nat \<Rightarrow> nat list" where
  "words16 m p k = map (\<lambda>i. unat (read16 m (p + 2 * of_nat i))) [0..<k]"

definition ones_norm :: "nat \<Rightarrow> nat" where
  "ones_norm n = (if n = 0 then 0 else (n - 1) mod 65535 + 1)"

definition chk_total :: "mem \<Rightarrow> u32 \<Rightarrow> u32 \<Rightarrow> nat" where
  "chk_total m p len = sum_list (words16 m p (nat (sint len) div 2)) +
     (if odd (nat (sint len)) then unat (m (p + 2 * of_nat (nat (sint len) div 2))) else 0)"

definition same_ones :: "nat \<Rightarrow> nat \<Rightarrow> bool" where
  "same_ones a b \<longleftrightarrow> a mod 65535 = b mod 65535 \<and> (a = 0 \<longleftrightarrow> b = 0)"

lemma same_ones_refl [simp]: "same_ones a a"
  by (simp add: same_ones_def)

lemma same_ones_trans: "same_ones a b \<Longrightarrow> same_ones b c \<Longrightarrow> same_ones a c"
  by (simp add: same_ones_def)

lemma same_ones_add: "same_ones a b \<Longrightarrow> same_ones (a + c) (b + c)"
  by (auto simp: same_ones_def intro: mod_add_cong)

lemma ones_norm_unique:
  assumes "same_ones a b" "a < 65536"
  shows "a = ones_norm b"
proof (cases "b = 0")
  case False
  then have a: "0 < a" "a \<le> 65535" using assms by (auto simp: same_ones_def)
  have "(a - 1 + 1) mod 65535 = (b - 1 + 1) mod 65535" using assms(1) a False by (simp add: same_ones_def)
  then have "(a - 1) mod 65535 = (b - 1) mod 65535" by (simp add: mod_Suc split: if_split_asm)
  then show ?thesis using a False by (simp add: ones_norm_def)
qed (use assms in \<open>simp add: same_ones_def ones_norm_def\<close>)

lemma same_ones_fold_once: "same_ones (unat (fold_once s)) (unat s)"
proof -
  have s: "unat s = unat s div 65536 * 65535 + (unat s mod 65536 + unat s div 65536)"
    using div_mult_mod_eq [of "unat s" 65536] by linarith
  have "(unat s mod 65536 + unat s div 65536) mod 65535 = unat s mod 65535"
    using arg_cong [OF s, of "\<lambda>x. x mod 65535"] by (simp only: mod_mult_self3)
  moreover have "unat s mod 65536 + unat s div 65536 = 0 \<longleftrightarrow> unat s = 0"
    using s by auto
  ultimately show ?thesis unfolding same_ones_def unat_fold_once by blast
qed

lemma same_ones_fold_carries: "same_ones (unat (fold_carries s)) (unat s) \<and> unat (fold_carries s) < 65536"
proof (induction s rule: fold_carries.induct)
  case (1 s)
  show ?case
  proof (cases "drop_bit 16 s = 0")
    case True
    have "unat (drop_bit 16 s) = unat s div 65536" by (simp add: drop_bit_eq_div unat_div)
    then have "unat s div 65536 = 0" using True by simp
    then have "unat s < 65536" by simp
    then show ?thesis using True by (subst (1 2) fold_carries.simps) simp
  next
    case False
    then show ?thesis using 1 same_ones_fold_once same_ones_trans by (subst (1 2) fold_carries.simps) auto
  qed
qed

lemma words16_Suc: "words16 m p (Suc k) = unat (read16 m p) # words16 m (p + 2) k"
proof -
  have "[0..<Suc k] = 0 # map Suc [0..<k]" by (simp add: upt_conv_Cons map_Suc_upt)
  then show ?thesis by (simp add: words16_def algebra_simps del: upt_Suc)
qed

text \<open>The sum never overflows: a step that starts in the upper half folds the carries first.\<close>

lemma chk_loop_ones:
  "same_ones (unat (chk_loop m p k s)) (unat s + sum_list (words16 m p k)) \<and>
   (unat s < 2147549184 \<longrightarrow> unat (chk_loop m p k s) < 2147549184)"
proof (induction k arbitrary: p s)
  case (Suc k)
  define s' where "s' = (if s AND 0x80000000 \<noteq> 0 then fold_once s else s)"
  have small: "unat s' < 2147483648"
  proof (cases "s AND 0x80000000 = 0")
    case True
    then have "\<not> bit s 31" by (auto simp: and_exp_eq_0_iff_not_bit [of s 31, simplified])
    then have "bit s n = bit (take_bit 31 s) n" if "n < 32" for n
      using that by (cases "n = 31") (auto simp: bit_take_bit_iff)
    then have "s = take_bit 31 s" by (intro bit_word_eqI) simp
    then have "unat s = unat (take_bit 31 s)" by (rule arg_cong)
    also have "\<dots> = unat s mod 2147483648" by (simp add: take_bit_eq_mod unat_mod)
    also have "\<dots> < 2147483648" by simp
    finally have "unat s < 2147483648" .
    then show ?thesis using True by (simp add: s'_def)
  next
    case False
    then show ?thesis using unat_fold_once [of s] unat_u32_bound [of s] by (simp add: s'_def)
  qed
  have s': "same_ones (unat s') (unat s)" by (simp add: s'_def same_ones_fold_once)
  have sum: "unat (s' + ucast (read16 m p)) = unat s' + unat (read16 m p)"
    using small unat_u16_bound [of "read16 m p"] by (subst unat_plus_small) (simp_all add: unat_ucast_u32)
  have "same_ones (unat (chk_loop m p (Suc k) s)) (unat s' + unat (read16 m p) + sum_list (words16 m (p + 2) k))"
    using Suc.IH [of "p + 2" "s' + ucast (read16 m p)"] sum by (simp add: Let_def s'_def)
  moreover have "same_ones (unat s' + unat (read16 m p) + sum_list (words16 m (p + 2) k)) (unat s + sum_list (words16 m p (Suc k)))"
    using same_ones_add [OF s', of "unat (read16 m p) + sum_list (words16 m (p + 2) k)"] by (simp add: words16_Suc add.assoc)
  moreover have "unat (s' + ucast (read16 m p)) < 2147549184" unfolding sum using small unat_u16_bound [of "read16 m p"] by simp
  then have "unat (chk_loop m p (Suc k) s) < 2147549184"
    using Suc.IH [of "p + 2" "s' + ucast (read16 m p)"] by (simp add: Let_def s'_def)
  ultimately show ?case using same_ones_trans by blast
qed (simp add: words16_def)

lemma chksum_ones:
  assumes "unat s < 2147549184"
  shows "unat (chksum m p len s) = ones_norm (unat s + chk_total m p len)"
proof -
  define k where "k = nat (sint len) div 2"
  define s1 where "s1 = chk_loop m p k s"
  define b where "b = m (p + 2 * of_nat k)"
  define s2 where "s2 = (if sint len > 0 \<and> odd (sint len) then s1 + ucast b else s1)"
  have odd: "sint len > 0 \<and> odd (sint len) \<longleftrightarrow> odd (nat (sint len))"
    by (cases "sint len > 0") (auto simp: even_nat_iff)
  have s1: "same_ones (unat s1) (unat s + sum_list (words16 m p k))" "unat s1 < 2147549184"
    using chk_loop_ones [of m p k s] assms by (auto simp: s1_def)
  have "unat (s1 + ucast b) = unat s1 + unat b"
    using s1(2) unat_u8_bound [of b] by (subst unat_plus_small) (simp_all add: unat_ucast_u32)
  then have "same_ones (unat s2) (unat s + chk_total m p len)"
    using s1(1) same_ones_add [OF s1(1), of "unat b"] unfolding s2_def odd chk_total_def k_def [symmetric] b_def [symmetric]
    by (simp add: add.assoc)
  then have c: "same_ones (unat (fold_carries s2)) (unat s + chk_total m p len)" "unat (fold_carries s2) < 65536"
    using same_ones_fold_carries [of s2] same_ones_trans by blast+
  have "chksum m p len s = ucast (fold_carries s2)"
    by (simp add: chksum_def Let_def s2_def s1_def k_def b_def)
  then have "unat (chksum m p len s) = unat (fold_carries s2)"
    using c(2) by (simp add: unsigned_ucast_eq take_bit_nat_eq_self)
  then show ?thesis using ones_norm_unique [OF c] by simp
qed

lemma words16_store16:
  assumes "j < k" "k \<le> 1073741824"
  shows "words16 (store16 m (p + 2 * of_nat j) w) p k = (words16 m p k)[j := unat w]"
proof (rule nth_equalityI)
  fix i
  assume "i < length (words16 (store16 m (p + 2 * of_nat j) w) p k)"
  then have i: "i < k" by (simp add: words16_def)
  show "words16 (store16 m (p + 2 * of_nat j) w) p k ! i = (words16 m p k)[j := unat w] ! i"
  proof (cases "i = j")
    case True
    then show ?thesis using assms(1) by (simp add: words16_def)
  next
    case False
    have a: "p + 2 * of_nat x = p + of_nat (2 * x)" "p + of_nat x + 1 = p + of_nat (x + 1)" for x by simp_all
    have ne: "p + of_nat x \<noteq> p + (of_nat y :: u32)" if "x \<noteq> y" "x < 2147483648" "y < 2147483648" for x y
      using that of_nat_u32_eq [of x y] by simp
    have par: "2 * i + 1 \<noteq> 2 * j" "2 * i \<noteq> 2 * j + 1" by presburger+
    have lt: "2 * i + 1 < 2147483648" "2 * j + 1 < 2147483648" using i assms by simp_all
    have "p + of_nat (2 * i) \<noteq> p + (of_nat (2 * j) :: u32)" "p + of_nat (2 * i) \<noteq> p + (of_nat (2 * j + 1) :: u32)"
      "p + of_nat (2 * i + 1) \<noteq> p + (of_nat (2 * j) :: u32)" "p + of_nat (2 * i + 1) \<noteq> p + (of_nat (2 * j + 1) :: u32)"
      using False par lt by (intro ne; simp)+
    then have "p + 2 * of_nat i \<notin> {p + 2 * of_nat j, p + 2 * of_nat j + 1}"
      "p + 2 * of_nat i + 1 \<notin> {p + 2 * of_nat j, p + 2 * of_nat j + 1}"
      unfolding a insert_iff empty_iff by blast+
    then show ?thesis using False i by (simp add: words16_def read16_store16_other)
  qed
qed (simp add: words16_def)

lemma ones_norm_complement: "ones_norm (T + (65535 - ones_norm T)) = 65535"
proof (cases T)
  case (Suc t)
  have "t div 65535 * 65535 + t mod 65535 = t" "t mod 65535 < 65535" by simp_all
  then have "Suc t + (65535 - (t mod 65535 + 1)) - 1 = 65534 + t div 65535 * 65535" by linarith
  moreover have "(65534 + t div 65535 * 65535) mod 65535 = 65534" by (simp only: mod_mult_self1) simp
  ultimately show ?thesis by (simp only: Suc ones_norm_def) simp
qed (simp add: ones_norm_def)

text \<open>
  C39. The checksum of an IP header verifies: when the field of 16 bits at an even offset is zero and the
  computed checksum is stored there, computing the checksum of the whole again gives zero, whatever the data
  and its length are. In particular the sum never overflows.
\<close>

theorem ip_chksum_verifies:
  assumes "even (nat (sint len))" "2 * j < nat (sint len)" "read16 m (data + 2 * of_nat j) = 0"
  shows "ip_chksum (store16 m (data + 2 * of_nat j) (ip_chksum m data len)) data len = 0"
proof -
  define k where "k = nat (sint len) div 2"
  have k: "j < k" "k \<le> 1073741824" using assms(1,2) sint_less [of len] by (auto simp: k_def elim!: evenE)
  define T where "T = sum_list (words16 m data k)"
  have tot: "chk_total m' data len = sum_list (words16 m' data k)" for m' using assms(1) by (simp add: chk_total_def k_def)
  define c where "c = ip_chksum m data len"
  have "unat (chksum m data len 0) = ones_norm T" using chksum_ones [of 0 m data len] by (simp add: tot T_def)
  moreover have "unat (NOT w) = 65535 - unat w" for w :: u16
  proof -
    have "unat (- 1 - w) = unat (- 1 :: u16) - unat w" by (rule unat_minus_le) (rule word_n1_ge)
    moreover have "NOT w = - 1 - w" by (simp add: not_eq_complement)
    ultimately show ?thesis by (simp only: unsigned_minus_1_eq_mask mask_eq_exp_minus_1) simp
  qed
  ultimately have c: "unat c = 65535 - ones_norm T" by (simp add: c_def ip_chksum_def)
  have n: "ones_norm T \<le> 65535" by (simp add: ones_norm_def Suc_le_eq)
  have "words16 m data k ! j = 0" using k assms(3) by (simp add: words16_def)
  then have "sum_list ((words16 m data k)[j := unat c]) = T + unat c"
    using k(1) by (simp add: sum_list_update T_def words16_def)
  then have "chk_total (store16 m (data + 2 * of_nat j) c) data len = T + unat c"
    using words16_store16 [OF k] by (simp add: tot)
  moreover have "ones_norm (T + unat c) = 65535"
    unfolding c by (rule ones_norm_complement)
  ultimately have "unat (chksum (store16 m (data + 2 * of_nat j) c) data len 0) = 65535"
    using chksum_ones [of 0] by simp
  then have "chksum (store16 m (data + 2 * of_nat j) c) data len 0 = - 1"
    by (simp add: word_unat_eq_iff unsigned_minus_1_eq_mask mask_eq_exp_minus_1)
  then have "ip_chksum (store16 m (data + 2 * of_nat j) c) data len = 0" by (simp only: ip_chksum_def) simp
  then show ?thesis by (simp only: c_def)
qed

subsection \<open>Ports\<close>

definition ports_ok :: "port_map_t \<Rightarrow> bool" where
  "ports_ok pm \<longleftrightarrow> bm_ok (pm_map pm) \<and> bm_offset (pm_map pm) = 0 \<and> bm_length (pm_map pm) = 8192"

definition port_used :: "port_map_t \<Rightarrow> u16 \<Rightarrow> bool" where
  "port_used pm p \<longleftrightarrow> bm_bit (pm_map pm) (unat p)"

lemma port_index:
  assumes "ports_ok pm"
  shows "bm_index (pm_map pm) (unat p) = ucast p" "unat (p :: u16) < bm_size (pm_map pm)"
proof -
  have "(of_nat (unat p) :: u32) = ucast p" by (simp add: word_unat_eq_iff unat_ucast_u32 unat_of_nat_small less_trans [OF unat_u16_bound])
  then show "bm_index (pm_map pm) (unat p) = ucast p" using assms by (simp add: ports_ok_def bm_index_def)
  show "unat p < bm_size (pm_map pm)" using assms unat_u16_bound [of p] by (simp add: ports_ok_def bm_size_def)
qed

lemma port_test: "ports_ok pm \<Longrightarrow> bitmap_test (pm_map pm) (ucast p) = Some (port_used pm p)"
  using bitmap_test_bit [of "pm_map pm" "unat p"] port_index [of pm p] by (simp add: ports_ok_def port_used_def)

lemma port_set:
  assumes "ports_ok pm"
  shows "\<exists>m. bitmap_set (pm_map pm) (ucast p) v = Some m \<and> ports_ok (pm\<lparr>pm_map := m\<rparr>) \<and>
    (\<forall>q. port_used (pm\<lparr>pm_map := m\<rparr>) q = (if q = p then v else port_used pm q))"
proof -
  obtain m where "bitmap_set (pm_map pm) (ucast p) v = Some m" "bm_ok m" "bm_length m = 8192" "bm_offset m = 0"
    "\<forall>j. bm_bit m j = (if j = unat p then v else bm_bit (pm_map pm) j)"
    using bitmap_set_bit [of "pm_map pm" "unat p" v] port_index [of pm p] assms by (auto simp: ports_ok_def)
  then show ?thesis by (auto simp: ports_ok_def port_used_def word_unat_eq_iff)
qed

lemma port_scan_free:
  assumes "ports_ok pm" "q \<le> p" "\<not> port_used pm p" "\<forall>r. q \<le> r \<and> r < p \<longrightarrow> port_used pm r"
  shows "port_scan (pm_map pm) q = Some (p + 1)"
  using assms(2,4)
proof (induction "unat p - unat q" arbitrary: q)
  case 0
  then have "q = p" by (simp add: word_le_nat_alt word_unat_eq_iff)
  then show ?case using assms(1,3) by (subst port_scan.simps) (simp add: port_test)
next
  case (Suc k)
  then have lt: "q < p" by (auto simp: word_less_nat_alt)
  then have n: "unat (q + 1) = unat q + 1" using unat_u16_bound [of p] by (subst unat_plus_small) (simp_all add: word_less_nat_alt)
  have "port_scan (pm_map pm) (q + 1) = Some (p + 1)"
    using Suc lt n by (intro Suc.hyps(1)) (auto simp: word_le_nat_alt word_less_nat_alt)
  then show ?case using Suc.prems lt assms(1) by (subst port_scan.simps) (simp add: port_test)
qed

text \<open>
  Asking for any free port. The search stops behind the first free port from 4096 on: the port after it
  is marked and handed out, whether or not somebody already has it, and the free one is not marked. So the
  next call finds the same place and hands out the same number again.
\<close>

theorem port_get_any_repeats:
  assumes ok: "ports_ok pm" and p: "4096 \<le> p" "\<not> port_used pm p" "\<forall>q. 4096 \<le> q \<and> q < p \<longrightarrow> port_used pm q"
  shows "\<exists>pm1 pm2. port_get pm 0 = Some (ucast (p + 1), pm1) \<and> port_used pm1 (p + 1) \<and> \<not> port_used pm1 p \<and>
    port_get pm1 0 = Some (ucast (p + 1), pm2)"
proof -
  obtain m1 where m1: "bitmap_set (pm_map pm) (ucast (p + 1)) True = Some m1" "ports_ok (pm\<lparr>pm_map := m1\<rparr>)"
    "\<And>q. port_used (pm\<lparr>pm_map := m1\<rparr>) q = (if q = p + 1 then True else port_used pm q)"
    using port_set [OF ok, of "p + 1" True] by blast
  let ?pm1 = "pm\<lparr>pm_map := m1\<rparr>"
  have free: "\<not> port_used ?pm1 p" using p(2) m1(3) by simp
  have "\<forall>q. 4096 \<le> q \<and> q < p \<longrightarrow> port_used ?pm1 q" using p(3) m1(3) by simp
  then have s1: "port_scan (pm_map ?pm1) 4096 = Some (p + 1)" using port_scan_free [OF m1(2) p(1) free] by blast
  obtain m2 where m2: "bitmap_set (pm_map ?pm1) (ucast (p + 1)) True = Some m2" using port_set [OF m1(2), of "p + 1" True] by blast
  have "port_scan (pm_map pm) 4096 = Some (p + 1)" using port_scan_free [OF ok p(1,2)] p(3) by blast
  then have "port_get pm 0 = Some (ucast (p + 1), ?pm1)" by (simp add: port_get_def m1(1))
  moreover have "port_get ?pm1 0 = Some (ucast (p + 1), ?pm1\<lparr>pm_map := m2\<rparr>)" using s1 m2 by (simp add: port_get_def)
  moreover have "port_used ?pm1 (p + 1)" using m1(3) by simp
  ultimately show ?thesis using free by blast
qed

definition sample_ports :: port_map_t where
  "sample_ports = \<lparr>pm_map = bitmap_make (replicate 8192 0) 8192 0, pm_buf = 0x8000\<rparr>"

theorem port_get_any_repeats_witness:
  "\<exists>pm1 pm2. port_get sample_ports 0 = Some (4097, pm1) \<and> port_get pm1 0 = Some (4097, pm2)"
proof -
  have "ports_ok sample_ports" by (simp add: ports_ok_def sample_ports_def bitmap_make_def bm_ok_def bm_size_def)
  moreover have "\<not> port_used sample_ports 4096" by (simp add: port_used_def sample_ports_def bitmap_make_def bm_bit_def)
  moreover have "\<forall>q. 4096 \<le> q \<and> q < 4096 \<longrightarrow> port_used sample_ports q" using leD by blast
  ultimately show ?thesis using port_get_any_repeats [of sample_ports 4096] by auto
qed

subsection \<open>Dotted addresses\<close>

lemma aton_part_digits:
  assumes "block m p ds" "\<And>c. c \<in> set ds \<Longrightarrow> is_digit c" "m (p + of_nat (length ds)) \<in> {46, 0}"
  shows "aton_part m p v k = Some (EOK, p + of_nat (length ds),
    if k + of_nat (length ds) = 0 \<or> sint (atoi_loop ds v) < 0 \<or> sint (atoi_loop ds v) > 255 then - 1 else atoi_loop ds v)"
  using assms
proof (induction ds arbitrary: p v k)
  case Nil
  then show ?case by (subst aton_part.simps) auto
next
  case (Cons c ds)
  have "is_digit c" using Cons.prems(2) by simp
  then have "c \<noteq> 46" "c \<noteq> 0" "isdigit (sint c)" by (auto simp: is_digit_def isdigit_def)
  moreover have "m p = c" using Cons.prems(1) by simp
  moreover have "aton_part m (p + 1) (v * 10 + (scast c - 48)) (k + 1) = Some (EOK, (p + 1) + of_nat (length ds),
     if (k + 1) + of_nat (length ds) = 0 \<or> sint (atoi_loop ds (v * 10 + (scast c - 48))) < 0 \<or>
       sint (atoi_loop ds (v * 10 + (scast c - 48))) > 255 then - 1 else atoi_loop ds (v * 10 + (scast c - 48)))"
    using Cons.prems by (intro Cons.IH) (simp_all add: add.assoc)
  ultimately show ?case by (subst aton_part.simps) (simp add: algebra_simps)
qed

definition octet :: "u8 \<Rightarrow> u8 list" where "octet b = num_text True 10 (unat b)"

lemma octet_digits: "c \<in> set (octet b) \<Longrightarrow> is_digit c" "octet b \<noteq> []" "length (octet b) \<le> 32" "c \<in> set (octet b) \<Longrightarrow> c \<noteq> 0"
proof -
  show "is_digit c" "c \<noteq> 0" if "c \<in> set (octet b)"
    using num_text_digit [of 10 c True "unat b"] that digit_char(2,5) by (auto simp: octet_def)
  show "octet b \<noteq> []" unfolding octet_def by (subst num_text.simps) simp
  have "unat b < 4294967296" using unat_u8_bound [of b] by simp
  then show "length (octet b) \<le> 32" using num_text_length [of 10 "unat b" True] by (simp add: octet_def)
qed

lemma aton_octet:
  assumes "block m p (octet b)" "m (p + of_nat (length (octet b))) \<in> {46, 0}"
  shows "aton_part m p 0 0 = Some (EOK, p + of_nat (length (octet b)), ucast b)"
proof -
  have v: "atoi_loop (octet b) 0 = ucast b"
    by (simp add: octet_def atoi_loop_num_text word_unat_eq_iff unat_ucast_u32 unat_of_nat_small less_trans [OF unat_u8_bound])
  have "sint (ucast b :: u32) = int (unat b)" using unat_u8_bound [of b] by (subst sint_small) (simp_all add: unat_ucast_u32)
  then have "\<not> sint (ucast b :: u32) < 0" "\<not> sint (ucast b :: u32) > 255" using unat_u8_bound [of b] by linarith+
  moreover have "unat (of_nat (length (octet b)) :: u32) = length (octet b)" using octet_digits(3) [of b] by (intro unat_of_nat_small) simp
  then have "of_nat (length (octet b)) \<noteq> (0 :: u32)" using octet_digits(2) [of b] by auto
  ultimately show ?thesis
    using aton_part_digits [OF assms(1) octet_digits(1) [where b = b] assms(2), where v = 0 and k = 0] unfolding v by simp
qed

text \<open>The text of an address, and what the parser makes of one of its parts.\<close>

definition dotted :: "u8 list \<Rightarrow> u8 list" where
  "dotted bs = octet (bs ! 0) @ 46 # octet (bs ! 1) @ 46 # octet (bs ! 2) @ 46 # octet (bs ! 3)"

lemma aton_loop_octet:
  assumes "cstr m p (octet b @ rest)" "rest = [] \<or> hd rest = 46"
  shows "aton_loop (Suc left) m p i parts = aton_loop left m (p + of_nat (length (octet b)) + 1) (Suc i) (parts[i := b])"
proof -
  have b: "block m p (octet b)" and r: "cstr m (p + of_nat (length (octet b))) rest" using assms(1) by (simp_all add: cstr_append)
  have end46: "m (p + of_nat (length (octet b))) \<in> {46, 0}" using r assms(2) by (cases rest) auto
  obtain c cs where o: "octet b = c # cs" using octet_digits(2) [of b] by (cases "octet b") auto
  have "c \<noteq> 0" using octet_digits(4) [of c b] o by simp
  then have "m p \<noteq> 0" using b o by simp
  moreover have "(ucast b :: u32) \<noteq> - 1"
    using unat_u8_bound [of b] by (auto simp: word_unat_eq_iff unat_ucast_u32 unsigned_minus_1_eq_mask mask_eq_exp_minus_1)
  moreover have "ucast (ucast b :: u32) = b" by (rule bit_word_eqI) (simp add: bit_ucast_iff)
  ultimately show ?thesis using aton_octet [OF b end46] by simp
qed

lemma inet_aton_dotted:
  assumes "cstr m str (dotted bs)" "length stack = 4"
  shows "inet_aton m stack str addr = Some (EOK, m(addr := bs ! 0, addr + 1 := bs ! 1, addr + 2 := bs ! 2, addr + 3 := bs ! 3))"
proof -
  define p1 where "p1 = str + of_nat (length (octet (bs ! 0))) + 1"
  define p2 where "p2 = p1 + of_nat (length (octet (bs ! 1))) + 1"
  define p3 where "p3 = p2 + of_nat (length (octet (bs ! 2))) + 1"
  have c1: "cstr m p1 (octet (bs ! 1) @ 46 # octet (bs ! 2) @ 46 # octet (bs ! 3))"
    using assms(1) by (simp add: dotted_def cstr_append p1_def)
  then have c2: "cstr m p2 (octet (bs ! 2) @ 46 # octet (bs ! 3))" by (simp add: cstr_append p2_def)
  then have c3: "cstr m p3 (octet (bs ! 3) @ [])" by (simp add: cstr_append p3_def)
  obtain a b c d where st: "stack = [a, b, c, d]" using assms(2) by (auto simp: numeral_eq_Suc length_Suc_conv)
  have c0: "cstr m str (octet (bs ! 0) @ 46 # octet (bs ! 1) @ 46 # octet (bs ! 2) @ 46 # octet (bs ! 3))"
    using assms(1) by (simp add: dotted_def)
  note step = aton_loop_octet [OF c0, of "Suc (Suc (Suc 0))" 0 "[a, b, c, d]", folded p1_def]
    aton_loop_octet [OF c1, of "Suc (Suc 0)" "Suc 0" "[bs ! 0, b, c, d]", folded p2_def]
    aton_loop_octet [OF c2, of "Suc 0" "Suc (Suc 0)" "[bs ! 0, bs ! 1, c, d]", folded p3_def]
    aton_loop_octet [OF c3, of 0 "Suc (Suc (Suc 0))" "[bs ! 0, bs ! 1, bs ! 2, d]"]
  have "aton_loop (Suc (Suc (Suc (Suc 0)))) m str 0 stack = Some (EOK, [bs ! 0, bs ! 1, bs ! 2, bs ! 3])"
    using step unfolding st by (simp only: list.sel list_update_code refl simp_thms if_True aton_loop.simps(1))
  then show ?thesis by (simp add: inet_aton_def numeral_eq_Suc del: aton_loop.simps)
qed

lemma block_append1: "block m p (xs @ [c]) \<longleftrightarrow> block m p xs \<and> m (p + of_nat (length xs)) = c"
  by (induction xs arbitrary: p) (auto simp: add.assoc)

lemma vsprintf_address:
  "vsprintf fp m [37, 114] [p] =
    (let out = dotted [m p, m (p + 1), m (p + 2), m (p + 3)] in Some (of_nat (length out), out @ [0], m))"
proof -
  let ?bs = "[m p, m (p + 1), m (p + 2), m (p + 3)]"
  have c: "conv_int fp \<lparr>fs_flags = SMALL, fs_width = - 1, fs_prec = - 1\<rparr> 10 (ucast b) = octet b" for b
    by (subst conv_int_plain) (simp_all add: SIGN_def DOUBLE_def SMALL_def PLUS_def SPACE_def SPECIAL_def sign_text_def
        prefix_text_def magnitude_def octet_def unat_ucast_u32)
  have "dotted ?bs = octet (m p) @ 46 # octet (m (p + 1)) @ 46 # octet (m (p + 2)) @ 46 # octet (m (p + 3))"
    by (simp add: dotted_def numeral_2_eq_2 numeral_3_eq_3)
  then have "vs_loop fp m [37, 114] [p] [] = Some (dotted ?bs, m)"
    by (simp add: vs_loop.simps parse_spec_def parse_width_def parse_precision_def at_fmt_def is_digit_def
        convert_def va_arg_def conv_bytes_def upt_rec butlast_append c)
  moreover have "length (dotted ?bs) \<le> 131"
    using octet_digits(3) [of "?bs ! 0"] octet_digits(3) [of "?bs ! 1"] octet_digits(3) [of "?bs ! 2"] octet_digits(3) [of "?bs ! 3"]
    by (simp add: dotted_def)
  then have "sint (of_nat (length (dotted ?bs)) :: u32) < 1024" by (subst sint_of_nat) simp_all
  ultimately show ?thesis by (simp add: vsprintf_def Let_def)
qed

text \<open>
  Printing and parsing an address. What \<^verbatim>\<open>vsprintf\<close> writes for \<^verbatim>\<open>%r\<close> of any four bytes is accepted by
  \<^verbatim>\<open>inet_aton\<close>, wherever the text lies, and gives back the four bytes.
\<close>

theorem address_roundtrip:
  assumes "vsprintf fp m [37, 114] [p] = Some (n, out @ [0], m1)"
    and "block m2 str (out @ [0])" and "length stack = 4"
  shows "inet_aton m2 stack str addr =
    Some (EOK, m2(addr := m p, addr + 1 := m (p + 1), addr + 2 := m (p + 2), addr + 3 := m (p + 3)))"
proof -
  let ?bs = "[m p, m (p + 1), m (p + 2), m (p + 3)]"
  have "out = dotted ?bs" using assms(1) by (auto simp: vsprintf_address Let_def)
  moreover have "0 \<notin> set (dotted ?bs)" using octet_digits(4) by (auto simp: dotted_def)
  moreover have "block m2 str (out @ [0]) \<longleftrightarrow> block m2 str out \<and> m2 (str + of_nat (length out)) = 0"
    by (rule block_append1)
  ultimately have "cstr m2 str (dotted ?bs)" using assms(2) cstr_append [of m2 str out "[]"] by simp
  from inet_aton_dotted [OF this assms(3), of addr] show ?thesis by (simp add: numeral_2_eq_2 numeral_3_eq_3)
qed

definition sample_octets :: mem where
  "sample_octets = (\<lambda>_. 0)(0x100 := 192, 0x101 := 168, 0x102 := 0, 0x103 := 7)"

definition sample_dotted :: mem where
  "sample_dotted = (\<lambda>_. 0)(0x200 := 49, 0x201 := 57, 0x202 := 50, 0x203 := 46, 0x204 := 49, 0x205 := 54, 0x206 := 56, 0x207 := 46,
     0x208 := 48, 0x209 := 46, 0x20a := 55)"

theorem address_roundtrip_witness:
  "inet_aton sample_dotted [1, 1, 1, 1] 0x200 0x300 =
    Some (EOK, sample_dotted(0x300 := 192, 0x301 := 168, 0x302 := 0, 0x303 := 7))"
proof -
  fix fp
  have "dotted [sample_octets 0x100, sample_octets (0x100 + 1), sample_octets (0x100 + 2), sample_octets (0x100 + 3)] =
      [49, 57, 50, 46, 49, 54, 56, 46, 48, 46, 55]"
    by (simp add: sample_octets_def dotted_def octet_def num_text.simps DIGITS_def)
  then have v: "vsprintf fp sample_octets [37, 114] [0x100] = Some (11, [49, 57, 50, 46, 49, 54, 56, 46, 48, 46, 55] @ [0], sample_octets)"
    unfolding vsprintf_address Let_def by simp
  have "block sample_dotted 0x200 ([49, 57, 50, 46, 49, 54, 56, 46, 48, 46, 55] @ [0])" by (simp add: sample_dotted_def)
  from address_roundtrip [OF v this, where stack = "[1, 1, 1, 1]" and addr = "0x300"] show ?thesis by (simp add: sample_octets_def)
qed

theorem ip_chksum_verifies_witness:
  "ip_chksum (store16 sample_dotted 0x206 (ip_chksum (sample_dotted(0x206 := 0, 0x207 := 0)) 0x200 8)) 0x200 8 = 0"
proof -
  have z: "read16 (sample_dotted(0x206 := 0, 0x207 := 0)) (0x200 + 2 * of_nat 3) = 0" by (simp add: read16_def)
  have "store16 (sample_dotted(0x206 := 0, 0x207 := 0)) 0x206 w = store16 sample_dotted 0x206 w" for w
    by (simp add: store16_def fun_eq_iff)
  then show ?thesis using ip_chksum_verifies [of 8 3, OF _ _ z] by simp
qed

subsection \<open>The frame check sequence\<close>

lemma fcs_bits_add: "fcs_bits (i + j) c = fcs_bits j (fcs_bits i c)"
  by (induction i arbitrary: c) simp_all

lemma odd_and_1: "(c :: u32) AND 1 \<noteq> 0 \<longleftrightarrow> bit c 0"
  by (simp add: and_exp_eq_0_iff_not_bit [of c 0, simplified])

lemma fcs_bits_xor: "fcs_bits k (c XOR d) = fcs_bits k c XOR fcs_bits k d"
proof (induction k arbitrary: c d)
  case (Suc k)
  let ?step = "\<lambda>c. if bit c 0 then drop_bit 1 c XOR 0xEDB88320 else drop_bit 1 (c :: u32)"
  have "?step (c XOR d) = ?step c XOR ?step d"
    by (cases "bit c 0"; cases "bit d 0") (simp_all add: bit_xor_iff drop_bit_xor xor.assoc xor.left_commute xor.commute)
  then show ?case using Suc.IH by (simp only: fcs_bits.simps odd_and_1)
qed simp

lemma fcs_bits_push: "k \<le> n \<Longrightarrow> unat c < 2 ^ (32 - n) \<Longrightarrow> n \<le> 32 \<Longrightarrow> fcs_bits k (push_bit n c) = push_bit (n - k) c"
proof (induction k arbitrary: n)
  case (Suc k)
  then obtain j where n: "n = Suc j" by (cases n) auto
  have "\<not> bit (push_bit n c) 0" by (simp only: n bit_push_bit_iff) simp
  moreover have "drop_bit 1 (push_bit n c) = push_bit j c"
  proof (rule bit_word_eqI)
    fix i
    assume i: "i < LENGTH(32)"
    have "\<not> bit c i'" if "32 - n \<le> i'" for i'
    proof -
      have "unat c < 2 ^ i'" using Suc.prems(2) that by (meson less_le_trans one_le_numeral power_increasing)
      then have "\<not> bit (unat c) i'" by (simp only: bit_iff_odd) simp
      then show ?thesis by (simp add: bit_unsigned_iff)
    qed
    from this [of "i - j"] have "bit c (i - j) \<Longrightarrow> j \<le> i \<Longrightarrow> i < 31" using n by linarith
    then show "bit (drop_bit 1 (push_bit n c)) i = bit (push_bit j c) i"
      using i by (simp only: bit_drop_bit_eq bit_push_bit_iff n comp_def) (auto simp: Suc_diff_le)
  qed
  moreover have "unat c < 2 ^ (32 - j)"
    using Suc.prems(2) n by (meson diff_le_mono2 le_SucI less_le_trans one_le_numeral order_refl power_increasing)
  ultimately show ?case using Suc.IH [of j] Suc.prems n by (simp add: odd_and_1)
qed simp

lemma fcs_loop_snoc: "fcs_loop m p (k + j) c = fcs_loop m (p + of_nat k) j (fcs_loop m p k c)"
  by (induction k arbitrary: p c) (simp_all add: add.assoc)

text \<open>Four bytes in a row work as one word.\<close>

lemma fcs_loop_4: "fcs_loop m p 4 c = fcs_bits 32 (c XOR read32 m p)"
proof -
  define b0 b1 b2 b3 where "b0 = (ucast (m p) :: u32)" and "b1 = (ucast (m (p + 1)) :: u32)"
    and "b2 = (ucast (m (p + 2)) :: u32)" and "b3 = (ucast (m (p + 3)) :: u32)"
  have four: "fcs_loop m p 4 c = fcs_loop m p (Suc (Suc (Suc (Suc 0)))) c" by (simp only: numeral_eq_Suc pred_numeral_simps BitM.simps)
  have small: "unat (ucast (x :: u8) :: u32) < 2 ^ 8" "unat (ucast x :: u32) < 2 ^ 16" "unat (ucast x :: u32) < 2 ^ 24" for x
    using unat_u8_bound [of x] by (simp_all add: unat_ucast_u32)
  have "read32 m p = b0 XOR push_bit 8 b1 XOR push_bit 16 b2 XOR push_bit 24 b3"
    unfolding b0_def b1_def b2_def b3_def
  proof (rule bit_word_eqI)
    fix i
    assume i: "i < LENGTH(32)"
    have hi: "\<not> bit (x :: u8) j" if "8 \<le> j" for x j using that bit_imp_le_length [of x j] by auto
    consider "i < 8" | "8 \<le> i" "i < 16" | "16 \<le> i" "i < 24" | "24 \<le> i" by linarith
    then show "bit (read32 m p) i = bit (ucast (m p) XOR push_bit 8 (ucast (m (p + 1))) XOR push_bit 16 (ucast (m (p + 2)))
        XOR push_bit 24 (ucast (m (p + 3))) :: u32) i"
      using i by cases (auto simp add: read32_def read16_def bit_or_iff bit_xor_iff bit_push_bit_iff bit_ucast_iff add.assoc hi)
  qed
  then have "c XOR read32 m p = c XOR b0 XOR push_bit 8 b1 XOR push_bit 16 b2 XOR push_bit 24 b3" by (simp add: xor.assoc)
  moreover have "fcs_bits 8 (push_bit 8 b1) = b1" "fcs_bits 16 (push_bit 16 b2) = b2" "fcs_bits 24 (push_bit 24 b3) = b3"
    using fcs_bits_push [of 8 8 b1] fcs_bits_push [of 16 16 b2] fcs_bits_push [of 24 24 b3] small
    by (simp_all add: b1_def b2_def b3_def)
  ultimately have "fcs_bits 32 (c XOR read32 m p) =
      fcs_bits 8 (fcs_bits 8 (fcs_bits 8 (fcs_bits 8 (c XOR b0) XOR b1) XOR b2) XOR b3)"
    using fcs_bits_add [of 24 8] fcs_bits_add [of 16 8] fcs_bits_add [of 8 8] by (simp add: fcs_bits_xor xor.assoc del: fcs_bits.simps)
  moreover have "fcs_loop m p (Suc (Suc (Suc (Suc 0)))) c = fcs_bits 8 (fcs_bits 8 (fcs_bits 8 (fcs_bits 8 (c XOR b0) XOR b1) XOR b2) XOR b3)"
    by (simp only: fcs_loop.simps b0_def b1_def b2_def b3_def) (simp del: fcs_bits.simps add: add.assoc)
  ultimately show ?thesis 
    unfolding four by simp
qed

text \<open>
  C40. The frame check sequence. When the four bytes behind the data hold the check sequence of the data,
  lowest byte first, the check sequence over data and trailer together is the fixed residue of the CRC-32
  polynomial, for data of any length.
\<close>

theorem eth_fcs_residue:
  assumes "nat (sint len) + 4 < 2147483648" "0 \<le> sint len" "read32 m (data + len) = eth_fcs m data len"
  shows "eth_fcs m data (len + 4) = 0x2144DF1C"
proof -
  define n where "n = nat (sint len)"
  have len: "len = of_nat n" using assms(2) by (simp add: n_def)
  have n4: "nat (sint (len + 4)) = n + 4"
    using sint_of_nat [of "n + 4"] assms(1) unfolding n_def [symmetric] by (simp add: len)
  let ?c = "fcs_loop m data n (- 1)"
  have "?c XOR read32 m (data + of_nat n) = - 1" using assms(3) unfolding eth_fcs_def n_def [symmetric] by (simp add: len)
  then have "fcs_loop m data (n + 4) (- 1) = fcs_bits 32 (- 1)" by (simp add: fcs_loop_snoc fcs_loop_4 del: fcs_bits.simps)
  moreover have "fcs_bits 32 (- 1) = NOT 0x2144DF1C" by code_simp
  ultimately show ?thesis by (simp add: eth_fcs_def n4 del: fcs_bits.simps)
qed

definition sample_frame :: mem where
  "sample_frame = (\<lambda>_. 0)(0x104 := 0x1c, 0x105 := 0xdf, 0x106 := 0x44, 0x107 := 0x21)"

theorem eth_fcs_residue_witness: "eth_fcs sample_frame 0x100 8 = 0x2144DF1C"
proof -
  have "nat (sint (4 :: u32)) + 4 < 2147483648" "0 \<le> sint (4 :: u32)" by simp_all
  moreover have "read32 sample_frame (0x100 + 4) = eth_fcs sample_frame 0x100 4" by code_simp
  ultimately show ?thesis using eth_fcs_residue [where len = 4 and m = sample_frame and data = "0x100"] by simp
qed

end
