(* ===== verification/Onix_Cache.thy ===== *)
theory Onix_Cache
  imports Onix_Buffer
begin

section \<open>Blocks that are in the cache\<close>

text \<open>
  What the file systems rely on when the blocks they read are cached: \<^verbatim>\<open>bread\<close> finds the buffer and
  takes a reference, \<^verbatim>\<open>brelse\<close> gives it back, and nothing else changes but the order of the idle list.
  \<open>block_reader\<close> states this as an interface; a view \<open>v\<close> of a descriptor names some of its hash chains and
  the buffers in them, and \<open>cache_ok\<close> is the invariant under which the model's operations provide it.
\<close>

locale block_reader =
  fixes ok :: "'s \<Rightarrow> bool" and rd :: "'s \<Rightarrow> u32 \<Rightarrow> u32 \<Rightarrow> (u32 \<times> 's) option" and rl :: "'s \<Rightarrow> u32 \<Rightarrow> 's option"
    and place :: "'s \<Rightarrow> u32 \<Rightarrow> u32 \<Rightarrow> u32 option" and pool :: "u32 set" and uses :: "'s \<Rightarrow> u32 \<Rightarrow> u32" and rest :: "'s \<Rightarrow> 'r"
  assumes rd_hit: "ok s \<Longrightarrow> place s dev bno = Some b \<Longrightarrow> unat (uses s b) + 1 < 2147483648 \<Longrightarrow>
      \<exists>s1. rd s dev bno = Some (b, s1) \<and> ok s1 \<and> rest s1 = rest s \<and> uses s1 = (uses s)(b := uses s b + 1)"
    and rl_use: "ok s \<Longrightarrow> b \<in> pool \<Longrightarrow> uses s b \<noteq> 0 \<Longrightarrow>
      \<exists>s1. rl s b = Some s1 \<and> ok s1 \<and> rest s1 = rest s \<and> uses s1 = (uses s)(b := uses s b - 1)"
    and place_pool: "place s dev bno = Some b \<Longrightarrow> b \<in> pool"
begin

text \<open>A buffer that is taken can be given back, and everything is as before.\<close>

lemma borrow:
  assumes "ok s" "place s dev bno = Some b" "unat (uses s b) + 1 < 2147483648"
  shows "\<exists>s1 s2. rd s dev bno = Some (b, s1) \<and> ok s1 \<and> rest s1 = rest s \<and> uses s1 b \<noteq> 0 \<and>
    rl s1 b = Some s2 \<and> ok s2 \<and> rest s2 = rest s \<and> uses s2 = uses s"
proof -
  obtain s1 where s1: "rd s dev bno = Some (b, s1)" "ok s1" "rest s1 = rest s" "uses s1 = (uses s)(b := uses s b + 1)"
    using rd_hit [OF assms] by blast
  have "unat (uses s b + 1) = unat (uses s b) + 1" using assms(3) by (subst unat_plus_small) simp_all
  then have "uses s1 b \<noteq> 0" using s1(4) by auto
  with rl_use [OF s1(2) place_pool [OF assms(2)]] s1 show ?thesis by fastforce
qed

end

subsection \<open>The invariant\<close>

record cview =
  cv_desc :: nat
  cv_size :: u32
  cv_hashes :: "nat set"
  cv_chains :: "nat \<Rightarrow> u32 list"
  cv_pool :: "u32 set"

definition cache_place :: "cview \<Rightarrow> 'x bsys_scheme \<Rightarrow> u32 \<Rightarrow> u32 \<Rightarrow> u32 option" where
  "cache_place v s dev bno =
     (case List.find (holds (buffers s) dev bno) (cv_chains v (unat (hash dev bno))) of
        None \<Rightarrow> None | Some b \<Rightarrow> if b \<in> cv_pool v \<and> unat (hash dev bno) \<in> cv_hashes v then Some b else None)"

definition cache_uses :: "'x bsys_scheme \<Rightarrow> u32 \<Rightarrow> u32" where
  "cache_uses s b = bf_count (buffers s b)"

text \<open>The state without the links of the lists and the reference counts.\<close>

definition cache_rest :: "'x bsys_scheme \<Rightarrow> 'x bsys_scheme" where
  "cache_rest s = (with_k s (with_heap (d_k s) \<lparr>node_prev = (\<lambda>_. 0), node_next = (\<lambda>_. 0)\<rparr>))
     \<lparr>buffers := (\<lambda>b. (buffers s b)\<lparr>bf_count := 0\<rparr>)\<rparr>"

text \<open>The nodes of the idle list do not meet those of the hash chains and of the waiting list.\<close>

definition idle_nodes :: "cview \<Rightarrow> 'x bsys_scheme \<Rightarrow> u32 set" where
  "idle_nodes v s = {idle_list s (cv_desc v), idle_list s (cv_desc v) + 8} \<union> rnode ` cv_pool v"

definition cache_apart :: "cview \<Rightarrow> 'x bsys_scheme \<Rightarrow> bool" where
  "cache_apart v s \<longleftrightarrow>
     (\<forall>j \<in> cv_hashes v. idle_nodes v s \<inter> list_nodes (hash_table s (cv_desc v) (of_nat j)) (map hnode (cv_chains v j)) = {}) \<and>
     idle_nodes v s \<inter> {wait_list s (cv_desc v), wait_list s (cv_desc v) + 8} = {} \<and>
     rnode ` cv_pool v \<inter> {idle_list s (cv_desc v), idle_list s (cv_desc v) + 8, NULL} = {} \<and> NULL \<notin> cv_pool v \<and>
     desc_get s (cv_size v) = Some (cv_desc v)"

definition cache_lists :: "cview \<Rightarrow> 'x bsys_scheme \<Rightarrow> u32 list \<Rightarrow> bool" where
  "cache_lists v s idle \<longleftrightarrow>
     (\<forall>j \<in> cv_hashes v. list_rep (k_heap (d_k s)) (hash_table s (cv_desc v) (of_nat j)) (map hnode (cv_chains v j))) \<and>
     list_rep (k_heap (d_k s)) (idle_list s (cv_desc v)) (map rnode idle) \<and>
     list_rep (k_heap (d_k s)) (wait_list s (cv_desc v)) [] \<and> set idle \<subseteq> cv_pool v"

definition pooled :: "cview \<Rightarrow> 'x bsys_scheme \<Rightarrow> u32 list \<Rightarrow> u32 \<Rightarrow> bool" where
  "pooled v s idle b \<longleftrightarrow>
     bf_valid (buffers s b) \<and> \<not> bf_dirty (buffers s b) \<and> bf_desc (buffers s b) = cv_desc v \<and>
     unat (bf_count (buffers s b)) < 2147483648 \<and>
     (bf_count (buffers s b) = 0 \<longleftrightarrow> b \<in> set idle) \<and> (b \<notin> set idle \<longrightarrow> unlinked (k_heap (d_k s)) (rnode b))"

definition cache_ok :: "cview \<Rightarrow> 'x bsys_scheme \<Rightarrow> bool" where
  "cache_ok v s \<longleftrightarrow> cache_apart v s \<and> (\<exists>idle. cache_lists v s idle \<and> (\<forall>b \<in> cv_pool v. pooled v s idle b))"

subsection \<open>What the bookkeeping leaves alone\<close>

lemma cache_rest_heap [simp]: "cache_rest (with_k s (with_heap (d_k s) h)) = cache_rest s"
  by (simp add: cache_rest_def with_k_def with_heap_def)

lemma cache_rest_count [simp]: "cache_rest (upd_buffer s b (\<lambda>x. x\<lparr>bf_count := c x\<rparr>)) = cache_rest s"
  by (simp add: cache_rest_def upd_buffer_def with_k_def fun_eq_iff)

lemma cache_rest_eqD:
  assumes "cache_rest s = cache_rest t"
  shows "d_mem s = d_mem t" "bdescs s = bdescs t" "b_base s = b_base t" "bf_data (buffers s b) = bf_data (buffers t b)"
    "bf_dev (buffers s b) = bf_dev (buffers t b)" "bf_block (buffers s b) = bf_block (buffers t b)"
  using arg_cong [OF assms, of d_mem] arg_cong [OF assms, of bdescs] arg_cong [OF assms, of b_base]
    arg_cong [OF assms, of "\<lambda>s. bf_data (buffers s b)"] arg_cong [OF assms, of "\<lambda>s. bf_dev (buffers s b)"]
    arg_cong [OF assms, of "\<lambda>s. bf_block (buffers s b)"]
  by (simp_all add: cache_rest_def with_k_def)

lemma cache_place_rest: "cache_rest s = cache_rest t \<Longrightarrow> cache_place v s = cache_place v t"
proof -
  assume eq: "cache_rest s = cache_rest t"
  have "holds (buffers s) = holds (buffers t)" by (simp add: holds_def fun_eq_iff cache_rest_eqD [OF eq])
  then show ?thesis by (intro ext) (simp only: cache_place_def)
qed

lemma cache_apart_upd [simp]:
  "cache_apart v (upd_buffer s b f) = cache_apart v s" "cache_apart v (with_k s k) = cache_apart v s"
  by (simp_all add: cache_apart_def idle_nodes_def desc_get_def)

lemma cache_uses_upd [simp]:
  "cache_uses (with_k s k) = cache_uses s" "cache_uses (upd_buffer s b f) = (cache_uses s)(b := bf_count (f (buffers s b)))"
  by (auto simp: cache_uses_def fun_eq_iff)

lemma rnode_apart:
  "cache_apart v s \<Longrightarrow> x \<in> cv_pool v \<Longrightarrow>
    rnode x \<noteq> idle_list s (cv_desc v) \<and> rnode x \<noteq> idle_list s (cv_desc v) + 8 \<and> rnode x \<noteq> NULL \<and> x \<noteq> NULL"
  unfolding cache_apart_def by blast

lemma unat_dec: "c \<noteq> 0 \<Longrightarrow> unat (c - 1) = unat c - 1" for c :: u32
  by (subst unat_minus_le) (simp_all add: word_le_nat_alt unat_gt_0 Suc_le_eq)

subsection \<open>Taking and giving back\<close>

text \<open>The change of the idle list seen from the other lists.\<close>

lemma cache_frame:
  assumes "cache_apart v s" "cache_lists v s idle" "same_outside (idle_nodes v s) (k_heap (d_k s)) h"
    and "list_rep h (idle_list s (cv_desc v)) (map rnode idle')" "set idle' \<subseteq> cv_pool v"
  shows "cache_lists v (with_k s (with_heap (d_k s) h)) idle'"
proof -
  have "list_rep h (hash_table s (cv_desc v) (of_nat j)) (map hnode (cv_chains v j))" if "j \<in> cv_hashes v" for j
    by (rule list_rep_frame [OF _ assms(3)]) (use assms(1,2) that in \<open>auto simp: cache_lists_def cache_apart_def\<close>)
  moreover have "list_rep h (wait_list s (cv_desc v)) []"
    by (rule list_rep_frame [OF _ assms(3)]) (use assms(1,2) in \<open>auto simp: cache_lists_def cache_apart_def list_nodes_def\<close>)
  ultimately show ?thesis using assms(4,5) by (simp add: cache_lists_def)
qed

lemma idle_sub: "set idle \<subseteq> cv_pool v \<Longrightarrow> list_nodes (idle_list s (cv_desc v)) (map rnode idle) \<subseteq> idle_nodes v s"
  by (auto simp: list_nodes_def idle_nodes_def)

lemma cache_lists_upd_buffer [simp]: "cache_lists v (upd_buffer s b f) idle = cache_lists v s idle"
  by (simp add: cache_lists_def)

lemma cache_hit:
  assumes ok: "cache_ok v s" and at: "cache_place v s dev bno = Some b" and few: "unat (cache_uses s b) + 1 < 2147483648"
  shows "\<exists>s1. bread e s dev bno (cv_size v) = Some (b, s1) \<and> cache_ok v s1 \<and> cache_rest s1 = cache_rest s \<and>
    cache_uses s1 = (cache_uses s)(b := cache_uses s b + 1)"
proof -
  obtain idle where ap: "cache_apart v s" and ls: "cache_lists v s idle" and pl: "\<And>b. b \<in> cv_pool v \<Longrightarrow> pooled v s idle b"
    using ok by (auto simp: cache_ok_def)
  let ?i = "cv_desc v" and ?c = "cv_chains v (unat (hash dev bno))"
  have found: "List.find (holds (buffers s) dev bno) ?c = Some b" and b: "b \<in> cv_pool v" and hs: "unat (hash dev bno) \<in> cv_hashes v"
    using at by (auto simp: cache_place_def split: option.splits if_splits)
  have chain: "list_rep (k_heap (d_k s)) (hash_table s ?i (hash dev bno)) (map hnode ?c)"
    using ls hs by (force simp: cache_lists_def)
  have nn: "b \<noteq> NULL" using ap b by (auto simp: cache_apart_def)
  have idle: "list_rep (k_heap (d_k s)) (idle_list s ?i) (map rnode idle)" "set idle \<subseteq> cv_pool v" using ls by (auto simp: cache_lists_def)
  then have dist: "distinct idle" by (auto simp: list_rep_def distinct_map)
  have one: "unat (bf_count (buffers s b) + 1) = unat (bf_count (buffers s b)) + 1"
    using few by (subst unat_plus_small) (simp_all add: cache_uses_def)
  then have pos: "bf_count (buffers s b) + 1 \<noteq> 0" by auto
  have small: "unat (bf_count (buffers s b) + 1) < 2147483648" using one few by (simp add: cache_uses_def)
  have "\<exists>h idle'. get_from_hash_table s ?i dev bno = Some (b, with_k s (with_heap (d_k s) h)) \<and>
      list_rep h (idle_list s ?i) (map rnode idle') \<and> set idle' = set idle - {b} \<and> unlinked h (rnode b) \<and>
      same_outside (list_nodes (idle_list s ?i) (map rnode idle)) (k_heap (d_k s)) h"
  proof (cases "b \<in> set idle")
    case True
    from hit_idle [OF chain found nn idle(1) True] obtain h where
      "get_from_hash_table s ?i dev bno = Some (b, with_k s (with_heap (d_k s) h))"
      "list_rep h (idle_list s ?i) (map rnode (remove1 b idle))" "unlinked h (rnode b)"
      "same_outside (list_nodes (idle_list s ?i) (map rnode idle)) (k_heap (d_k s)) h" .
    then show ?thesis using dist by (intro exI [of _ h] exI [of _ "remove1 b idle"]) simp
  next
    case False
    obtain node where "get_next (k_heap (d_k s)) (list_head (hash_table s ?i (hash dev bno))) = Some node"
        "hash_find (k_heap (d_k s)) (buffers s) (list_tail (hash_table s ?i (hash dev bno))) dev bno node = Some b"
      using hash_find_rep [OF chain, of "buffers s" dev bno] found by auto
    then have "get_from_hash_table s ?i dev bno = Some (b, s)"
      using nn False list_search_rep [OF idle(1), of "rnode b"] by (simp add: get_from_hash_table_def Let_def)
    moreover have "with_k s (with_heap (d_k s) (k_heap (d_k s))) = s" by (simp add: with_k_def with_heap_def)
    ultimately show ?thesis using idle(1) False pl [OF b] by (intro exI [of _ "k_heap (d_k s)"] exI [of _ idle]) (simp add: pooled_def)
  qed
  then obtain h idle' where h: "get_from_hash_table s ?i dev bno = Some (b, with_k s (with_heap (d_k s) h))"
      "list_rep h (idle_list s ?i) (map rnode idle')" "set idle' = set idle - {b}" "unlinked h (rnode b)"
      "same_outside (list_nodes (idle_list s ?i) (map rnode idle)) (k_heap (d_k s)) h" by blast
  let ?s1 = "upd_buffer (with_k s (with_heap (d_k s) h)) b (\<lambda>b. b\<lparr>bf_count := bf_count b + 1\<rparr>)"
  have "bread e s dev bno (cv_size v) = Some (b, ?s1)"
    using h(1) ap nn pl [OF b] by (simp add: bread_def getblk_def Let_def cache_apart_def pooled_def)
  moreover have "cache_lists v ?s1 idle'"
    using cache_frame [OF ap ls same_outside_mono [OF h(5) idle_sub [OF idle(2)]] h(2)] h(3) idle(2) by auto
  moreover have "pooled v ?s1 idle' x" if "x \<in> cv_pool v" for x
  proof (cases "x = b")
    case True
    then show ?thesis using pl [OF that] h(3,4) pos small by (simp add: pooled_def)
  next
    case False
    then have "x \<notin> set idle \<Longrightarrow> rnode x \<notin> list_nodes (idle_list s ?i) (map rnode idle)"
      using rnode_apart [OF ap that] by (auto simp: list_nodes_def)
    then show ?thesis using pl [OF that] h(3,5) False by (auto simp: pooled_def same_outside_def unlinked_def)
  qed
  ultimately show ?thesis using ap by (intro exI [of _ ?s1]) (auto simp: cache_ok_def cache_uses_def fun_eq_iff)
qed

lemma cache_release:
  assumes ok: "cache_ok v s" and b: "b \<in> cv_pool v" and busy: "cache_uses s b \<noteq> 0"
  shows "\<exists>s1. brelse e s b = Some (EOK, s1) \<and> cache_ok v s1 \<and> cache_rest s1 = cache_rest s \<and>
    cache_uses s1 = (cache_uses s)(b := cache_uses s b - 1)"
proof -
  obtain idle where ap: "cache_apart v s" and ls: "cache_lists v s idle" and pl: "\<And>b. b \<in> cv_pool v \<Longrightarrow> pooled v s idle b"
    using ok by (auto simp: cache_ok_def)
  let ?i = "cv_desc v" and ?s0 = "upd_buffer s b (\<lambda>b. b\<lparr>bf_count := bf_count b - 1\<rparr>)"
  have nn: "b \<noteq> NULL" using ap b by (auto simp: cache_apart_def)
  have out: "b \<notin> set idle" "unlinked (k_heap (d_k s)) (rnode b)" using pl [OF b] busy by (auto simp: pooled_def cache_uses_def)
  have idle: "list_rep (k_heap (d_k s)) (idle_list s ?i) (map rnode idle)" "set idle \<subseteq> cv_pool v" using ls by (auto simp: cache_lists_def)
  have dec: "unat (bf_count (buffers s b) - 1) < 2147483648"
    using pl [OF b] unat_dec [of "bf_count (buffers s b)"] busy by (simp add: pooled_def cache_uses_def less_imp_diff_less)
  then have nonneg: "0 \<le> sint (bf_count (buffers s b) - 1)" by (simp add: sint_small)
  show ?thesis
  proof (cases "bf_count (buffers s b) - 1 = 0")
    case False
    have "brelse e s b = Some (EOK, ?s0)"
      using nn nonneg False pl [OF b] by (simp add: brelse_def bwrite_def Let_def pooled_def)
    moreover have "pooled v ?s0 idle x" if "x \<in> cv_pool v" for x
      using pl [OF that] out(1) dec False by (auto simp: pooled_def)
    ultimately show ?thesis using ap ls by (intro exI [of _ ?s0]) (auto simp: cache_ok_def cache_uses_def fun_eq_iff)
  next
    case True
    have fresh: "rnode b \<notin> list_nodes (idle_list s ?i) (map rnode idle)" "rnode b \<noteq> NULL"
      using rnode_apart [OF ap b] out(1) by (auto simp: list_nodes_def)
    obtain h where h: "list_push (k_heap (d_k s)) (idle_list s ?i) (rnode b) = Some h"
        "list_rep h (idle_list s ?i) (map rnode (b # idle))"
        "same_outside (insert (rnode b) (list_nodes (idle_list s ?i) (map rnode idle))) (k_heap (d_k s)) h"
      using list_push_rep [OF idle(1) fresh] by auto
    have sub: "insert (rnode b) (list_nodes (idle_list s ?i) (map rnode idle)) \<subseteq> idle_nodes v s"
      using idle_sub [OF idle(2)] b by (auto simp: idle_nodes_def)
    let ?s1 = "with_k ?s0 (with_heap (d_k s) h)"
    have eq: "?s1 = upd_buffer (with_k s (with_heap (d_k s) h)) b (\<lambda>b. b\<lparr>bf_count := bf_count b - 1\<rparr>)"
      by (simp add: with_k_def upd_buffer_def)
    have ls1: "cache_lists v ?s1 (b # idle)"
      unfolding eq cache_lists_upd_buffer
      by (rule cache_frame [OF ap ls same_outside_mono [OF h(3) sub] h(2)]) (use b idle(2) in simp)
    then have "list_empty h (wait_list s ?i) = Some True" using list_empty_rep by (fastforce simp: cache_lists_def)
    then have "brelse e s b = Some (EOK, ?s1)"
      using nn nonneg True pl [OF b] out(2) h(1) by (simp add: brelse_def bwrite_def Let_def pooled_def unlinked_def on_heap_def)
    moreover have "pooled v ?s1 (b # idle) x" if "x \<in> cv_pool v" for x
    proof (cases "x = b")
      case True
      then show ?thesis using pl [OF that] dec \<open>bf_count (buffers s b) - 1 = 0\<close> by (simp add: pooled_def)
    next
      case False
      then have "x \<notin> set idle \<Longrightarrow> rnode x \<notin> insert (rnode b) (list_nodes (idle_list s ?i) (map rnode idle))"
        using rnode_apart [OF ap that] by (auto simp: list_nodes_def)
      then show ?thesis using pl [OF that] h(3) False by (auto simp: pooled_def same_outside_def unlinked_def)
    qed
    ultimately show ?thesis using ap ls1 unfolding eq by (intro exI [of _ ?s1]) (auto simp: eq cache_ok_def cache_uses_def fun_eq_iff)
  qed
qed

text \<open>The model's \<^verbatim>\<open>bread\<close> and \<^verbatim>\<open>brelse\<close> are a block reader.\<close>

definition drop_ref :: "('x bsys_ext) denv \<Rightarrow> 'x bsys_scheme \<Rightarrow> u32 \<Rightarrow> 'x bsys_scheme option" where
  "drop_ref e s b = map_option snd (brelse e s b)"

interpretation cache: block_reader "cache_ok v" "\<lambda>s dev bno. bread e s dev bno (cv_size v)" "drop_ref e"
  "cache_place v" "cv_pool v" cache_uses cache_rest for v e
proof unfold_locales
  show "\<exists>s1. bread e s dev bno (cv_size v) = Some (b, s1) \<and> cache_ok v s1 \<and> cache_rest s1 = cache_rest s \<and>
      cache_uses s1 = (cache_uses s)(b := cache_uses s b + 1)"
    if "cache_ok v s" "cache_place v s dev bno = Some b" "unat (cache_uses s b) + 1 < 2147483648" for s dev bno b
    using cache_hit [OF that] .
  show "\<exists>s1. drop_ref e s b = Some s1 \<and> cache_ok v s1 \<and> cache_rest s1 = cache_rest s \<and>
      cache_uses s1 = (cache_uses s)(b := cache_uses s b - 1)"
    if "cache_ok v s" "b \<in> cv_pool v" "cache_uses s b \<noteq> 0" for s b
    using cache_release [OF that, of e] by (auto simp: drop_ref_def)
qed (auto simp: cache_place_def split: option.splits if_splits)

end
