(* ===== verification/Onix_Minix.thy ===== *)
theory Onix_Minix
  imports Onix_Bitmap Onix_Stdlib Onix_Fsyscall
begin

section \<open>The Minix file system (src/fs/minix/minix.c, minix.h)\<close>

text \<open>
  The structures on disk are read and written where they are, in the data of the buffers that hold
  their blocks: a \<^verbatim>\<open>minix_super_t\<close>, a \<^verbatim>\<open>minix_inode_t\<close> of 32 bytes and a \<^verbatim>\<open>minix_dentry_t\<close> of 16 bytes
  are given by the address of their first byte, and the fields are loads and stores at their offsets.

  A bitmap that the code makes over the data of a buffer is loaded from the memory, whatever number
  of bytes the code gives it, and stored back after the call.
\<close>

definition BLOCK_SIZE :: u32 where "BLOCK_SIZE = 1024"
definition SECTOR_SIZE :: u32 where "SECTOR_SIZE = 512"
definition BLOCK_SECS :: u32 where "BLOCK_SECS = 2"
definition MINIX1_MAGIC :: u16 where "MINIX1_MAGIC = 0x137F"
definition MINIX1_NAME_LEN :: u32 where "MINIX1_NAME_LEN = 14"
definition BLOCK_BITS :: u32 where "BLOCK_BITS = 8192"
definition BLOCK_INODES :: u32 where "BLOCK_INODES = 32"
definition BLOCK_DENTRIES :: u32 where "BLOCK_DENTRIES = 64"
definition BLOCK_INDEXES :: u32 where "BLOCK_INDEXES = 512"
definition DIRECT_BLOCK :: u32 where "DIRECT_BLOCK = 7"
definition INDIRECT1_BLOCK :: u32 where "INDIRECT1_BLOCK = 512"
definition INDIRECT2_BLOCK :: u32 where "INDIRECT2_BLOCK = 262144"
definition TOTAL_BLOCK :: u32 where "TOTAL_BLOCK = 262663"
definition FS_TYPE_MINIX :: u32 where "FS_TYPE_MINIX = 3"
definition P_READ :: u32 where "P_READ = 4"
definition O_RDWR :: u32 where "O_RDWR = 2"
definition IFREG :: u16 where "IFREG = 0x8000"
definition IFCHR :: u16 where "IFCHR = 0x2000"
definition IFSOCK :: u16 where "IFSOCK = 0xC000"
definition ISVTX :: u16 where "ISVTX = 0x200"
definition ISFILE :: "u16 \<Rightarrow> bool" where "ISFILE m \<longleftrightarrow> m AND IFMT = IFREG"
definition ISCHR :: "u16 \<Rightarrow> bool" where "ISCHR m \<longleftrightarrow> m AND IFMT = IFCHR"
definition ISSOCK :: "u16 \<Rightarrow> bool" where "ISSOCK m \<longleftrightarrow> m AND IFMT = IFSOCK"
definition EXDEV :: u32 where "EXDEV = 18"
definition ENOTTY :: u32 where "ENOTTY = 25"
definition ENOTEMPTY :: u32 where "ENOTEMPTY = 39"
definition ERROR :: u32 where "ERROR = 99"
definition DEV_CMD_SECTOR_COUNT :: u32 where "DEV_CMD_SECTOR_COUNT = 2"

subsection \<open>The structures on disk\<close>

definition ms_inodes :: "mem \<Rightarrow> u32 \<Rightarrow> u32" where "ms_inodes m p = ucast (read16 m p)"
definition ms_zones :: "mem \<Rightarrow> u32 \<Rightarrow> u32" where "ms_zones m p = ucast (read16 m (p + 2))"
definition ms_imap_blocks :: "mem \<Rightarrow> u32 \<Rightarrow> u32" where "ms_imap_blocks m p = ucast (read16 m (p + 4))"
definition ms_zmap_blocks :: "mem \<Rightarrow> u32 \<Rightarrow> u32" where "ms_zmap_blocks m p = ucast (read16 m (p + 6))"
definition ms_firstdatazone :: "mem \<Rightarrow> u32 \<Rightarrow> u32" where "ms_firstdatazone m p = ucast (read16 m (p + 8))"
definition ms_magic :: "mem \<Rightarrow> u32 \<Rightarrow> u16" where "ms_magic m p = read16 m (p + 16)"

definition mi_mode :: "mem \<Rightarrow> u32 \<Rightarrow> u16" where "mi_mode m p = read16 m p"
definition mi_uid :: "mem \<Rightarrow> u32 \<Rightarrow> u16" where "mi_uid m p = read16 m (p + 2)"
definition mi_size :: "mem \<Rightarrow> u32 \<Rightarrow> u32" where "mi_size m p = read32 m (p + 4)"
definition mi_mtime :: "mem \<Rightarrow> u32 \<Rightarrow> u32" where "mi_mtime m p = read32 m (p + 8)"
definition mi_gid :: "mem \<Rightarrow> u32 \<Rightarrow> u8" where "mi_gid m p = m (p + 12)"
definition mi_nlinks :: "mem \<Rightarrow> u32 \<Rightarrow> u8" where "mi_nlinks m p = m (p + 13)"
definition mi_zone :: "u32 \<Rightarrow> u32" where "mi_zone p = p + 14"

definition md_nr :: "mem \<Rightarrow> u32 \<Rightarrow> u16" where "md_nr m p = read16 m p"
definition md_name :: "u32 \<Rightarrow> u32" where "md_name p = p + 2"

definition upd_mem :: "'x dsys_scheme \<Rightarrow> (mem \<Rightarrow> mem) \<Rightarrow> 'x dsys_scheme" where
  "upd_mem s f = s\<lparr>d_mem := f (d_mem s)\<rparr>"

definition set_dirty :: "'x bsys_scheme \<Rightarrow> u32 \<Rightarrow> 'x bsys_scheme" where
  "set_dirty s buf = upd_buffer s buf (\<lambda>b. b\<lparr>bf_dirty := True\<rparr>)"

text \<open>\<^verbatim>\<open>time()\<close>, and the two calls of the buffer cache; a NULL buffer is asserted against or dereferenced at once.\<close>

definition now :: "'x fsenv \<Rightarrow> 'x vfs_scheme \<Rightarrow> u32" where
  "now e s = sys_time (d_k s) (fs_startup e)"

definition get_buf :: "'x fsenv \<Rightarrow> 'x vfs_scheme \<Rightarrow> u32 \<Rightarrow> u32 \<Rightarrow> (u32 \<times> 'x vfs_scheme) option" where
  "get_buf e s dev bno = do {
     (buf, s) \<leftarrow> bread (fs_dev e) s dev bno BLOCK_SIZE;
     kassert (buf \<noteq> NULL);
     Some (buf, s)
   }"

definition put_buf :: "'x fsenv \<Rightarrow> 'x vfs_scheme \<Rightarrow> u32 \<Rightarrow> 'x vfs_scheme option" where
  "put_buf e s buf = do { (_, s) \<leftarrow> brelse (fs_dev e) s buf; Some s }"

definition load_map :: "mem \<Rightarrow> u32 \<Rightarrow> u32 \<Rightarrow> u32 \<Rightarrow> bitmap_t" where
  "load_map m data len off = bitmap_make (bytes_at m data (unat len)) len off"

definition store_map :: "'x dsys_scheme \<Rightarrow> u32 \<Rightarrow> bitmap_t \<Rightarrow> 'x dsys_scheme" where
  "store_map s data m = upd_mem s (\<lambda>mm. put_bytes mm data (bits m))"

subsection \<open>The bitmaps of zones and inodes\<close>

partial_function (option) balloc_loop ::
  "'x fsenv \<Rightarrow> 'x vfs_scheme \<Rightarrow> u32 \<Rightarrow> u32 \<Rightarrow> u32 \<Rightarrow> u32 \<Rightarrow> u32 \<Rightarrow> (u32 \<times> u32 \<times> 'x vfs_scheme) option" where
  "balloc_loop e s super desc bidx i buf =
     (if \<not> i < ms_zmap_blocks (d_mem s) desc then Some (EOF, buf, s)
      else do {
        (buf, s) \<leftarrow> get_buf e s (s_dev (supers s super)) (bidx + i);
        let data = bf_data (buffers s buf);
        let m = load_map (d_mem s) data BLOCK_SIZE (i * BLOCK_BITS + ms_firstdatazone (d_mem s) desc - 1);
        (bit, m) \<leftarrow> bitmap_scan m 1;
        let s = store_map s data m;
        if bit \<noteq> EOF then do {
          kassert (bit < ms_zones (d_mem s) desc);
          Some (bit, buf, set_dirty s buf)
        }
        else balloc_loop e s super desc bidx (i + 1) buf
      })"

definition minix_balloc :: "'x fsenv \<Rightarrow> 'x vfs_scheme \<Rightarrow> u32 \<Rightarrow> (u32 \<times> 'x vfs_scheme) option" where
  "minix_balloc e s super = do {
     let desc = s_desc (supers s super);
     let bidx = 2 + ms_imap_blocks (d_mem s) desc;
     (bit, buf, s) \<leftarrow> balloc_loop e s super desc bidx 0 NULL;
     s \<leftarrow> put_buf e s buf;
     Some (bit, s)
   }"

text \<open>When no block is chosen, the buffer that is released has never been set.\<close>

partial_function (option) bfree_loop ::
  "'x fsenv \<Rightarrow> 'x vfs_scheme \<Rightarrow> u32 \<Rightarrow> u32 \<Rightarrow> u32 \<Rightarrow> u32 \<Rightarrow> u32 \<Rightarrow> (u32 \<times> 'x vfs_scheme) option" where
  "bfree_loop e s super desc bidx idx i =
     (if \<not> i < ms_zmap_blocks (d_mem s) desc then None
      else if idx > BLOCK_BITS * (i + 1) then bfree_loop e s super desc bidx idx (i + 1)
      else do {
        (buf, s) \<leftarrow> get_buf e s (s_dev (supers s super)) (bidx + i);
        let data = bf_data (buffers s buf);
        let m = load_map (d_mem s) data BLOCK_SIZE (BLOCK_BITS * i + ms_firstdatazone (d_mem s) desc - 1);
        used \<leftarrow> bitmap_test m idx;
        kassert used;
        m \<leftarrow> bitmap_set m idx False;
        Some (buf, set_dirty (store_map s data m) buf)
      })"

definition minix_bfree :: "'x fsenv \<Rightarrow> 'x vfs_scheme \<Rightarrow> u32 \<Rightarrow> u32 \<Rightarrow> 'x vfs_scheme option" where
  "minix_bfree e s super idx = do {
     let desc = s_desc (supers s super);
     kassert (idx < ms_zones (d_mem s) desc);
     let bidx = 2 + ms_imap_blocks (d_mem s) desc;
     (buf, s) \<leftarrow> bfree_loop e s super desc bidx idx 0;
     put_buf e s buf
   }"

text \<open>The maps of the inodes are given \<^verbatim>\<open>BLOCK_BITS\<close> bytes, eight times the block.\<close>

partial_function (option) ialloc_loop ::
  "'x fsenv \<Rightarrow> 'x vfs_scheme \<Rightarrow> u32 \<Rightarrow> u32 \<Rightarrow> u32 \<Rightarrow> u32 \<Rightarrow> (u32 \<times> u32 \<times> 'x vfs_scheme) option" where
  "ialloc_loop e s super desc i buf =
     (if \<not> i < ms_imap_blocks (d_mem s) desc then Some (EOF, buf, s)
      else do {
        (buf, s) \<leftarrow> get_buf e s (s_dev (supers s super)) (2 + i);
        let data = bf_data (buffers s buf);
        (bit, m) \<leftarrow> bitmap_scan (load_map (d_mem s) data BLOCK_BITS (i * BLOCK_BITS)) 1;
        let s = store_map s data m;
        if bit \<noteq> EOF then do {
          kassert (bit < ms_inodes (d_mem s) desc);
          Some (bit, buf, set_dirty s buf)
        }
        else ialloc_loop e s super desc (i + 1) buf
      })"

definition minix_ialloc :: "'x fsenv \<Rightarrow> 'x vfs_scheme \<Rightarrow> u32 \<Rightarrow> (u32 \<times> 'x vfs_scheme) option" where
  "minix_ialloc e s super = do {
     (bit, buf, s) \<leftarrow> ialloc_loop e s super (s_desc (supers s super)) 0 NULL;
     s \<leftarrow> put_buf e s buf;
     Some (bit, s)
   }"

partial_function (option) ifree_loop ::
  "'x fsenv \<Rightarrow> 'x vfs_scheme \<Rightarrow> u32 \<Rightarrow> u32 \<Rightarrow> u32 \<Rightarrow> u32 \<Rightarrow> (u32 \<times> 'x vfs_scheme) option" where
  "ifree_loop e s super desc idx i =
     (if \<not> i < ms_imap_blocks (d_mem s) desc then None
      else if idx > BLOCK_BITS * (i + 1) then ifree_loop e s super desc idx (i + 1)
      else do {
        (buf, s) \<leftarrow> get_buf e s (s_dev (supers s super)) (2 + i);
        let data = bf_data (buffers s buf);
        let m = load_map (d_mem s) data BLOCK_BITS (i * BLOCK_BITS);
        used \<leftarrow> bitmap_test m idx;
        kassert used;
        m \<leftarrow> bitmap_set m idx False;
        Some (buf, set_dirty (store_map s data m) buf)
      })"

definition minix_ifree :: "'x fsenv \<Rightarrow> 'x vfs_scheme \<Rightarrow> u32 \<Rightarrow> u32 \<Rightarrow> 'x vfs_scheme option" where
  "minix_ifree e s super idx = do {
     let desc = s_desc (supers s super);
     kassert (idx < ms_inodes (d_mem s) desc);
     (buf, s) \<leftarrow> ifree_loop e s super desc idx 0;
     put_buf e s buf
   }"

subsection \<open>The blocks of a file\<close>

text \<open>
  One level of the zone tree, counted down; \<open>arr\<close> is the address of the table of numbers. The entry
  is read again after its buffer has been released.
\<close>

fun bmap_level ::
  "nat \<Rightarrow> 'x fsenv \<Rightarrow> 'x vfs_scheme \<Rightarrow> u32 \<Rightarrow> u32 \<Rightarrow> u32 \<Rightarrow> u16 \<Rightarrow> u32 \<Rightarrow> u32 \<Rightarrow> bool \<Rightarrow> (u32 \<times> 'x vfs_scheme) option" where
  "bmap_level level e s inode arr buf index bno divider create = do {
     let slot = arr + 2 * ucast index;
     s \<leftarrow> (if read16 (d_mem s) slot = 0 \<and> create then do {
            (z, s) \<leftarrow> minix_balloc e s (i_super (inodes s inode));
            Some (set_dirty (upd_mem s (\<lambda>m. store16 m slot (ucast z))) buf)
          } else Some s);
     s \<leftarrow> put_buf e s buf;
     let z = read16 (d_mem s) slot;
     (case level of
        0 \<Rightarrow> Some (ucast z, s)
      | Suc l \<Rightarrow>
          if z = 0 then Some (ucast z, s)
          else do {
            (buf, s) \<leftarrow> get_buf e s (i_dev (inodes s inode)) (ucast z);
            bmap_level l e s inode (bf_data (buffers s buf)) buf (ucast (bno div divider)) (bno mod divider)
              (divider div BLOCK_INDEXES) create
          })
   }"

declare bmap_level.simps [simp del]

definition minix_bmap :: "'x fsenv \<Rightarrow> 'x vfs_scheme \<Rightarrow> u32 \<Rightarrow> u32 \<Rightarrow> bool \<Rightarrow> (u32 \<times> 'x vfs_scheme) option" where
  "minix_bmap e s inode bno create = do {
     kassert (bno < TOTAL_BLOCK);
     let arr = mi_zone (i_desc (inodes s inode));
     let buf = i_buf (inodes s inode);
     let s = upd_buffer s buf (\<lambda>b. b\<lparr>bf_count := bf_count b + 1\<rparr>);
     if bno < DIRECT_BLOCK then bmap_level 0 e s inode arr buf (ucast bno) bno 1 create
     else do {
       let bno = bno - DIRECT_BLOCK;
       if bno < INDIRECT1_BLOCK then bmap_level 1 e s inode arr buf (ucast DIRECT_BLOCK) bno 1 create
       else do {
         let bno = bno - INDIRECT1_BLOCK;
         kassert (bno < INDIRECT2_BLOCK);
         bmap_level 2 e s inode arr buf (ucast (DIRECT_BLOCK + 1)) bno BLOCK_INDEXES create
       }
     }
   }"

subsection \<open>Inodes\<close>

definition inode_block :: "mem \<Rightarrow> u32 \<Rightarrow> u32 \<Rightarrow> u32" where
  "inode_block m desc nr = 2 + ms_imap_blocks m desc + ms_zmap_blocks m desc + (nr - 1) div BLOCK_INODES"

definition iget :: "'x fsenv \<Rightarrow> 'x vfs_scheme \<Rightarrow> u32 \<Rightarrow> u32 \<Rightarrow> (u32 \<times> 'x vfs_scheme) option" where
  "iget e s dev nr = do {
     inode \<leftarrow> find_inode s dev nr;
     if inode \<noteq> NULL then
       fit_inode e (upd_inode s inode (\<lambda>i. i\<lparr>i_count := i_count i + 1, i_atime := now e s\<rparr>)) inode
     else do {
       let super = get_super s dev;
       kassert (super \<noteq> NULL);
       let desc = s_desc (supers s super);
       kassert (nr \<le> ms_inodes (d_mem s) desc);
       inode \<leftarrow> get_free_inode s;
       let s = upd_inode s inode (\<lambda>i. i\<lparr>i_dev := dev, i_nr := nr, i_count := i_count i + 1\<rparr>);
       s \<leftarrow> on_heap s (\<lambda>h. list_push h (inode_list super) inode);
       (buf, s) \<leftarrow> get_buf e s (i_dev (inodes s inode)) (inode_block (d_mem s) desc (i_nr (inodes s inode)));
       let minode = bf_data (buffers s buf) + 32 * ((i_nr (inodes s inode) - 1) mod BLOCK_INODES);
       let m = d_mem s;
       ops \<leftarrow> fs_get_op s FS_TYPE_MINIX;
       let s = upd_inode s inode (\<lambda>i. i\<lparr>i_buf := buf, i_desc := minode, i_rdev := ucast (read16 m (mi_zone minode)),
                 i_atime := now e s, i_mtime := mi_mtime m minode, i_ctime := mi_mtime m minode,
                 i_mode := mi_mode m minode, i_size := mi_size m minode, i_super := super,
                 i_uid := ucast (mi_uid m minode), i_gid := ucast (mi_gid m minode), i_type := FS_TYPE_MINIX, i_op := ops\<rparr>);
       fit_inode e s inode
     }
   }"

definition new_inode :: "'x fsenv \<Rightarrow> 'x vfs_scheme \<Rightarrow> u32 \<Rightarrow> u32 \<Rightarrow> (u32 \<times> 'x vfs_scheme) option" where
  "new_inode e s dev nr = do {
     (inode, s) \<leftarrow> iget e s dev nr;
     let s = set_dirty s (i_buf (inodes s inode));
     let minode = i_desc (inodes s inode);
     let task = me s;
     let t = now e s;
     let mode = 511 AND NOT (t_umask task);
     let s = upd_mem s (\<lambda>m. memset m minode 0 32);
     let s = upd_mem s (\<lambda>m. store16 m minode mode);
     let s = upd_mem s (\<lambda>m. store16 m (minode + 2) (ucast (t_uid task)));
     let s = upd_mem s (\<lambda>m. m(minode + 12 := ucast (t_gid task)));
     let s = upd_mem s (\<lambda>m. store32 m (minode + 4) 0);
     let s = upd_mem s (\<lambda>m. store32 m (minode + 8) t);
     let s = upd_mem s (\<lambda>m. m(minode + 13 := 1));
     Some (inode, upd_inode s inode (\<lambda>i. i\<lparr>i_mode := mode, i_uid := ucast (ucast (t_uid task) :: u16),
       i_gid := ucast (ucast (t_gid task) :: u8), i_size := 0, i_atime := t, i_mtime := t, i_ctime := t\<rparr>))
   }"

definition minix_close :: "'x fsenv \<Rightarrow> 'x vfs_scheme \<Rightarrow> u32 \<Rightarrow> 'x vfs_scheme option" where
  "minix_close e s inode = do {
     kassert (i_type (inodes s inode) = FS_TYPE_MINIX);
     s \<leftarrow> (if bf_dirty (buffers s (i_buf (inodes s inode)))
           then do { (_, s) \<leftarrow> bwrite (fs_dev e) s (i_buf (inodes s inode)); Some s } else Some s);
     let s = upd_inode s inode (\<lambda>i. i\<lparr>i_count := i_count i - 1\<rparr>);
     if i_count (inodes s inode) \<noteq> 0 then Some s
     else do {
       s \<leftarrow> put_buf e s (i_buf (inodes s inode));
       s \<leftarrow> on_heap s (\<lambda>h. list_remove h inode);
       let s = upd_inode s inode (\<lambda>i. i\<lparr>i_buf := NULL, i_desc := NULL, i_super := NULL, i_op := NULL\<rparr>);
       put_free_inode s inode
     }
   }"

subsection \<open>Reading, writing and truncating\<close>

partial_function (option) read_loop ::
  "'x fsenv \<Rightarrow> 'x vfs_scheme \<Rightarrow> u32 \<Rightarrow> u32 \<Rightarrow> u32 \<Rightarrow> u32 \<Rightarrow> (u32 \<times> 'x vfs_scheme) option" where
  "read_loop e s inode data offset left =
     (if left = 0 then Some (offset, s)
      else do {
        (nr, s) \<leftarrow> minix_bmap e s inode (idiv offset BLOCK_SIZE) False;
        kassert (nr \<noteq> 0);
        (buf, s) \<leftarrow> get_buf e s (i_dev (inodes s inode)) nr;
        let start = imod offset BLOCK_SIZE;
        let chars = min (BLOCK_SIZE - start) left;
        let s = upd_mem s (\<lambda>m. memcpy m data (bf_data (buffers s buf) + start) chars);
        s \<leftarrow> put_buf e s buf;
        read_loop e s inode (data + chars) (offset + chars) (left - chars)
      })"

definition minix_read :: "'x fsenv \<Rightarrow> 'x vfs_scheme \<Rightarrow> u32 \<Rightarrow> u32 \<Rightarrow> u32 \<Rightarrow> u32 \<Rightarrow> (u32 \<times> 'x vfs_scheme) option" where
  "minix_read e s inode data len offset = do {
     let minode = i_desc (inodes s inode);
     let mode = mi_mode (d_mem s) minode;
     let zone0 = ucast (read16 (d_mem s) (mi_zone minode));
     if ISCHR mode then do {
       kassert (zone0 \<noteq> 0);
       device_read (fs_dev e) s zone0 data len 0 0
     }
     else if ISBLK mode then do {
       kassert (zone0 \<noteq> 0);
       device_get s zone0;
       kassert (imod len BLOCK_SIZE = 0);
       (ret, s) \<leftarrow> device_read (fs_dev e) s zone0 data (idiv len BLOCK_SIZE) (idiv offset BLOCK_SIZE) 0;
       kassert (ret = EOK);
       Some (len, s)
     }
     else do {
       kassert (ISFILE mode \<or> ISDIR mode);
       let sz = mi_size (d_mem s) minode;
       if offset \<ge> sz then Some (EOF, s)
       else do {
         (ended, s) \<leftarrow> read_loop e s inode data offset (min len (sz - offset));
         Some (ended - offset, upd_inode s inode (\<lambda>i. i\<lparr>i_atime := now e s\<rparr>))
       }
     }
   }"

partial_function (option) write_loop ::
  "'x fsenv \<Rightarrow> 'x vfs_scheme \<Rightarrow> u32 \<Rightarrow> u32 \<Rightarrow> u32 \<Rightarrow> u32 \<Rightarrow> (u32 \<times> 'x vfs_scheme) option" where
  "write_loop e s inode data offset left =
     (if left = 0 then Some (offset, s)
      else do {
        (nr, s) \<leftarrow> minix_bmap e s inode (idiv offset BLOCK_SIZE) True;
        kassert (nr \<noteq> 0);
        (buf, s) \<leftarrow> get_buf e s (i_dev (inodes s inode)) nr;
        let s = set_dirty s buf;
        let start = imod offset BLOCK_SIZE;
        let ptr = bf_data (buffers s buf) + start;
        let chars = min (BLOCK_SIZE - start) left;
        let offset = offset + chars;
        let minode = i_desc (inodes s inode);
        let s = (if offset > mi_size (d_mem s) minode
                 then set_dirty (upd_inode (upd_mem s (\<lambda>m. store32 m (minode + 4) offset)) inode (\<lambda>i. i\<lparr>i_size := offset\<rparr>))
                        (i_buf (inodes s inode))
                 else s);
        let s = upd_mem s (\<lambda>m. memcpy m ptr data chars);
        s \<leftarrow> put_buf e s buf;
        write_loop e s inode (data + chars) offset (left - chars)
      })"

definition minix_write :: "'x fsenv \<Rightarrow> 'x vfs_scheme \<Rightarrow> u32 \<Rightarrow> u32 \<Rightarrow> u32 \<Rightarrow> u32 \<Rightarrow> (u32 \<times> 'x vfs_scheme) option" where
  "minix_write e s inode data len offset = do {
     let minode = i_desc (inodes s inode);
     let mode = mi_mode (d_mem s) minode;
     let zone0 = ucast (read16 (d_mem s) (mi_zone minode));
     if ISCHR mode then do {
       kassert (zone0 \<noteq> 0);
       device_get s zone0;
       device_write (fs_dev e) s zone0 data len 0 0
     }
     else if ISBLK mode then do {
       kassert (zone0 \<noteq> 0);
       device_get s zone0;
       kassert (imod len BLOCK_SIZE = 0);
       (ret, s) \<leftarrow> device_write (fs_dev e) s zone0 data (idiv len BLOCK_SIZE) (idiv offset BLOCK_SIZE) 0;
       kassert (ret = EOK);
       Some (len, s)
     }
     else do {
       kassert (ISFILE mode);
       (ended, s) \<leftarrow> write_loop e s inode data offset len;
       let t = now e s;
       let s = upd_inode (upd_mem s (\<lambda>m. store32 m (minode + 8) t)) inode (\<lambda>i. i\<lparr>i_atime := t\<rparr>);
       (_, s) \<leftarrow> bwrite (fs_dev e) s (i_buf (inodes s inode));
       Some (ended - offset, s)
     }
   }"

text \<open>The entry of the table and all that hangs on it; the entry itself is not cleared here.\<close>

fun inode_bfree :: "nat \<Rightarrow> 'x fsenv \<Rightarrow> 'x vfs_scheme \<Rightarrow> u32 \<Rightarrow> u32 \<Rightarrow> nat \<Rightarrow> 'x vfs_scheme option" where
  "inode_bfree level e s inode arr index =
     (let slot = arr + 2 * of_nat index; z = read16 (d_mem s) slot
      in if z = 0 then Some s
      else (case level of
          0 \<Rightarrow> minix_bfree e s (i_super (inodes s inode)) (ucast z)
        | Suc l \<Rightarrow> do {
            (buf, s) \<leftarrow> get_buf e s (i_dev (inodes s inode)) (ucast z);
            s \<leftarrow> each (\<lambda>s i. inode_bfree l e s inode (bf_data (buffers s buf)) i) s [0..<512];
            s \<leftarrow> put_buf e s buf;
            minix_bfree e s (i_super (inodes s inode)) (ucast (read16 (d_mem s) slot))
          }))"

declare inode_bfree.simps [simp del]

definition drop_zone :: "'x fsenv \<Rightarrow> u32 \<Rightarrow> u32 \<Rightarrow> nat \<Rightarrow> 'x vfs_scheme \<Rightarrow> nat \<Rightarrow> 'x vfs_scheme option" where
  "drop_zone e inode minode level s i = do {
     s \<leftarrow> inode_bfree level e s inode (mi_zone minode) i;
     Some (upd_mem s (\<lambda>m. store16 m (mi_zone minode + 2 * of_nat i) 0))
   }"

definition minix_truncate :: "'x fsenv \<Rightarrow> 'x vfs_scheme \<Rightarrow> u32 \<Rightarrow> (u32 \<times> 'x vfs_scheme) option" where
  "minix_truncate e s inode = do {
     let minode = i_desc (inodes s inode);
     let mode = mi_mode (d_mem s) minode;
     if \<not> ISFILE mode \<and> \<not> ISDIR mode then Some (- EPERM, s)
     else do {
       s \<leftarrow> each (drop_zone e inode minode 0) s [0..<unat DIRECT_BLOCK];
       s \<leftarrow> drop_zone e inode minode 1 s (unat DIRECT_BLOCK);
       s \<leftarrow> drop_zone e inode minode 2 s (unat DIRECT_BLOCK + 1);
       let s = upd_mem s (\<lambda>m. store32 m (minode + 4) 0);
       let s = upd_inode s inode (\<lambda>i. i\<lparr>i_size := 0\<rparr>);
       let s = set_dirty s (i_buf (inodes s inode));
       let s = upd_mem s (\<lambda>m. store32 m (minode + 8) (now e s));
       (_, s) \<leftarrow> bwrite (fs_dev e) s (i_buf (inodes s inode));
       Some (EOK, s)
     }
   }"

text \<open>The directory entry on disk is read to a place on the kernel stack, then copied to the caller.\<close>

definition minix_readdir :: "'x fsenv \<Rightarrow> 'x vfs_scheme \<Rightarrow> u32 \<Rightarrow> u32 \<Rightarrow> u32 \<Rightarrow> u32 \<Rightarrow> (u32 \<times> 'x vfs_scheme) option" where
  "minix_readdir e s inode entry cnt offset = do {
     let mentry = fs_local e;
     (ret, s) \<leftarrow> minix_read e s inode mentry 16 offset;
     if sint ret < 0 then Some (ret, s)
     else do {
       let s = upd_mem s (\<lambda>m. store32 m (entry + 4) 16);
       let len = strnlen (d_mem s) (md_name mentry) MINIX1_NAME_LEN;
       let s = upd_mem s (\<lambda>m. store32 m (entry + 8) len);
       let s = upd_mem s (\<lambda>m. memcpy m (entry + 12) (md_name mentry) (len + 1));
       let s = upd_mem s (\<lambda>m. m(entry + 12 + len := 0));
       Some (ret, upd_mem s (\<lambda>m. store32 m entry (ucast (md_nr m mentry))))
     }
   }"

definition minix_stat :: "'x vfs_scheme \<Rightarrow> u32 \<Rightarrow> u32 \<Rightarrow> (u32 \<times> 'x vfs_scheme) option" where
  "minix_stat s inode st = do {
     let i = inodes s inode;
     let minode = i_desc i;
     let s = upd_mem s (\<lambda>m. store32 m st (i_dev i));
     let s = upd_mem s (\<lambda>m. store32 m (st + 4) (i_nr i));
     let s = upd_mem s (\<lambda>m. store16 m (st + 8) (mi_mode m minode));
     let s = upd_mem s (\<lambda>m. m(st + 10 := mi_nlinks m minode));
     let s = upd_mem s (\<lambda>m. store16 m (st + 12) (mi_uid m minode));
     let s = upd_mem s (\<lambda>m. m(st + 14 := mi_gid m minode));
     let s = upd_mem s (\<lambda>m. store32 m (st + 16) (ucast (read16 m (mi_zone minode))));
     let s = upd_mem s (\<lambda>m. store32 m (st + 20) (mi_size m minode));
     let s = upd_mem s (\<lambda>m. store32 m (st + 24) (i_atime i));
     let s = upd_mem s (\<lambda>m. store32 m (st + 28) (mi_mtime m minode));
     Some (EOK, upd_mem s (\<lambda>m. store32 m (st + 32) (i_ctime i)))
   }"

definition minix_permission :: "'x vfs_scheme \<Rightarrow> u32 \<Rightarrow> u32 \<Rightarrow> bool" where
  "minix_permission s inode want =
     (let minode = i_desc (inodes s inode); mode = mi_mode (d_mem s) minode; task = me s
      in if mi_nlinks (d_mem s) minode = 0 then False
      else if t_uid task = KERNEL_USER then True
      else let mode = (if t_uid task = ucast (mi_uid (d_mem s) minode) then drop_bit 6 mode
                       else if t_gid task = ucast (mi_gid (d_mem s) minode) then drop_bit 3 mode else mode)
        in ucast mode AND want AND 7 = want)"

subsection \<open>Directory entries\<close>

text \<open>
  The head of the loops over the entries of a directory: at the start and at the end of a buffer the
  next block is read. A found entry comes with its buffer; without one the buffer is NULL and
  \<open>nxt\<close> is what \<^verbatim>\<open>match_name\<close> last stored.
\<close>

definition dir_block ::
  "'x fsenv \<Rightarrow> 'x vfs_scheme \<Rightarrow> u32 \<Rightarrow> u32 \<Rightarrow> u32 \<Rightarrow> u32 \<Rightarrow> bool \<Rightarrow> (u32 \<times> u32 \<times> 'x vfs_scheme) option" where
  "dir_block e s dirino i buf entry create =
     (if buf = NULL \<or> entry \<ge> bf_data (buffers s buf) + BLOCK_SIZE then do {
        s \<leftarrow> put_buf e s buf;
        (bno, s) \<leftarrow> minix_bmap e s dirino (i div BLOCK_DENTRIES) create;
        kassert (bno \<noteq> 0);
        (buf, s) \<leftarrow> get_buf e s (i_dev (inodes s dirino)) bno;
        Some (buf, bf_data (buffers s buf), s)
      }
      else Some (buf, entry, s))"

definition entry_name :: "mem \<Rightarrow> u32 \<Rightarrow> nat \<Rightarrow> u8" where
  "entry_name m entry k = m (md_name entry + of_nat k)"

partial_function (option) find_entry_loop ::
  "'x fsenv \<Rightarrow> 'x vfs_scheme \<Rightarrow> u32 \<Rightarrow> u32 \<Rightarrow> u32 \<Rightarrow> u32 \<Rightarrow> u32 \<Rightarrow> u32 \<Rightarrow> u32 \<Rightarrow> (u32 \<times> u32 \<times> u32 \<times> 'x vfs_scheme) option" where
  "find_entry_loop e s dirino name nxt entries i buf entry =
     (if \<not> i < entries then do { s \<leftarrow> put_buf e s buf; Some (NULL, nxt, NULL, s) }
      else do {
        (buf, entry, s) \<leftarrow> dir_block e s dirino i buf entry False;
        let hit = match_name (d_mem s) name (entry_name (d_mem s) entry) (unat MINIX1_NAME_LEN);
        let nxt = (case hit of None \<Rightarrow> nxt | Some n \<Rightarrow> n);
        if hit \<noteq> None \<and> md_nr (d_mem s) entry \<noteq> 0 then Some (buf, nxt, entry, s)
        else find_entry_loop e s dirino name nxt entries (i + 1) buf (entry + 16)
      })"

definition find_entry :: "'x fsenv \<Rightarrow> 'x vfs_scheme \<Rightarrow> u32 \<Rightarrow> u32 \<Rightarrow> u32 \<Rightarrow> (u32 \<times> u32 \<times> u32 \<times> 'x vfs_scheme) option" where
  "find_entry e s dirino name nxt = do {
     let minode = i_desc (inodes s dirino);
     kassert (ISDIR (mi_mode (d_mem s) minode));
     find_entry_loop e s dirino name nxt (mi_size (d_mem s) minode div 16) 0 NULL NULL
   }"

fun no_separator :: "mem \<Rightarrow> u32 \<Rightarrow> nat \<Rightarrow> bool" where
  "no_separator m name 0 \<longleftrightarrow> True"
| "no_separator m name (Suc left) \<longleftrightarrow>
     (if m name = 0 then True else \<not> IS_SEPARATOR (m name) \<and> no_separator m (name + 1) left)"

partial_function (option) add_entry_loop ::
  "'x fsenv \<Rightarrow> 'x vfs_scheme \<Rightarrow> u32 \<Rightarrow> u32 \<Rightarrow> u32 \<Rightarrow> u32 \<Rightarrow> u32 \<Rightarrow> (u32 \<times> u32 \<times> 'x vfs_scheme) option" where
  "add_entry_loop e s dirino name i buf entry = do {
     (buf, entry, s) \<leftarrow> dir_block e s dirino i buf entry True;
     let minode = i_desc (inodes s dirino);
     let s = (if i * 16 \<ge> mi_size (d_mem s) minode
              then set_dirty (upd_inode (upd_mem s (\<lambda>m. store32 (store16 m entry 0) (minode + 4) ((i + 1) * 16))) dirino
                     (\<lambda>x. x\<lparr>i_size := (i + 1) * 16\<rparr>)) (i_buf (inodes s dirino))
              else s);
     if md_nr (d_mem s) entry \<noteq> 0 then add_entry_loop e s dirino name (i + 1) buf (entry + 16)
     else do {
       let s = upd_mem s (\<lambda>m. snd (strncpy m (md_name entry) name MINIX1_NAME_LEN));
       let s = set_dirty s buf;
       let t = now e s;
       let s = upd_inode (upd_mem s (\<lambda>m. store32 m (minode + 8) t)) dirino (\<lambda>x. x\<lparr>i_mtime := t\<rparr>);
       Some (buf, entry, set_dirty s (i_buf (inodes s dirino)))
     }
   }"

definition add_entry :: "'x fsenv \<Rightarrow> 'x vfs_scheme \<Rightarrow> u32 \<Rightarrow> u32 \<Rightarrow> (u32 \<times> u32 \<times> 'x vfs_scheme) option" where
  "add_entry e s dirino name = do {
     (buf, _, entry, s) \<leftarrow> find_entry e s dirino name NULL;
     if buf \<noteq> NULL then Some (buf, entry, s)
     else do {
       kassert (no_separator (d_mem s) name (unat MINIX1_NAME_LEN));
       add_entry_loop e s dirino name 0 NULL NULL
     }
   }"

subsection \<open>Opening and looking up\<close>

text \<open>The labels \<^verbatim>\<open>rollback\<close> and \<^verbatim>\<open>makeup\<close>; \<open>result\<close> is what \<^verbatim>\<open>*result\<close> holds before the call.\<close>

definition roll_back :: "'x fsenv \<Rightarrow> 'x vfs_scheme \<Rightarrow> u32 \<Rightarrow> u32 \<Rightarrow> 'a \<Rightarrow> ('a \<times> 'x vfs_scheme) option" where
  "roll_back e s buf inode ret = do {
     s \<leftarrow> put_buf e s buf;
     s \<leftarrow> iput e s inode;
     Some (ret, s)
   }"

definition ACC_MODE :: "u32 \<Rightarrow> u32" where
  "ACC_MODE x = [4, 2, 6, - 1] ! unat (x AND O_ACCMODE)"

definition open_makeup ::
  "'x fsenv \<Rightarrow> 'x vfs_scheme \<Rightarrow> u32 \<Rightarrow> u32 \<Rightarrow> u32 \<Rightarrow> u32 \<Rightarrow> u32 \<Rightarrow> (u32 \<times> u32 \<times> 'x vfs_scheme) option" where
  "open_makeup e s dirino inode buf flags result = do {
     ops \<leftarrow> op_of e s dirino;
     (ok, s) \<leftarrow> op_permission ops s inode (ACC_MODE (flags AND O_ACCMODE));
     if \<not> ok \<or> ISDIR (i_mode (inodes s inode)) \<and> flags AND O_ACCMODE \<noteq> O_RDONLY then do {
       (ret, s) \<leftarrow> roll_back e s buf inode EOF;
       Some (ret, result, s)
     }
     else do {
       let s = upd_inode s inode (\<lambda>i. i\<lparr>i_atime := now e s\<rparr>);
       s \<leftarrow> (if flags AND O_TRUNC \<noteq> 0 then do {
              ops \<leftarrow> op_of e s inode;
              (_, s) \<leftarrow> op_truncate ops s inode;
              Some s
            } else Some s);
       s \<leftarrow> put_buf e s buf;
       Some (EOK, inode, s)
     }
   }"

definition minix_open ::
  "'x fsenv \<Rightarrow> 'x vfs_scheme \<Rightarrow> u32 \<Rightarrow> u32 \<Rightarrow> u32 \<Rightarrow> u32 \<Rightarrow> u32 \<Rightarrow> (u32 \<times> u32 \<times> 'x vfs_scheme) option" where
  "minix_open e s dirino name flags mode result = do {
     let flags = (if flags AND O_TRUNC \<noteq> 0 \<and> flags AND O_ACCMODE = O_RDONLY then flags OR O_RDWR else flags);
     (buf, _, entry, s) \<leftarrow> find_entry e s dirino name NULL;
     if buf \<noteq> NULL then do {
       (inode, s) \<leftarrow> iget e s (i_dev (inodes s dirino)) (ucast (md_nr (d_mem s) entry));
       kassert (inode \<noteq> NULL);
       open_makeup e s dirino inode buf flags result
     }
     else if flags AND O_CREAT = 0 then do {
       (ret, s) \<leftarrow> roll_back e s buf NULL (- EEXIST);
       Some (ret, result, s)
     }
     else do {
       ops \<leftarrow> op_of e s dirino;
       (ok, s) \<leftarrow> op_permission ops s dirino P_WRITE;
       if \<not> ok then do { (ret, s) \<leftarrow> roll_back e s buf NULL (- EPERM); Some (ret, result, s) }
       else do {
         (buf, entry, s) \<leftarrow> add_entry e s dirino name;
         if buf = NULL then do { (ret, s) \<leftarrow> roll_back e s buf NULL (- EIO); Some (ret, result, s) }
         else do {
           (idx, s) \<leftarrow> minix_ialloc e s (i_super (inodes s dirino));
           let s = upd_mem s (\<lambda>m. store16 m entry (ucast idx));
           (inode, s) \<leftarrow> new_inode e s (i_dev (inodes s dirino)) (ucast (md_nr (d_mem s) entry));
           kassert (inode \<noteq> NULL);
           let mode = mode AND (511 AND NOT (ucast (t_umask (me s)))) OR ucast IFREG;
           let s = upd_inode s inode (\<lambda>i. i\<lparr>i_mode := ucast mode\<rparr>);
           let s = upd_mem s (\<lambda>m. store16 m (i_desc (inodes s inode)) (ucast mode));
           open_makeup e s dirino inode buf flags result
         }
       }
     }
   }"

definition minix_namei ::
  "'x fsenv \<Rightarrow> 'x vfs_scheme \<Rightarrow> u32 \<Rightarrow> u32 \<Rightarrow> u32 \<Rightarrow> u32 \<Rightarrow> (u32 \<times> u32 \<times> u32 \<times> 'x vfs_scheme) option" where
  "minix_namei e s dirino name nxt result = do {
     (buf, nxt, entry, s) \<leftarrow> find_entry e s dirino name nxt;
     if buf = NULL then Some (- ENOENT, nxt, result, s)
     else do {
       (inode, s) \<leftarrow> iget e s (i_dev (inodes s dirino)) (ucast (md_nr (d_mem s) entry));
       s \<leftarrow> put_buf e s buf;
       Some (EOK, nxt, inode, s)
     }
   }"

subsection \<open>Directories\<close>

definition add_nlinks :: "u32 \<Rightarrow> u8 \<Rightarrow> mem \<Rightarrow> mem" where
  "add_nlinks minode n m = m(minode + 13 := mi_nlinks m minode + n)"

definition minix_mkdir :: "'x fsenv \<Rightarrow> 'x vfs_scheme \<Rightarrow> u32 \<Rightarrow> u32 \<Rightarrow> u32 \<Rightarrow> (u32 \<times> 'x vfs_scheme) option" where
  "minix_mkdir e s dirino name mode = do {
     let dminode = i_desc (inodes s dirino);
     kassert (ISDIR (mi_mode (d_mem s) dminode));
     if \<not> minix_permission s dirino P_WRITE then Some (- EPERM, s)
     else do {
       (ebuf, _, entry, s) \<leftarrow> find_entry e s dirino name NULL;
       if ebuf \<noteq> NULL then roll_back e s ebuf NULL (- EEXIST)
       else do {
         (ebuf, entry, s) \<leftarrow> add_entry e s dirino name;
         if ebuf = NULL then roll_back e s ebuf NULL (- EIO)
         else do {
           let s = set_dirty s ebuf;
           (idx, s) \<leftarrow> minix_ialloc e s (i_super (inodes s dirino));
           let s = upd_mem s (\<lambda>m. store16 m entry (ucast idx));
           (inode, s) \<leftarrow> new_inode e s (i_dev (inodes s dirino)) (ucast (md_nr (d_mem s) entry));
           kassert (inode \<noteq> NULL);
           let iminode = i_desc (inodes s inode);
           let imode = ucast (mode AND 511 AND NOT (ucast (t_umask (me s)))) OR IFDIR;
           let s = upd_mem s (\<lambda>m. (store32 (store16 m iminode imode) (iminode + 4) 32)(iminode + 13 := 2));
           let s = upd_inode s inode (\<lambda>i. i\<lparr>i_mode := imode, i_size := 32\<rparr>);
           let s = upd_mem (set_dirty s (i_buf (inodes s dirino))) (add_nlinks dminode 1);
           (zone, s) \<leftarrow> minix_bmap e s inode 0 True;
           kassert (zone \<noteq> 0);
           (zbuf, s) \<leftarrow> get_buf e s (i_dev (inodes s inode)) zone;
           let s = set_dirty s zbuf;
           let entry = bf_data (buffers s zbuf);
           let s = upd_mem s (\<lambda>m. put_bytes m (md_name entry) [46, 0]);
           let s = upd_mem s (\<lambda>m. store16 m entry (ucast (i_nr (inodes s inode))));
           let entry = entry + 16;
           let s = upd_mem s (\<lambda>m. put_bytes m (md_name entry) [46, 46, 0]);
           let s = upd_mem s (\<lambda>m. store16 m entry (ucast (i_nr (inodes s dirino))));
           s \<leftarrow> iput e s inode;
           (_, s) \<leftarrow> bwrite (fs_dev e) s (i_buf (inodes s dirino));
           s \<leftarrow> put_buf e s ebuf;
           s \<leftarrow> put_buf e s zbuf;
           Some (EOK, s)
         }
       }
     }
   }"

partial_function (option) empty_loop ::
  "'x fsenv \<Rightarrow> 'x vfs_scheme \<Rightarrow> u32 \<Rightarrow> u32 \<Rightarrow> u32 \<Rightarrow> u32 \<Rightarrow> u32 \<Rightarrow> u32 \<Rightarrow> (u32 \<times> u32 \<times> 'x vfs_scheme) option" where
  "empty_loop e s inode entries i buf entry cnt =
     (if \<not> i < entries then Some (cnt, buf, s)
      else do {
        (buf, entry, s) \<leftarrow> dir_block e s inode i buf entry False;
        empty_loop e s inode entries (i + 1) buf (entry + 16) (if md_nr (d_mem s) entry \<noteq> 0 then cnt + 1 else cnt)
      })"

definition is_empty :: "'x fsenv \<Rightarrow> 'x vfs_scheme \<Rightarrow> u32 \<Rightarrow> (bool \<times> 'x vfs_scheme) option" where
  "is_empty e s inode = do {
     let minode = i_desc (inodes s inode);
     kassert (ISDIR (mi_mode (d_mem s) minode));
     let entries = mi_size (d_mem s) minode div 16;
     if entries < 2 \<or> read16 (d_mem s) (mi_zone minode) = 0 then Some (False, s)
     else do {
       (cnt, buf, s) \<leftarrow> empty_loop e s inode entries 0 NULL NULL 0;
       s \<leftarrow> put_buf e s buf;
       Some (if sint cnt < 2 then False else cnt = 2, s)
     }
   }"

definition minix_rmdir :: "'x fsenv \<Rightarrow> 'x vfs_scheme \<Rightarrow> u32 \<Rightarrow> u32 \<Rightarrow> (u32 \<times> 'x vfs_scheme) option" where
  "minix_rmdir e s dirino name = do {
     let dminode = i_desc (inodes s dirino);
     kassert (ISDIR (mi_mode (d_mem s) dminode));
     if \<not> minix_permission s dirino P_WRITE then Some (- EPERM, s)
     else do {
       (ebuf, _, entry, s) \<leftarrow> find_entry e s dirino name NULL;
       let done = (\<lambda>s inode ret. do { s \<leftarrow> iput e s inode; s \<leftarrow> put_buf e s ebuf; Some (ret, s) });
       if ebuf = NULL then done s NULL (- ENOENT)
       else do {
         (inode, s) \<leftarrow> iget e s (i_dev (inodes s dirino)) (ucast (md_nr (d_mem s) entry));
         let iminode = i_desc (inodes s inode);
         if inode = dirino then done s inode (- EPERM)
         else if \<not> ISDIR (mi_mode (d_mem s) iminode) then done s inode (- ENOTDIR)
         else if mi_mode (d_mem s) dminode AND ISVTX \<noteq> 0 \<and> t_uid (me s) \<noteq> ucast (mi_uid (d_mem s) iminode)
         then done s inode (- EPERM)
         else if i_dev (inodes s dirino) \<noteq> i_dev (inodes s inode) \<or> i_count (inodes s inode) > 1 then done s inode (- EPERM)
         else do {
           (emp, s) \<leftarrow> is_empty e s inode;
           if \<not> emp then done s inode (- ENOTEMPTY)
           else do {
             kassert (mi_nlinks (d_mem s) iminode = 2);
             (ret, s) \<leftarrow> minix_truncate e s inode;
             kassert (ret = EOK);
             s \<leftarrow> minix_ifree e s (i_super (inodes s inode)) (i_nr (inodes s inode));
             let s = set_dirty (upd_mem s (\<lambda>m. m(iminode + 13 := 0))) (i_buf (inodes s inode));
             let s = upd_inode s inode (\<lambda>i. i\<lparr>i_nr := 0\<rparr>);
             let t = now e s;
             let s = upd_mem s (\<lambda>m. store32 (add_nlinks dminode (- 1) m) (dminode + 8) t);
             let s = upd_inode s dirino (\<lambda>i. i\<lparr>i_ctime := t, i_atime := t\<rparr>);
             let s = set_dirty s (i_buf (inodes s dirino));
             kassert (mi_nlinks (d_mem s) dminode > 0);
             let s = set_dirty (upd_mem s (\<lambda>m. store16 m entry 0)) ebuf;
             done s inode 0
           }
         }
       }
     }
   }"

subsection \<open>Links and special files\<close>

definition minix_link :: "'x fsenv \<Rightarrow> 'x vfs_scheme \<Rightarrow> u32 \<Rightarrow> u32 \<Rightarrow> u32 \<Rightarrow> u32 \<Rightarrow> (u32 \<times> 'x vfs_scheme) option" where
  "minix_link e s odir oldname ndir newname = do {
     (ret, _, inode, s) \<leftarrow> minix_namei e s odir oldname NULL NULL;
     if sint ret < sint EOK then roll_back e s NULL inode ret
     else do {
       let minode = i_desc (inodes s inode);
       let nminode = i_desc (inodes s ndir);
       if ISDIR (mi_mode (d_mem s) minode) then roll_back e s NULL inode (- EPERM)
       else if \<not> ISDIR (mi_mode (d_mem s) nminode) then roll_back e s NULL inode (- EPERM)
       else if i_dev (inodes s ndir) \<noteq> i_dev (inodes s inode) then roll_back e s NULL inode (- EXDEV)
       else if \<not> minix_permission s ndir P_WRITE then roll_back e s NULL inode (- EACCES)
       else do {
         (buf, _, entry, s) \<leftarrow> find_entry e s ndir newname NULL;
         if buf \<noteq> NULL then roll_back e s buf inode (- EEXIST)
         else do {
           (buf, entry, s) \<leftarrow> add_entry e s ndir newname;
           if buf = NULL then roll_back e s buf inode (- EIO)
           else do {
             let s = set_dirty (upd_mem s (\<lambda>m. store16 m entry (ucast (i_nr (inodes s inode))))) buf;
             let s = upd_inode (upd_mem s (add_nlinks minode 1)) inode (\<lambda>i. i\<lparr>i_ctime := now e s\<rparr>);
             let s = set_dirty s (i_buf (inodes s inode));
             roll_back e s buf inode EOK
           }
         }
       }
     }
   }"

definition minix_unlink :: "'x fsenv \<Rightarrow> 'x vfs_scheme \<Rightarrow> u32 \<Rightarrow> u32 \<Rightarrow> (u32 \<times> 'x vfs_scheme) option" where
  "minix_unlink e s dirino name =
     (if \<not> minix_permission s dirino P_WRITE then roll_back e s NULL NULL (- EPERM)
      else do {
        (buf, _, entry, s) \<leftarrow> find_entry e s dirino name NULL;
        if buf = NULL then roll_back e s buf NULL (- ENOENT)
        else do {
          (inode, s) \<leftarrow> iget e s (i_dev (inodes s dirino)) (ucast (md_nr (d_mem s) entry));
          kassert (inode \<noteq> NULL);
          let minode = i_desc (inodes s inode);
          let mode = mi_mode (d_mem s) minode;
          if ISDIR mode then roll_back e s buf inode (- EPERM)
          else if mode AND ISVTX \<noteq> 0 \<and> t_uid (me s) \<noteq> ucast (mi_uid (d_mem s) minode) then roll_back e s buf inode (- EPERM)
          else do {
            let s = set_dirty (upd_mem s (\<lambda>m. store16 m entry 0)) buf;
            let s = set_dirty (upd_mem s (add_nlinks minode (- 1))) (i_buf (inodes s inode));
            s \<leftarrow> (if mi_nlinks (d_mem s) minode = 0 then do {
                   (_, s) \<leftarrow> minix_truncate e s inode;
                   minix_ifree e s (i_super (inodes s inode)) (i_nr (inodes s inode))
                 } else Some s);
            roll_back e s buf inode 0
          }
        }
      })"

definition minix_mknod :: "'x fsenv \<Rightarrow> 'x vfs_scheme \<Rightarrow> u32 \<Rightarrow> u32 \<Rightarrow> u32 \<Rightarrow> u32 \<Rightarrow> (u32 \<times> 'x vfs_scheme) option" where
  "minix_mknod e s dirino name mode dev =
     (if \<not> minix_permission s dirino P_WRITE then roll_back e s NULL NULL (- EPERM)
      else do {
        (buf, _, entry, s) \<leftarrow> find_entry e s dirino name NULL;
        if buf \<noteq> NULL then roll_back e s buf NULL (- EEXIST)
        else do {
          (buf, entry, s) \<leftarrow> add_entry e s dirino name;
          if buf = NULL then roll_back e s buf NULL (- EIO)
          else do {
            let s = set_dirty s buf;
            (idx, s) \<leftarrow> minix_ialloc e s (i_super (inodes s dirino));
            let s = upd_mem s (\<lambda>m. store16 m entry (ucast idx));
            (inode, s) \<leftarrow> new_inode e s (i_dev (inodes s dirino)) (ucast (md_nr (d_mem s) entry));
            kassert (inode \<noteq> NULL);
            let minode = i_desc (inodes s inode);
            let s = upd_mem s (\<lambda>m. store16 m minode (ucast mode));
            let md = (ucast mode :: u16);
            let s = (if ISBLK md \<or> ISCHR md \<or> ISSOCK md then upd_mem s (\<lambda>m. store16 m (mi_zone minode) (ucast dev)) else s);
            roll_back e s buf inode 0
          }
        }
      })"

subsection \<open>The file system as a whole\<close>

definition minix_super :: "'x fsenv \<Rightarrow> 'x vfs_scheme \<Rightarrow> u32 \<Rightarrow> u32 \<Rightarrow> (u32 \<times> 'x vfs_scheme) option" where
  "minix_super e s dev super = do {
     (buf, s) \<leftarrow> bread (fs_dev e) s dev 1 BLOCK_SIZE;
     if buf = NULL then Some (- EFSUNK, s)
     else do {
       let desc = bf_data (buffers s buf);
       if ms_magic (d_mem s) desc \<noteq> MINIX1_MAGIC then do { s \<leftarrow> put_buf e s buf; Some (- EFSUNK, s) }
       else do {
         let s = upd_super s super (\<lambda>p. p\<lparr>s_buf := buf, s_desc := desc, s_dev := dev, s_type := FS_TYPE_MINIX,
                   s_block_size := BLOCK_SIZE, s_sector_size := SECTOR_SIZE\<rparr>);
         (iroot, s) \<leftarrow> iget e s dev 1;
         Some (EOK, upd_super s super (\<lambda>p. p\<lparr>s_iroot := iroot\<rparr>))
       }
     }
   }"

partial_function (option) mkfs_clear :: "'x fsenv \<Rightarrow> 'x vfs_scheme \<Rightarrow> u32 \<Rightarrow> u32 \<Rightarrow> u32 \<Rightarrow> u32 \<Rightarrow> 'x vfs_scheme option" where
  "mkfs_clear e s dev desc i idx =
     (if \<not> sint i < sint (ms_imap_blocks (d_mem s) desc + ms_zmap_blocks (d_mem s) desc) then Some s
      else do {
        (buf, s) \<leftarrow> get_buf e s dev idx;
        let s = set_dirty s buf;
        let s = upd_mem s (\<lambda>m. memset m (bf_data (buffers s buf)) 0 BLOCK_SIZE);
        s \<leftarrow> put_buf e s buf;
        mkfs_clear e s dev desc (i + 1) (idx + 1)
      })"

text \<open>The super block: the sizes of the parts of a disk of \<open>tblocks\<close> blocks with \<open>icount\<close> inodes.\<close>

definition mkfs_super :: "mem \<Rightarrow> u32 \<Rightarrow> u32 \<Rightarrow> u32 \<Rightarrow> mem option" where
  "mkfs_super m desc tblocks icount = do {
     inode_blocks \<leftarrow> div_round_up (icount * 32) BLOCK_SIZE;
     let m = store16 m desc (ucast icount);
     let m = store16 m (desc + 2) (ucast tblocks);
     imap \<leftarrow> div_round_up icount BLOCK_BITS;
     let m = store16 m (desc + 4) (ucast imap);
     let zcount = tblocks - ms_imap_blocks m desc - inode_blocks - 2;
     zmap \<leftarrow> div_round_up zcount BLOCK_BITS;
     let m = store16 m (desc + 6) (ucast zmap);
     let m = store16 m (desc + 8) (ucast (2 + ms_imap_blocks m desc + ms_zmap_blocks m desc + inode_blocks));
     let m = store16 m (desc + 10) 0;
     let m = store32 m (desc + 12) (BLOCK_SIZE * TOTAL_BLOCK);
     Some (store16 m (desc + 16) MINIX1_MAGIC)
   }"

definition minix_mkfs :: "'x fsenv \<Rightarrow> 'x vfs_scheme \<Rightarrow> u32 \<Rightarrow> u32 \<Rightarrow> (u32 \<times> 'x vfs_scheme) option" where
  "minix_mkfs e s dev icount = do {
     (sectors, s) \<leftarrow> device_ioctl (fs_dev e) s dev DEV_CMD_SECTOR_COUNT 0 0;
     let tblocks = idiv sectors BLOCK_SECS;
     kassert (tblocks \<noteq> 0);
     kassert (sint icount < sint tblocks);
     let icount = (if icount = 0 then idiv tblocks 3 else icount);
     super \<leftarrow> get_free_super s;
     let s = upd_super s super (\<lambda>p. p\<lparr>s_type := FS_TYPE_MINIX, s_dev := dev, s_count := s_count p + 1\<rparr>);
     (buf, s) \<leftarrow> get_buf e s dev 1;
     let s = set_dirty (upd_super s super (\<lambda>p. p\<lparr>s_buf := buf\<rparr>)) buf;
     let desc = bf_data (buffers s buf);
     let s = upd_super s super (\<lambda>p. p\<lparr>s_desc := desc\<rparr>);
     m \<leftarrow> mkfs_super (d_mem s) desc tblocks icount;
     s \<leftarrow> mkfs_clear e (upd_mem s (\<lambda>_. m)) dev desc 0 2;
     (_, s) \<leftarrow> minix_balloc e s super;
     (_, s) \<leftarrow> minix_ialloc e s super;
     (_, s) \<leftarrow> minix_ialloc e s super;
     let umask = t_umask (me s);
     (iroot, s) \<leftarrow> new_inode e s dev 1;
     let s = upd_super s super (\<lambda>p. p\<lparr>s_iroot := iroot\<rparr>);
     let minode = i_desc (inodes s iroot);
     let s = upd_mem s (\<lambda>m. (store32 (store16 m minode (511 AND NOT umask OR IFDIR)) (minode + 4) 32)(minode + 13 := 2));
     (zone, s) \<leftarrow> minix_bmap e s iroot 0 True;
     (buf, s) \<leftarrow> get_buf e s dev zone;
     let s = set_dirty s buf;
     let entry = bf_data (buffers s buf);
     let nr = ucast (i_nr (inodes s iroot));
     let s = upd_mem s (\<lambda>m. memset m entry 0 BLOCK_SIZE);
     let s = upd_mem s (\<lambda>m. store16 (put_bytes m (md_name entry) [46, 0]) entry nr);
     let entry = entry + 16;
     let s = upd_mem s (\<lambda>m. store16 (put_bytes m (md_name entry) [46, 46, 0]) entry nr);
     s \<leftarrow> put_buf e s buf;
     s \<leftarrow> put_super e s super;
     Some (0, s)
   }"

definition minix_ioctl :: "'x fsenv \<Rightarrow> 'x vfs_scheme \<Rightarrow> u32 \<Rightarrow> u32 \<Rightarrow> u32 \<Rightarrow> (u32 \<times> 'x vfs_scheme) option" where
  "minix_ioctl e s inode cmd args =
     (let mode = i_mode (inodes s inode); dev = i_rdev (inodes s inode)
      in if \<not> ISCHR mode \<and> \<not> ISBLK mode \<and> \<not> ISSOCK mode then Some (- EINVAL, s)
      else if sint dev \<ge> int DEVICE_NR then Some (- ENOTTY, s)
      else device_ioctl (fs_dev e) s dev cmd args 0)"

definition minix_op :: "'x fsenv \<Rightarrow> 'x fs_op_t" where
  "minix_op e = \<lparr>op_mkfs = minix_mkfs e, op_super = minix_super e, op_open = minix_open e, op_close = minix_close e,
     op_ioctl = minix_ioctl e, op_read = minix_read e, op_write = minix_write e, op_truncate = minix_truncate e,
     op_stat = minix_stat, op_permission = (\<lambda>s inode want. Some (minix_permission s inode want, s)),
     op_namei = minix_namei e, op_mkdir = minix_mkdir e, op_rmdir = minix_rmdir e, op_link = minix_link e,
     op_unlink = minix_unlink e, op_mknod = minix_mknod e, op_readdir = minix_readdir e\<rparr>"

text \<open>The table is at the address \<open>table\<close>.\<close>

definition minix_init :: "'x vfs_scheme \<Rightarrow> u32 \<Rightarrow> 'x vfs_scheme option" where
  "minix_init s table = fs_register_op s FS_TYPE_MINIX table"

end
