(* ===== verification/Onix_Minix_Read.thy ===== *)
theory Onix_Minix_Read
  imports Onix_Minix Onix_Cache
begin

section \<open>Reading a Minix file whose blocks are cached\<close>

text \<open>
  The zone tree and the contents of a file as functions of the memory (\<open>zone_of\<close>, \<open>file_byte\<close>), and the
  proof that \<^verbatim>\<open>minix_bmap\<close>, \<^verbatim>\<open>minix_read\<close> and \<^verbatim>\<open>find_entry\<close> compute them. All buffer accesses go through
  the interface \<open>block_reader\<close> of \<open>Onix_Cache\<close>.
\<close>

subsection \<open>States that differ in the bookkeeping only\<close>

definition like :: "cview \<Rightarrow> 'x vfs_scheme \<Rightarrow> 'x vfs_scheme \<Rightarrow> bool" where
  "like v s t \<longleftrightarrow> cache_ok v t \<and> cache_rest t = cache_rest s \<and> cache_uses t = cache_uses s"

text \<open>\<open>t\<close> is \<open>s\<close> after a reference on \<open>b\<close> was given back.\<close>

definition less_one :: "cview \<Rightarrow> 'x vfs_scheme \<Rightarrow> u32 \<Rightarrow> 'x vfs_scheme \<Rightarrow> bool" where
  "less_one v s b t \<longleftrightarrow> cache_ok v t \<and> cache_rest t = cache_rest s \<and> cache_uses t = (cache_uses s)(b := cache_uses s b - 1)"

definition few :: "cview \<Rightarrow> nat \<Rightarrow> 'x vfs_scheme \<Rightarrow> bool" where
  "few v k s \<longleftrightarrow> (\<forall>b \<in> cv_pool v. unat (cache_uses s b) + k < 2147483648)"

lemma vfs_rest:
  assumes "cache_rest s = cache_rest t"
  shows "inodes s = inodes t" "supers s = supers t" "me s = me t" "d_mem s = d_mem t" "bf_data (buffers s b) = bf_data (buffers t b)"
    "cache_place v s = cache_place v t" "now e s = now e t"
proof -
  show "inodes s = inodes t" using arg_cong [OF assms, of inodes] by (simp add: cache_rest_def with_k_def)
  show "supers s = supers t" using arg_cong [OF assms, of supers] by (simp add: cache_rest_def with_k_def)
  show "me s = me t" using arg_cong [OF assms, of me] by (simp add: cache_rest_def with_k_def me_def)
  show "now e s = now e t" using arg_cong [OF assms, of "now e"] by (simp add: cache_rest_def with_k_def now_def sys_time_def)
qed (use cache_rest_eqD [OF assms] cache_place_rest [OF assms] in auto)

lemma put_buf_drop: "put_buf e s b = drop_ref (fs_dev e) s b"
  by (auto simp: put_buf_def drop_ref_def map_option_case bind_eq_Some_conv split: option.splits)

lemma get_buf_hit:
  assumes "cache_ok v s" "cv_size v = BLOCK_SIZE" "cache_place v s dev bno = Some b" "unat (cache_uses s b) + 1 < 2147483648"
  shows "\<exists>s1. get_buf e s dev bno = Some (b, s1) \<and> cache_ok v s1 \<and> cache_rest s1 = cache_rest s \<and>
    cache_uses s1 = (cache_uses s)(b := cache_uses s b + 1)"
proof -
  have "b \<noteq> NULL"
    using assms(1) cache.place_pool [OF assms(3)] rnode_apart [of v s b] by (auto simp: cache_ok_def)
  then show ?thesis using cache.rd_hit [OF assms(1,3,4), of "fs_dev e"] assms(2) by (auto simp: get_buf_def)
qed

text \<open>One more reference on a buffer that is in use.\<close>

lemma cache_hold:
  assumes "cache_ok v s" "cache_uses s b \<noteq> 0" "unat (cache_uses s b) + 1 < 2147483648"
  shows "cache_ok v (upd_buffer s b (\<lambda>x. x\<lparr>bf_count := bf_count x + 1\<rparr>))"
proof -
  obtain idle where i: "cache_apart v s" "cache_lists v s idle" "\<forall>b \<in> cv_pool v. pooled v s idle b"
    using assms(1) by (auto simp: cache_ok_def)
  have "unat (bf_count (buffers s b) + 1) = unat (bf_count (buffers s b)) + 1"
    using assms(3) by (subst unat_plus_small) (simp_all add: cache_uses_def)
  then have "bf_count (buffers s b) + 1 \<noteq> 0" "unat (bf_count (buffers s b) + 1) < 2147483648"
    using assms(3) by (auto simp: cache_uses_def)
  then have "\<forall>x \<in> cv_pool v. pooled v (upd_buffer s b (\<lambda>x. x\<lparr>bf_count := bf_count x + 1\<rparr>)) idle x"
    using i(3) assms(2) by (auto simp: pooled_def cache_uses_def)
  then show ?thesis using i by (auto simp: cache_ok_def)
qed

subsection \<open>The zone tree\<close>

definition indirect :: "cview \<Rightarrow> 'x vfs_scheme \<Rightarrow> u32 \<Rightarrow> u16 \<Rightarrow> nat \<Rightarrow> u16 option" where
  "indirect v s dev z k =
     (if z = 0 then Some 0
      else case cache_place v s dev (ucast z) of
          None \<Rightarrow> None | Some b \<Rightarrow> Some (read16 (d_mem s) (bf_data (buffers s b) + 2 * of_nat k)))"

definition zone_of :: "cview \<Rightarrow> 'x vfs_scheme \<Rightarrow> u32 \<Rightarrow> nat \<Rightarrow> u16 option" where
  "zone_of v s inode n =
     (let zones = mi_zone (i_desc (inodes s inode)); dev = i_dev (inodes s inode); m = d_mem s
      in if n < 7 then Some (read16 m (zones + 2 * of_nat n))
      else if n < 519 then indirect v s dev (read16 m (zones + 14)) (n - 7)
      else if n < 262663 then
        (case indirect v s dev (read16 m (zones + 16)) ((n - 519) div 512) of
           None \<Rightarrow> None | Some y \<Rightarrow> indirect v s dev y ((n - 519) mod 512))
      else None)"

lemma bmap_leaf:
  assumes "cache_ok v s" "buf \<in> cv_pool v" "cache_uses s buf \<noteq> 0" "level = 0 \<or> read16 (d_mem s) (arr + 2 * ucast index) = 0"
  shows "\<exists>t. bmap_level level e s inode arr buf index bno d False =
      Some (ucast (read16 (d_mem s) (arr + 2 * ucast index)), t) \<and> less_one v s buf t"
proof -
  obtain t where t: "put_buf e s buf = Some t" "cache_ok v t" "cache_rest t = cache_rest s"
      "cache_uses t = (cache_uses s)(buf := cache_uses s buf - 1)"
    using cache.rl_use [OF assms(1-3), of "fs_dev e"] by (auto simp: put_buf_drop)
  then show ?thesis using assms(4) vfs_rest [OF t(3)]
    by (subst bmap_level.simps) (auto simp: less_one_def Let_def split: nat.split)
qed

lemma bmap_node:
  assumes ok: "cache_ok v s" and sz: "cv_size v = BLOCK_SIZE" and buf: "buf \<in> cv_pool v" "cache_uses s buf \<noteq> 0"
    and z: "read16 (d_mem s) (arr + 2 * ucast index) = z" "z \<noteq> 0"
    and b: "cache_place v s (i_dev (inodes s inode)) (ucast z) = Some b" and few: "few v (Suc k) s"
  obtains s2 where "bmap_level (Suc l) e s inode arr buf index bno d False =
      bmap_level l e s2 inode (bf_data (buffers s b)) b (ucast (bno div d)) (bno mod d) (d div BLOCK_INDEXES) False"
    and "cache_ok v s2" "b \<in> cv_pool v" "cache_uses s2 b \<noteq> 0" "cache_rest s2 = cache_rest s" "few v k s2"
    and "\<And>t. less_one v s2 b t \<Longrightarrow> less_one v s buf t"
proof -
  obtain s1 where s1: "put_buf e s buf = Some s1" "cache_ok v s1" "cache_rest s1 = cache_rest s"
      "cache_uses s1 = (cache_uses s)(buf := cache_uses s buf - 1)"
    using cache.rl_use [OF ok buf, of "fs_dev e"] by (auto simp: put_buf_drop)
  have pool: "b \<in> cv_pool v" using cache.place_pool [OF b] .
  have le: "unat (cache_uses s1 x) \<le> unat (cache_uses s x)" for x
    using s1(4) unat_dec [OF buf(2)] by simp
  then have few1: "few v (Suc k) s1" using few unfolding few_def by (meson add_mono_thms_linordered_semiring(3) le_less_trans)
  then have room: "unat (cache_uses s1 b) + 1 < 2147483648" using pool unfolding few_def by fastforce
  have b1: "cache_place v s1 (i_dev (inodes s1 inode)) (ucast z) = Some b" using b vfs_rest [OF s1(3)] by simp
  obtain s2 where s2: "get_buf e s1 (i_dev (inodes s1 inode)) (ucast z) = Some (b, s2)" "cache_ok v s2"
      "cache_rest s2 = cache_rest s1" "cache_uses s2 = (cache_uses s1)(b := cache_uses s1 b + 1)"
    using get_buf_hit [OF s1(2) sz b1, of e] room by auto
  have one: "unat (cache_uses s1 b + 1) = unat (cache_uses s1 b) + 1" using room by (subst unat_plus_small) simp_all
  show thesis
  proof (rule that [of s2])
    show "bmap_level (Suc l) e s inode arr buf index bno d False =
        bmap_level l e s2 inode (bf_data (buffers s b)) b (ucast (bno div d)) (bno mod d) (d div BLOCK_INDEXES) False"
      using s1(1) s2(1) z vfs_rest [OF s1(3)] vfs_rest [OF s2(3)] by (subst bmap_level.simps) (simp add: Let_def)
    show "cache_uses s2 b \<noteq> 0" using s2(4) one by auto
    show "few v k s2" using few1 s2(4) one unfolding few_def by fastforce
    show "cache_rest s2 = cache_rest s" using s1(3) s2(3) by simp
    show "less_one v s buf t" if "less_one v s2 b t" for t
      using that s1(3,4) s2(3,4) by (auto simp: less_one_def)
  qed (use s2 pool in auto)
qed

lemma ucast_u16_back: "unat w < 65536 \<Longrightarrow> ucast (ucast w :: u16) = w" for w :: u32
  by (simp add: word_unat_eq_iff unat_ucast_u32 unsigned_ucast_eq unsigned_take_bit_eq take_bit_nat_eq_self)

lemma slot_index: "k < 65536 \<Longrightarrow> (2 :: u32) * ucast (ucast (of_nat k :: u32) :: u16) = 2 * of_nat k"
  by (simp add: ucast_u16_back unat_of_nat_small)

text \<open>One level below a table, and two.\<close>

lemma indirect_leaf:
  assumes "cache_ok v s" "cv_size v = BLOCK_SIZE" "buf \<in> cv_pool v" "cache_uses s buf \<noteq> 0" "few v (Suc k) s"
    and "indirect v s (i_dev (inodes s inode)) (read16 (d_mem s) (arr + 2 * ucast index)) (unat (bno div d)) = Some z"
    and "unat (bno div d) < 65536"
  shows "\<exists>t. bmap_level 1 e s inode arr buf index bno d False = Some (ucast z, t) \<and> less_one v s buf t"
proof (cases "read16 (d_mem s) (arr + 2 * ucast index) = 0")
  case True
  then show ?thesis using bmap_leaf [OF assms(1,3,4), of 1 arr index] assms(6) by (auto simp: indirect_def)
next
  case False
  then obtain b where b: "cache_place v s (i_dev (inodes s inode)) (ucast (read16 (d_mem s) (arr + 2 * ucast index))) = Some b"
      and z: "read16 (d_mem s) (bf_data (buffers s b) + 2 * of_nat (unat (bno div d))) = z"
    using assms(6) by (auto simp: indirect_def split: option.splits)
  obtain s2 where s2: "bmap_level (Suc 0) e s inode arr buf index bno d False =
      bmap_level 0 e s2 inode (bf_data (buffers s b)) b (ucast (bno div d)) (bno mod d) (d div BLOCK_INDEXES) False"
      "cache_ok v s2" "b \<in> cv_pool v" "cache_uses s2 b \<noteq> 0" "cache_rest s2 = cache_rest s"
      "\<And>t. less_one v s2 b t \<Longrightarrow> less_one v s buf t"
    using bmap_node [OF assms(1-4) refl False b assms(5), of 0 e bno d] by metis
  obtain t where "bmap_level 0 e s2 inode (bf_data (buffers s b)) b (ucast (bno div d)) (bno mod d) (d div BLOCK_INDEXES) False =
      Some (ucast (read16 (d_mem s2) (bf_data (buffers s b) + 2 * ucast (ucast (bno div d) :: u16))), t)" "less_one v s2 b t"
    using bmap_leaf [OF s2(2-4), of 0] by blast
  moreover have "(2 :: u32) * ucast (ucast (bno div d) :: u16) = 2 * of_nat (unat (bno div d))"
    using slot_index [OF assms(7)] by simp
  ultimately show ?thesis using s2(1,6) z vfs_rest [OF s2(5)] by auto
qed

lemma indirect_rest: "cache_rest s = cache_rest t \<Longrightarrow> indirect v s = indirect v t"
  by (intro ext) (simp only: indirect_def vfs_rest [of s t])

lemma indirect_tree:
  assumes "cache_ok v s" "cv_size v = BLOCK_SIZE" "buf \<in> cv_pool v" "cache_uses s buf \<noteq> 0" "few v (Suc (Suc k)) s"
    and "indirect v s (i_dev (inodes s inode)) (read16 (d_mem s) (arr + 2 * ucast index)) (unat (bno div 512)) = Some y"
    and "indirect v s (i_dev (inodes s inode)) y (unat (bno mod 512)) = Some z" and "unat (bno div 512) < 65536"
  shows "\<exists>t. bmap_level 2 e s inode arr buf index bno BLOCK_INDEXES False = Some (ucast z, t) \<and> less_one v s buf t"
proof (cases "read16 (d_mem s) (arr + 2 * ucast index) = 0")
  case True
  then show ?thesis using bmap_leaf [OF assms(1,3,4), of 2 arr index] assms(6,7) by (auto simp: indirect_def)
next
  case False
  then obtain b where b: "cache_place v s (i_dev (inodes s inode)) (ucast (read16 (d_mem s) (arr + 2 * ucast index))) = Some b"
      and y: "read16 (d_mem s) (bf_data (buffers s b) + 2 * of_nat (unat (bno div 512))) = y"
    using assms(6) by (auto simp: indirect_def split: option.splits)
  let ?j = "ucast (bno div 512) :: u16"
  obtain s2 where s2: "bmap_level (Suc 1) e s inode arr buf index bno BLOCK_INDEXES False =
      bmap_level 1 e s2 inode (bf_data (buffers s b)) b ?j (bno mod 512) 1 False"
      "cache_ok v s2" "b \<in> cv_pool v" "cache_uses s2 b \<noteq> 0" "cache_rest s2 = cache_rest s" "few v (Suc k) s2"
      "\<And>t. less_one v s2 b t \<Longrightarrow> less_one v s buf t"
    using bmap_node [OF assms(1-4) refl False b assms(5), of 1 e bno BLOCK_INDEXES] unfolding BLOCK_INDEXES_def by auto
  have j: "(2 :: u32) * ucast ?j = 2 * of_nat (unat (bno div 512))" using slot_index [OF assms(8)] by simp
  have "unat ((bno mod 512) div 1) < 65536" by (simp add: unat_mod order.strict_trans2 [OF mod_less_divisor])
  moreover have "indirect v s2 (i_dev (inodes s2 inode)) (read16 (d_mem s2) (bf_data (buffers s b) + 2 * ucast ?j))
      (unat ((bno mod 512) div 1)) = Some z"
    using assms(7) y vfs_rest [OF s2(5)] indirect_rest [OF s2(5)] by (simp add: j)
  ultimately obtain t where "bmap_level 1 e s2 inode (bf_data (buffers s b)) b ?j (bno mod 512) 1 False = Some (ucast z, t)"
      "less_one v s2 b t"
    using indirect_leaf [OF s2(2) assms(2) s2(3,4,6)] by blast
  then show ?thesis using s2(1,7) by (auto simp: numeral_2_eq_2)
qed

text \<open>The block of a file that is in memory: its buffer is held, and none is held very often.\<close>

definition held :: "cview \<Rightarrow> 'x vfs_scheme \<Rightarrow> u32 \<Rightarrow> bool" where
  "held v s inode \<longleftrightarrow> cache_ok v s \<and> cv_size v = BLOCK_SIZE \<and> i_buf (inodes s inode) \<in> cv_pool v \<and>
     cache_uses s (i_buf (inodes s inode)) \<noteq> 0 \<and> few v 4 s"

lemma held_like: "held v s inode \<Longrightarrow> like v s t \<Longrightarrow> held v t inode"
  using vfs_rest(1) [of t s] by (auto simp: held_def like_def few_def)

lemma minix_bmap_value:
  assumes "held v s inode" and zone: "zone_of v s inode n = Some z"
  shows "\<exists>t. minix_bmap e s inode (of_nat n) False = Some (ucast z, t) \<and> like v s t"
proof -
  let ?b = "i_buf (inodes s inode)" and ?arr = "mi_zone (i_desc (inodes s inode))"
  let ?s = "upd_buffer s ?b (\<lambda>x. x\<lparr>bf_count := bf_count x + 1\<rparr>)"
  have h: "cache_ok v s" "cv_size v = BLOCK_SIZE" "?b \<in> cv_pool v" "cache_uses s ?b \<noteq> 0" "few v 4 s"
    using assms(1) by (auto simp: held_def)
  then have room: "unat (cache_uses s ?b) + 4 < 2147483648" by (auto simp: few_def)
  then have one: "unat (cache_uses s ?b + 1) = unat (cache_uses s ?b) + 1" by (subst unat_plus_small) simp_all
  have uses: "cache_uses ?s = (cache_uses s)(?b := cache_uses s ?b + 1)" by (simp add: cache_uses_def)
  have ok: "cache_ok v ?s" using cache_hold [OF h(1,4)] room by simp
  have busy: "cache_uses ?s ?b \<noteq> 0" using uses one by auto
  have few: "few v (Suc (Suc 1)) ?s" using h(5) uses one unfolding few_def by fastforce
  have rest: "cache_rest ?s = cache_rest s" by simp
  note r = vfs_rest [OF rest] indirect_rest [OF rest]
  have fin: "like v s t" if "less_one v ?s ?b t" for t
    using that by (auto simp: less_one_def like_def cache_uses_def fun_eq_iff)
  have n: "n < 262663" using zone by (auto simp: zone_of_def Let_def split: if_splits)
  have u: "unat (of_nat k :: u32) = k" if "k \<le> n" for k using that n by (intro unat_of_nat_small) simp
  have sub: "(of_nat n :: u32) - of_nat k = of_nat (n - k)" if "k \<le> n" for k using that by simp
  have cmp: "(of_nat n :: u32) < of_nat k \<longleftrightarrow> n < k" if "k < 4294967296" for k
    using that u [of n] by (simp add: word_less_nat_alt unat_of_nat_small)
  consider "n < 7" | "7 \<le> n" "n < 519" | "519 \<le> n" by linarith
  then show ?thesis
  proof cases
    case 1
    then have "zone_of v s inode n = Some (read16 (d_mem ?s) (?arr + 2 * ucast (ucast (of_nat n :: u32) :: u16)))"
      using slot_index [of n] r by (simp add: zone_of_def Let_def)
    then show ?thesis
      using bmap_leaf [OF ok h(3) busy, of 0 ?arr "ucast (of_nat n :: u32)" e inode "of_nat n" 1] zone 1 cmp [of 7] cmp [of 262663] n fin
      by (auto simp: minix_bmap_def Let_def TOTAL_BLOCK_def DIRECT_BLOCK_def)
  next
    case 2
    have ix: "unat ((of_nat n - 7 :: u32) div 1) = n - 7" "unat ((of_nat n - 7 :: u32) div 1) < 65536"
      using sub [of 7] u [of "n - 7"] 2 by simp_all
    have "(2 :: u32) * ucast (ucast (7 :: u32) :: u16) = 14" using slot_index [of 7] by simp
    then have "indirect v ?s (i_dev (inodes ?s inode)) (read16 (d_mem ?s) (?arr + 2 * ucast (ucast (7 :: u32) :: u16)))
        (unat ((of_nat n - 7 :: u32) div 1)) = Some z"
      using zone 2 ix(1) r by (simp add: zone_of_def Let_def)
    moreover have "(of_nat n - 7 :: u32) < 512" using ix(1) 2 by (simp add: word_less_nat_alt)
    ultimately show ?thesis
      using indirect_leaf [OF ok h(2,3) busy few, of inode ?arr "ucast (7 :: u32)" "of_nat n - 7" 1 z e] ix(2) 2 cmp [of 7] cmp [of 262663] n fin
      by (auto simp: minix_bmap_def Let_def TOTAL_BLOCK_def DIRECT_BLOCK_def INDIRECT1_BLOCK_def)
  next
    case 3
    let ?k = "of_nat n - 7 - 512 :: u32"
    have k: "?k = of_nat (n - 519)" "(of_nat n - 7 :: u32) = of_nat (n - 7)" using sub [of 7] 3 by (simp_all add: of_nat_diff)
    then have uk: "unat ?k = n - 519" "unat (of_nat n - 7 :: u32) = n - 7" using u [of "n - 519"] u [of "n - 7"] by simp_all
    have ix: "unat (?k div 512) = (n - 519) div 512" "unat (?k mod 512) = (n - 519) mod 512" "unat (?k div 512) < 65536"
      using uk(1) n by (simp_all add: unat_div unat_mod)
    have "(2 :: u32) * ucast (ucast (7 + 1 :: u32) :: u16) = 16" using slot_index [of 8] by simp
    moreover obtain y where "indirect v s (i_dev (inodes s inode)) (read16 (d_mem s) (?arr + 16)) ((n - 519) div 512) = Some y"
        "indirect v s (i_dev (inodes s inode)) y ((n - 519) mod 512) = Some z"
      using zone 3 n by (auto simp: zone_of_def Let_def split: option.splits)
    ultimately have "indirect v ?s (i_dev (inodes ?s inode)) (read16 (d_mem ?s) (?arr + 2 * ucast (ucast (7 + 1 :: u32) :: u16)))
        (unat (?k div 512)) = Some y" "indirect v ?s (i_dev (inodes ?s inode)) y (unat (?k mod 512)) = Some z"
      using ix r by simp_all
    moreover have "\<not> (of_nat n - 7 :: u32) < 512" "?k < 262144" using uk 3 n by (simp_all add: word_less_nat_alt)
    ultimately show ?thesis
      using indirect_tree [OF ok h(2,3) busy few, of inode ?arr "ucast (7 + 1 :: u32)" ?k y z e] ix(3) 3 cmp [of 7] cmp [of 262663] n fin
      by (auto simp: minix_bmap_def Let_def TOTAL_BLOCK_def DIRECT_BLOCK_def INDIRECT1_BLOCK_def INDIRECT2_BLOCK_def)
  qed
qed

subsection \<open>The contents of a file\<close>

definition file_addr :: "cview \<Rightarrow> 'x vfs_scheme \<Rightarrow> u32 \<Rightarrow> nat \<Rightarrow> u32 option" where
  "file_addr v s inode k =
     (case zone_of v s inode (k div 1024) of
        None \<Rightarrow> None
      | Some z \<Rightarrow> if z = 0 then None
          else (case cache_place v s (i_dev (inodes s inode)) (ucast z) of
                  None \<Rightarrow> None | Some b \<Rightarrow> Some (bf_data (buffers s b) + of_nat (k mod 1024))))"

definition file_byte :: "cview \<Rightarrow> 'x vfs_scheme \<Rightarrow> u32 \<Rightarrow> nat \<Rightarrow> u8" where
  "file_byte v s inode k = d_mem s (the (file_addr v s inode k))"

text \<open>The memory of the cached blocks, in which the descriptor of the inode lies.\<close>

definition cache_area :: "cview \<Rightarrow> 'x vfs_scheme \<Rightarrow> u32 set" where
  "cache_area v s = (\<Union>b \<in> cv_pool v. region (bf_data (buffers s b)) 1024)"

lemma put_bytes_append: "put_bytes m a (xs @ ys) = put_bytes (put_bytes m a xs) (a + of_nat (length xs)) ys"
  by (induction xs arbitrary: m a) (simp_all add: add.assoc)

lemma put_bytes_outside: "x \<notin> region a (length xs) \<Longrightarrow> put_bytes m a xs x = m x"
  by (induction xs arbitrary: m a) (auto simp: region_Suc)

lemma memcpy_loop_put:
  assumes "region p n \<inter> region src n = {}"
  shows "memcpy_loop m p src n = put_bytes m p (map (\<lambda>i. m (src + of_nat i)) [0..<n])"
  using assms
proof (induction n arbitrary: m p src)
  case (Suc n)
  have "[0..<Suc n] = 0 # map Suc [0..<n]" by (simp add: upt_conv_Cons map_Suc_upt)
  then have split: "map (\<lambda>i. m (src + of_nat i)) [0..<Suc n] = m src # map (\<lambda>i. m (src + 1 + of_nat i)) [0..<n]"
    by (simp add: add.assoc del: upt_Suc)
  have "p \<notin> region (src + 1) n" "region (p + 1) n \<inter> region (src + 1) n = {}" using Suc.prems by (auto simp: region_Suc)
  then have same: "map (\<lambda>i. (m(p := m src)) (src + 1 + of_nat i)) [0..<n] = map (\<lambda>i. m (src + 1 + of_nat i)) [0..<n]"
    by (auto simp: region_def)
  show ?case
    unfolding split memcpy_loop.simps put_bytes.simps Suc.IH [OF \<open>region (p + 1) n \<inter> region (src + 1) n = {}\<close>] same ..
qed simp

lemma upd_mem_cache [simp]:
  "cache_ok v (upd_mem s f) = cache_ok v s" "cache_uses (upd_mem s f) = cache_uses s" "few v k (upd_mem s f) = few v k s"
  "cache_place v (upd_mem s f) = cache_place v s" "inodes (upd_mem s f) = inodes s" "d_mem (upd_mem s f) = f (d_mem s)"
  "buffers (upd_mem s f) = buffers s" "cache_area v (upd_mem s f) = cache_area v s" "held v (upd_mem s f) i = held v s i"
  "cache_rest (upd_mem s f) = upd_mem (cache_rest s) f" "upd_mem (upd_mem s f) g = upd_mem s (\<lambda>m. g (f m))"
proof -
  have u: "cache_uses (upd_mem s f) = cache_uses s" for s :: "'x vfs_scheme" and f by (simp add: upd_mem_def cache_uses_def fun_eq_iff)
  have p: "pooled v (upd_mem s f) idle b = pooled v s idle b" for idle b by (simp add: pooled_def upd_mem_def)
  have l: "free_list (upd_mem s f) = free_list s" "idle_list (upd_mem s f) = idle_list s" "wait_list (upd_mem s f) = wait_list s"
      "hash_table (upd_mem s f) = hash_table s"
    by (simp_all add: fun_eq_iff free_list_def idle_list_def wait_list_def hash_table_def bd_addr_def upd_mem_def)
  have "cache_apart v (upd_mem s f) = cache_apart v s" "cache_lists v (upd_mem s f) idle = cache_lists v s idle" for idle
    by (simp_all add: cache_apart_def cache_lists_def idle_nodes_def desc_get_def l) (simp_all add: upd_mem_def)
  with p show ok: "cache_ok v (upd_mem s f) = cache_ok v s" by (simp add: cache_ok_def)
  show "cache_rest (upd_mem s f) = upd_mem (cache_rest s) f" by (simp add: cache_rest_def upd_mem_def with_k_def)
  show "held v (upd_mem s f) i = held v s i" using ok u [of s f] by (simp add: held_def few_def upd_mem_def)
qed (simp_all add: upd_mem_def cache_uses_def few_def cache_place_def cache_area_def fun_eq_iff cong: option.case_cong)

lemma read16_area: "a \<in> A \<Longrightarrow> a + 1 \<in> A \<Longrightarrow> \<forall>x \<in> A. m' x = m x \<Longrightarrow> read16 m' a = read16 m a"
  by (simp add: read16_def)

lemma region_mem: "i < n \<Longrightarrow> p + of_nat i \<in> region p n"
  by (auto simp: region_def)

lemma indirect_mem:
  assumes "\<forall>x \<in> cache_area v s. m x = d_mem s x" "k < 512"
  shows "indirect v (upd_mem s (\<lambda>_. m)) dev z k = indirect v s dev z k"
proof -
  have "read16 m (bf_data (buffers s b) + 2 * of_nat k) = read16 (d_mem s) (bf_data (buffers s b) + 2 * of_nat k)"
    if "cache_place v s dev (ucast z) = Some b" for b
  proof (rule read16_area [OF _ _ assms(1)])
    have "bf_data (buffers s b) + of_nat (2 * k) \<in> region (bf_data (buffers s b)) 1024"
      "bf_data (buffers s b) + of_nat (2 * k + 1) \<in> region (bf_data (buffers s b)) 1024"
      using assms(2) by (intro region_mem; simp)+
    then show "bf_data (buffers s b) + 2 * of_nat k \<in> cache_area v s" "bf_data (buffers s b) + 2 * of_nat k + 1 \<in> cache_area v s"
      using cache.place_pool [OF that] by (auto simp: cache_area_def algebra_simps)
  qed
  then show ?thesis by (simp add: indirect_def split: option.split)
qed

lemma zone_of_mem:
  assumes "\<forall>x \<in> cache_area v s. m x = d_mem s x" "region (i_desc (inodes s inode)) 32 \<subseteq> cache_area v s"
  shows "zone_of v (upd_mem s (\<lambda>_. m)) inode n = zone_of v s inode n"
proof -
  let ?z = "mi_zone (i_desc (inodes s inode))"
  have slot: "read16 m (?z + of_nat (2 * i)) = read16 (d_mem s) (?z + of_nat (2 * i))" if "i < 9" for i
  proof (rule read16_area [OF _ _ assms(1)])
    have "i_desc (inodes s inode) + of_nat (14 + 2 * i) \<in> region (i_desc (inodes s inode)) 32"
      "i_desc (inodes s inode) + of_nat (15 + 2 * i) \<in> region (i_desc (inodes s inode)) 32"
      using that by (intro region_mem; simp)+
    then show "?z + of_nat (2 * i) \<in> cache_area v s" "?z + of_nat (2 * i) + 1 \<in> cache_area v s"
      using assms(2) by (auto simp: mi_zone_def algebra_simps)
  qed
  have "(n - 519) div 512 < 512" if "n < 262663" using that by simp
  then show ?thesis
    using indirect_mem [OF assms(1)] slot [of n] slot [of 7] slot [of 8] by (simp add: zone_of_def Let_def cong: option.case_cong)
qed

lemma zone_of_rest: "cache_rest s = cache_rest t \<Longrightarrow> zone_of v s = zone_of v t"
  by (intro ext) (simp only: zone_of_def vfs_rest [of s t] indirect_rest [of s t])

text \<open>One round of the reading loop.\<close>

lemma read_step:
  assumes h: "held v t inode" and z: "zone_of v t inode (k div 1024) = Some z" "z \<noteq> 0"
    and b: "cache_place v t (i_dev (inodes t inode)) (ucast z) = Some b" and left: "0 < left" "k + left < 2147483648"
    and c: "c = min (1024 - k mod 1024) left"
  shows "\<exists>t1. read_loop e t inode data (of_nat k) (of_nat left) =
      read_loop e t1 inode (data + of_nat c) (of_nat (k + c)) (of_nat (left - c)) \<and>
    like v (upd_mem t (\<lambda>m. memcpy m data (bf_data (buffers t b) + of_nat (k mod 1024)) (of_nat c))) t1"
proof -
  have dm: "idiv (of_nat k) BLOCK_SIZE = of_nat (k div 1024)" "imod (of_nat k) BLOCK_SIZE = of_nat (k mod 1024)"
    using idiv_of_nat [of k 1024] left by (simp_all add: BLOCK_SIZE_def)
  obtain t1 where t1: "minix_bmap e t inode (of_nat (k div 1024)) False = Some (ucast z, t1)" "like v t t1"
    using minix_bmap_value [OF h z(1)] by blast
  have r1: "cache_rest t1 = cache_rest t" "cache_ok v t1" "cache_uses t1 = cache_uses t" using t1(2) by (auto simp: like_def)
  have pool: "b \<in> cv_pool v" using cache.place_pool [OF b] .
  have sz: "cv_size v = BLOCK_SIZE" "unat (cache_uses t1 b) + 1 < 2147483648"
    using h pool r1(3) by (auto simp: held_def few_def)
  obtain t2 where t2: "get_buf e t1 (i_dev (inodes t1 inode)) (ucast z) = Some (b, t2)" "cache_ok v t2" "cache_rest t2 = cache_rest t1"
      "cache_uses t2 = (cache_uses t1)(b := cache_uses t1 b + 1)"
    using get_buf_hit [OF r1(2) sz(1) _ sz(2)] b vfs_rest [OF r1(1)] by metis
  have "unat (cache_uses t1 b + 1) = unat (cache_uses t1 b) + 1" using sz(2) by (subst unat_plus_small) simp_all
  then have busy: "cache_uses t2 b \<noteq> 0" using t2(4) by auto
  let ?f = "\<lambda>m. memcpy m data (bf_data (buffers t b) + of_nat (k mod 1024)) (of_nat c)"
  obtain t3 where t3: "put_buf e (upd_mem t2 ?f) b = Some t3" "cache_ok v t3" "cache_rest t3 = cache_rest (upd_mem t2 ?f)"
      "cache_uses t3 = (cache_uses t2)(b := cache_uses t2 b - 1)"
    using cache.rl_use [of v "upd_mem t2 ?f" b "fs_dev e"] t2(2) pool busy by (auto simp: put_buf_drop)
  have room: "(1024 :: u32) - of_nat (k mod 1024) = of_nat (1024 - k mod 1024)" by (simp add: less_imp_le of_nat_diff)
  have "unat (of_nat (1024 - k mod 1024) :: u32) = 1024 - k mod 1024" "unat (of_nat left :: u32) = left"
    using left by (intro unat_of_nat_small; simp)+
  then have mn: "min (BLOCK_SIZE - of_nat (k mod 1024)) (of_nat left) = (of_nat c :: u32)"
    unfolding BLOCK_SIZE_def room by (simp only: c min_def word_le_nat_alt split: if_split) simp
  have nz: "ucast z \<noteq> (0 :: u32)" using z(2) by (simp add: word_unat_eq_iff unat_ucast_u32)
  have l0: "of_nat left \<noteq> (0 :: u32)" using left of_nat_u32_eq [of left 0] by simp
  have dat: "bf_data (buffers t2 b) = bf_data (buffers t b)" using vfs_rest(5) [OF t2(3)] vfs_rest(5) [OF r1(1)] by simp
  have "c \<le> left" by (simp add: c)
  then have "read_loop e t inode data (of_nat k) (of_nat left) =
      read_loop e t3 inode (data + of_nat c) (of_nat (k + c)) (of_nat (left - c))"
    using l0 t1(1) t2(1) t3(1) nz dat by (subst read_loop.simps) (simp add: dm mn Let_def)
  moreover have "like v (upd_mem t ?f) t3"
    using t2(3,4) t3(2,3,4) r1 by (auto simp: like_def)
  ultimately show ?thesis by blast
qed

lemma region_shift: "a + b \<le> n \<Longrightarrow> region (p + of_nat a) b \<subseteq> region p n"
  by (auto simp: region_def add.assoc simp flip: of_nat_add intro!: imageI)

lemma read_loop_value:
  assumes h: "held v s inode" and desc: "region (i_desc (inodes s inode)) 32 \<subseteq> cache_area v s"
    and "region data left \<inter> cache_area v s = {}" and "\<forall>j < left. file_addr v s inode (k + j) \<noteq> None" and "k + left < 2147483648"
    and "like v (upd_mem s (\<lambda>_. m)) t" and "\<forall>x \<in> cache_area v s. m x = d_mem s x"
  shows "\<exists>t1. read_loop e t inode data (of_nat k) (of_nat left) = Some (of_nat (k + left), t1) \<and>
    like v (upd_mem s (\<lambda>_. put_bytes m data (map (file_byte v s inode) [k..<k + left]))) t1"
  using assms(3-)
proof (induction left arbitrary: k data m t rule: less_induct)
  case (less left)
  show ?case
  proof (cases "left = 0")
    case True
    then show ?thesis using less.prems(4) by (subst read_loop.simps) simp
  next
    case False
    let ?dev = "i_dev (inodes s inode)"
    from less.prems(2) False have "file_addr v s inode k \<noteq> None" by (metis add_0_right gr0I)
    then obtain z b where z: "zone_of v s inode (k div 1024) = Some z" "z \<noteq> 0" and b: "cache_place v s ?dev (ucast z) = Some b"
      by (auto simp: file_addr_def split: option.splits if_splits)
    define c where "c = min (1024 - k mod 1024) left"
    have c: "0 < c" "c \<le> left" "k mod 1024 + c \<le> 1024" using False by (simp_all add: c_def)
    have r: "cache_rest t = cache_rest (upd_mem s (\<lambda>_. m))" using less.prems(4) by (simp add: like_def)
    have ht: "held v t inode" using held_like [OF _ less.prems(4)] h by simp
    have zt: "zone_of v t inode (k div 1024) = Some z"
      using zone_of_rest [OF r] zone_of_mem [OF less.prems(5) desc] z(1) by simp
    have bt: "cache_place v t (i_dev (inodes t inode)) (ucast z) = Some b" using b vfs_rest [OF r] by simp
    have dt: "bf_data (buffers t b) = bf_data (buffers s b)" "d_mem t = m" using vfs_rest [OF r] by simp_all
    define ptr where "ptr = bf_data (buffers s b) + of_nat (k mod 1024)"
    obtain t1 where t1: "read_loop e t inode data (of_nat k) (of_nat left) =
        read_loop e t1 inode (data + of_nat c) (of_nat (k + c)) (of_nat (left - c))"
        "like v (upd_mem t (\<lambda>m. memcpy m data ptr (of_nat c))) t1"
      using read_step [OF ht zt z(2) bt _ less.prems(3) c_def, of e data] False by (auto simp: dt ptr_def)
    have area: "region ptr c \<subseteq> cache_area v s"
      using region_shift [OF c(3)] cache.place_pool [OF b] by (fastforce simp: ptr_def cache_area_def)
    have sub: "region data c \<subseteq> region data left" "region (data + of_nat c) (left - c) \<subseteq> region data left"
      using region_shift [of 0 c left data] region_shift [of c "left - c" left data] c(2) by simp_all
    have "region data c \<inter> region ptr c = {}" using area sub(1) less.prems(1) by blast
    moreover have uc: "unat (of_nat c :: u32) = c" using c(2) less.prems(3) by (intro unat_of_nat_small) simp
    ultimately have copy: "memcpy m data ptr (of_nat c) = put_bytes m data (map (\<lambda>i. m (ptr + of_nat i)) [0..<c])"
      by (simp add: memcpy_def memcpy_loop_put)
    have byte: "m (ptr + of_nat i) = file_byte v s inode (k + i)" if "i < c" for i
    proof -
      have lt: "k mod 1024 + i < 1024" "i < 1024" using that c(3) by simp_all
      then have "(k + i) div 1024 = k div 1024" by (simp add: div_add1_eq [of k i 1024])
      moreover have "(k + i) mod 1024 = k mod 1024 + i" using lt mod_add_eq [of k 1024 i, symmetric] by simp
      ultimately have "file_byte v s inode (k + i) = d_mem s (ptr + of_nat i)"
        using z b by (simp add: file_byte_def file_addr_def ptr_def add.assoc)
      then show ?thesis using less.prems(5) area region_mem [OF that, of ptr] by auto
    qed
    have bytes: "map (\<lambda>i. m (ptr + of_nat i)) [0..<c] = map (file_byte v s inode) [k..<k + c]"
      using byte by (intro nth_equalityI) simp_all
    define m1 where "m1 = put_bytes m data (map (file_byte v s inode) [k..<k + c])"
    have like1: "like v (upd_mem s (\<lambda>_. m1)) t1"
      using t1(2) less.prems(4) copy bytes by (simp add: like_def m1_def)
    have keep: "\<forall>x \<in> cache_area v s. m1 x = d_mem s x"
    proof
      fix x
      assume x: "x \<in> cache_area v s"
      then have "x \<notin> region data c" using less.prems(1) sub(1) by blast
      then show "m1 x = d_mem s x" using less.prems(5) x unfolding m1_def by (subst put_bytes_outside) simp_all
    qed
    have "\<forall>j < left - c. file_addr v s inode (k + c + j) \<noteq> None" using less.prems(2) by (simp add: add.assoc)
    from less.IH [OF _ _ this _ like1 keep, of "data + of_nat c"] obtain t2 where
      "read_loop e t1 inode (data + of_nat c) (of_nat (k + c)) (of_nat (left - c)) = Some (of_nat (k + c + (left - c)), t2)"
      "like v (upd_mem s (\<lambda>_. put_bytes m1 (data + of_nat c) (map (file_byte v s inode) [k + c..<k + c + (left - c)]))) t2"
      using c less.prems(1,3) sub(2) by (auto simp: False)
    moreover have "put_bytes m1 (data + of_nat c) (map (file_byte v s inode) [k + c..<k + c + (left - c)]) =
        put_bytes m data (map (file_byte v s inode) [k..<k + left])"
    proof -
      have "[k..<k + left] = [k..<k + c] @ [k + c..<k + c + (left - c)]" using c(2) upt_add_eq_append [of k "k + c" "left - c"] by simp
      then show ?thesis using put_bytes_append [of m data "map (file_byte v s inode) [k..<k + c]"] by (simp add: m1_def)
    qed
    ultimately show ?thesis using t1(1) c(2) by auto
  qed
qed

lemma upd_inode_cache [simp]:
  "cache_ok v (upd_inode s i f) = cache_ok v s" "cache_uses (upd_inode s i f) = cache_uses s" "d_mem (upd_inode s i f) = d_mem s"
proof -
  have l: "free_list (upd_inode s i f) = free_list s" "idle_list (upd_inode s i f) = idle_list s" "wait_list (upd_inode s i f) = wait_list s"
      "hash_table (upd_inode s i f) = hash_table s"
    by (simp_all add: fun_eq_iff free_list_def idle_list_def wait_list_def hash_table_def bd_addr_def upd_inode_def)
  have "pooled v (upd_inode s i f) idle b = pooled v s idle b" for idle b by (simp add: pooled_def upd_inode_def)
  moreover have "cache_apart v (upd_inode s i f) = cache_apart v s" "cache_lists v (upd_inode s i f) idle = cache_lists v s idle" for idle
    by (simp_all add: cache_apart_def cache_lists_def idle_nodes_def desc_get_def l) (simp_all add: upd_inode_def)
  ultimately show "cache_ok v (upd_inode s i f) = cache_ok v s" by (simp add: cache_ok_def)
qed (simp_all add: upd_inode_def cache_uses_def fun_eq_iff)

definition file_size :: "'x vfs_scheme \<Rightarrow> u32 \<Rightarrow> nat" where
  "file_size s inode = unat (mi_size (d_mem s) (i_desc (inodes s inode)))"

definition file_bytes :: "cview \<Rightarrow> 'x vfs_scheme \<Rightarrow> u32 \<Rightarrow> u8 list" where
  "file_bytes v s inode = map (file_byte v s inode) [0..<file_size s inode]"

text \<open>A file whose blocks are all there and cached, with its descriptor in one of the cached blocks.\<close>

definition cached_file :: "cview \<Rightarrow> 'x vfs_scheme \<Rightarrow> u32 \<Rightarrow> bool" where
  "cached_file v s inode \<longleftrightarrow> held v s inode \<and> region (i_desc (inodes s inode)) 32 \<subseteq> cache_area v s \<and>
     (\<forall>k < file_size s inode. file_addr v s inode k \<noteq> None)"

lemma cached_file_small:
  assumes "cached_file v s inode"
  shows "file_size s inode < 2147483648"
proof (cases "file_size s inode")
  case (Suc k)
  then have "zone_of v s inode (k div 1024) \<noteq> None" using assms by (auto simp: cached_file_def file_addr_def split: option.splits)
  then have "k div 1024 < 262663" by (auto simp: zone_of_def Let_def split: if_splits)
  then show ?thesis using Suc by linarith
qed simp

lemma take_drop_map_upt: "take n (drop k (map f [0..<m])) = map f [k..<min m (k + n)]"
  by (cases "k + n \<le> m") (simp_all add: take_map drop_map min_def take_upt)

text \<open>
  C16. What \<^verbatim>\<open>minix_read\<close> delivers. The file is the list of its bytes, found through the direct, indirect
  and doubly indirect zones. Reading \<open>len\<close> bytes at an offset inside the file puts the bytes from there on,
  at most \<open>len\<close> and at most up to the end, at the place given and returns their number, across block
  borders too; at or behind the end the result is \<open>EOF\<close>. The cached blocks are unchanged and no reference
  is lost.
\<close>

theorem minix_read_contents:
  assumes fl: "cached_file v s inode" and mode: "ISFILE (mi_mode (d_mem s) (i_desc (inodes s inode)))"
    and out: "out = take (unat len) (drop (unat offset) (file_bytes v s inode))"
    and apart: "region data (length out) \<inter> cache_area v s = {}"
  shows "if unat offset < file_size s inode
    then \<exists>t. minix_read e s inode data len offset = Some (of_nat (length out), t) \<and>
      d_mem t = put_bytes (d_mem s) data out \<and> cache_ok v t \<and> cache_uses t = cache_uses s
    else minix_read e s inode data len offset = Some (EOF, s)"
proof -
  let ?sz = "mi_size (d_mem s) (i_desc (inodes s inode))" and ?k = "unat offset" and ?n = "length out"
  have kinds: "\<not> ISCHR (mi_mode (d_mem s) (i_desc (inodes s inode)))" "\<not> ISBLK (mi_mode (d_mem s) (i_desc (inodes s inode)))"
    using mode by (auto simp: ISFILE_def ISCHR_def ISBLK_def IFREG_def IFCHR_def IFBLK_def)
  show ?thesis
  proof (cases "?k < file_size s inode")
    case False
    then show ?thesis using kinds mode by (simp add: minix_read_def Let_def file_size_def word_le_nat_alt not_less)
  next
    case True
    have small: "file_size s inode < 2147483648" using cached_file_small [OF fl] .
    define w where "w = min (file_size s inode) (?k + unat len)"
    have w: "out = map (file_byte v s inode) [?k..<w]"
      unfolding out file_bytes_def w_def by (rule take_drop_map_upt)
    then have "?k + ?n = w" using True by (simp add: w_def)
    then have o: "out = map (file_byte v s inode) [?k..<?k + ?n]" using w by (simp only:)
    have n: "?n = min (unat len) (file_size s inode - ?k)" by (simp add: out file_bytes_def min.commute)
    have le: "?k + ?n \<le> file_size s inode" using n True by simp
    have "unat (?sz - offset) = file_size s inode - ?k"
      using True by (subst unat_minus_le) (simp_all add: file_size_def word_le_nat_alt)
    then have "unat (min len (?sz - offset)) = ?n" unfolding n by (simp add: min_def word_le_nat_alt)
    then have "of_nat (unat (min len (?sz - offset))) = (of_nat ?n :: u32)" by (rule arg_cong)
    moreover have "of_nat (unat w) = w" for w :: u32 by simp
    ultimately have left: "min len (?sz - offset) = of_nat ?n" by metis
    have "like v (upd_mem s (\<lambda>_. d_mem s)) s" using fl by (simp add: like_def cached_file_def held_def upd_mem_def)
    from read_loop_value [OF _ _ apart _ _ this, of inode ?k e] obtain t where
      t: "read_loop e s inode data (of_nat ?k) (of_nat ?n) = Some (of_nat (?k + ?n), t)"
        "like v (upd_mem s (\<lambda>_. put_bytes (d_mem s) data (map (file_byte v s inode) [?k..<?k + ?n]))) t"
      using fl le small by (auto simp: cached_file_def)
    let ?t = "upd_inode t inode (\<lambda>i. i\<lparr>i_atime := now e t\<rparr>)"
    have "minix_read e s inode data len offset = Some (of_nat ?n, ?t)"
      using t(1) kinds mode True left by (simp add: minix_read_def Let_def file_size_def word_le_nat_alt not_le)
    moreover have "d_mem ?t = put_bytes (d_mem s) data out"
      using t(2) vfs_rest(4) [of t "upd_mem s (\<lambda>_. put_bytes (d_mem s) data out)"] o by (simp add: like_def upd_inode_def)
    moreover have "cache_ok v ?t" "cache_uses ?t = cache_uses s" using t(2) by (simp_all add: like_def)
    ultimately show ?thesis using True by auto
  qed
qed

subsection \<open>Looking up a name\<close>

definition taken :: "cview \<Rightarrow> 'x vfs_scheme \<Rightarrow> u32 \<Rightarrow> 'x vfs_scheme \<Rightarrow> bool" where
  "taken v s b t \<longleftrightarrow> b \<in> cv_pool v \<and> cache_ok v t \<and> cache_rest t = cache_rest s \<and> cache_uses t = (cache_uses s)(b := cache_uses s b + 1)"

definition dirent_at :: "cview \<Rightarrow> 'x vfs_scheme \<Rightarrow> u32 \<Rightarrow> nat \<Rightarrow> u32" where
  "dirent_at v s dirino i = the (file_addr v s dirino (16 * i))"

definition dirent_count :: "'x vfs_scheme \<Rightarrow> u32 \<Rightarrow> nat" where
  "dirent_count s dirino = file_size s dirino div 16"

text \<open>No block lies at the very end of the address space.\<close>

definition low_blocks :: "cview \<Rightarrow> 'x vfs_scheme \<Rightarrow> bool" where
  "low_blocks v s \<longleftrightarrow> (\<forall>b \<in> cv_pool v. unat (bf_data (buffers s b)) + 1024 < 4294967296)"

text \<open>Where the loops over a directory stand before entry \<open>i\<close>.\<close>

definition dir_pos :: "cview \<Rightarrow> 'x vfs_scheme \<Rightarrow> u32 \<Rightarrow> nat \<Rightarrow> u32 \<Rightarrow> u32 \<Rightarrow> 'x vfs_scheme \<Rightarrow> bool" where
  "dir_pos v s dirino i buf entry t \<longleftrightarrow>
     buf = NULL \<and> i = 0 \<and> like v s t \<or>
     0 < i \<and> buf \<noteq> NULL \<and> taken v s buf t \<and> entry = bf_data (buffers s buf) + of_nat (16 * ((i - 1) mod 64) + 16) \<and>
       (\<exists>z. zone_of v s dirino ((i - 1) div 64) = Some z \<and> cache_place v s (i_dev (inodes s dirino)) (ucast z) = Some buf)"

lemma put_taken: "taken v s b t \<Longrightarrow> few v 1 s \<Longrightarrow> \<exists>t1. put_buf e t b = Some t1 \<and> like v s t1"
proof -
  assume t: "taken v s b t" and few: "few v 1 s"
  then have "unat (cache_uses s b + 1) = unat (cache_uses s b) + 1" by (subst unat_plus_small) (auto simp: taken_def few_def)
  then have "cache_uses t b \<noteq> 0" using t by (auto simp: taken_def)
  with cache.rl_use [of v t b "fs_dev e"] t show ?thesis by (auto simp: put_buf_drop taken_def like_def)
qed

lemma block_of_entry: "(16 * i) div 1024 = i div 64" "(16 * i) mod 1024 = 16 * (i mod 64)" for i :: nat
  using div_mult_mult1 [of 16 i 64] mult_mod_right [of 16 i 64] by simp_all

lemma dirent_place:
  assumes "cached_file v s dirino" "i < dirent_count s dirino"
  shows "\<exists>z b. zone_of v s dirino (i div 64) = Some z \<and> z \<noteq> 0 \<and> cache_place v s (i_dev (inodes s dirino)) (ucast z) = Some b \<and>
    dirent_at v s dirino i = bf_data (buffers s b) + of_nat (16 * (i mod 64))"
proof -
  have "16 * i < file_size s dirino" using assms(2) by (simp add: dirent_count_def)
  then have "file_addr v s dirino (16 * i) \<noteq> None" using assms(1) by (auto simp: cached_file_def)
  then show ?thesis by (auto simp: dirent_at_def file_addr_def block_of_entry split: option.splits if_splits)
qed

lemma dir_block_step:
  assumes fl: "cached_file v s dirino" "low_blocks v s" and i: "i < dirent_count s dirino" and pos: "dir_pos v s dirino i buf entry t"
  shows "\<exists>b t1. dir_block e t dirino (of_nat i) buf entry False = Some (b, dirent_at v s dirino i, t1) \<and>
    dir_pos v s dirino (Suc i) b (dirent_at v s dirino i + 16) t1"
proof -
  have h: "held v s dirino" using fl by (simp add: cached_file_def)
  then have few: "few v 4 s" "cv_size v = BLOCK_SIZE" by (auto simp: held_def)
  obtain z b where z: "zone_of v s dirino (i div 64) = Some z" "z \<noteq> 0"
      and b: "cache_place v s (i_dev (inodes s dirino)) (ucast z) = Some b"
      and at: "dirent_at v s dirino i = bf_data (buffers s b) + of_nat (16 * (i mod 64))"
    using dirent_place [OF fl(1) i] by blast
  have pool: "b \<in> cv_pool v" using cache.place_pool [OF b] .
  have nn: "b \<noteq> NULL" using h pool rnode_apart [of v s b] by (auto simp: held_def cache_ok_def)
  have next_pos: "dir_pos v s dirino (Suc i) b (dirent_at v s dirino i + 16) t1" if "taken v s b t1" for t1
    using that nn z b at by (auto simp: dir_pos_def add.assoc)
  have new_block: "\<exists>t1. do { (bno, s) \<leftarrow> minix_bmap e t0 dirino (of_nat i div BLOCK_DENTRIES) False; kassert (bno \<noteq> 0);
        (buf, s) \<leftarrow> get_buf e s (i_dev (inodes s dirino)) bno; Some (buf, bf_data (buffers s buf), s) } =
      Some (b, bf_data (buffers s b), t1) \<and> taken v s b t1" if t0: "like v s t0" for t0
  proof -
    have rt: "cache_rest t0 = cache_rest s" using t0 by (simp add: like_def)
    have "i < 4294967296" using i cached_file_small [OF fl(1)] by (simp add: dirent_count_def)
    then have dv: "(of_nat i :: u32) div BLOCK_DENTRIES = of_nat (i div 64)"
      by (simp add: BLOCK_DENTRIES_def word_unat_eq_iff unat_div unat_of_nat_small)
    obtain t1 where t1: "minix_bmap e t0 dirino (of_nat (i div 64)) False = Some (ucast z, t1)" "like v t0 t1"
      using minix_bmap_value [OF held_like [OF h t0]] z(1) zone_of_rest [OF rt] by metis
    have r1: "cache_rest t1 = cache_rest s" "cache_ok v t1" "cache_uses t1 = cache_uses s" using t1(2) t0 by (auto simp: like_def)
    have "unat (cache_uses t1 b) + 1 < 2147483648" using few(1) pool r1(3) by (auto simp: few_def)
    then obtain t2 where t2: "get_buf e t1 (i_dev (inodes t1 dirino)) (ucast z) = Some (b, t2)" "cache_ok v t2" "cache_rest t2 = cache_rest t1"
        "cache_uses t2 = (cache_uses t1)(b := cache_uses t1 b + 1)"
      using get_buf_hit [OF r1(2) few(2)] b vfs_rest [OF r1(1)] by metis
    have "ucast z \<noteq> (0 :: u32)" using z(2) by (simp add: word_unat_eq_iff unat_ucast_u32)
    moreover have "bf_data (buffers t2 b) = bf_data (buffers s b)" using vfs_rest(5) [OF t2(3)] vfs_rest(5) [OF r1(1)] by simp
    moreover have "taken v s b t2" using t2 r1 pool by (simp add: taken_def)
    ultimately show ?thesis using t1(1) t2(1) dv by auto
  qed
  show ?thesis
  proof (cases "i mod 64 = 0")
    case True
    then have at0: "dirent_at v s dirino i = bf_data (buffers s b)" using at by simp
    have "\<exists>t0. put_buf e t buf = Some t0 \<and> like v s t0 \<and> (buf = NULL \<or> entry \<ge> bf_data (buffers t buf) + BLOCK_SIZE)"
    proof (cases "i = 0")
      case True
      then show ?thesis using pos by (auto simp: dir_pos_def put_buf_def brelse_def)
    next
      case False
      then obtain j where "i = Suc j" by (cases i) auto
      then have "(i - 1) mod 64 = 63" using True by (auto simp: mod_Suc split: if_splits)
      then have "entry = bf_data (buffers s buf) + BLOCK_SIZE" "taken v s buf t" using pos False by (auto simp: dir_pos_def BLOCK_SIZE_def)
      moreover have "few v 1 s" using few(1) by (auto simp: few_def)
      ultimately show ?thesis using put_taken [of v s buf t e] vfs_rest(5) [of t s] by (auto simp: taken_def)
    qed
    then obtain t0 where t0: "put_buf e t buf = Some t0" "like v s t0" "buf = NULL \<or> entry \<ge> bf_data (buffers t buf) + BLOCK_SIZE" by blast
    then have "dir_block e t dirino (of_nat i) buf entry False = do { (bno, s) \<leftarrow> minix_bmap e t0 dirino (of_nat i div BLOCK_DENTRIES) False;
        kassert (bno \<noteq> 0); (buf, s) \<leftarrow> get_buf e s (i_dev (inodes s dirino)) bno; Some (buf, bf_data (buffers s buf), s) }"
      by (simp add: dir_block_def)
    moreover obtain t1 where "do { (bno, s) \<leftarrow> minix_bmap e t0 dirino (of_nat i div BLOCK_DENTRIES) False; kassert (bno \<noteq> 0);
        (buf, s) \<leftarrow> get_buf e s (i_dev (inodes s dirino)) bno; Some (buf, bf_data (buffers s buf), s) } =
        Some (b, bf_data (buffers s b), t1)" "taken v s b t1"
      using new_block [OF t0(2)] by blast
    ultimately show ?thesis using next_pos unfolding at0 by (intro exI [of _ b] exI [of _ t1]) simp
  next
    case False
    then have pos': "0 < i" "buf \<noteq> NULL" "taken v s buf t" "entry = bf_data (buffers s buf) + of_nat (16 * ((i - 1) mod 64) + 16)"
        and same: "\<exists>z. zone_of v s dirino ((i - 1) div 64) = Some z \<and> cache_place v s (i_dev (inodes s dirino)) (ucast z) = Some buf"
      using pos by (auto simp: dir_pos_def)
    obtain j where j: "i = Suc j" using pos'(1) by (cases i) auto
    have "j mod 64 \<noteq> 63" using False j by (auto simp: mod_Suc)
    then have q: "(i - 1) div 64 = i div 64" "(i - 1) mod 64 + 1 = i mod 64" using j by (auto simp: div_Suc mod_Suc)
    then have b': "buf = b" using same z b by auto
    have "16 * ((i - 1) mod 64) + 16 = 16 * (i mod 64)" using q(2) by simp
    then have en: "entry = dirent_at v s dirino i" using pos'(4) at b' by simp
    have "16 * (i mod 64) < 1024" by simp
    moreover have "unat (bf_data (buffers s b)) + 1024 < 4294967296" using fl(2) pool by (auto simp: low_blocks_def)
    moreover have "unat (of_nat (16 * (i mod 64)) :: u32) = 16 * (i mod 64)" by (rule unat_of_nat_small) simp
    ultimately have "unat entry = unat (bf_data (buffers s b)) + 16 * (i mod 64)" "unat (bf_data (buffers s b) + 1024) = unat (bf_data (buffers s b)) + 1024"
      using unat_plus_small [of "bf_data (buffers s b)" "of_nat (16 * (i mod 64))"] unat_plus_small [of "bf_data (buffers s b)" 1024]
      unfolding en at by simp_all
    then have "\<not> entry \<ge> bf_data (buffers s b) + BLOCK_SIZE" by (simp add: word_le_nat_alt BLOCK_SIZE_def)
    moreover have "bf_data (buffers t buf) = bf_data (buffers s b)" using vfs_rest(5) [of t s] pos'(3) b' by (simp add: taken_def)
    ultimately have "dir_block e t dirino (of_nat i) buf entry False = Some (b, dirent_at v s dirino i, t)"
      using pos'(2) b' en by (simp add: dir_block_def)
    then show ?thesis using next_pos pos'(3) b' by blast
  qed
qed

text \<open>A directory as the list of its used entries: the name before the first NUL and the address of the entry.\<close>

definition dirent_name :: "mem \<Rightarrow> u32 \<Rightarrow> u8 list" where
  "dirent_name m p = field_name (entry_name m p) 0 14"

definition dir_listing_from :: "cview \<Rightarrow> 'x vfs_scheme \<Rightarrow> u32 \<Rightarrow> nat \<Rightarrow> (u8 list \<times> u32) list" where
  "dir_listing_from v s dirino i = map (\<lambda>p. (dirent_name (d_mem s) p, p))
     (filter (\<lambda>p. md_nr (d_mem s) p \<noteq> 0) (map (dirent_at v s dirino) [i..<dirent_count s dirino]))"

definition dir_listing :: "cview \<Rightarrow> 'x vfs_scheme \<Rightarrow> u32 \<Rightarrow> (u8 list \<times> u32) list" where
  "dir_listing v s dirino = dir_listing_from v s dirino 0"

lemma dir_listing_from_Suc:
  assumes "i < dirent_count s dirino"
  shows "dir_listing_from v s dirino i = (let p = dirent_at v s dirino i in
    (if md_nr (d_mem s) p \<noteq> 0 then [(dirent_name (d_mem s) p, p)] else []) @ dir_listing_from v s dirino (Suc i))"
  using assms by (simp add: dir_listing_from_def upt_conv_Cons Let_def)

text \<open>The bytes of the path at \<open>name\<close> are the component \<open>part\<close>, ended by \<open>c\<close>.\<close>

definition component_at :: "mem \<Rightarrow> u32 \<Rightarrow> u8 list \<Rightarrow> u8 \<Rightarrow> bool" where
  "component_at m name part c \<longleftrightarrow> block m name (part @ [c]) \<and> name_bytes part \<and> (c = 0 \<or> IS_SEPARATOR c)"

definition behind :: "u32 \<Rightarrow> u8 list \<Rightarrow> u8 \<Rightarrow> u32" where
  "behind name part c = name + of_nat (length part) + (if c = 0 then 0 else 1)"

text \<open>
  What \<^verbatim>\<open>match_name\<close> takes for the component: an entry of that name, unless the name fills its field and
  the path goes on with a separator that happens to be the byte behind the field.
\<close>

definition selects :: "mem \<Rightarrow> u8 list \<Rightarrow> u8 \<Rightarrow> u8 list \<times> u32 \<Rightarrow> bool" where
  "selects m part c = (\<lambda>(nm, p). nm = part \<and> (length nm = 14 \<longrightarrow> c = 0 \<or> entry_name m p 14 \<noteq> c))"

lemma match_dirent:
  assumes "component_at m name part c" and "name_bytes (dirent_name m p)"
  shows "match_name m name (entry_name m p) (unat MINIX1_NAME_LEN) =
    (if selects m part c (dirent_name m p, p) then Some (behind name part c) else None)"
  using match_loop_end [of m name part c "entry_name m p" 0 14] assms
  by (auto simp: component_at_def name_bytes_def selects_def dirent_name_def match_name_def match_end_def behind_def MINIX1_NAME_LEN_def)

lemma find_entry_loop_value:
  assumes fl: "cached_file v s dirino" "low_blocks v s" and part: "component_at (d_mem s) name part c"
    and good: "\<forall>(n, p) \<in> set (dir_listing_from v s dirino i). name_bytes n"
    and "i \<le> dirent_count s dirino" and "dir_pos v s dirino i buf entry t"
  shows "case find (selects (d_mem s) part c) (dir_listing_from v s dirino i) of
      None \<Rightarrow> \<exists>nxt' t'. find_entry_loop e t dirino name nxt (of_nat (dirent_count s dirino)) (of_nat i) buf entry = Some (NULL, nxt', NULL, t') \<and> like v s t'
    | Some (nm, p) \<Rightarrow> \<exists>b t'. find_entry_loop e t dirino name nxt (of_nat (dirent_count s dirino)) (of_nat i) buf entry = Some (b, behind name part c, p, t') \<and>
        b \<noteq> NULL \<and> taken v s b t'"
  using assms(4-)
proof (induction "dirent_count s dirino - i" arbitrary: i buf entry t nxt)
  case 0
  then have i: "i = dirent_count s dirino" by simp
  have "few v 1 s" using fl(1) by (auto simp: cached_file_def held_def few_def)
  then have "\<exists>t'. put_buf e t buf = Some t' \<and> like v s t'"
    using 0(4) put_taken [of v s buf t e] by (auto simp: dir_pos_def put_buf_def brelse_def)
  then show ?case by (subst find_entry_loop.simps) (auto simp: i dir_listing_from_def)
next
  case (Suc k)
  let ?n = "dirent_count s dirino" and ?p = "dirent_at v s dirino i"
  have i: "i < ?n" using Suc.hyps(2) by simp
  have "?n < 134217728" using cached_file_small [OF fl(1)] by (simp add: dirent_count_def)
  then have less: "(of_nat i :: u32) < of_nat ?n" using i by (simp add: word_less_nat_alt unat_of_nat_small)
  obtain b t1 where t1: "dir_block e t dirino (of_nat i) buf entry False = Some (b, ?p, t1)" "dir_pos v s dirino (Suc i) b (?p + 16) t1"
    using dir_block_step [OF fl i Suc.prems(3)] by blast
  have tk: "b \<noteq> NULL" "taken v s b t1" using t1(2) by (auto simp: dir_pos_def)
  have m: "d_mem t1 = d_mem s" using vfs_rest(4) [of t1 s] tk(2) by (simp add: taken_def)
  have step: "find_entry_loop e t dirino name nxt (of_nat ?n) (of_nat i) buf entry =
      (let hit = match_name (d_mem s) name (entry_name (d_mem s) ?p) (unat MINIX1_NAME_LEN); nxt = (case hit of None \<Rightarrow> nxt | Some n \<Rightarrow> n) in
       if hit \<noteq> None \<and> md_nr (d_mem s) ?p \<noteq> 0 then Some (b, nxt, ?p, t1)
       else find_entry_loop e t1 dirino name nxt (of_nat ?n) (of_nat (Suc i)) b (?p + 16))" for nxt
    using less by (subst find_entry_loop.simps) (simp add: t1(1) m Let_def add.commute)
  note list = dir_listing_from_Suc [OF i, of v]
  have rest: "\<forall>(n, p) \<in> set (dir_listing_from v s dirino (Suc i)). name_bytes n" using Suc.prems(1) unfolding list by (auto simp: Let_def)
  note IH = Suc.hyps(1) [OF _ rest _ t1(2)]
  show ?case
  proof (cases "md_nr (d_mem s) ?p \<noteq> 0 \<and> selects (d_mem s) part c (dirent_name (d_mem s) ?p, ?p)")
    case True
    then have "match_name (d_mem s) name (entry_name (d_mem s) ?p) (unat MINIX1_NAME_LEN) = Some (behind name part c)"
      using match_dirent [OF part, of ?p] Suc.prems(1) unfolding list by (simp add: Let_def)
    then show ?thesis using True tk unfolding step list by (simp add: Let_def)
  next
    case False
    then have "md_nr (d_mem s) ?p \<noteq> 0 \<Longrightarrow> match_name (d_mem s) name (entry_name (d_mem s) ?p) (unat MINIX1_NAME_LEN) = None"
      using match_dirent [OF part, of ?p] Suc.prems(1) unfolding list by (simp add: Let_def)
    moreover have same: "find (selects (d_mem s) part c) (dir_listing_from v s dirino i) = find (selects (d_mem s) part c) (dir_listing_from v s dirino (Suc i))"
      using False unfolding list by (auto simp: Let_def)
    moreover define nxt' where
      "nxt' = (case match_name (d_mem s) name (entry_name (d_mem s) ?p) (unat MINIX1_NAME_LEN) of None \<Rightarrow> nxt | Some n \<Rightarrow> n)"
    ultimately have eq: "find_entry_loop e t dirino name nxt (of_nat ?n) (of_nat i) buf entry =
        find_entry_loop e t1 dirino name nxt' (of_nat ?n) (of_nat (Suc i)) b (?p + 16)"
      unfolding step Let_def by (cases "md_nr (d_mem s) ?p = 0") simp_all
    have "k = ?n - Suc i" "Suc i \<le> ?n" using Suc.hyps(2) i by simp_all
    from IH [OF this, of nxt'] show ?thesis unfolding eq same .
  qed
qed

text \<open>
  C19. Looking up a name. A directory whose blocks are cached, and whose names hold no separator, is the list
  of its used entries with their names (names that fill the 14 bytes of their field included). \<^verbatim>\<open>find_entry\<close> on
  the first component of a path agrees with looking the component up in that list: it returns the first entry
  of that name, with a reference on the buffer that holds the entry and \<^verbatim>\<open>*next\<close> behind the component, or NULL
  without a reference when no used entry has the name, and changes nothing else. The one exception is that of
  \<^verbatim>\<open>match_name\<close>: an entry whose name fills the field is passed over when the component is followed by a
  separator and the byte behind the field (the number of the next entry) is that separator.
\<close>

theorem find_entry_correct:
  assumes "cached_file v s dirino" and "low_blocks v s" and "ISDIR (mi_mode (d_mem s) (i_desc (inodes s dirino)))"
    and "component_at (d_mem s) name part c" and "\<forall>(n, p) \<in> set (dir_listing v s dirino). name_bytes n"
  shows "case find (selects (d_mem s) part c) (dir_listing v s dirino) of
      None \<Rightarrow> \<exists>nxt' t. find_entry e s dirino name nxt = Some (NULL, nxt', NULL, t) \<and> like v s t
    | Some (nm, p) \<Rightarrow> \<exists>b t. find_entry e s dirino name nxt = Some (b, behind name part c, p, t) \<and> b \<noteq> NULL \<and> taken v s b t"
proof -
  let ?sz = "mi_size (d_mem s) (i_desc (inodes s dirino))"
  have "?sz div 16 = of_nat (dirent_count s dirino)"
    using cached_file_small [OF assms(1)] by (simp add: word_unat_eq_iff unat_div dirent_count_def file_size_def unat_of_nat_small)
  then have loop: "find_entry e s dirino name nxt = find_entry_loop e s dirino name nxt (of_nat (dirent_count s dirino)) (of_nat 0) NULL NULL"
    using assms(3) by (simp add: find_entry_def Let_def)
  have "dir_pos v s dirino 0 NULL NULL s" using assms(1) by (simp add: dir_pos_def like_def cached_file_def held_def)
  then show ?thesis
    using find_entry_loop_value [OF assms(1,2,4)] assms(5) unfolding loop dir_listing_def by blast
qed

subsection \<open>A sample disk\<close>

text \<open>A file of three bytes in block 5 of device 1; the block of the inode is held, block 5 is idle.\<close>

definition sample_links :: list_heap where
  "sample_links = \<lparr>node_prev = (\<lambda>_. 0)(0x514 := 0x8078, 0x8080 := 0x514, 0x51c := 0x8018, 0x8020 := 0x51c, 0x8030 := 0x8028),
     node_next = (\<lambda>_. 0)(0x8078 := 0x514, 0x514 := 0x8080, 0x8018 := 0x51c, 0x51c := 0x8020, 0x8028 := 0x8030)\<rparr>"

definition sample_buffer :: "u32 \<Rightarrow> u32 \<Rightarrow> u32 \<Rightarrow> buffer_t" where
  "sample_buffer data bno cnt = \<lparr>bf_data = data, bf_desc = 0, bf_dev = 1, bf_block = bno, bf_count = cnt, bf_dirty = False, bf_valid = True\<rparr>"

definition sample_disk :: "mem \<Rightarrow> vfs" where
  "sample_disk m = sample_vfs\<lparr>d_ls := (d_ls sample_vfs)\<lparr>ls_k := with_heap (d_k sample_vfs) sample_links\<rparr>, d_mem := m,
     buffers := (\<lambda>_. sample_buffer 0 0 0)(0x400 := sample_buffer 0x10000 4 1, 0x500 := sample_buffer 0x11000 5 0),
     inodes := (\<lambda>_. zero_inode)(0x5000 := zero_inode\<lparr>i_desc := 0x10000, i_buf := 0x400, i_dev := 1, i_count := 1\<rparr>)\<rparr>"

definition sample_view :: cview where
  "sample_view = \<lparr>cv_desc = 0, cv_size = 1024, cv_hashes = {4}, cv_chains = (\<lambda>_. [0x500]), cv_pool = {0x400, 0x500}\<rparr>"

lemma sample_disk_lists: "cache_apart sample_view (sample_disk m)" "cache_lists sample_view (sample_disk m) [0x500]"
  by (simp_all add: cache_apart_def cache_lists_def idle_nodes_def sample_view_def sample_disk_def sample_vfs_def sample_bsys_def
      with_heap_def sample_links_def hash_table_def idle_list_def wait_list_def bd_addr_def hnode_def rnode_def list_rep_def
      list_nodes_def desc_get_def)

lemma sample_disk_ok: "cache_ok sample_view (sample_disk m)"
proof -
  have "pooled sample_view (sample_disk m) [0x500] b" if "b \<in> cv_pool sample_view" for b
    using that by (auto simp: sample_view_def pooled_def sample_disk_def sample_buffer_def unlinked_def with_heap_def sample_links_def rnode_def)
  then show ?thesis using sample_disk_lists by (auto simp: cache_ok_def)
qed

lemma sample_disk_inode [simp]:
  "i_desc (inodes (sample_disk m) 0x5000) = 0x10000" "i_buf (inodes (sample_disk m) 0x5000) = 0x400" "i_dev (inodes (sample_disk m) 0x5000) = 1"
  "d_mem (sample_disk m) = m"
  by (simp_all add: sample_disk_def)

lemma sample_disk_area: "cache_area sample_view (sample_disk m) = region 0x10000 1024 \<union> region 0x11000 1024"
  by (simp add: cache_area_def sample_view_def sample_disk_def sample_buffer_def)

lemma sample_disk_addr:
  assumes "read16 m 0x1000e = 5" "k < 1024"
  shows "file_addr sample_view (sample_disk m) 0x5000 k = Some (0x11000 + of_nat k)"
proof -
  have "cache_place sample_view (sample_disk m) 1 5 = Some 0x500"
    by (simp add: cache_place_def sample_view_def hash_def HASH_COUNT_def holds_def sample_disk_def sample_buffer_def)
  then show ?thesis using assms
    by (simp add: file_addr_def zone_of_def Let_def mi_zone_def) (simp add: sample_disk_def sample_buffer_def)
qed

lemma sample_disk_file:
  assumes "read16 m 0x1000e = 5" "file_size (sample_disk m) 0x5000 \<le> 1024"
  shows "cached_file sample_view (sample_disk m) 0x5000"
proof -
  have "region 0x10000 32 \<subseteq> region 0x10000 (1024 :: nat)" using region_shift [of 0 32 1024 "0x10000"] by simp
  moreover have "held sample_view (sample_disk m) 0x5000"
    using sample_disk_ok by (auto simp: held_def sample_view_def BLOCK_SIZE_def few_def cache_uses_def sample_disk_def sample_buffer_def)
  ultimately show ?thesis using sample_disk_addr [OF assms(1)] assms(2) by (auto simp: cached_file_def sample_disk_area)
qed

definition sample_minix :: vfs where
  "sample_minix = sample_disk ((\<lambda>_. 0)(0x10001 := 0x80, 0x10004 := 3, 0x1000d := 1, 0x1000e := 5, 0x11000 := 72, 0x11001 := 105, 0x11002 := 33))"

lemma sample_minix_file:
  "file_size sample_minix 0x5000 = 3" "cached_file sample_view sample_minix 0x5000" "file_bytes sample_view sample_minix 0x5000 = [72, 105, 33]"
proof -
  show sz: "file_size sample_minix 0x5000 = 3" by (simp add: sample_minix_def file_size_def mi_size_def read32_def read16_def)
  then show "cached_file sample_view sample_minix 0x5000"
    unfolding sample_minix_def by (intro sample_disk_file) (simp_all add: mi_zone_def read16_def)
  have "[0..<3] = [0, 1, 2 :: nat]" by (simp add: upt_rec)
  then show "file_bytes sample_view sample_minix 0x5000 = [72, 105, 33]"
    unfolding file_bytes_def sz by (simp add: sample_minix_def file_byte_def sample_disk_addr mi_zone_def read16_def)
qed

theorem minix_read_contents_witness:
  "\<forall>e. \<exists>t. minix_read e sample_minix 0x5000 0x100 10 1 = Some (2, t) \<and> d_mem t 0x100 = 105 \<and> d_mem t 0x101 = 33"
proof
  fix e
  have mode: "ISFILE (mi_mode (d_mem sample_minix) (i_desc (inodes sample_minix 0x5000)))"
    by (simp add: sample_minix_def mi_mode_def read16_def ISFILE_def IFMT_def IFREG_def)
  have out: "[105, 33] = take (unat (10 :: u32)) (drop (unat (1 :: u32)) (file_bytes sample_view sample_minix 0x5000))"
    by (simp add: sample_minix_file(3))
  have far: "a \<notin> region p 1024" if "unat a + 1024 \<le> unat p" "unat p + 1024 < 4294967296" for a p :: u32
  proof
    assume "a \<in> region p 1024"
    then obtain i where i: "i < 1024" "a = p + of_nat i" by (auto simp: region_def)
    then have "unat a = unat p + i" using that(2) by (subst i(2), subst unat_plus_small) (simp_all add: unat_of_nat_small)
    then show False using that(1) by simp
  qed
  have "region 0x100 (length [105, 33 :: u8]) = {0x100, 0x101}" by (simp add: region_Suc)
  then have apart: "region 0x100 (length [105, 33 :: u8]) \<inter> cache_area sample_view sample_minix = {}"
    using far [of "0x100"] far [of "0x101"] by (simp add: sample_minix_def sample_disk_area)
  then show "\<exists>t. minix_read e sample_minix 0x5000 0x100 10 1 = Some (2, t) \<and> d_mem t 0x100 = 105 \<and> d_mem t 0x101 = 33"
    using minix_read_contents [OF sample_minix_file(2) mode out apart, of e] sample_minix_file(1) by auto
qed

definition sample_dir :: vfs where
  "sample_dir = sample_disk ((\<lambda>_. 0)(0x10001 := 0x40, 0x10004 := 32, 0x1000d := 1, 0x1000e := 5, 0x11000 := 1, 0x11002 := 46,
     0x11010 := 2, 0x11012 := 104, 0x11013 := 105, 0x200 := 104, 0x201 := 105, 0x202 := 47, 0x203 := 97))"

lemma sample_dir_listing: "dir_listing sample_view sample_dir 0x5000 = [([46], 0x11000), ([104, 105], 0x11010)]"
proof -
  have "file_size sample_dir 0x5000 = 32" by (simp add: sample_dir_def file_size_def mi_size_def read32_def read16_def)
  then have n: "[0..<dirent_count sample_dir 0x5000] = [0, 1]" by (simp add: dirent_count_def upt_rec)
  have "dirent_at sample_view sample_dir 0x5000 0 = 0x11000" "dirent_at sample_view sample_dir 0x5000 1 = 0x11010"
    by (simp_all add: dirent_at_def sample_dir_def sample_disk_addr mi_zone_def read16_def)
  then show ?thesis
    by (simp add: dir_listing_def dir_listing_from_def n) (simp add: sample_dir_def md_nr_def read16_def dirent_name_def entry_name_def md_name_def field_name_def upt_rec)
qed

theorem find_entry_correct_witness:
  "\<forall>e. \<exists>b t. find_entry e sample_dir 0x5000 0x200 0 = Some (b, 0x203, 0x11010, t) \<and> b \<noteq> 0"
proof
  fix e
  have "file_size sample_dir 0x5000 = 32" by (simp add: sample_dir_def file_size_def mi_size_def read32_def read16_def)
  then have fl: "cached_file sample_view sample_dir 0x5000"
    unfolding sample_dir_def by (intro sample_disk_file) (simp_all add: mi_zone_def read16_def)
  have low: "low_blocks sample_view sample_dir"
    by (simp add: low_blocks_def sample_view_def sample_dir_def sample_disk_def sample_buffer_def)
  have mode: "ISDIR (mi_mode (d_mem sample_dir) (i_desc (inodes sample_dir 0x5000)))"
    by (simp add: sample_dir_def mi_mode_def read16_def ISDIR_def IFMT_def IFDIR_def)
  have part: "component_at (d_mem sample_dir) 0x200 [104, 105] 47"
    by (simp add: component_at_def sample_dir_def name_bytes_def IS_SEPARATOR_def)
  have names: "\<forall>(n, p) \<in> set (dir_listing sample_view sample_dir 0x5000). name_bytes n"
    by (simp add: sample_dir_listing name_bytes_def IS_SEPARATOR_def)
  show "\<exists>b t. find_entry e sample_dir 0x5000 0x200 0 = Some (b, 0x203, 0x11010, t) \<and> b \<noteq> 0"
    using find_entry_correct [OF fl low mode part names, of e 0] by (auto simp: sample_dir_listing behind_def selects_def)
qed

subsection \<open>Giving a zone back\<close>

text \<open>
  A zone that cannot be given back. When one block holds the whole map of the zones, the map has the zones
  from \<open>firstdatazone - 1\<close> on, 8192 of them, but \<^verbatim>\<open>minix_bfree\<close> skips the block for every zone above 8192,
  whatever \<open>firstdatazone\<close> is: for those in the map as for those behind it the function ends in the release
  of a buffer that has never been set.
\<close>

theorem minix_bfree_stuck:
  assumes "ms_zmap_blocks (d_mem s) (s_desc (supers s super)) = 1" and "idx > BLOCK_BITS"
  shows "minix_bfree e s super idx = None"
proof -
  have "bfree_loop e s super (s_desc (supers s super)) bidx idx 1 = None" for bidx
    by (subst bfree_loop.simps) (simp add: assms(1))
  then have "bfree_loop e s super (s_desc (supers s super)) bidx idx 0 = None" for bidx
    using assms(2) by (subst bfree_loop.simps) (simp add: assms(1))
  then show ?thesis by (simp add: minix_bfree_def Let_def kassert_def)
qed

definition sample_super :: vfs where
  "sample_super = (sample_disk ((\<lambda>_. 0)(0x3002 := 255, 0x3003 := 255, 0x3006 := 1, 0x3008 := 20)))\<lparr>supers := (\<lambda>_. \<lparr>s_desc = 0x3000, s_buf = 0, s_dev = 1,
     s_count = 1, s_type = FS_TYPE_MINIX, s_sector_size = 512, s_block_size = 1024, s_iroot = 0, s_imount = 0\<rparr>)\<rparr>"

theorem minix_bfree_stuck_witness: "\<forall>e. minix_bfree e sample_super 0x9000 8200 = None"
  by (intro allI minix_bfree_stuck) (simp_all add: sample_super_def ms_zmap_blocks_def read16_def BLOCK_BITS_def)

end
