(* ===== verification/Onix_Pbuf.thy ===== *)
theory Onix_Pbuf
  imports Onix_Net Onix_Process
begin

section \<open>Packet buffers and scattered data (src/net/pbuf.c, iovec.c)\<close>

text \<open>
  The state of the network code extends that of the processes. Control blocks, interfaces, entries of
  the ARP cache and packet buffers are records found under their addresses; their lists are on the list
  heap, and what the code handles as bytes (addresses, names, the packets) is in the byte memory at the
  offsets of the C structures, so that the address of a field can be passed on as the code does.
\<close>

record pbuf_t =
  pb_length :: u32
  pb_count :: u32
  pb_data :: u32
  pb_total :: u32
  pb_size :: u32
  pb_seqno :: u32

record netif_t =
  nf_rx_size :: u32
  nf_tx_size :: u32
  nf_nic :: u32
  nf_output :: u32
  nf_index :: u32
  nf_flags :: u32

record arp_entry_t =
  ae_expires :: u32
  ae_used :: u32
  ae_query :: u32
  ae_retry :: u32
  ae_netif :: u32

record udp_pcb_t =
  up_lport :: u16
  up_rport :: u16
  up_flags :: u32
  up_waiter :: u32

record raw_pcb_t =
  rw_protocol :: u16
  rw_waiter :: u32

record pkt_pcb_t =
  kp_netif :: u32
  kp_protocol :: u32
  kp_waiter :: u32

record socket_t =
  so_type :: u32
  so_sndtimeo :: u32
  so_rcvtimeo :: u32
  so_pcb :: u32

record nsys = psys +
  free_pbuf_list :: u32
  pbuf_count :: u32
  free_count :: u32
  pbufs :: "u32 \<Rightarrow> pbuf_t"
  netif_list :: u32
  neti_task :: u32
  neto_task :: u32
  netifs :: "u32 \<Rightarrow> netif_t"
  arp_entry_list :: u32
  arp_task :: u32
  arps :: "u32 \<Rightarrow> arp_entry_t"
  udp_pcb_list :: u32
  udp_ports :: port_map_t
  udps :: "u32 \<Rightarrow> udp_pcb_t"
  raw_pcb_list :: u32
  raws :: "u32 \<Rightarrow> raw_pcb_t"
  pkt_pcb_list :: u32
  pkts :: "u32 \<Rightarrow> pkt_pcb_t"
  socket_ops :: "u32 list"
  sockets :: "u32 \<Rightarrow> socket_t"

type_synonym 'x nfsenv = "('x nsys_ext) penv"

definition upd_pbuf :: "'x nsys_scheme \<Rightarrow> u32 \<Rightarrow> (pbuf_t \<Rightarrow> pbuf_t) \<Rightarrow> 'x nsys_scheme" where
  "upd_pbuf s p f = s\<lparr>pbufs := (pbufs s)(p := f (pbufs s p))\<rparr>"

definition upd_netif :: "'x nsys_scheme \<Rightarrow> u32 \<Rightarrow> (netif_t \<Rightarrow> netif_t) \<Rightarrow> 'x nsys_scheme" where
  "upd_netif s p f = s\<lparr>netifs := (netifs s)(p := f (netifs s p))\<rparr>"

definition upd_arp :: "'x nsys_scheme \<Rightarrow> u32 \<Rightarrow> (arp_entry_t \<Rightarrow> arp_entry_t) \<Rightarrow> 'x nsys_scheme" where
  "upd_arp s p f = s\<lparr>arps := (arps s)(p := f (arps s p))\<rparr>"

definition upd_udp :: "'x nsys_scheme \<Rightarrow> u32 \<Rightarrow> (udp_pcb_t \<Rightarrow> udp_pcb_t) \<Rightarrow> 'x nsys_scheme" where
  "upd_udp s p f = s\<lparr>udps := (udps s)(p := f (udps s p))\<rparr>"

definition upd_raw :: "'x nsys_scheme \<Rightarrow> u32 \<Rightarrow> (raw_pcb_t \<Rightarrow> raw_pcb_t) \<Rightarrow> 'x nsys_scheme" where
  "upd_raw s p f = s\<lparr>raws := (raws s)(p := f (raws s p))\<rparr>"

definition upd_pkt :: "'x nsys_scheme \<Rightarrow> u32 \<Rightarrow> (pkt_pcb_t \<Rightarrow> pkt_pcb_t) \<Rightarrow> 'x nsys_scheme" where
  "upd_pkt s p f = s\<lparr>pkts := (pkts s)(p := f (pkts s p))\<rparr>"

definition upd_socket :: "'x nsys_scheme \<Rightarrow> u32 \<Rightarrow> (socket_t \<Rightarrow> socket_t) \<Rightarrow> 'x nsys_scheme" where
  "upd_socket s p f = s\<lparr>sockets := (sockets s)(p := f (sockets s p))\<rparr>"

definition on_mem :: "'x dsys_scheme \<Rightarrow> (mem \<Rightarrow> mem) \<Rightarrow> 'x dsys_scheme" where
  "on_mem s f = s\<lparr>d_mem := f (d_mem s)\<rparr>"

text \<open>\<^verbatim>\<open>memset(p, 0, n)\<close> on a structure: its bytes and the list nodes in it.\<close>

definition zero_struct :: "'x dsys_scheme \<Rightarrow> u32 \<Rightarrow> u32 \<Rightarrow> 'x dsys_scheme" where
  "zero_struct s p n = on_mem (with_k s ((d_k s)\<lparr>k_mem := clear_mem (k_mem (d_k s)) p n\<rparr>)) (\<lambda>m. memset m p 0 n)"

subsection \<open>The parts of a packet\<close>

text \<open>A \<^verbatim>\<open>pbuf_t\<close> has a header of 40 bytes with two list nodes; the frame follows it.\<close>

definition tcp_node :: "u32 \<Rightarrow> u32" where "tcp_node p = p + 16"
definition pb_payload :: "u32 \<Rightarrow> u32" where "pb_payload p = p + 40"
definition pb_eth :: "u32 \<Rightarrow> u32" where "pb_eth p = p + 40"
definition eth_dst :: "u32 \<Rightarrow> u32" where "eth_dst eth = eth"
definition eth_src :: "u32 \<Rightarrow> u32" where "eth_src eth = eth + 6"
definition eth_type :: "u32 \<Rightarrow> u32" where "eth_type eth = eth + 12"
definition eth_payload :: "u32 \<Rightarrow> u32" where "eth_payload eth = eth + 14"
definition pb_ip :: "u32 \<Rightarrow> u32" where "pb_ip p = eth_payload (pb_eth p)"
definition pb_arp :: "u32 \<Rightarrow> u32" where "pb_arp p = eth_payload (pb_eth p)"
definition ETH_SIZE :: u32 where "ETH_SIZE = 14"
definition ETH_MTU :: u32 where "ETH_MTU = 1518"
definition IP_MTU :: u32 where "IP_MTU = 1500"

definition ETH_TYPE_IP :: u16 where "ETH_TYPE_IP = 0x0800"
definition ETH_TYPE_ARP :: u16 where "ETH_TYPE_ARP = 0x0806"
definition ETH_TYPE_IPV6 :: u16 where "ETH_TYPE_IPV6 = 0x86DD"

definition EFAULT :: u32 where "EFAULT = 14"
definition EMSGSIZE :: u32 where "EMSGSIZE = 90"
definition EPROTO :: u32 where "EPROTO = 102"
definition EOPTION :: u32 where "EOPTION = 103"
definition EFRAG :: u32 where "EFRAG = 104"
definition ENOTCONN :: u32 where "ENOTCONN = 107"
definition ERESET :: u32 where "ERESET = 108"
definition ECHKSUM :: u32 where "ECHKSUM = 109"

subsection \<open>Getting and putting packet buffers\<close>

text \<open>The list node is at the start of the buffer.\<close>

definition pbuf_get :: "'x nsys_scheme \<Rightarrow> (u32 \<times> 'x nsys_scheme) option" where
  "pbuf_get s = do {
     empty \<leftarrow> list_empty (k_heap (d_k s)) (free_pbuf_list s);
     s \<leftarrow> (if empty then do {
            (page, s) \<leftarrow> p_alloc_page s;
            s \<leftarrow> on_heap s (\<lambda>h. list_push h (free_pbuf_list s) page);
            s \<leftarrow> on_heap s (\<lambda>h. list_push h (free_pbuf_list s) (page + 2048));
            Some (s\<lparr>pbuf_count := pbuf_count s + 2, free_count := free_count s + 2\<rparr>)
          } else Some s);
     (pbuf, h) \<leftarrow> list_popback (k_heap (d_k s)) (free_pbuf_list s);
     let s = with_k s (with_heap (d_k s) h);
     kassert (pbuf AND 0x7ff = 0);
     let s = upd_pbuf s pbuf (\<lambda>b. b\<lparr>pb_count := 1\<rparr>);
     Some (pbuf, s\<lparr>free_count := free_count s - 1\<rparr>)
   }"

definition pbuf_put :: "'x nsys_scheme \<Rightarrow> u32 \<Rightarrow> 'x nsys_scheme option" where
  "pbuf_put s pbuf = do {
     kassert (pbuf AND 0x7ff = 0);
     kassert (pb_count (pbufs s pbuf) > 0 \<and> pb_count (pbufs s pbuf) \<le> 2);
     let s = upd_pbuf s pbuf (\<lambda>b. b\<lparr>pb_count := pb_count b - 1\<rparr>);
     if pb_count (pbufs s pbuf) > 0 then Some s
     else do {
       s \<leftarrow> on_heap s (\<lambda>h. list_push h (free_pbuf_list s) pbuf);
       Some (s\<lparr>free_count := free_count s + 1\<rparr>)
     }
   }"

definition pbuf_init :: "'x nsys_scheme \<Rightarrow> 'x nsys_scheme option" where
  "pbuf_init s = on_heap s (\<lambda>h. list_init h (free_pbuf_list s))"

text \<open>\<^verbatim>\<open>element_entry(pbuf_t, node, list_popback(list))\<close>.\<close>

definition pop_pbuf :: "'x nsys_scheme \<Rightarrow> u32 \<Rightarrow> (u32 \<times> 'x nsys_scheme) option" where
  "pop_pbuf s l = do { (p, h) \<leftarrow> list_popback (k_heap (d_k s)) l; Some (p, with_k s (with_heap (d_k s) h)) }"

text \<open>The release of the packets a closed control block has received.\<close>

partial_function (option) drop_received :: "'x nsys_scheme \<Rightarrow> u32 \<Rightarrow> 'x nsys_scheme option" where
  "drop_received s l = do {
     empty \<leftarrow> list_empty (k_heap (d_k s)) l;
     if empty then Some s
     else do {
       (pbuf, s) \<leftarrow> pop_pbuf s l;
       kassert (pb_count (pbufs s pbuf) = 1);
       s \<leftarrow> pbuf_put s pbuf;
       drop_received s l
     }
   }"

declare drop_received.simps [code]

subsection \<open>Scattered data\<close>

text \<open>An \<^verbatim>\<open>iovec_t\<close> is a length and a pointer. The loops take the number of elements as a natural number.\<close>

definition iov_size :: "mem \<Rightarrow> u32 \<Rightarrow> u32" where "iov_size m iov = read32 m iov"
definition iov_base :: "mem \<Rightarrow> u32 \<Rightarrow> u32" where "iov_base m iov = read32 m (iov + 4)"
definition IOVEC_SIZE :: u32 where "IOVEC_SIZE = 8"

fun iovec_check_loop :: "vm \<Rightarrow> mem \<Rightarrow> u32 \<Rightarrow> nat \<Rightarrow> bool \<Rightarrow> bool \<Rightarrow> u32 option" where
  "iovec_check_loop v m iov 0 wr user = Some EOK"
| "iovec_check_loop v m iov (Suc n) wr user =
     (if iov_size m iov = 0 then Some (- EINVAL)
      else if iov_base m iov = NULL then Some (- EINVAL)
      else do {
        ok \<leftarrow> memory_access v (iov_base m iov) (iov_size m iov) wr user;
        if \<not> ok then Some (- EFAULT) else iovec_check_loop v m (iov + IOVEC_SIZE) n wr user
      })"

definition iovec_check :: "'x vfs_scheme \<Rightarrow> u32 \<Rightarrow> u32 \<Rightarrow> bool \<Rightarrow> u32 option" where
  "iovec_check s iov iovlen wr =
     (if iov = NULL then Some (- EFAULT)
      else if sint iovlen < 0 then Some (- EINVAL)
      else do {
        ok \<leftarrow> memory_access (vm_now s) iov (iovlen * IOVEC_SIZE) False (is_user s);
        if \<not> ok then Some (- EFAULT) else iovec_check_loop (vm_now s) (d_mem s) iov (nat (sint iovlen)) wr (is_user s)
      })"

fun iovec_size_loop :: "mem \<Rightarrow> u32 \<Rightarrow> nat \<Rightarrow> u32 \<Rightarrow> u32" where
  "iovec_size_loop m iov 0 sz = sz"
| "iovec_size_loop m iov (Suc n) sz = iovec_size_loop m (iov + IOVEC_SIZE) n (sz + iov_size m iov)"

definition iovec_size :: "mem \<Rightarrow> u32 \<Rightarrow> u32 \<Rightarrow> u32" where
  "iovec_size m iov iovlen = iovec_size_loop m iov (nat (sint iovlen)) 0"

definition iovec_dup :: "'x dsys_scheme \<Rightarrow> u32 \<Rightarrow> u32 \<Rightarrow> (u32 \<times> 'x dsys_scheme) option" where
  "iovec_dup s iov iovlen = do {
     (newiov, s) \<leftarrow> p_kmalloc s (iovlen * IOVEC_SIZE);
     if newiov = NULL then Some (NULL, s)
     else Some (newiov, on_mem s (\<lambda>m. memcpy m newiov iov (iovlen * IOVEC_SIZE)))
   }"

text \<open>\<^verbatim>\<open>iov->base += len; iov->size -= len\<close>\<close>

definition iov_advance :: "mem \<Rightarrow> u32 \<Rightarrow> u32 \<Rightarrow> mem" where
  "iov_advance m iov len =
     (let m = store32 m (iov + 4) (iov_base m iov + len) in store32 m iov (iov_size m iov - len))"

fun iovec_read_loop :: "mem \<Rightarrow> u32 \<Rightarrow> nat \<Rightarrow> u32 \<Rightarrow> u32 \<Rightarrow> u32 \<Rightarrow> u32 \<times> mem" where
  "iovec_read_loop m iov 0 buf cnt rd = (rd, m)"
| "iovec_read_loop m iov (Suc n) buf cnt rd =
     (if cnt = 0 then (rd, m)
      else if iov_size m iov = 0 then iovec_read_loop m (iov + IOVEC_SIZE) n buf cnt rd
      else
        let len = (if cnt < iov_size m iov then cnt else iov_size m iov);
            m = memcpy m buf (iov_base m iov) len
        in iovec_read_loop (iov_advance m iov len) (iov + IOVEC_SIZE) n (buf + len) (cnt - len) (rd + len))"

definition iovec_read :: "mem \<Rightarrow> u32 \<Rightarrow> u32 \<Rightarrow> u32 \<Rightarrow> u32 \<Rightarrow> u32 \<times> mem" where
  "iovec_read m iov iovlen buf cnt = iovec_read_loop m iov (nat (sint iovlen)) buf cnt 0"

fun iovec_write_loop :: "mem \<Rightarrow> u32 \<Rightarrow> nat \<Rightarrow> u32 \<Rightarrow> u32 \<Rightarrow> u32 \<Rightarrow> u32 \<times> mem" where
  "iovec_write_loop m iov 0 buf cnt written = (written, m)"
| "iovec_write_loop m iov (Suc n) buf cnt written =
     (if cnt = 0 then (written, m)
      else if iov_size m iov = 0 then iovec_write_loop m (iov + IOVEC_SIZE) n buf cnt written
      else
        let len = (if cnt < iov_size m iov then cnt else iov_size m iov);
            m = memcpy m (iov_base m iov) buf len
        in iovec_write_loop (iov_advance m iov len) (iov + IOVEC_SIZE) n (buf + len) (cnt - len) (written + len))"

definition iovec_write :: "mem \<Rightarrow> u32 \<Rightarrow> u32 \<Rightarrow> u32 \<Rightarrow> u32 \<Rightarrow> u32 \<times> mem" where
  "iovec_write m iov iovlen buf cnt = iovec_write_loop m iov (nat (sint iovlen)) buf cnt 0"

end
