(* ===== verification/Onix_Netif.thy ===== *)
theory Onix_Netif
  imports Onix_Pbuf
begin

section \<open>Network interfaces (src/net/netif.c, loopif.c, eth.c)\<close>

text \<open>
  An interface of 160 bytes holds its name, its addresses, and a receive and a send queue, each with a
  lock. Packets to be received or sent are put into the queues; the two tasks that empty them are in
  \<open>Onix_Socket\<close>, behind the protocols they call.
\<close>

definition NETIF_SIZE :: u32 where "NETIF_SIZE = 160"
definition IFREQ_SIZE :: u32 where "IFREQ_SIZE = 24"
definition NETIF_RX_PBUF_SIZE :: u32 where "NETIF_RX_PBUF_SIZE = 8"
definition DEV_NET :: u32 where "DEV_NET = 3"
definition DEV_NETIF :: u32 where "DEV_NETIF = 11"

definition NETIF_LOOPBACK :: u32 where "NETIF_LOOPBACK = 1"
definition NETIF_IP_TX_CHECKSUM_OFFLOAD :: u32 where "NETIF_IP_TX_CHECKSUM_OFFLOAD = 0x10000"
definition NETIF_IP_RX_CHECKSUM_OFFLOAD :: u32 where "NETIF_IP_RX_CHECKSUM_OFFLOAD = 0x20000"
definition NETIF_UDP_RX_CHECKSUM_OFFLOAD :: u32 where "NETIF_UDP_RX_CHECKSUM_OFFLOAD = 0x40000"
definition NETIF_UDP_TX_CHECKSUM_OFFLOAD :: u32 where "NETIF_UDP_TX_CHECKSUM_OFFLOAD = 0x80000"
definition NETIF_TCP_RX_CHECKSUM_OFFLOAD :: u32 where "NETIF_TCP_RX_CHECKSUM_OFFLOAD = 0x100000"
definition NETIF_TCP_TX_CHECKSUM_OFFLOAD :: u32 where "NETIF_TCP_TX_CHECKSUM_OFFLOAD = 0x200000"

text \<open>The fields of an interface that are handled by address; its list node is at the start.\<close>

definition nf_name :: "u32 \<Rightarrow> u32" where "nf_name p = p + 8"
definition nf_rx_list :: "u32 \<Rightarrow> u32" where "nf_rx_list p = p + 24"
definition nf_rx_lock :: "u32 \<Rightarrow> u32" where "nf_rx_lock p = p + 40"
definition nf_tx_list :: "u32 \<Rightarrow> u32" where "nf_tx_list p = p + 72"
definition nf_tx_lock :: "u32 \<Rightarrow> u32" where "nf_tx_lock p = p + 88"
definition nf_hwaddr :: "u32 \<Rightarrow> u32" where "nf_hwaddr p = p + 120"
definition nf_ipaddr :: "u32 \<Rightarrow> u32" where "nf_ipaddr p = p + 126"
definition nf_netmask :: "u32 \<Rightarrow> u32" where "nf_netmask p = p + 130"
definition nf_gateway :: "u32 \<Rightarrow> u32" where "nf_gateway p = p + 134"
definition nf_broadcast :: "u32 \<Rightarrow> u32" where "nf_broadcast p = p + 138"

text \<open>The union of an \<^verbatim>\<open>ifreq_t\<close>, behind the name.\<close>

definition if_value :: "u32 \<Rightarrow> u32" where "if_value req = req + 16"

text \<open>An address in memory; a null pointer counts as the address zero.\<close>

definition any_at :: "mem \<Rightarrow> u32 \<Rightarrow> bool" where
  "any_at m p = ip_addr_isany (if p = NULL then None else Some (read32 m p))"

definition same_ip :: "mem \<Rightarrow> u32 \<Rightarrow> u32 \<Rightarrow> bool" where
  "same_ip m p q = ip_addr_cmp (read32 m p) (read32 m q)"

definition same_net :: "mem \<Rightarrow> u32 \<Rightarrow> u32 \<Rightarrow> u32 \<Rightarrow> bool" where
  "same_net m p q nmask = ip_addr_maskcmp (read32 m p) (read32 m q) (read32 m nmask)"

definition broadcast_at :: "mem \<Rightarrow> u32 \<Rightarrow> u32 \<Rightarrow> bool" where
  "broadcast_at m p nmask = ip_addr_isbroadcast (read32 m p) (read32 m nmask)"

subsection \<open>Searching a list\<close>

text \<open>The loop from a node to the tail of a list, up to the first node with the property \<open>P\<close>; NULL if there is none.\<close>

partial_function (option) find_node :: "list_heap \<Rightarrow> (u32 \<Rightarrow> bool option) \<Rightarrow> u32 \<Rightarrow> u32 \<Rightarrow> u32 option" where
  "find_node h P tail node =
     (if node = tail then Some NULL
      else do {
        found \<leftarrow> P node;
        if found then Some node else do { nxt \<leftarrow> get_next h node; find_node h P tail nxt }
      })"

declare find_node.simps [code]

definition list_find :: "list_heap \<Rightarrow> u32 \<Rightarrow> (u32 \<Rightarrow> bool option) \<Rightarrow> u32 option" where
  "list_find h l P = do { node \<leftarrow> get_next h (list_head l); find_node h P (list_tail l) node }"

definition netif_found :: "'x nsys_scheme \<Rightarrow> u32 \<Rightarrow> u32 option" where
  "netif_found s name = list_find (k_heap (d_k s)) (netif_list s)
     (\<lambda>p. do { c \<leftarrow> strcmp (d_mem s) (nf_name p) name; Some (c = 0) })"

definition netif_get :: "'x nsys_scheme \<Rightarrow> u32 \<Rightarrow> u32 option" where
  "netif_get s index = list_find (k_heap (d_k s)) (netif_list s) (\<lambda>p. Some (nf_index (netifs s p) = index))"

definition netif_route :: "'x nsys_scheme \<Rightarrow> u32 \<Rightarrow> u32 option" where
  "netif_route s addr = do {
     netif \<leftarrow> list_find (k_heap (d_k s)) (netif_list s)
       (\<lambda>p. Some (same_net (d_mem s) addr (nf_ipaddr p) (nf_netmask p) \<and> \<not> any_at (d_mem s) (nf_ipaddr p)));
     if netif \<noteq> NULL then Some netif else netif_get s 1
   }"

definition ip_addr_isown :: "'x nsys_scheme \<Rightarrow> u32 \<Rightarrow> bool option" where
  "ip_addr_isown s addr = do {
     netif \<leftarrow> list_find (k_heap (d_k s)) (netif_list s) (\<lambda>p. Some (same_ip (d_mem s) (nf_ipaddr p) addr));
     Some (netif \<noteq> NULL)
   }"

subsection \<open>Queues\<close>

definition wake :: "'x dsys_scheme \<Rightarrow> u32 \<Rightarrow> 'x dsys_scheme option" where
  "wake s task = on_k s (\<lambda>k. task_unblock k task EOK)"

text \<open>The oldest packets are dropped while the queue is full.\<close>

partial_function (option) rx_make_room :: "'x nsys_scheme \<Rightarrow> u32 \<Rightarrow> 'x nsys_scheme option" where
  "rx_make_room s netif =
     (if \<not> sint (nf_rx_size (netifs s netif)) \<ge> sint NETIF_RX_PBUF_SIZE then Some s
      else do {
        (nbuf, s) \<leftarrow> pop_pbuf s (nf_rx_list netif);
        let s = upd_netif s netif (\<lambda>n. n\<lparr>nf_rx_size := nf_rx_size n - 1\<rparr>);
        s \<leftarrow> pbuf_put s nbuf;
        rx_make_room s netif
      })"

declare rx_make_room.simps [code]

definition netif_input :: "'x nfsenv \<Rightarrow> 'x nsys_scheme \<Rightarrow> u32 \<Rightarrow> u32 \<Rightarrow> 'x nsys_scheme option" where
  "netif_input e s netif pbuf = do {
     s \<leftarrow> acquire (fs_dev e) s (nf_rx_lock netif);
     s \<leftarrow> rx_make_room s netif;
     s \<leftarrow> on_heap s (\<lambda>h. list_push h (nf_rx_list netif) pbuf);
     let s = upd_netif s netif (\<lambda>n. n\<lparr>nf_rx_size := nf_rx_size n + 1\<rparr>);
     kassert (sint (nf_rx_size (netifs s netif)) \<le> sint NETIF_RX_PBUF_SIZE);
     s \<leftarrow> (if t_state (k_tasks (d_k s) (neti_task s)) = TASK_WAITING then wake s (neti_task s) else Some s);
     release (fs_dev e) s (nf_rx_lock netif)
   }"

definition netif_output :: "'x nfsenv \<Rightarrow> 'x nsys_scheme \<Rightarrow> u32 \<Rightarrow> u32 \<Rightarrow> 'x nsys_scheme option" where
  "netif_output e s netif pbuf = do {
     s \<leftarrow> acquire (fs_dev e) s (nf_tx_lock netif);
     s \<leftarrow> on_heap s (\<lambda>h. list_push h (nf_tx_list netif) pbuf);
     let s = upd_netif s netif (\<lambda>n. n\<lparr>nf_tx_size := nf_tx_size n + 1\<rparr>);
     s \<leftarrow> (if t_state (k_tasks (d_k s) (neto_task s)) = TASK_WAITING then wake s (neto_task s) else Some s);
     release (fs_dev e) s (nf_tx_lock netif)
   }"

subsection \<open>Creating and removing interfaces\<close>

definition zero_netif :: netif_t where
  "zero_netif = \<lparr>nf_rx_size = 0, nf_tx_size = 0, nf_nic = NULL, nf_output = NULL, nf_index = 0, nf_flags = 0\<rparr>"

text \<open>\<open>fp\<close> is the part of \<^verbatim>\<open>sprintf\<close> that prints floating point numbers; it is not reached.\<close>

definition netif_create :: "fp_split \<Rightarrow> 'x nsys_scheme \<Rightarrow> (u32 \<times> 'x nsys_scheme) option" where
  "netif_create fp s = do {
     (netif, s) \<leftarrow> p_kmalloc s NETIF_SIZE;
     let s = upd_netif (zero_struct s netif NETIF_SIZE) netif (\<lambda>_. zero_netif);
     ls \<leftarrow> lock_init (d_ls s) (nf_rx_lock netif);
     ls \<leftarrow> lock_init ls (nf_tx_lock netif);
     let s = s\<lparr>d_ls := ls\<rparr>;
     n \<leftarrow> list_size (k_heap (d_k s)) (netif_list s);
     let s = upd_netif s netif (\<lambda>x. x\<lparr>nf_index := n\<rparr>);
     (_, out, m) \<leftarrow> sprintf fp (d_mem s) [101, 116, 104, 37, 100] [n];
     let s = on_mem s (\<lambda>_. put_bytes m (nf_name netif) out);
     s \<leftarrow> on_heap s (\<lambda>h. list_push h (netif_list s) netif);
     s \<leftarrow> on_heap s (\<lambda>h. list_init h (nf_rx_list netif));
     s \<leftarrow> on_heap s (\<lambda>h. list_init h (nf_tx_list netif));
     Some (netif, s)
   }"

text \<open>\<open>ioctl\<close> is the address of \<^verbatim>\<open>netif_ioctl\<close>.\<close>

definition netif_setup :: "fp_split \<Rightarrow> u32 \<Rightarrow> 'x nsys_scheme \<Rightarrow> u32 \<Rightarrow> u32 \<Rightarrow> u32 \<Rightarrow> (u32 \<times> 'x nsys_scheme) option" where
  "netif_setup fp ioctl s nic hwaddr out = do {
     (netif, s) \<leftarrow> netif_create fp s;
     let s = on_mem s (\<lambda>m. eth_addr_copy m (nf_hwaddr netif) hwaddr);
     let s = upd_netif s netif (\<lambda>n. n\<lparr>nf_nic := nic, nf_output := out\<rparr>);
     (_, s) \<leftarrow> device_install s DEV_NET DEV_NETIF netif (nf_name netif) 0 ioctl NULL NULL;
     Some (netif, s)
   }"

definition netif_remove :: "'x nsys_scheme \<Rightarrow> u32 \<Rightarrow> 'x nsys_scheme option" where
  "netif_remove s netif = do {
     s \<leftarrow> on_heap s (\<lambda>h. list_remove h netif);
     p_kfree s netif
   }"

subsection \<open>Reading and setting addresses\<close>

definition SIOCGIFNAME :: u32 where "SIOCGIFNAME = 0"
definition SIOCGIFINDEX :: u32 where "SIOCGIFINDEX = 1"
definition SIOCGIFADDR :: u32 where "SIOCGIFADDR = 2"
definition SIOCSIFADDR :: u32 where "SIOCSIFADDR = 3"
definition SIOCDIFADDR :: u32 where "SIOCDIFADDR = 4"
definition SIOCGIFBRDADDR :: u32 where "SIOCGIFBRDADDR = 5"
definition SIOCSIFBRDADDR :: u32 where "SIOCSIFBRDADDR = 6"
definition SIOCGIFNETMASK :: u32 where "SIOCGIFNETMASK = 7"
definition SIOCSIFNETMASK :: u32 where "SIOCSIFNETMASK = 8"
definition SIOCGIFGATEWAY :: u32 where "SIOCGIFGATEWAY = 9"
definition SIOCSIFGATEWAY :: u32 where "SIOCSIFGATEWAY = 10"
definition SIOCGIFHWADDR :: u32 where "SIOCGIFHWADDR = 11"
definition SIOCSIFHWADDR :: u32 where "SIOCSIFHWADDR = 12"
definition SIOCSIFDHCPSTART :: u32 where "SIOCSIFDHCPSTART = 13"
definition SIOCSIFDHCPSTOP :: u32 where "SIOCSIFDHCPSTOP = 14"

text \<open>The two calls into the DHCP client are arguments.\<close>

record 'x dhcp =
  dhcp_start :: "'x nsys_scheme \<Rightarrow> u32 \<Rightarrow> 'x nsys_scheme option"
  dhcp_stop :: "'x nsys_scheme \<Rightarrow> u32 \<Rightarrow> 'x nsys_scheme option"

definition netif_ioctl ::
  "'x dhcp \<Rightarrow> 'x nsys_scheme \<Rightarrow> u32 \<Rightarrow> u32 \<Rightarrow> u32 \<Rightarrow> u32 \<Rightarrow> (u32 \<times> 'x nsys_scheme) option" where
  "netif_ioctl dh s netif cmd args flags = do {
     ok \<leftarrow> memory_access (vm_now s) args IFREQ_SIZE True True;
     let v = if_value args;
     if \<not> ok then Some (- EINVAL, s)
     else if cmd = SIOCGIFADDR then Some (EOK, on_mem s (\<lambda>m. ip_addr_copy m v (nf_ipaddr netif)))
     else if cmd = SIOCGIFNETMASK then Some (EOK, on_mem s (\<lambda>m. ip_addr_copy m v (nf_netmask netif)))
     else if cmd = SIOCGIFGATEWAY then Some (EOK, on_mem s (\<lambda>m. ip_addr_copy m v (nf_gateway netif)))
     else if cmd = SIOCGIFBRDADDR then Some (EOK, on_mem s (\<lambda>m. ip_addr_copy m v (nf_broadcast netif)))
     else if cmd = SIOCGIFHWADDR then Some (EOK, on_mem s (\<lambda>m. eth_addr_copy m v (nf_hwaddr netif)))
     else if nf_flags (netifs s netif) AND NETIF_LOOPBACK \<noteq> 0 then Some (- EINVAL, s)
     else if cmd = SIOCSIFADDR then Some (EOK, on_mem s (\<lambda>m. ip_addr_copy m (nf_ipaddr netif) v))
     else if cmd = SIOCDIFADDR then Some (EOK, on_mem s (\<lambda>m. store32 m (nf_ipaddr netif) 0))
     else if cmd = SIOCSIFNETMASK then Some (EOK, on_mem s (\<lambda>m. ip_addr_copy m (nf_netmask netif) v))
     else if cmd = SIOCSIFGATEWAY then Some (EOK, on_mem s (\<lambda>m. ip_addr_copy m (nf_gateway netif) v))
     else if cmd = SIOCSIFBRDADDR then Some (EOK, on_mem s (\<lambda>m. ip_addr_copy m (nf_broadcast netif) v))
     else if cmd = SIOCSIFHWADDR then Some (EOK, on_mem s (\<lambda>m. eth_addr_copy m (nf_hwaddr netif) v))
     else if cmd = SIOCSIFDHCPSTART then do { s \<leftarrow> dhcp_start dh s netif; Some (EOK, s) }
     else if cmd = SIOCSIFDHCPSTOP then do { s \<leftarrow> dhcp_stop dh s netif; Some (EOK, s) }
     else Some (- EINVAL, s)
   }"

subsection \<open>Ethernet and the loopback interface\<close>

definition eth_output ::
  "'x nfsenv \<Rightarrow> 'x nsys_scheme \<Rightarrow> u32 \<Rightarrow> u32 \<Rightarrow> u32 \<Rightarrow> u16 \<Rightarrow> u32 \<Rightarrow> (u32 \<times> 'x nsys_scheme) option" where
  "eth_output e s netif pbuf dst type len = do {
     let eth = pb_eth pbuf;
     let s = on_mem s (\<lambda>m. store16 m (eth_type eth) (htons type));
     let s = on_mem s (\<lambda>m. eth_addr_copy m (eth_dst eth) dst);
     let s = on_mem s (\<lambda>m. eth_addr_copy m (eth_src eth) (nf_hwaddr netif));
     let s = upd_pbuf s pbuf (\<lambda>b. b\<lparr>pb_length := ETH_SIZE + len\<rparr>);
     s \<leftarrow> netif_output e s netif pbuf;
     Some (EOK, s)
   }"

text \<open>The address of the source of a header is at offset 12, that of the destination at 16.\<close>

definition ip_src :: "u32 \<Rightarrow> u32" where "ip_src ip = ip + 12"
definition ip_dst :: "u32 \<Rightarrow> u32" where "ip_dst ip = ip + 16"

definition send_packet :: "'x nfsenv \<Rightarrow> 'x nsys_scheme \<Rightarrow> u32 \<Rightarrow> u32 \<Rightarrow> 'x nsys_scheme option" where
  "send_packet e s netif pbuf = do {
     let ip = pb_ip pbuf;
     let addr = read32 (d_mem s) (ip_dst ip);
     let s = on_mem s (\<lambda>m. ip_addr_copy m (ip_dst ip) (ip_src ip));
     let s = on_mem s (\<lambda>m. store32 m (ip_src ip) addr);
     netif_input e s netif pbuf
   }"

text \<open>
  \<open>lo_addr\<close> and \<open>lo_mask\<close> are the addresses of the two literals, \<open>stack\<close> what is on the stack of
  \<^verbatim>\<open>inet_aton\<close>, \<open>out\<close> the address of \<^verbatim>\<open>send_packet\<close>.
\<close>

definition loopif_init ::
  "fp_split \<Rightarrow> u32 \<Rightarrow> u32 \<Rightarrow> u32 \<Rightarrow> u32 \<Rightarrow> u8 list \<Rightarrow> 'x nsys_scheme \<Rightarrow> (u32 \<times> 'x nsys_scheme) option" where
  "loopif_init fp ioctl out lo_addr lo_mask stack s = do {
     (loopif, s) \<leftarrow> netif_create fp s;
     let s = upd_netif s loopif (\<lambda>n. n\<lparr>nf_output := out\<rparr>);
     let s = on_mem s (\<lambda>m. put_bytes m (nf_name loopif) [108, 111, 111, 112, 98, 97, 99, 107, 0]);
     (ret, m) \<leftarrow> inet_aton (d_mem s) stack lo_addr (nf_ipaddr loopif);
     kassert (ret = EOK);
     (ret, m) \<leftarrow> inet_aton m stack lo_mask (nf_netmask loopif);
     kassert (ret = EOK);
     let s = on_mem s (\<lambda>_. m);
     kassert (eth_addr_isany m (nf_hwaddr loopif));
     kassert (any_at m (nf_gateway loopif));
     let s = upd_netif s loopif (\<lambda>n. n\<lparr>nf_flags := NETIF_LOOPBACK OR NETIF_IP_RX_CHECKSUM_OFFLOAD OR NETIF_IP_TX_CHECKSUM_OFFLOAD OR
        NETIF_UDP_RX_CHECKSUM_OFFLOAD OR NETIF_UDP_TX_CHECKSUM_OFFLOAD OR NETIF_TCP_RX_CHECKSUM_OFFLOAD OR NETIF_TCP_TX_CHECKSUM_OFFLOAD\<rparr>);
     (_, s) \<leftarrow> device_install s DEV_NET DEV_NETIF loopif (nf_name loopif) 0 ioctl NULL NULL;
     Some (loopif, s)
   }"

end
