(* ===== verification/Onix_Arp.thy ===== *)
theory Onix_Arp
  imports Onix_Netif
begin

section \<open>The ARP cache (src/net/arp.c)\<close>

text \<open>
  An entry of the cache has 56 bytes. The list of the entries is sorted by the time at which they expire;
  an entry that is not known yet collects the packets that wait for it.
\<close>

definition ARP_ENTRY_SIZE :: u32 where "ARP_ENTRY_SIZE = 56"
definition ARP_SIZE :: u32 where "ARP_SIZE = 28"
definition ARP_OP_REQUEST :: u16 where "ARP_OP_REQUEST = 1"
definition ARP_OP_REPLY :: u16 where "ARP_OP_REPLY = 2"
definition ARP_HARDWARE_ETH :: u16 where "ARP_HARDWARE_ETH = 1"
definition ARP_HARDWARE_ETH_LEN :: u8 where "ARP_HARDWARE_ETH_LEN = 6"
definition ARP_PROTOCOL_IP :: u16 where "ARP_PROTOCOL_IP = 0x0800"
definition ARP_PROTOCOL_IP_LEN :: u8 where "ARP_PROTOCOL_IP_LEN = 4"
definition ARP_ENTRY_TIMEOUT :: u32 where "ARP_ENTRY_TIMEOUT = 600"
definition ARP_RETRY :: u32 where "ARP_RETRY = 5"
definition ARP_DELAY :: u32 where "ARP_DELAY = 2"
definition ARP_REFRESH_DELAY :: u32 where "ARP_REFRESH_DELAY = 1000"
definition ETH_BROADCAST :: "u8 list" where "ETH_BROADCAST = [255, 255, 255, 255, 255, 255]"

definition ae_hwaddr :: "u32 \<Rightarrow> u32" where "ae_hwaddr p = p + 8"
definition ae_ipaddr :: "u32 \<Rightarrow> u32" where "ae_ipaddr p = p + 14"
definition ae_pbufs :: "u32 \<Rightarrow> u32" where "ae_pbufs p = p + 36"

text \<open>The fields of an ARP packet.\<close>

definition ar_hwtype :: "u32 \<Rightarrow> u32" where "ar_hwtype p = p"
definition ar_proto :: "u32 \<Rightarrow> u32" where "ar_proto p = p + 2"
definition ar_hwlen :: "u32 \<Rightarrow> u32" where "ar_hwlen p = p + 4"
definition ar_protolen :: "u32 \<Rightarrow> u32" where "ar_protolen p = p + 5"
definition ar_opcode :: "u32 \<Rightarrow> u32" where "ar_opcode p = p + 6"
definition ar_hwsrc :: "u32 \<Rightarrow> u32" where "ar_hwsrc p = p + 8"
definition ar_ipsrc :: "u32 \<Rightarrow> u32" where "ar_ipsrc p = p + 14"
definition ar_hwdst :: "u32 \<Rightarrow> u32" where "ar_hwdst p = p + 18"
definition ar_ipdst :: "u32 \<Rightarrow> u32" where "ar_ipdst p = p + 24"

text \<open>\<^verbatim>\<open>time()\<close>\<close>

definition net_time :: "'x nfsenv \<Rightarrow> 'x nsys_scheme \<Rightarrow> u32" where
  "net_time e s = sys_time (d_k s) (fs_startup e)"

definition arp_key :: "'x nsys_scheme \<Rightarrow> u32 \<Rightarrow> u32" where
  "arp_key s node = ae_expires (arps s node)"

text \<open>
  A new entry; \<open>addr\<close> is the address itself. The field \<^verbatim>\<open>query\<close> is not set: it keeps what the block of
  the heap holds.
\<close>

definition arp_entry_get :: "'x nsys_scheme \<Rightarrow> u32 \<Rightarrow> u32 \<Rightarrow> (u32 \<times> 'x nsys_scheme) option" where
  "arp_entry_get s netif addr = do {
     (entry, s) \<leftarrow> p_kmalloc s ARP_ENTRY_SIZE;
     let s = upd_arp s entry (\<lambda>a. a\<lparr>ae_netif := netif\<rparr>);
     let s = on_mem s (\<lambda>m. put_bytes (store32 m (ae_ipaddr entry) addr) (ae_hwaddr entry) ETH_BROADCAST);
     let s = upd_arp s entry (\<lambda>a. a\<lparr>ae_expires := 0, ae_retry := 0, ae_used := 1\<rparr>);
     s \<leftarrow> on_heap s (\<lambda>h. list_init h (ae_pbufs entry));
     s \<leftarrow> on_heap s (\<lambda>h. list_insert_sort h (arp_entry_list s) entry (arp_key s));
     Some (entry, s)
   }"

partial_function (option) drop_waiting :: "'x nsys_scheme \<Rightarrow> u32 \<Rightarrow> 'x nsys_scheme option" where
  "drop_waiting s l = do {
     empty \<leftarrow> list_empty (k_heap (d_k s)) l;
     if empty then Some s
     else do {
       (pbuf, s) \<leftarrow> pop_pbuf s l;
       kassert (pb_count (pbufs s pbuf) \<le> 2);
       s \<leftarrow> pbuf_put s pbuf;
       drop_waiting s l
     }
   }"

declare drop_waiting.simps [code]

definition arp_entry_put :: "'x nsys_scheme \<Rightarrow> u32 \<Rightarrow> 'x nsys_scheme option" where
  "arp_entry_put s entry = do {
     s \<leftarrow> drop_waiting s (ae_pbufs entry);
     s \<leftarrow> on_heap s (\<lambda>h. list_remove h entry);
     p_kfree s entry
   }"

definition arp_lookup :: "'x nsys_scheme \<Rightarrow> u32 \<Rightarrow> u32 \<Rightarrow> (u32 \<times> 'x nsys_scheme) option" where
  "arp_lookup s netif addr = do {
     let query = read32 (d_mem s) (if \<not> same_net (d_mem s) (nf_ipaddr netif) addr (nf_netmask netif) then nf_gateway netif else addr);
     if ip_addr_isany (Some query) then Some (NULL, s)
     else do {
       entry \<leftarrow> list_find (k_heap (d_k s)) (arp_entry_list s)
         (\<lambda>p. Some (ip_addr_cmp (read32 (d_mem s) (ae_ipaddr p)) query \<and> netif = ae_netif (arps s p)));
       if entry \<noteq> NULL then Some (entry, s) else arp_entry_get s netif query
     }
   }"

definition arp_query :: "'x nfsenv \<Rightarrow> 'x nsys_scheme \<Rightarrow> u32 \<Rightarrow> (u32 \<times> 'x nsys_scheme) option" where
  "arp_query e s entry =
     (if ae_query (arps s entry) + ARP_DELAY > net_time e s then Some (- ETIME, s)
      else do {
        let t = net_time e s;
        let s = upd_arp s entry (\<lambda>a. a\<lparr>ae_query := t, ae_retry := ae_retry a + 1\<rparr>);
        let s = (if ae_retry (arps s entry) > 2 then on_mem s (\<lambda>m. put_bytes m (ae_hwaddr entry) ETH_BROADCAST) else s);
        (pbuf, s) \<leftarrow> pbuf_get s;
        let arp = pb_arp pbuf;
        let netif = ae_netif (arps s entry);
        let s = on_mem s (\<lambda>m. store16 m (ar_opcode arp) (htons ARP_OP_REQUEST));
        let s = on_mem s (\<lambda>m. store16 m (ar_hwtype arp) (htons ARP_HARDWARE_ETH));
        let s = on_mem s (\<lambda>m. m(ar_hwlen arp := ARP_HARDWARE_ETH_LEN));
        let s = on_mem s (\<lambda>m. store16 m (ar_proto arp) (htons ARP_PROTOCOL_IP));
        let s = on_mem s (\<lambda>m. m(ar_protolen arp := ARP_PROTOCOL_IP_LEN));
        let s = on_mem s (\<lambda>m. eth_addr_copy m (ar_hwdst arp) (ae_hwaddr entry));
        let s = on_mem s (\<lambda>m. ip_addr_copy m (ar_ipdst arp) (ae_ipaddr entry));
        let s = on_mem s (\<lambda>m. ip_addr_copy m (ar_ipsrc arp) (nf_ipaddr netif));
        let s = on_mem s (\<lambda>m. eth_addr_copy m (ar_hwsrc arp) (nf_hwaddr netif));
        (_, s) \<leftarrow> eth_output e s netif pbuf (ae_hwaddr entry) ETH_TYPE_ARP ARP_SIZE;
        Some (EOK, s)
      })"

text \<open>The packets that waited for an entry are sent to its address, the oldest first.\<close>

partial_function (option) send_waiting :: "'x nfsenv \<Rightarrow> 'x nsys_scheme \<Rightarrow> u32 \<Rightarrow> u32 \<Rightarrow> 'x nsys_scheme option" where
  "send_waiting e s netif entry = do {
     empty \<leftarrow> list_empty (k_heap (d_k s)) (ae_pbufs entry);
     if empty then Some s
     else do {
       (pbuf, s) \<leftarrow> pop_pbuf s (ae_pbufs entry);
       let s = on_mem s (\<lambda>m. eth_addr_copy m (eth_dst (pb_eth pbuf)) (ae_hwaddr entry));
       s \<leftarrow> netif_output e s netif pbuf;
       send_waiting e s netif entry
     }
   }"

declare send_waiting.simps [code]

definition arp_refresh :: "'x nfsenv \<Rightarrow> 'x nsys_scheme \<Rightarrow> u32 \<Rightarrow> u32 \<Rightarrow> (u32 \<times> 'x nsys_scheme) option" where
  "arp_refresh e s netif pbuf = do {
     let arp = pb_arp pbuf;
     if \<not> same_net (d_mem s) (ar_ipsrc arp) (nf_ipaddr netif) (nf_netmask netif) then Some (- EADDR, s)
     else do {
       (entry, s) \<leftarrow> arp_lookup s netif (ar_ipsrc arp);
       if entry = NULL then Some (- EADDR, s)
       else do {
         let s = on_mem s (\<lambda>m. eth_addr_copy m (ae_hwaddr entry) (ar_hwsrc arp));
         let t = net_time e s;
         let s = upd_arp s entry (\<lambda>a. a\<lparr>ae_expires := t + ARP_ENTRY_TIMEOUT, ae_retry := 0, ae_used := 0\<rparr>);
         s \<leftarrow> on_heap s (\<lambda>h. list_remove h entry);
         s \<leftarrow> on_heap s (\<lambda>h. list_insert_sort h (arp_entry_list s) entry (arp_key s));
         s \<leftarrow> send_waiting e s netif entry;
         Some (EOK, s)
       }
     }
   }"

definition arp_reply :: "'x nfsenv \<Rightarrow> 'x nsys_scheme \<Rightarrow> u32 \<Rightarrow> u32 \<Rightarrow> (u32 \<times> 'x nsys_scheme) option" where
  "arp_reply e s netif pbuf = do {
     let arp = pb_arp pbuf;
     let s = on_mem s (\<lambda>m. store16 m (ar_opcode arp) (htons ARP_OP_REPLY));
     let s = on_mem s (\<lambda>m. eth_addr_copy m (ar_hwdst arp) (ar_hwsrc arp));
     let s = on_mem s (\<lambda>m. ip_addr_copy m (ar_ipdst arp) (ar_ipsrc arp));
     let s = on_mem s (\<lambda>m. eth_addr_copy m (ar_hwsrc arp) (nf_hwaddr netif));
     let s = on_mem s (\<lambda>m. ip_addr_copy m (ar_ipsrc arp) (nf_ipaddr netif));
     let s = upd_pbuf s pbuf (\<lambda>b. b\<lparr>pb_count := pb_count b + 1\<rparr>);
     eth_output e s netif pbuf (ar_hwdst arp) ETH_TYPE_ARP ARP_SIZE
   }"

definition arp_input :: "'x nfsenv \<Rightarrow> 'x nsys_scheme \<Rightarrow> u32 \<Rightarrow> u32 \<Rightarrow> (u32 \<times> 'x nsys_scheme) option" where
  "arp_input e s netif pbuf = do {
     let arp = pb_arp pbuf;
     if htons (read16 (d_mem s) (ar_hwtype arp)) \<noteq> ARP_HARDWARE_ETH then Some (- EPROTO, s)
     else if htons (read16 (d_mem s) (ar_proto arp)) \<noteq> ARP_PROTOCOL_IP then Some (- EPROTO, s)
     else if \<not> same_ip (d_mem s) (nf_ipaddr netif) (ar_ipdst arp) then Some (- EPROTO, s)
     else do {
       let type = htons (read16 (d_mem s) (ar_opcode arp));
       if type = ARP_OP_REQUEST then arp_reply e s netif pbuf
       else if type = ARP_OP_REPLY then arp_refresh e s netif pbuf
       else Some (- EPROTO, s)
     }
   }"

text \<open>A packet for the address at \<open>addr\<close>: at once to a known neighbour, otherwise it waits for the answer to a query.\<close>

definition arp_eth_output ::
  "'x nfsenv \<Rightarrow> 'x nsys_scheme \<Rightarrow> u32 \<Rightarrow> u32 \<Rightarrow> u32 \<Rightarrow> u16 \<Rightarrow> u32 \<Rightarrow> (u32 \<times> 'x nsys_scheme) option" where
  "arp_eth_output e s netif pbuf addr type len = do {
     let eth = pb_eth pbuf;
     let s = on_mem s (\<lambda>m. store16 m (eth_type eth) (htons type));
     let s = on_mem s (\<lambda>m. eth_addr_copy m (eth_src eth) (nf_hwaddr netif));
     let s = upd_pbuf s pbuf (\<lambda>b. b\<lparr>pb_length := ETH_SIZE + len\<rparr>);
     if nf_flags (netifs s netif) AND NETIF_LOOPBACK \<noteq> 0 then do {
       let s = on_mem s (\<lambda>m. put_bytes m (eth_dst eth) [0, 0, 0, 0, 0, 0]);
       s \<leftarrow> netif_output e s netif pbuf;
       Some (EOK, s)
     }
     else do {
       own \<leftarrow> ip_addr_isown s addr;
       if own then do {
         let s = on_mem s (\<lambda>m. eth_addr_copy m (eth_dst eth) (nf_hwaddr netif));
         s \<leftarrow> netif_input e s netif pbuf;
         Some (EOK, s)
       }
       else do {
         (entry, s) \<leftarrow> arp_lookup s netif addr;
         if entry = NULL then Some (- EADDR, s)
         else if ae_expires (arps s entry) > net_time e s then do {
           let s = upd_arp s entry (\<lambda>a. a\<lparr>ae_used := ae_used a + 1\<rparr>);
           let s = on_mem s (\<lambda>m. eth_addr_copy m (eth_dst eth) (ae_hwaddr entry));
           s \<leftarrow> netif_output e s netif pbuf;
           Some (EOK, s)
         }
         else do {
           s \<leftarrow> on_heap s (\<lambda>h. list_push h (ae_pbufs entry) pbuf);
           (_, s) \<leftarrow> arp_query e s entry;
           Some (EOK, s)
         }
       }
     }
   }"

subsection \<open>The task that refreshes the cache\<close>

text \<open>The scan runs from the end of the list; the node before is read before the entry is treated.\<close>

partial_function (option) arp_scan :: "'x nfsenv \<Rightarrow> 'x nsys_scheme \<Rightarrow> u32 \<Rightarrow> 'x nsys_scheme option" where
  "arp_scan e s node =
     (if node = list_head (arp_entry_list s) then Some s
      else do {
        let entry = node;
        node \<leftarrow> get_prev (k_heap (d_k s)) node;
        s \<leftarrow> (if ae_expires (arps s entry) > net_time e s then Some s
             else if ae_retry (arps s entry) > ARP_RETRY then arp_entry_put s entry
             else if ae_used (arps s entry) = 0 then arp_entry_put s entry
             else do { (_, s) \<leftarrow> arp_query e s entry; Some s });
        arp_scan e s node
      })"

declare arp_scan.simps [code]

text \<open>One round of the loop of the task.\<close>

definition arp_thread :: "'x nfsenv \<Rightarrow> 'x nsys_scheme \<Rightarrow> 'x nsys_scheme option" where
  "arp_thread e s = do {
     s \<leftarrow> on_k s (\<lambda>k. task_sleep k ARP_REFRESH_DELAY);
     s \<leftarrow> dn_others (fs_dev e) s;
     node \<leftarrow> get_prev (k_heap (d_k s)) (list_tail (arp_entry_list s));
     arp_scan e s node
   }"

definition arp_init :: "'x nsys_scheme \<Rightarrow> u32 \<Rightarrow> 'x nsys_scheme option" where
  "arp_init s thread = do {
     s \<leftarrow> on_heap s (\<lambda>h. list_init h (arp_entry_list s));
     (task, s) \<leftarrow> task_create s thread [97, 114, 112] 5 KERNEL_USER;
     Some (s\<lparr>arp_task := task\<rparr>)
   }"

end
