(* ===== verification/Onix_Ip.thy ===== *)
theory Onix_Ip
  imports Onix_Arp
begin

section \<open>IP, ICMP and raw packets (src/net/ip.c, icmp.c, raw.c, pkt.c)\<close>

definition IP_SIZE :: u32 where "IP_SIZE = 20"
definition IP_VERSION_4 :: u8 where "IP_VERSION_4 = 4"
definition IP_TTL :: u8 where "IP_TTL = 64"
definition IP_PROTOCOL_ICMP :: u8 where "IP_PROTOCOL_ICMP = 1"
definition IP_PROTOCOL_TCP :: u8 where "IP_PROTOCOL_TCP = 6"
definition IP_PROTOCOL_UDP :: u8 where "IP_PROTOCOL_UDP = 17"
definition IP_FLAG_NOLAST :: u8 where "IP_FLAG_NOLAST = 4"

text \<open>
  The header: the first byte holds the length of the header in its lower and the version in its upper
  half, the byte at 6 the upper bits of the offset of a fragment and three flags.
\<close>

definition ip_header :: "mem \<Rightarrow> u32 \<Rightarrow> u8" where "ip_header m ip = m ip AND 0x0F"
definition ip_version :: "mem \<Rightarrow> u32 \<Rightarrow> u8" where "ip_version m ip = drop_bit 4 (m ip)"
definition ip_tos :: "u32 \<Rightarrow> u32" where "ip_tos ip = ip + 1"
definition ip_length :: "u32 \<Rightarrow> u32" where "ip_length ip = ip + 2"
definition ip_id :: "u32 \<Rightarrow> u32" where "ip_id ip = ip + 4"
definition ip_frag :: "u32 \<Rightarrow> u32" where "ip_frag ip = ip + 6"
definition ip_offset1 :: "u32 \<Rightarrow> u32" where "ip_offset1 ip = ip + 7"
definition ip_ttl :: "u32 \<Rightarrow> u32" where "ip_ttl ip = ip + 8"
definition ip_proto :: "u32 \<Rightarrow> u32" where "ip_proto ip = ip + 9"
definition ip_sum :: "u32 \<Rightarrow> u32" where "ip_sum ip = ip + 10"
definition ip_payload :: "u32 \<Rightarrow> u32" where "ip_payload ip = ip + 20"
definition ip_flags :: "mem \<Rightarrow> u32 \<Rightarrow> u8" where "ip_flags m ip = drop_bit 5 (m (ip_frag ip))"

subsection \<open>Output\<close>

text \<open>The header up to the checksum; \<open>dst\<close> may be the source of the packet itself, so it is copied first.\<close>

definition ip_fill :: "mem \<Rightarrow> u32 \<Rightarrow> u32 \<Rightarrow> u32 \<Rightarrow> u8 \<Rightarrow> u16 \<Rightarrow> mem" where
  "ip_fill m netif ip dst proto tot =
     (let m = m(ip := (m ip AND 0xF0) OR 5); m = m(ip := (m ip AND 0x0F) OR 0x40);
          m = m(ip_frag ip := m (ip_frag ip) AND 0x1F); m = m(ip_frag ip := m (ip_frag ip) AND 0xE0);
          m = m(ip_offset1 ip := 0, ip_tos ip := 0); m = store16 m (ip_id ip) 0;
          m = m(ip_ttl ip := IP_TTL, ip_proto ip := proto); m = store16 m (ip_length ip) (htons tot);
          m = ip_addr_copy m (ip_dst ip) dst; m = ip_addr_copy m (ip_src ip) (nf_ipaddr netif)
      in store16 m (ip_sum ip) 0)"

definition ip_output ::
  "'x nfsenv \<Rightarrow> 'x nsys_scheme \<Rightarrow> u32 \<Rightarrow> u32 \<Rightarrow> u32 \<Rightarrow> u8 \<Rightarrow> u16 \<Rightarrow> (u32 \<times> 'x nsys_scheme) option" where
  "ip_output e s netif pbuf dst proto len = do {
     let ip = pb_ip pbuf;
     let tot = ucast IP_SIZE + len;
     let s = on_mem s (\<lambda>m. ip_fill m netif ip dst proto tot);
     let s = (if nf_flags (netifs s netif) AND NETIF_IP_TX_CHECKSUM_OFFLOAD = 0
              then on_mem s (\<lambda>m. store16 m (ip_sum ip) (ip_chksum m ip IP_SIZE)) else s);
     arp_eth_output e s netif pbuf (ip_dst ip) ETH_TYPE_IP (ucast tot)
   }"

subsection \<open>ICMP\<close>

definition ICMP_ER :: u8 where "ICMP_ER = 0"
definition ICMP_ECHO :: u8 where "ICMP_ECHO = 8"

text \<open>Type, code and checksum come first; the query has an identifier and a number, then data.\<close>

definition icmp_type :: "u32 \<Rightarrow> u32" where "icmp_type p = p"
definition icmp_code :: "u32 \<Rightarrow> u32" where "icmp_code p = p + 1"
definition icmp_sum :: "u32 \<Rightarrow> u32" where "icmp_sum p = p + 2"
definition echo_id :: "u32 \<Rightarrow> u32" where "echo_id p = p + 4"
definition echo_seq :: "u32 \<Rightarrow> u32" where "echo_seq p = p + 6"
definition echo_payload :: "u32 \<Rightarrow> u32" where "echo_payload p = p + 8"

definition icmp_echo_reply :: "'x nfsenv \<Rightarrow> 'x nsys_scheme \<Rightarrow> u32 \<Rightarrow> u32 \<Rightarrow> (u32 \<times> 'x nsys_scheme) option" where
  "icmp_echo_reply e s netif pbuf = do {
     let ip = pb_ip pbuf;
     if broadcast_at (d_mem s) (ip_dst ip) (nf_netmask netif) \<or> ip_addr_ismulticast (read32 (d_mem s) (ip_dst ip)) then Some (- EPROTO, s)
     else if \<not> same_ip (d_mem s) (ip_dst ip) (nf_ipaddr netif) then Some (- EPROTO, s)
     else do {
       let icmp = ip_payload ip;
       let s = on_mem s (\<lambda>m. store16 (m(icmp_type icmp := ICMP_ER)) (icmp_sum icmp) 0);
       let len = read16 (d_mem s) (ip_length ip) - ucast IP_SIZE;
       let s = on_mem s (\<lambda>m. store16 m (icmp_sum icmp) (ip_chksum m icmp (ucast len)));
       let s = upd_pbuf s pbuf (\<lambda>b. b\<lparr>pb_count := pb_count b + 1\<rparr>);
       ip_output e s netif pbuf (ip_src ip) IP_PROTOCOL_ICMP len
     }
   }"

definition icmp_input :: "'x nfsenv \<Rightarrow> 'x nsys_scheme \<Rightarrow> u32 \<Rightarrow> u32 \<Rightarrow> (u32 \<times> 'x nsys_scheme) option" where
  "icmp_input e s netif pbuf = do {
     let type = d_mem s (icmp_type (ip_payload (pb_ip pbuf)));
     if type = ICMP_ER then Some (EOK, s)
     else if type = ICMP_ECHO then icmp_echo_reply e s netif pbuf
     else Some (EOK, s)
   }"

text \<open>\<^verbatim>\<open>"Onix icmp echo 1234567890 asdfghjkl;'"\<close> with its end.\<close>

definition echo_message :: "u8 list" where
  "echo_message = [79, 110, 105, 120, 32, 105, 99, 109, 112, 32, 101, 99, 104, 111, 32, 49, 50, 51, 52, 53, 54, 55, 56, 57, 48, 32,
     97, 115, 100, 102, 103, 104, 106, 107, 108, 59, 39, 0]"

definition icmp_echo :: "'x nfsenv \<Rightarrow> 'x nsys_scheme \<Rightarrow> u32 \<Rightarrow> u32 \<Rightarrow> u32 \<Rightarrow> (u32 \<times> 'x nsys_scheme) option" where
  "icmp_echo e s netif pbuf dst = do {
     let echo = ip_payload (pb_ip pbuf);
     let s = on_mem s (\<lambda>m. m(icmp_code echo := 0, icmp_type echo := ICMP_ECHO));
     let s = on_mem s (\<lambda>m. store16 (store16 m (echo_id echo) 1) (echo_seq echo) 1);
     let s = on_mem s (\<lambda>m. put_bytes m (echo_payload echo) echo_message);
     let len = 8 + of_nat (length echo_message);
     let s = on_mem s (\<lambda>m. store16 m (icmp_sum echo) 0);
     let s = on_mem s (\<lambda>m. store16 m (icmp_sum echo) (ip_chksum m echo len));
     ip_output e s netif pbuf dst IP_PROTOCOL_ICMP (ucast len)
   }"

subsection \<open>Messages\<close>

text \<open>
  A message as the socket calls pass it on, and the fields of socket addresses. The functions that
  receive return the message with the new length of the name.
\<close>

record msghdr_t =
  mh_name :: u32
  mh_namelen :: u32
  mh_iov :: u32
  mh_iovlen :: u32

definition AF_UNSPEC :: u16 where "AF_UNSPEC = 0"
definition AF_PACKET :: u16 where "AF_PACKET = 1"
definition AF_INET :: u16 where "AF_INET = 2"
definition PROTO_IP :: u32 where "PROTO_IP = 0"
definition PROTO_ICMP :: u32 where "PROTO_ICMP = 1"
definition PROTO_TCP :: u32 where "PROTO_TCP = 6"
definition PROTO_UDP :: u32 where "PROTO_UDP = 17"
definition SO_NETIF :: u32 where "SO_NETIF = 0x10000"
definition SOCKADDR_SIZE :: u32 where "SOCKADDR_SIZE = 16"
definition sin_family :: "u32 \<Rightarrow> u32" where "sin_family p = p"
definition sin_port :: "u32 \<Rightarrow> u32" where "sin_port p = p + 2"
definition sin_addr :: "u32 \<Rightarrow> u32" where "sin_addr p = p + 4"
definition sll_addr :: "u32 \<Rightarrow> u32" where "sll_addr p = p + 2"

definition put_sockaddr :: "mem \<Rightarrow> u32 \<Rightarrow> u16 \<Rightarrow> u32 \<Rightarrow> mem" where
  "put_sockaddr m sin port addr = ip_addr_copy (store16 (store16 m (sin_family sin) AF_INET) (sin_port sin) port) (sin_addr sin) addr"

text \<open>The running task waits, at most for \<open>timeout\<close>; the result is the reason with which it was woken.\<close>

definition block_me :: "'x nfsenv \<Rightarrow> 'x nsys_scheme \<Rightarrow> u32 \<Rightarrow> (u32 \<times> 'x nsys_scheme) option" where
  "block_me e s timeout = do {
     let task = running_task (d_k s);
     s \<leftarrow> on_k s (\<lambda>k. task_block k task NULL TASK_WAITING timeout);
     s \<leftarrow> dn_others (fs_dev e) s;
     Some (t_status (k_tasks (d_k s) task), s)
   }"

definition scatter :: "'x dsys_scheme \<Rightarrow> msghdr_t \<Rightarrow> u32 \<Rightarrow> u32 \<Rightarrow> u32 \<times> 'x dsys_scheme" where
  "scatter s msg buf n = (let r = iovec_write (d_mem s) (mh_iov msg) (mh_iovlen msg) buf n in (fst r, on_mem s (\<lambda>_. snd r)))"

definition gather :: "'x dsys_scheme \<Rightarrow> msghdr_t \<Rightarrow> u32 \<Rightarrow> u32 \<Rightarrow> u32 \<times> 'x dsys_scheme" where
  "gather s msg buf n = (let r = iovec_read (d_mem s) (mh_iov msg) (mh_iovlen msg) buf n in (fst r, on_mem s (\<lambda>_. snd r)))"

subsection \<open>Raw sockets\<close>

definition RAW_PCB_SIZE :: u32 where "RAW_PCB_SIZE = 40"
definition rw_laddr :: "u32 \<Rightarrow> u32" where "rw_laddr p = p + 8"
definition rw_raddr :: "u32 \<Rightarrow> u32" where "rw_raddr p = p + 12"
definition rw_list :: "u32 \<Rightarrow> u32" where "rw_list p = p + 20"

text \<open>The pointer of a socket to its control block, which must be set.\<close>

definition pcb_of :: "'x nsys_scheme \<Rightarrow> u32 \<Rightarrow> u32 option" where
  "pcb_of s sock = do { kassert (so_pcb (sockets s sock) \<noteq> NULL); Some (so_pcb (sockets s sock)) }"

definition raw_socket :: "'x nsys_scheme \<Rightarrow> u32 \<Rightarrow> u32 \<Rightarrow> u32 \<Rightarrow> u32 \<Rightarrow> (u32 \<times> 'x nsys_scheme) option" where
  "raw_socket s sock domain type protocol = do {
     kassert (so_pcb (sockets s sock) = NULL);
     (pcb, s) \<leftarrow> p_kmalloc s RAW_PCB_SIZE;
     let s = upd_socket s sock (\<lambda>x. x\<lparr>so_pcb := pcb\<rparr>);
     let s = upd_raw (zero_struct s pcb RAW_PCB_SIZE) pcb (\<lambda>_. \<lparr>rw_protocol = ucast protocol, rw_waiter = NULL\<rparr>);
     s \<leftarrow> on_heap s (\<lambda>h. list_init h (rw_list pcb));
     s \<leftarrow> on_heap s (\<lambda>h. list_push h (raw_pcb_list s) pcb);
     Some (EOK, s)
   }"

definition raw_close :: "'x nsys_scheme \<Rightarrow> u32 \<Rightarrow> (u32 \<times> 'x nsys_scheme) option" where
  "raw_close s sock = do {
     pcb \<leftarrow> pcb_of s sock;
     s \<leftarrow> drop_received s (rw_list pcb);
     s \<leftarrow> on_heap s (\<lambda>h. list_remove h pcb);
     s \<leftarrow> p_kfree s pcb;
     Some (EOK, s)
   }"

definition raw_bind :: "'x nsys_scheme \<Rightarrow> u32 \<Rightarrow> u32 \<Rightarrow> u32 \<Rightarrow> (u32 \<times> 'x nsys_scheme) option" where
  "raw_bind s sock name namelen = do {
     pcb \<leftarrow> pcb_of s sock;
     Some (EOK, on_mem s (\<lambda>m. ip_addr_copy m (rw_laddr pcb) (sin_addr name)))
   }"

definition raw_connect :: "'x nsys_scheme \<Rightarrow> u32 \<Rightarrow> u32 \<Rightarrow> u32 \<Rightarrow> (u32 \<times> 'x nsys_scheme) option" where
  "raw_connect s sock name namelen = do {
     pcb \<leftarrow> pcb_of s sock;
     Some (EOK, on_mem s (\<lambda>m. ip_addr_copy m (rw_raddr pcb) (sin_addr name)))
   }"

text \<open>\<open>namelen\<close> is a pointer here.\<close>

definition raw_getpeername :: "'x nsys_scheme \<Rightarrow> u32 \<Rightarrow> u32 \<Rightarrow> u32 \<Rightarrow> (u32 \<times> 'x nsys_scheme) option" where
  "raw_getpeername s sock name namelen = do {
     pcb \<leftarrow> pcb_of s sock;
     Some (EOK, on_mem s (\<lambda>m. store32 (put_sockaddr m name 0 (rw_raddr pcb)) namelen SOCKADDR_SIZE))
   }"

definition raw_getsockname :: "'x nsys_scheme \<Rightarrow> u32 \<Rightarrow> u32 \<Rightarrow> u32 \<Rightarrow> (u32 \<times> 'x nsys_scheme) option" where
  "raw_getsockname s sock name namelen = do {
     pcb \<leftarrow> pcb_of s sock;
     Some (EOK, on_mem s (\<lambda>m. store32 (put_sockaddr m name 0 (rw_laddr pcb)) namelen SOCKADDR_SIZE))
   }"

definition raw_recvmsg ::
  "'x nfsenv \<Rightarrow> 'x nsys_scheme \<Rightarrow> u32 \<Rightarrow> msghdr_t \<Rightarrow> u32 \<Rightarrow> (u32 \<times> msghdr_t \<times> 'x nsys_scheme) option" where
  "raw_recvmsg e s sock msg flags = do {
     pcb \<leftarrow> pcb_of s sock;
     empty \<leftarrow> list_empty (k_heap (d_k s)) (rw_list pcb);
     (ret, s) \<leftarrow> (if empty then do {
          let task = running_task (d_k s);
          let s = upd_raw s pcb (\<lambda>r. r\<lparr>rw_waiter := task\<rparr>);
          (ret, s) \<leftarrow> block_me e s (so_rcvtimeo (sockets s sock));
          Some (ret, upd_raw s pcb (\<lambda>r. r\<lparr>rw_waiter := NULL\<rparr>))
        } else Some (EOK, s));
     if ret \<noteq> EOK then Some (ret, msg, s)
     else do {
       (pbuf, s) \<leftarrow> pop_pbuf s (rw_list pcb);
       let r = scatter s msg (eth_payload (pb_eth pbuf)) (pb_length (pbufs s pbuf) - ETH_SIZE);
       let s = snd r;
       let s = (if mh_name msg \<noteq> NULL then on_mem s (\<lambda>m. put_sockaddr m (mh_name msg) 0 (ip_src (pb_ip pbuf))) else s);
       s \<leftarrow> pbuf_put s pbuf;
       Some (fst r, msg\<lparr>mh_namelen := SOCKADDR_SIZE\<rparr>, s)
     }
   }"

definition raw_sendmsg ::
  "'x nfsenv \<Rightarrow> 'x nsys_scheme \<Rightarrow> u32 \<Rightarrow> msghdr_t \<Rightarrow> u32 \<Rightarrow> (u32 \<times> 'x nsys_scheme) option" where
  "raw_sendmsg e s sock msg flags = do {
     let size = iovec_size (d_mem s) (mh_iov msg) (mh_iovlen msg);
     if size > IP_MTU then Some (- EMSGSIZE, s)
     else do {
       (ret, s) \<leftarrow> (if mh_name msg \<noteq> NULL then raw_connect s sock (mh_name msg) (mh_namelen msg) else Some (EOK, s));
       if sint ret < sint EOK then Some (ret, s)
       else do {
         (pbuf, s) \<leftarrow> pbuf_get s;
         let r = gather s msg (eth_payload (pb_eth pbuf)) size;
         let s = snd r;
         if sint (fst r) < sint EOK then Some (fst r, s)
         else do {
           let ip = pb_ip pbuf;
           netif \<leftarrow> netif_route s (ip_dst ip);
           kassert (netif \<noteq> NULL);
           (ret, s) \<leftarrow> ip_output e s netif pbuf (ip_dst ip) (d_mem s (ip_proto ip)) (ucast (size - IP_SIZE));
           if sint ret < sint EOK then Some (ret, s) else Some (size, s)
         }
       }
     }
   }"

definition raw_recv :: "'x nsys_scheme \<Rightarrow> u32 \<Rightarrow> u32 \<Rightarrow> (bool \<times> 'x nsys_scheme) option" where
  "raw_recv s pcb pbuf = do {
     let ip = pb_ip pbuf;
     if \<not> any_at (d_mem s) (rw_raddr pcb) \<and> \<not> same_ip (d_mem s) (rw_raddr pcb) (ip_src ip) then Some (False, s)
     else if \<not> any_at (d_mem s) (rw_laddr pcb) \<and> \<not> same_ip (d_mem s) (rw_laddr pcb) (ip_dst ip) then Some (False, s)
     else if ucast (rw_protocol (raws s pcb)) \<noteq> PROTO_IP \<and> rw_protocol (raws s pcb) \<noteq> ucast (d_mem s (ip_proto ip)) then Some (False, s)
     else do {
       let s = upd_pbuf s pbuf (\<lambda>b. b\<lparr>pb_count := pb_count b + 1\<rparr>);
       s \<leftarrow> on_heap s (\<lambda>h. list_push h (rw_list pcb) pbuf);
       let w = rw_waiter (raws s pcb);
       s \<leftarrow> (if w \<noteq> NULL then do { s \<leftarrow> wake s w; Some (upd_raw s pcb (\<lambda>r. r\<lparr>rw_waiter := NULL\<rparr>)) } else Some s);
       Some (True, s)
     }
   }"

partial_function (option) raw_input_loop :: "'x nsys_scheme \<Rightarrow> u32 \<Rightarrow> u32 \<Rightarrow> (bool \<times> 'x nsys_scheme) option" where
  "raw_input_loop s pbuf ptr =
     (if ptr = list_tail (raw_pcb_list s) then Some (False, s)
      else do {
        (ret, s) \<leftarrow> raw_recv s ptr pbuf;
        if ret then Some (True, s)
        else do { ptr \<leftarrow> get_next (k_heap (d_k s)) ptr; raw_input_loop s pbuf ptr }
      })"

declare raw_input_loop.simps [code]

definition raw_input :: "'x nsys_scheme \<Rightarrow> u32 \<Rightarrow> u32 \<Rightarrow> (bool \<times> 'x nsys_scheme) option" where
  "raw_input s netif pbuf = do {
     ptr \<leftarrow> get_next (k_heap (d_k s)) (list_head (raw_pcb_list s));
     raw_input_loop s pbuf ptr
   }"

subsection \<open>Packet sockets\<close>

definition PKT_PCB_SIZE :: u32 where "PKT_PCB_SIZE = 48"
definition kp_laddr :: "u32 \<Rightarrow> u32" where "kp_laddr p = p + 8"
definition kp_raddr :: "u32 \<Rightarrow> u32" where "kp_raddr p = p + 14"
definition kp_list :: "u32 \<Rightarrow> u32" where "kp_list p = p + 28"

definition pkt_socket :: "'x nsys_scheme \<Rightarrow> u32 \<Rightarrow> u32 \<Rightarrow> u32 \<Rightarrow> u32 \<Rightarrow> (u32 \<times> 'x nsys_scheme) option" where
  "pkt_socket s sock domain type protocol = do {
     kassert (so_pcb (sockets s sock) = NULL);
     (pcb, s) \<leftarrow> p_kmalloc s PKT_PCB_SIZE;
     let s = upd_socket s sock (\<lambda>x. x\<lparr>so_pcb := pcb\<rparr>);
     let s = upd_pkt (zero_struct s pcb PKT_PCB_SIZE) pcb (\<lambda>_. \<lparr>kp_netif = NULL, kp_protocol = protocol, kp_waiter = NULL\<rparr>);
     s \<leftarrow> on_heap s (\<lambda>h. list_init h (kp_list pcb));
     s \<leftarrow> on_heap s (\<lambda>h. list_push h (pkt_pcb_list s) pcb);
     Some (EOK, s)
   }"

definition pkt_close :: "'x nsys_scheme \<Rightarrow> u32 \<Rightarrow> (u32 \<times> 'x nsys_scheme) option" where
  "pkt_close s sock = do {
     pcb \<leftarrow> pcb_of s sock;
     s \<leftarrow> drop_received s (kp_list pcb);
     s \<leftarrow> on_heap s (\<lambda>h. list_remove h pcb);
     s \<leftarrow> p_kfree s pcb;
     Some (EOK, s)
   }"

definition pkt_bind :: "'x nsys_scheme \<Rightarrow> u32 \<Rightarrow> u32 \<Rightarrow> u32 \<Rightarrow> (u32 \<times> 'x nsys_scheme) option" where
  "pkt_bind s sock name namelen = do {
     pcb \<leftarrow> pcb_of s sock;
     Some (EOK, on_mem s (\<lambda>m. eth_addr_copy m (kp_laddr pcb) (sll_addr name)))
   }"

definition pkt_connect :: "'x nsys_scheme \<Rightarrow> u32 \<Rightarrow> u32 \<Rightarrow> u32 \<Rightarrow> (u32 \<times> 'x nsys_scheme) option" where
  "pkt_connect s sock name namelen = do {
     pcb \<leftarrow> pcb_of s sock;
     Some (EOK, on_mem s (\<lambda>m. eth_addr_copy m (kp_raddr pcb) (sll_addr name)))
   }"

definition pkt_getpeername :: "'x nsys_scheme \<Rightarrow> u32 \<Rightarrow> u32 \<Rightarrow> u32 \<Rightarrow> (u32 \<times> 'x nsys_scheme) option" where
  "pkt_getpeername s sock name namelen = do {
     pcb \<leftarrow> pcb_of s sock;
     Some (EOK, on_mem s (\<lambda>m. store32 (eth_addr_copy (store16 m (sin_family name) AF_PACKET) (sll_addr name) (kp_raddr pcb)) namelen SOCKADDR_SIZE))
   }"

definition pkt_getsockname :: "'x nsys_scheme \<Rightarrow> u32 \<Rightarrow> u32 \<Rightarrow> u32 \<Rightarrow> (u32 \<times> 'x nsys_scheme) option" where
  "pkt_getsockname s sock name namelen = do {
     pcb \<leftarrow> pcb_of s sock;
     Some (EOK, on_mem s (\<lambda>m. store32 (eth_addr_copy (store16 m (sin_family name) AF_PACKET) (sll_addr name) (kp_laddr pcb)) namelen SOCKADDR_SIZE))
   }"

definition pkt_setsockopt ::
  "'x nsys_scheme \<Rightarrow> u32 \<Rightarrow> u32 \<Rightarrow> u32 \<Rightarrow> u32 \<Rightarrow> u32 \<Rightarrow> (u32 \<times> 'x nsys_scheme) option" where
  "pkt_setsockopt s sock level optname optval optlen =
     (if optname = SO_NETIF then
        if optlen \<noteq> 4 then Some (- EINVAL, s)
        else do {
          netif \<leftarrow> netif_get s (read32 (d_mem s) optval);
          if netif = NULL then Some (- EINVAL, s)
          else do {
            pcb \<leftarrow> pcb_of s sock;
            Some (EOK, upd_pkt s pcb (\<lambda>k. k\<lparr>kp_netif := netif\<rparr>))
          }
        }
      else Some (- ENOSYS, s))"

definition pkt_recvmsg ::
  "'x nfsenv \<Rightarrow> 'x nsys_scheme \<Rightarrow> u32 \<Rightarrow> msghdr_t \<Rightarrow> u32 \<Rightarrow> (u32 \<times> msghdr_t \<times> 'x nsys_scheme) option" where
  "pkt_recvmsg e s sock msg flags = do {
     pcb \<leftarrow> pcb_of s sock;
     empty \<leftarrow> list_empty (k_heap (d_k s)) (kp_list pcb);
     (ret, s) \<leftarrow> (if empty then do {
          let task = running_task (d_k s);
          let s = upd_pkt s pcb (\<lambda>r. r\<lparr>kp_waiter := task\<rparr>);
          (ret, s) \<leftarrow> block_me e s (so_rcvtimeo (sockets s sock));
          Some (ret, upd_pkt s pcb (\<lambda>r. r\<lparr>kp_waiter := NULL\<rparr>))
        } else Some (EOK, s));
     if ret \<noteq> EOK then Some (ret, msg, s)
     else do {
       (pbuf, s) \<leftarrow> pop_pbuf s (kp_list pcb);
       let r = scatter s msg (pb_payload pbuf) (pb_length (pbufs s pbuf));
       s \<leftarrow> pbuf_put (snd r) pbuf;
       Some (fst r, msg, s)
     }
   }"

definition pkt_sendmsg ::
  "'x nfsenv \<Rightarrow> 'x nsys_scheme \<Rightarrow> u32 \<Rightarrow> msghdr_t \<Rightarrow> u32 \<Rightarrow> (u32 \<times> 'x nsys_scheme) option" where
  "pkt_sendmsg e s sock msg flags = do {
     pcb \<leftarrow> pcb_of s sock;
     let netif = kp_netif (pkts s pcb);
     if netif = NULL then Some (- EINVAL, s)
     else do {
       let size = iovec_size (d_mem s) (mh_iov msg) (mh_iovlen msg);
       if size > ETH_MTU then Some (- EMSGSIZE, s)
       else do {
         (ret, s) \<leftarrow> (if mh_name msg \<noteq> NULL then pkt_connect s sock (mh_name msg) (mh_namelen msg) else Some (EOK, s));
         if sint ret < sint EOK then Some (EOK, s)
         else do {
           (pbuf, s) \<leftarrow> pbuf_get s;
           let r = gather s msg (pb_payload pbuf) size;
           let s = snd r;
           if sint (fst r) < sint EOK then Some (fst r, s)
           else do {
             let s = upd_pbuf s pbuf (\<lambda>b. b\<lparr>pb_length := size\<rparr>);
             s \<leftarrow> netif_output e s netif pbuf;
             Some (size, s)
           }
         }
       }
     }
   }"

definition pkt_protocol_ok :: "'x nsys_scheme \<Rightarrow> u32 \<Rightarrow> u32 \<Rightarrow> bool" where
  "pkt_protocol_ok s pcb eth =
     (let protocol = kp_protocol (pkts s pcb);
          is_ip = (read16 (d_mem s) (eth_type eth) = ETH_TYPE_IP);
          proto = d_mem s (ip_proto (eth_payload eth)) in
      if protocol = PROTO_IP then is_ip
      else if protocol = PROTO_ICMP then is_ip \<and> proto = IP_PROTOCOL_ICMP
      else if protocol = PROTO_UDP then is_ip \<and> proto = IP_PROTOCOL_UDP
      else if protocol = PROTO_TCP then is_ip \<and> proto = IP_PROTOCOL_TCP
      else True)"

definition pkt_recv :: "'x nsys_scheme \<Rightarrow> u32 \<Rightarrow> u32 \<Rightarrow> (bool \<times> 'x nsys_scheme) option" where
  "pkt_recv s pcb pbuf = do {
     let eth = pb_eth pbuf;
     if \<not> eth_addr_isany (d_mem s) (kp_raddr pcb) \<and> \<not> eth_addr_cmp (d_mem s) (kp_raddr pcb) (eth_src eth) then Some (False, s)
     else if \<not> eth_addr_isany (d_mem s) (kp_laddr pcb) \<and> \<not> eth_addr_cmp (d_mem s) (kp_laddr pcb) (eth_dst eth) then Some (False, s)
     else if \<not> pkt_protocol_ok s pcb eth then Some (False, s)
     else do {
       let s = upd_pbuf s pbuf (\<lambda>b. b\<lparr>pb_count := pb_count b + 1\<rparr>);
       s \<leftarrow> on_heap s (\<lambda>h. list_push h (kp_list pcb) pbuf);
       let w = kp_waiter (pkts s pcb);
       s \<leftarrow> (if w \<noteq> NULL then do { s \<leftarrow> wake s w; Some (upd_pkt s pcb (\<lambda>r. r\<lparr>kp_waiter := NULL\<rparr>)) } else Some s);
       Some (True, s)
     }
   }"

partial_function (option) pkt_input_loop :: "'x nsys_scheme \<Rightarrow> u32 \<Rightarrow> u32 \<Rightarrow> u32 \<Rightarrow> (bool \<times> 'x nsys_scheme) option" where
  "pkt_input_loop s netif pbuf ptr =
     (if ptr = list_tail (pkt_pcb_list s) then Some (False, s)
      else do {
        (ret, s) \<leftarrow> (if netif \<noteq> kp_netif (pkts s ptr) then Some (False, s) else pkt_recv s ptr pbuf);
        if ret then Some (True, s)
        else do { ptr \<leftarrow> get_next (k_heap (d_k s)) ptr; pkt_input_loop s netif pbuf ptr }
      })"

declare pkt_input_loop.simps [code]

definition pkt_input :: "'x nsys_scheme \<Rightarrow> u32 \<Rightarrow> u32 \<Rightarrow> (bool \<times> 'x nsys_scheme) option" where
  "pkt_input s netif pbuf = do {
     ptr \<leftarrow> get_next (k_heap (d_k s)) (list_head (pkt_pcb_list s));
     pkt_input_loop s netif pbuf ptr
   }"

end
