(* ===== verification/Onix_Udp.thy ===== *)
theory Onix_Udp
  imports Onix_Ip
begin

section \<open>UDP (src/net/udp.c)\<close>

definition UDP_PCB_SIZE :: u32 where "UDP_PCB_SIZE = 44"
definition UDP_SIZE :: u32 where "UDP_SIZE = 8"
definition UDP_FLAG_BROADCAST :: u32 where "UDP_FLAG_BROADCAST = 2"
definition UDP_FLAG_CONNECTED :: u32 where "UDP_FLAG_CONNECTED = 4"
definition up_laddr :: "u32 \<Rightarrow> u32" where "up_laddr p = p + 8"
definition up_raddr :: "u32 \<Rightarrow> u32" where "up_raddr p = p + 12"
definition up_list :: "u32 \<Rightarrow> u32" where "up_list p = p + 24"
definition udp_sport :: "u32 \<Rightarrow> u32" where "udp_sport p = p"
definition udp_dport :: "u32 \<Rightarrow> u32" where "udp_dport p = p + 2"
definition udp_length :: "u32 \<Rightarrow> u32" where "udp_length p = p + 4"
definition udp_sum :: "u32 \<Rightarrow> u32" where "udp_sum p = p + 6"
definition udp_payload :: "u32 \<Rightarrow> u32" where "udp_payload p = p + 8"

definition udp_socket :: "'x nsys_scheme \<Rightarrow> u32 \<Rightarrow> u32 \<Rightarrow> u32 \<Rightarrow> u32 \<Rightarrow> (u32 \<times> 'x nsys_scheme) option" where
  "udp_socket s sock domain type protocol = do {
     kassert (so_pcb (sockets s sock) = NULL);
     (pcb, s) \<leftarrow> p_kmalloc s UDP_PCB_SIZE;
     let s = upd_socket s sock (\<lambda>x. x\<lparr>so_pcb := pcb\<rparr>);
     let s = upd_udp (zero_struct s pcb UDP_PCB_SIZE) pcb (\<lambda>_. \<lparr>up_lport = 0, up_rport = 0, up_flags = 0, up_waiter = NULL\<rparr>);
     s \<leftarrow> on_heap s (\<lambda>h. list_init h (up_list pcb));
     s \<leftarrow> on_heap s (\<lambda>h. list_push h (udp_pcb_list s) pcb);
     Some (EOK, s)
   }"

definition udp_close :: "'x nsys_scheme \<Rightarrow> u32 \<Rightarrow> (u32 \<times> 'x nsys_scheme) option" where
  "udp_close s sock = do {
     pcb \<leftarrow> pcb_of s sock;
     s \<leftarrow> drop_received s (up_list pcb);
     s \<leftarrow> on_heap s (\<lambda>h. list_remove h pcb);
     s \<leftarrow> (if up_lport (udps s pcb) \<noteq> 0 then do {
            ports \<leftarrow> port_put (udp_ports s) (up_lport (udps s pcb));
            Some (s\<lparr>udp_ports := ports\<rparr>)
          } else Some s);
     s \<leftarrow> p_kfree s pcb;
     Some (EOK, s)
   }"

definition udp_bind :: "'x nsys_scheme \<Rightarrow> u32 \<Rightarrow> u32 \<Rightarrow> u32 \<Rightarrow> (u32 \<times> 'x nsys_scheme) option" where
  "udp_bind s sock name namelen = do {
     own \<leftarrow> (if any_at (d_mem s) (sin_addr name) then Some True else ip_addr_isown s (sin_addr name));
     if \<not> own then Some (- EADDR, s)
     else do {
       pcb \<leftarrow> pcb_of s sock;
       let s = on_mem s (\<lambda>m. ip_addr_copy m (up_laddr pcb) (sin_addr name));
       (ret, ports) \<leftarrow> port_get (udp_ports s) (htons (read16 (d_mem s) (sin_port name)));
       let s = s\<lparr>udp_ports := ports\<rparr>;
       if sint ret < 0 then Some (ret, s) else Some (EOK, upd_udp s pcb (\<lambda>p. p\<lparr>up_lport := ucast ret\<rparr>))
     }
   }"

definition udp_connect :: "'x nsys_scheme \<Rightarrow> u32 \<Rightarrow> u32 \<Rightarrow> u32 \<Rightarrow> (u32 \<times> 'x nsys_scheme) option" where
  "udp_connect s sock name namelen = do {
     pcb \<leftarrow> pcb_of s sock;
     let s = on_mem s (\<lambda>m. ip_addr_copy m (up_raddr pcb) (sin_addr name));
     let port = htons (read16 (d_mem s) (sin_port name));
     let s = upd_udp s pcb (\<lambda>p. p\<lparr>up_rport := port, up_flags := up_flags p OR UDP_FLAG_CONNECTED\<rparr>);
     s \<leftarrow> (if up_lport (udps s pcb) = 0 then do {
            (ret, ports) \<leftarrow> port_get (udp_ports s) 0;
            Some (upd_udp (s\<lparr>udp_ports := ports\<rparr>) pcb (\<lambda>p. p\<lparr>up_lport := ucast ret\<rparr>))
          } else Some s);
     Some (EOK, s)
   }"

definition udp_getpeername :: "'x nsys_scheme \<Rightarrow> u32 \<Rightarrow> u32 \<Rightarrow> u32 \<Rightarrow> (u32 \<times> 'x nsys_scheme) option" where
  "udp_getpeername s sock name namelen = do {
     pcb \<leftarrow> pcb_of s sock;
     Some (EOK, on_mem s (\<lambda>m. store32 (put_sockaddr m name (htons (up_rport (udps s pcb))) (up_raddr pcb)) namelen SOCKADDR_SIZE))
   }"

definition udp_getsockname :: "'x nsys_scheme \<Rightarrow> u32 \<Rightarrow> u32 \<Rightarrow> u32 \<Rightarrow> (u32 \<times> 'x nsys_scheme) option" where
  "udp_getsockname s sock name namelen = do {
     pcb \<leftarrow> pcb_of s sock;
     Some (EOK, on_mem s (\<lambda>m. store32 (put_sockaddr m name (htons (up_lport (udps s pcb))) (up_laddr pcb)) namelen SOCKADDR_SIZE))
   }"

text \<open>The addresses are pointers, the ports in the order of the host.\<close>

definition udp_matches :: "'x nsys_scheme \<Rightarrow> u32 \<Rightarrow> u32 \<Rightarrow> u16 \<Rightarrow> u32 \<Rightarrow> u16 \<Rightarrow> bool" where
  "udp_matches s pcb raddr rport laddr lport \<longleftrightarrow>
     up_rport (udps s pcb) = rport \<and> up_lport (udps s pcb) = lport \<and>
     (any_at (d_mem s) (up_raddr pcb) \<or> same_ip (d_mem s) (up_raddr pcb) raddr) \<and>
     (any_at (d_mem s) (up_laddr pcb) \<or> same_ip (d_mem s) (up_laddr pcb) laddr)"

definition find_udp_pcb :: "'x nsys_scheme \<Rightarrow> u32 \<Rightarrow> u16 \<Rightarrow> u32 \<Rightarrow> u16 \<Rightarrow> u32 option" where
  "find_udp_pcb s raddr rport laddr lport =
     list_find (k_heap (d_k s)) (udp_pcb_list s) (\<lambda>pcb. Some (udp_matches s pcb raddr rport laddr lport))"

definition udp_recvmsg ::
  "'x nfsenv \<Rightarrow> 'x nsys_scheme \<Rightarrow> u32 \<Rightarrow> msghdr_t \<Rightarrow> u32 \<Rightarrow> (u32 \<times> msghdr_t \<times> 'x nsys_scheme) option" where
  "udp_recvmsg e s sock msg flags = do {
     pcb \<leftarrow> pcb_of s sock;
     empty \<leftarrow> list_empty (k_heap (d_k s)) (up_list pcb);
     (ret, s) \<leftarrow> (if empty then do {
          let task = running_task (d_k s);
          let s = upd_udp s pcb (\<lambda>r. r\<lparr>up_waiter := task\<rparr>);
          (ret, s) \<leftarrow> block_me e s (so_rcvtimeo (sockets s sock));
          Some (ret, upd_udp s pcb (\<lambda>r. r\<lparr>up_waiter := NULL\<rparr>))
        } else Some (EOK, s));
     if ret \<noteq> EOK then Some (ret, msg, s)
     else do {
       (pbuf, s) \<leftarrow> pop_pbuf s (up_list pcb);
       let udp = ip_payload (pb_ip pbuf);
       let len = htons (read16 (d_mem s) (udp_length udp)) - ucast UDP_SIZE;
       let r = scatter s msg (udp_payload udp) (ucast len);
       let s = snd r;
       let s = (if mh_name msg \<noteq> NULL
                then on_mem s (\<lambda>m. put_sockaddr m (mh_name msg) (read16 m (udp_sport udp)) (ip_src (pb_ip pbuf))) else s);
       s \<leftarrow> pbuf_put s pbuf;
       Some (fst r, msg\<lparr>mh_namelen := SOCKADDR_SIZE\<rparr>, s)
     }
   }"

definition udp_output ::
  "'x nfsenv \<Rightarrow> 'x nsys_scheme \<Rightarrow> u32 \<Rightarrow> u32 \<Rightarrow> u32 \<Rightarrow> u32 \<Rightarrow> u16 \<Rightarrow> u16 \<Rightarrow> (u32 \<times> 'x nsys_scheme) option" where
  "udp_output e s netif pcb pbuf dst dport len = do {
     let dst = (if dst = NULL then up_raddr pcb else dst);
     if any_at (d_mem s) dst then Some (- EADDR, s)
     else do {
       let dport = (if dport = 0 then up_rport (udps s pcb) else dport);
       if dport = 0 then Some (- ENOTCONN, s)
       else do {
         kassert (netif \<noteq> NULL);
         if broadcast_at (d_mem s) dst (nf_netmask netif) \<and> up_flags (udps s pcb) AND UDP_FLAG_BROADCAST = 0 then Some (- EACCES, s)
         else do {
           let udp = ip_payload (pb_ip pbuf);
           let s = on_mem s (\<lambda>m. store16 m (udp_sport udp) (htons (up_lport (udps s pcb))));
           let s = on_mem s (\<lambda>m. store16 m (udp_dport udp) (htons dport));
           let src = (if any_at (d_mem s) (up_laddr pcb) then nf_ipaddr netif else up_laddr pcb);
           let tot = len + ucast UDP_SIZE;
           let s = on_mem s (\<lambda>m. store16 (store16 m (udp_length udp) (htons tot)) (udp_sum udp) 0);
           let s = (if nf_flags (netifs s netif) AND NETIF_UDP_TX_CHECKSUM_OFFLOAD = 0
                    then on_mem s (\<lambda>m. store16 m (udp_sum udp) (inet_chksum m udp tot src (up_raddr pcb) (ucast IP_PROTOCOL_UDP))) else s);
           ip_output e s netif pbuf (up_raddr pcb) IP_PROTOCOL_UDP tot
         }
       }
     }
   }"

text \<open>
  The address that \<^verbatim>\<open>udp_sendmsg\<close> binds an unbound socket to is a local structure; it lies below the
  local structure of the call that \<^verbatim>\<open>udp_sendmsg\<close> serves.
\<close>

definition udp_sendmsg ::
  "'x nfsenv \<Rightarrow> 'x nsys_scheme \<Rightarrow> u32 \<Rightarrow> msghdr_t \<Rightarrow> u32 \<Rightarrow> (u32 \<times> 'x nsys_scheme) option" where
  "udp_sendmsg e s sock msg flags = do {
     let size = iovec_size (d_mem s) (mh_iov msg) (mh_iovlen msg);
     if size > IP_MTU - IP_SIZE - UDP_SIZE then Some (- EMSGSIZE, s)
     else do {
       pcb \<leftarrow> pcb_of s sock;
       (ret, s) \<leftarrow> (if up_lport (udps s pcb) = 0 then do {
            let sin = fs_local e - 64;
            let s = on_mem s (\<lambda>m. store16 (memset m sin 0 SOCKADDR_SIZE) (sin_family sin) AF_INET);
            udp_bind s sock sin SOCKADDR_SIZE
          } else Some (EOK, s));
       if sint ret < sint EOK then Some (ret, s)
       else do {
         (pbuf, s) \<leftarrow> pbuf_get s;
         let r = gather s msg (udp_payload (ip_payload (pb_ip pbuf))) size;
         let s = snd r;
         if sint (fst r) < sint EOK then Some (fst r, s)
         else do {
           let name = mh_name msg;
           netif \<leftarrow> netif_route s (if name \<noteq> NULL then sin_addr name else up_raddr pcb);
           (ret, s) \<leftarrow> (if name \<noteq> NULL
              then udp_output e s netif pcb pbuf (sin_addr name) (htons (read16 (d_mem s) (sin_port name))) (ucast (fst r))
              else udp_output e s netif pcb pbuf NULL 0 (ucast (fst r)));
           if sint ret < sint EOK then Some (ret, s) else Some (size, s)
         }
       }
     }
   }"

definition udp_input :: "'x nsys_scheme \<Rightarrow> u32 \<Rightarrow> u32 \<Rightarrow> (u32 \<times> 'x nsys_scheme) option" where
  "udp_input s netif pbuf = do {
     let ip = pb_ip pbuf;
     let udp = ip_payload ip;
     let s = on_mem s (\<lambda>m. store16 m (udp_sport udp) (htons (read16 m (udp_sport udp))));
     let s = on_mem s (\<lambda>m. store16 m (udp_dport udp) (htons (read16 m (udp_dport udp))));
     pcb \<leftarrow> find_udp_pcb s (ip_src ip) (read16 (d_mem s) (udp_sport udp)) (ip_dst ip) (read16 (d_mem s) (udp_dport udp));
     if pcb = NULL then Some (- EADDR, s)
     else do {
       let s = upd_pbuf s pbuf (\<lambda>b. b\<lparr>pb_count := pb_count b + 1\<rparr>);
       s \<leftarrow> on_heap s (\<lambda>h. list_push h (up_list pcb) pbuf);
       let w = up_waiter (udps s pcb);
       s \<leftarrow> (if w \<noteq> NULL then do { s \<leftarrow> wake s w; Some (upd_udp s pcb (\<lambda>r. r\<lparr>up_waiter := NULL\<rparr>)) } else Some s);
       Some (EOK, s)
     }
   }"

definition udp_init :: "'x nsys_scheme \<Rightarrow> u8 list \<Rightarrow> 'x nsys_scheme option" where
  "udp_init s garbage = do {
     s \<leftarrow> on_heap s (\<lambda>h. list_init h (udp_pcb_list s));
     (ports, p) \<leftarrow> port_init (km_pool (k_mem (d_k s))) garbage;
     Some (with_pool s p\<lparr>udp_ports := ports\<rparr>)
   }"

end
