(* ===== verification/Onix_Socket.thy ===== *)
theory Onix_Socket
  imports Onix_Udp
begin

section \<open>Input of packets and sockets (src/net/eth.c, ip.c, netif.c, socket.c)\<close>

text \<open>
  What the network code calls through pointers, and the TCP input that \<^verbatim>\<open>ip_input\<close> calls, are in an
  environment: the output function of a network card at an address, the DHCP client, and the table of
  functions at the address that a socket type registers. A socket function gets a socket; \<^verbatim>\<open>accept\<close>
  also stores a new one, \<^verbatim>\<open>recvmsg\<close> returns the message with the length of the name.
\<close>

record 'x socket_op_t =
  sop_socket :: "'x nsys_scheme \<Rightarrow> u32 \<Rightarrow> u32 \<Rightarrow> u32 \<Rightarrow> u32 \<Rightarrow> (u32 \<times> 'x nsys_scheme) option"
  sop_close :: "'x nsys_scheme \<Rightarrow> u32 \<Rightarrow> (u32 \<times> 'x nsys_scheme) option"
  sop_listen :: "'x nsys_scheme \<Rightarrow> u32 \<Rightarrow> u32 \<Rightarrow> (u32 \<times> 'x nsys_scheme) option"
  sop_accept :: "'x nsys_scheme \<Rightarrow> u32 \<Rightarrow> u32 \<Rightarrow> u32 \<Rightarrow> u32 \<Rightarrow> (u32 \<times> u32 \<times> 'x nsys_scheme) option"
  sop_bind :: "'x nsys_scheme \<Rightarrow> u32 \<Rightarrow> u32 \<Rightarrow> u32 \<Rightarrow> (u32 \<times> 'x nsys_scheme) option"
  sop_connect :: "'x nsys_scheme \<Rightarrow> u32 \<Rightarrow> u32 \<Rightarrow> u32 \<Rightarrow> (u32 \<times> 'x nsys_scheme) option"
  sop_shutdown :: "'x nsys_scheme \<Rightarrow> u32 \<Rightarrow> u32 \<Rightarrow> (u32 \<times> 'x nsys_scheme) option"
  sop_getpeername :: "'x nsys_scheme \<Rightarrow> u32 \<Rightarrow> u32 \<Rightarrow> u32 \<Rightarrow> (u32 \<times> 'x nsys_scheme) option"
  sop_getsockname :: "'x nsys_scheme \<Rightarrow> u32 \<Rightarrow> u32 \<Rightarrow> u32 \<Rightarrow> (u32 \<times> 'x nsys_scheme) option"
  sop_getsockopt :: "'x nsys_scheme \<Rightarrow> u32 \<Rightarrow> u32 \<Rightarrow> u32 \<Rightarrow> u32 \<Rightarrow> u32 \<Rightarrow> (u32 \<times> 'x nsys_scheme) option"
  sop_setsockopt :: "'x nsys_scheme \<Rightarrow> u32 \<Rightarrow> u32 \<Rightarrow> u32 \<Rightarrow> u32 \<Rightarrow> u32 \<Rightarrow> (u32 \<times> 'x nsys_scheme) option"
  sop_recvmsg :: "'x nsys_scheme \<Rightarrow> u32 \<Rightarrow> msghdr_t \<Rightarrow> u32 \<Rightarrow> (u32 \<times> msghdr_t \<times> 'x nsys_scheme) option"
  sop_sendmsg :: "'x nsys_scheme \<Rightarrow> u32 \<Rightarrow> msghdr_t \<Rightarrow> u32 \<Rightarrow> (u32 \<times> 'x nsys_scheme) option"

record 'x netenv =
  ne_fs :: "'x nfsenv"
  ne_output :: "u32 \<Rightarrow> 'x nsys_scheme \<Rightarrow> u32 \<Rightarrow> u32 \<Rightarrow> 'x nsys_scheme option"
  ne_tcp_input :: "'x nsys_scheme \<Rightarrow> u32 \<Rightarrow> u32 \<Rightarrow> (u32 \<times> 'x nsys_scheme) option"
  ne_dhcp :: "'x dhcp"
  ne_sock :: "u32 \<Rightarrow> 'x socket_op_t"

subsection \<open>From the wire to the protocols\<close>

definition ip_input :: "'x netenv \<Rightarrow> 'x nsys_scheme \<Rightarrow> u32 \<Rightarrow> u32 \<Rightarrow> (u32 \<times> 'x nsys_scheme) option" where
  "ip_input e s netif pbuf = do {
     let ip = pb_ip pbuf;
     if ip_version (d_mem s) ip \<noteq> IP_VERSION_4 then Some (- EPROTO, s)
     else if d_mem s (ip_ttl ip) = 0 then Some (- ETIME, s)
     else if ucast (ip_header (d_mem s) ip) \<noteq> IP_SIZE div 4 then Some (- EOPTION, s)
     else if ip_flags (d_mem s) ip AND IP_FLAG_NOLAST \<noteq> 0 then Some (- EFRAG, s)
     else if \<not> same_ip (d_mem s) (ip_dst ip) (nf_ipaddr netif) then Some (- EADDR, s)
     else do {
       let s = on_mem s (\<lambda>m. store16 m (ip_length ip) (htons (read16 m (ip_length ip))));
       let s = on_mem s (\<lambda>m. store16 m (ip_id ip) (htons (read16 m (ip_id ip))));
       (eaten, s) \<leftarrow> raw_input s netif pbuf;
       if eaten then Some (0, s)
       else do {
         let proto = d_mem s (ip_proto ip);
         if proto = IP_PROTOCOL_TCP then ne_tcp_input e s netif pbuf
         else if proto = IP_PROTOCOL_UDP then udp_input s netif pbuf
         else if proto = IP_PROTOCOL_ICMP then icmp_input (ne_fs e) s netif pbuf
         else Some (- EPROTO, s)
       }
     }
   }"

definition eth_input :: "'x netenv \<Rightarrow> 'x nsys_scheme \<Rightarrow> u32 \<Rightarrow> u32 \<Rightarrow> (u32 \<times> 'x nsys_scheme) option" where
  "eth_input e s netif pbuf = do {
     let eth = pb_eth pbuf;
     let s = on_mem s (\<lambda>m. store16 m (eth_type eth) (htons (read16 m (eth_type eth))));
     (eaten, s) \<leftarrow> pkt_input s netif pbuf;
     if eaten then Some (EOK, s)
     else do {
       let type = read16 (d_mem s) (eth_type eth);
       if type = ETH_TYPE_IP then ip_input e s netif pbuf
       else if type = ETH_TYPE_IPV6 then Some (EOK, s)
       else if type = ETH_TYPE_ARP then arp_input (ne_fs e) s netif pbuf
       else Some (- EPROTO, s)
     }
   }"

text \<open>One packet of every interface that has one; the number of packets is counted.\<close>

definition unlinked_node :: "'x dsys_scheme \<Rightarrow> u32 \<Rightarrow> bool" where
  "unlinked_node s p \<longleftrightarrow> node_next (k_heap (d_k s)) p = NULL \<and> node_prev (k_heap (d_k s)) p = NULL"

partial_function (option) neti_scan :: "'x netenv \<Rightarrow> 'x nsys_scheme \<Rightarrow> u32 \<Rightarrow> u32 \<Rightarrow> (u32 \<times> 'x nsys_scheme) option" where
  "neti_scan e s netif cnt =
     (if netif = list_tail (netif_list s) then Some (cnt, s)
      else do {
        empty \<leftarrow> list_empty (k_heap (d_k s)) (nf_rx_list netif);
        (cnt, s) \<leftarrow> (if empty then Some (cnt, s)
          else do {
            s \<leftarrow> acquire (fs_dev (ne_fs e)) s (nf_rx_lock netif);
            (pbuf, s) \<leftarrow> pop_pbuf s (nf_rx_list netif);
            kassert (unlinked_node s pbuf);
            let s = upd_netif s netif (\<lambda>n. n\<lparr>nf_rx_size := nf_rx_size n - 1\<rparr>);
            s \<leftarrow> release (fs_dev (ne_fs e)) s (nf_rx_lock netif);
            (_, s) \<leftarrow> eth_input e s netif pbuf;
            s \<leftarrow> pbuf_put s pbuf;
            Some (cnt + 1, s)
          });
        nxt \<leftarrow> get_next (k_heap (d_k s)) netif;
        neti_scan e s nxt cnt
      })"

partial_function (option) neto_scan :: "'x netenv \<Rightarrow> 'x nsys_scheme \<Rightarrow> u32 \<Rightarrow> u32 \<Rightarrow> (u32 \<times> 'x nsys_scheme) option" where
  "neto_scan e s netif cnt =
     (if netif = list_tail (netif_list s) then Some (cnt, s)
      else do {
        empty \<leftarrow> list_empty (k_heap (d_k s)) (nf_tx_list netif);
        (cnt, s) \<leftarrow> (if empty then Some (cnt, s)
          else do {
            s \<leftarrow> acquire (fs_dev (ne_fs e)) s (nf_tx_lock netif);
            (pbuf, s) \<leftarrow> pop_pbuf s (nf_tx_list netif);
            kassert (unlinked_node s pbuf);
            let s = upd_netif s netif (\<lambda>n. n\<lparr>nf_tx_size := nf_tx_size n - 1\<rparr>);
            s \<leftarrow> release (fs_dev (ne_fs e)) s (nf_tx_lock netif);
            kassert (nf_output (netifs s netif) \<noteq> NULL);
            s \<leftarrow> ne_output e (nf_output (netifs s netif)) s netif pbuf;
            Some (cnt + 1, s)
          });
        nxt \<leftarrow> get_next (k_heap (d_k s)) netif;
        neto_scan e s nxt cnt
      })"

declare neti_scan.simps [code] neto_scan.simps [code]

text \<open>One round of the loop of each of the two tasks: a pass over the interfaces, and a wait when it found nothing.\<close>

definition wait_for_packets :: "'x netenv \<Rightarrow> 'x nsys_scheme \<Rightarrow> u32 \<Rightarrow> 'x nsys_scheme option" where
  "wait_for_packets e s thread = do {
     kassert (running_task (d_k s) = thread);
     (ret, s) \<leftarrow> block_me (ne_fs e) s TIMELESS;
     kassert (ret = EOK);
     Some s
   }"

definition neti_thread :: "'x netenv \<Rightarrow> 'x nsys_scheme \<Rightarrow> 'x nsys_scheme option" where
  "neti_thread e s = do {
     ptr \<leftarrow> get_next (k_heap (d_k s)) (list_head (netif_list s));
     (cnt, s) \<leftarrow> neti_scan e s ptr 0;
     if cnt = 0 then wait_for_packets e s (neti_task s) else Some s
   }"

definition neto_thread :: "'x netenv \<Rightarrow> 'x nsys_scheme \<Rightarrow> 'x nsys_scheme option" where
  "neto_thread e s = do {
     ptr \<leftarrow> get_next (k_heap (d_k s)) (list_head (netif_list s));
     (cnt, s) \<leftarrow> neto_scan e s ptr 0;
     if cnt = 0 then wait_for_packets e s (neto_task s) else Some s
   }"

definition netif_init :: "'x nsys_scheme \<Rightarrow> u32 \<Rightarrow> u32 \<Rightarrow> 'x nsys_scheme option" where
  "netif_init s ti to = do {
     s \<leftarrow> on_heap s (\<lambda>h. list_init h (netif_list s));
     (task, s) \<leftarrow> task_create s ti [110, 101, 116, 105] 5 KERNEL_USER;
     let s = s\<lparr>neti_task := task\<rparr>;
     (task, s) \<leftarrow> task_create s to [110, 101, 105, 111] 5 KERNEL_USER;
     Some (s\<lparr>neto_task := task\<rparr>)
   }"

subsection \<open>Sockets as inodes\<close>

definition SOCK_STREAM :: u32 where "SOCK_STREAM = 1"
definition SOCK_DGRAM :: u32 where "SOCK_DGRAM = 2"
definition SOCK_RAW :: u32 where "SOCK_RAW = 3"
definition SOCK_TYPE_NONE :: u32 where "SOCK_TYPE_NONE = 0"
definition SOCK_TYPE_PKT :: u32 where "SOCK_TYPE_PKT = 1"
definition SOCK_TYPE_RAW :: u32 where "SOCK_TYPE_RAW = 2"
definition SOCK_TYPE_TCP :: u32 where "SOCK_TYPE_TCP = 3"
definition SOCK_TYPE_UDP :: u32 where "SOCK_TYPE_UDP = 4"
definition SOCK_TYPE_NUM :: u32 where "SOCK_TYPE_NUM = 5"
definition SOL_SOCKET :: u32 where "SOL_SOCKET = 0xffff"
definition SO_SNDTIMEO :: u32 where "SO_SNDTIMEO = 0x10"
definition SO_RCVTIMEO :: u32 where "SO_RCVTIMEO = 0x20"
definition FS_TYPE_SOCKET :: u32 where "FS_TYPE_SOCKET = 2"
definition SOCKET_SIZE :: u32 where "SOCKET_SIZE = 16"
definition MSGHDR_SIZE :: u32 where "MSGHDR_SIZE = 16"
definition BACKLOG :: u32 where "BACKLOG = 32"

text \<open>The table of the functions of a type; an entry that is NULL must not be called through.\<close>

definition socket_get_op :: "'x netenv \<Rightarrow> 'x nsys_scheme \<Rightarrow> u32 \<Rightarrow> 'x socket_op_t option" where
  "socket_get_op e s type = do {
     kassert (type > 0 \<and> type < SOCK_TYPE_NUM);
     kassert (unat type < length (socket_ops s));
     kassert (socket_ops s ! unat type \<noteq> NULL);
     Some (ne_sock e (socket_ops s ! unat type))
   }"

definition socket_register_op :: "'x nsys_scheme \<Rightarrow> u32 \<Rightarrow> u32 \<Rightarrow> 'x nsys_scheme option" where
  "socket_register_op s type op = do {
     kassert (type > 0 \<and> type < SOCK_TYPE_NUM);
     kassert (unat type < length (socket_ops s));
     Some (s\<lparr>socket_ops := (socket_ops s)[unat type := op]\<rparr>)
   }"

definition socket_inode_create :: "'x nsys_scheme \<Rightarrow> (u32 \<times> 'x nsys_scheme) option" where
  "socket_inode_create s = do {
     inode \<leftarrow> get_free_inode s;
     op \<leftarrow> fs_get_op s FS_TYPE_SOCKET;
     Some (inode, upd_inode s inode (\<lambda>i. i\<lparr>i_dev := - FS_TYPE_SOCKET, i_desc := NULL, i_count := 1, i_type := FS_TYPE_SOCKET, i_op := op\<rparr>))
   }"

definition socket_create :: "'x nsys_scheme \<Rightarrow> (u32 \<times> 'x nsys_scheme) option" where
  "socket_create s = do {
     (sock, s) \<leftarrow> p_kmalloc s SOCKET_SIZE;
     Some (sock, upd_socket (zero_struct s sock SOCKET_SIZE) sock
       (\<lambda>_. \<lparr>so_type = 0, so_sndtimeo = TIMELESS, so_rcvtimeo = TIMELESS, so_pcb = NULL\<rparr>))
   }"

definition socket_open :: "'x nsys_scheme \<Rightarrow> (u32 \<times> 'x nsys_scheme) option" where
  "socket_open s = do {
     (inode, s) \<leftarrow> socket_inode_create s;
     (sock, s) \<leftarrow> socket_create s;
     Some (inode, upd_inode s inode (\<lambda>i. i\<lparr>i_desc := sock\<rparr>))
   }"

definition socket_close :: "'x netenv \<Rightarrow> 'x nsys_scheme \<Rightarrow> u32 \<Rightarrow> 'x nsys_scheme option" where
  "socket_close e s inode =
     (if inode = NULL then Some s
      else do {
        let s = upd_inode s inode (\<lambda>i. i\<lparr>i_count := i_count i - 1\<rparr>);
        if i_count (inodes s inode) \<noteq> 0 then Some s
        else do {
          let s = upd_inode s inode (\<lambda>i. i\<lparr>i_type := FS_TYPE_NONE\<rparr>);
          let sock = i_desc (inodes s inode);
          kassert (sock \<noteq> NULL);
          s \<leftarrow> (if so_type (sockets s sock) \<noteq> SOCK_TYPE_NONE then do {
                 ops \<leftarrow> socket_get_op e s (so_type (sockets s sock));
                 (_, s) \<leftarrow> sop_close ops s sock;
                 Some s
               } else Some s);
          s \<leftarrow> p_kfree s (i_desc (inodes s inode));
          let s = upd_inode s inode (\<lambda>i. i\<lparr>i_buf := NULL, i_desc := NULL, i_super := NULL, i_op := NULL\<rparr>);
          put_free_inode s inode
        }
      })"

text \<open>\<^verbatim>\<open>fd\<close> is used as an index unchecked; outside the table the result is undefined. The result may be NULL.\<close>

definition socket_get :: "'x nsys_scheme \<Rightarrow> u32 \<Rightarrow> u32 option" where
  "socket_get s fd = do {
     kassert (unat fd < length (t_files (me s)));
     let f = t_files (me s) ! unat fd;
     if f = NULL then Some NULL
     else if fl_inode (files s f) = NULL then Some NULL
     else Some (i_desc (inodes s (fl_inode (files s f))))
   }"

text \<open>A call through the table of the socket of a descriptor.\<close>

definition on_socket ::
  "'x netenv \<Rightarrow> 'x nsys_scheme \<Rightarrow> u32 \<Rightarrow> ('x socket_op_t \<Rightarrow> 'x nsys_scheme \<Rightarrow> u32 \<Rightarrow> (u32 \<times> 'x nsys_scheme) option) \<Rightarrow>
   (u32 \<times> 'x nsys_scheme) option" where
  "on_socket e s fd f = do {
     sock \<leftarrow> socket_get s fd;
     if sock = NULL then Some (- EINVAL, s)
     else do {
       ops \<leftarrow> socket_get_op e s (so_type (sockets s sock));
       f ops s sock
     }
   }"

subsection \<open>System calls\<close>

definition socket_type :: "u32 \<Rightarrow> u32 \<Rightarrow> u32" where
  "socket_type domain type =
     (if domain = ucast AF_INET then
        if type = SOCK_RAW then SOCK_TYPE_RAW
        else if type = SOCK_DGRAM then SOCK_TYPE_UDP
        else if type = SOCK_STREAM then SOCK_TYPE_TCP
        else - EINVAL
      else if domain = ucast AF_PACKET then SOCK_TYPE_PKT
      else - EINVAL)"

definition sys_socket :: "'x netenv \<Rightarrow> 'x nsys_scheme \<Rightarrow> u32 \<Rightarrow> u32 \<Rightarrow> u32 \<Rightarrow> (u32 \<times> 'x nsys_scheme) option" where
  "sys_socket e s domain type protocol = do {
     let socktype = socket_type domain type;
     if socktype = - EINVAL then Some (- EINVAL, s)
     else do {
       (fd, f, s) \<leftarrow> fd_get s;
       if sint fd < sint EOK then Some (fd, s)
       else do {
         (inode, s) \<leftarrow> socket_open s;
         let s = upd_file s f (\<lambda>x. x\<lparr>fl_inode := inode, fl_flags := 0, fl_count := 1, fl_offset := 0\<rparr>);
         let sock = i_desc (inodes s inode);
         let s = upd_socket s sock (\<lambda>x. x\<lparr>so_type := socktype\<rparr>);
         s \<leftarrow> (if so_type (sockets s sock) \<noteq> SOCK_TYPE_NONE then do {
                ops \<leftarrow> socket_get_op e s (so_type (sockets s sock));
                (_, s) \<leftarrow> sop_socket ops s sock domain type protocol;
                Some s
              } else Some s);
         Some (fd, s)
       }
     }
   }"

definition sys_listen :: "'x netenv \<Rightarrow> 'x nsys_scheme \<Rightarrow> u32 \<Rightarrow> u32 \<Rightarrow> (u32 \<times> 'x nsys_scheme) option" where
  "sys_listen e s fd backlog =
     (if sint backlog \<le> 0 \<or> sint backlog > sint BACKLOG then Some (- EINVAL, s)
      else on_socket e s fd (\<lambda>ops s sock. sop_listen ops s sock backlog))"

text \<open>Neither the inode nor the descriptor is checked: when \<^verbatim>\<open>fd_get\<close> fails, \<^verbatim>\<open>file\<close> has not been set.\<close>

definition sys_accept :: "'x netenv \<Rightarrow> 'x nsys_scheme \<Rightarrow> u32 \<Rightarrow> u32 \<Rightarrow> u32 \<Rightarrow> (u32 \<times> 'x nsys_scheme) option" where
  "sys_accept e s fd addr addrlen = do {
     sock \<leftarrow> socket_get s fd;
     if sock = NULL then Some (- EINVAL, s)
     else do {
       ops \<leftarrow> socket_get_op e s (so_type (sockets s sock));
       (ret, ns, s) \<leftarrow> sop_accept ops s sock addr addrlen NULL;
       if sint ret < 0 then Some (ret, s)
       else do {
         (inode, s) \<leftarrow> socket_inode_create s;
         let s = upd_inode s inode (\<lambda>i. i\<lparr>i_desc := ns\<rparr>);
         (fd, f, s) \<leftarrow> fd_get s;
         kassert (fd \<noteq> - EMFILE);
         let s = upd_file s f (\<lambda>x. x\<lparr>fl_inode := inode, fl_flags := 0, fl_count := 1, fl_offset := 0\<rparr>);
         Some (fd, s)
       }
     }
   }"

text \<open>The check of the address that \<^verbatim>\<open>bind\<close> and \<^verbatim>\<open>connect\<close> share; the comparison with the size is unsigned.\<close>

definition name_check :: "mem \<Rightarrow> u32 \<Rightarrow> u32 \<Rightarrow> u32" where
  "name_check m name namelen =
     (if name = NULL then - EFAULT
      else if namelen < SOCKADDR_SIZE then - EFAULT
      else if read16 m (sin_family name) \<in> {AF_INET, AF_UNSPEC, AF_PACKET} then EOK
      else - EPROTO)"

definition sys_bind :: "'x netenv \<Rightarrow> 'x nsys_scheme \<Rightarrow> u32 \<Rightarrow> u32 \<Rightarrow> u32 \<Rightarrow> (u32 \<times> 'x nsys_scheme) option" where
  "sys_bind e s fd name namelen =
     (let ret = name_check (d_mem s) name namelen in
      if ret \<noteq> EOK then Some (ret, s) else on_socket e s fd (\<lambda>ops s sock. sop_bind ops s sock name namelen))"

definition sys_connect :: "'x netenv \<Rightarrow> 'x nsys_scheme \<Rightarrow> u32 \<Rightarrow> u32 \<Rightarrow> u32 \<Rightarrow> (u32 \<times> 'x nsys_scheme) option" where
  "sys_connect e s fd name namelen =
     (let ret = name_check (d_mem s) name namelen in
      if ret \<noteq> EOK then Some (ret, s) else on_socket e s fd (\<lambda>ops s sock. sop_connect ops s sock name namelen))"

definition sys_shutdown :: "'x netenv \<Rightarrow> 'x nsys_scheme \<Rightarrow> u32 \<Rightarrow> u32 \<Rightarrow> (u32 \<times> 'x nsys_scheme) option" where
  "sys_shutdown e s fd how = on_socket e s fd (\<lambda>ops s sock. sop_shutdown ops s sock how)"

definition sys_getpeername :: "'x netenv \<Rightarrow> 'x nsys_scheme \<Rightarrow> u32 \<Rightarrow> u32 \<Rightarrow> u32 \<Rightarrow> (u32 \<times> 'x nsys_scheme) option" where
  "sys_getpeername e s fd name namelen = on_socket e s fd (\<lambda>ops s sock. sop_getpeername ops s sock name namelen)"

definition sys_getsockname :: "'x netenv \<Rightarrow> 'x nsys_scheme \<Rightarrow> u32 \<Rightarrow> u32 \<Rightarrow> u32 \<Rightarrow> (u32 \<times> 'x nsys_scheme) option" where
  "sys_getsockname e s fd name namelen = on_socket e s fd (\<lambda>ops s sock. sop_getsockname ops s sock name namelen)"

definition sys_getsockopt ::
  "'x netenv \<Rightarrow> 'x nsys_scheme \<Rightarrow> u32 \<Rightarrow> u32 \<Rightarrow> u32 \<Rightarrow> u32 \<Rightarrow> u32 \<Rightarrow> (u32 \<times> 'x nsys_scheme) option" where
  "sys_getsockopt e s fd level optname optval optlen =
     on_socket e s fd (\<lambda>ops s sock. sop_getsockopt ops s sock level optname optval optlen)"

definition sys_setsockopt ::
  "'x netenv \<Rightarrow> 'x nsys_scheme \<Rightarrow> u32 \<Rightarrow> u32 \<Rightarrow> u32 \<Rightarrow> u32 \<Rightarrow> u32 \<Rightarrow> (u32 \<times> 'x nsys_scheme) option" where
  "sys_setsockopt e s fd level optname optval optlen = do {
     sock \<leftarrow> socket_get s fd;
     if sock = NULL then Some (- EINVAL, s)
     else if level = SOL_SOCKET \<and> optname \<in> {SO_SNDTIMEO, SO_RCVTIMEO} then
       if optlen \<noteq> 4 then Some (- EINVAL, s)
       else do {
         let v = read32 (d_mem s) optval;
         Some (EOK, upd_socket s sock (\<lambda>x. if optname = SO_SNDTIMEO then x\<lparr>so_sndtimeo := v\<rparr> else x\<lparr>so_rcvtimeo := v\<rparr>))
       }
     else do {
       ops \<leftarrow> socket_get_op e s (so_type (sockets s sock));
       sop_setsockopt ops s sock level optname optval optlen
     }
   }"

text \<open>A local \<^verbatim>\<open>iovec_t\<close> for one piece of data.\<close>

definition local_iov :: "'x netenv \<Rightarrow> 'x nsys_scheme \<Rightarrow> u32 \<Rightarrow> u32 \<Rightarrow> 'x nsys_scheme" where
  "local_iov e s data sz = on_mem s (\<lambda>m. store32 (store32 m (fs_local (ne_fs e) + 4) data) (fs_local (ne_fs e)) sz)"

definition sys_recvfrom ::
  "'x netenv \<Rightarrow> 'x nsys_scheme \<Rightarrow> u32 \<Rightarrow> u32 \<Rightarrow> u32 \<Rightarrow> u32 \<Rightarrow> u32 \<Rightarrow> u32 \<Rightarrow> (u32 \<times> 'x nsys_scheme) option" where
  "sys_recvfrom e s fd data sz flags src srclen =
     (if data = NULL then Some (- EFAULT, s)
      else if sint sz < 0 then Some (- EINVAL, s)
      else do {
        sock \<leftarrow> socket_get s fd;
        if sock = NULL then Some (- EINVAL, s)
        else do {
          let msg = \<lparr>mh_name = src, mh_namelen = (if srclen \<noteq> NULL then read32 (d_mem s) srclen else 0),
                     mh_iov = fs_local (ne_fs e), mh_iovlen = 1\<rparr>;
          let s = local_iov e s data sz;
          ret \<leftarrow> iovec_check s (mh_iov msg) (mh_iovlen msg) True;
          if sint ret < sint EOK then Some (ret, s)
          else do {
            ops \<leftarrow> socket_get_op e s (so_type (sockets s sock));
            (ret, msg, s) \<leftarrow> sop_recvmsg ops s sock msg flags;
            Some (ret, if srclen \<noteq> NULL then on_mem s (\<lambda>m. store32 m srclen (mh_namelen msg)) else s)
          }
        }
      })"

text \<open>The message at \<open>msg\<close>, with a copy of its list of pieces.\<close>

definition dup_msg :: "'x nsys_scheme \<Rightarrow> u32 \<Rightarrow> (msghdr_t \<times> 'x nsys_scheme) option" where
  "dup_msg s msg = do {
     let m = d_mem s;
     (iov, s) \<leftarrow> iovec_dup s (read32 m (msg + 8)) (read32 m (msg + 12));
     Some (\<lparr>mh_name = read32 m msg, mh_namelen = read32 m (msg + 4), mh_iov = iov, mh_iovlen = read32 m (msg + 12)\<rparr>, s)
   }"

definition sys_recvmsg :: "'x netenv \<Rightarrow> 'x nsys_scheme \<Rightarrow> u32 \<Rightarrow> u32 \<Rightarrow> u32 \<Rightarrow> (u32 \<times> 'x nsys_scheme) option" where
  "sys_recvmsg e s fd msg flags = do {
     sock \<leftarrow> socket_get s fd;
     if sock = NULL then Some (- EINVAL, s)
     else do {
       (m, s) \<leftarrow> dup_msg s msg;
       ret \<leftarrow> iovec_check s (mh_iov m) (mh_iovlen m) True;
       if sint ret < sint EOK then Some (ret, s)
       else do {
         ops \<leftarrow> socket_get_op e s (so_type (sockets s sock));
         (ret, m', s) \<leftarrow> sop_recvmsg ops s sock m flags;
         s \<leftarrow> p_kfree s (mh_iov m');
         Some (ret, s)
       }
     }
   }"

definition sys_sendto ::
  "'x netenv \<Rightarrow> 'x nsys_scheme \<Rightarrow> u32 \<Rightarrow> u32 \<Rightarrow> u32 \<Rightarrow> u32 \<Rightarrow> u32 \<Rightarrow> u32 \<Rightarrow> (u32 \<times> 'x nsys_scheme) option" where
  "sys_sendto e s fd data sz flags to tolen =
     (if data = NULL then Some (- EFAULT, s)
      else if sint sz < 0 then Some (- EINVAL, s)
      else do {
        sock \<leftarrow> socket_get s fd;
        if sock = NULL then Some (- EINVAL, s)
        else do {
          let msg = \<lparr>mh_name = to, mh_namelen = tolen, mh_iov = fs_local (ne_fs e), mh_iovlen = 1\<rparr>;
          let s = local_iov e s data sz;
          ret \<leftarrow> iovec_check s (mh_iov msg) (mh_iovlen msg) False;
          if sint ret < sint EOK then Some (ret, s)
          else do {
            ops \<leftarrow> socket_get_op e s (so_type (sockets s sock));
            sop_sendmsg ops s sock msg flags
          }
        }
      })"

definition sys_sendmsg :: "'x netenv \<Rightarrow> 'x nsys_scheme \<Rightarrow> u32 \<Rightarrow> u32 \<Rightarrow> u32 \<Rightarrow> (u32 \<times> 'x nsys_scheme) option" where
  "sys_sendmsg e s fd msg flags = do {
     sock \<leftarrow> socket_get s fd;
     if sock = NULL then Some (- EINVAL, s)
     else do {
       (m, s) \<leftarrow> dup_msg s msg;
       ret \<leftarrow> iovec_check s (mh_iov m) (mh_iovlen m) False;
       if sint ret < sint EOK then Some (ret, s)
       else do {
         ops \<leftarrow> socket_get_op e s (so_type (sockets s sock));
         (ret, s) \<leftarrow> sop_sendmsg ops s sock m flags;
         s \<leftarrow> p_kfree s (mh_iov m);
         Some (ret, s)
       }
     }
   }"

subsection \<open>The functions of the file system\<close>

definition socket_read :: "'x netenv \<Rightarrow> 'x nsys_scheme \<Rightarrow> u32 \<Rightarrow> u32 \<Rightarrow> u32 \<Rightarrow> u32 \<Rightarrow> (u32 \<times> 'x nsys_scheme) option" where
  "socket_read e s inode data sz offset =
     (if data = NULL then Some (- EFAULT, s)
      else if sint sz < 0 then Some (- EINVAL, s)
      else do {
        let sock = i_desc (inodes s inode);
        if sock = NULL then Some (- EINVAL, s)
        else do {
          let msg = \<lparr>mh_name = NULL, mh_namelen = 0, mh_iov = fs_local (ne_fs e), mh_iovlen = 1\<rparr>;
          let s = local_iov e s data sz;
          ops \<leftarrow> socket_get_op e s (so_type (sockets s sock));
          (ret, _, s) \<leftarrow> sop_recvmsg ops s sock msg 0;
          Some (ret, s)
        }
      })"

definition socket_write :: "'x netenv \<Rightarrow> 'x nsys_scheme \<Rightarrow> u32 \<Rightarrow> u32 \<Rightarrow> u32 \<Rightarrow> u32 \<Rightarrow> (u32 \<times> 'x nsys_scheme) option" where
  "socket_write e s inode data sz offset =
     (if data = NULL then Some (- EFAULT, s)
      else if sint sz < 0 then Some (- EINVAL, s)
      else do {
        let sock = i_desc (inodes s inode);
        if sock = NULL then Some (- EINVAL, s)
        else do {
          let msg = \<lparr>mh_name = NULL, mh_namelen = 0, mh_iov = fs_local (ne_fs e), mh_iovlen = 1\<rparr>;
          let s = local_iov e s data sz;
          ops \<leftarrow> socket_get_op e s (so_type (sockets s sock));
          sop_sendmsg ops s sock msg 0
        }
      })"

definition socket_ioctl :: "'x netenv \<Rightarrow> 'x nsys_scheme \<Rightarrow> u32 \<Rightarrow> u32 \<Rightarrow> u32 \<Rightarrow> (u32 \<times> 'x nsys_scheme) option" where
  "socket_ioctl e s inode cmd args = do {
     ok \<leftarrow> memory_access (vm_now s) args IFREQ_SIZE True True;
     if \<not> ok then Some (- EINVAL, s)
     else if cmd = SIOCGIFNAME then do {
       netif \<leftarrow> netif_get s (read32 (d_mem s) (if_value args));
       if netif = NULL then Some (- EINVAL, s)
       else do {
         (_, m) \<leftarrow> strcpy (d_mem s) args (nf_name netif);
         Some (EOK, on_mem s (\<lambda>_. m))
       }
     }
     else do {
       netif \<leftarrow> netif_found s args;
       if netif = NULL then Some (- EINVAL, s)
       else if cmd = SIOCGIFINDEX then Some (EOK, on_mem s (\<lambda>m. store32 m (if_value args) (nf_index (netifs s netif))))
       else netif_ioctl (ne_dhcp e) s netif cmd args 0
     }
   }"

subsection \<open>The tables of the socket types\<close>

text \<open>\<^verbatim>\<open>fs_default_nosys\<close> in an entry of each kind.\<close>

definition nosys1 :: "'x nsys_scheme \<Rightarrow> u32 \<Rightarrow> u32 \<Rightarrow> (u32 \<times> 'x nsys_scheme) option" where
  "nosys1 s sock a = Some (fs_default_nosys, s)"

definition nosys_accept :: "'x nsys_scheme \<Rightarrow> u32 \<Rightarrow> u32 \<Rightarrow> u32 \<Rightarrow> u32 \<Rightarrow> (u32 \<times> u32 \<times> 'x nsys_scheme) option" where
  "nosys_accept s sock a b ns = Some (fs_default_nosys, ns, s)"

definition nosys_opt :: "'x nsys_scheme \<Rightarrow> u32 \<Rightarrow> u32 \<Rightarrow> u32 \<Rightarrow> u32 \<Rightarrow> u32 \<Rightarrow> (u32 \<times> 'x nsys_scheme) option" where
  "nosys_opt s sock a b c d = Some (fs_default_nosys, s)"

definition udp_op :: "'x nfsenv \<Rightarrow> 'x socket_op_t" where
  "udp_op e = \<lparr>sop_socket = udp_socket, sop_close = udp_close, sop_listen = nosys1, sop_accept = nosys_accept, sop_bind = udp_bind,
     sop_connect = udp_connect, sop_shutdown = nosys1, sop_getpeername = udp_getpeername, sop_getsockname = udp_getsockname,
     sop_getsockopt = nosys_opt, sop_setsockopt = nosys_opt, sop_recvmsg = udp_recvmsg e, sop_sendmsg = udp_sendmsg e\<rparr>"

definition raw_op :: "'x nfsenv \<Rightarrow> 'x socket_op_t" where
  "raw_op e = \<lparr>sop_socket = raw_socket, sop_close = raw_close, sop_listen = nosys1, sop_accept = nosys_accept, sop_bind = raw_bind,
     sop_connect = raw_connect, sop_shutdown = nosys1, sop_getpeername = raw_getpeername, sop_getsockname = raw_getsockname,
     sop_getsockopt = nosys_opt, sop_setsockopt = nosys_opt, sop_recvmsg = raw_recvmsg e, sop_sendmsg = raw_sendmsg e\<rparr>"

definition pkt_op :: "'x nfsenv \<Rightarrow> 'x socket_op_t" where
  "pkt_op e = \<lparr>sop_socket = pkt_socket, sop_close = pkt_close, sop_listen = nosys1, sop_accept = nosys_accept, sop_bind = pkt_bind,
     sop_connect = pkt_connect, sop_shutdown = nosys1, sop_getpeername = pkt_getsockname, sop_getsockname = pkt_getsockname,
     sop_getsockopt = nosys_opt, sop_setsockopt = pkt_setsockopt, sop_recvmsg = pkt_recvmsg e, sop_sendmsg = pkt_sendmsg e\<rparr>"

text \<open>Registration; the addresses of the tables are arguments.\<close>

definition udp_register :: "'x nsys_scheme \<Rightarrow> u8 list \<Rightarrow> u32 \<Rightarrow> 'x nsys_scheme option" where
  "udp_register s garbage op = do { s \<leftarrow> udp_init s garbage; socket_register_op s SOCK_TYPE_UDP op }"

definition raw_init :: "'x nsys_scheme \<Rightarrow> u32 \<Rightarrow> 'x nsys_scheme option" where
  "raw_init s op = do { s \<leftarrow> on_heap s (\<lambda>h. list_init h (raw_pcb_list s)); socket_register_op s SOCK_TYPE_RAW op }"

definition pkt_init :: "'x nsys_scheme \<Rightarrow> u32 \<Rightarrow> 'x nsys_scheme option" where
  "pkt_init s op = do { s \<leftarrow> on_heap s (\<lambda>h. list_init h (pkt_pcb_list s)); socket_register_op s SOCK_TYPE_PKT op }"

definition socket_init :: "'x nsys_scheme \<Rightarrow> u32 \<Rightarrow> 'x nsys_scheme option" where
  "socket_init s op = fs_register_op s FS_TYPE_SOCKET op"

end
