(* ===== verification/Onix_Tcp_Pcb.thy ===== *)
theory Onix_Tcp_Pcb
  imports Onix_Socket
begin

section \<open>TCP control blocks (src/net/tcp_pcb.c, tcp_option.c, include/onix/net/tcp.h)\<close>

text \<open>
  The state of TCP extends that of the network code. A control block of 252 bytes holds the two
  addresses, the state of the connection, the send and the receive window, six timers and five lists;
  it is on one of four lists, by its state. The fields a pointer is passed to (addresses, list nodes)
  are at their offsets; the others are in a record.
\<close>

datatype tcp_state_t =
  CLOSED | LISTEN | SYN_SENT | SYN_RCVD | ESTABLISHED | FIN_WAIT1 | FIN_WAIT2 | CLOSE_WAIT | CLOSING | LAST_ACK | TIME_WAIT

text \<open>The numbers of the states; the code compares states by them.\<close>

fun tcp_state_num :: "tcp_state_t \<Rightarrow> nat" where
  "tcp_state_num CLOSED = 0"
| "tcp_state_num LISTEN = 1"
| "tcp_state_num SYN_SENT = 2"
| "tcp_state_num SYN_RCVD = 3"
| "tcp_state_num ESTABLISHED = 4"
| "tcp_state_num FIN_WAIT1 = 5"
| "tcp_state_num FIN_WAIT2 = 6"
| "tcp_state_num CLOSE_WAIT = 7"
| "tcp_state_num CLOSING = 8"
| "tcp_state_num LAST_ACK = 9"
| "tcp_state_num TIME_WAIT = 10"

instantiation tcp_state_t :: linorder
begin

definition less_eq_tcp_state_t :: "tcp_state_t \<Rightarrow> tcp_state_t \<Rightarrow> bool" where
  "less_eq_tcp_state_t a b \<longleftrightarrow> tcp_state_num a \<le> tcp_state_num b"

definition less_tcp_state_t :: "tcp_state_t \<Rightarrow> tcp_state_t \<Rightarrow> bool" where
  "less_tcp_state_t a b \<longleftrightarrow> tcp_state_num a < tcp_state_num b"

instance
proof
  fix a b :: tcp_state_t
  assume "a \<le> b" "b \<le> a"
  then show "a = b" unfolding less_eq_tcp_state_t_def by (cases a; cases b; simp)
qed (auto simp: less_eq_tcp_state_t_def less_tcp_state_t_def)

end

record tcp_pcb_t =
  tp_lport :: u16
  tp_rport :: u16
  tp_state :: tcp_state_t
  tp_flags :: u32
  snd_una :: u32
  snd_nxt :: u32
  snd_wnd :: u16
  snd_mss :: u16
  snd_nbb :: u32
  snd_max :: u32
  snd_wl1 :: u32
  snd_wl2 :: u32
  snd_mwnd :: u32
  snd_buf :: u32
  rcv_nxt :: u32
  rcv_wnd :: u16
  rcv_mss :: u16
  tp_timers :: "u32 list"
  tp_idle :: u32
  tp_rto :: u32
  rtx_cnt :: u32
  tp_rtt :: u32
  rtt_seq :: u32
  tp_srtt :: u32
  rttvar :: u32
  rttmin :: u32
  dupacks :: u32
  snd_cwnd :: u32
  snd_ssthresh :: u32
  tp_backlog :: u32
  backcnt :: u32
  tp_listen :: u32
  ac_waiter :: u32
  tx_waiter :: u32
  rx_waiter :: u32

record tsys = nsys +
  tcp_pcbs :: "u32 \<Rightarrow> tcp_pcb_t"
  tcp_pcb_create_list :: u32
  tcp_pcb_active_list :: u32
  tcp_pcb_listen_list :: u32
  tcp_pcb_timewait_list :: u32
  tcp_port_map :: port_map_t
  tcp_slow :: u32
  tcp_fast :: u32
  tcp_backoff :: "u32 list"

type_synonym 'x tenv = "('x tsys_ext) nfsenv"

abbreviation tcb :: "'x tsys_scheme \<Rightarrow> u32 \<Rightarrow> tcp_pcb_t" where
  "tcb s p \<equiv> tcp_pcbs s p"

definition upd_tcb :: "'x tsys_scheme \<Rightarrow> u32 \<Rightarrow> (tcp_pcb_t \<Rightarrow> tcp_pcb_t) \<Rightarrow> 'x tsys_scheme" where
  "upd_tcb s p f = s\<lparr>tcp_pcbs := (tcp_pcbs s)(p := f (tcp_pcbs s p))\<rparr>"

definition TCP_PCB_SIZE :: u32 where "TCP_PCB_SIZE = 252"
definition tp_laddr :: "u32 \<Rightarrow> u32" where "tp_laddr p = p + 8"
definition tp_raddr :: "u32 \<Rightarrow> u32" where "tp_raddr p = p + 12"
definition tp_acclist :: "u32 \<Rightarrow> u32" where "tp_acclist p = p + 140"
definition tp_accnode :: "u32 \<Rightarrow> u32" where "tp_accnode p = p + 164"
definition tp_unsent :: "u32 \<Rightarrow> u32" where "tp_unsent p = p + 176"
definition tp_unacked :: "u32 \<Rightarrow> u32" where "tp_unacked p = p + 192"
definition tp_outseq :: "u32 \<Rightarrow> u32" where "tp_outseq p = p + 208"
definition tp_recved :: "u32 \<Rightarrow> u32" where "tp_recved p = p + 224"

definition TCP_MSS :: u16 where "TCP_MSS = 1460"
definition TCP_WINDOW :: u16 where "TCP_WINDOW = 8192"
definition TCP_MAX_WINDOW :: u32 where "TCP_MAX_WINDOW = 65535"
definition TCP_DEFAULT_MSS :: u16 where "TCP_DEFAULT_MSS = 536"

definition TF_ACK_DELAY :: u32 where "TF_ACK_DELAY = 0x01"
definition TF_ACK_NOW :: u32 where "TF_ACK_NOW = 0x02"
definition TF_KEEPALIVE :: u32 where "TF_KEEPALIVE = 0x04"
definition TF_NODELAY :: u32 where "TF_NODELAY = 0x08"
definition TF_QUICKACK :: u32 where "TF_QUICKACK = 0x10"

definition TCP_FIN :: u8 where "TCP_FIN = 0x01"
definition TCP_SYN :: u8 where "TCP_SYN = 0x02"
definition TCP_RST :: u8 where "TCP_RST = 0x04"
definition TCP_PSH :: u8 where "TCP_PSH = 0x08"
definition TCP_ACK :: u8 where "TCP_ACK = 0x10"

definition TCP_TIMER_SYN :: nat where "TCP_TIMER_SYN = 0"
definition TCP_TIMER_REXMIT :: nat where "TCP_TIMER_REXMIT = 1"
definition TCP_TIMER_PERSIST :: nat where "TCP_TIMER_PERSIST = 2"
definition TCP_TIMER_KEEPALIVE :: nat where "TCP_TIMER_KEEPALIVE = 3"
definition TCP_TIMER_FIN_WAIT2 :: nat where "TCP_TIMER_FIN_WAIT2 = 4"
definition TCP_TIMER_TIMEWAIT :: nat where "TCP_TIMER_TIMEWAIT = 5"
definition TCP_TIMER_NUM :: nat where "TCP_TIMER_NUM = 6"

definition TCP_FAST_INTERVAL :: u32 where "TCP_FAST_INTERVAL = 200"
definition TCP_SLOW_INTERVAL :: u32 where "TCP_SLOW_INTERVAL = 500"
definition TCP_TO_SYN :: u32 where "TCP_TO_SYN = 150"
definition TCP_TO_FIN_WAIT2 :: u32 where "TCP_TO_FIN_WAIT2 = 1200"
definition TCP_TO_TIMEWAIT :: u32 where "TCP_TO_TIMEWAIT = 480"
definition TCP_TO_PERSMIN :: u32 where "TCP_TO_PERSMIN = 10"
definition TCP_TO_PERMAX :: u32 where "TCP_TO_PERMAX = 120"
definition TCP_TO_KEEP_IDLE :: u32 where "TCP_TO_KEEP_IDLE = 14400"
definition TCP_TO_KEEP_INTERVAL :: u32 where "TCP_TO_KEEP_INTERVAL = 150"
definition TCP_TO_KEEPCNT :: u32 where "TCP_TO_KEEPCNT = 8"
definition TCP_TO_RTT_DEFAULT :: u32 where "TCP_TO_RTT_DEFAULT = 2"
definition TCP_TO_MIN :: u32 where "TCP_TO_MIN = 2"
definition TCP_TO_REXMIT_MAX :: u32 where "TCP_TO_REXMIT_MAX = 128"
definition TCP_MAXRXTCNT :: u32 where "TCP_MAXRXTCNT = 12"
definition TCP_REXMIT_THREASH :: u32 where "TCP_REXMIT_THREASH = 3"

subsection \<open>Sequence numbers\<close>

definition TCP_SEQ_LT :: "u32 \<Rightarrow> u32 \<Rightarrow> bool" where "TCP_SEQ_LT a b \<longleftrightarrow> sint (a - b) < 0"
definition TCP_SEQ_LEQ :: "u32 \<Rightarrow> u32 \<Rightarrow> bool" where "TCP_SEQ_LEQ a b \<longleftrightarrow> sint (a - b) \<le> 0"
definition TCP_SEQ_GT :: "u32 \<Rightarrow> u32 \<Rightarrow> bool" where "TCP_SEQ_GT a b \<longleftrightarrow> sint (a - b) > 0"
definition TCP_SEQ_GEQ :: "u32 \<Rightarrow> u32 \<Rightarrow> bool" where "TCP_SEQ_GEQ a b \<longleftrightarrow> sint (a - b) \<ge> 0"

definition tcp_next_isn :: "'x tenv \<Rightarrow> 'x tsys_scheme \<Rightarrow> u32" where
  "tcp_next_isn e s = net_time e s XOR ONIX_MAGIC"

subsection \<open>The header of a segment and its options\<close>

text \<open>The upper half of the byte at 12 is the length of the header in words.\<close>

definition tcp_sport :: "u32 \<Rightarrow> u32" where "tcp_sport p = p"
definition tcp_dport :: "u32 \<Rightarrow> u32" where "tcp_dport p = p + 2"
definition tcp_seqno :: "u32 \<Rightarrow> u32" where "tcp_seqno p = p + 4"
definition tcp_ackno :: "u32 \<Rightarrow> u32" where "tcp_ackno p = p + 8"
definition tcp_lenbyte :: "u32 \<Rightarrow> u32" where "tcp_lenbyte p = p + 12"
definition tcp_flags :: "u32 \<Rightarrow> u32" where "tcp_flags p = p + 13"
definition tcp_window :: "u32 \<Rightarrow> u32" where "tcp_window p = p + 14"
definition tcp_sum :: "u32 \<Rightarrow> u32" where "tcp_sum p = p + 16"
definition tcp_urgent :: "u32 \<Rightarrow> u32" where "tcp_urgent p = p + 18"
definition tcp_options :: "u32 \<Rightarrow> u32" where "tcp_options p = p + 20"
definition TCP_SIZE :: u32 where "TCP_SIZE = 20"

definition pb_tcp :: "u32 \<Rightarrow> u32" where "pb_tcp p = ip_payload (pb_ip p)"

definition tcp_len :: "mem \<Rightarrow> u32 \<Rightarrow> u32" where
  "tcp_len m tcp = ucast (drop_bit 4 (m (tcp_lenbyte tcp)))"

definition set_tcp_len :: "mem \<Rightarrow> u32 \<Rightarrow> u32 \<Rightarrow> mem" where
  "set_tcp_len m tcp n = m(tcp_lenbyte tcp := (m (tcp_lenbyte tcp) AND 0x0F) OR push_bit 4 (ucast n))"

definition tcp_has :: "mem \<Rightarrow> u32 \<Rightarrow> u8 \<Rightarrow> bool" where
  "tcp_has m tcp flag \<longleftrightarrow> m (tcp_flags tcp) AND flag \<noteq> 0"

definition OPT_END :: u8 where "OPT_END = 0"
definition OPT_NOP :: u8 where "OPT_NOP = 1"
definition OPT_MSS :: u8 where "OPT_MSS = 2"

text \<open>
  From \<open>ptr\<close> up to \<open>payload\<close>. Every option but the three above is skipped by its size; an option of
  size 0 is read again and again.
\<close>

partial_function (option) parse_options :: "mem \<Rightarrow> u32 \<Rightarrow> u32 \<Rightarrow> u16 \<Rightarrow> (u32 \<times> u16) option" where
  "parse_options m ptr payload mss =
     (if \<not> ptr < payload then Some (EOK, mss)
      else if m ptr = OPT_END then Some (EOK, mss)
      else if m ptr = OPT_NOP then parse_options m (ptr + 1) payload mss
      else if m ptr = OPT_MSS then
        if m (ptr + 1) \<noteq> 4 then Some (- EOPTION, mss)
        else parse_options m (ptr + ucast (m (ptr + 1))) payload (htons (read16 m (ptr + 2)))
      else parse_options m (ptr + ucast (m (ptr + 1))) payload mss)"

declare parse_options.simps [code]

definition tcp_parse_option :: "'x tsys_scheme \<Rightarrow> u32 \<Rightarrow> u32 \<Rightarrow> (u32 \<times> 'x tsys_scheme) option" where
  "tcp_parse_option s pcb tcp = do {
     (ret, mss) \<leftarrow> parse_options (d_mem s) (tcp_options tcp) (tcp + tcp_len (d_mem s) tcp * 4) (snd_mss (tcb s pcb));
     Some (ret, upd_tcb s pcb (\<lambda>p. p\<lparr>snd_mss := mss\<rparr>))
   }"

text \<open>The option of the maximum segment size, and four bytes that end the list, in a segment with SYN.\<close>

definition write_options :: "mem \<Rightarrow> u32 \<Rightarrow> u16 \<Rightarrow> u32 \<times> mem" where
  "write_options m tcp mss =
     (let opt = tcp_options tcp;
          has_option = tcp_has m tcp TCP_SYN;
          m = (if has_option then store16 (m(opt := OPT_MSS, opt + 1 := 4)) (opt + 2) (htons mss) else m);
          size = (if has_option then 4 else 0);
          m = (if has_option then (memset m (opt + size) 0 4)(opt + size := OPT_END) else m);
          size = (if has_option then size + 4 else size)
      in (size + TCP_SIZE, set_tcp_len m tcp ((TCP_SIZE + size) div 4)))"

definition tcp_write_option :: "'x tsys_scheme \<Rightarrow> u32 \<Rightarrow> u32 \<Rightarrow> u32 \<times> 'x tsys_scheme" where
  "tcp_write_option s pcb tcp =
     (let r = write_options (d_mem s) tcp (rcv_mss (tcb s pcb)) in (fst r, on_mem s (\<lambda>_. snd r)))"

subsection \<open>Round trip times\<close>

definition tcp_range_value :: "u32 \<Rightarrow> u32 \<Rightarrow> u32 \<Rightarrow> u32" where
  "tcp_range_value val lo hi = (if val < lo then lo else if val > hi then hi else val)"

definition tcp_update_rto :: "tcp_pcb_t \<Rightarrow> u32 \<Rightarrow> u32" where
  "tcp_update_rto p backoff =
     (let value = tp_srtt p + push_bit 2 (rttvar p) in tcp_range_value (value * backoff) (rttmin p) TCP_TO_REXMIT_MAX)"

definition word_abs :: "u32 \<Rightarrow> u32" where "word_abs x = (if sint x < 0 then - x else x)"

definition tcp_xmit_timer :: "tcp_pcb_t \<Rightarrow> u32 \<Rightarrow> tcp_pcb_t" where
  "tcp_xmit_timer p rtt =
     (let err = rtt - tp_srtt p;
          p = p\<lparr>tp_srtt := tp_srtt p + signed_drop_bit 3 err\<rparr>;
          p = (if sint (tp_srtt p) \<le> 0 then p\<lparr>tp_srtt := 1\<rparr> else p);
          p = p\<lparr>rttvar := rttvar p + signed_drop_bit 2 (word_abs err - rttvar p)\<rparr>;
          p = (if sint (rttvar p) \<le> 0 then p\<lparr>rttvar := 1\<rparr> else p);
          p = p\<lparr>tp_rtt := 0, rtx_cnt := 0\<rparr>
      in p\<lparr>tp_rto := tcp_update_rto p 1\<rparr>)"

subsection \<open>Control blocks\<close>

definition new_tcb :: "u32 \<Rightarrow> tcp_pcb_t" where
  "new_tcb isn = (let p = \<lparr>tp_lport = 0, tp_rport = 0, tp_state = CLOSED, tp_flags = 0, snd_una = isn, snd_nxt = isn,
     snd_wnd = TCP_DEFAULT_MSS, snd_mss = TCP_DEFAULT_MSS, snd_nbb = isn, snd_max = 0, snd_wl1 = 0, snd_wl2 = 0, snd_mwnd = 0,
     snd_buf = NULL, rcv_nxt = 0, rcv_wnd = TCP_WINDOW, rcv_mss = TCP_MSS, tp_timers = replicate TCP_TIMER_NUM 0, tp_idle = 0,
     tp_rto = 0, rtx_cnt = 0, tp_rtt = 0, rtt_seq = isn, tp_srtt = 0, rttvar = TCP_TO_RTT_DEFAULT, rttmin = TCP_TO_MIN,
     dupacks = 0, snd_cwnd = ucast TCP_DEFAULT_MSS, snd_ssthresh = TCP_MAX_WINDOW, tp_backlog = 0, backcnt = 0, tp_listen = NULL,
     ac_waiter = NULL, tx_waiter = NULL, rx_waiter = NULL\<rparr>
   in p\<lparr>tp_rto := tcp_update_rto p 1\<rparr>)"

definition tcp_pcb_get :: "'x tenv \<Rightarrow> 'x tsys_scheme \<Rightarrow> (u32 \<times> 'x tsys_scheme) option" where
  "tcp_pcb_get e s = do {
     (pcb, s) \<leftarrow> p_kmalloc s TCP_PCB_SIZE;
     let s = upd_tcb (zero_struct s pcb TCP_PCB_SIZE) pcb (\<lambda>_. new_tcb (tcp_next_isn e s));
     s \<leftarrow> on_heap s (\<lambda>h. list_init h (tp_unsent pcb));
     s \<leftarrow> on_heap s (\<lambda>h. list_init h (tp_unacked pcb));
     s \<leftarrow> on_heap s (\<lambda>h. list_init h (tp_outseq pcb));
     s \<leftarrow> on_heap s (\<lambda>h. list_init h (tp_recved pcb));
     s \<leftarrow> on_heap s (\<lambda>h. list_init h (tp_acclist pcb));
     s \<leftarrow> on_heap s (\<lambda>h. list_push h (tcp_pcb_create_list s) pcb);
     Some (pcb, s)
   }"

text \<open>A packet is in the lists of a control block with its second list node.\<close>

definition pbuf_of_node :: "u32 \<Rightarrow> u32" where "pbuf_of_node node = node - 16"

definition seqno_key :: "'x nsys_scheme \<Rightarrow> u32 \<Rightarrow> u32" where
  "seqno_key s node = pb_seqno (pbufs s (pbuf_of_node node))"

definition insert_segment :: "'x tsys_scheme \<Rightarrow> u32 \<Rightarrow> u32 \<Rightarrow> 'x tsys_scheme option" where
  "insert_segment s l pbuf = on_heap s (\<lambda>h. list_insert_sort h l (tcp_node pbuf) (seqno_key s))"

partial_function (option) tcp_list_put_loop :: "'x tsys_scheme \<Rightarrow> u32 \<Rightarrow> u32 \<Rightarrow> 'x tsys_scheme option" where
  "tcp_list_put_loop s tail node =
     (if node = tail then Some s
      else do {
        let pbuf = pbuf_of_node node;
        nxt \<leftarrow> get_next (k_heap (d_k s)) node;
        s \<leftarrow> on_heap s (\<lambda>h. list_remove h (tcp_node pbuf));
        kassert (pb_count (pbufs s pbuf) = 1);
        s \<leftarrow> pbuf_put s pbuf;
        tcp_list_put_loop s tail nxt
      })"

declare tcp_list_put_loop.simps [code]

definition tcp_list_put :: "'x tsys_scheme \<Rightarrow> u32 \<Rightarrow> 'x tsys_scheme option" where
  "tcp_list_put s l = do {
     node \<leftarrow> get_next (k_heap (d_k s)) (list_head l);
     tcp_list_put_loop s (list_tail l) node
   }"

definition wake_with :: "'x dsys_scheme \<Rightarrow> u32 \<Rightarrow> u32 \<Rightarrow> 'x dsys_scheme option" where
  "wake_with s task reason = on_k s (\<lambda>k. task_unblock k task reason)"

text \<open>The first and the last part of \<^verbatim>\<open>tcp_pcb_purge\<close>: the packets, and the tasks that wait.\<close>

definition purge_lists :: "'x tsys_scheme \<Rightarrow> u32 \<Rightarrow> 'x tsys_scheme option" where
  "purge_lists s pcb = do {
     s \<leftarrow> tcp_list_put s (tp_recved pcb);
     s \<leftarrow> tcp_list_put s (tp_outseq pcb);
     s \<leftarrow> tcp_list_put s (tp_unsent pcb);
     tcp_list_put s (tp_unacked pcb)
   }"

definition purge_waiters :: "'x tsys_scheme \<Rightarrow> u32 \<Rightarrow> u32 \<Rightarrow> 'x tsys_scheme option" where
  "purge_waiters s pcb reason = do {
     let w = ac_waiter (tcb s pcb);
     s \<leftarrow> (if w \<noteq> NULL then do { s \<leftarrow> wake_with s w reason; Some (upd_tcb s pcb (\<lambda>p. p\<lparr>ac_waiter := NULL\<rparr>)) } else Some s);
     let w = rx_waiter (tcb s pcb);
     s \<leftarrow> (if w \<noteq> NULL then do { s \<leftarrow> wake_with s w reason; Some (upd_tcb s pcb (\<lambda>p. p\<lparr>rx_waiter := NULL\<rparr>)) } else Some s);
     let w = tx_waiter (tcb s pcb);
     if w \<noteq> NULL then do { s \<leftarrow> wake_with s w reason; Some (upd_tcb s pcb (\<lambda>p. p\<lparr>tx_waiter := NULL\<rparr>)) } else Some s
   }"

definition put_lport :: "'x tsys_scheme \<Rightarrow> u32 \<Rightarrow> 'x tsys_scheme option" where
  "put_lport s pcb =
     (if tp_lport (tcb s pcb) \<noteq> 0 \<and> tp_listen (tcb s pcb) = NULL then do {
        ports \<leftarrow> port_put (tcp_port_map s) (tp_lport (tcb s pcb));
        Some (s\<lparr>tcp_port_map := ports\<rparr>)
      } else Some s)"

text \<open>
  \<^verbatim>\<open>tcp_pcb_purge\<close> and \<^verbatim>\<open>tcp_pcb_put\<close> call each other for the clients of a listening control block. The
  loop over the clients is the recursion; \<^verbatim>\<open>tcp_pcb_put\<close> of a client is written out in it.
\<close>

partial_function (option) put_clients :: "'x tsys_scheme \<Rightarrow> u32 \<Rightarrow> u32 \<Rightarrow> 'x tsys_scheme option" where
  "put_clients s tail node =
     (if node = tail then Some s
      else do {
        let npcb = node - 164;
        nxt \<leftarrow> get_next (k_heap (d_k s)) node;
        s \<leftarrow> on_heap s (\<lambda>h. list_remove h (tp_accnode npcb));
        s \<leftarrow> (if npcb = NULL then Some s
             else do {
               s \<leftarrow> put_lport s npcb;
               s \<leftarrow> purge_lists s npcb;
               first \<leftarrow> get_next (k_heap (d_k s)) (list_head (tp_acclist npcb));
               s \<leftarrow> put_clients s (list_tail (tp_acclist npcb)) first;
               s \<leftarrow> purge_waiters s npcb (- ETIME);
               s \<leftarrow> on_heap s (\<lambda>h. list_remove h npcb);
               p_kfree s npcb
             });
        put_clients s tail nxt
      })"

declare put_clients.simps [code]

definition tcp_pcb_purge :: "'x tsys_scheme \<Rightarrow> u32 \<Rightarrow> u32 \<Rightarrow> 'x tsys_scheme option" where
  "tcp_pcb_purge s pcb reason = do {
     s \<leftarrow> purge_lists s pcb;
     node \<leftarrow> get_next (k_heap (d_k s)) (list_head (tp_acclist pcb));
     s \<leftarrow> put_clients s (list_tail (tp_acclist pcb)) node;
     purge_waiters s pcb reason
   }"

definition tcp_pcb_put :: "'x tsys_scheme \<Rightarrow> u32 \<Rightarrow> 'x tsys_scheme option" where
  "tcp_pcb_put s pcb =
     (if pcb = NULL then Some s
      else do {
        s \<leftarrow> put_lport s pcb;
        s \<leftarrow> tcp_pcb_purge s pcb (- ETIME);
        s \<leftarrow> on_heap s (\<lambda>h. list_remove h pcb);
        p_kfree s pcb
      })"

lemma put_clients_code:
  "put_clients s tail node =
     (if node = tail then Some s
      else do {
        nxt \<leftarrow> get_next (k_heap (d_k s)) node;
        s \<leftarrow> on_heap s (\<lambda>h. list_remove h (tp_accnode (node - 164)));
        s \<leftarrow> tcp_pcb_put s (node - 164);
        put_clients s tail nxt
      })"
  unfolding tcp_pcb_put_def tcp_pcb_purge_def
  by (subst put_clients.simps) (auto simp: Let_def cong: if_cong intro!: arg_cong [where f = "Option.bind _"] ext)

definition tcp_pcb_timewait :: "'x tsys_scheme \<Rightarrow> u32 \<Rightarrow> 'x tsys_scheme option" where
  "tcp_pcb_timewait s pcb = do {
     let s = upd_tcb s pcb (\<lambda>p. p\<lparr>tp_state := TIME_WAIT\<rparr>);
     s \<leftarrow> tcp_pcb_purge s pcb (- ETIME);
     s \<leftarrow> on_heap s (\<lambda>h. list_remove h pcb);
     let s = upd_tcb s pcb (\<lambda>p. p\<lparr>tp_timers := (tp_timers p)[TCP_TIMER_TIMEWAIT := TCP_TO_TIMEWAIT]\<rparr>);
     on_heap s (\<lambda>h. list_insert_sort h (tcp_pcb_timewait_list s) pcb (\<lambda>p. tp_timers (tcb s p) ! TCP_TIMER_TIMEWAIT))
   }"

text \<open>A null remote port stands for any peer; then the remote address is not read.\<close>

definition tcp_matches :: "'x tsys_scheme \<Rightarrow> u32 \<Rightarrow> u32 \<Rightarrow> u16 \<Rightarrow> u32 \<Rightarrow> u16 \<Rightarrow> bool" where
  "tcp_matches s pcb laddr lport raddr rport \<longleftrightarrow>
     tp_lport (tcb s pcb) = lport \<and>
     (any_at (d_mem s) (tp_laddr pcb) \<or> same_ip (d_mem s) (tp_laddr pcb) laddr) \<and>
     (rport = 0 \<or> tp_rport (tcb s pcb) = rport \<and>
      (any_at (d_mem s) (tp_raddr pcb) \<or> same_ip (d_mem s) (tp_raddr pcb) raddr))"

definition tcp_find_pcb :: "'x tsys_scheme \<Rightarrow> u32 \<Rightarrow> u16 \<Rightarrow> u32 \<Rightarrow> u16 \<Rightarrow> u32 option" where
  "tcp_find_pcb s laddr lport raddr rport = do {
     let h = k_heap (d_k s);
     pcb \<leftarrow> list_find h (tcp_pcb_active_list s) (\<lambda>p. Some (tcp_matches s p laddr lport raddr rport));
     if pcb \<noteq> NULL then Some pcb
     else do {
       pcb \<leftarrow> list_find h (tcp_pcb_timewait_list s) (\<lambda>p. Some (tcp_matches s p laddr lport raddr rport));
       if pcb \<noteq> NULL then Some pcb
       else list_find h (tcp_pcb_listen_list s) (\<lambda>p. Some (tcp_matches s p laddr lport raddr 0))
     }
   }"

definition tcp_pcb_init :: "'x tsys_scheme \<Rightarrow> 'x tsys_scheme option" where
  "tcp_pcb_init s = do {
     s \<leftarrow> on_heap s (\<lambda>h. list_init h (tcp_pcb_create_list s));
     s \<leftarrow> on_heap s (\<lambda>h. list_init h (tcp_pcb_active_list s));
     s \<leftarrow> on_heap s (\<lambda>h. list_init h (tcp_pcb_timewait_list s));
     on_heap s (\<lambda>h. list_init h (tcp_pcb_listen_list s))
   }"

end
