(* ===== verification/Onix_Tcp_Output.thy ===== *)
theory Onix_Tcp_Output
  imports Onix_Tcp_Pcb
begin

section \<open>TCP output (src/net/tcp_output.c)\<close>

text \<open>
  Segments wait in the list \<^verbatim>\<open>unsent\<close>, sorted by sequence number, move to \<^verbatim>\<open>unacked\<close> when they are sent and
  back when they are sent again. A segment is a packet buffer whose header is filled in when it is
  queued, and completed when it is sent.
\<close>

text \<open>The window a segment announces: nothing as long as no full segment can be received.\<close>

definition announced_window :: "tcp_pcb_t \<Rightarrow> u16" where
  "announced_window p = (if rcv_wnd p < rcv_mss p then 0 else htons (rcv_wnd p))"

definition tcp_output_seg :: "'x tenv \<Rightarrow> 'x tsys_scheme \<Rightarrow> u32 \<Rightarrow> u32 \<Rightarrow> (u32 \<times> 'x tsys_scheme) option" where
  "tcp_output_seg e s pcb pbuf = do {
     kassert (pb_count (pbufs s pbuf) \<le> 2);
     let ip = pb_ip pbuf;
     let tcp = pb_tcp pbuf;
     let s = on_mem s (\<lambda>m. store32 m (tcp_ackno tcp) (htonl (rcv_nxt (tcb s pcb))));
     let s = (if tcp_has (d_mem s) tcp TCP_SYN then s
              else upd_tcb (on_mem s (\<lambda>m. m(tcp_flags tcp := m (tcp_flags tcp) OR TCP_ACK))) pcb
                     (\<lambda>p. p\<lparr>tp_flags := tp_flags p AND NOT (TF_ACK_DELAY OR TF_ACK_NOW)\<rparr>));
     let s = on_mem s (\<lambda>m. store16 m (tcp_window tcp) (announced_window (tcb s pcb)));
     netif \<leftarrow> netif_route s (tp_raddr pcb);
     kassert (netif \<noteq> NULL);
     let s = (if any_at (d_mem s) (tp_laddr pcb) then on_mem s (\<lambda>m. ip_addr_copy m (tp_laddr pcb) (nf_ipaddr netif)) else s);
     let s = on_mem s (\<lambda>m. store16 m (tcp_sum tcp) 0);
     let tot = ucast (pb_total (pbufs s pbuf));
     let s = (if nf_flags (netifs s netif) AND NETIF_TCP_TX_CHECKSUM_OFFLOAD = 0
              then on_mem s (\<lambda>m. store16 m (tcp_sum tcp) (inet_chksum m tcp tot (tp_raddr pcb) (tp_laddr pcb) (ucast IP_PROTOCOL_TCP))) else s);
     ip_output e s netif pbuf (ip_dst ip) IP_PROTOCOL_TCP tot
   }"

text \<open>A new segment in \<^verbatim>\<open>snd_buf\<close>.\<close>

definition open_segment :: "'x tsys_scheme \<Rightarrow> u32 \<Rightarrow> u8 \<Rightarrow> 'x tsys_scheme option" where
  "open_segment s pcb flags = do {
     (pbuf, s) \<leftarrow> pbuf_get s;
     let s = upd_tcb s pcb (\<lambda>p. p\<lparr>snd_buf := pbuf\<rparr>);
     let ip = pb_ip pbuf;
     let tcp = pb_tcp pbuf;
     let s = on_mem s (\<lambda>m. ip_addr_copy m (ip_dst ip) (tp_raddr pcb));
     let p = tcb s pcb;
     let s = upd_pbuf s pbuf (\<lambda>b. b\<lparr>pb_seqno := snd_nbb p\<rparr>);
     let s = on_mem s (\<lambda>m. store16 m (tcp_sport tcp) (htons (tp_lport p)));
     let s = on_mem s (\<lambda>m. store16 m (tcp_dport tcp) (htons (tp_rport p)));
     let s = on_mem s (\<lambda>m. store32 m (tcp_seqno tcp) (htonl (snd_nbb p)));
     let s = on_mem s (\<lambda>m. (store16 m (tcp_urgent tcp) 0)(tcp_flags tcp := flags));
     let r = tcp_write_option s pcb tcp;
     Some (upd_pbuf (snd r) pbuf (\<lambda>b. b\<lparr>pb_data := ip_payload ip + fst r, pb_size := 0, pb_total := fst r\<rparr>))
   }"

text \<open>
  The loop that fills segments. \<open>len\<close> is an int, and negative when \<^verbatim>\<open>snd_mss\<close> has become smaller than what the
  segment holds. \<^verbatim>\<open>continue\<close> goes on to the condition of the loop. The result is the last segment.
\<close>

partial_function (option) tcp_enqueue_loop ::
  "'x tsys_scheme \<Rightarrow> u32 \<Rightarrow> u32 \<Rightarrow> u32 \<Rightarrow> u32 \<Rightarrow> u8 \<Rightarrow> (u32 \<times> 'x tsys_scheme) option" where
  "tcp_enqueue_loop s pcb ptr sz left flags = do {
     s \<leftarrow> (if snd_buf (tcb s pcb) = NULL then open_segment s pcb flags else Some s);
     let pbuf = snd_buf (tcb s pcb);
     kassert (pbuf \<noteq> NULL);
     let tcp = pb_tcp pbuf;
     let s = on_mem s (\<lambda>m. m(tcp_flags tcp := m (tcp_flags tcp) OR flags));
     let seglen = ucast (snd_mss (tcb s pcb)) - pb_size (pbufs s pbuf);
     let len = (if sint left < sint seglen then left else seglen);
     let s = (if sint len > 0 then on_mem s (\<lambda>m. memcpy m (pb_data (pbufs s pbuf) + pb_size (pbufs s pbuf)) ptr len) else s);
     let ptr = (if sint len > 0 then ptr + len else ptr);
     let s = upd_tcb s pcb (\<lambda>p. p\<lparr>snd_nbb := snd_nbb p + len\<rparr>);
     let s = upd_pbuf s pbuf (\<lambda>b. b\<lparr>pb_size := pb_size b + len, pb_total := pb_total b + len\<rparr>);
     let left = left - len;
     let waits = (tp_flags (tcb s pcb) AND TF_NODELAY = 0 \<and> pb_size (pbufs s pbuf) < ucast (snd_mss (tcb s pcb)) \<and> sz > 0);
     s \<leftarrow> (if waits then Some s
          else do {
            s \<leftarrow> insert_segment s (tp_unsent pcb) pbuf;
            Some (upd_tcb s pcb (\<lambda>p. p\<lparr>snd_buf := NULL\<rparr>))
          });
     if sint left > 0 then tcp_enqueue_loop s pcb ptr sz left flags else Some (pbuf, s)
   }"

declare tcp_enqueue_loop.simps [code]

definition raise_mss :: "'x tsys_scheme \<Rightarrow> u32 \<Rightarrow> 'x tsys_scheme" where
  "raise_mss s pcb = (if snd_mss (tcb s pcb) < TCP_DEFAULT_MSS then upd_tcb s pcb (\<lambda>p. p\<lparr>snd_mss := TCP_DEFAULT_MSS\<rparr>) else s)"

definition tcp_enqueue :: "'x tsys_scheme \<Rightarrow> u32 \<Rightarrow> u32 \<Rightarrow> u32 \<Rightarrow> u8 \<Rightarrow> (u32 \<times> 'x tsys_scheme) option" where
  "tcp_enqueue s pcb data sz flags = do {
     (pbuf, s) \<leftarrow> tcp_enqueue_loop (raise_mss s pcb) pcb data sz sz flags;
     Some (EOK, if pb_size (pbufs s pbuf) > 0
                then on_mem s (\<lambda>m. m(tcp_flags (pb_tcp pbuf) := m (tcp_flags (pb_tcp pbuf)) OR TCP_PSH)) else s)
   }"

definition tcp_send_ack :: "'x tenv \<Rightarrow> 'x tsys_scheme \<Rightarrow> u32 \<Rightarrow> u8 \<Rightarrow> (u32 \<times> 'x tsys_scheme) option" where
  "tcp_send_ack e s pcb flags = do {
     (pbuf, s) \<leftarrow> pbuf_get s;
     let tcp = pb_tcp pbuf;
     let p = tcb s pcb;
     let s = on_mem s (\<lambda>m. ip_addr_copy m (ip_dst (pb_ip pbuf)) (tp_raddr pcb));
     let s = on_mem s (\<lambda>m. store16 m (tcp_sport tcp) (htons (tp_lport p)));
     let s = on_mem s (\<lambda>m. store16 m (tcp_dport tcp) (htons (tp_rport p)));
     let s = on_mem s (\<lambda>m. store32 m (tcp_seqno tcp) (htonl (snd_nxt p)));
     let s = on_mem s (\<lambda>m. store16 (set_tcp_len (m(tcp_flags tcp := flags)) tcp (TCP_SIZE div 4)) (tcp_urgent tcp) 0);
     let s = upd_pbuf s pbuf (\<lambda>b. b\<lparr>pb_size := 0, pb_total := TCP_SIZE, pb_data := tcp_options tcp\<rparr>);
     tcp_output_seg e s pcb pbuf
   }"

text \<open>The segments that fit into the window, in the order of their numbers.\<close>

definition send_segment :: "'x tenv \<Rightarrow> 'x tsys_scheme \<Rightarrow> u32 \<Rightarrow> u32 \<Rightarrow> 'x tsys_scheme option" where
  "send_segment e s pcb pbuf = do {
     let nxt = pb_seqno (pbufs s pbuf) + pb_size (pbufs s pbuf);
     let s = upd_tcb s pcb (\<lambda>p. if tp_rtt p \<noteq> 0 \<and> TCP_SEQ_LEQ (rtt_seq p) (snd_una p) then p\<lparr>tp_rtt := 1, rtt_seq := nxt\<rparr> else p);
     let s = upd_tcb s pcb (\<lambda>p. p\<lparr>snd_nxt := nxt\<rparr>);
     let s = upd_tcb s pcb (\<lambda>p. if TCP_SEQ_GT nxt (snd_max p) then p\<lparr>snd_max := nxt\<rparr> else p);
     kassert (pb_count (pbufs s pbuf) = 1);
     let s = upd_pbuf s pbuf (\<lambda>b. b\<lparr>pb_count := pb_count b + 1\<rparr>);
     s \<leftarrow> on_heap s (\<lambda>h. list_remove h (tcp_node pbuf));
     s \<leftarrow> insert_segment s (tp_unacked pcb) pbuf;
     (_, s) \<leftarrow> tcp_output_seg e s pcb pbuf;
     Some (upd_tcb s pcb (\<lambda>p. p\<lparr>tp_timers := (tp_timers p)[TCP_TIMER_REXMIT := tp_rto p]\<rparr>))
   }"

partial_function (option) tcp_output_loop :: "'x tenv \<Rightarrow> 'x tsys_scheme \<Rightarrow> u32 \<Rightarrow> u32 \<Rightarrow> u32 \<Rightarrow> 'x tsys_scheme option" where
  "tcp_output_loop e s pcb wnd node =
     (if node = list_tail (tp_unsent pcb) then Some s
      else do {
        let pbuf = pbuf_of_node node;
        nxt \<leftarrow> get_next (k_heap (d_k s)) node;
        if TCP_SEQ_GT (pb_seqno (pbufs s pbuf) + pb_size (pbufs s pbuf)) (snd_una (tcb s pcb) + wnd) then Some s
        else do {
          s \<leftarrow> send_segment e s pcb pbuf;
          tcp_output_loop e s pcb wnd nxt
        }
      })"

declare tcp_output_loop.simps [code]

text \<open>The window is reset to one segment after a time without traffic.\<close>

definition idle_restart :: "tcp_pcb_t \<Rightarrow> tcp_pcb_t" where
  "idle_restart p = (if snd_max p = snd_una p \<and> tp_idle p \<ge> tp_rto p then p\<lparr>snd_cwnd := ucast (snd_mss p)\<rparr> else p)"

definition tcp_output :: "'x tenv \<Rightarrow> 'x tsys_scheme \<Rightarrow> u32 \<Rightarrow> (u32 \<times> 'x tsys_scheme) option" where
  "tcp_output e s pcb = do {
     let s = upd_tcb s pcb idle_restart;
     let wnd = min (snd_cwnd (tcb s pcb)) (ucast (snd_wnd (tcb s pcb)));
     if wnd < ucast TCP_DEFAULT_MSS then Some (- EINVAL, s)
     else do {
       node \<leftarrow> get_next (k_heap (d_k s)) (list_head (tp_unsent pcb));
       s \<leftarrow> tcp_output_loop e s pcb wnd node;
       s \<leftarrow> (if tp_flags (tcb s pcb) AND TF_ACK_NOW \<noteq> 0 then do { (_, s) \<leftarrow> tcp_send_ack e s pcb TCP_ACK; Some s } else Some s);
       Some (EOK, s)
     }
   }"

text \<open>Segments that no interface holds any more go back to the list \<^verbatim>\<open>unsent\<close>.\<close>

partial_function (option) requeue_loop :: "'x tsys_scheme \<Rightarrow> u32 \<Rightarrow> u32 \<Rightarrow> 'x tsys_scheme option" where
  "requeue_loop s pcb node =
     (if node = list_tail (tp_unacked pcb) then Some s
      else do {
        let pbuf = pbuf_of_node node;
        nxt \<leftarrow> get_next (k_heap (d_k s)) node;
        s \<leftarrow> (if pb_count (pbufs s pbuf) > 1 then Some s
             else do {
               s \<leftarrow> on_heap s (\<lambda>h. list_remove h (tcp_node pbuf));
               insert_segment s (tp_unsent pcb) pbuf
             });
        requeue_loop s pcb nxt
      })"

declare requeue_loop.simps [code]

definition tcp_rexmit :: "'x tenv \<Rightarrow> 'x tsys_scheme \<Rightarrow> u32 \<Rightarrow> (u32 \<times> 'x tsys_scheme) option" where
  "tcp_rexmit e s pcb = do {
     node \<leftarrow> get_next (k_heap (d_k s)) (list_head (tp_unacked pcb));
     s \<leftarrow> requeue_loop s pcb node;
     (_, s) \<leftarrow> tcp_output e s pcb;
     Some (EOK, upd_tcb s pcb (\<lambda>p. p\<lparr>tp_timers := (tp_timers p)[TCP_TIMER_REXMIT := tp_rto p]\<rparr>))
   }"

text \<open>The addresses are pointers; the length of the packet buffer itself is not set.\<close>

definition tcp_reset ::
  "'x tenv \<Rightarrow> 'x tsys_scheme \<Rightarrow> u32 \<Rightarrow> u32 \<Rightarrow> u32 \<Rightarrow> u16 \<Rightarrow> u32 \<Rightarrow> u16 \<Rightarrow> (u32 \<times> 'x tsys_scheme) option" where
  "tcp_reset e s seqno ackno laddr lport raddr rport = do {
     netif \<leftarrow> netif_route s raddr;
     kassert (netif \<noteq> NULL);
     (pbuf, s) \<leftarrow> pbuf_get s;
     let tcp = pb_tcp pbuf;
     let s = on_mem s (\<lambda>m. store16 (store16 m (tcp_sport tcp) (htons lport)) (tcp_dport tcp) (htons rport));
     let s = on_mem s (\<lambda>m. store32 (store32 m (tcp_seqno tcp) (htonl seqno)) (tcp_ackno tcp) (htonl ackno));
     let s = on_mem s (\<lambda>m. store16 (store16 (m(tcp_flags tcp := TCP_ACK OR TCP_RST)) (tcp_window tcp) 0) (tcp_urgent tcp) 0);
     let s = on_mem s (\<lambda>m. store16 (set_tcp_len m tcp (TCP_SIZE div 4)) (tcp_sum tcp) 0);
     let s = (if nf_flags (netifs s netif) AND NETIF_TCP_TX_CHECKSUM_OFFLOAD = 0
              then on_mem s (\<lambda>m. store16 m (tcp_sum tcp) (inet_chksum m tcp (ucast TCP_SIZE) raddr laddr (ucast IP_PROTOCOL_TCP))) else s);
     ip_output e s netif pbuf raddr IP_PROTOCOL_TCP (ucast TCP_SIZE)
   }"

text \<open>The checksum depends on the flag of received packets here.\<close>

definition tcp_response :: "'x tenv \<Rightarrow> 'x tsys_scheme \<Rightarrow> u32 \<Rightarrow> u32 \<Rightarrow> u32 \<Rightarrow> u8 \<Rightarrow> (u32 \<times> 'x tsys_scheme) option" where
  "tcp_response e s pcb seqno ackno flags = do {
     netif \<leftarrow> netif_route s (tp_raddr pcb);
     kassert (netif \<noteq> NULL);
     (pbuf, s) \<leftarrow> pbuf_get s;
     let tcp = pb_tcp pbuf;
     let p = tcb s pcb;
     let s = on_mem s (\<lambda>m. store16 (store16 m (tcp_sport tcp) (htons (tp_lport p))) (tcp_dport tcp) (htons (tp_rport p)));
     let s = on_mem s (\<lambda>m. store32 (store32 m (tcp_seqno tcp) (htonl seqno)) (tcp_ackno tcp) (htonl ackno));
     let s = on_mem s (\<lambda>m. store16 (m(tcp_flags tcp := flags)) (tcp_window tcp) (announced_window p));
     let s = on_mem s (\<lambda>m. store16 (set_tcp_len (store16 m (tcp_urgent tcp) 0) tcp (TCP_SIZE div 4)) (tcp_sum tcp) 0);
     let s = (if nf_flags (netifs s netif) AND NETIF_TCP_RX_CHECKSUM_OFFLOAD = 0
              then on_mem s (\<lambda>m. store16 m (tcp_sum tcp) (inet_chksum m tcp (ucast TCP_SIZE) (tp_raddr pcb) (tp_laddr pcb) (ucast IP_PROTOCOL_TCP))) else s);
     ip_output e s netif pbuf (tp_raddr pcb) IP_PROTOCOL_TCP (ucast TCP_SIZE)
   }"

end
