(* ===== verification/Onix_Tcp_Input.thy ===== *)
theory Onix_Tcp_Input
  imports Onix_Tcp_Output
begin

section \<open>TCP input (src/net/tcp_input.c)\<close>

text \<open>
  A received segment is checked, its header is converted to the order of the host in place, and the
  control block it belongs to makes a step: windows and acknowledgements first, then the data, then the
  state of the connection.
\<close>

text \<open>The fields of a converted header.\<close>

definition seg_seqno :: "'x dsys_scheme \<Rightarrow> u32 \<Rightarrow> u32" where "seg_seqno s tcp = read32 (d_mem s) (tcp_seqno tcp)"
definition seg_ackno :: "'x dsys_scheme \<Rightarrow> u32 \<Rightarrow> u32" where "seg_ackno s tcp = read32 (d_mem s) (tcp_ackno tcp)"
definition seg_window :: "'x dsys_scheme \<Rightarrow> u32 \<Rightarrow> u16" where "seg_window s tcp = read16 (d_mem s) (tcp_window tcp)"

abbreviation seg_has :: "'x dsys_scheme \<Rightarrow> u32 \<Rightarrow> u8 \<Rightarrow> bool" where
  "seg_has s tcp flag \<equiv> tcp_has (d_mem s) tcp flag"

definition set_timer :: "nat \<Rightarrow> u32 \<Rightarrow> tcp_pcb_t \<Rightarrow> tcp_pcb_t" where
  "set_timer i v p = p\<lparr>tp_timers := (tp_timers p)[i := v]\<rparr>"

definition set_flags :: "u32 \<Rightarrow> tcp_pcb_t \<Rightarrow> tcp_pcb_t" where
  "set_flags f p = p\<lparr>tp_flags := tp_flags p OR f\<rparr>"

subsection \<open>Windows and acknowledgements\<close>

definition tcp_update_wnd :: "u32 \<Rightarrow> u32 \<Rightarrow> u16 \<Rightarrow> tcp_pcb_t \<Rightarrow> tcp_pcb_t" where
  "tcp_update_wnd seqno ackno wnd p =
     (if TCP_SEQ_LT (snd_wl1 p) seqno \<or> seqno = snd_wl1 p \<and> TCP_SEQ_LEQ (snd_wl2 p) ackno then
        let p = p\<lparr>snd_wnd := wnd, snd_wl1 := seqno, snd_wl2 := ackno\<rparr>;
            p = (if ucast wnd > snd_mwnd p then p\<lparr>snd_mwnd := ucast wnd\<rparr> else p)
        in if snd_wnd p = 0 then set_timer TCP_TIMER_PERSIST TCP_TO_PERSMIN p else set_timer TCP_TIMER_PERSIST 0 p
      else p)"

text \<open>Half of the window in segments, at least two. The division is by \<^verbatim>\<open>snd_mss\<close>, which an option may have set to 0.\<close>

definition half_window :: "tcp_pcb_t \<Rightarrow> u32 option" where
  "half_window p = do {
     kassert (snd_mss p \<noteq> 0);
     let segs = min (ucast (snd_wnd p)) (snd_cwnd p) div 2 div ucast (snd_mss p);
     Some ((if sint segs < 2 then 2 else segs) * ucast (snd_mss p))
   }"

definition tcp_handle_duppacks :: "'x tenv \<Rightarrow> 'x tsys_scheme \<Rightarrow> u32 \<Rightarrow> 'x tsys_scheme option" where
  "tcp_handle_duppacks e s pcb =
     (if dupacks (tcb s pcb) < TCP_REXMIT_THREASH then Some s
      else if dupacks (tcb s pcb) = TCP_REXMIT_THREASH then do {
        half \<leftarrow> half_window (tcb s pcb);
        let s = upd_tcb s pcb (\<lambda>p. p\<lparr>snd_ssthresh := half, snd_cwnd := ucast (snd_mss p), tp_rtt := 0\<rparr>);
        (_, s) \<leftarrow> tcp_rexmit e s pcb;
        Some (upd_tcb s pcb (\<lambda>p. p\<lparr>snd_cwnd := snd_ssthresh p + ucast (snd_mss p) * dupacks p\<rparr>))
      }
      else do {
        let s = upd_tcb s pcb (\<lambda>p. p\<lparr>snd_cwnd := snd_cwnd p + ucast (snd_mss p)\<rparr>);
        (_, s) \<leftarrow> tcp_rexmit e s pcb;
        Some s
      })"

text \<open>
  What a new acknowledgement does to the numbers of the control block. The congestion window grows by a
  segment below the threshold, by a fraction of one above; the last segment timed may end a measurement.
\<close>

definition grow_cwnd :: "tcp_pcb_t \<Rightarrow> tcp_pcb_t" where
  "grow_cwnd p =
     (let cwnd = snd_cwnd p; unit = ucast (snd_mss p);
          unit = (if cwnd > snd_ssthresh p then idiv (unit * unit) cwnd else unit)
      in p\<lparr>snd_cwnd := (if sint (cwnd + unit) < sint TCP_MAX_WINDOW then cwnd + unit else TCP_MAX_WINDOW)\<rparr>)"

definition new_ack :: "u32 \<Rightarrow> tcp_pcb_t \<Rightarrow> tcp_pcb_t" where
  "new_ack ackno p =
     (let p = (if dupacks p > TCP_REXMIT_THREASH \<and> snd_cwnd p > snd_ssthresh p then p\<lparr>snd_cwnd := snd_ssthresh p\<rparr> else p);
          p = grow_cwnd (p\<lparr>dupacks := 0\<rparr>);
          p = (if tp_rtt p \<noteq> 0 \<and> ackno = rtt_seq p then tcp_xmit_timer p (tp_rtt p - 1) else p)
      in p\<lparr>tp_rtt := 1, snd_una := ackno, rtx_cnt := 0\<rparr>)"

partial_function (option) drop_acked :: "'x tsys_scheme \<Rightarrow> u32 \<Rightarrow> u32 \<Rightarrow> u32 \<Rightarrow> 'x tsys_scheme option" where
  "drop_acked s ackno tail node =
     (if node = tail then Some s
      else do {
        let pbuf = pbuf_of_node node;
        nxt \<leftarrow> get_next (k_heap (d_k s)) node;
        s \<leftarrow> (if TCP_SEQ_GT (pb_seqno (pbufs s pbuf) + pb_size (pbufs s pbuf)) ackno then Some s
             else do {
               s \<leftarrow> on_heap s (\<lambda>h. list_remove h (tcp_node pbuf));
               kassert (pb_count (pbufs s pbuf) \<le> 2);
               pbuf_put s pbuf
             });
        drop_acked s ackno tail nxt
      })"

declare drop_acked.simps [code]

definition drop_acked_list :: "'x tsys_scheme \<Rightarrow> u32 \<Rightarrow> u32 \<Rightarrow> 'x tsys_scheme option" where
  "drop_acked_list s ackno l = do {
     node \<leftarrow> get_next (k_heap (d_k s)) (list_head l);
     drop_acked s ackno (list_tail l) node
   }"

definition tcp_update_ack :: "'x tenv \<Rightarrow> 'x tsys_scheme \<Rightarrow> u32 \<Rightarrow> u32 \<Rightarrow> u32 \<Rightarrow> 'x tsys_scheme option" where
  "tcp_update_ack e s pcb pbuf tcp = do {
     let ackno = seg_ackno s tcp;
     if TCP_SEQ_GEQ (snd_una (tcb s pcb)) ackno then
       if pb_size (pbufs s pbuf) = 0 then tcp_handle_duppacks e (upd_tcb s pcb (\<lambda>p. p\<lparr>dupacks := dupacks p + 1\<rparr>)) pcb
       else Some (upd_tcb s pcb (\<lambda>p. p\<lparr>dupacks := 0\<rparr>))
     else do {
       let s = upd_tcb s pcb (new_ack ackno);
       s \<leftarrow> drop_acked_list s ackno (tp_unacked pcb);
       s \<leftarrow> drop_acked_list s ackno (tp_unsent pcb);
       let nbuf = snd_buf (tcb s pcb);
       s \<leftarrow> (if nbuf \<noteq> NULL \<and> pb_size (pbufs s nbuf) > 0 \<and> ackno = snd_max (tcb s pcb) then do {
              s \<leftarrow> insert_segment s (tp_unsent pcb) nbuf;
              Some (upd_tcb s pcb (\<lambda>p. p\<lparr>snd_buf := NULL\<rparr>))
            } else Some s);
       noack \<leftarrow> list_empty (k_heap (d_k s)) (tp_unacked pcb);
       nosend \<leftarrow> list_empty (k_heap (d_k s)) (tp_unsent pcb);
       let w = tx_waiter (tcb s pcb);
       if noack \<and> nosend \<and> w \<noteq> NULL then do {
         s \<leftarrow> wake s w;
         Some (upd_tcb s pcb (\<lambda>p. set_timer TCP_TIMER_REXMIT 0 (p\<lparr>tx_waiter := NULL\<rparr>)))
       } else Some s
     }
   }"

subsection \<open>Data\<close>

text \<open>The part of a segment that has been received before is skipped.\<close>

definition trim_segment :: "'x tsys_scheme \<Rightarrow> u32 \<Rightarrow> u32 \<Rightarrow> u32 \<Rightarrow> 'x tsys_scheme" where
  "trim_segment s pcb pbuf seqno =
     (let nxt = rcv_nxt (tcb s pcb) in
      if TCP_SEQ_LT seqno nxt
      then upd_pbuf s pbuf (\<lambda>b. b\<lparr>pb_data := pb_data b + (nxt - seqno), pb_size := pb_size b - (nxt - seqno)\<rparr>) else s)"

definition tcp_update_buf :: "'x tenv \<Rightarrow> 'x tsys_scheme \<Rightarrow> u32 \<Rightarrow> u32 \<Rightarrow> u32 \<Rightarrow> 'x tsys_scheme option" where
  "tcp_update_buf e s pcb pbuf tcp = do {
     let seqno = seg_seqno s tcp;
     let nxt = seqno + pb_size (pbufs s pbuf);
     if TCP_SEQ_LEQ nxt (rcv_nxt (tcb s pcb)) then Some (upd_tcb s pcb (set_flags TF_ACK_DELAY))
     else if TCP_SEQ_GT seqno (rcv_nxt (tcb s pcb)) then Some (upd_tcb s pcb (set_flags TF_ACK_DELAY))
     else do {
       let s = trim_segment s pcb pbuf seqno;
       if pb_size (pbufs s pbuf) = 0 then Some (upd_tcb s pcb (set_flags TF_ACK_DELAY))
       else do {
         let s = upd_tcb s pcb (\<lambda>p. p\<lparr>rcv_nxt := nxt\<rparr>);
         kassert (pb_count (pbufs s pbuf) = 1);
         let s = upd_pbuf s pbuf (\<lambda>b. b\<lparr>pb_count := pb_count b + 1\<rparr>);
         let n = pb_size (pbufs s pbuf);
         let s = upd_tcb s pcb (\<lambda>p. set_flags TF_ACK_DELAY (p\<lparr>rcv_wnd := rcv_wnd p - ucast n\<rparr>));
         s \<leftarrow> (if tp_flags (tcb s pcb) AND TF_QUICKACK \<noteq> 0 then do { (_, s) \<leftarrow> tcp_send_ack e s pcb TCP_ACK; Some s } else Some s);
         if tp_state (tcb s pcb) > ESTABLISHED then Some s
         else do {
           s \<leftarrow> insert_segment s (tp_recved pcb) pbuf;
           let w = rx_waiter (tcb s pcb);
           if w \<noteq> NULL then do { s \<leftarrow> wake s w; Some (upd_tcb s pcb (\<lambda>p. p\<lparr>rx_waiter := NULL\<rparr>)) } else Some s
         }
       }
     }
   }"

text \<open>The function has no return value of its own and its caller does not read one.\<close>

definition tcp_receive :: "'x tenv \<Rightarrow> 'x tsys_scheme \<Rightarrow> u32 \<Rightarrow> u32 \<Rightarrow> u32 \<Rightarrow> 'x tsys_scheme option" where
  "tcp_receive e s pcb pbuf tcp = do {
     s \<leftarrow> (if seg_has s tcp TCP_ACK
          then tcp_update_ack e (upd_tcb s pcb (tcp_update_wnd (seg_seqno s tcp) (seg_ackno s tcp) (seg_window s tcp))) pcb pbuf tcp
          else Some s);
     if pb_size (pbufs s pbuf) > 0 then tcp_update_buf e s pcb pbuf tcp else Some s
   }"

subsection \<open>The state of the connection\<close>

definition tcp_handle_syn_sent :: "'x tenv \<Rightarrow> 'x tsys_scheme \<Rightarrow> u32 \<Rightarrow> u32 \<Rightarrow> (u32 \<times> 'x tsys_scheme) option" where
  "tcp_handle_syn_sent e s pcb tcp =
     (if d_mem s (tcp_flags tcp) \<noteq> TCP_SYN OR TCP_ACK then Some (- EPROTO, s)
      else if seg_ackno s tcp \<noteq> snd_nxt (tcb s pcb) + 1 then Some (- EPROTO, s)
      else do {
        let ackno = seg_ackno s tcp;
        let s = upd_tcb s pcb (\<lambda>p. set_flags TF_ACK_DELAY (p\<lparr>tp_state := ESTABLISHED, rcv_nxt := seg_seqno s tcp + 1,
                  snd_nxt := ackno, snd_wnd := seg_window s tcp, snd_una := ackno, snd_nbb := ackno\<rparr>));
        s \<leftarrow> (if tp_flags (tcb s pcb) AND TF_QUICKACK \<noteq> 0 then do { (_, s) \<leftarrow> tcp_send_ack e s pcb TCP_ACK; Some s } else Some s);
        let w = ac_waiter (tcb s pcb);
        s \<leftarrow> (if w \<noteq> NULL then do { s \<leftarrow> wake s w; Some (upd_tcb s pcb (\<lambda>p. p\<lparr>ac_waiter := NULL\<rparr>)) } else Some s);
        Some (EOK, s)
      })"

definition tcp_handle_reset :: "'x tsys_scheme \<Rightarrow> u32 \<Rightarrow> (u32 \<times> 'x tsys_scheme) option" where
  "tcp_handle_reset s pcb =
     (if tp_state (tcb s pcb) \<le> SYN_SENT then Some (- ERESET, s)
      else do {
        s \<leftarrow> tcp_pcb_purge s pcb (- ERESET);
        Some (- ERESET, upd_tcb s pcb (\<lambda>p. p\<lparr>tp_state := CLOSED\<rparr>))
      })"

definition tcp_handle_listen ::
  "'x tenv \<Rightarrow> 'x tsys_scheme \<Rightarrow> u32 \<Rightarrow> u32 \<Rightarrow> u32 \<Rightarrow> u32 \<Rightarrow> (u32 \<times> 'x tsys_scheme) option" where
  "tcp_handle_listen e s pcb netif ip tcp =
     (if d_mem s (tcp_flags tcp) \<noteq> TCP_SYN then Some (- EPROTO, s)
      else if backcnt (tcb s pcb) = tp_backlog (tcb s pcb) then Some (- EPROTO, s)
      else do {
        (npcb, s) \<leftarrow> tcp_pcb_get e s;
        let s = on_mem s (\<lambda>m. ip_addr_copy m (tp_laddr npcb) (nf_ipaddr netif));
        let s = on_mem s (\<lambda>m. ip_addr_copy m (tp_raddr npcb) (ip_src ip));
        let mss = snd_mss (tcb s pcb);
        let s = upd_tcb s npcb (\<lambda>n. n\<lparr>tp_lport := tp_lport (tcb s pcb), tp_rport := read16 (d_mem s) (tcp_sport tcp),
                  tp_state := SYN_RCVD, snd_wnd := seg_window s tcp, snd_mss := (if mss < TCP_DEFAULT_MSS then TCP_DEFAULT_MSS else mss),
                  rcv_nxt := seg_seqno s tcp + 1, tp_listen := pcb\<rparr>);
        s \<leftarrow> on_heap s (\<lambda>h. list_push h (tp_acclist pcb) (tp_accnode npcb));
        let s = upd_tcb s pcb (\<lambda>p. p\<lparr>backcnt := backcnt p + 1\<rparr>);
        s \<leftarrow> on_heap s (\<lambda>h. list_remove h npcb);
        s \<leftarrow> on_heap s (\<lambda>h. list_push h (tcp_pcb_active_list s) npcb);
        (_, s) \<leftarrow> tcp_enqueue s npcb NULL 0 (TCP_SYN OR TCP_ACK);
        (_, s) \<leftarrow> tcp_output e s npcb;
        Some (EOK, upd_tcb s pcb (set_timer TCP_TIMER_SYN TCP_TO_SYN))
      })"

text \<open>A connection that the peer opened is established; the task that waits in \<^verbatim>\<open>accept\<close> is woken.\<close>

definition process_syn_rcvd :: "'x tsys_scheme \<Rightarrow> u32 \<Rightarrow> u32 \<Rightarrow> 'x tsys_scheme option" where
  "process_syn_rcvd s pcb tcp =
     (if \<not> seg_has s tcp TCP_ACK \<or> seg_ackno s tcp \<noteq> snd_nxt (tcb s pcb) + 1 then Some s
      else do {
        let ackno = seg_ackno s tcp;
        let s = upd_tcb s pcb (\<lambda>p. p\<lparr>tp_state := ESTABLISHED, snd_nxt := ackno, snd_nbb := ackno\<rparr>);
        let l = tp_listen (tcb s pcb);
        kassert (l \<noteq> NULL);
        let w = ac_waiter (tcb s l);
        if w \<noteq> NULL then wake s w else Some s
      })"

text \<open>The number of our FIN is acknowledged.\<close>

definition fin_acked :: "'x tsys_scheme \<Rightarrow> u32 \<Rightarrow> u32 \<Rightarrow> bool" where
  "fin_acked s pcb tcp \<longleftrightarrow> seg_has s tcp TCP_ACK \<and> seg_ackno s tcp = snd_nxt (tcb s pcb) + 1"

definition pass_fin :: "tcp_pcb_t \<Rightarrow> tcp_pcb_t" where
  "pass_fin p = p\<lparr>snd_nxt := snd_nxt p + 1, snd_nbb := snd_nxt p + 1\<rparr>"

definition process_fin_wait1 :: "'x tsys_scheme \<Rightarrow> u32 \<Rightarrow> u32 \<Rightarrow> 'x tsys_scheme option" where
  "process_fin_wait1 s pcb tcp = do {
     let fin = seg_has s tcp TCP_FIN;
     let seqno = seg_seqno s tcp;
     s \<leftarrow> (if fin \<and> fin_acked s pcb tcp then tcp_pcb_timewait (upd_tcb s pcb pass_fin) pcb
          else if fin then Some (upd_tcb s pcb (\<lambda>p. p\<lparr>tp_state := CLOSING\<rparr>))
          else if fin_acked s pcb tcp then
            Some (upd_tcb s pcb (\<lambda>p. set_timer TCP_TIMER_FIN_WAIT2 TCP_TO_FIN_WAIT2 (pass_fin p\<lparr>tp_state := FIN_WAIT2\<rparr>)))
          else Some s);
     Some (if fin then upd_tcb s pcb (\<lambda>p. set_flags TF_ACK_NOW (p\<lparr>rcv_nxt := seqno + 1\<rparr>)) else s)
   }"

definition tcp_process ::
  "'x tenv \<Rightarrow> 'x tsys_scheme \<Rightarrow> u32 \<Rightarrow> u32 \<Rightarrow> u32 \<Rightarrow> u32 \<Rightarrow> u32 \<Rightarrow> (u32 \<times> 'x tsys_scheme) option" where
  "tcp_process e s pcb netif pbuf ip tcp = do {
     s \<leftarrow> (if seg_has s tcp TCP_ACK \<and> tp_state (tcb s pcb) \<noteq> TIME_WAIT then tcp_receive e s pcb pbuf tcp else Some s);
     case tp_state (tcb s pcb) of
       LISTEN \<Rightarrow> tcp_handle_listen e s pcb netif ip tcp
     | SYN_SENT \<Rightarrow> tcp_handle_syn_sent e s pcb tcp
     | SYN_RCVD \<Rightarrow> do { s \<leftarrow> process_syn_rcvd s pcb tcp; Some (EOK, s) }
     | CLOSE_WAIT \<Rightarrow> Some (EOK, if seg_has s tcp TCP_FIN
         then upd_tcb s pcb (\<lambda>p. set_flags TF_ACK_NOW (p\<lparr>tp_state := CLOSE_WAIT, rcv_nxt := seg_seqno s tcp + 1\<rparr>)) else s)
     | ESTABLISHED \<Rightarrow> Some (EOK, if seg_has s tcp TCP_FIN
         then upd_tcb s pcb (\<lambda>p. set_flags TF_ACK_NOW (p\<lparr>tp_state := CLOSE_WAIT, rcv_nxt := seg_seqno s tcp + 1\<rparr>)) else s)
     | LAST_ACK \<Rightarrow>
         if seg_has s tcp TCP_ACK
         then do { s \<leftarrow> tcp_pcb_put (upd_tcb s pcb (\<lambda>p. p\<lparr>tp_state := CLOSED\<rparr>)) pcb; Some (EOK, s) } else Some (EOK, s)
     | FIN_WAIT1 \<Rightarrow> do { s \<leftarrow> process_fin_wait1 s pcb tcp; Some (EOK, s) }
     | FIN_WAIT2 \<Rightarrow>
         if seg_has s tcp TCP_FIN
         then do {
           s \<leftarrow> tcp_pcb_timewait (upd_tcb s pcb (\<lambda>p. set_flags TF_ACK_NOW (p\<lparr>rcv_nxt := seg_seqno s tcp + 1\<rparr>))) pcb;
           Some (EOK, s)
         } else Some (EOK, s)
     | CLOSING \<Rightarrow>
         if fin_acked s pcb tcp then do { s \<leftarrow> tcp_pcb_timewait (upd_tcb s pcb pass_fin) pcb; Some (EOK, s) } else Some (EOK, s)
     | TIME_WAIT \<Rightarrow> do {
         let nxt = seg_seqno s tcp + pb_size (pbufs s pbuf);
         let s = upd_tcb s pcb (\<lambda>p. if TCP_SEQ_GT nxt (rcv_nxt p) then p\<lparr>rcv_nxt := nxt\<rparr> else p);
         Some (EOK, if pb_size (pbufs s pbuf) > 0 then upd_tcb s pcb (set_flags TF_ACK_NOW) else s)
       }
     | CLOSED \<Rightarrow> Some (EOK, s)
   }"

subsection \<open>Input\<close>

definition tcp_validate :: "'x tsys_scheme \<Rightarrow> u32 \<Rightarrow> u32 \<Rightarrow> u32 \<Rightarrow> u32" where
  "tcp_validate s pcb pbuf tcp =
     (let ends = pb_seqno (pbufs s pbuf) + pb_size (pbufs s pbuf); p = tcb s pcb in
      if seg_has s tcp TCP_SYN then EOK
      else if TCP_SEQ_GT ends (rcv_nxt p + ucast (rcv_wnd p)) then - EPROTO
      else if TCP_SEQ_LT ends (rcv_nxt p) then - EPROTO
      else EOK)"

text \<open>The fields of the header in the order of the host.\<close>

definition host_order :: "mem \<Rightarrow> u32 \<Rightarrow> mem" where
  "host_order m tcp =
     (let m = store16 m (tcp_sport tcp) (htons (read16 m (tcp_sport tcp)));
          m = store16 m (tcp_dport tcp) (htons (read16 m (tcp_dport tcp)));
          m = store32 m (tcp_seqno tcp) (htonl (read32 m (tcp_seqno tcp)));
          m = store32 m (tcp_ackno tcp) (htonl (read32 m (tcp_ackno tcp)));
          m = store16 m (tcp_window tcp) (htons (read16 m (tcp_window tcp)))
      in store16 m (tcp_urgent tcp) (htons (read16 m (tcp_urgent tcp))))"

text \<open>The data begins behind the header; a zero is written behind it.\<close>

definition open_received :: "'x tsys_scheme \<Rightarrow> u32 \<Rightarrow> 'x tsys_scheme" where
  "open_received s pbuf =
     (let tcp = pb_tcp pbuf; hlen = tcp_len (d_mem s) tcp * 4;
          s = upd_pbuf s pbuf (\<lambda>b. b\<lparr>pb_size := pb_total b - hlen, pb_data := pb_tcp pbuf + hlen\<rparr>);
          s = on_mem s (\<lambda>m. m(pb_data (pbufs s pbuf) + pb_size (pbufs s pbuf) := 0));
          s = on_mem s (\<lambda>m. host_order m tcp)
      in upd_pbuf s pbuf (\<lambda>b. b\<lparr>pb_seqno := seg_seqno s tcp\<rparr>))"

definition restart_keepalive :: "tcp_pcb_t \<Rightarrow> tcp_pcb_t" where
  "restart_keepalive p =
     (let p = p\<lparr>tp_idle := 0\<rparr> in if tp_flags p AND TF_KEEPALIVE \<noteq> 0 then set_timer TCP_TIMER_KEEPALIVE TCP_TO_KEEP_IDLE p else p)"

definition tcp_input :: "'x tenv \<Rightarrow> 'x tsys_scheme \<Rightarrow> u32 \<Rightarrow> u32 \<Rightarrow> (u32 \<times> 'x tsys_scheme) option" where
  "tcp_input e s netif pbuf = do {
     let ip = pb_ip pbuf;
     let tcp = pb_tcp pbuf;
     if tcp_len (d_mem s) tcp * 4 < TCP_SIZE then Some (- EPROTO, s)
     else if broadcast_at (d_mem s) (ip_dst ip) (nf_netmask netif) then Some (EOK, s)
     else if ip_addr_ismulticast (read32 (d_mem s) (ip_dst ip)) then Some (EOK, s)
     else do {
       let s = upd_pbuf s pbuf (\<lambda>b. b\<lparr>pb_total := ucast (read16 (d_mem s) (ip_length ip)) - IP_SIZE\<rparr>);
       if nf_flags (netifs s netif) AND NETIF_TCP_RX_CHECKSUM_OFFLOAD = 0 \<and>
          inet_chksum (d_mem s) tcp (ucast (pb_total (pbufs s pbuf))) (ip_dst ip) (ip_src ip) (ucast IP_PROTOCOL_TCP) \<noteq> 0
       then Some (- ECHKSUM, s)
       else do {
         let s = open_received s pbuf;
         let sport = read16 (d_mem s) (tcp_sport tcp);
         let dport = read16 (d_mem s) (tcp_dport tcp);
         pcb \<leftarrow> tcp_find_pcb s (ip_dst ip) dport (ip_src ip) sport;
         if pcb = NULL then Some (- EADDR, s)
         else if sint (tcp_validate s pcb pbuf tcp) < sint EOK then Some (- EPROTO, s)
         else if tp_state (tcb s pcb) = CLOSED then
           tcp_reset e s (seg_ackno s tcp + 1) (seg_seqno s tcp + pb_size (pbufs s pbuf)) (ip_dst ip) dport (ip_src ip) sport
         else if seg_has s tcp TCP_RST then tcp_handle_reset s pcb
         else do {
           (ret, s) \<leftarrow> tcp_parse_option s pcb tcp;
           if sint ret < sint EOK then Some (ret, s)
           else tcp_process e (upd_tcb s pcb restart_keepalive) pcb netif pbuf ip tcp
         }
       }
     }
   }"

text \<open>The environment of \<^verbatim>\<open>ip_input\<close> with the code's \<^verbatim>\<open>tcp_input\<close>.\<close>

definition with_tcp :: "('x tsys_ext) netenv \<Rightarrow> ('x tsys_ext) netenv" where
  "with_tcp e = e\<lparr>ne_tcp_input := tcp_input (ne_fs e)\<rparr>"

end
