(* ===== verification/Onix_Tcp.thy ===== *)
theory Onix_Tcp
  imports Onix_Tcp_Input
begin

section \<open>TCP timers and sockets (src/net/tcp_timer.c, tcp.c)\<close>

subsection \<open>Timers\<close>

text \<open>One round of the loop of the fast task: delayed acknowledgements are sent.\<close>

partial_function (option) tcp_fast_scan :: "'x tenv \<Rightarrow> 'x tsys_scheme \<Rightarrow> u32 \<Rightarrow> u32 \<Rightarrow> 'x tsys_scheme option" where
  "tcp_fast_scan e s tail pcb =
     (if pcb = tail then Some s
      else do {
        let s = (if tp_flags (tcb s pcb) AND TF_ACK_DELAY \<noteq> 0 then upd_tcb s pcb (set_flags TF_ACK_NOW) else s);
        s \<leftarrow> (if tp_flags (tcb s pcb) AND TF_ACK_NOW \<noteq> 0 then do { (_, s) \<leftarrow> tcp_output e s pcb; Some s } else Some s);
        nxt \<leftarrow> get_next (k_heap (d_k s)) pcb;
        tcp_fast_scan e s tail nxt
      })"

declare tcp_fast_scan.simps [code]

definition tcp_sleep :: "'x tenv \<Rightarrow> 'x tsys_scheme \<Rightarrow> u32 \<Rightarrow> 'x tsys_scheme option" where
  "tcp_sleep e s ms = do { s \<leftarrow> on_k s (\<lambda>k. task_sleep k ms); dn_others (fs_dev e) s }"

definition tcp_fastimo :: "'x tenv \<Rightarrow> 'x tsys_scheme \<Rightarrow> 'x tsys_scheme option" where
  "tcp_fastimo e s = do {
     pcb \<leftarrow> get_next (k_heap (d_k s)) (list_head (tcp_pcb_active_list s));
     s \<leftarrow> tcp_fast_scan e s (list_tail (tcp_pcb_active_list s)) pcb;
     pcb \<leftarrow> get_next (k_heap (d_k s)) (list_head (tcp_pcb_timewait_list s));
     s \<leftarrow> tcp_fast_scan e s (list_tail (tcp_pcb_timewait_list s)) pcb;
     tcp_sleep e s TCP_FAST_INTERVAL
   }"

text \<open>Both bounds of the range are the largest value.\<close>

definition persist_timeout :: "u32 list \<Rightarrow> tcp_pcb_t \<Rightarrow> u32 option" where
  "persist_timeout backoff p = do {
     kassert (unat (rtx_cnt p) < length backoff);
     let value = signed_drop_bit 1 (signed_drop_bit 2 (tp_srtt p) + rttvar p);
     Some (tcp_range_value (value * backoff ! unat (rtx_cnt p)) TCP_TO_PERMAX TCP_TO_PERMAX)
   }"

definition tcp_persist :: "'x tenv \<Rightarrow> 'x tsys_scheme \<Rightarrow> u32 \<Rightarrow> 'x tsys_scheme option" where
  "tcp_persist e s pcb = do {
     v \<leftarrow> persist_timeout (tcp_backoff s) (tcb s pcb);
     let s = upd_tcb s pcb (set_timer TCP_TIMER_PERSIST v);
     let s = upd_tcb s pcb (\<lambda>p. if rtx_cnt p < TCP_MAXRXTCNT then p\<lparr>rtx_cnt := rtx_cnt p + 1\<rparr> else p);
     (_, s) \<leftarrow> tcp_response e s pcb (snd_una (tcb s pcb)) (rcv_nxt (tcb s pcb)) TCP_ACK;
     Some s
   }"

definition tcp_keepalive :: "'x tenv \<Rightarrow> 'x tsys_scheme \<Rightarrow> u32 \<Rightarrow> 'x tsys_scheme option" where
  "tcp_keepalive e s pcb = do {
     (_, s) \<leftarrow> tcp_response e s pcb (snd_una (tcb s pcb) - 1) (rcv_nxt (tcb s pcb)) TCP_ACK;
     Some (upd_tcb s pcb (set_timer TCP_TIMER_KEEPALIVE TCP_TO_KEEP_INTERVAL))
   }"

text \<open>The connection is given up.\<close>

definition tcp_abort :: "'x tsys_scheme \<Rightarrow> u32 \<Rightarrow> 'x tsys_scheme option" where
  "tcp_abort s pcb = do {
     s \<leftarrow> tcp_pcb_purge s pcb (- ETIME);
     Some (upd_tcb s pcb (\<lambda>p. p\<lparr>tp_state := CLOSED\<rparr>))
   }"

definition tcp_timeout :: "'x tenv \<Rightarrow> 'x tsys_scheme \<Rightarrow> u32 \<Rightarrow> nat \<Rightarrow> 'x tsys_scheme option" where
  "tcp_timeout e s pcb type =
     (if type = TCP_TIMER_SYN then
        if tp_state (tcb s pcb) \<noteq> SYN_SENT \<and> tp_state (tcb s pcb) \<noteq> SYN_RCVD then Some s else tcp_abort s pcb
      else if type = TCP_TIMER_REXMIT then do {
        let s = upd_tcb s pcb (\<lambda>p. p\<lparr>rtx_cnt := rtx_cnt p + 1\<rparr>);
        if rtx_cnt (tcb s pcb) > TCP_MAXRXTCNT then tcp_abort s pcb
        else do {
          kassert (unat (rtx_cnt (tcb s pcb)) < length (tcp_backoff s));
          let s = upd_tcb s pcb (\<lambda>p. p\<lparr>tp_rto := tcp_update_rto p (tcp_backoff s ! unat (rtx_cnt p))\<rparr>);
          (_, s) \<leftarrow> tcp_rexmit e s pcb;
          Some s
        }
      }
      else if type = TCP_TIMER_PERSIST then tcp_persist e s pcb
      else if type = TCP_TIMER_KEEPALIVE then
        if tp_flags (tcb s pcb) AND TF_KEEPALIVE = 0 then Some s
        else if tp_state (tcb s pcb) < ESTABLISHED then Some s
        else if tp_idle (tcb s pcb) > TCP_TO_KEEP_INTERVAL * TCP_TO_KEEPCNT then tcp_abort s pcb
        else tcp_keepalive e s pcb
      else if type = TCP_TIMER_FIN_WAIT2 \<or> type = TCP_TIMER_TIMEWAIT then tcp_pcb_put s pcb
      else Some s)"

text \<open>The timers of a control block; they are read after a timeout that has freed it, too.\<close>

fun tcp_timers_loop :: "'x tenv \<Rightarrow> 'x tsys_scheme \<Rightarrow> u32 \<Rightarrow> nat list \<Rightarrow> 'x tsys_scheme option" where
  "tcp_timers_loop e s pcb [] = Some s"
| "tcp_timers_loop e s pcb (i # is) = do {
     let t = tp_timers (tcb s pcb) ! i;
     s \<leftarrow> (if t = 0 then Some s
          else do {
            let s = upd_tcb s pcb (set_timer i (t - 1));
            if t - 1 = 0 then tcp_timeout e s pcb i else Some s
          });
     tcp_timers_loop e s pcb is
   }"

definition tick :: "tcp_pcb_t \<Rightarrow> tcp_pcb_t" where
  "tick p = p\<lparr>tp_idle := tp_idle p + 1, tp_rtt := (if tp_rtt p \<noteq> 0 then tp_rtt p + 1 else 0)\<rparr>"

partial_function (option) tcp_slow_scan :: "'x tenv \<Rightarrow> 'x tsys_scheme \<Rightarrow> u32 \<Rightarrow> u32 \<Rightarrow> 'x tsys_scheme option" where
  "tcp_slow_scan e s tail pcb =
     (if pcb = tail then Some s
      else do {
        nxt \<leftarrow> get_next (k_heap (d_k s)) pcb;
        s \<leftarrow> tcp_timers_loop e (upd_tcb s pcb tick) pcb [0..<TCP_TIMER_NUM];
        tcp_slow_scan e s tail nxt
      })"

declare tcp_slow_scan.simps [code]

definition tcp_slowtimo :: "'x tenv \<Rightarrow> 'x tsys_scheme \<Rightarrow> 'x tsys_scheme option" where
  "tcp_slowtimo e s = do {
     pcb \<leftarrow> get_next (k_heap (d_k s)) (list_head (tcp_pcb_active_list s));
     s \<leftarrow> tcp_slow_scan e s (list_tail (tcp_pcb_active_list s)) pcb;
     pcb \<leftarrow> get_next (k_heap (d_k s)) (list_head (tcp_pcb_timewait_list s));
     s \<leftarrow> tcp_slow_scan e s (list_tail (tcp_pcb_timewait_list s)) pcb;
     tcp_sleep e s TCP_SLOW_INTERVAL
   }"

text \<open>Doubling up to 32, then 64.\<close>

definition backoff_table :: "u32 list" where
  "backoff_table = map (\<lambda>i. if i < 6 then push_bit i 1 else 64) [0..<Suc (unat TCP_MAXRXTCNT)]"

definition tcp_timer_init :: "'x tsys_scheme \<Rightarrow> u32 \<Rightarrow> u32 \<Rightarrow> 'x tsys_scheme option" where
  "tcp_timer_init s fast slow = do {
     (task, s) \<leftarrow> task_create s fast [116, 99, 112, 95, 102, 97, 115, 116] 5 KERNEL_USER;
     let s = s\<lparr>tcp_fast := task\<rparr>;
     (task, s) \<leftarrow> task_create s slow [116, 99, 112, 95, 115, 108, 111, 119] 5 KERNEL_USER;
     Some (s\<lparr>tcp_slow := task, tcp_backoff := backoff_table\<rparr>)
   }"

subsection \<open>Opening and closing\<close>

definition SO_KEEPALIVE :: u32 where "SO_KEEPALIVE = 0x0002"
definition SO_TCP_NODELAY :: u32 where "SO_TCP_NODELAY = 0x2008"
definition SO_TCP_QUICKACK :: u32 where "SO_TCP_QUICKACK = 0x2010"

definition tcp_socket :: "'x tenv \<Rightarrow> 'x tsys_scheme \<Rightarrow> u32 \<Rightarrow> u32 \<Rightarrow> u32 \<Rightarrow> u32 \<Rightarrow> (u32 \<times> 'x tsys_scheme) option" where
  "tcp_socket e s sock domain type protocol = do {
     kassert (so_pcb (sockets s sock) = NULL);
     (pcb, s) \<leftarrow> tcp_pcb_get e s;
     Some (EOK, upd_socket s sock (\<lambda>x. x\<lparr>so_pcb := pcb\<rparr>))
   }"

text \<open>Our FIN is queued and sent.\<close>

definition send_fin :: "'x tenv \<Rightarrow> 'x tsys_scheme \<Rightarrow> u32 \<Rightarrow> tcp_state_t \<Rightarrow> (u32 \<times> 'x tsys_scheme) option" where
  "send_fin e s pcb st = do {
     (_, s) \<leftarrow> tcp_enqueue s pcb NULL 0 TCP_FIN;
     let s = upd_tcb s pcb (\<lambda>p. p\<lparr>tp_state := st\<rparr>);
     (_, s) \<leftarrow> tcp_output e s pcb;
     Some (EOK, s)
   }"

definition tcp_close :: "'x tenv \<Rightarrow> 'x tsys_scheme \<Rightarrow> u32 \<Rightarrow> (u32 \<times> 'x tsys_scheme) option" where
  "tcp_close e s sock = do {
     let pcb = so_pcb (sockets s sock);
     if pcb = NULL then Some (EOK, s)
     else do {
       let s = upd_socket s sock (\<lambda>x. x\<lparr>so_pcb := NULL\<rparr>);
       let st = tp_state (tcb s pcb);
       if st \<in> {CLOSED, SYN_SENT, LISTEN} then do { s \<leftarrow> tcp_pcb_put s pcb; Some (EOK, s) }
       else if st \<in> {SYN_RCVD, ESTABLISHED} then send_fin e s pcb FIN_WAIT1
       else if st = CLOSE_WAIT then send_fin e s pcb LAST_ACK
       else Some (EOK, s)
     }
   }"

definition tcp_listen :: "'x tsys_scheme \<Rightarrow> u32 \<Rightarrow> u32 \<Rightarrow> (u32 \<times> 'x tsys_scheme) option" where
  "tcp_listen s sock backlog = do {
     pcb \<leftarrow> pcb_of s sock;
     if tp_state (tcb s pcb) = LISTEN then Some (EOK, s)
     else if tp_state (tcb s pcb) \<noteq> CLOSED then Some (- EPROTO, s)
     else do {
       let s = upd_tcb s pcb (\<lambda>p. p\<lparr>tp_state := LISTEN, backcnt := 0, tp_backlog := backlog\<rparr>);
       s \<leftarrow> on_heap s (\<lambda>h. list_remove h pcb);
       s \<leftarrow> on_heap s (\<lambda>h. list_push h (tcp_pcb_listen_list s) pcb);
       Some (EOK, s)
     }
   }"

definition tcp_find_npcb :: "'x tsys_scheme \<Rightarrow> u32 \<Rightarrow> (u32 \<times> 'x tsys_scheme) option" where
  "tcp_find_npcb s pcb = do {
     node \<leftarrow> list_find (k_heap (d_k s)) (tp_acclist pcb) (\<lambda>n. Some (tp_state (tcb s (n - 164)) = ESTABLISHED));
     if node = NULL then Some (NULL, s)
     else do { s \<leftarrow> on_heap s (\<lambda>h. list_remove h node); Some (node - 164, s) }
   }"

text \<open>The address that is stored is that of the listening control block.\<close>

definition tcp_accept ::
  "'x tenv \<Rightarrow> 'x tsys_scheme \<Rightarrow> u32 \<Rightarrow> u32 \<Rightarrow> u32 \<Rightarrow> u32 \<Rightarrow> (u32 \<times> u32 \<times> 'x tsys_scheme) option" where
  "tcp_accept e s sock addr addrlen ns = do {
     pcb \<leftarrow> pcb_of s sock;
     if sint (tp_backlog (tcb s pcb)) \<le> 0 then Some (- EINVAL, ns, s)
     else if tp_state (tcb s pcb) \<noteq> LISTEN then Some (- EINVAL, ns, s)
     else do {
       (npcb, s) \<leftarrow> tcp_find_npcb s pcb;
       (ret, npcb, s) \<leftarrow> (if npcb \<noteq> NULL then Some (EOK, npcb, s)
          else do {
            let task = running_task (d_k s);
            let s = upd_tcb s pcb (\<lambda>p. p\<lparr>ac_waiter := task\<rparr>);
            (ret, s) \<leftarrow> block_me e s (so_rcvtimeo (sockets s sock));
            let s = upd_tcb s pcb (\<lambda>p. p\<lparr>ac_waiter := NULL\<rparr>);
            if sint ret < 0 then Some (ret, NULL, s)
            else do {
              (npcb, s) \<leftarrow> tcp_find_npcb s pcb;
              kassert (npcb \<noteq> NULL);
              Some (ret, npcb, s)
            }
          });
       if sint ret < 0 then Some (ret, ns, s)
       else do {
         (nsock, s) \<leftarrow> socket_create s;
         let s = upd_socket s nsock (\<lambda>x. x\<lparr>so_type := SOCK_TYPE_TCP, so_pcb := npcb\<rparr>);
         let s = (if addr \<noteq> NULL then on_mem s (\<lambda>m. put_sockaddr m addr (tp_rport (tcb s pcb)) (tp_raddr pcb)) else s);
         let s = (if addrlen \<noteq> NULL then on_mem s (\<lambda>m. store32 m addrlen SOCKADDR_SIZE) else s);
         Some (EOK, nsock, s)
       }
     }
   }"

definition tcp_bind :: "'x tsys_scheme \<Rightarrow> u32 \<Rightarrow> u32 \<Rightarrow> u32 \<Rightarrow> (u32 \<times> 'x tsys_scheme) option" where
  "tcp_bind s sock name namelen = do {
     own \<leftarrow> (if any_at (d_mem s) (sin_addr name) then Some True else ip_addr_isown s (sin_addr name));
     if \<not> own then Some (- EADDR, s)
     else do {
       (ret, ports) \<leftarrow> port_get (tcp_port_map s) (htons (read16 (d_mem s) (sin_port name)));
       let s = s\<lparr>tcp_port_map := ports\<rparr>;
       if sint ret < 0 then Some (ret, s)
       else do {
         let lport = ucast ret;
         other \<leftarrow> tcp_find_pcb s (sin_addr name) lport NULL 0;
         if other \<noteq> NULL then Some (- EOCCUPIED, s)
         else do {
           pcb \<leftarrow> pcb_of s sock;
           let s = on_mem s (\<lambda>m. ip_addr_copy m (tp_laddr pcb) (sin_addr name));
           Some (EOK, upd_tcb s pcb (\<lambda>p. p\<lparr>tp_lport := lport\<rparr>))
         }
       }
     }
   }"

definition tcp_connect :: "'x tenv \<Rightarrow> 'x tsys_scheme \<Rightarrow> u32 \<Rightarrow> u32 \<Rightarrow> u32 \<Rightarrow> (u32 \<times> 'x tsys_scheme) option" where
  "tcp_connect e s sock name namelen = do {
     pcb \<leftarrow> pcb_of s sock;
     let port = htons (read16 (d_mem s) (sin_port name));
     if tp_state (tcb s pcb) \<noteq> CLOSED then Some (- EINVAL, s)
     else if any_at (d_mem s) (sin_addr name) \<or> port = 0 then Some (- EADDR, s)
     else do {
       let s = on_mem s (\<lambda>m. ip_addr_copy m (tp_raddr pcb) (sin_addr name));
       let s = upd_tcb s pcb (\<lambda>p. p\<lparr>tp_rport := htons (read16 (d_mem s) (sin_port name))\<rparr>);
       s \<leftarrow> (if tp_lport (tcb s pcb) = 0 then do {
              (ret, ports) \<leftarrow> port_get (tcp_port_map s) 0;
              Some (upd_tcb (s\<lparr>tcp_port_map := ports\<rparr>) pcb (\<lambda>p. p\<lparr>tp_lport := ucast ret\<rparr>))
            } else Some s);
       let s = upd_tcb s pcb (\<lambda>p. p\<lparr>tp_state := SYN_SENT\<rparr>);
       s \<leftarrow> on_heap s (\<lambda>h. list_remove h pcb);
       s \<leftarrow> on_heap s (\<lambda>h. list_push h (tcp_pcb_active_list s) pcb);
       (_, s) \<leftarrow> tcp_enqueue s pcb NULL 0 TCP_SYN;
       (_, s) \<leftarrow> tcp_output e s pcb;
       let task = running_task (d_k s);
       let s = upd_tcb s pcb (\<lambda>p. set_timer TCP_TIMER_SYN TCP_TO_SYN p\<lparr>ac_waiter := task\<rparr>);
       (ret, s) \<leftarrow> block_me e s (so_sndtimeo (sockets s sock));
       Some (ret, upd_tcb s pcb (\<lambda>p. p\<lparr>ac_waiter := NULL\<rparr>))
     }
   }"

definition tcp_shutdown :: "'x tsys_scheme \<Rightarrow> u32 \<Rightarrow> u32 \<Rightarrow> (u32 \<times> 'x tsys_scheme) option" where
  "tcp_shutdown s sock how = Some (- ENOSYS, s)"

definition tcp_getpeername :: "'x tsys_scheme \<Rightarrow> u32 \<Rightarrow> u32 \<Rightarrow> u32 \<Rightarrow> (u32 \<times> 'x tsys_scheme) option" where
  "tcp_getpeername s sock name namelen = do {
     pcb \<leftarrow> pcb_of s sock;
     Some (EOK, on_mem s (\<lambda>m. store32 (put_sockaddr m name (htons (tp_rport (tcb s pcb))) (tp_raddr pcb)) namelen SOCKADDR_SIZE))
   }"

definition tcp_getsockname :: "'x tsys_scheme \<Rightarrow> u32 \<Rightarrow> u32 \<Rightarrow> u32 \<Rightarrow> (u32 \<times> 'x tsys_scheme) option" where
  "tcp_getsockname s sock name namelen = do {
     pcb \<leftarrow> pcb_of s sock;
     Some (EOK, on_mem s (\<lambda>m. store32 (put_sockaddr m name (htons (tp_lport (tcb s pcb))) (tp_laddr pcb)) namelen SOCKADDR_SIZE))
   }"

definition tcp_getsockopt ::
  "'x tsys_scheme \<Rightarrow> u32 \<Rightarrow> u32 \<Rightarrow> u32 \<Rightarrow> u32 \<Rightarrow> u32 \<Rightarrow> (u32 \<times> 'x tsys_scheme) option" where
  "tcp_getsockopt s sock level optname optval optlen = Some (- ENOSYS, s)"

definition tcp_setsockopt ::
  "'x tsys_scheme \<Rightarrow> u32 \<Rightarrow> u32 \<Rightarrow> u32 \<Rightarrow> u32 \<Rightarrow> u32 \<Rightarrow> (u32 \<times> 'x tsys_scheme) option" where
  "tcp_setsockopt s sock level optname optval optlen = do {
     let val = read32 (d_mem s) optval;
     let flag = (if optname = SO_KEEPALIVE then TF_KEEPALIVE
                 else if optname = SO_TCP_NODELAY then TF_NODELAY
                 else if optname = SO_TCP_QUICKACK then TF_QUICKACK else 0);
     if optname \<notin> {SO_KEEPALIVE, SO_TCP_NODELAY, SO_TCP_QUICKACK} then Some (- EINVAL, s)
     else do {
       pcb \<leftarrow> pcb_of s sock;
       let s = (if optname = SO_KEEPALIVE
                then upd_tcb s pcb (set_timer TCP_TIMER_KEEPALIVE (if val \<noteq> 0 then TCP_TO_KEEP_IDLE else 0)) else s);
       Some (EOK, upd_tcb s pcb (\<lambda>p. p\<lparr>tp_flags := (if val \<noteq> 0 then tp_flags p OR flag else tp_flags p AND NOT flag)\<rparr>))
     }
   }"

subsection \<open>Receiving and sending\<close>

text \<open>
  The packets in the order of their numbers, as far as the message has room. A packet that is read in
  part is moved by what is left of the message; the others are released, and the window grows.
\<close>

definition mark_read :: "'x tsys_scheme \<Rightarrow> u32 \<Rightarrow> 'x tsys_scheme" where
  "mark_read s pbuf = (if pb_total (pbufs s pbuf) \<noteq> 0 then upd_pbuf s pbuf (\<lambda>b. b\<lparr>pb_length := pb_size b, pb_total := 0\<rparr>) else s)"

definition release_read :: "'x tsys_scheme \<Rightarrow> u32 \<Rightarrow> u32 \<Rightarrow> 'x tsys_scheme option" where
  "release_read s pcb pbuf = do {
     kassert (pb_count (pbufs s pbuf) = 1);
     s \<leftarrow> on_heap s (\<lambda>h. list_remove h (tcp_node pbuf));
     s \<leftarrow> pbuf_put s pbuf;
     let n = pb_length (pbufs s pbuf);
     let s = upd_tcb s pcb (\<lambda>p. p\<lparr>rcv_wnd := rcv_wnd p + ucast n\<rparr>);
     kassert (rcv_wnd (tcb s pcb) \<le> TCP_WINDOW);
     Some s
   }"

partial_function (option) tcp_recv_loop :: "'x tsys_scheme \<Rightarrow> u32 \<Rightarrow> msghdr_t \<Rightarrow> u32 \<Rightarrow> u32 \<Rightarrow> (u32 \<times> 'x tsys_scheme) option" where
  "tcp_recv_loop s pcb msg left node =
     (if node = list_tail (tp_recved pcb) then Some (left, s)
      else do {
        let pbuf = pbuf_of_node node;
        nxt \<leftarrow> get_next (k_heap (d_k s)) node;
        let s = mark_read s pbuf;
        let len = (if left < pb_size (pbufs s pbuf) then left else pb_size (pbufs s pbuf));
        let r = scatter s msg (pb_data (pbufs s pbuf)) len;
        kassert (fst r = len);
        let s = snd r;
        let left = left - fst r;
        if len < pb_size (pbufs s pbuf)
        then Some (left, upd_pbuf s pbuf (\<lambda>b. b\<lparr>pb_data := pb_data b + left, pb_size := pb_size b - left\<rparr>))
        else do {
          s \<leftarrow> release_read s pcb pbuf;
          tcp_recv_loop s pcb msg left nxt
        }
      })"

declare tcp_recv_loop.simps [code]

definition tcp_recvmsg ::
  "'x tenv \<Rightarrow> 'x tsys_scheme \<Rightarrow> u32 \<Rightarrow> msghdr_t \<Rightarrow> u32 \<Rightarrow> (u32 \<times> msghdr_t \<times> 'x tsys_scheme) option" where
  "tcp_recvmsg e s sock msg flags = do {
     pcb \<leftarrow> pcb_of s sock;
     if tp_state (tcb s pcb) \<noteq> ESTABLISHED then Some (- EINVAL, msg, s)
     else do {
       empty \<leftarrow> list_empty (k_heap (d_k s)) (tp_recved pcb);
       (ret, s) \<leftarrow> (if empty then do {
            let task = running_task (d_k s);
            let s = upd_tcb s pcb (\<lambda>p. p\<lparr>rx_waiter := task\<rparr>);
            (ret, s) \<leftarrow> block_me e s (so_rcvtimeo (sockets s sock));
            Some (ret, upd_tcb s pcb (\<lambda>p. p\<lparr>rx_waiter := NULL\<rparr>))
          } else Some (EOK, s));
       if sint ret < sint EOK then Some (ret, msg, s)
       else do {
         let s = (if mh_name msg \<noteq> NULL then on_mem s (\<lambda>m. put_sockaddr m (mh_name msg) (tp_rport (tcb s pcb)) (tp_raddr pcb)) else s);
         let sz = iovec_size (d_mem s) (mh_iov msg) (mh_iovlen msg);
         kassert (sz > 0);
         node \<leftarrow> get_next (k_heap (d_k s)) (list_head (tp_recved pcb));
         (left, s) \<leftarrow> tcp_recv_loop s pcb msg sz node;
         Some (sz - left, msg\<lparr>mh_namelen := SOCKADDR_SIZE\<rparr>, s)
       }
     }
   }"

text \<open>The flags of the message are those of the segments.\<close>

fun tcp_send_loop :: "'x tsys_scheme \<Rightarrow> u32 \<Rightarrow> u32 \<Rightarrow> nat \<Rightarrow> u32 \<Rightarrow> u8 \<Rightarrow> (u32 \<times> 'x tsys_scheme) option" where
  "tcp_send_loop s pcb iov 0 left flags = Some (left, s)"
| "tcp_send_loop s pcb iov (Suc n) left flags =
     (if left = 0 then Some (left, s)
      else if iov_size (d_mem s) iov = 0 then tcp_send_loop s pcb (iov + IOVEC_SIZE) n left flags
      else do {
        let len = min left (iov_size (d_mem s) iov);
        (_, s) \<leftarrow> tcp_enqueue s pcb (iov_base (d_mem s) iov) len flags;
        tcp_send_loop s pcb (iov + IOVEC_SIZE) n (left - len) flags
      })"

definition tcp_sendmsg :: "'x tenv \<Rightarrow> 'x tsys_scheme \<Rightarrow> u32 \<Rightarrow> msghdr_t \<Rightarrow> u32 \<Rightarrow> (u32 \<times> 'x tsys_scheme) option" where
  "tcp_sendmsg e s sock msg flags = do {
     pcb \<leftarrow> pcb_of s sock;
     if tp_state (tcb s pcb) \<noteq> ESTABLISHED then Some (- EINVAL, s)
     else do {
       let sz = iovec_size (d_mem s) (mh_iov msg) (mh_iovlen msg);
       if sz > ucast (snd_wnd (tcb s pcb)) then Some (- EMSGSIZE, s)
       else do {
         (left, s) \<leftarrow> tcp_send_loop s pcb (mh_iov msg) (unat (mh_iovlen msg)) sz (ucast flags);
         (_, s) \<leftarrow> tcp_output e s pcb;
         noack \<leftarrow> list_empty (k_heap (d_k s)) (tp_unacked pcb);
         nosend \<leftarrow> list_empty (k_heap (d_k s)) (tp_unsent pcb);
         if noack \<and> nosend then Some (sz - left, s)
         else do {
           let task = running_task (d_k s);
           let s = upd_tcb s pcb (\<lambda>p. p\<lparr>tx_waiter := task\<rparr>);
           (ret, s) \<leftarrow> block_me e s (so_sndtimeo (sockets s sock));
           let s = upd_tcb s pcb (\<lambda>p. p\<lparr>tx_waiter := NULL\<rparr>);
           if sint ret < 0 then Some (ret, s) else Some (sz - left, s)
         }
       }
     }
   }"

definition tcp_op :: "'x tenv \<Rightarrow> ('x tsys_ext) socket_op_t" where
  "tcp_op e = \<lparr>sop_socket = tcp_socket e, sop_close = tcp_close e, sop_listen = tcp_listen, sop_accept = tcp_accept e, sop_bind = tcp_bind,
     sop_connect = tcp_connect e, sop_shutdown = tcp_shutdown, sop_getpeername = tcp_getpeername, sop_getsockname = tcp_getsockname,
     sop_getsockopt = tcp_getsockopt, sop_setsockopt = tcp_setsockopt, sop_recvmsg = tcp_recvmsg e, sop_sendmsg = tcp_sendmsg e\<rparr>"

text \<open>The addresses of the two tasks and of the table are arguments, as is what the pages of the port map hold before.\<close>

definition tcp_init :: "'x tsys_scheme \<Rightarrow> u32 \<Rightarrow> u32 \<Rightarrow> u8 list \<Rightarrow> u32 \<Rightarrow> 'x tsys_scheme option" where
  "tcp_init s fast slow garbage op = do {
     s \<leftarrow> tcp_pcb_init s;
     s \<leftarrow> tcp_timer_init s fast slow;
     (ports, p) \<leftarrow> port_init (km_pool (k_mem (d_k s))) garbage;
     socket_register_op (with_pool s p\<lparr>tcp_port_map := ports\<rparr>) SOCK_TYPE_TCP op
   }"

end
