(* ===== verification/Onix_Net_Sample.thy ===== *)
theory Onix_Net_Sample
  imports Onix_Tcp
begin

section \<open>A sample network\<close>

text \<open>
  One interface with the address 10.0.0.2 in a network of 256 addresses, an established connection to
  port 4000 of 10.0.0.9, a listening control block, a bound UDP socket, and the packet buffer of a
  segment of that connection. The witnesses of the theorems on the network code are taken here.
\<close>

fun link_up :: "u32 \<Rightarrow> u32 list \<Rightarrow> u32 \<Rightarrow> list_heap \<Rightarrow> list_heap" where
  "link_up p [] q h = h\<lparr>node_next := (node_next h)(p := q), node_prev := (node_prev h)(q := p)\<rparr>"
| "link_up p (x # xs) q h = link_up x xs q (h\<lparr>node_next := (node_next h)(p := x), node_prev := (node_prev h)(x := p)\<rparr>)"

definition link_list :: "u32 \<Rightarrow> u32 list \<Rightarrow> list_heap \<Rightarrow> list_heap" where
  "link_list l xs h = link_up l xs (l + 8) h"

definition net_links :: list_heap where
  "net_links = link_list 0x40000 [0x41000] (link_list 0x40010 [0x42000, 0x42800] (link_list 0x40020 [] (link_list 0x40030 [0x44000]
     (link_list 0x40040 [0x45000] (link_list 0x40050 [] (link_list 0x40060 [0x46000] (link_list 0x40070 [] (link_list 0x40080 []
     (link_list 0x40090 [] (link_list 0x440b0 [] (link_list 0x440c0 [] (link_list 0x440d0 [] (link_list 0x440e0 [0x43010]
     (link_list 0x4408c [] (link_list 0x41018 [] (link_list 0x41048 [] \<lparr>node_prev = (\<lambda>_. 0), node_next = (\<lambda>_. 0)\<rparr>))))))))))))))))"

definition net_mem :: mem where
  "net_mem = put_bytes (put_bytes (put_bytes (put_bytes (put_bytes (\<lambda>_. 0)
     0x4107e [10, 0, 0, 2]) 0x41082 [255, 255, 255, 0]) 0x44008 [10, 0, 0, 2, 10, 0, 0, 9]) 0x43042 [10, 0, 0, 9, 10, 0, 0, 2])
     0x4304a [15, 160, 0, 80]"

definition net_tcb :: "u16 \<Rightarrow> u16 \<Rightarrow> tcp_state_t \<Rightarrow> tcp_pcb_t" where
  "net_tcb lport rport st = (new_tcb 1000)\<lparr>tp_lport := lport, tp_rport := rport, tp_state := st, rcv_nxt := 500\<rparr>"

definition net_pbuf :: pbuf_t where
  "net_pbuf = \<lparr>pb_length = 84, pb_count = 1, pb_data = 0x4305e, pb_total = 30, pb_size = 10, pb_seqno = 500\<rparr>"

definition sample_net :: tsys where
  "sample_net = \<lparr>d_ls = (d_ls sample_vfs)\<lparr>ls_k := with_heap (d_k sample_vfs) net_links\<rparr>,
     devices = devices sample_vfs, d_base = 0x7000, requests = requests sample_vfs, d_mem = net_mem,
     bdescs = bdescs sample_vfs, b_base = 0x8000, buffers = buffers sample_vfs, v_vm = sample_vm,
     inode_table = 0x5000, inodes = inodes sample_vfs, super_table = 0x6000, supers = supers sample_vfs, root = 0x6000,
     file_table = 0xa000, files = files sample_vfs, fs_ops = fs_ops sample_vfs,
     ps_iframe = (\<lambda>_. sample_iframe), ps_tframe = (\<lambda>_. \<lparr>tf_edi = 0, tf_esi = 0, tf_ebx = 0, tf_ebp = 0, tf_eip = 0\<rparr>),
     ps_fpu = (\<lambda>_. []), vmap_bits = (\<lambda>_. 0), tty_pgid = (\<lambda>_. 0),
     free_pbuf_list = 0x40010, pbuf_count = 3, free_count = 2, pbufs = (\<lambda>_. net_pbuf),
     netif_list = 0x40000, neti_task = 0x3000, neto_task = 0x4000,
     netifs = (\<lambda>_. \<lparr>nf_rx_size = 0, nf_tx_size = 0, nf_nic = 0, nf_output = 0, nf_index = 0, nf_flags = 0\<rparr>),
     arp_entry_list = 0x40090, arp_task = 0x3000,
     arps = (\<lambda>_. \<lparr>ae_expires = 0, ae_used = 0, ae_query = 0, ae_retry = 0, ae_netif = 0\<rparr>),
     udp_pcb_list = 0x40060, udp_ports = sample_ports, udps = (\<lambda>_. \<lparr>up_lport = 80, up_rport = 0, up_flags = 0, up_waiter = 0\<rparr>),
     raw_pcb_list = 0x40070, raws = (\<lambda>_. \<lparr>rw_protocol = 0, rw_waiter = 0\<rparr>),
     pkt_pcb_list = 0x40080, pkts = (\<lambda>_. \<lparr>kp_netif = 0, kp_protocol = 0, kp_waiter = 0\<rparr>),
     socket_ops = replicate 5 0, sockets = (\<lambda>_. \<lparr>so_type = 3, so_sndtimeo = 0, so_rcvtimeo = 0, so_pcb = 0x44000\<rparr>),
     tcp_pcbs = (\<lambda>p. if p = 0x44000 then net_tcb 80 4000 ESTABLISHED else net_tcb 80 0 LISTEN),
     tcp_pcb_create_list = 0x40020, tcp_pcb_active_list = 0x40030, tcp_pcb_listen_list = 0x40040, tcp_pcb_timewait_list = 0x40050,
     tcp_port_map = sample_ports, tcp_slow = 0x3000, tcp_fast = 0x4000, tcp_backoff = backoff_table\<rparr>"

definition no_ops :: "'x fs_op_t" where
  "no_ops = \<lparr>op_mkfs = (\<lambda>_ _ _. None), op_super = (\<lambda>_ _ _. None), op_open = (\<lambda>_ _ _ _ _ _. None), op_close = (\<lambda>_ _. None),
     op_ioctl = (\<lambda>_ _ _ _. None), op_read = (\<lambda>_ _ _ _ _. None), op_write = (\<lambda>_ _ _ _ _. None), op_truncate = (\<lambda>_ _. None),
     op_stat = (\<lambda>_ _ _. None), op_permission = (\<lambda>_ _ _. None), op_namei = (\<lambda>_ _ _ _ _. None), op_mkdir = (\<lambda>_ _ _ _. None),
     op_rmdir = (\<lambda>_ _ _. None), op_link = (\<lambda>_ _ _ _ _. None), op_unlink = (\<lambda>_ _ _. None), op_mknod = (\<lambda>_ _ _ _ _. None),
     op_readdir = (\<lambda>_ _ _ _ _. None)\<rparr>"

definition sample_net_env :: "unit tenv" where
  "sample_net_env = \<lparr>fs_op = (\<lambda>_. no_ops),
     fs_dev = \<lparr>dn_ioctl = (\<lambda>_ _ _ _ _ _. None), dn_read = (\<lambda>_ _ _ _ _ _ _. None), dn_write = (\<lambda>_ _ _ _ _ _ _. None), dn_others = Some\<rparr>,
     fs_startup = 0, fs_local = 0x6000\<rparr>"

lemma net_heap [simp]: "k_heap (d_k sample_net) = net_links"
  by (simp add: sample_net_def with_heap_def)

lemma net_fields [simp]:
  "d_mem sample_net = net_mem" "netif_list sample_net = 0x40000" "udp_pcb_list sample_net = 0x40060"
  "tcp_pcb_active_list sample_net = 0x40030" "tcp_pcb_listen_list sample_net = 0x40040" "tcp_pcb_timewait_list sample_net = 0x40050"
  "tcb sample_net p = (if p = 0x44000 then net_tcb 80 4000 ESTABLISHED else net_tcb 80 0 LISTEN)"
  "udps sample_net p = \<lparr>up_lport = 80, up_rport = 0, up_flags = 0, up_waiter = 0\<rparr>" "pbufs sample_net p = net_pbuf"
  by (simp_all add: sample_net_def)

lemma net_links_next: "node_next net_links = (\<lambda>_. 0)(0x40000 := 0x41000, 0x41000 := 0x40008, 0x40010 := 0x42000, 0x42000 := 0x42800,
    0x42800 := 0x40018, 0x40020 := 0x40028, 0x40030 := 0x44000, 0x44000 := 0x40038, 0x40040 := 0x45000, 0x45000 := 0x40048,
    0x40050 := 0x40058, 0x40060 := 0x46000, 0x46000 := 0x40068, 0x40070 := 0x40078, 0x40080 := 0x40088, 0x40090 := 0x40098,
    0x440b0 := 0x440b8, 0x440c0 := 0x440c8, 0x440d0 := 0x440d8, 0x440e0 := 0x43010, 0x43010 := 0x440e8, 0x4408c := 0x44094,
    0x41018 := 0x41020, 0x41048 := 0x41050)"
  by (simp add: net_links_def link_list_def fun_eq_iff)

lemma net_links_prev: "node_prev net_links = (\<lambda>_. 0)(0x41000 := 0x40000, 0x40008 := 0x41000, 0x42000 := 0x40010, 0x42800 := 0x42000,
    0x40018 := 0x42800, 0x40028 := 0x40020, 0x44000 := 0x40030, 0x40038 := 0x44000, 0x45000 := 0x40040, 0x40048 := 0x45000,
    0x40058 := 0x40050, 0x46000 := 0x40060, 0x40068 := 0x46000, 0x40078 := 0x40070, 0x40088 := 0x40080, 0x40098 := 0x40090,
    0x440b8 := 0x440b0, 0x440c8 := 0x440c0, 0x440d8 := 0x440d0, 0x43010 := 0x440e0, 0x440e8 := 0x43010, 0x44094 := 0x4408c,
    0x41020 := 0x41018, 0x41050 := 0x41048)"
  by (simp add: net_links_def link_list_def fun_eq_iff)

lemma net_lists:
  "list_rep net_links 0x40000 [0x41000]" "list_rep net_links 0x40010 [0x42000, 0x42800]" "list_rep net_links 0x40030 [0x44000]"
  "list_rep net_links 0x40040 [0x45000]" "list_rep net_links 0x40050 []" "list_rep net_links 0x40060 [0x46000]"
  "list_rep net_links 0x440e0 [0x43010]" "list_rep net_links 0x41018 []"
  by (simp_all add: list_rep_def list_nodes_def net_links_next net_links_prev)

lemma net_addresses:
  "read32 net_mem 0x4107e = 0x200000a" "read32 net_mem 0x41082 = 0xffffff" "read32 net_mem 0x44008 = 0x200000a"
  "read32 net_mem 0x4400c = 0x900000a" "read32 net_mem 0x43042 = 0x900000a" "read32 net_mem 0x43046 = 0x200000a"
  by (simp_all add: read32_def read16_def net_mem_def)

end
