(* ===== verification/Onix_Demux.thy ===== *)
theory Onix_Demux
  imports Onix_Net_Sample
begin

section \<open>Where a packet goes: interfaces and control blocks\<close>

text \<open>
  The searches of \<^verbatim>\<open>netif.c\<close>, \<^verbatim>\<open>udp.c\<close> and \<^verbatim>\<open>tcp_pcb.c\<close> on the linked lists are the function \<open>List.find\<close> on the
  lists they represent. On this rest the choice of the interface of a destination, and of the control
  block of a received segment.
\<close>

lemma find_node_seg:
  assumes "dseg h p xs q" and "q \<notin> set xs" and "NULL \<notin> set xs" and "\<And>x. x \<in> set xs \<Longrightarrow> P x = Some (Q x)"
  shows "find_node h P q (node_next h p) = Some (case List.find Q xs of None \<Rightarrow> NULL | Some x \<Rightarrow> x)"
  using assms
proof (induction xs arbitrary: p)
  case Nil
  then show ?case by (simp add: find_node.simps)
next
  case (Cons x xs)
  then have "find_node h P q (node_next h x) = Some (case List.find Q xs of None \<Rightarrow> NULL | Some x \<Rightarrow> x)" by simp
  with Cons.prems show ?case by (subst find_node.simps) (auto simp: get_next_def)
qed

lemma list_find_rep:
  assumes "list_rep h l xs" and "\<And>x. x \<in> set xs \<Longrightarrow> P x = Some (Q x)"
  shows "list_find h l P = Some (case List.find Q xs of None \<Rightarrow> NULL | Some x \<Rightarrow> x)"
  using assms find_node_seg [of h l xs "l + 8" P Q]
  by (auto simp: list_find_def list_rep_def list_nodes_def list_head_def list_tail_def get_next_def)

lemma found_not_NULL:
  assumes "list_rep h l xs"
  shows "(case List.find Q xs of None \<Rightarrow> NULL | Some x \<Rightarrow> x) = NULL \<longleftrightarrow> List.find Q xs = None"
proof (cases "List.find Q xs")
  case (Some x)
  then have "x \<in> set xs" by (auto simp: find_Some_iff)
  then show ?thesis using assms Some by (auto simp: list_rep_def list_nodes_def)
qed simp

definition or_else :: "'a option \<Rightarrow> 'a option \<Rightarrow> 'a option" where
  "or_else a b = (case a of None \<Rightarrow> b | Some x \<Rightarrow> Some x)"

definition or_null :: "u32 option \<Rightarrow> u32" where
  "or_null a = (case a of None \<Rightarrow> NULL | Some x \<Rightarrow> x)"

lemma list_find_value:
  assumes "list_rep h l xs" and "\<And>x. x \<in> set xs \<Longrightarrow> P x = Some (Q x)"
  shows "list_find h l P = Some (or_null (List.find Q xs))"
  using list_find_rep [OF assms] by (simp add: or_null_def)

lemma or_null_found: "list_rep h l xs \<Longrightarrow> or_null (List.find Q xs) = NULL \<longleftrightarrow> List.find Q xs = None"
  using found_not_NULL by (simp add: or_null_def)

subsection \<open>Interfaces\<close>

definition on_link :: "'x nsys_scheme \<Rightarrow> u32 \<Rightarrow> u32 \<Rightarrow> bool" where
  "on_link s addr netif \<longleftrightarrow>
     read32 (d_mem s) addr AND read32 (d_mem s) (nf_netmask netif) = read32 (d_mem s) (nf_ipaddr netif) AND read32 (d_mem s) (nf_netmask netif) \<and>
     nf_ipaddr netif \<noteq> NULL \<and> read32 (d_mem s) (nf_ipaddr netif) \<noteq> 0"

text \<open>
  The interface of a destination is the first one, in the order of creation, that has an address in
  the same network as the destination; without one it is the interface with index 1; without that it
  is NULL.
\<close>

theorem netif_route_correct:
  assumes "list_rep (k_heap (d_k s)) (netif_list s) ns"
  shows "netif_route s addr = Some (or_null
           (or_else (List.find (on_link s addr) ns) (List.find (\<lambda>p. nf_index (netifs s p) = 1) ns)))"
proof -
  have link: "same_net (d_mem s) addr (nf_ipaddr p) (nf_netmask p) \<and> \<not> any_at (d_mem s) (nf_ipaddr p) \<longleftrightarrow> on_link s addr p" for p
    by (auto simp: same_net_def ip_addr_maskcmp_def any_at_def ip_addr_isany_def on_link_def)
  note find = list_find_value [OF assms, where P = "\<lambda>p. Some (Q p)" and Q = Q for Q, OF refl]
  show ?thesis
    unfolding netif_route_def netif_get_def find link using or_null_found [OF assms, of "on_link s addr"]
    by (cases "List.find (on_link s addr) ns") (auto simp: or_else_def or_null_def)
qed

subsection \<open>TCP\<close>

definition local_match :: "'x tsys_scheme \<Rightarrow> u32 \<Rightarrow> u16 \<Rightarrow> u32 \<Rightarrow> bool" where
  "local_match s laddr lport pcb \<longleftrightarrow>
     tp_lport (tcb s pcb) = lport \<and> (any_at (d_mem s) (tp_laddr pcb) \<or> same_ip (d_mem s) (tp_laddr pcb) laddr)"

definition peer_match :: "'x tsys_scheme \<Rightarrow> u32 \<Rightarrow> u16 \<Rightarrow> u32 \<Rightarrow> bool" where
  "peer_match s raddr rport pcb \<longleftrightarrow>
     tp_rport (tcb s pcb) = rport \<and> (any_at (d_mem s) (tp_raddr pcb) \<or> same_ip (d_mem s) (tp_raddr pcb) raddr)"

text \<open>
  C22. The search for the control block of a segment agrees with a search of the lists: a segment from a peer
  goes to the first connection with its local and remote address and port, active connections before those
  that wait for the end of their time; only when there is none it goes to the first listening control block
  of its local address and port. A remote port of zero stands for any peer: then the first connection with the
  local address and port is taken, whatever its peer (\<^verbatim>\<open>bind\<close> asks like that whether an address is free, but a
  segment whose sender put 0 into its source port is searched in the same way).
\<close>

theorem tcp_find_pcb_correct:
  assumes "list_rep (k_heap (d_k s)) (tcp_pcb_active_list s) as" and "list_rep (k_heap (d_k s)) (tcp_pcb_timewait_list s) ts"
    and "list_rep (k_heap (d_k s)) (tcp_pcb_listen_list s) ls"
  shows "tcp_find_pcb s laddr lport raddr rport = Some (or_null
           (or_else (List.find (\<lambda>p. local_match s laddr lport p \<and> (rport = 0 \<or> peer_match s raddr rport p)) (as @ ts))
                    (List.find (local_match s laddr lport) ls)))"
proof -
  let ?Q = "\<lambda>p. local_match s laddr lport p \<and> (rport = 0 \<or> peer_match s raddr rport p)"
  have "tcp_matches s p laddr lport raddr rport \<longleftrightarrow> ?Q p" "tcp_matches s p laddr lport raddr 0 \<longleftrightarrow> local_match s laddr lport p" for p
    by (auto simp: tcp_matches_def local_match_def peer_match_def)
  note match = this
  note find = list_find_value [where P = "\<lambda>p. Some (Q p)" and Q = Q for Q, OF _ refl]
  have app: "List.find Q (xs @ ys) = or_else (List.find Q xs) (List.find Q ys)" for Q and xs ys :: "u32 list"
    by (induction xs) (auto simp: or_else_def)
  show ?thesis
    unfolding tcp_find_pcb_def match find [OF assms(1)] find [OF assms(2)] find [OF assms(3)] app Let_def
    using or_null_found [OF assms(1), of ?Q] or_null_found [OF assms(2), of ?Q]
    by (cases "List.find ?Q as"; cases "List.find ?Q ts") (auto simp: or_else_def or_null_def)
qed

subsection \<open>UDP\<close>



subsection \<open>A sample network\<close>

lemma sample_on_link: "on_link sample_net 0x4400c 0x41000"
  by (simp add: on_link_def nf_ipaddr_def nf_netmask_def net_addresses)

theorem netif_route_correct_witness: "netif_route sample_net 0x4400c = Some 0x41000"
  using netif_route_correct [of sample_net "[0x41000]" "0x4400c"] sample_on_link by (simp add: net_lists or_null_def or_else_def)

lemma sample_matches:
  "local_match sample_net 0x43046 80 0x44000" "peer_match sample_net 0x43042 4000 0x44000"
  by (simp_all add: local_match_def peer_match_def same_ip_def ip_addr_cmp_def tp_laddr_def tp_raddr_def net_addresses net_tcb_def)

theorem tcp_find_pcb_correct_witness: "tcp_find_pcb sample_net 0x43046 80 0x43042 4000 = Some 0x44000"
  using tcp_find_pcb_correct [of sample_net "[0x44000]" "[]" "[0x45000]" "0x43046" 80 "0x43042" 4000] sample_matches
  by (simp add: net_lists or_null_def or_else_def)


end
