(* ===== verification/Onix_Scatter.thy ===== *)
theory Onix_Scatter
  imports Onix_Pbuf
begin

section \<open>Scattered data\<close>

text \<open>
  What \<^verbatim>\<open>iovec_write\<close> and \<^verbatim>\<open>iovec_read\<close> do, in terms of the list of pieces that a vector describes: the bytes of
  a buffer are the bytes of the pieces one after the other, up to the shorter of the two, and every
  piece is moved by what was taken from it.
\<close>

lemma region_add: "region p (a + b) = region p a \<union> region (p + of_nat a) b"
proof (induction a arbitrary: p)
  case (Suc a)
  then show ?case by (simp add: region_Suc add.assoc)
qed simp

lemma region_subset: "a \<le> n \<Longrightarrow> region p a \<subseteq> region p n"
  using region_add [of p a "n - a"] by auto

lemma region_tail: "a \<le> n \<Longrightarrow> region (p + of_nat a) (n - a) \<subseteq> region p n"
  using region_add [of p a "n - a"] by auto

fun fetch :: "mem \<Rightarrow> u32 \<Rightarrow> nat \<Rightarrow> u8 list" where
  "fetch m p 0 = []"
| "fetch m p (Suc n) = m p # fetch m (p + 1) n"

lemma fetch_numeral [simp]: "fetch m p (numeral k) = m p # fetch m (p + 1) (pred_numeral k)"
  by (simp add: numeral_eq_Suc)

lemma length_fetch [simp]: "length (fetch m p n) = n"
  by (induction n arbitrary: p) auto

lemma fetch_cong: "(\<And>a. a \<in> region p n \<Longrightarrow> m' a = m a) \<Longrightarrow> fetch m' p n = fetch m p n"
  by (induction n arbitrary: p) (auto simp: region_Suc)

lemma fetch_add: "fetch m p (a + b) = fetch m p a @ fetch m (p + of_nat a) b"
  by (induction a arbitrary: p) (simp_all add: add.assoc)

lemma take_fetch: "a \<le> n \<Longrightarrow> take a (fetch m p n) = fetch m p a"
  using fetch_add [of m p a "n - a"] by simp

lemma drop_fetch: "a \<le> n \<Longrightarrow> drop a (fetch m p n) = fetch m (p + of_nat a) (n - a)"
  using fetch_add [of m p a "n - a"] by simp

lemma block_fetch: "block m p (fetch m p n)"
  by (induction n arbitrary: p) auto

lemma fetch_block: "block m p bs \<Longrightarrow> fetch m p (length bs) = bs"
  by (induction bs arbitrary: p) auto

lemma fetch_memcpy:
  assumes "region p (unat n) \<inter> region src (unat n) = {}"
  shows "fetch (memcpy m p src n) p (unat n) = fetch m src (unat n)"
    and "a \<notin> region p (unat n) \<Longrightarrow> memcpy m p src n a = m a"
proof -
  have "unat n \<le> 2 ^ 32" using unat_u32_bound [of n] by simp
  note c = memcpy_loop_block [OF block_fetch length_fetch this assms, of m]
  show "fetch (memcpy m p src n) p (unat n) = fetch m src (unat n)"
    using fetch_block [OF conjunct1 [OF c]] by (simp add: memcpy_def)
  show "a \<notin> region p (unat n) \<Longrightarrow> memcpy m p src n a = m a"
    using conjunct2 [OF c] by (simp add: memcpy_def)
qed

subsection \<open>The pieces of a vector\<close>

fun iov_is :: "mem \<Rightarrow> u32 \<Rightarrow> (u32 \<times> u32) list \<Rightarrow> bool" where
  "iov_is m p [] \<longleftrightarrow> True"
| "iov_is m p ((b, n) # ss) \<longleftrightarrow> iov_base m p = b \<and> iov_size m p = n \<and> iov_is m (p + 8) ss"

fun pieces :: "mem \<Rightarrow> (u32 \<times> u32) list \<Rightarrow> u8 list" where
  "pieces m [] = []"
| "pieces m ((b, n) # ss) = fetch m b (unat n) @ pieces m ss"

fun area :: "(u32 \<times> u32) list \<Rightarrow> u32 set" where
  "area [] = {}"
| "area ((b, n) # ss) = region b (unat n) \<union> area ss"

fun apart :: "(u32 \<times> u32) list \<Rightarrow> bool" where
  "apart [] \<longleftrightarrow> True"
| "apart ((b, n) # ss) \<longleftrightarrow> region b (unat n) \<inter> area ss = {} \<and> apart ss"

fun advance :: "nat \<Rightarrow> (u32 \<times> u32) list \<Rightarrow> (u32 \<times> u32) list" where
  "advance k [] = []"
| "advance k ((b, n) # ss) = (let l = min k (unat n) in (b + of_nat l, n - of_nat l) # advance (k - l) ss)"

definition total_size :: "(u32 \<times> u32) list \<Rightarrow> nat" where "total_size ss = sum_list (map (unat \<circ> snd) ss)"

lemma length_pieces [simp]: "length (pieces m ss) = total_size ss"
  by (induction m ss rule: pieces.induct) (simp_all add: total_size_def)

lemma region_next:
  assumes "a + b \<le> 2 ^ 32"
  shows "region p a \<inter> region (p + of_nat a) b = {}"
proof -
  have "p + of_nat i \<noteq> p + of_nat a + of_nat j" if "i < a" "j < b" for i j
  proof
    assume "p + of_nat i = p + of_nat a + of_nat j"
    then have "(of_nat i :: u32) = of_nat (a + j)" by (simp add: add.assoc)
    then show False using of_nat_u32_eq [of i "a + j"] that assms by simp
  qed
  then show ?thesis unfolding region_def by blast
qed

lemma region_apart:
  assumes "unat p + a \<le> unat q" and "unat q + b \<le> 2 ^ 32"
  shows "region p a \<inter> region q b = {}"
proof -
  have "p + of_nat i \<noteq> q + of_nat j" if "i < a" "j < b" for i j
  proof
    assume "p + of_nat i = q + of_nat j"
    moreover have "unat (p + of_nat i) = unat p + i" "unat (q + of_nat j) = unat q + j"
      using assms that unat_u32_bound [of q] by (simp_all add: unat_plus_small unat_of_nat_small)
    ultimately show False using assms(1) that by simp
  qed
  then show ?thesis unfolding region_def by blast
qed

lemma region_4: "region p 4 = {p, p + 1, p + 2, p + 3}"
  by (simp add: eval_nat_numeral region_Suc add.assoc)

lemma read32_cong:
  assumes "\<And>a. a \<in> region p 4 \<Longrightarrow> m' a = m a"
  shows "read32 m' p = read32 m p"
  using assms by (simp add: region_4 read32_def read16_def add.assoc)

lemma store32_outside: "a \<notin> region p 4 \<Longrightarrow> store32 m p w a = m a"
  by (simp add: region_4 store32_def)

lemma region_8: "region p 8 = region p 4 \<union> region (p + 4) 4"
  using region_add [of p 4 4] by simp

lemma iov_region: "region p (8 * length (x # ss)) = region p 8 \<union> region (p + 8) (8 * length ss)"
  using region_add [of p 8 "8 * length ss"] by simp

lemma iov_entry_cong:
  assumes "\<And>a. a \<in> region p 8 \<Longrightarrow> m' a = m a"
  shows "iov_base m' p = iov_base m p" and "iov_size m' p = iov_size m p"
  using assms by (auto simp: iov_base_def iov_size_def region_8 intro!: read32_cong)

lemma iov_is_cong:
  "iov_is m p ss \<Longrightarrow> (\<And>a. a \<in> region p (8 * length ss) \<Longrightarrow> m' a = m a) \<Longrightarrow> iov_is m' p ss"
proof (induction ss arbitrary: p)
  case (Cons x ss)
  obtain b n where x: "x = (b, n)" by force
  have "iov_base m' p = iov_base m p" "iov_size m' p = iov_size m p" "iov_is m' (p + 8) ss"
    using Cons.prems iov_entry_cong [of p m' m] Cons.IH [of "p + 8"] unfolding iov_region x by auto
  then show ?case using Cons.prems(1) x by simp
qed simp

lemma pieces_cong: "(\<And>a. a \<in> area ss \<Longrightarrow> m' a = m a) \<Longrightarrow> pieces m' ss = pieces m ss"
  by (induction m ss rule: pieces.induct) (auto intro!: fetch_cong)

lemma iov_advance_value:
  "iov_base (iov_advance m p len) p = iov_base m p + len" "iov_size (iov_advance m p len) p = iov_size m p - len"
  "a \<notin> region p 8 \<Longrightarrow> iov_advance m p len a = m a"
proof -
  have d: "region p 4 \<inter> region (p + 4) 4 = {}" using region_next [of 4 4 p] by simp
  let ?m = "store32 m (p + 4) (iov_base m p + len)"
  have sz: "iov_size ?m p = iov_size m p"
    unfolding iov_size_def using d by (intro read32_cong store32_outside) auto
  have adv: "iov_advance m p len = store32 ?m p (iov_size m p - len)" by (simp add: iov_advance_def sz)
  show "iov_size (iov_advance m p len) p = iov_size m p - len" by (simp add: adv iov_size_def)
  have "read32 (store32 ?m p (iov_size m p - len)) (p + 4) = read32 ?m (p + 4)"
    using d by (intro read32_cong store32_outside) auto
  then show "iov_base (iov_advance m p len) p = iov_base m p + len" by (simp add: adv iov_base_def)
  show "a \<notin> region p 8 \<Longrightarrow> iov_advance m p len a = m a"
    by (simp add: adv region_8 store32_outside)
qed

lemma advance_0 [simp]: "advance 0 ss = ss"
  by (induction ss) auto

lemma total_size_Cons [simp]: "total_size ((b, n) # ss) = unat n + total_size ss"
  by (simp add: total_size_def)

lemma length_advance [simp]: "length (advance k ss) = length ss"
  by (induction k ss rule: advance.induct) (simp_all add: Let_def)

subsection \<open>Writing to the pieces\<close>

text \<open>The vector, its pieces and the buffer do not overlap.\<close>

definition vector_at :: "mem \<Rightarrow> u32 \<Rightarrow> (u32 \<times> u32) list \<Rightarrow> u32 \<Rightarrow> nat \<Rightarrow> bool" where
  "vector_at m p ss buf n \<longleftrightarrow>
     iov_is m p ss \<and> apart ss \<and> 8 * length ss \<le> 2 ^ 32 \<and> region p (8 * length ss) \<inter> area ss = {} \<and>
     region p (8 * length ss) \<inter> region buf n = {} \<and> area ss \<inter> region buf n = {}"

lemma vector_at_tail:
  assumes "vector_at m p ((b, s) # ss) buf n" and "l \<le> n" and "\<And>a. a \<notin> region p 8 \<union> region b (unat s) \<union> A \<Longrightarrow> m' a = m a"
    and "region p (8 * length ((b, s) # ss)) \<inter> A = {}"
  shows "vector_at m' (p + 8) ss (buf + of_nat l) (n - l)"
proof -
  have sub: "region (buf + of_nat l) (n - l) \<subseteq> region buf n" using assms(2) by (rule region_tail)
  have r: "region p (8 + 8 * length ss) = region p 8 \<union> region (p + 8) (8 * length ss)"
    using region_add [of p 8 "8 * length ss"] by simp
  have nxt: "region p 8 \<inter> region (p + 8) (8 * length ss) = {}"
    using region_next [of 8 "8 * length ss" p] assms(1) by (simp add: vector_at_def)
  have "iov_is m' (p + 8) ss"
  proof (rule iov_is_cong [of m])
    show "iov_is m (p + 8) ss" using assms(1) by (simp add: vector_at_def)
    fix a
    assume "a \<in> region (p + 8) (8 * length ss)"
    then have "a \<notin> region p 8 \<union> region b (unat s) \<union> A" using assms(1,4) nxt by (auto simp: vector_at_def r)
    then show "m' a = m a" by (rule assms(3))
  qed
  then show ?thesis using assms(1) sub unfolding vector_at_def by (auto simp: r)
qed

text \<open>One step of each loop.\<close>

definition write_piece :: "mem \<Rightarrow> u32 \<Rightarrow> u32 \<Rightarrow> u32 \<Rightarrow> u32 \<Rightarrow> mem" where
  "write_piece m p b buf len = (if len = 0 then m else iov_advance (memcpy m b buf len) p len)"

lemma write_piece_value:
  assumes "iov_base m p = b" and "iov_size m p = n" and "l = unat len" and "l \<le> unat n"
    and "region p 8 \<inter> region b (unat n) = {}" and "region p 8 \<inter> region buf l = {}" and "region b (unat n) \<inter> region buf l = {}"
  shows "fetch (write_piece m p b buf len) b (unat n) = fetch m buf l @ drop l (fetch m b (unat n))"
    and "\<And>a. a \<notin> region p 8 \<union> region b (unat n) \<Longrightarrow> write_piece m p b buf len a = m a"
    and "iov_base (write_piece m p b buf len) p = b + of_nat l" and "iov_size (write_piece m p b buf len) p = n - of_nat l"
proof -
  let ?c = "memcpy m b buf len"
  have sub: "region b l \<subseteq> region b (unat n)" using assms(4) by (rule region_subset)
  have "region b (unat len) \<inter> region buf (unat len) = {}" using sub assms(3,7) by auto
  note cpy = fetch_memcpy [OF this, where m = m, folded assms(3)]
  have "l + (unat n - l) \<le> 2 ^ 32" using assms(4) unat_u32_bound [of n] by simp
  then have apart: "region b l \<inter> region (b + of_nat l) (unat n - l) = {}" by (rule region_next)
  have "fetch ?c b (unat n) = fetch ?c b l @ fetch ?c (b + of_nat l) (unat n - l)"
    using fetch_add [of ?c b l "unat n - l"] assms(4) by simp
  also have "fetch ?c (b + of_nat l) (unat n - l) = fetch m (b + of_nat l) (unat n - l)"
    using apart by (intro fetch_cong cpy(2)) auto
  finally have c: "fetch ?c b (unat n) = fetch m buf l @ drop l (fetch m b (unat n))"
    using cpy(1) assms(4) by (simp add: drop_fetch)
  have "?c a = m a" if "a \<in> region p 8" for a using that assms(5) sub by (intro cpy(2)) auto
  then have e: "iov_base ?c p = b" "iov_size ?c p = n" using assms(1,2) iov_entry_cong [of p ?c m] by simp_all
  have "write_piece m p b buf len a = ?c a" if "a \<notin> region p 8" for a
    using iov_advance_value(3) [OF that, of ?c len] by (simp add: write_piece_def memcpy_def)
  then have "fetch (write_piece m p b buf len) b (unat n) = fetch ?c b (unat n)"
    using assms(5) by (intro fetch_cong) auto
  then show "fetch (write_piece m p b buf len) b (unat n) = fetch m buf l @ drop l (fetch m b (unat n))" using c by simp
  show "write_piece m p b buf len a = m a" if "a \<notin> region p 8 \<union> region b (unat n)" for a
    using that cpy(2) sub by (auto simp: write_piece_def iov_advance_value(3))
  show "iov_base (write_piece m p b buf len) p = b + of_nat l" "iov_size (write_piece m p b buf len) p = n - of_nat l"
    using assms(1-3) e by (simp_all add: write_piece_def iov_advance_value)
qed

lemma iovec_write_step:
  assumes "iov_base m p = b" and "iov_size m p = n" and "cnt \<noteq> 0" and "len = (if cnt < n then cnt else n)"
  shows "iovec_write_loop m p (Suc k) buf cnt w = iovec_write_loop (write_piece m p b buf len) (p + 8) k (buf + len) (cnt - len) (w + len)"
  using assms by (auto simp: write_piece_def IOVEC_SIZE_def Let_def)

lemma min_parts:
  fixes c n t :: nat
  shows "min c (n + t) = min c n + min (c - min c n) t"
  by linarith

lemma take_pieces:
  assumes "l = min (length bs) (length xs)"
  shows "take l bs @ drop l xs @ take t (drop l bs) @ drop (length bs - l) ys =
    take (length xs + t) bs @ drop (length bs) (xs @ ys)"
proof (cases "length bs \<le> length xs")
  case True
  then show ?thesis using assms by (simp add: min_def)
next
  case False
  then have "take (length xs + t) bs = take (length xs) bs @ take t (drop (length xs) bs)" by (simp add: take_add)
  then show ?thesis using False assms by (simp add: min_def)
qed

lemma iovec_write_loop_value:
  assumes "vector_at m p ss buf (unat cnt)"
  shows "\<exists>m'. iovec_write_loop m p (length ss) buf cnt w = (w + of_nat (min (unat cnt) (total_size ss)), m') \<and>
    pieces m' ss = take (total_size ss) (fetch m buf (unat cnt)) @ drop (unat cnt) (pieces m ss) \<and>
    iov_is m' p (advance (unat cnt) ss) \<and> (\<forall>a. a \<notin> region p (8 * length ss) \<union> area ss \<longrightarrow> m' a = m a)"
  using assms
proof (induction ss arbitrary: m p buf cnt w)
  case Nil
  then show ?case by (simp add: total_size_def)
next
  case (Cons x ss)
  obtain b n where x: "x = (b, n)" by force
  note v = Cons.prems [unfolded x]
  have r: "region p (8 + 8 * length ss) = region p 8 \<union> region (p + 8) (8 * length ss)"
    using region_add [of p 8 "8 * length ss"] by simp
  have nxt: "region p 8 \<inter> region (p + 8) (8 * length ss) = {}"
    using region_next [of 8 "8 * length ss" p] v by (simp add: vector_at_def)
  have e: "iov_base m p = b" "iov_size m p = n" using v by (simp_all add: vector_at_def)
  show ?case
  proof (cases "cnt = 0")
    case True
    then show ?thesis using v x by (simp add: vector_at_def)
  next
    case cnt: False
    define l where "l = min (unat cnt) (unat n)"
    define len where "len = (if cnt < n then cnt else n)"
    have len: "unat len = l" "len = of_nat l" by (auto simp: l_def len_def word_less_nat_alt)
    have le: "l \<le> unat cnt" "l \<le> unat n" by (simp_all add: l_def)
    have left: "unat (cnt - len) = unat cnt - l" using le(1) len by (simp add: unat_minus_le word_le_nat_alt)
    define m2 where "m2 = write_piece m p b buf len"
    have sub: "region buf l \<subseteq> region buf (unat cnt)" using le(1) by (rule region_subset)
    then have d: "region p 8 \<inter> region b (unat n) = {}" "region p 8 \<inter> region buf l = {}" "region b (unat n) \<inter> region buf l = {}"
      using v by (auto simp: vector_at_def r)
    note wp = write_piece_value [OF e len(1) [symmetric] le(2) d, folded m2_def]
    have "vector_at m2 (p + 8) ss (buf + of_nat l) (unat cnt - l)"
      using vector_at_tail [OF v le(1), of "{}" m2] wp(2) by simp
    then have v2: "vector_at m2 (p + 8) ss (buf + len) (unat (cnt - len))" unfolding left by (simp add: len(2))
    obtain m' where m': "iovec_write_loop m2 (p + 8) (length ss) (buf + len) (cnt - len) (w + len) =
        (w + len + of_nat (min (unat (cnt - len)) (total_size ss)), m')"
      "pieces m' ss = take (total_size ss) (fetch m2 (buf + len) (unat (cnt - len))) @ drop (unat (cnt - len)) (pieces m2 ss)"
      "iov_is m' (p + 8) (advance (unat (cnt - len)) ss)"
      "\<And>a. a \<notin> region (p + 8) (8 * length ss) \<union> area ss \<Longrightarrow> m' a = m2 a"
      using Cons.IH [OF v2, of "w + len"] by blast
    have "iovec_write_loop m p (length (x # ss)) buf cnt w = iovec_write_loop m2 (p + 8) (length ss) (buf + len) (cnt - len) (w + len)"
      using iovec_write_step [OF e cnt len_def] by (simp add: m2_def)
    moreover have "w + len + of_nat (min (unat (cnt - len)) (total_size ss)) = w + of_nat (min (unat cnt) (total_size (x # ss)))"
      unfolding left by (simp add: x len(2) l_def min_parts [of "unat cnt" "unat n" "total_size ss"])
    moreover have "pieces m' (x # ss) = take (total_size (x # ss)) (fetch m buf (unat cnt)) @ drop (unat cnt) (pieces m (x # ss))"
    proof -
      have "fetch m' b (unat n) = fetch m2 b (unat n)"
        using v nxt by (intro fetch_cong m'(4)) (auto simp: vector_at_def r)
      moreover have "fetch m2 (buf + len) (unat cnt - l) = drop l (fetch m buf (unat cnt))"
        unfolding drop_fetch [OF le(1)] len(2)
        using v region_tail [OF le(1), of buf] by (intro fetch_cong wp(2)) (auto simp: vector_at_def r)
      moreover have "pieces m2 ss = pieces m ss"
        using v by (intro pieces_cong wp(2)) (auto simp: vector_at_def r)
      ultimately show ?thesis
        using take_pieces [of l "fetch m buf (unat cnt)" "fetch m b (unat n)" "total_size ss" "pieces m ss"] le
        by (simp add: x m'(2) wp(1) left l_def take_fetch)
    qed
    moreover have "iov_is m' p (advance (unat cnt) (x # ss))"
    proof -
      have same: "m' a = m2 a" if "a \<in> region p 8" for a using that v nxt by (intro m'(4)) (auto simp: vector_at_def r)
      show ?thesis
        using m'(3) wp(3,4) iov_entry_cong [of p m' m2, OF same] by (simp add: x Let_def l_def left)
    qed
    moreover have "m' a = m a" if "a \<notin> region p (8 * length (x # ss)) \<union> area (x # ss)" for a
      using that m'(4) [of a] wp(2) [of a] by (simp add: x r)
    ultimately show ?thesis using m'(1) by auto
  qed
qed

subsection \<open>Reading from the pieces\<close>

definition read_piece :: "mem \<Rightarrow> u32 \<Rightarrow> u32 \<Rightarrow> u32 \<Rightarrow> u32 \<Rightarrow> mem" where
  "read_piece m p b buf len = (if len = 0 then m else iov_advance (memcpy m buf b len) p len)"

lemma read_piece_value:
  assumes "iov_base m p = b" and "iov_size m p = n" and "l = unat len" and "l \<le> k" and "k \<le> 2 ^ 32"
    and "region p 8 \<inter> region buf k = {}" and "region b l \<inter> region buf k = {}"
  shows "fetch (read_piece m p b buf len) buf k = fetch m b l @ drop l (fetch m buf k)"
    and "\<And>a. a \<notin> region p 8 \<union> region buf l \<Longrightarrow> read_piece m p b buf len a = m a"
    and "iov_base (read_piece m p b buf len) p = b + of_nat l" and "iov_size (read_piece m p b buf len) p = n - of_nat l"
proof -
  let ?c = "memcpy m buf b len"
  have sub: "region buf l \<subseteq> region buf k" using assms(4) by (rule region_subset)
  have "region buf (unat len) \<inter> region b (unat len) = {}" using sub assms(3,7) by auto
  note cpy = fetch_memcpy [OF this, where m = m, folded assms(3)]
  have "l + (k - l) \<le> 2 ^ 32" using assms(4,5) by simp
  then have apart: "region buf l \<inter> region (buf + of_nat l) (k - l) = {}" by (rule region_next)
  have "fetch ?c buf k = fetch ?c buf l @ fetch ?c (buf + of_nat l) (k - l)"
    using fetch_add [of ?c buf l "k - l"] assms(4) by simp
  also have "fetch ?c (buf + of_nat l) (k - l) = fetch m (buf + of_nat l) (k - l)"
    using apart by (intro fetch_cong cpy(2)) auto
  finally have c: "fetch ?c buf k = fetch m b l @ drop l (fetch m buf k)"
    using cpy(1) assms(4) by (simp add: drop_fetch)
  have "?c a = m a" if "a \<in> region p 8" for a using that assms(6) sub by (intro cpy(2)) auto
  then have e: "iov_base ?c p = b" "iov_size ?c p = n" using assms(1,2) iov_entry_cong [of p ?c m] by simp_all
  have "read_piece m p b buf len a = ?c a" if "a \<notin> region p 8" for a
    using iov_advance_value(3) [OF that, of ?c len] by (simp add: read_piece_def memcpy_def)
  then have "fetch (read_piece m p b buf len) buf k = fetch ?c buf k"
    using assms(6) by (intro fetch_cong) auto
  then show "fetch (read_piece m p b buf len) buf k = fetch m b l @ drop l (fetch m buf k)" using c by simp
  show "read_piece m p b buf len a = m a" if "a \<notin> region p 8 \<union> region buf l" for a
    using that cpy(2) by (auto simp: read_piece_def iov_advance_value(3))
  show "iov_base (read_piece m p b buf len) p = b + of_nat l" "iov_size (read_piece m p b buf len) p = n - of_nat l"
    using assms(1-3) e by (simp_all add: read_piece_def iov_advance_value)
qed

lemma iovec_read_step:
  assumes "iov_base m p = b" and "iov_size m p = n" and "cnt \<noteq> 0" and "len = (if cnt < n then cnt else n)"
  shows "iovec_read_loop m p (Suc k) buf cnt w = iovec_read_loop (read_piece m p b buf len) (p + 8) k (buf + len) (cnt - len) (w + len)"
  using assms by (auto simp: read_piece_def IOVEC_SIZE_def Let_def)

lemma iovec_read_loop_value:
  assumes "vector_at m p ss buf (unat cnt)"
  shows "\<exists>m'. iovec_read_loop m p (length ss) buf cnt w = (w + of_nat (min (unat cnt) (total_size ss)), m') \<and>
    fetch m' buf (unat cnt) = take (unat cnt) (pieces m ss) @ drop (total_size ss) (fetch m buf (unat cnt)) \<and>
    iov_is m' p (advance (unat cnt) ss) \<and> (\<forall>a. a \<notin> region p (8 * length ss) \<union> region buf (unat cnt) \<longrightarrow> m' a = m a)"
  using assms
proof (induction ss arbitrary: m p buf cnt w)
  case Nil
  then show ?case by (simp add: total_size_def)
next
  case (Cons x ss)
  obtain b n where x: "x = (b, n)" by force
  note v = Cons.prems [unfolded x]
  have r: "region p (8 + 8 * length ss) = region p 8 \<union> region (p + 8) (8 * length ss)"
    using region_add [of p 8 "8 * length ss"] by simp
  have nxt: "region p 8 \<inter> region (p + 8) (8 * length ss) = {}"
    using region_next [of 8 "8 * length ss" p] v by (simp add: vector_at_def)
  have e: "iov_base m p = b" "iov_size m p = n" using v by (simp_all add: vector_at_def)
  show ?case
  proof (cases "cnt = 0")
    case True
    then show ?thesis using v x by (simp add: vector_at_def)
  next
    case cnt: False
    define l where "l = min (unat cnt) (unat n)"
    define len where "len = (if cnt < n then cnt else n)"
    have len: "unat len = l" "len = of_nat l" by (auto simp: l_def len_def word_less_nat_alt)
    have le: "l \<le> unat cnt" "l \<le> unat n" by (simp_all add: l_def)
    have left: "unat (cnt - len) = unat cnt - l" using le(1) len by (simp add: unat_minus_le word_le_nat_alt)
    define m2 where "m2 = read_piece m p b buf len"
    have sub: "region buf l \<subseteq> region buf (unat cnt)" "region b l \<subseteq> region b (unat n)" using le by (simp_all add: region_subset)
    have tl: "region (buf + of_nat l) (unat cnt - l) \<subseteq> region buf (unat cnt)" using le(1) by (rule region_tail)
    have d: "region p 8 \<inter> region buf (unat cnt) = {}" "region b l \<inter> region buf (unat cnt) = {}"
      using v sub(2) by (auto simp: vector_at_def r)
    have small: "unat cnt \<le> 2 ^ 32" using unat_u32_bound [of cnt] by simp
    note rp = read_piece_value [OF e len(1) [symmetric] le(1) small d, folded m2_def]
    have "m2 a = m a" if "a \<notin> region p 8 \<union> region b (unat n) \<union> region buf (unat cnt)" for a
      using that sub(1) by (intro rp(2)) auto
    moreover have "region p (8 * length ((b, n) # ss)) \<inter> region buf (unat cnt) = {}" using v by (simp add: vector_at_def)
    ultimately have "vector_at m2 (p + 8) ss (buf + of_nat l) (unat cnt - l)" by (rule vector_at_tail [OF v le(1)])
    then have v2: "vector_at m2 (p + 8) ss (buf + len) (unat (cnt - len))" unfolding left by (simp add: len(2))
    obtain m' where m': "iovec_read_loop m2 (p + 8) (length ss) (buf + len) (cnt - len) (w + len) =
        (w + len + of_nat (min (unat (cnt - len)) (total_size ss)), m')"
      "fetch m' (buf + len) (unat (cnt - len)) = take (unat (cnt - len)) (pieces m2 ss) @ drop (total_size ss) (fetch m2 (buf + len) (unat (cnt - len)))"
      "iov_is m' (p + 8) (advance (unat (cnt - len)) ss)"
      "\<And>a. a \<notin> region (p + 8) (8 * length ss) \<union> region (buf + len) (unat (cnt - len)) \<Longrightarrow> m' a = m2 a"
      using Cons.IH [OF v2, of "w + len"] by blast
    note same = m'(4) [unfolded left, unfolded len(2)]
    have "iovec_read_loop m p (length (x # ss)) buf cnt w = iovec_read_loop m2 (p + 8) (length ss) (buf + len) (cnt - len) (w + len)"
      using iovec_read_step [OF e cnt len_def] by (simp add: m2_def)
    moreover have "w + len + of_nat (min (unat (cnt - len)) (total_size ss)) = w + of_nat (min (unat cnt) (total_size (x # ss)))"
      unfolding left by (simp add: x len(2) l_def min_parts [of "unat cnt" "unat n" "total_size ss"])
    moreover have "fetch m' buf (unat cnt) = take (unat cnt) (pieces m (x # ss)) @ drop (total_size (x # ss)) (fetch m buf (unat cnt))"
    proof -
      have "region buf l \<inter> region (buf + of_nat l) (unat cnt - l) = {}" using region_next [of l "unat cnt - l" buf] le(1) small by simp
      then have "fetch m' buf l = fetch m2 buf l"
        using d v sub(1) by (intro fetch_cong same) (auto simp: vector_at_def r)
      moreover have "fetch m2 buf l = fetch m b l" using arg_cong [OF rp(1), of "take l"] le(1) by (simp add: take_fetch)
      moreover have "fetch m2 (buf + of_nat l) (unat cnt - l) = drop l (fetch m buf (unat cnt))"
        using arg_cong [OF rp(1), of "drop l"] le(1) by (simp add: drop_fetch)
      moreover have "pieces m2 ss = pieces m ss"
        using v sub(1) by (intro pieces_cong rp(2)) (auto simp: vector_at_def r)
      moreover have "fetch m' buf (unat cnt) = fetch m' buf l @ fetch m' (buf + of_nat l) (unat cnt - l)"
        using fetch_add [of m' buf l "unat cnt - l"] le(1) by simp
      ultimately have "fetch m' buf (unat cnt) = fetch m b l @ take (unat cnt - l) (pieces m ss) @ drop (total_size ss) (drop l (fetch m buf (unat cnt)))"
        using m'(2) unfolding left by (simp add: len(2))
      then show ?thesis using le by (cases "unat cnt \<le> unat n") (simp_all add: x l_def take_fetch add.commute)
    qed
    moreover have "iov_is m' p (advance (unat cnt) (x # ss))"
    proof -
      have "m' a = m2 a" if "a \<in> region p 8" for a using that d nxt tl by (intro same) auto
      then show ?thesis
        using m'(3) rp(3,4) iov_entry_cong [of p m' m2] by (simp add: x Let_def l_def left)
    qed
    moreover have "m' a = m a" if "a \<notin> region p (8 * length (x # ss)) \<union> region buf (unat cnt)" for a
    proof -
      have "a \<notin> region buf l" "a \<notin> region (buf + of_nat l) (unat cnt - l)" using that sub(1) tl by auto
      then show ?thesis using that same [of a] rp(2) [of a] by (simp add: x r)
    qed
    ultimately show ?thesis using m'(1) by auto
  qed
qed

subsection \<open>The two functions\<close>

lemma iovec_write_value:
  assumes "vector_at m p ss buf (unat cnt)" and "length ss < 2147483648"
  shows "\<exists>m'. iovec_write m p (of_nat (length ss)) buf cnt = (of_nat (min (unat cnt) (total_size ss)), m') \<and>
    pieces m' ss = take (total_size ss) (fetch m buf (unat cnt)) @ drop (unat cnt) (pieces m ss) \<and>
    iov_is m' p (advance (unat cnt) ss) \<and> (\<forall>a. a \<notin> region p (8 * length ss) \<union> area ss \<longrightarrow> m' a = m a)"
  using iovec_write_loop_value [OF assms(1), of 0] sint_of_nat [OF assms(2)] by (simp add: iovec_write_def)

lemma iovec_read_value:
  assumes "vector_at m p ss buf (unat cnt)" and "length ss < 2147483648"
  shows "\<exists>m'. iovec_read m p (of_nat (length ss)) buf cnt = (of_nat (min (unat cnt) (total_size ss)), m') \<and>
    fetch m' buf (unat cnt) = take (unat cnt) (pieces m ss) @ drop (total_size ss) (fetch m buf (unat cnt)) \<and>
    iov_is m' p (advance (unat cnt) ss) \<and> (\<forall>a. a \<notin> region p (8 * length ss) \<union> region buf (unat cnt) \<longrightarrow> m' a = m a)"
  using iovec_read_loop_value [OF assms(1), of 0] sint_of_nat [OF assms(2)] by (simp add: iovec_read_def)

text \<open>
  C27. Data that \<^verbatim>\<open>iovec_write\<close> spreads over the pieces of a vector is put together again by \<^verbatim>\<open>iovec_read\<close>
  through another vector of the same pieces: when they have room for it, both report its size, the
  second buffer ends with the bytes of the first, and the first vector is moved behind what was
  written, so that a further call continues there.
\<close>

theorem iovec_roundtrip:
  assumes "vector_at m p ss buf (unat cnt)" and "vector_at m q ss dst (unat cnt)" and "length ss < 2147483648"
    and "unat cnt \<le> total_size ss" and "region p (8 * length ss) \<inter> (region q (8 * length ss) \<union> region dst (unat cnt)) = {}"
  shows "\<exists>m1 m2. iovec_write m p (of_nat (length ss)) buf cnt = (cnt, m1) \<and>
    iov_is m1 p (advance (unat cnt) ss) \<and>
    iovec_read m1 q (of_nat (length ss)) dst cnt = (cnt, m2) \<and>
    fetch m2 dst (unat cnt) = fetch m buf (unat cnt)"
proof -
  have k: "min (unat cnt) (total_size ss) = unat cnt" using assms(4) by simp
  obtain m1 where m1: "iovec_write m p (of_nat (length ss)) buf cnt = (cnt, m1)" "iov_is m1 p (advance (unat cnt) ss)"
    "pieces m1 ss = take (total_size ss) (fetch m buf (unat cnt)) @ drop (unat cnt) (pieces m ss)"
    "\<And>a. a \<notin> region p (8 * length ss) \<union> area ss \<Longrightarrow> m1 a = m a"
    using iovec_write_value [OF assms(1,3)] unfolding k by auto
  have "iov_is m1 q ss"
    by (rule iov_is_cong [of m]) (use assms(2,5) m1(4) in \<open>auto simp: vector_at_def\<close>)
  then have "vector_at m1 q ss dst (unat cnt)" using assms(2) by (simp add: vector_at_def)
  from iovec_read_value [OF this assms(3)] obtain m2 where m2: "iovec_read m1 q (of_nat (length ss)) dst cnt = (cnt, m2)"
    "fetch m2 dst (unat cnt) = take (unat cnt) (pieces m1 ss) @ drop (total_size ss) (fetch m1 dst (unat cnt))"
    unfolding k by auto
  have "fetch m2 dst (unat cnt) = fetch m buf (unat cnt)" using assms(4) by (simp add: m2(2) m1(3))
  then show ?thesis using m1(1,2) m2(1) by blast
qed

text \<open>Two pieces of 3 and 4 bytes, two vectors of them, and five bytes of data.\<close>

definition sample_vectors :: mem where
  "sample_vectors = put_bytes (put_bytes (put_bytes (\<lambda>_. 0) 0x100 [3, 0, 0, 0, 0, 3, 0, 0, 4, 0, 0, 0, 0, 4, 0, 0])
     0x200 [3, 0, 0, 0, 0, 3, 0, 0, 4, 0, 0, 0, 0, 4, 0, 0]) 0x500 [104, 101, 108, 108, 111]"

lemma sample_vectors_at:
  "vector_at sample_vectors 0x100 [(0x300, 3), (0x400, 4)] 0x500 5" "vector_at sample_vectors 0x200 [(0x300, 3), (0x400, 4)] 0x600 5"
proof -
  have "region 0x300 3 \<inter> region 0x400 4 = {}" "region 0x100 16 \<inter> region 0x300 3 = {}" "region 0x100 16 \<inter> region 0x400 4 = {}"
    "region 0x100 16 \<inter> region 0x500 5 = {}" "region 0x300 3 \<inter> region 0x500 5 = {}" "region 0x400 4 \<inter> region 0x500 5 = {}"
    "region 0x200 16 \<inter> region 0x300 3 = {}" "region 0x200 16 \<inter> region 0x400 4 = {}" "region 0x200 16 \<inter> region 0x600 5 = {}"
    "region 0x300 3 \<inter> region 0x600 5 = {}" "region 0x400 4 \<inter> region 0x600 5 = {}"
    by (rule region_apart; simp)+
  moreover have "iov_is sample_vectors 0x100 [(0x300, 3), (0x400, 4)]" "iov_is sample_vectors 0x200 [(0x300, 3), (0x400, 4)]"
    by (simp_all add: sample_vectors_def iov_base_def iov_size_def read32_def read16_def)
  ultimately show "vector_at sample_vectors 0x100 [(0x300, 3), (0x400, 4)] 0x500 5" "vector_at sample_vectors 0x200 [(0x300, 3), (0x400, 4)] 0x600 5"
    by (simp_all add: vector_at_def Int_Un_distrib Int_Un_distrib2)
qed

theorem iovec_roundtrip_witness:
  "\<exists>m1 m2. iovec_write sample_vectors 0x100 2 0x500 5 = (5, m1) \<and> iovec_read m1 0x200 2 0x600 5 = (5, m2) \<and>
     fetch m2 0x600 5 = [104, 101, 108, 108, 111]"
proof -
  have "region 0x100 16 \<inter> region 0x200 16 = {}" "region 0x100 16 \<inter> region 0x600 5 = {}"
    by (rule region_apart; simp)+
  moreover have "fetch sample_vectors 0x500 5 = [104, 101, 108, 108, 111]"
    by (simp add: sample_vectors_def)
  ultimately show ?thesis
    using iovec_roundtrip [of sample_vectors "0x100" "[(0x300, 3), (0x400, 4)]" "0x500" 5 "0x200" "0x600"] sample_vectors_at
    by (simp add: total_size_def Int_Un_distrib del: fetch_numeral) blast
qed

end
