(* ===== verification/Onix_Tcp_Numbers.thy ===== *)
theory Onix_Tcp_Numbers
  imports Onix_Net_Sample
begin

section \<open>TCP: options, round trip times and the congestion window\<close>

subsection \<open>Options\<close>

lemma bit_htons: "bit (htons w) n \<longleftrightarrow> n < 16 \<and> (if n < 8 then bit w (n + 8) else bit w (n - 8))"
proof -
  have "(0xff :: u16) = mask 8" "(0xff00 :: u16) = push_bit 8 (mask 8)" by (simp_all add: mask_eq_exp_minus_1)
  then have b: "bit (0xff :: u16) k \<longleftrightarrow> k < 8" "bit (0xff00 :: u16) k \<longleftrightarrow> 8 \<le> k \<and> k < 16" for k
    by (simp_all only: bit_mask_iff bit_push_bit_iff) auto
  show ?thesis
    unfolding htons_def bit_or_iff bit_push_bit_iff bit_drop_bit_eq comp_def bit_and_iff b
    by (auto simp: add.commute)
qed

lemma htons_htons [simp]: "htons (htons w) = w"
  by (rule bit_word_eqI) (auto simp: bit_htons)

lemma unat_plus_const: "unat (a :: u32) + n < 4294967296 \<Longrightarrow> unat (a + of_nat n) = unat a + n"
  by (subst unat_plus_small) (simp_all add: unat_of_nat_small)

lemma memset_loop_numeral: "memset_loop m p c (numeral k) = memset_loop (m(p := c)) (p + 1) c (pred_numeral k)"
  by (simp add: numeral_eq_Suc)

lemma region_numeral: "region p (numeral k) = insert p (region (p + 1) (pred_numeral k))"
  by (simp add: numeral_eq_Suc region_Suc)

text \<open>
  C26. The options of a SYN segment are read back: \<^verbatim>\<open>tcp_write_option\<close> writes a header of 28 bytes, from
  which \<^verbatim>\<open>tcp_parse_option\<close> of the receiver takes the segment size of the sender, whatever it was
  before; of the rest of the memory only the half byte of the header length changes.
\<close>

theorem tcp_option_roundtrip:
  assumes "unat tcp + 28 < 4294967296" and "tcp_has m tcp TCP_SYN"
  shows "\<exists>m'. write_options m tcp mss = (28, m') \<and> tcp_len m' tcp = 7 \<and>
    parse_options m' (tcp_options tcp) (tcp + tcp_len m' tcp * 4) old = Some (EOK, mss) \<and>
    m' (tcp_lenbyte tcp) AND 0x0F = m (tcp_lenbyte tcp) AND 0x0F \<and>
    (\<forall>a. a \<noteq> tcp_lenbyte tcp \<and> a \<notin> region (tcp_options tcp) 8 \<longrightarrow> m' a = m a)"
proof -
  let ?o = "tcp + 20"
  let ?m = "(m(?o := 2, tcp + 21 := 4, tcp + 22 := ucast (htons mss), tcp + 23 := ucast (drop_bit 8 (htons mss)),
    tcp + 24 := 0, tcp + 25 := 0, tcp + 26 := 0, tcp + 27 := 0))"
  let ?m' = "?m(tcp + 12 := (m (tcp + 12) AND 0x0F) OR 0x70)"
  have mem4: "memset m' p 0 4 = m'(p := 0, p + 1 := 0, p + 2 := 0, p + 3 := 0)" for m' p
    by (simp add: memset_def memset_loop_numeral add.assoc)
  have w: "write_options m tcp mss = (28, ?m')"
    using assms(2) by (simp add: write_options_def tcp_options_def OPT_MSS_def OPT_END_def store16_def mem4 TCP_SIZE_def
        set_tcp_len_def tcp_lenbyte_def add.assoc fun_upd_twist)
  have len: "tcp_len ?m' tcp = 7" by (simp add: tcp_len_def tcp_lenbyte_def drop_bit_or drop_bit_and)
  have half: "?m' (tcp + 12) AND 0x0F = m (tcp + 12) AND 0x0F" by (simp add: bit.conj_disj_distrib2 and.assoc)
  have "read16 ?m' (tcp + 22) = read16 (store16 m (tcp + 22) (htons mss)) (tcp + 22)"
    by (simp add: read16_def store16_def add.assoc)
  then have r16: "read16 ?m' (tcp + 22) = htons mss" by simp
  have lt: "tcp + 20 < tcp + 28" "tcp + 24 < tcp + 28"
    using assms(1) unat_plus_const [of tcp 20] unat_plus_const [of tcp 24] unat_plus_const [of tcp 28] by (simp_all add: word_less_nat_alt)
  have "parse_options ?m' (tcp + 24) (tcp + 28) mss = Some (EOK, mss)"
    by (subst parse_options.simps) (simp add: lt OPT_END_def)
  then have p: "parse_options ?m' (tcp + 20) (tcp + 28) old = Some (EOK, mss)"
    by (subst parse_options.simps) (simp add: lt OPT_END_def OPT_NOP_def OPT_MSS_def r16 add.assoc del: fun_upd_apply, simp add: r16)
  have "?m' a = m a" if "a \<noteq> tcp + 12" "a \<notin> region (tcp + 20) 8" for a
    using that by (simp add: region_numeral region_Suc add.assoc)
  then show ?thesis
    using w len p half by (intro exI [of _ ?m']) (simp add: tcp_options_def tcp_lenbyte_def)
qed

text \<open>The positions the loop visits, and those where it does not move on.\<close>

inductive visits :: "mem \<Rightarrow> u32 \<Rightarrow> u32 \<Rightarrow> u32 \<Rightarrow> bool" for m payload where
  visits_here: "visits m payload p p"
| visits_nop: "p < payload \<Longrightarrow> m p = OPT_NOP \<Longrightarrow> visits m payload (p + 1) q \<Longrightarrow> visits m payload p q"
| visits_option: "p < payload \<Longrightarrow> m p \<notin> {OPT_END, OPT_NOP} \<Longrightarrow> (m p = OPT_MSS \<longrightarrow> m (p + 1) = 4) \<Longrightarrow>
    visits m payload (p + ucast (m (p + 1))) q \<Longrightarrow> visits m payload p q"

definition stuck_at :: "mem \<Rightarrow> u32 \<Rightarrow> u32 \<Rightarrow> bool" where
  "stuck_at m payload q \<longleftrightarrow> q < payload \<and> m q \<notin> {OPT_END, OPT_NOP, OPT_MSS} \<and> m (q + 1) = 0"

lemma parse_options_stuck:
  assumes "stuck_at m payload ptr"
  shows "parse_options m ptr payload mss = None"
proof -
  have "stuck_at m payload ptr \<longrightarrow> False" if "parse_options m ptr payload mss = Some r" for r
    by (rule parse_options.raw_induct [where P = "\<lambda>m ptr payload mss r. stuck_at m payload ptr \<longrightarrow> False", OF _ that])
      (fastforce simp: stuck_at_def split: if_splits)
  then show ?thesis using assms by (cases "parse_options m ptr payload mss") auto
qed

lemma parse_options_visits:
  assumes "visits m payload p q" and "\<And>mss. parse_options m q payload mss = None"
  shows "parse_options m p payload mss = None"
  using assms
proof (induction arbitrary: mss rule: visits.induct)
  case (visits_nop p q)
  then show ?case by (subst parse_options.simps) (simp add: OPT_END_def OPT_NOP_def)
next
  case (visits_option p q)
  then show ?case by (subst parse_options.simps) (cases "m p = OPT_MSS"; simp)
qed

lemma parse_options_returns:
  assumes "\<And>q. visits m payload ptr q \<Longrightarrow> \<not> stuck_at m payload q" and "unat payload + 255 < 4294967296"
  shows "parse_options m ptr payload mss \<noteq> None"
  using assms(1)
proof (induction "unat payload - unat ptr" arbitrary: ptr mss rule: less_induct)
  case less
  consider "\<not> ptr < payload \<or> m ptr = OPT_END \<or> m ptr = OPT_MSS \<and> m (ptr + 1) \<noteq> 4"
    | "ptr < payload" "m ptr = OPT_NOP" | "ptr < payload" "m ptr \<notin> {OPT_END, OPT_NOP}" "m ptr = OPT_MSS \<longrightarrow> m (ptr + 1) = 4"
    by blast
  then show ?case
  proof cases
    case 1
    then show ?thesis by (subst parse_options.simps) (auto simp: OPT_END_def OPT_NOP_def OPT_MSS_def)
  next
    case 2
    have nxt: "unat (ptr + 1) = unat ptr + 1" using assms(2) 2(1) by (subst unat_plus_small) (simp_all add: word_less_nat_alt)
    have "parse_options m (ptr + 1) payload mss \<noteq> None"
    proof (rule less.hyps)
      show "unat payload - unat (ptr + 1) < unat payload - unat ptr" using nxt 2(1) by (simp add: word_less_nat_alt)
      show "\<not> stuck_at m payload q" if "visits m payload (ptr + 1) q" for q by (rule less.prems, rule visits_nop [OF 2 that])
    qed
    then show ?thesis using 2 by (subst parse_options.simps) (simp add: OPT_END_def OPT_NOP_def)
  next
    case 3
    let ?n = "ucast (m (ptr + 1)) :: u32"
    have "m (ptr + 1) \<noteq> 0" using less.prems [OF visits_here] 3 by (auto simp: stuck_at_def)
    then have pos: "0 < unat ?n" by (simp add: unat_ucast_u32 unat_gt_0)
    have "unat ?n \<le> 255" using unat_u8_bound [of "m (ptr + 1)"] by (simp add: unat_ucast_u32)
    then have nxt: "unat (ptr + ?n) = unat ptr + unat ?n"
      using assms(2) 3(1) by (intro unat_plus_small) (simp add: word_less_nat_alt)
    have "parse_options m (ptr + ?n) payload mss' \<noteq> None" for mss'
    proof (rule less.hyps)
      show "unat payload - unat (ptr + ?n) < unat payload - unat ptr" using pos nxt 3(1) by (simp add: word_less_nat_alt)
      show "\<not> stuck_at m payload q" if "visits m payload (ptr + ?n) q" for q by (rule less.prems, rule visits_option [OF 3 that])
    qed
    then show ?thesis using 3 by (subst parse_options.simps) (cases "m ptr = OPT_MSS"; simp)
  qed
qed

text \<open>
  C23. The loop over the options of a segment ends with a result unless it comes to an option of a kind
  it does not know with the size 0: then, and only then, it never ends. Any peer can send such a
  segment.
\<close>

theorem tcp_parse_option_terminates:
  assumes "unat payload + 255 < 4294967296"
  shows "parse_options m ptr payload mss = None \<longleftrightarrow> (\<exists>q. visits m payload ptr q \<and> stuck_at m payload q)"
  using parse_options_returns [OF _ assms] parse_options_visits [OF _ parse_options_stuck] by blast

subsection \<open>Round trip times\<close>

lemma sint_plus_small:
  fixes a b :: u32
  assumes "- 2147483648 \<le> sint a + sint b" and "sint a + sint b < 2147483648"
  shows "sint (a + b) = sint a + sint b"
  using assms by (simp add: signed_take_bit_int_eq_self sint_word_ariths)

lemma sint_minus_small:
  fixes a b :: u32
  assumes "- 2147483648 \<le> sint a - sint b" and "sint a - sint b < 2147483648"
  shows "sint (a - b) = sint a - sint b"
  using assms by (simp add: signed_take_bit_int_eq_self sint_word_ariths)

text \<open>
  The estimator on integers: the smoothed time moves by an eighth of the error, the deviation by a
  quarter of the difference to it, both stay positive; the timeout is the time and four deviations,
  within the bounds.
\<close>

definition jacobson :: "int \<Rightarrow> int \<times> int \<Rightarrow> int \<times> int" where
  "jacobson rtt = (\<lambda>(srtt, var). (max 1 (srtt + (rtt - srtt) div 8), max 1 (var + (\<bar>rtt - srtt\<bar> - var) div 4)))"

definition clamp :: "int \<Rightarrow> int \<Rightarrow> int \<Rightarrow> int" where "clamp lo hi v = max lo (min hi v)"

text \<open>
  C24. \<^verbatim>\<open>tcp_xmit_timer\<close> is the estimator of Jacobson and Karels on integers as long as the times are below
  2 to the power of 26 ticks: neither a shift of a negative number nor a wrap changes a result. The new
  timeout is the smoothed time and four deviations, at least \<^verbatim>\<open>rttmin\<close> and at most \<^verbatim>\<open>TCP_TO_REXMIT_MAX\<close>.
\<close>

theorem tcp_xmit_timer_estimates:
  assumes "0 \<le> sint (tp_srtt p)" and "sint (tp_srtt p) < 2 ^ 26" and "0 \<le> sint (rttvar p)" and "sint (rttvar p) < 2 ^ 26"
    and "unat rtt < 2 ^ 26" and "rttmin p \<le> TCP_TO_REXMIT_MAX"
  shows "(sint (tp_srtt (tcp_xmit_timer p rtt)), sint (rttvar (tcp_xmit_timer p rtt))) =
           jacobson (int (unat rtt)) (sint (tp_srtt p), sint (rttvar p)) \<and>
         int (unat (tp_rto (tcp_xmit_timer p rtt))) =
           clamp (int (unat (rttmin p))) (int (unat TCP_TO_REXMIT_MAX))
             (sint (tp_srtt (tcp_xmit_timer p rtt)) + 4 * sint (rttvar (tcp_xmit_timer p rtt)))"
proof -
  define s v r where "s = sint (tp_srtt p)" and "v = sint (rttvar p)" and "r = int (unat rtt)"
  have "unat rtt < 67108864" using assms(5) by simp
  then have r: "sint rtt = r" "0 \<le> r" "r < 67108864" using sint_small [of rtt] unfolding r_def by linarith+
  have sv: "0 \<le> s" "s < 2 ^ 26" "0 \<le> v" "v < 2 ^ 26" using assms by (simp_all add: s_def v_def)
  let ?err = "rtt - tp_srtt p"
  have err: "sint ?err = r - s" using r sv by (subst sint_minus_small) (simp_all add: s_def)
  have abs: "sint (word_abs ?err) = \<bar>r - s\<bar>"
  proof (cases "r - s < 0")
    case True
    have "sint (- ?err) = s - r" using sint_minus_small [of "tp_srtt p" rtt] r sv by (simp add: s_def)
    then show ?thesis using True by (simp add: word_abs_def err)
  qed (simp add: word_abs_def err)
  have shift: "sint (signed_drop_bit k w) = sint w div 2 ^ k" for k and w :: u32
    by (simp add: sint_signed_drop_bit_eq drop_bit_eq_div)
  let ?s1 = "tp_srtt p + signed_drop_bit 3 ?err"
  have s1: "sint ?s1 = s + (r - s) div 8"
    using r sv by (subst sint_plus_small) (simp_all add: shift err s_def)
  let ?v1 = "rttvar p + signed_drop_bit 2 (word_abs ?err - rttvar p)"
  have "sint (word_abs ?err - rttvar p) = \<bar>r - s\<bar> - v"
    using r sv by (subst sint_minus_small) (simp_all add: abs v_def)
  then have v1: "sint ?v1 = v + (\<bar>r - s\<bar> - v) div 4"
    using r sv by (subst sint_plus_small) (simp_all add: shift v_def)
  let ?s2 = "if sint ?s1 \<le> 0 then 1 else ?s1"
  let ?v2 = "if sint ?v1 \<le> 0 then 1 else ?v1"
  have one: "sint (1 :: u32) = 1" by simp
  have s2: "sint ?s2 = max 1 (s + (r - s) div 8)" using s1 one by auto
  have v2: "sint ?v2 = max 1 (v + (\<bar>r - s\<bar> - v) div 4)" using v1 one by auto
  have q: "tp_srtt (tcp_xmit_timer p rtt) = ?s2" "rttvar (tcp_xmit_timer p rtt) = ?v2"
    "tp_rto (tcp_xmit_timer p rtt) = tcp_range_value (?s2 + push_bit 2 ?v2) (rttmin p) TCP_TO_REXMIT_MAX"
    by (simp_all add: tcp_xmit_timer_def Let_def tcp_update_rto_def)
  have est: "(sint (tp_srtt (tcp_xmit_timer p rtt)), sint (rttvar (tcp_xmit_timer p rtt))) = jacobson (int (unat rtt)) (sint (tp_srtt p), sint (rttvar p))"
    unfolding q s2 v2 jacobson_def by (simp add: s_def v_def r_def)
  have nat: "int (unat w) = sint w" if "0 \<le> sint w" for w :: u32
  proof -
    have "uint w = take_bit 32 (sint w)" using uint_sint [of w] by simp
    also have "\<dots> = sint w" using that sint_lt [of w] by (intro take_bit_int_eq_self) simp_all
    finally show ?thesis by simp
  qed
  have bound: "1 \<le> sint ?s2" "sint ?s2 < 134217728" "1 \<le> sint ?v2" "sint ?v2 < 134217728"
    unfolding s2 v2 using r sv by auto
  have "unat ?s2 < 134217728" "unat ?v2 < 134217728" using bound nat [of ?s2] nat [of ?v2] by linarith+
  note small = this
  have "unat (push_bit 2 ?v2) = unat ?v2 * 4" using small(2) unat_push_bit_small [of ?v2 2] by simp
  then have "unat (?s2 + push_bit 2 ?v2) = unat ?s2 + 4 * unat ?v2" using small by (subst unat_plus_small) simp_all
  then have val: "int (unat (?s2 + push_bit 2 ?v2)) = sint ?s2 + 4 * sint ?v2"
    using bound nat [of ?s2] nat [of ?v2] by linarith
  have range: "int (unat (tcp_range_value w lo hi)) = clamp (int (unat lo)) (int (unat hi)) (int (unat w))" if "lo \<le> hi" for w lo hi
    using that by (auto simp: tcp_range_value_def clamp_def word_less_def word_le_def max_def min_def)
  have "int (unat (tp_rto (tcp_xmit_timer p rtt))) = clamp (int (unat (rttmin p))) (int (unat TCP_TO_REXMIT_MAX))
      (sint (tp_srtt (tcp_xmit_timer p rtt)) + 4 * sint (rttvar (tcp_xmit_timer p rtt)))"
    unfolding q range [OF assms(6)] val ..
  with est show ?thesis ..
qed

subsection \<open>The congestion window\<close>

text \<open>The window after fast recovery, and the growth for an acknowledgement: a segment below the threshold, above it the share of a segment.\<close>

definition recovered :: "tcp_pcb_t \<Rightarrow> nat" where
  "recovered p = (if dupacks p > TCP_REXMIT_THREASH \<and> snd_cwnd p > snd_ssthresh p then unat (snd_ssthresh p) else unat (snd_cwnd p))"

text \<open>
  The square is one of 32-bit signed numbers: for a segment size above 46340 it is negative, and so is what is
  added to the window, which is unsigned again in the end.
\<close>

definition square :: "int \<Rightarrow> int" where
  "square mss = (if mss \<le> 46340 then mss * mss else mss * mss - 2 ^ 32)"

definition grown :: "int \<Rightarrow> int \<Rightarrow> int \<Rightarrow> int" where
  "grown mss ssthresh cwnd = min 65535 (cwnd + (if cwnd \<le> ssthresh then mss else square mss sdiv cwnd)) mod 2 ^ 32"

lemma sint_square:
  assumes "m < 65536"
  shows "sint (of_nat m * of_nat m :: u32) = square (int m)"
proof -
  have u: "uint (of_nat m * of_nat m :: u32) = int m * int m"
  proof -
    have "m * m < 4294967296" using mult_le_mono [of m 65535 m 65535] assms by simp
    then have "unat (of_nat (m * m) :: u32) = m * m" by (intro unat_of_nat_small) simp
    then have "int (unat (of_nat (m * m) :: u32)) = int (m * m)" by (rule arg_cong)
    then show ?thesis by simp
  qed
  have "sint (of_nat m * of_nat m :: u32) =
      (if int m * int m < 2147483648 then int m * int m else int m * int m - 4294967296)"
  proof (cases "int m * int m < 2147483648")
    case True
    moreover have "- 2147483648 \<le> int m * int m" by (rule order_trans [of _ 0]) simp_all
    ultimately have "signed_take_bit 31 (int m * int m) = int m * int m" by (intro signed_take_bit_int_eq_self) simp_all
    then show ?thesis using True u by (simp add: sint_uint)
  next
    case False
    moreover have "int m * int m < 4294967296" using mult_mono [of "int m" 65535 "int m" 65535] assms by simp
    moreover have "(int m * int m + 2147483648) mod 4294967296 = int m * int m - 2147483648"
      if "\<not> int m * int m < 2147483648" "int m * int m < 4294967296"
    proof -
      have "(int m * int m + 2147483648) mod 4294967296 = (int m * int m - 2147483648 + 4294967296) mod 4294967296"
        by (simp add: add.commute)
      also have "\<dots> = int m * int m - 2147483648" unfolding mod_add_self2 using that by (intro mod_pos_pos_trivial) simp_all
      finally show ?thesis .
    qed
    ultimately have "signed_take_bit 31 (int m * int m) = int m * int m - 4294967296"
      by (simp add: signed_take_bit_eq_take_bit_shift take_bit_int_eq_self take_bit_eq_mod)
    then show ?thesis using False u by (simp add: sint_uint)
  qed
  moreover have "int m * int m < 2147483648 \<longleftrightarrow> int m \<le> 46340"
  proof
    show "int m \<le> 46340" if "int m * int m < 2147483648"
    proof (rule ccontr)
      assume "\<not> int m \<le> 46340"
      then have "46341 * 46341 \<le> int m * int m" by (intro mult_mono) simp_all
      then show False using that by simp
    qed
    show "int m * int m < 2147483648" if "int m \<le> 46340"
      using mult_mono [of "int m" 46340 "int m" 46340] that by simp
  qed
  ultimately show ?thesis by (simp add: square_def)
qed

lemma square_share:
  assumes "0 \<le> mss" "mss < 65536" "0 < c" "c < 1073741824"
  shows "- 2147483648 \<le> c + square mss sdiv c \<and> c + square mss sdiv c < 2147483648"
proof (cases "mss \<le> 46340")
  case True
  have "mss * mss \<le> 46340 * 46340" using True assms(1) by (intro mult_mono) simp_all
  moreover have "mss * mss div c \<le> mss * mss" "c \<noteq> 1 \<Longrightarrow> mss * mss div c \<le> mss * mss div 2"
    using assms zdiv_mono2 [of "mss * mss" 1 c] zdiv_mono2 [of "mss * mss" 2 c] by simp_all
  moreover have "mss * mss div 2 \<le> 1073697800" using calculation(1) zdiv_mono1 [of "mss * mss" 2147395600 2] by simp
  moreover have "0 \<le> mss * mss div c" using assms by (simp add: pos_imp_zdiv_nonneg_iff)
  ultimately show ?thesis using True assms by (cases "c = 1") (simp_all add: square_def signed_divide_int_def sgn_if)
next
  case False
  define k where "k = 2 ^ 32 - mss * mss"
  have "46341 * 46341 \<le> mss * mss" "mss * mss \<le> 65535 * 65535" using False assms(1,2) by (intro mult_mono; simp)+
  then have k: "0 < k" "k \<le> 2147483648" by (simp_all add: k_def)
  have q: "square mss sdiv c = - (k div c)"
    using False assms(3) k(1) by (simp add: square_def k_def signed_divide_int_def sgn_if)
  have "0 \<le> k div c" "k div c \<le> k" using k(1) assms(3) zdiv_mono2 [of k 1 c] by (simp_all add: pos_imp_zdiv_nonneg_iff)
  then show ?thesis using k assms(3,4) unfolding q by linarith
qed

lemma grown_bound:
  assumes "0 \<le> mss" "mss \<le> 46340" "0 \<le> c"
  shows "grown mss ssthresh c \<le> 65535"
proof -
  have "0 \<le> mss * mss sdiv c"
    using assms by (cases "c = 0") (simp_all add: signed_divide_int_def sgn_if pos_imp_zdiv_nonneg_iff)
  then have "0 \<le> min 65535 (c + (if c \<le> ssthresh then mss else square mss sdiv c))"
    using assms by (simp add: square_def)
  then show ?thesis unfolding grown_def by (subst mod_pos_pos_trivial) simp_all
qed

lemma grow_cwnd_value:
  assumes "unat (snd_cwnd p) < 1073741824"
  shows "uint (snd_cwnd (grow_cwnd p)) = grown (uint (snd_mss p)) (uint (snd_ssthresh p)) (uint (snd_cwnd p))"
proof -
  define c m where "c = unat (snd_cwnd p)" and "m = unat (snd_mss p)"
  have cw: "snd_cwnd p = of_nat c" and mw: "(ucast (snd_mss p) :: u32) = of_nat m"
    by (simp_all add: c_def m_def unat_ucast_u32 word_unat_eq_iff unat_of_nat_small)
  have ui: "uint (snd_cwnd p) = int c" "uint (snd_mss p) = int m" by (simp_all add: c_def m_def)
  have c: "c < 1073741824" and m: "m < 65536" using assms unat_u16_bound [of "snd_mss p"] by (simp_all add: c_def m_def)
  have gt: "of_nat c > snd_ssthresh p \<longleftrightarrow> \<not> int c \<le> uint (snd_ssthresh p)"
    using ui(1) cw by (simp add: word_less_def not_le)
  define u where "u = (if int c \<le> uint (snd_ssthresh p) then int m else square (int m) sdiv int c)"
  have unit: "(if of_nat c > snd_ssthresh p then idiv (of_nat m * of_nat m) (of_nat c) else of_nat m) = (word_of_int u :: u32)"
    using sint_of_nat [of c] c sint_square [OF m] unfolding gt u_def by (simp add: idiv_def)
  have range: "- 2147483648 \<le> int c + u \<and> int c + u < 2147483648"
  proof (cases "int c \<le> uint (snd_ssthresh p)")
    case True
    then show ?thesis using c m by (simp add: u_def)
  next
    case False
    moreover have "0 < int c" using False uint_ge_0 [of "snd_ssthresh p"] by linarith
    ultimately show ?thesis using square_share [of "int m" "int c"] c m by (simp add: u_def)
  qed
  have sum: "of_nat c + word_of_int u = (word_of_int (int c + u) :: u32)" by simp
  have "sint (word_of_int (int c + u) :: u32) = int c + u"
    using range by (simp add: sint_sbintrunc' signed_take_bit_int_eq_self del: of_int_add)
  then have "snd_cwnd (grow_cwnd p) = (if int c + u < 65535 then word_of_int (int c + u) else 65535)"
    unfolding grow_cwnd_def Let_def cw mw unit sum by (simp add: TCP_MAX_WINDOW_def del: of_int_add)
  then show ?thesis
    unfolding grown_def u_def [symmetric] ui by (simp add: min_def uint_word_of_int del: of_int_add)
qed

text \<open>
  C25. The congestion window after a new acknowledgement, for every segment size: it comes back to the
  threshold after fast recovery, then grows by a segment per acknowledgement up to the threshold (slow start)
  and by the square of a segment divided by the window above it (congestion avoidance), cut off at 65535. For
  segment sizes up to 46340 it never exceeds 65535. Above (the size is what the peer put into its option, and
  is not checked) the square is a negative number and the window may become one, that is close to \<open>2 ^ 32\<close>.
  The other numbers of the connection record the acknowledgement. The window before is below \<open>2 ^ 30\<close>.
\<close>

theorem new_ack_window:
  assumes "recovered p < 2 ^ 30"
  shows "uint (snd_cwnd (new_ack ackno p)) = grown (uint (snd_mss p)) (uint (snd_ssthresh p)) (int (recovered p)) \<and>
    (unat (snd_mss p) \<le> 46340 \<longrightarrow> unat (snd_cwnd (new_ack ackno p)) \<le> 65535) \<and>
    snd_una (new_ack ackno p) = ackno \<and> dupacks (new_ack ackno p) = 0 \<and> rtx_cnt (new_ack ackno p) = 0 \<and> tp_state (new_ack ackno p) = tp_state p"
proof -
  define q where "q = (if dupacks p > TCP_REXMIT_THREASH \<and> snd_cwnd p > snd_ssthresh p then p\<lparr>snd_cwnd := snd_ssthresh p\<rparr> else p)\<lparr>dupacks := 0\<rparr>"
  have p: "unat (snd_cwnd q) = recovered p" "snd_mss q = snd_mss p" "snd_ssthresh q = snd_ssthresh p" "tp_state q = tp_state p" "dupacks q = 0"
    by (simp_all add: q_def recovered_def)
  have grow: "tp_state (grow_cwnd q) = tp_state q" "dupacks (grow_cwnd q) = dupacks q" for q by (simp_all add: grow_cwnd_def Let_def)
  have timer: "snd_cwnd (tcp_xmit_timer q r) = snd_cwnd q" "tp_state (tcp_xmit_timer q r) = tp_state q" "dupacks (tcp_xmit_timer q r) = dupacks q" for q r
    by (simp_all add: tcp_xmit_timer_def Let_def)
  have new: "new_ack ackno p = (let p = grow_cwnd q;
      p = (if tp_rtt p \<noteq> 0 \<and> ackno = rtt_seq p then tcp_xmit_timer p (tp_rtt p - 1) else p)
    in p\<lparr>tp_rtt := 1, snd_una := ackno, rtx_cnt := 0\<rparr>)"
    unfolding new_ack_def q_def Let_def ..
  have cw: "uint (snd_cwnd q) = int (recovered p)" unfolding p(1) [symmetric] by simp
  have "uint (snd_cwnd (new_ack ackno p)) = uint (snd_cwnd (grow_cwnd q))" by (simp add: new Let_def timer)
  also have "\<dots> = grown (uint (snd_mss q)) (uint (snd_ssthresh q)) (uint (snd_cwnd q))"
    by (rule grow_cwnd_value) (use assms p(1) in simp)
  finally have w: "uint (snd_cwnd (new_ack ackno p)) = grown (uint (snd_mss p)) (uint (snd_ssthresh p)) (int (recovered p))"
    unfolding p(2,3) cw .
  moreover have "unat (snd_cwnd (new_ack ackno p)) \<le> 65535" if "unat (snd_mss p) \<le> 46340"
  proof -
    have "int (unat (snd_mss p)) \<le> 46340" using that by linarith
    then have "uint (snd_mss p) \<le> 46340" by simp
    then have "grown (uint (snd_mss p)) (uint (snd_ssthresh p)) (int (recovered p)) \<le> 65535" by (intro grown_bound) simp_all
    then have "int (unat (snd_cwnd (new_ack ackno p))) \<le> 65535" using w by simp
    then show ?thesis by linarith
  qed
  moreover have "snd_una (new_ack ackno p) = ackno \<and> dupacks (new_ack ackno p) = 0 \<and> rtx_cnt (new_ack ackno p) = 0 \<and> tp_state (new_ack ackno p) = tp_state p"
    using p(4,5) by (simp add: new Let_def timer grow)
  ultimately show ?thesis using w by blast
qed

subsection \<open>Samples\<close>

text \<open>A SYN segment at 0x100, an option list at 0x200 with a pad and an unknown option of two bytes.\<close>

definition sample_syn :: mem where "sample_syn = (\<lambda>_. 0)(0x10d := TCP_SYN, 0x200 := 1, 0x201 := 8, 0x202 := 2)"

theorem tcp_option_roundtrip_witness:
  "\<exists>m'. write_options sample_syn 0x100 1460 = (28, m') \<and> parse_options m' 0x114 0x11c 536 = Some (EOK, 1460)"
proof -
  have "tcp_has sample_syn 0x100 TCP_SYN" by (simp add: tcp_has_def tcp_flags_def sample_syn_def TCP_SYN_def)
  from tcp_option_roundtrip [OF _ this, of 1460 536] show ?thesis by (auto simp: tcp_options_def)
qed

theorem tcp_parse_option_terminates_witness:
  "parse_options sample_syn 0x200 0x203 536 \<noteq> None \<and> parse_options (sample_syn(0x202 := 0)) 0x200 0x203 536 = None"
proof -
  have fin: "parse_options sample_syn 0x203 0x203 536 = Some (EOK, 536)" by (subst parse_options.simps) simp
  have "parse_options sample_syn 0x201 0x203 536 = Some (EOK, 536)"
    by (subst parse_options.simps) (simp add: fin, simp add: sample_syn_def OPT_END_def OPT_NOP_def OPT_MSS_def fin [unfolded sample_syn_def])
  moreover have "parse_options sample_syn 0x200 0x203 536 = parse_options sample_syn 0x201 0x203 536"
    by (subst parse_options.simps) (simp add: sample_syn_def OPT_END_def OPT_NOP_def)
  moreover have "visits (sample_syn(0x202 := 0)) 0x203 0x200 0x201"
    by (rule visits_nop) (simp_all add: sample_syn_def OPT_NOP_def visits_here)
  moreover have "stuck_at (sample_syn(0x202 := 0)) 0x203 0x201"
    by (simp add: stuck_at_def sample_syn_def OPT_END_def OPT_NOP_def OPT_MSS_def)
  ultimately show ?thesis using tcp_parse_option_terminates [of "0x203"] by auto
qed

theorem tcp_xmit_timer_estimates_witness: "sint (tp_srtt (tcp_xmit_timer (new_tcb 1000) 24)) = 3"
  using tcp_xmit_timer_estimates [of "new_tcb 1000" 24]
  by (simp add: new_tcb_def TCP_TO_RTT_DEFAULT_def TCP_TO_MIN_def TCP_TO_REXMIT_MAX_def jacobson_def)

theorem new_ack_window_witness:
  "unat (snd_cwnd (new_ack 1001 (new_tcb 1000))) \<le> 65535 \<and>
    uint (snd_cwnd (new_ack 1001 ((new_tcb 1000)\<lparr>snd_mss := 50000, snd_cwnd := 1073, snd_ssthresh := 1072\<rparr>))) = 4293295520"
proof
  let ?p = "(new_tcb 1000)\<lparr>snd_mss := 50000, snd_cwnd := 1073, snd_ssthresh := 1072\<rparr>"
  have "recovered (new_tcb 1000) < 2 ^ 30" "unat (snd_mss (new_tcb 1000)) \<le> 46340"
    by (simp_all add: new_tcb_def recovered_def TCP_DEFAULT_MSS_def TCP_MAX_WINDOW_def TCP_REXMIT_THREASH_def)
  then show "unat (snd_cwnd (new_ack 1001 (new_tcb 1000))) \<le> 65535" using new_ack_window [of "new_tcb 1000" 1001] by blast
  have r: "recovered ?p = 1073" by (simp add: new_tcb_def recovered_def TCP_REXMIT_THREASH_def)
  then have "recovered ?p < 2 ^ 30" by simp
  then have "uint (snd_cwnd (new_ack 1001 ?p)) = grown (uint (snd_mss ?p)) (uint (snd_ssthresh ?p)) (int (recovered ?p))"
    using new_ack_window [of ?p 1001] by blast
  also have "\<dots> = grown 50000 1072 1073" unfolding r by simp
  also have "\<dots> = 4293295520" by (simp add: grown_def square_def signed_divide_int_def sgn_if)
  finally show "uint (snd_cwnd (new_ack 1001 ?p)) = 4293295520" .
qed

end
