(* ===== verification/Onix_Tcp_States.thy ===== *)
theory Onix_Tcp_States
  imports Onix_Tcp
begin

section \<open>The states of TCP connections\<close>

text \<open>
  Which state a connection can go to when a segment arrives. What lies below TCP (packet buffers,
  interfaces, ARP, IP) does not touch the control blocks, and in TCP only the code of the state machine
  changes the state of one. A task that waits for the lock of an interface lets others run; the
  theorems are about a time in which those leave the states alone.
\<close>

definition conn_states :: "'x tsys_scheme \<Rightarrow> u32 \<Rightarrow> tcp_state_t" where
  "conn_states s p = tp_state (tcb s p)"

definition others_keep :: "'x tenv \<Rightarrow> bool" where
  "others_keep e \<longleftrightarrow> (\<forall>s s'. dn_others (fs_dev e) s = Some s' \<longrightarrow> conn_states s' = conn_states s)"

subsection \<open>Runs that keep the states\<close>

definition keeps :: "(u32 \<Rightarrow> tcp_state_t) \<Rightarrow> 'x tsys_scheme option \<Rightarrow> bool" where
  "keeps st m \<longleftrightarrow> (\<forall>s. m = Some s \<longrightarrow> conn_states s = st)"

definition keeps2 :: "(u32 \<Rightarrow> tcp_state_t) \<Rightarrow> ('a \<times> 'x tsys_scheme) option \<Rightarrow> bool" where
  "keeps2 st m \<longleftrightarrow> (\<forall>x s. m = Some (x, s) \<longrightarrow> conn_states s = st)"

named_theorems keep_rules \<open>rules that follow the code of an operation\<close>

lemma keepsI: "(\<And>s. m = Some s \<Longrightarrow> conn_states s = st) \<Longrightarrow> keeps st m"
  by (simp add: keeps_def)

lemma keepsD: "keeps st m \<Longrightarrow> m = Some s \<Longrightarrow> conn_states s = st"
  by (simp add: keeps_def)

lemma keeps2I: "(\<And>x s. m = Some (x, s) \<Longrightarrow> conn_states s = st) \<Longrightarrow> keeps2 st m"
  by (simp add: keeps2_def)

lemma keeps2D: "keeps2 st m \<Longrightarrow> m = Some (x, s) \<Longrightarrow> conn_states s = st"
  by (simp add: keeps2_def)

lemma keeps_Some [keep_rules]: "conn_states s = st \<Longrightarrow> keeps st (Some s)" "conn_states s = st \<Longrightarrow> keeps2 st (Some (x, s))"
  by (simp_all add: keeps_def keeps2_def)

lemma keeps_None [keep_rules]: "keeps st None" "keeps2 st None"
  by (simp_all add: keeps_def keeps2_def)

lemma keeps_if [keep_rules]:
  "keeps st m \<Longrightarrow> keeps st n \<Longrightarrow> keeps st (if b then m else n)" "keeps2 st q \<Longrightarrow> keeps2 st r \<Longrightarrow> keeps2 st (if b then q else r)"
  by simp_all

lemma keeps_bind [keep_rules]:
  "keeps st m \<Longrightarrow> (\<And>s. conn_states s = st \<Longrightarrow> keeps st (f s)) \<Longrightarrow> keeps st (m \<bind> f)"
  "keeps st m \<Longrightarrow> (\<And>s. conn_states s = st \<Longrightarrow> keeps2 st (g s)) \<Longrightarrow> keeps2 st (m \<bind> g)"
  by (cases m; simp add: keeps_def keeps2_def)+

lemma keeps_bind_pair [keep_rules]:
  "keeps2 st m \<Longrightarrow> (\<And>x s. conn_states s = st \<Longrightarrow> keeps st (f x s)) \<Longrightarrow> keeps st (m \<bind> (\<lambda>(x, s). f x s))"
  "keeps2 st m \<Longrightarrow> (\<And>x s. conn_states s = st \<Longrightarrow> keeps2 st (g x s)) \<Longrightarrow> keeps2 st (m \<bind> (\<lambda>(x, s). g x s))"
  by (cases m; force simp add: keeps_def keeps2_def)+

text \<open>A step that yields no state.\<close>

lemma keeps_bind_any:
  "(\<And>x. m = Some x \<Longrightarrow> keeps st (f x)) \<Longrightarrow> keeps st (m \<bind> f)" "(\<And>x. m = Some x \<Longrightarrow> keeps2 st (g x)) \<Longrightarrow> keeps2 st (m \<bind> g)"
  by (cases m; simp add: keeps_def keeps2_def)+

lemma keeps_bind_word [keep_rules]:
  fixes m :: "u32 option"
  shows "(\<And>x. keeps st (f x)) \<Longrightarrow> keeps st (m \<bind> f)" "(\<And>x. keeps2 st (g x)) \<Longrightarrow> keeps2 st (m \<bind> g)"
  by (simp_all add: keeps_bind_any)

lemma keeps_bind_bool [keep_rules]:
  fixes m :: "bool option"
  shows "(\<And>x. keeps st (f x)) \<Longrightarrow> keeps st (m \<bind> f)" "(\<And>x. keeps2 st (g x)) \<Longrightarrow> keeps2 st (m \<bind> g)"
  by (simp_all add: keeps_bind_any)

lemma keeps_bind_unit [keep_rules]:
  fixes m :: "unit option"
  shows "(\<And>x. keeps st (f x)) \<Longrightarrow> keeps st (m \<bind> f)" "(\<And>x. keeps2 st (g x)) \<Longrightarrow> keeps2 st (m \<bind> g)"
  by (simp_all add: keeps_bind_any)

lemma keeps_bind_options [keep_rules]:
  fixes m :: "(u32 \<times> u16) option"
  shows "(\<And>x. keeps st (f x)) \<Longrightarrow> keeps st (m \<bind> f)" "(\<And>x. keeps2 st (g x)) \<Longrightarrow> keeps2 st (m \<bind> g)"
  by (simp_all add: keeps_bind_any)

lemma keeps_bind_ports [keep_rules]:
  fixes m :: "port_map_t option"
  shows "(\<And>x. keeps st (f x)) \<Longrightarrow> keeps st (m \<bind> f)" "(\<And>x. keeps2 st (g x)) \<Longrightarrow> keeps2 st (m \<bind> g)"
  by (simp_all add: keeps_bind_any)

lemma keeps_let [keep_rules]:
  fixes a :: "'x tsys_scheme"
  shows "conn_states a = st \<Longrightarrow> (\<And>s. conn_states s = st \<Longrightarrow> keeps st (f s)) \<Longrightarrow> keeps st (Let a f)"
    "conn_states a = st \<Longrightarrow> (\<And>s. conn_states s = st \<Longrightarrow> keeps2 st (g s)) \<Longrightarrow> keeps2 st (Let a g)"
  by simp_all

lemma keeps_let_pair [keep_rules]:
  fixes a :: "'a \<times> 'x tsys_scheme"
  shows "conn_states (snd a) = st \<Longrightarrow> (\<And>r. conn_states (snd r) = st \<Longrightarrow> keeps st (f r)) \<Longrightarrow> keeps st (Let a f)"
    "conn_states (snd a) = st \<Longrightarrow> (\<And>r. conn_states (snd r) = st \<Longrightarrow> keeps2 st (g r)) \<Longrightarrow> keeps2 st (Let a g)"
  by simp_all

lemma keeps_let_word [keep_rules]:
  fixes a :: "'b::len word"
  shows "(\<And>x. keeps st (f x)) \<Longrightarrow> keeps st (Let a f)" "(\<And>x. keeps2 st (g x)) \<Longrightarrow> keeps2 st (Let a g)"
  by simp_all

lemma keeps_let_bool [keep_rules]:
  fixes a :: bool
  shows "(\<And>x. keeps st (f x)) \<Longrightarrow> keeps st (Let a f)" "(\<And>x. keeps2 st (g x)) \<Longrightarrow> keeps2 st (Let a g)"
  by simp_all

lemma keeps_let_tcb [keep_rules]:
  fixes a :: tcp_pcb_t
  shows "(\<And>x. keeps st (f x)) \<Longrightarrow> keeps st (Let a f)" "(\<And>x. keeps2 st (g x)) \<Longrightarrow> keeps2 st (Let a g)"
  by simp_all

lemma conn_states_if [simp]: "conn_states (if c then s else s') = (if c then conn_states s else conn_states s')"
  by simp

lemma conn_states_simps [simp]:
  fixes s :: "'x tsys_scheme"
  shows "conn_states (with_k s k) = conn_states s" "conn_states (on_mem s f) = conn_states s"
    "conn_states (upd_pbuf s a g) = conn_states s" "conn_states (upd_netif s a h) = conn_states s"
    "conn_states (upd_arp s a i) = conn_states s" "conn_states (with_pool s po) = conn_states s"
    "conn_states (zero_struct s a n) = conn_states s" "conn_states (s\<lparr>tcp_port_map := pm\<rparr>) = conn_states s"
    "conn_states (s\<lparr>pbuf_count := pc\<rparr>) = conn_states s" "conn_states (s\<lparr>free_count := fc\<rparr>) = conn_states s"
    "conn_states (s\<lparr>d_ls := ls\<rparr>) = conn_states s"
  by (simp_all add: conn_states_def fun_eq_iff with_k_def on_mem_def upd_pbuf_def upd_netif_def upd_arp_def with_pool_def zero_struct_def)

lemma conn_states_upd [simp]:
  "(\<And>p. tp_state (f p) = tp_state p) \<Longrightarrow> conn_states (upd_tcb s a f) = conn_states s"
  by (simp add: conn_states_def fun_eq_iff upd_tcb_def)

subsection \<open>Below TCP\<close>


lemma on_heap_keeps [keep_rules]: "conn_states s = st \<Longrightarrow> keeps st (on_heap s f)"
  for s :: "'x tsys_scheme"
  by (auto intro!: keepsI simp: on_heap_def halt_simps)

lemma on_k_keeps [keep_rules]: "conn_states s = st \<Longrightarrow> keeps st (on_k s f)"
  for s :: "'x tsys_scheme"
  by (auto intro!: keepsI simp: on_k_def halt_simps)

lemma p_kmalloc_keeps [keep_rules]: "conn_states s = st \<Longrightarrow> keeps2 st (p_kmalloc s n)"
  for s :: "'x tsys_scheme"
  by (auto intro!: keeps2I simp: p_kmalloc_def halt_simps)

lemma p_kfree_keeps [keep_rules]: "conn_states s = st \<Longrightarrow> keeps st (p_kfree s a)"
  for s :: "'x tsys_scheme"
  by (auto intro!: keepsI simp: p_kfree_def halt_simps)

lemma p_alloc_page_keeps [keep_rules]: "conn_states s = st \<Longrightarrow> keeps2 st (p_alloc_page s)"
  for s :: "'x tsys_scheme"
  by (auto intro!: keeps2I simp: p_alloc_page_def halt_simps)

lemma wake_keeps [keep_rules]: "conn_states s = st \<Longrightarrow> keeps st (wake s w)" "conn_states s = st \<Longrightarrow> keeps st (wake_with s w r)"
  for s :: "'x tsys_scheme"
  by (simp_all add: wake_def wake_with_def keep_rules)

lemma pop_pbuf_keeps [keep_rules]: "conn_states s = st \<Longrightarrow> keeps2 st (pop_pbuf s l)"
  for s :: "'x tsys_scheme"
  by (auto intro!: keeps2I simp: pop_pbuf_def halt_simps)

lemma pbuf_get_keeps [keep_rules]: "conn_states s = st \<Longrightarrow> keeps2 st (pbuf_get s)"
  for s :: "'x tsys_scheme"
  unfolding pbuf_get_def
  by (intro keep_rules; (simp add: split_beta)?) (intro keeps_bind_any(2); simp add: split_beta keep_rules)

lemma pbuf_put_keeps [keep_rules]: "conn_states s = st \<Longrightarrow> keeps st (pbuf_put s p)"
  for s :: "'x tsys_scheme"
  unfolding pbuf_put_def by (intro keep_rules; simp)

lemma run_lock_keeps:
  assumes "others_keep e" "conn_states s = st"
  shows "keeps st (run_lock (fs_dev e) s task)"
proof (rule keepsI)
  fix t
  assume "run_lock (fs_dev e) s task = Some t"
  moreover have "e' = fs_dev e \<longrightarrow> conn_states t = conn_states s" if "run_lock e' s task = Some t" for e' task and s t :: "'a tsys_scheme"
    by (rule run_lock.raw_induct [where P = "\<lambda>e' s task t. e' = fs_dev e \<longrightarrow> conn_states t = conn_states s", OF _ that])
      (use assms(1) in \<open>fastforce simp: others_keep_def halt_simps split: if_splits\<close>)
  ultimately show "conn_states t = st" using assms(2) by blast
qed

lemma acquire_keeps [keep_rules]: "conn_states s = st \<Longrightarrow> others_keep e \<Longrightarrow> keeps st (acquire (fs_dev e) s l)"
  by (auto intro!: keepsI simp: acquire_def halt_simps dest!: keepsD [OF run_lock_keeps, rotated 2])

lemma release_keeps [keep_rules]: "conn_states s = st \<Longrightarrow> others_keep e \<Longrightarrow> keeps st (release (fs_dev e) s l)"
  by (auto intro!: keepsI simp: release_def halt_simps dest!: keepsD [OF run_lock_keeps, rotated 2])

text \<open>The step of an induction over a loop.\<close>

lemma keeps_step: "(\<And>t. m = Some t \<Longrightarrow> conn_states t = conn_states s) \<Longrightarrow> conn_states s = st \<Longrightarrow> keeps st m"
  by (simp add: keeps_def)

lemma rx_make_room_states: "rx_make_room s netif = Some t \<Longrightarrow> conn_states t = conn_states s" for s t :: "'x tsys_scheme"
  apply (erule rx_make_room.raw_induct [where P = "\<lambda>s netif t. conn_states t = conn_states s", rotated])
  subgoal premises IH for run s netif t
  proof -
    have [keep_rules]: "keeps st (run s netif)" if "conn_states s = st" for s netif st
      using that by (auto intro!: keepsI dest: IH(1))
    show ?thesis by (rule keepsD [OF _ IH(2)]) (intro keep_rules; simp)
  qed
  done

lemma rx_make_room_keeps [keep_rules]: "conn_states s = st \<Longrightarrow> keeps st (rx_make_room s netif)" for s :: "'x tsys_scheme"
  by (rule keeps_step [OF rx_make_room_states])

lemma netif_output_keeps [keep_rules]: "conn_states s = st \<Longrightarrow> others_keep e \<Longrightarrow> keeps st (netif_output e s n p)" for s :: "'x tsys_scheme"
  unfolding netif_output_def by (intro keep_rules; simp)

lemma netif_input_keeps [keep_rules]: "conn_states s = st \<Longrightarrow> others_keep e \<Longrightarrow> keeps st (netif_input e s n p)" for s :: "'x tsys_scheme"
  unfolding netif_input_def by (intro keep_rules; simp)

lemma eth_output_keeps [keep_rules]: "conn_states s = st \<Longrightarrow> others_keep e \<Longrightarrow> keeps2 st (eth_output e s n p d t l)" for s :: "'x tsys_scheme"
  unfolding eth_output_def by (intro keep_rules; simp)

lemma arp_entry_get_keeps [keep_rules]: "conn_states s = st \<Longrightarrow> keeps2 st (arp_entry_get s n a)" for s :: "'x tsys_scheme"
  unfolding arp_entry_get_def by (intro keep_rules; simp)

lemma arp_lookup_keeps [keep_rules]: "conn_states s = st \<Longrightarrow> keeps2 st (arp_lookup s n a)" for s :: "'x tsys_scheme"
  unfolding arp_lookup_def by (intro keep_rules; simp)

lemma arp_query_keeps [keep_rules]: "conn_states s = st \<Longrightarrow> others_keep e \<Longrightarrow> keeps2 st (arp_query e s n)" for s :: "'x tsys_scheme"
  unfolding arp_query_def by (intro keep_rules; simp)

lemma arp_eth_output_keeps [keep_rules]:
  "conn_states s = st \<Longrightarrow> others_keep e \<Longrightarrow> keeps2 st (arp_eth_output e s n p a t l)" for s :: "'x tsys_scheme"
  unfolding arp_eth_output_def by (intro keep_rules; simp)

lemma ip_output_keeps [keep_rules]:
  "conn_states s = st \<Longrightarrow> others_keep e \<Longrightarrow> keeps2 st (ip_output e s n p d pr l)" for s :: "'x tsys_scheme"
  unfolding ip_output_def by (intro keep_rules; simp)

subsection \<open>Sending\<close>

lemma tcp_output_seg_keeps [keep_rules]: "conn_states s = st \<Longrightarrow> others_keep e \<Longrightarrow> keeps2 st (tcp_output_seg e s p b)"
  unfolding tcp_output_seg_def by (intro keep_rules; simp)

lemma tcp_send_ack_keeps [keep_rules]: "conn_states s = st \<Longrightarrow> others_keep e \<Longrightarrow> keeps2 st (tcp_send_ack e s p f)"
  unfolding tcp_send_ack_def by (intro keep_rules; simp)

lemma insert_segment_keeps [keep_rules]: "conn_states s = st \<Longrightarrow> keeps st (insert_segment s l b)"
  unfolding insert_segment_def by (intro keep_rules; simp)

lemma tcp_write_option_states [simp]: "conn_states (snd (tcp_write_option s p tcp)) = conn_states s"
  by (simp add: tcp_write_option_def Let_def)

lemma open_segment_keeps [keep_rules]: "conn_states s = st \<Longrightarrow> keeps st (open_segment s p f)"
  unfolding open_segment_def by (intro keep_rules; simp)

lemma tcp_enqueue_loop_states: "tcp_enqueue_loop s p q sz left f = Some y \<Longrightarrow> conn_states (snd y) = conn_states s"
  apply (erule tcp_enqueue_loop.raw_induct [where P = "\<lambda>s p q sz left f y. conn_states (snd y) = conn_states s", rotated])
  subgoal premises IH for run s p q sz left f y
  proof -
    have [keep_rules]: "keeps2 st (run s p q sz left f)" if "conn_states s = st" for s p q sz left f st
      using that by (auto intro!: keeps2I dest: IH(1))
    obtain x t where y: "y = (x, t)" by (cases y)
    show ?thesis unfolding y snd_conv by (rule keeps2D [OF _ IH(2) [unfolded y]]) (intro keep_rules; simp)
  qed
  done

lemma tcp_enqueue_loop_keeps [keep_rules]: "conn_states s = st \<Longrightarrow> keeps2 st (tcp_enqueue_loop s p q sz left f)"
  by (auto intro!: keeps2I dest: tcp_enqueue_loop_states)

lemma raise_mss_states [simp]: "conn_states (raise_mss s p) = conn_states s"
  by (simp add: raise_mss_def)

lemma tcp_enqueue_keeps [keep_rules]: "conn_states s = st \<Longrightarrow> keeps2 st (tcp_enqueue s p d n f)"
  unfolding tcp_enqueue_def by (intro keep_rules; simp)

lemma send_segment_keeps [keep_rules]: "conn_states s = st \<Longrightarrow> others_keep e \<Longrightarrow> keeps st (send_segment e s p b)"
  unfolding send_segment_def by (intro keep_rules; simp)

lemma tcp_output_loop_states: "tcp_output_loop e s p w node = Some t \<Longrightarrow> others_keep e \<longrightarrow> conn_states t = conn_states s"
  apply (erule tcp_output_loop.raw_induct [where P = "\<lambda>e s p w node t. others_keep e \<longrightarrow> conn_states t = conn_states s", rotated])
  subgoal premises IH for run e s p w node t
  proof -
    have [keep_rules]: "keeps st (run e s p w node)" if "conn_states s = st" "others_keep e" for e s p w node st
      using that by (auto intro!: keepsI dest: IH(1))
    show ?thesis by (rule impI, rule keepsD [OF _ IH(2)]) (intro keep_rules; simp)
  qed
  done

lemma tcp_output_loop_keeps [keep_rules]: "conn_states s = st \<Longrightarrow> others_keep e \<Longrightarrow> keeps st (tcp_output_loop e s p w node)"
  by (rule keeps_step [OF tcp_output_loop_states [rule_format]])

lemma idle_restart_state [simp]: "tp_state (idle_restart p) = tp_state p"
  by (simp add: idle_restart_def)

lemma tcp_output_keeps [keep_rules]: "conn_states s = st \<Longrightarrow> others_keep e \<Longrightarrow> keeps2 st (tcp_output e s p)"
  unfolding tcp_output_def by (intro keep_rules; simp)

lemma requeue_loop_states: "requeue_loop s p node = Some t \<Longrightarrow> conn_states t = conn_states s"
  apply (erule requeue_loop.raw_induct [where P = "\<lambda>s p node t. conn_states t = conn_states s", rotated])
  subgoal premises IH for run s p node t
  proof -
    have [keep_rules]: "keeps st (run s p node)" if "conn_states s = st" for s p node st
      using that by (auto intro!: keepsI dest: IH(1))
    show ?thesis by (rule keepsD [OF _ IH(2)]) (intro keep_rules; simp)
  qed
  done

lemma requeue_loop_keeps [keep_rules]: "conn_states s = st \<Longrightarrow> keeps st (requeue_loop s p node)"
  by (rule keeps_step [OF requeue_loop_states])

lemma tcp_rexmit_keeps [keep_rules]: "conn_states s = st \<Longrightarrow> others_keep e \<Longrightarrow> keeps2 st (tcp_rexmit e s p)"
  unfolding tcp_rexmit_def by (intro keep_rules; simp)

lemma tcp_reset_keeps [keep_rules]: "conn_states s = st \<Longrightarrow> others_keep e \<Longrightarrow> keeps2 st (tcp_reset e s sq ak la lp ra rp)"
  unfolding tcp_reset_def by (intro keep_rules; simp)

subsection \<open>Releasing\<close>

lemma tcp_list_put_loop_states: "tcp_list_put_loop s tail node = Some t \<Longrightarrow> conn_states t = conn_states s"
  apply (erule tcp_list_put_loop.raw_induct [where P = "\<lambda>s tail node t. conn_states t = conn_states s", rotated])
  subgoal premises IH for run s tail node t
  proof -
    have [keep_rules]: "keeps st (run s tail node)" if "conn_states s = st" for s tail node st
      using that by (auto intro!: keepsI dest: IH(1))
    show ?thesis by (rule keepsD [OF _ IH(2)]) (intro keep_rules; simp)
  qed
  done

lemma tcp_list_put_keeps [keep_rules]: "conn_states s = st \<Longrightarrow> keeps st (tcp_list_put s l)"
  unfolding tcp_list_put_def by (intro keep_rules keeps_step [OF tcp_list_put_loop_states])

lemma purge_lists_keeps [keep_rules]: "conn_states s = st \<Longrightarrow> keeps st (purge_lists s p)"
  unfolding purge_lists_def by (intro keep_rules; simp)

lemma purge_waiters_keeps [keep_rules]: "conn_states s = st \<Longrightarrow> keeps st (purge_waiters s p r)"
  unfolding purge_waiters_def by (intro keep_rules; simp)

lemma put_lport_keeps [keep_rules]: "conn_states s = st \<Longrightarrow> keeps st (put_lport s p)"
  unfolding put_lport_def by (intro keep_rules; simp)

lemma put_clients_states: "put_clients s tail node = Some t \<Longrightarrow> conn_states t = conn_states s"
  apply (erule put_clients.raw_induct [where P = "\<lambda>s tail node t. conn_states t = conn_states s", rotated])
  subgoal premises IH for run s tail node t
  proof -
    have [keep_rules]: "keeps st (run s tail node)" if "conn_states s = st" for s tail node st
      using that by (auto intro!: keepsI dest: IH(1))
    show ?thesis by (rule keepsD [OF _ IH(2)]) (intro keep_rules; simp)
  qed
  done

lemma tcp_pcb_purge_keeps [keep_rules]: "conn_states s = st \<Longrightarrow> keeps st (tcp_pcb_purge s p r)"
  unfolding tcp_pcb_purge_def by (intro keep_rules keeps_step [OF put_clients_states]; simp)

lemma tcp_pcb_put_keeps [keep_rules]: "conn_states s = st \<Longrightarrow> keeps st (tcp_pcb_put s p)"
  unfolding tcp_pcb_put_def by (intro keep_rules; simp)

subsection \<open>Receiving\<close>

lemma tcb_update_states [simp]:
  "tp_state (set_timer i v p) = tp_state p" "tp_state (set_flags f p) = tp_state p" "tp_state (pass_fin p) = tp_state p"
  "tp_state (restart_keepalive p) = tp_state p" "tp_state (tcp_xmit_timer p r) = tp_state p" "tp_state (grow_cwnd p) = tp_state p"
  by (simp_all add: set_timer_def set_flags_def pass_fin_def restart_keepalive_def tcp_xmit_timer_def grow_cwnd_def Let_def)

lemma tcp_update_wnd_state [simp]: "tp_state (tcp_update_wnd q a w p) = tp_state p"
  by (simp add: tcp_update_wnd_def Let_def)

lemma new_ack_state [simp]: "tp_state (new_ack a p) = tp_state p"
  by (simp add: new_ack_def Let_def)

lemma tcp_handle_duppacks_keeps [keep_rules]: "conn_states s = st \<Longrightarrow> others_keep e \<Longrightarrow> keeps st (tcp_handle_duppacks e s p)"
  unfolding tcp_handle_duppacks_def by (intro keep_rules; simp)

lemma drop_acked_states: "drop_acked s a tail node = Some t \<Longrightarrow> conn_states t = conn_states s"
  apply (erule drop_acked.raw_induct [where P = "\<lambda>s a tail node t. conn_states t = conn_states s", rotated])
  subgoal premises IH for run s a tail node t
  proof -
    have [keep_rules]: "keeps st (run s a tail node)" if "conn_states s = st" for s a tail node st
      using that by (auto intro!: keepsI dest: IH(1))
    show ?thesis by (rule keepsD [OF _ IH(2)]) (intro keep_rules; simp)
  qed
  done

lemma drop_acked_list_keeps [keep_rules]: "conn_states s = st \<Longrightarrow> keeps st (drop_acked_list s a l)"
  unfolding drop_acked_list_def by (intro keep_rules keeps_step [OF drop_acked_states])

lemma tcp_update_ack_keeps [keep_rules]: "conn_states s = st \<Longrightarrow> others_keep e \<Longrightarrow> keeps st (tcp_update_ack e s p b tcp)"
  unfolding tcp_update_ack_def by (intro keep_rules; simp)

lemma trim_segment_states [simp]: "conn_states (trim_segment s p b q) = conn_states s"
  by (simp add: trim_segment_def Let_def)

lemma tcp_update_buf_keeps [keep_rules]: "conn_states s = st \<Longrightarrow> others_keep e \<Longrightarrow> keeps st (tcp_update_buf e s p b tcp)"
  unfolding tcp_update_buf_def by (intro keep_rules; simp)

lemma tcp_receive_keeps [keep_rules]: "conn_states s = st \<Longrightarrow> others_keep e \<Longrightarrow> keeps st (tcp_receive e s p b tcp)"
  unfolding tcp_receive_def by (intro keep_rules; simp)

subsection \<open>The diagram\<close>

text \<open>
  The edges of the state diagram that a segment can take a connection along, as they are in
  \<^verbatim>\<open>tcp_process\<close> and \<^verbatim>\<open>tcp_handle_reset\<close>.
\<close>

inductive tcp_edge :: "tcp_state_t \<Rightarrow> tcp_state_t \<Rightarrow> bool" where
  opened: "tcp_edge SYN_SENT ESTABLISHED"
| accepted: "tcp_edge SYN_RCVD ESTABLISHED"
| peer_closed: "tcp_edge ESTABLISHED CLOSE_WAIT"
| both_closing: "tcp_edge FIN_WAIT1 CLOSING"
| fin_acknowledged: "tcp_edge FIN_WAIT1 FIN_WAIT2"
| fin_and_ack: "tcp_edge FIN_WAIT1 TIME_WAIT"
| fin_after_ack: "tcp_edge FIN_WAIT2 TIME_WAIT"
| closing_done: "tcp_edge CLOSING TIME_WAIT"
| last_acknowledged: "tcp_edge LAST_ACK CLOSED"
| reset_received: "SYN_SENT < a \<Longrightarrow> tcp_edge a CLOSED"

code_pred tcp_edge .

inductive_simps tcp_edge_simps: "tcp_edge a b"

text \<open>
  A segment changes at most one state, along an edge; or a new control block is there, in the state
  SYN_RCVD, and one in the state LISTEN.
\<close>

definition seg_step :: "(u32 \<Rightarrow> tcp_state_t) \<Rightarrow> (u32 \<Rightarrow> tcp_state_t) \<Rightarrow> bool" where
  "seg_step st st' \<longleftrightarrow> st' = st \<or> (\<exists>p b. tcp_edge (st p) b \<and> st' = st(p := b)) \<or> (\<exists>l n. st l = LISTEN \<and> st' = st(n := SYN_RCVD))"

lemma seg_step_refl [simp]: "seg_step st st"
  by (simp add: seg_step_def)

lemma seg_step_edge: "tcp_edge (st p) b \<Longrightarrow> seg_step st (st(p := b))"
  by (auto simp: seg_step_def)

lemma seg_step_accept: "st l = LISTEN \<Longrightarrow> seg_step st (st(n := SYN_RCVD))"
  by (auto simp: seg_step_def)

definition leads :: "(u32 \<Rightarrow> tcp_state_t) \<Rightarrow> ('a \<times> 'x tsys_scheme) option \<Rightarrow> bool" where
  "leads st m \<longleftrightarrow> (\<forall>x s. m = Some (x, s) \<longrightarrow> seg_step st (conn_states s))"

named_theorems lead_rules \<open>rules that follow the code of an operation that may change a state\<close>

lemma leads_keeps: "keeps2 st' m \<Longrightarrow> seg_step st st' \<Longrightarrow> leads st m"
  by (auto simp: leads_def keeps2_def)

lemma leads_Some [lead_rules]: "seg_step st (conn_states s) \<Longrightarrow> leads st (Some (x, s))"
  by (simp add: leads_def)

lemma leads_if [lead_rules]: "leads st m \<Longrightarrow> leads st n \<Longrightarrow> leads st (if b then m else n)"
  by simp

lemma leads_bind_word [lead_rules]: "(\<And>x. leads st (f x)) \<Longrightarrow> leads st (m \<bind> f)" for m :: "u32 option"
  by (cases m) (simp_all add: leads_def)

lemma leads_bind_pair [lead_rules]:
  "keeps2 st m \<Longrightarrow> (\<And>x s. conn_states s = st \<Longrightarrow> leads st (f x s)) \<Longrightarrow> leads st (m \<bind> (\<lambda>(x, s). f x s))"
  by (cases m) (force simp: leads_def keeps2_def)+

lemma leads_bind [lead_rules]: "keeps st m \<Longrightarrow> (\<And>s. conn_states s = st \<Longrightarrow> leads st (f s)) \<Longrightarrow> leads st (m \<bind> f)"
  by (cases m) (simp_all add: leads_def keeps_def)

lemma leads_let [lead_rules]:
  "conn_states a = st \<Longrightarrow> (\<And>s. conn_states s = st \<Longrightarrow> leads st (f s)) \<Longrightarrow> leads st (Let a f)" for a :: "'x tsys_scheme"
  by simp

lemma leads_let_word [lead_rules]: "(\<And>x. leads st (f x)) \<Longrightarrow> leads st (Let a f)" for a :: "'b::len word"
  by simp

lemma conn_states_set: "(\<And>q. tp_state (f q) = b) \<Longrightarrow> conn_states (upd_tcb s p f) = (conn_states s)(p := b)"
  by (simp add: conn_states_def fun_eq_iff upd_tcb_def)

lemma tcp_pcb_timewait_states:
  assumes "conn_states s = st"
  shows "keeps (st(p := TIME_WAIT)) (tcp_pcb_timewait s p)"
  unfolding tcp_pcb_timewait_def
  by (intro keep_rules; simp add: conn_states_set [where b = TIME_WAIT] assms)

lemma keeps_get: "m = Some (x, s) \<Longrightarrow> conn_states s = st \<Longrightarrow> keeps st (f x s) \<Longrightarrow> keeps st (m \<bind> (\<lambda>(x, s). f x s))"
  by simp

lemma tcp_pcb_get_states: 
  assumes "tcp_pcb_get e s = Some (n, t)" 
  shows "conn_states t = (conn_states s)(n := CLOSED)"
proof -
  obtain p k where k: "p_kmalloc s TCP_PCB_SIZE = Some (p, k)"
    using assms by (cases "p_kmalloc s TCP_PCB_SIZE") (auto simp: tcp_pcb_get_def)
  have states: "conn_states k = conn_states s"
    by (rule keeps2D [OF p_kmalloc_keeps [OF refl] k])
  have "keeps2 ((conn_states s)(p := CLOSED)) (tcp_pcb_get e s)"
    unfolding tcp_pcb_get_def k Option.bind.simps prod.case
    by (intro keep_rules; simp add: conn_states_set [where b = CLOSED] new_tcb_def Let_def states)
  then have "conn_states t = (conn_states s)(p := CLOSED)" using assms by (rule keeps2D)
  moreover have "n = p" using assms k by (auto simp: tcp_pcb_get_def Let_def halt_simps)
  ultimately show ?thesis by simp
qed

text \<open>The place at which the state changes.\<close>

lemma leads_let_edge:
  fixes a :: "'x tsys_scheme"
  assumes "conn_states a = st(p := b)" "tcp_edge (st p) b" "\<And>s. conn_states s = st(p := b) \<Longrightarrow> keeps2 (st(p := b)) (f s)"
  shows "leads st (Let a f)"
  using assms by (auto intro!: leads_keeps seg_step_edge)

lemma leads_bind_edge:
  assumes "keeps (st(p := b)) m" "tcp_edge (st p) b" "\<And>s. conn_states s = st(p := b) \<Longrightarrow> keeps2 (st(p := b)) (f s)"
  shows "leads st (m \<bind> f)"
  using assms by (cases m) (auto simp: keeps_def leads_def keeps2_def intro!: seg_step_edge)

lemma tcp_handle_reset_leads:
  assumes "conn_states s = st"
  shows "leads st (tcp_handle_reset s p)"
proof (cases "tp_state (tcb s p) \<le> SYN_SENT")
  case True
  then show ?thesis using assms by (simp add: tcp_handle_reset_def leads_def)
next
  case False
  then have "tcp_edge (st p) CLOSED"
    using assms by (intro reset_received) (auto simp: conn_states_def not_le)
  then show ?thesis
    unfolding tcp_handle_reset_def
    by (intro leads_if leads_bind leads_Some keep_rules; simp add: conn_states_set [where b = CLOSED] seg_step_edge assms)
qed

lemma tcp_handle_syn_sent_leads:
  assumes "conn_states s = st" "st p = SYN_SENT" "others_keep e"
  shows "leads st (tcp_handle_syn_sent e s p tcp)"
  unfolding tcp_handle_syn_sent_def
  by (intro leads_if leads_let_word leads_Some leads_let_edge [where p = p and b = ESTABLISHED] keep_rules;
      simp add: conn_states_set [where b = ESTABLISHED] assms opened)

lemma process_syn_rcvd_leads:
  assumes "conn_states s = st" "st p = SYN_RCVD"
  shows "leads st (do { s \<leftarrow> process_syn_rcvd s p tcp; Some (EOK, s) })"
proof (cases "\<not> seg_has s tcp TCP_ACK \<or> seg_ackno s tcp \<noteq> snd_nxt (tcb s p) + 1")
  case True
  then show ?thesis using assms by (simp add: process_syn_rcvd_def leads_def)
next
  case False
  have "keeps (st(p := ESTABLISHED)) (process_syn_rcvd s p tcp)"
    unfolding process_syn_rcvd_def if_not_P [OF False]
    by (intro keep_rules; simp add: conn_states_set [where b = ESTABLISHED] assms)
  then show ?thesis
    by (rule leads_bind_edge) (simp_all add: assms accepted keeps_Some)
qed

lemma leads_let_carry: "(\<And>s. conn_states s = conn_states a \<Longrightarrow> leads st (f s)) \<Longrightarrow> leads st (Let a f)" for a :: "'x tsys_scheme"
  by simp

lemma leads_let_accept:
  fixes a :: "'x tsys_scheme"
  assumes "conn_states a = st(n := SYN_RCVD)" "st l = LISTEN" "\<And>s. conn_states s = st(n := SYN_RCVD) \<Longrightarrow> keeps2 (st(n := SYN_RCVD)) (f s)"
  shows "leads st (Let a f)"
  using assms by (auto intro!: leads_keeps seg_step_accept)

lemma tcp_handle_listen_leads:
  assumes "conn_states s = st" "st p = LISTEN" "others_keep e"
  shows "leads st (tcp_handle_listen e s p netif ip tcp)"
proof (cases "tcp_pcb_get e s")
  case None
  then show ?thesis using assms(1) by (simp add: tcp_handle_listen_def leads_def)
next
  case (Some r)
  obtain n k where r: "r = (n, k)" by (cases r)
  have k: "conn_states k = st(n := CLOSED)"
    using tcp_pcb_get_states [OF Some [unfolded r]] assms(1) by simp
  show ?thesis
    unfolding tcp_handle_listen_def Some r Option.bind.simps prod.case
    by (rule leads_if, rule leads_Some, simp add: assms, rule leads_if, rule leads_Some, simp add: assms,
        rule leads_let_carry, rule leads_let_carry, rule leads_let_word, rule leads_let_accept [where n = n and l = p])
      (intro keep_rules | simp add: conn_states_set [where b = SYN_RCVD] k assms)+
qed

lemma leads_timewait:
  assumes "conn_states s = st" "tcp_edge (st p) TIME_WAIT"
  shows "leads st (do { s \<leftarrow> tcp_pcb_timewait s p; Some (x, s) })"
  by (rule leads_bind_edge [OF tcp_pcb_timewait_states [OF assms(1)] assms(2)]) (simp add: keep_rules)

lemma process_fin_wait1_leads:
  assumes "conn_states s = st" "st p = FIN_WAIT1"
  shows "leads st (do { s \<leftarrow> process_fin_wait1 s p tcp; Some (x, s) })"
proof -
  let ?b = "if seg_has s tcp TCP_FIN \<and> fin_acked s p tcp then TIME_WAIT else if seg_has s tcp TCP_FIN then CLOSING
            else if fin_acked s p tcp then FIN_WAIT2 else FIN_WAIT1"
  have "keeps (st(p := ?b)) (process_fin_wait1 s p tcp)"
    using assms unfolding process_fin_wait1_def Let_def
    by (auto intro!: keep_rules tcp_pcb_timewait_states
        simp: conn_states_set [where b = CLOSING] conn_states_set [where b = FIN_WAIT2] fun_upd_idem split: if_splits)
  moreover have "seg_step st (st(p := ?b))"
    using assms by (auto intro!: seg_step_edge simp: tcp_edge_simps fun_upd_idem)
  ultimately show ?thesis
    by (cases "process_fin_wait1 s p tcp") (simp_all add: keeps_def leads_def)
qed

lemma leads_last_ack:
  assumes "conn_states s = st" "st p = LAST_ACK"
  shows "leads st (do { s \<leftarrow> tcp_pcb_put (upd_tcb s p (\<lambda>p. p\<lparr>tp_state := CLOSED\<rparr>)) p; Some (x, s) })"
  by (rule leads_bind_edge [where p = p and b = CLOSED, OF tcp_pcb_put_keeps])
    (simp_all add: conn_states_set [where b = CLOSED] assms last_acknowledged keep_rules)

lemmas process_leads = tcp_handle_listen_leads tcp_handle_syn_sent_leads process_syn_rcvd_leads process_fin_wait1_leads
  leads_timewait leads_last_ack seg_step_edge

lemma tcp_process_leads:
  assumes "conn_states s = st" "others_keep e"
  shows "leads st (tcp_process e s p netif pbuf ip tcp)"
  unfolding tcp_process_def
  apply (rule leads_bind)
  subgoal using assms by (intro keep_rules)
  subgoal premises s for s
  proof -
    have p: "tp_state (tcb s p) = st p" using s by (auto simp: conn_states_def)
    show ?thesis
      using p s assms(2)
      by (cases "st p") (auto intro!: lead_rules process_leads simp: conn_states_set [where b = CLOSE_WAIT] tcp_edge_simps fun_upd_idem)
  qed
  done

lemma open_received_states [simp]: "conn_states (open_received s pbuf) = conn_states s"
  by (simp add: open_received_def Let_def)

lemma tcp_parse_option_keeps [keep_rules]: "conn_states s = st \<Longrightarrow> keeps2 st (tcp_parse_option s p tcp)"
  unfolding tcp_parse_option_def by (auto simp: keeps2_def halt_simps)

lemma tcp_input_leads:
  assumes "conn_states s = st" "others_keep e"
  shows "leads st (tcp_input e s netif pbuf)"
  unfolding tcp_input_def
  by (intro leads_if leads_let leads_let_word leads_Some leads_bind_word leads_bind_pair tcp_process_leads tcp_handle_reset_leads
       leads_keeps [OF tcp_reset_keeps seg_step_refl] keep_rules; simp add: assms)

text \<open>A received segment changes at most one connection, along an edge of the diagram.\<close>

lemma tcp_input_step: "tcp_input e s netif pbuf = Some (r, t) \<Longrightarrow> others_keep e \<Longrightarrow> seg_step (conn_states s) (conn_states t)"
  using tcp_input_leads [OF refl, of e s netif pbuf] by (simp add: leads_def)

subsection \<open>Timers\<close>

text \<open>A timer can only end a connection.\<close>

definition ends :: "(u32 \<Rightarrow> tcp_state_t) \<Rightarrow> 'x tsys_scheme option \<Rightarrow> bool" where
  "ends st m \<longleftrightarrow> (\<forall>s p. m = Some s \<longrightarrow> conn_states s p = st p \<or> conn_states s p = CLOSED)"

lemma ends_keeps: "keeps st m \<Longrightarrow> ends st m"
  by (auto simp: ends_def keeps_def)

lemma ends_bind: "ends st m \<Longrightarrow> (\<And>s. m = Some s \<Longrightarrow> ends (conn_states s) (f s)) \<Longrightarrow> ends st (m \<bind> f)"
  unfolding ends_def by (cases m) (simp, metis Option.bind.simps(2))

lemma tcp_response_keeps [keep_rules]: "conn_states s = st \<Longrightarrow> others_keep e \<Longrightarrow> keeps2 st (tcp_response e s p q a f)"
  unfolding tcp_response_def by (intro keep_rules; simp)

lemma tcp_persist_keeps [keep_rules]: "conn_states s = st \<Longrightarrow> others_keep e \<Longrightarrow> keeps st (tcp_persist e s p)"
  unfolding tcp_persist_def by (intro keep_rules; simp)

lemma tcp_keepalive_keeps [keep_rules]: "conn_states s = st \<Longrightarrow> others_keep e \<Longrightarrow> keeps st (tcp_keepalive e s p)"
  unfolding tcp_keepalive_def by (intro keep_rules; simp)

lemma tcp_abort_ends: "conn_states s = st \<Longrightarrow> ends st (tcp_abort s p)"
  using tcp_pcb_purge_keeps [of s st p "- ETIME"]
  by (auto simp: tcp_abort_def ends_def keeps_def conn_states_set [where b = CLOSED] halt_simps)

lemma ends_if: "ends st m \<Longrightarrow> ends st n \<Longrightarrow> ends st (if b then m else n)"
  by simp

lemma tcp_rexmit_timeout_ends:
  assumes "conn_states s = st" "others_keep e"
  shows "ends st (do {
          kassert b;
          let s = upd_tcb s p (\<lambda>p. p\<lparr>tp_rto := f p\<rparr>);
          (_, s) \<leftarrow> tcp_rexmit e s p;
          Some s
        })"
  by (rule ends_keeps, intro keep_rules; simp add: assms)

lemma tcp_timeout_ends:
  assumes "conn_states s = st" "others_keep e"
  shows "ends st (tcp_timeout e s p i)"
proof -
  have counted: "conn_states (upd_tcb s p (\<lambda>p. p\<lparr>rtx_cnt := rtx_cnt p + 1\<rparr>)) = st" using assms(1) by simp
  show ?thesis
    unfolding tcp_timeout_def Let_def [where s = "upd_tcb s p _"]
    by (intro ends_if tcp_abort_ends tcp_rexmit_timeout_ends ends_keeps [OF keeps_Some(1)] ends_keeps [OF tcp_persist_keeps]
        ends_keeps [OF tcp_keepalive_keeps] ends_keeps [OF tcp_pcb_put_keeps] counted assms)
qed

lemma tcp_timers_loop_ends: "conn_states s = st \<Longrightarrow> others_keep e \<Longrightarrow> ends st (tcp_timers_loop e s p is)"
proof (induction "is" arbitrary: s st)
  case Nil
  then show ?case by (simp add: ends_def)
next
  case (Cons i "is")
  have "ends st (if t = 0 then Some s else do { let s = upd_tcb s p (set_timer i (t - 1)); if t - 1 = 0 then tcp_timeout e s p i else Some s })" for t
    unfolding Let_def by (intro ends_if ends_keeps [OF keeps_Some(1)] tcp_timeout_ends; simp add: Cons.prems)
  then show ?case
    unfolding tcp_timers_loop.simps Let_def [where s = "tp_timers (tcb s p) ! i"] by (rule ends_bind) (rule Cons.IH [OF refl Cons.prems(2)])
qed

lemma tick_state [simp]: "tp_state (tick p) = tp_state p"
  by (simp add: tick_def)

lemma tcp_slow_scan_ends: "tcp_slow_scan e s tail p = Some t \<Longrightarrow> others_keep e \<longrightarrow> (\<forall>q. conn_states t q = conn_states s q \<or> conn_states t q = CLOSED)"
  apply (erule tcp_slow_scan.raw_induct
      [where P = "\<lambda>e s tail p t. others_keep e \<longrightarrow> (\<forall>q. conn_states t q = conn_states s q \<or> conn_states t q = CLOSED)", rotated])
  subgoal premises IH for run e s tail p t
  proof (intro impI)
    assume e: "others_keep e"
    have "ends (conn_states s) (tcp_timers_loop e (upd_tcb s p tick) p [0..<TCP_TIMER_NUM])"
      by (rule tcp_timers_loop_ends) (simp_all add: e)
    then show "\<forall>q. conn_states t q = conn_states s q \<or> conn_states t q = CLOSED"
      using IH(2) IH(1) e by (force simp: ends_def halt_simps split: if_splits)
  qed
  done

lemma tcp_sleep_keeps [keep_rules]: "conn_states s = st \<Longrightarrow> others_keep e \<Longrightarrow> keeps st (tcp_sleep e s ms)"
  by (auto simp: tcp_sleep_def keeps_def halt_simps others_keep_def dest!: keepsD [OF on_k_keeps [OF refl]])

lemma tcp_slow_scan_run: "others_keep e \<Longrightarrow> conn_states s = st \<Longrightarrow> ends st (tcp_slow_scan e s tail p)"
  by (auto simp: ends_def dest: tcp_slow_scan_ends)

lemma ends_bind_word: "(\<And>x. ends st (f x)) \<Longrightarrow> ends st (m \<bind> f)" for m :: "u32 option"
  by (cases m) (simp_all add: ends_def)

lemma tcp_slowtimo_run:
  assumes "others_keep e"
  shows "ends (conn_states s) (tcp_slowtimo e s)"
  unfolding tcp_slowtimo_def
  by (intro ends_bind_word ends_bind tcp_slow_scan_run assms refl ends_keeps [OF tcp_sleep_keeps])

subsection \<open>Closing\<close>

fun close_state :: "tcp_state_t \<Rightarrow> tcp_state_t" where
  "close_state SYN_RCVD = FIN_WAIT1"
| "close_state ESTABLISHED = FIN_WAIT1"
| "close_state CLOSE_WAIT = LAST_ACK"
| "close_state st = st"

lemma keeps_then:
  "keeps2 st m \<Longrightarrow> (\<And>x s. conn_states s = st \<Longrightarrow> keeps2 st' (g x s)) \<Longrightarrow> keeps2 st' (m \<bind> (\<lambda>(x, s). g x s))"
  by (cases m) (force simp: keeps2_def)+

lemma send_fin_keeps:
  assumes "conn_states s = st" "others_keep e"
  shows "keeps2 (st(p := b)) (send_fin e s p b)"
  unfolding send_fin_def
  by (rule keeps_then [OF tcp_enqueue_keeps [OF assms(1)]]) (intro keep_rules; simp add: conn_states_set [where b = b] assms(2))

lemma conn_states_socket [simp]: "conn_states (upd_socket s a f) = conn_states s" for s :: "'x tsys_scheme"
  by (simp add: upd_socket_def conn_states_def fun_eq_iff)

lemma tcp_close_step:
  assumes "tcp_close e s sock = Some (r, t)" and "others_keep e" and "so_pcb (sockets s sock) \<noteq> NULL"
  shows "conn_states t = (conn_states s)(so_pcb (sockets s sock) := close_state (conn_states s (so_pcb (sockets s sock))))"
proof -
  define p where "p = so_pcb (sockets s sock)"
  define a where "a = upd_socket s sock (\<lambda>x. x\<lparr>so_pcb := NULL\<rparr>)"
  have a: "conn_states a = conn_states s" and st: "tp_state (tcb a p) = conn_states s p"
    by (simp_all add: a_def) (simp add: upd_socket_def conn_states_def)
  have "keeps2 ((conn_states s)(p := close_state (conn_states s p))) (tcp_close e s sock)"
    using assms(3) send_fin_keeps [OF a assms(2), of p] keeps_bind(2) [OF tcp_pcb_put_keeps [OF a]]
    unfolding tcp_close_def Let_def a_def [symmetric] p_def [symmetric] st
    by (cases "conn_states s p") (auto simp: keep_rules a fun_upd_idem)
  then show ?thesis using assms(1) by (auto simp: p_def dest: keeps2D)
qed

lemma tcp_close_moves:
  "tcp_close e s sock = Some (r, t) \<Longrightarrow> others_keep e \<Longrightarrow> conn_states t p = conn_states s p \<or> conn_states t p = close_state (conn_states s p)"
  using tcp_close_step [of e s sock r t] by (cases "so_pcb (sockets s sock) = NULL") (auto simp: tcp_close_def)

subsection \<open>Delayed acknowledgements\<close>

lemma tcp_fast_scan_states: "tcp_fast_scan e s tail p = Some t \<Longrightarrow> others_keep e \<longrightarrow> conn_states t = conn_states s"
  apply (erule tcp_fast_scan.raw_induct [where P = "\<lambda>e s tail p t. others_keep e \<longrightarrow> conn_states t = conn_states s", rotated])
  subgoal premises IH for run e s tail p t
  proof -
    have [keep_rules]: "keeps st (run e s tail p)" if "conn_states s = st" "others_keep e" for e s tail p st
      using that by (auto intro!: keepsI dest: IH(1))
    show ?thesis by (rule impI, rule keepsD [OF _ IH(2)]) (intro keep_rules; simp)
  qed
  done

lemma tcp_fastimo_keeps: "conn_states s = st \<Longrightarrow> others_keep e \<Longrightarrow> keeps st (tcp_fastimo e s)"
  unfolding tcp_fastimo_def by (intro keep_rules keeps_step [OF tcp_fast_scan_states [rule_format]]; simp)

end
