(* ===== verification/Onix_Tcp_Life.thy ===== *)
theory Onix_Tcp_Life
  imports Onix_Net_Sample Onix_Tcp_States
begin

section \<open>The life of a TCP connection\<close>

text \<open>
  The theorems on the states of connections: what one segment can do, and what a history of segments,
  timers and calls of \<^verbatim>\<open>close\<close> can do. The witness is a segment with FIN that is evaluated on the sample.
\<close>

text \<open> C20. A received segment moves connections only along the edges of the TCP state diagram: whatever the
  segment is and whatever else the connections hold, \<^verbatim>\<open>tcp_input\<close> either leaves the state of every control
  block as it is; or changes that of a single one along an edge (from SYN_SENT or SYN_RCVD to ESTABLISHED, from
  ESTABLISHED to CLOSE_WAIT, from FIN_WAIT1 to FIN_WAIT2, CLOSING or TIME_WAIT, from FIN_WAIT2 or CLOSING to
  TIME_WAIT, from LAST_ACK or by a reset to CLOSED); or adds one in the state SYN_RCVD, and then some control
  block is in the state LISTEN. The hypothesis is about the other tasks, which run while this one waits for
  the lock of an interface: they leave the states alone meanwhile. \<close>

theorem tcp_input_edges:
  assumes "others_keep e" and "tcp_input e s netif pbuf = Some (r, t)"
  shows "conn_states t = conn_states s
    \<or> (\<exists>p. tcp_edge (conn_states s p) (conn_states t p) \<and> (\<forall>q. q \<noteq> p \<longrightarrow> conn_states t q = conn_states s q))
    \<or> (\<exists>l n. conn_states s l = LISTEN \<and> conn_states t = (conn_states s)(n := SYN_RCVD))"
  using tcp_input_step [OF assms(2, 1)] unfolding seg_step_def by (metis fun_upd_apply)

subsection \<open>Histories\<close>

text \<open>
  A history of received segments, rounds of the two timers and calls of \<^verbatim>\<open>close\<close>, with the addresses at which
  listening control blocks have put new connections. The address of a control block that was given back to the
  heap can be among them: the new connection may get the same memory.
\<close>

definition births :: "(u32 \<Rightarrow> tcp_state_t) \<Rightarrow> (u32 \<Rightarrow> tcp_state_t) \<Rightarrow> u32 set" where
  "births st st' = {n. st n \<noteq> SYN_RCVD \<and> st' n = SYN_RCVD \<and> (\<exists>l. st l = LISTEN)}"

inductive tcp_run :: "'x tenv \<Rightarrow> 'x tsys_scheme \<Rightarrow> u32 set \<Rightarrow> 'x tsys_scheme \<Rightarrow> bool" for e where
  run_nothing: "tcp_run e s {} s"
| run_segment: "tcp_run e s bs t \<Longrightarrow> tcp_input e t netif pbuf = Some (r, u) \<Longrightarrow>
    tcp_run e s (bs \<union> births (conn_states t) (conn_states u)) u"
| run_slow: "tcp_run e s bs t \<Longrightarrow> tcp_slowtimo e t = Some u \<Longrightarrow> tcp_run e s bs u"
| run_fast: "tcp_run e s bs t \<Longrightarrow> tcp_fastimo e t = Some u \<Longrightarrow> tcp_run e s bs u"
| run_close: "tcp_run e s bs t \<Longrightarrow> tcp_close e t sock = Some (r, u) \<Longrightarrow> tcp_run e s bs u"

definition past_established :: "tcp_state_t \<Rightarrow> bool" where
  "past_established st \<longleftrightarrow> ESTABLISHED < st \<or> st = CLOSED"

lemma past_edge: "tcp_edge a b \<Longrightarrow> past_established a \<Longrightarrow> past_established b"
  by (auto elim!: tcp_edge.cases simp: past_established_def less_tcp_state_t_def)

lemma past_states: "past_established CLOSED" "\<not> past_established SYN_RCVD"
  "past_established st \<Longrightarrow> past_established (close_state st)"
  by (simp_all add: past_established_def less_tcp_state_t_def) (cases st; simp add: past_established_def less_tcp_state_t_def)

lemma past_seg_step:
  "seg_step st st' \<Longrightarrow> past_established (st p) \<Longrightarrow> past_established (st' p) \<or> p \<in> births st st'"
  unfolding seg_step_def
proof (elim disjE exE conjE)
  fix q b
  assume "tcp_edge (st q) b" "st' = st(q := b)" "past_established (st p)"
  then show ?thesis using past_edge [of "st p" b] by (cases "q = p") simp_all
next
  fix l n
  assume "st l = LISTEN" "st' = st(n := SYN_RCVD)" "past_established (st p)"
  then show ?thesis using past_states(2) by (cases "n = p") (auto simp: births_def)
qed simp

lemma tcp_run_past:
  assumes "tcp_run e s bs t" "others_keep e" "past_established (conn_states s p)"
  shows "past_established (conn_states t p) \<or> p \<in> bs"
  using assms
proof (induction rule: tcp_run.induct)
  case (run_segment s bs t netif pbuf r u)
  then show ?case using past_seg_step [OF tcp_input_step] by blast
next
  case (run_slow s bs t u)
  have "ends (conn_states t) (Some u)" using tcp_slowtimo_run [of e t, unfolded run_slow.hyps(2)] run_slow.prems(1) by blast
  then have "conn_states u p = conn_states t p \<or> conn_states u p = CLOSED" by (simp add: ends_def)
  then show ?case using run_slow.IH [OF run_slow.prems] past_states(1) by metis
next
  case (run_fast s bs t u)
  then show ?case using keepsD [OF tcp_fastimo_keeps [OF refl]] by metis
next
  case (run_close s bs t sock r u)
  have "conn_states u p = conn_states t p \<or> conn_states u p = close_state (conn_states t p)"
    by (rule tcp_close_moves [OF run_close.hyps(2) run_close.prems(1)])
  then show ?case using run_close.IH [OF run_close.prems] past_states(3) by metis
qed simp

text \<open> C21. There is no way back to an established connection: once a connection has left the state ESTABLISHED
  (it is in a later state of the diagram, or CLOSED), no history of received segments, rounds of both TCP
  timers and calls of \<^verbatim>\<open>close\<close> on any socket brings it back, neither to ESTABLISHED nor to a state before it.
  Server sockets may listen meanwhile: the one way out is that one of them puts a new connection, in the state
  SYN_RCVD, at the address of the control block, which is then a different connection. The other tasks leave
  the states alone while this one waits. Calls of \<^verbatim>\<open>connect\<close>, \<^verbatim>\<open>listen\<close> and \<^verbatim>\<open>socket\<close> are not part of a history. \<close>

theorem no_way_back:
  assumes "tcp_run e s bs t" and "others_keep e" and "past_established (conn_states s p)"
  shows "past_established (conn_states t p) \<or> p \<in> bs"
  by (rule tcp_run_past [OF assms])

text \<open>A segment with FIN for the connection of the sample, which is in the state \<open>st\<close>; the other control block is in the state \<open>other\<close>.\<close>

definition fin_net :: "tcp_state_t \<Rightarrow> tcp_state_t \<Rightarrow> tsys" where
  "fin_net st other = sample_net\<lparr>
     tcp_pcbs := (\<lambda>p. if p = 0x44000 then net_tcb 80 4000 st else net_tcb 80 0 other),
     d_mem := put_bytes (put_bytes net_mem 0x43038 [40, 0]) 0x4304e [0, 0, 1, 0xf4, 0, 0, 0, 0, 0x50, 1],
     netifs := (\<lambda>_. \<lparr>nf_rx_size = 0, nf_tx_size = 0, nf_nic = 0, nf_output = 0, nf_index = 0, nf_flags = NETIF_TCP_RX_CHECKSUM_OFFLOAD\<rparr>)\<rparr>"

lemmas address_defs = pb_ip_def pb_tcp_def pb_eth_def eth_payload_def ip_payload_def ip_dst_def ip_src_def ip_length_def tcp_sport_def tcp_dport_def
  tcp_seqno_def tcp_ackno_def tcp_lenbyte_def tcp_flags_def tcp_window_def tcp_urgent_def tcp_options_def tp_laddr_def tp_raddr_def
  nf_ipaddr_def nf_netmask_def

lemma byte_masks: "(0xff :: u16) = mask 8" "(0xff00 :: u16) = push_bit 8 (mask 8)" "(0xff :: u32) = mask 8"
  "(0xff00 :: u32) = push_bit 8 (mask 8)" "(0xff0000 :: u32) = push_bit 16 (mask 8)" "(0xff000000 :: u32) = push_bit 24 (mask 8)"
  by (simp_all add: mask_eq_exp_minus_1 push_bit_eq_mult)

lemma u8_bit: "\<not> bit (b :: u8) (8 + n)" "\<not> bit b (n + 8)"
  by (auto dest: bit_imp_le_length)

lemma store_htons: "store16 m a (htons (read16 m a)) = m(a := m (a + 1), a + 1 := m a)"
proof -
  have "ucast (htons (read16 m a)) = m (a + 1)" "ucast (drop_bit 8 (htons (read16 m a))) = m a"
    unfolding htons_def read16_def byte_masks
    by (rule bit_word_eqI; force simp: bit_simps u8_bit)+
  then show ?thesis by (simp add: store16_def)
qed

lemma store_htonl:
  "store32 m a (htonl (read32 m a)) = m(a := m (a + 3), a + 1 := m (a + 2), a + 2 := m (a + 1), a + 3 := m a)"
proof -
  have "ucast (htonl (read32 m a)) = m (a + 3)" "ucast (drop_bit 8 (htonl (read32 m a))) = m (a + 2)"
    "ucast (drop_bit 16 (htonl (read32 m a))) = m (a + 1)" "ucast (drop_bit 24 (htonl (read32 m a))) = m a"
    unfolding htonl_def read32_def read16_def byte_masks
    by (rule bit_word_eqI; auto simp: bit_simps u8_bit add.assoc dest: bit_imp_le_length)+
  then show ?thesis by (simp add: store32_def)
qed

text \<open>The conversion of a header reverses the bytes of its fields.\<close>

lemma host_order_bytes:
  "host_order m 0x4304a 0x4304a = m 0x4304b" "host_order m 0x4304a 0x4304b = m 0x4304a"
  "host_order m 0x4304a 0x4304c = m 0x4304d" "host_order m 0x4304a 0x4304d = m 0x4304c"
  "host_order m 0x4304a 0x4304e = m 0x43051" "host_order m 0x4304a 0x4304f = m 0x43050"
  "host_order m 0x4304a 0x43050 = m 0x4304f" "host_order m 0x4304a 0x43051 = m 0x4304e"
  "a < 0x4304a \<or> 0x4305d < a \<or> a = 0x43056 \<or> a = 0x43057 \<Longrightarrow> host_order m 0x4304a a = m a"
  by (auto simp: host_order_def Let_def store_htons store_htonl address_defs)

lemma fin_net_header:
  "tcp_len (d_mem (fin_net st other)) (pb_tcp 0x43000) = 5" 
  "\<not> broadcast_at (d_mem (fin_net st other)) (ip_dst (pb_ip 0x43000)) (nf_netmask 0x41000)"
  "\<not> ip_addr_ismulticast (read32 (d_mem (fin_net st other)) (ip_dst (pb_ip 0x43000)))"
  "read16 (d_mem (fin_net st other)) (ip_length (pb_ip 0x43000)) = 40"
  by (simp_all add: fin_net_def address_defs tcp_len_def broadcast_at_def ip_addr_isbroadcast_def ip_addr_ismulticast_def htonl_def
     net_mem_def read32_def read16_def)

definition fin_open :: "tcp_state_t \<Rightarrow> tcp_state_t \<Rightarrow> tsys" where
  "fin_open st other = open_received (upd_pbuf (fin_net st other) 0x43000 (\<lambda>b. b\<lparr>pb_total := 20\<rparr>)) 0x43000"

lemma fin_open_mem: "d_mem (fin_open st other) = host_order ((d_mem (fin_net st other))(0x4305e := 0)) 0x4304a"
  by (simp add: fin_open_def open_received_def Let_def fin_net_header upd_pbuf_def on_mem_def) (simp add: address_defs)

lemma fin_net_bytes:
  "d_mem (fin_net st other) 0x4304a = 15" "d_mem (fin_net st other) 0x4304b = 160" "d_mem (fin_net st other) 0x4304c = 0" "d_mem (fin_net st other) 0x4304d = 80"
  "d_mem (fin_net st other) 0x4304e = 0" "d_mem (fin_net st other) 0x4304f = 0" "d_mem (fin_net st other) 0x43050 = 1" "d_mem (fin_net st other) 0x43051 = 0xf4"
  "d_mem (fin_net st other) 0x43056 = 0x50" "d_mem (fin_net st other) 0x43057 = 1"
  "d_mem (fin_net st other) 0x43042 = 10" "d_mem (fin_net st other) 0x43043 = 0" "d_mem (fin_net st other) 0x43044 = 0" "d_mem (fin_net st other) 0x43045 = 9"
  "d_mem (fin_net st other) 0x43046 = 10" "d_mem (fin_net st other) 0x43047 = 0" "d_mem (fin_net st other) 0x43048 = 0" "d_mem (fin_net st other) 0x43049 = 2"
  "d_mem (fin_net st other) 0x44008 = 10" "d_mem (fin_net st other) 0x44009 = 0" "d_mem (fin_net st other) 0x4400a = 0" "d_mem (fin_net st other) 0x4400b = 2"
  "d_mem (fin_net st other) 0x4400c = 10" "d_mem (fin_net st other) 0x4400d = 0" "d_mem (fin_net st other) 0x4400e = 0" "d_mem (fin_net st other) 0x4400f = 9"
  by (simp_all add: fin_net_def net_mem_def)

lemma fin_segment:
  "read16 (d_mem (fin_open st other)) (tcp_sport (pb_tcp 0x43000)) = 4000" "read16 (d_mem (fin_open st other)) (tcp_dport (pb_tcp 0x43000)) = 80"
  "seg_seqno (fin_open st other) (pb_tcp 0x43000) = 500" "d_mem (fin_open st other) (tcp_flags (pb_tcp 0x43000)) = TCP_FIN"
  "tcp_len (d_mem (fin_open st other)) (pb_tcp 0x43000) = 5"
  "read32 (d_mem (fin_open st other)) (ip_dst (pb_ip 0x43000)) = 0x200000a" "read32 (d_mem (fin_open st other)) (ip_src (pb_ip 0x43000)) = 0x900000a"
  "read32 (d_mem (fin_open st other)) (tp_laddr 0x44000) = 0x200000a" "read32 (d_mem (fin_open st other)) (tp_raddr 0x44000) = 0x900000a"
  unfolding fin_open_mem seg_seqno_def
  by (simp_all add: host_order_bytes fin_net_bytes address_defs read32_def read16_def tcp_len_def TCP_FIN_def)

lemma fin_open_fields:
  "k_heap (d_k (fin_open st other)) = net_links" "tcb (fin_open st other) = tcb (fin_net st other)"
  "tcp_pcb_active_list (fin_open st other) = 0x40030" "netifs (fin_open st other) = netifs (fin_net st other)"
  by (simp_all add: fin_open_def open_received_def Let_def upd_pbuf_def on_mem_def fin_net_def sample_net_def with_heap_def)

lemma fin_tcb: "tcb (fin_net st other) 0x44000 = net_tcb 80 4000 st" "tp_state (net_tcb lport rport st) = st" "rcv_nxt (net_tcb lport rport st) = 500"
  "rcv_wnd (net_tcb lport rport st) = TCP_WINDOW" "tp_flags (net_tcb lport rport st) = 0" "tp_lport (net_tcb lport rport st) = lport"
  "tp_rport (net_tcb lport rport st) = rport"
  by (simp_all add: fin_net_def net_tcb_def new_tcb_def Let_def)

lemma fin_open_pbuf: "pb_size (pbufs (fin_open st other) 0x43000) = 0" "pb_seqno (pbufs (fin_open st other) 0x43000) = 500"
proof -
  show "pb_size (pbufs (fin_open st other) 0x43000) = 0"
    by (simp add: fin_open_def open_received_def Let_def upd_pbuf_def on_mem_def fin_net_header)
  have "pb_seqno (pbufs (fin_open st other) 0x43000) = seg_seqno (fin_open st other) (pb_tcp 0x43000)"
    by (simp add: fin_open_def open_received_def Let_def upd_pbuf_def on_mem_def seg_seqno_def)
  then show "pb_seqno (pbufs (fin_open st other) 0x43000) = 500" by (simp add: fin_segment)
qed

lemma fin_found: "tcp_find_pcb (fin_open st other) (ip_dst (pb_ip 0x43000)) 80 (ip_src (pb_ip 0x43000)) 4000 = Some 0x44000"
  by (simp add: tcp_find_pcb_def list_find_def get_next_def fin_open_fields net_links_next find_node.simps list_head_def list_tail_def
     tcp_matches_def same_ip_def ip_addr_cmp_def fin_segment fin_tcb)

lemma fin_net_valid: "tcp_validate (fin_open st other) 0x44000 0x43000 (pb_tcp 0x43000) = EOK"
  by (simp add: tcp_validate_def Let_def fin_open_pbuf fin_open_fields fin_tcb tcp_has_def fin_segment TCP_SEQ_GT_def TCP_SEQ_LT_def
      TCP_WINDOW_def TCP_FIN_def TCP_SYN_def)

lemma fin_options:
  "tcp_parse_option (fin_open st other) 0x44000 (pb_tcp 0x43000) =
     Some (EOK, upd_tcb (fin_open st other) 0x44000 (\<lambda>p. p\<lparr>snd_mss := snd_mss (tcb (fin_open st other) 0x44000)\<rparr>))"
  unfolding tcp_parse_option_def by (subst parse_options.simps) (simp add: fin_segment tcp_options_def)

lemma fin_flags: "nf_flags (netifs (fin_net st other) q) = NETIF_TCP_RX_CHECKSUM_OFFLOAD"
  "nf_flags (netifs (upd_pbuf (fin_net st other) p f) q) = NETIF_TCP_RX_CHECKSUM_OFFLOAD"
  by (simp_all add: upd_pbuf_def fin_net_def)

lemma fin_net_input:
  assumes "st = ESTABLISHED \<or> st = CLOSE_WAIT"
  obtains t where "tcp_input sample_net_env (fin_net st other) 0x41000 0x43000 = Some (EOK, t)"
    and "conn_states t = (conn_states (fin_net st other))(0x44000 := CLOSE_WAIT)"
proof -
  define s where "s = upd_tcb (upd_tcb (fin_open st other) 0x44000
    (\<lambda>p. p\<lparr>snd_mss := snd_mss (tcb (fin_open st other) 0x44000)\<rparr>)) 0x44000 restart_keepalive"
  have flags: "d_mem s (tcp_flags (pb_tcp 0x43000)) = TCP_FIN" "tp_state (tcb s 0x44000) = st"
    using fin_segment(4) by (simp_all add: s_def upd_tcb_def fin_open_fields fin_tcb)
  have not_closed: "st \<noteq> CLOSED" using assms by auto
  have "tcp_input sample_net_env (fin_net st other) 0x41000 0x43000
      = tcp_process sample_net_env s 0x44000 0x41000 0x43000 (pb_ip 0x43000) (pb_tcp 0x43000)"
    using not_closed
    by (simp add: tcp_input_def Let_def fin_net_header fin_flags IP_SIZE_def NETIF_TCP_RX_CHECKSUM_OFFLOAD_def TCP_SIZE_def
        fin_open_def [symmetric] fin_segment fin_found fin_net_valid fin_options fin_open_fields fin_tcb tcp_has_def TCP_FIN_def TCP_RST_def s_def)
  also have "\<dots> = Some (EOK, upd_tcb s 0x44000 (\<lambda>p. set_flags TF_ACK_NOW (p\<lparr>tp_state := CLOSE_WAIT, rcv_nxt := seg_seqno s (pb_tcp 0x43000) + 1\<rparr>)))"
    using assms by (auto simp: tcp_process_def flags tcp_has_def TCP_FIN_def TCP_ACK_def)
  finally show ?thesis
    by (rule that) (simp add: conn_states_set [where b = CLOSE_WAIT] s_def, simp add: conn_states_def fin_open_fields fun_eq_iff)
qed

lemma sample_others: "others_keep sample_net_env"
  by (simp add: others_keep_def sample_net_env_def)

lemma fin_states: "conn_states (fin_net st other) p = (if p = 0x44000 then st else other)"
  by (simp add: conn_states_def fin_net_def fin_tcb)

theorem tcp_input_edges_witness:
  "\<exists>t. tcp_input sample_net_env (fin_net ESTABLISHED LISTEN) 0x41000 0x43000 = Some (EOK, t) \<and>
     (\<exists>p. tcp_edge (conn_states (fin_net ESTABLISHED LISTEN) p) (conn_states t p) \<and>
          (\<forall>q. q \<noteq> p \<longrightarrow> conn_states t q = conn_states (fin_net ESTABLISHED LISTEN) q))"
proof -
  let ?s = "fin_net ESTABLISHED LISTEN"
  obtain t where t: "tcp_input sample_net_env ?s 0x41000 0x43000 = Some (EOK, t)" and states: "conn_states t = (conn_states ?s)(0x44000 := CLOSE_WAIT)"
    by (rule fin_net_input [where st = ESTABLISHED]) simp
  have "conn_states t 0x44000 = CLOSE_WAIT" by (simp add: states)
  then have "conn_states t \<noteq> conn_states ?s" "\<forall>n. conn_states t \<noteq> (conn_states ?s)(n := SYN_RCVD)"
    by (auto simp: fin_states split: if_splits)
  then show ?thesis using tcp_input_edges [OF sample_others t] t by blast
qed

theorem no_way_back_witness:
  "\<exists>t. tcp_input sample_net_env (fin_net CLOSE_WAIT LISTEN) 0x41000 0x43000 = Some (EOK, t) \<and>
    past_established (conn_states t 0x44000) \<and> conn_states t 0x45000 = LISTEN"
proof -
  let ?s = "fin_net CLOSE_WAIT LISTEN"
  obtain t where t: "tcp_input sample_net_env ?s 0x41000 0x43000 = Some (EOK, t)"
      "conn_states t = (conn_states ?s)(0x44000 := CLOSE_WAIT)"
    by (rule fin_net_input [where st = CLOSE_WAIT]) simp
  have run: "tcp_run sample_net_env ?s ({} \<union> births (conn_states ?s) (conn_states t)) t"
    by (rule run_segment [OF run_nothing t(1)])
  have "0x44000 \<notin> births (conn_states ?s) (conn_states t)" by (simp add: births_def t(2))
  moreover have "past_established (conn_states t 0x44000) \<or> 0x44000 \<in> {} \<union> births (conn_states ?s) (conn_states t)"
    by (rule no_way_back [OF run sample_others]) (simp add: fin_states past_established_def less_tcp_state_t_def)
  ultimately show ?thesis using t by (auto simp: fin_states)
qed

end
