(* ===== verification/Onix_Pipe.thy ===== *)
theory Onix_Pipe
  imports Onix_Fifo Onix_Process
begin

section \<open>Pipes (src/fs/pipe/pipe.c)\<close>

text \<open>
  A pipe is an inode without a disk: its descriptor is a byte ring on the heap, whose buffer is a page.
  Two files refer to it, one to read from, one to write to. A task that finds the ring empty (or full)
  blocks, and goes on in the state in which it runs again (\<open>dn_others\<close>).

  The ring at an address holds the bytes of its page, in the map \<open>pipes\<close>.
\<close>

record pipesys = vfs +
  pipes :: "u32 \<Rightarrow> fifo_t"

type_synonym 'x pipeenv = "('x pipesys_ext) fsenv"

definition FS_TYPE_PIPE :: u32 where "FS_TYPE_PIPE = 1"
definition FIFO_SIZE :: u32 where "FIFO_SIZE = 16"

definition upd_pipe :: "'x pipesys_scheme \<Rightarrow> u32 \<Rightarrow> fifo_t \<Rightarrow> 'x pipesys_scheme" where
  "upd_pipe s p f = s\<lparr>pipes := (pipes s)(p := f)\<rparr>"

abbreviation pipe_ring :: "'x pipesys_scheme \<Rightarrow> u32 \<Rightarrow> fifo_t" where
  "pipe_ring s inode \<equiv> pipes s (i_desc (inodes s inode))"

definition page_bytes :: "mem \<Rightarrow> u32 \<Rightarrow> u8 list" where
  "page_bytes m a = map (\<lambda>i. m (a + of_nat i)) [0..<unat PAGE_SIZE]"

definition pipe_open :: "'x pipesys_scheme \<Rightarrow> (u32 \<times> 'x pipesys_scheme) option" where
  "pipe_open s = do {
     inode \<leftarrow> get_free_inode s;
     let s = upd_inode s inode (\<lambda>i. i\<lparr>i_dev := - FS_TYPE_PIPE\<rparr>);
     (desc, s) \<leftarrow> p_kmalloc s FIFO_SIZE;
     let s = upd_inode s inode (\<lambda>i. i\<lparr>i_desc := desc\<rparr>);
     (addr, s) \<leftarrow> p_alloc_page s;
     let s = upd_inode s inode (\<lambda>i. i\<lparr>i_buf := addr, i_count := 2, i_type := FS_TYPE_PIPE\<rparr>);
     ops \<leftarrow> fs_get_op s FS_TYPE_PIPE;
     let s = upd_inode s inode (\<lambda>i. i\<lparr>i_op := ops\<rparr>);
     Some (inode, upd_pipe s desc (fifo_init (page_bytes (d_mem s) addr) PAGE_SIZE))
   }"

text \<open>Neither the descriptor nor the buffer nor the operations of the inode are cleared before it is put back.\<close>

definition pipe_close :: "'x pipesys_scheme \<Rightarrow> u32 \<Rightarrow> 'x pipesys_scheme option" where
  "pipe_close s inode =
     (if inode = NULL then Some s
      else do {
        let s = upd_inode s inode (\<lambda>i. i\<lparr>i_count := i_count i - 1\<rparr>);
        if i_count (inodes s inode) \<noteq> 0 then Some s
        else do {
          let s = upd_inode s inode (\<lambda>i. i\<lparr>i_type := FS_TYPE_NONE\<rparr>);
          s \<leftarrow> p_kfree s (i_desc (inodes s inode));
          s \<leftarrow> p_free_page s (i_buf (inodes s inode));
          put_free_inode s inode
        }
      })"

text \<open>The running task blocks; the waiter is the field of the inode it is recorded in.\<close>

definition pipe_block :: "'x pipeenv \<Rightarrow> 'x pipesys_scheme \<Rightarrow> 'x pipesys_scheme option" where
  "pipe_block e s = do {
     s \<leftarrow> on_k s (\<lambda>k. task_block k (running_task k) NULL TASK_BLOCKED TIMELESS);
     dn_others (fs_dev e) s
   }"

partial_function (option) pipe_read_loop ::
  "'x pipeenv \<Rightarrow> 'x pipesys_scheme \<Rightarrow> u32 \<Rightarrow> u32 \<Rightarrow> u32 \<Rightarrow> u32 \<Rightarrow> (u32 \<times> 'x pipesys_scheme) option" where
  "pipe_read_loop e s inode data cnt nr =
     (if \<not> sint nr < sint cnt then Some (nr, s)
      else do {
        let fifo = i_desc (inodes s inode);
        s \<leftarrow> (if fifo_empty (pipes s fifo) then do {
               kassert (i_rxwaiter (inodes s inode) = NULL);
               let task = running_task (d_k s);
               pipe_block e (upd_inode s inode (\<lambda>i. i\<lparr>i_rxwaiter := task\<rparr>))
             } else Some s);
        (byte, f) \<leftarrow> fifo_get (pipes s fifo);
        let s = upd_pipe s fifo f;
        let s = s\<lparr>d_mem := (d_mem s)(data + nr := byte)\<rparr>;
        let w = i_txwaiter (inodes s inode);
        s \<leftarrow> (if w \<noteq> NULL then do {
               s \<leftarrow> on_k s (\<lambda>k. task_unblock k w EOK);
               Some (upd_inode s inode (\<lambda>i. i\<lparr>i_txwaiter := NULL\<rparr>))
             } else Some s);
        pipe_read_loop e s inode data cnt (nr + 1)
      })"

declare pipe_read_loop.simps [code]

definition pipe_read ::
  "'x pipeenv \<Rightarrow> 'x pipesys_scheme \<Rightarrow> u32 \<Rightarrow> u32 \<Rightarrow> u32 \<Rightarrow> u32 \<Rightarrow> (u32 \<times> 'x pipesys_scheme) option" where
  "pipe_read e s inode data cnt offset = pipe_read_loop e s inode data cnt 0"

partial_function (option) pipe_write_loop ::
  "'x pipeenv \<Rightarrow> 'x pipesys_scheme \<Rightarrow> u32 \<Rightarrow> u32 \<Rightarrow> u32 \<Rightarrow> u32 \<Rightarrow> (u32 \<times> 'x pipesys_scheme) option" where
  "pipe_write_loop e s inode data cnt nr =
     (if \<not> sint nr < sint cnt then Some (nr, s)
      else do {
        let fifo = i_desc (inodes s inode);
        full \<leftarrow> fifo_full (pipes s fifo);
        s \<leftarrow> (if full then do {
               kassert (i_txwaiter (inodes s inode) = NULL);
               let task = running_task (d_k s);
               pipe_block e (upd_inode s inode (\<lambda>i. i\<lparr>i_txwaiter := task\<rparr>))
             } else Some s);
        f \<leftarrow> fifo_put (pipes s fifo) (d_mem s (data + nr));
        let s = upd_pipe s fifo f;
        let w = i_rxwaiter (inodes s inode);
        s \<leftarrow> (if w \<noteq> NULL then do {
               s \<leftarrow> on_k s (\<lambda>k. task_unblock k w EOK);
               Some (upd_inode s inode (\<lambda>i. i\<lparr>i_rxwaiter := NULL\<rparr>))
             } else Some s);
        pipe_write_loop e s inode data cnt (nr + 1)
      })"

declare pipe_write_loop.simps [code]

definition pipe_write ::
  "'x pipeenv \<Rightarrow> 'x pipesys_scheme \<Rightarrow> u32 \<Rightarrow> u32 \<Rightarrow> u32 \<Rightarrow> u32 \<Rightarrow> (u32 \<times> 'x pipesys_scheme) option" where
  "pipe_write e s inode data cnt offset = pipe_write_loop e s inode data cnt 0"

text \<open>Both descriptors are put back if one cannot be had; the inode is not. The first may then be an error code.\<close>

definition pipe_rollback :: "'x pipeenv \<Rightarrow> 'x pipesys_scheme \<Rightarrow> u32 \<Rightarrow> (u32 \<times> 'x pipesys_scheme) option" where
  "pipe_rollback e s pipefd = do {
     (_, s) \<leftarrow> fd_put e s (read32 (d_mem s) pipefd);
     (_, s) \<leftarrow> fd_put e s (read32 (d_mem s) (pipefd + 4));
     Some (- EMFILE, s)
   }"

definition sys_pipe :: "'x pipeenv \<Rightarrow> 'x pipesys_scheme \<Rightarrow> u32 \<Rightarrow> (u32 \<times> 'x pipesys_scheme) option" where
  "sys_pipe e s pipefd = do {
     (inode, s) \<leftarrow> pipe_open s;
     (fd0, file0, s) \<leftarrow> fd_get s;
     let s = s\<lparr>d_mem := store32 (d_mem s) pipefd fd0\<rparr>;
     if sint (read32 (d_mem s) pipefd) < sint EOK then pipe_rollback e s pipefd
     else do {
       (fd1, file1, s) \<leftarrow> fd_get s;
       let s = s\<lparr>d_mem := store32 (d_mem s) (pipefd + 4) fd1\<rparr>;
       if sint (read32 (d_mem s) (pipefd + 4)) < sint EOK then pipe_rollback e s pipefd
       else do {
         let s = upd_file s file0 (\<lambda>f. f\<lparr>fl_inode := inode, fl_flags := O_RDONLY\<rparr>);
         let s = upd_file s file1 (\<lambda>f. f\<lparr>fl_inode := inode, fl_flags := O_WRONLY\<rparr>);
         Some (EOK, s)
       }
     }
   }"

text \<open>\<^verbatim>\<open>fs_default_nosys\<close> in the other entries; as the answer of \<^verbatim>\<open>permission\<close> its code is true.\<close>

definition pipe_op :: "'x pipeenv \<Rightarrow> ('x pipesys_ext) fs_op_t" where
  "pipe_op e =
     (let nosys1 = (\<lambda>s a. Some (fs_default_nosys, s)); nosys2 = (\<lambda>s a b. Some (fs_default_nosys, s));
          nosys3 = (\<lambda>s a b c. Some (fs_default_nosys, s)); nosys4 = (\<lambda>s a b c d. Some (fs_default_nosys, s))
      in \<lparr>op_mkfs = nosys2, op_super = nosys2, op_open = (\<lambda>s a b c d result. Some (fs_default_nosys, result, s)),
          op_close = pipe_close, op_ioctl = nosys3, op_read = pipe_read e, op_write = pipe_write e, op_truncate = nosys1,
          op_stat = nosys2, op_permission = (\<lambda>s a b. Some (fs_default_nosys \<noteq> 0, s)),
          op_namei = (\<lambda>s a b next result. Some (fs_default_nosys, next, result, s)), op_mkdir = nosys3, op_rmdir = nosys2,
          op_link = nosys4, op_unlink = nosys2, op_mknod = nosys4, op_readdir = nosys4\<rparr>)"

text \<open>The table is at the address \<open>table\<close>.\<close>

definition pipe_init :: "'x pipesys_scheme \<Rightarrow> u32 \<Rightarrow> 'x pipesys_scheme option" where
  "pipe_init s table = fs_register_op s FS_TYPE_PIPE table"

subsection \<open>A pipe is a queue of bytes\<close>

lemma bytes_at_Suc: "bytes_at m a (Suc n) = m a # bytes_at m (a + 1) n"
  by (simp add: bytes_at_def upt_conv_Cons add.assoc del: upt_Suc flip: map_Suc_upt)

lemma upd_pipe_simps [simp]:
  "inodes (upd_pipe s p f) = inodes s" "d_mem (upd_pipe s p f) = d_mem s" "pipes (upd_pipe s p f) = (pipes s)(p := f)"
  "upd_pipe (upd_pipe s p f) p g = upd_pipe s p g" "upd_pipe s p (pipes s p) = s"
  by (simp_all add: upd_pipe_def)

lemma sint_count: "n < 2147483648 \<Longrightarrow> sint (of_nat n :: u32) = int n"
  by (simp add: sint_small unat_of_nat_small)

lemma pipe_write_loop_appends:
  fixes s :: "'x pipesys_scheme"
  assumes "fifo_ok (pipe_ring s inode)" and "length (fifo_list (pipe_ring s inode)) + k \<le> fifo_cap (pipe_ring s inode)"
    and "i_rxwaiter (inodes s inode) = NULL" and "nr = of_nat j" and "cnt = of_nat (j + k)" and "j + k < 2147483648"
  shows "\<exists>f. pipe_write_loop e s inode data cnt nr = Some (cnt, upd_pipe s (i_desc (inodes s inode)) f) \<and>
    fifo_ok f \<and> fifo_cap f = fifo_cap (pipe_ring s inode) \<and>
    fifo_list f = fifo_list (pipe_ring s inode) @ bytes_at (d_mem s) (data + nr) k"
  using assms
proof (induction k arbitrary: s j nr)
  case 0
  then have "pipe_write_loop e s inode data cnt nr = Some (cnt, s)"
    by (subst pipe_write_loop.simps) simp
  then show ?case
    using 0 by (intro exI [of _ "pipe_ring s inode"]) (simp add: bytes_at_def)
next
  case (Suc k)
  let ?p = "i_desc (inodes s inode)"
  have room: "fifo_count (pipe_ring s inode) \<noteq> fifo_cap (pipe_ring s inode)" using Suc.prems(2) by simp
  obtain f where f: "fifo_put (pipe_ring s inode) (d_mem s (data + nr)) = Some f" "fifo_ok f" "fifo_cap f = fifo_cap (pipe_ring s inode)"
    "fifo_list f = fifo_list (pipe_ring s inode) @ [d_mem s (data + nr)]"
    using fifo_put_list [OF Suc.prems(1), of "d_mem s (data + nr)"] room by auto
  have more: "sint nr < sint cnt"
    unfolding Suc.prems(4,5) using Suc.prems(6) by (simp only: sint_count)
  have full: "fifo_full (pipe_ring s inode) = Some False"
    using room by (simp add: fifo_full_count [OF Suc.prems(1)])
  have step: "pipe_write_loop e s inode data cnt nr = pipe_write_loop e (upd_pipe s ?p f) inode data cnt (nr + 1)"
    by (subst pipe_write_loop.simps) (simp add: more full f(1) Suc.prems(3) Let_def)
  have "\<exists>g. pipe_write_loop e (upd_pipe s ?p f) inode data cnt (nr + 1) = Some (cnt, upd_pipe (upd_pipe s ?p f) ?p g) \<and>
      fifo_ok g \<and> fifo_cap g = fifo_cap f \<and> fifo_list g = fifo_list f @ bytes_at (d_mem s) (data + (nr + 1)) k"
    using Suc.IH [of "upd_pipe s ?p f" "nr + 1" "Suc j"] f Suc.prems by (simp add: add.commute)
  then show ?case
    unfolding step using f(3,4) by (auto simp: bytes_at_Suc add.assoc)
qed

lemma pipe_read_loop_takes:
  fixes s :: "'x pipesys_scheme"
  assumes "fifo_ok (pipe_ring s inode)" and "k \<le> length (fifo_list (pipe_ring s inode))"
    and "i_txwaiter (inodes s inode) = NULL" and "nr = of_nat j" and "cnt = of_nat (j + k)" and "j + k < 2147483648"
  shows "\<exists>f. pipe_read_loop e s inode data cnt nr = Some (cnt, upd_pipe
        (s\<lparr>d_mem := put_bytes (d_mem s) (data + nr) (take k (fifo_list (pipe_ring s inode)))\<rparr>) (i_desc (inodes s inode)) f) \<and>
    fifo_ok f \<and> fifo_list f = drop k (fifo_list (pipe_ring s inode))"
  using assms
proof (induction k arbitrary: s j nr)
  case 0
  then have "pipe_read_loop e s inode data cnt nr = Some (cnt, s)"
    by (subst pipe_read_loop.simps) simp
  then show ?case
    using 0 by (intro exI [of _ "pipe_ring s inode"]) simp
next
  case (Suc k)
  let ?p = "i_desc (inodes s inode)" and ?q = "fifo_list (pipe_ring s inode)"
  obtain b bs where q: "?q = b # bs" using Suc.prems(2) by (cases ?q) (auto simp del: fifo_list_length)
  obtain f where f: "fifo_get (pipe_ring s inode) = Some (b, f)" "fifo_ok f" "fifo_list f = bs"
    using fifo_get_list [OF Suc.prems(1)] q by force
  have more: "sint nr < sint cnt"
    unfolding Suc.prems(4,5) using Suc.prems(6) by (simp only: sint_count)
  have some: "\<not> fifo_empty (pipe_ring s inode)"
    using q by (simp add: fifo_empty_count [OF Suc.prems(1)] flip: fifo_list_length)
  define t where "t = (upd_pipe s ?p f)\<lparr>d_mem := (d_mem s)(data + nr := b)\<rparr>"
  have t: "inodes t = inodes s" "pipes t ?p = f" "d_mem t = (d_mem s)(data + nr := b)"
    by (simp_all add: t_def upd_pipe_def)
  have step: "pipe_read_loop e s inode data cnt nr = pipe_read_loop e t inode data cnt (nr + 1)"
    by (subst pipe_read_loop.simps) (simp add: more some f(1) Suc.prems(3) Let_def t_def upd_pipe_def)
  have "\<exists>g. pipe_read_loop e t inode data cnt (nr + 1) = Some (cnt, upd_pipe
        (t\<lparr>d_mem := put_bytes (d_mem t) (data + (nr + 1)) (take k (fifo_list (pipe_ring t inode)))\<rparr>) ?p g) \<and>
      fifo_ok g \<and> fifo_list g = drop k (fifo_list (pipe_ring t inode))"
    using Suc.IH [of t "nr + 1" "Suc j"] f Suc.prems q by (simp add: t add.commute del: fun_upd_apply)
  then show ?case
    unfolding step using f(3) q by (auto simp: t_def upd_pipe_def add.assoc)
qed

text \<open> C29. A pipe is a first-in, first-out queue of bytes. Let its ring hold the bytes \<open>q\<close> and have room for \<open>n\<close> more. Writing \<open>n\<close>
  bytes from an address and then reading \<open>k\<close> of the bytes there are, with no task waiting at either end, both
  return their counts without blocking: the reader gets, in its memory, the first \<open>k\<close> bytes of \<open>q\<close> followed by the
  written ones, the ring keeps the others in order, and nothing else of the kernel state changes. \<close>

theorem pipe_queue:
  fixes s :: "'x pipesys_scheme"
  assumes "fifo_ok (pipe_ring s inode)" and "fifo_list (pipe_ring s inode) = q" and "length q + n \<le> fifo_cap (pipe_ring s inode)"
    and "k \<le> length q + n" and "i_rxwaiter (inodes s inode) = NULL" and "i_txwaiter (inodes s inode) = NULL"
    and "length q + n < 2147483648"
  shows "\<exists>s1 s2 f. pipe_write e s inode src (of_nat n) off = Some (of_nat n, s1) \<and>
    pipe_read e s1 inode dst (of_nat k) off' = Some (of_nat k, s2) \<and>
    s2 = upd_pipe (s\<lparr>d_mem := put_bytes (d_mem s) dst (take k (q @ bytes_at (d_mem s) src n))\<rparr>) (i_desc (inodes s inode)) f \<and>
    fifo_ok f \<and> fifo_list f = drop k (q @ bytes_at (d_mem s) src n)"
proof -
  let ?p = "i_desc (inodes s inode)"
  obtain g where g: "pipe_write_loop e s inode src (of_nat n) 0 = Some (of_nat n, upd_pipe s ?p g)" "fifo_ok g"
      "fifo_list g = q @ bytes_at (d_mem s) src n"
    using pipe_write_loop_appends [OF assms(1), of n 0 0 "of_nat n" e src] assms by auto
  have k: "k \<le> length (fifo_list g)" unfolding g(3) using assms(4) by (simp add: bytes_at_def)
  obtain f where f: "pipe_read_loop e (upd_pipe s ?p g) inode dst (of_nat k) 0 = Some (of_nat k, upd_pipe
        ((upd_pipe s ?p g)\<lparr>d_mem := put_bytes (d_mem s) dst (take k (fifo_list g))\<rparr>) ?p f)"
      "fifo_ok f" "fifo_list f = drop k (fifo_list g)"
    using pipe_read_loop_takes [of "upd_pipe s ?p g" inode k 0 0 "of_nat k" e dst] g(2) k assms(4,6,7) by auto
  then show ?thesis
    unfolding pipe_write_def pipe_read_def using g by (auto simp: upd_pipe_def)
qed

text \<open> C30. Closing a pipe halts the kernel: when the second of its two files goes, \<^verbatim>\<open>pipe_close\<close> releases the ring and
  the page but leaves their addresses in the inode, and \<^verbatim>\<open>put_free_inode\<close> asserts that the inode holds neither. \<close>

theorem pipe_close_halts:
  assumes "inode \<noteq> NULL" and "i_count (inodes s inode) = 1" and "i_desc (inodes s inode) \<noteq> NULL \<or> i_buf (inodes s inode) \<noteq> NULL"
  shows "pipe_close s inode = None"
proof -
  define t where "t = upd_inode (upd_inode s inode (\<lambda>i. i\<lparr>i_count := i_count i - 1\<rparr>)) inode (\<lambda>i. i\<lparr>i_type := FS_TYPE_NONE\<rparr>)"
  have t: "i_count (inodes t inode) = 0" "i_desc (inodes t inode) = i_desc (inodes s inode)" "i_buf (inodes t inode) = i_buf (inodes s inode)"
    using assms(2) by (simp_all add: t_def upd_inode_def)
  have keep: "inodes v = inodes u" if "p_kfree u a = Some v \<or> p_free_page u a = Some v" for u v :: "'a pipesys_scheme" and a
    using that by (auto simp: p_kfree_def p_free_page_def with_pool_def with_k_def halt_simps)
  have "put_free_inode v inode = None" if "inodes v = inodes t" for v :: "'a pipesys_scheme"
    using that t assms(3) by (auto simp: put_free_inode_def upd_inode_def inode_clear_def Let_def)
  note halts = this
  have close: "pipe_close s inode = do { v \<leftarrow> p_kfree t (i_desc (inodes t inode)); v \<leftarrow> p_free_page v (i_buf (inodes v inode)); put_free_inode v inode }"
    using assms(1,2) by (simp add: pipe_close_def Let_def t_def upd_inode_def)
  show ?thesis
  proof (cases "p_kfree t (i_desc (inodes t inode))")
    case (Some v)
    then have v: "inodes v = inodes t" using keep by blast
    show ?thesis
    proof (cases "p_free_page v (i_buf (inodes v inode))")
      case (Some w)
      then have "inodes w = inodes t" using keep v by metis
      with close \<open>p_kfree t _ = Some v\<close> Some show ?thesis by (simp add: halts)
    qed (use close Some in simp)
  qed (use close in simp)
qed

subsection \<open>Instances\<close>

text \<open>A pipe with a ring of eight bytes, whose other end is closed.\<close>

definition sample_pipe :: pipesys where
  "sample_pipe = (vfs.extend sample_vfs (pipesys.fields (\<lambda>_. fifo_init (replicate 8 0) 8)))
     \<lparr>inodes := (\<lambda>_. zero_inode\<lparr>i_desc := 0x9000, i_buf := 0xa000, i_count := 1\<rparr>), d_mem := put_bytes (\<lambda>_. 0) 0x100 [1, 2, 3]\<rparr>"

theorem pipe_queue_witness:
  "\<forall>e :: unit pipeenv. \<exists>s1 s2. pipe_write e sample_pipe 0x5000 0x100 3 0 = Some (3, s1) \<and> pipe_read e s1 0x5000 0x200 2 0 = Some (2, s2) \<and>
     d_mem s2 0x200 = 1 \<and> d_mem s2 0x201 = 2"
proof
  fix e :: "unit pipeenv"
  have q: "fifo_list (pipe_ring sample_pipe 0x5000) = []" "fifo_ok (pipe_ring sample_pipe 0x5000)" "fifo_cap (pipe_ring sample_pipe 0x5000) = 7"
    by (simp_all add: sample_pipe_def vfs.defs pipesys.defs fifo_list_def fifo_count_def fifo_ok_def fifo_cap_def fifo_init_def)
  have "d_mem sample_pipe = (\<lambda>_. 0)(0x100 := 1, 0x101 := 2, 0x102 := 3)" by (simp add: sample_pipe_def vfs.defs pipesys.defs)
  then have bytes: "take 2 (bytes_at (d_mem sample_pipe) 0x100 3) = [1, 2]" by (simp add: bytes_at_def numeral_3_eq_3 numeral_2_eq_2)
  have "i_rxwaiter (inodes sample_pipe 0x5000) = NULL" "i_txwaiter (inodes sample_pipe 0x5000) = NULL"
    by (simp_all add: sample_pipe_def zero_inode_def vfs.defs pipesys.defs)
  with pipe_queue [OF q(2,1), of 3 2 e "0x100" 0 "0x200" 0] bytes
  show "\<exists>s1 s2. pipe_write e sample_pipe 0x5000 0x100 3 0 = Some (3, s1) \<and> pipe_read e s1 0x5000 0x200 2 0 = Some (2, s2) \<and>
     d_mem s2 0x200 = 1 \<and> d_mem s2 0x201 = 2"
    by (fastforce simp: q)
qed

theorem pipe_close_halts_witness: "pipe_close sample_pipe 0x5000 = None"
  by (rule pipe_close_halts) (simp_all add: sample_pipe_def vfs.defs pipesys.defs)

end
