(* ===== verification/Onix_Exec.thy ===== *)
theory Onix_Exec
  imports Onix_Minix Onix_Process
begin

section \<open>Running a program (src/kernel/execve.c)\<close>

text \<open>
  \<^verbatim>\<open>execve\<close> copies the arguments to the top of the user stack, releases the heap of the old program, reads
  the segments of an ELF file to their addresses, and returns to the entry of the program instead of
  its caller. The headers are read into user memory and stay there while the segments are loaded; the
  code reads their fields anew each time, and so does the model.
\<close>

definition ENOEXEC :: u32 where "ENOEXEC = 8"

text \<open>The fields of the headers at their offsets.\<close>

definition e_type :: "u32 \<Rightarrow> u32" where "e_type p = p + 16"
definition e_machine :: "u32 \<Rightarrow> u32" where "e_machine p = p + 18"
definition e_version :: "u32 \<Rightarrow> u32" where "e_version p = p + 20"
definition e_entry :: "u32 \<Rightarrow> u32" where "e_entry p = p + 24"
definition e_phoff :: "u32 \<Rightarrow> u32" where "e_phoff p = p + 28"
definition e_phentsize :: "u32 \<Rightarrow> u32" where "e_phentsize p = p + 42"
definition e_phnum :: "u32 \<Rightarrow> u32" where "e_phnum p = p + 44"
definition EHDR_SIZE :: u32 where "EHDR_SIZE = 52"

definition p_type :: "u32 \<Rightarrow> u32" where "p_type p = p"
definition p_offset :: "u32 \<Rightarrow> u32" where "p_offset p = p + 4"
definition p_vaddr :: "u32 \<Rightarrow> u32" where "p_vaddr p = p + 8"
definition p_filesz :: "u32 \<Rightarrow> u32" where "p_filesz p = p + 16"
definition p_memsz :: "u32 \<Rightarrow> u32" where "p_memsz p = p + 20"
definition p_flags :: "u32 \<Rightarrow> u32" where "p_flags p = p + 24"
definition p_align :: "u32 \<Rightarrow> u32" where "p_align p = p + 28"
definition PHDR_SIZE :: u32 where "PHDR_SIZE = 32"

definition ET_EXEC :: u16 where "ET_EXEC = 2"
definition EM_386 :: u16 where "EM_386 = 3"
definition EV_CURRENT :: u32 where "EV_CURRENT = 1"
definition PT_LOAD :: u32 where "PT_LOAD = 1"
definition PF_X :: u32 where "PF_X = 1"
definition PF_W :: u32 where "PF_W = 2"
definition PF_R :: u32 where "PF_R = 4"

definition elf_validate :: "mem \<Rightarrow> u32 \<Rightarrow> bool" where
  "elf_validate m ehdr \<longleftrightarrow>
     bytes_at m ehdr 7 = [0x7f, 0x45, 0x4c, 0x46, 1, 1, 1] \<and>
     read16 m (e_type ehdr) = ET_EXEC \<and> read16 m (e_machine ehdr) = EM_386 \<and>
     read32 m (e_version ehdr) = EV_CURRENT \<and> ucast (read16 m (e_phentsize ehdr)) = PHDR_SIZE"

subsection \<open>Segments\<close>

definition exec_link :: "'x psys_scheme \<Rightarrow> u32 \<Rightarrow> 'x psys_scheme option" where
  "exec_link s addr = do { v \<leftarrow> link_page (vm_now s) addr; Some (put_vm s v) }"

fun link_segment :: "'x psys_scheme \<Rightarrow> u32 \<Rightarrow> nat \<Rightarrow> 'x psys_scheme option" where
  "link_segment s addr 0 = Some s"
| "link_segment s addr (Suc n) = do {
     kassert (addr \<ge> USER_EXEC_ADDR \<and> addr < USER_MMAP_ADDR);
     s \<leftarrow> exec_link s addr;
     link_segment s (addr + PAGE_SIZE) n
   }"

fun protect_segment :: "'x psys_scheme \<Rightarrow> u32 \<Rightarrow> nat \<Rightarrow> 'x psys_scheme option" where
  "protect_segment s addr 0 = Some s"
| "protect_segment s addr (Suc n) = do {
     (entry, v) \<leftarrow> get_entry (vm_now s) addr False;
     v \<leftarrow> entry_set v entry 1 False;
     v \<leftarrow> entry_set v entry 11 True;
     protect_segment (put_vm s v) (addr + PAGE_SIZE) n
   }"

definition load_segment :: "'x penv \<Rightarrow> 'x psys_scheme \<Rightarrow> u32 \<Rightarrow> u32 \<Rightarrow> 'x psys_scheme option" where
  "load_segment e s inode phdr = do {
     kassert (read32 (d_mem s) (p_align phdr) = 0x1000);
     kassert (read32 (d_mem s) (p_vaddr phdr) AND 0xfff = 0);
     let vaddr = read32 (d_mem s) (p_vaddr phdr);
     pages \<leftarrow> div_round_up (max (read32 (d_mem s) (p_memsz phdr)) (read32 (d_mem s) (p_filesz phdr))) PAGE_SIZE;
     s \<leftarrow> link_segment s vaddr (unat pages);
     ops \<leftarrow> op_of e s inode;
     (_, s) \<leftarrow> op_read ops s inode vaddr (read32 (d_mem s) (p_filesz phdr)) (read32 (d_mem s) (p_offset phdr));
     let filesz = read32 (d_mem s) (p_filesz phdr);
     let memsz = read32 (d_mem s) (p_memsz phdr);
     let s = (if filesz < memsz then s\<lparr>d_mem := memset (d_mem s) (vaddr + filesz) 0 (memsz - filesz)\<rparr> else s);
     let flags = read32 (d_mem s) (p_flags phdr);
     s \<leftarrow> (if flags AND PF_W = 0 then protect_segment s vaddr (unat pages) else Some s);
     let s = (if flags = PF_R OR PF_X then upd_me s (\<lambda>t. t\<lparr>t_text := vaddr\<rparr>)
              else if flags = PF_R OR PF_W then upd_me s (\<lambda>t. t\<lparr>t_data := vaddr\<rparr>) else s);
     Some (upd_me s (\<lambda>t. t\<lparr>t_end := max (t_end t) (vaddr + pages * PAGE_SIZE)\<rparr>))
   }"

text \<open>\<^verbatim>\<open>continue\<close> skips the step to the next header, too.\<close>

partial_function (option) load_segments ::
  "'x penv \<Rightarrow> 'x psys_scheme \<Rightarrow> u32 \<Rightarrow> u32 \<Rightarrow> u32 \<Rightarrow> u32 \<Rightarrow> 'x psys_scheme option" where
  "load_segments e s inode ehdr ptr i =
     (if \<not> i < ucast (read16 (d_mem s) (e_phnum ehdr)) then Some s
      else if read32 (d_mem s) (p_type ptr) \<noteq> PT_LOAD then load_segments e s inode ehdr ptr (i + 1)
      else do {
        s \<leftarrow> load_segment e s inode ptr;
        load_segments e s inode ehdr (ptr + PHDR_SIZE) (i + 1)
      })"

declare load_segments.simps [code]

text \<open>
  A header of another kind stops the loading: the loop looks at this header again in all rounds that
  are left, and the segments behind it are not loaded.
\<close>

lemma load_segments_stuck:
  assumes "read32 (d_mem s) (p_type ptr) \<noteq> PT_LOAD"
  shows "load_segments e s inode ehdr ptr i = Some s"
proof -
  let ?n = "ucast (read16 (d_mem s) (e_phnum ehdr)) :: u32"
  show ?thesis
  proof (induction "unat ?n - unat i" arbitrary: i)
    case 0
    then have "\<not> i < ?n" by (simp add: word_less_nat_alt)
    then show ?case by (subst load_segments.simps) simp
  next
    case (Suc k)
    then have i: "i < ?n" by (simp add: word_less_nat_alt)
    then have "unat (i + 1) = Suc (unat i)" using unat_u32_bound [of ?n] by (subst unat_plus_small) (simp_all add: word_less_nat_alt)
    then have "load_segments e s inode ehdr ptr (i + 1) = Some s" using Suc.hyps by (intro Suc.hyps(1)) simp
    then show ?case using assms i by (subst load_segments.simps) simp
  qed
qed

definition load_elf :: "'x penv \<Rightarrow> 'x psys_scheme \<Rightarrow> u32 \<Rightarrow> (u32 \<times> 'x psys_scheme) option" where
  "load_elf e s inode = do {
     s \<leftarrow> exec_link s USER_EXEC_ADDR;
     ops \<leftarrow> op_of e s inode;
     (n, s) \<leftarrow> op_read ops s inode USER_EXEC_ADDR EHDR_SIZE 0;
     kassert (n = EHDR_SIZE);
     let ehdr = USER_EXEC_ADDR;
     if \<not> elf_validate (d_mem s) ehdr then Some (EOF, s)
     else do {
       let phdr = ehdr + EHDR_SIZE;
       ops \<leftarrow> op_of e s inode;
       let sz = ucast (read16 (d_mem s) (e_phnum ehdr)) * ucast (read16 (d_mem s) (e_phentsize ehdr));
       (n, s) \<leftarrow> op_read ops s inode phdr sz (read32 (d_mem s) (e_phoff ehdr));
       s \<leftarrow> load_segments e s inode ehdr phdr 0;
       Some (read32 (d_mem s) (e_entry ehdr), s)
     }
   }"

subsection \<open>Arguments\<close>

partial_function (option) count_argv_loop :: "mem \<Rightarrow> u32 \<Rightarrow> u32 \<Rightarrow> u32 option" where
  "count_argv_loop m argv i = (if read32 m (argv + 4 * i) \<noteq> NULL then count_argv_loop m argv (i + 1) else Some i)"

declare count_argv_loop.simps [code]

definition count_argv :: "mem \<Rightarrow> u32 \<Rightarrow> u32 option" where
  "count_argv m argv = (if argv = NULL then Some 0 else count_argv_loop m argv 0)"

text \<open>A string is copied below the two stack tops, the one of the kernel and the one of the user.\<close>

definition push_string :: "mem \<Rightarrow> u32 \<Rightarrow> u32 \<Rightarrow> u32 \<Rightarrow> (mem \<times> u32 \<times> u32) option" where
  "push_string m str ktop utop = do {
     n \<leftarrow> strlen m str;
     let len = n + 1;
     Some (memcpy m (ktop - len) str len, ktop - len, utop - len)
   }"

text \<open>The strings of the array \<open>src\<close>, the last one first; the user addresses go to the array \<open>dst\<close>.\<close>

fun push_strings :: "mem \<Rightarrow> u32 \<Rightarrow> u32 \<Rightarrow> nat \<Rightarrow> u32 \<Rightarrow> u32 \<Rightarrow> (mem \<times> u32 \<times> u32) option" where
  "push_strings m src dst 0 ktop utop = Some (m, ktop, utop)"
| "push_strings m src dst (Suc i) ktop utop = do {
     (m, ktop, utop) \<leftarrow> push_string m (read32 m (src + 4 * of_nat i)) ktop utop;
     push_strings (store32 m (dst + 4 * of_nat i) utop) src dst i ktop utop
   }"

text \<open>
  What is built in the four pages at \<open>pages\<close> and the page at \<open>argvk\<close>, and copied to the user stack: the
  number of arguments, the two arrays, the path, the arguments and the environment.
\<close>

definition copy_strings :: "mem \<Rightarrow> u32 \<Rightarrow> u32 \<Rightarrow> u32 \<Rightarrow> u32 \<Rightarrow> u32 \<Rightarrow> (u32 \<times> mem) option" where
  "copy_strings m filename argv envp pages argvk = do {
     n \<leftarrow> count_argv m argv;
     let argc = n + 1;
     envc \<leftarrow> count_argv m envp;
     let pages_end = pages + 4 * PAGE_SIZE;
     let m = store32 m (argvk + 4 * argc) NULL;
     let envpk = argvk + 4 * (argc + 1);
     let m = store32 m (envpk + 4 * envc) NULL;
     (m, ktop, utop) \<leftarrow> push_strings m envp envpk (unat envc) pages_end USER_STACK_TOP;
     (m, ktop, utop) \<leftarrow> push_strings m argv (argvk + 4) (unat n) ktop utop;
     (m, ktop, utop) \<leftarrow> push_string m filename ktop utop;
     let m = store32 m argvk utop;
     let ktop = ktop - (envc + 1) * 4;
     let m = memcpy m ktop envpk ((envc + 1) * 4);
     let ktop = ktop - (argc + 1) * 4;
     let m = memcpy m ktop argvk ((argc + 1) * 4);
     let ktop = ktop - 4;
     let m = store32 m ktop argc;
     kassert (ktop > pages);
     let len = pages_end - ktop;
     Some (USER_STACK_TOP - len, memcpy m (USER_STACK_TOP - len) ktop len)
   }"

definition alloc_pages :: "'x psys_scheme \<Rightarrow> u32 \<Rightarrow> (u32 \<times> 'x psys_scheme) option" where
  "alloc_pages s n = do { (a, p) \<leftarrow> alloc_kpage (km_pool (k_mem (d_k s))) n; Some (a, with_pool s p) }"

definition release_pages :: "'x psys_scheme \<Rightarrow> u32 \<Rightarrow> u32 \<Rightarrow> 'x psys_scheme option" where
  "release_pages s a n = do { p \<leftarrow> free_kpage (km_pool (k_mem (d_k s))) a n; Some (with_pool s p) }"

definition copy_argv_envp :: "'x psys_scheme \<Rightarrow> u32 \<Rightarrow> u32 \<Rightarrow> u32 \<Rightarrow> (u32 \<times> 'x psys_scheme) option" where
  "copy_argv_envp s filename argv envp = do {
     (pages, s) \<leftarrow> alloc_pages s 4;
     (argvk, s) \<leftarrow> alloc_pages s 1;
     (utop, m) \<leftarrow> copy_strings (d_mem s) filename argv envp pages argvk;
     s \<leftarrow> release_pages (s\<lparr>d_mem := m\<rparr>) argvk 1;
     s \<leftarrow> release_pages s pages 4;
     Some (utop, s)
   }"

subsection \<open>The system call\<close>

text \<open>\<^verbatim>\<open>strncpy(task->name, filename, TASK_NAME_LEN)\<close>; the name is at offset 28 of the task.\<close>

definition set_task_name :: "'x psys_scheme \<Rightarrow> u32 \<Rightarrow> 'x psys_scheme" where
  "set_task_name s filename =
     (let a = running_task (d_k s) + 28; m = snd (strncpy (put_bytes (d_mem s) a (t_name (me s))) a filename (of_nat TASK_NAME_LEN))
      in upd_me s (\<lambda>t. t\<lparr>t_name := bytes_at m a TASK_NAME_LEN\<rparr>))"

definition exec_brk :: "'x psys_scheme \<Rightarrow> u32 \<Rightarrow> 'x psys_scheme option" where
  "exec_brk s brk = do { (_, v, t) \<leftarrow> sys_brk (vm_now s) (me s) brk; Some (upd_me (put_vm s v) (\<lambda>_. t)) }"

definition exec_fails :: "'x penv \<Rightarrow> 'x psys_scheme \<Rightarrow> u32 \<Rightarrow> u32 \<Rightarrow> (u32 option \<times> 'x psys_scheme) option" where
  "exec_fails e s inode ret = do { s \<leftarrow> iput e s inode; Some (Some ret, s) }"

text \<open>The result is None when the call does not return: the frame of the task then leads to the new program.\<close>

definition sys_execve :: "'x penv \<Rightarrow> 'x psys_scheme \<Rightarrow> u32 \<Rightarrow> u32 \<Rightarrow> u32 \<Rightarrow> (u32 option \<times> 'x psys_scheme) option" where
  "sys_execve e s filename argv envp = do {
     (inode, s) \<leftarrow> namei e s filename;
     if inode = NULL then Some (Some (- ENOENT), s)
     else if \<not> ISFILE (i_mode (inodes s inode)) then exec_fails e s inode (- EPERM)
     else do {
       ops \<leftarrow> op_of e s inode;
       (ok, s) \<leftarrow> op_permission ops s inode P_EXEC;
       if \<not> ok then exec_fails e s inode (- EPERM)
       else do {
         let s = set_task_name s filename;
         (top, s) \<leftarrow> copy_argv_envp s filename argv envp;
         s \<leftarrow> exec_brk (upd_me s (\<lambda>t. t\<lparr>t_end := USER_EXEC_ADDR\<rparr>)) USER_EXEC_ADDR;
         (entry, s) \<leftarrow> load_elf e s inode;
         if entry = EOF then exec_fails e s inode (- ENOEXEC)
         else do {
           s \<leftarrow> exec_brk s (t_end (me s));
           s \<leftarrow> iput e s (t_iexec (me s));
           let s = upd_me s (\<lambda>t. t\<lparr>t_iexec := inode\<rparr>);
           let task = running_task (d_k s);
           Some (None, s\<lparr>ps_iframe := (ps_iframe s)(task := (ps_iframe s task)\<lparr>if_edx := 0, if_eip := entry, if_esp := top\<rparr>)\<rparr>)
         }
       }
     }
   }"

end
