(* ===== verification/Onix_Exec_Args.thy ===== *)
theory Onix_Exec_Args
  imports Onix_Exec Onix_Scatter
begin

section \<open>The arguments of a new program\<close>

text \<open>
  What the new program finds at its stack pointer: the number of its arguments, an array with their
  addresses, one with those of the environment, and the strings, for any strings that fit in the four
  pages in which the code puts them together.
\<close>

subsection \<open>Vectors of strings\<close>

text \<open>\<open>arg_vector m p ss\<close>: at \<open>p\<close> there is an array of pointers to the strings \<open>ss\<close> that ends with NULL; a null pointer counts as an empty one.\<close>

definition arg_vector :: "mem \<Rightarrow> u32 \<Rightarrow> u8 list list \<Rightarrow> bool" where
  "arg_vector m p ss \<longleftrightarrow>
     (if p = NULL then ss = []
      else (\<forall>i < length ss. read32 m (p + 4 * of_nat i) \<noteq> NULL \<and> cstr m (read32 m (p + 4 * of_nat i)) (ss ! i)) \<and>
           read32 m (p + 4 * of_nat (length ss)) = NULL)"

definition arg_area :: "mem \<Rightarrow> u32 \<Rightarrow> u8 list list \<Rightarrow> u32 set" where
  "arg_area m p ss =
     (if p = NULL then {}
      else region p (4 * Suc (length ss)) \<union> (\<Union>i < length ss. region (read32 m (p + 4 * of_nat i)) (Suc (length (ss ! i)))))"

text \<open>The strings with their ends, one after the other.\<close>

definition packed :: "u8 list list \<Rightarrow> u8 list" where "packed ss = concat (map (\<lambda>s. s @ [0]) ss)"

lemma packed_simps [simp]: "packed [] = []" "packed (s # ss) = s @ 0 # packed ss" "packed (ss @ rs) = packed ss @ packed rs"
  by (simp_all add: packed_def)

lemma count_argv_value:
  assumes "arg_vector m p ss" and "length ss < 2 ^ 32"
  shows "count_argv m p = Some (of_nat (length ss))"
proof (cases "p = NULL")
  case False
  have "i \<le> length ss \<Longrightarrow> count_argv_loop m p (of_nat i) = Some (of_nat (length ss))" for i
  proof (induction "length ss - i" arbitrary: i)
    case 0
    then show ?case using assms(1) False by (subst count_argv_loop.simps) (simp add: arg_vector_def)
  next
    case (Suc k)
    then have i: "i < length ss" by simp
    then have "read32 m (p + 4 * of_nat i) \<noteq> NULL" using assms(1) False by (simp add: arg_vector_def)
    moreover have "count_argv_loop m p (of_nat (Suc i)) = Some (of_nat (length ss))"
      by (rule Suc.hyps(1)) (use Suc.hyps(2) i in simp_all)
    ultimately show ?case by (subst count_argv_loop.simps) (simp add: add.commute)
  qed
  from this [of 0] show ?thesis using False by (simp add: count_argv_def)
qed (use assms in \<open>simp add: count_argv_def arg_vector_def\<close>)

lemma cstr_fetch: "cstr m p s \<Longrightarrow> fetch m p (Suc (length s)) = s @ [0]"
proof (induction s arbitrary: p)
  case (Cons c s)
  then show ?case using Cons.IH [of "p + 1"] by simp
qed simp

lemma fetch_cstr: "fetch m p (Suc (length s)) = s @ [0] \<Longrightarrow> 0 \<notin> set s \<Longrightarrow> cstr m p s"
proof (induction s arbitrary: p)
  case (Cons c s)
  then show ?case using Cons.IH [of "p + 1"] by simp
qed simp

lemma cstr_nonzero: "cstr m p s \<Longrightarrow> 0 \<notin> set s"
  by (induction s arbitrary: p) auto

subsection \<open>Pushing strings\<close>

lemma push_string_value:
  assumes "cstr m str s" and "L = Suc (length s)" and "L < 2 ^ 32" and "region (ktop - of_nat L) L \<inter> region str L = {}"
  obtains m' where "push_string m str ktop utop = Some (m', ktop - of_nat L, utop - of_nat L)"
    and "fetch m' (ktop - of_nat L) L = s @ [0]" and "\<And>a. a \<notin> region (ktop - of_nat L) L \<Longrightarrow> m' a = m a"
proof -
  have L: "of_nat (length s) + 1 = (of_nat L :: u32)" using assms(2) by simp
  have uL: "unat (of_nat L :: u32) = L" by (rule unat_of_nat_small) (use assms(3) in simp)
  let ?m = "memcpy m (ktop - of_nat L) str (of_nat L)"
  have "push_string m str ktop utop = Some (?m, ktop - of_nat L, utop - of_nat L)"
    unfolding push_string_def strlen_cstr [OF assms(1)] bind.bind_lunit Let_def L ..
  moreover have "fetch ?m (ktop - of_nat L) L = s @ [0]"
    using fetch_memcpy(1) [of "ktop - of_nat L" "of_nat L" str m] cstr_fetch [OF assms(1)] assms(2,4) uL by simp
  moreover have "?m a = m a" if "a \<notin> region (ktop - of_nat L) L" for a
    using fetch_memcpy(2) [of "ktop - of_nat L" "of_nat L" str a m] assms(4) uL that by simp
  ultimately show ?thesis using that by blast
qed

lemma fetch_split: "fetch m p (a + b) = xs @ ys \<Longrightarrow> length xs = a \<Longrightarrow> fetch m p a = xs \<and> fetch m (p + of_nat a) b = ys"
  by (simp add: fetch_add)

lemma push_strings_value:
  assumes "\<And>i. i < length ss \<Longrightarrow> cstr m (read32 m (src + 4 * of_nat i)) (ss ! i) \<and>
      region (read32 m (src + 4 * of_nat i)) (Suc (length (ss ! i))) \<inter> W = {} \<and> region (src + 4 * of_nat i) 4 \<inter> W = {}"
    and "region (ktop - of_nat (length (packed ss))) (length (packed ss)) \<subseteq> W" and "region dst (4 * length ss) \<subseteq> W"
    and "region (ktop - of_nat (length (packed ss))) (length (packed ss)) \<inter> region dst (4 * length ss) = {}"
    and "length (packed ss) < 2 ^ 32" and "4 * length ss < 2 ^ 32"
  shows "\<exists>m'. push_strings m src dst (length ss) ktop utop
      = Some (m', ktop - of_nat (length (packed ss)), utop - of_nat (length (packed ss))) \<and>
    fetch m' (ktop - of_nat (length (packed ss))) (length (packed ss)) = packed ss \<and>
    (\<forall>i < length ss. read32 m' (dst + 4 * of_nat i) = utop - of_nat (length (packed (drop i ss)))) \<and>
    (\<forall>a. a \<notin> region (ktop - of_nat (length (packed ss))) (length (packed ss)) \<union> region dst (4 * length ss) \<longrightarrow> m' a = m a)"
  using assms
proof (induction ss arbitrary: m ktop utop rule: rev_induct)
  case Nil
  then show ?case by simp
next
  case (snoc s ss)
  define n where "n = length ss"
  define L where "L = Suc (length s)"
  define T where "T = length (packed ss)"
  let ?str = "read32 m (src + 4 * of_nat n)" and ?k = "ktop - of_nat L"
  have T: "length (packed (ss @ [s])) = T + L" "ktop - of_nat (T + L) = ?k - of_nat T" "?k - of_nat T + of_nat T = ?k"
    by (simp_all add: T_def L_def)
  have top: "region (?k - of_nat T) (T + L) = region (?k - of_nat T) T \<union> region ?k L"
    using region_add [of "?k - of_nat T" T L] T(3) by simp
  have dst: "region dst (4 * length (ss @ [s])) = region dst (4 * n) \<union> region (dst + 4 * of_nat n) 4"
    using region_add [of dst "4 * n" 4] by (simp add: n_def add.commute)
  note W = snoc.prems(2,3) [unfolded T(1,2) top dst]
  note apart = snoc.prems(4) [unfolded T(1,2) top dst]
  have small: "T + L < 2 ^ 32" "4 * n + 4 < 2 ^ 32" using snoc.prems(5,6) T(1) by (simp_all add: n_def)
  have last: "cstr m ?str s" "region ?str L \<inter> W = {}"
    using snoc.prems(1) [of n] by (simp_all add: n_def L_def nth_append)
  obtain m1 where m1: "push_string m ?str ktop utop = Some (m1, ?k, utop - of_nat L)" "fetch m1 ?k L = s @ [0]"
      "\<And>a. a \<notin> region ?k L \<Longrightarrow> m1 a = m a"
    by (rule push_string_value [OF last(1) L_def, of ktop utop]) (use small last(2) W in auto)
  define m2 where "m2 = store32 m1 (dst + 4 * of_nat n) (utop - of_nat L)"
  have m2: "m2 a = m a" if "a \<notin> W" for a
  proof -
    have "a \<notin> region ?k L" "a \<notin> region (dst + 4 * of_nat n) 4" using that W by blast+
    then show ?thesis by (simp add: m2_def store32_outside m1(3))
  qed
  have W': "region (?k - of_nat T) T \<subseteq> W" "region dst (4 * n) \<subseteq> W" "region (?k - of_nat T) T \<inter> region dst (4 * n) = {}"
    using W apart by auto
  have old: "cstr m2 (read32 m2 (src + 4 * of_nat i)) (ss ! i) \<and>
      region (read32 m2 (src + 4 * of_nat i)) (Suc (length (ss ! i))) \<inter> W = {} \<and> region (src + 4 * of_nat i) 4 \<inter> W = {}"
    if "i < length ss" for i
  proof -
    have i: "cstr m (read32 m (src + 4 * of_nat i)) (ss ! i)" "region (read32 m (src + 4 * of_nat i)) (Suc (length (ss ! i))) \<inter> W = {}"
      "region (src + 4 * of_nat i) 4 \<inter> W = {}"
      using snoc.prems(1) [of i] that by (simp_all add: nth_append)
    then have r: "read32 m2 (src + 4 * of_nat i) = read32 m (src + 4 * of_nat i)" using m2 by (intro read32_cong) auto
    have "cstr m2 (read32 m (src + 4 * of_nat i)) (ss ! i)" by (rule cstr_cong [OF i(1)]) (use i(2) m2 in auto)
    then show ?thesis using i r by simp
  qed
  obtain m' where m': "push_strings m2 src dst n ?k (utop - of_nat L) = Some (m', ?k - of_nat T, utop - of_nat L - of_nat T)"
      "fetch m' (?k - of_nat T) T = packed ss"
      "\<And>i. i < n \<Longrightarrow> read32 m' (dst + 4 * of_nat i) = utop - of_nat L - of_nat (length (packed (drop i ss)))"
      "\<And>a. a \<notin> region (?k - of_nat T) T \<union> region dst (4 * n) \<Longrightarrow> m' a = m2 a"
    using snoc.IH [of m2 ?k "utop - of_nat L", folded n_def T_def, OF old [folded n_def] W'] small by (simp add: n_def) blast
  have run: "push_strings m src dst (length (ss @ [s])) ktop utop = Some (m', ?k - of_nat T, utop - of_nat L - of_nat T)"
    using m1(1) m'(1) by (simp add: m2_def n_def)
  have below: "region (?k - of_nat T) T \<inter> region ?k L = {}"
    using region_next [of T L "?k - of_nat T"] T(3) small by simp
  have entry: "region dst (4 * n) \<inter> region (dst + 4 * of_nat n) 4 = {}"
    using region_next [of "4 * n" 4 dst] small by simp
  have "fetch m' ?k L = fetch m1 ?k L"
  proof (rule fetch_cong)
    fix a assume "a \<in> region ?k L"
    then have "a \<notin> region (?k - of_nat T) T \<union> region dst (4 * n)" "a \<notin> region (dst + 4 * of_nat n) 4" using below apart by blast+
    then show "m' a = m1 a" by (simp add: m'(4) m2_def store32_outside)
  qed
  then have "fetch m' (?k - of_nat T) (T + L) = packed (ss @ [s])"
    using m'(2) m1(2) T(3) by (simp add: fetch_add)
  moreover have "read32 m' (dst + 4 * of_nat i) = utop - of_nat (length (packed (drop i (ss @ [s]))))" if "i < length (ss @ [s])" for i
  proof (cases "i = n")
    case True
    have "read32 m' (dst + 4 * of_nat n) = read32 m2 (dst + 4 * of_nat n)"
      by (rule read32_cong) (use m'(4) entry apart in auto)
    then show ?thesis using True by (simp add: m2_def n_def L_def)
  next
    case False
    then show ?thesis using m'(3) [of i] that by (simp add: n_def L_def)
  qed
  moreover have "m' a = m a" if "a \<notin> region (?k - of_nat T) (T + L) \<union> region dst (4 * length (ss @ [s]))" for a
    using that unfolding top dst by (simp add: m'(4) m2_def store32_outside m1(3))
  ultimately show ?case
    unfolding T(1,2) using run by (simp add: T_def L_def)
qed

subsection \<open>The stack of the new program\<close>

lemma fetch_nth: "i < n \<Longrightarrow> fetch m p n ! i = m (p + of_nat i)"
proof (induction n arbitrary: p i)
  case (Suc n)
  then show ?case using Suc.IH [of "i - 1" "p + 1"] by (cases i) (simp_all add: add.assoc)
qed simp

lemma fetch_part: "fetch m p n = fetch m' p' n \<Longrightarrow> k + l \<le> n \<Longrightarrow> fetch m (p + of_nat k) l = fetch m' (p' + of_nat k) l"
proof -
  assume f: "fetch m p n = fetch m' p' n" and kl: "k + l \<le> n"
  have "take l (drop k (fetch m p n)) = take l (drop k (fetch m' p' n))" by (simp add: f)
  then show ?thesis using kl by (simp add: drop_fetch take_fetch)
qed

lemma read32_fetch: "fetch m p 4 = fetch m' p' 4 \<Longrightarrow> read32 m p = read32 m' p'"
  by (simp add: read32_def read16_def add.assoc)

lemma packed_cstr:
  assumes "fetch m (q - of_nat (length (packed ss))) (length (packed ss)) = packed ss" and "j < length ss" and "0 \<notin> set (ss ! j)"
  shows "cstr m (q - of_nat (length (packed (drop j ss)))) (ss ! j)"
proof -
  let ?a = "packed (take j ss)" and ?b = "ss ! j @ [0]" and ?c = "packed (drop (Suc j) ss)" and ?p = "q - of_nat (length (packed ss))"
  have d: "packed (drop j ss) = ?b @ ?c" using Cons_nth_drop_Suc [OF assms(2)] by (metis append_Cons append_Nil append_assoc packed_simps(2))
  have s: "packed ss = ?a @ packed (drop j ss)" by (metis append_take_drop_id packed_simps(3))
  have "fetch m ?p (length ?a + length (packed (drop j ss))) = ?a @ packed (drop j ss)" using assms(1) by (simp add: s)
  then have "fetch m (?p + of_nat (length ?a)) (length ?b + length ?c) = ?b @ ?c" using fetch_split d by (metis length_append)
  then have "fetch m (?p + of_nat (length ?a)) (length ?b) = ?b" using fetch_split by blast
  moreover have "?p + of_nat (length ?a) = q - of_nat (length (packed (drop j ss)))" unfolding s by simp
  ultimately show ?thesis using fetch_cstr [OF _ assms(3)] by simp
qed

lemma arg_vector_cong:
  assumes "arg_vector m p ss" and "arg_area m p ss \<inter> W = {}" and "\<And>a. a \<notin> W \<Longrightarrow> m' a = m a" and "p \<noteq> NULL" and "i < length ss"
    and "4 * length ss + 4 < 2 ^ 32"
  shows "cstr m' (read32 m' (p + 4 * of_nat i)) (ss ! i) \<and>
      region (read32 m' (p + 4 * of_nat i)) (Suc (length (ss ! i))) \<inter> W = {} \<and> region (p + 4 * of_nat i) 4 \<inter> W = {}"
proof -
  have i: "cstr m (read32 m (p + 4 * of_nat i)) (ss ! i)" using assms(1,4,5) by (simp add: arg_vector_def)
  have r: "region (read32 m (p + 4 * of_nat i)) (Suc (length (ss ! i))) \<inter> W = {}"
    using assms(2,4,5) by (auto simp: arg_area_def)
  have "region p (4 * Suc (length ss)) = region p (4 * i) \<union> region (p + 4 * of_nat i) (4 + 4 * (length ss - i))"
    using region_add [of p "4 * i" "4 + 4 * (length ss - i)"] assms(5) by (simp add: algebra_simps)
  then have e: "region (p + 4 * of_nat i) 4 \<inter> W = {}"
    using assms(2,4) region_add [of "p + 4 * of_nat i" 4 "4 * (length ss - i)"] by (auto simp: arg_area_def)
  have q: "read32 m' (p + 4 * of_nat i) = read32 m (p + 4 * of_nat i)" using e assms(3) by (intro read32_cong) auto
  have "cstr m' (read32 m (p + 4 * of_nat i)) (ss ! i)" by (rule cstr_cong [OF i]) (use r assms(3) in auto)
  then show ?thesis using q r e by simp
qed

text \<open>Four parts that lie one after the other do not overlap.\<close>

lemma parts4:
  assumes "a + b + c + d \<le> 2 ^ 32" and "p1 = p + of_nat a" and "p2 = p1 + of_nat b" and "p3 = p2 + of_nat c"
  shows "region p (a + b + c + d) = region p a \<union> region p1 b \<union> region p2 c \<union> region p3 d"
    and "region p a \<inter> region p1 b = {}" and "region p a \<inter> region p2 c = {}" and "region p a \<inter> region p3 d = {}"
    and "region p1 b \<inter> region p2 c = {}" and "region p1 b \<inter> region p3 d = {}" and "region p2 c \<inter> region p3 d = {}"
proof -
  have r3: "region p2 (c + d) = region p2 c \<union> region p3 d" by (simp add: region_add assms(4))
  have r2: "region p1 (b + (c + d)) = region p1 b \<union> region p2 (c + d)" by (simp add: region_add assms(3))
  have r1: "region p (a + (b + (c + d))) = region p a \<union> region p1 (b + (c + d))" by (simp add: region_add assms(2))
  show "region p (a + b + c + d) = region p a \<union> region p1 b \<union> region p2 c \<union> region p3 d"
    using r1 unfolding r2 r3 by (simp add: add.assoc Un_assoc)
  have "region p a \<inter> region p1 (b + (c + d)) = {}" unfolding assms(2) by (rule region_next) (use assms(1) in simp)
  then show "region p a \<inter> region p1 b = {}" "region p a \<inter> region p2 c = {}" "region p a \<inter> region p3 d = {}" unfolding r2 r3 by blast+
  have "region p1 b \<inter> region p2 (c + d) = {}" unfolding assms(3) by (rule region_next) (use assms(1) in simp)
  then show "region p1 b \<inter> region p2 c = {}" "region p1 b \<inter> region p3 d = {}" unfolding r3 by blast+
  show "region p2 c \<inter> region p3 d = {}" unfolding assms(4) by (rule region_next) (use assms(1) in simp)
qed

text \<open>The two arrays and the number of arguments are put below the strings.\<close>

lemma stack_layout:
  fixes m :: mem and t argvk w :: u32 and d e P :: nat
  defines "k8 \<equiv> t + 4" and "k7 \<equiv> t + 4 + of_nat d" and "k5 \<equiv> t + 4 + of_nat d + of_nat e"
  assumes N: "4 + d + e + P < 2 ^ 32" and A: "region t (4 + d + e + P) \<inter> region argvk (d + e) = {}"
  defines "m7 \<equiv> memcpy m k7 (argvk + of_nat d) (of_nat e)"
  defines "m8 \<equiv> memcpy m7 k8 argvk (of_nat d)"
  defines "m9 \<equiv> store32 m8 t w"
  shows "read32 m9 t = w" and "fetch m9 k8 (d + e) = fetch m argvk (d + e)" and "fetch m9 k5 P = fetch m k5 P"
proof -
  have k: "k8 = t + of_nat 4" "k7 = k8 + of_nat d" "k5 = k7 + of_nat e" by (simp_all add: k8_def k7_def k5_def)
  have N': "4 + d + e + P \<le> 2 ^ 32" using N by simp
  note parts = parts4 [OF N' k]
  have u: "unat (of_nat d :: u32) = d" "unat (of_nat e :: u32) = e" by (rule unat_of_nat_small; use N in simp)+
  have a: "region argvk (d + e) = region argvk d \<union> region (argvk + of_nat d) e" by (rule region_add)
  note apart = A [unfolded parts(1) a]
  have m7: "fetch m7 k7 e = fetch m (argvk + of_nat d) e" "\<And>x. x \<notin> region k7 e \<Longrightarrow> m7 x = m x"
    using fetch_memcpy [of k7 "of_nat e" "argvk + of_nat d"] apart unfolding u m7_def by blast+
  have m8: "fetch m8 k8 d = fetch m7 argvk d" "\<And>x. x \<notin> region k8 d \<Longrightarrow> m8 x = m7 x"
    using fetch_memcpy [of k8 "of_nat d" argvk] apart unfolding u m8_def by blast+
  have m9: "\<And>x. x \<notin> region t 4 \<Longrightarrow> m9 x = m8 x" by (simp add: m9_def store32_outside)
  show "read32 m9 t = w" by (simp add: m9_def)
  have "fetch m9 k8 d = fetch m8 k8 d" by (rule fetch_cong) (use m9 parts(2) in blast)
  also have "\<dots> = fetch m argvk d" unfolding m8(1) by (rule fetch_cong) (use m7(2) apart in blast)
  finally have 1: "fetch m9 k8 d = fetch m argvk d" .
  have "fetch m9 k7 e = fetch m7 k7 e" by (rule fetch_cong) (metis IntI empty_iff m8(2) m9 parts(3,5))
  then show "fetch m9 k8 (d + e) = fetch m argvk (d + e)" using 1 m7(1) by (simp add: fetch_add k(2))
  show "fetch m9 k5 P = fetch m k5 P" by (rule fetch_cong) (metis IntI empty_iff m7(2) m8(2) m9 parts(4,6,7))
qed

lemma region_entry: "i < n \<Longrightarrow> region (p + 4 * of_nat i) 4 \<subseteq> region p (4 * n)"
proof -
  assume i: "i < n"
  then have "region p (4 * n) = region p (4 * i) \<union> region (p + 4 * of_nat i) (4 * (n - i))"
    using region_add [of p "4 * i" "4 * (n - i)"] by (simp add: diff_mult_distrib2)
  moreover have "region (p + 4 * of_nat i) 4 \<subseteq> region (p + 4 * of_nat i) (4 * (n - i))" by (rule region_subset) (use i in simp)
  ultimately show ?thesis by blast
qed

text \<open>The strings of a vector outside \<open>W\<close> are pushed to their place inside \<open>W\<close>.\<close>

lemma push_vector:
  assumes "arg_vector m p ss" and "arg_area m p ss \<inter> W = {}" and "\<And>a. a \<notin> W \<Longrightarrow> m0 a = m a"
    and "region k (length (packed ss)) \<subseteq> W" and "region dst (4 * length ss) \<subseteq> W"
    and "region k (length (packed ss)) \<inter> region dst (4 * length ss) = {}"
    and "length (packed ss) < 2 ^ 32" and "4 * length ss + 4 < 2 ^ 32" and k: "k = ktop - of_nat (length (packed ss))"
  obtains m' where "push_strings m0 p dst (length ss) ktop utop = Some (m', k, utop - of_nat (length (packed ss)))"
    and "fetch m' k (length (packed ss)) = packed ss"
    and "\<And>i. i < length ss \<Longrightarrow> read32 m' (dst + 4 * of_nat i) = utop - of_nat (length (packed (drop i ss)))"
    and "\<And>a. a \<notin> region k (length (packed ss)) \<Longrightarrow> a \<notin> region dst (4 * length ss) \<Longrightarrow> m' a = m0 a"
proof -
  have "cstr m0 (read32 m0 (p + 4 * of_nat i)) (ss ! i) \<and>
      region (read32 m0 (p + 4 * of_nat i)) (Suc (length (ss ! i))) \<inter> W = {} \<and> region (p + 4 * of_nat i) 4 \<inter> W = {}"
    if "i < length ss" for i
    by (rule arg_vector_cong [OF assms(1-3)]) (use assms(1,8) that in \<open>auto simp: arg_vector_def\<close>)
  from push_strings_value [of ss m0 p W ktop dst utop, OF this] show thesis
    using assms(4-8) that unfolding k [symmetric] by auto
qed

text \<open>What the four pages and the page of the arrays hold before the arrays are copied.\<close>

lemma gathered:
  fixes argvk pe TOP :: u32 and "as" es :: "u8 list list" and fs :: "u8 list"
  defines "n \<equiv> length as" and "c \<equiv> length es" and "S \<equiv> length (packed as)" and "E \<equiv> length (packed es)" and "F \<equiv> Suc (length fs)"
  defines "x1 \<equiv> argvk + 4" and "x2 \<equiv> argvk + 4 + of_nat (4 * n)"
  defines "x3 \<equiv> x2 + 4" and "kE \<equiv> pe - of_nat E"
  defines "x4 \<equiv> x3 + of_nat (4 * c)" and "kS \<equiv> kE - of_nat S"
  defines "kF \<equiv> kS - of_nat F"
  assumes src: "arg_vector m argv as" "arg_vector m envp es" "cstr m filename fs"
    and free: "(arg_area m argv as \<union> arg_area m envp es \<union> region filename F) \<inter> (K \<union> A) = {}" and KA: "K \<inter> A = {}"
    and K: "region kF (F + S + E) \<subseteq> K" and A: "region argvk (4 * (n + c + 3)) \<subseteq> A"
    and small: "F + S + E < 2 ^ 32" "4 * (n + c + 3) < 2 ^ 32"
  defines "m2 \<equiv> store32 (store32 m x2 NULL) x4 NULL"
  obtains m3 m4 m5 where "push_strings m2 envp x3 c pe TOP = Some (m3, kE, TOP - of_nat E)"
    and "push_strings m3 argv x1 n kE (TOP - of_nat E) = Some (m4, kS, TOP - of_nat E - of_nat S)"
    and "push_string m4 filename kS (TOP - of_nat E - of_nat S) = Some (m5, kF, TOP - of_nat E - of_nat S - of_nat F)"
    and "fetch m5 kF (F + S + E) = packed (fs # as @ es)"
    and "\<And>i. i < n \<Longrightarrow> read32 m5 (x1 + 4 * of_nat i) = TOP - of_nat E - of_nat (length (packed (drop i as)))" and "read32 m5 x2 = NULL"
    and "\<And>i. i < c \<Longrightarrow> read32 m5 (x3 + 4 * of_nat i) = TOP - of_nat (length (packed (drop i es)))" and "read32 m5 x4 = NULL"
proof -
  define W where "W = K \<union> A"
  have ks: "kS = kF + of_nat F" "kE = kS + of_nat S" by (simp_all add: kF_def kS_def)
  have "F + S + E + 0 \<le> 2 ^ 32" using small by simp
  note kp = parts4 [OF this ks(1) ks(2) refl]
  have xs: "x1 = argvk + of_nat 4" "x2 = x1 + of_nat (4 * n)" "x3 = x2 + of_nat 4" by (simp_all add: x1_def x2_def x3_def)
  have "4 + 4 * n + 4 + (4 * c + 4) \<le> 2 ^ 32" using small by simp
  note xp = parts4 [OF this xs]
  have x4: "region x3 (4 * c + 4) = region x3 (4 * c) \<union> region x4 4" by (simp add: region_add x4_def)
  have x34: "region x3 (4 * c) \<inter> region x4 4 = {}" unfolding x4_def by (rule region_next) (use small in simp)
  have len: "4 * (n + c + 3) = 4 + 4 * n + 4 + (4 * c + 4)" by simp
  have kr: "region kF (F + S + E) = region kF F \<union> region kS S \<union> region kE E" using kp(1) by simp
  note K' = K [unfolded kr]
  note A' = A [unfolded len xp(1) x4]
  have "region kF F \<subseteq> W" "region kS S \<subseteq> W" "region kE E \<subseteq> W" using K' by (auto simp: W_def)
  note kW = this
  have "region x1 (4 * n) \<subseteq> W" "region x2 4 \<subseteq> W" "region x3 (4 * c) \<subseteq> W" "region x4 4 \<subseteq> W" using A' by (auto simp: W_def)
  note xW = this
  have "region kF F \<inter> region x1 (4 * n) = {}" "region kF F \<inter> region x2 4 = {}" "region kF F \<inter> region x3 (4 * c) = {}" "region kF F \<inter> region x4 4 = {}"
    "region kS S \<inter> region x1 (4 * n) = {}" "region kS S \<inter> region x2 4 = {}" "region kS S \<inter> region x3 (4 * c) = {}" "region kS S \<inter> region x4 4 = {}"
    "region kE E \<inter> region x1 (4 * n) = {}" "region kE E \<inter> region x2 4 = {}" "region kE E \<inter> region x3 (4 * c) = {}" "region kE E \<inter> region x4 4 = {}"
    using K' A' KA by blast+
  note kx = this
  have xx: "region x1 (4 * n) \<inter> region x2 4 = {}" "region x1 (4 * n) \<inter> region x3 (4 * c) = {}" "region x1 (4 * n) \<inter> region x4 4 = {}"
      "region x2 4 \<inter> region x3 (4 * c) = {}" "region x2 4 \<inter> region x4 4 = {}"
    using xp(5-7) unfolding x4 by blast+
  have m2: "m2 x = m x" if "x \<notin> W" for x
  proof -
    have "x \<notin> region x2 4" "x \<notin> region x4 4" using that xW by blast+
    then show ?thesis by (simp add: m2_def store32_outside)
  qed
  have freeW: "arg_area m argv as \<inter> W = {}" "arg_area m envp es \<inter> W = {}" "region filename F \<inter> W = {}"
    using free by (auto simp: W_def)
  have l: "length (packed es) < 2 ^ 32" "4 * length es + 4 < 2 ^ 32" "length (packed as) < 2 ^ 32" "4 * length as + 4 < 2 ^ 32"
    using small by (simp_all add: E_def S_def n_def c_def)
  obtain m3 where m3: "push_strings m2 envp x3 c pe TOP = Some (m3, kE, TOP - of_nat E)" "fetch m3 kE E = packed es"
      "\<And>i. i < c \<Longrightarrow> read32 m3 (x3 + 4 * of_nat i) = TOP - of_nat (length (packed (drop i es)))"
      "\<And>a. a \<notin> region kE E \<Longrightarrow> a \<notin> region x3 (4 * c) \<Longrightarrow> m3 a = m2 a"
    by (rule push_vector [OF src(2) freeW(2) m2, of kE x3 pe TOP, folded E_def c_def])
      (use kW xW kx l in \<open>simp_all add: E_def c_def kE_def\<close>)
  have m3W: "m3 x = m x" if "x \<notin> W" for x
  proof -
    have "x \<notin> region kE E" "x \<notin> region x3 (4 * c)" using that kW xW by blast+
    then show ?thesis using m3(4) m2 that by simp
  qed
  obtain m4 where m4: "push_strings m3 argv x1 n kE (TOP - of_nat E) = Some (m4, kS, TOP - of_nat E - of_nat S)" "fetch m4 kS S = packed as"
      "\<And>i. i < n \<Longrightarrow> read32 m4 (x1 + 4 * of_nat i) = TOP - of_nat E - of_nat (length (packed (drop i as)))"
      "\<And>a. a \<notin> region kS S \<Longrightarrow> a \<notin> region x1 (4 * n) \<Longrightarrow> m4 a = m3 a"
    by (rule push_vector [OF src(1) freeW(1) m3W, of kS x1 kE "TOP - of_nat E", folded S_def n_def])
      (use kW xW kx l in \<open>simp_all add: S_def n_def kS_def\<close>)
  have m4W: "m4 x = m x" if "x \<notin> W" for x
  proof -
    have "x \<notin> region kS S" "x \<notin> region x1 (4 * n)" using that kW xW by blast+
    then show ?thesis using m4(4) m3W that by simp
  qed
  have "cstr m4 filename fs" by (rule cstr_cong [OF src(3)]) (use freeW(3) m4W in \<open>auto simp: F_def\<close>)
  then obtain m5 where m5: "push_string m4 filename kS (TOP - of_nat E - of_nat S) = Some (m5, kF, TOP - of_nat E - of_nat S - of_nat F)"
      "fetch m5 kF F = fs @ [0]" "\<And>a. a \<notin> region kF F \<Longrightarrow> m5 a = m4 a"
    by (rule push_string_value [of m4 filename fs F kS "TOP - of_nat E - of_nat S", folded kF_def]) (use F_def small freeW(3) kW in auto)
  have m5S: "fetch m5 kS S = packed as"
    using fetch_cong [of kS S m5 m4] m4(2) m5(3) kp(2) by (metis IntI empty_iff)
  have m5E: "fetch m5 kE E = packed es"
    using fetch_cong [of kE E m5 m3] m3(2) m5(3) m4(4) kp(3,5) kx(9) by (metis IntI empty_iff)
  have "fetch m5 kF (F + S + E) = (fs @ [0]) @ packed as @ packed es"
    using m5(2) m5S m5E ks by (simp only: fetch_add of_nat_add add.assoc [symmetric] append_assoc)
  then have strs: "fetch m5 kF (F + S + E) = packed (fs # as @ es)" by simp
  have outside: "read32 m5 p = read32 m2 p"
    if "region kF F \<inter> region p 4 = {}" "region kS S \<inter> region p 4 = {}" "region kE E \<inter> region p 4 = {}"
      "region x1 (4 * n) \<inter> region p 4 = {}" "region x3 (4 * c) \<inter> region p 4 = {}" for p
  proof (rule read32_cong)
    fix a assume "a \<in> region p 4"
    then have "a \<notin> region kF F" "a \<notin> region kS S" "a \<notin> region kE E" "a \<notin> region x1 (4 * n)" "a \<notin> region x3 (4 * c)"
      using that by blast+
    then show "m5 a = m2 a" using m5(3) m4(4) m3(4) by simp
  qed
  show thesis
  proof (rule that [OF m3(1) m4(1) m5(1) strs])
    show "read32 m5 (x1 + 4 * of_nat i) = TOP - of_nat E - of_nat (length (packed (drop i as)))" if "i < n" for i
      unfolding m4(3) [OF that, symmetric] by (rule read32_cong) (use region_entry [OF that, of x1] kx(1) m5(3) in blast)
    show "read32 m5 (x3 + 4 * of_nat i) = TOP - of_nat (length (packed (drop i es)))" if "i < c" for i
    proof -
      have "m5 a = m3 a" if "a \<in> region (x3 + 4 * of_nat i) 4" for a
      proof -
        have "a \<notin> region kF F" "a \<notin> region kS S" "a \<notin> region x1 (4 * n)"
          using region_entry [OF \<open>i < c\<close>, of x3] that kx(3,7) xx(2) by blast+
        then show ?thesis using m5(3) m4(4) by simp
      qed
      then show ?thesis unfolding m3(3) [OF that, symmetric] by (rule read32_cong)
    qed
    have "read32 m2 x2 = read32 (store32 m x2 NULL) x2"
      by (rule read32_cong) (use xx(5) in \<open>auto simp: m2_def intro: store32_outside\<close>)
    moreover have "read32 m5 x2 = read32 m2 x2" by (rule outside) (use kx xx in \<open>simp_all add: Int_commute\<close>)
    ultimately show "read32 m5 x2 = NULL" by simp
    have "read32 m5 x4 = read32 m2 x4" by (rule outside) (use kx xx x34 in simp_all)
    then show "read32 m5 x4 = NULL" by (simp add: m2_def)
  qed
qed

lemma slot: "fetch m p n = fetch m' p' n \<Longrightarrow> k + 4 \<le> n \<Longrightarrow> read32 m (p + of_nat k) = read32 m' (p' + of_nat k)"
  by (rule read32_fetch, rule fetch_part)

lemma arg_vectorI:
  assumes "p \<noteq> NULL" and "\<And>i. i < length ss \<Longrightarrow> read32 m (p + of_nat (4 * i)) = q - of_nat (length (packed (drop i ss)))"
    and "read32 m (p + of_nat (4 * length ss)) = NULL" and "fetch m (q - of_nat (length (packed ss))) (length (packed ss)) = packed ss"
    and "\<forall>s \<in> set ss. 0 \<notin> set s" and "length (packed ss) < unat q"
  shows "arg_vector m p ss"
proof -
  have "read32 m (p + 4 * of_nat i) \<noteq> NULL \<and> cstr m (read32 m (p + 4 * of_nat i)) (ss ! i)" if "i < length ss" for i
  proof
    have r: "read32 m (p + 4 * of_nat i) = q - of_nat (length (packed (drop i ss)))" using assms(2) [OF that] by simp
    have "length (packed (drop i ss)) \<le> length (packed ss)"
      using arg_cong [OF packed_simps(3) [of "take i ss" "drop i ss"], of length] by simp
    then have le: "length (packed (drop i ss)) < unat q" using assms(6) by simp
    then have "unat (of_nat (length (packed (drop i ss))) :: u32) = length (packed (drop i ss))"
      by (intro unat_of_nat_small) (use unat_u32_bound [of q] in simp)
    then have "of_nat (length (packed (drop i ss))) \<noteq> q" using le by (metis less_irrefl)
    then show "read32 m (p + 4 * of_nat i) \<noteq> NULL" unfolding r by simp
    show "cstr m (read32 m (p + 4 * of_nat i)) (ss ! i)"
      unfolding r by (rule packed_cstr [OF assms(4) that]) (use assms(5) that in simp)
  qed
  then show ?thesis using assms(1,3) by (simp add: arg_vector_def)
qed

text \<open>The size of what is put on the user stack.\<close>

definition exec_stack :: "u8 list list \<Rightarrow> u8 list list \<Rightarrow> nat" where
  "exec_stack args envs = 4 + 4 * Suc (length args) + 4 * Suc (length envs) + length (packed args) + length (packed envs)"

lemma copy_strings_steps:
  fixes argvk pages :: u32 and xs es :: "u8 list list" and fs :: "u8 list"
  defines "n \<equiv> length xs" and "c \<equiv> length es" and "S \<equiv> length (packed xs)" and "E \<equiv> length (packed es)" and "F \<equiv> Suc (length fs)"
  defines "pe \<equiv> pages + 16384" and "N \<equiv> exec_stack (fs # xs) es"
  defines "x1 \<equiv> argvk + 4" and "x2 \<equiv> argvk + 4 + of_nat (4 * n)"
  defines "x3 \<equiv> x2 + 4" and "kE \<equiv> pe - of_nat E"
  defines "x4 \<equiv> x3 + of_nat (4 * c)" and "kS \<equiv> kE - of_nat S"
  defines "kF \<equiv> kS - of_nat F"
  defines "t \<equiv> pe - of_nat N"
  assumes counts: "count_argv m argv = Some (of_nat n)" "count_argv m envp = Some (of_nat c)" "n < 2 ^ 32" "c < 2 ^ 32"
    and ps: "push_strings (store32 (store32 m x2 NULL) x4 NULL) envp x3 c pe USER_STACK_TOP = Some (m3, kE, u3)"
      "push_strings m3 argv x1 n kE u3 = Some (m4, kS, u4)" "push_string m4 filename kS u4 = Some (m5, kF, u5)"
    and t: "t > pages"
  shows "copy_strings m filename argv envp pages argvk = Some (USER_STACK_TOP - of_nat N,
    memcpy (store32 (memcpy (memcpy (store32 m5 argvk u5) (t + 4 + of_nat (4 * (n + 2))) (argvk + of_nat (4 * (n + 2))) (of_nat (4 * (c + 1))))
      (t + 4) argvk (of_nat (4 * (n + 2)))) t (of_nat n + 1)) (USER_STACK_TOP - of_nat N) t (of_nat N))"
proof -
  have u: "unat (of_nat n :: u32) = n" "unat (of_nat c :: u32) = c" using counts(3,4) by (intro unat_of_nat_small; simp)+
  have a: "pages + 4 * PAGE_SIZE = pe" "argvk + 4 * (of_nat n + 1) = x2" "argvk + 4 * (of_nat n + 1 + 1) = x3"
    "x3 + 4 * of_nat c = x4" "argvk + 4 = x1"
    by (simp_all add: pe_def PAGE_SIZE_def x1_def x2_def x3_def x4_def algebra_simps)
  have b: "(of_nat c + 1) * 4 = (of_nat (4 * (c + 1)) :: u32)" "(of_nat n + 1 + 1) * 4 = (of_nat (4 * (n + 2)) :: u32)"
    by (simp_all add: algebra_simps)
  have N: "N = 4 + 4 * (n + 2) + 4 * (c + 1) + F + S + E"
    by (simp add: N_def exec_stack_def n_def c_def S_def E_def F_def)
  have k: "kF - of_nat (4 * (c + 1)) = t + 4 + of_nat (4 * (n + 2))" "t + 4 + of_nat (4 * (n + 2)) - of_nat (4 * (n + 2)) = t + 4"
    "t + 4 - 4 = t" "pe - t = of_nat N"
    by (simp_all add: t_def N kF_def kS_def kE_def algebra_simps)
  have x: "x3 = argvk + of_nat (4 * (n + 2))" by (simp add: x3_def x2_def algebra_simps)
  show ?thesis
    unfolding copy_strings_def counts bind.bind_lunit Let_def a u ps prod.case b k x [symmetric]
    by (simp add: t)
qed

lemma arg_vector_nonzero: "arg_vector m p ss \<Longrightarrow> \<forall>s \<in> set ss. 0 \<notin> set s"
  unfolding arg_vector_def all_set_conv_all_nth by (auto split: if_splits dest: cstr_nonzero)

text \<open>What is read on the user stack once everything is copied there.\<close>

lemma stack_read:
  fixes argvk t :: u32 and "as" es :: "u8 list list" and fs :: "u8 list" and m5 :: mem
  defines "n \<equiv> length as" and "c \<equiv> length es" and "E \<equiv> length (packed es)" and "P \<equiv> length (packed (fs # as @ es))"
  defines "d \<equiv> 4 * (n + 2)" and "e \<equiv> 4 * (c + 1)"
  defines "N \<equiv> 4 + d + e + P" and "TOP \<equiv> USER_STACK_TOP"
  defines "sp \<equiv> TOP - of_nat N"
  assumes strs: "fetch m5 (t + 4 + of_nat d + of_nat e) P = packed (fs # as @ es)"
    and slots: "\<And>i. i < n \<Longrightarrow> read32 m5 (argvk + 4 + 4 * of_nat i) = TOP - of_nat E - of_nat (length (packed (drop i as)))"
      "read32 m5 (argvk + 4 + of_nat (4 * n)) = NULL"
      "\<And>i. i < c \<Longrightarrow> read32 m5 (argvk + 4 + of_nat (4 * n) + 4 + 4 * of_nat i) = TOP - of_nat (length (packed (drop i es)))"
      "read32 m5 (argvk + 4 + of_nat (4 * n) + 4 + of_nat (4 * c)) = NULL"
    and A: "region t N \<inter> region argvk (d + e) = {}" and U: "region sp N \<inter> region t N = {}" and N: "N < 16384"
    and nz: "\<forall>s \<in> set (fs # as). 0 \<notin> set s" "\<forall>s \<in> set es. 0 \<notin> set s"
  defines "m6 \<equiv> store32 m5 argvk (TOP - of_nat P)"
  defines "m9 \<equiv> store32 (memcpy (memcpy m6 (t + 4 + of_nat d) (argvk + of_nat d) (of_nat e)) (t + 4) argvk (of_nat d)) t (of_nat n + 1)"
  defines "m' \<equiv> memcpy m9 sp t (of_nat N)"
  shows "read32 m' sp = of_nat (Suc n)" and "arg_vector m' (sp + 4) (fs # as)" and "arg_vector m' (sp + 4 + of_nat d) es"
proof -
  have N32: "4 + d + e + P < 2 ^ 32" using N by (simp add: N_def)
  note L = stack_layout [OF N32 A [unfolded N_def], of m6 "of_nat n + 1", folded m9_def]
  have uN: "unat (of_nat N :: u32) = N" by (rule unat_of_nat_small) (use N in simp)
  have m': "fetch m' sp N = fetch m9 t N"
    using fetch_memcpy(1) [of sp "of_nat N" t m9] U unfolding uN m'_def by simp
  have first: "region argvk 4 \<inter> region (argvk + of_nat 4) (d + e - 4) = {}" by (rule region_next) (use N32 in simp)
  have above: "read32 m6 (argvk + of_nat (4 * i)) = read32 m5 (argvk + of_nat (4 * i))" if "i < n + c + 3" "i \<noteq> 0" for i
  proof (rule read32_cong)
    fix a assume a: "a \<in> region (argvk + of_nat (4 * i)) 4"
    have len: "d + e - 4 = 4 * (n + c + 2)" by (simp add: d_def e_def)
    have sub: "region (argvk + of_nat 4 + 4 * of_nat (i - 1)) 4 \<subseteq> region (argvk + of_nat 4) (d + e - 4)"
      unfolding len by (rule region_entry) (use that in simp)
    have "argvk + of_nat 4 + 4 * of_nat (i - 1) = argvk + of_nat (4 * i)" using that(2) by (cases i) simp_all
    then have "a \<in> region (argvk + of_nat 4) (d + e - 4)" using sub a by (simp only:) (rule subsetD)
    then have "a \<notin> region argvk 4" using first by blast
    then show "m6 a = m5 a" by (simp add: m6_def store32_outside)
  qed
  have slot': "read32 m' (sp + 4 + of_nat (4 * i)) = read32 m6 (argvk + of_nat (4 * i))" if "i < n + c + 3" for i
  proof -
    have "read32 m' (sp + of_nat (4 + 4 * i)) = read32 m9 (t + of_nat (4 + 4 * i))"
      by (rule slot [OF m']) (use that in \<open>simp add: N_def d_def e_def\<close>)
    also have "\<dots> = read32 m9 (t + 4 + of_nat (4 * i))" by (simp add: add.assoc)
    also have "\<dots> = read32 m6 (argvk + of_nat (4 * i))" by (rule slot [OF L(2)]) (use that in \<open>simp add: d_def e_def\<close>)
    finally show ?thesis by (simp add: add.assoc)
  qed
  show "read32 m' sp = of_nat (Suc n)" using slot [OF m', of 0] L(1) by (simp add: N_def)
  have "fetch m6 (t + 4 + of_nat d + of_nat e) P = fetch m5 (t + 4 + of_nat d + of_nat e) P"
  proof (rule fetch_cong)
    fix a assume "a \<in> region (t + 4 + of_nat d + of_nat e) P"
    moreover have "t + 4 + of_nat d + of_nat e = t + of_nat (4 + d + e)" by simp
    ultimately have "a \<in> region t N" using region_tail [of "4 + d + e" N t] by (auto simp: N_def)
    moreover have "region argvk 4 \<subseteq> region argvk (d + e)" by (rule region_subset) (simp add: d_def)
    ultimately show "m6 a = m5 a" using A by (simp add: m6_def) (metis IntI empty_iff store32_outside subsetD)
  qed
  moreover have "fetch m' (sp + of_nat (4 + d + e)) P = fetch m9 (t + of_nat (4 + d + e)) P"
    by (rule fetch_part [OF m']) (simp add: N_def)
  ultimately have all: "fetch m' (TOP - of_nat P) P = packed (fs # as @ es)"
    using L(3) strs by (simp add: sp_def N_def add.assoc [symmetric])
  have P: "P = length (packed (fs # as)) + E" by (simp add: P_def E_def)
  have "fetch m' (TOP - of_nat P) (length (packed (fs # as)) + E) = packed (fs # as) @ packed es"
    using all unfolding P by simp
  note parts = fetch_split [OF this refl]
  have pos: "sp + of_nat j \<noteq> 0" if "j \<le> N" for j
  proof -
    have "sp + of_nat j = of_nat (0x0FFFC000 + (16384 - N) + j)"
      using N by (simp add: sp_def TOP_def USER_STACK_TOP_def of_nat_diff)
    moreover have "unat (of_nat (0x0FFFC000 + (16384 - N) + j) :: u32) = 0x0FFFC000 + (16384 - N) + j"
      by (rule unat_of_nat_small) (use N that in simp)
    ultimately show ?thesis by (metis add_is_0 unat_0 zero_neq_numeral)
  qed
  have E: "E < 16384" "length (packed (fs # as)) < 16384" using N by (simp_all add: N_def P)
  have "unat (TOP - of_nat E) = 0x10000000 - E"
  proof -
    have "TOP - of_nat E = of_nat (0x10000000 - E)" using E by (simp add: TOP_def USER_STACK_TOP_def of_nat_diff)
    then show ?thesis by (simp only:) (rule unat_of_nat_small, simp)
  qed
  note uE = this
  show "arg_vector m' (sp + 4) (fs # as)"
  proof (rule arg_vectorI [where q = "TOP - of_nat E"])
    show "sp + 4 \<noteq> NULL" using pos [of 4] by (simp add: N_def)
    show "read32 m' (sp + 4 + of_nat (4 * i)) = TOP - of_nat E - of_nat (length (packed (drop i (fs # as))))" if "i < length (fs # as)" for i
    proof (cases i)
      case 0
      then show ?thesis using slot' [of 0] by (simp add: m6_def P algebra_simps)
    next
      case (Suc j)
      then show ?thesis using slot' [of i] above [of i] slots(1) [of j] that by (simp add: n_def add.assoc)
    qed
    show "read32 m' (sp + 4 + of_nat (4 * length (fs # as))) = NULL"
      using slot' [of "Suc n"] above [of "Suc n"] slots(2) by (simp add: n_def add.assoc)
    have "TOP - of_nat E - of_nat (length (packed (fs # as))) = TOP - of_nat P" unfolding P by simp
    then show "fetch m' (TOP - of_nat E - of_nat (length (packed (fs # as)))) (length (packed (fs # as))) = packed (fs # as)"
      using parts by (simp only:)
    show "length (packed (fs # as)) < unat (TOP - of_nat E)" using uE E by simp
  qed (use nz in auto)
  have p2: "sp + 4 + of_nat d + of_nat (4 * i) = sp + 4 + of_nat (4 * (n + 2 + i))" for i by (simp add: d_def)
  have a2: "argvk + of_nat (4 * (n + 2 + i)) = argvk + 4 + of_nat (4 * n) + 4 + 4 * of_nat i" for i by simp
  show "arg_vector m' (sp + 4 + of_nat d) es"
  proof (rule arg_vectorI [where q = TOP])
    show "sp + 4 + of_nat d \<noteq> NULL" using pos [of "4 + d"] by (simp add: N_def add.assoc)
    show "read32 m' (sp + 4 + of_nat d + of_nat (4 * i)) = TOP - of_nat (length (packed (drop i es)))" if "i < length es" for i
      unfolding p2 using slot' [of "n + 2 + i"] above [of "n + 2 + i"] slots(3) [of i] that unfolding a2 by (simp add: c_def)
    show "read32 m' (sp + 4 + of_nat d + of_nat (4 * length es)) = NULL"
      unfolding p2 using slot' [of "n + 2 + c"] above [of "n + 2 + c"] slots(4) unfolding a2 by (simp add: c_def)
    have "TOP - of_nat P + of_nat (length (packed (fs # as))) = TOP - of_nat E" unfolding P by simp
    then show "fetch m' (TOP - of_nat (length (packed es))) (length (packed es)) = packed es"
      using parts unfolding E_def by (simp only:)
    show "length (packed es) < unat TOP" using E by (simp add: E_def TOP_def USER_STACK_TOP_def)
  qed (use nz in auto)
qed

text \<open>C28. The stack of a new program. Take any arguments, environment and path that lie outside the pages in
  which the code gathers them, with no more than 1021 pointers and less than the four pages in all. Then
  \<^verbatim>\<open>copy_argv_envp\<close> passes its assertion, and at the stack pointer that it returns the program finds the number
  of its arguments, the path among them, then a vector that holds the path and the arguments and ends with
  NULL, then a vector with the environment, and every pointer leads to its string on the user stack.\<close>

theorem exec_arguments:
  fixes m :: mem and filename argv envp pages argvk :: u32 and "as" es :: "u8 list list" and fs :: "u8 list"
  assumes src: "arg_vector m argv as" "arg_vector m envp es" "cstr m filename fs"
    and free: "(arg_area m argv as \<union> arg_area m envp es \<union> region filename (Suc (length fs))) \<inter> (region pages 16384 \<union> region argvk 4096) = {}"
    and KA: "region pages 16384 \<inter> region argvk 4096 = {}" and below: "unat pages + 16384 \<le> 0x0FFFC000"
    and small: "length as + length es + 3 \<le> 1024" "exec_stack (fs # as) es < 16384"
  shows "\<exists>sp m'. copy_strings m filename argv envp pages argvk = Some (sp, m') \<and>
    sp = USER_STACK_TOP - of_nat (exec_stack (fs # as) es) \<and>
    read32 m' sp = of_nat (Suc (length as)) \<and> arg_vector m' (sp + 4) (fs # as) \<and>
    arg_vector m' (sp + 4 + of_nat (4 * (length as + 2))) es"
proof -
  define n c S E F N where n: "n = length as" and c: "c = length es" and S: "S = length (packed as)" and E: "E = length (packed es)"
    and F: "F = Suc (length fs)" and N: "N = exec_stack (fs # as) es"
  define P d e where P: "P = length (packed (fs # as @ es))" and d: "d = 4 * (n + 2)" and e: "e = 4 * (c + 1)"
  define pe t where "pe = pages + 16384" and t: "t = pe - of_nat N"
  have PF: "P = F + S + E" by (simp add: P F S E)
  have Nsum: "N = 4 + d + e + P" by (simp add: N exec_stack_def n c d e P)
  have N4: "N < 16384" using small(2) by (simp add: N)
  have te: "t = pages + of_nat (16384 - N)" using N4 by (simp add: t pe_def of_nat_diff)
  have uN: "unat (of_nat (16384 - N) :: u32) = 16384 - N" by (rule unat_of_nat_small) simp
  have ut: "unat t = unat pages + (16384 - N)"
    unfolding te using uN below by (subst unat_plus_small) simp_all
  have tp: "t > pages" using N4 by (simp add: word_less_nat_alt ut)
  have kF: "pe - of_nat E - of_nat S - of_nat F = t + of_nat (4 + d + e)"
    by (simp add: t Nsum PF)
  have tK: "region t N \<subseteq> region pages 16384"
    unfolding te using region_tail [of "16384 - N" 16384 pages] N4 by simp
  have FK: "region (pe - of_nat E - of_nat S - of_nat F) (F + S + E) \<subseteq> region pages 16384"
    unfolding kF PF [symmetric] using region_tail [of "4 + d + e" N t] tK by (simp add: Nsum del: of_nat_add)
  have A: "region argvk (4 * (n + c + 3)) \<subseteq> region argvk 4096" by (rule region_subset) (use small(1) in \<open>simp add: n c\<close>)
  have lens: "F + S + E < 2 ^ 32" "4 * (n + c + 3) < 2 ^ 32" "n < 2 ^ 32" "c < 2 ^ 32"
    using N4 small(1) by (simp_all add: Nsum PF n c)
  obtain m3 m4 m5 where push: "push_strings (store32 (store32 m (argvk + 4 + of_nat (4 * n)) NULL) (argvk + 4 + of_nat (4 * n) + 4 + of_nat (4 * c)) NULL)
        envp (argvk + 4 + of_nat (4 * n) + 4) c pe USER_STACK_TOP = Some (m3, pe - of_nat E, USER_STACK_TOP - of_nat E)"
      "push_strings m3 argv (argvk + 4) n (pe - of_nat E) (USER_STACK_TOP - of_nat E) = Some (m4, pe - of_nat E - of_nat S, USER_STACK_TOP - of_nat E - of_nat S)"
      "push_string m4 filename (pe - of_nat E - of_nat S) (USER_STACK_TOP - of_nat E - of_nat S)
        = Some (m5, pe - of_nat E - of_nat S - of_nat F, USER_STACK_TOP - of_nat E - of_nat S - of_nat F)"
    and strs: "fetch m5 (pe - of_nat E - of_nat S - of_nat F) (F + S + E) = packed (fs # as @ es)"
    and slots: "\<And>i. i < n \<Longrightarrow> read32 m5 (argvk + 4 + 4 * of_nat i) = USER_STACK_TOP - of_nat E - of_nat (length (packed (drop i as)))"
      "read32 m5 (argvk + 4 + of_nat (4 * n)) = NULL"
      "\<And>i. i < c \<Longrightarrow> read32 m5 (argvk + 4 + of_nat (4 * n) + 4 + 4 * of_nat i) = USER_STACK_TOP - of_nat (length (packed (drop i es)))"
      "read32 m5 (argvk + 4 + of_nat (4 * n) + 4 + of_nat (4 * c)) = NULL"
    by (rule gathered [OF src free KA, folded F S E n c, OF FK A lens(1,2), of USER_STACK_TOP])
      (rule that; assumption)
  note run = copy_strings_steps [where xs = "as" and es = es and fs = fs and pages = pages, folded n c S E F N pe_def, folded t,
      OF count_argv_value [OF src(1), folded n, OF lens(3)] count_argv_value [OF src(2), folded c, OF lens(4)] lens(3,4) push tp]
  have u5: "USER_STACK_TOP - of_nat E - of_nat S - of_nat F = USER_STACK_TOP - of_nat P" by (simp add: PF)
  define sp where "sp = USER_STACK_TOP - of_nat N"
  have at5: "fetch m5 (t + 4 + of_nat d + of_nat e) P = packed (fs # as @ es)"
    using strs unfolding kF PF [symmetric] by (simp add: add.assoc)
  have over: "region t N \<inter> region argvk (d + e) = {}"
  proof -
    have "region argvk (d + e) \<subseteq> region argvk 4096" by (rule region_subset) (use small(1) in \<open>simp add: d e n c\<close>)
    then show ?thesis using tK KA by blast
  qed
  have "sp = 0x0FFFC000 + of_nat (16384 - N)" using N4 by (simp add: sp_def USER_STACK_TOP_def of_nat_diff)
  then have "unat sp = 0x0FFFC000 + (16384 - N)" using uN by (simp add: unat_plus_small)
  then have away: "region sp N \<inter> region t N = {}"
    using region_apart [of t N sp N] ut below N4 by (simp add: Int_commute)
  have nz: "\<forall>s \<in> set (fs # as). 0 \<notin> set s" "\<forall>s \<in> set es. 0 \<notin> set s"
    using arg_vector_nonzero [OF src(1)] arg_vector_nonzero [OF src(2)] cstr_nonzero [OF src(3)] by simp_all
  note final = stack_read [of m5 t "as" es fs argvk, folded n c E P, folded d e, folded Nsum, folded sp_def,
    OF at5 slots over away N4 nz]
  show ?thesis
    unfolding N [symmetric] n [symmetric] sp_def [symmetric] d [symmetric]
    using run final unfolding u5 d [symmetric] e [symmetric] sp_def [symmetric] by blast
qed

text \<open>The command \<open>/ls -l\<close> with one variable.\<close>

definition args_mem :: mem where
  "args_mem = (\<lambda>_. 0)(0x8001 := 0x81, 0x8011 := 0x83, 0x8100 := 45, 0x8101 := 108,
     0x8200 := 47, 0x8201 := 108, 0x8202 := 115, 0x8300 := 65, 0x8301 := 61, 0x8302 := 49)"

lemma args_mem_vectors:
  "arg_vector args_mem 0x8000 [[45, 108]]" "arg_vector args_mem 0x8010 [[65, 61, 49]]" "cstr args_mem 0x8200 [47, 108, 115]"
  "arg_area args_mem 0x8000 [[45, 108]] = region 0x8000 8 \<union> region 0x8100 (Suc (length [45, 108 :: u8]))"
  "arg_area args_mem 0x8010 [[65, 61, 49]] = region 0x8010 8 \<union> region 0x8300 (Suc (length [65, 61, 49 :: u8]))"
  by (simp_all add: args_mem_def arg_vector_def arg_area_def read32_def read16_def lessThan_Suc)

lemma exec_arguments_witness:
  "\<exists>m'. copy_strings args_mem 0x8200 0x8000 0x8010 0x1000 0x6000 = Some (USER_STACK_TOP - 35, m') \<and>
    read32 m' (USER_STACK_TOP - 35) = 2 \<and> arg_vector m' (USER_STACK_TOP - 31) [[47, 108, 115], [45, 108]] \<and>
    arg_vector m' (USER_STACK_TOP - 19) [[65, 61, 49]]"
proof -
  have apart: "region p k \<inter> (region 0x1000 16384 \<union> region 0x6000 4096) = {}" if "0x8000 \<le> unat p" "unat p + k \<le> 2 ^ 32" for p k
    using region_apart [of "0x1000" 16384 p k] region_apart [of "0x6000" 4096 p k] that by auto
  have "region 0x1000 16384 \<inter> region 0x6000 4096 = {}" by (rule region_apart) simp_all
  moreover have "(arg_area args_mem 0x8000 [[45, 108]] \<union> arg_area args_mem 0x8010 [[65, 61, 49]] \<union> region 0x8200 (Suc (length [47, 108, 115::u8]))) \<inter>
      (region 0x1000 16384 \<union> region 0x6000 4096) = {}"
    unfolding args_mem_vectors(4,5) Int_Un_distrib2 by (simp only: apart Un_empty) (simp add: apart)
  ultimately show ?thesis
    using exec_arguments [where pages = "0x1000" and argvk = "0x6000", OF args_mem_vectors(1-3)] by (simp add: exec_stack_def) 
qed

end
