(* ===== verification/Onix_Iso.thy ===== *)
theory Onix_Iso
  imports Onix_Time Onix_Minix
begin

section \<open>The ISO 9660 file system (src/fs/iso9660/iso9660.c)\<close>

text \<open>
  A read-only file system. A directory record is given by the address of its first byte in the data of
  the buffer that holds its block, and the inode keeps that address and that buffer; the fields are loads
  at their offsets, as they are in the volume descriptor.
\<close>

definition ISO_BLOCK_SIZE :: u32 where "ISO_BLOCK_SIZE = 2048"
definition ISO_VD_PRIMARY :: u8 where "ISO_VD_PRIMARY = 1"
definition ISO_FLAG_SUBDIR :: u8 where "ISO_FLAG_SUBDIR = 2"
definition MAX_DENTRY_SIZE :: u32 where "MAX_DENTRY_SIZE = 256"
definition FS_TYPE_ISO9660 :: u32 where "FS_TYPE_ISO9660 = 4"
definition EROFS :: u32 where "EROFS = 30"
definition MAXNAMELEN :: u32 where "MAXNAMELEN = 64"
definition IROTH :: u16 where "IROTH = 4"
definition IXOTH :: u16 where "IXOTH = 1"

definition de_length :: "mem \<Rightarrow> u32 \<Rightarrow> u8" where "de_length m p = m p"
definition de_lba :: "mem \<Rightarrow> u32 \<Rightarrow> u32" where "de_lba m p = read32 m (p + 2)"
definition de_size :: "mem \<Rightarrow> u32 \<Rightarrow> u32" where "de_size m p = read32 m (p + 10)"
definition de_date :: "u32 \<Rightarrow> u32" where "de_date p = p + 18"
definition de_flags :: "mem \<Rightarrow> u32 \<Rightarrow> u8" where "de_flags m p = m (p + 25)"
definition de_namelen :: "mem \<Rightarrow> u32 \<Rightarrow> u8" where "de_namelen m p = m (p + 32)"
definition de_name :: "u32 \<Rightarrow> u32" where "de_name p = p + 33"

definition vd_type :: "mem \<Rightarrow> u32 \<Rightarrow> u8" where "vd_type m p = m p"
definition vd_id :: "u32 \<Rightarrow> u32" where "vd_id p = p + 1"
definition vd_logical_block_size :: "mem \<Rightarrow> u32 \<Rightarrow> u16" where "vd_logical_block_size m p = read16 m (p + 128)"
definition vd_root :: "u32 \<Rightarrow> u32" where "vd_root p = p + 156"

text \<open>The seventh byte is read as a \<^verbatim>\<open>char\<close>; \<^verbatim>\<open>mktime\<close> reads no other field of the structure.\<close>

definition iso_make_datetime :: "mem \<Rightarrow> u32 \<Rightarrow> u32 option" where
  "iso_make_datetime m data =
     mktime \<lparr>tm_sec = ucast (m (data + 5)), tm_min = ucast (m (data + 4)) + (scast (m (data + 6)) - 48) * 15,
       tm_hour = ucast (m (data + 3)), tm_mday = ucast (m (data + 2)), tm_mon = ucast (m (data + 1)), tm_year = ucast (m data),
       tm_wday = 0, tm_yday = 0, tm_isdst = 0\<rparr>"

subsection \<open>Names\<close>

definition iso_namelen :: "mem \<Rightarrow> u32 \<Rightarrow> u32 \<Rightarrow> u32" where
  "iso_namelen m name len =
     (let len = (if sint len > 1 \<and> m (name + len - 2) = 59 then len - 2 else len)
      in if sint len > 0 \<and> m (name + len - 1) = 46 then len - 1 else len)"

fun upper_match :: "mem \<Rightarrow> u32 \<Rightarrow> u32 \<Rightarrow> nat \<Rightarrow> bool" where
  "upper_match m name1 name2 0 \<longleftrightarrow> True"
| "upper_match m name1 name2 (Suc len1) \<longleftrightarrow>
     toupper (m name1) = m name2 \<and> upper_match m (name1 + 1) (name2 + 1) len1"

definition iso_match_name :: "mem \<Rightarrow> u32 \<Rightarrow> u32 \<Rightarrow> u32 \<Rightarrow> u32 \<Rightarrow> bool" where
  "iso_match_name m name1 len1 name2 len2 \<longleftrightarrow>
     (if len2 = 1 \<and> m name2 = 0 \<and> match_name m name1 (literal [46]) 2 \<noteq> None then True
      else if len2 = 1 \<and> m name2 = 1 \<and> match_name m name1 (literal [46, 46]) 3 \<noteq> None then True
      else let len2 = iso_namelen m name2 len2
        in len1 = len2 \<and> upper_match m name1 name2 (unat len1))"

partial_function (option) name_end :: "mem \<Rightarrow> u32 \<Rightarrow> u32 option" where
  "name_end m ptr = (if m ptr \<noteq> 0 \<and> \<not> IS_SEPARATOR (m ptr) then name_end m (ptr + 1) else Some ptr)"

declare name_end.simps [code]

definition namelen :: "mem \<Rightarrow> u32 \<Rightarrow> (u32 \<times> u32) option" where
  "namelen m name = do {
     ptr \<leftarrow> name_end m name;
     Some (ptr - name, if IS_SEPARATOR (m ptr) then ptr + 1 else ptr)
   }"

subsection \<open>Directories\<close>

definition iso_buf :: "'x fsenv \<Rightarrow> 'x vfs_scheme \<Rightarrow> u32 \<Rightarrow> u32 \<Rightarrow> u32 \<Rightarrow> (u32 \<times> 'x vfs_scheme) option" where
  "iso_buf e s dev bno sz = do {
     (buf, s) \<leftarrow> bread (fs_dev e) s dev bno sz;
     kassert (buf \<noteq> NULL);
     Some (buf, s)
   }"

text \<open>
  \<open>left\<close> goes down with the blocks that end in an empty record only. The result is the buffer and the
  record, or NULL.
\<close>

definition iso_block ::
  "'x fsenv \<Rightarrow> 'x vfs_scheme \<Rightarrow> u32 \<Rightarrow> u32 \<Rightarrow> u32 \<Rightarrow> u32 \<Rightarrow> (u32 \<times> u32 \<times> u32 \<times> 'x vfs_scheme) option" where
  "iso_block e s dirino lba buf ptr =
     (if buf = NULL \<or> ptr \<ge> bf_data (buffers s buf) + ISO_BLOCK_SIZE
      then do {
        s \<leftarrow> put_buf e s buf;
        (buf, s) \<leftarrow> iso_buf e s (i_dev (inodes s dirino)) lba ISO_BLOCK_SIZE;
        Some (lba + 1, buf, bf_data (buffers s buf), s)
      }
      else Some (lba, buf, ptr, s))"

partial_function (option) iso_find_loop ::
  "'x fsenv \<Rightarrow> 'x vfs_scheme \<Rightarrow> u32 \<Rightarrow> u32 \<Rightarrow> u32 \<Rightarrow> u32 \<Rightarrow> u32 \<Rightarrow> u32 \<Rightarrow> u32 \<Rightarrow> (u32 \<times> u32 \<times> 'x vfs_scheme) option" where
  "iso_find_loop e s dirino name len1 lba buf ptr left =
     (if \<not> sint left > 0 then do { s \<leftarrow> put_buf e s buf; Some (NULL, NULL, s) }
      else do {
        (lba, buf, ptr, s) \<leftarrow> iso_block e s dirino lba buf ptr;
        if de_length (d_mem s) ptr = 0
        then iso_find_loop e s dirino name len1 lba buf (bf_data (buffers s buf) + ISO_BLOCK_SIZE) (left - ISO_BLOCK_SIZE)
        else if iso_match_name (d_mem s) name len1 (de_name ptr) (ucast (de_namelen (d_mem s) ptr)) then Some (buf, ptr, s)
        else iso_find_loop e s dirino name len1 lba buf (ptr + ucast (de_length (d_mem s) ptr)) left
      })"

definition iso_find_entry :: "'x fsenv \<Rightarrow> 'x vfs_scheme \<Rightarrow> u32 \<Rightarrow> u32 \<Rightarrow> (u32 \<times> u32 \<times> u32 \<times> 'x vfs_scheme) option" where
  "iso_find_entry e s dirino name = do {
     let desc = i_desc (inodes s dirino);
     (len1, nxt) \<leftarrow> namelen (d_mem s) name;
     (buf, entry, s) \<leftarrow> iso_find_loop e s dirino name len1 (de_lba (d_mem s) desc) NULL NULL (de_size (d_mem s) desc);
     Some (buf, nxt, entry, s)
   }"

subsection \<open>Inodes\<close>

definition iso_make_mode :: "mem \<Rightarrow> u32 \<Rightarrow> u16" where
  "iso_make_mode m entry =
     (let mode = IXOTH OR IROTH;
          mode = mode OR push_bit 3 (IXOTH OR IROTH);
          mode = mode OR push_bit 6 (IXOTH OR IROTH);
          mode = (if de_flags m entry AND ISO_FLAG_SUBDIR \<noteq> 0 then mode OR IFDIR else mode)
      in if de_flags m entry = 0 then mode OR IFREG else mode)"

definition iso_make_inode :: "'x fsenv \<Rightarrow> 'x vfs_scheme \<Rightarrow> u32 \<Rightarrow> u32 \<Rightarrow> (u32 \<times> 'x vfs_scheme) option" where
  "iso_make_inode e s super entry = do {
     let task = me s;
     inode \<leftarrow> get_free_inode s;
     let m = d_mem s;
     ops \<leftarrow> fs_get_op s FS_TYPE_ISO9660;
     t \<leftarrow> iso_make_datetime m (de_date entry);
     let s = upd_inode s inode (\<lambda>i. i\<lparr>i_count := i_count i + 1, i_dev := s_dev (supers s super), i_nr := de_lba m entry,
               i_super := super, i_op := ops, i_ctime := t, i_mtime := t, i_atime := now e s, i_mode := iso_make_mode m entry,
               i_uid := t_uid task, i_gid := t_gid task, i_size := de_size m entry, i_type := FS_TYPE_ISO9660\<rparr>);
     s \<leftarrow> on_heap s (\<lambda>h. list_push h (inode_list super) inode);
     Some (inode, s)
   }"

definition iso_super :: "'x fsenv \<Rightarrow> 'x vfs_scheme \<Rightarrow> u32 \<Rightarrow> u32 \<Rightarrow> (u32 \<times> 'x vfs_scheme) option" where
  "iso_super e s dev super = do {
     (buf, s) \<leftarrow> bread (fs_dev e) s dev 0x10 ISO_BLOCK_SIZE;
     if buf = NULL then Some (- EFSUNK, s)
     else do {
       let desc = bf_data (buffers s buf);
       if vd_type (d_mem s) desc \<noteq> ISO_VD_PRIMARY then do { s \<leftarrow> put_buf e s buf; Some (- EFSUNK, s) }
       else do {
         kassert (bytes_at (d_mem s) (vd_id desc) 5 = [0x43, 0x44, 0x30, 0x30, 0x31]);
         let s = upd_super s super (\<lambda>p. p\<lparr>s_desc := desc, s_buf := buf, s_sector_size := ISO_BLOCK_SIZE,
                   s_block_size := ISO_BLOCK_SIZE, s_type := FS_TYPE_ISO9660, s_dev := dev\<rparr>);
         (inode, s) \<leftarrow> iso_make_inode e s super (vd_root desc);
         let s = upd_inode s inode (\<lambda>i. i\<lparr>i_buf := buf\<rparr>);
         let s = upd_buffer s buf (\<lambda>b. b\<lparr>bf_count := bf_count b + 1\<rparr>);
         let s = upd_inode s inode (\<lambda>i. i\<lparr>i_desc := vd_root desc\<rparr>);
         let s = upd_super s super (\<lambda>p. p\<lparr>s_iroot := inode\<rparr>);
         kassert (ucast (vd_logical_block_size (d_mem s) desc) = ISO_BLOCK_SIZE);
         Some (EOK, s)
       }
     }
   }"

definition iso_permission :: "u32 \<Rightarrow> u32 \<Rightarrow> bool" where
  "iso_permission inode want \<longleftrightarrow> 5 AND want AND 7 = want"

text \<open>The buffer is not released when the inode exists; otherwise it stays with the new inode.\<close>

definition iso_namei ::
  "'x fsenv \<Rightarrow> 'x vfs_scheme \<Rightarrow> u32 \<Rightarrow> u32 \<Rightarrow> u32 \<Rightarrow> u32 \<Rightarrow> (u32 \<times> u32 \<times> u32 \<times> 'x vfs_scheme) option" where
  "iso_namei e s dirino name nxt result = do {
     (buf, nxt, entry, s) \<leftarrow> iso_find_entry e s dirino name;
     if buf = NULL then Some (- ENOENT, nxt, result, s)
     else do {
       inode \<leftarrow> find_inode s (bf_dev (buffers s buf)) (de_lba (d_mem s) entry);
       if inode \<noteq> NULL then do {
         let s = upd_inode s inode (\<lambda>i. i\<lparr>i_count := i_count i + 1, i_atime := now e s\<rparr>);
         (inode, s) \<leftarrow> fit_inode e s inode;
         Some (EOK, nxt, inode, s)
       }
       else do {
         (inode, s) \<leftarrow> iso_make_inode e s (i_super (inodes s dirino)) entry;
         let s = upd_inode s inode (\<lambda>i. i\<lparr>i_desc := entry, i_buf := buf\<rparr>);
         (inode, s) \<leftarrow> fit_inode e s inode;
         Some (EOK, nxt, inode, s)
       }
     }
   }"

definition iso_open ::
  "'x fsenv \<Rightarrow> 'x vfs_scheme \<Rightarrow> u32 \<Rightarrow> u32 \<Rightarrow> u32 \<Rightarrow> u32 \<Rightarrow> u32 \<Rightarrow> (u32 \<times> u32 \<times> 'x vfs_scheme) option" where
  "iso_open e s dirino name flags mode result =
     (if flags \<noteq> O_RDONLY then Some (- EROFS, result, s)
      else do {
        (ret, _, inode, s) \<leftarrow> iso_namei e s dirino name NULL NULL;
        if sint ret < 0 then Some (ret, result, s)
        else Some (EOK, inode, upd_inode s inode (\<lambda>i. i\<lparr>i_atime := now e s\<rparr>))
      })"

definition iso_close :: "'x fsenv \<Rightarrow> 'x vfs_scheme \<Rightarrow> u32 \<Rightarrow> 'x vfs_scheme option" where
  "iso_close e s inode = do {
     let s = upd_inode s inode (\<lambda>i. i\<lparr>i_count := i_count i - 1\<rparr>);
     if i_count (inodes s inode) \<noteq> 0 then Some s
     else do {
       s \<leftarrow> put_buf e s (i_buf (inodes s inode));
       s \<leftarrow> on_heap s (\<lambda>h. list_remove h inode);
       let s = upd_inode s inode (\<lambda>i. i\<lparr>i_buf := NULL, i_desc := NULL, i_super := NULL, i_op := NULL\<rparr>);
       put_free_inode s inode
     }
   }"

subsection \<open>Reading\<close>

partial_function (option) iso_read_loop ::
  "'x fsenv \<Rightarrow> 'x vfs_scheme \<Rightarrow> u32 \<Rightarrow> u32 \<Rightarrow> u32 \<Rightarrow> u32 \<Rightarrow> u32 \<Rightarrow> u32 \<Rightarrow> (u32 \<times> 'x vfs_scheme) option" where
  "iso_read_loop e s inode lba bs data offset left =
     (if left = 0 then Some (offset, s)
      else do {
        kassert (bs \<noteq> 0);
        (buf, s) \<leftarrow> iso_buf e s (i_dev (inodes s inode)) (lba + offset div bs) bs;
        let start = offset mod bs;
        let chars = min (bs - start) left;
        let s = upd_mem s (\<lambda>m. memcpy m data (bf_data (buffers s buf) + start) chars);
        (ret, s) \<leftarrow> brelse (fs_dev e) s buf;
        kassert (ret = EOK);
        iso_read_loop e s inode lba bs (data + chars) (offset + chars) (left - chars)
      })"

definition iso_read :: "'x fsenv \<Rightarrow> 'x vfs_scheme \<Rightarrow> u32 \<Rightarrow> u32 \<Rightarrow> u32 \<Rightarrow> u32 \<Rightarrow> (u32 \<times> 'x vfs_scheme) option" where
  "iso_read e s inode data len offset = do {
     kassert (i_type (inodes s inode) = FS_TYPE_ISO9660);
     let entry = i_desc (inodes s inode);
     let sz = de_size (d_mem s) entry;
     if offset \<ge> sz then Some (EOF, s)
     else do {
       let bs = s_block_size (supers s (i_super (inodes s inode)));
       (ended, s) \<leftarrow> iso_read_loop e s inode (de_lba (d_mem s) entry) bs data offset (min len (sz - offset));
       Some (ended - offset, upd_inode s inode (\<lambda>i. i\<lparr>i_atime := now e s\<rparr>))
     }
   }"

text \<open>The name of a record, with the records of the directory itself and of its parent named as usual.\<close>

definition iso_put_name :: "mem \<Rightarrow> u32 \<Rightarrow> u32 \<Rightarrow> mem" where
  "iso_put_name m entry mentry =
     (let name = de_name mentry; len = iso_namelen m name (ucast (de_namelen m mentry)); m = store32 m (entry + 8) len
      in if len = 1 \<and> m name = 0 then m(entry + 12 := 46, entry + 13 := 0)
         else if len = 1 \<and> m name = 1
           then (store32 m (entry + 8) 2)(entry + 12 := 46, entry + 13 := 46, entry + 14 := 0)
         else (memcpy m (entry + 12) name len)(entry + 12 + len := 0))"

definition iso_kfree :: "'x vfs_scheme \<Rightarrow> u32 \<Rightarrow> u32 \<Rightarrow> (u32 \<times> 'x vfs_scheme) option" where
  "iso_kfree s buf ret = do {
     k \<leftarrow> kfree (k_mem (d_k s)) buf;
     Some (ret, with_k s ((d_k s)\<lparr>k_mem := k\<rparr>))
   }"

definition iso_readdir :: "'x fsenv \<Rightarrow> 'x vfs_scheme \<Rightarrow> u32 \<Rightarrow> u32 \<Rightarrow> u32 \<Rightarrow> u32 \<Rightarrow> (u32 \<times> 'x vfs_scheme) option" where
  "iso_readdir e s inode entry cnt offset = do {
     (buf, k) \<leftarrow> kmalloc (k_mem (d_k s)) MAX_DENTRY_SIZE;
     let s = with_k s ((d_k s)\<lparr>k_mem := k\<rparr>);
     if offset \<ge> de_size (d_mem s) (i_desc (inodes s inode)) then iso_kfree s buf EOF
     else do {
       (ret, s) \<leftarrow> iso_read e s inode buf MAX_DENTRY_SIZE offset;
       if sint ret < 0 then iso_kfree s buf ret
       else if de_length (d_mem s) buf = 0 then do {
         let s = upd_mem s (\<lambda>m. store32 (store32 (store32 m (entry + 4) 0) (entry + 8) 0) entry 0);
         iso_kfree s buf ((idiv offset ISO_BLOCK_SIZE + 1) * ISO_BLOCK_SIZE - offset)
       }
       else do {
         kassert (de_namelen (d_mem s) buf < ucast MAXNAMELEN);
         let s = upd_mem s (\<lambda>m. store32 m (entry + 4) (ucast (de_length m buf)));
         let s = upd_mem s (\<lambda>m. iso_put_name m entry buf);
         let s = upd_mem s (\<lambda>m. store32 m entry (de_lba m buf));
         iso_kfree s buf (read32 (d_mem s) (entry + 4))
       }
     }
   }"

definition iso_stat :: "'x vfs_scheme \<Rightarrow> u32 \<Rightarrow> u32 \<Rightarrow> (u32 \<times> 'x vfs_scheme) option" where
  "iso_stat s inode st = do {
     let i = inodes s inode;
     let task = me s;
     let s = upd_mem s (\<lambda>m. store32 m st (i_dev i));
     let s = upd_mem s (\<lambda>m. store32 m (st + 4) (i_nr i));
     let s = upd_mem s (\<lambda>m. store16 m (st + 8) (i_mode i));
     let s = upd_mem s (\<lambda>m. m(st + 10 := 1));
     let s = upd_mem s (\<lambda>m. store16 m (st + 12) (ucast (t_uid task)));
     let s = upd_mem s (\<lambda>m. m(st + 14 := ucast (t_gid task)));
     let s = upd_mem s (\<lambda>m. store32 m (st + 16) 0);
     let s = upd_mem s (\<lambda>m. store32 m (st + 20) (de_size m (i_desc i)));
     let s = upd_mem s (\<lambda>m. store32 m (st + 24) (i_atime i));
     let s = upd_mem s (\<lambda>m. store32 m (st + 28) (i_mtime i));
     Some (0, upd_mem s (\<lambda>m. store32 m (st + 32) (i_ctime i)))
   }"

definition iso_op :: "'x fsenv \<Rightarrow> 'x fs_op_t" where
  "iso_op e =
     (let nosys1 = (\<lambda>s a. Some (fs_default_nosys, s)); nosys2 = (\<lambda>s a b. Some (fs_default_nosys, s));
          nosys3 = (\<lambda>s a b c. Some (fs_default_nosys, s)); nosys4 = (\<lambda>s a b c d. Some (fs_default_nosys, s))
      in \<lparr>op_mkfs = nosys2, op_super = iso_super e, op_open = iso_open e, op_close = iso_close e,
          op_ioctl = nosys3, op_read = iso_read e, op_write = nosys4, op_truncate = nosys1,
          op_stat = iso_stat, op_permission = (\<lambda>s inode want. Some (iso_permission inode want, s)),
          op_namei = iso_namei e, op_mkdir = nosys3, op_rmdir = nosys2, op_link = nosys4, op_unlink = nosys2,
          op_mknod = nosys4, op_readdir = iso_readdir e\<rparr>)"

text \<open>The table is at the address \<open>table\<close>.\<close>

definition iso_init :: "'x vfs_scheme \<Rightarrow> u32 \<Rightarrow> 'x vfs_scheme option" where
  "iso_init s table = fs_register_op s FS_TYPE_ISO9660 table"

end
