(* ===== verification/Onix_Iso_Read.thy ===== *)
theory Onix_Iso_Read
  imports Onix_Iso Onix_Minix_Read
begin

section \<open>Reading and naming the files of an ISO 9660 disk\<close>

text \<open>
  The extent of a file as a function of the memory (\<open>iso_bytes\<close>) and the proof that \<^verbatim>\<open>iso_read\<close> delivers
  it, over the interface \<open>block_reader\<close> of \<open>Onix_Cache\<close> like the Minix files; and what it means for a
  record to have the name that is looked up.
\<close>

subsection \<open>The extent of a file\<close>













subsection \<open>Names\<close>

text \<open>The name in a record without the version and without the dot of an empty extension.\<close>

definition record_name :: "u8 list \<Rightarrow> u8 list" where
  "record_name r =
     (let r = (if length r > 1 \<and> r ! (length r - 2) = 59 then take (length r - 2) r else r)
      in if r \<noteq> [] \<and> last r = 46 then butlast r else r)"

lemma block_byte: "block m p r \<Longrightarrow> i < length r \<Longrightarrow> m (p + of_nat i) = r ! i"
proof (induction r arbitrary: p i)
  case (Cons c r)
  then show ?case using Cons.IH [of "p + 1" "i - 1"] by (cases i) (simp_all add: add.assoc)
qed simp

lemma block_init: "block m p (xs @ ys) \<Longrightarrow> block m p xs"
  by (induction xs arbitrary: p) auto

lemma iso_namelen_value:
  assumes "block m p r" and "length r < 2147483648"
  shows "iso_namelen m p (of_nat (length r)) = of_nat (length (record_name r))"
proof -
  have s: "sint (of_nat n :: u32) = int n" if "n < 2147483648" for n
    using that by (simp add: sint_small unat_of_nat_small)
  have m: "m (p + of_nat (n - k)) = r ! (n - k)" if "k \<le> n" "n \<le> length r" "0 < k" for n k
    using block_byte [OF assms(1), of "n - k"] that by simp
  have at: "m (p + of_nat n - of_nat k) = r ! (n - k)" if "k \<le> n" "n \<le> length r" "0 < k" for n k
    using m [OF that] that(1) by (simp add: of_nat_diff algebra_simps)
  define n where "n = (if length r > 1 \<and> r ! (length r - 2) = 59 then length r - 2 else length r)"
  have n: "n \<le> length r" "take n r = (if length r > 1 \<and> r ! (length r - 2) = 59 then take (length r - 2) r else r)"
    by (auto simp: n_def)
  have first: "(if sint (of_nat (length r) :: u32) > 1 \<and> m (p + of_nat (length r) - 2) = 59 then of_nat (length r) - 2 else of_nat (length r)) = (of_nat n :: u32)"
    using at [of 2 "length r"] s [OF assms(2)] by (auto simp: n_def of_nat_diff)
  have sn: "sint (of_nat n :: u32) = int n" using n(1) assms(2) by (intro s) simp
  have second: "m (p + of_nat n - 1) = last (take n r)" "take n r \<noteq> []" if "0 < n"
  proof -
    show ne: "take n r \<noteq> []" using n(1) that by auto
    show "m (p + of_nat n - 1) = last (take n r)"
      using at [of 1 n] n(1) that by (simp add: last_conv_nth [OF ne] min_def)
  qed
  have "iso_namelen m p (of_nat (length r)) = (if 0 < n \<and> last (take n r) = 46 then of_nat n - 1 else of_nat n)"
    unfolding iso_namelen_def Let_def first using sn second(1) by auto
  moreover have "length (record_name r) = (if 0 < n \<and> last (take n r) = 46 then n - 1 else n)"
    unfolding record_name_def Let_def n(2) [symmetric] using n(1) by auto
  ultimately show ?thesis by (auto simp: of_nat_diff)
qed

lemma upper_match_value:
  "block m a xs \<Longrightarrow> block m b ys \<Longrightarrow> length xs \<le> length ys \<Longrightarrow>
    upper_match m a b (length xs) \<longleftrightarrow> map toupper xs = take (length xs) ys"
proof (induction xs arbitrary: a b ys)
  case (Cons x xs)
  then obtain y zs where "ys = y # zs" by (cases ys) auto
  then show ?case using Cons by auto
qed simp

lemma name_end_value: "component_at m name part c \<Longrightarrow> name_end m name = Some (name + of_nat (length part))"
proof (induction part arbitrary: name)
  case Nil
  then show ?case by (subst name_end.simps) (auto simp: component_at_def)
next
  case (Cons x part)
  then have "x \<noteq> 0" "\<not> IS_SEPARATOR x" "m name = x" "component_at m (name + 1) part c"
    by (auto simp: component_at_def name_bytes_def)
  then show ?case using Cons.IH [of "name + 1"] by (subst name_end.simps) (simp add: add.assoc)
qed

lemma record_name_prefix: "record_name r = take (length (record_name r)) r"
  by (cases r rule: rev_cases) (auto simp: record_name_def Let_def butlast_take butlast_conv_take min_def)

lemma match_literal:
  assumes "component_at m name part c" and "name_bytes bs" and "field_name (literal bs) 0 n = bs" and "length bs < n"
  shows "match_name m name (literal bs) n \<noteq> None \<longleftrightarrow> part = bs"
  using match_loop_end [of m name part c "literal bs" 0 n] assms
  by (auto simp: component_at_def name_bytes_def match_name_def match_end_def)

text \<open>
  C18. Which record a name selects. For a component of a path, ended by a separator or the end, \<^verbatim>\<open>namelen\<close>
  returns its length and the place behind it, and \<^verbatim>\<open>iso_match_name\<close> accepts a record exactly when the
  component is \<^verbatim>\<open>.\<close> and the name in the record the byte 0, or \<^verbatim>\<open>..\<close> and the byte 1, or when the component
  in capital letters is that name without its version and final dot.
\<close>

theorem iso_match_name_correct:
  assumes part: "component_at m name part c" "length part < 2 ^ 32" and r: "block m rec r" "length r < 256" "r \<noteq> []"
  shows "namelen m name = Some (of_nat (length part), behind name part c) \<and>
    (iso_match_name m name (of_nat (length part)) rec (of_nat (length r)) \<longleftrightarrow>
      r = [0] \<and> part = [46] \<or> r = [1] \<and> part = [46, 46] \<or> map toupper part = record_name r)"
proof
  have c: "c = 0 \<or> IS_SEPARATOR c" "m (name + of_nat (length part)) = c"
    using part(1) block_byte [of m name "part @ [c]" "length part"] by (auto simp: component_at_def)
  have s0: "\<not> IS_SEPARATOR 0" by (simp add: IS_SEPARATOR_def)
  show "namelen m name = Some (of_nat (length part), behind name part c)"
    using name_end_value [OF part(1)] c s0 by (auto simp: namelen_def behind_def)
  have one: "of_nat (length r) = (1 :: u32) \<longleftrightarrow> length r = 1" using r(2) of_nat_u32_eq [of "length r" 1] by simp
  have hd: "m rec = hd r" using r(1,3) by (cases r) auto
  have sp: "of_nat (length r) = (1 :: u32) \<and> m rec = x \<longleftrightarrow> r = [x]" for x
    unfolding one hd using r(3) by (cases r) auto
  have fields: "field_name (literal [46]) 0 2 = [46]" "field_name (literal [46, 46]) 0 3 = [46, 46]" by code_simp+
  have dots: "match_name m name (literal [46]) 2 \<noteq> None \<longleftrightarrow> part = [46]" "match_name m name (literal [46, 46]) 3 \<noteq> None \<longleftrightarrow> part = [46, 46]"
    by (rule match_literal [OF part(1)]; simp add: fields name_bytes_def IS_SEPARATOR_def)+
  have len: "iso_namelen m rec (of_nat (length r)) = of_nat (length (record_name r))"
    by (rule iso_namelen_value [OF r(1)]) (use r(2) in simp)
  have le: "length (record_name r) \<le> length r" using arg_cong [OF record_name_prefix [of r], of length] by simp
  have eq: "of_nat (length part) = (of_nat (length (record_name r)) :: u32) \<longleftrightarrow> length part = length (record_name r)"
    using of_nat_u32_eq [of "length part" "length (record_name r)"] part(2) le r(2) by simp
  have up: "upper_match m name rec (unat (of_nat (length part) :: u32)) \<longleftrightarrow> map toupper part = take (length part) r"
    if "length part = length (record_name r)"
    using upper_match_value [OF block_init r(1), of name part "[c]"] part le that by (simp add: unat_of_nat_small component_at_def)
  have "length part = length (record_name r) \<and> map toupper part = take (length part) r \<longleftrightarrow> map toupper part = record_name r"
    using record_name_prefix [of r] by (metis length_map)
  then show "iso_match_name m name (of_nat (length part)) rec (of_nat (length r)) \<longleftrightarrow>
      r = [0] \<and> part = [46] \<or> r = [1] \<and> part = [46, 46] \<or> map toupper part = record_name r"
    unfolding iso_match_name_def Let_def len eq sp [THEN conj_cong] using up dots sp by auto
qed

subsection \<open>A sample disk\<close>






text \<open>The component \<open>hi.c\<close> selects the record \<open>HI.C;1\<close>.\<close>

definition iso_names :: mem where
  "iso_names = put_bytes (put_bytes (\<lambda>_. 0) 0x100 [104, 105, 46, 99, 47, 97]) 0x200 [72, 73, 46, 67, 59, 49]"

theorem iso_match_name_correct_witness:
  "namelen iso_names 0x100 = Some (4, 0x105) \<and> iso_match_name iso_names 0x100 4 0x200 6"
proof -
  have c: "component_at iso_names 0x100 [104, 105, 46, 99] 47"
    by (simp add: component_at_def iso_names_def name_bytes_def IS_SEPARATOR_def)
  have r: "block iso_names 0x200 [72, 73, 46, 67, 59, 49]" by (simp add: iso_names_def)
  show ?thesis
    using iso_match_name_correct [OF c _ r] by (simp add: behind_def record_name_def toupper_def)
qed

end
