(* ===== verification/Spec2Isabelle.thy ===== *)
theory Spec2Isabelle
  imports Onix_List Onix_Bitmap Onix_Fifo Onix_String Onix_Stdlib Onix_Pages Onix_Paging Onix_Arena
    Onix_Task Onix_Mutex Onix_Signal Onix_Fpu Onix_Device Onix_Buffer Onix_Vfs Onix_Namei Onix_Fsyscall Onix_Process
    Onix_Time Onix_Printf Onix_Net Onix_Cache Onix_Minix Onix_Minix_Read
    Onix_Pbuf Onix_Netif Onix_Arp Onix_Ip Onix_Udp Onix_Socket
    Onix_Tcp_Pcb Onix_Tcp_Output Onix_Tcp_Input Onix_Tcp Onix_Net_Sample Onix_Demux Onix_Scatter Onix_Tcp_Numbers
    Onix_Tcp_States Onix_Tcp_Life Onix_Pipe Onix_Exec Onix_Exec_Args Onix_Iso Onix_Iso_Read
begin

text \<open>
  The Onix kernel, modelled from its C sources (paths below are relative to \<^verbatim>\<open>src/src\<close>).

  \<^bold>\<open>The program.\<close> Onix is a small 32-bit kernel. At the bottom are pages, page tables and a heap
  (\<^verbatim>\<open>kernel/memory.c\<close>, \<^verbatim>\<open>kernel/arena.c\<close>); a scheduler with timers, mutexes and signals runs tasks over them
  (\<^verbatim>\<open>kernel/task.c\<close>, \<^verbatim>\<open>timer.c\<close>, \<^verbatim>\<open>mutex.c\<close>, \<^verbatim>\<open>signal.c\<close>); block devices are read through a request queue and a
  buffer cache (\<^verbatim>\<open>kernel/device.c\<close>, \<^verbatim>\<open>buffer.c\<close>); inodes, path names and open files sit on the cache (\<^verbatim>\<open>fs/*.c\<close>)
  and the Minix file system below them (\<^verbatim>\<open>fs/minix\<close>); the network code (\<^verbatim>\<open>net/*.c\<close>) passes packet buffers
  between interfaces, protocols and sockets. The C library of the kernel (\<^verbatim>\<open>lib/*.c\<close>) serves all of them.

  \<^bold>\<open>The state.\<close> A pointer is an address, a \<^verbatim>\<open>u32\<close>, and a structure is a record found under its address. The
  records of the state contain or extend one another in the order in which the layers use each other: \<open>list_heap\<close>
  (the prev and next pointer of every list node) is a field of \<open>kmem\<close> (pages and heap), this of \<open>kernel\<close> (tasks and
  timers), this of \<open>lsys\<close> (locks), this of \<open>dsys\<close> (devices, requests, the byte memory); \<open>dsys\<close> is extended by \<open>bsys\<close>
  (buffers), \<open>vfs\<close> (page tables, inodes, super blocks, files) and \<open>psys\<close> (processes), \<open>nsys\<close> (packet
  buffers, interfaces, ARP entries, control blocks of UDP, raw and packet sockets), \<open>tsys\<close> (control blocks of
  TCP); \<open>pipesys\<close> extends \<open>vfs\<close> by the ring buffers of pipes. A function of C is a HOL function from the state to an option of its
  results and the new state; \<open>None\<close> is a failed assertion, a panic, a dereference of NULL, or a loop that
  does not end. Error codes are the negative words the code returns. Loops over lists are
  \<open>partial_function (option)\<close>, so nothing has to be known to define them; a property that states their result
  proves that they return, while the properties of the life of a TCP connection speak of the steps that return. Other
  loops that count are structural over a natural number, taken from the word they
  count, so no fuel is chosen anywhere.

  \<^bold>\<open>The theories, in the order of the layers.\<close>
  \<^item> \<open>Onix_Prelude\<close>: words, assertions, little-endian loads and stores, division of ints.
  \<^item> \<open>Onix_List\<close>, \<open>Onix_Bitmap\<close>, \<open>Onix_Fifo\<close>, \<open>Onix_String\<close>, \<open>Onix_Stdlib\<close>, \<open>Onix_Printf\<close>, \<open>Onix_Time\<close>:
    \<^verbatim>\<open>lib/list.c\<close>, \<^verbatim>\<open>bitmap.c\<close>, \<^verbatim>\<open>fifo.c\<close>, \<^verbatim>\<open>string.c\<close>, \<^verbatim>\<open>stdlib.c\<close>, \<^verbatim>\<open>vsprintf.c\<close>, \<^verbatim>\<open>lib/time.c\<close>, \<^verbatim>\<open>kernel/time.c\<close>,
    \<^verbatim>\<open>rtc.c\<close>. Lists on pointers are shown to be lists (\<open>list_rep\<close>), the bitmap scan to be first fit, the
    printed numbers to follow a layout and to be read back, the dates to agree with the calendar.
  \<^item> \<open>Onix_Pages\<close>, \<open>Onix_Paging\<close>, \<open>Onix_Arena\<close>: \<^verbatim>\<open>kernel/memory.c\<close>, \<^verbatim>\<open>arena.c\<close>. The pool of pages from boot on, the
    translation by page tables under copy on write and page faults, the classes of the heap.
  \<^item> \<open>Onix_Task_Data\<close>, \<open>Onix_Task\<close>, \<open>Onix_Mutex\<close>, \<open>Onix_Signal\<close>, \<open>Onix_Fpu\<close>: \<^verbatim>\<open>kernel/task.c\<close> (switching, blocking),
    \<^verbatim>\<open>timer.c\<close>, \<^verbatim>\<open>clock.c\<close>, \<^verbatim>\<open>mutex.c\<close>, \<^verbatim>\<open>signal.c\<close>, \<^verbatim>\<open>alarm.c\<close>, \<^verbatim>\<open>fpu.c\<close>. The locks are a step relation over all
    interleavings at the points where a task waits or is preempted, with an invariant by rule induction.
  \<^item> \<open>Onix_Device\<close>, \<open>Onix_Buffer\<close>, \<open>Onix_Cache\<close>: \<^verbatim>\<open>kernel/device.c\<close>, \<^verbatim>\<open>buffer.c\<close>. \<open>Onix_Cache\<close> states what the
    clients of the cache rely on as the locale \<open>block_reader\<close>, interpreted on the code's \<^verbatim>\<open>bread\<close> and \<^verbatim>\<open>brelse\<close>.
  \<^item> \<open>Onix_Vfs\<close>, \<open>Onix_Namei\<close>, \<open>Onix_Fsyscall\<close>: \<^verbatim>\<open>fs/file.c\<close>, \<^verbatim>\<open>inode.c\<close>, \<^verbatim>\<open>super.c\<close>, \<^verbatim>\<open>namei.c\<close>, \<^verbatim>\<open>fsyscall.c\<close>. Reference
    counts of inodes over path walks and system calls, comparison of names, descriptors.
  \<^item> \<open>Onix_Minix\<close>, \<open>Onix_Minix_Read\<close>: \<^verbatim>\<open>fs/minix/minix.c\<close>. The file system on the bytes of cached blocks; reading
    refines a file that is a list of bytes, and looking up a name a directory that is a list of entries.
  \<^item> \<open>Onix_Process\<close>: \<^verbatim>\<open>kernel/task.c\<close> (creation, fork, exit, wait), \<^verbatim>\<open>system.c\<close>.
  \<^item> \<open>Onix_Net\<close>: \<^verbatim>\<open>net/chksum.c\<close>, \<^verbatim>\<open>addr.c\<close>, \<^verbatim>\<open>port.c\<close>. Checksums and their verification, addresses, ports.
  \<^item> \<open>Onix_Pipe\<close>, \<open>Onix_Exec\<close>, \<open>Onix_Exec_Args\<close>: \<^verbatim>\<open>fs/pipe/pipe.c\<close>, \<^verbatim>\<open>kernel/execve.c\<close>. A pipe refines a queue of bytes, and
    closing it halts; the loading of an ELF file, and the layout of arguments and environment on the new stack.
  \<^item> \<open>Onix_Iso\<close>, \<open>Onix_Iso_Read\<close>: \<^verbatim>\<open>fs/iso9660/iso9660.c\<close>. Reading refines the extent of the file, comparison of names.
  \<^item> \<open>Onix_Pbuf\<close>, \<open>Onix_Netif\<close>, \<open>Onix_Arp\<close>, \<open>Onix_Ip\<close>, \<open>Onix_Udp\<close>, \<open>Onix_Socket\<close>: \<^verbatim>\<open>net/pbuf.c\<close>, \<^verbatim>\<open>iovec.c\<close>, \<^verbatim>\<open>netif.c\<close>, \<^verbatim>\<open>loopif.c\<close>,
    \<^verbatim>\<open>eth.c\<close>, \<^verbatim>\<open>arp.c\<close>, \<^verbatim>\<open>ip.c\<close>, \<^verbatim>\<open>icmp.c\<close>, \<^verbatim>\<open>raw.c\<close>, \<^verbatim>\<open>pkt.c\<close>, \<^verbatim>\<open>udp.c\<close>, \<^verbatim>\<open>socket.c\<close>. Every operation; the tasks of the network
    by one round of their loops.
  \<^item> \<open>Onix_Tcp_Pcb\<close>, \<open>Onix_Tcp_Output\<close>, \<open>Onix_Tcp_Input\<close>, \<open>Onix_Tcp\<close>: \<^verbatim>\<open>net/tcp_pcb.c\<close>, \<^verbatim>\<open>tcp_option.c\<close>, \<^verbatim>\<open>tcp_output.c\<close>,
    \<^verbatim>\<open>tcp_input.c\<close>, \<^verbatim>\<open>tcp_timer.c\<close>, \<^verbatim>\<open>tcp.c\<close>.
  \<^item> \<open>Onix_Tcp_States\<close>, \<open>Onix_Tcp_Life\<close>: no function of TCP moves a connection but along the edges of the state
    diagram; the histories of a connection are an inductive relation, on which the invariants are shown.
  \<^item> \<open>Onix_Demux\<close>, \<open>Onix_Scatter\<close>, \<open>Onix_Tcp_Numbers\<close>: which interface, socket and control block a packet belongs to;
    data scattered over the pieces of a vector and collected again; options, the round-trip estimator and the
    congestion window, equal to reference definitions on integers. \<open>Onix_Net_Sample\<close> is the small network
    of their witnesses.

  \<^bold>\<open>Interfaces.\<close> Four locales state what a client relies on, with the client's lemmas inside: \<open>wait_queue\<close> (lists in
  \<open>Onix_List\<close>), \<open>bounded_queue\<close> (rings in \<open>Onix_Fifo\<close>), \<open>page_source\<close> (the pool in \<open>Onix_Pages\<close>), \<open>block_reader\<close> (the
  cache in \<open>Onix_Cache\<close>); each is interpreted on the functions of the code where these are modelled.

  \<^bold>\<open>Parameters.\<close> What the kernel reaches through pointers that other code installs is an argument: the
  functions of drivers (\<open>denv\<close>), the tables of file systems (\<open>fsenv\<close>), the functions of the
  network cards and of the types of sockets, the handlers of timers, the registers
  of the CMOS clock and the arithmetic of the floating point unit. A task that waits continues in the state
  that the rest of the system has produced, \<open>dn_others\<close>. A property about code that does not wait proves that it is
  not called; a property about code that may wait names what it assumes of the other tasks (such as \<open>others_keep\<close> or
  \<open>counts_kept\<close>), and its witness has a concrete instance.

  \<^bold>\<open>Bounds.\<close> Integers have the width of the source and wrap; sizes in hypotheses (a file below 2 GiB,
  reference counts below the largest word) are those the data structures of the source imply or are
  named in the property.

  \<^bold>\<open>Not modelled.\<close> Drivers that only program hardware ports (\<^verbatim>\<open>ide.c\<close>, \<^verbatim>\<open>floppy.c\<close>, \<^verbatim>\<open>e1000.c\<close>, \<^verbatim>\<open>sb16.c\<close>, \<^verbatim>\<open>serial.c\<close>,
  \<^verbatim>\<open>pci.c\<close>, \<^verbatim>\<open>isa.c\<close>, \<^verbatim>\<open>console.c\<close>, \<^verbatim>\<open>keyboard.c\<close>), the set-up of descriptor tables and interrupt gates, the
  assembler files but for \<^verbatim>\<open>lib/restorer.asm\<close> (in \<open>Onix_Signal\<close>), the programs under \<^verbatim>\<open>builtin\<close>, and the stubs of system calls in \<^verbatim>\<open>lib/syscall.c\<close>: their
  effect is on devices and registers the model does not have. Logging is left out everywhere.
  Left out although most of what they do is to call modelled functions: the DHCP client and the resolver
  (\<^verbatim>\<open>net/dhcp.c\<close>, \<^verbatim>\<open>resolv.c\<close>), the set-up of \<^verbatim>\<open>/dev\<close> (\<^verbatim>\<open>fs/dev.c\<close>) and the terminal (\<^verbatim>\<open>kernel/tty.c\<close>).
\<close>

end
